(* ===== verification/Prelude.thy ===== *)
theory Prelude
  imports Main "HOL-Library.AList" "HOL-Library.Char_ord" "HOL-Library.List_Lexorder"
begin

section \<open>Shared vocabulary of the development\<close>

text \<open>
  The vocabulary every other theory uses: Go's error values, results, association lists
  standing for Go maps, and the generic lemmas and rule collections the component proofs share.

  A Go \<open>string\<close> is a sequence of bytes, which is what HOL's \<^typ>\<open>string\<close> (a list of
  8-bit \<^typ>\<open>char\<close>) is; the orders of \<open>HOL-Library.Char_ord\<close> and
  \<open>HOL-Library.List_Lexorder\<close> make \<open>\<le>\<close> on it Go's bytewise string comparison.
\<close>

named_theorems inv_intro \<open>introduction rules for component invariants\<close>
named_theorems step_simps \<open>equations that evaluate one operation of a component\<close>
named_theorems frame_simps \<open>equations saying what an operation leaves alone\<close>

subsection \<open>Errors\<close>

text \<open>
  A package-level \<open>errors.New\<close> variable is a \<open>Sentinel\<close>, told apart by its text (no two
  of the modelled ones share it); an error made on the spot, or one that comes from outside the
  repository, is \<open>Opaque\<close>; \<open>fmt.Errorf\<close> with a \<open>%w\<close> verb is \<open>Wrap\<close>, with
  the text before and after the verb. \<open>err_is\<close> is \<open>errors.Is\<close> against a sentinel.
\<close>

datatype goerr = Sentinel string | Opaque string | Wrap string goerr string

fun err_is :: "goerr \<Rightarrow> goerr \<Rightarrow> bool" where
  "err_is (Wrap pre e post) t = (Wrap pre e post = t \<or> err_is e t)"
| "err_is e t = (e = t)"

fun err_text :: "goerr \<Rightarrow> string" where
  "err_text (Sentinel s) = s"
| "err_text (Opaque s) = s"
| "err_text (Wrap pre e post) = pre @ err_text e @ post"

lemma err_is_Sentinel [simp]: "err_is (Sentinel a) t \<longleftrightarrow> Sentinel a = t"
  by simp

lemma err_is_self [simp]: "err_is e e"
  by (cases e) auto

text \<open>A call that returns a value and an error returns \<open>Inl\<close> the error or \<open>Inr\<close> the value.\<close>

type_synonym 'a res = "goerr + 'a"

text \<open>The instants of \<open>time.Time\<close> are counted in nanoseconds; zero is the zero \<open>time.Time\<close>.\<close>

type_synonym gotime = int

abbreviation (input) zero_time :: gotime where "zero_time \<equiv> 0"

text \<open>\<open>strings.Join\<close>.\<close>

fun join :: "string \<Rightarrow> string list \<Rightarrow> string" where
  "join sep [] = ''''"
| "join sep [x] = x"
| "join sep (x # y # ys) = x @ sep @ join sep (y # ys)"

subsection \<open>Association lists\<close>

text \<open>
  A Go map is an association list with distinct keys. Go iterates over a map in no particular
  order; every place modelled here either looks a key up or sorts what it collects.
\<close>

abbreviation keys_ok :: "('k \<times> 'v) list \<Rightarrow> bool" where
  "keys_ok m \<equiv> distinct (map fst m)"

lemma keys_ok_update [inv_intro]: "keys_ok m \<Longrightarrow> keys_ok (AList.update k v m)"
  by (rule distinct_update)

lemma keys_ok_delete [inv_intro]: "keys_ok m \<Longrightarrow> keys_ok (AList.delete k m)"
  by (rule distinct_delete)

lemma map_of_AList_update [simp]: "map_of (AList.update k v m) = (map_of m)(k \<mapsto> v)"
  by (rule update_conv')

lemma map_of_AList_delete [simp]: "map_of (AList.delete k m) = (map_of m)(k := None)"
  by (rule delete_conv')

lemma map_of_iff_mem: "keys_ok m \<Longrightarrow> map_of m k = Some v \<longleftrightarrow> (k, v) \<in> set m"
  by (rule map_of_eq_Some_iff)

subsection \<open>Lists\<close>

lemma list_all_update:
  "list_all P xs \<Longrightarrow> P x \<Longrightarrow> list_all P (xs[i := x])"
  by (auto simp: list_all_length nth_list_update split: if_splits)
     (metis nth_list_update_eq nth_list_update_neq)

lemma list_all_nth: "list_all P xs \<Longrightarrow> i < length xs \<Longrightarrow> P (xs ! i)"
  by (simp add: list_all_length)

text \<open>Finding, replacing and removing an element by a key that is distinct.\<close>

lemma find_key:
  "distinct (map f xs) \<Longrightarrow> find (\<lambda>x. f x = k) xs = Some x \<longleftrightarrow> x \<in> set xs \<and> f x = k"
  by (induction xs) (auto simp: image_iff)

lemma find_SomeD: "find P xs = Some x \<Longrightarrow> x \<in> set xs \<and> P x"
  by (induction xs) (auto split: if_splits)

lemma find_key_None: "find (\<lambda>x. f x = k) xs = None \<longleftrightarrow> k \<notin> f ` set xs"
  by (auto simp: find_None_iff)

lemma set_update_distinct:
  assumes "distinct (map f xs)" "i < length xs" "f y = f (xs ! i)"
  shows "distinct (map f (xs[i := y]))" "set (xs[i := y]) = insert y {x \<in> set xs. f x \<noteq> f y}"
proof -
  have m: "map f (xs[i := y]) = map f xs" using assms(2,3) by (simp add: map_update list_update_same_conv)
  show "distinct (map f (xs[i := y]))" using m assms(1) by simp
  have x: "xs = take i xs @ xs ! i # drop (Suc i) xs" using assms(2) by (rule id_take_nth_drop)
  have d: "distinct (map f (take i xs @ xs ! i # drop (Suc i) xs))" using assms(1) x by metis
  then have n: "\<forall>x \<in> set (take i xs) \<union> set (drop (Suc i) xs). f x \<noteq> f y"
    using assms(3) by (auto simp: image_iff)
  have "xs[i := y] = take i xs @ y # drop (Suc i) xs" using assms(2) by (rule upd_conv_take_nth_drop)
  moreover have "set xs = set (take i xs) \<union> {xs ! i} \<union> set (drop (Suc i) xs)" by (subst x) auto
  ultimately show "set (xs[i := y]) = insert y {x \<in> set xs. f x \<noteq> f y}" using n assms(3) by auto
qed

lemma set_remove_distinct:
  assumes "distinct (map f xs)" "i < length xs"
  shows "distinct (map f (take i xs @ drop (i + 1) xs))"
    "set (take i xs @ drop (i + 1) xs) = {x \<in> set xs. f x \<noteq> f (xs ! i)}"
proof -
  have x: "xs = take i xs @ xs ! i # drop (i + 1) xs" using assms(2) by (simp add: id_take_nth_drop)
  have d: "distinct (map f (take i xs @ xs ! i # drop (i + 1) xs))" using assms(1) x by metis
  show "distinct (map f (take i xs @ drop (i + 1) xs))" using d by auto
  have n: "\<forall>x \<in> set (take i xs) \<union> set (drop (i + 1) xs). f x \<noteq> f (xs ! i)"
    using d by (auto simp: image_iff)
  have "set xs = set (take i xs) \<union> {xs ! i} \<union> set (drop (i + 1) xs)" by (subst x) auto
  then show "set (take i xs @ drop (i + 1) xs) = {x \<in> set xs. f x \<noteq> f (xs ! i)}" using n by auto
qed

text \<open>A list that is strictly sorted by its keys is determined by its elements.\<close>

lemma strictly_sorted_unique:
  fixes a b :: "('k :: linorder \<times> 'v) list"
  shows "sorted_wrt (<) (map fst a) \<Longrightarrow> sorted_wrt (<) (map fst b) \<Longrightarrow> set a = set b \<Longrightarrow> a = b"
proof (induction a arbitrary: b)
  case (Cons x a)
  then obtain y b' where b: "b = y # b'" by (cases b) auto
  have "x = y"
  proof (rule ccontr)
    assume "x \<noteq> y"
    then have "x \<in> set b'" "y \<in> set a" using Cons.prems(3) b by auto
    then have "fst y < fst x" "fst x < fst y" using Cons.prems(1,2) b by auto
    then show False by simp
  qed
  moreover have "x \<notin> set a" "y \<notin> set b'" using Cons.prems(1,2) b by auto
  ultimately show ?case using Cons b by (metis insert_ident list.simps(9,15) sorted_wrt.simps(2))
qed simp

text \<open>A fact about every number below a literal bound is checked by evaluation.\<close>

lemma upt_cases: "k < n \<Longrightarrow> list_all P [0..<n] \<Longrightarrow> P k"
  by (simp add: list_all_iff)

subsection \<open>Loops\<close>

text \<open>
  A loop that nothing in the code bounds: each round goes on with a new state (\<open>Inl\<close>) or stops
  with a result (\<open>Inr\<close>). Its value is None when it never stops, so that a claim that it
  returns has to be proved; \<open>loop_returns\<close> is how.
\<close>

partial_function (option) loop :: "('a \<Rightarrow> 'a + 'b) \<Rightarrow> 'a \<Rightarrow> 'b option" where
  "loop step a = (case step a of Inl a' \<Rightarrow> loop step a' | Inr b \<Rightarrow> Some b)"

declare loop.simps [code]

lemma loop_stop [simp]: "step a = Inr b \<Longrightarrow> loop step a = Some b"
  by (simp add: loop.simps)

lemma loop_next: "step a = Inl a' \<Longrightarrow> loop step a = loop step a'"
  by (subst loop.simps) simp

lemma loop_returns:
  assumes "\<And>a a'. I a \<Longrightarrow> step a = Inl a' \<Longrightarrow> I a' \<and> (m a' :: nat) < m a" "I a"
  shows "\<exists>b. loop step a = Some b"
  using assms(2)
proof (induction a rule: measure_induct_rule[of m])
  case (less a)
  show ?case
  proof (cases "step a")
    case (Inl a') then show ?thesis using less assms(1) by (simp add: loop_next)
  qed simp
qed

lemma loop_result:
  assumes "loop step a = Some b" "I a" "\<And>a a'. I a \<Longrightarrow> step a = Inl a' \<Longrightarrow> I a'"
  shows "\<exists>a'. I a' \<and> step a' = Inr b"
proof -
  have "s = step \<Longrightarrow> I a \<Longrightarrow> \<exists>a'. I a' \<and> step a' = Inr b" if "loop s a = Some b" for s
  proof (rule loop.raw_induct[where P = "\<lambda>s a b. s = step \<longrightarrow> I a \<longrightarrow> (\<exists>a'. I a' \<and> step a' = Inr b)",
      THEN mp, THEN mp, OF _ that], goal_cases)
    case (1 lp s a b)
    then show ?case using assms(3) by (cases "s a") auto
  qed
  then show ?thesis using assms(1,2) by blast
qed

lemma loop_half:
  assumes "loop s a = Some b" "I a" "\<And>a. I a \<Longrightarrow> s a = s' a" "\<And>a a'. I a \<Longrightarrow> s a = Inl a' \<Longrightarrow> I a'"
  shows "loop s' a = Some b"
proof -
  have "t = s \<Longrightarrow> I a \<Longrightarrow> loop s' a = Some b" if "loop t a = Some b" for t
  proof (rule loop.raw_induct[where P = "\<lambda>t a b. t = s \<longrightarrow> I a \<longrightarrow> loop s' a = Some b", THEN mp, THEN mp, OF _ that], goal_cases)
    case (1 lp u c d)
    show ?case
    proof (intro impI)
      assume u: "u = s" and i: "I c"
      show "loop s' c = Some d"
      proof (cases "s c")
        case (Inl c')
        then have "lp s c' = Some d" using 1 u by auto
        then have "loop s' c' = Some d" using 1 u assms(4)[OF i Inl] by auto
        then show ?thesis using loop_next[of s' c c'] assms(3)[OF i] Inl by simp
      next
        case (Inr b')
        then have "d = b'" using 1 u by auto
        then show ?thesis using Inr assms(3)[OF i] loop_stop[of s' c b'] by simp
      qed
    qed
  qed
  then show ?thesis using assms(1,2) by blast
qed

text \<open>Two loops whose rounds agree wherever they get to.\<close>

lemma loop_cong:
  assumes "I a" "\<And>a. I a \<Longrightarrow> s a = s' a" "\<And>a a'. I a \<Longrightarrow> s a = Inl a' \<Longrightarrow> I a'"
  shows "loop s a = loop s' a"
proof -
  have "loop s' a = Some b" if "loop s a = Some b" for b
    by (rule loop_half[where I = I, OF that assms(1)]) (use assms(2,3) in simp_all)
  moreover have "loop s a = Some b" if l: "loop s' a = Some b" for b
    by (rule loop_half[where I = I, OF l assms(1)]) (use assms(2,3) in \<open>simp_all\<close>)
  ultimately show ?thesis by (cases "loop s a"; cases "loop s' a") auto
qed

end
