(* ===== verification/SandboxBase.thy ===== *)
theory SandboxBase
  imports Prelude
begin

section \<open>Sandboxes: the vocabulary of states, events and backends\<close>

text \<open>
  The types of \<open>metaharness/sandbox\<close> that the manager and the backends share: lifecycle
  states (\<open>state.go\<close>), lifecycle events (\<open>observer.go\<close>), what a backend offers
  (\<open>backend.go\<close>), and the registry that turns a backend kind into a backend
  (\<open>registry.go\<close>).
\<close>

subsection \<open>Lifecycle states\<close>

datatype state =
    StateUnknown | StatePreparing | StateReady | StateExecuting
  | StateStopping | StateStopped | StateDestroying | StateDestroyed

fun state_String :: "state \<Rightarrow> string" where
  "state_String StateUnknown = ''unknown''"
| "state_String StatePreparing = ''preparing''"
| "state_String StateReady = ''ready''"
| "state_String StateExecuting = ''executing''"
| "state_String StateStopping = ''stopping''"
| "state_String StateStopped = ''stopped''"
| "state_String StateDestroying = ''destroying''"
| "state_String StateDestroyed = ''destroyed''"

text \<open>The states a live sandbox rests in between two requests.\<close>

definition resting :: "state \<Rightarrow> bool" where
  "resting s \<longleftrightarrow> s = StateUnknown \<or> s = StateReady \<or> s = StateStopped"

subsection \<open>Events\<close>

datatype event_type =
    EventPrepared | EventPrepareFailed | EventStopped | EventStopFailed
  | EventDestroyed | EventDestroyFailed | EventObserved | EventReconcileFailed

fun event_type_String :: "event_type \<Rightarrow> string" where
  "event_type_String EventPrepared = ''prepared''"
| "event_type_String EventPrepareFailed = ''prepare failed''"
| "event_type_String EventStopped = ''stopped''"
| "event_type_String EventStopFailed = ''stop failed''"
| "event_type_String EventDestroyed = ''destroyed''"
| "event_type_String EventDestroyFailed = ''destroy failed''"
| "event_type_String EventObserved = ''observed''"
| "event_type_String EventReconcileFailed = ''reconcile failed''"

record event =
  ev_Type :: event_type
  ev_Name :: string
  ev_From :: state
  ev_To :: state
  ev_Err :: "goerr option"

subsection \<open>Commands and backends\<close>

record command =
  cmd_Cmd :: string
  cmd_Args :: "string list"

record exec_result =
  Stdout :: string
  Stderr :: string
  ExitCode :: int

definition empty_result :: exec_result where
  "empty_result = \<lparr>Stdout = '''', Stderr = '''', ExitCode = 0\<rparr>"

record spec =
  sp_Name :: string
  sp_Image :: string

datatype backend_state = BackendStopped | BackendRunning

record backend_sandbox =
  bs_Name :: string
  bs_Image :: string
  bs_State :: backend_state

text \<open>
  A backend is the record of its operations. Each one acts on the world \<open>'w\<close> outside the
  manager, which also holds the clock: an operation takes time.
\<close>

record 'w backend =
  be_EnsureReady :: "spec \<Rightarrow> 'w \<Rightarrow> goerr option \<times> 'w"
  be_Exec :: "string \<Rightarrow> command \<Rightarrow> 'w \<Rightarrow> (exec_result \<times> goerr option) \<times> 'w"
  be_Stop :: "string \<Rightarrow> 'w \<Rightarrow> goerr option \<times> 'w"
  be_Destroy :: "string \<Rightarrow> 'w \<Rightarrow> goerr option \<times> 'w"
  be_List :: "'w \<Rightarrow> backend_sandbox list res \<times> 'w"
  be_Close :: "'w \<Rightarrow> goerr option \<times> 'w"

subsection \<open>The backend registry\<close>

text \<open>
  \<open>Register\<close> panics on an empty kind, a nil constructor and a kind already taken; a panic
  is \<open>None\<close>. A constructor is an opaque value \<open>'b\<close> applied to a root directory.
\<close>

type_synonym 'b registry = "(string \<times> (string \<Rightarrow> 'b res)) list"

definition ErrUnknownBackend :: goerr where
  "ErrUnknownBackend = Sentinel ''sandbox: unknown backend''"

definition Register ::
  "string \<Rightarrow> (string \<Rightarrow> 'b res) option \<Rightarrow> 'b registry \<Rightarrow> 'b registry option" where
  "Register kind constructor reg =
     (if kind = '''' then None
      else case constructor of
        None \<Rightarrow> None
      | Some f \<Rightarrow> if map_of reg kind \<noteq> None then None else Some (AList.update kind f reg))"

definition Backends :: "'b registry \<Rightarrow> string list" where
  "Backends reg = sort (map fst reg)"

definition NewBackend :: "(string \<Rightarrow> string) \<Rightarrow> string \<Rightarrow> string \<Rightarrow> 'b registry \<Rightarrow> 'b res" where
  "NewBackend quote kind root reg =
     (case map_of reg kind of
        None \<Rightarrow> Inl (Wrap '''' ErrUnknownBackend
                  ('' '' @ quote kind @ '': have '' @ join '', '' (Backends reg) @
                   '' (a backend is registered by importing its package)''))
      | Some open_backend \<Rightarrow> open_backend root)"

end
