(* ===== verification/SandboxEntry.thy ===== *)
theory SandboxEntry
  imports SandboxBase
begin

section \<open>One sandbox: the entry and the requests its goroutine serves\<close>

text \<open>
  The \<open>entry\<close> of \<open>metaharness/sandbox/manager.go\<close> and everything its goroutine does: one
  definition per handler, with the source's name. A handler works on a \<open>run\<close>: the entry, the
  world (backend and clock) and the log of what can be seen from outside, in order: each snapshot
  published for \<open>Inspect\<close>, each event reported to the observer, each backend call with whether
  it succeeded.

  A timer is the pending callback of \<open>armIdle\<close>; once it fires it waits in \<open>ask\<close> like any
  other caller, which is an element of \<open>e_wakeups\<close>. \<open>Timer.Stop\<close> calls off a callback that
  has not fired and cannot recall one that has.
\<close>

record info =
  i_Name :: string
  i_State :: state
  i_Image :: string
  i_LastExec :: gotime
  i_DueAt :: gotime

datatype timer = Timer (timer_due: gotime) (timer_fired: bool)

record entry =
  e_spec :: spec
  e_state :: state
  e_due :: gotime
  e_lastExec :: gotime
  e_timer :: "timer option"
  e_wakeups :: "gotime list"
  e_gone :: "goerr option"
  e_snap :: info

datatype obs =
    Published info
  | Reported event
  | CallEnsureReady string bool
  | CallExec string bool
  | CallStop string bool
  | CallDestroy string bool
  | Found string state

record 'w run =
  r_entry :: entry
  r_world :: 'w
  r_log :: "obs list"

record 'w mgr_cfg =
  c_backend :: "'w backend"
  c_Now :: "'w \<Rightarrow> gotime \<times> 'w"
  c_idle :: int
  c_image :: string
  c_observer :: bool

definition ErrNameRequired :: goerr where "ErrNameRequired = Sentinel ''sandbox: a name is required''"
definition ErrDestroyed :: goerr where "ErrDestroyed = Sentinel ''sandbox: destroyed''"
definition ErrClosed :: goerr where "ErrClosed = Sentinel ''sandbox: handle is closed''"
definition ErrShutdown :: goerr where "ErrShutdown = Sentinel ''sandbox: the manager is closed''"

subsection \<open>The small steps handlers are made of\<close>

definition snap_of :: "entry \<Rightarrow> info" where
  "snap_of e = \<lparr>i_Name = sp_Name (e_spec e), i_State = e_state e, i_Image = sp_Image (e_spec e),
     i_LastExec = e_lastExec e, i_DueAt = e_due e\<rparr>"

definition log_obs :: "obs \<Rightarrow> 'w run \<Rightarrow> 'w run" where
  "log_obs x r = r\<lparr>r_log := r_log r @ [x]\<rparr>"

definition publish :: "'w run \<Rightarrow> 'w run" where
  "publish r =
     (let i = snap_of (r_entry r)
      in log_obs (Published i) (r\<lparr>r_entry := (r_entry r)\<lparr>e_snap := i\<rparr>\<rparr>))"

definition commit :: "state \<Rightarrow> 'w run \<Rightarrow> 'w run" where
  "commit s r = publish (r\<lparr>r_entry := (r_entry r)\<lparr>e_state := s\<rparr>\<rparr>)"

definition emit ::
  "'w mgr_cfg \<Rightarrow> event_type \<Rightarrow> state \<Rightarrow> state \<Rightarrow> goerr option \<Rightarrow> 'w run \<Rightarrow> 'w run" where
  "emit c t from to err r =
     (if c_observer c
      then log_obs (Reported \<lparr>ev_Type = t, ev_Name = sp_Name (e_spec (r_entry r)),
             ev_From = from, ev_To = to, ev_Err = err\<rparr>) r
      else r)"

definition stopTimer :: "'w run \<Rightarrow> 'w run" where
  "stopTimer r = publish (r\<lparr>r_entry := (r_entry r)\<lparr>e_timer := None, e_due := zero_time\<rparr>\<rparr>)"

definition armIdle :: "'w mgr_cfg \<Rightarrow> 'w run \<Rightarrow> 'w run" where
  "armIdle c r =
     (let r = stopTimer r
      in if c_idle c \<le> 0 then r
         else let (t, w) = c_Now c (r_world r);
                  r = publish (r\<lparr>r_world := w, r_entry := (r_entry r)\<lparr>e_due := t + c_idle c\<rparr>\<rparr>)
              in r\<lparr>r_entry := (r_entry r)\<lparr>e_timer := Some (Timer (t + c_idle c) False)\<rparr>\<rparr>)"

subsection \<open>Requests and their handlers\<close>

datatype request =
    ReqExec command
  | ReqIdle gotime
  | ReqDestroy
  | ReqObserve state

type_synonym reply = "exec_result \<times> goerr option"

definition err_reply :: "goerr option \<Rightarrow> reply" where
  "err_reply err = (empty_result, err)"

definition exec_ready :: "'w mgr_cfg \<Rightarrow> command \<Rightarrow> 'w run \<Rightarrow> reply \<times> 'w run" where
  "exec_ready c cmd r =
     (let name = sp_Name (e_spec (r_entry r));
          ((res, err), w) = be_Exec (c_backend c) name cmd (r_world r);
          r = log_obs (CallExec name (err = None)) (r\<lparr>r_world := w\<rparr>);
          (t, w) = c_Now c (r_world r);
          r = r\<lparr>r_world := w, r_entry := (r_entry r)\<lparr>e_lastExec := t\<rparr>\<rparr>
      in ((res, err), armIdle c (commit StateReady r)))"

definition doExec :: "'w mgr_cfg \<Rightarrow> command \<Rightarrow> 'w run \<Rightarrow> reply \<times> 'w run" where
  "doExec c cmd r =
     (let r = stopTimer r;
          prior = e_state (r_entry r)
      in if prior \<noteq> StateReady
         then let r = commit StatePreparing r;
                  (err, w) = be_EnsureReady (c_backend c) (e_spec (r_entry r)) (r_world r);
                  r = log_obs (CallEnsureReady (sp_Name (e_spec (r_entry r))) (err = None))
                        (r\<lparr>r_world := w\<rparr>)
              in (case err of
                    Some e \<Rightarrow>
                      (err_reply (Some e),
                       emit c EventPrepareFailed StatePreparing prior (Some e) (commit prior r))
                  | None \<Rightarrow>
                      exec_ready c cmd
                        (emit c EventPrepared StatePreparing StateExecuting None
                          (commit StateExecuting r)))
         else exec_ready c cmd (commit StateExecuting r))"

definition doIdle :: "'w mgr_cfg \<Rightarrow> gotime \<Rightarrow> 'w run \<Rightarrow> reply \<times> 'w run" where
  "doIdle c due r =
     (if e_state (r_entry r) \<noteq> StateReady \<or> due \<noteq> e_due (r_entry r)
      then (err_reply None, r)
      else let r = commit StateStopping r;
               name = sp_Name (e_spec (r_entry r));
               (err, w) = be_Stop (c_backend c) name (r_world r);
               r = log_obs (CallStop name (err = None)) (r\<lparr>r_world := w\<rparr>)
           in (err_reply None,
               case err of
                 Some e \<Rightarrow>
                   emit c EventStopFailed StateStopping StateReady (Some e)
                     (armIdle c (commit StateReady r))
               | None \<Rightarrow>
                   emit c EventStopped StateStopping StateStopped None
                     (commit StateStopped (stopTimer r))))"

definition doDestroy :: "'w mgr_cfg \<Rightarrow> 'w run \<Rightarrow> reply \<times> bool \<times> 'w run" where
  "doDestroy c r =
     (let prior = e_state (r_entry r);
          r = commit StateDestroying (stopTimer r);
          name = sp_Name (e_spec (r_entry r));
          (err, w) = be_Destroy (c_backend c) name (r_world r);
          r = log_obs (CallDestroy name (err = None)) (r\<lparr>r_world := w\<rparr>)
      in case err of
           Some e \<Rightarrow>
             (let r = commit prior r;
                  r = (if prior = StateReady then armIdle c r else r)
              in (err_reply (Some e), False,
                  emit c EventDestroyFailed StateDestroying prior (Some e) r))
         | None \<Rightarrow>
             (err_reply None, True,
              emit c EventDestroyed StateDestroying StateDestroyed None
                (commit StateDestroyed r)))"

definition doObserve :: "'w mgr_cfg \<Rightarrow> state \<Rightarrow> 'w run \<Rightarrow> reply \<times> 'w run" where
  "doObserve c s r =
     (let r = commit s (log_obs (Found (sp_Name (e_spec (r_entry r))) s) r);
          r = (if s = StateReady then armIdle c r else r)
      in (err_reply None, emit c EventObserved StateUnknown s None r))"

fun serve :: "'w mgr_cfg \<Rightarrow> request \<Rightarrow> 'w run \<Rightarrow> reply \<times> bool \<times> 'w run" where
  "serve c (ReqExec cmd) r = (let (rep, r) = doExec c cmd r in (rep, False, r))"
| "serve c (ReqIdle due) r = (let (rep, r) = doIdle c due r in (rep, False, r))"
| "serve c (ReqObserve s) r = (let (rep, r) = doObserve c s r in (rep, False, r))"
| "serve c ReqDestroy r = doDestroy c r"

definition exit_entry :: "goerr \<Rightarrow> 'w run \<Rightarrow> 'w run" where
  "exit_entry why r =
     (let r = stopTimer r in r\<lparr>r_entry := (r_entry r)\<lparr>e_gone := Some why\<rparr>\<rparr>)"

text \<open>
  \<open>ask\<close> hands one request to the goroutine and waits for the answer; \<open>run\<close> serves it and
  exits if the sandbox went with it. A goroutine that is gone answers with its reason.
\<close>

definition ask :: "'w mgr_cfg \<Rightarrow> request \<Rightarrow> 'w run \<Rightarrow> reply \<times> 'w run" where
  "ask c req r =
     (case e_gone (r_entry r) of
        Some why \<Rightarrow> (err_reply (Some why), r)
      | None \<Rightarrow>
          (let (rep, gone, r) = serve c req r
           in (rep, if gone then exit_entry ErrDestroyed r else r)))"

definition newEntry :: "spec \<Rightarrow> entry" where
  "newEntry s =
     \<lparr>e_spec = s, e_state = StateUnknown, e_due = zero_time, e_lastExec = zero_time,
      e_timer = None, e_wakeups = [], e_gone = None,
      e_snap = \<lparr>i_Name = sp_Name s, i_State = StateUnknown, i_Image = sp_Image s,
                i_LastExec = zero_time, i_DueAt = zero_time\<rparr>\<rparr>"

text \<open>The clock runs a due callback: the timer has fired, and its wakeup waits to be served.\<close>

definition fire :: "entry \<Rightarrow> entry" where
  "fire e =
     (case e_timer e of
        Some (Timer d False) \<Rightarrow> e\<lparr>e_timer := Some (Timer d True), e_wakeups := e_wakeups e @ [d]\<rparr>
      | _ \<Rightarrow> e)"

subsection \<open>What one request keeps\<close>

text \<open>
  \<open>entry_inv\<close> is what holds of an entry between two requests: the snapshot is current, a live
  sandbox rests in one of three states, a goroutine that exited holds no timer, the timer belongs
  to the current deadline, and a live \<open>StateReady\<close> sandbox is on the idle clock: its timer is
  pending, or has fired and its wakeup is still to be served.
\<close>

definition on_clock :: "entry \<Rightarrow> bool" where
  "on_clock e \<longleftrightarrow>
     (case e_timer e of
        None \<Rightarrow> False
      | Some (Timer d f) \<Rightarrow> d = e_due e \<and> (f \<longrightarrow> d \<in> set (e_wakeups e)))"

definition timer_inv :: "'w mgr_cfg \<Rightarrow> entry \<Rightarrow> bool" where
  "timer_inv c e \<longleftrightarrow>
     (case e_timer e of
        None \<Rightarrow> e_due e = zero_time
      | Some (Timer d f) \<Rightarrow> d = e_due e \<and> 0 < c_idle c \<and> e_gone e = None)"

definition entry_inv :: "'w mgr_cfg \<Rightarrow> entry \<Rightarrow> bool" where
  "entry_inv c e \<longleftrightarrow>
     e_snap e = snap_of e \<and>
     (e_gone e = None \<longrightarrow> resting (e_state e)) \<and>
     timer_inv c e \<and>
     (e_gone e = None \<and> e_state e = StateReady \<and> 0 < c_idle c \<longrightarrow> on_clock e)"

lemmas small_step_defs =
  log_obs_def publish_def commit_def emit_def stopTimer_def armIdle_def

lemmas handler_defs =
  doExec_def exec_ready_def doIdle_def doDestroy_def doObserve_def exit_entry_def

lemmas inv_defs = entry_inv_def timer_inv_def on_clock_def snap_of_def resting_def

lemma entry_inv_newEntry [inv_intro]: "entry_inv c (newEntry s)"
  by (simp add: newEntry_def inv_defs)

lemma entry_inv_fire [inv_intro]: "entry_inv c e \<Longrightarrow> entry_inv c (fire e)"
  by (auto simp: fire_def inv_defs split: option.splits timer.splits bool.splits)

subsubsection \<open>Frames: what the small steps leave alone\<close>

lemma small_step_frames [frame_simps]:
  "r_world (log_obs x r) = r_world r" "r_entry (log_obs x r) = r_entry r"
  "r_world (publish r) = r_world r" "r_world (commit s r) = r_world r"
  "r_world (emit c t a b err r) = r_world r" "r_entry (emit c t a b err r) = r_entry r"
  "r_world (stopTimer r) = r_world r"
  by (simp_all add: small_step_defs Let_def)

lemma entry_frames [frame_simps]:
  "e_spec (r_entry (publish r)) = e_spec (r_entry r)"
  "e_spec (r_entry (commit s r)) = e_spec (r_entry r)"
  "e_spec (r_entry (stopTimer r)) = e_spec (r_entry r)"
  "e_spec (r_entry (armIdle c r)) = e_spec (r_entry r)"
  "e_gone (r_entry (publish r)) = e_gone (r_entry r)"
  "e_gone (r_entry (commit s r)) = e_gone (r_entry r)"
  "e_gone (r_entry (stopTimer r)) = e_gone (r_entry r)"
  "e_gone (r_entry (armIdle c r)) = e_gone (r_entry r)"
  "e_wakeups (r_entry (publish r)) = e_wakeups (r_entry r)"
  "e_wakeups (r_entry (commit s r)) = e_wakeups (r_entry r)"
  "e_wakeups (r_entry (stopTimer r)) = e_wakeups (r_entry r)"
  "e_wakeups (r_entry (armIdle c r)) = e_wakeups (r_entry r)"
  "e_state (r_entry (publish r)) = e_state (r_entry r)"
  "e_state (r_entry (commit s r)) = s"
  "e_state (r_entry (stopTimer r)) = e_state (r_entry r)"
  "e_state (r_entry (armIdle c r)) = e_state (r_entry r)"
  by (simp_all add: small_step_defs Let_def split: prod.splits)

lemma timer_frames [frame_simps]:
  "e_timer (r_entry (stopTimer r)) = None"
  "e_timer (r_entry (commit s r)) = e_timer (r_entry r)"
  "e_timer (r_entry (armIdle c r)) \<noteq> Some (Timer d True)"
  by (simp_all add: small_step_defs Let_def split: prod.splits)

lemma serve_frames:
  assumes "serve c req r = (rep, g, r')"
  shows "e_spec (r_entry r') = e_spec (r_entry r)"
    and "e_wakeups (r_entry r') = e_wakeups (r_entry r)"
    and "e_gone (r_entry r') = e_gone (r_entry r)"
  using assms
  by (cases req; auto simp: handler_defs frame_simps Let_def split: prod.splits option.splits if_splits)+

subsubsection \<open>Every request keeps the invariant\<close>

lemma armIdle_inv [inv_intro]:
  assumes "e_gone (r_entry r) = None" and "resting (e_state (r_entry r))"
  shows "entry_inv c (r_entry (armIdle c r))"
  using assms
  by (auto simp: small_step_defs inv_defs Let_def split: prod.splits)

lemma commit_off_clock_inv [inv_intro]:
  assumes "e_gone (r_entry r) = None" and "timer_inv c (r_entry r)"
    and "resting s" and "s \<noteq> StateReady"
  shows "entry_inv c (r_entry (commit s r))"
  using assms
  by (auto simp: commit_def publish_def log_obs_def inv_defs Let_def split: option.splits timer.splits)

lemma timer_inv_stopTimer [simp]: "timer_inv c (r_entry (stopTimer r))"
  by (simp add: stopTimer_def publish_def log_obs_def timer_inv_def Let_def)

lemma timer_inv_commit [simp]: "timer_inv c (r_entry (commit s r)) = timer_inv c (r_entry r)"
  by (simp add: commit_def publish_def log_obs_def timer_inv_def Let_def split: option.splits timer.splits)

lemma entry_inv_resting: "entry_inv c e \<Longrightarrow> e_gone e = None \<Longrightarrow> resting (e_state e)"
  by (simp add: entry_inv_def)

lemma entry_inv_timer: "entry_inv c e \<Longrightarrow> timer_inv c e"
  by (simp add: entry_inv_def)

lemma exec_ready_inv:
  assumes "exec_ready c cmd r = (rep, r')" and "e_gone (r_entry r) = None"
  shows "entry_inv c (r_entry r') \<and> e_state (r_entry r') = StateReady"
  using assms
  by (auto simp: exec_ready_def Let_def frame_simps resting_def intro!: armIdle_inv split: prod.splits)

lemma doExec_inv:
  assumes "doExec c cmd r = (rep, r')" and "entry_inv c (r_entry r)" and "e_gone (r_entry r) = None"
  shows "entry_inv c (r_entry r')"
proof (cases "e_state (r_entry r) = StateReady")
  case True
  then show ?thesis
    using assms by (auto simp: doExec_def Let_def frame_simps dest: exec_ready_inv)
next
  case False
  with assms entry_inv_resting[OF assms(2,3)] show ?thesis
    by (auto simp: doExec_def Let_def frame_simps intro!: commit_off_clock_inv
        dest!: exec_ready_inv split: prod.splits option.splits)
qed

lemma entry_inv_emit [simp]:
  "entry_inv c (r_entry (emit c' t a b err r)) = entry_inv c (r_entry r)"
  by (simp add: frame_simps)

lemma doIdle_inv:
  assumes "doIdle c d r = (rep, r')" and "entry_inv c (r_entry r)" and "e_gone (r_entry r) = None"
  shows "entry_inv c (r_entry r')"
  using assms
  by (auto simp: doIdle_def Let_def frame_simps resting_def
      intro!: commit_off_clock_inv armIdle_inv split: prod.splits option.splits if_splits)

lemma doDestroy_inv:
  assumes "doDestroy c r = (rep, g, r')" and "entry_inv c (r_entry r)" and "e_gone (r_entry r) = None"
  shows "if g then e_state (r_entry r') = StateDestroyed else entry_inv c (r_entry r')"
  using assms entry_inv_resting[OF assms(2,3)]
  by (auto simp: doDestroy_def Let_def frame_simps resting_def
      intro!: commit_off_clock_inv armIdle_inv split: prod.splits option.splits if_splits)

lemma doObserve_inv:
  assumes "doObserve c s r = (rep, r')" and "entry_inv c (r_entry r)" and "e_gone (r_entry r) = None"
    and "s = StateReady \<or> s = StateStopped"
  shows "entry_inv c (r_entry r')"
  using assms entry_inv_timer[OF assms(2)]
  by (auto simp: doObserve_def Let_def frame_simps resting_def
      intro!: commit_off_clock_inv armIdle_inv)

lemma exit_entry_inv [inv_intro]: "entry_inv c (r_entry (exit_entry why r))"
  by (simp add: exit_entry_def stopTimer_def publish_def log_obs_def inv_defs Let_def)

text \<open>The requests the manager makes: an observation is of a running or a stopped sandbox.\<close>

definition request_ok :: "request \<Rightarrow> bool" where
  "request_ok req \<longleftrightarrow> (case req of ReqObserve s \<Rightarrow> s = StateReady \<or> s = StateStopped | _ \<Rightarrow> True)"

lemma request_ok_simps [simp]:
  "request_ok (ReqExec cmd)" "request_ok (ReqIdle d)" "request_ok ReqDestroy"
  "request_ok (ReqObserve s) \<longleftrightarrow> s = StateReady \<or> s = StateStopped"
  by (simp_all add: request_ok_def)

lemma ask_inv:
  assumes "ask c req r = (rep, r')" and "entry_inv c (r_entry r)" and "request_ok req"
  shows "entry_inv c (r_entry r')"
proof (cases "e_gone (r_entry r)")
  case (Some why)
  with assms show ?thesis by (simp add: ask_def)
next
  case None
  with assms show ?thesis
    by (cases req)
       (auto simp: ask_def request_ok_def exit_entry_inv split: prod.splits if_splits
         dest: doExec_inv doIdle_inv doDestroy_inv doObserve_inv)
qed

text \<open>A wakeup is served, and its callback is done.\<close>

definition wake :: "'w mgr_cfg \<Rightarrow> gotime \<Rightarrow> 'w run \<Rightarrow> 'w run" where
  "wake c d r =
     (let r = snd (ask c (ReqIdle d) r)
      in r\<lparr>r_entry := (r_entry r)\<lparr>e_wakeups := remove1 d (e_wakeups (r_entry r))\<rparr>\<rparr>)"

text \<open>
  Serving a wakeup settles the deadline it was for: what is left on the idle clock afterwards
  never relied on it.
\<close>

lemma doIdle_settles:
  assumes "doIdle c d r = (rep, r')" and "entry_inv c (r_entry r)" and "e_gone (r_entry r) = None"
    and "e_state (r_entry r') = StateReady" and "e_timer (r_entry r') = Some (Timer d' True)"
  shows "d' \<noteq> d"
  using assms
  by (auto simp: doIdle_def Let_def frame_simps inv_defs split: prod.splits option.splits if_splits)

lemma wake_inv:
  assumes "entry_inv c (r_entry r)"
  shows "entry_inv c (r_entry (wake c d r))"
proof -
  obtain rep r' where a: "ask c (ReqIdle d) r = (rep, r')" by (cases "ask c (ReqIdle d) r")
  have i: "entry_inv c (r_entry r')"
    using ask_inv[OF a assms] by (simp add: request_ok_def)
  have "d' \<noteq> d" if "e_gone (r_entry r') = None" "e_state (r_entry r') = StateReady"
    "e_timer (r_entry r') = Some (Timer d' True)" for d'
    using a that assms
    by (auto simp: ask_def split: option.splits prod.splits dest!: doIdle_settles)
  with i a show ?thesis
    by (auto simp: wake_def inv_defs split: option.splits timer.splits)
qed

subsection \<open>Reading the log: two monitors\<close>

text \<open>
  \<open>up n\<close> is whether the calls so far leave sandbox \<open>n\<close> running: a successful
  \<open>EnsureReady\<close> or a pass that found it running starts it, a successful \<open>Stop\<close> or
  \<open>Destroy\<close> ends it. \<open>exec_safe n\<close> says every \<open>Exec\<close> of \<open>n\<close> finds it running, which
  is what \<open>Backend.Exec\<close> asks of its caller ("in the named, running sandbox").
\<close>

fun up_step :: "string \<Rightarrow> bool \<Rightarrow> obs \<Rightarrow> bool" where
  "up_step n b (CallEnsureReady m ok) = (if m = n then ok else b)"
| "up_step n b (CallStop m ok) = (if m = n \<and> ok then False else b)"
| "up_step n b (CallDestroy m ok) = (if m = n \<and> ok then False else b)"
| "up_step n b (Found m s) = (if m = n then s = StateReady else b)"
| "up_step n b _ = b"

definition up :: "string \<Rightarrow> bool \<Rightarrow> obs list \<Rightarrow> bool" where
  "up n = foldl (up_step n)"

fun exec_safe :: "string \<Rightarrow> bool \<Rightarrow> obs list \<Rightarrow> bool" where
  "exec_safe n b [] = True"
| "exec_safe n b (CallExec m ok # xs) = ((m = n \<longrightarrow> b) \<and> exec_safe n b xs)"
| "exec_safe n b (x # xs) = exec_safe n (up_step n b x) xs"

lemma up_simps [simp]:
  "up n b [] = b"
  "up n b (x # xs) = up n (up_step n b x) xs"
  "up n b (xs @ ys) = up n (up n b xs) ys"
  by (simp_all add: up_def)

lemma exec_safe_append [simp]:
  "exec_safe n b (xs @ ys) \<longleftrightarrow> exec_safe n b xs \<and> exec_safe n (up n b xs) ys"
  by (induction n b xs rule: exec_safe.induct) auto

text \<open>
  \<open>reports_ok\<close> says each event is one the transition table has, about a transition already
  published: its \<open>To\<close> is what \<open>Inspect\<close> then answers for that sandbox.
\<close>

fun transition_ok :: "event_type \<Rightarrow> state \<Rightarrow> state \<Rightarrow> goerr option \<Rightarrow> bool" where
  "transition_ok EventPrepared from to err =
     (from = StatePreparing \<and> to = StateExecuting \<and> err = None)"
| "transition_ok EventPrepareFailed from to err =
     (from = StatePreparing \<and> (to = StateUnknown \<or> to = StateStopped) \<and> err \<noteq> None)"
| "transition_ok EventStopped from to err =
     (from = StateStopping \<and> to = StateStopped \<and> err = None)"
| "transition_ok EventStopFailed from to err =
     (from = StateStopping \<and> to = StateReady \<and> err \<noteq> None)"
| "transition_ok EventDestroyed from to err =
     (from = StateDestroying \<and> to = StateDestroyed \<and> err = None)"
| "transition_ok EventDestroyFailed from to err =
     (from = StateDestroying \<and> resting to \<and> err \<noteq> None)"
| "transition_ok EventObserved from to err =
     (from = StateUnknown \<and> (to = StateReady \<or> to = StateStopped) \<and> err = None)"
| "transition_ok EventReconcileFailed from to err = (err \<noteq> None)"

definition pub_step :: "(string \<Rightarrow> state option) \<Rightarrow> obs \<Rightarrow> (string \<Rightarrow> state option)" where
  "pub_step m x = (case x of Published i \<Rightarrow> m(i_Name i \<mapsto> i_State i) | _ \<Rightarrow> m)"

lemma pub_step_Reported [simp]: "pub_step m (Reported ev) = m"
  by (simp add: pub_step_def)

definition published :: "(string \<Rightarrow> state option) \<Rightarrow> obs list \<Rightarrow> (string \<Rightarrow> state option)" where
  "published = foldl pub_step"

fun reports_ok :: "(string \<Rightarrow> state option) \<Rightarrow> obs list \<Rightarrow> bool" where
  "reports_ok m [] = True"
| "reports_ok m (Reported ev # xs) =
     (transition_ok (ev_Type ev) (ev_From ev) (ev_To ev) (ev_Err ev) \<and>
      (ev_Type ev \<noteq> EventReconcileFailed \<longrightarrow> m (ev_Name ev) = Some (ev_To ev)) \<and>
      reports_ok m xs)"
| "reports_ok m (x # xs) = reports_ok (pub_step m x) xs"

lemma published_simps [simp]:
  "published m [] = m"
  "published m (x # xs) = published (pub_step m x) xs"
  "published m (xs @ ys) = published (published m xs) ys"
  by (simp_all add: published_def)

lemma reports_ok_append [simp]:
  "reports_ok m (xs @ ys) \<longleftrightarrow> reports_ok m xs \<and> reports_ok (published m xs) ys"
proof (induction xs arbitrary: m)
  case (Cons x xs)
  then show ?case by (cases x) simp_all
qed simp

text \<open>
  \<open>running r\<close> is what the log says of the entry's own sandbox, \<open>shown r\<close> the state it last
  published. \<open>log_ok u r\<close>: the log is safe for every name, its events are in order, and what it
  says of the other names is \<open>u\<close>; \<open>log_inv\<close> adds that the entry's belief that its sandbox is
  running is justified by the log.
\<close>

definition ename :: "'w run \<Rightarrow> string" where
  "ename r = sp_Name (e_spec (r_entry r))"

definition running :: "'w run \<Rightarrow> bool" where
  "running r = up (ename r) False (r_log r)"

definition shown :: "'w run \<Rightarrow> state option" where
  "shown r = published Map.empty (r_log r) (ename r)"

definition log_ok :: "(string \<Rightarrow> bool) \<Rightarrow> 'w run \<Rightarrow> bool" where
  "log_ok u r \<longleftrightarrow>
     (\<forall>n. exec_safe n False (r_log r)) \<and> reports_ok Map.empty (r_log r) \<and>
     (\<forall>n. n \<noteq> ename r \<longrightarrow> up n False (r_log r) = u n)"

definition log_inv :: "(string \<Rightarrow> bool) \<Rightarrow> 'w run \<Rightarrow> bool" where
  "log_inv u r \<longleftrightarrow> log_ok u r \<and>
     (e_gone (r_entry r) = None \<and> e_state (r_entry r) = StateReady \<longrightarrow> running r)"

lemmas mon_defs = log_ok_def running_def shown_def ename_def

lemma ename_frames [frame_simps]:
  "ename (log_obs x r) = ename r" "ename (publish r) = ename r" "ename (commit s r) = ename r"
  "ename (stopTimer r) = ename r" "ename (armIdle c r) = ename r"
  "ename (emit c t a b err r) = ename r" "ename (r\<lparr>r_world := w\<rparr>) = ename r"
  "e_spec e = e_spec (r_entry r) \<Longrightarrow> ename (r\<lparr>r_world := w, r_entry := e\<rparr>) = ename r"
  by (simp_all add: ename_def frame_simps)

lemma running_frames [frame_simps]:
  "running (publish r) = running r" "running (commit s r) = running r"
  "running (stopTimer r) = running r" "running (armIdle c r) = running r"
  "running (emit c t a b err r) = running r" "running (r\<lparr>r_world := w\<rparr>) = running r"
  "e_spec e = e_spec (r_entry r) \<Longrightarrow> running (r\<lparr>r_world := w, r_entry := e\<rparr>) = running r"
  "n = ename r \<Longrightarrow> running (log_obs (CallEnsureReady n ok) r) = ok"
  "running (log_obs (CallExec n ok) r) = running r"
  "n = ename r \<Longrightarrow> running (log_obs (CallStop n ok) r) = (running r \<and> \<not> ok)"
  "n = ename r \<Longrightarrow> running (log_obs (CallDestroy n ok) r) = (running r \<and> \<not> ok)"
  "n = ename r \<Longrightarrow> running (log_obs (Found n s) r) = (s = StateReady)"
  by (auto simp: mon_defs small_step_defs pub_step_def Let_def split: prod.splits)

lemma shown_frames [frame_simps]:
  "shown (publish r) = Some (e_state (r_entry r))" "shown (commit s r) = Some s"
  "shown (stopTimer r) = Some (e_state (r_entry r))"
  "shown (armIdle c r) = Some (e_state (r_entry r))"
  "shown (emit c t a b err r) = shown r"
  by (auto simp: mon_defs small_step_defs pub_step_def snap_of_def Let_def split: prod.splits)

lemma log_ok_frames [frame_simps]:
  "log_ok u (publish r) = log_ok u r" "log_ok u (commit s r) = log_ok u r"
  "log_ok u (stopTimer r) = log_ok u r" "log_ok u (armIdle c r) = log_ok u r"
  "log_ok u (r\<lparr>r_world := w\<rparr>) = log_ok u r"
  "e_spec e = e_spec (r_entry r) \<Longrightarrow> log_ok u (r\<lparr>r_world := w, r_entry := e\<rparr>) = log_ok u r"
  "n = ename r \<Longrightarrow> log_ok u (log_obs (CallEnsureReady n ok) r) = log_ok u r"
  "n = ename r \<Longrightarrow> log_ok u (log_obs (CallStop n ok) r) = log_ok u r"
  "n = ename r \<Longrightarrow> log_ok u (log_obs (CallDestroy n ok) r) = log_ok u r"
  "n = ename r \<Longrightarrow> log_ok u (log_obs (Found n s) r) = log_ok u r"
  "n = ename r \<Longrightarrow> log_ok u (log_obs (CallExec n ok) r) = (log_ok u r \<and> running r)"
  "log_ok u (emit c t a b err r) =
     (log_ok u r \<and> (c_observer c \<longrightarrow> transition_ok t a b err \<and>
        (t \<noteq> EventReconcileFailed \<longrightarrow> shown r = Some b)))"
  by (auto simp: mon_defs small_step_defs pub_step_def Let_def split: prod.splits)

lemma exec_ready_log:
  assumes "exec_ready c cmd r = (rep, r')" and "log_ok u r" and "running r"
  shows "log_inv u r'"
  using assms
  by (auto simp: exec_ready_def log_inv_def frame_simps ename_def [symmetric] Let_def split: prod.splits)

lemma doExec_log:
  assumes "doExec c cmd r = (rep, r')" and "log_inv u r" and "entry_inv c (r_entry r)"
    and "e_gone (r_entry r) = None"
  shows "log_inv u r'"
proof (cases "e_state (r_entry r) = StateReady")
  case True
  with assms show ?thesis
    by (auto simp: doExec_def log_inv_def frame_simps Let_def elim!: exec_ready_log [unfolded log_inv_def])
next
  case False
  with assms entry_inv_resting[OF assms(3,4)] show ?thesis
    by (auto simp: doExec_def frame_simps ename_def [symmetric] Let_def resting_def
        log_inv_def split: prod.splits option.splits
        elim!: exec_ready_log [unfolded log_inv_def])
qed

lemma doIdle_log:
  assumes "doIdle c d r = (rep, r')" and "log_inv u r" and "e_gone (r_entry r) = None"
  shows "log_inv u r'"
  using assms
  by (auto simp: doIdle_def frame_simps ename_def [symmetric] Let_def log_inv_def
      split: prod.splits option.splits if_splits)

lemma doDestroy_log:
  assumes "doDestroy c r = (rep, g, r')" and "log_inv u r" and "entry_inv c (r_entry r)"
    and "e_gone (r_entry r) = None"
  shows "log_inv u r'"
  using assms entry_inv_resting[OF assms(3,4)]
  by (auto simp: doDestroy_def frame_simps ename_def [symmetric] Let_def log_inv_def
      split: prod.splits option.splits if_splits)

lemma doObserve_log:
  assumes "doObserve c s r = (rep, r')" and "log_inv u r" and "s = StateReady \<or> s = StateStopped"
  shows "log_inv u r'"
  using assms
  by (auto simp: doObserve_def frame_simps ename_def [symmetric] Let_def log_inv_def)

lemma exit_entry_log [inv_intro]: "log_inv u r \<Longrightarrow> log_inv u (exit_entry why r)"
  by (simp add: exit_entry_def log_inv_def mon_defs small_step_defs pub_step_def Let_def)

lemma ask_log:
  assumes "ask c req r = (rep, r')" and "log_inv u r" and "entry_inv c (r_entry r)" and "request_ok req"
  shows "log_inv u r'"
proof (cases "e_gone (r_entry r)")
  case (Some why)
  with assms show ?thesis by (simp add: ask_def)
next
  case None
  with assms show ?thesis
    by (cases req)
       (auto simp: ask_def request_ok_def exit_entry_log split: prod.splits if_splits
         dest: doExec_log doIdle_log doDestroy_log doObserve_log)
qed

lemma ask_frames:
  assumes "ask c req r = (rep, r')"
  shows "e_spec (r_entry r') = e_spec (r_entry r)"
    and "e_wakeups (r_entry r') = e_wakeups (r_entry r)"
  using assms
  by (auto simp: ask_def exit_entry_def frame_simps Let_def split: option.splits prod.splits if_splits
      dest: serve_frames)

lemma serve_gone_iff:
  assumes "serve c req r = (rep, g, r')"
  shows "g \<longleftrightarrow> req = ReqDestroy \<and> snd rep = None"
  using assms
  by (cases req) (auto simp: doDestroy_def err_reply_def Let_def split: prod.splits option.splits if_splits)

lemma ask_gone:
  assumes "ask c req r = (rep, r')"
  shows "e_gone (r_entry r') =
     (if e_gone (r_entry r) = None
      then if req = ReqDestroy \<and> snd rep = None then Some ErrDestroyed else None
      else e_gone (r_entry r))"
proof (cases "e_gone (r_entry r)")
  case None
  obtain rep' g r'' where s: "serve c req r = (rep', g, r'')" by (cases "serve c req r")
  from serve_frames(3)[OF s] serve_gone_iff[OF s] s assms None show ?thesis
    by (auto simp: ask_def exit_entry_def frame_simps Let_def split: if_splits)
next
  case (Some why)
  with assms show ?thesis by (auto simp: ask_def)
qed

end
