(* ===== verification/SandboxManager.thy ===== *)
theory SandboxManager
  imports SandboxEntry
begin

section \<open>The manager: many sandboxes, their callers and the passes over them\<close>

text \<open>
  The rest of \<open>metaharness/sandbox/manager.go\<close> and \<open>handle.go\<close>. Entries live in a heap and are
  referred to by index, because a handle keeps its entry when the name is destroyed and opened
  again; \<open>s_entries\<close> is the manager's map from names to entries. Each operation is one
  definition; the interleavings of several callers are the relation \<open>mstep\<close> below.
\<close>

record 'w sys =
  s_entries :: "(string \<times> nat) list"
  s_heap :: "entry list"
  s_world :: 'w
  s_log :: "obs list"
  s_adopted :: bool
  s_closing :: bool
  s_closed :: "goerr option option"

record handle =
  h_entry :: nat
  h_closed :: bool

record reconcile_report =
  rp_Adopted :: "string list"
  rp_Asleep :: "string list"

definition newManager :: "'w \<Rightarrow> 'w sys" where
  "newManager w =
     \<lparr>s_entries = [], s_heap = [], s_world = w, s_log = [], s_adopted = False,
      s_closing = False, s_closed = None\<rparr>"

subsection \<open>Talking to one entry\<close>

definition run_of :: "nat \<Rightarrow> 'w sys \<Rightarrow> 'w run" where
  "run_of i s = \<lparr>r_entry = s_heap s ! i, r_world = s_world s, r_log = s_log s\<rparr>"

definition put_run :: "nat \<Rightarrow> 'w run \<Rightarrow> 'w sys \<Rightarrow> 'w sys" where
  "put_run i r s = s\<lparr>s_heap := (s_heap s)[i := r_entry r], s_world := r_world r, s_log := r_log r\<rparr>"

definition entry_ask :: "'w mgr_cfg \<Rightarrow> nat \<Rightarrow> request \<Rightarrow> 'w sys \<Rightarrow> reply \<times> 'w sys" where
  "entry_ask c i req s = (let (rep, r) = ask c req (run_of i s) in (rep, put_run i r s))"

subsection \<open>The lookup\<close>

definition adopt :: "spec \<Rightarrow> 'w sys \<Rightarrow> (nat \<times> bool) res \<times> 'w sys" where
  "adopt sp s =
     (if s_closing s then (Inl ErrShutdown, s)
      else case map_of (s_entries s) (sp_Name sp) of
        Some i \<Rightarrow> (Inr (i, True), s)
      | None \<Rightarrow>
          (let i = length (s_heap s); e = newEntry sp
           in (Inr (i, False),
               s\<lparr>s_entries := AList.update (sp_Name sp) i (s_entries s), s_heap := s_heap s @ [e],
                 s_log := s_log s @ [Published (e_snap e)]\<rparr>)))"

definition forget :: "string \<Rightarrow> nat \<Rightarrow> 'w sys \<Rightarrow> 'w sys" where
  "forget name i s =
     (if map_of (s_entries s) name = Some i
      then s\<lparr>s_entries := AList.delete name (s_entries s)\<rparr> else s)"

definition entryFor :: "spec \<Rightarrow> 'w sys \<Rightarrow> nat res \<times> 'w sys" where
  "entryFor sp s =
     (case adopt sp s of (Inl e, s') \<Rightarrow> (Inl e, s') | (Inr (i, known), s') \<Rightarrow> (Inr i, s'))"

subsection \<open>The operations of a manager\<close>

definition Open :: "'w mgr_cfg \<Rightarrow> string \<Rightarrow> 'w sys \<Rightarrow> handle res \<times> 'w sys" where
  "Open c name s =
     (if name = '''' then (Inl ErrNameRequired, s)
      else case entryFor \<lparr>sp_Name = name, sp_Image = c_image c\<rparr> s of
        (Inl e, s') \<Rightarrow> (Inl e, s')
      | (Inr i, s') \<Rightarrow> (Inr \<lparr>h_entry = i, h_closed = False\<rparr>, s'))"

definition Destroy :: "'w mgr_cfg \<Rightarrow> string \<Rightarrow> 'w sys \<Rightarrow> goerr option \<times> 'w sys" where
  "Destroy c name s =
     (if name = '''' then (Some ErrNameRequired, s)
      else case entryFor \<lparr>sp_Name = name, sp_Image = ''''\<rparr> s of
        (Inl e, s') \<Rightarrow> (Some e, s')
      | (Inr i, s') \<Rightarrow>
          (case entry_ask c i ReqDestroy s' of
             ((res, Some e), s'') \<Rightarrow> (Some e, s'')
           | ((res, None), s'') \<Rightarrow> (None, forget name i s'')))"

definition Inspect :: "'w sys \<Rightarrow> info list" where
  "Inspect s = sort_key i_Name (map (\<lambda>(n, i). e_snap (s_heap s ! i)) (s_entries s))"

fun reconcile_found ::
  "'w mgr_cfg \<Rightarrow> backend_sandbox list \<Rightarrow> reconcile_report \<Rightarrow> 'w sys \<Rightarrow> reconcile_report res \<times> 'w sys" where
  "reconcile_found c [] rp s =
     (Inr \<lparr>rp_Adopted = sort (rp_Adopted rp), rp_Asleep = sort (rp_Asleep rp)\<rparr>, s)"
| "reconcile_found c (bs # found) rp s =
     (case adopt \<lparr>sp_Name = bs_Name bs, sp_Image = bs_Image bs\<rparr> s of
        (Inl e, s') \<Rightarrow> (Inl e, s')
      | (Inr (i, True), s') \<Rightarrow> reconcile_found c found rp s'
      | (Inr (i, False), s') \<Rightarrow>
          (let st = (if bs_State bs = BackendRunning then StateReady else StateStopped)
           in case entry_ask c i (ReqObserve st) s' of
                ((res, Some e), s'') \<Rightarrow> (Inl e, s'')
              | ((res, None), s'') \<Rightarrow>
                  reconcile_found c found
                    (if st = StateReady then rp\<lparr>rp_Adopted := rp_Adopted rp @ [bs_Name bs]\<rparr>
                     else rp\<lparr>rp_Asleep := rp_Asleep rp @ [bs_Name bs]\<rparr>) s''))"

definition reconcile :: "'w mgr_cfg \<Rightarrow> 'w sys \<Rightarrow> reconcile_report res \<times> 'w sys" where
  "reconcile c s =
     (case be_List (c_backend c) (s_world s) of
        (Inl e, w) \<Rightarrow> (Inl e, s\<lparr>s_world := w\<rparr>)
      | (Inr found, w) \<Rightarrow>
          reconcile_found c found \<lparr>rp_Adopted = [], rp_Asleep = []\<rparr> (s\<lparr>s_world := w\<rparr>))"

definition Reconcile :: "'w mgr_cfg \<Rightarrow> 'w sys \<Rightarrow> reconcile_report res \<times> 'w sys" where
  "Reconcile c s =
     (if s_closing s then (Inl ErrShutdown, s)
      else case reconcile c s of
        (Inl e, s') \<Rightarrow> (Inl e, s')
      | (Inr rp, s') \<Rightarrow> (Inr rp, s'\<lparr>s_adopted := True\<rparr>))"

definition report_failed :: "'w mgr_cfg \<Rightarrow> goerr \<Rightarrow> 'w sys \<Rightarrow> 'w sys" where
  "report_failed c e s =
     (if c_observer c
      then s\<lparr>s_log := s_log s @ [Reported \<lparr>ev_Type = EventReconcileFailed, ev_Name = '''',
             ev_From = StateUnknown, ev_To = StateUnknown, ev_Err = Some e\<rparr>]\<rparr>
      else s)"

definition ensureAdopted :: "'w mgr_cfg \<Rightarrow> 'w sys \<Rightarrow> 'w sys" where
  "ensureAdopted c s =
     (if s_adopted s \<or> s_closing s then s
      else case reconcile c s of
        (Inl e, s') \<Rightarrow> report_failed c e s'
      | (Inr rp, s') \<Rightarrow> s'\<lparr>s_adopted := True\<rparr>)"

definition handle_Exec :: "'w mgr_cfg \<Rightarrow> handle \<Rightarrow> command \<Rightarrow> 'w sys \<Rightarrow> reply \<times> 'w sys" where
  "handle_Exec c h cmd s =
     (if h_closed h then (err_reply (Some ErrClosed), s)
      else entry_ask c (h_entry h) (ReqExec cmd) (ensureAdopted c s))"

definition handle_Name :: "handle \<Rightarrow> 'w sys \<Rightarrow> string" where
  "handle_Name h s = sp_Name (e_spec (s_heap s ! h_entry h))"

definition handle_Close :: "handle \<Rightarrow> handle" where
  "handle_Close h = h\<lparr>h_closed := True\<rparr>"

text \<open>
  \<open>Close\<close>: every goroutine in the lookup sees \<open>closing\<close> and exits once it is idle; then the
  backend is closed. A second call returns the first one's answer.
\<close>

definition exit_one :: "nat \<Rightarrow> 'w sys \<Rightarrow> 'w sys" where
  "exit_one i s =
     (if e_gone (s_heap s ! i) = None then put_run i (exit_entry ErrShutdown (run_of i s)) s else s)"

definition Close :: "'w mgr_cfg \<Rightarrow> 'w sys \<Rightarrow> goerr option \<times> 'w sys" where
  "Close c s =
     (case s_closed s of
        Some err \<Rightarrow> (err, s)
      | None \<Rightarrow>
          (let s = s\<lparr>s_closing := True\<rparr>;
               s = fold exit_one (map snd (s_entries s)) s;
               (err, w) = be_Close (c_backend c) (s_world s)
           in (err, s\<lparr>s_world := w, s_closed := Some err\<rparr>)))"

end
