(* ===== verification/SandboxSystem.thy ===== *)
theory SandboxSystem
  imports SandboxManager
begin

section \<open>Interleavings of callers, timers and passes\<close>

text \<open>
  What several goroutines can do to one manager, one atomic step at a time. A step is a lookup
  under the manager's lock, one request served by one entry's goroutine, a timer firing, a wakeup
  being served, the removal of a destroyed name, or the manager shutting down. \<open>Destroy\<close> is a
  lookup, a request and a removal; a pass is, for each sandbox it found, a lookup and an
  observation: \<open>k_forget\<close> and \<open>k_observe\<close> hold what callers have still to do.
\<close>

record 'w conc =
  k_sys :: "'w sys"
  k_observe :: "(nat \<times> state) list"
  k_forget :: "(string \<times> nat) list"

definition conc_init :: "'w \<Rightarrow> 'w conc" where
  "conc_init w = \<lparr>k_sys = newManager w, k_observe = [], k_forget = []\<rparr>"

definition set_entry :: "nat \<Rightarrow> entry \<Rightarrow> 'w sys \<Rightarrow> 'w sys" where
  "set_entry i e s = s\<lparr>s_heap := (s_heap s)[i := e]\<rparr>"

inductive mstep :: "'w mgr_cfg \<Rightarrow> 'w conc \<Rightarrow> 'w conc \<Rightarrow> bool" for c where
  environment: "mstep c k (k\<lparr>k_sys := (k_sys k)\<lparr>s_world := w\<rparr>\<rparr>)"
| lookup: "adopt sp (k_sys k) = (Inr (i, known), s) \<Longrightarrow> mstep c k (k\<lparr>k_sys := s\<rparr>)"
| exec: "i < length (s_heap (k_sys k)) \<Longrightarrow>
     entry_ask c i (ReqExec cmd) (k_sys k) = (rep, s) \<Longrightarrow> mstep c k (k\<lparr>k_sys := s\<rparr>)"
| destroyed: "i < length (s_heap (k_sys k)) \<Longrightarrow>
     entry_ask c i ReqDestroy (k_sys k) = ((res, None), s) \<Longrightarrow>
     mstep c k (k\<lparr>k_sys := s, k_forget := (n, i) # k_forget k\<rparr>)"
| destroy_failed: "i < length (s_heap (k_sys k)) \<Longrightarrow>
     entry_ask c i ReqDestroy (k_sys k) = ((res, Some e), s) \<Longrightarrow> mstep c k (k\<lparr>k_sys := s\<rparr>)"
| forgotten: "(n, i) \<in> set (k_forget k) \<Longrightarrow>
     mstep c k (k\<lparr>k_sys := forget n i (k_sys k), k_forget := remove1 (n, i) (k_forget k)\<rparr>)"
| found: "adopt sp (k_sys k) = (Inr (i, False), s) \<Longrightarrow> st = StateReady \<or> st = StateStopped \<Longrightarrow>
     mstep c k (k\<lparr>k_sys := s, k_observe := (i, st) # k_observe k\<rparr>)"
| observed: "(i, st) \<in> set (k_observe k) \<Longrightarrow>
     entry_ask c i (ReqObserve st) (k_sys k) = (rep, s) \<Longrightarrow>
     mstep c k (k\<lparr>k_sys := s, k_observe := remove1 (i, st) (k_observe k)\<rparr>)"
| adopted: "mstep c k (k\<lparr>k_sys := (k_sys k)\<lparr>s_adopted := True\<rparr>\<rparr>)"
| list_failed: "mstep c k (k\<lparr>k_sys := report_failed c e (k_sys k)\<rparr>)"
| fired: "i < length (s_heap (k_sys k)) \<Longrightarrow>
     mstep c k (k\<lparr>k_sys := set_entry i (fire (s_heap (k_sys k) ! i)) (k_sys k)\<rparr>)"
| woken: "i < length (s_heap (k_sys k)) \<Longrightarrow> d \<in> set (e_wakeups (s_heap (k_sys k) ! i)) \<Longrightarrow>
     mstep c k (k\<lparr>k_sys := put_run i (wake c d (run_of i (k_sys k))) (k_sys k)\<rparr>)"
| closing: "mstep c k (k\<lparr>k_sys := (k_sys k)\<lparr>s_closing := True\<rparr>\<rparr>)"
| exited: "i < length (s_heap (k_sys k)) \<Longrightarrow> s_closing (k_sys k) \<Longrightarrow>
     mstep c k (k\<lparr>k_sys := exit_one i (k_sys k)\<rparr>)"
| closed: "s_closing (k_sys k) \<Longrightarrow>
     \<forall>i < length (s_heap (k_sys k)). e_gone (s_heap (k_sys k) ! i) \<noteq> None \<Longrightarrow>
     be_Close (c_backend c) (s_world (k_sys k)) = (err, w) \<Longrightarrow>
     mstep c k (k\<lparr>k_sys := (k_sys k)\<lparr>s_world := w, s_closed := Some err\<rparr>\<rparr>)"

inductive reachable :: "'w mgr_cfg \<Rightarrow> 'w conc \<Rightarrow> bool" for c where
  init: "reachable c (conc_init w)"
| step: "reachable c k \<Longrightarrow> mstep c k k' \<Longrightarrow> reachable c k'"

subsection \<open>The invariant of the manager\<close>

abbreviation heap_name :: "'w sys \<Rightarrow> nat \<Rightarrow> string" where
  "heap_name s i \<equiv> sp_Name (e_spec (s_heap s ! i))"

abbreviation live :: "'w sys \<Rightarrow> nat \<Rightarrow> bool" where
  "live s i \<equiv> i < length (s_heap s) \<and> e_gone (s_heap s ! i) = None"

definition lookup_inv :: "'w sys \<Rightarrow> bool" where
  "lookup_inv s \<longleftrightarrow>
     keys_ok (s_entries s) \<and>
     (\<forall>n i. map_of (s_entries s) n = Some i \<longrightarrow> i < length (s_heap s) \<and> heap_name s i = n) \<and>
     (\<forall>i. live s i \<longrightarrow> map_of (s_entries s) (heap_name s i) = Some i)"

definition sys_log_inv :: "'w sys \<Rightarrow> bool" where
  "sys_log_inv s \<longleftrightarrow>
     (\<forall>n. exec_safe n False (s_log s)) \<and> reports_ok Map.empty (s_log s) \<and>
     (\<forall>i. live s i \<and> e_state (s_heap s ! i) = StateReady \<longrightarrow> up (heap_name s i) False (s_log s))"

definition sys_inv :: "'w mgr_cfg \<Rightarrow> 'w sys \<Rightarrow> bool" where
  "sys_inv c s \<longleftrightarrow>
     (\<forall>i < length (s_heap s). entry_inv c (s_heap s ! i)) \<and> lookup_inv s \<and> sys_log_inv s"

definition conc_inv :: "'w mgr_cfg \<Rightarrow> 'w conc \<Rightarrow> bool" where
  "conc_inv c k \<longleftrightarrow>
     sys_inv c (k_sys k) \<and>
     (\<forall>i st. (i, st) \<in> set (k_observe k) \<longrightarrow>
        i < length (s_heap (k_sys k)) \<and> (st = StateReady \<or> st = StateStopped)) \<and>
     (\<forall>n i. (n, i) \<in> set (k_forget k) \<longrightarrow>
        i < length (s_heap (k_sys k)) \<and> e_gone (s_heap (k_sys k) ! i) \<noteq> None)"

lemmas sys_inv_defs = sys_inv_def lookup_inv_def sys_log_inv_def

lemma live_unique: "lookup_inv s \<Longrightarrow> live s i \<Longrightarrow> live s j \<Longrightarrow> heap_name s i = heap_name s j \<Longrightarrow> i = j"
  by (metis lookup_inv_def option.inject)

lemma put_run_sel [simp]:
  "s_heap (put_run i r s) = (s_heap s)[i := r_entry r]"
  "s_entries (put_run i r s) = s_entries s"
  "s_log (put_run i r s) = r_log r"
  "s_closing (put_run i r s) = s_closing s"
  by (simp_all add: put_run_def)

lemma run_of_sel [simp]:
  "r_entry (run_of i s) = s_heap s ! i" "r_log (run_of i s) = s_log s" "r_world (run_of i s) = s_world s"
  by (simp_all add: run_of_def)

lemma log_inv_run_of:
  assumes "sys_inv c s" and "i < length (s_heap s)"
  shows "log_inv (\<lambda>n. up n False (s_log s)) (run_of i s)"
  using assms by (simp add: log_inv_def mon_defs sys_inv_defs)

lemma put_run_inv:
  assumes s: "sys_inv c s" and i: "live s i"
    and e: "entry_inv c (r_entry r)" and sp: "e_spec (r_entry r) = e_spec (s_heap s ! i)"
    and l: "log_inv (\<lambda>n. up n False (s_log s)) r"
  shows "sys_inv c (put_run i r s)"
proof -
  have lk: "lookup_inv s" using s by (simp add: sys_inv_def)
  have other: "heap_name s j \<noteq> heap_name s i" if "live s j" "j \<noteq> i" for j
    using live_unique[OF lk that(1) i] that(2) by blast
  have "lookup_inv (put_run i r s)"
    using lk i sp by (auto simp: lookup_inv_def nth_list_update)
  moreover have "sys_log_inv (put_run i r s)"
    using s i sp l other
    by (auto simp: sys_log_inv_def sys_inv_def log_inv_def mon_defs nth_list_update)
  ultimately show ?thesis
    using s e i by (auto simp: sys_inv_def nth_list_update)
qed

lemma put_run_run_of [simp]: "put_run i (run_of i s) s = s"
  by (simp add: put_run_def run_of_def)

lemma entry_ask_gone:
  assumes "entry_ask c i req s = (rep, s')" and "e_gone (s_heap s ! i) = Some why"
  shows "s' = s" and "rep = err_reply (Some why)"
  using assms by (auto simp: entry_ask_def ask_def)

lemma entry_ask_inv:
  assumes s: "sys_inv c s" and i: "i < length (s_heap s)" and q: "request_ok req"
    and a: "entry_ask c i req s = (rep, s')"
  shows "sys_inv c s'"
proof (cases "e_gone (s_heap s ! i)")
  case (Some why)
  with entry_ask_gone[OF a] s show ?thesis by simp
next
  case None
  from a obtain r where r: "ask c req (run_of i s) = (rep, r)" and s': "s' = put_run i r s"
    by (auto simp: entry_ask_def split: prod.splits)
  have e: "entry_inv c (r_entry (run_of i s))"
    using s i by (simp add: sys_inv_def)
  show ?thesis unfolding s'
    using None i ask_inv[OF r e q] ask_frames(1)[OF r] ask_log[OF r log_inv_run_of[OF s i] e q]
    by (intro put_run_inv[OF s]) simp_all
qed

lemma adopt_new:
  assumes "adopt sp s = (Inr (i, False), s')"
  shows "i = length (s_heap s)" and "s_heap s' = s_heap s @ [newEntry sp]"
    and "map_of (s_entries s) (sp_Name sp) = None"
    and "s_entries s' = AList.update (sp_Name sp) i (s_entries s)"
    and "s_log s' = s_log s @ [Published (e_snap (newEntry sp))]"
    and "s_closing s' = s_closing s"
  using assms by (auto simp: adopt_def Let_def split: if_splits option.splits)

lemma adopt_known:
  assumes "adopt sp s = (Inr (i, True), s')"
  shows "s' = s" and "map_of (s_entries s) (sp_Name sp) = Some i"
  using assms by (auto simp: adopt_def Let_def split: if_splits option.splits)

lemma adopt_inv:
  assumes s: "sys_inv c s" and a: "adopt sp s = (Inr (i, known), s')"
  shows "sys_inv c s' \<and> i < length (s_heap s')"
proof (cases known)
  case True
  with a s adopt_known[of sp s i s'] show ?thesis by (auto simp: sys_inv_defs)
next
  case False
  with a have a': "adopt sp s = (Inr (i, False), s')" by simp
  note n = adopt_new[OF a']
  have [simp]: "e_spec (newEntry sp) = sp" "e_gone (newEntry sp) = None"
    "e_state (newEntry sp) = StateUnknown"
    by (simp_all add: newEntry_def)
  have "lookup_inv s'"
    using s n by (auto simp: sys_inv_defs nth_append less_Suc_eq distinct_update)
  moreover have "sys_log_inv s'"
    using s n by (auto simp: sys_inv_defs nth_append less_Suc_eq)
  ultimately show ?thesis
    using s n by (auto simp: sys_inv_def nth_append less_Suc_eq entry_inv_newEntry)
qed

lemma forget_inv:
  assumes s: "sys_inv c s" and g: "\<not> live s i"
  shows "sys_inv c (forget n i s)"
proof (cases "map_of (s_entries s) n = Some i")
  case True
  have lk: "lookup_inv s" using s by (simp add: sys_inv_def)
  have nm: "heap_name s j \<noteq> n" if "live s j" for j
    using lk g True that unfolding lookup_inv_def by (metis option.inject)
  have "lookup_inv (s\<lparr>s_entries := AList.delete n (s_entries s)\<rparr>)"
    using lk nm by (simp add: lookup_inv_def distinct_delete)
  moreover have "sys_log_inv (s\<lparr>s_entries := AList.delete n (s_entries s)\<rparr>)"
    using s by (simp add: sys_inv_def sys_log_inv_def)
  ultimately show ?thesis
    using s True by (simp add: forget_def sys_inv_def)
qed (simp add: forget_def s)

lemma set_entry_fire_inv:
  assumes s: "sys_inv c s" and i: "i < length (s_heap s)"
  shows "sys_inv c (set_entry i (fire (s_heap s ! i)) s)"
proof -
  have f: "e_spec (fire e) = e_spec e" "e_gone (fire e) = e_gone e" "e_state (fire e) = e_state e" for e
    by (simp_all add: fire_def split: option.splits timer.splits bool.splits)
  show ?thesis
    using s i by (auto simp: set_entry_def sys_inv_defs nth_list_update f entry_inv_fire)
qed

lemma wake_sys_inv:
  assumes s: "sys_inv c s" and i: "i < length (s_heap s)"
  shows "sys_inv c (put_run i (wake c d (run_of i s)) s)"
proof -
  obtain rep r where r: "ask c (ReqIdle d) (run_of i s) = (rep, r)"
    by (cases "ask c (ReqIdle d) (run_of i s)")
  have e: "entry_inv c (r_entry (run_of i s))" using s i by (simp add: sys_inv_def)
  have w: "entry_inv c (r_entry (wake c d (run_of i s)))" by (rule wake_inv[OF e])
  have l: "log_inv (\<lambda>n. up n False (s_log s)) (wake c d (run_of i s))"
    using ask_log[OF r log_inv_run_of[OF s i] e] r
    by (simp add: wake_def request_ok_def log_inv_def mon_defs)
  have sp: "e_spec (r_entry (wake c d (run_of i s))) = e_spec (s_heap s ! i)"
    using ask_frames(1)[OF r] r by (simp add: wake_def)
  show ?thesis
  proof (cases "e_gone (s_heap s ! i)")
    case None
    with put_run_inv[OF s _ w sp l] i show ?thesis by simp
  next
    case (Some why)
    then have "wake c d (run_of i s) = (run_of i s)\<lparr>r_entry := (s_heap s ! i)
        \<lparr>e_wakeups := remove1 d (e_wakeups (s_heap s ! i))\<rparr>\<rparr>"
      by (simp add: wake_def ask_def)
    with Some s i w show ?thesis
      by (auto simp: sys_inv_defs nth_list_update)
  qed
qed

lemma exit_one_inv:
  assumes s: "sys_inv c s" and i: "i < length (s_heap s)"
  shows "sys_inv c (exit_one i s)"
proof (cases "e_gone (s_heap s ! i)")
  case None
  have "e_spec (r_entry (exit_entry why (run_of i s))) = e_spec (s_heap s ! i)" for why
    by (simp add: exit_entry_def frame_simps Let_def)
  with None i exit_entry_log[OF log_inv_run_of[OF s i]] show ?thesis
    by (auto simp: exit_one_def intro!: put_run_inv[OF s] exit_entry_inv)
qed (simp add: exit_one_def s)

lemma report_failed_inv: "sys_inv c s \<Longrightarrow> sys_inv c (report_failed c' e s)"
  by (auto simp: report_failed_def sys_inv_defs)

subsection \<open>Every reachable state satisfies it\<close>

text \<open>\<open>grows s s'\<close>: entries are never dropped from the heap, and an exited goroutine stays exited.\<close>

definition grows :: "'w sys \<Rightarrow> 'w sys \<Rightarrow> bool" where
  "grows s s' \<longleftrightarrow>
     length (s_heap s) \<le> length (s_heap s') \<and>
     (\<forall>i < length (s_heap s). e_gone (s_heap s ! i) \<noteq> None \<longrightarrow> e_gone (s_heap s' ! i) \<noteq> None)"

lemma grows_same_heap: "s_heap s' = s_heap s \<Longrightarrow> grows s s'"
  by (simp add: grows_def)

lemma grows_trans: "grows s t \<Longrightarrow> grows t u \<Longrightarrow> grows s u"
  by (auto simp: grows_def)

lemma grows_put_run:
  "(e_gone (s_heap s ! i) \<noteq> None \<Longrightarrow> e_gone (r_entry r) \<noteq> None) \<Longrightarrow> grows s (put_run i r s)"
  by (cases "i < length (s_heap s)") (auto simp: grows_def nth_list_update)

lemma grows_entry_ask: "entry_ask c i req s = (rep, s') \<Longrightarrow> grows s s'"
  by (auto simp: entry_ask_def split: prod.splits dest!: ask_gone intro!: grows_put_run)

lemma entry_ask_sel:
  assumes "entry_ask c i req s = (rep, s')"
  shows "s_entries s' = s_entries s" and "length (s_heap s') = length (s_heap s)"
    and "j \<noteq> i \<Longrightarrow> s_heap s' ! j = s_heap s ! j" and "s_closing s' = s_closing s"
    and "i < length (s_heap s) \<Longrightarrow> e_spec (s_heap s' ! i) = e_spec (s_heap s ! i)"
    and "s_adopted s' = s_adopted s"
  using assms by (auto simp: entry_ask_def put_run_def split: prod.splits dest: ask_frames)

lemma entry_ask_destroyed:
  assumes "entry_ask c i ReqDestroy s = ((res, None), s')" and "i < length (s_heap s)"
  shows "e_gone (s_heap s' ! i) \<noteq> None"
  using assms by (auto simp: entry_ask_def split: prod.splits dest!: ask_gone)

lemma grows_adopt: "adopt sp s = (Inr (i, known), s') \<Longrightarrow> grows s s'"
  by (auto simp: adopt_def grows_def nth_append Let_def split: if_splits option.splits)

lemma grows_set_entry_fire: "grows s (set_entry i (fire (s_heap s ! i)) s)"
proof -
  have "e_gone (fire e) = e_gone e" for e
    by (simp add: fire_def split: option.splits timer.splits bool.splits)
  then show ?thesis
    by (cases "i < length (s_heap s)") (auto simp: grows_def set_entry_def nth_list_update)
qed

lemma grows_wake: "grows s (put_run i (wake c d (run_of i s)) s)"
  by (intro grows_put_run) (auto simp: wake_def Let_def ask_def split: option.splits)

lemma grows_exit_one: "grows s (exit_one i s)"
  by (auto simp: exit_one_def grows_same_heap exit_entry_def Let_def intro!: grows_put_run)

lemma conc_inv_step:
  assumes k: "conc_inv c k" and s: "sys_inv c (k_sys k')" and g: "grows (k_sys k) (k_sys k')"
    and o: "set (k_observe k') \<subseteq> set (k_observe k)" and f: "set (k_forget k') \<subseteq> set (k_forget k)"
  shows "conc_inv c k'"
proof -
  let ?s = "k_sys k'"
  have "i < length (s_heap ?s) \<and> (st = StateReady \<or> st = StateStopped)" if "(i, st) \<in> set (k_observe k')" for i st
    using that k o g unfolding conc_inv_def grows_def by fastforce
  moreover have "i < length (s_heap ?s) \<and> e_gone (s_heap ?s ! i) \<noteq> None" if "(n, i) \<in> set (k_forget k')" for n i
    using that k f g unfolding conc_inv_def grows_def by (meson less_le_trans subsetD)
  ultimately show ?thesis using s by (simp add: conc_inv_def)
qed

lemma sys_inv_irrelevant [simp]:
  "sys_inv c (s\<lparr>s_world := w\<rparr>) = sys_inv c s"
  "sys_inv c (s\<lparr>s_adopted := b\<rparr>) = sys_inv c s"
  "sys_inv c (s\<lparr>s_closing := b\<rparr>) = sys_inv c s"
  "sys_inv c (s\<lparr>s_world := w, s_closed := cl\<rparr>) = sys_inv c s"
  by (simp_all add: sys_inv_defs)

lemma in_set_remove1D: "x \<in> set (remove1 y xs) \<Longrightarrow> x \<in> set xs"
  by (meson set_remove1_subset subsetD)

lemma mstep_inv: "mstep c k k' \<Longrightarrow> conc_inv c k \<Longrightarrow> conc_inv c k'"
proof (induction rule: mstep.induct)
  case (environment k w)
  then show ?case
    by - (rule conc_inv_step[OF environment.prems], auto simp: conc_inv_def grows_same_heap)
next
  case (lookup sp k i known s)
  then show ?case
    by - (rule conc_inv_step[OF lookup.prems], auto simp: conc_inv_def grows_adopt dest: adopt_inv)
next
  case (exec i k cmd rep s)
  then have "sys_inv c s" by (intro entry_ask_inv[OF _ exec.hyps(1) _ exec.hyps(2)]) (auto simp: conc_inv_def)
  with exec show ?case
    by - (rule conc_inv_step[OF exec.prems], auto simp: grows_entry_ask)
next
  case (destroyed i k res s n)
  have s: "sys_inv c s" using destroyed.prems
    by (intro entry_ask_inv[OF _ destroyed.hyps(1) _ destroyed.hyps(2)]) (auto simp: conc_inv_def)
  note g = grows_entry_ask[OF destroyed.hyps(2)]
  have "conc_inv c \<lparr>k_sys = s, k_observe = k_observe k, k_forget = k_forget k\<rparr>"
    by (rule conc_inv_step[OF destroyed.prems]) (simp_all add: s g)
  then show ?case
    using entry_ask_destroyed[OF destroyed.hyps(2,1)] destroyed.hyps(1)
      entry_ask_sel(2)[OF destroyed.hyps(2)]
    by (auto simp: conc_inv_def)
next
  case (destroy_failed i k res e s)
  then have "sys_inv c s"
    by (intro entry_ask_inv[OF _ destroy_failed.hyps(1) _ destroy_failed.hyps(2)]) (auto simp: conc_inv_def)
  with destroy_failed show ?case
    by - (rule conc_inv_step[OF destroy_failed.prems], auto simp: grows_entry_ask)
next
  case (forgotten n i k)
  then have g: "\<not> live (k_sys k) i" and s: "sys_inv c (k_sys k)" by (auto simp: conc_inv_def)
  show ?case
    by (rule conc_inv_step[OF forgotten.prems])
       (use forget_inv[OF s g, of n] in \<open>simp_all add: forget_def grows_same_heap set_remove1_subset\<close>)
next
  case (found sp k i s st)
  have s: "sys_inv c s \<and> i < length (s_heap s)"
    using found adopt_inv[of c "k_sys k" sp i False s] by (auto simp: conc_inv_def)
  have "conc_inv c \<lparr>k_sys = s, k_observe = k_observe k, k_forget = k_forget k\<rparr>"
    by (rule conc_inv_step[OF found.prems]) (simp_all add: s grows_adopt[OF found.hyps(1)])
  with s found.hyps(2) show ?case by (auto simp: conc_inv_def)
next
  case (observed i st k rep s)
  then have "sys_inv c s"
    by (intro entry_ask_inv[OF _ _ _ observed.hyps(2)]) (auto simp: conc_inv_def)
  with observed show ?case
    by - (rule conc_inv_step[OF observed.prems], auto simp: grows_entry_ask dest: in_set_remove1D)
next
  case (adopted k)
  then show ?case
    by - (rule conc_inv_step[OF adopted.prems], auto simp: conc_inv_def grows_same_heap)
next
  case (list_failed k e)
  then have s: "sys_inv c (k_sys k)" by (simp add: conc_inv_def)
  show ?case
    by (rule conc_inv_step[OF list_failed.prems])
       (use report_failed_inv[OF s, of c e] in \<open>simp_all add: report_failed_def grows_same_heap\<close>)
next
  case (fired i k)
  then show ?case
    by - (rule conc_inv_step[OF fired.prems], auto simp: conc_inv_def set_entry_fire_inv grows_set_entry_fire)
next
  case (woken i k d)
  then show ?case
    by - (rule conc_inv_step[OF woken.prems], auto simp: conc_inv_def wake_sys_inv grows_wake)
next
  case (closing k)
  then show ?case
    by - (rule conc_inv_step[OF closing.prems], auto simp: conc_inv_def grows_same_heap)
next
  case (exited i k)
  then show ?case
    by - (rule conc_inv_step[OF exited.prems], auto simp: conc_inv_def exit_one_inv grows_exit_one)
next
  case (closed k err w)
  then show ?case
    by - (rule conc_inv_step[OF closed.prems], auto simp: conc_inv_def grows_same_heap)
qed

lemma reachable_inv: "reachable c k \<Longrightarrow> conc_inv c k"
proof (induction rule: reachable.induct)
  case (init w)
  then show ?case by (simp add: conc_init_def newManager_def conc_inv_def sys_inv_defs)
next
  case (step k k')
  then show ?case by (blast intro: mstep_inv)
qed

end
