(* ===== verification/Sandbox.thy ===== *)
theory Sandbox
  imports SandboxSystem
begin

section \<open>What the sandbox manager guarantees\<close>

text \<open>
  The manager's operations are sequences of the atomic steps of \<open>SandboxSystem\<close>, so whatever
  holds in every reachable state holds under any interleaving of the operations. The properties
  follow from that invariant and from the handlers' equations.
\<close>

subsection \<open>Operations are sequences of steps\<close>

lemma reach_step: "reachable c k \<Longrightarrow> mstep c k (k\<lparr>k_sys := s\<rparr>) \<Longrightarrow> reachable c (k\<lparr>k_sys := s\<rparr>)"
  by (rule reachable.step)

lemma adopt_reachable:
  assumes "reachable c k" and "adopt sp (k_sys k) = (res, s)"
  shows "reachable c (k\<lparr>k_sys := s\<rparr>)"
proof (cases res)
  case (Inl e)
  with assms show ?thesis by (auto simp: adopt_def Let_def split: if_splits option.splits)
next
  case (Inr p)
  obtain i known where "p = (i, known)" by (cases p)
  with assms Inr show ?thesis by (auto intro: reachable.step mstep.lookup)
qed

lemma entryFor_reachable:
  assumes "reachable c k" and "entryFor sp (k_sys k) = (res, s)"
  shows "reachable c (k\<lparr>k_sys := s\<rparr>)"
  using assms adopt_reachable[OF assms(1)]
  by (auto simp: entryFor_def split: prod.splits sum.splits)

lemma entryFor_index:
  assumes "reachable c k" and "entryFor sp (k_sys k) = (Inr i, s)"
  shows "i < length (s_heap s)" and "map_of (s_entries s) (sp_Name sp) = Some i"
    and "sp_Name (e_spec (s_heap s ! i)) = sp_Name sp"
proof -
  from assms(2) obtain known where a: "adopt sp (k_sys k) = (Inr (i, known), s)"
    by (auto simp: entryFor_def split: prod.splits sum.splits)
  have "sys_inv c (k_sys k)" using reachable_inv[OF assms(1)] by (simp add: conc_inv_def)
  from adopt_inv[OF this a] have s: "sys_inv c s" and i: "i < length (s_heap s)" by simp_all
  show "i < length (s_heap s)" by (rule i)
  show m: "map_of (s_entries s) (sp_Name sp) = Some i"
    using a by (cases known) (auto dest: adopt_known adopt_new)
  show "sp_Name (e_spec (s_heap s ! i)) = sp_Name sp"
    using s m by (simp add: sys_inv_defs)
qed

lemma Open_reachable:
  assumes "reachable c k" and "Open c n (k_sys k) = (res, s)"
  shows "reachable c (k\<lparr>k_sys := s\<rparr>)"
  using assms entryFor_reachable[OF assms(1)]
  by (auto simp: Open_def split: if_splits prod.splits sum.splits)

lemma exec_reachable:
  assumes "reachable c k" and "i < length (s_heap (k_sys k))"
    and "entry_ask c i (ReqExec cmd) (k_sys k) = (rep, s)"
  shows "reachable c (k\<lparr>k_sys := s\<rparr>)"
  using assms by (blast intro: reachable.step mstep.exec)

lemma Destroy_reachable:
  assumes k: "reachable c k" and d: "Destroy c n (k_sys k) = (res, s)"
  shows "reachable c (k\<lparr>k_sys := s\<rparr>)"
proof (cases "n = ''''")
  case True
  with k d show ?thesis by (auto simp: Destroy_def)
next
  case False
  obtain res1 s1 where e: "entryFor \<lparr>sp_Name = n, sp_Image = ''''\<rparr> (k_sys k) = (res1, s1)"
    by (cases "entryFor \<lparr>sp_Name = n, sp_Image = ''''\<rparr> (k_sys k)")
  note k1 = entryFor_reachable[OF k e]
  show ?thesis
  proof (cases res1)
    case (Inl err)
    with False d e k1 show ?thesis by (simp add: Destroy_def)
  next
    case (Inr i)
    note idx = entryFor_index[OF k e[unfolded Inr]]
    obtain res2 err s2 where a: "entry_ask c i ReqDestroy s1 = ((res2, err), s2)"
      by (metis prod.exhaust)
    show ?thesis
    proof (cases err)
      case (Some er)
      with False d e Inr a have "s = s2" by (simp add: Destroy_def)
      with k1 a Some idx(1) show ?thesis
        using mstep.destroy_failed[of i "k\<lparr>k_sys := s1\<rparr>" c res2 er s2] by (auto intro: reachable.step)
    next
      case None
      with False d e Inr a have s: "s = forget n i s2" by (simp add: Destroy_def)
      have 1: "reachable c (k\<lparr>k_sys := s2, k_forget := (n, i) # k_forget k\<rparr>)"
        using mstep.destroyed[of i "k\<lparr>k_sys := s1\<rparr>" c res2 s2 n] k1 a None idx(1)
        by (auto intro: reachable.step)
      have "mstep c (k\<lparr>k_sys := s2, k_forget := (n, i) # k_forget k\<rparr>) (k\<lparr>k_sys := s\<rparr>)"
        using mstep.forgotten[of n i "k\<lparr>k_sys := s2, k_forget := (n, i) # k_forget k\<rparr>" c]
        by (simp add: s)
      with 1 show ?thesis by (rule reachable.step)
    qed
  qed
qed

lemma reconcile_found_reachable:
  "reachable c (k\<lparr>k_sys := s\<rparr>) \<Longrightarrow> reconcile_found c found rp s = (res, s') \<Longrightarrow>
   reachable c (k\<lparr>k_sys := s'\<rparr>)"
proof (induction found arbitrary: rp s)
  case Nil
  then show ?case by simp
next
  case (Cons bs found)
  let ?sp = "\<lparr>sp_Name = bs_Name bs, sp_Image = bs_Image bs\<rparr>"
  obtain r1 s1 where a: "adopt ?sp s = (r1, s1)" by (cases "adopt ?sp s")
  have k1: "reachable c (k\<lparr>k_sys := s1\<rparr>)"
    using adopt_reachable[OF Cons.prems(1), of ?sp r1 s1] a by simp
  consider (err) e where "r1 = Inl e" | (known) i where "r1 = Inr (i, True)"
    | (fresh) i where "r1 = Inr (i, False)"
    by (metis (full_types) prod.exhaust sum.exhaust)
  then show ?case
  proof cases
    case err
    with Cons.prems a k1 show ?thesis by simp
  next
    case known
    with Cons.prems a k1 Cons.IH show ?thesis by simp
  next
    case fresh
    define st where "st = (if bs_State bs = BackendRunning then StateReady else StateStopped)"
    obtain r2 e2 s2 where o: "entry_ask c i (ReqObserve st) s1 = ((r2, e2), s2)"
      by (metis prod.exhaust)
    have f: "reachable c (k\<lparr>k_sys := s1, k_observe := (i, st) # k_observe k\<rparr>)"
      using mstep.found[of ?sp "k\<lparr>k_sys := s\<rparr>" i s1 st c] Cons.prems(1) a fresh
      by (auto simp: st_def intro: reachable.step)
    have "reachable c (k\<lparr>k_sys := s2\<rparr>)"
      using mstep.observed[of i st "k\<lparr>k_sys := s1, k_observe := (i, st) # k_observe k\<rparr>" c "(r2, e2)" s2] f o
      by (auto intro: reachable.step)
    then show ?thesis
      using Cons.prems(2) a fresh o Cons.IH
      by (auto simp: st_def Let_def split: option.splits if_splits)
  qed
qed

lemma reconcile_reachable:
  assumes k: "reachable c k" and r: "reconcile c (k_sys k) = (res, s)"
  shows "reachable c (k\<lparr>k_sys := s\<rparr>)"
proof -
  have w: "reachable c (k\<lparr>k_sys := (k_sys k)\<lparr>s_world := w\<rparr>\<rparr>)" for w
    using k by (auto intro: reachable.step mstep.environment)
  from r show ?thesis
    by (auto simp: reconcile_def w split: prod.splits sum.splits intro: reconcile_found_reachable[OF w])
qed

lemma set_adopted_reachable:
  "reachable c (k\<lparr>k_sys := s\<rparr>) \<Longrightarrow> reachable c (k\<lparr>k_sys := s\<lparr>s_adopted := True\<rparr>\<rparr>)"
  using mstep.adopted[of c "k\<lparr>k_sys := s\<rparr>"] by (auto intro: reachable.step)

lemma report_failed_reachable:
  "reachable c (k\<lparr>k_sys := s\<rparr>) \<Longrightarrow> reachable c (k\<lparr>k_sys := report_failed c e s\<rparr>)"
  using mstep.list_failed[of c "k\<lparr>k_sys := s\<rparr>"] by (auto intro: reachable.step)

lemma Reconcile_reachable:
  assumes "reachable c k" and "Reconcile c (k_sys k) = (res, s)"
  shows "reachable c (k\<lparr>k_sys := s\<rparr>)"
  using assms reconcile_reachable[OF assms(1)]
  by (auto simp: Reconcile_def split: if_splits prod.splits sum.splits intro: set_adopted_reachable)

lemma ensureAdopted_reachable:
  assumes "reachable c k"
  shows "reachable c (k\<lparr>k_sys := ensureAdopted c (k_sys k)\<rparr>)"
  using assms reconcile_reachable[OF assms]
  by (auto simp: ensureAdopted_def split: prod.splits sum.splits
      intro: set_adopted_reachable report_failed_reachable)

lemma exit_one_closing [simp]: "s_closing (exit_one i s) = s_closing s"
  by (simp add: exit_one_def)

lemma adopt_heap: "adopt sp s = (res, s') \<Longrightarrow> length (s_heap s) \<le> length (s_heap s')"
  by (auto simp: adopt_def Let_def split: if_splits option.splits)

lemma reconcile_found_heap:
  "reconcile_found c found rp s = (res, s') \<Longrightarrow> length (s_heap s) \<le> length (s_heap s')"
proof (induction found arbitrary: rp s)
  case (Cons bs found)
  then show ?case
    by (auto simp: Let_def split: prod.splits sum.splits option.splits bool.splits if_splits
        dest!: adopt_heap entry_ask_sel(2)) force+
qed simp

lemma ensureAdopted_heap: "length (s_heap s) \<le> length (s_heap (ensureAdopted c s))"
  by (auto simp: ensureAdopted_def reconcile_def report_failed_def split: prod.splits sum.splits
      dest!: reconcile_found_heap)

lemma handle_Exec_reachable:
  assumes "reachable c k" and "h_entry h < length (s_heap (k_sys k))"
    and "handle_Exec c h cmd (k_sys k) = (rep, s)"
  shows "reachable c (k\<lparr>k_sys := s\<rparr>)"
proof (cases "h_closed h")
  case True
  with assms show ?thesis by (auto simp: handle_Exec_def)
next
  case False
  let ?k = "k\<lparr>k_sys := ensureAdopted c (k_sys k)\<rparr>"
  have "length (s_heap (k_sys k)) \<le> length (s_heap (ensureAdopted c (k_sys k)))"
    by (rule ensureAdopted_heap)
  with assms False exec_reachable[OF ensureAdopted_reachable[OF assms(1)], of "h_entry h" cmd rep s]
  show ?thesis by (auto simp: handle_Exec_def)
qed

lemma exit_all_reachable:
  "reachable c (k\<lparr>k_sys := s\<rparr>) \<Longrightarrow> s_closing s \<Longrightarrow> \<forall>i \<in> set is. i < length (s_heap s) \<Longrightarrow>
   reachable c (k\<lparr>k_sys := fold exit_one is s\<rparr>)"
proof (induction "is" arbitrary: s)
  case (Cons i "is")
  have "reachable c (k\<lparr>k_sys := exit_one i s\<rparr>)"
    using mstep.exited[of i "k\<lparr>k_sys := s\<rparr>" c] Cons.prems by (auto intro: reachable.step)
  moreover have "length (s_heap (exit_one i s)) = length (s_heap s)"
    by (simp add: exit_one_def)
  ultimately show ?case
    using Cons by (simp add: exit_one_closing)
qed simp

lemma exit_all_gone:
  "\<lbrakk>i < length (s_heap s); i \<in> set is \<or> e_gone (s_heap s ! i) \<noteq> None\<rbrakk> \<Longrightarrow>
   e_gone (s_heap (fold exit_one is s) ! i) \<noteq> None"
proof (induction "is" arbitrary: s)
  case (Cons j "is")
  have "length (s_heap (exit_one j s)) = length (s_heap s)" by (simp add: exit_one_def)
  moreover have "i \<in> set is \<or> e_gone (s_heap (exit_one j s) ! i) \<noteq> None"
    using Cons.prems by (cases "j = i") (auto simp: exit_one_def exit_entry_def Let_def)
  ultimately show ?case using Cons by simp
qed simp

lemma exit_all_sel [simp]:
  "length (s_heap (fold exit_one is s)) = length (s_heap s)"
  "s_closing (fold exit_one is s) = s_closing s"
  "s_closed (fold exit_one is s) = s_closed s"
  "s_entries (fold exit_one is s) = s_entries s"
  by (induction "is" arbitrary: s) (auto simp: exit_one_def put_run_def)

lemma Close_reachable:
  assumes k: "reachable c k" and r: "Close c (k_sys k) = (res, s)"
  shows "reachable c (k\<lparr>k_sys := s\<rparr>)"
proof (cases "s_closed (k_sys k)")
  case (Some err)
  with k r show ?thesis by (auto simp: Close_def)
next
  case None
  let ?s = "(k_sys k)\<lparr>s_closing := True\<rparr>"
  let ?is = "map snd (s_entries ?s)"
  let ?t = "fold exit_one ?is ?s"
  have lk: "lookup_inv (k_sys k)" using reachable_inv[OF k] by (simp add: conc_inv_def sys_inv_def)
  have "\<forall>i \<in> set ?is. i < length (s_heap ?s)"
    using lk by (auto simp: lookup_inv_def map_of_iff_mem)
  moreover have "reachable c (k\<lparr>k_sys := ?s\<rparr>)"
    using k by (auto intro: reachable.step mstep.closing)
  ultimately have f: "reachable c (k\<lparr>k_sys := ?t\<rparr>)"
    by (intro exit_all_reachable) simp_all
  have "i \<in> set ?is \<or> e_gone (s_heap ?s ! i) \<noteq> None" if "i < length (s_heap ?s)" for i
    using lk that by (force simp: lookup_inv_def dest: map_of_SomeD)
  then have "\<forall>i < length (s_heap ?t). e_gone (s_heap ?t ! i) \<noteq> None"
    using exit_all_gone [of _ ?s ?is] by simp
  with f mstep.closed[of "k\<lparr>k_sys := ?t\<rparr>" c] None r show ?thesis
    by (auto simp: Close_def Let_def split: prod.splits intro: reachable.step)
qed

subsection \<open>A manager to evaluate on\<close>

text \<open>
  A backend that succeeds at everything, over a world that is only a clock which a reading moves on
  by one: what the witnesses run.
\<close>

definition demo_backend :: "int backend" where
  "demo_backend =
     \<lparr>be_EnsureReady = (\<lambda>sp w. (None, w)), be_Exec = (\<lambda>n cmd w. ((empty_result, None), w)),
      be_Stop = (\<lambda>n w. (None, w)), be_Destroy = (\<lambda>n w. (None, w)),
      be_List = (\<lambda>w. (Inr [\<lparr>bs_Name = ''old'', bs_Image = '''', bs_State = BackendRunning\<rparr>,
                              \<lparr>bs_Name = ''cold'', bs_Image = '''', bs_State = BackendStopped\<rparr>], w)),
      be_Close = (\<lambda>w. (None, w))\<rparr>"

definition demo_cfg :: "int mgr_cfg" where
  "demo_cfg = \<lparr>c_backend = demo_backend, c_Now = (\<lambda>w. (w, w + 1)), c_idle = 300, c_image = ''img'',
     c_observer = True\<rparr>"

definition demo_cmd :: command where
  "demo_cmd = \<lparr>cmd_Cmd = ''ls'', cmd_Args = []\<rparr>"

text \<open>A sandbox opened, used once, and ready on the idle clock.\<close>

definition demo_used :: "int conc" where
  "demo_used =
     (let k = conc_init 1000;
          k = k\<lparr>k_sys := snd (Open demo_cfg ''box'' (k_sys k))\<rparr>
      in k\<lparr>k_sys := snd (entry_ask demo_cfg 0 (ReqExec demo_cmd) (k_sys k))\<rparr>)"

lemmas demo_simps =
  demo_cfg_def demo_backend_def demo_cmd_def conc_init_def newManager_def Open_def entryFor_def
  adopt_def entry_ask_def run_of_def put_run_def ask_def doExec_def exec_ready_def small_step_defs
  newEntry_def snap_of_def Let_def

lemma demo_used_reachable: "reachable demo_cfg demo_used"
proof -
  let ?k = "conc_init 1000\<lparr>k_sys := snd (Open demo_cfg ''box'' (k_sys (conc_init 1000)))\<rparr>"
  have 1: "reachable demo_cfg ?k"
    using Open_reachable[OF reachable.init, of demo_cfg "''box''" 1000] by (metis prod.collapse)
  have "0 < length (s_heap (k_sys ?k))" by (simp add: demo_simps)
  then show ?thesis
    unfolding demo_used_def Let_def
    using exec_reachable[OF 1, of 0 demo_cmd] by (metis prod.collapse)
qed

lemma demo_used_entry:
  "s_heap (k_sys demo_used) =
     [\<lparr>e_spec = \<lparr>sp_Name = ''box'', sp_Image = ''img''\<rparr>, e_state = StateReady, e_due = 1301,
       e_lastExec = 1000, e_timer = Some (Timer 1301 False), e_wakeups = [], e_gone = None,
       e_snap = \<lparr>i_Name = ''box'', i_State = StateReady, i_Image = ''img'', i_LastExec = 1000,
                 i_DueAt = 1301\<rparr>\<rparr>]"
  "s_entries (k_sys demo_used) = [(''box'', 0)]"
  "s_world (k_sys demo_used) = 1002"
  by (simp_all add: demo_used_def demo_simps)

subsection \<open>Serialization\<close>

text \<open>C1. However callers, timers and passes interleave, no two live sandbox goroutines ever
  share a name, so one name's requests are served one at a time.\<close>

theorem one_goroutine_per_name:
  assumes "reachable c k" and "live (k_sys k) i" and "live (k_sys k) j"
    and "heap_name (k_sys k) i = heap_name (k_sys k) j"
  shows "i = j"
proof -
  have "lookup_inv (k_sys k)"
    using reachable_inv[OF assms(1)] by (simp add: conc_inv_def sys_inv_def)
  then show ?thesis by (rule live_unique[OF _ assms(2-4)])
qed

theorem one_goroutine_per_name_witness:
  "live (k_sys demo_used) 0 \<and>
   \<not> (\<exists>j. live (k_sys demo_used) j \<and> heap_name (k_sys demo_used) j = ''box'' \<and> j \<noteq> 0)"
  using one_goroutine_per_name[OF demo_used_reachable, of 0] by (auto simp: demo_used_entry)

text \<open>
  An observation is logged when it is served, and what it tells was listed before that. It is
  overtaken when the manager called the backend about the name in between; where no call about the
  name came before it, nothing the manager did lies between the listing and the observation.
\<close>

fun call_about :: "string \<Rightarrow> obs \<Rightarrow> bool" where
  "call_about n (CallEnsureReady m ok) = (m = n)"
| "call_about n (CallExec m ok) = (m = n)"
| "call_about n (CallStop m ok) = (m = n)"
| "call_about n (CallDestroy m ok) = (m = n)"
| "call_about n _ = False"

fun overtaken :: "string \<Rightarrow> bool \<Rightarrow> obs list \<Rightarrow> bool" where
  "overtaken n called [] = False"
| "overtaken n called (Found m s # xs) = ((m = n \<and> called) \<or> overtaken n called xs)"
| "overtaken n called (x # xs) = overtaken n (called \<or> call_about n x) xs"

text \<open>
  \<open>exec_prepared n\<close> says that every command of \<open>n\<close> finds it running by what the manager itself did:
  by an \<open>EnsureReady\<close> that succeeded with no \<open>Stop\<close> or \<open>Destroy\<close> that succeeded since. An observation
  counts only while the manager has made no call about the name.
\<close>

fun exec_prepared :: "string \<Rightarrow> bool \<Rightarrow> bool \<Rightarrow> obs list \<Rightarrow> bool" where
  "exec_prepared n b called [] = True"
| "exec_prepared n b called (CallExec m ok # xs) =
    ((m = n \<longrightarrow> b) \<and> exec_prepared n b (called \<or> m = n) xs)"
| "exec_prepared n b called (Found m s # xs) =
    exec_prepared n (if m = n \<and> \<not> called then s = StateReady else b) called xs"
| "exec_prepared n b called (x # xs) = exec_prepared n (up_step n b x) (called \<or> call_about n x) xs"

lemma exec_prepared_safe: "\<not> overtaken n called xs \<Longrightarrow> exec_prepared n b called xs = exec_safe n b xs"
  by (induction n b called xs rule: exec_prepared.induct) auto

text \<open>C2. Commands only to running sandboxes. In every reachable state, for every name no observation of which
  was overtaken by a call of the manager: every command was sent while the sandbox was running, because
  the manager made it ready, or a pass found it running before the manager's first call about it, and
  the manager has neither stopped nor destroyed it since. (Where an observation is overtaken this
  fails, as is shown below.)\<close>

theorem exec_only_when_running:
  assumes "reachable c k" "\<not> overtaken n False (s_log (k_sys k))"
  shows "exec_prepared n False False (s_log (k_sys k))"
  using reachable_inv[OF assms(1)] exec_prepared_safe[OF assms(2)] by (simp add: conc_inv_def sys_inv_defs)

theorem exec_only_when_running_witness:
  "exec_prepared ''box'' False False (s_log (k_sys demo_used)) \<and> CallExec ''box'' True \<in> set (s_log (k_sys demo_used))"
  using exec_only_when_running[OF demo_used_reachable, of "''box''"]
  by (simp add: demo_used_def demo_simps)

text \<open>C3. With an idle timeout, every live sandbox that rests in \<open>StateReady\<close> is on the idle
  clock: its timer for the current deadline is pending, or has fired with its wakeup still to be
  served. Running compute is never left without a wakeup that will release it.\<close>

theorem ready_is_on_clock:
  assumes "reachable c k" and "live (k_sys k) i" and "e_state (s_heap (k_sys k) ! i) = StateReady"
    and "0 < c_idle c"
  shows "on_clock (s_heap (k_sys k) ! i)"
  using reachable_inv[OF assms(1)] assms(2-4) by (simp add: conc_inv_def sys_inv_def entry_inv_def)

theorem ready_is_on_clock_witness:
  "e_state (s_heap (k_sys demo_used) ! 0) = StateReady \<and> on_clock (s_heap (k_sys demo_used) ! 0)"
  using ready_is_on_clock[OF demo_used_reachable, of 0]
  by (simp add: demo_used_entry demo_cfg_def)

text \<open>C4. Every event an observer is told is a transition of the table, and by then the state it
  reports is the one published for \<open>Inspect\<close>.\<close>

theorem events_follow_the_table:
  assumes "reachable c k"
  shows "reports_ok Map.empty (s_log (k_sys k))"
  using reachable_inv[OF assms] by (simp add: conc_inv_def sys_inv_defs)

theorem events_follow_the_table_witness:
  "reports_ok Map.empty (s_log (k_sys demo_used)) \<and>
   Reported \<lparr>ev_Type = EventPrepared, ev_Name = ''box'', ev_From = StatePreparing,
     ev_To = StateExecuting, ev_Err = None\<rparr> \<in> set (s_log (k_sys demo_used))"
  using events_follow_the_table[OF demo_used_reachable]
  by (simp add: demo_used_def demo_simps)

text \<open>\<open>Inspect\<close> lists one current snapshot for every live sandbox, sorted by name and without
  duplicates; none of them is in the middle of a backend call between two requests.\<close>

theorem inspect_is_current:
  assumes "reachable c k"
  shows "sorted (map i_Name (Inspect (k_sys k))) \<and> distinct (map i_Name (Inspect (k_sys k))) \<and>
    (\<forall>i. live (k_sys k) i \<longrightarrow>
       snap_of (s_heap (k_sys k) ! i) \<in> set (Inspect (k_sys k)) \<and>
       resting (e_state (s_heap (k_sys k) ! i)))"
proof -
  let ?s = "k_sys k"
  have s: "sys_inv c ?s" using reachable_inv[OF assms] by (simp add: conc_inv_def)
  have snap: "e_snap (s_heap ?s ! i) = snap_of (s_heap ?s ! i)" if "i < length (s_heap ?s)" for i
    using s that by (simp add: sys_inv_def entry_inv_def)
  have nm: "i_Name (e_snap (s_heap ?s ! i)) = n" if "(n, i) \<in> set (s_entries ?s)" for n i
    using s that snap[of i] by (auto simp: sys_inv_defs snap_of_def map_of_iff_mem)
  have "map i_Name (map (\<lambda>(n, i). e_snap (s_heap ?s ! i)) (s_entries ?s)) = map fst (s_entries ?s)"
    using nm by (auto simp: map_idI)
  moreover have "keys_ok (s_entries ?s)" using s by (simp add: sys_inv_defs)
  ultimately have "distinct (map i_Name (map (\<lambda>(n, i). e_snap (s_heap ?s ! i)) (s_entries ?s)))"
    by (simp only:)
  then have "distinct (map i_Name (Inspect ?s))"
    by (simp only: Inspect_def distinct_map distinct_sort set_sort)
  moreover have "snap_of (s_heap ?s ! i) \<in> set (Inspect ?s) \<and> resting (e_state (s_heap ?s ! i))"
    if "live ?s i" for i
  proof -
    have "(heap_name ?s i, i) \<in> set (s_entries ?s)"
      using s that by (auto simp: sys_inv_defs map_of_iff_mem)
    then have "e_snap (s_heap ?s ! i) \<in> set (Inspect ?s)"
      by (force simp: Inspect_def)
    with that snap s show ?thesis by (auto simp: sys_inv_def entry_inv_def)
  qed
  ultimately show ?thesis by (simp add: Inspect_def)
qed

theorem inspect_is_current_witness:
  "Inspect (k_sys demo_used) =
     [\<lparr>i_Name = ''box'', i_State = StateReady, i_Image = ''img'', i_LastExec = 1000, i_DueAt = 1301\<rparr>] \<and>
   sorted (map i_Name (Inspect (k_sys demo_used)))"
  using inspect_is_current[OF demo_used_reachable] by (simp add: Inspect_def demo_used_entry)

subsection \<open>One command\<close>

lemma exec_ready_result:
  assumes "be_Exec (c_backend c) (sp_Name (e_spec (r_entry r))) cmd (r_world r) = ((bres, berr), bw)"
    and "c_Now c bw = (t, tw)" and "c_Now c tw = (t2, tw2)" and "exec_ready c cmd r = (rep, r')"
  shows "rep = (bres, berr)" and "e_state (r_entry r') = StateReady" and "e_lastExec (r_entry r') = t"
    and "if c_idle c \<le> 0 then e_timer (r_entry r') = None \<and> r_world r' = tw
         else e_due (r_entry r') = t2 + c_idle c \<and> r_world r' = tw2 \<and>
              e_timer (r_entry r') = Some (Timer (t2 + c_idle c) False)"
  using assms by (auto simp: exec_ready_def small_step_defs Let_def)

lemma ask_exec: "e_gone (r_entry r) = None \<Longrightarrow> ask c (ReqExec cmd) r = doExec c cmd r"
  by (simp add: ask_def split: prod.splits)

lemma doExec_made_ready:
  assumes "(if e_state (r_entry r) = StateReady then (None, r_world r)
      else be_EnsureReady (c_backend c) (e_spec (r_entry r)) (r_world r)) = (None, pw)"
  shows "\<exists>r1. doExec c cmd r = exec_ready c cmd r1 \<and> r_world r1 = pw \<and>
    e_spec (r_entry r1) = e_spec (r_entry r)"
proof (cases "e_state (r_entry r) = StateReady")
  case True
  with assms show ?thesis
    by (intro exI[of _ "commit StateExecuting (stopTimer r)"]) (simp add: doExec_def frame_simps)
next
  case False
  with assms have "be_EnsureReady (c_backend c) (e_spec (r_entry r)) (r_world r) = (None, pw)" by simp
  with False show ?thesis by (auto simp: doExec_def frame_simps Let_def intro!: exI)
qed

text \<open>What one command does, on every branch. If the sandbox is ready or can be made ready, the
  caller gets exactly what the backend answered, the sandbox is left ready, its last use is the time
  the command returned, and its next deadline is one idle window later. If it cannot be made ready
  the caller gets that error, nothing is run, and the sandbox is back where it was, off the clock.\<close>

theorem exec_contract:
  assumes "e_gone (r_entry r) = None"
  shows "case ask c (ReqExec cmd) r of ((res, err), r') \<Rightarrow>
    (let e = r_entry r; e' = r_entry r'; B = c_backend c;
         (perr, pw) = (if e_state e = StateReady then (None, r_world r)
                       else be_EnsureReady B (e_spec e) (r_world r))
     in case perr of
          Some pe \<Rightarrow> err = Some pe \<and> res = empty_result \<and> r_world r' = pw \<and>
            e_state e' = e_state e \<and> e_lastExec e' = e_lastExec e \<and>
            e_timer e' = None \<and> e_due e' = zero_time
        | None \<Rightarrow>
            (let ((bres, berr), bw) = be_Exec B (sp_Name (e_spec e)) cmd pw;
                 (t, tw) = c_Now c bw
             in res = bres \<and> err = berr \<and> e_state e' = StateReady \<and> e_lastExec e' = t \<and>
                (if c_idle c \<le> 0 then e_timer e' = None \<and> r_world r' = tw
                 else e_due e' = fst (c_Now c tw) + c_idle c \<and>
                      e_timer e' = Some (Timer (e_due e') False) \<and>
                      r_world r' = snd (c_Now c tw))))"
proof -
  obtain perr pw where p: "(if e_state (r_entry r) = StateReady then (None, r_world r)
      else be_EnsureReady (c_backend c) (e_spec (r_entry r)) (r_world r)) = (perr, pw)"
    by (metis prod.exhaust)
  obtain bres berr bw where b: "be_Exec (c_backend c) (sp_Name (e_spec (r_entry r))) cmd pw = ((bres, berr), bw)"
    by (metis prod.exhaust)
  obtain t tw where t: "c_Now c bw = (t, tw)" by (metis prod.exhaust)
  obtain t2 tw2 where t2: "c_Now c tw = (t2, tw2)" by (metis prod.exhaust)
  show ?thesis
  proof (cases perr)
    case None
    with doExec_made_ready[of r c pw cmd] p
    obtain r1 where a: "doExec c cmd r = exec_ready c cmd r1" and w: "r_world r1 = pw"
      and sp: "e_spec (r_entry r1) = e_spec (r_entry r)" by auto
    obtain rep r' where er: "exec_ready c cmd r1 = (rep, r')" by (cases "exec_ready c cmd r1")
    from exec_ready_result[OF b[folded sp w] t t2 er] show ?thesis
      by (auto simp: ask_exec[OF assms] a er p None b t t2)
  next
    case (Some pe)
    with p show ?thesis
      by (auto simp: ask_exec[OF assms] doExec_def small_step_defs err_reply_def Let_def split: if_splits)
  qed
qed

theorem exec_contract_witness:
  "snd (fst (ask demo_cfg (ReqExec demo_cmd) (run_of 0 (k_sys demo_used)))) = None \<and>
   e_due (r_entry (snd (ask demo_cfg (ReqExec demo_cmd) (run_of 0 (k_sys demo_used))))) = 1303"
  using exec_contract[of "run_of 0 (k_sys demo_used)" demo_cfg demo_cmd]
  by (simp add: demo_used_entry run_of_sel demo_cfg_def demo_backend_def empty_result_def Let_def
      split: prod.splits)

text \<open>A wakeup acts only on the deadline it was scheduled for. One that a later command replaced,
  or that finds the sandbox not ready, changes nothing and calls nothing; the current one stops the
  sandbox and takes it off the clock, or, if the backend refuses, leaves it ready with one more
  whole idle window.\<close>

theorem idle_wakeup:
  assumes "e_gone (r_entry r) = None"
  shows "if e_state (r_entry r) = StateReady \<and> d = e_due (r_entry r)
    then (case be_Stop (c_backend c) (sp_Name (e_spec (r_entry r))) (r_world r) of
        (None, w) \<Rightarrow>
          e_state (r_entry (wake c d r)) = StateStopped \<and> e_timer (r_entry (wake c d r)) = None \<and>
          r_world (wake c d r) = w
      | (Some err, w) \<Rightarrow>
          e_state (r_entry (wake c d r)) = StateReady \<and>
          (0 < c_idle c \<longrightarrow> e_due (r_entry (wake c d r)) = fst (c_Now c w) + c_idle c \<and>
             e_timer (r_entry (wake c d r)) = Some (Timer (fst (c_Now c w) + c_idle c) False)))
    else wake c d r =
      r\<lparr>r_entry := (r_entry r)\<lparr>e_wakeups := remove1 d (e_wakeups (r_entry r))\<rparr>\<rparr>"
  using assms
  by (auto simp: wake_def ask_def doIdle_def small_step_defs Let_def split: prod.splits option.splits)

theorem idle_wakeup_witness:
  "wake demo_cfg 7 (run_of 0 (k_sys demo_used)) = run_of 0 (k_sys demo_used) \<and>
   e_state (r_entry (wake demo_cfg 1301 (run_of 0 (k_sys demo_used)))) = StateStopped"
  using idle_wakeup[of "run_of 0 (k_sys demo_used)" 7 demo_cfg]
    idle_wakeup[of "run_of 0 (k_sys demo_used)" 1301 demo_cfg]
  by (simp add: demo_used_entry demo_cfg_def demo_backend_def run_of_def)

subsection \<open>A pass racing a command\<close>

text \<open>
  A manager that has adopted is asked to \<open>Reconcile\<close> again. The pass lists a sandbox as stopped
  and looks it up, which makes its entry; before it records what it saw, another caller opens the
  name and runs a command, which starts the sandbox. Then the observation is served, and later the
  idle timer fires and its wakeup is served.
\<close>

definition race_found :: "int conc" where
  "race_found =
     (let k = conc_init 1000; k = k\<lparr>k_sys := (k_sys k)\<lparr>s_adopted := True\<rparr>\<rparr>
      in k\<lparr>k_sys := snd (adopt \<lparr>sp_Name = ''x'', sp_Image = ''''\<rparr> (k_sys k)),
           k_observe := [(0, StateStopped)]\<rparr>)"

definition race_used :: "int conc" where
  "race_used = race_found\<lparr>k_sys := snd (entry_ask demo_cfg 0 (ReqExec demo_cmd) (k_sys race_found))\<rparr>"

definition race_observed :: "int conc" where
  "race_observed =
     race_used\<lparr>k_sys := snd (entry_ask demo_cfg 0 (ReqObserve StateStopped) (k_sys race_used)),
               k_observe := []\<rparr>"

definition race_fired :: "int conc" where
  "race_fired =
     race_observed\<lparr>k_sys := set_entry 0 (fire (s_heap (k_sys race_observed) ! 0)) (k_sys race_observed)\<rparr>"

definition race_over :: "int conc" where
  "race_over =
     race_fired\<lparr>k_sys := put_run 0 (wake demo_cfg 1301 (run_of 0 (k_sys race_fired))) (k_sys race_fired)\<rparr>"

lemmas race_defs = race_found_def race_used_def race_observed_def race_fired_def race_over_def

lemma race_heaps:
  "length (s_heap (k_sys race_found)) = 1" "length (s_heap (k_sys race_used)) = 1"
  "length (s_heap (k_sys race_observed)) = 1" "length (s_heap (k_sys race_fired)) = 1"
  "k_observe race_found = [(0, StateStopped)]" "k_observe race_used = [(0, StateStopped)]"
  "e_wakeups (s_heap (k_sys race_fired) ! 0) = [1301]"
  by (simp_all add: race_defs demo_simps doObserve_def set_entry_def fire_def)

lemma race_reachable: "reachable demo_cfg race_over"
proof -
  have "reachable demo_cfg (conc_init 1000\<lparr>k_sys := (k_sys (conc_init 1000))\<lparr>s_adopted := True\<rparr>\<rparr>)"
    by (blast intro: reachable.intros mstep.adopted)
  then have "reachable demo_cfg race_found"
  proof (rule reachable.step)
    show "mstep demo_cfg (conc_init 1000\<lparr>k_sys := (k_sys (conc_init 1000))\<lparr>s_adopted := True\<rparr>\<rparr>) race_found"
      unfolding race_found_def Let_def
      using mstep.found[of "\<lparr>sp_Name = ''x'', sp_Image = ''''\<rparr>"
          "conc_init 1000\<lparr>k_sys := (k_sys (conc_init 1000))\<lparr>s_adopted := True\<rparr>\<rparr>" 0 _ StateStopped demo_cfg]
      by (simp add: demo_simps)
  qed
  then have "reachable demo_cfg race_used"
    unfolding race_used_def
    by (rule reachable.step) (rule mstep.exec[of 0 _ _ demo_cmd, OF _ prod.collapse[symmetric]],
        simp add: race_heaps)
  then have "reachable demo_cfg race_observed"
  proof (rule reachable.step)
    show "mstep demo_cfg race_used race_observed"
      using mstep.observed[of 0 StateStopped race_used demo_cfg]
      by (simp add: race_heaps race_observed_def) (metis prod.collapse)
  qed
  then have "reachable demo_cfg race_fired"
    unfolding race_fired_def by (rule reachable.step) (rule mstep.fired, simp add: race_heaps)
  then show ?thesis
    unfolding race_over_def by (rule reachable.step) (rule mstep.woken, simp_all add: race_heaps)
qed

text \<open>The race leaks compute: there is a reachable state in which the backend was made to run a
  sandbox, was never asked to stop it, and yet the manager believes it stopped; no observation, timer or wakeup for it is outstanding, and
  so nothing but another command will ever put it back on the idle clock.\<close>

theorem late_observation_leaks_compute:
  "\<exists>k. reachable demo_cfg k \<and> live (k_sys k) 0 \<and> k_observe k = [] \<and>
     e_state (s_heap (k_sys k) ! 0) = StateStopped \<and>
     CallEnsureReady ''x'' True \<in> set (s_log (k_sys k)) \<and>
     (\<forall>ok. CallStop ''x'' ok \<notin> set (s_log (k_sys k)) \<and> CallDestroy ''x'' ok \<notin> set (s_log (k_sys k))) \<and>
     e_wakeups (s_heap (k_sys k) ! 0) = [] \<and> fire (s_heap (k_sys k) ! 0) = s_heap (k_sys k) ! 0"
  by (rule exI[of _ race_over], rule conjI[OF race_reachable]) code_simp

text \<open>
  The other way round: the pass finds the sandbox running, and before its observation is served the
  sandbox is used, goes idle and is stopped. The late observation makes the manager take it for
  running, and the next command goes to a sandbox that is stopped, with no \<open>EnsureReady\<close>.
\<close>

definition late_found :: "int conc" where
  "late_found =
     (let k = conc_init 1000; k = k\<lparr>k_sys := (k_sys k)\<lparr>s_adopted := True\<rparr>\<rparr>
      in k\<lparr>k_sys := snd (adopt \<lparr>sp_Name = ''x'', sp_Image = ''''\<rparr> (k_sys k)),
           k_observe := [(0, StateReady)]\<rparr>)"

definition late_used :: "int conc" where
  "late_used = late_found\<lparr>k_sys := snd (entry_ask demo_cfg 0 (ReqExec demo_cmd) (k_sys late_found))\<rparr>"

definition late_fired :: "int conc" where
  "late_fired = late_used\<lparr>k_sys := set_entry 0 (fire (s_heap (k_sys late_used) ! 0)) (k_sys late_used)\<rparr>"

definition late_stopped :: "int conc" where
  "late_stopped =
     late_fired\<lparr>k_sys := put_run 0 (wake demo_cfg 1301 (run_of 0 (k_sys late_fired))) (k_sys late_fired)\<rparr>"

definition late_observed :: "int conc" where
  "late_observed =
     late_stopped\<lparr>k_sys := snd (entry_ask demo_cfg 0 (ReqObserve StateReady) (k_sys late_stopped)), k_observe := []\<rparr>"

definition late_over :: "int conc" where
  "late_over = late_observed\<lparr>k_sys := snd (entry_ask demo_cfg 0 (ReqExec demo_cmd) (k_sys late_observed))\<rparr>"

lemmas late_defs =
  late_found_def late_used_def late_fired_def late_stopped_def late_observed_def late_over_def

lemma late_heaps:
  "length (s_heap (k_sys late_found)) = 1" "length (s_heap (k_sys late_used)) = 1"
  "length (s_heap (k_sys late_fired)) = 1" "length (s_heap (k_sys late_stopped)) = 1"
  "length (s_heap (k_sys late_observed)) = 1" "k_observe late_stopped = [(0, StateReady)]"
  "e_wakeups (s_heap (k_sys late_fired) ! 0) = [1301]"
  by (simp_all add: late_defs demo_simps doObserve_def set_entry_def fire_def wake_def doIdle_def)

lemma late_reachable: "reachable demo_cfg late_over"
proof -
  let ?k = "conc_init 1000\<lparr>k_sys := (k_sys (conc_init 1000))\<lparr>s_adopted := True\<rparr>\<rparr>"
  have "reachable demo_cfg ?k" by (blast intro: reachable.intros mstep.adopted)
  then have "reachable demo_cfg late_found"
  proof (rule reachable.step)
    show "mstep demo_cfg ?k late_found"
      unfolding late_found_def Let_def
      using mstep.found[of "\<lparr>sp_Name = ''x'', sp_Image = ''''\<rparr>" ?k 0 _ StateReady demo_cfg]
      by (simp add: demo_simps)
  qed
  then have "reachable demo_cfg late_used"
    unfolding late_used_def
    by (rule reachable.step) (rule mstep.exec[of 0 _ _ demo_cmd, OF _ prod.collapse[symmetric]], simp add: late_heaps)
  then have "reachable demo_cfg late_fired"
    unfolding late_fired_def by (rule reachable.step) (rule mstep.fired, simp add: late_heaps)
  then have "reachable demo_cfg late_stopped"
    unfolding late_stopped_def by (rule reachable.step) (rule mstep.woken, simp_all add: late_heaps)
  then have "reachable demo_cfg late_observed"
  proof (rule reachable.step)
    show "mstep demo_cfg late_stopped late_observed"
      using mstep.observed[of 0 StateReady late_stopped demo_cfg]
      by (simp add: late_heaps late_observed_def) (metis prod.collapse)
  qed
  then show ?thesis
    unfolding late_over_def
    by (rule reachable.step) (rule mstep.exec[of 0 _ _ demo_cmd, OF _ prod.collapse[symmetric]], simp add: late_heaps)
qed

lemma late_observation_runs_stopped:
  "\<exists>k. reachable demo_cfg k \<and> \<not> exec_prepared ''x'' False False (s_log (k_sys k))"
  by (rule exI[of _ late_over], rule conjI[OF late_reachable]) code_simp

subsection \<open>Destroying, closing, reconciling\<close>

lemma forget_sel [simp]:
  "s_heap (forget n i s) = s_heap s" "s_closing (forget n i s) = s_closing s"
  by (simp_all add: forget_def)

text \<open>A name that was destroyed is free: the lookup no longer has it, no goroutine of that name
  is left, and opening it again binds a fresh sandbox the manager knows nothing about.\<close>

theorem destroy_frees_the_name:
  assumes k: "reachable c k" and d: "Destroy c n (k_sys k) = (None, s)"
  shows "map_of (s_entries s) n = None \<and> (\<forall>i. live s i \<longrightarrow> heap_name s i \<noteq> n) \<and>
    (\<not> s_closing s \<longrightarrow>
       (\<exists>s'. Open c n s = (Inr \<lparr>h_entry = length (s_heap s), h_closed = False\<rparr>, s') \<and>
          s_heap s' = s_heap s @ [newEntry \<lparr>sp_Name = n, sp_Image = c_image c\<rparr>]))"
proof -
  from d have n: "n \<noteq> ''''" by (auto simp: Destroy_def split: if_splits)
  obtain i s1 where e: "entryFor \<lparr>sp_Name = n, sp_Image = ''''\<rparr> (k_sys k) = (Inr i, s1)"
    using d n by (auto simp: Destroy_def split: prod.splits sum.splits)
  obtain res s2 where a: "entry_ask c i ReqDestroy s1 = ((res, None), s2)" and s: "s = forget n i s2"
    using d n e by (auto simp: Destroy_def split: prod.splits sum.splits option.splits)
  have m: "map_of (s_entries s2) n = Some i"
    using entryFor_index(2)[OF k e] entry_ask_sel(1)[OF a] by simp
  have gone: "map_of (s_entries s) n = None"
    by (simp add: s forget_def m)
  have "sys_inv c s"
    using reachable_inv[OF Destroy_reachable[OF k d]] by (simp add: conc_inv_def)
  with gone have "\<forall>i. live s i \<longrightarrow> heap_name s i \<noteq> n"
    by (auto simp: sys_inv_defs)
  with gone n show ?thesis
    by (auto simp: Open_def entryFor_def adopt_def Let_def)
qed

theorem destroy_frees_the_name_witness:
  "\<exists>s. Destroy demo_cfg ''box'' (k_sys demo_used) = (None, s) \<and> map_of (s_entries s) ''box'' = None"
proof -
  have d: "Destroy demo_cfg ''box'' (k_sys demo_used) =
      (None, snd (Destroy demo_cfg ''box'' (k_sys demo_used)))" by code_simp
  from destroy_frees_the_name[OF demo_used_reachable d] d show ?thesis by blast
qed

text \<open>Closing the manager ends every sandbox goroutine before the backend is closed, and is
  final: nothing can be opened, a handle answers an error without reaching the backend, and closing
  again changes nothing and gives the same answer.\<close>

theorem close_is_final:
  assumes k: "reachable c k" and d: "Close c (k_sys k) = (err, s)" and n: "s_closed (k_sys k) = None"
  shows "(\<forall>i < length (s_heap s). e_gone (s_heap s ! i) \<noteq> None) \<and>
    (\<exists>w. be_Close (c_backend c) w = (err, s_world s)) \<and>
    Close c s = (err, s) \<and>
    (name \<noteq> '''' \<longrightarrow> Open c name s = (Inl ErrShutdown, s)) \<and>
    (h_entry h < length (s_heap s) \<longrightarrow> (\<exists>e. handle_Exec c h cmd s = (err_reply (Some e), s)))"
proof -
  let ?s = "(k_sys k)\<lparr>s_closing := True\<rparr>"
  let ?is = "map snd (s_entries ?s)"
  have lk: "lookup_inv (k_sys k)" using reachable_inv[OF k] by (simp add: conc_inv_def sys_inv_def)
  have "i \<in> set ?is \<or> e_gone (s_heap ?s ! i) \<noteq> None" if "i < length (s_heap ?s)" for i
    using lk that by (force simp: lookup_inv_def dest: map_of_SomeD)
  then have all: "\<forall>i < length (s_heap ?s). e_gone (s_heap (fold exit_one ?is ?s) ! i) \<noteq> None"
    using exit_all_gone [of _ ?s ?is] by simp
  from d n have s: "s = (fold exit_one ?is ?s)\<lparr>s_world := s_world s, s_closed := Some err\<rparr>"
    and cl: "be_Close (c_backend c) (s_world (fold exit_one ?is ?s)) = (err, s_world s)"
    by (auto simp: Close_def Let_def split: prod.splits)
  have h: "s_heap s = s_heap (fold exit_one ?is ?s)" and c: "s_closing s" and e: "s_closed s = Some err"
    by (subst s; simp)+
  have gone: "\<forall>i < length (s_heap s). e_gone (s_heap s ! i) \<noteq> None"
    using all by (simp add: h)
  moreover have "\<exists>e. handle_Exec c h cmd s = (err_reply (Some e), s)" if "h_entry h < length (s_heap s)"
  proof (cases "h_closed h")
    case False
    from that gone obtain why where "e_gone (s_heap s ! h_entry h) = Some why" by auto
    with False c show ?thesis
      by (auto simp: handle_Exec_def ensureAdopted_def entry_ask_def ask_def)
  qed (auto simp: handle_Exec_def)
  ultimately show ?thesis
    using cl c e by (auto simp: Close_def Open_def entryFor_def adopt_def)
qed

theorem close_is_final_witness:
  "\<exists>s. Close demo_cfg (k_sys demo_used) = (None, s) \<and>
     Open demo_cfg ''box'' s = (Inl ErrShutdown, s) \<and> Close demo_cfg s = (None, s)"
proof -
  have d: "Close demo_cfg (k_sys demo_used) = (None, snd (Close demo_cfg (k_sys demo_used)))"
    by code_simp
  have n: "s_closed (k_sys demo_used) = None" by code_simp
  from close_is_final[OF demo_used_reachable d n, of "''box''"] d show ?thesis by auto
qed

fun is_call :: "obs \<Rightarrow> bool" where
  "is_call (Published i) = False"
| "is_call (Reported ev) = False"
| "is_call (Found n s) = False"
| "is_call x = True"

lemma observe_fresh:
  assumes "s_heap s = h @ [newEntry sp]" and "i = length h"
    and "entry_ask c i (ReqObserve st) s = ((res, err), s')"
  shows "err = None" and "\<exists>e. s_heap s' = h @ [e] \<and> e_state e = st \<and> e_gone e = None"
    and "\<exists>d. s_log s' = s_log s @ d \<and> (\<forall>x \<in> set d. \<not> is_call x)"
  using assms
  by (auto simp: entry_ask_def ask_def doObserve_def err_reply_def small_step_defs newEntry_def run_of_def
      put_run_def Let_def split: prod.splits if_splits)

definition new_names :: "backend_state \<Rightarrow> backend_sandbox list \<Rightarrow> (string \<times> nat) list \<Rightarrow> string set" where
  "new_names b found m =
     {n. map_of m n = None \<and> (\<exists>bs \<in> set found. bs_Name bs = n \<and> bs_State bs = b)}"

lemma new_names_Nil [simp]: "new_names b [] m = {}"
  by (simp add: new_names_def)

lemma new_names_known:
  "map_of m (bs_Name bs) = Some i \<Longrightarrow> new_names b (bs # found) m = new_names b found m"
  by (auto simp: new_names_def)

lemma new_names_fresh:
  assumes "map_of m (bs_Name bs) = None" and "bs_Name bs \<notin> bs_Name ` set found"
  shows "new_names b (bs # found) m =
    (if bs_State bs = b then {bs_Name bs} else {}) \<union>
    new_names b found (AList.update (bs_Name bs) i m)"
  using assms by (auto simp: new_names_def image_iff split: if_splits)

lemma reconcile_found_contract:
  assumes "reconcile_found c found rp s = (Inr rp', s')" and "distinct (map bs_Name found)"
  shows "sorted (rp_Adopted rp') \<and> sorted (rp_Asleep rp') \<and>
    set (rp_Adopted rp') = set (rp_Adopted rp) \<union> new_names BackendRunning found (s_entries s) \<and>
    set (rp_Asleep rp') = set (rp_Asleep rp) \<union> new_names BackendStopped found (s_entries s) \<and>
    (\<exists>h. s_heap s' = s_heap s @ h) \<and>
    (\<exists>d. s_log s' = s_log s @ d \<and> (\<forall>x \<in> set d. \<not> is_call x))"
  using assms
proof (induction found arbitrary: rp s)
  case Nil
  then show ?case by auto
next
  case (Cons bs found)
  let ?sp = "\<lparr>sp_Name = bs_Name bs, sp_Image = bs_Image bs\<rparr>"
  obtain r1 s1 where a: "adopt ?sp s = (r1, s1)" by (cases "adopt ?sp s")
  consider (err) e where "r1 = Inl e" | (known) i where "r1 = Inr (i, True)"
    | (fresh) i where "r1 = Inr (i, False)"
    by (metis (full_types) prod.exhaust sum.exhaust)
  then show ?case
  proof cases
    case err
    with Cons.prems a show ?thesis by simp
  next
    case known
    from adopt_known[OF a[unfolded known]] Cons.prems Cons.IH[of rp s] a known show ?thesis
      by (simp add: new_names_known)
  next
    case fresh
    note n = adopt_new[OF a[unfolded fresh]]
    define st where "st = (if bs_State bs = BackendRunning then StateReady else StateStopped)"
    define rp2 where "rp2 = (if st = StateReady then rp\<lparr>rp_Adopted := rp_Adopted rp @ [bs_Name bs]\<rparr>
        else rp\<lparr>rp_Asleep := rp_Asleep rp @ [bs_Name bs]\<rparr>)"
    obtain r2 e2 s2 where o: "entry_ask c i (ReqObserve st) s1 = ((r2, e2), s2)"
      by (metis prod.exhaust)
    note f = observe_fresh[OF n(2,1) o]
    have rec: "reconcile_found c found rp2 s2 = (Inr rp', s')"
      using Cons.prems(1) a fresh o f(1) by (simp add: st_def rp2_def Let_def split: if_splits)
    have e: "s_entries s2 = AList.update (bs_Name bs) i (s_entries s)"
      using entry_ask_sel(1)[OF o] n(4) by simp
    have b: "bs_State bs = BackendStopped" if "bs_State bs \<noteq> BackendRunning"
      using that by (cases "bs_State bs") auto
    obtain d1 where d1: "s_log s2 = s_log s1 @ d1" "\<forall>x \<in> set d1. \<not> is_call x" using f(3) by blast
    obtain x where x: "s_heap s2 = s_heap s @ [x]" using f(2) by blast
    have nn: "new_names q (bs # found) (s_entries s) =
        (if bs_State bs = q then {bs_Name bs} else {}) \<union> new_names q found (s_entries s2)" for q
      using n(3) Cons.prems(2) by (simp add: e new_names_fresh[of _ _ found q i])
    from Cons.IH[OF rec] Cons.prems(2) d1 x n(5) show ?thesis
      by (cases "bs_State bs") (auto simp: nn rp2_def st_def)
  qed
qed

text \<open>A reconciliation pass that succeeds reports, sorted, exactly the sandboxes the backend has
  and the manager did not know, running ones as adopted and stopped ones as asleep; it starts, stops
  and removes nothing, and leaves the sandboxes the manager already tracked exactly as they were.\<close>

theorem reconcile_contract:
  assumes "Reconcile c s = (Inr rp, s')" and "be_List (c_backend c) (s_world s) = (Inr found, w)"
    and "distinct (map bs_Name found)"
  shows "sorted (rp_Adopted rp) \<and> sorted (rp_Asleep rp) \<and>
    set (rp_Adopted rp) = new_names BackendRunning found (s_entries s) \<and>
    set (rp_Asleep rp) = new_names BackendStopped found (s_entries s) \<and>
    (\<exists>h. s_heap s' = s_heap s @ h) \<and>
    (\<exists>d. s_log s' = s_log s @ d \<and> (\<forall>x \<in> set d. \<not> is_call x)) \<and> s_adopted s'"
proof -
  obtain s1 where r: "reconcile_found c found \<lparr>rp_Adopted = [], rp_Asleep = []\<rparr> (s\<lparr>s_world := w\<rparr>) = (Inr rp, s1)"
    and s': "s' = s1\<lparr>s_adopted := True\<rparr>"
    using assms(1,2) by (auto simp: Reconcile_def reconcile_def split: if_splits prod.splits sum.splits)
  from reconcile_found_contract[OF r assms(3)] show ?thesis by (simp add: s')
qed

theorem reconcile_contract_witness:
  "rp_Adopted (projr (fst (Reconcile demo_cfg (k_sys demo_used)))) = [''old''] \<and>
   set (rp_Asleep (projr (fst (Reconcile demo_cfg (k_sys demo_used))))) =
     new_names BackendStopped [\<lparr>bs_Name = ''old'', bs_Image = '''', bs_State = BackendRunning\<rparr>,
       \<lparr>bs_Name = ''cold'', bs_Image = '''', bs_State = BackendStopped\<rparr>] (s_entries (k_sys demo_used))"
proof -
  have r: "Reconcile demo_cfg (k_sys demo_used) =
      (Inr \<lparr>rp_Adopted = [''old''], rp_Asleep = [''cold'']\<rparr>, snd (Reconcile demo_cfg (k_sys demo_used)))"
    by code_simp
  have l: "be_List (c_backend demo_cfg) (s_world (k_sys demo_used)) =
      (Inr [\<lparr>bs_Name = ''old'', bs_Image = '''', bs_State = BackendRunning\<rparr>,
            \<lparr>bs_Name = ''cold'', bs_Image = '''', bs_State = BackendStopped\<rparr>], 1002)"
    by (simp add: demo_cfg_def demo_backend_def demo_used_entry)
  have p: "fst (Reconcile demo_cfg (k_sys demo_used)) =
      Inr \<lparr>rp_Adopted = [''old''], rp_Asleep = [''cold'']\<rparr>"
    by code_simp
  from reconcile_contract[OF r l] show ?thesis by (simp add: p)
qed

end
