(* ===== verification/Docker.thy ===== *)
theory Docker
  imports SandboxBase
begin

section \<open>The docker backend: metaharness/sandbox/docker\<close>

text \<open>
  A sandbox per container. The Docker client is the record \<open>daemon\<close> on a world \<open>'w\<close>, one field per
  method that the code uses, with \<open>errdefs.IsNotFound\<close>; what attaching to a command gives is read to
  its end by \<open>dm_Stream\<close>, which stands for the connection, \<open>stdcopy\<close> and the context. \<open>quote\<close> is \<open>%q\<close>.
\<close>

subsection \<open>backend.go\<close>

definition Label :: string where "Label = ''metaharness.sandbox''"
definition DefaultWorkdir :: string where "DefaultWorkdir = ''/workspace''"
definition namePrefix :: string where "namePrefix = ''metaharness-sandbox-''"
definition defaultKeepalive :: "string list" where "defaultKeepalive = [''tail'', ''-f'', ''/dev/null'']"

definition name_start :: "char \<Rightarrow> bool" where
  "name_start c = (let n = of_char c :: nat in n \<in> {48..57} \<or> n \<in> {65..90} \<or> n \<in> {97..122})"

definition usableName :: "string \<Rightarrow> bool" where
  "usableName s = (case s of [] \<Rightarrow> False
     | c # t \<Rightarrow> name_start c \<and> list_all (\<lambda>d. name_start d \<or> d = CHR ''_'' \<or> d = CHR ''.'' \<or> d = CHR ''-'') t)"

record container_config =
  cc_Image :: string
  cc_Entrypoint :: "string list"
  cc_WorkingDir :: string
  cc_Labels :: "(string \<times> string) list"
  cc_StopTimeout :: "int option"

record exec_options =
  eo_Cmd :: "string list"
  eo_WorkingDir :: string
  eo_AttachStdout :: bool
  eo_AttachStderr :: bool

record summary =
  sm_Labels :: "(string \<times> string) list"
  sm_Image :: string
  sm_Running :: bool

text \<open>How the reading of a command's output ended.\<close>

datatype stream_end = Copied string string | CopyFailed goerr | ContextDone goerr

record 'w daemon =
  dm_IsNotFound :: "goerr \<Rightarrow> bool"
  dm_Inspect :: "string \<Rightarrow> 'w \<Rightarrow> 'w \<times> bool option res"
  dm_Create :: "container_config \<Rightarrow> string \<Rightarrow> 'w \<Rightarrow> 'w \<times> goerr option"
  dm_Start :: "string \<Rightarrow> 'w \<Rightarrow> 'w \<times> goerr option"
  dm_Stop :: "string \<Rightarrow> int option \<Rightarrow> 'w \<Rightarrow> 'w \<times> goerr option"
  dm_Remove :: "string \<Rightarrow> bool \<Rightarrow> bool \<Rightarrow> 'w \<Rightarrow> 'w \<times> goerr option"
  dm_List :: "bool \<Rightarrow> string \<Rightarrow> 'w \<Rightarrow> 'w \<times> summary list res"
  dm_ExecCreate :: "string \<Rightarrow> exec_options \<Rightarrow> 'w \<Rightarrow> 'w \<times> string res"
  dm_ExecAttach :: "string \<Rightarrow> 'w \<Rightarrow> 'w \<times> bool res"
  dm_Stream :: "string \<Rightarrow> 'w \<Rightarrow> 'w \<times> stream_end"
  dm_ExecInspect :: "string \<Rightarrow> 'w \<Rightarrow> 'w \<times> (bool \<times> int) res"
  dm_ImageInspect :: "string \<Rightarrow> 'w \<Rightarrow> 'w \<times> goerr option"
  dm_ImagePull :: "string \<Rightarrow> 'w \<Rightarrow> 'w \<times> goerr option res"
  dm_Close :: "'w \<Rightarrow> 'w \<times> goerr option"

text \<open>
  Inspecting answers whether the container runs, None when the daemon reports no state; attaching
  whether there is a stream; pulling how the reading of its progress ended.
\<close>

record 'w docker =
  dk_daemon :: "'w daemon"
  dk_workdir :: string
  dk_keepalive :: "string list"

definition WithWorkdir :: "string \<Rightarrow> 'w docker \<Rightarrow> 'w docker" where "WithWorkdir d b = b\<lparr>dk_workdir := d\<rparr>"
definition WithKeepalive :: "string list \<Rightarrow> 'w docker \<Rightarrow> 'w docker" where "WithKeepalive cmd b = b\<lparr>dk_keepalive := cmd\<rparr>"

definition newBackend :: "'w daemon \<Rightarrow> ('w docker \<Rightarrow> 'w docker) list \<Rightarrow> 'w docker" where
  "newBackend d opts = fold (\<lambda>f b. f b) opts \<lparr>dk_daemon = d, dk_workdir = DefaultWorkdir, dk_keepalive = defaultKeepalive\<rparr>"

definition container :: "string \<Rightarrow> string" where "container name = namePrefix @ name"

definition containerName :: "(string \<Rightarrow> string) \<Rightarrow> string \<Rightarrow> string res" where
  "containerName quote name =
    (if \<not> usableName name
     then Inl (Opaque (''sandbox/docker: '' @ quote name @ '' is not a usable sandbox name: it must start with a letter '' @
       ''or digit and hold only letters, digits, '' @ [CHR 0x27] @ ''_'' @ [CHR 0x27] @ '', '' @ [CHR 0x27] @ ''.'' @ [CHR 0x27] @
       '' and '' @ [CHR 0x27] @ ''-'' @ [CHR 0x27]))
     else Inr (container name))"

definition failing :: "(string \<Rightarrow> string) \<Rightarrow> string \<Rightarrow> string \<Rightarrow> goerr \<Rightarrow> goerr" where
  "failing quote what name e = Wrap (''sandbox/docker: '' @ what @ '' '' @ quote name @ '': '') e ''''"

definition start :: "(string \<Rightarrow> string) \<Rightarrow> 'w docker \<Rightarrow> string \<Rightarrow> string \<Rightarrow> 'w \<Rightarrow> goerr option \<times> 'w" where
  "start quote b cname name w =
    (case dm_Start (dk_daemon b) cname w of
       (w1, Some e) \<Rightarrow> (Some (failing quote ''starting sandbox'' name e), w1)
     | (w1, None) \<Rightarrow> (None, w1))"

definition ensureImage :: "(string \<Rightarrow> string) \<Rightarrow> 'w docker \<Rightarrow> string \<Rightarrow> 'w \<Rightarrow> goerr option \<times> 'w" where
  "ensureImage quote b ref w =
    (case dm_ImageInspect (dk_daemon b) ref w of
       (w1, None) \<Rightarrow> (None, w1)
     | (w1, Some e) \<Rightarrow>
        if \<not> dm_IsNotFound (dk_daemon b) e then (Some (failing quote ''inspecting image'' ref e), w1)
        else case dm_ImagePull (dk_daemon b) ref w1 of
          (w2, Inl e) \<Rightarrow> (Some (failing quote ''pulling image'' ref e), w2)
        | (w2, Inr (Some e)) \<Rightarrow> (Some (failing quote ''pulling image'' ref e), w2)
        | (w2, Inr None) \<Rightarrow> (None, w2))"

definition container_of :: "'w docker \<Rightarrow> spec \<Rightarrow> container_config" where
  "container_of b sp = \<lparr>cc_Image = sp_Image sp, cc_Entrypoint = dk_keepalive b, cc_WorkingDir = dk_workdir b,
     cc_Labels = [(Label, sp_Name sp)], cc_StopTimeout = Some 0\<rparr>"

definition create :: "(string \<Rightarrow> string) \<Rightarrow> 'w docker \<Rightarrow> string \<Rightarrow> spec \<Rightarrow> 'w \<Rightarrow> goerr option \<times> 'w" where
  "create quote b cname sp w =
    (if sp_Image sp = ''''
     then (Some (Opaque (''sandbox/docker: sandbox '' @ quote (sp_Name sp) @
             '' does not exist and the spec has no image to create it from'')), w)
     else case ensureImage quote b (sp_Image sp) w of
       (Some e, w1) \<Rightarrow> (Some e, w1)
     | (None, w1) \<Rightarrow>
        (case dm_Create (dk_daemon b) (container_of b sp) cname w1 of
           (w2, Some e) \<Rightarrow> (Some (failing quote ''creating sandbox'' (sp_Name sp) e), w2)
         | (w2, None) \<Rightarrow> start quote b cname (sp_Name sp) w2))"

definition docker_EnsureReady :: "(string \<Rightarrow> string) \<Rightarrow> 'w docker \<Rightarrow> spec \<Rightarrow> 'w \<Rightarrow> goerr option \<times> 'w" where
  "docker_EnsureReady quote b sp w =
    (case containerName quote (sp_Name sp) of
       Inl e \<Rightarrow> (Some e, w)
     | Inr cname \<Rightarrow>
        (case dm_Inspect (dk_daemon b) cname w of
           (w1, Inl e) \<Rightarrow> if dm_IsNotFound (dk_daemon b) e then create quote b cname sp w1
                          else (Some (failing quote ''inspecting sandbox'' (sp_Name sp) e), w1)
         | (w1, Inr None) \<Rightarrow> (Some (Opaque (''sandbox/docker: the daemon reported no state for sandbox '' @ quote (sp_Name sp))), w1)
         | (w1, Inr (Some running)) \<Rightarrow> if running then (None, w1) else start quote b cname (sp_Name sp) w1))"

definition docker_Stop :: "(string \<Rightarrow> string) \<Rightarrow> 'w docker \<Rightarrow> string \<Rightarrow> 'w \<Rightarrow> goerr option \<times> 'w" where
  "docker_Stop quote b name w =
    (case containerName quote name of
       Inl e \<Rightarrow> (Some e, w)
     | Inr cname \<Rightarrow>
        (case dm_Stop (dk_daemon b) cname (Some 0) w of
           (w1, Some e) \<Rightarrow> if dm_IsNotFound (dk_daemon b) e then (None, w1)
                           else (Some (failing quote ''stopping sandbox'' name e), w1)
         | (w1, None) \<Rightarrow> (None, w1)))"

definition docker_Destroy :: "(string \<Rightarrow> string) \<Rightarrow> 'w docker \<Rightarrow> string \<Rightarrow> 'w \<Rightarrow> goerr option \<times> 'w" where
  "docker_Destroy quote b name w =
    (case containerName quote name of
       Inl e \<Rightarrow> (Some e, w)
     | Inr cname \<Rightarrow>
        (case dm_Remove (dk_daemon b) cname True True w of
           (w1, Some e) \<Rightarrow> if dm_IsNotFound (dk_daemon b) e then (None, w1)
                           else (Some (failing quote ''destroying sandbox'' name e), w1)
         | (w1, None) \<Rightarrow> (None, w1)))"

definition listed :: "summary \<Rightarrow> backend_sandbox option" where
  "listed s = (case map_of (sm_Labels s) Label of
     None \<Rightarrow> None
   | Some name \<Rightarrow> if name = '''' then None
       else Some \<lparr>bs_Name = name, bs_Image = sm_Image s, bs_State = (if sm_Running s then BackendRunning else BackendStopped)\<rparr>)"

definition docker_List :: "'w docker \<Rightarrow> 'w \<Rightarrow> backend_sandbox list res \<times> 'w" where
  "docker_List b w =
    (case dm_List (dk_daemon b) True Label w of
       (w1, Inl e) \<Rightarrow> (Inl (Wrap ''sandbox/docker: listing sandboxes: '' e ''''), w1)
     | (w1, Inr summaries) \<Rightarrow> (Inr (sort_key bs_Name (List.map_filter listed summaries)), w1))"

subsection \<open>executor.go\<close>

definition stream :: "'w docker \<Rightarrow> string \<Rightarrow> 'w \<Rightarrow> 'w \<times> (string \<times> string) res" where
  "stream b execID w =
    (case dm_ExecAttach (dk_daemon b) execID w of
       (w1, Inl e) \<Rightarrow> (w1, Inl e)
     | (w1, Inr attached) \<Rightarrow>
        if \<not> attached then (w1, Inl (Opaque ''the daemon attached no output stream to the command''))
        else case dm_Stream (dk_daemon b) execID w1 of
          (w2, Copied out err) \<Rightarrow> (w2, Inr (out, err))
        | (w2, CopyFailed e) \<Rightarrow> (w2, Inl e)
        | (w2, ContextDone e) \<Rightarrow> (w2, Inl e))"

definition docker_Exec ::
  "(string \<Rightarrow> string) \<Rightarrow> 'w docker \<Rightarrow> string \<Rightarrow> command \<Rightarrow> 'w \<Rightarrow> (exec_result \<times> goerr option) \<times> 'w" where
  "docker_Exec quote b name cmd w =
    (case containerName quote name of
       Inl e \<Rightarrow> ((empty_result, Some e), w)
     | Inr cname \<Rightarrow>
        (case dm_ExecCreate (dk_daemon b) cname
            \<lparr>eo_Cmd = cmd_Cmd cmd # cmd_Args cmd, eo_WorkingDir = dk_workdir b, eo_AttachStdout = True, eo_AttachStderr = True\<rparr> w of
           (w1, Inl e) \<Rightarrow> ((empty_result, Some (failing quote ''starting a command in sandbox'' name e)), w1)
         | (w1, Inr i) \<Rightarrow>
            (case stream b i w1 of
               (w2, Inl e) \<Rightarrow> ((empty_result, Some (failing quote ''running a command in sandbox'' name e)), w2)
             | (w2, Inr (out, err)) \<Rightarrow>
                (case dm_ExecInspect (dk_daemon b) i w2 of
                   (w3, Inl e) \<Rightarrow>
                     ((empty_result, Some (failing quote ''reading the outcome of a command in sandbox'' name e)), w3)
                 | (w3, Inr (running, code)) \<Rightarrow>
                    if running
                    then ((empty_result, Some (Opaque (''sandbox/docker: no exit status for a command in sandbox '' @ quote name @
                           '': its output ended but the daemon still reports it running''))), w3)
                    else ((\<lparr>Stdout = out, Stderr = err, ExitCode = code\<rparr>, None), w3)))))"

definition DockerBackend :: "(string \<Rightarrow> string) \<Rightarrow> 'w docker \<Rightarrow> 'w backend" where
  "DockerBackend quote b =
    \<lparr>be_EnsureReady = docker_EnsureReady quote b, be_Exec = docker_Exec quote b, be_Stop = docker_Stop quote b,
     be_Destroy = docker_Destroy quote b, be_List = docker_List b,
     be_Close = (\<lambda>w. case dm_Close (dk_daemon b) w of (w1, e) \<Rightarrow> (e, w1))\<rparr>"

subsection \<open>What is relied on of the daemon\<close>

text \<open>
  What Docker's documentation says of its containers, by name: \<open>layer\<close> is a container's filesystem,
  None where there is no container, \<open>up\<close> whether it runs, \<open>runs_in\<close> the container of a command. A
  name that is taken is never given to a new container; only removing a container removes its
  filesystem; a command changes the filesystem of its own container only. Any call may fail, and a
  removal that fails may still have removed the container.
\<close>

definition same_containers ::
  "string set \<Rightarrow> ('w \<Rightarrow> string \<Rightarrow> 'f option) \<Rightarrow> 'w \<Rightarrow> 'w \<Rightarrow> bool" where
  "same_containers but layer w w' = (\<forall>c. c \<notin> but \<longrightarrow> layer w' c = layer w c)"

definition daemon_documented ::
  "'w daemon \<Rightarrow> ('w \<Rightarrow> string \<Rightarrow> 'f option) \<Rightarrow> ('w \<Rightarrow> string \<Rightarrow> bool) \<Rightarrow> ('w \<Rightarrow> string \<Rightarrow> string) \<Rightarrow> bool" where
  "daemon_documented d layer up runs_in =
    ((\<forall>c w. same_containers {} layer w (fst (dm_Inspect d c w)) \<and> up (fst (dm_Inspect d c w)) = up w \<and>
        (\<forall>r. snd (dm_Inspect d c w) = Inr (Some r) \<longrightarrow> layer w c \<noteq> None \<and> r = up w c) \<and>
        (\<forall>e. snd (dm_Inspect d c w) = Inl e \<longrightarrow> dm_IsNotFound d e \<longrightarrow> layer w c = None)) \<and>
     (\<forall>cfg c w. same_containers (if layer w c = None then {c} else {}) layer w (fst (dm_Create d cfg c w)) \<and>
        (snd (dm_Create d cfg c w) = None \<longrightarrow> layer (fst (dm_Create d cfg c w)) c \<noteq> None)) \<and>
     (\<forall>c w. same_containers {} layer w (fst (dm_Start d c w)) \<and> (snd (dm_Start d c w) = None \<longrightarrow> up (fst (dm_Start d c w)) c)) \<and>
     (\<forall>c t w. same_containers {} layer w (fst (dm_Stop d c t w))) \<and>
     (\<forall>c f v w. same_containers {c} layer w (fst (dm_Remove d c f v w))) \<and>
     (\<forall>a l w. same_containers {} layer w (fst (dm_List d a l w))) \<and>
     (\<forall>r w. same_containers {} layer w (fst (dm_ImageInspect d r w))) \<and>
     (\<forall>r w. same_containers {} layer w (fst (dm_ImagePull d r w))) \<and>
     (\<forall>w. same_containers {} layer w (fst (dm_Close d w))) \<and>
     (\<forall>c opts w. same_containers {} layer w (fst (dm_ExecCreate d c opts w)) \<and>
        (\<forall>i. snd (dm_ExecCreate d c opts w) = Inr i \<longrightarrow> runs_in (fst (dm_ExecCreate d c opts w)) i = c)) \<and>
     (\<forall>i w. same_containers {} layer w (fst (dm_ExecAttach d i w)) \<and> runs_in (fst (dm_ExecAttach d i w)) = runs_in w) \<and>
     (\<forall>i w. same_containers {runs_in w i} layer w (fst (dm_Stream d i w)) \<and>
        (layer w (runs_in w i) \<noteq> None \<longrightarrow> layer (fst (dm_Stream d i w)) (runs_in w i) \<noteq> None)) \<and>
     (\<forall>i w. same_containers {} layer w (fst (dm_ExecInspect d i w))))"

lemma daemon_documentedD:
  assumes "daemon_documented d layer up runs_in"
  shows dm_doc_Inspect: "dm_Inspect d c w = (w1, r) \<Longrightarrow> same_containers {} layer w w1 \<and> up w1 = up w \<and>
      (\<forall>x. r = Inr (Some x) \<longrightarrow> layer w c \<noteq> None \<and> x = up w c) \<and> (\<forall>e. r = Inl e \<longrightarrow> dm_IsNotFound d e \<longrightarrow> layer w c = None)"
    and dm_doc_Create: "dm_Create d cfg c w = (w1, e) \<Longrightarrow> same_containers (if layer w c = None then {c} else {}) layer w w1 \<and>
      (e = None \<longrightarrow> layer w1 c \<noteq> None)"
    and dm_doc_Start: "dm_Start d c w = (w1, e) \<Longrightarrow> same_containers {} layer w w1 \<and> (e = None \<longrightarrow> up w1 c)"
    and dm_doc_Stop: "dm_Stop d c t w = (w1, e) \<Longrightarrow> same_containers {} layer w w1"
    and dm_doc_Remove: "dm_Remove d c f v w = (w1, e) \<Longrightarrow> same_containers {c} layer w w1"
    and dm_doc_List: "dm_List d a l w = (w1, ss) \<Longrightarrow> same_containers {} layer w w1"
    and dm_doc_ImageInspect: "dm_ImageInspect d ref w = (w1, e) \<Longrightarrow> same_containers {} layer w w1"
    and dm_doc_ImagePull: "dm_ImagePull d ref w = (w1, p) \<Longrightarrow> same_containers {} layer w w1"
    and dm_doc_Close: "dm_Close d w = (w1, e) \<Longrightarrow> same_containers {} layer w w1"
    and dm_doc_ExecCreate: "dm_ExecCreate d c opts w = (w1, q) \<Longrightarrow> same_containers {} layer w w1 \<and> (\<forall>i. q = Inr i \<longrightarrow> runs_in w1 i = c)"
    and dm_doc_ExecAttach: "dm_ExecAttach d i w = (w1, a') \<Longrightarrow> same_containers {} layer w w1 \<and> runs_in w1 = runs_in w"
    and dm_doc_Stream: "dm_Stream d i w = (w1, z) \<Longrightarrow> same_containers {runs_in w i} layer w w1 \<and>
      (layer w (runs_in w i) \<noteq> None \<longrightarrow> layer w1 (runs_in w i) \<noteq> None)"
    and dm_doc_ExecInspect: "dm_ExecInspect d i w = (w1, y) \<Longrightarrow> same_containers {} layer w w1"
proof -
  note all = assms[unfolded daemon_documented_def]
  show "dm_Inspect d c w = (w1, r) \<Longrightarrow> same_containers {} layer w w1 \<and> up w1 = up w \<and>
      (\<forall>x. r = Inr (Some x) \<longrightarrow> layer w c \<noteq> None \<and> x = up w c) \<and> (\<forall>e. r = Inl e \<longrightarrow> dm_IsNotFound d e \<longrightarrow> layer w c = None)"
    using all[THEN conjunct1, THEN spec[of _ c], THEN spec[of _ w]] by simp
  note all = all[THEN conjunct2]
  show "dm_Create d cfg c w = (w1, e) \<Longrightarrow> same_containers (if layer w c = None then {c} else {}) layer w w1 \<and>
      (e = None \<longrightarrow> layer w1 c \<noteq> None)"
    using all[THEN conjunct1, THEN spec[of _ cfg], THEN spec[of _ c], THEN spec[of _ w]] by simp
  note all = all[THEN conjunct2]
  show "dm_Start d c w = (w1, e) \<Longrightarrow> same_containers {} layer w w1 \<and> (e = None \<longrightarrow> up w1 c)"
    using all[THEN conjunct1, THEN spec[of _ c], THEN spec[of _ w]] by simp
  note all = all[THEN conjunct2]
  show "dm_Stop d c t w = (w1, e) \<Longrightarrow> same_containers {} layer w w1" using all by (metis fst_conv)
  show "dm_Remove d c f v w = (w1, e) \<Longrightarrow> same_containers {c} layer w w1" using all by (metis fst_conv)
  show "dm_List d a l w = (w1, ss) \<Longrightarrow> same_containers {} layer w w1" using all by (metis fst_conv)
  show "dm_ImageInspect d ref w = (w1, e) \<Longrightarrow> same_containers {} layer w w1" using all by (metis fst_conv)
  show "dm_ImagePull d ref w = (w1, p) \<Longrightarrow> same_containers {} layer w w1" using all by (metis fst_conv)
  show "dm_Close d w = (w1, e) \<Longrightarrow> same_containers {} layer w w1" using all by (metis fst_conv)
  show "dm_ExecCreate d c opts w = (w1, q) \<Longrightarrow> same_containers {} layer w w1 \<and> (\<forall>i. q = Inr i \<longrightarrow> runs_in w1 i = c)"
    using all by (metis fst_conv snd_conv)
  show "dm_ExecAttach d i w = (w1, a') \<Longrightarrow> same_containers {} layer w w1 \<and> runs_in w1 = runs_in w" using all by (metis fst_conv)
  show "dm_Stream d i w = (w1, z) \<Longrightarrow> same_containers {runs_in w i} layer w w1 \<and>
      (layer w (runs_in w i) \<noteq> None \<longrightarrow> layer w1 (runs_in w i) \<noteq> None)" using all by (metis fst_conv)
  show "dm_ExecInspect d i w = (w1, y) \<Longrightarrow> same_containers {} layer w w1" using all by (metis fst_conv)
qed

lemma same_containers_trans:
  "same_containers A layer w w1 \<Longrightarrow> same_containers B layer w1 w2 \<Longrightarrow> A \<union> B \<subseteq> C \<Longrightarrow> same_containers C layer w w2"
  unfolding same_containers_def by (metis UnI1 UnI2 subsetD)

lemma same_containers_all: "same_containers {} layer w w1 \<Longrightarrow> layer w1 = layer w"
  unfolding same_containers_def by auto

lemma same_containersI: "layer w1 = layer w \<Longrightarrow> same_containers A layer w w1"
  unfolding same_containers_def by simp

lemma containerName_Inr: "containerName quote name = Inr c \<Longrightarrow> c = container name \<and> usableName name"
  by (simp add: containerName_def split: if_splits)

lemma container_inj [simp]: "container a = container b \<longleftrightarrow> a = b"
  by (simp add: container_def)

subsection \<open>What the operations do to containers\<close>

lemma start_effect:
  assumes "daemon_documented (dk_daemon b) layer up runs_in" "start quote b c name w = (e, w')"
  shows "layer w' = layer w" "e = None \<Longrightarrow> up w' c"
proof -
  obtain w1 e1 where s: "dm_Start (dk_daemon b) c w = (w1, e1)" by (metis prod.exhaust)
  have "w' = w1" "e = None \<longrightarrow> e1 = None" using assms(2) s by (auto simp: start_def split: option.splits)
  then show "layer w' = layer w" "e = None \<Longrightarrow> up w' c"
    using dm_doc_Start[OF assms(1) s] same_containers_all by auto
qed

lemma ensureImage_effect:
  assumes "daemon_documented (dk_daemon b) layer up runs_in" "ensureImage quote b ref w = (e, w')"
  shows "layer w' = layer w"
proof -
  obtain w1 e1 where i: "dm_ImageInspect (dk_daemon b) ref w = (w1, e1)" by (metis prod.exhaust)
  obtain w2 p where p: "dm_ImagePull (dk_daemon b) ref w1 = (w2, p)" by (metis prod.exhaust)
  have l: "layer w1 = layer w" "layer w2 = layer w"
    using same_containers_all[OF dm_doc_ImageInspect[OF assms(1) i]] same_containers_all[OF dm_doc_ImagePull[OF assms(1) p]]
    by simp_all
  have "w' = w1 \<or> w' = w2" using assms(2) i p by (auto simp: ensureImage_def split: option.splits sum.splits if_splits)
  then show ?thesis using l by auto
qed

lemma create_effect:
  assumes "daemon_documented (dk_daemon b) layer up runs_in" "create quote b c sp w = (e, w')" "layer w c = None"
  shows "same_containers {c} layer w w'" "e = None \<Longrightarrow> layer w' c \<noteq> None \<and> up w' c"
proof -
  have "same_containers {c} layer w w' \<and> (e = None \<longrightarrow> layer w' c \<noteq> None \<and> up w' c)"
  proof (cases "sp_Image sp = ''''")
    case True
    then show ?thesis using assms(2) by (auto simp: create_def same_containers_def)
  next
    case False
    obtain e1 w1 where i: "ensureImage quote b (sp_Image sp) w = (e1, w1)" by (metis prod.exhaust)
    have l1: "layer w1 = layer w" by (rule ensureImage_effect[OF assms(1) i])
    obtain w2 e2 where c: "dm_Create (dk_daemon b) (container_of b sp) c w1 = (w2, e2)" by (metis prod.exhaust)
    have d2: "same_containers {c} layer w w2" "e2 = None \<longrightarrow> layer w2 c \<noteq> None"
      using dm_doc_Create[OF assms(1) c] l1 assms(3) by (simp_all add: same_containers_def)
    obtain e3 w3 where s: "start quote b c (sp_Name sp) w2 = (e3, w3)" by (metis prod.exhaust)
    have l3: "layer w3 = layer w2" by (rule start_effect(1)[OF assms(1) s])
    show ?thesis
    proof (cases e1)
      case (Some x)
      then show ?thesis using assms(2) False i l1 by (auto simp: create_def same_containers_def)
    next
      case e1: None
      show ?thesis
      proof (cases e2)
        case (Some x)
        then show ?thesis using assms(2) False i c e1 d2 by (auto simp: create_def)
      next
        case None
        then have "e = e3" "w' = w3" using assms(2) False i c e1 s by (simp_all add: create_def)
        then show ?thesis using d2 None l3 start_effect(2)[OF assms(1) s] by (simp add: same_containers_def)
      qed
    qed
  qed
  then show "same_containers {c} layer w w'" "e = None \<Longrightarrow> layer w' c \<noteq> None \<and> up w' c" by simp_all
qed

lemma EnsureReady_effect:
  assumes "daemon_documented (dk_daemon b) layer up runs_in" "docker_EnsureReady quote b sp w = (e, w')"
  defines "c \<equiv> container (sp_Name sp)"
  shows "same_containers (if layer w c = None then {c} else {}) layer w w'"
    and "e = None \<Longrightarrow> layer w' c \<noteq> None \<and> up w' c"
proof -
  have "same_containers (if layer w c = None then {c} else {}) layer w w' \<and> (e = None \<longrightarrow> layer w' c \<noteq> None \<and> up w' c)"
  proof (cases "containerName quote (sp_Name sp)")
    case (Inl x)
    then show ?thesis using assms(2) by (auto simp: docker_EnsureReady_def same_containers_def)
  next
    case (Inr n)
    then have n: "containerName quote (sp_Name sp) = Inr c" using containerName_Inr[OF Inr] by (simp add: c_def)
    obtain w1 r where i: "dm_Inspect (dk_daemon b) c w = (w1, r)" by (metis prod.exhaust)
    note doc = dm_doc_Inspect[OF assms(1) i]
    have l1: "layer w1 = layer w" by (rule same_containers_all[OF doc[THEN conjunct1]])
    show ?thesis
    proof (cases r)
      case (Inl x)
      show ?thesis
      proof (cases "dm_IsNotFound (dk_daemon b) x")
        case True
        then have free: "layer w1 c = None" using doc Inl l1 by simp
        have cr: "create quote b c sp w1 = (e, w')" using assms(2) n i Inl True by (simp add: docker_EnsureReady_def)
        show ?thesis using create_effect[OF assms(1) cr free] l1 free by (simp add: same_containers_def)
      next
        case False
        then have "w' = w1" "e \<noteq> None" using assms(2) n i Inl by (auto simp: docker_EnsureReady_def)
        then show ?thesis using l1 by (auto simp: same_containers_def)
      qed
    next
      case st: (Inr st)
      show ?thesis
      proof (cases st)
        case None
        then have "w' = w1" "e \<noteq> None" using assms(2) n i st by (auto simp: docker_EnsureReady_def)
        then show ?thesis using l1 by (auto simp: same_containers_def)
      next
        case (Some running)
        then have there: "layer w c \<noteq> None" "running = up w c" using doc st by simp_all
        show ?thesis
        proof (cases running)
          case True
          then have "w' = w1" using assms(2) n i st Some by (simp add: docker_EnsureReady_def)
          then show ?thesis using l1 there doc True by (simp add: same_containers_def)
        next
          case False
          then have s: "start quote b c (sp_Name sp) w1 = (e, w')"
            using assms(2) n i st Some by (simp add: docker_EnsureReady_def)
          show ?thesis using start_effect[OF assms(1) s] l1 there by (simp add: same_containers_def)
        qed
      qed
    qed
  qed
  then show "same_containers (if layer w c = None then {c} else {}) layer w w'"
    "e = None \<Longrightarrow> layer w' c \<noteq> None \<and> up w' c" by simp_all
qed

lemma Exec_effect:
  assumes "daemon_documented (dk_daemon b) layer up runs_in" "docker_Exec quote b name cmd w = (r, w')"
  shows "same_containers {container name} layer w w'"
    and "layer w (container name) \<noteq> None \<Longrightarrow> layer w' (container name) \<noteq> None"
proof -
  let ?c = "container name"
  have "same_containers {?c} layer w w' \<and> (layer w ?c \<noteq> None \<longrightarrow> layer w' ?c \<noteq> None)"
  proof (cases "containerName quote name")
    case (Inl x)
    then show ?thesis using assms(2) by (auto simp: docker_Exec_def same_containers_def)
  next
    case (Inr n)
    then have n: "containerName quote name = Inr ?c" using containerName_Inr[OF Inr] by simp
    obtain w1 q where q: "dm_ExecCreate (dk_daemon b) ?c \<lparr>eo_Cmd = cmd_Cmd cmd # cmd_Args cmd, eo_WorkingDir = dk_workdir b,
        eo_AttachStdout = True, eo_AttachStderr = True\<rparr> w = (w1, q)" by (metis prod.exhaust)
    note d1 = dm_doc_ExecCreate[OF assms(1) q]
    have l1: "layer w1 = layer w" by (rule same_containers_all[OF d1[THEN conjunct1]])
    show ?thesis
    proof (cases q)
      case (Inl x)
      then have "w' = w1" using assms(2) n q by (simp add: docker_Exec_def)
      then show ?thesis using l1 by (simp add: same_containers_def)
    next
      case i: (Inr i)
      obtain w2 a where a: "dm_ExecAttach (dk_daemon b) i w1 = (w2, a)" by (metis prod.exhaust)
      obtain w3 z where z: "dm_Stream (dk_daemon b) i w2 = (w3, z)" by (metis prod.exhaust)
      obtain w4 y where y: "dm_ExecInspect (dk_daemon b) i (if a = Inr True then w3 else w2) = (w4, y)" by (metis prod.exhaust)
      have l2: "layer w2 = layer w" "runs_in w2 i = ?c"
        using dm_doc_ExecAttach[OF assms(1) a] d1 i l1 same_containers_all[of layer w1 w2] by simp_all
      have l3: "same_containers {?c} layer w w3 \<and> (layer w ?c \<noteq> None \<longrightarrow> layer w3 ?c \<noteq> None)"
        using dm_doc_Stream[OF assms(1) z] l2 by (simp add: same_containers_def)
      have l4: "layer w4 = layer (if a = Inr True then w3 else w2)"
        by (rule same_containers_all[OF dm_doc_ExecInspect[OF assms(1) y]])
      obtain w5 ot where s: "stream b i w1 = (w5, ot)" by (metis prod.exhaust)
      have w5: "w5 = (if a = Inr True then w3 else w2)" "(\<exists>x. ot = Inr x) \<longrightarrow> a = Inr True"
        using s a z by (auto simp: stream_def split: sum.splits if_splits stream_end.splits)
      have "w' = w5 \<or> w' = w4" using assms(2) n q i s y w5
        by (auto simp: docker_Exec_def split: sum.splits if_splits)
      then have "layer w' = layer w3 \<or> layer w' = layer w2" using l4 w5 by (auto split: if_splits)
      then show ?thesis using l3 l2 by (auto simp: same_containers_def)
    qed
  qed
  then show "same_containers {?c} layer w w'" "layer w ?c \<noteq> None \<Longrightarrow> layer w' ?c \<noteq> None" by simp_all
qed

subsection \<open>What a sandbox outlives\<close>

datatype docker_op = DoEnsure spec | DoExec string command | DoStop string | DoDestroy string | DoList | DoClose

fun do_op :: "'w backend \<Rightarrow> docker_op \<Rightarrow> 'w \<Rightarrow> 'w" where
  "do_op be (DoEnsure sp) w = snd (be_EnsureReady be sp w)"
| "do_op be (DoExec name cmd) w = snd (be_Exec be name cmd w)"
| "do_op be (DoStop name) w = snd (be_Stop be name w)"
| "do_op be (DoDestroy name) w = snd (be_Destroy be name w)"
| "do_op be DoList w = snd (be_List be w)"
| "do_op be DoClose w = snd (be_Close be w)"

fun commands_in :: "string \<Rightarrow> docker_op \<Rightarrow> bool" where
  "commands_in n (DoExec name cmd) = (name = n)"
| "commands_in n op = False"

lemma sandbox_op_keeps:
  assumes "daemon_documented (dk_daemon b) layer up runs_in" "op \<noteq> DoDestroy n" "layer w (container n) = Some f"
  shows "\<exists>f'. layer (do_op (DockerBackend quote b) op w) (container n) = Some f' \<and> (\<not> commands_in n op \<longrightarrow> f' = f)"
proof (cases op)
  case (DoEnsure sp)
  obtain e w' where r: "docker_EnsureReady quote b sp w = (e, w')" by (metis prod.exhaust)
  have "layer w' (container n) = layer w (container n)"
    using EnsureReady_effect(1)[OF assms(1) r] assms(3)
    by (cases "sp_Name sp = n") (auto simp: same_containers_def split: if_splits)
  then show ?thesis using DoEnsure r assms(3) by (simp add: DockerBackend_def)
next
  case (DoExec name cmd)
  obtain q w' where r: "docker_Exec quote b name cmd w = (q, w')" by (metis prod.exhaust)
  show ?thesis
    using Exec_effect[OF assms(1) r] assms(3) DoExec r
    by (cases "name = n") (auto simp: DockerBackend_def same_containers_def)
next
  case (DoStop name)
  obtain w1 e where s: "dm_Stop (dk_daemon b) (container name) (Some 0) w = (w1, e)" by (metis prod.exhaust)
  have "layer w1 = layer w" by (rule same_containers_all[OF dm_doc_Stop[OF assms(1) s]])
  moreover have "snd (docker_Stop quote b name w) \<in> {w, w1}"
    using s containerName_Inr[of quote name] by (auto simp: docker_Stop_def split: sum.splits option.splits if_splits)
  ultimately show ?thesis using DoStop assms(3) by (auto simp: DockerBackend_def)
next
  case (DoDestroy name)
  obtain w1 e where s: "dm_Remove (dk_daemon b) (container name) True True w = (w1, e)" by (metis prod.exhaust)
  have ne: "name \<noteq> n" using assms(2) DoDestroy by simp
  have "layer w1 (container n) = layer w (container n)"
    using dm_doc_Remove[OF assms(1) s] ne by (simp add: same_containers_def)
  moreover have "snd (docker_Destroy quote b name w) \<in> {w, w1}"
    using s containerName_Inr[of quote name] by (auto simp: docker_Destroy_def split: sum.splits option.splits if_splits)
  ultimately show ?thesis using DoDestroy assms(3) by (auto simp: DockerBackend_def)
next
  case DoList
  obtain w1 ss where s: "dm_List (dk_daemon b) True Label w = (w1, ss)" by (metis prod.exhaust)
  have "snd (docker_List b w) = w1" using s by (auto simp: docker_List_def split: sum.splits)
  then show ?thesis using DoList assms(3) same_containers_all[OF dm_doc_List[OF assms(1) s]] by (simp add: DockerBackend_def)
next
  case DoClose
  obtain w1 e where s: "dm_Close (dk_daemon b) w = (w1, e)" by (metis prod.exhaust)
  show ?thesis using DoClose assms(3) s same_containers_all[OF dm_doc_Close[OF assms(1) s]] by (simp add: DockerBackend_def)
qed

text \<open>C33. A sandbox outlives everything but its destruction. Over a daemon that does what Docker
  documents, whatever fails: as long as nobody destroys the sandbox of that name, no sequence of
  operations on the backend removes its container; without a command in it, its filesystem stays
  exactly as it was, whatever happens to other sandboxes and however often it is stopped; and an
  \<open>EnsureReady\<close> that succeeds then leaves that same filesystem running, whatever image it asks for.\<close>

theorem a_sandbox_keeps_its_files:
  assumes "daemon_documented (dk_daemon b) layer up runs_in" "layer w (container n) = Some f" "DoDestroy n \<notin> set ops"
    and "docker_EnsureReady quote b sp (fold (do_op (DockerBackend quote b)) ops w) = (e, w')" "sp_Name sp = n"
  shows "\<exists>f'. layer w' (container n) = Some f' \<and> (list_all (\<lambda>op. \<not> commands_in n op) ops \<longrightarrow> f' = f) \<and>
    (e = None \<longrightarrow> up w' (container n))"
proof -
  let ?w = "fold (do_op (DockerBackend quote b)) ops w"
  have "\<exists>f'. layer ?w (container n) = Some f' \<and> (list_all (\<lambda>op. \<not> commands_in n op) ops \<longrightarrow> f' = f)"
    using assms(2,3)
  proof (induction ops arbitrary: w f)
    case (Cons op ops)
    obtain f1 where f1: "layer (do_op (DockerBackend quote b) op w) (container n) = Some f1" "\<not> commands_in n op \<longrightarrow> f1 = f"
      using sandbox_op_keeps[OF assms(1), of op n w f quote] Cons.prems by auto
    then show ?case using Cons.IH[OF f1(1)] Cons.prems(2) by fastforce
  qed simp
  then obtain f' where f': "layer ?w (container n) = Some f'" "list_all (\<lambda>op. \<not> commands_in n op) ops \<longrightarrow> f' = f" by blast
  have "layer w' (container n) = Some f'"
    using EnsureReady_effect(1)[OF assms(1,4)] f'(1) assms(5) by (simp add: same_containers_def)
  then show ?thesis using f'(2) EnsureReady_effect(2)[OF assms(1,4)] assms(5) by auto
qed

text \<open>A daemon that never fails: its world is the containers, by name, with files and whether they run.\<close>

definition demo_daemon :: "((string \<times> string \<times> bool) list) daemon" where
  "demo_daemon = \<lparr>dm_IsNotFound = (\<lambda>e. e = Sentinel ''not found''),
     dm_Inspect = (\<lambda>c w. (w, case map_of w c of None \<Rightarrow> Inl (Sentinel ''not found'') | Some (f, r) \<Rightarrow> Inr (Some r))),
     dm_Create = (\<lambda>cfg c w. if map_of w c = None then ((c, cc_Image cfg, False) # w, None) else (w, Some (Opaque ''taken''))),
     dm_Start = (\<lambda>c w. case map_of w c of None \<Rightarrow> (w, Some (Sentinel ''not found'')) | Some (f, r) \<Rightarrow> (AList.update c (f, True) w, None)),
     dm_Stop = (\<lambda>c t w. case map_of w c of None \<Rightarrow> (w, Some (Sentinel ''not found'')) | Some (f, r) \<Rightarrow> (AList.update c (f, False) w, None)),
     dm_Remove = (\<lambda>c force vols w. (AList.delete c w, None)),
     dm_List = (\<lambda>a l w. (w, Inr [])), dm_ExecCreate = (\<lambda>c opts w. (w, Inr c)), dm_ExecAttach = (\<lambda>i w. (w, Inr True)),
     dm_Stream = (\<lambda>i w. (w, Copied '''' '''')), dm_ExecInspect = (\<lambda>i w. (w, Inr (False, 0))),
     dm_ImageInspect = (\<lambda>r w. (w, None)), dm_ImagePull = (\<lambda>r w. (w, Inr None)), dm_Close = (\<lambda>w. (w, None))\<rparr>"

abbreviation demo_layer :: "(string \<times> string \<times> bool) list \<Rightarrow> string \<Rightarrow> string option" where
  "demo_layer w c \<equiv> map_option fst (map_of w c)"

abbreviation demo_up :: "(string \<times> string \<times> bool) list \<Rightarrow> string \<Rightarrow> bool" where
  "demo_up w c \<equiv> (case map_of w c of None \<Rightarrow> False | Some x \<Rightarrow> snd x)"

lemma demo_daemon_documented: "daemon_documented demo_daemon demo_layer demo_up (\<lambda>w i. i)"
  unfolding daemon_documented_def same_containers_def demo_daemon_def daemon.simps
  by (intro conjI allI) (auto split: option.split)

theorem a_sandbox_keeps_its_files_witness:
  "\<exists>w'. docker_EnsureReady id (newBackend demo_daemon []) \<lparr>sp_Name = ''dev'', sp_Image = ''other''\<rparr>
      (fold (do_op (DockerBackend id (newBackend demo_daemon []))) [DoStop ''dev'', DoDestroy ''grug'']
        [(container ''dev'', ''work'', True)]) = (None, w') \<and>
    demo_layer w' (container ''dev'') = Some ''work'' \<and> demo_up w' (container ''dev'')"
proof -
  let ?b = "newBackend demo_daemon []" and ?sp = "\<lparr>sp_Name = ''dev'', sp_Image = ''other''\<rparr>"
    and ?ops = "[DoStop ''dev'', DoDestroy ''grug'']" and ?w = "[(container ''dev'', ''work'', True)]"
  have names: "usableName ''dev''" "usableName ''grug''" by code_simp+
  have d: "dk_daemon ?b = demo_daemon" by (simp add: newBackend_def)
  have "fst (docker_EnsureReady id ?b ?sp (fold (do_op (DockerBackend id ?b)) ?ops ?w)) = None"
    using names by (simp add: DockerBackend_def docker_EnsureReady_def docker_Stop_def docker_Destroy_def containerName_def
      start_def demo_daemon_def newBackend_def)
  then obtain w' where w': "docker_EnsureReady id ?b ?sp (fold (do_op (DockerBackend id ?b)) ?ops ?w) = (None, w')"
    by (metis prod.collapse)
  have layer: "demo_layer ?w (container ''dev'') = Some ''work''" by simp
  have kept: "DoDestroy ''dev'' \<notin> set ?ops" "sp_Name ?sp = ''dev''" by simp_all
  have doc: "daemon_documented (dk_daemon ?b) demo_layer demo_up (\<lambda>w i. i)"
    unfolding d by (rule demo_daemon_documented)
  note result = a_sandbox_keeps_its_files[where b = ?b and w = ?w and sp = ?sp and quote = id and n = "''dev''" and f = "''work''"
      and ops = ?ops and layer = demo_layer and up = demo_up and e = None and w' = w', OF doc layer kept(1) w' kept(2)]
  have "list_all (\<lambda>op. \<not> commands_in ''dev'' op) ?ops" by simp
  then show ?thesis using w' result by blast
qed

end
