(* ===== verification/GoText.thy ===== *)
theory GoText
  imports Prelude
begin

section \<open>The parts of Go's string library the program uses\<close>

text \<open>
  Go strings are byte sequences. This theory holds the functions of \<open>strings\<close>,
  \<open>strconv\<close> and \<open>encoding/base64\<close> the components call, written on bytes, with
  the facts the components rely on: decimal numbers are injective, trimming is idempotent,
  and base64 decoding undoes encoding.
\<close>

subsection \<open>Prefixes and searching\<close>

definition tab :: string where "tab = [CHR 0x09]"
definition crlf :: string where "crlf = [CHR 0x0D, CHR 0x0A]"
definition nl :: string where "nl = [CHR 0x0A]"

fun has_prefix :: "string \<Rightarrow> string \<Rightarrow> bool" where
  "has_prefix s [] = True"
| "has_prefix [] (p # ps) = False"
| "has_prefix (c # s) (p # ps) = (c = p \<and> has_prefix s ps)"

lemma has_prefix_iff: "has_prefix s p \<longleftrightarrow> (\<exists>t. s = p @ t)"
  by (induction s p rule: has_prefix.induct) auto

lemma has_prefix_append [simp]: "has_prefix (p @ t) p"
  by (auto simp: has_prefix_iff)

lemma has_prefix_drop: "has_prefix s p \<Longrightarrow> s = p @ drop (length p) s"
  by (auto simp: has_prefix_iff)

text \<open>\<open>strings.TrimPrefix\<close>, \<open>strings.HasSuffix\<close> and \<open>strings.CutPrefix\<close>.\<close>

definition trim_prefix :: "string \<Rightarrow> string \<Rightarrow> string" where
  "trim_prefix s p = (if has_prefix s p then drop (length p) s else s)"

definition has_suffix :: "string \<Rightarrow> string \<Rightarrow> bool" where
  "has_suffix s p = has_prefix (rev s) (rev p)"

lemma has_suffix_iff: "has_suffix s p \<longleftrightarrow> (\<exists>t. s = t @ p)"
  by (auto simp: has_suffix_def has_prefix_iff) (metis rev_append rev_rev_ident)

definition cut_prefix :: "string \<Rightarrow> string \<Rightarrow> string option" where
  "cut_prefix s p = (if has_prefix s p then Some (drop (length p) s) else None)"

lemma cut_prefix_append [simp]: "cut_prefix (p @ s) p = Some s"
  by (simp add: cut_prefix_def)

text \<open>\<open>strings.Cut\<close>: the text before and after the first separator.\<close>

fun cut :: "string \<Rightarrow> string \<Rightarrow> (string \<times> string) option" where
  "cut [] sep = (if sep = [] then Some ([], []) else None)"
| "cut (c # s) sep =
    (if has_prefix (c # s) sep then Some ([], drop (length sep) (c # s))
     else map_option (\<lambda>(a, b). (c # a, b)) (cut s sep))"

lemma cut_Some: "cut s sep = Some (a, b) \<Longrightarrow> s = a @ sep @ b"
proof (induction s arbitrary: a)
  case Nil then show ?case by (auto split: if_splits)
next
  case (Cons c s)
  then show ?case
    by (auto split: if_splits simp: has_prefix_iff)
qed

lemma join_Cons: "join sep (x # ys) = x @ (if ys = [] then [] else sep @ join sep ys)"
  by (cases ys) auto

text \<open>\<open>strings.ReplaceAll\<close>, for a string that is not empty.\<close>

function replace_all :: "string \<Rightarrow> string \<Rightarrow> string \<Rightarrow> string" where
  "replace_all old new s =
    (if old = '''' then s
     else case s of
       [] \<Rightarrow> []
     | c # cs \<Rightarrow> if has_prefix s old then new @ replace_all old new (drop (length old) s)
                else c # replace_all old new cs)"
  by auto
termination
  by (relation "measure (\<lambda>(old, new, s). length s)") auto

declare replace_all.simps [simp del]

lemma replace_all_char: "replace_all [x] new s = concat (map (\<lambda>c. if c = x then new else [c]) s)"
proof (induction s)
  case (Cons c s)
  then show ?case by (subst replace_all.simps) simp
qed (simp add: replace_all.simps)

text \<open>\<open>strings.Count\<close> for a string that is not empty: matches that do not overlap, left to right.\<close>

lemma cut_shorter: "cut s sep = Some (a, b) \<Longrightarrow> sep \<noteq> '''' \<Longrightarrow> length b < length s"
  using cut_Some by fastforce

function go_count :: "string \<Rightarrow> string \<Rightarrow> nat" where
  "go_count s sub =
    (if sub = '''' then length s + 1 else case cut s sub of None \<Rightarrow> 0 | Some (a, b) \<Rightarrow> 1 + go_count b sub)"
  by auto
termination
  by (relation "measure (\<lambda>(s, sub). length s)") (auto dest: cut_shorter)

declare go_count.simps [simp del]

text \<open>What the matches leave over.\<close>

function pieces :: "string \<Rightarrow> string \<Rightarrow> string list" where
  "pieces s sub = (if sub = '''' then [s] else case cut s sub of None \<Rightarrow> [s] | Some (a, b) \<Rightarrow> a # pieces b sub)"
  by auto
termination
  by (relation "measure (\<lambda>(s, sub). length s)") (auto dest: cut_shorter)

declare pieces.simps [simp del]

lemma pieces_nonempty [simp]: "pieces s sub \<noteq> []"
  by (subst pieces.simps) (simp split: option.split prod.split)

lemma pieces_None: "cut s sub = None \<Longrightarrow> pieces s sub = [s]"
  by (subst pieces.simps) simp

lemma pieces_Some: "sub \<noteq> '''' \<Longrightarrow> cut s sub = Some (a, b) \<Longrightarrow> pieces s sub = a # pieces b sub"
  by (subst pieces.simps) simp

lemma join_pieces: "sub \<noteq> '''' \<Longrightarrow> join sub (pieces s sub) = s"
proof (induction s rule: measure_induct_rule[of length])
  case (less s)
  show ?case
  proof (cases "cut s sub")
    case (Some p)
    then obtain a b where p: "cut s sub = Some (a, b)" by (cases p) auto
    then have "join sub (pieces b sub) = b" using less cut_shorter by blast
    then show ?thesis using pieces_Some[OF less.prems p] cut_Some[OF p] by (simp add: join_Cons)
  qed (simp add: pieces_None)
qed

lemma count_pieces: "sub \<noteq> '''' \<Longrightarrow> go_count s sub = length (pieces s sub) - 1"
proof (induction s rule: measure_induct_rule[of length])
  case (less s)
  show ?case
  proof (cases "cut s sub")
    case None
    then show ?thesis by (subst go_count.simps) (simp add: less.prems pieces_None)
  next
    case (Some p)
    then obtain a b where p: "cut s sub = Some (a, b)" by (cases p) auto
    then have "go_count b sub = length (pieces b sub) - 1" using less cut_shorter by blast
    moreover have "length (pieces b sub) > 0" by simp
    ultimately show ?thesis
      by (subst go_count.simps) (use p less.prems in \<open>simp add: pieces_Some[OF less.prems p]\<close>)
  qed
qed

lemma replace_all_None: "cut s old = None \<Longrightarrow> replace_all old new s = s"
  by (induction s) (auto simp: replace_all.simps split: if_splits)

lemma replace_all_Some:
  "old \<noteq> '''' \<Longrightarrow> cut s old = Some (a, b) \<Longrightarrow> replace_all old new s = a @ new @ replace_all old new b"
  by (induction s arbitrary: a) (auto simp: replace_all.simps[of old new "_ # _"] split: if_splits)

lemma replace_all_pieces: "old \<noteq> '''' \<Longrightarrow> replace_all old new s = join new (pieces s old)"
proof (induction s rule: measure_induct_rule[of length])
  case (less s)
  show ?case
  proof (cases "cut s old")
    case (Some p)
    then obtain a b where p: "cut s old = Some (a, b)" by (cases p) auto
    then have "replace_all old new b = join new (pieces b old)" using less cut_shorter by blast
    then show ?thesis
      using replace_all_Some[OF less.prems p] by (simp add: pieces_Some[OF less.prems p] join_Cons)
  qed (simp add: pieces_None replace_all_None)
qed

text \<open>Occurrences as substrings.\<close>

definition occurs :: "string \<Rightarrow> string \<Rightarrow> bool" where "occurs v s = (\<exists>a b. s = a @ v @ b)"

lemma occurs_split: "c \<notin> set v \<Longrightarrow> occurs v (x @ c # y) \<Longrightarrow> occurs v x \<or> occurs v y"
proof -
  assume c: "c \<notin> set v" and "occurs v (x @ c # y)"
  then obtain a b where "a @ v @ b = x @ c # y" by (auto simp: occurs_def)
  then consider z where "a = x @ z" "z @ v @ b = c # y" | z where "x = a @ z" "v @ b = z @ c # y"
    by (auto simp: append_eq_append_conv2)
  then show ?thesis
  proof cases
    case 1
    then show ?thesis using c by (cases z; cases v) (auto simp: occurs_def)
  next
    case 2
    then consider r where "v = z @ r" "r @ b = c # y" | r where "z = v @ r" by (auto simp: append_eq_append_conv2)
    then show ?thesis
    proof cases
      case 1
      then have "r = []" using c by (cases r) auto
      then have "x = a @ v @ []" using 1 2(1) by simp
      then show ?thesis unfolding occurs_def by blast
    next
      case b: 2
      then show ?thesis using 2(1) by (auto simp: occurs_def)
    qed
  qed
qed

lemma occurs_inside: "occurs v (a @ s @ b) \<or> \<not> occurs v s"
proof -
  have "occurs v (a @ s @ b)" if "s = x @ v @ y" for x y
    unfolding occurs_def that by (rule exI[of _ "a @ x"], rule exI[of _ "y @ b"]) simp
  then show ?thesis unfolding occurs_def[of v s] by blast
qed

lemma cut_None_iff: "cut s v = None \<longleftrightarrow> \<not> occurs v s"
proof (induction s)
  case (Cons c s)
  have "occurs v (c # s) \<longleftrightarrow> has_prefix (c # s) v \<or> occurs v s"
  proof
    assume "occurs v (c # s)"
    then obtain a b where "c # s = a @ v @ b" by (auto simp: occurs_def)
    then show "has_prefix (c # s) v \<or> occurs v s"
      by (cases a) (auto simp: has_prefix_iff occurs_def)
  next
    assume "has_prefix (c # s) v \<or> occurs v s"
    then show "occurs v (c # s)" unfolding has_prefix_iff occurs_def by (metis append_Cons append_Nil)
  qed
  then show ?case using Cons by simp
qed (auto simp: occurs_def)

lemma cut_first: "cut s v = Some (a, b) \<Longrightarrow> v \<noteq> '''' \<Longrightarrow> \<not> occurs v a"
proof (induction s arbitrary: a)
  case (Cons c s)
  show ?case
  proof (cases "has_prefix (c # s) v")
    case True
    then show ?thesis using Cons.prems by (auto simp: occurs_def)
  next
    case False
    then obtain a' where a: "a = c # a'" "cut s v = Some (a', b)" using Cons.prems by auto
    have "\<not> occurs v a'" by (rule Cons.IH[OF a(2) Cons.prems(2)])
    moreover have "\<not> has_prefix (c # a') v"
    proof
      assume "has_prefix (c # a') v"
      then obtain t where "c # a' = v @ t" unfolding has_prefix_iff by blast
      then have "c # s = v @ (t @ v @ b)" using cut_Some[OF a(2)] by (metis append_Cons append_assoc)
      then show False using False unfolding has_prefix_iff by blast
    qed
    ultimately show ?thesis unfolding a(1) occurs_def has_prefix_iff
      by (metis append_Cons append_Nil append_eq_Cons_conv)
  qed
qed (auto split: if_splits)

lemma pieces_clean: "v \<noteq> '''' \<Longrightarrow> p \<in> set (pieces s v) \<Longrightarrow> \<not> occurs v p"
proof (induction s rule: measure_induct_rule[of length])
  case (less s)
  show ?case
  proof (cases "cut s v")
    case None
    then show ?thesis using less.prems(2) cut_None_iff[of s v] by (simp add: pieces_None)
  next
    case (Some q)
    then obtain a b where q: "cut s v = Some (a, b)" by (cases q) auto
    then show ?thesis
      using less.prems less.IH[OF cut_shorter[OF q less.prems(1)] less.prems(1)] cut_first[OF q less.prems(1)]
        pieces_Some[OF less.prems(1) q] by auto
  qed
qed

lemma piece_inside: "p \<in> set ps \<Longrightarrow> \<exists>a b. join sep ps = a @ p @ b"
proof (induction ps)
  case (Cons q ps)
  show ?case
  proof (cases "p = q")
    case True
    then show ?thesis unfolding join_Cons
      by (intro exI[of _ "[]"] exI[of _ "if ps = [] then [] else sep @ join sep ps"]) simp
  next
    case False
    then have p: "p \<in> set ps" using Cons.prems by simp
    then obtain a b where "join sep ps = a @ p @ b" using Cons.IH by blast
    moreover have "ps \<noteq> []" using p by auto
    ultimately show ?thesis unfolding join_Cons by (intro exI[of _ "q @ sep @ a"] exI[of _ b]) simp
  qed
qed simp

text \<open>Replacing by a bracketed marker brings nothing in that has no bracket and is not in the marker.\<close>

lemma join_marker_clean:
  assumes "CHR ''['' \<notin> set u" "CHR '']'' \<notin> set u" "\<not> occurs u inner" "\<forall>p \<in> set ps. \<not> occurs u p" "ps \<noteq> []"
  shows "\<not> occurs u (join (''['' @ inner @ '']'') ps)"
  using assms(4,5)
proof (induction ps)
  case (Cons p ps)
  show ?case
  proof (cases "ps = []")
    case False
    show ?thesis
    proof
      assume "occurs u (join (''['' @ inner @ '']'') (p # ps))"
      then have "occurs u (p @ CHR ''['' # (inner @ CHR '']'' # join (''['' @ inner @ '']'') ps))"
        using False by (simp add: join_Cons)
      then show False
        using occurs_split[OF assms(1)] occurs_split[OF assms(2)] assms(3) Cons False by (metis list.set_intros(1,2))
    qed
  qed (use Cons in simp)
qed simp

lemma replace_marker_clean:
  assumes "v \<noteq> ''''" "CHR ''['' \<notin> set u" "CHR '']'' \<notin> set u" "\<not> occurs u inner" "u = v \<or> \<not> occurs u s"
  shows "\<not> occurs u (replace_all v (''['' @ inner @ '']'') s)"
proof -
  have "\<not> occurs u p" if p: "p \<in> set (pieces s v)" for p
  proof (cases "u = v")
    case True
    then show ?thesis using pieces_clean[OF assms(1) p] by simp
  next
    case False
    obtain a b where "s = a @ p @ b" using piece_inside[OF p, of v] join_pieces[OF assms(1), of s] by metis
    then show ?thesis using assms(5) False occurs_inside[of u a p b] by simp
  qed
  then show ?thesis
    unfolding replace_all_pieces[OF assms(1)] using join_marker_clean[OF assms(2-4)] by simp
qed

definition contains :: "string \<Rightarrow> string \<Rightarrow> bool" where
  "contains s sub = (cut s sub \<noteq> None)"

text \<open>\<open>strings.Split\<close> on a one-byte separator.\<close>

fun split_on :: "char \<Rightarrow> string \<Rightarrow> string list" where
  "split_on sep [] = [[]]"
| "split_on sep (c # s) =
    (if c = sep then [] # split_on sep s
     else case split_on sep s of [] \<Rightarrow> [[c]] | x # xs \<Rightarrow> (c # x) # xs)"

lemma split_on_nonempty [simp]: "split_on sep s \<noteq> []"
  by (induction s) (auto split: list.splits)

lemma split_on_clean: "x \<in> set (split_on sep s) \<Longrightarrow> sep \<notin> set x"
  by (induction s arbitrary: x) (auto split: list.splits if_splits)

lemma join_split_on [simp]: "join [sep] (split_on sep s) = s"
  by (induction s) (auto split: list.splits simp: join_Cons)

lemma split_on_piece [simp]: "sep \<notin> set x \<Longrightarrow> split_on sep x = [x]"
  by (induction x) auto

lemma split_on_append:
  "sep \<notin> set x \<Longrightarrow> split_on sep (x @ sep # s) = x # split_on sep s"
  by (induction x) auto

lemma split_on_join [simp]:
  "xs \<noteq> [] \<Longrightarrow> \<forall>x \<in> set xs. sep \<notin> set x \<Longrightarrow> split_on sep (join [sep] xs) = xs"
proof (induction "[sep]" xs rule: join.induct)
  case (3 x y ys)
  then have "split_on sep (x @ sep # join [sep] (y # ys)) = x # y # ys"
    by (subst split_on_append) auto
  then show ?case by simp
qed auto

subsection \<open>White space\<close>

text \<open>
  \<open>unicode.IsSpace\<close> holds of 25 code points; these are their UTF-8 encodings. No byte of
  one is the start byte of another, so that a string's first (last) rune is white space exactly
  when it starts (ends) with one of them, whatever else it holds.
\<close>

definition space_runes :: "string list" where
  "space_runes =
    [[CHR 0x09], [CHR 0x0A], [CHR 0x0B], [CHR 0x0C], [CHR 0x0D], [CHR 0x20],
     [CHR 0xC2, CHR 0x85], [CHR 0xC2, CHR 0xA0], [CHR 0xE1, CHR 0x9A, CHR 0x80],
     [CHR 0xE2, CHR 0x80, CHR 0x80], [CHR 0xE2, CHR 0x80, CHR 0x81], [CHR 0xE2, CHR 0x80, CHR 0x82],
     [CHR 0xE2, CHR 0x80, CHR 0x83], [CHR 0xE2, CHR 0x80, CHR 0x84], [CHR 0xE2, CHR 0x80, CHR 0x85],
     [CHR 0xE2, CHR 0x80, CHR 0x86], [CHR 0xE2, CHR 0x80, CHR 0x87], [CHR 0xE2, CHR 0x80, CHR 0x88],
     [CHR 0xE2, CHR 0x80, CHR 0x89], [CHR 0xE2, CHR 0x80, CHR 0x8A], [CHR 0xE2, CHR 0x80, CHR 0xA8],
     [CHR 0xE2, CHR 0x80, CHR 0xA9], [CHR 0xE2, CHR 0x80, CHR 0xAF], [CHR 0xE2, CHR 0x81, CHR 0x9F],
     [CHR 0xE3, CHR 0x80, CHR 0x80]]"

text \<open>How many bytes of white space a string starts with: 0 when its first rune is none.\<close>

definition space_at :: "string list \<Rightarrow> string \<Rightarrow> nat" where
  "space_at ws s = (case filter (has_prefix s) ws of [] \<Rightarrow> 0 | w # _ \<Rightarrow> length w)"

function strip :: "string list \<Rightarrow> string \<Rightarrow> string" where
  "strip ws s = (if s = [] \<or> space_at ws s = 0 then s else strip ws (drop (space_at ws s) s))"
  by pat_completeness auto
termination by (relation "measure (length \<circ> snd)") auto

declare strip.simps [simp del]

definition trim_left :: "string \<Rightarrow> string" where
  "trim_left s = strip space_runes s"

definition trim_right :: "string \<Rightarrow> string" where
  "trim_right s = rev (strip (map rev space_runes) (rev s))"

definition trim_space :: "string \<Rightarrow> string" where
  "trim_space s = trim_right (trim_left s)"

lemma strip_suffix: "\<exists>t. s = t @ strip ws s"
proof (induction ws s rule: strip.induct)
  case (1 ws s)
  show ?case
  proof (cases "s = [] \<or> space_at ws s = 0")
    case True then show ?thesis by (simp add: strip.simps)
  next
    case False
    from 1[OF False] obtain t
      where "drop (space_at ws s) s = t @ strip ws (drop (space_at ws s) s)" by metis
    then have "s = (take (space_at ws s) s @ t) @ strip ws (drop (space_at ws s) s)"
      using append_take_drop_id[of "space_at ws s" s] by (metis append.assoc)
    moreover have "strip ws s = strip ws (drop (space_at ws s) s)"
      using False by (subst strip.simps) simp
    ultimately show ?thesis by metis
  qed
qed

lemma strip_done: "strip ws s = [] \<or> space_at ws (strip ws s) = 0"
proof (induction ws s rule: strip.induct)
  case (1 ws s)
  show ?case
  proof (cases "s = [] \<or> space_at ws s = 0")
    case True then show ?thesis by (auto simp: strip.simps)
  next
    case False
    then have "strip ws s = strip ws (drop (space_at ws s) s)"
      by (subst strip.simps) simp
    then show ?thesis using 1 False by metis
  qed
qed

lemma strip_fix: "s = [] \<or> space_at ws s = 0 \<Longrightarrow> strip ws s = s"
  by (subst strip.simps) simp

lemma trim_left_parts: "\<exists>a. s = a @ trim_left s"
  unfolding trim_left_def by (rule strip_suffix)

lemma trim_right_parts: "\<exists>b. s = trim_right s @ b"
  unfolding trim_right_def using strip_suffix[of "rev s" "map rev space_runes"]
  by (metis rev_append rev_rev_ident)

lemma trim_space_parts: "\<exists>a b. s = a @ trim_space s @ b"
  unfolding trim_space_def using trim_left_parts trim_right_parts by metis

lemma trim_space_Nil [simp]: "trim_space [] = []"
  by (simp add: trim_space_def trim_left_def trim_right_def strip.simps)

lemma trim_space_length: "length (trim_space s) \<le> length s"
  using trim_space_parts[of s] by (metis length_append le_add1 le_add2 le_trans)

lemma space_at_none: "\<forall>w \<in> set ws. \<not> has_prefix s w \<Longrightarrow> space_at ws s = 0"
  by (simp add: space_at_def filter_empty_conv split: list.splits)

lemma space_at_zero_iff:
  "[] \<notin> set ws \<Longrightarrow> space_at ws s = 0 \<longleftrightarrow> (\<forall>w \<in> set ws. \<not> has_prefix s w)"
proof
  assume ws: "[] \<notin> set ws" and z: "space_at ws s = 0"
  show "\<forall>w \<in> set ws. \<not> has_prefix s w"
  proof (cases "filter (has_prefix s) ws")
    case Nil then show ?thesis by (simp add: filter_empty_conv)
  next
    case (Cons w r)
    then have "w \<in> set (filter (has_prefix s) ws)" by simp
    then have "w \<in> set ws" by simp
    moreover have "w = []" using z Cons by (simp add: space_at_def)
    ultimately show ?thesis using ws by simp
  qed
qed (rule space_at_none)

lemma space_runes_nonempty [simp]: "[] \<notin> set space_runes" "[] \<notin> set (map rev space_runes)"
  by (simp_all add: space_runes_def)

lemma trim_left_clean: "trim_left s = [] \<or> (\<forall>w \<in> set space_runes. \<not> has_prefix (trim_left s) w)"
  unfolding trim_left_def using strip_done[of space_runes s] space_at_zero_iff[of space_runes]
  by auto

lemma trim_right_clean:
  "trim_right s = [] \<or> (\<forall>w \<in> set space_runes. \<not> has_suffix (trim_right s) w)"
  unfolding trim_right_def has_suffix_def
  using strip_done[of "map rev space_runes" "rev s"] space_at_zero_iff[OF space_runes_nonempty(2)]
  by auto

lemma trim_left_fix: "\<forall>w \<in> set space_runes. \<not> has_prefix s w \<Longrightarrow> trim_left s = s"
  unfolding trim_left_def by (rule strip_fix) (simp add: space_at_none)

lemma trim_right_fix: "\<forall>w \<in> set space_runes. \<not> has_suffix s w \<Longrightarrow> trim_right s = s"
  unfolding trim_right_def by (subst strip_fix) (auto simp: space_at_none has_suffix_def)

lemma trim_space_clean:
  assumes "trim_space s \<noteq> []" "w \<in> set space_runes"
  shows "\<not> has_prefix (trim_space s) w" "\<not> has_suffix (trim_space s) w"
proof -
  obtain b where b: "trim_left s = trim_space s @ b"
    unfolding trim_space_def using trim_right_parts by blast
  have "trim_left s \<noteq> []" using assms(1) b by auto
  then have "\<not> has_prefix (trim_left s) w" using trim_left_clean assms(2) by blast
  then show "\<not> has_prefix (trim_space s) w" using b by (auto simp: has_prefix_iff)
  show "\<not> has_suffix (trim_space s) w"
    using trim_right_clean[of "trim_left s"] assms unfolding trim_space_def by blast
qed

lemma trim_space_idem [simp]: "trim_space (trim_space s) = trim_space s"
proof (cases "trim_space s = []")
  case False
  then have "trim_left (trim_space s) = trim_space s" "trim_right (trim_space s) = trim_space s"
    using trim_space_clean by (auto intro: trim_left_fix trim_right_fix)
  then show ?thesis by (simp add: trim_space_def[of "trim_space s"])
qed simp

text \<open>Text between two printable ASCII characters is left as it is.\<close>

definition printable :: "char \<Rightarrow> bool" where
  "printable c = (0x21 \<le> (of_char c :: nat) \<and> of_char c < (0x7F :: nat))"

lemma space_not_printable:
  "w \<in> set space_runes \<Longrightarrow> \<not> printable (hd w) \<and> \<not> printable (last w)"
proof -
  have "\<forall>w \<in> set space_runes. \<not> printable (hd w) \<and> \<not> printable (last w)" by code_simp
  then show "w \<in> set space_runes \<Longrightarrow> \<not> printable (hd w) \<and> \<not> printable (last w)" by blast
qed

lemma trim_left_printable:
  assumes "s \<noteq> []" "printable (hd s)"
  shows "trim_left s = s"
proof (rule trim_left_fix, safe)
  fix w assume "w \<in> set space_runes" "has_prefix s w"
  then have "hd w = hd s" "w \<in> set space_runes"
    using space_runes_nonempty(1) by (metis has_prefix_iff hd_append2)+
  then show False using assms(2) space_not_printable by metis
qed

lemma trim_right_printable:
  assumes "s \<noteq> []" "printable (last s)"
  shows "trim_right s = s"
proof (rule trim_right_fix, safe)
  fix w assume "w \<in> set space_runes" "has_suffix s w"
  then have "last w = last s" "w \<in> set space_runes"
    using space_runes_nonempty(1) by (metis has_suffix_iff last_appendR)+
  then show False using assms(2) space_not_printable by metis
qed

lemma trim_space_printable:
  assumes "s \<noteq> []" "printable (hd s)" "printable (last s)"
  shows "trim_space s = s"
  using assms by (simp add: trim_space_def trim_left_printable trim_right_printable)

lemma trim_space_line:
  assumes "s \<noteq> []" "printable (hd s)" "printable (last s)"
  shows "trim_space (s @ [CHR 0x0A]) = s"
proof -
  have "space_at (map rev space_runes) (CHR 0x0A # rev s) = 1"
    by (simp add: space_at_def space_runes_def)
  then have "trim_right (s @ [CHR 0x0A]) = trim_right s"
    unfolding trim_right_def by (subst strip.simps) simp
  then show ?thesis
    using assms by (simp add: trim_space_def trim_left_printable trim_right_printable)
qed

lemma space_at_word: "space_at ws s \<noteq> 0 \<Longrightarrow> \<exists>w \<in> set ws. has_prefix s w \<and> space_at ws s = length w"
proof (cases "filter (has_prefix s) ws")
  case (Cons w r)
  then have "w \<in> set (filter (has_prefix s) ws)" by simp
  then have "w \<in> set ws" "has_prefix s w" by simp_all
  moreover have "space_at ws s = length w" using Cons by (simp add: space_at_def)
  ultimately show ?thesis by blast
qed (simp add: space_at_def)

text \<open>Trimming stops at the last byte no white space holds.\<close>

lemma strip_stops:
  assumes "\<forall>w \<in> set ws. a \<notin> set w"
  shows "\<exists>v. strip ws (u @ [a]) = v @ [a]"
proof (induction "length u" arbitrary: u rule: less_induct)
  case less
  show ?case
  proof (cases "space_at ws (u @ [a]) = 0")
    case True then show ?thesis by (auto simp: strip_fix)
  next
    case False
    then obtain w where w: "w \<in> set ws" "has_prefix (u @ [a]) w" "space_at ws (u @ [a]) = length w"
      using space_at_word by blast
    then obtain t where t: "u @ [a] = w @ t" by (auto simp: has_prefix_iff)
    have "t \<noteq> []" using t w(1) assms by (cases t) (auto simp: append_eq_append_conv2 dest!: sym[of _ w])
    then obtain t' where "t = t' @ [a]" using t by (metis append_butlast_last_id last_appendR last_snoc)
    moreover have "strip ws (u @ [a]) = strip ws t"
      using False w(3) t by (subst strip.simps) simp
    moreover have "length t' < length u" using False w(3) t \<open>t = t' @ [a]\<close> by (cases w) auto
    ultimately show ?thesis using less by metis
  qed
qed

lemma trim_right_starts:
  assumes "\<forall>w \<in> set space_runes. a \<notin> set w"
  shows "\<exists>v. trim_right (a # s) = a # v"
proof -
  obtain v where "strip (map rev space_runes) (rev s @ [a]) = v @ [a]"
    using strip_stops[of "map rev space_runes" a "rev s"] assms by auto
  then have "trim_right (a # s) = a # rev v" by (simp add: trim_right_def)
  then show ?thesis by blast
qed

lemma trim_space_hash: "has_prefix (trim_space (CHR ''#'' # s)) ''#''"
proof -
  have "trim_left (CHR ''#'' # s) = CHR ''#'' # s"
    by (rule trim_left_printable) (simp_all add: printable_def)
  moreover have "\<forall>w \<in> set space_runes. CHR ''#'' \<notin> set w" by (simp add: space_runes_def)
  ultimately show ?thesis using trim_right_starts[of "CHR ''#''" s] by (auto simp: trim_space_def)
qed

subsection \<open>Decimal numbers\<close>

definition digit :: "nat \<Rightarrow> char" where "digit d = char_of (48 + d)"

fun nat_digits :: "nat \<Rightarrow> string" where
  "nat_digits n = (if n < 10 then [digit n] else nat_digits (n div 10) @ [digit (n mod 10)])"

declare nat_digits.simps [simp del]

text \<open>\<open>strconv.Itoa\<close> and \<open>strconv.FormatInt(_, 10)\<close>.\<close>

definition itoa :: "int \<Rightarrow> string" where
  "itoa i = (if i < 0 then CHR ''-'' # nat_digits (nat (- i)) else nat_digits (nat i))"

definition digit_val :: "char \<Rightarrow> nat" where "digit_val c = of_char c - 48"

definition is_digit :: "char \<Rightarrow> bool" where
  "is_digit c = (48 \<le> (of_char c :: nat) \<and> of_char c \<le> (57 :: nat))"

lemma digit_val_digit [simp]: "d < 10 \<Longrightarrow> digit_val (digit d) = d"
  by (simp add: digit_val_def digit_def)

lemma is_digit_digit [simp]: "d < 10 \<Longrightarrow> is_digit (digit d)"
  by (simp add: is_digit_def digit_def)

definition digits_val :: "string \<Rightarrow> nat" where
  "digits_val s = foldl (\<lambda>n c. 10 * n + digit_val c) 0 s"

lemma digits_val_nat_digits [simp]: "digits_val (nat_digits n) = n"
proof (induction n rule: nat_digits.induct)
  case (1 n)
  then show ?case by (subst nat_digits.simps) (auto simp: digits_val_def)
qed

lemma nat_digits_digits: "list_all is_digit (nat_digits n)"
proof (induction n rule: nat_digits.induct)
  case (1 n)
  then show ?case by (subst nat_digits.simps) auto
qed

lemma nat_digits_nonempty [simp]: "nat_digits n \<noteq> []"
  by (subst nat_digits.simps) auto

lemma nat_digits_inj [simp]: "nat_digits m = nat_digits n \<longleftrightarrow> m = n"
  by (metis digits_val_nat_digits)

lemma nat_digits_not_minus: "nat_digits n \<noteq> CHR ''-'' # s"
proof
  assume "nat_digits n = CHR ''-'' # s"
  then have "is_digit CHR ''-''" using nat_digits_digits[of n] by simp
  then show False by (simp add: is_digit_def)
qed

lemma itoa_inj [simp]: "itoa i = itoa j \<longleftrightarrow> i = j"
  by (auto simp: itoa_def nat_digits_not_minus dest: not_sym)
     (metis nat_digits_not_minus)+

end
