(* ===== verification/Base64.thy ===== *)
theory Base64
  imports GoText
begin

section \<open>encoding/base64\<close>

text \<open>
  \<open>base64.StdEncoding\<close>, which the program uses for keys, for signatures and to carry file
  contents through a shell. Decoding ignores line breaks and, like Go's non-strict decoder, the
  spare bits before the padding; decoding what was encoded gives it back.
\<close>

definition b64_char :: "nat \<Rightarrow> char" where
  "b64_char n = (''ABCDEFGHIJKLMNOPQRSTUVWXYZabcdefghijklmnopqrstuvwxyz0123456789+/'') ! n"

fun b64_encode :: "string \<Rightarrow> string" where
  "b64_encode [] = []"
| "b64_encode [a] = (let x = of_char a in
     [b64_char (x div 4), b64_char (x mod 4 * 16), CHR ''='', CHR ''=''])"
| "b64_encode [a, b] = (let x = of_char a; y = of_char b in
     [b64_char (x div 4), b64_char (x mod 4 * 16 + y div 16), b64_char (y mod 16 * 4), CHR ''=''])"
| "b64_encode (a # b # c # s) = (let x = of_char a; y = of_char b; z = of_char c in
     [b64_char (x div 4), b64_char (x mod 4 * 16 + y div 16),
      b64_char (y mod 16 * 4 + z div 64), b64_char (z mod 64)] @ b64_encode s)"

definition b64_val :: "char \<Rightarrow> nat option" where
  "b64_val c = (let n = of_char c :: nat in
     if 65 \<le> n \<and> n \<le> 90 then Some (n - 65)
     else if 97 \<le> n \<and> n \<le> 122 then Some (n - 71)
     else if 48 \<le> n \<and> n \<le> 57 then Some (n + 4)
     else if n = 43 then Some 62 else if n = 47 then Some 63 else None)"

fun b64_quads :: "string \<Rightarrow> string option" where
  "b64_quads [] = Some []"
| "b64_quads (p # q # r # t # s) =
     (case (b64_val p, b64_val q) of
        (Some a, Some b) \<Rightarrow>
          (case (b64_val r, b64_val t) of
             (Some c, Some d) \<Rightarrow>
                map_option (\<lambda>u. [char_of (a * 4 + b div 16), char_of (b mod 16 * 16 + c div 4),
                                 char_of (c mod 4 * 64 + d)] @ u) (b64_quads s)
           | (Some c, None) \<Rightarrow>
                if t = CHR ''='' \<and> s = []
                then Some [char_of (a * 4 + b div 16), char_of (b mod 16 * 16 + c div 4)] else None
           | (None, _) \<Rightarrow>
                if r = CHR ''='' \<and> t = CHR ''='' \<and> s = [] then Some [char_of (a * 4 + b div 16)]
                else None)
      | _ \<Rightarrow> None)"
| "b64_quads _ = None"

definition b64_decode :: "string \<Rightarrow> string option" where
  "b64_decode s = b64_quads (filter (\<lambda>c. c \<noteq> CHR 0x0A \<and> c \<noteq> CHR 0x0D) s)"

lemma b64_val_char: "n < 64 \<Longrightarrow> b64_val (b64_char n) = Some n"
  by (erule upt_cases) (simp add: upt_conv_Cons b64_char_def b64_val_def)

lemma b64_char_plain:
  "n < 64 \<Longrightarrow> b64_char n \<noteq> CHR 0x0A \<and> b64_char n \<noteq> CHR 0x0D \<and> b64_char n \<noteq> CHR 0x27"
  by (erule upt_cases) (simp add: upt_conv_Cons b64_char_def)

lemma b64_val_eq [simp]: "b64_val CHR ''='' = None"
  by (simp add: b64_val_def)

lemma byte_bound [simp]: "of_char c < (256 :: nat)"
  using of_char_mod_256[of c, where 'a = nat] mod_less_divisor[of 256 "of_char c"] by simp

lemma sextets:
  fixes x y z :: nat
  shows "x < 256 \<Longrightarrow> x div 4 < 64" "y < 256 \<Longrightarrow> x mod 4 * 16 + y div 16 < 64"
    "z < 256 \<Longrightarrow> y mod 16 * 4 + z div 64 < 64" "z mod 64 < 64"
    "x mod 4 * 16 < 64" "y mod 16 * 4 < 64"
  by auto

lemma sextet_joins:
  fixes x y z :: nat
  shows "x div 4 * 4 + x mod 4 = x" "y < 256 \<Longrightarrow> y div 16 div 16 = 0" "y < 256 \<Longrightarrow> y div 16 mod 16 = y div 16"
    "z < 256 \<Longrightarrow> z div 64 div 4 = 0" "z < 256 \<Longrightarrow> z div 64 mod 4 = z div 64"
  by (simp_all add: less_mult_imp_div_less flip: div_mult2_eq)

lemma b64_quads_encode: "b64_quads (b64_encode s) = Some s"
  by (induction s rule: b64_encode.induct)
     (simp_all add: Let_def b64_val_char sextets sextet_joins)

lemma b64_encode_chars:
  "c \<in> set (b64_encode s) \<Longrightarrow> c = CHR ''='' \<or> (\<exists>n < 64. c = b64_char n)"
proof (induction s rule: b64_encode.induct)
  case (2 a)
  then show ?case using sextets(1)[of "of_char a"]
    by (auto simp: Let_def intro: exI[of _ "of_char a mod 4 * 16"])
next
  case (3 a b)
  then show ?case
    using sextets(1)[of "of_char a"] sextets(2)[of "of_char b" "of_char a"]
    by (auto simp: Let_def intro: exI[of _ "of_char b mod 16 * 4"])
next
  case (4 a b c s)
  then show ?case
    using sextets(1)[of "of_char a"] sextets(2)[of "of_char b" "of_char a"]
      sextets(3)[of "of_char c" "of_char b"]
    by (auto simp: Let_def intro: exI[of _ "of_char c mod 64"])
qed simp

lemma b64_encode_plain:
  "c \<in> set (b64_encode s) \<Longrightarrow> c \<noteq> CHR 0x0A \<and> c \<noteq> CHR 0x0D \<and> c \<noteq> CHR 0x27"
  using b64_encode_chars b64_char_plain by fastforce

lemma b64_decode_encode [simp]: "b64_decode (b64_encode s) = Some s"
proof -
  have "filter (\<lambda>c. c \<noteq> CHR 0x0A \<and> c \<noteq> CHR 0x0D) (b64_encode s) = b64_encode s"
    using b64_encode_plain by (simp add: filter_id_conv)
  then show ?thesis by (simp add: b64_decode_def b64_quads_encode)
qed

lemma length_b64_encode: "length (b64_encode s) = 4 * ((length s + 2) div 3)"
proof (induction s rule: b64_encode.induct)
  case (4 a b c s)
  have "(length (a # b # c # s) + 2) div 3 = Suc ((length s + 2) div 3)" by simp
  then show ?case using 4 by (simp add: Let_def)
qed (simp_all add: Let_def)

end
