(* ===== verification/BucketStore.thy ===== *)
theory BucketStore
  imports Base64
begin

section \<open>The raw object store: bucket/store.go, bucket/fake.go, bucket/r2.go\<close>

text \<open>
  The store under a bucket client: its objects, its conditional writes, the in-memory \<open>Fake\<close>
  and the adapter to R2's S3 API. The locale \<open>object_store\<close> states what the client relies on;
  the fake and the adapter (over any S3 service that does what its documentation says) provide it.
\<close>

subsection \<open>store.go\<close>

definition ErrNotFound :: goerr where "ErrNotFound = Sentinel ''bucket: not found''"
definition ErrExists :: goerr where "ErrExists = Sentinel ''bucket: already exists''"
definition ErrConflict :: goerr where "ErrConflict = Sentinel ''bucket: changed since it was read''"
definition ErrBadSignature :: goerr where
  "ErrBadSignature = Sentinel ''bucket: missing or untrusted signature''"
definition ErrPrecondition :: goerr where "ErrPrecondition = Sentinel ''bucket: precondition failed''"

lemmas bucket_errors =
  ErrNotFound_def ErrExists_def ErrConflict_def ErrBadSignature_def ErrPrecondition_def

record object =
  o_Body :: string
  o_Meta :: "(string \<times> string) list"
  o_ETag :: string

record cond =
  IfNoneMatch :: bool
  IfMatch :: string

abbreviation no_cond :: cond where "no_cond \<equiv> \<lparr>IfNoneMatch = False, IfMatch = ''''\<rparr>"

record counts =
  ClassA :: int
  ClassB :: int

text \<open>The interface \<open>Store\<close>: its two methods, acting on the store's state.\<close>

record 's store_ops =
  s_Get :: "'s \<Rightarrow> string \<Rightarrow> 's \<times> object res"
  s_Put :: "'s \<Rightarrow> string \<Rightarrow> object \<Rightarrow> cond \<Rightarrow> 's \<times> string res"

text \<open>Whether a conditional write may go ahead over what the key holds now.\<close>

definition cond_holds :: "cond \<Rightarrow> object option \<Rightarrow> bool" where
  "cond_holds c v =
    ((IfNoneMatch c \<longrightarrow> v = None) \<and> (IfMatch c \<noteq> '''' \<longrightarrow> (case v of None \<Rightarrow> False | Some ob \<Rightarrow> o_ETag ob = IfMatch c)))"

lemma cond_holds_simps [simp]:
  "cond_holds no_cond v"
  "cond_holds \<lparr>IfNoneMatch = True, IfMatch = ''''\<rparr> v \<longleftrightarrow> v = None"
  "t \<noteq> '''' \<Longrightarrow> cond_holds \<lparr>IfNoneMatch = False, IfMatch = t\<rparr> v \<longleftrightarrow> (\<exists>ob. v = Some ob \<and> o_ETag ob = t)"
  by (auto simp: cond_holds_def split: option.splits)

subsection \<open>The contract of a store\<close>

text \<open>
  What the client relies on. A write that succeeds was allowed and is visible; one that is refused
  changed nothing; one that fails in some other way may or may not have been applied, but was
  allowed if it was. A read changes nothing and reports what is there.
\<close>

locale object_store =
  fixes st :: "'s store_ops" and view :: "'s \<Rightarrow> string \<Rightarrow> object option"
  assumes Get_pure: "s_Get st s k = (s', r) \<Longrightarrow> view s' = view s"
    and Get_found: "s_Get st s k = (s', Inr ob) \<Longrightarrow> view s k = Some ob"
    and Get_missing: "s_Get st s k = (s', Inl e) \<Longrightarrow> err_is e ErrNotFound \<Longrightarrow> view s k = None"
    and Put_done: "s_Put st s k ob c = (s', Inr t) \<Longrightarrow>
      cond_holds c (view s k) \<and> view s' = (view s)(k \<mapsto> ob\<lparr>o_ETag := t\<rparr>)"
    and Put_refused: "s_Put st s k ob c = (s', Inl e) \<Longrightarrow> err_is e ErrPrecondition \<Longrightarrow> view s' = view s"
    and Put_failed: "s_Put st s k ob c = (s', Inl e) \<Longrightarrow> view s' \<noteq> view s \<Longrightarrow>
      cond_holds c (view s k) \<and> (\<exists>t. view s' = (view s)(k \<mapsto> ob\<lparr>o_ETag := t\<rparr>))"
begin

lemma Put_result:
  assumes "s_Put st s k ob c = (s', r)"
  shows "view s' = view s \<or>
    (cond_holds c (view s k) \<and> (\<exists>t. view s' = (view s)(k \<mapsto> ob\<lparr>o_ETag := t\<rparr>)))"
proof (cases r)
  case (Inl e) then show ?thesis using Put_failed assms by blast
next
  case (Inr t) then show ?thesis using Put_done assms by blast
qed

lemma Put_frame: "s_Put st s k ob c = (s', r) \<Longrightarrow> k' \<noteq> k \<Longrightarrow> view s' k' = view s k'"
  using Put_result[of s k ob c s' r] by (auto simp: fun_upd_def)

text \<open>What \<open>If-None-Match\<close> protects: an object that is there is never touched.\<close>

lemma Put_new_keeps:
  "s_Put st s k ob \<lparr>IfNoneMatch = True, IfMatch = ''''\<rparr> = (s', r) \<Longrightarrow> view s k' = Some o' \<Longrightarrow>
   view s' k' = Some o'"
  using Put_result[of s k ob "\<lparr>IfNoneMatch = True, IfMatch = ''''\<rparr>" s' r] by auto

end

text \<open>A store that fails only when it must, which the fake is and a network service is not.\<close>

locale exact_store = object_store +
  assumes Get_exact: "view s k = Some ob \<Longrightarrow> \<exists>s'. s_Get st s k = (s', Inr ob)"
    and Get_absent: "view s k = None \<Longrightarrow> \<exists>s' e. s_Get st s k = (s', Inl e) \<and> err_is e ErrNotFound"
    and Put_exact: "cond_holds c (view s k) \<Longrightarrow> \<exists>s' t. s_Put st s k ob c = (s', Inr t)"
    and Put_denied: "\<not> cond_holds c (view s k) \<Longrightarrow>
      \<exists>s' e. s_Put st s k ob c = (s', Inl e) \<and> err_is e ErrPrecondition"

subsection \<open>fake.go\<close>

record fake =
  fk_objects :: "(string \<times> object) list"
  fk_version :: int
  fk_counts :: counts

definition NewFake :: fake where
  "NewFake = \<lparr>fk_objects = [], fk_version = 0, fk_counts = \<lparr>ClassA = 0, ClassB = 0\<rparr>\<rparr>"

text \<open>Values are immutable here, so \<open>copyObject\<close> is the identity.\<close>

definition copyObject :: "object \<Rightarrow> object" where
  "copyObject ob = \<lparr>o_Body = o_Body ob, o_Meta = o_Meta ob, o_ETag = o_ETag ob\<rparr>"

definition fake_Get :: "fake \<Rightarrow> string \<Rightarrow> fake \<times> object res" where
  "fake_Get f key =
    (let f1 = f\<lparr>fk_counts := (fk_counts f)\<lparr>ClassB := ClassB (fk_counts f) + 1\<rparr>\<rparr> in
     case map_of (fk_objects f) key of
       None \<Rightarrow> (f1, Inl ErrNotFound)
     | Some ob \<Rightarrow> (f1, Inr (copyObject ob)))"

definition fake_Put :: "fake \<Rightarrow> string \<Rightarrow> object \<Rightarrow> cond \<Rightarrow> fake \<times> string res" where
  "fake_Put f key ob c =
    (let f1 = f\<lparr>fk_counts := (fk_counts f)\<lparr>ClassA := ClassA (fk_counts f) + 1\<rparr>\<rparr>;
         old = map_of (fk_objects f) key in
     if IfNoneMatch c \<and> old \<noteq> None then (f1, Inl ErrPrecondition)
     else if IfMatch c \<noteq> '''' \<and> (case old of None \<Rightarrow> True | Some o' \<Rightarrow> o_ETag o' \<noteq> IfMatch c)
       then (f1, Inl ErrPrecondition)
     else let v = fk_version f + 1;
              tag = [CHR 0x22] @ itoa v @ [CHR 0x22];
              ob' = (copyObject ob)\<lparr>o_ETag := tag\<rparr> in
       (f1\<lparr>fk_version := v, fk_objects := AList.update key ob' (fk_objects f)\<rparr>, Inr tag))"

definition fake_Counts :: "fake \<Rightarrow> counts" where "fake_Counts f = fk_counts f"

definition fake_store :: "fake store_ops" where
  "fake_store = \<lparr>s_Get = fake_Get, s_Put = fake_Put\<rparr>"

abbreviation fake_view :: "fake \<Rightarrow> string \<Rightarrow> object option" where
  "fake_view f \<equiv> map_of (fk_objects f)"

lemma copyObject_id [simp]: "copyObject ob = ob"
  by (simp add: copyObject_def)

lemma fake_Put_eq:
  "fake_Put f key ob c =
    (let f1 = f\<lparr>fk_counts := (fk_counts f)\<lparr>ClassA := ClassA (fk_counts f) + 1\<rparr>\<rparr> in
     if cond_holds c (fake_view f key)
     then (let tag = [CHR 0x22] @ itoa (fk_version f + 1) @ [CHR 0x22] in
       (f1\<lparr>fk_version := fk_version f + 1,
           fk_objects := AList.update key (ob\<lparr>o_ETag := tag\<rparr>) (fk_objects f)\<rparr>, Inr tag))
     else (f1, Inl ErrPrecondition))"
  by (auto simp: fake_Put_def cond_holds_def Let_def split: option.splits)

interpretation fake: exact_store fake_store fake_view
proof
qed (auto simp: fake_store_def fake_Get_def fake_Put_eq Let_def bucket_errors
  split: if_splits option.splits)

subsection \<open>r2.go\<close>

text \<open>
  The AWS SDK is not part of the repository: its two calls are parameters. A failed call is an
  HTTP response with a status, or some other error; a read's body may still fail to arrive.
\<close>

datatype s3_err = ResponseError nat goerr | OtherError goerr

record 's s3_api =
  GetObject :: "'s \<Rightarrow> string \<Rightarrow> string \<Rightarrow> 's \<times> (s3_err + (string res \<times> (string \<times> string) list \<times> string option))"
  PutObject :: "'s \<Rightarrow> string \<Rightarrow> string \<Rightarrow> string \<Rightarrow> (string \<times> string) list \<Rightarrow> string option \<Rightarrow> string option \<Rightarrow>
    's \<times> (s3_err + string option)"

definition aws_ToString :: "string option \<Rightarrow> string" where
  "aws_ToString v = (case v of None \<Rightarrow> '''' | Some s \<Rightarrow> s)"

fun mapErr :: "s3_err \<Rightarrow> goerr" where
  "mapErr (ResponseError code e) =
    (if code = 404 then ErrNotFound else if code = 412 \<or> code = 409 then ErrPrecondition else e)"
| "mapErr (OtherError e) = e"

definition r2_Get :: "'s s3_api \<Rightarrow> string \<Rightarrow> 's \<Rightarrow> string \<Rightarrow> 's \<times> object res" where
  "r2_Get s3 bkt s key =
    (case GetObject s3 s bkt key of
       (s', Inl e) \<Rightarrow> (s', Inl (mapErr e))
     | (s', Inr (body, meta, etag)) \<Rightarrow>
         (case body of
            Inl e \<Rightarrow> (s', Inl e)
          | Inr b \<Rightarrow> (s', Inr \<lparr>o_Body = b, o_Meta = meta, o_ETag = aws_ToString etag\<rparr>)))"

definition r2_Put :: "'s s3_api \<Rightarrow> string \<Rightarrow> 's \<Rightarrow> string \<Rightarrow> object \<Rightarrow> cond \<Rightarrow> 's \<times> string res" where
  "r2_Put s3 bkt s key ob c =
    (let inm = (if IfNoneMatch c then Some ''*'' else None);
         im = (if IfMatch c \<noteq> '''' then Some (IfMatch c) else None) in
     case PutObject s3 s bkt key (o_Body ob) (o_Meta ob) inm im of
       (s', Inl e) \<Rightarrow> (s', Inl (mapErr e))
     | (s', Inr etag) \<Rightarrow> (s', Inr (aws_ToString etag)))"

definition R2 :: "'s s3_api \<Rightarrow> string \<Rightarrow> 's store_ops" where
  "R2 s3 bkt = \<lparr>s_Get = r2_Get s3 bkt, s_Put = r2_Put s3 bkt\<rparr>"

text \<open>
  What S3's documentation says of the two calls: a read returns the stored version or 404; a write
  is checked against \<open>If-None-Match: *\<close> and \<open>If-Match\<close>, answers 412 or 409 when it
  refuses and then changed nothing; any other failure leaves open whether the write was applied.
  The SDK's own errors are never this package's.
\<close>

definition sdk_error :: "goerr \<Rightarrow> bool" where
  "sdk_error e = (\<not> err_is e ErrNotFound \<and> \<not> err_is e ErrPrecondition)"

fun refusal :: "s3_err \<Rightarrow> bool" where
  "refusal (ResponseError code e) = (code = 409 \<or> code = 412)"
| "refusal (OtherError e) = False"

fun cause :: "s3_err \<Rightarrow> goerr" where
  "cause (ResponseError code e) = e"
| "cause (OtherError e) = e"

definition s3_allows :: "string option \<Rightarrow> string option \<Rightarrow> object option \<Rightarrow> bool" where
  "s3_allows inm im v =
    ((inm = Some ''*'' \<longrightarrow> v = None) \<and>
     (case im of None \<Rightarrow> True | Some t \<Rightarrow> (case v of None \<Rightarrow> False | Some ob \<Rightarrow> o_ETag ob = t)))"

definition s3_documented :: "'s s3_api \<Rightarrow> string \<Rightarrow> ('s \<Rightarrow> string \<Rightarrow> object option) \<Rightarrow> bool" where
  "s3_documented s3 bkt view =
    ((\<forall>s key s' e. GetObject s3 s bkt key = (s', Inl e) \<longrightarrow>
        view s' = view s \<and> sdk_error (cause e) \<and> (\<forall>c. e = ResponseError 404 c \<longrightarrow> view s key = None)) \<and>
     (\<forall>s key s' body meta etag. GetObject s3 s bkt key = (s', Inr (body, meta, etag)) \<longrightarrow>
        view s' = view s \<and> (\<forall>e. body = Inl e \<longrightarrow> sdk_error e) \<and>
        (\<forall>b. body = Inr b \<longrightarrow> view s key = Some \<lparr>o_Body = b, o_Meta = meta, o_ETag = aws_ToString etag\<rparr>)) \<and>
     (\<forall>s key body meta inm im s' e. PutObject s3 s bkt key body meta inm im = (s', Inl e) \<longrightarrow>
        sdk_error (cause e) \<and> (refusal e \<longrightarrow> view s' = view s) \<and>
        (view s' \<noteq> view s \<longrightarrow> s3_allows inm im (view s key) \<and>
          (\<exists>t. view s' = (view s)(key \<mapsto> \<lparr>o_Body = body, o_Meta = meta, o_ETag = t\<rparr>)))) \<and>
     (\<forall>s key body meta inm im s' etag. PutObject s3 s bkt key body meta inm im = (s', Inr etag) \<longrightarrow>
        s3_allows inm im (view s key) \<and>
        view s' = (view s)(key \<mapsto> \<lparr>o_Body = body, o_Meta = meta, o_ETag = aws_ToString etag\<rparr>)))"

lemma s3_documentedD:
  assumes "s3_documented s3 bkt view"
  shows s3_Get_fails: "GetObject s3 s bkt key = (s', Inl e) \<Longrightarrow>
      view s' = view s \<and> sdk_error (cause e) \<and> (\<forall>c. e = ResponseError 404 c \<longrightarrow> view s key = None)"
    and s3_Get_finds: "GetObject s3 s bkt key = (s', Inr (body, meta, etag)) \<Longrightarrow>
      view s' = view s \<and> (\<forall>e. body = Inl e \<longrightarrow> sdk_error e) \<and>
      (\<forall>b. body = Inr b \<longrightarrow> view s key = Some \<lparr>o_Body = b, o_Meta = meta, o_ETag = aws_ToString etag\<rparr>)"
    and s3_Put_fails: "PutObject s3 s bkt key b meta inm im = (s', Inl e) \<Longrightarrow>
      sdk_error (cause e) \<and> (refusal e \<longrightarrow> view s' = view s) \<and>
      (view s' \<noteq> view s \<longrightarrow> s3_allows inm im (view s key) \<and>
        (\<exists>t. view s' = (view s)(key \<mapsto> \<lparr>o_Body = b, o_Meta = meta, o_ETag = t\<rparr>)))"
    and s3_Put_works: "PutObject s3 s bkt key b meta inm im = (s', Inr etag) \<Longrightarrow>
      s3_allows inm im (view s key) \<and>
      view s' = (view s)(key \<mapsto> \<lparr>o_Body = b, o_Meta = meta, o_ETag = aws_ToString etag\<rparr>)"
  using assms unfolding s3_documented_def by simp_all

lemma s3_allows_cond:
  "s3_allows (if IfNoneMatch c then Some ''*'' else None)
     (if IfMatch c \<noteq> '''' then Some (IfMatch c) else None) v = cond_holds c v"
  by (simp add: s3_allows_def cond_holds_def split: option.splits)

lemma mapErr_NotFound:
  "sdk_error (cause e) \<Longrightarrow> err_is (mapErr e) ErrNotFound \<longleftrightarrow> (\<exists>c. e = ResponseError 404 c)"
  by (cases e) (auto simp: sdk_error_def bucket_errors)

lemma mapErr_Precondition:
  "sdk_error (cause e) \<Longrightarrow> err_is (mapErr e) ErrPrecondition \<longleftrightarrow> refusal e"
  by (cases e) (auto simp: sdk_error_def bucket_errors)

lemma object_meta_eta: "\<lparr>o_Body = o_Body ob, o_Meta = o_Meta ob, o_ETag = t\<rparr> = ob\<lparr>o_ETag := t\<rparr>"
  by simp

lemma r2_Get_cases:
  assumes "s3_documented s3 bkt view" "r2_Get s3 bkt s k = (s', r)"
  shows "view s' = view s"
    "r = Inr ob \<Longrightarrow> view s k = Some ob"
    "r = Inl e \<Longrightarrow> err_is e ErrNotFound \<Longrightarrow> view s k = None"
proof -
  obtain s1 x where g: "GetObject s3 s bkt k = (s1, x)" by (metis prod.exhaust)
  have "view s' = view s \<and> (r = Inr ob \<longrightarrow> view s k = Some ob) \<and>
    (r = Inl e \<and> err_is e ErrNotFound \<longrightarrow> view s k = None)"
  proof (cases x)
    case (Inl a)
    then have "s' = s1" "r = Inl (mapErr a)" using assms(2) g by (auto simp: r2_Get_def)
    moreover note s3_Get_fails[OF assms(1) g[unfolded Inl]]
    ultimately show ?thesis by (auto simp: mapErr_NotFound)
  next
    case (Inr y)
    obtain body meta etag where y: "y = (body, meta, etag)" by (metis prod.exhaust)
    show ?thesis using s3_Get_finds[OF assms(1) g[unfolded Inr y]] assms(2) g Inr y
      by (cases body) (auto simp: r2_Get_def sdk_error_def)
  qed
  then show "view s' = view s" "r = Inr ob \<Longrightarrow> view s k = Some ob"
    "r = Inl e \<Longrightarrow> err_is e ErrNotFound \<Longrightarrow> view s k = None" by auto
qed

lemma r2_Put_cases:
  assumes "s3_documented s3 bkt view" "r2_Put s3 bkt s k ob c = (s', r)"
  shows "r = Inr t \<Longrightarrow> cond_holds c (view s k) \<and> view s' = (view s)(k \<mapsto> ob\<lparr>o_ETag := t\<rparr>)"
    "r = Inl e \<Longrightarrow> err_is e ErrPrecondition \<Longrightarrow> view s' = view s"
    "r = Inl e \<Longrightarrow> view s' \<noteq> view s \<Longrightarrow>
       cond_holds c (view s k) \<and> (\<exists>t. view s' = (view s)(k \<mapsto> ob\<lparr>o_ETag := t\<rparr>))"
proof -
  let ?inm = "if IfNoneMatch c then Some ''*'' else None"
  let ?im = "if IfMatch c \<noteq> '''' then Some (IfMatch c) else None"
  obtain s1 x where g: "PutObject s3 s bkt k (o_Body ob) (o_Meta ob) ?inm ?im = (s1, x)"
    by (metis prod.exhaust)
  have s: "s' = s1" and r: "r = (case x of Inl a \<Rightarrow> Inl (mapErr a) | Inr u \<Rightarrow> Inr (aws_ToString u))"
    using assms(2) unfolding r2_Put_def Let_def g by (auto split: sum.splits)
  have bad: "x = Inl a \<Longrightarrow> sdk_error (cause a) \<and> (refusal a \<longrightarrow> view s1 = view s) \<and>
      (view s1 \<noteq> view s \<longrightarrow> s3_allows ?inm ?im (view s k) \<and>
        (\<exists>t. view s1 = (view s)(k \<mapsto> \<lparr>o_Body = o_Body ob, o_Meta = o_Meta ob, o_ETag = t\<rparr>)))" for a
    using s3_Put_fails[OF assms(1)] g by blast
  have good: "x = Inr u \<Longrightarrow> s3_allows ?inm ?im (view s k) \<and>
      view s1 = (view s)(k \<mapsto> \<lparr>o_Body = o_Body ob, o_Meta = o_Meta ob, o_ETag = aws_ToString u\<rparr>)" for u
    using s3_Put_works[OF assms(1)] g by blast
  show "r = Inr t \<Longrightarrow> cond_holds c (view s k) \<and> view s' = (view s)(k \<mapsto> ob\<lparr>o_ETag := t\<rparr>)"
    using good r s by (auto simp: s3_allows_cond object_meta_eta split: sum.splits)
  show "r = Inl e \<Longrightarrow> err_is e ErrPrecondition \<Longrightarrow> view s' = view s"
    using bad r s by (auto simp: mapErr_Precondition split: sum.splits)
  show "r = Inl e \<Longrightarrow> view s' \<noteq> view s \<Longrightarrow>
       cond_holds c (view s k) \<and> (\<exists>t. view s' = (view s)(k \<mapsto> ob\<lparr>o_ETag := t\<rparr>))"
    using bad r s by (auto simp: s3_allows_cond object_meta_eta split: sum.splits)
qed

text \<open>An S3 service that works: the fake's objects behind HTTP status codes.\<close>

definition demo_s3 :: "fake s3_api" where
  "demo_s3 = \<lparr>
    GetObject = (\<lambda>s bkt key. case fake_Get s key of
        (s', Inl e) \<Rightarrow> (s', Inl (ResponseError 404 (Opaque ''NoSuchKey'')))
      | (s', Inr ob) \<Rightarrow> (s', Inr (Inr (o_Body ob), o_Meta ob, Some (o_ETag ob)))),
    PutObject = (\<lambda>s bkt key body meta inm im.
      case fake_Put s key \<lparr>o_Body = body, o_Meta = meta, o_ETag = ''''\<rparr>
             \<lparr>IfNoneMatch = (inm = Some ''*''), IfMatch = aws_ToString im\<rparr> of
        (s', Inl e) \<Rightarrow> (s', Inl (ResponseError 412 (Opaque ''PreconditionFailed'')))
      | (s', Inr t) \<Rightarrow> if im = Some '''' then (s, Inl (ResponseError 412 (Opaque ''PreconditionFailed''))) else (s', Inr (Some t)))\<rparr>"

lemma demo_s3_documented: "s3_documented demo_s3 bkt fake_view"
  by (auto simp: s3_documented_def demo_s3_def fake_Get_def fake_Put_eq Let_def sdk_error_def
      bucket_errors aws_ToString_def s3_allows_def cond_holds_def
      split: if_splits option.splits)

lemma r2_object_store:
  assumes "s3_documented s3 bkt view"
  shows "object_store (R2 s3 bkt) view"
proof
  fix s s' k r ob c e t
  show "s_Get (R2 s3 bkt) s k = (s', r) \<Longrightarrow> view s' = view s"
    "s_Get (R2 s3 bkt) s k = (s', Inr ob) \<Longrightarrow> view s k = Some ob"
    "s_Get (R2 s3 bkt) s k = (s', Inl e) \<Longrightarrow> err_is e ErrNotFound \<Longrightarrow> view s k = None"
    using r2_Get_cases[OF assms] by (auto simp: R2_def)
  show "s_Put (R2 s3 bkt) s k ob c = (s', Inr t) \<Longrightarrow>
      cond_holds c (view s k) \<and> view s' = (view s)(k \<mapsto> ob\<lparr>o_ETag := t\<rparr>)"
    "s_Put (R2 s3 bkt) s k ob c = (s', Inl e) \<Longrightarrow> err_is e ErrPrecondition \<Longrightarrow> view s' = view s"
    "s_Put (R2 s3 bkt) s k ob c = (s', Inl e) \<Longrightarrow> view s' \<noteq> view s \<Longrightarrow>
      cond_holds c (view s k) \<and> (\<exists>t. view s' = (view s)(k \<mapsto> ob\<lparr>o_ETag := t\<rparr>))"
    using r2_Put_cases[OF assms] by (auto simp: R2_def)
qed

end
