(* ===== verification/BucketClient.thy ===== *)
theory BucketClient
  imports BucketStore
begin

section \<open>The signing client: bucket/client.go and bucket/keys.go\<close>

text \<open>
  A client signs what it writes, drops what it cannot verify, counts what it sends and makes each
  caller wait for its limiter. Ed25519 is a parameter (\<open>crypto\<close>): nothing here depends on how
  a signature is computed. The limiter (golang.org/x/time/rate) is a parameter too: each operation
  takes the outcome of its \<open>Wait\<close>, an error when the context ended first.
\<close>

record crypto =
  cr_public :: "string \<Rightarrow> string"
  cr_sign :: "string \<Rightarrow> string \<Rightarrow> string"
  cr_verify :: "string \<Rightarrow> string \<Rightarrow> string \<Rightarrow> bool"

text \<open>A private key is its seed; \<open>SeedSize\<close>, \<open>PublicKeySize\<close> and \<open>SignatureSize\<close>.\<close>

abbreviation SeedSize :: nat where "SeedSize \<equiv> 32"
abbreviation PublicKeySize :: nat where "PublicKeySize \<equiv> 32"
abbreviation SignatureSize :: nat where "SignatureSize \<equiv> 64"

definition sigMeta :: string where "sigMeta = ''garage-sig''"

record limit =
  Every :: int
  Burst :: int

record 's client =
  cl_store :: 's
  cl_key :: string
  cl_trusted :: "string list"
  cl_callers :: "(string \<times> limit) list"
  cl_counts :: counts

definition New :: "crypto \<Rightarrow> 's \<Rightarrow> string \<Rightarrow> string list \<Rightarrow> (string \<times> limit) list \<Rightarrow> 's client" where
  "New cr store key trusted limits =
    \<lparr>cl_store = store, cl_key = key, cl_trusted = cr_public cr key # trusted,
     cl_callers = limits, cl_counts = \<lparr>ClassA = 0, ClassB = 0\<rparr>\<rparr>"

text \<open>A caller is its name; None is the panic on a name with no limit.\<close>

definition Caller :: "'s client \<Rightarrow> string \<Rightarrow> string option" where
  "Caller c name = (case map_of (cl_callers c) name of None \<Rightarrow> None | Some l \<Rightarrow> Some name)"

definition client_Counts :: "'s client \<Rightarrow> counts" where "client_Counts c = cl_counts c"

definition count :: "bool \<Rightarrow> 's client \<Rightarrow> 's client" where
  "count classA c = c\<lparr>cl_counts :=
     (if classA then (cl_counts c)\<lparr>ClassA := ClassA (cl_counts c) + 1\<rparr>
      else (cl_counts c)\<lparr>ClassB := ClassB (cl_counts c) + 1\<rparr>)\<rparr>"

definition signed :: "string \<Rightarrow> string \<Rightarrow> string" where
  "signed key body = ''garage-v1'' @ [CHR 0x00] @ key @ [CHR 0x00] @ body"

definition meta_get :: "(string \<times> string) list \<Rightarrow> string \<Rightarrow> string" where
  "meta_get m k = (case map_of m k of None \<Rightarrow> '''' | Some v \<Rightarrow> v)"

fun any_verifies :: "crypto \<Rightarrow> string list \<Rightarrow> string \<Rightarrow> string \<Rightarrow> bool" where
  "any_verifies cr [] msg sig = False"
| "any_verifies cr (pub # trusted) msg sig =
    (if cr_verify cr pub msg sig then True else any_verifies cr trusted msg sig)"

definition verify :: "crypto \<Rightarrow> string list \<Rightarrow> string \<Rightarrow> object \<Rightarrow> bool" where
  "verify cr trusted key ob =
    (case b64_decode (meta_get (o_Meta ob) sigMeta) of
       None \<Rightarrow> False
     | Some sig \<Rightarrow> if length sig \<noteq> SignatureSize then False
                   else any_verifies cr trusted (signed key (o_Body ob)) sig)"

definition Caller_Get ::
  "'s store_ops \<Rightarrow> crypto \<Rightarrow> string \<Rightarrow> goerr option \<Rightarrow> string \<Rightarrow> 's client \<Rightarrow> 's client \<times> object res" where
  "Caller_Get st cr name wait key c =
    (case wait of
       Some e \<Rightarrow> (c, Inl (Wrap (''bucket '' @ name @ '': '') e ''''))
     | None \<Rightarrow>
        (let c1 = count False c;
             (s', r) = s_Get st (cl_store c1) key;
             c2 = c1\<lparr>cl_store := s'\<rparr> in
         case r of
           Inl e \<Rightarrow> (c2, Inl e)
         | Inr ob \<Rightarrow> if \<not> verify cr (cl_trusted c2) key ob
                     then (c2, Inl (Wrap (key @ '': '') ErrBadSignature ''''))
                     else (c2, Inr ob)))"

definition Caller_put ::
  "'s store_ops \<Rightarrow> crypto \<Rightarrow> string \<Rightarrow> goerr option \<Rightarrow> string \<Rightarrow> string \<Rightarrow> cond \<Rightarrow> 's client \<Rightarrow>
   's client \<times> string res" where
  "Caller_put st cr name wait key body cd c =
    (case wait of
       Some e \<Rightarrow> (c, Inl (Wrap (''bucket '' @ name @ '': '') e ''''))
     | None \<Rightarrow>
        (let c1 = count True c;
             sig = cr_sign cr (cl_key c1) (signed key body);
             ob = \<lparr>o_Body = body, o_Meta = [(sigMeta, b64_encode sig)], o_ETag = ''''\<rparr>;
             (s', r) = s_Put st (cl_store c1) key ob cd in
         (c1\<lparr>cl_store := s'\<rparr>, r)))"

definition Caller_Put where
  "Caller_Put st cr name wait key body c = Caller_put st cr name wait key body no_cond c"

definition Caller_Create where
  "Caller_Create st cr name wait key body c =
    (let (c', r) = Caller_put st cr name wait key body \<lparr>IfNoneMatch = True, IfMatch = ''''\<rparr> c in
     (c', case r of
            Inl e \<Rightarrow> if err_is e ErrPrecondition then Inl (Wrap (key @ '': '') ErrExists '''') else Inl e
          | Inr t \<Rightarrow> Inr t))"

definition Caller_Swap where
  "Caller_Swap st cr name wait key body etag c =
    (let (c', r) = Caller_put st cr name wait key body \<lparr>IfNoneMatch = False, IfMatch = etag\<rparr> c in
     (c', case r of
            Inl e \<Rightarrow> if err_is e ErrPrecondition then Inl (Wrap (key @ '': '') ErrConflict '''') else Inl e
          | Inr t \<Rightarrow> Inr t))"

subsection \<open>What a signature covers\<close>

text \<open>No key the program writes has a NUL byte; this is what makes the signed message unambiguous.\<close>

abbreviation nul_free :: "string \<Rightarrow> bool" where "nul_free k \<equiv> CHR 0x00 \<notin> set k"

lemma nul_split:
  "CHR 0x00 \<notin> set a \<Longrightarrow> CHR 0x00 \<notin> set b \<Longrightarrow>
   a @ CHR 0x00 # x = b @ CHR 0x00 # y \<longleftrightarrow> a = b \<and> x = y"
proof (induction a arbitrary: b)
  case Nil then show ?case by (cases b) auto
next
  case (Cons c a) then show ?case by (cases b) auto
qed

lemma signed_inj:
  "nul_free k \<Longrightarrow> nul_free k' \<Longrightarrow> signed k b = signed k' b' \<longleftrightarrow> k = k' \<and> b = b'"
  by (simp add: signed_def nul_split)

lemma any_verifies_iff: "any_verifies cr ps m sg \<longleftrightarrow> (\<exists>p \<in> set ps. cr_verify cr p m sg)"
  by (induction ps) auto

text \<open>
  What is used of Ed25519: signatures are 64 bytes and verify, and (unforgeability, idealised) a
  trusted key verifies a message only if one of the holders of the trusted keys signed it, \<open>log\<close>
  being everything they have signed.
\<close>

definition crypto_signs :: "crypto \<Rightarrow> bool" where
  "crypto_signs cr =
    (\<forall>k m. length (cr_sign cr k m) = SignatureSize \<and> cr_verify cr (cr_public cr k) m (cr_sign cr k m))"

definition unforgeable :: "crypto \<Rightarrow> string list \<Rightarrow> (string \<times> string) set \<Rightarrow> bool" where
  "unforgeable cr trusted log =
    (\<forall>p m sg. p \<in> set trusted \<longrightarrow> cr_verify cr p m sg \<longrightarrow> (\<exists>(k, b) \<in> log. m = signed k b))"

lemma verify_signed_by:
  "verify cr trusted key ob \<Longrightarrow> \<exists>p \<in> set trusted. \<exists>sg. cr_verify cr p (signed key (o_Body ob)) sg"
  by (auto simp: verify_def any_verifies_iff split: option.splits if_splits)

lemma verify_own:
  assumes "crypto_signs cr" "cr_public cr k \<in> set trusted"
  shows "verify cr trusted key
    \<lparr>o_Body = body, o_Meta = [(sigMeta, b64_encode (cr_sign cr k (signed key body)))], o_ETag = t\<rparr>"
  using assms by (auto simp: verify_def meta_get_def crypto_signs_def any_verifies_iff)

subsection \<open>The operations over any store that keeps its contract\<close>

text \<open>The object a client stores for a body, once the store gave it the tag \<open>t\<close>.\<close>

definition sealed :: "crypto \<Rightarrow> string \<Rightarrow> string \<Rightarrow> string \<Rightarrow> string \<Rightarrow> object" where
  "sealed cr k key body t =
    \<lparr>o_Body = body, o_Meta = [(sigMeta, b64_encode (cr_sign cr k (signed key body)))], o_ETag = t\<rparr>"

lemma sealed_simps [simp]:
  "o_Body (sealed cr k key body t) = body" "o_ETag (sealed cr k key body t) = t"
  "(sealed cr k key body t)\<lparr>o_ETag := t'\<rparr> = sealed cr k key body t'"
  by (simp_all add: sealed_def)

definition same_identity :: "'s client \<Rightarrow> 's client \<Rightarrow> bool" where
  "same_identity c c' = (cl_key c' = cl_key c \<and> cl_trusted c' = cl_trusted c \<and> cl_callers c' = cl_callers c)"

lemma count_frame [simp]:
  "cl_store (count a c) = cl_store c" "cl_trusted (count a c) = cl_trusted c"
  "cl_key (count a c) = cl_key c" "cl_callers (count a c) = cl_callers c"
  by (simp_all add: count_def)

lemma Caller_put_waits [simp]:
  "Caller_put st cr name (Some e) key body cd c = (c, Inl (Wrap (''bucket '' @ name @ '': '') e ''''))"
  by (simp add: Caller_put_def)

lemma Caller_put_eq:
  "Caller_put st cr name None key body cd c =
    (let (s', r) = s_Put st (cl_store c) key (sealed cr (cl_key c) key body '''') cd in
     ((count True c)\<lparr>cl_store := s'\<rparr>, r))"
  by (simp add: Caller_put_def sealed_def count_def Let_def split: prod.splits)

lemma Caller_Get_eq:
  "Caller_Get st cr name None key c =
    (let (s', r) = s_Get st (cl_store c) key; c2 = (count False c)\<lparr>cl_store := s'\<rparr> in
     case r of Inl e \<Rightarrow> (c2, Inl e)
     | Inr ob \<Rightarrow> if verify cr (cl_trusted c) key ob then (c2, Inr ob)
                 else (c2, Inl (Wrap (key @ '': '') ErrBadSignature '''')))"
  by (simp add: Caller_Get_def count_def Let_def split: prod.splits sum.splits)

context object_store
begin

abbreviation objs :: "'s client \<Rightarrow> string \<Rightarrow> object option" where "objs c \<equiv> view (cl_store c)"

lemma put_cases:
  assumes "Caller_put st cr name w key body cd c = (c', r)"
  shows "same_identity c c'"
    and "r = Inr t \<Longrightarrow> cond_holds cd (objs c key) \<and> objs c' = (objs c)(key \<mapsto> sealed cr (cl_key c) key body t)"
    and "r = Inl e \<Longrightarrow> w = None \<Longrightarrow> err_is e ErrPrecondition \<Longrightarrow> objs c' = objs c"
    and "objs c' = objs c \<or>
      (cond_holds cd (objs c key) \<and> (\<exists>t. objs c' = (objs c)(key \<mapsto> sealed cr (cl_key c) key body t)))"
    and "w \<noteq> None \<Longrightarrow> c' = c"
proof -
  show "same_identity c c'" "w \<noteq> None \<Longrightarrow> c' = c"
    using assms by (cases w; auto simp: Caller_put_eq Let_def same_identity_def count_def split: prod.splits)+
  show "r = Inr t \<Longrightarrow> cond_holds cd (objs c key) \<and> objs c' = (objs c)(key \<mapsto> sealed cr (cl_key c) key body t)"
    using assms by (cases w) (auto simp: Caller_put_eq Let_def split: prod.splits dest: Put_done)
  show "r = Inl e \<Longrightarrow> w = None \<Longrightarrow> err_is e ErrPrecondition \<Longrightarrow> objs c' = objs c"
    using assms by (auto simp: Caller_put_eq Let_def split: prod.splits dest: Put_refused)
  show "objs c' = objs c \<or>
      (cond_holds cd (objs c key) \<and> (\<exists>t. objs c' = (objs c)(key \<mapsto> sealed cr (cl_key c) key body t)))"
  proof (cases w)
    case None
    obtain s1 r1 where p: "s_Put st (cl_store c) key (sealed cr (cl_key c) key body '''') cd = (s1, r1)"
      by (metis prod.exhaust)
    then have "objs c' = view s1" using assms None by (auto simp: Caller_put_eq Let_def)
    then show ?thesis using Put_result[OF p] by simp
  next
    case (Some e) then show ?thesis using assms by simp
  qed
qed

lemma get_cases:
  assumes "Caller_Get st cr name w key c = (c', r)"
  shows "same_identity c c'" and "objs c' = objs c"
    and "r = Inr ob \<Longrightarrow> objs c key = Some ob \<and> verify cr (cl_trusted c) key ob"
    and "r = Inl e \<Longrightarrow> w = None \<Longrightarrow> err_is e ErrNotFound \<Longrightarrow> objs c key = None"
proof -
  have "same_identity c c' \<and> objs c' = objs c"
  proof (cases w)
    case None
    obtain s1 r1 where p: "s_Get st (cl_store c) key = (s1, r1)" by (metis prod.exhaust)
    then have "c' = (count False c)\<lparr>cl_store := s1\<rparr>"
      using assms None by (auto simp: Caller_Get_eq Let_def split: sum.splits if_splits)
    then show ?thesis using Get_pure[OF p] by (simp add: same_identity_def count_def)
  next
    case (Some e) then show ?thesis using assms by (simp add: Caller_Get_def same_identity_def)
  qed
  then show "same_identity c c'" "objs c' = objs c" by simp_all
  show "r = Inr ob \<Longrightarrow> objs c key = Some ob \<and> verify cr (cl_trusted c) key ob"
    using assms by (cases w) (auto simp: Caller_Get_eq Let_def Caller_Get_def
      split: prod.splits sum.splits if_splits dest: Get_found)
  show "r = Inl e \<Longrightarrow> w = None \<Longrightarrow> err_is e ErrNotFound \<Longrightarrow> objs c key = None"
    using assms by (auto simp: Caller_Get_eq Let_def bucket_errors
      split: prod.splits sum.splits if_splits dest: Get_missing[unfolded bucket_errors])
qed

end

subsection \<open>keys.go\<close>

text \<open>
  Files are a map from paths to contents. What the operating system answers to each call is a
  parameter: \<open>faults\<close> holds the error of each call that fails on its own account, beside the
  one \<open>O_EXCL\<close> gives on a path that is taken.
\<close>

type_synonym files = "(string \<times> string) list"

record faults =
  fl_open :: "goerr option"
  fl_write :: "goerr option"
  fl_close :: "goerr option"

definition ErrExist :: goerr where "ErrExist = Sentinel ''file already exists''"
definition ErrNotExist :: goerr where "ErrNotExist = Sentinel ''file does not exist''"

text \<open>The common part of \<open>GenerateKey\<close> and \<open>secrets.GenerateMaster\<close>: one line to a new file.\<close>

definition write_new :: "faults \<Rightarrow> string \<Rightarrow> string \<Rightarrow> string \<Rightarrow> files \<Rightarrow> files \<times> string res" where
  "write_new fl path line shown fs =
    (case fl_open fl of
       Some e \<Rightarrow> (fs, Inl e)
     | None \<Rightarrow>
        if map_of fs path \<noteq> None then (fs, Inl (Wrap (''open '' @ path @ '': '') ErrExist ''''))
        else case fl_write fl of
          Some e \<Rightarrow> (AList.update path '''' fs, Inl e)
        | None \<Rightarrow> (AList.update path (line @ [CHR 0x0A]) fs,
                   case fl_close fl of Some e \<Rightarrow> Inl e | None \<Rightarrow> Inr shown))"

definition GenerateKey :: "crypto \<Rightarrow> string res \<Rightarrow> faults \<Rightarrow> string \<Rightarrow> files \<Rightarrow> files \<times> string res" where
  "GenerateKey cr random fl path fs =
    (case random of
       Inl e \<Rightarrow> (fs, Inl e)
     | Inr seed \<Rightarrow> write_new fl path (b64_encode seed) (b64_encode (cr_public cr seed)) fs)"

definition read_file :: "goerr option \<Rightarrow> string \<Rightarrow> files \<Rightarrow> string res" where
  "read_file fault path fs =
    (case fault of Some e \<Rightarrow> Inl e
     | None \<Rightarrow> (case map_of fs path of
         None \<Rightarrow> Inl (Wrap (''open '' @ path @ '': '') ErrNotExist '''')
       | Some s \<Rightarrow> Inr s))"

definition LoadKey :: "goerr option \<Rightarrow> string \<Rightarrow> files \<Rightarrow> string res" where
  "LoadKey fault path fs =
    (case read_file fault path fs of
       Inl e \<Rightarrow> Inl e
     | Inr raw \<Rightarrow> (case b64_decode (trim_space raw) of
         None \<Rightarrow> Inl (Opaque (path @ '': not a signing key''))
       | Some seed \<Rightarrow> if length seed \<noteq> SeedSize then Inl (Opaque (path @ '': not a signing key''))
                     else Inr seed))"

text \<open>
  The lines \<open>bufio.Scanner\<close> delivers: a last empty one is none, a carriage return at the end
  is dropped, and a line that does not fit its 64 KiB buffer ends the scan with \<open>ErrTooLong\<close>.
\<close>

definition ErrTooLong :: goerr where "ErrTooLong = Sentinel ''bufio.Scanner: token too long''"

abbreviation MaxScanTokenSize :: nat where "MaxScanTokenSize \<equiv> 65536"

definition raw_lines :: "string \<Rightarrow> string list" where
  "raw_lines s = (let ls = split_on (CHR 0x0A) s in if last ls = [] then butlast ls else ls)"

definition drop_cr :: "string \<Rightarrow> string" where
  "drop_cr l = (if l \<noteq> [] \<and> last l = CHR 0x0D then butlast l else l)"

fun load_trusted :: "string \<Rightarrow> int \<Rightarrow> string list \<Rightarrow> string list \<Rightarrow> string list res" where
  "load_trusted path n keys [] = Inr keys"
| "load_trusted path n keys (raw # rest) =
    (if length raw \<ge> MaxScanTokenSize then Inl ErrTooLong
     else let line = trim_space (drop_cr raw) in
       if line = '''' \<or> has_prefix line ''#'' then load_trusted path (n + 1) keys rest
       else case b64_decode line of
         None \<Rightarrow> Inl (Opaque (path @ '':'' @ itoa n @ '': not a public key''))
       | Some pub \<Rightarrow>
           if length pub \<noteq> PublicKeySize
           then Inl (Opaque (path @ '':'' @ itoa n @ '': not a public key''))
           else load_trusted path (n + 1) (keys @ [pub]) rest)"

definition LoadTrusted :: "goerr option \<Rightarrow> string \<Rightarrow> files \<Rightarrow> string list res" where
  "LoadTrusted fault path fs =
    (case read_file fault path fs of
       Inl e \<Rightarrow> Inl e
     | Inr s \<Rightarrow> load_trusted path 1 [] (raw_lines s))"

text \<open>A base64 line is not white space, not a comment, and survives trimming.\<close>

lemma b64_encode_printable:
  assumes "s \<noteq> []"
  shows "b64_encode s \<noteq> []" "printable (hd (b64_encode s))" "printable (last (b64_encode s))"
    "hd (b64_encode s) \<noteq> CHR ''#''" "CHR 0x0A \<notin> set (b64_encode s)"
proof -
  have p: "n < 64 \<Longrightarrow> printable (b64_char n) \<and> b64_char n \<noteq> CHR ''#''" for n
    by (erule upt_cases) (simp add: upt_conv_Cons b64_char_def printable_def)
  have all: "c \<in> set (b64_encode s) \<Longrightarrow> printable c \<and> c \<noteq> CHR ''#''" for c
    using b64_encode_chars[of c s] p by (auto simp: printable_def)
  show ne: "b64_encode s \<noteq> []" using assms by (cases s rule: b64_encode.cases) (auto simp: Let_def)
  show "printable (hd (b64_encode s))" "printable (last (b64_encode s))" "hd (b64_encode s) \<noteq> CHR ''#''"
    using all ne by auto
  show "CHR 0x0A \<notin> set (b64_encode s)" using b64_encode_plain by blast
qed

lemma trim_b64 [simp]: "s \<noteq> [] \<Longrightarrow> trim_space (b64_encode s) = b64_encode s"
  by (intro trim_space_printable b64_encode_printable)

end
