(* ===== verification/BucketMail.thy ===== *)
theory BucketMail
  imports BucketClient
begin

section \<open>Mail and secrets in the bucket: bucket/mail/mail.go and bucket/secrets/secrets.go\<close>

text \<open>
  Mail is one create-only object per message at \<open><box><seq>\<close>. Both loops may run as long as the
  bucket keeps answering, so they are rounds of \<open>loop\<close>; over a store that answers exactly and holds
  finitely many objects they are shown to return. JSON is the pair of functions \<open>marshal\<close> and
  \<open>unmarshal\<close>, and age encryption a record of functions, parameters both.
\<close>

subsection \<open>mail.go\<close>

definition ToHost :: string where "ToHost = ''mail/to-host/''"
definition ToLaptop :: string where "ToLaptop = ''mail/to-laptop/''"

record message =
  m_Room :: string
  m_Author :: string
  m_Text :: string
  m_Time :: gotime

definition box_key :: "string \<Rightarrow> int \<Rightarrow> string" where "box_key b seq = b @ itoa seq"

lemma box_key_inj [simp]: "box_key b i = box_key b j \<longleftrightarrow> i = j"
  by (simp add: box_key_def)

text \<open>\<open>wait seq\<close> is what the limiter answers to the attempt on number \<open>seq\<close>.\<close>

definition send_step ::
  "'s store_ops \<Rightarrow> crypto \<Rightarrow> string \<Rightarrow> (int \<Rightarrow> goerr option) \<Rightarrow> string \<Rightarrow> string \<Rightarrow>
   int \<times> 's client \<Rightarrow> (int \<times> 's client) + ('s client \<times> int \<times> goerr option)" where
  "send_step st cr name wait box body = (\<lambda>(seq, c).
    (case Caller_Create st cr name (wait seq) (box_key box seq) body c of
       (c', Inr t) \<Rightarrow> Inr (c', seq, None)
     | (c', Inl e) \<Rightarrow> if err_is e ErrExists then Inl (seq + 1, c') else Inr (c', seq, Some e)))"

definition Send ::
  "'s store_ops \<Rightarrow> crypto \<Rightarrow> (message \<Rightarrow> string res) \<Rightarrow> gotime \<Rightarrow> string \<Rightarrow> (int \<Rightarrow> goerr option) \<Rightarrow>
   string \<Rightarrow> int \<Rightarrow> message \<Rightarrow> 's client \<Rightarrow> ('s client \<times> int \<times> goerr option) option" where
  "Send st cr marshal now name wait box next m c =
    (let m' = (if m_Time m = zero_time then m\<lparr>m_Time := now\<rparr> else m) in
     case marshal m' of
       Inl e \<Rightarrow> Some (c, 0, Some e)
     | Inr body \<Rightarrow> loop (send_step st cr name wait box body) (next, c))"

text \<open>The callback acts on a state \<open>'x\<close> of its own and may fail.\<close>

definition receive_step ::
  "'s store_ops \<Rightarrow> crypto \<Rightarrow> (string \<Rightarrow> message option) \<Rightarrow> string \<Rightarrow> (int \<Rightarrow> goerr option) \<Rightarrow> string \<Rightarrow>
   (int \<Rightarrow> message \<Rightarrow> 'x \<Rightarrow> 'x \<times> goerr option) \<Rightarrow>
   int \<times> 's client \<times> 'x \<Rightarrow> (int \<times> 's client \<times> 'x) + ('s client \<times> 'x \<times> int \<times> goerr option)" where
  "receive_step st cr unmarshal name wait box f = (\<lambda>(next, c, x).
    (case Caller_Get st cr name (wait next) (box_key box next) c of
       (c', Inl e) \<Rightarrow>
         if err_is e ErrNotFound then Inr (c', x, next, None)
         else if err_is e ErrBadSignature then Inl (next + 1, c', x)
         else Inr (c', x, next, Some e)
     | (c', Inr ob) \<Rightarrow>
         (case unmarshal (o_Body ob) of
            None \<Rightarrow> Inl (next + 1, c', x)
          | Some m \<Rightarrow>
              if m_Room m = '''' \<or> m_Text m = '''' then Inl (next + 1, c', x)
              else case f next m x of
                (x', Some e) \<Rightarrow> Inr (c', x', next, Some e)
              | (x', None) \<Rightarrow> Inl (next + 1, c', x'))))"

definition Receive ::
  "'s store_ops \<Rightarrow> crypto \<Rightarrow> (string \<Rightarrow> message option) \<Rightarrow> string \<Rightarrow> (int \<Rightarrow> goerr option) \<Rightarrow> string \<Rightarrow>
   int \<Rightarrow> (int \<Rightarrow> message \<Rightarrow> 'x \<Rightarrow> 'x \<times> goerr option) \<Rightarrow> 's client \<Rightarrow> 'x \<Rightarrow>
   ('s client \<times> 'x \<times> int \<times> goerr option) option" where
  "Receive st cr unmarshal name wait box next f c x =
    loop (receive_step st cr unmarshal name wait box f) (next, c, x)"

subsection \<open>Sending over a store that answers exactly\<close>

lemma itoa_chars: "c \<in> set (itoa n) \<Longrightarrow> c = CHR ''-'' \<or> is_digit c"
  using nat_digits_digits[of "nat n"] nat_digits_digits[of "nat (- n)"]
  by (auto simp: itoa_def list_all_iff split: if_splits)

lemma nul_free_itoa [simp]: "nul_free (itoa n)"
  using itoa_chars[of "CHR 0x00" n] by (auto simp: is_digit_def)

lemma nul_free_box_key [simp]: "nul_free (box_key b n) \<longleftrightarrow> nul_free b"
  by (simp add: box_key_def)

context exact_store
begin

lemma Create_free:
  assumes "objs c key = None"
  obtains c' t where "Caller_Create st cr name None key body c = (c', Inr t)"
    "objs c' = (objs c)(key \<mapsto> sealed cr (cl_key c) key body t)" "same_identity c c'"
proof -
  obtain s' t where p: "s_Put st (cl_store c) key (sealed cr (cl_key c) key body '''')
      \<lparr>IfNoneMatch = True, IfMatch = ''''\<rparr> = (s', Inr t)"
    using Put_exact[of "\<lparr>IfNoneMatch = True, IfMatch = ''''\<rparr>" "cl_store c" key
      "sealed cr (cl_key c) key body ''''"] assms by auto
  let ?c = "(count True c)\<lparr>cl_store := s'\<rparr>"
  have put: "Caller_put st cr name None key body \<lparr>IfNoneMatch = True, IfMatch = ''''\<rparr> c = (?c, Inr t)"
    using p by (simp add: Caller_put_eq)
  then have "Caller_Create st cr name None key body c = (?c, Inr t)" by (simp add: Caller_Create_def)
  then show thesis using put_cases(1,2)[OF put] that by simp
qed

lemma Create_taken:
  assumes "objs c key = Some ob"
  obtains c' e where "Caller_Create st cr name None key body c = (c', Inl e)" "err_is e ErrExists"
    "objs c' = objs c" "same_identity c c'"
proof -
  obtain s' e where p: "s_Put st (cl_store c) key (sealed cr (cl_key c) key body '''')
      \<lparr>IfNoneMatch = True, IfMatch = ''''\<rparr> = (s', Inl e)" "err_is e ErrPrecondition"
    using Put_denied[of "\<lparr>IfNoneMatch = True, IfMatch = ''''\<rparr>" "cl_store c" key
      "sealed cr (cl_key c) key body ''''"] assms by auto
  let ?c = "(count True c)\<lparr>cl_store := s'\<rparr>"
  have put: "Caller_put st cr name None key body \<lparr>IfNoneMatch = True, IfMatch = ''''\<rparr> c = (?c, Inl e)"
    using p by (simp add: Caller_put_eq)
  then have "Caller_Create st cr name None key body c = (?c, Inl (Wrap (key @ '': '') ErrExists ''''))"
    using p by (simp add: Caller_Create_def)
  then show thesis using put_cases(1,3)[OF put] p that by simp
qed

text \<open>A send takes the first free number at or after the one it is given.\<close>

lemma send_loop_free:
  assumes "\<And>n. wait n = None"
  shows "\<forall>i < d. objs c (box_key box (next + int i)) \<noteq> None \<Longrightarrow>
    objs c (box_key box (next + int d)) = None \<Longrightarrow>
    \<exists>c' t. loop (send_step st cr name wait box body) (next, c) = Some (c', next + int d, None) \<and>
      same_identity c c' \<and>
      objs c' = (objs c)(box_key box (next + int d) \<mapsto>
        sealed cr (cl_key c) (box_key box (next + int d)) body t)"
proof (induction d arbitrary: "next" c)
  case 0
  then have "objs c (box_key box next) = None" by simp
  then obtain c' t where c': "Caller_Create st cr name None (box_key box next) body c = (c', Inr t)"
    "objs c' = (objs c)(box_key box next \<mapsto> sealed cr (cl_key c) (box_key box next) body t)"
    "same_identity c c'"
    by (rule Create_free)
  then have "send_step st cr name wait box body (next, c) = Inr (c', next, None)"
    by (simp add: send_step_def assms)
  then have "loop (send_step st cr name wait box body) (next, c) = Some (c', next, None)" by simp
  then show ?case using c' by (metis add.right_neutral of_nat_0)
next
  case (Suc d)
  have "objs c (box_key box (next + int 0)) \<noteq> None" using Suc.prems(1) by blast
  then obtain ob where "objs c (box_key box next) = Some ob" by auto
  then obtain c1 e where c1: "Caller_Create st cr name None (box_key box next) body c = (c1, Inl e)"
    "err_is e ErrExists" "objs c1 = objs c" "same_identity c c1"
    by (rule Create_taken)
  have "\<forall>i < d. objs c1 (box_key box (next + 1 + int i)) \<noteq> None"
  proof (intro allI impI)
    fix i assume "i < d"
    then have "objs c (box_key box (next + int (Suc i))) \<noteq> None" using Suc.prems(1) by blast
    then show "objs c1 (box_key box (next + 1 + int i)) \<noteq> None" using c1(3) by (simp add: algebra_simps)
  qed
  moreover have "objs c1 (box_key box (next + 1 + int d)) = None"
    using Suc.prems(2) c1(3) by (simp add: algebra_simps)
  ultimately obtain c' t where
    "loop (send_step st cr name wait box body) (next + 1, c1) = Some (c', next + 1 + int d, None)"
    "same_identity c1 c'"
    "objs c' = (objs c1)(box_key box (next + 1 + int d) \<mapsto>
       sealed cr (cl_key c1) (box_key box (next + 1 + int d)) body t)"
    using Suc.IH by blast
  moreover have "loop (send_step st cr name wait box body) (next, c) =
      loop (send_step st cr name wait box body) (next + 1, c1)"
    using c1 by (intro loop_next) (simp add: send_step_def assms)
  moreover have "next + 1 + int d = next + int (Suc d)" by simp
  moreover have "cl_key c1 = cl_key c" "same_identity c c1" using c1 by (simp_all add: same_identity_def)
  ultimately show ?case using c1(3) unfolding same_identity_def by metis
qed

end

subsection \<open>Receiving over a store that answers exactly\<close>

text \<open>The message an object carries for this reader, if it is one it accepts.\<close>

definition mail_of :: "crypto \<Rightarrow> string list \<Rightarrow> (string \<Rightarrow> message option) \<Rightarrow> string \<Rightarrow> object \<Rightarrow> message option" where
  "mail_of cr trusted unmarshal key ob =
    (if verify cr trusted key ob then
       (case unmarshal (o_Body ob) of
          None \<Rightarrow> None
        | Some m \<Rightarrow> if m_Room m = '''' \<or> m_Text m = '''' then None else Some m)
     else None)"

text \<open>What receiving a run of numbered objects amounts to: bad ones are passed over, a failing
  callback stops it at its own number.\<close>

fun deliver :: "(int \<Rightarrow> message \<Rightarrow> 'x \<Rightarrow> 'x \<times> goerr option) \<Rightarrow> message option list \<Rightarrow> int \<Rightarrow> 'x \<Rightarrow>
    'x \<times> int \<times> goerr option" where
  "deliver f [] n x = (x, n, None)"
| "deliver f (None # ms) n x = deliver f ms (n + 1) x"
| "deliver f (Some m # ms) n x =
    (case f n m x of (x', Some e) \<Rightarrow> (x', n, Some e) | (x', None) \<Rightarrow> deliver f ms (n + 1) x')"

context exact_store
begin

lemma Get_there:
  assumes "objs c key = Some ob"
  obtains c' where "objs c' = objs c" "same_identity c c'"
    "Caller_Get st cr name None key c =
      (c', if verify cr (cl_trusted c) key ob then Inr ob else Inl (Wrap (key @ '': '') ErrBadSignature ''''))"
proof -
  obtain s' where g: "s_Get st (cl_store c) key = (s', Inr ob)" using Get_exact assms by blast
  let ?c = "(count False c)\<lparr>cl_store := s'\<rparr>"
  have "Caller_Get st cr name None key c =
      (?c, if verify cr (cl_trusted c) key ob then Inr ob else Inl (Wrap (key @ '': '') ErrBadSignature ''''))"
    using g by (simp add: Caller_Get_eq)
  moreover from get_cases(1,2)[OF this] have "objs ?c = objs c" "same_identity c ?c" by simp_all
  ultimately show thesis using that by blast
qed

lemma Put_Get:
  assumes "crypto_signs cr" "cr_public cr (cl_key c) \<in> set (cl_trusted c)"
  obtains c' t c'' where "Caller_Put st cr name None key body c = (c', Inr t)"
    "objs c' = (objs c)(key \<mapsto> sealed cr (cl_key c) key body t)"
    "Caller_Get st cr name' None key c' = (c'', Inr (sealed cr (cl_key c) key body t))"
proof -
  obtain s' t where p: "s_Put st (cl_store c) key (sealed cr (cl_key c) key body '''') no_cond = (s', Inr t)"
    using Put_exact[of no_cond "cl_store c" key "sealed cr (cl_key c) key body ''''"] by auto
  let ?c = "(count True c)\<lparr>cl_store := s'\<rparr>"
  have put: "Caller_put st cr name None key body no_cond c = (?c, Inr t)"
    using p by (simp add: Caller_put_eq)
  note new = put_cases(1)[OF put] put_cases(2)[OF put refl]
  then have "objs ?c key = Some (sealed cr (cl_key c) key body t)" by simp
  then obtain c'' where "Caller_Get st cr name' None key ?c =
      (c'', if verify cr (cl_trusted ?c) key (sealed cr (cl_key c) key body t)
            then Inr (sealed cr (cl_key c) key body t) else Inl (Wrap (key @ '': '') ErrBadSignature ''''))"
    by (rule Get_there)
  then have "Caller_Get st cr name' None key ?c = (c'', Inr (sealed cr (cl_key c) key body t))"
    using verify_own[OF assms, of key body t] by (simp add: sealed_def)
  then show thesis using that put new by (simp add: Caller_Put_def)
qed

lemma Get_gone:
  assumes "objs c key = None"
  obtains c' e where "objs c' = objs c" "same_identity c c'" "err_is e ErrNotFound"
    "Caller_Get st cr name None key c = (c', Inl e)"
proof -
  obtain s' e where g: "s_Get st (cl_store c) key = (s', Inl e)" "err_is e ErrNotFound"
    using Get_absent assms by blast
  let ?c = "(count False c)\<lparr>cl_store := s'\<rparr>"
  have "Caller_Get st cr name None key c = (?c, Inl e)" using g by (simp add: Caller_Get_eq)
  moreover from get_cases(1,2)[OF this] have "objs ?c = objs c" "same_identity c ?c" by simp_all
  ultimately show thesis using that g(2) by blast
qed

lemma receive_one:
  assumes "\<And>n. wait n = None" "objs c (box_key box n) = Some ob"
  obtains c' where "objs c' = objs c" "same_identity c c'"
    "receive_step st cr unmarshal name wait box f (n, c, x) =
      (case mail_of cr (cl_trusted c) unmarshal (box_key box n) ob of
         None \<Rightarrow> Inl (n + 1, c', x)
       | Some m \<Rightarrow> (case f n m x of (x', Some e) \<Rightarrow> Inr (c', x', n, Some e)
                               | (x', None) \<Rightarrow> Inl (n + 1, c', x')))"
  using assms(2)
proof (rule Get_there[where cr = cr and name = name])
  fix c' assume "objs c' = objs c" "same_identity c c'"
    "Caller_Get st cr name None (box_key box n) c =
      (c', if verify cr (cl_trusted c) (box_key box n) ob then Inr ob
           else Inl (Wrap (box_key box n @ '': '') ErrBadSignature ''''))"
  then show thesis using assms(1)
    by (intro that[of c'])
       (auto simp: receive_step_def mail_of_def bucket_errors split: option.splits)
qed

lemma receive_run:
  assumes "\<And>n. wait n = None"
  shows "\<forall>i < length obs. objs c (box_key box (n + int i)) = Some (obs ! i) \<Longrightarrow>
    objs c (box_key box (n + int (length obs))) = None \<Longrightarrow>
    \<exists>c'. loop (receive_step st cr unmarshal name wait box f) (n, c, x) =
      Some (c', deliver f (map (\<lambda>i. mail_of cr (cl_trusted c) unmarshal (box_key box (n + int i)) (obs ! i))
                             [0..<length obs]) n x) \<and> objs c' = objs c \<and> same_identity c c'"
proof (induction obs arbitrary: n c x)
  case Nil
  then have "objs c (box_key box n) = None" by simp
  then obtain c' e where c': "objs c' = objs c" "same_identity c c'"
    "Caller_Get st cr name None (box_key box n) c = (c', Inl e)" "err_is e ErrNotFound"
    by (rule Get_gone)
  then have "receive_step st cr unmarshal name wait box f (n, c, x) = Inr (c', x, n, None)"
    by (simp add: receive_step_def assms)
  then show ?case using c' by simp
next
  case (Cons ob obs)
  have "objs c (box_key box (n + int 0)) = Some ((ob # obs) ! 0)" using Cons.prems(1) by blast
  then have "objs c (box_key box n) = Some ob" by simp
  with assms obtain c' where c': "objs c' = objs c" "same_identity c c'"
    "receive_step st cr unmarshal name wait box f (n, c, x) =
      (case mail_of cr (cl_trusted c) unmarshal (box_key box n) ob of
         None \<Rightarrow> Inl (n + 1, c', x)
       | Some m \<Rightarrow> (case f n m x of (x', Some e) \<Rightarrow> Inr (c', x', n, Some e)
                               | (x', None) \<Rightarrow> Inl (n + 1, c', x')))"
    by (rule receive_one)
  have rest: "\<forall>i < length obs. objs c' (box_key box (n + 1 + int i)) = Some (obs ! i)"
  proof (intro allI impI)
    fix i assume "i < length obs"
    then have "objs c (box_key box (n + int (Suc i))) = Some ((ob # obs) ! Suc i)"
      using Cons.prems(1) by (metis Suc_less_eq length_Cons)
    then show "objs c' (box_key box (n + 1 + int i)) = Some (obs ! i)"
      using c'(1) by (simp add: algebra_simps)
  qed
  have fin: "objs c' (box_key box (n + 1 + int (length obs))) = None"
    using Cons.prems(2) c'(1) by (simp add: algebra_simps)
  have tl: "map (\<lambda>i. mail_of cr (cl_trusted c) unmarshal (box_key box (n + int i)) ((ob # obs) ! i))
      [0..<length (ob # obs)] =
    mail_of cr (cl_trusted c) unmarshal (box_key box n) ob #
    map (\<lambda>i. mail_of cr (cl_trusted c') unmarshal (box_key box (n + 1 + int i)) (obs ! i)) [0..<length obs]"
    using c'(2) by (simp add: same_identity_def map_upt_Suc algebra_simps del: upt_Suc)
  have go: "\<exists>c''. loop (receive_step st cr unmarshal name wait box f) (n + 1, c', x') =
      Some (c'', deliver f (map (\<lambda>i. mail_of cr (cl_trusted c') unmarshal (box_key box (n + 1 + int i)) (obs ! i))
                              [0..<length obs]) (n + 1) x') \<and> objs c'' = objs c \<and> same_identity c c''" for x'
  proof -
    from Cons.IH[OF rest fin, of x'] obtain c'' where 1:
      "loop (receive_step st cr unmarshal name wait box f) (n + 1, c', x') =
        Some (c'', deliver f (map (\<lambda>i. mail_of cr (cl_trusted c') unmarshal (box_key box (n + 1 + int i)) (obs ! i))
                                [0..<length obs]) (n + 1) x')"
      "objs c'' = objs c'" "same_identity c' c''" by blast
    then have "objs c'' = objs c" "same_identity c c''" using c'(1,2) by (simp_all add: same_identity_def)
    then show ?thesis using 1(1) by blast
  qed
  show ?case
  proof (cases "mail_of cr (cl_trusted c) unmarshal (box_key box n) ob")
    case None
    then show ?thesis unfolding tl using c'(3) go[of x] by (simp add: loop_next)
  next
    case (Some m)
    obtain x' r where f: "f n m x = (x', r)" by (metis prod.exhaust)
    show ?thesis
    proof (cases r)
      case None
      then show ?thesis unfolding tl using c'(3) Some f go[of x'] by (simp add: loop_next)
    next
      case (Some e)
      then show ?thesis unfolding tl using c' \<open>mail_of _ _ _ _ ob = Some m\<close> f by simp
    qed
  qed
qed

end

subsection \<open>A run of sends\<close>

fun send_all ::
  "'s store_ops \<Rightarrow> crypto \<Rightarrow> (message \<Rightarrow> string res) \<Rightarrow> gotime \<Rightarrow> string \<Rightarrow> string \<Rightarrow> int \<Rightarrow>
   message list \<Rightarrow> 's client \<Rightarrow> 's client option" where
  "send_all st cr marshal now name box next [] c = Some c"
| "send_all st cr marshal now name box next (m # ms) c =
    (case Send st cr marshal now name (\<lambda>_. None) box next m c of
       Some (c', n, None) \<Rightarrow> send_all st cr marshal now name box (n + 1) ms c'
     | _ \<Rightarrow> None)"

text \<open>Mail JSON can carry, that a reader keeps.\<close>

definition mailable :: "(message \<Rightarrow> string res) \<Rightarrow> (string \<Rightarrow> message option) \<Rightarrow> message \<Rightarrow> bool" where
  "mailable marshal unmarshal m =
    (m_Room m \<noteq> '''' \<and> m_Text m \<noteq> '''' \<and> m_Time m \<noteq> zero_time \<and>
     (case marshal m of Inl e \<Rightarrow> False | Inr b \<Rightarrow> unmarshal b = Some m))"

context exact_store
begin

lemma send_all_free:
  assumes "crypto_signs cr" "cr_public cr (cl_key c0) \<in> set trusted"
  shows "list_all (mailable marshal unmarshal) ms \<Longrightarrow> (\<forall>n \<ge> next. objs c (box_key box n) = None) \<Longrightarrow>
    cl_key c = cl_key c0 \<Longrightarrow>
    \<exists>c'. send_all st cr marshal now name box next ms c = Some c' \<and>
      (\<exists>obs. length obs = length ms \<and>
        (\<forall>i < length ms. objs c' (box_key box (next + int i)) = Some (obs ! i) \<and>
          mail_of cr trusted unmarshal (box_key box (next + int i)) (obs ! i) = Some (ms ! i))) \<and>
      (\<forall>n \<ge> next + int (length ms). objs c' (box_key box n) = None) \<and>
      (\<forall>n < next. objs c' (box_key box n) = objs c (box_key box n))"
proof (induction ms arbitrary: "next" c)
  case (Cons m ms)
  from Cons.prems(1) obtain b where m: "m_Room m \<noteq> ''''" "m_Text m \<noteq> ''''" "m_Time m \<noteq> zero_time"
    "marshal m = Inr b" "unmarshal b = Some m"
    by (auto simp: mailable_def split: sum.splits)
  let ?k = "box_key box next"
  have "\<forall>i < (0 :: nat). objs c (box_key box (next + int i)) \<noteq> None"
    "objs c (box_key box (next + int 0)) = None" using Cons.prems(2) by auto
  from send_loop_free[OF _ this, where wait = "\<lambda>_. None"] obtain c1 t where
    c1: "loop (send_step st cr name (\<lambda>_. None) box b) (next, c) = Some (c1, next, None)"
      "same_identity c c1" "objs c1 = (objs c)(?k \<mapsto> sealed cr (cl_key c) ?k b t)"
    by (metis add.right_neutral of_nat_0)
  have send: "Send st cr marshal now name (\<lambda>_. None) box next m c = Some (c1, next, None)"
    using m c1(1) by (simp add: Send_def)
  have free: "\<forall>n \<ge> next + 1. objs c1 (box_key box n) = None" using Cons.prems(2) c1(3) by auto
  have key: "cl_key c1 = cl_key c0" using c1(2) Cons.prems(3) by (simp add: same_identity_def)
  obtain c' obs where c': "send_all st cr marshal now name box (next + 1) ms c1 = Some c'"
    "length obs = length ms"
    "\<forall>i < length ms. objs c' (box_key box (next + 1 + int i)) = Some (obs ! i) \<and>
       mail_of cr trusted unmarshal (box_key box (next + 1 + int i)) (obs ! i) = Some (ms ! i)"
    "\<forall>n \<ge> next + 1 + int (length ms). objs c' (box_key box n) = None"
    "\<forall>n < next + 1. objs c' (box_key box n) = objs c1 (box_key box n)"
    using Cons.IH[OF _ free key] Cons.prems(1) by auto
  let ?ob = "sealed cr (cl_key c) ?k b t"
  have good: "mail_of cr trusted unmarshal ?k ?ob = Some m"
    using verify_own[OF assms(1), of "cl_key c0" trusted] assms(2) Cons.prems(3) m
    by (auto simp: mail_of_def sealed_def)
  have "\<forall>i < length (m # ms). objs c' (box_key box (next + int i)) = Some ((?ob # obs) ! i) \<and>
      mail_of cr trusted unmarshal (box_key box (next + int i)) ((?ob # obs) ! i) = Some ((m # ms) ! i)"
  proof (intro allI impI)
    fix i assume i: "i < length (m # ms)"
    show "objs c' (box_key box (next + int i)) = Some ((?ob # obs) ! i) \<and>
      mail_of cr trusted unmarshal (box_key box (next + int i)) ((?ob # obs) ! i) = Some ((m # ms) ! i)"
    proof (cases i)
      case 0 then show ?thesis using c'(5) c1(3) good by simp
    next
      case (Suc j) then show ?thesis using c'(3) i by (simp add: algebra_simps)
    qed
  qed
  moreover have "\<forall>n \<ge> next + int (length (m # ms)). objs c' (box_key box n) = None"
    using c'(4) by (simp add: algebra_simps)
  moreover have "\<forall>n < next. objs c' (box_key box n) = objs c (box_key box n)"
    using c'(5) c1(3) by auto
  moreover have "length (?ob # obs) = length (m # ms)" using c'(2) by simp
  ultimately show ?case using send c'(1) by (auto simp del: length_Cons intro!: exI[of _ "?ob # obs"])
qed auto

end

subsection \<open>secrets.go\<close>

text \<open>
  \<open>validName\<close> is \<open>^[A-Za-z0-9_-]+$\<close>. \<open>quote\<close> is the \<open>%q\<close> verb. A call of age
  that may fail returns a result; \<open>Decrypt\<close> may fail at once or while its output is read.
\<close>

definition name_char :: "char \<Rightarrow> bool" where
  "name_char c = (let n = of_char c :: nat in
     (65 \<le> n \<and> n \<le> 90) \<or> (97 \<le> n \<and> n \<le> 122) \<or> (48 \<le> n \<and> n \<le> 57) \<or> c = CHR ''_'' \<or> c = CHR ''-'')"

definition validName :: "string \<Rightarrow> bool" where
  "validName name = (name \<noteq> '''' \<and> list_all name_char name)"

definition secret_key :: "(string \<Rightarrow> string) \<Rightarrow> string \<Rightarrow> string res" where
  "secret_key quote name =
    (if \<not> validName name then Inl (Opaque (''secrets: '' @ quote name @ '' is not a plain name''))
     else Inr (''secrets/'' @ name @ ''.age''))"

record ('r, 'i) age =
  ParseRecipient :: "string \<Rightarrow> 'r res"
  Encrypt :: "'r \<Rightarrow> string \<Rightarrow> string res"
  ParseIdentities :: "string \<Rightarrow> 'i list res"
  RecipientOf :: "'i \<Rightarrow> string option"
  Decrypt :: "'i list \<Rightarrow> string \<Rightarrow> string res res"

definition GenerateMaster :: "(string \<times> string) res \<Rightarrow> faults \<Rightarrow> string \<Rightarrow> files \<Rightarrow> files \<times> string res" where
  "GenerateMaster random fl path fs =
    (case random of
       Inl e \<Rightarrow> (fs, Inl e)
     | Inr (identity, recipient) \<Rightarrow> write_new fl path identity recipient fs)"

definition secrets_Put ::
  "'s store_ops \<Rightarrow> crypto \<Rightarrow> ('r, 'i) age \<Rightarrow> (string \<Rightarrow> string) \<Rightarrow> string \<Rightarrow> goerr option \<Rightarrow>
   string \<Rightarrow> string \<Rightarrow> string \<Rightarrow> 's client \<Rightarrow> 's client \<times> goerr option" where
  "secrets_Put st cr ag quote caller wait recipient name value c =
    (case secret_key quote name of
       Inl e \<Rightarrow> (c, Some e)
     | Inr k \<Rightarrow>
        (case ParseRecipient ag recipient of
           Inl e \<Rightarrow> (c, Some (Wrap ''secrets: recipient: '' e ''''))
         | Inr r \<Rightarrow>
            (case Encrypt ag r value of
               Inl e \<Rightarrow> (c, Some e)
             | Inr buf \<Rightarrow>
                (case Caller_Put st cr caller wait k buf c of
                   (c', Inl e) \<Rightarrow> (c', Some e)
                 | (c', Inr t) \<Rightarrow> (c', None)))))"

record 'i master =
  ma_ids :: "'i list"
  ma_recipient :: string

definition master_Recipient :: "'i master \<Rightarrow> string" where "master_Recipient m = ma_recipient m"

text \<open>None is the panic of \<open>ids[0]\<close> on no identities, which age reports as an error.\<close>

definition LoadMaster :: "('r, 'i) age \<Rightarrow> goerr option \<Rightarrow> string \<Rightarrow> files \<Rightarrow> 'i master res option" where
  "LoadMaster ag fault path fs =
    (case read_file fault path fs of
       Inl e \<Rightarrow> Some (Inl e)
     | Inr s \<Rightarrow>
        (case ParseIdentities ag s of
           Inl e \<Rightarrow> Some (Inl (Wrap (path @ '': '') e ''''))
         | Inr [] \<Rightarrow> None
         | Inr (i # ids) \<Rightarrow>
            (case RecipientOf ag i of
               None \<Rightarrow> Some (Inl (Opaque (path @ '': not an X25519 identity'')))
             | Some r \<Rightarrow> Some (Inr \<lparr>ma_ids = i # ids, ma_recipient = r\<rparr>))))"

definition master_Get ::
  "'s store_ops \<Rightarrow> crypto \<Rightarrow> ('r, 'i) age \<Rightarrow> (string \<Rightarrow> string) \<Rightarrow> string \<Rightarrow> goerr option \<Rightarrow>
   'i master \<Rightarrow> string \<Rightarrow> 's client \<Rightarrow> 's client \<times> string res" where
  "master_Get st cr ag quote caller wait m name c =
    (case secret_key quote name of
       Inl e \<Rightarrow> (c, Inl e)
     | Inr k \<Rightarrow>
        (case Caller_Get st cr caller wait k c of
           (c', Inl e) \<Rightarrow> (c', Inl e)
         | (c', Inr ob) \<Rightarrow>
            (case Decrypt ag (ma_ids m) (o_Body ob) of
               Inl e \<Rightarrow> (c', Inl (Wrap (''secrets: '' @ name @ '': '') e ''''))
             | Inr r \<Rightarrow> (c', r))))"

text \<open>A plain name stays inside its directory and names one object.\<close>

lemma name_char_plain: "name_char c \<Longrightarrow> c \<noteq> CHR ''/'' \<and> c \<noteq> CHR ''.'' \<and> c \<noteq> CHR 0x00"
  by (auto simp: name_char_def)

lemma secret_key_plain:
  assumes "secret_key quote name = Inr k"
  shows "nul_free k" "\<exists>s. k = ''secrets/'' @ s \<and> CHR ''/'' \<notin> set s"
proof -
  have n: "\<forall>c \<in> set name. c \<noteq> CHR ''/'' \<and> c \<noteq> CHR 0x00" and k: "k = ''secrets/'' @ name @ ''.age''"
    using assms name_char_plain
    by (auto simp: secret_key_def validName_def list_all_iff split: if_splits)
  show "nul_free k" using n by (auto simp: k)
  show "\<exists>s. k = ''secrets/'' @ s \<and> CHR ''/'' \<notin> set s" using n k by (intro exI[of _ "name @ ''.age''"]) auto
qed

lemma secret_key_inj:
  "secret_key quote n = Inr k \<Longrightarrow> secret_key quote n' = Inr k \<Longrightarrow> n = n'"
  by (auto simp: secret_key_def split: if_splits)

end
