(* ===== verification/Bucket.thy ===== *)
theory Bucket
  imports BucketMail
begin

section \<open>What the bucket promises\<close>

text \<open>
  Several clients (a laptop and the host) use one store at the same time; each operation is one
  request to the store, so that any interleaving of theirs is a sequence of operations. The
  properties are about what a reader gets, who wins a conditional write, what is counted, and what
  becomes of keys and mail.
\<close>

subsection \<open>Sequences of operations by several clients\<close>

datatype bucket_op =
    OpGet nat "goerr option" string
  | OpPut nat "goerr option" string string
  | OpCreate nat "goerr option" string string
  | OpSwap nat "goerr option" string string string

type_synonym 's world = "'s \<times> 's client list"

fun op_client :: "bucket_op \<Rightarrow> nat" where
  "op_client (OpGet i w k) = i" | "op_client (OpPut i w k b) = i"
| "op_client (OpCreate i w k b) = i" | "op_client (OpSwap i w k b t) = i"

definition do_op ::
  "'s store_ops \<Rightarrow> crypto \<Rightarrow> string \<Rightarrow> bucket_op \<Rightarrow> 's client \<Rightarrow> 's client \<times> string res" where
  "do_op st cr name op c =
    (case op of
       OpGet i w k \<Rightarrow> (let (c', r) = Caller_Get st cr name w k c in (c', map_sum id o_Body r))
     | OpPut i w k b \<Rightarrow> Caller_Put st cr name w k b c
     | OpCreate i w k b \<Rightarrow> Caller_Create st cr name w k b c
     | OpSwap i w k b t \<Rightarrow> Caller_Swap st cr name w k b t c)"

fun run_ops ::
  "'s store_ops \<Rightarrow> crypto \<Rightarrow> string \<Rightarrow> bucket_op list \<Rightarrow> 's world \<Rightarrow> 's world \<times> string res list" where
  "run_ops st cr name [] w = (w, [])"
| "run_ops st cr name (op # ops) (s, cs) =
    (let i = op_client op;
         (c', r) = do_op st cr name op ((cs ! i)\<lparr>cl_store := s\<rparr>);
         (w', rs) = run_ops st cr name ops (cl_store c', cs[i := c']) in
     (w', r # rs))"

definition all_clients :: "bucket_op list \<Rightarrow> 's client list \<Rightarrow> bool" where
  "all_clients ops cs = list_all (\<lambda>op. op_client op < length cs) ops"

text \<open>The keys an operation may write to, other than by creating them.\<close>

fun overwrites :: "string \<Rightarrow> bucket_op \<Rightarrow> bool" where
  "overwrites k (OpPut i w k' b) = (k = k')"
| "overwrites k (OpSwap i w k' b t) = (k = k')"
| "overwrites k _ = False"

fun creates :: "string \<Rightarrow> bucket_op \<Rightarrow> bool" where
  "creates k (OpCreate i w k' b) = (k = k')"
| "creates k _ = False"

definition won :: "string \<Rightarrow> bucket_op list \<Rightarrow> string res list \<Rightarrow> nat" where
  "won k ops rs = length (filter (\<lambda>(op, r). creates k op \<and> (case r of Inr t \<Rightarrow> True | Inl e \<Rightarrow> False)) (zip ops rs))"

context object_store
begin

lemma Create_cases:
  assumes "Caller_Create st cr name w key body c = (c', r)"
  shows "objs c key = Some ob \<Longrightarrow> \<not> (\<exists>t. r = Inr t) \<and> objs c' key = Some ob"
    and "r = Inr t \<Longrightarrow> objs c key = None \<and> objs c' key = Some (sealed cr (cl_key c) key body t)"
    and "k' \<noteq> key \<Longrightarrow> objs c' k' = objs c k'"
proof -
  obtain r0 where p: "Caller_put st cr name w key body \<lparr>IfNoneMatch = True, IfMatch = ''''\<rparr> c = (c', r0)"
    "r = (case r0 of Inl e \<Rightarrow> if err_is e ErrPrecondition then Inl (Wrap (key @ '': '') ErrExists '''') else Inl e
          | Inr t \<Rightarrow> Inr t)"
    using assms by (auto simp: Caller_Create_def Let_def split: prod.splits)
  note q = put_cases(2,4)[OF p(1)]
  show "objs c key = Some ob \<Longrightarrow> \<not> (\<exists>t. r = Inr t) \<and> objs c' key = Some ob"
    using q p(2) by (auto split: sum.splits if_splits)
  show "r = Inr t \<Longrightarrow> objs c key = None \<and> objs c' key = Some (sealed cr (cl_key c) key body t)"
    using q p(2) by (auto split: sum.splits if_splits)
  show "k' \<noteq> key \<Longrightarrow> objs c' k' = objs c k'" using q by auto
qed

lemma do_op_keeps:
  assumes "do_op st cr name op c = (c', r)" "\<not> overwrites k op"
  shows "objs c k = Some ob \<Longrightarrow> objs c' k = Some ob"
    and "objs c k = Some ob \<Longrightarrow> creates k op \<Longrightarrow> \<not> (\<exists>t. r = Inr t)"
    and "creates k op \<Longrightarrow> r = Inr t \<Longrightarrow> \<exists>ob. objs c' k = Some ob"
proof -
  have get: "op = OpGet i w k' \<Longrightarrow> objs c' = objs c" for i w k'
    using assms(1) get_cases(2) by (auto simp: do_op_def Let_def split: prod.splits)
  have put: "op = OpPut i w k' b \<Longrightarrow> objs c' k = objs c k" for i w k' b
    using assms put_cases(4)[of cr name w k' b no_cond c c' r] by (auto simp: do_op_def Caller_Put_def)
  have swap: "op = OpSwap i w k' b t \<Longrightarrow> objs c' k = objs c k" for i w k' b t
  proof -
    assume op: "op = OpSwap i w k' b t"
    then obtain r0 where "Caller_put st cr name w k' b \<lparr>IfNoneMatch = False, IfMatch = t\<rparr> c = (c', r0)"
      using assms by (auto simp: do_op_def Caller_Swap_def Let_def split: prod.splits)
    from put_cases(4)[OF this] show ?thesis using assms(2) op by auto
  qed
  show "objs c k = Some ob \<Longrightarrow> objs c' k = Some ob"
    "objs c k = Some ob \<Longrightarrow> creates k op \<Longrightarrow> \<not> (\<exists>t. r = Inr t)"
    "creates k op \<Longrightarrow> r = Inr t \<Longrightarrow> \<exists>ob. objs c' k = Some ob"
    using assms get put swap Create_cases[of cr name _ _ _ c c' r]
    by (cases op; simp add: do_op_def; metis)+
qed

lemma run_ops_created:
  assumes "list_all (\<lambda>op. \<not> overwrites k op) ops"
  shows "run_ops st cr name ops (s, cs) = ((s', cs'), rs) \<Longrightarrow>
    won k ops rs \<le> (if view s k = None then 1 else 0) \<and>
    (\<forall>ob. view s k = Some ob \<longrightarrow> view s' k = Some ob)"
  using assms
proof (induction ops arbitrary: s cs rs)
  case (Cons op ops)
  obtain c' r where op: "do_op st cr name op ((cs ! op_client op)\<lparr>cl_store := s\<rparr>) = (c', r)"
    by (metis prod.exhaust)
  obtain rs' where rest: "run_ops st cr name ops (cl_store c', cs[op_client op := c']) = ((s', cs'), rs')"
    "rs = r # rs'"
    using Cons.prems(1) op by (auto simp: Let_def split: prod.splits)
  have "\<not> overwrites k op" "list_all (\<lambda>op. \<not> overwrites k op) ops" using Cons.prems(2) by auto
  note step = do_op_keeps[OF op this(1)] and IH = Cons.IH[OF rest(1) this(2)]
  have won: "won k (op # ops) rs = (if creates k op \<and> (\<exists>t. r = Inr t) then 1 else 0) + won k ops rs'"
    using rest(2) by (auto simp: won_def split: sum.splits)
  show ?case
  proof (cases "view s k")
    case None
    show ?thesis
    proof (cases "creates k op \<and> (\<exists>t. r = Inr t)")
      case True
      then obtain ob where "view (cl_store c') k = Some ob" using step(3) by auto
      then show ?thesis using IH won True None by auto
    next
      case False
      then show ?thesis using IH won None by (auto split: if_splits)
    qed
  next
    case (Some ob)
    then have "view (cl_store c') k = Some ob" "\<not> (creates k op \<and> (\<exists>t. r = Inr t))"
      using step(1,2)[of ob] by auto
    then show ?thesis using IH won Some by auto
  qed
qed (simp add: won_def)

end

subsection \<open>The fake's versions and counts\<close>

definition tag_of :: "int \<Rightarrow> string" where "tag_of v = [CHR 0x22] @ itoa v @ [CHR 0x22]"

lemma tag_of_inj [simp]: "tag_of v = tag_of v' \<longleftrightarrow> v = v'"
  by (simp add: tag_of_def)

definition tags_ok :: "fake \<Rightarrow> bool" where
  "tags_ok f = (\<forall>k ob. fake_view f k = Some ob \<longrightarrow> (\<exists>v \<le> fk_version f. o_ETag ob = tag_of v))"

text \<open>From one state to a later one, an object is kept as it is or given a newer tag.\<close>

definition later :: "fake \<Rightarrow> fake \<Rightarrow> bool" where
  "later f f' = (fk_version f \<le> fk_version f' \<and>
    (\<forall>k ob. fake_view f' k = Some ob \<longrightarrow>
       fake_view f k = Some ob \<or> (\<exists>v. fk_version f < v \<and> v \<le> fk_version f' \<and> o_ETag ob = tag_of v)))"

lemma later_refl [simp]: "later f f"
  by (simp add: later_def)

lemma later_trans: "later f f' \<Longrightarrow> later f' f'' \<Longrightarrow> later f f''"
  unfolding later_def by (meson order.strict_trans1 order.trans)

lemma later_tags: "later f f' \<Longrightarrow> tags_ok f \<Longrightarrow> tags_ok f'"
  unfolding later_def tags_ok_def by (meson order.trans)

lemma fake_Put_later: "fake_Put f key ob c = (f', r) \<Longrightarrow> later f f'"
  by (auto simp: fake_Put_eq later_def Let_def tag_of_def split: if_splits)
     (metis less_add_one order_refl)

lemma fake_Get_later: "fake_Get f key = (f', r) \<Longrightarrow> later f f'"
  by (auto simp: fake_Get_def later_def Let_def split: option.splits)

text \<open>What one operation adds to the client's counts, it adds to the store's.\<close>

definition counted :: "fake client \<Rightarrow> fake client \<Rightarrow> bool" where
  "counted c c' =
    (later (cl_store c) (cl_store c') \<and>
     ClassA (cl_counts c') - ClassA (cl_counts c) =
       ClassA (fk_counts (cl_store c')) - ClassA (fk_counts (cl_store c)) \<and>
     ClassB (cl_counts c') - ClassB (cl_counts c) =
       ClassB (fk_counts (cl_store c')) - ClassB (fk_counts (cl_store c)))"

lemma Caller_put_counted:
  assumes "Caller_put fake_store cr name w key body cd c = (c', r)"
  shows "counted c c'"
proof (cases w)
  case None
  obtain f' where p: "fake_Put (cl_store c) key (sealed cr (cl_key c) key body '''') cd = (f', r)"
    and c': "c' = (count True c)\<lparr>cl_store := f'\<rparr>"
    using assms None by (auto simp: Caller_put_eq fake_store_def split: prod.splits)
  then show ?thesis using fake_Put_later[OF p]
    by (auto simp: counted_def count_def fake_Put_eq Let_def split: if_splits)
next
  case (Some e) then show ?thesis using assms by (simp add: counted_def)
qed

lemma Caller_Get_counted: "Caller_Get fake_store cr name w key c = (c', r) \<Longrightarrow> counted c c'"
  by (cases w)
     (auto simp: Caller_Get_eq Caller_Get_def counted_def count_def fake_store_def fake_Get_def Let_def
        later_def split: prod.splits if_splits option.splits)

lemma do_op_counted: "do_op fake_store cr name op c = (c', r) \<Longrightarrow> counted c c'"
  by (cases op)
     (auto simp: do_op_def Caller_Put_def Caller_Create_def Caller_Swap_def Let_def
       dest: Caller_put_counted Caller_Get_counted split: prod.splits)

definition total :: "(counts \<Rightarrow> int) \<Rightarrow> fake client list \<Rightarrow> int" where
  "total cls cs = sum_list (map (\<lambda>c. cls (cl_counts c)) cs)"

lemma total_update:
  "i < length cs \<Longrightarrow> total cls (cs[i := c]) = total cls cs - cls (cl_counts (cs ! i)) + cls (cl_counts c)"
proof (induction cs arbitrary: i)
  case (Cons x cs) then show ?case by (cases i) (auto simp: total_def)
qed simp

lemma run_ops_counted:
  "run_ops fake_store cr name ops (s, cs) = ((s', cs'), rs) \<Longrightarrow> all_clients ops cs \<Longrightarrow>
   later s s' \<and> length cs' = length cs \<and>
   total ClassA cs' - total ClassA cs = ClassA (fk_counts s') - ClassA (fk_counts s) \<and>
   total ClassB cs' - total ClassB cs = ClassB (fk_counts s') - ClassB (fk_counts s)"
proof (induction ops arbitrary: s cs rs)
  case (Cons op ops)
  obtain c' r where op: "do_op fake_store cr name op ((cs ! op_client op)\<lparr>cl_store := s\<rparr>) = (c', r)"
    by (metis prod.exhaust)
  obtain rs' where rest:
    "run_ops fake_store cr name ops (cl_store c', cs[op_client op := c']) = ((s', cs'), rs')"
    using Cons.prems(1) op by (auto simp: Let_def split: prod.splits)
  have i: "op_client op < length cs" and all: "all_clients ops (cs[op_client op := c'])"
    using Cons.prems(2) by (auto simp: all_clients_def)
  show ?case
    using Cons.IH[OF rest all] do_op_counted[OF op] i
    by (auto simp: counted_def total_update intro: later_trans)
qed simp

subsection \<open>Tags that tell bodies apart\<close>

text \<open>
  What \<open>Swap\<close> needs of a store beyond its contract: along any run from a good state, two objects a key
  holds with the same tag have the same body. \<open>before\<close> relates a state to those after it.
\<close>

locale tagged_store = object_store +
  fixes good :: "'a \<Rightarrow> bool" and before :: "'a \<Rightarrow> 'a \<Rightarrow> bool"
  assumes before_refl: "before s s"
    and before_trans: "before s s' \<Longrightarrow> before s' s'' \<Longrightarrow> before s s''"
    and Get_before: "good s \<Longrightarrow> s_Get st s k = (s', r) \<Longrightarrow> good s' \<and> before s s'"
    and Put_before: "good s \<Longrightarrow> s_Put st s k ob c = (s', x) \<Longrightarrow> good s' \<and> before s s'"
    and tags_tell: "good s \<Longrightarrow> before s s' \<Longrightarrow> view s k = Some ob \<Longrightarrow> view s' k = Some ob' \<Longrightarrow>
      o_ETag ob' = o_ETag ob \<Longrightarrow> o_Body ob' = o_Body ob"
begin

lemma Caller_put_before:
  assumes "good (cl_store c)" "Caller_put st cr name w key body cd c = (c', r)"
  shows "good (cl_store c') \<and> before (cl_store c) (cl_store c')"
proof (cases w)
  case None
  obtain s1 r1 where p: "s_Put st (cl_store c) key (sealed cr (cl_key c) key body '''') cd = (s1, r1)"
    by (metis prod.exhaust)
  then have "cl_store c' = s1" using assms(2) None by (auto simp: Caller_put_eq Let_def)
  then show ?thesis using Put_before[OF assms(1) p] by simp
next
  case (Some e)
  then show ?thesis using assms before_refl by (simp add: Caller_put_eq)
qed

lemma do_op_before:
  assumes "good (cl_store c)" "do_op st cr name op c = (c', r)"
  shows "good (cl_store c') \<and> before (cl_store c) (cl_store c')"
proof (cases op)
  case (OpGet i w k)
  then obtain r0 where g: "Caller_Get st cr name w k c = (c', r0)" using assms(2) by (auto simp: do_op_def Let_def split: prod.splits)
  show ?thesis
  proof (cases w)
    case None
    obtain s1 r1 where p: "s_Get st (cl_store c) k = (s1, r1)" by (metis prod.exhaust)
    then have "cl_store c' = s1"
      using g None by (auto simp: Caller_Get_eq Caller_Get_def count_def Let_def split: sum.splits if_splits)
    then show ?thesis using Get_before[OF assms(1) p] by simp
  next
    case (Some e)
    then show ?thesis using g assms(1) before_refl by (simp add: Caller_Get_def)
  qed
qed (use assms Caller_put_before[OF assms(1)] in
      \<open>auto simp: do_op_def Caller_Put_def Caller_Create_def Caller_Swap_def Let_def split: prod.splits\<close>)

lemma run_ops_before:
  "run_ops st cr name ops (s, cs) = ((s', cs'), rs) \<Longrightarrow> good s \<Longrightarrow> good s' \<and> before s s'"
proof (induction ops arbitrary: s cs rs)
  case Nil
  then show ?case using before_refl by simp
next
  case (Cons op ops)
  obtain c' r where op: "do_op st cr name op ((cs ! op_client op)\<lparr>cl_store := s\<rparr>) = (c', r)" by (metis prod.exhaust)
  obtain rs' where rest: "run_ops st cr name ops (cl_store c', cs[op_client op := c']) = ((s', cs'), rs')"
    using Cons.prems(1) op by (auto simp: Let_def split: prod.splits)
  have "good (cl_store c') \<and> before s (cl_store c')" using do_op_before[OF _ op] Cons.prems(2) by simp
  then show ?case using Cons.IH[OF rest] before_trans by blast
qed

end

text \<open>The fake's tags are version numbers; R2's are hashes of the content, taken to be injective.\<close>

interpretation fake_tags: tagged_store fake_store fake_view tags_ok later
proof
  fix s s' :: fake and k :: string and ob ob' :: object
  assume s: "tags_ok s" "later s s'" "fake_view s k = Some ob" "fake_view s' k = Some ob'" "o_ETag ob' = o_ETag ob"
  then obtain v where "v \<le> fk_version s" "o_ETag ob = tag_of v" unfolding tags_ok_def by blast
  then have "fake_view s k = Some ob'" using s unfolding later_def by fastforce
  then show "o_Body ob' = o_Body ob" using s(3) by simp
qed (auto simp: fake_store_def intro: later_trans later_tags dest: fake_Get_later fake_Put_later)

definition content_tags :: "('s \<Rightarrow> string \<Rightarrow> object option) \<Rightarrow> (string \<Rightarrow> string) \<Rightarrow> bool" where
  "content_tags view h = (inj h \<and> (\<forall>s k ob. view s k = Some ob \<longrightarrow> o_ETag ob = h (o_Body ob)))"

lemma R2_tagged:
  assumes "s3_documented s3 bkt view" "content_tags view h"
  shows "tagged_store (R2 s3 bkt) view (\<lambda>s. True) (\<lambda>s s'. True)"
  using r2_object_store[OF assms(1)] assms(2)
  by (auto simp: tagged_store_def tagged_store_axioms_def content_tags_def dest: injD)

subsection \<open>Properties\<close>

text \<open>A working instance of the parameters: a signature is the message, padded to 64 bytes.\<close>

definition demo_sign :: "string \<Rightarrow> string \<Rightarrow> string" where
  "demo_sign k m = take 64 (k @ m @ replicate 64 CHR ''.'')"

lemma demo_sign_length [simp]: "length (demo_sign k m) = 64"
  by (simp add: demo_sign_def)

definition demo_crypto :: crypto where
  "demo_crypto = \<lparr>cr_public = (\<lambda>k. take 32 (k @ replicate 32 CHR ''p'')), cr_sign = demo_sign,
     cr_verify = (\<lambda>p m sg. length sg = 64)\<rparr>"

definition demo_client :: "string \<Rightarrow> string list \<Rightarrow> fake client" where
  "demo_client k trusted = New demo_crypto NewFake k trusted [(''mail'', \<lparr>Every = 1, Burst = 5\<rparr>)]"

text \<open>C5. A reader gets nothing that was not signed for the key it asked for. Whatever the store
  holds or answers, an object that \<open>Get\<close> returns under a key carries a body which a holder of a
  trusted key signed for that very key: forged objects, and genuine ones copied to another key, come
  back as an error. The argument needs the keys to be free of NUL bytes, because the signed message
  separates key and body with one.\<close>

theorem get_returns_only_signed_mail:
  assumes "unforgeable cr (cl_trusted c) log"
    and "\<forall>(k, b) \<in> log. nul_free k" "nul_free key"
    and "Caller_Get st cr name wait key c = (c', Inr ob)"
  shows "(key, o_Body ob) \<in> log"
proof -
  have "verify cr (cl_trusted c) key ob"
    using assms(4) by (auto simp: Caller_Get_def Let_def split: option.splits prod.splits sum.splits if_splits)
  then obtain p sg where "p \<in> set (cl_trusted c)" "cr_verify cr p (signed key (o_Body ob)) sg"
    using verify_signed_by by blast
  then obtain k b where "(k, b) \<in> log" "signed key (o_Body ob) = signed k b"
    using assms(1) unfolding unforgeable_def by blast
  then show ?thesis using assms(2,3) signed_inj by auto
qed

definition only_hello :: crypto where
  "only_hello = demo_crypto\<lparr>cr_verify := (\<lambda>p m sg. m = signed ''a'' ''hello'')\<rparr>"

theorem get_returns_only_signed_mail_witness:
  "(''a'', o_Body (sealed only_hello ''k'' ''a'' ''hello'' (tag_of 1))) \<in> {(''a'', ''hello'')}"
proof (rule get_returns_only_signed_mail[where cr = only_hello and st = fake_store and name = "''mail''"
      and wait = None
      and c = "fst (Caller_Create fake_store only_hello ''mail'' None ''a'' ''hello'' (demo_client ''k'' []))"])
  show "unforgeable only_hello (cl_trusted (fst (Caller_Create fake_store only_hello ''mail'' None ''a'' ''hello''
      (demo_client ''k'' [])))) {(''a'', ''hello'')}"
    by (simp add: unforgeable_def only_hello_def)
  show "Caller_Get fake_store only_hello ''mail'' None ''a''
     (fst (Caller_Create fake_store only_hello ''mail'' None ''a'' ''hello'' (demo_client ''k'' []))) =
    (fst (Caller_Get fake_store only_hello ''mail'' None ''a''
     (fst (Caller_Create fake_store only_hello ''mail'' None ''a'' ''hello'' (demo_client ''k'' [])))),
     Inr (sealed only_hello ''k'' ''a'' ''hello'' (tag_of 1)))"
    by code_simp
qed auto

text \<open>C6. A create-only key has one winner. In any sequence of operations by any number of clients
  sharing a store that keeps its contract, where nobody puts or swaps the key, at most one
  \<open>Create\<close> of it succeeds, none does when it was there already, and an object that is there
  stays exactly as it is.\<close>

theorem create_has_one_winner:
  assumes "object_store st view"
    and "list_all (\<lambda>op. \<not> overwrites k op) ops"
    and "run_ops st cr name ops (s, cs) = ((s', cs'), rs)"
  shows "won k ops rs \<le> (if view s k = None then 1 else 0) \<and>
    (view s k = None \<or> view s' k = view s k)"
  using object_store.run_ops_created[OF assms] by (cases "view s k") auto

text \<open>C7. No update is lost. Over any store whose tags tell bodies apart (\<open>tagged_store\<close>: the fake, whose tags
  are versions, and R2, whose tags are content hashes): a client that swaps an object with the tag it
  read succeeds only if, whatever all clients did in between, the key then holds the very body that was
  read; and afterwards the key holds the new body, signed by that client, and every other key what it
  held. (Where tags are content hashes, a rewrite of the same bytes does not count as an update.)\<close>

theorem swap_loses_no_update:
  assumes "tagged_store st view good before" "good s1" "view s1 key = Some ob" "o_ETag ob \<noteq> ''''"
    and "run_ops st cr name ops (s1, cs1) = ((s2, cs2), rs)"
    and "Caller_Swap st cr name w key body (o_ETag ob) ((cs2 ! i)\<lparr>cl_store := s2\<rparr>) = (c', Inr t)"
  shows "(\<exists>ob2. view s2 key = Some ob2 \<and> o_Body ob2 = o_Body ob) \<and>
    view (cl_store c') = (view s2)(key \<mapsto> sealed cr (cl_key (cs2 ! i)) key body t)"
proof -
  have store: "object_store st view" using assms(1) by (simp add: tagged_store_def)
  have "Caller_put st cr name w key body \<lparr>IfNoneMatch = False, IfMatch = o_ETag ob\<rparr>
      ((cs2 ! i)\<lparr>cl_store := s2\<rparr>) = (c', Inr t)"
    using assms(6) by (auto simp: Caller_Swap_def Let_def split: prod.splits sum.splits if_splits)
  from object_store.put_cases(2)[OF store this refl]
  obtain ob2 where ob2: "view s2 key = Some ob2" "o_ETag ob2 = o_ETag ob"
    and new: "view (cl_store c') = (view s2)(key \<mapsto> sealed cr (cl_key (cs2 ! i)) key body t)"
    using assms(4) by auto
  have "before s1 s2" using tagged_store.run_ops_before[OF assms(1,5,2)] by simp
  then have "o_Body ob2 = o_Body ob" by (rule tagged_store.tags_tell[OF assms(1,2) _ assms(3) ob2])
  then show ?thesis using ob2(1) new by blast
qed

text \<open>Every operation is counted once, in its class. Whatever clients do to a fresh fake, what
  they counted between them is what the fake saw, reads as class B and writes as class A, refused
  ones included; an operation whose wait failed was neither sent nor counted.\<close>

theorem operations_are_counted_once:
  assumes "run_ops fake_store cr name ops (NewFake, cs) = ((s', cs'), rs)" "all_clients ops cs"
    and "list_all (\<lambda>c. client_Counts c = \<lparr>ClassA = 0, ClassB = 0\<rparr>) cs"
  shows "fake_Counts s' = \<lparr>ClassA = sum_list (map (\<lambda>c. ClassA (client_Counts c)) cs'),
                          ClassB = sum_list (map (\<lambda>c. ClassB (client_Counts c)) cs')\<rparr>"
proof -
  have "total ClassA cs = 0" "total ClassB cs = 0"
    using assms(3) by (induction cs) (auto simp: total_def client_Counts_def)
  then show ?thesis using run_ops_counted[OF assms(1,2)]
    by (simp add: total_def client_Counts_def fake_Counts_def NewFake_def)
qed

text \<open>Two clients racing for a key, each trusting the other.\<close>

definition demo_pair :: "fake client list" where
  "demo_pair = [demo_client ''laptop'' [cr_public demo_crypto ''host''],
                demo_client ''host'' [cr_public demo_crypto ''laptop'']]"

definition demo_race :: "bucket_op list" where
  "demo_race = [OpCreate 0 None ''a'' ''one'', OpCreate 1 None ''a'' ''two'', OpGet 1 None ''a'',
     OpPut 0 (Some (Opaque ''context canceled'')) ''b'' ''late'']"

abbreviation demo_run :: "fake world \<times> string res list" where
  "demo_run \<equiv> run_ops fake_store demo_crypto ''mail'' demo_race (NewFake, demo_pair)"

theorem create_has_one_winner_witness:
  "won ''a'' demo_race (snd demo_run) \<le> (if fake_view NewFake ''a'' = None then 1 else 0) \<and>
   (fake_view NewFake ''a'' = None \<or>
    fake_view (fst (fst demo_run)) ''a'' = fake_view NewFake ''a'')"
proof (rule create_has_one_winner[where cs' = "snd (fst demo_run)"])
  show "object_store fake_store fake_view" by (rule fake.object_store_axioms)
  show "list_all (\<lambda>op. \<not> overwrites ''a'' op) demo_race" by (simp add: demo_race_def)
qed simp

theorem swap_loses_no_update_witness:
  "\<exists>c' ob2. Caller_Swap fake_store demo_crypto ''mail'' None ''a'' '''' (tag_of 1)
      (((snd (fst (run_ops fake_store demo_crypto ''mail'' [OpGet 1 None ''b'']
         (fst (run_ops fake_store demo_crypto ''mail'' [OpCreate 0 None ''a'' ''1''] (NewFake, demo_pair)))))) ! 1)
        \<lparr>cl_store := fst (fst (run_ops fake_store demo_crypto ''mail'' [OpGet 1 None ''b'']
           (fst (run_ops fake_store demo_crypto ''mail'' [OpCreate 0 None ''a'' ''1''] (NewFake, demo_pair)))))\<rparr>) = (c', Inr (tag_of 2)) \<and>
    fake_view (fst (fst (run_ops fake_store demo_crypto ''mail'' [OpGet 1 None ''b'']
     (fst (run_ops fake_store demo_crypto ''mail'' [OpCreate 0 None ''a'' ''1''] (NewFake, demo_pair))))))
     ''a'' = Some ob2 \<and> o_Body ob2 = ''1''"
proof -
  let ?run1 = "run_ops fake_store demo_crypto ''mail'' [OpCreate 0 None ''a'' ''1''] (NewFake, demo_pair)"
  let ?run = "run_ops fake_store demo_crypto ''mail'' [OpGet 1 None ''b''] (fst ?run1)"
  let ?c = "((snd (fst ?run)) ! 1)\<lparr>cl_store := fst (fst ?run)\<rparr>"
  let ?swap = "Caller_Swap fake_store demo_crypto ''mail'' None ''a'' '''' (tag_of 1) ?c"
  let ?ob = "sealed demo_crypto ''laptop'' ''a'' ''1'' (tag_of 1)"
  have run1: "?run1 = ((fst (fst ?run1), snd (fst ?run1)), snd ?run1)" by simp
  have "tags_ok NewFake" by (simp add: tags_ok_def NewFake_def)
  then have s1: "tags_ok (fst (fst ?run1))" by (rule fake_tags.run_ops_before[OF run1, THEN conjunct1])
  have swap: "?swap = (fst ?swap, Inr (tag_of 2))"
  proof -
    have "snd ?swap = Inr (tag_of 2)" by code_simp
    then show ?thesis by (metis prod.collapse)
  qed
  have ob: "fake_view (fst (fst ?run1)) ''a'' = Some ?ob" by code_simp
  have t: "o_ETag ?ob = tag_of 1" "o_Body ?ob = ''1''" by (simp_all add: sealed_def)
  have ne: "o_ETag ?ob \<noteq> ''''" by (simp add: t tag_of_def)
  have run: "run_ops fake_store demo_crypto ''mail'' [OpGet 1 None ''b''] (fst (fst ?run1), snd (fst ?run1)) =
      ((fst (fst ?run), snd (fst ?run)), snd ?run)" by simp
  have "\<exists>ob2. fake_view (fst (fst ?run)) ''a'' = Some ob2 \<and> o_Body ob2 = o_Body ?ob"
  proof (rule swap_loses_no_update[OF fake_tags.tagged_store_axioms s1 ob ne run, THEN conjunct1])
    show "Caller_Swap fake_store demo_crypto ''mail'' None ''a'' '''' (o_ETag ?ob)
        ((snd (fst ?run) ! 1)\<lparr>cl_store := fst (fst ?run)\<rparr>) = (fst ?swap, Inr (tag_of 2))"
      unfolding t(1) by (rule swap)
  qed
  then show ?thesis using swap t(2) by metis
qed

theorem operations_are_counted_once_witness:
  "fake_Counts (fst (fst demo_run)) =
     \<lparr>ClassA = sum_list (map (\<lambda>c. ClassA (client_Counts c)) (snd (fst demo_run))),
      ClassB = sum_list (map (\<lambda>c. ClassB (client_Counts c)) (snd (fst demo_run)))\<rparr>"
proof (rule operations_are_counted_once)
  show "demo_run = ((fst (fst demo_run), snd (fst demo_run)), snd demo_run)" by simp
  show "all_clients demo_race demo_pair" by code_simp
  show "list_all (\<lambda>c. client_Counts c = \<lparr>ClassA = 0, ClassB = 0\<rparr>) demo_pair" by code_simp
qed

text \<open>An S3 service that is up answers every request, as its documentation says.\<close>

definition s3_answers :: "'s s3_api \<Rightarrow> string \<Rightarrow> ('s \<Rightarrow> string \<Rightarrow> object option) \<Rightarrow> bool" where
  "s3_answers s3 bkt view =
    ((\<forall>s key ob. view s key = Some ob \<longrightarrow> (\<exists>s' body meta etag. GetObject s3 s bkt key = (s', Inr (Inr body, meta, etag)))) \<and>
     (\<forall>s key. view s key = None \<longrightarrow> (\<exists>s' e. GetObject s3 s bkt key = (s', Inl (ResponseError 404 e)))) \<and>
     (\<forall>s key body meta inm im. im \<noteq> Some '''' \<and> s3_allows inm im (view s key) \<longrightarrow>
        (\<exists>s' etag. PutObject s3 s bkt key body meta inm im = (s', Inr etag))) \<and>
     (\<forall>s key body meta inm im. im \<noteq> Some '''' \<and> \<not> s3_allows inm im (view s key) \<longrightarrow>
        (\<exists>s' e. PutObject s3 s bkt key body meta inm im = (s', Inl e) \<and> refusal e)))"

definition s3_Put :: "'s s3_api \<Rightarrow> string \<Rightarrow> 's \<Rightarrow> string \<Rightarrow> object \<Rightarrow> cond \<Rightarrow> 's \<times> (s3_err + string option)" where
  "s3_Put s3 bkt s k ob c = PutObject s3 s bkt k (o_Body ob) (o_Meta ob) (if IfNoneMatch c then Some ''*'' else None)
     (if IfMatch c \<noteq> '''' then Some (IfMatch c) else None)"

lemma r2_errors:
  assumes "s3_documented s3 bkt view"
  shows "s_Get (R2 s3 bkt) s k = (s', Inl e) \<Longrightarrow>
      err_is e ErrNotFound \<longleftrightarrow> (\<exists>s1 x. GetObject s3 s bkt k = (s1, Inl (ResponseError 404 x)))"
    and "s_Put (R2 s3 bkt) s k ob c = (s', Inl e) \<Longrightarrow>
      err_is e ErrPrecondition \<longleftrightarrow> (\<exists>s1 x. s3_Put s3 bkt s k ob c = (s1, Inl x) \<and> refusal x)"
proof -
  obtain s1 x where g: "GetObject s3 s bkt k = (s1, x)" by (metis prod.exhaust)
  show "err_is e ErrNotFound \<longleftrightarrow> (\<exists>s1 x. GetObject s3 s bkt k = (s1, Inl (ResponseError 404 x)))"
    if a: "s_Get (R2 s3 bkt) s k = (s', Inl e)"
  proof (cases x)
    case (Inl y)
    then have "e = mapErr y" "sdk_error (cause y)" using a g s3_Get_fails[OF assms] by (auto simp: R2_def r2_Get_def)
    then show ?thesis using g Inl by (simp add: mapErr_NotFound)
  next
    case (Inr y)
    obtain body meta etag where y: "y = (body, meta, etag)" by (cases y)
    then have "body = Inl e" using a g Inr by (cases body) (simp_all add: R2_def r2_Get_def)
    then show ?thesis using s3_Get_finds[OF assms g[unfolded Inr y]] g Inr by (simp add: sdk_error_def)
  qed
  obtain s2 z where p: "s3_Put s3 bkt s k ob c = (s2, z)" by (metis prod.exhaust)
  show "err_is e ErrPrecondition \<longleftrightarrow> (\<exists>s1 x. s3_Put s3 bkt s k ob c = (s1, Inl x) \<and> refusal x)"
    if a: "s_Put (R2 s3 bkt) s k ob c = (s', Inl e)"
  proof -
    obtain y where y: "z = Inl y" "e = mapErr y"
      using a p by (cases z) (auto simp: R2_def r2_Put_def s3_Put_def Let_def)
    then have "sdk_error (cause y)" using s3_Put_fails[OF assms] p by (auto simp: s3_Put_def)
    then show ?thesis using p y by (simp add: mapErr_Precondition)
  qed
qed

lemma s3_answersD:
  assumes "s3_answers s3 bkt view"
  shows "view s key = Some ob \<Longrightarrow> \<exists>s' body meta etag. GetObject s3 s bkt key = (s', Inr (Inr body, meta, etag))"
    and "view s key = None \<Longrightarrow> \<exists>s' e. GetObject s3 s bkt key = (s', Inl (ResponseError 404 e))"
    and "im \<noteq> Some '''' \<Longrightarrow> s3_allows inm im (view s key) \<Longrightarrow>
      \<exists>s' etag. PutObject s3 s bkt key body meta inm im = (s', Inr etag)"
    and "im \<noteq> Some '''' \<Longrightarrow> \<not> s3_allows inm im (view s key) \<Longrightarrow>
      \<exists>s' e. PutObject s3 s bkt key body meta inm im = (s', Inl e) \<and> refusal e"
  using assms unfolding s3_answers_def by (elim conjE; simp)+

lemma r2_exact:
  assumes "s3_documented s3 bkt view" "s3_answers s3 bkt view"
  shows "exact_store (R2 s3 bkt) view"
proof (rule exact_store.intro[OF r2_object_store[OF assms(1)]], unfold_locales)
  fix s k and ob :: object and c :: cond
  let ?inm = "if IfNoneMatch c then Some ''*'' else None" and ?im = "if IfMatch c \<noteq> '''' then Some (IfMatch c) else None"
  show "\<exists>s'. s_Get (R2 s3 bkt) s k = (s', Inr ob)" if v: "view s k = Some ob"
  proof -
    obtain s' body meta etag where g: "GetObject s3 s bkt k = (s', Inr (Inr body, meta, etag))"
      using s3_answersD(1)[OF assms(2) v] by metis
    then have "ob = \<lparr>o_Body = body, o_Meta = meta, o_ETag = aws_ToString etag\<rparr>" using s3_Get_finds[OF assms(1) g] v by simp
    then show ?thesis using g by (simp add: R2_def r2_Get_def)
  qed
  show "\<exists>s' e. s_Get (R2 s3 bkt) s k = (s', Inl e) \<and> err_is e ErrNotFound" if v: "view s k = None"
  proof -
    obtain s' e where "GetObject s3 s bkt k = (s', Inl (ResponseError 404 e))"
      using s3_answersD(2)[OF assms(2) v] by metis
    then show ?thesis by (simp add: R2_def r2_Get_def)
  qed
  show "\<exists>s' t. s_Put (R2 s3 bkt) s k ob c = (s', Inr t)" if "cond_holds c (view s k)"
  proof -
    have "s3_allows ?inm ?im (view s k)" using that by (simp add: s3_allows_cond)
    moreover have "?im \<noteq> Some ''''" by simp
    ultimately obtain s' etag where "PutObject s3 s bkt k (o_Body ob) (o_Meta ob) ?inm ?im = (s', Inr etag)"
      using s3_answersD(3)[OF assms(2), of ?im ?inm s k "o_Body ob" "o_Meta ob"] by blast
    then show ?thesis by (simp add: R2_def r2_Put_def Let_def)
  qed
  show "\<exists>s' e. s_Put (R2 s3 bkt) s k ob c = (s', Inl e) \<and> err_is e ErrPrecondition" if "\<not> cond_holds c (view s k)"
  proof -
    have "\<not> s3_allows ?inm ?im (view s k)" using that by (simp add: s3_allows_cond)
    moreover have "?im \<noteq> Some ''''" by simp
    ultimately obtain s' e where p: "PutObject s3 s bkt k (o_Body ob) (o_Meta ob) ?inm ?im = (s', Inl e)" "refusal e"
      using s3_answersD(4)[OF assms(2), of ?im ?inm s k "o_Body ob" "o_Meta ob"] by blast
    then have "err_is (mapErr e) ErrPrecondition" using s3_Put_fails[OF assms(1) p(1)] by (simp add: mapErr_Precondition)
    then show ?thesis using p(1) by (simp add: R2_def r2_Put_def Let_def)
  qed
qed

text \<open>C8. R2 is a store the client can rely on. Over an S3 service that behaves as documented, though any
  call may fail, the adapter keeps the contract of a store (\<open>object_store\<close>); a read fails with
  \<open>ErrNotFound\<close> exactly if S3 answered 404, and a write with \<open>ErrPrecondition\<close> exactly if S3 refused it (409 or
  412); and if S3 answers every request, the adapter is exact as well (\<open>exact_store\<close>, from which the
  properties about working systems are proved): it finds what is there, says \<open>ErrNotFound\<close> where nothing
  is, writes what the condition allows and says \<open>ErrPrecondition\<close> where it does not.\<close>

theorem r2_keeps_the_store_contract:
  assumes "s3_documented s3 bkt view"
  shows "object_store (R2 s3 bkt) view \<and>
    (\<forall>s k s' e. s_Get (R2 s3 bkt) s k = (s', Inl e) \<longrightarrow>
      (err_is e ErrNotFound \<longleftrightarrow> (\<exists>s1 x. GetObject s3 s bkt k = (s1, Inl (ResponseError 404 x))))) \<and>
    (\<forall>s k ob c s' e. s_Put (R2 s3 bkt) s k ob c = (s', Inl e) \<longrightarrow>
      (err_is e ErrPrecondition \<longleftrightarrow> (\<exists>s1 x. s3_Put s3 bkt s k ob c = (s1, Inl x) \<and> refusal x))) \<and>
    (s3_answers s3 bkt view \<longrightarrow> exact_store (R2 s3 bkt) view)"
  using r2_object_store[OF assms] r2_errors[OF assms] r2_exact[OF assms] by simp

lemma demo_s3_answers: "s3_answers demo_s3 bkt fake_view"
  by (auto simp: s3_answers_def demo_s3_def fake_Get_def fake_Put_eq Let_def aws_ToString_def s3_allows_def
      cond_holds_def split: if_splits option.splits)

theorem r2_keeps_the_store_contract_witness:
  "object_store (R2 demo_s3 ''garage'') fake_view \<and> exact_store (R2 demo_s3 ''garage'') fake_view"
  using r2_keeps_the_store_contract[OF demo_s3_documented, of "''garage''"] demo_s3_answers by blast

subsection \<open>Keys\<close>

text \<open>The contents of a trusted keys file: comments and keys, a line each.\<close>

definition trusted_file :: "(string + string) list \<Rightarrow> string" where
  "trusted_file ls = concat (map (\<lambda>l. (case l of Inl t \<Rightarrow> ''#'' @ t | Inr p \<Rightarrow> b64_encode p) @ [CHR 0x0A]) ls)"

fun trusted_line_ok :: "string + string \<Rightarrow> bool" where
  "trusted_line_ok (Inl t) = (CHR 0x0A \<notin> set t \<and> length t < 65535)"
| "trusted_line_ok (Inr p) = (length p = PublicKeySize)"

lemma raw_lines_Cons: "CHR 0x0A \<notin> set l \<Longrightarrow> raw_lines (l @ CHR 0x0A # s) = l # raw_lines s"
  by (simp add: raw_lines_def split_on_append Let_def)

lemma raw_lines_Nil [simp]: "raw_lines [] = []"
  by (simp add: raw_lines_def)

lemma drop_cr_printable: "printable (last s) \<Longrightarrow> drop_cr s = s"
  by (auto simp: drop_cr_def printable_def)

lemma load_trusted_comment:
  assumes "length t < 65535"
  shows "load_trusted path n keys ((CHR ''#'' # t) # rest) = load_trusted path (n + 1) keys rest"
proof -
  have "\<exists>u. drop_cr (CHR ''#'' # t) = CHR ''#'' # u" by (cases t) (simp_all add: drop_cr_def)
  then obtain u where "drop_cr (CHR ''#'' # t) = CHR ''#'' # u" by blast
  then have "has_prefix (trim_space (drop_cr (CHR ''#'' # t))) ''#''" using trim_space_hash by metis
  then show ?thesis using assms by (simp add: Let_def)
qed

lemma load_trusted_key:
  assumes "length p = PublicKeySize"
  shows "load_trusted path n keys (b64_encode p # rest) = load_trusted path (n + 1) (keys @ [p]) rest"
proof -
  have ne: "p \<noteq> []" using assms by auto
  have "trim_space (drop_cr (b64_encode p)) = b64_encode p"
    using ne by (simp add: drop_cr_printable b64_encode_printable)
  moreover have "\<not> has_prefix (b64_encode p) ''#''"
    using b64_encode_printable(1,4)[OF ne] by (cases "b64_encode p") auto
  ultimately show ?thesis
    using assms b64_encode_printable(1)[OF ne] by (simp add: length_b64_encode)
qed

lemma load_trusted_file:
  "list_all trusted_line_ok ls \<Longrightarrow>
   load_trusted path n keys (raw_lines (trusted_file ls)) =
     Inr (keys @ concat (map (\<lambda>l. case l of Inl t \<Rightarrow> [] | Inr p \<Rightarrow> [p]) ls))"
proof (induction ls arbitrary: n keys)
  case (Cons l ls)
  show ?case
  proof (cases l)
    case (Inl t)
    then have "raw_lines (trusted_file (l # ls)) = (CHR ''#'' # t) # raw_lines (trusted_file ls)"
      using Cons.prems raw_lines_Cons[of "CHR ''#'' # t"] by (simp add: trusted_file_def)
    then show ?thesis using Inl Cons by (simp add: load_trusted_comment del: load_trusted.simps)
  next
    case (Inr p)
    then have "p \<noteq> []" using Cons.prems by auto
    then have "raw_lines (trusted_file (l # ls)) = b64_encode p # raw_lines (trusted_file ls)"
      using Inr raw_lines_Cons[of "b64_encode p"] b64_encode_printable(5)[of p]
      by (simp add: trusted_file_def)
    then show ?thesis using Inr Cons by (simp add: load_trusted_key del: load_trusted.simps)
  qed
qed (simp add: trusted_file_def)

text \<open>A generated key works on both sides and never replaces a file. When \<open>GenerateKey\<close>
  succeeds its path was free and no other file changed, \<open>LoadKey\<close> reads back the seed it drew,
  and the line it returns, put into a trusted keys file among any comments and other keys, is loaded
  as the public key of that seed, in its place. When it fails, every file that was there is as it
  was.\<close>

theorem generated_keys_load:
  assumes "GenerateKey cr (Inr seed) fl path fs = (fs', r)" "length seed = SeedSize"
    and "length (cr_public cr seed) = PublicKeySize"
    and "list_all trusted_line_ok (before @ after)"
  shows "(\<forall>f s. map_of fs f = Some s \<longrightarrow> map_of fs' f = Some s) \<and>
    (case r of
       Inl e \<Rightarrow> True
     | Inr shown \<Rightarrow>
         map_of fs path = None \<and> (\<forall>f. f \<noteq> path \<longrightarrow> map_of fs' f = map_of fs f) \<and>
         LoadKey None path fs' = Inr seed \<and>
         LoadTrusted None tpath
           ((tpath, trusted_file before @ shown @ [CHR 0x0A] @ trusted_file after) # fs') =
           Inr (concat (map (\<lambda>l. case l of Inl t \<Rightarrow> [] | Inr p \<Rightarrow> [p]) before) @ [cr_public cr seed] @
                concat (map (\<lambda>l. case l of Inl t \<Rightarrow> [] | Inr p \<Rightarrow> [p]) after)))"
proof (cases "\<exists>shown. r = Inr shown")
  case False
  then show ?thesis using assms(1)
    by (auto simp: GenerateKey_def write_new_def split: option.splits if_splits sum.splits)
next
  case True
  have seed: "seed \<noteq> []" using assms(2) by auto
  from True have r: "r = Inr (b64_encode (cr_public cr seed))" and free: "map_of fs path = None"
    and fs': "fs' = AList.update path (b64_encode seed @ [CHR 0x0A]) fs"
    using assms(1) by (auto simp: GenerateKey_def write_new_def split: option.splits if_splits)
  have load: "LoadKey None path fs' = Inr seed"
    using assms(2) b64_encode_printable[OF seed] trim_space_line
    by (simp add: LoadKey_def read_file_def fs')
  have "trusted_file before @ b64_encode (cr_public cr seed) @ [CHR 0x0A] @ trusted_file after =
      trusted_file (before @ Inr (cr_public cr seed) # after)"
    by (simp add: trusted_file_def)
  moreover have "list_all trusted_line_ok (before @ Inr (cr_public cr seed) # after)"
    using assms(3,4) by simp
  ultimately show ?thesis using r free load
    by (auto simp: LoadTrusted_def read_file_def load_trusted_file fs')
qed

theorem generated_keys_load_witness:
  "map_of (fst (GenerateKey demo_crypto (Inr (replicate 32 CHR ''s''))
        \<lparr>fl_open = None, fl_write = None, fl_close = None\<rparr> ''key'' [(''x'', ''y'')])) ''x'' = Some ''y'' \<and>
   LoadKey None ''key'' (fst (GenerateKey demo_crypto (Inr (replicate 32 CHR ''s''))
        \<lparr>fl_open = None, fl_write = None, fl_close = None\<rparr> ''key'' [(''x'', ''y'')])) =
     Inr (replicate 32 CHR ''s'')"
proof -
  have 1: "GenerateKey demo_crypto (Inr (replicate 32 CHR ''s''))
      \<lparr>fl_open = None, fl_write = None, fl_close = None\<rparr> ''key'' [(''x'', ''y'')] =
    (fst (GenerateKey demo_crypto (Inr (replicate 32 CHR ''s''))
      \<lparr>fl_open = None, fl_write = None, fl_close = None\<rparr> ''key'' [(''x'', ''y'')]),
     Inr (b64_encode (cr_public demo_crypto (replicate 32 CHR ''s''))))"
    by (simp add: GenerateKey_def write_new_def)
  have 2: "list_all trusted_line_ok ([Inl '' me''] @ [])" by simp
  show ?thesis
    using generated_keys_load[OF 1 _ _ 2, of "''trusted''"] by (simp add: demo_crypto_def)
qed

text \<open>A secret comes back. What \<open>secrets.Put\<close> wrote under a plain name, the master key
  reads as the value it was given, from the object \<open>secrets/<name>.age\<close> and no other; a name
  that is not plain (so one with a slash or a dot) is refused by both before anything is sent.\<close>

theorem secrets_round_trip:
  assumes "exact_store st view" "crypto_signs cr" "cr_public cr (cl_key c) \<in> set (cl_trusted c)"
    and "ParseRecipient ag (master_Recipient m) = Inr r" "Encrypt ag r value = Inr buf"
    and "Decrypt ag (ma_ids m) buf = Inr (Inr value)"
  shows "if validName name
    then \<exists>c' c''. secrets_Put st cr ag quote caller None (master_Recipient m) name value c = (c', None) \<and>
         master_Get st cr ag quote caller None m name c' = (c'', Inr value) \<and>
         (\<forall>k. k \<noteq> ''secrets/'' @ name @ ''.age'' \<longrightarrow> view (cl_store c') k = view (cl_store c) k)
    else \<exists>e. secrets_Put st cr ag quote caller None (master_Recipient m) name value c = (c, Some e) \<and>
         master_Get st cr ag quote caller None m name c = (c, Inl e)"
proof (cases "validName name")
  case True
  let ?k = "''secrets/'' @ name @ ''.age''"
  obtain c' t c'' where
    "Caller_Put st cr caller None ?k buf c = (c', Inr t)"
    "view (cl_store c') = (view (cl_store c))(?k \<mapsto> sealed cr (cl_key c) ?k buf t)"
    "Caller_Get st cr caller None ?k c' = (c'', Inr (sealed cr (cl_key c) ?k buf t))"
    by (rule exact_store.Put_Get[OF assms(1-3)])
  then show ?thesis using True assms(4-6)
    by (intro iffD2[OF if_P[OF True]] exI[of _ c'] exI[of _ c''])
       (simp add: secrets_Put_def master_Get_def secret_key_def)
next
  case False
  then show ?thesis by (simp add: secrets_Put_def master_Get_def secret_key_def)
qed

definition demo_age :: "(string, string) age" where
  "demo_age = \<lparr>ParseRecipient = Inr, Encrypt = (\<lambda>r v. Inr (r @ '':'' @ v)), ParseIdentities = (\<lambda>s. Inr [s]),
     RecipientOf = Some, Decrypt = (\<lambda>ids b. Inr (Inr (drop 2 b)))\<rparr>"

theorem secrets_round_trip_witness:
  "\<exists>c' c''. secrets_Put fake_store demo_crypto demo_age id ''garage'' None ''r'' ''api-key'' ''hunter2''
       (demo_client ''k'' []) = (c', None) \<and>
     master_Get fake_store demo_crypto demo_age id ''garage'' None \<lparr>ma_ids = [''i''], ma_recipient = ''r''\<rparr>
       ''api-key'' c' = (c'', Inr ''hunter2'')"
proof -
  have signs: "crypto_signs demo_crypto" by (simp add: crypto_signs_def demo_crypto_def)
  have "if validName ''api-key''
    then \<exists>c' c''. secrets_Put fake_store demo_crypto demo_age id ''garage'' None
           (master_Recipient \<lparr>ma_ids = [''i''], ma_recipient = ''r''\<rparr>) ''api-key'' ''hunter2''
           (demo_client ''k'' []) = (c', None) \<and>
         master_Get fake_store demo_crypto demo_age id ''garage'' None \<lparr>ma_ids = [''i''], ma_recipient = ''r''\<rparr>
           ''api-key'' c' = (c'', Inr ''hunter2'') \<and>
         (\<forall>k. k \<noteq> ''secrets/'' @ ''api-key'' @ ''.age'' \<longrightarrow>
            fake_view (cl_store c') k = fake_view (cl_store (demo_client ''k'' [])) k)
    else \<exists>e. secrets_Put fake_store demo_crypto demo_age id ''garage'' None
           (master_Recipient \<lparr>ma_ids = [''i''], ma_recipient = ''r''\<rparr>) ''api-key'' ''hunter2''
           (demo_client ''k'' []) = (demo_client ''k'' [], Some e) \<and>
         master_Get fake_store demo_crypto demo_age id ''garage'' None \<lparr>ma_ids = [''i''], ma_recipient = ''r''\<rparr>
           ''api-key'' (demo_client ''k'' []) = (demo_client ''k'' [], Inl e)"
    by (rule secrets_round_trip[where buf = "''r:hunter2''" and r = "''r''"])
       (use signs in \<open>simp_all add: fake.exact_store_axioms demo_client_def New_def demo_age_def master_Recipient_def\<close>)
  moreover have "validName ''api-key''" by code_simp
  ultimately show ?thesis by (auto simp: master_Recipient_def)
qed

text \<open>Mail arrives whole, in order, once. Over a store that answers exactly, where a box is free
  from \<open>next\<close> on, sending any messages one after the other succeeds (each loop returns) and takes
  consecutive numbers from \<open>next\<close>; a reader who trusts the sender then receives exactly those
  messages, in order, each with its number, and is told to read on after the last.\<close>

theorem mail_arrives_in_order:
  assumes "exact_store st view" "crypto_signs cr" "cr_public cr (cl_key sender) \<in> set (cl_trusted reader)"
    and "\<forall>n \<ge> next. view (cl_store sender) (box_key box n) = None"
    and "list_all (mailable marshal unmarshal) ms"
  shows "\<exists>sent reader'.
    send_all st cr marshal now name box next ms sender = Some sent \<and>
    Receive st cr unmarshal name (\<lambda>_. None) box next (\<lambda>n m acc. (acc @ [(n, m)], None))
      (reader\<lparr>cl_store := cl_store sent\<rparr>) [] =
      Some (reader', zip (map (\<lambda>i. next + int i) [0..<length ms]) ms, next + int (length ms), None)"
proof -
  have deliver: "deliver (\<lambda>n m acc. (acc @ [(n, m)], None)) (map Some ms) n acc =
      (acc @ zip (map (\<lambda>i. n + int i) [0..<length ms]) ms, n + int (length ms), None)" for n acc
  proof (induction ms arbitrary: n acc)
    case (Cons m ms)
    have "map (\<lambda>i. n + int i) [0..<length (m # ms)] = n # map (\<lambda>i. (n + 1) + int i) [0..<length ms]"
      by (simp add: map_upt_Suc algebra_simps del: upt_Suc)
    then show ?case using Cons.IH[of "n + 1" "acc @ [(n, m)]"] by (simp del: upt_Suc)
  qed simp
  obtain sent obs where sent: "send_all st cr marshal now name box next ms sender = Some sent"
    "length obs = length ms"
    "\<forall>i < length ms. view (cl_store sent) (box_key box (next + int i)) = Some (obs ! i) \<and>
       mail_of cr (cl_trusted reader) unmarshal (box_key box (next + int i)) (obs ! i) = Some (ms ! i)"
    "\<forall>n \<ge> next + int (length ms). view (cl_store sent) (box_key box n) = None"
    using exact_store.send_all_free[OF assms(1-3) assms(5,4) refl] by blast
  let ?reader = "reader\<lparr>cl_store := cl_store sent\<rparr>"
  have all: "map (\<lambda>i. mail_of cr (cl_trusted ?reader) unmarshal (box_key box (next + int i)) (obs ! i))
      [0..<length obs] = map Some ms"
    using sent(2,3) by (auto intro: nth_equalityI)
  have "\<exists>c'. loop (receive_step st cr unmarshal name (\<lambda>_. None) box (\<lambda>n m acc. (acc @ [(n, m)], None)))
      (next, ?reader, []) = Some (c', deliver (\<lambda>n m acc. (acc @ [(n, m)], None)) (map Some ms) next []) \<and>
      view (cl_store c') = view (cl_store ?reader) \<and> same_identity ?reader c'"
    using exact_store.receive_run[OF assms(1), where wait = "\<lambda>_. None" and obs = obs and c = ?reader
        and n = "next" and box = box and cr = cr and unmarshal = unmarshal and name = name
        and f = "\<lambda>n m acc. (acc @ [(n, m)], None)" and x = "[]"] sent
    unfolding all by simp
  then show ?thesis using sent(1) unfolding Receive_def deliver by auto
qed

definition demo_msg :: message where
  "demo_msg = \<lparr>m_Room = ''r'', m_Author = ''a'', m_Text = ''hi'', m_Time = 1\<rparr>"

theorem mail_arrives_in_order_witness:
  "\<exists>sent reader'.
    send_all fake_store demo_crypto (\<lambda>m. Inr (m_Text m)) 7 ''mail'' ToHost 1 [demo_msg] (demo_client ''k'' []) =
      Some sent \<and>
    Receive fake_store demo_crypto (\<lambda>b. Some (demo_msg\<lparr>m_Text := b\<rparr>)) ''mail'' (\<lambda>_. None) ToHost 1
      (\<lambda>n m acc. (acc @ [(n, m)], None)) ((demo_client ''k'' [])\<lparr>cl_store := cl_store sent\<rparr>) [] =
      Some (reader', zip (map (\<lambda>i. 1 + int i) [0..<length [demo_msg]]) [demo_msg],
            1 + int (length [demo_msg]), None)"
proof (rule mail_arrives_in_order)
  show "exact_store fake_store fake_view" by (rule fake.exact_store_axioms)
  show "crypto_signs demo_crypto" by (simp add: crypto_signs_def demo_crypto_def)
  show "cr_public demo_crypto (cl_key (demo_client ''k'' [])) \<in> set (cl_trusted (demo_client ''k'' []))"
    by (simp add: demo_client_def New_def)
  show "\<forall>n \<ge> 1. fake_view (cl_store (demo_client ''k'' [])) (box_key ToHost n) = None"
    by (simp add: demo_client_def New_def NewFake_def)
  show "list_all (mailable (\<lambda>m. Inr (m_Text m)) (\<lambda>b. Some (demo_msg\<lparr>m_Text := b\<rparr>))) [demo_msg]"
    by (simp add: mailable_def demo_msg_def)
qed

end
