(* ===== verification/ChatBase.thy ===== *)
theory ChatBase
  imports BucketMail
begin

section \<open>The chatroom: chatroom/chatroom.go\<close>

text \<open>
  Rooms, posts, mentions and inboxes. The SQLite database is third-party code; what is modelled
  is the meaning of the program's own SQL statements on its three tables. Each statement (and each
  row scan) may fail: \<open>ch_faults\<close> holds the outcomes to come, one per call, and is empty when
  nothing more fails. A statement that fails changed nothing. Times are stored as they are
  (\<open>RFC3339Nano\<close> keeps every nanosecond of a UTC time).
\<close>

record post =
  p_ID :: int
  p_Room :: string
  p_Author :: string
  p_Text :: string
  p_Time :: gotime

text \<open>
  An inbox is the channel of 100 that \<open>Join\<close> makes with the goroutine that reads it: the
  messages waiting in it, the one its handler runs on, and those its handler has returned from.
\<close>

record inbox =
  ib_name :: string
  ib_waiting :: "post list"
  ib_running :: "post option"
  ib_served :: "post list"
  ib_gone :: bool

record service =
  ch_messages :: "post list"
  ch_cursors :: "(string \<times> int) list"
  ch_mail_rooms :: "string list"
  ch_members :: "(string \<times> nat) list"
  ch_inboxes :: "inbox list"
  ch_changed :: nat
  ch_canceled :: bool
  ch_faults :: "goerr option list"

text \<open>The outcome of the next database call.\<close>

definition db_call :: "service \<Rightarrow> service \<times> goerr option" where
  "db_call s = (case ch_faults s of
     [] \<Rightarrow> (s, None)
   | r # rest \<Rightarrow> (s\<lparr>ch_faults := rest\<rparr>, r))"

definition chat_err :: "goerr \<Rightarrow> goerr" where "chat_err e = Wrap ''chatroom: '' e ''''"

definition Open :: "goerr option list \<Rightarrow> service" where
  "Open faults = \<lparr>ch_messages = [], ch_cursors = [], ch_mail_rooms = [], ch_members = [],
     ch_inboxes = [], ch_changed = 0, ch_canceled = False, ch_faults = faults\<rparr>"

definition Join :: "string \<Rightarrow> service \<Rightarrow> service" where
  "Join name s = s\<lparr>ch_members := AList.update name (length (ch_inboxes s)) (ch_members s),
     ch_inboxes := ch_inboxes s @ [\<lparr>ib_name = name, ib_waiting = [], ib_running = None, ib_served = [],
                                   ib_gone = False\<rparr>]\<rparr>"

definition isMember :: "service \<Rightarrow> string \<Rightarrow> bool" where
  "isMember s name = (map_of (ch_members s) name \<noteq> None)"

subsection \<open>Mentions\<close>

text \<open>The leftmost-longest matches of \<open>@([A-Za-z][A-Za-z0-9_-]*)\<close>.\<close>

definition letter :: "char \<Rightarrow> bool" where
  "letter c = (let n = of_char c :: nat in (65 \<le> n \<and> n \<le> 90) \<or> (97 \<le> n \<and> n \<le> 122))"

function mentions :: "string \<Rightarrow> string list" where
  "mentions [] = []"
| "mentions (c # s) =
    (if c = CHR ''@'' \<and> s \<noteq> [] \<and> letter (hd s)
     then takeWhile name_char s # mentions (dropWhile name_char s)
     else mentions s)"
  by pat_completeness auto
termination
  by (relation "measure length") (auto simp: le_imp_less_Suc length_dropWhile_le)

lemma letter_name: "letter c \<Longrightarrow> name_char c"
  by (auto simp: letter_def name_char_def Let_def)

lemma mentions_plain:
  "n \<in> set (mentions t) \<Longrightarrow> n \<noteq> [] \<and> letter (hd n) \<and> list_all name_char n"
proof (induction t rule: mentions.induct)
  case (2 c s)
  show ?case
  proof (cases "c = CHR ''@'' \<and> s \<noteq> [] \<and> letter (hd s)")
    case True
    then have "takeWhile name_char s \<noteq> []" "hd (takeWhile name_char s) = hd s"
      by (cases s; simp add: letter_name)+
    then show ?thesis using 2 True by (auto simp: list_all_iff dest: set_takeWhileD)
  next
    case False then show ?thesis using 2 by auto
  qed
qed simp

text \<open>A mention is found wherever it is written.\<close>

lemma mentions_at:
  "CHR ''@'' \<notin> set a \<Longrightarrow> n \<noteq> [] \<Longrightarrow> letter (hd n) \<Longrightarrow> list_all name_char n \<Longrightarrow>
   b = [] \<or> \<not> name_char (hd b) \<Longrightarrow> mentions (a @ CHR ''@'' # n @ b) = n # mentions b"
proof (induction a)
  case Nil
  then have "takeWhile name_char (n @ b) = n" "dropWhile name_char (n @ b) = b"
    by (cases b; simp add: list_all_iff takeWhile_append dropWhile_append)+
  then show ?case using Nil by simp
qed auto

subsection \<open>Posting and reading\<close>

text \<open>\<open>INTEGER PRIMARY KEY\<close>: one more than the largest id there is.\<close>

definition max_id :: "service \<Rightarrow> int" where
  "max_id s = foldl max 0 (map p_ID (ch_messages s))"

text \<open>The first half of \<open>Post\<close>: the insert, and reading back the id.\<close>

definition insert_post :: "gotime \<Rightarrow> string \<Rightarrow> string \<Rightarrow> string \<Rightarrow> service \<Rightarrow> service \<times> post res" where
  "insert_post now room author text s =
    (let m = \<lparr>p_ID = max_id s + 1, p_Room = room, p_Author = author, p_Text = text, p_Time = now\<rparr>;
         (s1, r) = db_call s in
     case r of
       Some e \<Rightarrow> (s1, Inl (chat_err e))
     | None \<Rightarrow>
        (let (s2, r2) = db_call (s1\<lparr>ch_messages := ch_messages s1 @ [m]\<rparr>) in
         case r2 of
           Some e \<Rightarrow> (s2, Inl (chat_err e))
         | None \<Rightarrow> (s2, Inr m)))"

abbreviation inbox_size :: nat where "inbox_size \<equiv> 100"

text \<open>The non-blocking send: into the member's channel when it has room, else dropped.\<close>

definition offer :: "nat \<Rightarrow> post \<Rightarrow> service \<Rightarrow> service" where
  "offer i m s =
    (let ib = ch_inboxes s ! i in
     if length (ib_waiting ib) < inbox_size
     then s\<lparr>ch_inboxes := (ch_inboxes s)[i := ib\<lparr>ib_waiting := ib_waiting ib @ [m]\<rparr>]\<rparr>
     else s)"

fun wake_each :: "post \<Rightarrow> string list \<Rightarrow> string list \<Rightarrow> service \<Rightarrow> service" where
  "wake_each m woken [] s = s"
| "wake_each m woken (name # names) s =
    (case map_of (ch_members s) name of
       None \<Rightarrow> wake_each m woken names s
     | Some i \<Rightarrow>
         if name = p_Author m \<or> name \<in> set woken then wake_each m woken names s
         else wake_each m (name # woken) names (offer i m s))"

text \<open>The second half, under the lock: everyone blocked in \<open>Wait\<close>, then the mentioned.\<close>

definition wake_post :: "post \<Rightarrow> service \<Rightarrow> service" where
  "wake_post m s = wake_each m [] (mentions (p_Text m)) (s\<lparr>ch_changed := ch_changed s + 1\<rparr>)"

definition Post :: "gotime \<Rightarrow> string \<Rightarrow> string \<Rightarrow> string \<Rightarrow> service \<Rightarrow> service \<times> post res" where
  "Post now room author text s =
    (let (s1, r) = insert_post now room author text s in
     case r of Inl e \<Rightarrow> (s1, Inl e) | Inr m \<Rightarrow> (wake_post m s1, Inr m))"

text \<open>
  \<open>query\<close> runs a statement whose rows are \<open>rows\<close>: it may fail to start, to reach the
  next row (or the end), or to scan one.
\<close>

fun scan_rows :: "post list \<Rightarrow> post list \<Rightarrow> service \<Rightarrow> service \<times> post list res" where
  "scan_rows msgs rows s =
    (case db_call s of
       (s1, Some e) \<Rightarrow> (s1, Inl e)
     | (s1, None) \<Rightarrow>
        (case rows of
           [] \<Rightarrow> (s1, Inr msgs)
         | m # rest \<Rightarrow>
            (case db_call s1 of
               (s2, Some e) \<Rightarrow> (s2, Inl (chat_err e))
             | (s2, None) \<Rightarrow> scan_rows (msgs @ [m]) rest s2)))"

declare scan_rows.simps [simp del]

definition query :: "(service \<Rightarrow> post list) \<Rightarrow> service \<Rightarrow> service \<times> post list res" where
  "query rows s =
    (case db_call s of
       (s', Some e) \<Rightarrow> (s', Inl (chat_err e))
     | (s', None) \<Rightarrow> scan_rows [] (rows s') s')"

definition by_id :: "post list \<Rightarrow> post list" where "by_id = sort_key p_ID"

definition Read :: "string \<Rightarrow> int \<Rightarrow> service \<Rightarrow> service \<times> post list res" where
  "Read room after = query (\<lambda>s. by_id (filter (\<lambda>m. p_Room m = room \<and> p_ID m > after) (ch_messages s)))"

definition latest :: "post list \<Rightarrow> string \<Rightarrow> int" where
  "latest ms room = foldl max 0 (map p_ID (filter (\<lambda>m. p_Room m = room) ms))"

definition Rooms :: "service \<Rightarrow> service \<times> post list res" where
  "Rooms = query (\<lambda>s. rev (by_id (filter
     (\<lambda>m. p_ID m \<in> set (map (latest (ch_messages s)) (map p_Room (ch_messages s)))) (ch_messages s))))"

text \<open>
  One round of \<open>Wait\<close> reads; it returns what it read, or blocks. A round ends with the channel
  closed (True) or the context done (False): \<open>rounds\<close> gives the service at each read and how the
  round ended. None: the rounds ran out while it was blocked.
\<close>

fun Wait :: "string \<Rightarrow> int \<Rightarrow> goerr \<Rightarrow> (service \<times> bool) list \<Rightarrow> (post list \<times> goerr option) option" where
  "Wait room after ctx_err [] = None"
| "Wait room after ctx_err ((s, woken) # rounds) =
    (case snd (Read room after s) of
       Inl e \<Rightarrow> Some ([], Some e)
     | Inr msgs \<Rightarrow>
         if msgs \<noteq> [] then Some (msgs, None)
         else if woken then Wait room after ctx_err rounds
         else Some (msgs, Some ctx_err))"

definition Transcript :: "post list \<Rightarrow> string" where
  "Transcript msgs = concat (map (\<lambda>m. p_Author m @ '': '' @ p_Text m @ [CHR 0x0A]) msgs)"

text \<open>\<open>VACUUM INTO\<close> copies the tables to a path that must not exist.\<close>

definition Snapshot ::
  "(string \<Rightarrow> string) \<Rightarrow> string \<Rightarrow> service \<times> (string \<times> post list) list \<Rightarrow>
   (service \<times> (string \<times> post list) list) \<times> goerr option" where
  "Snapshot quote path = (\<lambda>(s, files).
    if CHR 0x27 \<in> set path
    then ((s, files), Some (Opaque (''chatroom: snapshot path '' @ quote path @ '' has a quote'')))
    else case db_call s of
      (s', Some e) \<Rightarrow> ((s', files), Some (chat_err e))
    | (s', None) \<Rightarrow>
        if map_of files path \<noteq> None
        then ((s', files), Some (chat_err (Opaque ''output file already exists'')))
        else ((s', (path, ch_messages s') # files), None))"

subsection \<open>The goroutine of an inbox\<close>

text \<open>
  It takes the next message when its handler is not running, and ends when it is idle and the
  service was canceled. A closed context and a message waiting may be taken in either order.
\<close>

definition take_next :: "nat \<Rightarrow> service \<Rightarrow> service option" where
  "take_next i s =
    (let ib = ch_inboxes s ! i in
     if i < length (ch_inboxes s) \<and> ib_running ib = None \<and> \<not> ib_gone ib
     then (case ib_waiting ib of
             [] \<Rightarrow> None
           | m # rest \<Rightarrow> Some (s\<lparr>ch_inboxes := (ch_inboxes s)
               [i := ib\<lparr>ib_waiting := rest, ib_running := Some m\<rparr>]\<rparr>))
     else None)"

definition handled :: "nat \<Rightarrow> service \<Rightarrow> service option" where
  "handled i s =
    (let ib = ch_inboxes s ! i in
     if i < length (ch_inboxes s)
     then (case ib_running ib of
             None \<Rightarrow> None
           | Some m \<Rightarrow> Some (s\<lparr>ch_inboxes := (ch_inboxes s)
               [i := ib\<lparr>ib_running := None, ib_served := ib_served ib @ [m]\<rparr>]\<rparr>))
     else None)"

definition leave :: "nat \<Rightarrow> service \<Rightarrow> service option" where
  "leave i s =
    (let ib = ch_inboxes s ! i in
     if i < length (ch_inboxes s) \<and> ch_canceled s \<and> ib_running ib = None
     then Some (s\<lparr>ch_inboxes := (ch_inboxes s)[i := ib\<lparr>ib_gone := True\<rparr>]\<rparr>) else None)"

definition cancel :: "service \<Rightarrow> service" where "cancel s = s\<lparr>ch_canceled := True\<rparr>"

text \<open>\<open>Close\<close> returns once every goroutine has left.\<close>

definition Close_returns :: "service \<Rightarrow> bool" where
  "Close_returns s = (ch_canceled s \<and> list_all ib_gone (ch_inboxes s))"

subsection \<open>Facts about the operations\<close>

text \<open>The tables and the members, which database calls and reads leave alone.\<close>

definition same_data :: "service \<Rightarrow> service \<Rightarrow> bool" where
  "same_data s s' =
    (ch_messages s' = ch_messages s \<and> ch_cursors s' = ch_cursors s \<and> ch_mail_rooms s' = ch_mail_rooms s \<and>
     ch_members s' = ch_members s \<and> ch_inboxes s' = ch_inboxes s \<and> ch_changed s' = ch_changed s \<and>
     ch_canceled s' = ch_canceled s)"

lemma same_data_refl [simp]: "same_data s s"
  by (simp add: same_data_def)

lemma same_data_trans: "same_data s s' \<Longrightarrow> same_data s' s'' \<Longrightarrow> same_data s s''"
  by (simp add: same_data_def)

lemmas same_dataD = same_data_def[THEN iffD1]

lemma db_call_data: "db_call s = (s', r) \<Longrightarrow> same_data s s'"
  by (auto simp: db_call_def same_data_def split: list.splits)

lemma db_call_quiet [simp]: "ch_faults s = [] \<Longrightarrow> db_call s = (s, None)"
  by (simp add: db_call_def)

lemma scan_rows_Nil:
  "scan_rows msgs [] s = (case db_call s of (s1, Some e) \<Rightarrow> (s1, Inl e) | (s1, None) \<Rightarrow> (s1, Inr msgs))"
  by (subst scan_rows.simps) simp

lemma scan_rows_Cons:
  "scan_rows msgs (m # rest) s =
    (case db_call s of
       (s1, Some e) \<Rightarrow> (s1, Inl e)
     | (s1, None) \<Rightarrow>
         (case db_call s1 of
            (s2, Some e) \<Rightarrow> (s2, Inl (chat_err e))
          | (s2, None) \<Rightarrow> scan_rows (msgs @ [m]) rest s2))"
  by (subst scan_rows.simps) simp

lemma scan_rows_data: "scan_rows msgs rows s = (s', r) \<Longrightarrow> same_data s s'"
proof (induction rows arbitrary: msgs s)
  case Nil
  then show ?case
    by (auto simp: scan_rows_Nil split: prod.splits option.splits dest: db_call_data)
next
  case (Cons m rows)
  obtain s1 r1 s2 r2 where 1: "db_call s = (s1, r1)" "db_call s1 = (s2, r2)" by (metis prod.exhaust)
  then have 2: "same_data s s1" "same_data s s2" using db_call_data same_data_trans by blast+
  show ?case
  proof (cases "r1 = None \<and> r2 = None")
    case True
    then have "scan_rows (msgs @ [m]) rows s2 = (s', r)" using Cons.prems 1 by (simp add: scan_rows_Cons)
    then show ?thesis using Cons.IH 2(2) same_data_trans by blast
  next
    case False
    then have "s' = s1 \<or> s' = s2" using Cons.prems 1 by (auto simp: scan_rows_Cons split: option.splits)
    then show ?thesis using 2 by auto
  qed
qed

lemma scan_rows_result: "scan_rows msgs rows s = (s', Inr r) \<Longrightarrow> r = msgs @ rows"
proof (induction rows arbitrary: msgs s)
  case Nil
  then show ?case by (auto simp: scan_rows_Nil split: prod.splits option.splits)
next
  case (Cons m rows)
  then obtain s2 where "scan_rows (msgs @ [m]) rows s2 = (s', Inr r)"
    by (auto simp: scan_rows_Cons split: prod.splits option.splits)
  then show ?case using Cons.IH by fastforce
qed

lemma scan_rows_quiet: "ch_faults s = [] \<Longrightarrow> scan_rows msgs rows s = (s, Inr (msgs @ rows))"
  by (induction rows arbitrary: msgs) (simp_all add: scan_rows_Nil scan_rows_Cons)

lemma query_data: "query rows s = (s', r) \<Longrightarrow> same_data s s'"
  by (auto simp: query_def split: prod.splits option.splits
      intro: same_data_trans db_call_data dest!: scan_rows_data)

lemma query_result:
  assumes "query rows s = (s', Inr r)"
  shows "\<exists>s1. same_data s s1 \<and> r = rows s1"
  using assms by (auto simp: query_def split: prod.splits option.splits
      dest: scan_rows_result db_call_data)

lemma query_quiet: "ch_faults s = [] \<Longrightarrow> query rows s = (s, Inr (rows s))"
  by (simp add: query_def scan_rows_quiet)

lemma foldl_max_ge: "(a :: int) \<le> foldl max a xs"
  by (induction xs arbitrary: a) (auto intro: order.trans[OF max.cobounded1])

lemma foldl_max_upper: "x \<in> set xs \<Longrightarrow> (x :: int) \<le> foldl max a xs"
  by (induction xs arbitrary: a) (auto intro: order.trans[OF max.cobounded2 foldl_max_ge])

lemma foldl_max_in: "foldl max (a :: int) xs \<in> insert a (set xs)"
proof (induction xs arbitrary: a)
  case (Cons x xs)
  from Cons[of "max a x"] show ?case by (auto simp: max_def split: if_splits)
qed simp

lemma max_id_upper: "m \<in> set (ch_messages s) \<Longrightarrow> p_ID m \<le> max_id s"
  unfolding max_id_def by (rule foldl_max_upper) simp

end
