(* ===== verification/ChatMail.thy ===== *)
theory ChatMail
  imports ChatBase
begin

section \<open>The mail bridge and the HTTP API: chatroom/mail.go, chatroom/http.go\<close>

text \<open>
  \<open>RelayMail\<close> is one pass of the bridge, over the mail loops of \<open>BucketMail\<close> and the
  cursors in the chatroom's database. Like those loops it may not return, so its value is an
  option; its result is the client, the service and the error it ended with.
\<close>

definition db_exec :: "(service \<Rightarrow> service) \<Rightarrow> service \<Rightarrow> service \<times> goerr option" where
  "db_exec f s = (case db_call s of
     (s', Some e) \<Rightarrow> (s', Some (chat_err e))
   | (s', None) \<Rightarrow> (f s', None))"

definition cursor :: "string \<Rightarrow> service \<Rightarrow> service \<times> (int \<times> bool) res" where
  "cursor name s = (case db_call s of
     (s', Some e) \<Rightarrow> (s', Inl (chat_err e))
   | (s', None) \<Rightarrow> (case map_of (ch_cursors s') name of
       None \<Rightarrow> (s', Inr (0, False))
     | Some n \<Rightarrow> (s', Inr (n, True))))"

definition setCursor :: "string \<Rightarrow> int \<Rightarrow> service \<Rightarrow> service \<times> goerr option" where
  "setCursor name n = db_exec (\<lambda>s. s\<lparr>ch_cursors := AList.update name n (ch_cursors s)\<rparr>)"

definition add_mail_room :: "string \<Rightarrow> service \<Rightarrow> service" where
  "add_mail_room room s =
    (if room \<in> set (ch_mail_rooms s) then s else s\<lparr>ch_mail_rooms := ch_mail_rooms s @ [room]\<rparr>)"

text \<open>The callback of \<open>Receive\<close>: post, remember the room, move the cursor.\<close>

definition relay_in :: "gotime \<Rightarrow> int \<Rightarrow> message \<Rightarrow> service \<Rightarrow> service \<times> goerr option" where
  "relay_in now seq m s =
    (case Post now (m_Room m) (m_Author m) (m_Text m) s of
       (s1, Inl e) \<Rightarrow> (s1, Some e)
     | (s1, Inr p) \<Rightarrow>
        (case db_exec (add_mail_room (m_Room m)) s1 of
           (s2, Some e) \<Rightarrow> (s2, Some e)
         | (s2, None) \<Rightarrow> setCursor ''to-host'' (seq + 1) s2))"

text \<open>The loop over what to mail, from \<open>out\<close> on; it ends by storing \<open>seen\<close>.\<close>

fun relay_out ::
  "'s store_ops \<Rightarrow> crypto \<Rightarrow> (message \<Rightarrow> string res) \<Rightarrow> gotime \<Rightarrow> string \<Rightarrow> (int \<Rightarrow> goerr option) \<Rightarrow>
   post list \<Rightarrow> int \<Rightarrow> int \<Rightarrow> 's client \<Rightarrow> service \<Rightarrow> ('s client \<times> service \<times> goerr option) option" where
  "relay_out st cr marshal now name wait [] out seen c s =
    (case setCursor ''seen'' seen s of (s', r) \<Rightarrow> Some (c, s', r))"
| "relay_out st cr marshal now name wait (m # msgs) out seen c s =
    (if isMember s (p_Author m) then
       (case Send st cr marshal now name wait ToLaptop out
               \<lparr>m_Room = p_Room m, m_Author = p_Author m, m_Text = p_Text m, m_Time = p_Time m\<rparr> c of
          None \<Rightarrow> None
        | Some (c', seq, Some e) \<Rightarrow> Some (c', s, Some e)
        | Some (c', seq, None) \<Rightarrow>
            (case setCursor ''to-laptop'' (seq + 1) s of
               (s1, Some e) \<Rightarrow> Some (c', s1, Some e)
             | (s1, None) \<Rightarrow>
                (case setCursor ''seen'' (p_ID m) s1 of
                   (s2, Some e) \<Rightarrow> Some (c', s2, Some e)
                 | (s2, None) \<Rightarrow>
                     relay_out st cr marshal now name wait msgs (seq + 1) (p_ID m) c' s2)))
     else
       (case setCursor ''seen'' (p_ID m) s of
          (s1, Some e) \<Rightarrow> Some (c, s1, Some e)
        | (s1, None) \<Rightarrow> relay_out st cr marshal now name wait msgs out (p_ID m) c s1))"

definition to_mail :: "int \<Rightarrow> service \<Rightarrow> post list" where
  "to_mail seen s =
    by_id (filter (\<lambda>m. p_ID m > seen \<and> p_Room m \<in> set (ch_mail_rooms s)) (ch_messages s))"

text \<open>Everything from \<open>Receive\<close> on, given where mailing starts.\<close>

definition relay_from ::
  "'s store_ops \<Rightarrow> crypto \<Rightarrow> (message \<Rightarrow> string res) \<Rightarrow> (string \<Rightarrow> message option) \<Rightarrow> gotime \<Rightarrow> string \<Rightarrow>
   (int \<Rightarrow> goerr option) \<Rightarrow> (int \<Rightarrow> goerr option) \<Rightarrow> int \<Rightarrow> 's client \<Rightarrow> service \<Rightarrow>
   ('s client \<times> service \<times> goerr option) option" where
  "relay_from st cr marshal unmarshal now name gwait pwait seen c s =
    (case cursor ''to-host'' s of
       (s1, Inl e) \<Rightarrow> Some (c, s1, Some e)
     | (s1, Inr (n, _)) \<Rightarrow>
        (case Receive st cr unmarshal name gwait ToHost n (relay_in now) c s1 of
           None \<Rightarrow> None
         | Some (c1, s2, n', Some e) \<Rightarrow> Some (c1, s2, Some e)
         | Some (c1, s2, n', None) \<Rightarrow>
            (case setCursor ''to-host'' n' s2 of
               (s3, Some e) \<Rightarrow> Some (c1, s3, Some e)
             | (s3, None) \<Rightarrow>
                (case cursor ''to-laptop'' s3 of
                   (s4, Inl e) \<Rightarrow> Some (c1, s4, Some e)
                 | (s4, Inr (out, _)) \<Rightarrow>
                    (case query (to_mail seen) s4 of
                       (s5, Inl e) \<Rightarrow> Some (c1, s5, Some e)
                     | (s5, Inr msgs) \<Rightarrow>
                         relay_out st cr marshal now name pwait msgs out seen c1 s5)))))"

definition RelayMail ::
  "'s store_ops \<Rightarrow> crypto \<Rightarrow> (message \<Rightarrow> string res) \<Rightarrow> (string \<Rightarrow> message option) \<Rightarrow> gotime \<Rightarrow> string \<Rightarrow>
   (int \<Rightarrow> goerr option) \<Rightarrow> (int \<Rightarrow> goerr option) \<Rightarrow> 's client \<Rightarrow> service \<Rightarrow>
   ('s client \<times> service \<times> goerr option) option" where
  "RelayMail st cr marshal unmarshal now name gwait pwait c s =
    (case cursor ''seen'' s of
       (s1, Inl e) \<Rightarrow> Some (c, s1, Some e)
     | (s1, Inr (seen, True)) \<Rightarrow> relay_from st cr marshal unmarshal now name gwait pwait seen c s1
     | (s1, Inr (seen, False)) \<Rightarrow>
        (case db_call s1 of
           (s2, Some e) \<Rightarrow> Some (c, s2, Some (chat_err e))
         | (s2, None) \<Rightarrow> relay_from st cr marshal unmarshal now name gwait pwait (max_id s2) c s2))"

subsection \<open>http.go\<close>

text \<open>A response is a status and either the error text or what is encoded as JSON.\<close>

datatype http_body = HttpError string | HttpPosts "post list" | HttpPost post

type_synonym http_resp = "int \<times> http_body"

definition http_post ::
  "gotime \<Rightarrow> string \<Rightarrow> string \<Rightarrow> string \<Rightarrow> service \<Rightarrow> service \<times> http_resp" where
  "http_post now room author text s =
    (if author = '''' \<or> text = '''' then (s, 400, HttpError ''author and text are required'')
     else case Post now room author text s of
       (s', Inl e) \<Rightarrow> (s', 500, HttpError (err_text e))
     | (s', Inr m) \<Rightarrow> (s', 201, HttpPost m))"

text \<open>
  \<open>strconv.ParseInt(_, 10, 64)\<close> with its error dropped: 0 for a syntax error, the nearest
  int64 out of range.
\<close>

definition max_int64 :: int where "max_int64 = 9223372036854775807"

definition parse_after :: "string \<Rightarrow> int" where
  "parse_after s =
    (let (neg, digits) = (case s of
           [] \<Rightarrow> (False, s)
         | c # r \<Rightarrow> if c = CHR ''-'' then (True, r) else if c = CHR ''+'' then (False, r) else (False, s)) in
     if digits = '''' \<or> \<not> list_all is_digit digits then 0
     else let n = int (digits_val digits) in
       if neg then max (- max_int64 - 1) (- n) else min max_int64 n)"

text \<open>\<open>waited\<close> is what \<open>Wait\<close> returned under the request's timeout, when \<open>wait\<close>
  was a positive duration.\<close>

definition DeadlineExceeded :: goerr where "DeadlineExceeded = Sentinel ''context deadline exceeded''"

definition http_get ::
  "string \<Rightarrow> string \<Rightarrow> (post list \<times> goerr option) option \<Rightarrow> service \<Rightarrow> service \<times> http_resp" where
  "http_get room after waited s =
    (let (s', msgs, err) =
       (case waited of
          Some (msgs, err) \<Rightarrow>
            (s, msgs, (case err of Some e \<Rightarrow> (if err_is e DeadlineExceeded then None else Some e) | None \<Rightarrow> None))
        | None \<Rightarrow> (case Read room (parse_after after) s of
            (s', Inl e) \<Rightarrow> (s', [], Some e)
          | (s', Inr msgs) \<Rightarrow> (s', msgs, None))) in
     case err of
       Some e \<Rightarrow> (s', 500, HttpError (err_text e))
     | None \<Rightarrow> (s', 200, HttpPosts msgs))"

lemma parse_after_itoa: "\<bar>n\<bar> \<le> max_int64 \<Longrightarrow> parse_after (itoa n) = n"
proof -
  assume n: "\<bar>n\<bar> \<le> max_int64"
  have d: "list_all is_digit (nat_digits k)" for k by (rule nat_digits_digits)
  have h: "\<not> is_digit CHR ''-''" "\<not> is_digit CHR ''+''" by (simp_all add: is_digit_def)
  show ?thesis
  proof (cases "n < 0")
    case True
    then show ?thesis using n d by (simp add: parse_after_def itoa_def max_int64_def)
  next
    case False
    obtain c cs where c: "nat_digits (nat n) = c # cs" by (cases "nat_digits (nat n)") auto
    have "c \<noteq> CHR ''-''" "c \<noteq> CHR ''+''" using d[of "nat n"] c h by auto
    moreover have "digits_val (c # cs) = nat n" using c by (metis digits_val_nat_digits)
    ultimately show ?thesis using n False d[of "nat n"]
      unfolding parse_after_def itoa_def by (simp add: c Let_def)
  qed
qed

end
