(* ===== verification/ChatSystem.thy ===== *)
theory ChatSystem
  imports ChatMail
begin

section \<open>The chatroom under concurrent use\<close>

text \<open>
  Posts from any goroutine interleave: the insert is one step, waking under the lock another, and
  the goroutines of inboxes and of \<open>Wait\<close> run between them. \<open>reachable\<close> is what a service
  can get to; its invariant is proved by rule induction.
\<close>

subsection \<open>Who a post wakes\<close>

definition history :: "inbox \<Rightarrow> post list" where
  "history ib = ib_served ib @ (case ib_running ib of None \<Rightarrow> [] | Some m \<Rightarrow> [m]) @ ib_waiting ib"

definition woken_by :: "post \<Rightarrow> string \<Rightarrow> bool" where
  "woken_by m name = (name \<in> set (mentions (p_Text m)) \<and> name \<noteq> p_Author m)"

text \<open>Members' inboxes exist and carry their names, so two members never share one.\<close>

definition members_ok :: "service \<Rightarrow> bool" where
  "members_ok s = (\<forall>name i. map_of (ch_members s) name = Some i \<longrightarrow>
     i < length (ch_inboxes s) \<and> ib_name (ch_inboxes s ! i) = name)"

definition put_waiting :: "post \<Rightarrow> inbox \<Rightarrow> inbox" where
  "put_waiting m ib =
    (if length (ib_waiting ib) < inbox_size then ib\<lparr>ib_waiting := ib_waiting ib @ [m]\<rparr> else ib)"

lemma put_waiting_name [simp]: "ib_name (put_waiting m ib) = ib_name ib"
  by (simp add: put_waiting_def)

lemma offer_frame [simp]:
  "ch_messages (offer i m s) = ch_messages s" "ch_members (offer i m s) = ch_members s"
  "ch_changed (offer i m s) = ch_changed s" "ch_faults (offer i m s) = ch_faults s"
  "ch_canceled (offer i m s) = ch_canceled s" "ch_cursors (offer i m s) = ch_cursors s"
  "ch_mail_rooms (offer i m s) = ch_mail_rooms s"
  "length (ch_inboxes (offer i m s)) = length (ch_inboxes s)"
  by (simp_all add: offer_def Let_def)

lemma offer_inbox:
  "i < length (ch_inboxes s) \<Longrightarrow>
   ch_inboxes (offer i m s) ! j = (if i = j then put_waiting m (ch_inboxes s ! j) else ch_inboxes s ! j)"
  by (auto simp: offer_def Let_def put_waiting_def)

lemma offer_members: "members_ok s \<Longrightarrow> i < length (ch_inboxes s) \<Longrightarrow> members_ok (offer i m s)"
  by (auto simp: members_ok_def offer_inbox)

lemma wake_each_frame [simp]:
  "ch_messages (wake_each m w ns s) = ch_messages s" "ch_members (wake_each m w ns s) = ch_members s"
  "ch_changed (wake_each m w ns s) = ch_changed s" "ch_faults (wake_each m w ns s) = ch_faults s"
  "ch_canceled (wake_each m w ns s) = ch_canceled s" "ch_cursors (wake_each m w ns s) = ch_cursors s"
  "ch_mail_rooms (wake_each m w ns s) = ch_mail_rooms s"
  "length (ch_inboxes (wake_each m w ns s)) = length (ch_inboxes s)"
  by (induction m w ns s rule: wake_each.induct) (auto split: option.splits)

text \<open>The loop offers the message once to each member mentioned that is not the author.\<close>

lemma wake_each_inbox:
  "members_ok s \<Longrightarrow> j < length (ch_inboxes s) \<Longrightarrow>
   ch_inboxes (wake_each m w ns s) ! j =
     (let name = ib_name (ch_inboxes s ! j) in
      if map_of (ch_members s) name = Some j \<and> name \<in> set ns \<and> name \<noteq> p_Author m \<and> name \<notin> set w
      then put_waiting m (ch_inboxes s ! j) else ch_inboxes s ! j)"
proof (induction m w ns s rule: wake_each.induct)
  case (2 m w name names s)
  show ?case
  proof (cases "map_of (ch_members s) name")
    case None
    then show ?thesis using 2 by (auto simp: Let_def)
  next
    case (Some i)
    then have i: "i < length (ch_inboxes s)" "ib_name (ch_inboxes s ! i) = name"
      using 2(4) by (auto simp: members_ok_def)
    show ?thesis
    proof (cases "name = p_Author m \<or> name \<in> set w")
      case True
      then show ?thesis using 2(2)[OF Some True 2(4,5)] Some by (auto simp: Let_def)
    next
      case False
      then have step: "ch_inboxes (wake_each m (name # w) names (offer i m s)) ! j =
        (let n = ib_name (ch_inboxes (offer i m s) ! j) in
         if map_of (ch_members (offer i m s)) n = Some j \<and> n \<in> set names \<and> n \<noteq> p_Author m \<and>
            n \<notin> set (name # w)
         then put_waiting m (ch_inboxes (offer i m s) ! j) else ch_inboxes (offer i m s) ! j)"
        using 2(3)[OF Some False] 2(4,5) i offer_members by simp
      show ?thesis
      proof (cases "i = j")
        case True
        then show ?thesis using Some False i step by (simp add: Let_def offer_inbox)
      next
        case neq: False
        then have "ch_inboxes (offer i m s) ! j = ch_inboxes s ! j" using i(1) by (simp add: offer_inbox)
        moreover have "\<not> (map_of (ch_members s) (ib_name (ch_inboxes s ! j)) = Some j \<and>
            ib_name (ch_inboxes s ! j) = name)" using Some neq by auto
        ultimately show ?thesis using Some False step by (auto simp: Let_def)
      qed
    qed
  qed
qed (simp add: Let_def)

lemma wake_post_frame [simp]:
  "ch_messages (wake_post m s) = ch_messages s" "ch_members (wake_post m s) = ch_members s"
  "ch_changed (wake_post m s) = ch_changed s + 1" "ch_faults (wake_post m s) = ch_faults s"
  "ch_canceled (wake_post m s) = ch_canceled s" "ch_cursors (wake_post m s) = ch_cursors s"
  "ch_mail_rooms (wake_post m s) = ch_mail_rooms s"
  "length (ch_inboxes (wake_post m s)) = length (ch_inboxes s)"
  by (simp_all add: wake_post_def)

lemma wake_post_inbox:
  assumes "members_ok s" "j < length (ch_inboxes s)"
  shows "ch_inboxes (wake_post m s) ! j =
    (let name = ib_name (ch_inboxes s ! j) in
     if map_of (ch_members s) name = Some j \<and> woken_by m name
     then put_waiting m (ch_inboxes s ! j) else ch_inboxes s ! j)"
proof -
  have "members_ok (s\<lparr>ch_changed := ch_changed s + 1\<rparr>)" using assms(1) by (simp add: members_ok_def)
  from wake_each_inbox[OF this, of j m "[]" "mentions (p_Text m)"] assms(2)
  show ?thesis by (simp add: wake_post_def woken_by_def Let_def)
qed

lemma wake_post_name:
  "members_ok s \<Longrightarrow> j < length (ch_inboxes s) \<Longrightarrow>
   ib_name (ch_inboxes (wake_post m s) ! j) = ib_name (ch_inboxes s ! j)"
  by (simp add: wake_post_inbox Let_def)

lemma wake_post_members:
  assumes ok: "members_ok s"
  shows "members_ok (wake_post m s)"
  unfolding members_ok_def
proof (intro allI impI)
  fix name i assume "map_of (ch_members (wake_post m s)) name = Some i"
  then have "i < length (ch_inboxes s)" "ib_name (ch_inboxes s ! i) = name"
    using ok by (auto simp: members_ok_def)
  then show "i < length (ch_inboxes (wake_post m s)) \<and> ib_name (ch_inboxes (wake_post m s) ! i) = name"
    using wake_post_name[OF ok] by simp
qed

subsection \<open>Steps\<close>

datatype wait_phase = Took | Blocked | Returned

record waiter =
  wt_room :: string
  wt_after :: int
  wt_gen :: nat
  wt_phase :: wait_phase

text \<open>
  \<open>rs_pending\<close> are the posts between their insert and their waking, \<open>rs_done\<close> those whose
  \<open>Post\<close> went through.
\<close>

record room_sys =
  rs_svc :: service
  rs_pending :: "post list"
  rs_done :: "post list"
  rs_waiters :: "waiter list"

definition wanted :: "waiter \<Rightarrow> post \<Rightarrow> bool" where
  "wanted w m = (p_Room m = wt_room w \<and> p_ID m > wt_after w)"

inductive rstep :: "room_sys \<Rightarrow> room_sys \<Rightarrow> bool" where
  insert: "insert_post now room author text (rs_svc r) = (s', Inr m) \<Longrightarrow>
    rstep r (r\<lparr>rs_svc := s', rs_pending := rs_pending r @ [m]\<rparr>)"
| insert_fails: "insert_post now room author text (rs_svc r) = (s', Inl e) \<Longrightarrow>
    rstep r (r\<lparr>rs_svc := s'\<rparr>)"
| wake: "rs_pending r = ms @ m # ms' \<Longrightarrow>
    rstep r (r\<lparr>rs_svc := wake_post m (rs_svc r), rs_pending := ms @ ms', rs_done := rs_done r @ [m]\<rparr>)"
| join: "rstep r (r\<lparr>rs_svc := Join name (rs_svc r)\<rparr>)"
| take: "take_next i (rs_svc r) = Some s' \<Longrightarrow> rstep r (r\<lparr>rs_svc := s'\<rparr>)"
| handled: "handled i (rs_svc r) = Some s' \<Longrightarrow> rstep r (r\<lparr>rs_svc := s'\<rparr>)"
| leave: "leave i (rs_svc r) = Some s' \<Longrightarrow> rstep r (r\<lparr>rs_svc := s'\<rparr>)"
| cancel: "rstep r (r\<lparr>rs_svc := cancel (rs_svc r)\<rparr>)"
| wait: "rstep r (r\<lparr>rs_waiters := rs_waiters r @
    [\<lparr>wt_room = room, wt_after = after, wt_gen = ch_changed (rs_svc r), wt_phase = Took\<rparr>]\<rparr>)"
| wait_reads: "i < length (rs_waiters r) \<Longrightarrow> w = rs_waiters r ! i \<Longrightarrow> wt_phase w = Took \<Longrightarrow>
    Read (wt_room w) (wt_after w) (rs_svc r) = (s', x) \<Longrightarrow>
    rstep r (r\<lparr>rs_svc := s', rs_waiters := (rs_waiters r)[i := w\<lparr>wt_phase :=
      (case x of Inr [] \<Rightarrow> Blocked | _ \<Rightarrow> Returned)\<rparr>]\<rparr>)"
| wait_wakes: "i < length (rs_waiters r) \<Longrightarrow> w = rs_waiters r ! i \<Longrightarrow> wt_phase w = Blocked \<Longrightarrow>
    wt_gen w < ch_changed (rs_svc r) \<Longrightarrow>
    rstep r (r\<lparr>rs_waiters := (rs_waiters r)[i := w\<lparr>wt_gen := ch_changed (rs_svc r), wt_phase := Took\<rparr>]\<rparr>)"
| wait_ends: "i < length (rs_waiters r) \<Longrightarrow> w = rs_waiters r ! i \<Longrightarrow> wt_phase w = Blocked \<Longrightarrow>
    rstep r (r\<lparr>rs_waiters := (rs_waiters r)[i := w\<lparr>wt_phase := Returned\<rparr>]\<rparr>)"
| read: "Read room after (rs_svc r) = (s', x) \<Longrightarrow> rstep r (r\<lparr>rs_svc := s'\<rparr>)"

inductive_cases rstepE: "rstep r r'"

inductive room_reachable :: "room_sys \<Rightarrow> bool" where
  start: "room_reachable \<lparr>rs_svc = Open faults, rs_pending = [], rs_done = [], rs_waiters = []\<rparr>"
| next_step: "room_reachable r \<Longrightarrow> rstep r r' \<Longrightarrow> room_reachable r'"

subsection \<open>The invariant\<close>

definition ids_ok :: "service \<Rightarrow> bool" where
  "ids_ok s = (sorted_wrt (<) (map p_ID (ch_messages s)) \<and> (\<forall>m \<in> set (ch_messages s). 0 < p_ID m))"

definition inbox_ok :: "post list \<Rightarrow> inbox \<Rightarrow> bool" where
  "inbox_ok done ib = (length (ib_waiting ib) \<le> inbox_size \<and> distinct (history ib) \<and>
     (\<forall>m \<in> set (history ib). m \<in> set done \<and> woken_by m (ib_name ib)))"

definition waiter_ok :: "room_sys \<Rightarrow> waiter \<Rightarrow> bool" where
  "waiter_ok r w = (wt_gen w \<le> ch_changed (rs_svc r) \<and>
     (wt_phase w = Blocked \<longrightarrow> (\<forall>m \<in> set (rs_done r). wanted w m \<longrightarrow> wt_gen w < ch_changed (rs_svc r))))"

definition room_inv :: "room_sys \<Rightarrow> bool" where
  "room_inv r = (members_ok (rs_svc r) \<and> ids_ok (rs_svc r) \<and>
     distinct (rs_done r @ rs_pending r) \<and>
     set (rs_done r @ rs_pending r) \<subseteq> set (ch_messages (rs_svc r)) \<and>
     list_all (inbox_ok (rs_done r)) (ch_inboxes (rs_svc r)) \<and>
     list_all (waiter_ok r) (rs_waiters r))"

lemma ids_sorted:
  assumes "ids_ok s"
  shows "by_id (filter P (ch_messages s)) = filter P (ch_messages s)"
proof -
  have "sorted (map p_ID (filter P (ch_messages s)))"
    using assms sorted_wrt_filter[of "\<lambda>a b. p_ID a < p_ID b" "ch_messages s" P]
    by (auto simp: ids_ok_def sorted_wrt_map intro: sorted_wrt_mono_rel[of _ "\<lambda>a b. p_ID a < p_ID b"])
  then show ?thesis by (simp add: by_id_def sorted_sort_id sort_key_id_if_sorted)
qed

lemma max_id_last:
  assumes "ids_ok s" "m \<in> set (ch_messages s)"
  shows "p_ID m < max_id s + 1"
  using max_id_upper[OF assms(2)] by simp

lemma insert_post_cases:
  assumes "insert_post now room author text s = (s', x)"
  obtains (failed) e where "same_data s s'" "x = Inl e"
  | (stored) m s1 where "same_data s s1" "same_data (s1\<lparr>ch_messages := ch_messages s1 @ [m]\<rparr>) s'"
      "p_ID m = max_id s + 1" "x = Inr m \<or> (\<exists>e. x = Inl e)"
      "m = \<lparr>p_ID = max_id s + 1, p_Room = room, p_Author = author, p_Text = text, p_Time = now\<rparr>"
proof -
  let ?m = "\<lparr>p_ID = max_id s + 1, p_Room = room, p_Author = author, p_Text = text, p_Time = now\<rparr>"
  obtain s1 r1 where 1: "db_call s = (s1, r1)" by (metis prod.exhaust)
  obtain s2 r2 where 2: "db_call (s1\<lparr>ch_messages := ch_messages s1 @ [?m]\<rparr>) = (s2, r2)" by (metis prod.exhaust)
  show thesis
  proof (cases r1)
    case (Some e)
    then have "s' = s1" "x = Inl (chat_err e)" using assms 1 by (auto simp: insert_post_def Let_def)
    then show thesis using failed db_call_data[OF 1] by blast
  next
    case None
    then have "s' = s2" "x = (case r2 of Some e \<Rightarrow> Inl (chat_err e) | None \<Rightarrow> Inr ?m)"
      using assms 1 2 by (auto simp: insert_post_def Let_def split: option.splits)
    moreover have "x = Inr ?m \<or> (\<exists>e. x = Inl e)" using calculation(2) by (cases r2) auto
    ultimately show thesis using stored[OF db_call_data[OF 1], of ?m] db_call_data[OF 2] by simp
  qed
qed

lemma ids_append:
  assumes "ids_ok s" "p_ID m = max_id s + 1" "ch_messages s' = ch_messages s @ [m]"
  shows "ids_ok s'" "m \<notin> set (ch_messages s)"
proof -
  have "0 \<le> max_id s" by (simp add: max_id_def foldl_max_ge)
  then show "ids_ok s'" using assms max_id_last[OF assms(1)]
    by (auto simp: ids_ok_def sorted_wrt_append)
  show "m \<notin> set (ch_messages s)" using max_id_last[OF assms(1)] assms(2) by force
qed

subsection \<open>Every step keeps it\<close>

lemma inbox_ok_more: "inbox_ok d ib \<Longrightarrow> set d \<subseteq> set d' \<Longrightarrow> inbox_ok d' ib"
  by (auto simp: inbox_ok_def)

lemma inbox_ok_offered:
  assumes "inbox_ok d ib" "m \<notin> set d"
  shows "inbox_ok (d @ [m]) (if woken_by m (ib_name ib) then put_waiting m ib else ib)"
proof -
  have "m \<notin> set (history ib)" using assms by (auto simp: inbox_ok_def)
  then show ?thesis using assms(1)
    by (auto simp: inbox_ok_def put_waiting_def history_def split: option.splits)
qed

lemma room_inv_data:
  assumes "room_inv r" "same_data (rs_svc r) s'"
  shows "room_inv (r\<lparr>rs_svc := s'\<rparr>)"
  using assms same_dataD[OF assms(2)]
  by (simp add: room_inv_def members_ok_def ids_ok_def waiter_ok_def list_all_iff)

lemma room_inv_inboxes:
  assumes "room_inv r" "ch_messages s' = ch_messages (rs_svc r)" "ch_changed s' = ch_changed (rs_svc r)"
    "members_ok s'" "list_all (inbox_ok (rs_done r)) (ch_inboxes s')"
  shows "room_inv (r\<lparr>rs_svc := s'\<rparr>)"
  using assms by (simp add: room_inv_def ids_ok_def waiter_ok_def list_all_iff)

lemma room_inv_insert:
  assumes "room_inv r" "insert_post now room author text (rs_svc r) = (s', x)"
  shows "room_inv (r\<lparr>rs_svc := s'\<rparr>)"
    and "x = Inr m \<Longrightarrow> room_inv (r\<lparr>rs_svc := s', rs_pending := rs_pending r @ [m]\<rparr>)"
proof -
  have "room_inv (r\<lparr>rs_svc := s'\<rparr>) \<and>
      (x = Inr m \<longrightarrow> room_inv (r\<lparr>rs_svc := s', rs_pending := rs_pending r @ [m]\<rparr>))"
    using assms(2)
  proof (cases rule: insert_post_cases)
    case (failed e) then show ?thesis using room_inv_data assms(1) by auto
  next
    case (stored m' s1)
    have ms: "ch_messages s' = ch_messages (rs_svc r) @ [m']" and
      fr: "ch_members s' = ch_members (rs_svc r)" "ch_inboxes s' = ch_inboxes (rs_svc r)"
        "ch_changed s' = ch_changed (rs_svc r)"
      using same_dataD[OF stored(1)] same_dataD[OF stored(2)] by simp_all
    have "ids_ok (rs_svc r)" using assms(1) by (simp add: room_inv_def)
    note ids = ids_append[OF this stored(3) ms]
    have "members_ok s'" using assms(1) fr by (simp add: room_inv_def members_ok_def)
    moreover have "m' \<notin> set (rs_done r @ rs_pending r)" using assms(1) ids(2) by (auto simp: room_inv_def)
    ultimately show ?thesis using assms(1) ids ms fr stored(4)
      by (auto simp: room_inv_def waiter_ok_def list_all_iff)
  qed
  then show "room_inv (r\<lparr>rs_svc := s'\<rparr>)"
    "x = Inr m \<Longrightarrow> room_inv (r\<lparr>rs_svc := s', rs_pending := rs_pending r @ [m]\<rparr>)" by auto
qed

lemma room_inv_wake:
  assumes "room_inv r" "rs_pending r = ms @ m # ms'"
  shows "room_inv (r\<lparr>rs_svc := wake_post m (rs_svc r), rs_pending := ms @ ms', rs_done := rs_done r @ [m]\<rparr>)"
proof -
  let ?s = "rs_svc r"
  have ok: "members_ok ?s" and new: "m \<notin> set (rs_done r)"
    using assms by (auto simp: room_inv_def)
  have "inbox_ok (rs_done r @ [m]) (ch_inboxes (wake_post m ?s) ! j)" if j: "j < length (ch_inboxes ?s)" for j
  proof -
    have old: "inbox_ok (rs_done r) (ch_inboxes ?s ! j)"
      using assms(1) j by (auto simp: room_inv_def list_all_nth)
    show ?thesis
    proof (cases "woken_by m (ib_name (ch_inboxes ?s ! j)) \<and>
        map_of (ch_members ?s) (ib_name (ch_inboxes ?s ! j)) = Some j")
      case True
      then show ?thesis using inbox_ok_offered[OF old new] by (simp add: wake_post_inbox[OF ok j] Let_def)
    next
      case False
      then have "ch_inboxes (wake_post m ?s) ! j = ch_inboxes ?s ! j"
        using wake_post_inbox[OF ok j, of m] by (auto simp: Let_def)
      moreover have "set (rs_done r) \<subseteq> set (rs_done r @ [m])" by auto
      ultimately show ?thesis using inbox_ok_more[OF old] by metis
    qed
  qed
  then have "list_all (inbox_ok (rs_done r @ [m])) (ch_inboxes (wake_post m ?s))"
    by (simp add: list_all_length)
  moreover have "members_ok (wake_post m ?s)" using wake_post_members[OF ok] .
  ultimately show ?thesis using assms
    by (auto simp: room_inv_def ids_ok_def waiter_ok_def list_all_iff)
qed

lemma inbox_step:
  assumes "room_inv r" "i < length (ch_inboxes (rs_svc r))"
    "ib_name ib' = ib_name (ch_inboxes (rs_svc r) ! i)" "history ib' = history (ch_inboxes (rs_svc r) ! i)"
    "length (ib_waiting ib') \<le> length (ib_waiting (ch_inboxes (rs_svc r) ! i))"
  shows "room_inv (r\<lparr>rs_svc := (rs_svc r)\<lparr>ch_inboxes := (ch_inboxes (rs_svc r))[i := ib']\<rparr>\<rparr>)"
proof (rule room_inv_inboxes[OF assms(1)])
  show "members_ok ((rs_svc r)\<lparr>ch_inboxes := (ch_inboxes (rs_svc r))[i := ib']\<rparr>)"
    using assms by (auto simp: room_inv_def members_ok_def nth_list_update)
  have "inbox_ok (rs_done r) (ch_inboxes (rs_svc r) ! i)"
    using assms(1,2) by (auto simp: room_inv_def list_all_nth)
  then have "inbox_ok (rs_done r) ib'" using assms(3-5) by (auto simp: inbox_ok_def)
  then show "list_all (inbox_ok (rs_done r))
      (ch_inboxes ((rs_svc r)\<lparr>ch_inboxes := (ch_inboxes (rs_svc r))[i := ib']\<rparr>))"
    using assms(1) by (simp add: room_inv_def list_all_update)
qed simp_all

lemma room_inv_join: "room_inv r \<Longrightarrow> room_inv (r\<lparr>rs_svc := Join name (rs_svc r)\<rparr>)"
  by (rule room_inv_inboxes)
     (auto simp: Join_def room_inv_def members_ok_def nth_append inbox_ok_def history_def
        intro: less_SucI)

lemma room_inv_goroutine:
  assumes "room_inv r" "take_next i (rs_svc r) = Some s' \<or> handled i (rs_svc r) = Some s' \<or> leave i (rs_svc r) = Some s'"
  shows "room_inv (r\<lparr>rs_svc := s'\<rparr>)"
  using assms(2)
proof (elim disjE)
  assume "take_next i (rs_svc r) = Some s'"
  then show ?thesis
    by (auto simp: take_next_def Let_def history_def split: if_splits list.splits
        intro!: inbox_step[OF assms(1)])
next
  assume "handled i (rs_svc r) = Some s'"
  then show ?thesis
    by (auto simp: handled_def Let_def history_def split: if_splits option.splits
        intro!: inbox_step[OF assms(1)])
next
  assume "leave i (rs_svc r) = Some s'"
  then show ?thesis
    by (auto simp: leave_def Let_def history_def split: if_splits intro!: inbox_step[OF assms(1)])
qed

lemma room_inv_waiters:
  assumes "room_inv r" "list_all (waiter_ok r) ws"
  shows "room_inv (r\<lparr>rs_waiters := ws\<rparr>)"
  using assms by (auto simp: room_inv_def waiter_ok_def list_all_iff)

lemma Read_data: "Read room after s = (s', x) \<Longrightarrow> same_data s s'"
  unfolding Read_def by (rule query_data)

lemma Read_result:
  assumes "Read room after s = (s', Inr ms)" "ids_ok s"
  shows "ms = filter (\<lambda>m. p_Room m = room \<and> p_ID m > after) (ch_messages s)"
proof -
  obtain s1 where "same_data s s1" "ms = by_id (filter (\<lambda>m. p_Room m = room \<and> p_ID m > after) (ch_messages s1))"
    using query_result assms(1) unfolding Read_def by blast
  then show ?thesis using ids_sorted[OF assms(2)] by (simp add: same_data_def)
qed

lemma room_inv_waits:
  assumes "room_inv r" "i < length (rs_waiters r)" "w = rs_waiters r ! i"
    "Read (wt_room w) (wt_after w) (rs_svc r) = (s', x)"
  shows "room_inv (r\<lparr>rs_svc := s', rs_waiters := (rs_waiters r)[i := w\<lparr>wt_phase :=
      (case x of Inr [] \<Rightarrow> Blocked | _ \<Rightarrow> Returned)\<rparr>]\<rparr>)"
proof -
  have ids: "ids_ok (rs_svc r)" and sub: "set (rs_done r) \<subseteq> set (ch_messages (rs_svc r))"
    and w: "waiter_ok r w"
    using assms(1-3) by (auto simp: room_inv_def list_all_nth)
  have none: "\<not> wanted w m" if "x = Inr []" "m \<in> set (rs_done r)" for m
  proof -
    have "filter (\<lambda>m. p_Room m = wt_room w \<and> p_ID m > wt_after w) (ch_messages (rs_svc r)) = []"
      using Read_result[OF _ ids] assms(4) that(1) by metis
    then show ?thesis using that(2) sub by (auto simp: filter_empty_conv wanted_def)
  qed
  let ?w = "w\<lparr>wt_phase := (case x of Inr [] \<Rightarrow> Blocked | _ \<Rightarrow> Returned)\<rparr>"
  have "wanted ?w m = wanted w m" for m by (simp add: wanted_def)
  then have "waiter_ok r ?w" using w none
    by (auto simp: waiter_ok_def split: sum.splits list.splits)
  then have ws: "list_all (waiter_ok r) ((rs_waiters r)[i := ?w])"
    using assms(1) by (simp add: room_inv_def list_all_update)
  have same: "same_data (rs_svc r) s'" by (rule Read_data[OF assms(4)])
  have "room_inv (r\<lparr>rs_svc := s'\<rparr>)" by (rule room_inv_data[OF assms(1) same])
  moreover have "list_all (waiter_ok (r\<lparr>rs_svc := s'\<rparr>)) ((rs_waiters r)[i := ?w])"
    using ws same_dataD[OF same] by (simp add: waiter_ok_def list_all_iff)
  ultimately show ?thesis by (rule room_inv_waiters)
qed

lemma rstep_inv: "rstep r r' \<Longrightarrow> room_inv r \<Longrightarrow> room_inv r'"
proof (induction rule: rstep.induct)
  case (cancel r)
  then show ?case by (intro room_inv_inboxes) (auto simp: cancel_def room_inv_def members_ok_def)
next
  case (wait r room after)
  then show ?case by (intro room_inv_waiters) (auto simp: room_inv_def waiter_ok_def)
next
  case (wait_wakes i r w)
  then have "waiter_ok r (w\<lparr>wt_gen := ch_changed (rs_svc r), wt_phase := Took\<rparr>)" by (simp add: waiter_ok_def)
  then show ?case using wait_wakes by (intro room_inv_waiters) (auto simp: room_inv_def intro: list_all_update)
next
  case (wait_ends i r w)
  then have "waiter_ok r (w\<lparr>wt_phase := Returned\<rparr>)"
    by (auto simp: room_inv_def waiter_ok_def list_all_length)
  then show ?case using wait_ends by (intro room_inv_waiters) (auto simp: room_inv_def intro: list_all_update)
next
  case (read room after r s' x)
  then show ?case using room_inv_data Read_data by blast
qed (auto intro: room_inv_insert room_inv_wake room_inv_join room_inv_goroutine room_inv_waits)

lemma room_reachable_inv: "room_reachable r \<Longrightarrow> room_inv r"
proof (induction rule: room_reachable.induct)
  case (start faults)
  then show ?case by (simp add: room_inv_def Open_def members_ok_def ids_ok_def)
qed (rule rstep_inv)

end
