(* ===== verification/ChatRelay.thy ===== *)
theory ChatRelay
  imports ChatSystem
begin

section \<open>One pass of the mail bridge\<close>

text \<open>
  What \<open>RelayMail\<close> does when nothing fails, over a store that answers exactly: lemmas for the
  property of a complete pass.
\<close>

definition same_tables :: "service \<Rightarrow> service \<Rightarrow> bool" where
  "same_tables s s' = (ch_messages s' = ch_messages s \<and> ch_mail_rooms s' = ch_mail_rooms s \<and>
     ch_members s' = ch_members s \<and> ch_faults s' = [])"

text \<open>What is posted for a mail, and mailed for a post.\<close>

definition mail_triple :: "message \<Rightarrow> string \<times> string \<times> string" where
  "mail_triple m = (m_Room m, m_Author m, m_Text m)"

definition post_triple :: "post \<Rightarrow> string \<times> string \<times> string" where
  "post_triple p = (p_Room p, p_Author p, p_Text p)"

definition mail_form :: "gotime \<Rightarrow> post \<Rightarrow> message" where
  "mail_form now p = \<lparr>m_Room = p_Room p, m_Author = p_Author p, m_Text = p_Text p,
     m_Time = (if p_Time p = zero_time then now else p_Time p)\<rparr>"

definition accepted :: "message option list \<Rightarrow> message list" where
  "accepted ms = map the (filter (\<lambda>m. m \<noteq> None) ms)"

lemma accepted_simps [simp]:
  "accepted [] = []" "accepted (None # ms) = accepted ms" "accepted (Some m # ms) = m # accepted ms"
  by (simp_all add: accepted_def)

lemma setCursor_quiet:
  "ch_faults s = [] \<Longrightarrow> setCursor name n s = (s\<lparr>ch_cursors := AList.update name n (ch_cursors s)\<rparr>, None)"
  by (simp add: setCursor_def db_exec_def)

lemma cursor_quiet:
  "ch_faults s = [] \<Longrightarrow> cursor name s =
    (s, Inr (case map_of (ch_cursors s) name of None \<Rightarrow> (0, False) | Some n \<Rightarrow> (n, True)))"
  by (simp add: cursor_def split: option.splits)

lemma Post_quiet:
  assumes "ch_faults s = []"
  shows "\<exists>m. Post now room author text s = (wake_post m (s\<lparr>ch_messages := ch_messages s @ [m]\<rparr>), Inr m) \<and>
    post_triple m = (room, author, text) \<and> p_ID m = max_id s + 1"
  using assms by (simp add: Post_def insert_post_def post_triple_def Let_def)

lemma relay_in_quiet:
  assumes "ch_faults s = []" "ids_ok s"
  obtains s' p where "relay_in now n m s = (s', None)" "ch_faults s' = []" "ids_ok s'"
    "ch_members s' = ch_members s" "ch_messages s' = ch_messages s @ [p]" "post_triple p = mail_triple m"
    "\<forall>k. k \<noteq> ''to-host'' \<longrightarrow> map_of (ch_cursors s') k = map_of (ch_cursors s) k"
    "set (ch_mail_rooms s') = insert (m_Room m) (set (ch_mail_rooms s))"
proof -
  obtain p where p: "Post now (m_Room m) (m_Author m) (m_Text m) s =
      (wake_post p (s\<lparr>ch_messages := ch_messages s @ [p]\<rparr>), Inr p)"
    "post_triple p = (m_Room m, m_Author m, m_Text m)" "p_ID p = max_id s + 1"
    using Post_quiet[OF assms(1)] by blast
  let ?s1 = "wake_post p (s\<lparr>ch_messages := ch_messages s @ [p]\<rparr>)"
  let ?s2 = "add_mail_room (m_Room m) ?s1"
  let ?s3 = "?s2\<lparr>ch_cursors := AList.update ''to-host'' (n + 1) (ch_cursors ?s2)\<rparr>"
  have q: "ch_faults ?s1 = []" "ch_faults ?s2 = []" using assms(1) by (simp_all add: add_mail_room_def)
  have "relay_in now n m s = (?s3, None)"
    using p(1) q by (simp add: relay_in_def db_exec_def setCursor_quiet)
  moreover have "ids_ok ?s3" using ids_append(1)[OF assms(2) p(3), of ?s3] by (simp add: add_mail_room_def)
  moreover have "ch_cursors ?s2 = ch_cursors s" by (simp add: add_mail_room_def)
  ultimately show thesis using q(2) p(2)
    by (intro that[of ?s3 p]) (auto simp: mail_triple_def add_mail_room_def)
qed

lemma deliver_relay:
  "ch_faults s = [] \<Longrightarrow> ids_ok s \<Longrightarrow>
   \<exists>s' ps. deliver (relay_in now) ms n s = (s', n + int (length ms), None) \<and> ch_faults s' = [] \<and> ids_ok s' \<and>
     ch_members s' = ch_members s \<and> ch_messages s' = ch_messages s @ ps \<and>
     map post_triple ps = map mail_triple (accepted ms) \<and>
     (\<forall>k. k \<noteq> ''to-host'' \<longrightarrow> map_of (ch_cursors s') k = map_of (ch_cursors s) k) \<and>
     set (ch_mail_rooms s') = set (ch_mail_rooms s) \<union> set (map m_Room (accepted ms))"
proof (induction ms arbitrary: n s)
  case (Cons om ms)
  show ?case
  proof (cases om)
    case None
    then show ?thesis using Cons.IH[OF Cons.prems, of "n + 1"] by (simp add: algebra_simps)
  next
    case (Some m)
    obtain s1 p where 1: "relay_in now n m s = (s1, None)" "ch_faults s1 = []" "ids_ok s1"
      "ch_members s1 = ch_members s" "ch_messages s1 = ch_messages s @ [p]" "post_triple p = mail_triple m"
      "\<forall>k. k \<noteq> ''to-host'' \<longrightarrow> map_of (ch_cursors s1) k = map_of (ch_cursors s) k"
      "set (ch_mail_rooms s1) = insert (m_Room m) (set (ch_mail_rooms s))"
      using relay_in_quiet[OF Cons.prems] by blast
    obtain s' ps where 2: "deliver (relay_in now) ms (n + 1) s1 = (s', n + 1 + int (length ms), None)"
      "ch_faults s' = []" "ids_ok s'" "ch_members s' = ch_members s1" "ch_messages s' = ch_messages s1 @ ps"
      "map post_triple ps = map mail_triple (accepted ms)"
      "\<forall>k. k \<noteq> ''to-host'' \<longrightarrow> map_of (ch_cursors s') k = map_of (ch_cursors s1) k"
      "set (ch_mail_rooms s') = set (ch_mail_rooms s1) \<union> set (map m_Room (accepted ms))"
      using Cons.IH[OF 1(2,3)] by blast
    show ?thesis using 1 2 Some by (intro exI[of _ s'] exI[of _ "p # ps"]) (simp add: algebra_simps)
  qed
qed simp

definition mailed :: "service \<Rightarrow> post list \<Rightarrow> post list" where
  "mailed s msgs = filter (\<lambda>m. isMember s (p_Author m)) msgs"

lemma mailed_simps [simp]:
  "mailed s [] = []"
  "mailed s (m # ms) = (if isMember s (p_Author m) then m # mailed s ms else mailed s ms)"
  by (simp_all add: mailed_def)

context exact_store
begin

lemma Send_quiet:
  assumes "objs c (box_key box next) = None" "\<And>m. \<exists>b. marshal m = Inr b"
  obtains c' b t where "Send st cr marshal now name (\<lambda>_. None) box next m c = Some (c', next, None)"
    "marshal (if m_Time m = zero_time then m\<lparr>m_Time := now\<rparr> else m) = Inr b" "same_identity c c'"
    "objs c' = (objs c)(box_key box next \<mapsto> sealed cr (cl_key c) (box_key box next) b t)"
proof -
  obtain b where b: "marshal (if m_Time m = zero_time then m\<lparr>m_Time := now\<rparr> else m) = Inr b"
    using assms(2) by blast
  have "\<forall>i < (0 :: nat). objs c (box_key box (next + int i)) \<noteq> None"
    "objs c (box_key box (next + int 0)) = None" using assms(1) by auto
  from send_loop_free[OF _ this, where wait = "\<lambda>_. None"] obtain c1 t where
    "loop (send_step st cr name (\<lambda>_. None) box b) (next, c) = Some (c1, next, None)"
    "same_identity c c1" "objs c1 = (objs c)(box_key box next \<mapsto> sealed cr (cl_key c) (box_key box next) b t)"
    by (metis add.right_neutral of_nat_0)
  then show thesis using b by (intro that[of c1 b t]) (simp_all add: Send_def Let_def)
qed

lemma relay_out_quiet:
  "ch_faults s = [] \<Longrightarrow> (\<forall>k \<ge> out. objs c (box_key ToLaptop k) = None) \<Longrightarrow> (\<And>m. \<exists>b. marshal m = Inr b) \<Longrightarrow>
   \<exists>c' s'. relay_out st cr marshal now name (\<lambda>_. None) msgs out seen c s = Some (c', s', None) \<and>
     same_tables s s' \<and> same_identity c c' \<and>
     map_of (ch_cursors s') ''seen'' = Some (last (seen # map p_ID msgs)) \<and>
     map_of (ch_cursors s') ''to-host'' = map_of (ch_cursors s) ''to-host'' \<and>
     (mailed s msgs \<noteq> [] \<longrightarrow>
        map_of (ch_cursors s') ''to-laptop'' = Some (out + int (length (mailed s msgs)))) \<and>
     (mailed s msgs = [] \<longrightarrow> map_of (ch_cursors s') ''to-laptop'' = map_of (ch_cursors s) ''to-laptop'') \<and>
     (\<forall>i < length (mailed s msgs). \<exists>b t. marshal (mail_form now (mailed s msgs ! i)) = Inr b \<and>
        objs c' (box_key ToLaptop (out + int i)) =
          Some (sealed cr (cl_key c) (box_key ToLaptop (out + int i)) b t)) \<and>
     (\<forall>k. (\<forall>i < length (mailed s msgs). k \<noteq> box_key ToLaptop (out + int i)) \<longrightarrow> objs c' k = objs c k)"
proof (induction msgs arbitrary: out seen c s)
  case Nil
  then show ?case by (simp add: setCursor_quiet same_tables_def same_identity_def)
next
  case (Cons m msgs)
  have mf: "(if m_Time x = zero_time then x\<lparr>m_Time := now\<rparr> else x) = mail_form now m"
    if "x = \<lparr>m_Room = p_Room m, m_Author = p_Author m, m_Text = p_Text m, m_Time = p_Time m\<rparr>" for x
    using that by (simp add: mail_form_def)
  show ?case
  proof (cases "isMember s (p_Author m)")
    case False
    let ?s1 = "s\<lparr>ch_cursors := AList.update ''seen'' (p_ID m) (ch_cursors s)\<rparr>"
    have "mailed ?s1 msgs = mailed s msgs" by (simp add: mailed_def isMember_def)
    then show ?thesis
      using Cons.IH[of ?s1 out c "p_ID m"] Cons.prems False
      by (simp add: setCursor_quiet same_tables_def)
  next
    case True
    let ?m = "\<lparr>m_Room = p_Room m, m_Author = p_Author m, m_Text = p_Text m, m_Time = p_Time m\<rparr>"
    obtain c1 b t where c1: "Send st cr marshal now name (\<lambda>_. None) ToLaptop out ?m c = Some (c1, out, None)"
      "marshal (mail_form now m) = Inr b" "same_identity c c1"
      "objs c1 = (objs c)(box_key ToLaptop out \<mapsto> sealed cr (cl_key c) (box_key ToLaptop out) b t)"
    proof (rule Send_quiet[of c ToLaptop out marshal cr now name ?m])
      show "objs c (box_key ToLaptop out) = None" using Cons.prems(2) by simp
      show "\<exists>b. marshal m = Inr b" for m by (rule Cons.prems(3))
    qed (use that mf[OF refl] in auto)
    let ?s1 = "s\<lparr>ch_cursors := AList.update ''to-laptop'' (out + 1) (ch_cursors s)\<rparr>"
    let ?s2 = "?s1\<lparr>ch_cursors := AList.update ''seen'' (p_ID m) (ch_cursors ?s1)\<rparr>"
    have s2: "mailed ?s2 msgs = mailed s msgs" by (simp add: mailed_def isMember_def)
    have free: "\<forall>k \<ge> out + 1. objs c1 (box_key ToLaptop k) = None" using Cons.prems(2) c1(4) by auto
    obtain c' s' where r: "relay_out st cr marshal now name (\<lambda>_. None) msgs (out + 1) (p_ID m) c1 ?s2 =
        Some (c', s', None)"
      "same_tables ?s2 s'" "same_identity c1 c'"
      "map_of (ch_cursors s') ''seen'' = Some (last (p_ID m # map p_ID msgs))"
      "map_of (ch_cursors s') ''to-host'' = map_of (ch_cursors ?s2) ''to-host''"
      "mailed s msgs \<noteq> [] \<longrightarrow>
        map_of (ch_cursors s') ''to-laptop'' = Some (out + 1 + int (length (mailed s msgs)))"
      "mailed s msgs = [] \<longrightarrow> map_of (ch_cursors s') ''to-laptop'' = map_of (ch_cursors ?s2) ''to-laptop''"
      "\<forall>i < length (mailed s msgs). \<exists>b t. marshal (mail_form now (mailed s msgs ! i)) = Inr b \<and>
        objs c' (box_key ToLaptop (out + 1 + int i)) =
          Some (sealed cr (cl_key c1) (box_key ToLaptop (out + 1 + int i)) b t)"
      "\<forall>k. (\<forall>i < length (mailed s msgs). k \<noteq> box_key ToLaptop (out + 1 + int i)) \<longrightarrow> objs c' k = objs c1 k"
      using Cons.IH[OF _ free Cons.prems(3), of ?s2 "p_ID m"] Cons.prems(1) unfolding s2 by auto
    have key: "cl_key c1 = cl_key c" using c1(3) by (simp add: same_identity_def)
    have sent: "\<exists>b t. marshal (mail_form now (mailed s (m # msgs) ! i)) = Inr b \<and>
        objs c' (box_key ToLaptop (out + int i)) =
          Some (sealed cr (cl_key c) (box_key ToLaptop (out + int i)) b t)"
      if "i < length (mailed s (m # msgs))" for i
    proof (cases i)
      case 0
      have "objs c' (box_key ToLaptop out) = objs c1 (box_key ToLaptop out)" using r(9) by auto
      then show ?thesis using 0 True c1(2,4) by auto
    next
      case (Suc j)
      then have "j < length (mailed s msgs)" using that True by simp
      from r(8)[rule_format, OF this] show ?thesis using Suc True key by (auto simp: algebra_simps)
    qed
    have frame: "objs c' k = objs c k"
      if "\<forall>i < length (mailed s (m # msgs)). k \<noteq> box_key ToLaptop (out + int i)" for k
    proof -
      have "k \<noteq> box_key ToLaptop (out + 1 + int i)" if "i < length (mailed s msgs)" for i
        using \<open>\<forall>i < length (mailed s (m # msgs)). k \<noteq> box_key ToLaptop (out + int i)\<close>[rule_format, of "Suc i"]
          that True by (simp add: algebra_simps)
      moreover have "k \<noteq> box_key ToLaptop out" using that[rule_format, of 0] True by simp
      ultimately show ?thesis using r(9) c1(4) by simp
    qed
    have run: "relay_out st cr marshal now name (\<lambda>_. None) (m # msgs) out seen c s = Some (c', s', None)"
      using True c1(1) r(1) Cons.prems(1) by (simp add: setCursor_quiet)
    show ?thesis
      using run r(2-7) sent frame True c1(3)
      by (intro exI[of _ c'] exI[of _ s'] conjI allI impI)
         (auto simp: same_tables_def same_identity_def split: if_splits)
  qed
qed

end

end
