(* ===== verification/Chatroom.thy ===== *)
theory Chatroom
  imports ChatRelay
begin

section \<open>What the chatroom promises\<close>

text \<open>
  Mentions wake whom they name, waiting misses nothing, reading is in order, and a mail pass carries
  everything exactly once when nothing fails; and the one case where replies are lost.
\<close>

text \<open>A service with a member, a post that mentions it twice, and a reader blocked before it.\<close>

definition demo_text :: string where "demo_text = ''hi @grug, @nobody and @grug!''"

definition demo_post :: post where
  "demo_post = \<lparr>p_ID = 1, p_Room = ''cave'', p_Author = ''maik'', p_Text = demo_text, p_Time = 5\<rparr>"

abbreviation demo_start :: room_sys where
  "demo_start \<equiv> \<lparr>rs_svc = Open [], rs_pending = [], rs_done = [], rs_waiters = []\<rparr>"

definition demo_joined :: room_sys where
  "demo_joined = demo_start\<lparr>rs_svc := Join ''grug'' (Open [])\<rparr>"

definition demo_waiter :: waiter where
  "demo_waiter = \<lparr>wt_room = ''cave'', wt_after = 0, wt_gen = 0, wt_phase = Blocked\<rparr>"

definition demo_room :: room_sys where
  "demo_room = \<lparr>rs_svc = wake_post demo_post ((Join ''grug'' (Open []))\<lparr>ch_messages := [demo_post]\<rparr>),
     rs_pending = [], rs_done = [demo_post], rs_waiters = [demo_waiter]\<rparr>"

lemma demo_room_reachable: "room_reachable demo_room"
proof -
  let ?s1 = "Join ''grug'' (Open [])"
  let ?w0 = "\<lparr>wt_room = ''cave'', wt_after = 0, wt_gen = 0, wt_phase = Took\<rparr>"
  let ?r1 = "demo_start\<lparr>rs_svc := ?s1\<rparr>"
  let ?r2 = "?r1\<lparr>rs_waiters := [?w0]\<rparr>"
  let ?r3 = "?r1\<lparr>rs_waiters := [demo_waiter]\<rparr>"
  let ?r4 = "?r3\<lparr>rs_svc := ?s1\<lparr>ch_messages := [demo_post]\<rparr>, rs_pending := [demo_post]\<rparr>"
  have 0: "room_reachable demo_start" by (rule room_reachable.start)
  have "rstep demo_start ?r1" using rstep.join[of demo_start "''grug''"] by simp
  with 0 have 1: "room_reachable ?r1" by (rule room_reachable.next_step)
  have "rstep ?r1 ?r2" using rstep.wait[of ?r1 "''cave''" 0] by (simp add: Join_def Open_def)
  with 1 have 2: "room_reachable ?r2" by (rule room_reachable.next_step)
  have "rstep ?r2 ?r3"
    using rstep.wait_reads[of 0 ?r2 ?w0 ?s1 "Inr []"]
    by (simp add: Read_def query_quiet Join_def Open_def by_id_def demo_waiter_def)
  with 2 have 3: "room_reachable ?r3" by (rule room_reachable.next_step)
  have "rstep ?r3 ?r4"
    using rstep.insert[of 5 "''cave''" "''maik''" demo_text ?r3 "?s1\<lparr>ch_messages := [demo_post]\<rparr>" demo_post]
    by (simp add: insert_post_def Join_def Open_def max_id_def demo_post_def Let_def)
  with 3 have 4: "room_reachable ?r4" by (rule room_reachable.next_step)
  have "rstep ?r4 demo_room"
    using rstep.wake[of ?r4 "[]" demo_post "[]"] by (simp add: demo_room_def)
  with 4 show ?thesis by (rule room_reachable.next_step)
qed

text \<open>C9. A post wakes exactly whom it names. In every reachable state, a \<open>Post\<close> that goes
  through stores one message under a fresh, larger id, lets go everyone blocked in \<open>Wait\<close>, and
  puts the message once into the inbox of each current member its text mentions, other than its
  author, if that inbox holds fewer than 100; every other inbox is as it was. A \<open>Post\<close> that
  reports an error wakes nobody.\<close>

theorem post_wakes_the_mentioned:
  assumes "room_reachable r" "Post now room author text (rs_svc r) = (s', x)"
  shows "case x of
      Inl e \<Rightarrow> ch_inboxes s' = ch_inboxes (rs_svc r) \<and> ch_changed s' = ch_changed (rs_svc r)
    | Inr m \<Rightarrow>
        ch_messages s' = ch_messages (rs_svc r) @ [m] \<and>
        m = \<lparr>p_ID = p_ID m, p_Room = room, p_Author = author, p_Text = text, p_Time = now\<rparr> \<and>
        (\<forall>m' \<in> set (ch_messages (rs_svc r)). p_ID m' < p_ID m) \<and>
        ch_changed s' = ch_changed (rs_svc r) + 1 \<and>
        length (ch_inboxes s') = length (ch_inboxes (rs_svc r)) \<and>
        (\<forall>j < length (ch_inboxes s').
           ch_inboxes s' ! j =
             (let ib = ch_inboxes (rs_svc r) ! j; name = ib_name ib in
              if map_of (ch_members (rs_svc r)) name = Some j \<and> name \<in> set (mentions text) \<and>
                 name \<noteq> author \<and> length (ib_waiting ib) < 100
              then ib\<lparr>ib_waiting := ib_waiting ib @ [m]\<rparr> else ib))"
proof -
  have inv: "members_ok (rs_svc r)" "ids_ok (rs_svc r)"
    using room_reachable_inv[OF assms(1)] by (simp_all add: room_inv_def)
  obtain s1 y where 1: "insert_post now room author text (rs_svc r) = (s1, y)" by (metis prod.exhaust)
  show ?thesis
    using 1
  proof (cases rule: insert_post_cases)
    case (failed e)
    then have "s' = s1" "x = Inl e" using assms(2) 1 by (auto simp: Post_def Let_def)
    then show ?thesis using same_dataD[OF failed(1)] by simp
  next
    case (stored m s0)
    note fr = same_dataD[OF stored(1)] same_dataD[OF stored(2)]
    show ?thesis
    proof (cases y)
      case (Inl e)
      then have "s' = s1" "x = Inl e" using assms(2) 1 by (auto simp: Post_def Let_def)
      then show ?thesis using fr by simp
    next
      case (Inr m')
      then have "m' = m" and s': "s' = wake_post m s1" and x: "x = Inr m"
        using assms(2) 1 stored(4) by (auto simp: Post_def Let_def)
      have mem: "members_ok s1" using inv(1) fr by (simp add: members_ok_def)
      have "\<forall>m' \<in> set (ch_messages (rs_svc r)). p_ID m' < p_ID m"
        using max_id_last[OF inv(2)] stored(3) by auto
      moreover have "\<forall>j < length (ch_inboxes s').
           ch_inboxes s' ! j =
             (let ib = ch_inboxes (rs_svc r) ! j; name = ib_name ib in
              if map_of (ch_members (rs_svc r)) name = Some j \<and> name \<in> set (mentions text) \<and>
                 name \<noteq> author \<and> length (ib_waiting ib) < 100
              then ib\<lparr>ib_waiting := ib_waiting ib @ [m]\<rparr> else ib)"
        using wake_post_inbox[OF mem] fr stored(5)
        by (auto simp: s' Let_def woken_by_def put_waiting_def)
      moreover have "m = \<lparr>p_ID = p_ID m, p_Room = room, p_Author = author, p_Text = text, p_Time = now\<rparr>"
        using stored(3,5) by simp
      ultimately show ?thesis using fr x s' by simp
    qed
  qed
qed

theorem post_wakes_the_mentioned_witness:
  "ib_waiting (ch_inboxes (fst (Post 6 ''cave'' ''ann'' ''@grug again'' (rs_svc demo_room))) ! 0) =
     [demo_post, demo_post\<lparr>p_ID := 2, p_Author := ''ann'', p_Text := ''@grug again'', p_Time := 6\<rparr>]"
proof -
  let ?P = "Post 6 ''cave'' ''ann'' ''@grug again'' (rs_svc demo_room)"
  have "snd ?P = Inr (demo_post\<lparr>p_ID := 2, p_Author := ''ann'', p_Text := ''@grug again'', p_Time := 6\<rparr>)"
    by code_simp
  then have P: "?P = (fst ?P, Inr (demo_post\<lparr>p_ID := 2, p_Author := ''ann'', p_Text := ''@grug again'', p_Time := 6\<rparr>))"
    by (simp add: prod_eq_iff)
  have "length (ch_inboxes (rs_svc demo_room)) = 1" "ch_inboxes (rs_svc demo_room) ! 0 =
      \<lparr>ib_name = ''grug'', ib_waiting = [demo_post], ib_running = None, ib_served = [], ib_gone = False\<rparr>"
    "map_of (ch_members (rs_svc demo_room)) ''grug'' = Some 0" "mentions ''@grug again'' = [''grug'']"
    by code_simp+
  then show ?thesis using post_wakes_the_mentioned[OF demo_room_reachable P] by simp
qed

text \<open>C10. A handler runs at most once per message, and only on mail meant for it. In every
  reachable state of any number of posting goroutines, what an inbox has served, is running and has
  waiting are distinct messages, each posted successfully, mentioning the inbox's agent and not
  written by it; and never more than 100 wait.\<close>

theorem inboxes_hold_each_mention_once:
  assumes "room_reachable r" "ib \<in> set (ch_inboxes (rs_svc r))"
  shows "distinct (history ib) \<and> length (ib_waiting ib) \<le> 100 \<and>
    set (history ib) \<subseteq> {m \<in> set (ch_messages (rs_svc r)) \<inter> set (rs_done r).
      ib_name ib \<in> set (mentions (p_Text m)) \<and> p_Author m \<noteq> ib_name ib}"
  using room_reachable_inv[OF assms(1)] assms(2)
  by (force simp: room_inv_def list_all_iff inbox_ok_def woken_by_def)

theorem inboxes_hold_each_mention_once_witness:
  "distinct (history (ch_inboxes (rs_svc demo_room) ! 0)) \<and>
   history (ch_inboxes (rs_svc demo_room) ! 0) = [demo_post]"
proof -
  have "ch_inboxes (rs_svc demo_room) ! 0 \<in> set (ch_inboxes (rs_svc demo_room))" by code_simp
  moreover have "history (ch_inboxes (rs_svc demo_room) ! 0) = [demo_post]" by code_simp
  ultimately show ?thesis using inboxes_hold_each_mention_once[OF demo_room_reachable] by blast
qed

text \<open>C11. Waiting misses no post. In every reachable state, a goroutine blocked in \<open>Wait\<close> for
  news of a room has nothing to return: if some successful post in that room is newer than the id it
  waits from, the channel it blocks on is already closed.\<close>

theorem wait_misses_no_post:
  assumes "room_reachable r" "w \<in> set (rs_waiters r)" "wt_phase w = Blocked"
    and "m \<in> set (rs_done r)" "p_Room m = wt_room w" "wt_after w < p_ID m"
  shows "wt_gen w < ch_changed (rs_svc r)"
  using room_reachable_inv[OF assms(1)] assms(2-)
  by (auto simp: room_inv_def list_all_iff waiter_ok_def wanted_def)

theorem wait_misses_no_post_witness: "wt_gen demo_waiter < ch_changed (rs_svc demo_room)"
  by (rule wait_misses_no_post[OF demo_room_reachable, where m = demo_post])
     (simp_all add: demo_room_def demo_waiter_def demo_post_def)

subsection \<open>Reading\<close>

lemma latest_upper: "m \<in> set ms \<Longrightarrow> p_Room m = room \<Longrightarrow> p_ID m \<le> latest ms room"
  unfolding latest_def by (rule foldl_max_upper) simp

lemma latest_in:
  assumes "m \<in> set ms" "p_Room m = room" "0 < p_ID m"
  shows "\<exists>m' \<in> set ms. p_Room m' = room \<and> p_ID m' = latest ms room"
proof -
  have "latest ms room \<in> insert 0 (set (map p_ID (filter (\<lambda>m. p_Room m = room) ms)))"
    unfolding latest_def by (rule foldl_max_in)
  moreover have "0 < latest ms room" using latest_upper[OF assms(1,2)] assms(3) by simp
  ultimately show ?thesis by auto
qed

lemma ids_distinct:
  assumes "ids_ok s" "m \<in> set (ch_messages s)" "m' \<in> set (ch_messages s)" "p_ID m = p_ID m'"
  shows "m = m'"
proof -
  have "distinct (map p_ID (ch_messages s))"
    using assms(1) by (auto simp: ids_ok_def strict_sorted_iff)
  then show ?thesis using assms(2-) by (metis distinct_map inj_onD)
qed

text \<open>Reading is in order and complete. In every reachable state, \<open>Read\<close>, when the
  database answers, is the room's messages after the given id, oldest first, all of them; and
  \<open>Rooms\<close> is one message for every room that has any, the newest of its room, with the most
  recently active room first.\<close>

theorem reading_is_ordered_and_complete:
  assumes "room_reachable r"
    and "Read room after (rs_svc r) = (s1, Inr ms)" "Rooms (rs_svc r) = (s2, Inr tops)"
  shows "sorted_wrt (\<lambda>a b. p_ID a < p_ID b) ms \<and>
    set ms = {m \<in> set (ch_messages (rs_svc r)). p_Room m = room \<and> after < p_ID m} \<and>
    sorted_wrt (\<lambda>a b. p_ID a > p_ID b) tops \<and>
    set tops = {m \<in> set (ch_messages (rs_svc r)).
      \<forall>m' \<in> set (ch_messages (rs_svc r)). p_Room m' = p_Room m \<longrightarrow> p_ID m' \<le> p_ID m}"
proof -
  let ?s = "rs_svc r"
  have ids: "ids_ok ?s" using room_reachable_inv[OF assms(1)] by (simp add: room_inv_def)
  then have sorted: "sorted_wrt (\<lambda>a b. p_ID a < p_ID b) (ch_messages ?s)"
    by (simp add: ids_ok_def sorted_wrt_map)
  have ms: "ms = filter (\<lambda>m. p_Room m = room \<and> p_ID m > after) (ch_messages ?s)"
    by (rule Read_result[OF assms(2) ids])
  let ?top = "\<lambda>m. p_ID m \<in> set (map (latest (ch_messages ?s)) (map p_Room (ch_messages ?s)))"
  have tops: "tops = rev (filter ?top (ch_messages ?s))"
  proof -
    obtain s' where "same_data ?s s'"
      "tops = rev (by_id (filter (\<lambda>m. p_ID m \<in> set (map (latest (ch_messages s')) (map p_Room (ch_messages s')))) (ch_messages s')))"
      using query_result[OF assms(3)[unfolded Rooms_def]] by blast
    then show ?thesis using ids_sorted[OF ids, of ?top] by (simp add: same_data_def)
  qed
  have top: "?top m \<longleftrightarrow> (\<forall>m' \<in> set (ch_messages ?s). p_Room m' = p_Room m \<longrightarrow> p_ID m' \<le> p_ID m)"
    if m: "m \<in> set (ch_messages ?s)" for m
  proof
    assume "?top m"
    then obtain m0 where m0: "m0 \<in> set (ch_messages ?s)" "p_ID m = latest (ch_messages ?s) (p_Room m0)" by auto
    have "0 < p_ID m0" using ids m0(1) by (auto simp: ids_ok_def)
    from latest_in[OF m0(1) refl this] obtain m1 where
      m1: "m1 \<in> set (ch_messages ?s)" "p_Room m1 = p_Room m0" "p_ID m1 = p_ID m" using m0(2) by auto
    then have "m1 = m" using ids_distinct[OF ids] m by metis
    then show "\<forall>m' \<in> set (ch_messages ?s). p_Room m' = p_Room m \<longrightarrow> p_ID m' \<le> p_ID m"
      using m1 m0(2) latest_upper by metis
  next
    assume max: "\<forall>m' \<in> set (ch_messages ?s). p_Room m' = p_Room m \<longrightarrow> p_ID m' \<le> p_ID m"
    have "0 < p_ID m" using ids m by (auto simp: ids_ok_def)
    from latest_in[OF m refl this] obtain m1 where
      "m1 \<in> set (ch_messages ?s)" "p_Room m1 = p_Room m" "p_ID m1 = latest (ch_messages ?s) (p_Room m)" by auto
    then have "p_ID m = latest (ch_messages ?s) (p_Room m)"
      using max latest_upper[OF m refl] by (metis order.antisym)
    then show "?top m" using m by auto
  qed
  have "sorted_wrt (\<lambda>a b. p_ID a < p_ID b) ms" unfolding ms by (rule sorted_wrt_filter[OF sorted])
  moreover have "sorted_wrt (\<lambda>a b. p_ID a > p_ID b) tops"
    unfolding tops sorted_wrt_rev by (rule sorted_wrt_filter[OF sorted])
  moreover have "set ms = {m \<in> set (ch_messages ?s). p_Room m = room \<and> after < p_ID m}" by (auto simp: ms)
  moreover have "set tops = {m \<in> set (ch_messages ?s).
      \<forall>m' \<in> set (ch_messages ?s). p_Room m' = p_Room m \<longrightarrow> p_ID m' \<le> p_ID m}"
    using top by (auto simp: tops)
  ultimately show ?thesis by blast
qed

theorem reading_is_ordered_and_complete_witness:
  "set [demo_post] = {m \<in> set (ch_messages (rs_svc demo_room)). p_Room m = ''cave'' \<and> 0 < p_ID m}"
proof -
  have q: "ch_faults (rs_svc demo_room) = []" by code_simp
  have "Read ''cave'' 0 (rs_svc demo_room) = (rs_svc demo_room, Inr [demo_post])"
    "Rooms (rs_svc demo_room) = (rs_svc demo_room, Inr [demo_post])"
    unfolding Read_def Rooms_def query_quiet[OF q] by (simp, code_simp)+
  from reading_is_ordered_and_complete[OF demo_room_reachable this] show ?thesis by blast
qed

lemma to_mail_rest:
  assumes "ids_ok s"
  shows "to_mail (last (seen # map p_ID (to_mail seen s))) s = []"
proof -
  let ?ms = "to_mail seen s"
  have ms: "?ms = filter (\<lambda>m. p_ID m > seen \<and> p_Room m \<in> set (ch_mail_rooms s)) (ch_messages s)"
    unfolding to_mail_def by (rule ids_sorted[OF assms])
  have "sorted (map p_ID ?ms)" unfolding to_mail_def by_id_def by simp
  have up: "p_ID m \<le> last (seen # map p_ID ?ms)" if mem: "m \<in> set ?ms" for m
  proof -
    obtain i where i: "i < length ?ms" "?ms ! i = m" using mem unfolding in_set_conv_nth by blast
    then have "?ms \<noteq> []" by auto
    then have "last (seen # map p_ID ?ms) = map p_ID ?ms ! (length ?ms - 1)"
      by (simp add: last_conv_nth)
    moreover have "map p_ID ?ms ! i \<le> map p_ID ?ms ! (length ?ms - 1)"
      using \<open>sorted (map p_ID ?ms)\<close> i(1) by (intro sorted_nth_mono) auto
    ultimately show ?thesis using i by simp
  qed
  have low: "seen \<le> last (seen # map p_ID ?ms)"
  proof (cases "?ms = []")
    case False
    then have "last ?ms \<in> set ?ms" by simp
    then have "seen < p_ID (last ?ms)" by (subst (asm) (2) ms) simp
    then show ?thesis using False by (simp add: last_map)
  qed simp
  have "filter (\<lambda>m. p_ID m > last (seen # map p_ID ?ms) \<and> p_Room m \<in> set (ch_mail_rooms s)) (ch_messages s) = []"
  proof (rule ccontr)
    assume "\<not> ?thesis"
    then obtain m where m: "m \<in> set (ch_messages s)" "p_ID m > last (seen # map p_ID ?ms)"
      "p_Room m \<in> set (ch_mail_rooms s)" by (auto simp: filter_empty_conv)
    then have "m \<in> set ?ms" using low by (subst ms) simp
    then show False using up m(2) by fastforce
  qed
  then show ?thesis unfolding to_mail_def[of "last _"] by (simp add: by_id_def)
qed

subsection \<open>The mail bridge\<close>

text \<open>C12. A pass of the bridge carries everything across, once. When the database does not fail
  and the bucket answers exactly, a pass returns without error, and: every acceptable mail waiting
  in to-host is posted, in order, and nothing else is; the cursor moves past them all; every message
  by a member, newer than what was seen, in a room mail came from, is stored in to-laptop under the
  next numbers, in order; nothing else in the bucket changes; and what is left to mail afterwards is
  nothing.\<close>

theorem relay_carries_everything_once:
  assumes store: "exact_store st view" and quiet: "ch_faults s = []" "ids_ok s"
    and marshal: "\<And>m. \<exists>b. marshal m = Inr b"
    and inbox: "\<forall>i < length obs. view (cl_store c) (box_key ToHost (n + int i)) = Some (obs ! i)"
      "view (cl_store c) (box_key ToHost (n + int (length obs))) = None"
      "n = (case map_of (ch_cursors s) ''to-host'' of None \<Rightarrow> 0 | Some k \<Rightarrow> k)"
    and outbox: "\<forall>k \<ge> out. view (cl_store c) (box_key ToLaptop k) = None"
      "out = (case map_of (ch_cursors s) ''to-laptop'' of None \<Rightarrow> 0 | Some k \<Rightarrow> k)"
    and seen: "seen = (case map_of (ch_cursors s) ''seen'' of None \<Rightarrow> max_id s | Some k \<Rightarrow> k)"
    and got: "got = accepted (map (\<lambda>i. mail_of cr (cl_trusted c) unmarshal (box_key ToHost (n + int i)) (obs ! i))
      [0..<length obs])"
  shows "\<exists>c' s' posted seen'.
    RelayMail st cr marshal unmarshal now name (\<lambda>_. None) (\<lambda>_. None) c s = Some (c', s', None) \<and>
    ch_messages s' = ch_messages s @ posted \<and> map post_triple posted = map mail_triple got \<and>
    map_of (ch_cursors s') ''to-host'' = Some (n + int (length obs)) \<and>
    (let ms = mailed s' (to_mail seen s') in
     (\<forall>i < length ms. \<exists>b t. marshal (mail_form now (ms ! i)) = Inr b \<and>
       view (cl_store c') (box_key ToLaptop (out + int i)) =
         Some (sealed cr (cl_key c) (box_key ToLaptop (out + int i)) b t)) \<and>
     (\<forall>k. (\<forall>i < length ms. k \<noteq> box_key ToLaptop (out + int i)) \<longrightarrow>
       view (cl_store c') k = view (cl_store c) k)) \<and>
    map_of (ch_cursors s') ''seen'' = Some seen' \<and> to_mail seen' s' = []"
proof -
  let ?opts = "map (\<lambda>i. mail_of cr (cl_trusted c) unmarshal (box_key ToHost (n + int i)) (obs ! i)) [0..<length obs]"
  obtain c1 where recv: "loop (receive_step st cr unmarshal name (\<lambda>_. None) ToHost (relay_in now)) (n, c, s) =
      Some (c1, deliver (relay_in now) ?opts n s)" "view (cl_store c1) = view (cl_store c)" "same_identity c c1"
    using exact_store.receive_run[OF store refl inbox(1,2), where cr = cr and unmarshal = unmarshal
        and name = name and f = "relay_in now" and x = s] by blast
  obtain s2 ps where del: "deliver (relay_in now) ?opts n s = (s2, n + int (length ?opts), None)"
    "ch_faults s2 = []" "ids_ok s2" "ch_members s2 = ch_members s" "ch_messages s2 = ch_messages s @ ps"
    "map post_triple ps = map mail_triple (accepted ?opts)"
    "\<forall>k. k \<noteq> ''to-host'' \<longrightarrow> map_of (ch_cursors s2) k = map_of (ch_cursors s) k"
    using deliver_relay[OF quiet] by blast
  let ?n' = "n + int (length obs)"
  let ?s3 = "s2\<lparr>ch_cursors := AList.update ''to-host'' ?n' (ch_cursors s2)\<rparr>"
  have to3: "to_mail seen ?s3 = to_mail seen s2" by (simp add: to_mail_def)
  have free: "\<forall>k \<ge> out. view (cl_store c1) (box_key ToLaptop k) = None" using outbox(1) recv(2) by simp
  have q3: "ch_faults ?s3 = []" using del(2) by simp
  obtain c' s' where out: "relay_out st cr marshal now name (\<lambda>_. None) (to_mail seen ?s3) out seen c1 ?s3 = Some (c', s', None)"
    "same_tables ?s3 s'"
    "map_of (ch_cursors s') ''seen'' = Some (last (seen # map p_ID (to_mail seen ?s3)))"
    "map_of (ch_cursors s') ''to-host'' = map_of (ch_cursors ?s3) ''to-host''"
    "\<forall>i < length (mailed ?s3 (to_mail seen ?s3)). \<exists>b t. marshal (mail_form now (mailed ?s3 (to_mail seen ?s3) ! i)) = Inr b \<and>
        view (cl_store c') (box_key ToLaptop (out + int i)) =
          Some (sealed cr (cl_key c1) (box_key ToLaptop (out + int i)) b t)"
    "\<forall>k. (\<forall>i < length (mailed ?s3 (to_mail seen ?s3)). k \<noteq> box_key ToLaptop (out + int i)) \<longrightarrow>
      view (cl_store c') k = view (cl_store c1) k"
    using exact_store.relay_out_quiet[OF store q3 free, of marshal cr now name "to_mail seen ?s3" seen] marshal
    by blast
  have tabs: "ch_messages s' = ch_messages s2" "ch_mail_rooms s' = ch_mail_rooms s2" "ch_members s' = ch_members s2"
    using out(2) by (simp_all add: same_tables_def)
  have to': "to_mail seen s' = to_mail seen ?s3" "mailed s' ms = mailed ?s3 ms" for ms
    using tabs by (simp_all add: to_mail_def mailed_def isMember_def)
  have run: "RelayMail st cr marshal unmarshal now name (\<lambda>_. None) (\<lambda>_. None) c s = Some (c', s', None)"
  proof -
    have from_seen: "relay_from st cr marshal unmarshal now name (\<lambda>_. None) (\<lambda>_. None) seen c s = Some (c', s', None)"
      using recv(1) del(1,2,7) out(1) inbox(3) outbox(2) quiet(1)
      by (auto simp: relay_from_def Receive_def cursor_quiet setCursor_quiet query_quiet split: option.splits)
    show ?thesis
      using from_seen seen quiet(1) by (auto simp: RelayMail_def cursor_quiet split: option.splits)
  qed
  have "ids_ok s'" using del(3) tabs(1) by (simp add: ids_ok_def)
  then have nothing_left: "to_mail (last (seen # map p_ID (to_mail seen s'))) s' = []"
    by (rule to_mail_rest)
  show ?thesis
    using run tabs(1) del(5,6) out(3-6) to' nothing_left recv(2,3)
    by (intro exI[of _ c'] exI[of _ s'] exI[of _ ps] exI[of _ "last (seen # map p_ID (to_mail seen s'))"])
       (auto simp: got Let_def same_identity_def)
qed

text \<open>A laptop that has sent one mail, a host that trusts it, and a room with one agent.\<close>

definition demo_mail :: message where
  "demo_mail = \<lparr>m_Room = ''r'', m_Author = ''maik'', m_Text = ''hi @grug'', m_Time = 1\<rparr>"

abbreviation demo_marshal :: "message \<Rightarrow> string res" where "demo_marshal m \<equiv> Inr (m_Text m)"
abbreviation demo_unmarshal :: "string \<Rightarrow> message option" where
  "demo_unmarshal b \<equiv> Some (demo_mail\<lparr>m_Text := b\<rparr>)"

definition accept_all :: crypto where
  "accept_all = \<lparr>cr_public = id, cr_sign = (\<lambda>k m. replicate 64 CHR ''s''), cr_verify = (\<lambda>p m sg. True)\<rparr>"

definition demo_host :: "fake client" where
  "demo_host = New accept_all
     (NewFake\<lparr>fk_objects := [(box_key ToHost 0, sealed accept_all ''k'' (box_key ToHost 0) ''hi @grug'' ''t'')]\<rparr>)
     ''h'' [''k''] [(''chat'', \<lparr>Every = 1, Burst = 5\<rparr>)]"

abbreviation demo_relay :: "fake client \<Rightarrow> service \<Rightarrow> (fake client \<times> service \<times> goerr option) option" where
  "demo_relay \<equiv> RelayMail fake_store accept_all demo_marshal demo_unmarshal 5 ''chat'' (\<lambda>_. None) (\<lambda>_. None)"

theorem relay_carries_everything_once_witness:
  "\<exists>c' s' posted. demo_relay demo_host (Join ''grug'' (Open [])) = Some (c', s', None) \<and>
     ch_messages s' = posted \<and> map post_triple posted = map mail_triple [demo_mail]"
proof -
  let ?ob = "sealed accept_all ''k'' (box_key ToHost 0) ''hi @grug'' ''t''"
  have objs: "fk_objects (cl_store demo_host) = [(box_key ToHost 0, ?ob)]"
    by (simp add: demo_host_def New_def)
  have lap: "box_key ToLaptop k \<noteq> box_key ToHost n" for k n
    by (simp add: box_key_def ToLaptop_def ToHost_def)
  have got: "[demo_mail] = accepted (map (\<lambda>i. mail_of accept_all (cl_trusted demo_host) demo_unmarshal
      (box_key ToHost (0 + int i)) ([?ob] ! i)) [0..<length [?ob]])" by code_simp
  have "\<exists>c' s' posted seen'.
    demo_relay demo_host (Join ''grug'' (Open [])) = Some (c', s', None) \<and>
    ch_messages s' = ch_messages (Join ''grug'' (Open [])) @ posted \<and>
    map post_triple posted = map mail_triple [demo_mail] \<and>
    map_of (ch_cursors s') ''to-host'' = Some (0 + int (length [?ob])) \<and>
    (let ms = mailed s' (to_mail (max_id (Join ''grug'' (Open []))) s') in
     (\<forall>i < length ms. \<exists>b t. demo_marshal (mail_form 5 (ms ! i)) = Inr b \<and>
       fake_view (cl_store c') (box_key ToLaptop (0 + int i)) =
         Some (sealed accept_all (cl_key demo_host) (box_key ToLaptop (0 + int i)) b t)) \<and>
     (\<forall>k. (\<forall>i < length ms. k \<noteq> box_key ToLaptop (0 + int i)) \<longrightarrow>
       fake_view (cl_store c') k = fake_view (cl_store demo_host) k)) \<and>
    map_of (ch_cursors s') ''seen'' = Some seen' \<and> to_mail seen' s' = []"
    by (rule relay_carries_everything_once[OF fake.exact_store_axioms _ _ _ _ _ _ _ _ _ got])
       (simp_all add: objs lap Join_def Open_def ids_ok_def)
  then show ?thesis by (auto simp: Join_def Open_def)
qed

text \<open>Where a first pass leaves things when reading its last cursor fails, and the answer after it.\<close>

definition failed_host :: "fake client" where
  "failed_host = demo_host\<lparr>cl_store := (cl_store demo_host)\<lparr>fk_counts := \<lparr>ClassA = 0, ClassB = 2\<rparr>\<rparr>,
     cl_counts := \<lparr>ClassA = 0, ClassB = 2\<rparr>\<rparr>"

definition relayed_post :: post where
  "relayed_post = \<lparr>p_ID = 1, p_Room = ''r'', p_Author = ''maik'', p_Text = ''hi @grug'', p_Time = 5\<rparr>"

definition answer_post :: post where
  "answer_post = \<lparr>p_ID = 2, p_Room = ''r'', p_Author = ''grug'', p_Text = ''here'', p_Time = 6\<rparr>"

definition failed_service :: service where
  "failed_service = (Join ''grug'' (Open []))\<lparr>ch_messages := [relayed_post], ch_cursors := [(''to-host'', 1)],
     ch_mail_rooms := [''r''], ch_changed := 1,
     ch_inboxes := [\<lparr>ib_name = ''grug'', ib_waiting = [relayed_post], ib_running = None, ib_served = [],
                     ib_gone = False\<rparr>]\<rparr>"

definition answered_service :: service where
  "answered_service = failed_service\<lparr>ch_messages := [relayed_post, answer_post], ch_changed := 2\<rparr>"

text \<open>C13. When the first pass fails after it posted mail, replies to that mail may never be sent.
  The first pass starts from the newest id there is, but stores that only at its end; if a database
  call fails after the mail was posted, the next pass starts again from the newest id, past
  whatever the agents answered in between. Here the first pass fails reading the \<open>to-laptop\<close>
  cursor, the agent answers in a room mail came from, and the second pass succeeds without mailing
  the answer and leaves nothing to mail.\<close>

theorem failed_first_pass_loses_replies:
  "\<exists>c1 s1 e s2 m c2 s3.
     demo_relay demo_host (Join ''grug'' (Open (replicate 8 None @ [Some (Opaque ''disk I/O error'')]))) =
       Some (c1, s1, Some e) \<and>
     Post 6 ''r'' ''grug'' ''here'' s1 = (s2, Inr m) \<and> p_Room m \<in> set (ch_mail_rooms s2) \<and>
     isMember s2 (p_Author m) \<and>
     demo_relay c1 s2 = Some (c2, s3, None) \<and> m \<in> set (ch_messages s3) \<and>
     map_of (ch_cursors s3) ''seen'' = Some (p_ID m) \<and>
     fake_view (cl_store c2) (box_key ToLaptop 0) = None"
proof -
  let ?host3 = "failed_host\<lparr>cl_store := (cl_store failed_host)\<lparr>fk_counts := \<lparr>ClassA = 0, ClassB = 3\<rparr>\<rparr>,
     cl_counts := \<lparr>ClassA = 0, ClassB = 3\<rparr>\<rparr>"
  let ?s3 = "answered_service\<lparr>ch_cursors := [(''to-host'', 1), (''seen'', 2)]\<rparr>"
  have "demo_relay demo_host (Join ''grug'' (Open (replicate 8 None @ [Some (Opaque ''disk I/O error'')]))) =
      Some (failed_host, failed_service, Some (chat_err (Opaque ''disk I/O error'')))" by code_simp
  moreover have "Post 6 ''r'' ''grug'' ''here'' failed_service = (answered_service, Inr answer_post)"
    by code_simp
  moreover have "p_Room answer_post \<in> set (ch_mail_rooms answered_service) \<and>
      isMember answered_service (p_Author answer_post)" by code_simp
  moreover have "demo_relay failed_host answered_service = Some (?host3, ?s3, None)" by code_simp
  moreover have "answer_post \<in> set (ch_messages ?s3) \<and>
      map_of (ch_cursors ?s3) ''seen'' = Some (p_ID answer_post) \<and>
      fake_view (cl_store ?host3) (box_key ToLaptop 0) = None" by code_simp
  ultimately show ?thesis by blast
qed

end
