(* ===== verification/ModelBase.thy ===== *)
theory ModelBase
  imports GoText
begin

section \<open>The model seam: metaharness/model\<close>

text \<open>
  Messages and their parts, answers as streams, thinking, and the adapter to a provider. The types
  are those of charm.land/fantasy, of which the program reads and builds the parts modelled here;
  the provider itself (its client, its language models) is a parameter. \<open>metadata\<close> stands
  for a provider's opaque metadata. A stream is the finite list of parts it yields.
\<close>

type_synonym metadata = "(string \<times> string) list"

datatype role = RoleSystem | RoleUser | RoleAssistant | RoleTool

datatype tool_output = OutputText string | OutputError goerr | OutputMedia string

datatype part =
    TextPart string
  | ReasoningPart string metadata
  | FilePart string
  | ToolCallPart (pt_id: string) (pt_name: string) (pt_input: string)
  | ToolResultPart string tool_output

record msg =
  ms_Role :: role
  ms_Content :: "part list"

record usage =
  InputTokens :: int
  OutputTokens :: int
  TotalTokens :: int
  ReasoningTokens :: int
  CacheCreationTokens :: int
  CacheReadTokens :: int

abbreviation no_usage :: usage where
  "no_usage \<equiv> \<lparr>InputTokens = 0, OutputTokens = 0, TotalTokens = 0, ReasoningTokens = 0,
     CacheCreationTokens = 0, CacheReadTokens = 0\<rparr>"

subsection \<open>message.go\<close>

definition NewUserMessage :: "string \<Rightarrow> msg" where
  "NewUserMessage text = \<lparr>ms_Role = RoleUser, ms_Content = [TextPart text]\<rparr>"

record tool_call =
  tc_ID :: string
  tc_Name :: string
  tc_Input :: string

record call_result =
  cr_ID :: string
  cr_Text :: string
  cr_Error :: "goerr option"

definition NewToolResultMessage :: "call_result list \<Rightarrow> msg" where
  "NewToolResultMessage results = \<lparr>ms_Role = RoleTool, ms_Content =
     map (\<lambda>r. ToolResultPart (cr_ID r)
       (case cr_Error r of Some e \<Rightarrow> OutputError e | None \<Rightarrow> OutputText (cr_Text r))) results\<rparr>"

fun text_parts :: "part list \<Rightarrow> string list" where
  "text_parts [] = []"
| "text_parts (TextPart t # ps) = t # text_parts ps"
| "text_parts (_ # ps) = text_parts ps"

fun reasoning_parts :: "part list \<Rightarrow> (string \<times> metadata) list" where
  "reasoning_parts [] = []"
| "reasoning_parts (ReasoningPart t m # ps) = (t, m) # reasoning_parts ps"
| "reasoning_parts (_ # ps) = reasoning_parts ps"

fun call_parts :: "part list \<Rightarrow> tool_call list" where
  "call_parts [] = []"
| "call_parts (ToolCallPart i n inp # ps) = \<lparr>tc_ID = i, tc_Name = n, tc_Input = inp\<rparr> # call_parts ps"
| "call_parts (_ # ps) = call_parts ps"

fun result_parts :: "part list \<Rightarrow> call_result list" where
  "result_parts [] = []"
| "result_parts (ToolResultPart i out # ps) =
     (case out of
        OutputText t \<Rightarrow> \<lparr>cr_ID = i, cr_Text = t, cr_Error = None\<rparr>
      | OutputError e \<Rightarrow> \<lparr>cr_ID = i, cr_Text = '''', cr_Error = Some e\<rparr>
      | OutputMedia d \<Rightarrow> \<lparr>cr_ID = i, cr_Text = '''', cr_Error = None\<rparr>) # result_parts ps"
| "result_parts (_ # ps) = result_parts ps"

definition TextParts :: "msg option \<Rightarrow> string list" where
  "TextParts m = (case m of None \<Rightarrow> [] | Some m \<Rightarrow> text_parts (ms_Content m))"

definition ReasoningParts :: "msg option \<Rightarrow> string list" where
  "ReasoningParts m = (case m of None \<Rightarrow> [] | Some m \<Rightarrow> map fst (reasoning_parts (ms_Content m)))"

definition ToolCalls :: "msg option \<Rightarrow> tool_call list" where
  "ToolCalls m = (case m of None \<Rightarrow> [] | Some m \<Rightarrow> call_parts (ms_Content m))"

definition ToolResults :: "msg option \<Rightarrow> call_result list" where
  "ToolResults m = (case m of None \<Rightarrow> [] | Some m \<Rightarrow> result_parts (ms_Content m))"

subsection \<open>model.go and stream.go\<close>

record tool_def =
  td_Name :: string
  td_Description :: string
  td_Schema :: metadata

record request =
  rq_Model :: string
  rq_System :: string
  rq_Messages :: "msg list"
  rq_Tools :: "tool_def list"
  rq_MaxOutputTokens :: int

datatype finish = FinishStop | FinishLength | FinishToolCalls | FinishOther string

datatype stream_part =
    ReasoningStart string metadata
  | ReasoningDelta string string metadata
  | ReasoningEnd string string metadata
  | TextDelta string
  | ToolCallStream (sp_id: string) (sp_name: string) (sp_input: string) (sp_executed: bool)
  | Finish usage finish
  | StreamError goerr
  | OtherPart

definition ErrOutputLimit :: goerr where
  "ErrOutputLimit = Sentinel ''model: ran out of output tokens before answering''"

text \<open>What \<open>Collect\<close> has gathered so far.\<close>

record gathered =
  ga_reasoning :: "(string \<times> metadata) list"
  ga_thinking :: "(string \<times> nat) list"
  ga_text :: string
  ga_calls :: "part list"
  ga_usage :: usage
  ga_finish :: "finish option"

definition gathered0 :: gathered where
  "gathered0 = \<lparr>ga_reasoning = [], ga_thinking = [], ga_text = '''', ga_calls = [], ga_usage = no_usage,
     ga_finish = None\<rparr>"

definition think_more :: "string \<Rightarrow> string \<Rightarrow> metadata \<Rightarrow> gathered \<Rightarrow> gathered" where
  "think_more i delta meta g =
    (case map_of (ga_thinking g) i of
       None \<Rightarrow> g
     | Some k \<Rightarrow>
         (let (t, m) = ga_reasoning g ! k in
          g\<lparr>ga_reasoning := (ga_reasoning g)[k := (t @ delta, if length meta > 0 then meta else m)]\<rparr>))"

fun collect_part :: "stream_part \<Rightarrow> gathered \<Rightarrow> gathered" where
  "collect_part (ReasoningStart i meta) g =
     g\<lparr>ga_thinking := AList.update i (length (ga_reasoning g)) (ga_thinking g),
       ga_reasoning := ga_reasoning g @ [('''', meta)]\<rparr>"
| "collect_part (ReasoningDelta i d meta) g = think_more i d meta g"
| "collect_part (ReasoningEnd i d meta) g = think_more i d meta g"
| "collect_part (TextDelta d) g = g\<lparr>ga_text := ga_text g @ d\<rparr>"
| "collect_part (ToolCallStream i n inp executed) g =
     (if \<not> executed then g\<lparr>ga_calls := ga_calls g @ [ToolCallPart i n inp]\<rparr> else g)"
| "collect_part (Finish u f) g = g\<lparr>ga_usage := u, ga_finish := Some f\<rparr>"
| "collect_part _ g = g"

definition finished :: "gathered \<Rightarrow> usage \<times> msg res" where
  "finished g =
    (if ga_finish g = Some FinishLength \<and> ga_text g = '''' \<and> ga_calls g = []
     then (ga_usage g, Inl ErrOutputLimit)
     else (ga_usage g, Inr \<lparr>ms_Role = RoleAssistant, ms_Content =
        map (\<lambda>(t, m). ReasoningPart t m) (ga_reasoning g) @
        (if ga_text g \<noteq> '''' then [TextPart (ga_text g)] else []) @ ga_calls g\<rparr>))"

fun collect :: "gathered \<Rightarrow> stream_part list \<Rightarrow> usage \<times> msg res" where
  "collect g [] = finished g"
| "collect g (p # ps) =
     (case p of StreamError e \<Rightarrow> (ga_usage g, Inl e) | _ \<Rightarrow> collect (collect_part p g) ps)"

definition Collect :: "stream_part list \<Rightarrow> usage \<times> msg res" where
  "Collect parts = collect gathered0 parts"

definition streamed_part :: "nat \<Rightarrow> part \<Rightarrow> stream_part list" where
  "streamed_part i p =
    (case p of
       ReasoningPart t m \<Rightarrow>
         [ReasoningStart (itoa (int i)) [], ReasoningDelta (itoa (int i)) t [], ReasoningEnd (itoa (int i)) '''' m]
     | TextPart t \<Rightarrow> [TextDelta t]
     | ToolCallPart c n inp \<Rightarrow> [ToolCallStream c n inp False]
     | _ \<Rightarrow> [])"

definition Streamed :: "usage \<Rightarrow> msg res \<Rightarrow> stream_part list res" where
  "Streamed u r =
    (case r of
       Inl e \<Rightarrow> Inl e
     | Inr m \<Rightarrow> Inr (concat (map2 streamed_part [0..<length (ms_Content m)] (ms_Content m)) @ [Finish u FinishStop]))"

subsection \<open>thinking.go and fantasy.go\<close>

datatype provider = ProviderDefault | ProviderAnthropic | ProviderOpenAI | ProviderGoogle | ProviderOther string

fun provider_text :: "provider \<Rightarrow> string" where
  "provider_text ProviderDefault = ''''"
| "provider_text ProviderAnthropic = ''anthropic''"
| "provider_text ProviderOpenAI = ''openai''"
| "provider_text ProviderGoogle = ''google''"
| "provider_text (ProviderOther s) = s"

text \<open>An effort level is its string; empty means the default.\<close>

definition EffortMedium :: string where "EffortMedium = ''medium''"

datatype call_options =
    AnthropicEffort string
  | GoogleThinking (go_level: string) (go_include: bool)
  | OpenAIReasoning string

definition thinkingMaxOutputTokens :: int where "thinkingMaxOutputTokens = 16000"
definition streamMinOutputTokens :: int where "streamMinOutputTokens = 64000"

text \<open>\<open>strings.ToUpper\<close>, on ASCII, which effort levels are.\<close>

definition to_upper :: "string \<Rightarrow> string" where
  "to_upper s = map (\<lambda>c. let n = of_char c :: nat in if 97 \<le> n \<and> n \<le> 122 then char_of (n - 32) else c) s"

definition callOptions :: "string \<Rightarrow> provider \<Rightarrow> call_options option \<times> int" where
  "callOptions effort0 p =
    (let effort = (if effort0 = '''' then EffortMedium else effort0) in
     case p of
       ProviderDefault \<Rightarrow> (Some (AnthropicEffort effort), thinkingMaxOutputTokens)
     | ProviderAnthropic \<Rightarrow> (Some (AnthropicEffort effort), thinkingMaxOutputTokens)
     | ProviderGoogle \<Rightarrow> (Some (GoogleThinking (to_upper effort) True), thinkingMaxOutputTokens)
     | ProviderOpenAI \<Rightarrow> (Some (OpenAIReasoning effort), thinkingMaxOutputTokens)
     | ProviderOther s \<Rightarrow> (None, 0))"

record config =
  cf_Provider :: provider
  cf_APIKey :: string
  cf_BaseURL :: string
  cf_Headers :: "(string \<times> string) list"
  cf_Thinking :: "string option"

definition headersWithAuthorization :: "(string \<times> string) list \<Rightarrow> string \<Rightarrow> (string \<times> string) list" where
  "headersWithAuthorization headers apiKey =
    (if apiKey = '''' then headers
     else if map_of headers ''Authorization'' = None
       then AList.update ''Authorization'' (''Bearer '' @ apiKey) headers
     else headers)"

definition providerName :: "provider \<Rightarrow> provider" where
  "providerName p = (if p = ProviderDefault then ProviderAnthropic else p)"

text \<open>What a provider is built from: the options that were set.\<close>

record provider_options =
  po_APIKey :: "string option"
  po_BaseURL :: "string option"
  po_Headers :: "(string \<times> string) list option"

definition provider_opts :: "config \<Rightarrow> provider_options" where
  "provider_opts cfg =
    \<lparr>po_APIKey = (if cf_APIKey cfg \<noteq> '''' then Some (cf_APIKey cfg) else None),
     po_BaseURL = (if cf_BaseURL cfg \<noteq> '''' then Some (cf_BaseURL cfg) else None),
     po_Headers = (if cf_Headers cfg \<noteq> [] then Some (cf_Headers cfg) else None)\<rparr>"

record ('p, 'lm) fantasy_model =
  fm_provider :: 'p
  fm_cache :: "(string \<times> 'lm) list"
  fm_thinkingOpts :: "call_options option"
  fm_minOutputTokens :: int

definition NewFantasyModel :: "'p \<Rightarrow> ('p, 'lm) fantasy_model" where
  "NewFantasyModel p = \<lparr>fm_provider = p, fm_cache = [], fm_thinkingOpts = None, fm_minOutputTokens = 0\<rparr>"

text \<open>\<open>build\<close> is the provider's own constructor.\<close>

definition New ::
  "(string \<Rightarrow> string) \<Rightarrow> (provider \<Rightarrow> provider_options \<Rightarrow> 'p res) \<Rightarrow> config \<Rightarrow> ('p, 'lm) fantasy_model res" where
  "New quote build cfg0 =
    (let cfg = cfg0\<lparr>cf_Headers := headersWithAuthorization (cf_Headers cfg0) (cf_APIKey cfg0)\<rparr> in
     case cf_Provider cfg of
       ProviderOther s \<Rightarrow> Inl (Opaque (''unknown model provider '' @ quote s))
     | p \<Rightarrow>
        (case build (providerName p) (provider_opts cfg) of
           Inl e \<Rightarrow> Inl (Wrap (''building '' @ provider_text (providerName p) @ '' model provider: '') e '''')
         | Inr prov \<Rightarrow>
            (case cf_Thinking cfg of
               None \<Rightarrow> Inr (NewFantasyModel prov)
             | Some effort \<Rightarrow>
                (case callOptions effort p of
                   (None, n) \<Rightarrow> Inl (Opaque (''thinking is not supported for provider '' @
                                     quote (provider_text (providerName p))))
                 | (Some opts, n) \<Rightarrow>
                     Inr ((NewFantasyModel prov)\<lparr>fm_thinkingOpts := Some opts, fm_minOutputTokens := n\<rparr>)))))"

definition resolve ::
  "('p \<Rightarrow> string \<Rightarrow> 'lm res) \<Rightarrow> string \<Rightarrow> ('p, 'lm) fantasy_model \<Rightarrow> ('p, 'lm) fantasy_model \<times> 'lm res" where
  "resolve lookup i m =
    (case map_of (fm_cache m) i of
       Some lm \<Rightarrow> (m, Inr lm)
     | None \<Rightarrow>
        (case lookup (fm_provider m) i of
           Inl e \<Rightarrow> (m, Inl e)
         | Inr lm \<Rightarrow> (m\<lparr>fm_cache := AList.update i lm (fm_cache m)\<rparr>, Inr lm)))"

record call =
  ca_Prompt :: "msg list"
  ca_Tools :: "tool_def list"
  ca_MaxOutputTokens :: "int option"
  ca_ProviderOptions :: "call_options option"

definition model_call :: "('p, 'lm) fantasy_model \<Rightarrow> request \<Rightarrow> call" where
  "model_call m req =
    \<lparr>ca_Prompt = (if rq_System req \<noteq> '''' then [\<lparr>ms_Role = RoleSystem, ms_Content = [TextPart (rq_System req)]\<rparr>] else [])
        @ rq_Messages req,
     ca_Tools = rq_Tools req, ca_MaxOutputTokens = None, ca_ProviderOptions = fm_thinkingOpts m\<rparr>"

definition outputBudget :: "int \<Rightarrow> int \<Rightarrow> int option" where
  "outputBudget requested thinking =
    (let budget = max requested thinking in if budget \<le> 0 then None else Some budget)"

record response =
  rs_Reasoning :: "(string \<times> metadata) list"
  rs_Text :: string
  rs_ToolCalls :: "tool_call list"
  rs_Usage :: usage

definition assistantMessage :: "response \<Rightarrow> msg" where
  "assistantMessage r = \<lparr>ms_Role = RoleAssistant, ms_Content =
     map (\<lambda>(t, m). ReasoningPart t m) (rs_Reasoning r) @
     (if rs_Text r \<noteq> '''' then [TextPart (rs_Text r)] else []) @
     map (\<lambda>c. ToolCallPart (tc_ID c) (tc_Name c) (tc_Input c)) (rs_ToolCalls r)\<rparr>"

definition Generate ::
  "('p \<Rightarrow> string \<Rightarrow> 'lm res) \<Rightarrow> ('lm \<Rightarrow> call \<Rightarrow> response res) \<Rightarrow> request \<Rightarrow>
   ('p, 'lm) fantasy_model \<Rightarrow> ('p, 'lm) fantasy_model \<times> usage \<times> msg res" where
  "Generate lookup gen req m =
    (case resolve lookup (rq_Model req) m of
       (m', Inl e) \<Rightarrow> (m', no_usage, Inl e)
     | (m', Inr lm) \<Rightarrow>
        (case gen lm ((model_call m' req)\<lparr>ca_MaxOutputTokens :=
                 outputBudget (rq_MaxOutputTokens req) (fm_minOutputTokens m')\<rparr>) of
           Inl e \<Rightarrow> (m', no_usage, Inl e)
         | Inr resp \<Rightarrow> (m', rs_Usage resp, Inr (assistantMessage resp))))"

definition model_Stream ::
  "('p \<Rightarrow> string \<Rightarrow> 'lm res) \<Rightarrow> ('lm \<Rightarrow> call \<Rightarrow> stream_part list res) \<Rightarrow> request \<Rightarrow>
   ('p, 'lm) fantasy_model \<Rightarrow> ('p, 'lm) fantasy_model \<times> stream_part list res" where
  "model_Stream lookup str req m =
    (case resolve lookup (rq_Model req) m of
       (m', Inl e) \<Rightarrow> (m', Inl e)
     | (m', Inr lm) \<Rightarrow>
        (m', str lm ((model_call m' req)\<lparr>ca_MaxOutputTokens :=
               outputBudget (rq_MaxOutputTokens req) (max (fm_minOutputTokens m') streamMinOutputTokens)\<rparr>)))"

subsection \<open>A whole answer as a stream\<close>

lemma collect_append:
  "collect g (ps @ qs) =
    (if list_all (\<lambda>p. case p of StreamError e \<Rightarrow> False | _ \<Rightarrow> True) ps
     then collect (fold collect_part ps g) qs else collect g ps)"
  by (induction ps arbitrary: g) (auto split: stream_part.splits)

lemma streamed_part_ok:
  "list_all (\<lambda>p. case p of StreamError e \<Rightarrow> False | _ \<Rightarrow> True) (streamed_part i p)"
  by (simp add: streamed_part_def split: part.splits)

lemma collect_streamed_part:
  "fold collect_part (streamed_part i p) g =
    (case p of
       ReasoningPart t m \<Rightarrow> g\<lparr>ga_thinking := AList.update (itoa (int i)) (length (ga_reasoning g)) (ga_thinking g),
                              ga_reasoning := ga_reasoning g @ [(t, m)]\<rparr>
     | TextPart t \<Rightarrow> g\<lparr>ga_text := ga_text g @ t\<rparr>
     | ToolCallPart c n inp \<Rightarrow> g\<lparr>ga_calls := ga_calls g @ [ToolCallPart c n inp]\<rparr>
     | _ \<Rightarrow> g)"
  by (cases p) (auto simp: streamed_part_def think_more_def)

definition calls_of :: "part list \<Rightarrow> part list" where
  "calls_of ps = map (\<lambda>c. ToolCallPart (tc_ID c) (tc_Name c) (tc_Input c)) (call_parts ps)"

lemma collect_parts_gather:
  "\<exists>th. fold collect_part (concat (map2 streamed_part [k..<k + length ps] ps)) g =
     g\<lparr>ga_thinking := th, ga_reasoning := ga_reasoning g @ reasoning_parts ps,
       ga_text := ga_text g @ concat (text_parts ps), ga_calls := ga_calls g @ calls_of ps\<rparr>"
proof (induction ps arbitrary: k g)
  case Nil then show ?case by (auto simp: calls_of_def intro: exI[of _ "ga_thinking g"])
next
  case (Cons p ps)
  have upt: "[k..<k + length (p # ps)] = k # [Suc k..<Suc k + length ps]"
    using upt_conv_Cons[of k "k + length (p # ps)"] by (simp del: upt_Suc)
  show ?case unfolding upt
    using Cons.IH[of "Suc k" "fold collect_part (streamed_part k p) g"]
    by (cases p) (auto simp: collect_streamed_part calls_of_def)
qed

lemma collect_streamed:
  "Streamed u (Inr m) = Inr ps \<Longrightarrow>
   Collect ps = (u, Inr \<lparr>ms_Role = RoleAssistant, ms_Content =
     map (\<lambda>(t, md). ReasoningPart t md) (reasoning_parts (ms_Content m)) @
     (if concat (text_parts (ms_Content m)) \<noteq> '''' then [TextPart (concat (text_parts (ms_Content m)))] else []) @
     calls_of (ms_Content m)\<rparr>)"
proof -
  assume "Streamed u (Inr m) = Inr ps"
  then have ps: "ps = concat (map2 streamed_part [0..<length (ms_Content m)] (ms_Content m)) @ [Finish u FinishStop]"
    by (simp add: Streamed_def)
  let ?qs = "concat (map2 streamed_part [0..<length (ms_Content m)] (ms_Content m))"
  have ok: "list_all (\<lambda>p. case p of StreamError e \<Rightarrow> False | _ \<Rightarrow> True) ?qs"
    using streamed_part_ok by (auto simp: list_all_iff)
  obtain th where "fold collect_part ?qs gathered0 =
     gathered0\<lparr>ga_thinking := th, ga_reasoning := ga_reasoning gathered0 @ reasoning_parts (ms_Content m),
       ga_text := ga_text gathered0 @ concat (text_parts (ms_Content m)),
       ga_calls := ga_calls gathered0 @ calls_of (ms_Content m)\<rparr>"
    using collect_parts_gather[of 0 "ms_Content m" gathered0] by auto
  then show ?thesis using ok
    by (simp add: Collect_def ps collect_append finished_def gathered0_def)
qed

text \<open>The messages a model client builds are the ones a stream can carry exactly.\<close>

lemma parts_append [simp]:
  "reasoning_parts (ps @ qs) = reasoning_parts ps @ reasoning_parts qs"
  "text_parts (ps @ qs) = text_parts ps @ text_parts qs"
  "call_parts (ps @ qs) = call_parts ps @ call_parts qs"
proof -
  show "reasoning_parts (ps @ qs) = reasoning_parts ps @ reasoning_parts qs"
    by (induction ps rule: reasoning_parts.induct) simp_all
  show "text_parts (ps @ qs) = text_parts ps @ text_parts qs"
    by (induction ps rule: text_parts.induct) simp_all
  show "call_parts (ps @ qs) = call_parts ps @ call_parts qs"
    by (induction ps rule: call_parts.induct) simp_all
qed

lemma parts_of_lists [simp]:
  "reasoning_parts (map (\<lambda>(t, m). ReasoningPart t m) rs) = rs"
  "text_parts (map (\<lambda>(t, m). ReasoningPart t m) rs) = []"
  "call_parts (map (\<lambda>(t, m). ReasoningPart t m) rs) = []"
  "reasoning_parts (map (\<lambda>c. ToolCallPart (tc_ID c) (tc_Name c) (tc_Input c)) cs) = []"
  "text_parts (map (\<lambda>c. ToolCallPart (tc_ID c) (tc_Name c) (tc_Input c)) cs) = []"
  "call_parts (map (\<lambda>c. ToolCallPart (tc_ID c) (tc_Name c) (tc_Input c)) cs) = cs"
  by (induction rs) (auto, (induction cs; simp)+)

lemma assistantMessage_parts:
  "reasoning_parts (ms_Content (assistantMessage r)) = rs_Reasoning r"
  "concat (text_parts (ms_Content (assistantMessage r))) = rs_Text r"
  "call_parts (ms_Content (assistantMessage r)) = rs_ToolCalls r"
  by (simp_all add: assistantMessage_def)

end
