(* ===== verification/AgentBase.thy ===== *)
theory AgentBase
  imports ModelBase
begin

section \<open>The agent: metaharness/agent\<close>

text \<open>
  Sessions, the loop that runs a turn, typed tools and resuming. What an agent is wired to (model,
  tools, store, memory, sandboxes) acts on a world \<open>'w\<close> that this theory does not look into; a
  sandbox handle is a \<open>'b\<close>. A nil interface is None. The loop runs until the model stops asking
  for tools, so it is a \<open>loop\<close> of the prelude; \<open>ctx\<close> is what \<open>ctx.Err()\<close> answers.
\<close>

subsection \<open>session.go and store.go\<close>

datatype status = StatusActive | StatusCompleted | StatusFailed

fun status_text :: "status \<Rightarrow> string" where
  "status_text StatusActive = ''active''"
| "status_text StatusCompleted = ''completed''"
| "status_text StatusFailed = ''failed''"

definition ErrSandboxMismatch :: goerr where
  "ErrSandboxMismatch = Sentinel ''agent: the sandbox is not the one the session recorded''"

definition ErrNotFound :: goerr where "ErrNotFound = Sentinel ''session not found''"

record 'b session =
  ss_ID :: string
  ss_Model :: string
  ss_Messages :: "msg list"
  ss_Usage :: usage
  ss_Status :: status
  ss_name :: string
  ss_box :: "'b option"

record session_info =
  si_ID :: string
  si_Model :: string
  si_Status :: status
  si_Messages :: int
  si_Usage :: usage
  si_UpdatedAt :: gotime

record session_record =
  sr_ID :: string
  sr_Model :: string
  sr_Status :: status
  sr_Usage :: usage
  sr_Sandbox :: string
  sr_Messages :: "msg list"

text \<open>A sandbox handle's \<open>Name\<close> and \<open>Close\<close>.\<close>

record ('b, 'w) sandbox_ops =
  box_Name :: "'b \<Rightarrow> 'w \<Rightarrow> string"
  box_Close :: "'b \<Rightarrow> 'w \<Rightarrow> 'w \<times> goerr option"

definition NewSession :: "('b, 'w) sandbox_ops \<Rightarrow> string \<Rightarrow> string \<Rightarrow> 'b option \<Rightarrow> 'w \<Rightarrow> 'b session" where
  "NewSession ops i modelID box w =
    (let s = \<lparr>ss_ID = i, ss_Model = modelID, ss_Messages = [], ss_Usage = no_usage, ss_Status = StatusActive,
              ss_name = '''', ss_box = None\<rparr> in
     case box of None \<Rightarrow> s | Some b \<Rightarrow> s\<lparr>ss_name := box_Name ops b w, ss_box := Some b\<rparr>)"

definition session_Sandbox :: "'b session \<Rightarrow> 'b option" where "session_Sandbox s = ss_box s"
definition SandboxName :: "'b session \<Rightarrow> string" where "SandboxName s = ss_name s"

definition Bind :: "('b, 'w) sandbox_ops \<Rightarrow> 'b option \<Rightarrow> 'w \<Rightarrow> 'b session \<Rightarrow> 'b session \<times> goerr option" where
  "Bind ops box w s =
    (case box of
       None \<Rightarrow> (s, Some (Opaque ''agent: nil sandbox''))
     | Some b \<Rightarrow>
        if ss_box s \<noteq> None then (s, Some (Opaque ''agent: the session already has a sandbox''))
        else if ss_name s \<noteq> '''' \<and> box_Name ops b w \<noteq> ss_name s then (s, Some ErrSandboxMismatch)
        else (s\<lparr>ss_name := box_Name ops b w, ss_box := Some b\<rparr>, None))"

definition session_Close :: "('b, 'w) sandbox_ops \<Rightarrow> 'b session \<Rightarrow> 'w \<Rightarrow> 'b session \<times> 'w \<times> goerr option" where
  "session_Close ops s w =
    (case ss_box s of
       None \<Rightarrow> (s, w, None)
     | Some b \<Rightarrow> (s\<lparr>ss_box := None\<rparr>, box_Close ops b w))"

definition addUsage :: "usage \<Rightarrow> usage \<Rightarrow> usage" where
  "addUsage a b =
    \<lparr>InputTokens = InputTokens a + InputTokens b, OutputTokens = OutputTokens a + OutputTokens b,
     TotalTokens = TotalTokens a + TotalTokens b, ReasoningTokens = ReasoningTokens a + ReasoningTokens b,
     CacheCreationTokens = CacheCreationTokens a + CacheCreationTokens b,
     CacheReadTokens = CacheReadTokens a + CacheReadTokens b\<rparr>"

definition Record :: "'b session \<Rightarrow> session_record" where
  "Record s = \<lparr>sr_ID = ss_ID s, sr_Model = ss_Model s, sr_Status = ss_Status s, sr_Usage = ss_Usage s,
     sr_Sandbox = ss_name s, sr_Messages = ss_Messages s\<rparr>"

definition Session :: "session_record \<Rightarrow> 'b session" where
  "Session r = \<lparr>ss_ID = sr_ID r, ss_Model = sr_Model r, ss_Messages = sr_Messages r, ss_Usage = sr_Usage r,
     ss_Status = sr_Status r, ss_name = sr_Sandbox r, ss_box = None\<rparr>"

lemma Session_Record: "Session (Record s) = s\<lparr>ss_box := None\<rparr>"
  by (simp add: Session_def Record_def)

lemma Record_Session [simp]: "Record (Session r) = r"
  by (simp add: Session_def Record_def)

text \<open>A \<open>SessionStore\<close>, with the \<open>SessionLister\<close> it may also be.\<close>

record ('b, 'w) store =
  so_Save :: "'b session \<Rightarrow> 'w \<Rightarrow> 'w \<times> goerr option"
  so_Load :: "string \<Rightarrow> 'w \<Rightarrow> 'w \<times> 'b session res"
  so_List :: "(int \<Rightarrow> 'w \<Rightarrow> 'w \<times> session_info list res) option"

definition DiscardStore :: "('b, 'w) store" where
  "DiscardStore = \<lparr>so_Save = (\<lambda>s w. (w, None)), so_Load = (\<lambda>i w. (w, Inl ErrNotFound)), so_List = None\<rparr>"

subsection \<open>tool.go, agent.go and memory.go\<close>

record tool_result =
  tr_Content :: string
  tr_IsError :: bool

record ('b, 'w) tool =
  tl_Def :: tool_def
  tl_Execute :: "'b session \<Rightarrow> 'b \<Rightarrow> string \<Rightarrow> 'w \<Rightarrow> 'w \<times> tool_result res"

record ('b, 'w) memory =
  me_Recall :: "'w \<Rightarrow> 'w \<times> string res"
  me_Tools :: "('b, 'w) tool list"

record ('b, 'w) agent =
  ag_SystemPrompt :: string
  ag_Tools :: "(string \<times> ('b, 'w) tool) list"
  ag_Model :: "(request \<Rightarrow> 'w \<Rightarrow> 'w \<times> stream_part list res) option"
  ag_Store :: "('b, 'w) store option"
  ag_Memory :: "('b, 'w) memory option"

text \<open>An option changes the agent; None is the panic on a duplicate tool.\<close>

fun WithTools :: "('b, 'w) tool list \<Rightarrow> ('b, 'w) agent \<Rightarrow> ('b, 'w) agent option" where
  "WithTools [] a = Some a"
| "WithTools (t # ts) a =
    (let name = td_Name (tl_Def t) in
     if map_of (ag_Tools a) name \<noteq> None then None
     else WithTools ts (a\<lparr>ag_Tools := AList.update name t (ag_Tools a)\<rparr>))"

definition WithModel where "WithModel m a = Some (a\<lparr>ag_Model := m\<rparr>)"
definition WithStore where "WithStore st a = Some (a\<lparr>ag_Store := st\<rparr>)"

definition WithMemory :: "('b, 'w) memory option \<Rightarrow> ('b, 'w) agent \<Rightarrow> ('b, 'w) agent option" where
  "WithMemory m a =
    (let a1 = a\<lparr>ag_Memory := m\<rparr> in case m of None \<Rightarrow> Some a1 | Some mem \<Rightarrow> WithTools (me_Tools mem) a1)"

fun apply_opts :: "(('b, 'w) agent \<Rightarrow> ('b, 'w) agent option) list \<Rightarrow> ('b, 'w) agent \<Rightarrow> ('b, 'w) agent option" where
  "apply_opts [] a = Some a"
| "apply_opts (f # fs) a = (case f a of None \<Rightarrow> None | Some a' \<Rightarrow> apply_opts fs a')"

definition New :: "string \<Rightarrow> (('b, 'w) agent \<Rightarrow> ('b, 'w) agent option) list \<Rightarrow> ('b, 'w) agent option" where
  "New systemPrompt opts = apply_opts opts
     \<lparr>ag_SystemPrompt = systemPrompt, ag_Tools = [], ag_Model = None, ag_Store = Some DiscardStore, ag_Memory = None\<rparr>"

definition toolDefs :: "('b, 'w) agent \<Rightarrow> tool_def list" where
  "toolDefs a = map (\<lambda>(n, t). tl_Def t) (ag_Tools a)"

definition systemPrompt :: "('b, 'w) agent \<Rightarrow> 'w \<Rightarrow> 'w \<times> string res" where
  "systemPrompt a w =
    (case ag_Memory a of
       None \<Rightarrow> (w, Inr (ag_SystemPrompt a))
     | Some m \<Rightarrow>
        (case me_Recall m w of
           (w', Inl e) \<Rightarrow> (w', Inl e)
         | (w', Inr notes) \<Rightarrow>
             if notes = '''' then (w', Inr (ag_SystemPrompt a))
             else (w', Inr (ag_SystemPrompt a @ [CHR 0x0A, CHR 0x0A] @ notes))))"

subsection \<open>run.go\<close>

datatype event = EventAssistant msg | EventToolResult msg | EventDone msg | EventError goerr

definition toolResultMsg :: "string \<Rightarrow> string \<Rightarrow> bool \<Rightarrow> msg" where
  "toolResultMsg i content isErr =
    \<lparr>ms_Role = RoleTool, ms_Content =
       [ToolResultPart i (if isErr then OutputError (Opaque content) else OutputText content)]\<rparr>"

definition lastMessage :: "'b session \<Rightarrow> msg option" where
  "lastMessage s = (if ss_Messages s = [] then None else Some (last (ss_Messages s)))"

definition toolCalls :: "msg option \<Rightarrow> tool_call list" where
  "toolCalls m = (case m of None \<Rightarrow> [] | Some m \<Rightarrow> if ms_Role m \<noteq> RoleAssistant then [] else call_parts (ms_Content m))"

definition dispatch ::
  "('b, 'w) agent \<Rightarrow> 'b session \<Rightarrow> 'b \<Rightarrow> tool_call \<Rightarrow> 'w \<Rightarrow> 'w \<times> msg" where
  "dispatch a sess box c w =
    (case map_of (ag_Tools a) (tc_Name c) of
       None \<Rightarrow> (w, toolResultMsg (tc_ID c) (''unknown tool: '' @ tc_Name c) True)
     | Some t \<Rightarrow>
        (case tl_Execute t sess box (tc_Input c) w of
           (w', Inl e) \<Rightarrow> (w', toolResultMsg (tc_ID c) (err_text e) True)
         | (w', Inr res) \<Rightarrow> (w', toolResultMsg (tc_ID c) (tr_Content res) (tr_IsError res))))"

definition append_msg :: "msg \<Rightarrow> 'b session \<Rightarrow> 'b session" where
  "append_msg m s = s\<lparr>ss_Messages := ss_Messages s @ [m]\<rparr>"

type_synonym ('b, 'w) turn = "'b session \<times> event list \<times> 'w"

fun dispatch_all :: "('b, 'w) agent \<Rightarrow> 'b \<Rightarrow> tool_call list \<Rightarrow> ('b, 'w) turn \<Rightarrow> ('b, 'w) turn" where
  "dispatch_all a box [] t = t"
| "dispatch_all a box (c # cs) (sess, evs, w) =
    (let (w', res) = dispatch a sess box c w in
     dispatch_all a box cs (append_msg res sess, evs @ [EventToolResult res], w'))"

definition fail :: "('b, 'w) store \<Rightarrow> goerr \<Rightarrow> ('b, 'w) turn \<Rightarrow> ('b, 'w) turn" where
  "fail st err = (\<lambda>(sess, evs, w).
    let sess' = sess\<lparr>ss_Status := StatusFailed\<rparr> in
    (sess', evs @ [EventError err], fst (so_Save st sess' w)))"

definition agent_call ::
  "(request \<Rightarrow> 'w \<Rightarrow> 'w \<times> stream_part list res) \<Rightarrow> request \<Rightarrow> 'w \<Rightarrow> 'w \<times> usage \<times> msg res" where
  "agent_call model req w =
    (case model req w of
       (w', Inl e) \<Rightarrow> (w', no_usage, Inl e)
     | (w', Inr parts) \<Rightarrow> (w', Collect parts))"

text \<open>The round that asks the model.\<close>

definition model_round ::
  "(request \<Rightarrow> 'w \<Rightarrow> 'w \<times> stream_part list res) \<Rightarrow> ('b, 'w) store \<Rightarrow> ('b, 'w) agent \<Rightarrow> string \<Rightarrow>
   ('b, 'w) turn \<Rightarrow> ('b, 'w) turn + ('b, 'w) turn" where
  "model_round model st a system = (\<lambda>(sess, evs, w).
    (let (w1, used, r) = agent_call model
           \<lparr>rq_Model = ss_Model sess, rq_System = system, rq_Messages = ss_Messages sess,
            rq_Tools = toolDefs a, rq_MaxOutputTokens = 0\<rparr> w;
         sess1 = sess\<lparr>ss_Usage := addUsage (ss_Usage sess) used\<rparr> in
     case r of
       Inl e \<Rightarrow> Inr (fail st e (sess1, evs, w1))
     | Inr m \<Rightarrow>
        (let sess2 = append_msg m sess1; evs2 = evs @ [EventAssistant m];
             (w2, r2) = so_Save st sess2 w1 in
         case r2 of
           Some e \<Rightarrow> Inr (fail st e (sess2, evs2, w2))
         | None \<Rightarrow> Inl (sess2, evs2, w2))))"

text \<open>One round of the loop: it stops with the turn, or goes on with it.\<close>

definition run_step ::
  "('w \<Rightarrow> goerr option) \<Rightarrow> (request \<Rightarrow> 'w \<Rightarrow> 'w \<times> stream_part list res) \<Rightarrow> ('b, 'w) store \<Rightarrow>
   ('b, 'w) agent \<Rightarrow> string \<Rightarrow> 'b \<Rightarrow> ('b, 'w) turn \<Rightarrow> ('b, 'w) turn + ('b, 'w) turn" where
  "run_step ctx model st a system box = (\<lambda>(sess, evs, w).
    (case ctx w of
       Some e \<Rightarrow> Inr (fail st e (sess, evs, w))
     | None \<Rightarrow>
       (let lst = lastMessage sess; calls = toolCalls lst in
        if calls \<noteq> [] then
          (let (sess1, evs1, w1) = dispatch_all a box calls (sess, evs, w);
               (w2, r) = so_Save st sess1 w1 in
           case r of
             Some e \<Rightarrow> Inr (fail st e (sess1, evs1, w2))
           | None \<Rightarrow> Inl (sess1, evs1, w2))
        else case lst of
          Some m \<Rightarrow>
            if ms_Role m = RoleAssistant
            then (let sess1 = sess\<lparr>ss_Status := StatusCompleted\<rparr> in
                  Inr (sess1, evs @ [EventDone m], fst (so_Save st sess1 w)))
            else model_round model st a system (sess, evs, w)
        | None \<Rightarrow> model_round model st a system (sess, evs, w))))"

definition ErrNilSession :: goerr where "ErrNilSession = Opaque ''nil session''"
definition ErrNotWired :: goerr where "ErrNotWired = Opaque ''agent not fully wired''"
definition ErrNoSandbox :: goerr where "ErrNoSandbox = Opaque ''session has no sandbox''"

text \<open>The turn: an error before it starts, or what the loop comes to (None if it never ends).\<close>

definition Run ::
  "('w \<Rightarrow> goerr option) \<Rightarrow> ('b, 'w) agent \<Rightarrow> 'b session option \<Rightarrow> 'w \<Rightarrow> ('b, 'w) turn option res" where
  "Run ctx a sess w =
    (case sess of
       None \<Rightarrow> Inl ErrNilSession
     | Some s \<Rightarrow>
        (case (ag_Model a, ag_Store a) of
           (Some model, Some st) \<Rightarrow>
            (case session_Sandbox s of
               None \<Rightarrow> Inl ErrNoSandbox
             | Some box \<Rightarrow>
                (case systemPrompt a w of
                   (w1, Inl e) \<Rightarrow> Inl e
                 | (w1, Inr system) \<Rightarrow>
                     Inr (loop (run_step ctx model st a system box) (s, [], w1))))
         | _ \<Rightarrow> Inl ErrNotWired))"

subsection \<open>adapt.go\<close>

text \<open>
  A typed tool: \<open>parse\<close> is \<open>json.Unmarshal\<close> into \<open>any\<close>, \<open>validate\<close> the schema
  library's check, \<open>decode\<close> \<open>json.Unmarshal\<close> into the argument type.
\<close>

record ('j, 't, 'b, 'w) typed_tool =
  ty_Def :: tool_def
  ty_parse :: "string \<Rightarrow> 'j res"
  ty_validate :: "'j \<Rightarrow> goerr option"
  ty_decode :: "string \<Rightarrow> 't res"
  ty_Execute :: "'b session \<Rightarrow> 'b \<Rightarrow> 't \<Rightarrow> 'w \<Rightarrow> 'w \<times> tool_result res"

definition invalid_arguments :: "goerr \<Rightarrow> tool_result res" where
  "invalid_arguments e = Inr \<lparr>tr_Content = ''invalid arguments: '' @ err_text e, tr_IsError = True\<rparr>"

definition adapter_Execute ::
  "('j, 't, 'b, 'w) typed_tool \<Rightarrow> 'b session \<Rightarrow> 'b \<Rightarrow> string \<Rightarrow> 'w \<Rightarrow> 'w \<times> tool_result res" where
  "adapter_Execute ty sess box input0 w =
    (let trimmed = trim_space input0;
         input = (if trimmed = '''' \<or> trimmed = ''null'' then ''{}'' else input0) in
     case ty_parse ty input of
       Inl e \<Rightarrow> (w, invalid_arguments e)
     | Inr obj \<Rightarrow>
        (case ty_validate ty obj of
           Some e \<Rightarrow> (w, invalid_arguments e)
         | None \<Rightarrow>
            (case ty_decode ty input of
               Inl e \<Rightarrow> (w, invalid_arguments e)
             | Inr args \<Rightarrow> ty_Execute ty sess box args w)))"

definition Adapt :: "('j, 't, 'b, 'w) typed_tool \<Rightarrow> ('b, 'w) tool" where
  "Adapt ty = \<lparr>tl_Def = ty_Def ty, tl_Execute = adapter_Execute ty\<rparr>"

subsection \<open>sessions.go\<close>

text \<open>
  \<open>open_box\<close> is \<open>SandboxOpener.Open\<close>; the handle a failed \<open>Bind\<close> leaves over is closed.
\<close>

definition Resume ::
  "(string \<Rightarrow> string) \<Rightarrow> ('b, 'w) store \<Rightarrow> ('b, 'w) sandbox_ops \<Rightarrow> (string \<Rightarrow> 'w \<Rightarrow> 'w \<times> 'b res) \<Rightarrow>
   string \<Rightarrow> 'w \<Rightarrow> 'w \<times> 'b session res" where
  "Resume quote st ops open_box i w =
    (case so_Load st i w of
       (w1, Inl e) \<Rightarrow> (w1, Inl e)
     | (w1, Inr sess) \<Rightarrow>
        (case open_box (SandboxName sess) w1 of
           (w2, Inl e) \<Rightarrow> (w2, Inl (Wrap (''agent: opening sandbox '' @ quote (SandboxName sess) @
              '' for session '' @ quote i @ '': '') e ''''))
         | (w2, Inr box) \<Rightarrow>
            (case Bind ops (Some box) w2 sess of
               (s, Some e) \<Rightarrow> (fst (box_Close ops box w2), Inl e)
             | (s, None) \<Rightarrow> (w2, Inr s))))"

definition Sessions_List :: "('b, 'w) store \<Rightarrow> int \<Rightarrow> 'w \<Rightarrow> ('w \<times> session_info list res) option" where
  "Sessions_List st limit w = map_option (\<lambda>f. f limit w) (so_List st)"

text \<open>\<open>Agent.Sessions\<close> is nil unless the store lists and there is an opener.\<close>

definition Sessions :: "('b, 'w) agent \<Rightarrow> (string \<Rightarrow> 'w \<Rightarrow> 'w \<times> 'b res) option \<Rightarrow>
    (('b, 'w) store \<times> (string \<Rightarrow> 'w \<Rightarrow> 'w \<times> 'b res)) option" where
  "Sessions a boxes =
    (case ag_Store a of
       None \<Rightarrow> None
     | Some st \<Rightarrow> (case (so_List st, boxes) of (Some l, Some b) \<Rightarrow> Some (st, b) | _ \<Rightarrow> None))"

end
