(* ===== verification/Agent.thy ===== *)
theory Agent
  imports AgentBase
begin

section \<open>What a turn promises\<close>

text \<open>
  Lemmas on one round of the loop, then the properties of a whole turn: what it reports, that every
  tool call is answered, that it ends when the model stops asking; streams, sessions and typed
  tools.
\<close>

subsection \<open>Transcripts\<close>

text \<open>A result message for one call.\<close>

definition answers :: "tool_call \<Rightarrow> msg \<Rightarrow> bool" where
  "answers c r = (ms_Role r = RoleTool \<and>
     (case ms_Content r of [ToolResultPart i out] \<Rightarrow> i = tc_ID c | _ \<Rightarrow> False))"

text \<open>Every assistant message with calls is followed by exactly their results, in order.\<close>

inductive settled :: "msg list \<Rightarrow> bool" where
  settled_Nil: "settled []"
| settled_plain: "settled ms \<Longrightarrow> toolCalls (Some m) = [] \<Longrightarrow> settled (ms @ [m])"
| settled_turn: "settled ms \<Longrightarrow> toolCalls (Some m) \<noteq> [] \<Longrightarrow> list_all2 answers (toolCalls (Some m)) rs \<Longrightarrow>
    settled (ms @ m # rs)"

definition transcript_ok :: "msg list \<Rightarrow> bool" where
  "transcript_ok ms = (settled ms \<or> (\<exists>ms' m. ms = ms' @ [m] \<and> settled ms' \<and> toolCalls (Some m) \<noteq> []))"

lemma answers_toolResultMsg [simp]: "answers c (toolResultMsg (tc_ID c) t e)"
  by (simp add: answers_def toolResultMsg_def)

lemma settled_last_calls:
  assumes "settled ms" "ms \<noteq> []"
  shows "toolCalls (Some (last ms)) = []"
  using assms
proof (cases rule: settled.cases)
  case (settled_turn ms' m rs)
  then have "rs \<noteq> []" by auto
  then have "answers (last (toolCalls (Some m))) (last rs)"
    using settled_turn(4) by (metis list_all2_conv_all_nth last_conv_nth length_0_conv diff_less
        length_greater_0_conv zero_less_one)
  then show ?thesis using settled_turn(1) \<open>rs \<noteq> []\<close> by (auto simp: toolCalls_def answers_def)
qed auto

lemma settled_append: "settled ns \<Longrightarrow> settled ms \<Longrightarrow> settled (ms @ ns)"
proof (induction rule: settled.induct)
  case (settled_plain ns m)
  then show ?case using settled.settled_plain[of "ms @ ns" m] by simp
next
  case (settled_turn ns m rs)
  then show ?case using settled.settled_turn[of "ms @ ns" m rs] by simp
qed simp

lemma transcript_append:
  assumes "settled ms" "transcript_ok ns"
  shows "transcript_ok (ms @ ns)"
proof (cases "settled ns")
  case True
  then show ?thesis using settled_append assms(1) by (simp add: transcript_ok_def)
next
  case False
  then obtain ns' m where "ns = ns' @ [m]" "settled ns'" "toolCalls (Some m) \<noteq> []" using assms(2) by (auto simp: transcript_ok_def)
  then show ?thesis using settled_append[of ns' ms] assms(1) unfolding transcript_ok_def by (metis append.assoc)
qed

text \<open>
  What is open when a turn starts are the calls of the last message. From there on, the transcript is
  in order, whatever came before; \<open>n\<close> is how much that is.
\<close>

definition pending :: "'b session \<Rightarrow> msg list" where
  "pending s = (if toolCalls (lastMessage s) = [] then [] else [last (ss_Messages s)])"

definition sound_from :: "nat \<Rightarrow> msg list \<Rightarrow> bool" where
  "sound_from n ms = (n \<le> length ms \<and> transcript_ok (drop n ms) \<and>
     (drop n ms = [] \<longrightarrow> ms = [] \<or> toolCalls (Some (last ms)) = []))"

lemma sound_start:
  "\<exists>n. sound_from n (ss_Messages s) \<and> (\<forall>new. drop n (ss_Messages s @ new) = pending s @ new)"
proof (cases "toolCalls (lastMessage s) = []")
  case True
  then have "sound_from (length (ss_Messages s)) (ss_Messages s)"
    by (auto simp: sound_from_def transcript_ok_def lastMessage_def intro: settled_Nil split: if_splits)
  then show ?thesis using True by (intro exI[of _ "length (ss_Messages s)"]) (simp add: pending_def)
next
  case False
  then have ne: "ss_Messages s \<noteq> []" by (auto simp: lastMessage_def toolCalls_def)
  then obtain ms m where m: "ss_Messages s = ms @ [m]" by (metis append_butlast_last_id)
  have calls: "toolCalls (Some m) \<noteq> []" using False m by (simp add: lastMessage_def)
  then have "transcript_ok [m]" using settled_Nil unfolding transcript_ok_def by (metis append_Nil)
  then have "sound_from (length ms) (ss_Messages s)" by (simp add: sound_from_def m)
  then show ?thesis using False m by (intro exI[of _ "length ms"]) (simp add: pending_def)
qed

lemma transcript_pending:
  assumes "transcript_ok (ss_Messages s)"
  shows "\<exists>ms. ss_Messages s = ms @ pending s \<and> settled ms"
proof (cases "settled (ss_Messages s)")
  case True
  then have "pending s = []" using settled_last_calls by (auto simp: pending_def lastMessage_def toolCalls_def)
  then show ?thesis using True by simp
next
  case False
  then obtain ms m where "ss_Messages s = ms @ [m]" "settled ms" "toolCalls (Some m) \<noteq> []"
    using assms by (auto simp: transcript_ok_def)
  then show ?thesis by (simp add: pending_def lastMessage_def)
qed

lemma lastMessage_calls:
  assumes "sound_from n (ss_Messages s)" "toolCalls (lastMessage s) \<noteq> []"
  shows "\<exists>ms m. drop n (ss_Messages s) = ms @ [m] \<and> settled ms \<and> lastMessage s = Some m"
proof -
  have ne: "ss_Messages s \<noteq> []" using assms(2) by (auto simp: lastMessage_def toolCalls_def)
  then have lst: "lastMessage s = Some (last (ss_Messages s))" by (simp add: lastMessage_def)
  then have ne': "drop n (ss_Messages s) \<noteq> []" using assms ne by (auto simp: sound_from_def)
  then have l: "last (drop n (ss_Messages s)) = last (ss_Messages s)" by (simp add: last_drop)
  then have "\<not> settled (drop n (ss_Messages s))" using settled_last_calls[OF _ ne'] assms(2) lst by auto
  then show ?thesis using assms(1) l lst by (auto simp: transcript_ok_def sound_from_def)
qed

lemma lastMessage_settled:
  assumes "sound_from n (ss_Messages s)" "toolCalls (lastMessage s) = []"
  shows "settled (drop n (ss_Messages s))"
proof (rule ccontr)
  assume "\<not> settled (drop n (ss_Messages s))"
  then obtain ms m where m: "drop n (ss_Messages s) = ms @ [m]" "toolCalls (Some m) \<noteq> []"
    using assms(1) by (auto simp: transcript_ok_def sound_from_def)
  then have "n < length (ss_Messages s)" by (metis drop_all leI Nil_is_append_conv not_Cons_self2)
  then have "last (ss_Messages s) = m" "ss_Messages s \<noteq> []" using m(1) last_drop[of n "ss_Messages s"] by auto
  then show False using m(2) assms(2) by (simp add: lastMessage_def)
qed

lemma transcript_add: "settled ms \<Longrightarrow> transcript_ok (ms @ [m])"
  by (cases "toolCalls (Some m) = []") (auto simp: transcript_ok_def intro: settled_plain)

lemma sound_add:
  assumes "sound_from n ms" "transcript_ok (drop n ms @ new)" "new \<noteq> []"
  shows "sound_from n (ms @ new)"
  using assms by (auto simp: sound_from_def)

subsection \<open>One round\<close>

fun event_msg :: "event \<Rightarrow> msg option" where
  "event_msg (EventAssistant m) = Some m"
| "event_msg (EventToolResult m) = Some m"
| "event_msg _ = None"

definition progress :: "event \<Rightarrow> bool" where "progress e = (event_msg e \<noteq> None)"

definition reported :: "event list \<Rightarrow> msg list" where "reported evs = map (the \<circ> event_msg) evs"

lemma reported_append [simp]: "reported (a @ b) = reported a @ reported b"
  by (simp add: reported_def)

text \<open>What a session keeps whatever a turn does.\<close>

definition same_task :: "'b session \<Rightarrow> 'b session \<Rightarrow> bool" where
  "same_task s s' = (ss_ID s' = ss_ID s \<and> ss_Model s' = ss_Model s \<and> ss_name s' = ss_name s \<and> ss_box s' = ss_box s)"

lemma same_task_refl [simp]: "same_task s s"
  by (simp add: same_task_def)

lemma same_task_trans: "same_task s s' \<Longrightarrow> same_task s' s'' \<Longrightarrow> same_task s s''"
  by (simp add: same_task_def)

lemma dispatch_answers: "answers c (snd (dispatch a sess box c w))"
  by (auto simp: dispatch_def split: option.splits prod.splits sum.splits)

lemma dispatch_all_result:
  "\<exists>rs w'. dispatch_all a box cs (sess, evs, w) =
     (sess\<lparr>ss_Messages := ss_Messages sess @ rs\<rparr>, evs @ map EventToolResult rs, w') \<and> list_all2 answers cs rs"
proof (induction cs arbitrary: sess evs w)
  case (Cons c cs)
  obtain w1 r where 1: "dispatch a sess box c w = (w1, r)" by (metis prod.exhaust)
  obtain rs w' where 2: "dispatch_all a box cs (append_msg r sess, evs @ [EventToolResult r], w1) =
      ((append_msg r sess)\<lparr>ss_Messages := ss_Messages (append_msg r sess) @ rs\<rparr>,
       (evs @ [EventToolResult r]) @ map EventToolResult rs, w')" "list_all2 answers cs rs"
    using Cons by blast
  have "answers c r" using dispatch_answers[of c a sess box w] 1 by simp
  then show ?case using 1 2 by (intro exI[of _ "r # rs"] exI[of _ w']) (simp add: append_msg_def)
qed (auto intro: exI[of _ "[]"])

definition goes_on :: "nat \<Rightarrow> ('b, 'w) turn \<Rightarrow> ('b, 'w) turn \<Rightarrow> bool" where
  "goes_on n t t' = (case t of (s, evs, w) \<Rightarrow> case t' of (s', evs', w') \<Rightarrow>
     \<exists>new. evs' = evs @ new \<and> list_all progress new \<and> ss_Messages s' = ss_Messages s @ reported new \<and>
       sound_from n (ss_Messages s') \<and> same_task s s')"

definition stops :: "nat \<Rightarrow> ('b, 'w) store \<Rightarrow> ('b, 'w) turn \<Rightarrow> ('b, 'w) turn \<Rightarrow> bool" where
  "stops n st t t' = (case t of (s, evs, w) \<Rightarrow> case t' of (s', evs', w') \<Rightarrow>
     \<exists>new fin. evs' = evs @ new @ [fin] \<and> list_all progress new \<and>
       ss_Messages s' = ss_Messages s @ reported new \<and> sound_from n (ss_Messages s') \<and> same_task s s' \<and>
       (\<exists>w0. w' = fst (so_Save st s' w0)) \<and>
       (case fin of
          EventDone m \<Rightarrow> ss_Status s' = StatusCompleted \<and> settled (drop n (ss_Messages s')) \<and> lastMessage s' = Some m \<and>
            ms_Role m = RoleAssistant \<and> toolCalls (Some m) = []
        | EventError e \<Rightarrow> ss_Status s' = StatusFailed
        | _ \<Rightarrow> False))"

lemma fail_stops:
  assumes "goes_on n t t'" "fst t'' = fst t'" "fst (snd t'') = fst (snd t')"
  shows "stops n st t (fail st e t'')"
  using assms
  by (cases t; cases t'; cases t'')
     (auto simp: goes_on_def stops_def fail_def Let_def same_task_def)

lemma goes_on_refl: "sound_from n (ss_Messages (fst t)) \<Longrightarrow> goes_on n t t"
  by (cases t) (auto simp: goes_on_def reported_def intro: exI[of _ "[]"])

lemma model_round_ok:
  assumes "sound_from n (ss_Messages s)" "settled (drop n (ss_Messages s))"
  shows "model_round model st a system (s, evs, w) = Inl t' \<Longrightarrow> goes_on n (s, evs, w) t'"
    "model_round model st a system (s, evs, w) = Inr t' \<Longrightarrow> stops n st (s, evs, w) t'"
proof -
  let ?req = "\<lparr>rq_Model = ss_Model s, rq_System = system, rq_Messages = ss_Messages s,
      rq_Tools = toolDefs a, rq_MaxOutputTokens = 0\<rparr>"
  obtain w1 used r where 1: "agent_call model ?req w = (w1, used, r)" by (metis prod.exhaust)
  let ?s1 = "s\<lparr>ss_Usage := addUsage (ss_Usage s) used\<rparr>"
  have "(\<forall>t'. model_round model st a system (s, evs, w) = Inl t' \<longrightarrow> goes_on n (s, evs, w) t') \<and>
    (\<forall>t'. model_round model st a system (s, evs, w) = Inr t' \<longrightarrow> stops n st (s, evs, w) t')"
  proof (cases r)
    case (Inl e)
    have "goes_on n (s, evs, w) (?s1, evs, w)"
      using assms(1) by (auto simp: goes_on_def reported_def same_task_def intro: exI[of _ "[]"])
    then show ?thesis using 1 Inl fail_stops[of n "(s, evs, w)" "(?s1, evs, w)" "(?s1, evs, w1)"]
      by (simp add: model_round_def Let_def)
  next
    case (Inr m)
    let ?s2 = "append_msg m ?s1"
    obtain w2 r2 where 2: "so_Save st ?s2 w1 = (w2, r2)" by (metis prod.exhaust)
    have g: "goes_on n (s, evs, w) (?s2, evs @ [EventAssistant m], w2)"
      using sound_add[OF assms(1) transcript_add[OF assms(2)], of m]
      by (auto simp: goes_on_def append_msg_def progress_def reported_def same_task_def)
    show ?thesis using 1 2 Inr g fail_stops[OF g, of "(?s2, evs @ [EventAssistant m], w2)"]
      by (cases r2) (simp_all add: model_round_def Let_def)
  qed
  then show "model_round model st a system (s, evs, w) = Inl t' \<Longrightarrow> goes_on n (s, evs, w) t'"
    "model_round model st a system (s, evs, w) = Inr t' \<Longrightarrow> stops n st (s, evs, w) t'" by auto
qed

lemma run_step_ok:
  assumes "sound_from n (ss_Messages s)"
  shows "run_step ctx model st a system box (s, evs, w) = Inl t' \<Longrightarrow> goes_on n (s, evs, w) t'"
    "run_step ctx model st a system box (s, evs, w) = Inr t' \<Longrightarrow> stops n st (s, evs, w) t'"
proof -
  have "(\<forall>t'. run_step ctx model st a system box (s, evs, w) = Inl t' \<longrightarrow> goes_on n (s, evs, w) t') \<and>
    (\<forall>t'. run_step ctx model st a system box (s, evs, w) = Inr t' \<longrightarrow> stops n st (s, evs, w) t')"
  proof (cases "ctx w")
    case (Some e)
    have "goes_on n (s, evs, w) (s, evs, w)" using assms goes_on_refl by fastforce
    then show ?thesis using Some fail_stops[of n "(s, evs, w)" "(s, evs, w)" "(s, evs, w)"]
      by (simp add: run_step_def)
  next
    case None
    show ?thesis
    proof (cases "toolCalls (lastMessage s) = []")
      case True
      have set: "settled (drop n (ss_Messages s))" by (rule lastMessage_settled[OF assms True])
      have finish_ok: "stops n st (s, evs, w) (s\<lparr>ss_Status := StatusCompleted\<rparr>, evs @ [EventDone m],
          fst (so_Save st (s\<lparr>ss_Status := StatusCompleted\<rparr>) w))"
        if "lastMessage s = Some m" "ms_Role m = RoleAssistant" for m
        using that set True assms
        by (auto simp: stops_def reported_def same_task_def lastMessage_def
            split: if_splits intro!: exI[of _ "[]"])
      show ?thesis
        using None True finish_ok model_round_ok[OF assms set]
        by (auto simp: run_step_def Let_def split: option.splits)
    next
      case False
      then obtain ms m where m: "drop n (ss_Messages s) = ms @ [m]" "settled ms" "lastMessage s = Some m"
        using lastMessage_calls[OF assms] by blast
      obtain rs w1 where d: "dispatch_all a box (toolCalls (Some m)) (s, evs, w) =
          (s\<lparr>ss_Messages := ss_Messages s @ rs\<rparr>, evs @ map EventToolResult rs, w1)"
        "list_all2 answers (toolCalls (Some m)) rs"
        using dispatch_all_result[of a box "toolCalls (Some m)" s evs w] by blast
      let ?s1 = "s\<lparr>ss_Messages := ss_Messages s @ rs\<rparr>"
      obtain w2 r where sv: "so_Save st ?s1 w1 = (w2, r)" by (metis prod.exhaust)
      have calls: "toolCalls (Some m) \<noteq> []" using False m(3) by simp
      then have "settled (drop n (ss_Messages s) @ rs)" "rs \<noteq> []" using settled_turn[OF m(2) _ d(2)] d(2) m by auto
      then have "sound_from n (ss_Messages ?s1)" using sound_add[OF assms, of rs] by (simp add: transcript_ok_def)
      then have g: "goes_on n (s, evs, w) (?s1, evs @ map EventToolResult rs, w2)"
        by (auto simp: goes_on_def progress_def reported_def list_all_iff same_task_def
            comp_def intro!: exI[of _ "map EventToolResult rs"])
      show ?thesis using None calls m(3) d(1) sv g fail_stops[OF g, of "(?s1, evs @ map EventToolResult rs, w2)"]
        by (cases r) (simp_all add: run_step_def Let_def)
    qed
  qed
  then show "run_step ctx model st a system box (s, evs, w) = Inl t' \<Longrightarrow> goes_on n (s, evs, w) t'"
    "run_step ctx model st a system box (s, evs, w) = Inr t' \<Longrightarrow> stops n st (s, evs, w) t'" by auto
qed

lemma round_ok:
  assumes "sound_from n (ss_Messages (fst t))"
  shows "run_step ctx model st a system box t = Inl t' \<Longrightarrow> goes_on n t t'"
    "run_step ctx model st a system box t = Inr t' \<Longrightarrow> stops n st t t'"
proof -
  obtain s evs w where t: "t = (s, evs, w)" by (metis prod.exhaust)
  have ok: "sound_from n (ss_Messages s)" using assms by (simp add: t)
  show "run_step ctx model st a system box t = Inl t' \<Longrightarrow> goes_on n t t'"
    unfolding t by (rule run_step_ok(1)[OF ok])
  show "run_step ctx model st a system box t = Inr t' \<Longrightarrow> stops n st t t'"
    unfolding t by (rule run_step_ok(2)[OF ok])
qed

lemma goes_on_transcript: "goes_on n t t' \<Longrightarrow> sound_from n (ss_Messages (fst t'))"
  by (cases t; cases t') (auto simp: goes_on_def)

lemma goes_on_trans: "goes_on n t t' \<Longrightarrow> goes_on n t' t'' \<Longrightarrow> goes_on n t t''"
  by (cases t; cases t'; cases t'') (fastforce simp: goes_on_def intro: same_task_trans)

lemma goes_on_stops: "goes_on n t t' \<Longrightarrow> stops n st t' t'' \<Longrightarrow> stops n st t t''"
proof -
  assume g: "goes_on n t t'" and st: "stops n st t' t''"
  obtain s evs w s' evs' w' s'' evs'' w'' where t: "t = (s, evs, w)" "t' = (s', evs', w')" "t'' = (s'', evs'', w'')"
    by (metis prod.exhaust)
  obtain new where 1: "evs' = evs @ new" "list_all progress new" "ss_Messages s' = ss_Messages s @ reported new"
    "same_task s s'" using g t by (auto simp: goes_on_def)
  obtain new' fin w0 where 2: "evs'' = evs' @ new' @ [fin]" "list_all progress new'"
    "ss_Messages s'' = ss_Messages s' @ reported new'" "sound_from n (ss_Messages s'')" "same_task s' s''"
    "w'' = fst (so_Save st s'' w0)"
    "case fin of
          EventDone m \<Rightarrow> ss_Status s'' = StatusCompleted \<and> settled (drop n (ss_Messages s'')) \<and> lastMessage s'' = Some m \<and>
            ms_Role m = RoleAssistant \<and> toolCalls (Some m) = []
        | EventError e \<Rightarrow> ss_Status s'' = StatusFailed
        | _ \<Rightarrow> False" using st t by (auto simp: stops_def)
  have "evs'' = evs @ (new @ new') @ [fin]" "list_all progress (new @ new')"
    "ss_Messages s'' = ss_Messages s @ reported (new @ new')" using 1 2 by simp_all
  moreover have "same_task s s''" by (rule same_task_trans[OF 1(4) 2(5)])
  moreover have "\<exists>w0. w'' = fst (so_Save st s'' w0)" using 2(6) by blast
  ultimately show ?thesis using 2(4,7) unfolding t stops_def prod.case by blast
qed

text \<open>The loop as a whole.\<close>

lemma run_loop_stops:
  assumes "loop (run_step ctx model st a system box) t = Some t'" "sound_from n (ss_Messages (fst t))"
  shows "stops n st t t'"
proof -
  have "\<exists>t1. goes_on n t t1 \<and> run_step ctx model st a system box t1 = Inr t'"
  proof (rule loop_result[OF assms(1)])
    show "goes_on n t t" by (rule goes_on_refl[OF assms(2)])
  next
    fix t1 t2 assume g: "goes_on n t t1" and r: "run_step ctx model st a system box t1 = Inl t2"
    show "goes_on n t t2" by (rule goes_on_trans[OF g round_ok(1)[OF goes_on_transcript[OF g] r]])
  qed
  then obtain t1 where 1: "goes_on n t t1" "run_step ctx model st a system box t1 = Inr t'" by blast
  show ?thesis by (rule goes_on_stops[OF 1(1) round_ok(2)[OF goes_on_transcript[OF 1(1)] 1(2)]])
qed

subsection \<open>A working agent\<close>

text \<open>The world counts the tool calls the model still wants to make.\<close>

definition demo_model :: "request \<Rightarrow> nat \<Rightarrow> nat \<times> stream_part list res" where
  "demo_model req w = (w - 1, Inr
     (if w = 0 then [TextDelta ''all '', TextDelta ''done'', Finish no_usage FinishStop]
      else [ToolCallStream ''c1'' ''echo'' ''{}'' False, Finish no_usage FinishToolCalls]))"

definition demo_tool :: "(unit, nat) tool" where
  "demo_tool = \<lparr>tl_Def = \<lparr>td_Name = ''echo'', td_Description = '''', td_Schema = []\<rparr>,
     tl_Execute = (\<lambda>s b i w. (w, Inr \<lparr>tr_Content = i, tr_IsError = False\<rparr>))\<rparr>"

definition demo_agent :: "(unit, nat) agent" where
  "demo_agent = \<lparr>ag_SystemPrompt = ''be brief'', ag_Tools = [(''echo'', demo_tool)], ag_Model = Some demo_model,
     ag_Store = Some DiscardStore, ag_Memory = None\<rparr>"

definition demo_session :: "unit session" where
  "demo_session = \<lparr>ss_ID = ''s1'', ss_Model = ''m'', ss_Messages = [NewUserMessage ''hi''], ss_Usage = no_usage,
     ss_Status = StatusActive, ss_name = ''box'', ss_box = Some ()\<rparr>"

lemma demo_transcript: "transcript_ok (ss_Messages demo_session)"
proof -
  have "settled ([] @ [NewUserMessage ''hi''])"
    by (rule settled_plain[OF settled_Nil]) (simp add: NewUserMessage_def toolCalls_def)
  then show ?thesis by (simp add: transcript_ok_def demo_session_def)
qed

subsection \<open>Properties\<close>

text \<open>C14. A turn reports everything it does and answers every call. When a turn ends, its events are
  the messages it appended to the transcript, in order, and then exactly one more, Done or Error;
  the session keeps its id, model and sandbox and is saved last of all. Done comes with the last
  assistant message, which asks for no tools, with status completed, and with every tool call that was
  made in the turn, or that the last message before it had left open, followed by exactly its results;
  Error comes with status failed, and then at most those of the very last message are unanswered. The
  same holds of the whole transcript when at most the calls of its last message were open before the
  turn; calls left open further back stay open (\<open>open_calls_stay_open\<close> in Bridge).\<close>

theorem turn_reports_everything:
  assumes "Run ctx a (Some s) w = Inr (Some (s', evs, w'))" "ag_Store a = Some st"
  shows "\<exists>prog fin. evs = prog @ [fin] \<and> list_all progress prog \<and>
    ss_Messages s' = ss_Messages s @ reported prog \<and> same_task s s' \<and>
    (\<exists>w0. w' = fst (so_Save st s' w0)) \<and>
    (case fin of
       EventDone m \<Rightarrow> ss_Status s' = StatusCompleted \<and> settled (pending s @ reported prog) \<and>
         (transcript_ok (ss_Messages s) \<longrightarrow> settled (ss_Messages s')) \<and> lastMessage s' = Some m \<and>
         ms_Role m = RoleAssistant \<and> toolCalls (Some m) = []
     | EventError e \<Rightarrow> ss_Status s' = StatusFailed \<and> transcript_ok (pending s @ reported prog) \<and>
         (transcript_ok (ss_Messages s) \<longrightarrow> transcript_ok (ss_Messages s'))
     | _ \<Rightarrow> False)"
proof -
  obtain n where n: "sound_from n (ss_Messages s)" "\<And>new. drop n (ss_Messages s @ new) = pending s @ new"
    using sound_start by blast
  obtain model box system w1 where
    "loop (run_step ctx model st a system box) (s, [], w1) = Some (s', evs, w')"
    using assms(1,2) by (auto simp: Run_def split: option.splits prod.splits sum.splits)
  from run_loop_stops[OF this] n(1) have "stops n st (s, [], w1) (s', evs, w')" by simp
  then obtain new fin w0 where 1: "evs = new @ [fin]" "list_all progress new"
    "ss_Messages s' = ss_Messages s @ reported new" "sound_from n (ss_Messages s')" "same_task s s'"
    "w' = fst (so_Save st s' w0)"
    and fin: "case fin of
          EventDone m \<Rightarrow> ss_Status s' = StatusCompleted \<and> settled (drop n (ss_Messages s')) \<and> lastMessage s' = Some m \<and>
            ms_Role m = RoleAssistant \<and> toolCalls (Some m) = []
        | EventError e \<Rightarrow> ss_Status s' = StatusFailed
        | _ \<Rightarrow> False"
    by (auto simp: stops_def)
  have drop: "drop n (ss_Messages s') = pending s @ reported new" using 1(3) n(2) by simp
  then have ok: "transcript_ok (pending s @ reported new)" using 1(4) by (simp add: sound_from_def)
  have all: "\<exists>ms. ss_Messages s' = ms @ (pending s @ reported new) \<and> settled ms" if "transcript_ok (ss_Messages s)"
    using transcript_pending[OF that] 1(3) by auto
  then have whole: "settled (pending s @ reported new) \<Longrightarrow> transcript_ok (ss_Messages s) \<Longrightarrow> settled (ss_Messages s')"
    "transcript_ok (ss_Messages s) \<Longrightarrow> transcript_ok (ss_Messages s')"
    using settled_append transcript_append[OF _ ok] by fastforce+
  have "case fin of
       EventDone m \<Rightarrow> ss_Status s' = StatusCompleted \<and> settled (pending s @ reported new) \<and>
         (transcript_ok (ss_Messages s) \<longrightarrow> settled (ss_Messages s')) \<and> lastMessage s' = Some m \<and>
         ms_Role m = RoleAssistant \<and> toolCalls (Some m) = []
     | EventError e \<Rightarrow> ss_Status s' = StatusFailed \<and> transcript_ok (pending s @ reported new) \<and>
         (transcript_ok (ss_Messages s) \<longrightarrow> transcript_ok (ss_Messages s'))
     | _ \<Rightarrow> False" using fin ok whole unfolding drop by (cases fin) simp_all
  then show ?thesis using 1 by blast
qed

theorem turn_reports_everything_witness:
  "\<exists>prog fin. snd (snd (the (projr (Run (\<lambda>w. None) demo_agent (Some demo_session) 2)))) = 0 \<and>
     fst (snd (the (projr (Run (\<lambda>w. None) demo_agent (Some demo_session) 2)))) = prog @ [fin] \<and>
     list_all progress prog \<and> transcript_ok (ss_Messages (fst (the (projr (Run (\<lambda>w. None) demo_agent (Some demo_session) 2)))))"
proof -
  let ?r = "the (projr (Run (\<lambda>w. None) demo_agent (Some demo_session) 2))"
  have "(case Run (\<lambda>w. None) demo_agent (Some demo_session) 2 of
      Inr (Some t) \<Rightarrow> snd (snd t) = 0 | _ \<Rightarrow> False)" by code_simp
  then have 1: "Run (\<lambda>w. None) demo_agent (Some demo_session) 2 = Inr (Some (fst ?r, fst (snd ?r), snd (snd ?r)))"
    and 0: "snd (snd ?r) = 0"
    by (auto split: sum.splits option.splits)
  have "ag_Store demo_agent = Some DiscardStore" by (simp add: demo_agent_def)
  from turn_reports_everything[OF 1 this] obtain prog fin where t: "fst (snd ?r) = prog @ [fin]" "list_all progress prog"
    and "case fin of
       EventDone m \<Rightarrow> ss_Status (fst ?r) = StatusCompleted \<and> settled (pending demo_session @ reported prog) \<and>
         (transcript_ok (ss_Messages demo_session) \<longrightarrow> settled (ss_Messages (fst ?r))) \<and> lastMessage (fst ?r) = Some m \<and>
         ms_Role m = RoleAssistant \<and> toolCalls (Some m) = []
     | EventError e \<Rightarrow> ss_Status (fst ?r) = StatusFailed \<and> transcript_ok (pending demo_session @ reported prog) \<and>
         (transcript_ok (ss_Messages demo_session) \<longrightarrow> transcript_ok (ss_Messages (fst ?r)))
     | _ \<Rightarrow> False" by blast
  then have "transcript_ok (ss_Messages (fst ?r))"
    using demo_transcript by (cases fin) (simp_all, simp add: transcript_ok_def)
  then show ?thesis using 0 t by blast
qed

lemma collect_role: "collect g ps = (u, Inr m) \<Longrightarrow> ms_Role m = RoleAssistant"
  by (induction ps arbitrary: g) (auto simp: finished_def split: if_splits stream_part.splits)

text \<open>
  A supply of tool calls that runs out: an answer that asks for tools uses some of it up, and
  nothing a turn does refills it.
\<close>

definition winds_down ::
  "('w \<Rightarrow> nat) \<Rightarrow> (request \<Rightarrow> 'w \<Rightarrow> 'w \<times> stream_part list res) \<Rightarrow> ('b, 'w) store \<Rightarrow> ('b, 'w) agent \<Rightarrow> bool" where
  "winds_down \<mu> model st a =
    ((\<forall>req w w' ps u m. model req w = (w', Inr ps) \<longrightarrow> Collect ps = (u, Inr m) \<longrightarrow>
        call_parts (ms_Content m) \<noteq> [] \<longrightarrow> \<mu> w' < \<mu> w) \<and>
     (\<forall>req w. \<mu> (fst (model req w)) \<le> \<mu> w) \<and>
     (\<forall>s w. \<mu> (fst (so_Save st s w)) \<le> \<mu> w) \<and>
     (\<forall>t \<in> snd ` set (ag_Tools a). \<forall>s b i w. \<mu> (fst (tl_Execute t s b i w)) \<le> \<mu> w))"

lemma winds_downD:
  assumes "winds_down \<mu> model st a"
  shows "model req w = (w', Inr ps) \<Longrightarrow> Collect ps = (u, Inr m) \<Longrightarrow> call_parts (ms_Content m) \<noteq> [] \<Longrightarrow> \<mu> w' < \<mu> w"
    and "\<mu> (fst (model req w)) \<le> \<mu> w" and "\<mu> (fst (so_Save st s w)) \<le> \<mu> w"
    and "(n, t) \<in> set (ag_Tools a) \<Longrightarrow> \<mu> (fst (tl_Execute t s b i w)) \<le> \<mu> w"
  using assms by (force simp: winds_down_def)+

lemma dispatch_all_measure:
  assumes wd: "winds_down \<mu> model st a"
  shows "\<mu> (snd (snd (dispatch_all a box cs (s, evs, w)))) \<le> \<mu> w"
proof (induction cs arbitrary: s evs w)
  case (Cons c cs)
  obtain w1 r where 1: "dispatch a s box c w = (w1, r)" by (metis prod.exhaust)
  have "\<mu> w1 \<le> \<mu> w"
  proof (cases "map_of (ag_Tools a) (tc_Name c)")
    case None then show ?thesis using 1 by (simp add: dispatch_def)
  next
    case (Some t)
    then have "w1 = fst (tl_Execute t s box (tc_Input c) w)"
      using 1 by (auto simp: dispatch_def split: prod.splits sum.splits)
    then show ?thesis using winds_downD(4)[OF wd map_of_SomeD[OF Some]] by simp
  qed
  then show ?case using Cons[of "append_msg r s" "evs @ [EventToolResult r]" w1] 1 by simp
qed simp

text \<open>What is left to do: a message to answer counts for less than a request for tools.\<close>

definition turn_measure :: "('w \<Rightarrow> nat) \<Rightarrow> ('b, 'w) turn \<Rightarrow> nat" where
  "turn_measure \<mu> = (\<lambda>(s, evs, w). 3 * \<mu> w +
     (case lastMessage s of
        None \<Rightarrow> 1
      | Some m \<Rightarrow> if ms_Role m \<noteq> RoleAssistant then 1 else if toolCalls (Some m) \<noteq> [] then 2 else 0))"

lemma model_round_measure:
  assumes wd: "winds_down \<mu> model st a"
    and ask: "case lastMessage s of None \<Rightarrow> True | Some m \<Rightarrow> ms_Role m \<noteq> RoleAssistant"
    and step: "model_round model st a system (s, evs, w) = Inl t'"
  shows "turn_measure \<mu> t' < turn_measure \<mu> (s, evs, w)"
proof -
  let ?req = "\<lparr>rq_Model = ss_Model s, rq_System = system, rq_Messages = ss_Messages s,
      rq_Tools = toolDefs a, rq_MaxOutputTokens = 0\<rparr>"
  obtain w1 u r where 1: "agent_call model ?req w = (w1, u, r)" by (metis prod.exhaust)
  then obtain m where m: "r = Inr m" using step by (auto simp: model_round_def Let_def split: sum.splits)
  let ?s2 = "append_msg m (s\<lparr>ss_Usage := addUsage (ss_Usage s) u\<rparr>)"
  obtain w2 where w2: "so_Save st ?s2 w1 = (w2, None)" and t': "t' = (?s2, evs @ [EventAssistant m], w2)"
    using step 1 m by (auto simp: model_round_def Let_def split: prod.splits option.splits)
  obtain ps where ps: "model ?req w = (w1, Inr ps)" "Collect ps = (u, Inr m)"
    using 1 m by (auto simp: agent_call_def split: prod.splits sum.splits)
  have role: "ms_Role m = RoleAssistant" using collect_role ps(2) by (simp add: Collect_def)
  have le: "\<mu> w2 \<le> \<mu> w1" "\<mu> w1 \<le> \<mu> w" using winds_downD(3)[OF wd, of ?s2 w1] w2 winds_downD(2)[OF wd, of ?req w] ps(1) by simp_all
  have lst: "lastMessage ?s2 = Some m" by (simp add: lastMessage_def append_msg_def)
  have now: "turn_measure \<mu> (s, evs, w) = 3 * \<mu> w + 1"
    using ask by (auto simp: turn_measure_def split: option.splits)
  show ?thesis
  proof (cases "call_parts (ms_Content m) = []")
    case True
    then show ?thesis using le lst role now by (simp add: t' turn_measure_def toolCalls_def)
  next
    case False
    then have "\<mu> w1 < \<mu> w" using winds_downD(1)[OF wd ps] by blast
    then show ?thesis using le lst role now by (simp add: t' turn_measure_def toolCalls_def)
  qed
qed

lemma run_step_measure:
  assumes wd: "winds_down \<mu> model st a"
    and step: "run_step ctx model st a system box t = Inl t'"
  shows "turn_measure \<mu> t' < turn_measure \<mu> t"
proof -
  obtain s evs w where t: "t = (s, evs, w)" by (metis prod.exhaust)
  have ctx: "ctx w = None" using step t by (auto simp: run_step_def split: option.splits)
  show ?thesis
  proof (cases "toolCalls (lastMessage s) = []")
    case True
    then have "model_round model st a system (s, evs, w) = Inl t'"
      "case lastMessage s of None \<Rightarrow> True | Some m \<Rightarrow> ms_Role m \<noteq> RoleAssistant"
      using step t ctx by (auto simp: run_step_def Let_def split: option.splits if_splits)
    then show ?thesis
      using model_round_measure[OF wd] t by blast
  next
    case False
    then obtain ms m where m: "lastMessage s = Some m" "ms_Role m = RoleAssistant"
      by (cases "lastMessage s") (auto simp: toolCalls_def split: if_splits)
    obtain rs w1 where d: "dispatch_all a box (toolCalls (Some m)) (s, evs, w) =
        (s\<lparr>ss_Messages := ss_Messages s @ rs\<rparr>, evs @ map EventToolResult rs, w1)"
      "list_all2 answers (toolCalls (Some m)) rs"
      using dispatch_all_result[of a box "toolCalls (Some m)" s evs w] by blast
    let ?s1 = "s\<lparr>ss_Messages := ss_Messages s @ rs\<rparr>"
    obtain w2 where w2: "so_Save st ?s1 w1 = (w2, None)" and t': "t' = (?s1, evs @ map EventToolResult rs, w2)"
      using step t ctx False m(1) d(1) by (auto simp: run_step_def Let_def split: prod.splits option.splits)
    have "\<mu> w1 \<le> \<mu> w"
      using dispatch_all_measure[OF wd, of box "toolCalls (Some m)" s evs w] d(1) by simp
    then have le: "\<mu> w2 \<le> \<mu> w" using winds_downD(3)[OF wd, of ?s1 w1] w2 by simp
    have rs: "rs \<noteq> []" using d(2) False m(1) by auto
    then have "answers (last (toolCalls (Some m))) (last rs)"
      using d(2) by (metis list_all2_conv_all_nth last_conv_nth length_0_conv diff_less
          length_greater_0_conv zero_less_one)
    then have "lastMessage ?s1 = Some (last rs)" "ms_Role (last rs) \<noteq> RoleAssistant"
      using rs by (auto simp: lastMessage_def answers_def)
    then show ?thesis using le m False by (simp add: t t' turn_measure_def)
  qed
qed

text \<open>C15. A turn ends when the model stops asking. If every answer that asks for tools uses up some
  of a bounded supply \<open>\<mu>\<close> that tools, saving and the model never refill, then a turn that
  starts always comes to an end, whatever the transcript and whatever errors happen on the way.\<close>

theorem turn_returns:
  assumes "Run ctx a (Some s) w = Inr turn" "ag_Model a = Some model" "ag_Store a = Some st"
    and "winds_down \<mu> model st a"
  shows "\<exists>t. turn = Some t"
proof -
  obtain box system w1 where run: "turn = loop (run_step ctx model st a system box) (s, [], w1)"
    using assms(1-3) by (auto simp: Run_def split: option.splits prod.splits sum.splits)
  have "\<exists>t. loop (run_step ctx model st a system box) (s, [], w1) = Some t"
  proof (rule loop_returns[where I = "\<lambda>t. True" and m = "turn_measure \<mu>"])
    fix t t' assume "run_step ctx model st a system box t = Inl t'"
    then show "True \<and> turn_measure \<mu> t' < turn_measure \<mu> t" using run_step_measure[OF assms(4)] by blast
  qed simp
  then show ?thesis using run by simp
qed

theorem turn_returns_witness: "\<exists>t. projr (Run (\<lambda>w. None) demo_agent (Some demo_session) 5) = Some t"
proof (rule turn_returns[where a = demo_agent and s = demo_session and w = 5 and ctx = "\<lambda>w. None"
      and \<mu> = id and model = demo_model and st = DiscardStore])
  show "Run (\<lambda>w. None) demo_agent (Some demo_session) 5 = Inr (projr (Run (\<lambda>w. None) demo_agent (Some demo_session) 5))"
    by (simp add: Run_def demo_agent_def session_Sandbox_def demo_session_def systemPrompt_def)

  show "winds_down id demo_model DiscardStore demo_agent"
    by (auto simp: winds_down_def demo_model_def DiscardStore_def demo_agent_def demo_tool_def
        Collect_def gathered0_def finished_def split: if_splits)
qed (simp_all add: demo_agent_def)

end
