(* ===== verification/Utf8.thy ===== *)
theory Utf8
  imports GoText
begin

section \<open>UTF-8: unicode/utf8 and conversions between strings and runes\<close>

text \<open>
  A Go string is its bytes; a rune is the number of a code point. \<open>encode_rune\<close> is
  \<open>string(r)\<close>, \<open>decode_rune\<close> and \<open>decode_last_rune\<close> are
  \<open>utf8.DecodeRuneInString\<close> and \<open>utf8.DecodeLastRuneInString\<close> (the replacement
  character and width 1 where no encoding stands), \<open>runes\<close> is \<open>[]rune(s)\<close> and
  \<open>of_runes\<close> its inverse \<open>string(rs)\<close>.
\<close>

abbreviation rune_error :: nat where "rune_error \<equiv> 0xFFFD"
abbreviation max_rune :: nat where "max_rune \<equiv> 0x10FFFF"

definition scalar :: "nat \<Rightarrow> bool" where
  "scalar r = (r \<le> max_rune \<and> \<not> (0xD800 \<le> r \<and> r < 0xE000))"

definition rune_bytes :: "nat \<Rightarrow> nat list" where
  "rune_bytes r =
    (if r < 0x80 then [r]
     else if r < 0x800 then [0xC0 + r div 64, 0x80 + r mod 64]
     else if r < 0x10000 then [0xE0 + r div 4096, 0x80 + r div 64 mod 64, 0x80 + r mod 64]
     else [0xF0 + r div 262144, 0x80 + r div 4096 mod 64, 0x80 + r div 64 mod 64, 0x80 + r mod 64])"

definition encode_rune :: "nat \<Rightarrow> string" where
  "encode_rune r = map char_of (rune_bytes (if scalar r then r else rune_error))"

text \<open>The code point a string of bytes would stand for, and how long one with this first byte is.\<close>

fun seq_len :: "nat \<Rightarrow> nat" where
  "seq_len b = (if b < 0x80 then 1 else if b < 0xC0 then 0 else if b < 0xE0 then 2
     else if b < 0xF0 then 3 else if b < 0xF8 then 4 else 0)"

fun seq_val :: "nat list \<Rightarrow> nat" where
  "seq_val [a] = a"
| "seq_val [a, b] = (a mod 32) * 64 + b mod 64"
| "seq_val [a, b, c] = (a mod 16) * 4096 + (b mod 64) * 64 + c mod 64"
| "seq_val [a, b, c, d] = (a mod 8) * 262144 + (b mod 64) * 4096 + (c mod 64) * 64 + d mod 64"
| "seq_val _ = 0"

text \<open>The shortest encoding of a scalar value at the front, if one is there.\<close>

definition rune_at :: "string \<Rightarrow> (nat \<times> nat) option" where
  "rune_at s =
    (case s of
       [] \<Rightarrow> None
     | c # _ \<Rightarrow>
        (let n = seq_len (of_char c); r = seq_val (map of_char (take n s)) in
         if 0 < n \<and> scalar r \<and> take n s = encode_rune r then Some (r, n) else None))"

definition decode_rune :: "string \<Rightarrow> nat \<times> nat" where
  "decode_rune s = (if s = '''' then (rune_error, 0) else
     case rune_at s of Some rn \<Rightarrow> rn | None \<Rightarrow> (rune_error, 1))"

text \<open>The encoding that ends the string, which is at most four bytes long.\<close>

definition ends_in :: "string \<Rightarrow> nat \<Rightarrow> bool" where
  "ends_in s n = (0 < n \<and> n \<le> length s \<and> map_option snd (rune_at (drop (length s - n) s)) = Some n)"

definition decode_last_rune :: "string \<Rightarrow> nat \<times> nat" where
  "decode_last_rune s = (if s = '''' then (rune_error, 0) else
     case find (ends_in s) [1, 2, 3, 4] of
       Some n \<Rightarrow> the (rune_at (drop (length s - n) s))
     | None \<Rightarrow> (rune_error, 1))"

lemma decode_rune_pos: "s \<noteq> [] \<Longrightarrow> 0 < snd (decode_rune s)"
  by (cases s) (auto simp: decode_rune_def rune_at_def Let_def split: if_splits)

function runes :: "string \<Rightarrow> nat list" where
  "runes s = (if s = '''' then [] else let (r, n) = decode_rune s in r # runes (drop n s))"
  by auto
termination
proof (relation "measure length")
  fix s x r n
  assume "s \<noteq> []" "x = decode_rune s" "(r, n) = x"
  then show "(drop n s, s) \<in> measure length"
    using decode_rune_pos[of s] by (cases s) (auto simp: prod_eq_iff)
qed simp

declare runes.simps [simp del]

lemma runes_Nil [simp]: "runes [] = []"
  by (simp add: runes.simps)

definition of_runes :: "nat list \<Rightarrow> string" where "of_runes rs = concat (map encode_rune rs)"

lemma of_runes_simps [simp]:
  "of_runes [] = []" "of_runes (r # rs) = encode_rune r @ of_runes rs"
  "of_runes (rs @ rs') = of_runes rs @ of_runes rs'"
  by (simp_all add: of_runes_def)

text \<open>\<open>utf8.ValidString\<close>: nothing in it decodes to an error of width 1.\<close>

definition valid_utf8 :: "string \<Rightarrow> bool" where "valid_utf8 s = (of_runes (runes s) = s)"

subsection \<open>Encoding and decoding\<close>

lemma rune_bytes_range: "r \<le> max_rune \<Longrightarrow> list_all (\<lambda>b. b < 256) (rune_bytes r)"
  by (auto simp: rune_bytes_def)

lemma bytes_of_rune: "scalar r \<Longrightarrow> map of_char (encode_rune r) = rune_bytes r"
  using rune_bytes_range[of r]
  by (auto simp: encode_rune_def scalar_def list_all_iff intro!: map_idI)

lemma mod_multiple: "(k * m + x) mod m = x mod (m :: nat)"
  by simp

lemma cont_mod: "(0x80 + x mod 64) mod 64 = x mod (64 :: nat)"
  using mod_multiple[of 2 64 "x mod 64"] by simp

lemma two_digits: "(r div 64) * 64 + r mod 64 = (r :: nat)"
  by simp

lemma three_digits: "(r div 4096) * 4096 + (r div 64 mod 64) * 64 + r mod 64 = (r :: nat)"
proof -
  have "r div 4096 = r div 64 div 64" by (simp add: div_mult2_eq[symmetric])
  then show ?thesis using div_mult_mod_eq[of "r div 64" 64] div_mult_mod_eq[of r 64] by linarith
qed

lemma four_digits:
  "(r div 262144) * 262144 + (r div 4096 mod 64) * 4096 + (r div 64 mod 64) * 64 + r mod 64 = (r :: nat)"
proof -
  have "r div 262144 = r div 4096 div 64" by (simp add: div_mult2_eq[symmetric])
  then show ?thesis using div_mult_mod_eq[of "r div 4096" 64] three_digits[of r] by linarith
qed

lemma lead_mod:
  "r < 0x800 \<Longrightarrow> (0xC0 + r div 64) mod 32 = r div (64 :: nat)"
  "r < 0x10000 \<Longrightarrow> (0xE0 + r div 4096) mod 16 = r div (4096 :: nat)"
  "r \<le> 0x10FFFF \<Longrightarrow> (0xF0 + r div 262144) mod 8 = r div (262144 :: nat)"
  using mod_multiple[of 6 32 "r div 64"] mod_multiple[of 14 16 "r div 4096"]
    mod_multiple[of 30 8 "r div 262144"] less_mult_imp_div_less[of r 32 64]
    less_mult_imp_div_less[of r 16 4096] less_mult_imp_div_less[of r 8 262144]
  by simp_all

lemma seq_val_rune_bytes: "r \<le> max_rune \<Longrightarrow> seq_val (rune_bytes r) = r"
  unfolding rune_bytes_def
  using two_digits[of r] three_digits[of r] four_digits[of r] lead_mod[of r]
  by (auto simp: cont_mod simp del: div_mult_mod_eq mod_div_mult_eq)

lemma seq_len_rune_bytes: "r \<le> max_rune \<Longrightarrow> seq_len (hd (rune_bytes r)) = length (rune_bytes r)"
  unfolding rune_bytes_def by auto

declare seq_len.simps [simp del]

lemma length_rune_bytes: "length (rune_bytes r) \<in> {1..4}"
  by (simp add: rune_bytes_def)

lemma encode_rune_nonempty [simp]: "encode_rune r \<noteq> []"
  by (simp add: encode_rune_def rune_bytes_def)

lemma rune_at_encode:
  assumes "scalar r"
  shows "rune_at (encode_rune r @ s) = Some (r, length (encode_rune r))"
proof -
  obtain c cs where e: "encode_rune r = c # cs" by (cases "encode_rune r") auto
  have b: "of_char c # map of_char cs = rune_bytes r" using bytes_of_rune[OF assms] e by simp
  have len: "length (rune_bytes r) = length (encode_rune r)" using b e by (metis length_map list.map(2))
  have "seq_len (of_char c) = length (encode_rune r)"
    using seq_len_rune_bytes[of r] b len assms by (metis list.sel(1) scalar_def)
  moreover have "seq_val (map of_char (encode_rune r)) = r"
    using seq_val_rune_bytes[of r] b e assms by (simp add: scalar_def)
  ultimately show ?thesis using assms e by (simp add: rune_at_def Let_def)
qed

lemma rune_at_Some:
  assumes "rune_at s = Some (r, n)"
  shows "scalar r" "n = length (encode_rune r)" "s = encode_rune r @ drop n s" "0 < n"
proof -
  obtain c cs where s: "s = c # cs" using assms by (cases s) (auto simp: rune_at_def)
  have *: "0 < n" "scalar r" "take n s = encode_rune r" "n = seq_len (of_char c)"
    using assms by (auto simp: rune_at_def s Let_def split: if_splits)
  show "scalar r" "0 < n" by (fact *)+
  show "s = encode_rune r @ drop n s" using *(3) by (metis append_take_drop_id)
  have "length (encode_rune r) = length (rune_bytes r)" using *(2) bytes_of_rune length_map by metis
  moreover have "hd (rune_bytes r) = of_char (hd (encode_rune r))"
    using bytes_of_rune[OF *(2)] encode_rune_nonempty[of r] by (metis hd_map)
  moreover have "hd (encode_rune r) = c"
    using *(1) s by (subst *(3)[symmetric], cases n) auto
  ultimately show "n = length (encode_rune r)" using seq_len_rune_bytes[of r] *(2,4) by (simp add: scalar_def)
qed

lemma decode_rune_encode [simp]:
  "scalar r \<Longrightarrow> decode_rune (encode_rune r @ s) = (r, length (encode_rune r))"
  by (simp add: decode_rune_def rune_at_encode)

lemma runes_encode: "scalar r \<Longrightarrow> runes (encode_rune r @ s) = r # runes s"
  by (simp add: runes.simps[of "encode_rune r @ s"])

lemma runes_of_runes [simp]: "list_all scalar rs \<Longrightarrow> runes (of_runes rs) = rs"
  by (induction rs) (simp_all add: runes_encode)

lemma scalar_error [simp]: "scalar rune_error" by (simp add: scalar_def)

lemma decode_rune_scalar: "scalar (fst (decode_rune s))"
  using rune_at_Some(1)[of s] by (auto simp: decode_rune_def split: option.split)

lemma runes_scalar [simp]: "list_all scalar (runes s)"
proof (induction s rule: runes.induct)
  case (1 s)
  show ?case
  proof (cases "s = []")
    case False
    obtain r n where d: "decode_rune s = (r, n)" by (cases "decode_rune s")
    then have "scalar r" using decode_rune_scalar[of s] by simp
    then show ?thesis using 1[OF False, of "(r, n)"] False d by (subst runes.simps) simp
  qed simp
qed

lemma valid_of_runes [simp]: "list_all scalar rs \<Longrightarrow> valid_utf8 (of_runes rs)"
  by (simp add: valid_utf8_def)

lemma of_runes_runes: "valid_utf8 s \<Longrightarrow> of_runes (runes s) = s"
  by (simp add: valid_utf8_def)

lemma valid_utf8_iff: "valid_utf8 s \<longleftrightarrow> (\<exists>rs. list_all scalar rs \<and> s = of_runes rs)"
  by (metis of_runes_runes runes_scalar valid_of_runes)

lemma encode_not_scalar: "\<not> scalar r \<Longrightarrow> encode_rune r = encode_rune rune_error"
  by (simp add: encode_rune_def)

lemma of_runes_always_valid: "valid_utf8 (of_runes rs)"
proof -
  have "of_runes rs = of_runes (map (\<lambda>r. if scalar r then r else rune_error) rs)"
    by (induction rs) (auto simp: encode_not_scalar)
  moreover have "list_all scalar (map (\<lambda>r. if scalar r then r else rune_error) rs)"
    by (auto simp: list_all_iff)
  ultimately show ?thesis by (simp only: valid_of_runes)
qed

lemma runes_eq_Nil [simp]: "runes s = [] \<longleftrightarrow> s = []"
  by (cases "s = []") (simp_all, subst runes.simps, simp split: prod.split)

lemma of_runes_eq_Nil [simp]: "of_runes rs = [] \<longleftrightarrow> rs = []"
  by (cases rs) auto

subsection \<open>The order of strings is the order of their runes\<close>

text \<open>Two sequences that differ, neither running out first.\<close>

fun before :: "'a :: linorder list \<Rightarrow> 'a list \<Rightarrow> bool" where
  "before (a # x) (b # y) = (a < b \<or> (a = b \<and> before x y))"
| "before _ _ = False"

lemma before_less: "before x y \<Longrightarrow> x @ u < y @ v"
  by (induction x y rule: before.induct) auto

lemma digit_less: "r < r' \<Longrightarrow> r div 64 < r' div 64 \<or> (r div 64 = r' div 64 \<and> r mod 64 < r' mod (64 :: nat))"
  using div_le_mono[of r r' 64] div_mult_mod_eq[of r 64] div_mult_mod_eq[of r' 64] by linarith

lemma digits_less:
  assumes "(r :: nat) < r'"
  shows "r div 64 div 64 < r' div 64 div 64 \<or>
    (r div 64 div 64 = r' div 64 div 64 \<and> (r div 64 mod 64 < r' div 64 mod 64 \<or>
      (r div 64 mod 64 = r' div 64 mod 64 \<and> r mod 64 < r' mod 64)))"
  using digit_less[OF assms] digit_less[of "r div 64" "r' div 64"] by auto

lemma all_digits_less:
  assumes "(r :: nat) < r'"
  shows "r div 64 div 64 div 64 < r' div 64 div 64 div 64 \<or>
    (r div 64 div 64 div 64 = r' div 64 div 64 div 64 \<and>
      (r div 64 div 64 mod 64 < r' div 64 div 64 mod 64 \<or>
       (r div 64 div 64 mod 64 = r' div 64 div 64 mod 64 \<and> (r div 64 mod 64 < r' div 64 mod 64 \<or>
        (r div 64 mod 64 = r' div 64 mod 64 \<and> r mod 64 < r' mod 64)))))"
  using digits_less[OF assms] digit_less[of "r div 64 div 64" "r' div 64 div 64"] by auto

lemma rune_bytes_before:
  assumes "r < r'" "r' \<le> max_rune"
  shows "before (rune_bytes r) (rune_bytes r')"
proof -
  have d: "r div 4096 = r div 64 div 64" "r div 262144 = r div 64 div 64 div 64" for r :: nat
    by (simp_all add: div_mult2_eq[symmetric])
  have lead: "x < 0x800 \<Longrightarrow> x div 64 < 32" "x < 0x10000 \<Longrightarrow> x div 64 div 64 < 16" for x :: nat
    by (simp_all add: div_mult2_eq[symmetric] less_mult_imp_div_less)
  show ?thesis
    using assms lead[of r] digit_less[OF assms(1)] digits_less[OF assms(1)] all_digits_less[OF assms(1)]
    unfolding rune_bytes_def d by (cases "r < 0x800"; cases "r < 0x10000") auto
qed

lemma before_chars:
  "before x y \<Longrightarrow> list_all (\<lambda>b. b < 256) x \<Longrightarrow> list_all (\<lambda>b. b < 256) y \<Longrightarrow>
   before (map char_of (x :: nat list)) (map char_of y :: string)"
  by (induction x y rule: before.induct) (auto simp: less_char_def)

lemma encode_rune_before: "scalar r \<Longrightarrow> scalar r' \<Longrightarrow> r < r' \<Longrightarrow> before (encode_rune r) (encode_rune r')"
  using before_chars[OF rune_bytes_before[of r r']] rune_bytes_range
  by (simp add: encode_rune_def scalar_def)

lemma append_less_cancel: "a @ x < a @ y \<longleftrightarrow> x < (y :: 'a :: linorder list)"
  by (induction a) auto

lemma of_runes_less:
  "list_all scalar x \<Longrightarrow> list_all scalar y \<Longrightarrow> of_runes x < of_runes y \<longleftrightarrow> x < y"
proof (induction x arbitrary: y)
  case Nil
  then show ?case by (cases y) (auto simp: neq_Nil_conv encode_rune_def rune_bytes_def)
next
  case (Cons a x)
  show ?case
  proof (cases y)
    case Nil then show ?thesis by simp
  next
    case (Cons b z)
    consider "a < b" | "a = b" | "b < a" by linarith
    then show ?thesis
    proof cases
      case 1
      then show ?thesis
        using before_less[OF encode_rune_before[of a b]] Cons Cons.prems by simp
    next
      case 2
      then show ?thesis using Cons Cons.prems Cons.IH[of z] by (simp add: append_less_cancel)
    next
      case 3
      then have "of_runes y < of_runes (a # x)"
        using before_less[OF encode_rune_before[of b a]] Cons Cons.prems by simp
      then show ?thesis using 3 Cons by auto
    qed
  qed
qed

lemma runes_less: "valid_utf8 s \<Longrightarrow> valid_utf8 t \<Longrightarrow> s < t \<longleftrightarrow> runes s < runes t"
  using of_runes_less[of "runes s" "runes t"] by (simp add: of_runes_runes)

lemma runes_le: "valid_utf8 s \<Longrightarrow> valid_utf8 t \<Longrightarrow> s \<le> t \<longleftrightarrow> runes s \<le> runes t"
  using runes_less[of t s] by (simp add: not_less[symmetric])

lemma valid_append: "valid_utf8 s \<Longrightarrow> valid_utf8 t \<Longrightarrow> valid_utf8 (s @ t) \<and> runes (s @ t) = runes s @ runes t"
  by (metis (no_types, lifting) of_runes_runes of_runes_simps(3) runes_scalar runes_of_runes
      list_all_append valid_of_runes)

text \<open>A prefix of bytes between valid strings is a prefix of runes.\<close>

lemma runes_prefix:
  assumes "valid_utf8 p" "valid_utf8 s"
  shows "has_prefix s p \<longleftrightarrow> (\<exists>u. runes s = runes p @ u)"
proof
  assume "has_prefix s p"
  then obtain t where t: "s = p @ t" by (auto simp: has_prefix_iff)
  have "\<exists>u. rs = ps @ u" if "of_runes rs = of_runes ps @ t" "list_all scalar rs" "list_all scalar ps" for rs ps
    using that
  proof (induction ps arbitrary: rs)
    case (Cons q ps)
    then obtain r rs' where rs: "rs = r # rs'" by (cases rs) auto
    have "rune_at (of_runes rs) = Some (r, length (encode_rune r))"
      using rune_at_encode[of r "of_runes rs'"] Cons.prems(2) rs by simp
    moreover have "rune_at (of_runes rs) = Some (q, length (encode_rune q))"
      using rune_at_encode[of q "of_runes ps @ t"] Cons.prems(1,3)
      by (simp only: of_runes_simps append_assoc list.pred_inject simp_thms)
    ultimately have "r = q" by simp
    then show ?case using Cons rs by simp
  qed simp
  from this[of "runes s" "runes p"] show "\<exists>u. runes s = runes p @ u"
    using t assms by (simp add: of_runes_runes)
next
  assume "\<exists>u. runes s = runes p @ u"
  then show "has_prefix s p"
    using assms by (metis has_prefix_iff of_runes_runes of_runes_simps(3))
qed

lemma decode_last_rune_encode [simp]:
  assumes "scalar r"
  shows "decode_last_rune (s @ encode_rune r) = (r, length (encode_rune r))"
proof -
  let ?n = "length (encode_rune r)" and ?t = "s @ encode_rune r"
  have at: "rune_at (drop (length ?t - ?n) ?t) = Some (r, ?n)"
    using rune_at_encode[OF assms, of "[]"] by simp
  have n: "?n \<in> {1..4}"
    using length_rune_bytes[of r] bytes_of_rune[OF assms] by (metis length_map)
  have uniq: "m = ?n" if ends: "ends_in ?t m" for m
  proof (rule ccontr)
    assume ne: "m \<noteq> ?n"
    obtain q where q: "rune_at (drop (length ?t - m) ?t) = Some (q, m)" "0 < m" "m \<le> length ?t"
      using ends unfolding ends_in_def map_option_eq_Some by (metis prod.collapse)
    have e: "drop (length ?t - m) ?t = encode_rune q" and sq: "scalar q" "m = length (encode_rune q)"
      using rune_at_Some[OF q(1)] q(3) by simp_all
    have cont: "list_all (\<lambda>c. 0x80 \<le> (of_char c :: nat) \<and> of_char c < (0xC0 :: nat)) (tl (encode_rune x)) \<and>
        \<not> (0x80 \<le> (of_char (hd (encode_rune x)) :: nat) \<and> of_char (hd (encode_rune x)) < (0xC0 :: nat))"
      if "scalar x" for x
    proof -
      have "map (of_char :: char \<Rightarrow> nat) (encode_rune x) = rune_bytes x" by (rule bytes_of_rune[OF that])
      then have "map (of_char :: char \<Rightarrow> nat) (tl (encode_rune x)) = tl (rune_bytes x)"
        "of_char (hd (encode_rune x)) = hd (rune_bytes x)"
        by (simp_all add: map_tl hd_map[symmetric])
      moreover have "list_all (\<lambda>c. 0x80 \<le> c \<and> c < 0xC0) (tl (rune_bytes x))"
        "\<not> (0x80 \<le> hd (rune_bytes x) \<and> hd (rune_bytes x) < 0xC0)"
        by (auto simp: rune_bytes_def)
      ultimately show ?thesis by (metis (mono_tags, lifting) list_all_length length_map nth_map)
    qed
    show False
    proof (cases "m < ?n")
      case True
      have "encode_rune q = drop (?n - m) (encode_rune r)" using e True by simp
      then have "hd (encode_rune q) = encode_rune r ! (?n - m)"
        using True q(2) by (simp add: hd_drop_conv_nth)
      also have "\<dots> = tl (encode_rune r) ! (?n - m - 1)" using True q(2) by (simp add: nth_tl Suc_diff_Suc)
      finally have "hd (encode_rune q) \<in> set (tl (encode_rune r))" using True q(2) by (auto intro!: nth_mem)
      then show False using cont[OF assms] cont[OF sq(1)] by (auto simp: list_all_iff)
    next
      case False
      then have lt: "?n < m" using ne by simp
      then have "encode_rune q = drop (length ?t - m) s @ encode_rune r" using e q(3) by simp
      moreover have "length (drop (length ?t - m) s) = m - ?n" using lt q(3) by simp
      ultimately have "encode_rune r = drop (m - ?n) (encode_rune q)" by simp
      then have "hd (encode_rune r) = hd (drop (m - ?n) (encode_rune q))" by (rule arg_cong)
      also have "\<dots> = encode_rune q ! (m - ?n)" using lt sq(2) n by (intro hd_drop_conv_nth) auto
      also have "\<dots> = tl (encode_rune q) ! (m - ?n - 1)" using lt sq(2) n by (subst nth_tl) (auto simp: Suc_diff_Suc)
      finally have "hd (encode_rune r) \<in> set (tl (encode_rune q))" using lt sq(2) n by (simp only:) (intro nth_mem, auto)
      then show False using cont[OF assms] cont[OF sq(1)] by (auto simp: list_all_iff)
    qed
  qed
  have "ends_in ?t ?n" using at n by (simp add: ends_in_def)
  then have "ends_in ?t = (\<lambda>m. m = ?n)" using uniq by blast
  moreover have "find (\<lambda>m. m = k) [1, 2, 3, 4] = Some k" if "k \<in> {1..4}" for k :: nat
    using that by auto
  ultimately have "find (ends_in ?t) [1, 2, 3, 4] = Some ?n" using n by simp
  then show ?thesis using at by (simp add: decode_last_rune_def)
qed

subsection \<open>ASCII\<close>

definition ascii :: "string \<Rightarrow> bool" where "ascii s = list_all (\<lambda>c. of_char c < (128 :: nat)) s"

lemma encode_rune_ascii: "(of_char c :: nat) < 128 \<Longrightarrow> scalar (of_char c) \<and> encode_rune (of_char c) = [c]"
  by (simp add: encode_rune_def rune_bytes_def scalar_def)

lemma runes_ascii: "ascii s \<Longrightarrow> valid_utf8 s \<and> runes s = map of_char s"
proof -
  assume "ascii s"
  then have "of_runes (map of_char s) = s \<and> list_all scalar (map of_char s)"
    by (induction s) (auto simp: ascii_def encode_rune_ascii)
  then show ?thesis by (metis runes_of_runes valid_of_runes)
qed

end
