(* ===== verification/TursoBase.thy ===== *)
theory TursoBase
  imports Utf8 AgentBase
begin

section \<open>The agent database: its tables, and opening it\<close>

text \<open>
  \<open>metaharness/agentdb/turso\<close> keeps an agent's sessions, notes and application state in one
  SQLite file. A table is the list of its rows; what a statement of the code does to the rows is
  written out at the operation that runs it. Whether a call of the driver fails is decided by
  \<open>db_faults\<close>, one entry per call: None goes through, as does every call after the list. A
  \<open>DATETIME\<close> column holds the instant its text encodes: the format is fixed-width UTC with
  nanoseconds, so text order is time order, and parsing what this package wrote does not fail.
\<close>

record kv_row =
  kr_key :: string
  kr_value :: string
  kr_created :: gotime
  kr_updated :: gotime

record note_row =
  nr_topic :: string
  nr_content :: string
  nr_created :: gotime
  nr_updated :: gotime

record session_row =
  rw_id :: string
  rw_model :: string
  rw_status :: status
  rw_sandbox :: string
  rw_usage :: usage
  rw_created :: gotime
  rw_updated :: gotime

record message_row =
  mw_session :: string
  mw_seq :: int
  mw_role :: role
  mw_content :: string
  mw_created :: gotime

record db =
  db_kv :: "kv_row list"
  db_notes :: "note_row list"
  db_sessions :: "session_row list"
  db_messages :: "message_row list"
  db_schema :: "string list"
  db_versions :: "int list"
  db_faults :: "goerr option list"

definition db_call :: "db \<Rightarrow> db \<times> goerr option" where
  "db_call d =
    (case db_faults d of [] \<Rightarrow> (d, None) | f # fs \<Rightarrow> (d\<lparr>db_faults := fs\<rparr>, f))"

lemma db_call_healthy [simp]: "db_faults d = [] \<Longrightarrow> db_call d = (d, None)"
  by (simp add: db_call_def)

lemma db_call_frame:
  "db_call d = (d', r) \<Longrightarrow> db_kv d' = db_kv d \<and> db_notes d' = db_notes d \<and> db_sessions d' = db_sessions d \<and>
     db_messages d' = db_messages d \<and> db_schema d' = db_schema d \<and> db_versions d' = db_versions d"
  by (auto simp: db_call_def split: list.splits)

definition new_db :: db where
  "new_db = \<lparr>db_kv = [], db_notes = [], db_sessions = [], db_messages = [], db_schema = [],
     db_versions = [], db_faults = []\<rparr>"

text \<open>\<open>fmt.Errorf\<close> with the error last.\<close>

abbreviation (input) failing :: "string \<Rightarrow> goerr \<Rightarrow> goerr" where
  "failing what e \<equiv> Wrap what e ''''"

subsection \<open>migrate.go\<close>

text \<open>
  A statement creates a table or an index by its name, and fails when the name is taken. A
  transaction that is not committed leaves the database as it was, bar the calls it made.
\<close>

record migration =
  mg_version :: int
  mg_statements :: "string list"

definition migrations :: "migration list" where
  "migrations =
    [\<lparr>mg_version = 1, mg_statements = [''agent_sessions'', ''agent_sessions_updated_at'', ''agent_messages'']\<rparr>,
     \<lparr>mg_version = 2, mg_statements = [''agent_notes'']\<rparr>,
     \<lparr>mg_version = 3, mg_statements = [''agent_kv'']\<rparr>]"

definition create :: "string \<Rightarrow> db \<Rightarrow> db \<times> goerr option" where
  "create name d =
    (case db_call d of
       (d1, Some e) \<Rightarrow> (d1, Some e)
     | (d1, None) \<Rightarrow>
        if name \<in> set (db_schema d1) then (d1, Some (Opaque (name @ '' already exists'')))
        else (d1\<lparr>db_schema := db_schema d1 @ [name]\<rparr>, None))"

fun create_all :: "string list \<Rightarrow> db \<Rightarrow> db \<times> goerr option" where
  "create_all [] d = (d, None)"
| "create_all (n # ns) d =
    (case create n d of (d1, Some e) \<Rightarrow> (d1, Some e) | (d1, None) \<Rightarrow> create_all ns d1)"

definition insert_version :: "int \<Rightarrow> db \<Rightarrow> db \<times> goerr option" where
  "insert_version v d =
    (case db_call d of
       (d1, Some e) \<Rightarrow> (d1, Some e)
     | (d1, None) \<Rightarrow>
        if v \<in> set (db_versions d1) then (d1, Some (Opaque ''UNIQUE constraint failed''))
        else (d1\<lparr>db_versions := db_versions d1 @ [v]\<rparr>, None))"

text \<open>Rolling back to \<open>d0\<close> keeps only how many calls were made.\<close>

definition rollback :: "db \<Rightarrow> db \<Rightarrow> db" where
  "rollback d0 d = d0\<lparr>db_faults := db_faults d\<rparr>"

definition applyMigration :: "migration \<Rightarrow> db \<Rightarrow> db \<times> goerr option" where
  "applyMigration m d =
    (let v = itoa (mg_version m) in
     case db_call d of
       (d1, Some e) \<Rightarrow> (d1, Some (failing (''turso: begin migration '' @ v @ '': '') e))
     | (d1, None) \<Rightarrow>
        (case create_all (mg_statements m) d1 of
           (d2, Some e) \<Rightarrow> (rollback d1 d2, Some (failing (''turso: apply migration '' @ v @ '': '') e))
         | (d2, None) \<Rightarrow>
            (case insert_version (mg_version m) d2 of
               (d3, Some e) \<Rightarrow> (rollback d1 d3, Some (failing (''turso: record migration '' @ v @ '': '') e))
             | (d3, None) \<Rightarrow>
                (case db_call d3 of
                   (d4, Some e) \<Rightarrow> (rollback d1 d4, Some (failing (''turso: commit migration '' @ v @ '': '') e))
                 | (d4, None) \<Rightarrow> (d4, None)))))"

fun migrate_from :: "migration list \<Rightarrow> db \<Rightarrow> db \<times> goerr option" where
  "migrate_from [] d = (d, None)"
| "migrate_from (m # ms) d =
    (case db_call d of
       (d1, Some e) \<Rightarrow> (d1, Some (failing (''turso: inspect migration '' @ itoa (mg_version m) @ '': '') e))
     | (d1, None) \<Rightarrow>
        if mg_version m \<in> set (db_versions d1) then migrate_from ms d1
        else case applyMigration m d1 of
          (d2, Some e) \<Rightarrow> (d2, Some e)
        | (d2, None) \<Rightarrow> migrate_from ms d2)"

definition migrations_table :: string where "migrations_table = ''agent_schema_migrations''"

text \<open>A nil database is None; \<open>IF NOT EXISTS\<close> makes the first statement harmless.\<close>

definition Migrate :: "goerr option \<Rightarrow> db option \<Rightarrow> db option \<times> goerr option" where
  "Migrate ctx dbo =
    (case ctx of
       Some e \<Rightarrow> (dbo, Some e)
     | None \<Rightarrow>
        (case dbo of
           None \<Rightarrow> (None, Some (Opaque ''turso: migrate nil database''))
         | Some d \<Rightarrow>
            (case db_call d of
               (d1, Some e) \<Rightarrow> (Some d1, Some (failing ''turso: create migrations table: '' e))
             | (d1, None) \<Rightarrow>
                (let d2 = (if migrations_table \<in> set (db_schema d1) then d1
                           else d1\<lparr>db_schema := db_schema d1 @ [migrations_table]\<rparr>);
                     (d3, r) = migrate_from migrations d2 in
                 (Some d3, r)))))"

subsection \<open>store.go: opening and closing\<close>

record options =
  op_now :: "nat \<Rightarrow> gotime"
  op_busyTimeout :: "int option"

definition WithClock :: "(nat \<Rightarrow> gotime) option \<Rightarrow> options \<Rightarrow> options" where
  "WithClock now c = (case now of None \<Rightarrow> c | Some f \<Rightarrow> c\<lparr>op_now := f\<rparr>)"

definition WithBusyTimeout :: "int \<Rightarrow> options \<Rightarrow> options" where
  "WithBusyTimeout ms c = c\<lparr>op_busyTimeout := Some ms\<rparr>"

text \<open>A nil option is skipped; \<open>system\<close> is \<open>time.Now\<close>, as the sequence of its answers.\<close>

definition applyOptions :: "(nat \<Rightarrow> gotime) \<Rightarrow> (options \<Rightarrow> options) option list \<Rightarrow> options" where
  "applyOptions system opts =
    foldl (\<lambda>c opt. case opt of None \<Rightarrow> c | Some f \<Rightarrow> f c) \<lparr>op_now = system, op_busyTimeout = None\<rparr> opts"

record tursostore =
  ts_db :: "db option"
  ts_now :: "nat \<Rightarrow> gotime"
  ts_ownsDB :: bool

text \<open>\<open>connect\<close> is the driver's connector: it opens what the path names.\<close>

definition turso_Open ::
  "(nat \<Rightarrow> gotime) \<Rightarrow> (string \<Rightarrow> int option \<Rightarrow> db res) \<Rightarrow> goerr option \<Rightarrow> string \<Rightarrow>
   (options \<Rightarrow> options) option list \<Rightarrow> tursostore res" where
  "turso_Open system connect ctx path opts =
    (let cfg = applyOptions system opts in
     case connect path (op_busyTimeout cfg) of
       Inl e \<Rightarrow> Inl (failing ''turso: open connector: '' e)
     | Inr d \<Rightarrow>
        (case Migrate ctx (Some d) of
           (d', Some e) \<Rightarrow> Inl e
         | (d', None) \<Rightarrow> Inr \<lparr>ts_db = d', ts_now = op_now cfg, ts_ownsDB = True\<rparr>))"

definition turso_New ::
  "(nat \<Rightarrow> gotime) \<Rightarrow> db option \<Rightarrow> (options \<Rightarrow> options) option list \<Rightarrow> tursostore" where
  "turso_New system d opts = \<lparr>ts_db = d, ts_now = op_now (applyOptions system opts), ts_ownsDB = False\<rparr>"

text \<open>Whether \<open>Close\<close> closes the database, and what closing it answers.\<close>

definition turso_Close :: "goerr option \<Rightarrow> tursostore option \<Rightarrow> bool \<times> goerr option" where
  "turso_Close closing s =
    (case s of
       None \<Rightarrow> (False, None)
     | Some t \<Rightarrow> if \<not> ts_ownsDB t \<or> ts_db t = None then (False, None) else (True, closing))"

subsection \<open>Migrating\<close>

text \<open>
  What every database this package migrated looks like: exactly the tables of the versions that
  are recorded, for a prefix of the versions.
\<close>

definition tables_of :: "migration list \<Rightarrow> string list" where
  "tables_of ms = concat (map mg_statements ms)"

definition migrated :: "nat \<Rightarrow> db \<Rightarrow> bool" where
  "migrated n d = (db_schema d = migrations_table # tables_of (take n migrations) \<and>
     db_versions d = map mg_version (take n migrations))"

definition same_rows :: "db \<Rightarrow> db \<Rightarrow> bool" where
  "same_rows d d' = (db_kv d' = db_kv d \<and> db_notes d' = db_notes d \<and> db_sessions d' = db_sessions d \<and>
     db_messages d' = db_messages d)"

lemma same_rows_refl [simp]: "same_rows d d"
  by (simp add: same_rows_def)

lemma same_rows_trans: "same_rows a b \<Longrightarrow> same_rows b c \<Longrightarrow> same_rows a c"
  by (simp add: same_rows_def)

lemma db_call_same:
  "db_call d = (d', r) \<Longrightarrow> same_rows d d' \<and> db_schema d' = db_schema d \<and> db_versions d' = db_versions d"
  using db_call_frame[of d d' r] by (simp add: same_rows_def)

lemma create_same:
  "create n d = (d', r) \<Longrightarrow> same_rows d d' \<and> db_versions d' = db_versions d \<and>
     (r = None \<longrightarrow> db_schema d' = db_schema d @ [n])"
  using db_call_same[of d] by (auto simp: create_def same_rows_def split: prod.splits option.splits if_splits)

lemma create_all_same:
  "create_all ns d = (d', r) \<Longrightarrow> same_rows d d' \<and> db_versions d' = db_versions d \<and>
     (r = None \<longrightarrow> db_schema d' = db_schema d @ ns)"
proof (induction ns d rule: create_all.induct)
  case (2 n ns d)
  obtain d1 r1 where c: "create n d = (d1, r1)" by (cases "create n d")
  show ?case
    using 2 create_same[OF c] same_rows_trans c by (cases r1) fastforce+
qed simp

lemma insert_version_same:
  "insert_version v d = (d', r) \<Longrightarrow> same_rows d d' \<and> db_schema d' = db_schema d \<and>
     (r = None \<longrightarrow> db_versions d' = db_versions d @ [v])"
  using db_call_same[of d] by (auto simp: insert_version_def same_rows_def split: prod.splits option.splits if_splits)

lemma rollback_same [simp]:
  "same_rows d (rollback d d')" "db_schema (rollback d d') = db_schema d"
  "db_versions (rollback d d') = db_versions d"
  by (simp_all add: rollback_def same_rows_def)

text \<open>A migration is applied and recorded, or it leaves no trace.\<close>

lemma applyMigration_atomic:
  assumes "applyMigration m d = (d', r)"
  shows "same_rows d d' \<and>
    (case r of None \<Rightarrow> db_schema d' = db_schema d @ mg_statements m \<and> db_versions d' = db_versions d @ [mg_version m]
     | Some e \<Rightarrow> db_schema d' = db_schema d \<and> db_versions d' = db_versions d)"
proof -
  obtain d1 r1 where 1: "db_call d = (d1, r1)" by (cases "db_call d")
  obtain d2 r2 where 2: "create_all (mg_statements m) d1 = (d2, r2)" by (cases "create_all (mg_statements m) d1")
  obtain d3 r3 where 3: "insert_version (mg_version m) d2 = (d3, r3)" by (cases "insert_version (mg_version m) d2")
  obtain d4 r4 where 4: "db_call d3 = (d4, r4)" by (cases "db_call d3")
  have same: "same_rows d d1" "db_schema d1 = db_schema d" "db_versions d1 = db_versions d"
    using db_call_same[OF 1] by auto
  have undone: "same_rows d (rollback d1 x)" for x using same_rows_trans[OF same(1)] by simp
  have through: "same_rows d d4"
    using same_rows_trans[OF same_rows_trans[OF same_rows_trans[OF same(1)]]]
      create_all_same[OF 2] insert_version_same[OF 3] db_call_same[OF 4] by blast
  show ?thesis
  proof (cases r1)
    case (Some e)
    then show ?thesis using assms 1 same by (auto simp: applyMigration_def)
  next
    case r1: None
    show ?thesis
    proof (cases r2)
      case (Some e)
      then show ?thesis using assms 1 2 r1 same undone by (auto simp: applyMigration_def)
    next
      case r2: None
      show ?thesis
      proof (cases r3)
        case (Some e)
        then show ?thesis using assms 1 2 3 r1 r2 same undone by (auto simp: applyMigration_def)
      next
        case r3: None
        show ?thesis
          using assms 1 2 3 4 r1 r2 r3 same undone through create_all_same[OF 2]
            insert_version_same[OF 3] db_call_same[OF 4]
          by (cases r4) (auto simp: applyMigration_def)
      qed
    qed
  qed
qed

text \<open>On a database that answers, with the names still free, it goes through.\<close>

lemma create_all_healthy:
  "db_faults d = [] \<Longrightarrow> distinct ns \<Longrightarrow> set ns \<inter> set (db_schema d) = {} \<Longrightarrow>
   create_all ns d = (d\<lparr>db_schema := db_schema d @ ns\<rparr>, None)"
  by (induction ns arbitrary: d) (auto simp: create_def)

lemma applyMigration_healthy:
  assumes "db_faults d = []" "distinct (mg_statements m)" "set (mg_statements m) \<inter> set (db_schema d) = {}"
    "mg_version m \<notin> set (db_versions d)"
  shows "applyMigration m d = (d\<lparr>db_schema := db_schema d @ mg_statements m,
      db_versions := db_versions d @ [mg_version m]\<rparr>, None)"
  using assms by (simp add: applyMigration_def create_all_healthy insert_version_def)

text \<open>Going over the versions one by one, with those up to \<open>n\<close> applied.\<close>

lemma take_Suc_migrations:
  assumes "n < length migrations"
  shows "migrated (Suc n) d \<longleftrightarrow>
    db_schema d = migrations_table # tables_of (take n migrations) @ mg_statements (migrations ! n) \<and>
    db_versions d = map mg_version (take n migrations) @ [mg_version (migrations ! n)]"
  using assms by (simp add: migrated_def tables_of_def take_Suc_conv_app_nth)

lemma length_migrations: "length migrations = 3"
  by (simp add: migrations_def)

lemma versions: "map mg_version migrations = map (\<lambda>i. int i + 1) [0..<3]"
  by (simp add: migrations_def upt_rec)

lemma version_applied:
  assumes "migrated n d" "n \<le> length migrations" "k < length migrations"
  shows "mg_version (migrations ! k) \<in> set (db_versions d) \<longleftrightarrow> k < n"
proof -
  have "db_versions d = take n (map mg_version migrations)"
    using assms(1) by (simp add: migrated_def take_map)
  then have d: "db_versions d = map (\<lambda>i. int i + 1) [0..<n]"
    using assms(2) length_migrations by (simp add: versions take_map)
  have "mg_version (migrations ! k) = map mg_version migrations ! k" using assms(3) by simp
  also have "\<dots> = int k + 1" using assms(3) length_migrations by (simp add: versions)
  finally show ?thesis using d by auto
qed

lemma migrate_from_step:
  assumes "k < length migrations"
  shows "migrate_from (drop k migrations) d =
    (case db_call d of
       (d1, Some e) \<Rightarrow> (d1, Some (failing (''turso: inspect migration '' @ itoa (mg_version (migrations ! k)) @ '': '') e))
     | (d1, None) \<Rightarrow>
        if mg_version (migrations ! k) \<in> set (db_versions d1) then migrate_from (drop (Suc k) migrations) d1
        else case applyMigration (migrations ! k) d1 of
          (d2, Some e) \<Rightarrow> (d2, Some e)
        | (d2, None) \<Rightarrow> migrate_from (drop (Suc k) migrations) d2)"
  by (subst Cons_nth_drop_Suc[OF assms, symmetric]) simp

lemma migrate_from_atomic:
  assumes "migrated n d" "k \<le> n" "n \<le> length migrations" "migrate_from (drop k migrations) d = (d', r)"
  shows "\<exists>m \<ge> n. m \<le> length migrations \<and> migrated m d' \<and> same_rows d d' \<and>
    (r = None \<longrightarrow> m = length migrations)"
  using assms
proof (induction "length migrations - k" arbitrary: k n d)
  case 0
  then have "n = length migrations" by simp
  then show ?case using 0 by auto
next
  case (Suc x)
  then have k: "k < length migrations" and x: "x = length migrations - Suc k" by simp_all
  obtain d1 r1 where 1: "db_call d = (d1, r1)" by (cases "db_call d")
  have m1: "migrated n d1" and s1: "same_rows d d1"
    using db_call_same[OF 1] Suc.prems(1) by (auto simp: migrated_def)
  note run = Suc.prems(4)[unfolded migrate_from_step[OF k] 1 prod.case]
  show ?case
  proof (cases r1)
    case (Some e)
    then have "d' = d1 \<and> r \<noteq> None" using run by auto
    then show ?thesis using m1 s1 Suc.prems(3) by auto
  next
    case None
    show ?thesis
    proof (cases "k < n")
      case True
      then have "migrate_from (drop (Suc k) migrations) d1 = (d', r)"
        using run None version_applied[OF m1 Suc.prems(3) k] by simp
      then obtain m where "m \<ge> n" "m \<le> length migrations" "migrated m d'" "same_rows d1 d'"
          "r = None \<longrightarrow> m = length migrations"
        using Suc.hyps(1)[OF x m1 Suc_leI[OF True] Suc.prems(3)] by blast
      then show ?thesis using same_rows_trans[OF s1] by blast
    next
      case False
      then have kn: "k = n" using Suc.prems(2) by simp
      obtain d2 r2 where 2: "applyMigration (migrations ! n) d1 = (d2, r2)"
        by (cases "applyMigration (migrations ! n) d1")
      note atomic = applyMigration_atomic[OF 2]
      have s2: "same_rows d d2" using atomic same_rows_trans[OF s1] by blast
      show ?thesis
      proof (cases r2)
        case (Some e)
        then have "d' = d2 \<and> r \<noteq> None" using run None version_applied[OF m1 Suc.prems(3) k] 2 kn by auto
        moreover have "migrated n d2" using atomic m1 Some by (simp add: migrated_def)
        ultimately show ?thesis using s2 Suc.prems(3) by auto
      next
        case r2: None
        have "migrated (Suc n) d2"
          using atomic m1 r2 take_Suc_migrations[of n d2] k kn by (simp add: migrated_def)
        moreover have "migrate_from (drop (Suc n) migrations) d2 = (d', r)"
          using run None version_applied[OF m1 Suc.prems(3) k] 2 kn r2 by simp
        ultimately obtain m where "m \<ge> Suc n" "m \<le> length migrations" "migrated m d'" "same_rows d2 d'"
            "r = None \<longrightarrow> m = length migrations"
          using Suc.hyps(1)[of "Suc n" "Suc n" d2] x k unfolding kn by auto
        then show ?thesis using same_rows_trans[OF s2] Suc_leD by blast
      qed
    qed
  qed
qed

end
