(* ===== verification/KvStore.thy ===== *)
theory KvStore
  imports TursoBase
begin

section \<open>The key-value store: agentdb.KV, its turso and in-memory implementations\<close>

text \<open>
  \<open>metaharness/agentdb/agentdb.go\<close> says what a key-value store promises; that is the locale
  \<open>kv_store\<close>. \<open>turso/kv.go\<close> keeps it with rows and a range scan, \<open>testutils/kv.go\<close>
  with a list; both are interpretations, so a client cannot tell them apart.
\<close>

record entry =
  en_Key :: string
  en_Value :: string
  en_Updated :: gotime

subsection \<open>turso/kv.go\<close>

definition kv_row_of :: "string \<Rightarrow> kv_row list \<Rightarrow> kv_row option" where
  "kv_row_of key rows = find (\<lambda>r. kr_key r = key) rows"

definition kv_Get ::
  "(string \<Rightarrow> string) \<Rightarrow> goerr option \<Rightarrow> string \<Rightarrow> db \<Rightarrow> db \<times> string option res" where
  "kv_Get quote ctx key d =
    (case ctx of
       Some e \<Rightarrow> (d, Inl e)
     | None \<Rightarrow>
        (case db_call d of
           (d1, Some e) \<Rightarrow> (d1, Inl (failing (''turso: get '' @ quote key @ '': '') e))
         | (d1, None) \<Rightarrow> (d1, Inr (map_option kr_value (kv_row_of key (db_kv d1))))))"

text \<open>The upsert: a new row, or the value and the update time of the row that is there.\<close>

definition upsert_kv :: "gotime \<Rightarrow> string \<Rightarrow> string \<Rightarrow> kv_row list \<Rightarrow> kv_row list" where
  "upsert_kv now key value rows =
    (if kv_row_of key rows = None
     then rows @ [\<lparr>kr_key = key, kr_value = value, kr_created = now, kr_updated = now\<rparr>]
     else map (\<lambda>r. if kr_key r = key then r\<lparr>kr_value := value, kr_updated := now\<rparr> else r) rows)"

text \<open>A nil value (None) is stored as the empty one.\<close>

definition kv_Put ::
  "(string \<Rightarrow> string) \<Rightarrow> goerr option \<Rightarrow> gotime \<Rightarrow> string \<Rightarrow> string option \<Rightarrow> db \<Rightarrow> db \<times> goerr option" where
  "kv_Put quote ctx now key value d =
    (case ctx of
       Some e \<Rightarrow> (d, Some e)
     | None \<Rightarrow>
        (case db_call d of
           (d1, Some e) \<Rightarrow> (d1, Some (failing (''turso: put '' @ quote key @ '': '') e))
         | (d1, None) \<Rightarrow>
             (d1\<lparr>db_kv := upsert_kv now key (case value of None \<Rightarrow> '''' | Some v \<Rightarrow> v) (db_kv d1)\<rparr>, None)))"

definition kv_Delete ::
  "(string \<Rightarrow> string) \<Rightarrow> goerr option \<Rightarrow> string \<Rightarrow> db \<Rightarrow> db \<times> goerr option" where
  "kv_Delete quote ctx key d =
    (case ctx of
       Some e \<Rightarrow> (d, Some e)
     | None \<Rightarrow>
        (case db_call d of
           (d1, Some e) \<Rightarrow> (d1, Some (failing (''turso: delete '' @ quote key @ '': '') e))
         | (d1, None) \<Rightarrow> (d1\<lparr>db_kv := filter (\<lambda>r. kr_key r \<noteq> key) (db_kv d1)\<rparr>, None)))"

text \<open>Runes are \<open>int32\<close>; no \<open>r + 1\<close> here leaves its range.\<close>

definition nextRune :: "nat \<Rightarrow> nat option" where
  "nextRune r0 =
    (let r = (if r0 + 1 = 0xD800 then 0xE000 else r0 + 1) in if r > max_rune then None else Some r)"

lemma decode_last_rune_pos: "s \<noteq> [] \<Longrightarrow> 0 < snd (decode_last_rune s)"
  by (auto simp: decode_last_rune_def ends_in_def rune_at_Some(4) split: option.split if_splits)

function successor :: "string \<Rightarrow> string option" where
  "successor prefix =
    (if prefix = '''' then None
     else let (r, size) = decode_last_rune prefix; rest = take (length prefix - size) prefix in
       case nextRune r of
         Some n \<Rightarrow> Some (rest @ encode_rune n)
       | None \<Rightarrow> successor rest)"
  by auto

termination
proof (relation "measure length")
  fix prefix x r size rest
  assume "prefix \<noteq> []" "x = decode_last_rune prefix" "(r, size) = x"
    "rest = take (length prefix - size) prefix"
  then show "(rest, prefix) \<in> measure length"
    using decode_last_rune_pos[of prefix] by (cases prefix) (auto simp: prod_eq_iff)
qed simp

declare successor.simps [simp del]

text \<open>The \<open>WHERE\<close> clause.\<close>

definition in_range :: "string \<Rightarrow> string \<Rightarrow> bool" where
  "in_range prefix key =
    (prefix = '''' \<or> (prefix \<le> key \<and> (case successor prefix of Some n \<Rightarrow> key < n | None \<Rightarrow> True)))"

fun scan_entries ::
  "(string \<Rightarrow> string) \<Rightarrow> string \<Rightarrow> entry list \<Rightarrow> kv_row list \<Rightarrow> db \<Rightarrow> db \<times> entry list res" where
  "scan_entries quote prefix entries [] d =
    (case db_call d of
       (d1, Some e) \<Rightarrow> (d1, Inl (failing (''turso: list '' @ quote prefix @ '': '') e))
     | (d1, None) \<Rightarrow> (d1, Inr entries))"
| "scan_entries quote prefix entries (r # rows) d =
    (case db_call d of
       (d1, Some e) \<Rightarrow> (d1, Inl (failing ''turso: scan entry: '' e))
     | (d1, None) \<Rightarrow>
         scan_entries quote prefix
           (entries @ [\<lparr>en_Key = kr_key r, en_Value = kr_value r, en_Updated = kr_updated r\<rparr>]) rows d1)"

definition kv_List ::
  "(string \<Rightarrow> string) \<Rightarrow> goerr option \<Rightarrow> string \<Rightarrow> db \<Rightarrow> db \<times> entry list res" where
  "kv_List quote ctx prefix d =
    (case ctx of
       Some e \<Rightarrow> (d, Inl e)
     | None \<Rightarrow>
        (case db_call d of
           (d1, Some e) \<Rightarrow> (d1, Inl (failing (''turso: list '' @ quote prefix @ '': '') e))
         | (d1, None) \<Rightarrow>
             scan_entries quote prefix []
               (sort_key kr_key (filter (\<lambda>r. in_range prefix (kr_key r)) (db_kv d1))) d1))"

subsection \<open>testutils/kv.go\<close>

record memkv =
  mk_entries :: "entry list"
  mk_clock :: int

definition mem_index :: "string \<Rightarrow> memkv \<Rightarrow> nat option" where
  "mem_index key s = find (\<lambda>i. en_Key (mk_entries s ! i) = key) [0..<length (mk_entries s)]"

definition mem_Get :: "goerr option \<Rightarrow> string \<Rightarrow> memkv \<Rightarrow> memkv \<times> string option res" where
  "mem_Get ctx key s =
    (case ctx of
       Some e \<Rightarrow> (s, Inl e)
     | None \<Rightarrow> (s, Inr (map_option (\<lambda>i. en_Value (mk_entries s ! i)) (mem_index key s))))"

definition mem_Put :: "goerr option \<Rightarrow> string \<Rightarrow> string \<Rightarrow> memkv \<Rightarrow> memkv \<times> goerr option" where
  "mem_Put ctx key value s =
    (case ctx of
       Some e \<Rightarrow> (s, Some e)
     | None \<Rightarrow>
        (let now = mk_clock s + 1 in
         case mem_index key s of
           Some i \<Rightarrow> (s\<lparr>mk_clock := now, mk_entries := (mk_entries s)
                [i := (mk_entries s ! i)\<lparr>en_Value := value, en_Updated := now\<rparr>]\<rparr>, None)
         | None \<Rightarrow> (s\<lparr>mk_clock := now, mk_entries := mk_entries s @
                [\<lparr>en_Key = key, en_Value = value, en_Updated = now\<rparr>]\<rparr>, None)))"

definition mem_Delete :: "goerr option \<Rightarrow> string \<Rightarrow> memkv \<Rightarrow> memkv \<times> goerr option" where
  "mem_Delete ctx key s =
    (case ctx of
       Some e \<Rightarrow> (s, Some e)
     | None \<Rightarrow>
        (case mem_index key s of
           Some i \<Rightarrow> (s\<lparr>mk_entries := take i (mk_entries s) @ drop (i + 1) (mk_entries s)\<rparr>, None)
         | None \<Rightarrow> (s, None)))"

definition mem_List :: "goerr option \<Rightarrow> string \<Rightarrow> memkv \<Rightarrow> memkv \<times> entry list res" where
  "mem_List ctx prefix s =
    (case ctx of
       Some e \<Rightarrow> (s, Inl e)
     | None \<Rightarrow> (s, Inr (sort_key en_Key (filter (\<lambda>e. has_prefix (en_Key e) prefix) (mk_entries s)))))"

subsection \<open>The contract\<close>

text \<open>What a client calls: the operations of a store at hand, on a state \<open>'s\<close>.\<close>

record 's kv_ops =
  k_Get :: "string \<Rightarrow> 's \<Rightarrow> 's \<times> string option res"
  k_Put :: "string \<Rightarrow> string \<Rightarrow> 's \<Rightarrow> 's \<times> goerr option"
  k_Delete :: "string \<Rightarrow> 's \<Rightarrow> 's \<times> goerr option"
  k_List :: "string \<Rightarrow> 's \<Rightarrow> 's \<times> entry list res"

definition pairs :: "entry list \<Rightarrow> (string \<times> string) list" where
  "pairs es = map (\<lambda>e. (en_Key e, en_Value e)) es"

definition listing :: "(string \<rightharpoonup> string) \<Rightarrow> string \<Rightarrow> (string \<times> string) list \<Rightarrow> bool" where
  "listing v prefix l = (sorted_wrt (<) (map fst l) \<and>
     set l = {(k, x). v k = Some x \<and> has_prefix k prefix})"

lemma strictly_sorted_distinct: "sorted_wrt (<) (map fst xs) \<Longrightarrow> distinct (map fst (xs :: ('k :: linorder \<times> 'v) list))"
  by (simp add: strict_sorted_iff)

lemma listing_unique: "listing v p l \<Longrightarrow> listing v p l' \<Longrightarrow> l = l'"
  by (rule strictly_sorted_unique) (simp_all add: listing_def)

datatype kv_request = GetOf string | PutOf string string | DeleteOf string | ListOf string

datatype kv_answer = Value "string option" | Stored | Entries "(string \<times> string) list" | Failed goerr

fun request_key :: "kv_request \<Rightarrow> string" where
  "request_key (GetOf k) = k"
| "request_key (PutOf k x) = k"
| "request_key (DeleteOf k) = k"
| "request_key (ListOf k) = k"

text \<open>What a client sees of one request, and of a sequence of them.\<close>

fun ask_kv :: "'s kv_ops \<Rightarrow> kv_request \<Rightarrow> 's \<Rightarrow> 's \<times> kv_answer" where
  "ask_kv ops (GetOf k) s = map_prod id (\<lambda>r. case r of Inl e \<Rightarrow> Failed e | Inr x \<Rightarrow> Value x) (k_Get ops k s)"
| "ask_kv ops (PutOf k x) s = map_prod id (\<lambda>r. case r of Some e \<Rightarrow> Failed e | None \<Rightarrow> Stored) (k_Put ops k x s)"
| "ask_kv ops (DeleteOf k) s = map_prod id (\<lambda>r. case r of Some e \<Rightarrow> Failed e | None \<Rightarrow> Stored) (k_Delete ops k s)"
| "ask_kv ops (ListOf k) s = map_prod id (\<lambda>r. case r of Inl e \<Rightarrow> Failed e | Inr es \<Rightarrow> Entries (pairs es)) (k_List ops k s)"

fun ask_all :: "'s kv_ops \<Rightarrow> kv_request list \<Rightarrow> 's \<Rightarrow> 's \<times> kv_answer list" where
  "ask_all ops [] s = (s, [])"
| "ask_all ops (r # rs) s =
    (let (s1, a) = ask_kv ops r s; (s2, as) = ask_all ops rs s1 in (s2, a # as))"

text \<open>The abstract store is a map: what it answers, and what it becomes.\<close>

fun answer_ok :: "(string \<rightharpoonup> string) \<Rightarrow> kv_request \<Rightarrow> kv_answer \<Rightarrow> bool" where
  "answer_ok v (GetOf k) (Value x) = (x = v k)"
| "answer_ok v (PutOf k x) Stored = True"
| "answer_ok v (DeleteOf k) Stored = True"
| "answer_ok v (ListOf k) (Entries l) = listing v k l"
| "answer_ok v r a = False"

fun view_after :: "(string \<rightharpoonup> string) \<Rightarrow> kv_request \<Rightarrow> (string \<rightharpoonup> string)" where
  "view_after v (PutOf k x) = v(k \<mapsto> x)"
| "view_after v (DeleteOf k) = v(k := None)"
| "view_after v r = v"

fun answers_ok :: "(string \<rightharpoonup> string) \<Rightarrow> kv_request list \<Rightarrow> kv_answer list \<Rightarrow> bool" where
  "answers_ok v [] as = (as = [])"
| "answers_ok v (r # rs) [] = False"
| "answers_ok v (r # rs) (a # as) = (answer_ok v r a \<and> answers_ok (view_after v r) rs as)"

lemma answer_ok_unique: "answer_ok v r a \<Longrightarrow> answer_ok v r b \<Longrightarrow> a = b"
  by (cases r; cases a; cases b; simp) (blast intro: listing_unique)

lemma answers_ok_unique: "answers_ok v rs as \<Longrightarrow> answers_ok v rs bs \<Longrightarrow> as = bs"
proof (induction v rs as arbitrary: bs rule: answers_ok.induct)
  case (3 v r rs a as)
  then show ?case using answer_ok_unique[of v r a] by (cases bs) auto
qed auto

locale kv_store =
  fixes ops :: "'s kv_ops" and view :: "'s \<Rightarrow> string \<rightharpoonup> string" and fine :: "'s \<Rightarrow> bool"
  assumes get: "fine s \<Longrightarrow> valid_utf8 k \<Longrightarrow>
      \<exists>s'. k_Get ops k s = (s', Inr (view s k)) \<and> fine s' \<and> view s' = view s"
    and put: "fine s \<Longrightarrow> valid_utf8 k \<Longrightarrow>
      \<exists>s'. k_Put ops k x s = (s', None) \<and> fine s' \<and> view s' = (view s)(k \<mapsto> x)"
    and delete: "fine s \<Longrightarrow> valid_utf8 k \<Longrightarrow>
      \<exists>s'. k_Delete ops k s = (s', None) \<and> fine s' \<and> view s' = (view s)(k := None)"
    and listed: "fine s \<Longrightarrow> valid_utf8 k \<Longrightarrow>
      \<exists>s' es. k_List ops k s = (s', Inr es) \<and> fine s' \<and> view s' = view s \<and> listing (view s) k (pairs es)"
begin

lemma asked:
  assumes "fine s" "valid_utf8 (request_key r)" "ask_kv ops r s = (s', a)"
  shows "fine s' \<and> view s' = view_after (view s) r \<and> answer_ok (view s) r a"
proof (cases r)
  case (GetOf k)
  then show ?thesis using get[OF assms(1), of k] assms(2,3) by auto
next
  case (PutOf k x)
  then show ?thesis using put[OF assms(1), of k x] assms(2,3) by auto
next
  case (DeleteOf k)
  then show ?thesis using delete[OF assms(1), of k] assms(2,3) by auto
next
  case (ListOf k)
  then show ?thesis using listed[OF assms(1), of k] assms(2,3) by auto
qed

lemma all_asked:
  "fine s \<Longrightarrow> list_all (\<lambda>r. valid_utf8 (request_key r)) rs \<Longrightarrow>
   answers_ok (view s) rs (snd (ask_all ops rs s))"
proof (induction rs arbitrary: s)
  case (Cons r rs)
  obtain s1 a where 1: "ask_kv ops r s = (s1, a)" by (cases "ask_kv ops r s")
  then have "fine s1 \<and> view s1 = view_after (view s) r \<and> answer_ok (view s) r a"
    using asked Cons.prems by auto
  then show ?case using 1 Cons.IH[of s1] Cons.prems by (auto split: prod.split)
qed simp

end

subsection \<open>The range scan is the prefix scan\<close>

lemma nextRune_some:
  assumes "scalar r" "nextRune r = Some n"
  shows "scalar n" "r < n" "scalar x \<Longrightarrow> x < n \<Longrightarrow> x \<le> r"
  using assms by (auto simp: nextRune_def scalar_def Let_def split: if_splits)

lemma nextRune_none: "scalar r \<Longrightarrow> nextRune r = None \<Longrightarrow> scalar x \<Longrightarrow> x \<le> r"
  by (auto simp: nextRune_def scalar_def Let_def split: if_splits)

lemma prefix_le: "ps \<le> ps @ (u :: 'a :: linorder list)"
  by (induction ps) auto

lemma nextRune_step:
  assumes "scalar r" "nextRune r = Some n" "list_all scalar ks"
  shows "(qs @ [r] \<le> ks \<and> ks < qs @ [n]) \<longleftrightarrow> (\<exists>u. ks = (qs @ [r]) @ u)"
  using assms(3)
proof (induction qs arbitrary: ks)
  case Nil
  show ?case
  proof (cases ks)
    case (Cons k ks')
    then have "scalar k" using Nil by simp
    then have "k < n \<longleftrightarrow> k \<le> r" using nextRune_some[OF assms(1,2)] by auto
    then show ?thesis using Cons by auto
  qed simp
next
  case (Cons q qs)
  then show ?case by (cases ks) auto
qed

lemma successor_snoc:
  assumes "scalar r"
  shows "successor (s @ encode_rune r) =
    (case nextRune r of Some n \<Rightarrow> Some (s @ encode_rune n) | None \<Rightarrow> successor s)"
  by (subst successor.simps) (simp add: assms)

lemma range_runes:
  assumes "list_all scalar ps" "list_all scalar ks"
  shows "(ps \<le> ks \<and> (case successor (of_runes ps) of Some n \<Rightarrow> of_runes ks < n | None \<Rightarrow> True)) \<longleftrightarrow>
    (\<exists>u. ks = ps @ u)"
  using assms(1)
proof (induction ps rule: rev_induct)
  case Nil
  then show ?case by (simp add: successor.simps)
next
  case (snoc r qs)
  then have r: "scalar r" and qs: "list_all scalar qs" by auto
  show ?case
  proof (cases "nextRune r")
    case (Some n)
    then have "successor (of_runes (qs @ [r])) = Some (of_runes (qs @ [n]))"
      using successor_snoc[OF r] by simp
    moreover have "of_runes ks < of_runes (qs @ [n]) \<longleftrightarrow> ks < qs @ [n]"
      using of_runes_less[OF assms(2), of "qs @ [n]"] qs nextRune_some(1)[OF r Some] by simp
    ultimately show ?thesis using nextRune_step[OF r Some assms(2), of qs] by (simp only: option.case)
  next
    case None
    then have s: "successor (of_runes (qs @ [r])) = successor (of_runes qs)"
      using successor_snoc[OF r] by simp
    let ?below = "case successor (of_runes qs) of None \<Rightarrow> True | Some n \<Rightarrow> of_runes ks < n"
    have IH: "(qs \<le> ks \<and> ?below) \<longleftrightarrow> (\<exists>u. ks = qs @ u)" by (rule snoc.IH[OF qs])
    have "(qs @ [r] \<le> ks \<and> ?below) \<longleftrightarrow> (\<exists>u. ks = (qs @ [r]) @ u)"
    proof
      assume a: "qs @ [r] \<le> ks \<and> ?below"
      then have "qs \<le> ks" using prefix_le[of qs "[r]"] by (meson order_trans)
      then obtain u where u: "ks = qs @ u" using a IH by auto
      have "[r] \<le> u" using a append_less_cancel[of qs u "[r]"] unfolding u by (simp add: not_less[symmetric])
      then obtain x u' where x: "u = x # u'" "r \<le> x" by (cases u) auto
      then have "x = r" using nextRune_none[OF r None, of x] assms(2) u by auto
      then show "\<exists>u. ks = (qs @ [r]) @ u" using u x by auto
    next
      assume "\<exists>u. ks = (qs @ [r]) @ u"
      then obtain u where u: "ks = (qs @ [r]) @ u" by blast
      then have "\<exists>u. ks = qs @ u" by auto
      then show "qs @ [r] \<le> ks \<and> ?below" using IH u prefix_le[of "qs @ [r]" u] by auto
    qed
    then show ?thesis unfolding s .
  qed
qed

lemma in_range_prefix:
  assumes "valid_utf8 p" "valid_utf8 k"
  shows "in_range p k \<longleftrightarrow> has_prefix k p"
proof (cases "p = ''''")
  case False
  have "in_range p k \<longleftrightarrow> runes p \<le> runes k \<and> (case successor p of Some n \<Rightarrow> k < n | None \<Rightarrow> True)"
    using False runes_le[OF assms] by (simp add: in_range_def)
  also have "\<dots> \<longleftrightarrow> (\<exists>u. runes k = runes p @ u)"
    using range_runes[of "runes p" "runes k"]
    unfolding of_runes_runes[OF assms(1)] of_runes_runes[OF assms(2)] by simp
  also have "\<dots> \<longleftrightarrow> has_prefix k p" using runes_prefix[OF assms] by simp
  finally show ?thesis .
qed (simp add: in_range_def)

subsection \<open>The turso store keeps the contract\<close>

text \<open>The state of a store: how often its clock was read, and the database.\<close>

definition turso_kv :: "(string \<Rightarrow> string) \<Rightarrow> (nat \<Rightarrow> gotime) \<Rightarrow> (nat \<times> db) kv_ops" where
  "turso_kv quote now =
    \<lparr>k_Get = (\<lambda>k (i, d). let (d', r) = kv_Get quote None k d in ((i, d'), r)),
     k_Put = (\<lambda>k x (i, d). let (d', r) = kv_Put quote None (now i) k (Some x) d in ((Suc i, d'), r)),
     k_Delete = (\<lambda>k (i, d). let (d', r) = kv_Delete quote None k d in ((i, d'), r)),
     k_List = (\<lambda>k (i, d). let (d', r) = kv_List quote None k d in ((i, d'), r))\<rparr>"

definition turso_view :: "nat \<times> db \<Rightarrow> string \<rightharpoonup> string" where
  "turso_view s k = map_option kr_value (kv_row_of k (db_kv (snd s)))"

definition turso_fine :: "nat \<times> db \<Rightarrow> bool" where
  "turso_fine s = (db_faults (snd s) = [] \<and> distinct (map kr_key (db_kv (snd s))) \<and>
     list_all (\<lambda>r. valid_utf8 (kr_key r)) (db_kv (snd s)))"

lemma turso_view_iff:
  assumes "turso_fine (i, d)"
  shows "turso_view (i, d) k = Some x \<longleftrightarrow> (\<exists>r \<in> set (db_kv d). kr_key r = k \<and> kr_value r = x)"
  using assms find_key[of kr_key "db_kv d" k] by (auto simp: turso_view_def kv_row_of_def turso_fine_def)

lemma turso_view_cong:
  assumes "turso_fine (i, d)" "\<And>k x. v k = Some x \<longleftrightarrow> (\<exists>r \<in> set (db_kv d). kr_key r = k \<and> kr_value r = x)"
  shows "turso_view (i, d) = v"
proof
  fix k show "turso_view (i, d) k = v k"
    using turso_view_iff[OF assms(1), of k] assms(2)[of k] by (metis option.exhaust)
qed

lemma upsert_kv_set:
  "(\<exists>r \<in> set (upsert_kv t k x rows). kr_key r = k' \<and> kr_value r = y) \<longleftrightarrow>
     (if k' = k then y = x else \<exists>r \<in> set rows. kr_key r = k' \<and> kr_value r = y)"
proof (cases "kv_row_of k rows")
  case None
  then have "\<forall>r \<in> set rows. kr_key r \<noteq> k" by (auto simp: kv_row_of_def find_None_iff)
  then show ?thesis using None by (auto simp: upsert_kv_def)
next
  case (Some r)
  then have r: "r \<in> set rows" "kr_key r = k" by (auto simp: kv_row_of_def find_Some_iff)
  let ?up = "\<lambda>r. if kr_key r = k then r\<lparr>kr_value := x, kr_updated := t\<rparr> else r"
  have "?up r \<in> ?up ` set rows" using r(1) by (rule imageI)
  then have "\<exists>r \<in> ?up ` set rows. kr_key r = k \<and> kr_value r = x" by (rule bexI[rotated]) (simp add: r(2))
  then show ?thesis using Some r by (auto simp: upsert_kv_def)
qed

lemma turso_put:
  fixes t :: gotime and x :: string
  assumes "turso_fine (i, d)" "valid_utf8 k"
  defines "d' \<equiv> d\<lparr>db_kv := upsert_kv t k x (db_kv d)\<rparr>"
  shows "turso_fine (j, d') \<and> turso_view (j, d') = (turso_view (i, d))(k \<mapsto> x)"
proof -
  have keys: "map kr_key (map (\<lambda>r. if kr_key r = k then r\<lparr>kr_value := x, kr_updated := t\<rparr> else r) rows) =
      map kr_key rows" for rows
    by (induction rows) auto
  have fine: "turso_fine (j, d')"
    using assms(1,2) keys[of "db_kv d"] unfolding d'_def turso_fine_def upsert_kv_def
    by (auto simp: kv_row_of_def find_key_None list_all_iff simp del: map_map)
  moreover have "((turso_view (i, d))(k \<mapsto> x)) k' = Some y \<longleftrightarrow>
      (\<exists>r \<in> set (db_kv d'). kr_key r = k' \<and> kr_value r = y)" for k' y
    using turso_view_iff[OF assms(1), of k' y] by (auto simp: d'_def upsert_kv_set)
  ultimately show ?thesis using turso_view_cong by blast
qed

lemma turso_delete:
  fixes k :: string
  assumes "turso_fine (i, d)"
  defines "d' \<equiv> d\<lparr>db_kv := filter (\<lambda>r. kr_key r \<noteq> k) (db_kv d)\<rparr>"
  shows "turso_fine (j, d') \<and> turso_view (j, d') = (turso_view (i, d))(k := None)"
proof -
  have fine: "turso_fine (j, d')"
    using assms(1) by (auto simp: d'_def turso_fine_def distinct_map_filter list_all_iff)
  moreover have "((turso_view (i, d))(k := None)) k' = Some y \<longleftrightarrow>
      (\<exists>r \<in> set (db_kv d'). kr_key r = k' \<and> kr_value r = y)" for k' y
    using turso_view_iff[OF assms(1), of k' y] by (auto simp: d'_def)
  ultimately show ?thesis using turso_view_cong by blast
qed

lemma scan_entries_healthy:
  "db_faults d = [] \<Longrightarrow> scan_entries quote prefix es rows d =
     (d, Inr (es @ map (\<lambda>r. \<lparr>en_Key = kr_key r, en_Value = kr_value r, en_Updated = kr_updated r\<rparr>) rows))"
  by (induction rows arbitrary: es) auto

lemma sorted_key_listing:
  assumes "distinct (map f xs)"
  shows "sorted_wrt (<) (map f (sort_key f xs))"
  using assms by (simp add: strict_sorted_iff distinct_map)

lemma turso_list:
  assumes "turso_fine (i, d)" "valid_utf8 p"
  shows "\<exists>es. kv_List quote None p d = (d, Inr es) \<and> listing (turso_view (i, d)) p (pairs es)"
proof -
  let ?rows = "sort_key kr_key (filter (\<lambda>r. in_range p (kr_key r)) (db_kv d))"
  let ?es = "map (\<lambda>r. \<lparr>en_Key = kr_key r, en_Value = kr_value r, en_Updated = kr_updated r\<rparr>) ?rows"
  have f: "db_faults d = []" "distinct (map kr_key (db_kv d))" "\<forall>r \<in> set (db_kv d). valid_utf8 (kr_key r)"
    using assms(1) by (auto simp: turso_fine_def list_all_iff)
  have "kv_List quote None p d = (d, Inr ?es)"
    using f(1) by (simp add: kv_List_def scan_entries_healthy)
  moreover have "map fst (pairs ?es) = map kr_key ?rows" by (simp add: pairs_def)
  moreover have "sorted_wrt (<) (map kr_key ?rows)"
    by (rule sorted_key_listing) (use f(2) in \<open>simp add: distinct_map_filter\<close>)
  moreover have "set (pairs ?es) = {(k, x). turso_view (i, d) k = Some x \<and> has_prefix k p}"
    using turso_view_iff[OF assms(1)] in_range_prefix[OF assms(2)] f(3) by (force simp: pairs_def)
  ultimately show ?thesis unfolding listing_def by metis
qed

lemma turso_kv_store: "kv_store (turso_kv quote now) turso_view turso_fine"
proof
  fix s :: "nat \<times> db" and k x :: string
  assume "turso_fine s" "valid_utf8 k"
  then obtain i d where s: "s = (i, d)" and f: "turso_fine (i, d)" "db_faults d = []" and k: "valid_utf8 k"
    by (cases s) (auto simp: turso_fine_def)
  show "\<exists>s'. k_Get (turso_kv quote now) k s = (s', Inr (turso_view s k)) \<and> turso_fine s' \<and> turso_view s' = turso_view s"
    using f by (simp add: turso_kv_def kv_Get_def s turso_view_def)
  show "\<exists>s'. k_Put (turso_kv quote now) k x s = (s', None) \<and> turso_fine s' \<and> turso_view s' = (turso_view s)(k \<mapsto> x)"
    using turso_put[OF f(1) k] f(2) by (simp add: turso_kv_def kv_Put_def s)
  show "\<exists>s'. k_Delete (turso_kv quote now) k s = (s', None) \<and> turso_fine s' \<and> turso_view s' = (turso_view s)(k := None)"
    using turso_delete[OF f(1)] f(2) by (simp add: turso_kv_def kv_Delete_def s)
  show "\<exists>s' es. k_List (turso_kv quote now) k s = (s', Inr es) \<and> turso_fine s' \<and> turso_view s' = turso_view s \<and>
      listing (turso_view s) k (pairs es)"
    using turso_list[OF f(1) k, of quote] f(1) by (auto simp: turso_kv_def s)
qed

interpretation turso_kv: kv_store "turso_kv quote now" turso_view turso_fine for quote now
  by (rule turso_kv_store)

subsection \<open>The in-memory store keeps the contract\<close>

definition mem_kv :: "memkv kv_ops" where
  "mem_kv = \<lparr>k_Get = mem_Get None, k_Put = mem_Put None, k_Delete = mem_Delete None, k_List = mem_List None\<rparr>"

definition mem_view :: "memkv \<Rightarrow> string \<rightharpoonup> string" where
  "mem_view s = map_of (pairs (mk_entries s))"

definition mem_fine :: "memkv \<Rightarrow> bool" where
  "mem_fine s = distinct (map en_Key (mk_entries s))"

lemma mem_index_Some: "mem_index k s = Some i \<Longrightarrow> i < length (mk_entries s) \<and> en_Key (mk_entries s ! i) = k"
  by (auto simp: mem_index_def find_Some_iff)

lemma mem_index_None: "mem_index k s = None \<Longrightarrow> k \<notin> en_Key ` set (mk_entries s)"
  by (auto simp: mem_index_def find_None_iff in_set_conv_nth)

lemma mem_view_iff:
  "mem_fine s \<Longrightarrow> mem_view s k = Some x \<longleftrightarrow> (\<exists>e \<in> set (mk_entries s). en_Key e = k \<and> en_Value e = x)"
  unfolding mem_view_def mem_fine_def
  by (subst map_of_eq_Some_iff) (auto simp: pairs_def comp_def)

lemma mem_view_cong:
  assumes "mem_fine s" "\<And>k x. v k = Some x \<longleftrightarrow> (\<exists>e \<in> set (mk_entries s). en_Key e = k \<and> en_Value e = x)"
  shows "mem_view s = v"
proof
  fix k show "mem_view s k = v k"
    using mem_view_iff[OF assms(1), of k] assms(2)[of k] by (metis option.exhaust)
qed

lemma mem_get: "mem_fine s \<Longrightarrow> map_option (\<lambda>i. en_Value (mk_entries s ! i)) (mem_index k s) = mem_view s k"
proof (cases "mem_index k s")
  case None
  have "k \<notin> fst ` set (pairs (mk_entries s))" using mem_index_None[OF None] by (auto simp: pairs_def)
  then show ?thesis using None by (simp add: mem_view_def eq_commute[of None] map_of_eq_None_iff)
next
  case (Some i)
  assume "mem_fine s"
  then have "mem_view s k = Some (en_Value (mk_entries s ! i))"
    using mem_index_Some[OF Some] mem_view_iff[of s k "en_Value (mk_entries s ! i)"] nth_mem[of i "mk_entries s"]
    by blast
  then show ?thesis using Some by simp
qed

lemma mem_kv_store: "kv_store mem_kv mem_view mem_fine"
proof
  fix s :: memkv and k x :: string
  assume f: "mem_fine s" and "valid_utf8 k"
  have d: "distinct (map en_Key (mk_entries s))" using f by (simp add: mem_fine_def)
  show "\<exists>s'. k_Get mem_kv k s = (s', Inr (mem_view s k)) \<and> mem_fine s' \<and> mem_view s' = mem_view s"
    using f mem_get[OF f] by (simp add: mem_kv_def mem_Get_def)
  show "\<exists>s'. k_Put mem_kv k x s = (s', None) \<and> mem_fine s' \<and> mem_view s' = (mem_view s)(k \<mapsto> x)"
  proof (cases "mem_index k s")
    case None
    let ?s = "s\<lparr>mk_clock := mk_clock s + 1, mk_entries := mk_entries s @
        [\<lparr>en_Key = k, en_Value = x, en_Updated = mk_clock s + 1\<rparr>]\<rparr>"
    have "mem_fine ?s" using d mem_index_None[OF None] by (simp add: mem_fine_def)
    moreover have "mem_view ?s = (mem_view s)(k \<mapsto> x)"
      using mem_view_iff[OF f] mem_index_None[OF None] by (intro mem_view_cong[OF calculation]) auto
    ultimately show ?thesis using None by (simp add: mem_kv_def mem_Put_def Let_def)
  next
    case (Some i)
    let ?e = "(mk_entries s ! i)\<lparr>en_Value := x, en_Updated := mk_clock s + 1\<rparr>"
    let ?s = "s\<lparr>mk_clock := mk_clock s + 1, mk_entries := (mk_entries s)[i := ?e]\<rparr>"
    note i = mem_index_Some[OF Some]
    note upd = set_update_distinct[OF d, of i ?e]
    have "mem_fine ?s" using upd(1) i by (simp add: mem_fine_def)
    moreover have "mem_view ?s = (mem_view s)(k \<mapsto> x)"
      using mem_view_iff[OF f] upd(2) i by (intro mem_view_cong[OF calculation]) auto
    ultimately show ?thesis using Some by (simp add: mem_kv_def mem_Put_def Let_def)
  qed
  show "\<exists>s'. k_Delete mem_kv k s = (s', None) \<and> mem_fine s' \<and> mem_view s' = (mem_view s)(k := None)"
  proof (cases "mem_index k s")
    case None
    then have "mem_view s k = None"
      using mem_index_None[OF None] mem_view_iff[OF f, of k] by (cases "mem_view s k") auto
    then show ?thesis using None f by (auto simp: mem_kv_def mem_Delete_def)
  next
    case (Some i)
    let ?s = "s\<lparr>mk_entries := take i (mk_entries s) @ drop (i + 1) (mk_entries s)\<rparr>"
    note i = mem_index_Some[OF Some]
    note rem = set_remove_distinct[OF d, of i]
    have "mem_fine ?s" using rem(1) i by (simp add: mem_fine_def)
    moreover have "mem_view ?s = (mem_view s)(k := None)"
      using mem_view_iff[OF f] rem(2) i by (intro mem_view_cong[OF calculation]) auto
    ultimately show ?thesis using Some by (simp add: mem_kv_def mem_Delete_def)
  qed
  show "\<exists>s' es. k_List mem_kv k s = (s', Inr es) \<and> mem_fine s' \<and> mem_view s' = mem_view s \<and>
      listing (mem_view s) k (pairs es)"
  proof -
    let ?es = "sort_key en_Key (filter (\<lambda>e. has_prefix (en_Key e) k) (mk_entries s))"
    have "sorted_wrt (<) (map en_Key ?es)"
      by (rule sorted_key_listing) (use d in \<open>simp add: distinct_map_filter\<close>)
    moreover have "map fst (pairs ?es) = map en_Key ?es" by (simp add: pairs_def)
    moreover have "set (pairs ?es) = {(k', x). mem_view s k' = Some x \<and> has_prefix k' k}"
      using mem_view_iff[OF f] by (force simp: pairs_def)
    ultimately show ?thesis using f by (simp add: mem_kv_def mem_List_def listing_def)
  qed
qed

interpretation mem_kv: kv_store mem_kv mem_view mem_fine
  by (rule mem_kv_store)

end
