(* ===== verification/SessionStore.thy ===== *)
theory SessionStore
  imports TursoBase "HOL-Library.Sublist"
begin

section \<open>Session stores: turso/store.go and testutils/store.go\<close>

text \<open>
  Saving, loading and listing sessions. \<open>enc\<close> and \<open>dec\<close> are \<open>json.Marshal\<close> and
  \<open>json.Unmarshal\<close> on a message of the fantasy package. What both stores promise is the locale
  \<open>session_store\<close>; a transcript has only ever grown since it was last saved, which is how an
  agent uses its store, and \<open>storable\<close> messages are those the codec gives back.
\<close>

subsection \<open>turso/store.go\<close>

definition rows_of :: "string \<Rightarrow> db \<Rightarrow> message_row list" where
  "rows_of i d = filter (\<lambda>r. mw_session r = i) (db_messages d)"

definition session_row_of :: "string \<Rightarrow> db \<Rightarrow> session_row option" where
  "session_row_of i d = find (\<lambda>r. rw_id r = i) (db_sessions d)"

definition storedCount :: "(string \<Rightarrow> string) \<Rightarrow> string \<Rightarrow> db \<Rightarrow> db \<times> nat res" where
  "storedCount quote i d =
    (case db_call d of
       (d1, Some e) \<Rightarrow> (d1, Inl (failing (''turso: count stored messages of session '' @ quote i @ '': '') e))
     | (d1, None) \<Rightarrow> (d1, Inr (length (rows_of i d1))))"

definition row_of_record :: "gotime \<Rightarrow> gotime \<Rightarrow> session_record \<Rightarrow> session_row" where
  "row_of_record created now rec = \<lparr>rw_id = sr_ID rec, rw_model = sr_Model rec, rw_status = sr_Status rec,
     rw_sandbox = sr_Sandbox rec, rw_usage = sr_Usage rec, rw_created = created, rw_updated = now\<rparr>"

definition upsertSession :: "(string \<Rightarrow> string) \<Rightarrow> session_record \<Rightarrow> gotime \<Rightarrow> db \<Rightarrow> db \<times> goerr option" where
  "upsertSession quote rec now d =
    (case db_call d of
       (d1, Some e) \<Rightarrow> (d1, Some (failing (''turso: save session '' @ quote (sr_ID rec) @ '': '') e))
     | (d1, None) \<Rightarrow>
        (if session_row_of (sr_ID rec) d1 = None
         then d1\<lparr>db_sessions := db_sessions d1 @ [row_of_record now now rec]\<rparr>
         else d1\<lparr>db_sessions := map (\<lambda>r. if rw_id r = sr_ID rec then row_of_record (rw_created r) now rec else r)
                (db_sessions d1)\<rparr>, None))"

text \<open>A plain insert: the primary key is the session and the sequence number.\<close>

definition insertMessage ::
  "(string \<Rightarrow> string) \<Rightarrow> (msg \<Rightarrow> string res) \<Rightarrow> string \<Rightarrow> nat \<Rightarrow> msg \<Rightarrow> gotime \<Rightarrow> db \<Rightarrow> db \<times> goerr option" where
  "insertMessage quote enc i seq m now d =
    (case enc m of
       Inl e \<Rightarrow> (d, Some (failing (''turso: encode message '' @ itoa (int seq) @ '' of session '' @ quote i @ '': '') e))
     | Inr content \<Rightarrow>
        (let append_err = failing (''turso: append message '' @ itoa (int seq) @ '' of session '' @ quote i @ '': '') in
         case db_call d of
           (d1, Some e) \<Rightarrow> (d1, Some (append_err e))
         | (d1, None) \<Rightarrow>
            if \<exists>r \<in> set (db_messages d1). mw_session r = i \<and> mw_seq r = int seq
            then (d1, Some (append_err (Opaque ''UNIQUE constraint failed'')))
            else (d1\<lparr>db_messages := db_messages d1 @
                    [\<lparr>mw_session = i, mw_seq = int seq, mw_role = ms_Role m, mw_content = content, mw_created = now\<rparr>]\<rparr>,
                  None)))"

fun insert_messages ::
  "(string \<Rightarrow> string) \<Rightarrow> (msg \<Rightarrow> string res) \<Rightarrow> string \<Rightarrow> nat \<Rightarrow> msg list \<Rightarrow> gotime \<Rightarrow> db \<Rightarrow> db \<times> goerr option" where
  "insert_messages quote enc i seq [] now d = (d, None)"
| "insert_messages quote enc i seq (m # ms) now d =
    (case insertMessage quote enc i seq m now d of
       (d1, Some e) \<Rightarrow> (d1, Some e)
     | (d1, None) \<Rightarrow> insert_messages quote enc i (Suc seq) ms now d1)"

text \<open>None is the nil session.\<close>

definition turso_Save ::
  "(string \<Rightarrow> string) \<Rightarrow> (msg \<Rightarrow> string res) \<Rightarrow> goerr option \<Rightarrow> gotime \<Rightarrow> 'b session option \<Rightarrow> db \<Rightarrow> db \<times> goerr option" where
  "turso_Save quote enc ctx now sess d =
    (case ctx of
       Some e \<Rightarrow> (d, Some e)
     | None \<Rightarrow>
        (case sess of
           None \<Rightarrow> (d, Some (Opaque ''turso: save nil session''))
         | Some s \<Rightarrow>
            (let rec = Record s in
             case storedCount quote (sr_ID rec) d of
               (d1, Inl e) \<Rightarrow> (d1, Some e)
             | (d1, Inr stored) \<Rightarrow>
                (case db_call d1 of
                   (d2, Some e) \<Rightarrow> (d2, Some (failing (''turso: begin save of session '' @ quote (sr_ID rec) @ '': '') e))
                 | (d2, None) \<Rightarrow>
                    (case upsertSession quote rec now d2 of
                       (d3, Some e) \<Rightarrow> (rollback d2 d3, Some e)
                     | (d3, None) \<Rightarrow>
                        (case insert_messages quote enc (sr_ID rec) stored (drop stored (sr_Messages rec)) now d3 of
                           (d4, Some e) \<Rightarrow> (rollback d2 d4, Some e)
                         | (d4, None) \<Rightarrow>
                            (case db_call d4 of
                               (d5, Some e) \<Rightarrow> (rollback d2 d5,
                                 Some (failing (''turso: commit save of session '' @ quote (sr_ID rec) @ '': '') e))
                             | (d5, None) \<Rightarrow> (d5, None))))))))"

fun scan_messages ::
  "(string \<Rightarrow> string) \<Rightarrow> (string \<Rightarrow> msg res) \<Rightarrow> string \<Rightarrow> msg list \<Rightarrow> message_row list \<Rightarrow> db \<Rightarrow> db \<times> msg list res" where
  "scan_messages quote dec i ms [] d =
    (case db_call d of
       (d1, Some e) \<Rightarrow> (d1, Inl (failing (''turso: load messages of session '' @ quote i @ '': '') e))
     | (d1, None) \<Rightarrow> (d1, Inr ms))"
| "scan_messages quote dec i ms (r # rows) d =
    (case db_call d of
       (d1, Some e) \<Rightarrow> (d1, Inl (failing (''turso: scan message of session '' @ quote i @ '': '') e))
     | (d1, None) \<Rightarrow>
        (case dec (mw_content r) of
           Inl e \<Rightarrow> (d1, Inl (failing (''turso: decode message '' @ itoa (mw_seq r) @ '' of session '' @ quote i @ '': '') e))
         | Inr m \<Rightarrow> scan_messages quote dec i (ms @ [m]) rows d1))"

definition loadMessages ::
  "(string \<Rightarrow> string) \<Rightarrow> (string \<Rightarrow> msg res) \<Rightarrow> string \<Rightarrow> db \<Rightarrow> db \<times> msg list res" where
  "loadMessages quote dec i d =
    (case db_call d of
       (d1, Some e) \<Rightarrow> (d1, Inl (failing (''turso: load messages of session '' @ quote i @ '': '') e))
     | (d1, None) \<Rightarrow> scan_messages quote dec i [] (sort_key mw_seq (rows_of i d1)) d1)"

definition turso_Load ::
  "(string \<Rightarrow> string) \<Rightarrow> (string \<Rightarrow> msg res) \<Rightarrow> goerr option \<Rightarrow> string \<Rightarrow> db \<Rightarrow> db \<times> 'b session res" where
  "turso_Load quote dec ctx i d =
    (case ctx of
       Some e \<Rightarrow> (d, Inl e)
     | None \<Rightarrow>
        (case db_call d of
           (d1, Some e) \<Rightarrow> (d1, Inl (failing (''turso: load session '' @ quote i @ '': '') e))
         | (d1, None) \<Rightarrow>
            (case session_row_of i d1 of
               None \<Rightarrow> (d1, Inl ErrNotFound)
             | Some r \<Rightarrow>
                (case loadMessages quote dec i d1 of
                   (d2, Inl e) \<Rightarrow> (d2, Inl e)
                 | (d2, Inr ms) \<Rightarrow>
                    (d2, Inr (Session \<lparr>sr_ID = i, sr_Model = rw_model r, sr_Status = rw_status r,
                       sr_Usage = rw_usage r, sr_Sandbox = rw_sandbox r, sr_Messages = ms\<rparr>))))))"

text \<open>\<open>ORDER BY updated_at DESC, id ASC\<close>, with a stable sort per column.\<close>

definition most_recent_first :: "('a \<Rightarrow> gotime) \<Rightarrow> ('a \<Rightarrow> string) \<Rightarrow> 'a list \<Rightarrow> 'a list" where
  "most_recent_first updated i xs = sort_key (\<lambda>x. - updated x) (sort_key i xs)"

definition info_of_row :: "db \<Rightarrow> session_row \<Rightarrow> session_info" where
  "info_of_row d r = \<lparr>si_ID = rw_id r, si_Model = rw_model r, si_Status = rw_status r,
     si_Messages = int (length (rows_of (rw_id r) d)), si_Usage = rw_usage r, si_UpdatedAt = rw_updated r\<rparr>"

fun scan_infos :: "session_info list \<Rightarrow> session_info list \<Rightarrow> db \<Rightarrow> db \<times> session_info list res" where
  "scan_infos infos [] d =
    (case db_call d of
       (d1, Some e) \<Rightarrow> (d1, Inl (failing ''turso: list sessions: '' e))
     | (d1, None) \<Rightarrow> (d1, Inr infos))"
| "scan_infos infos (x # xs) d =
    (case db_call d of
       (d1, Some e) \<Rightarrow> (d1, Inl (failing ''turso: scan session summary: '' e))
     | (d1, None) \<Rightarrow> scan_infos (infos @ [x]) xs d1)"

definition turso_ListSessions :: "goerr option \<Rightarrow> int \<Rightarrow> db \<Rightarrow> db \<times> session_info list res" where
  "turso_ListSessions ctx limit d =
    (case ctx of
       Some e \<Rightarrow> (d, Inl e)
     | None \<Rightarrow>
        if limit \<le> 0 then (d, Inr [])
        else case db_call d of
          (d1, Some e) \<Rightarrow> (d1, Inl (failing ''turso: list sessions: '' e))
        | (d1, None) \<Rightarrow>
            scan_infos [] (map (info_of_row d1)
              (take (nat limit) (most_recent_first rw_updated rw_id (db_sessions d1)))) d1)"

subsection \<open>testutils/store.go\<close>

text \<open>The map from ids to what was saved and when.\<close>

type_synonym memstore = "(string \<times> session_record \<times> gotime) list"

definition mem_Save :: "goerr option \<Rightarrow> gotime \<Rightarrow> 'b session \<Rightarrow> memstore \<Rightarrow> memstore \<times> goerr option" where
  "mem_Save ctx now sess s =
    (case ctx of
       Some e \<Rightarrow> (s, Some e)
     | None \<Rightarrow> (AList.update (ss_ID sess) (Record sess, now) s, None))"

definition mem_Load :: "goerr option \<Rightarrow> string \<Rightarrow> memstore \<Rightarrow> memstore \<times> 'b session res" where
  "mem_Load ctx i s =
    (case ctx of
       Some e \<Rightarrow> (s, Inl e)
     | None \<Rightarrow> (case map_of s i of None \<Rightarrow> (s, Inl ErrNotFound) | Some (r, t) \<Rightarrow> (s, Inr (Session r))))"

definition info_of_record :: "session_record \<times> gotime \<Rightarrow> session_info" where
  "info_of_record = (\<lambda>(r, t). \<lparr>si_ID = sr_ID r, si_Model = sr_Model r, si_Status = sr_Status r,
     si_Messages = int (length (sr_Messages r)), si_Usage = sr_Usage r, si_UpdatedAt = t\<rparr>)"

definition mem_ListSessions :: "goerr option \<Rightarrow> int \<Rightarrow> memstore \<Rightarrow> memstore \<times> session_info list res" where
  "mem_ListSessions ctx limit s =
    (case ctx of
       Some e \<Rightarrow> (s, Inl e)
     | None \<Rightarrow>
        if limit \<le> 0 then (s, Inr [])
        else (s, Inr (take (nat limit)
          (most_recent_first si_UpdatedAt si_ID (map (\<lambda>(i, x). info_of_record x) s)))))"

subsection \<open>The contract\<close>

text \<open>
  A store over states \<open>'s\<close>: saving takes the time it happens at. \<open>view\<close> is the record a
  store holds under an id.
\<close>

text \<open>A client's calls, with what came of them.\<close>

datatype 'b store_op = SaveOp gotime "'b session" | LoadOp string

datatype 'b outcome = Saved "goerr option" | Loaded "'b session res"

fun run_ops ::
  "(gotime \<Rightarrow> 'b session \<Rightarrow> 's \<Rightarrow> 's \<times> goerr option) \<Rightarrow> (string \<Rightarrow> 's \<Rightarrow> 's \<times> 'b session res) \<Rightarrow>
   'b store_op list \<Rightarrow> 's \<Rightarrow> ('b store_op \<times> 'b outcome) list" where
  "run_ops save load [] s = []"
| "run_ops save load (SaveOp t x # rest) s =
    (let (s', r) = save t x s in (SaveOp t x, Saved r) # run_ops save load rest s')"
| "run_ops save load (LoadOp i # rest) s =
    (let (s', r) = load i s in (LoadOp i, Loaded r) # run_ops save load rest s')"

text \<open>
  \<open>v\<close> is what was last saved with success. Transcripts grow: a saved one extends it. Answers
  are right: a load gives it back, and on a store that answers every call nothing fails but the
  load of what was never saved.
\<close>

fun after_op :: "(string \<rightharpoonup> session_record) \<Rightarrow> 'b store_op \<times> 'b outcome \<Rightarrow> (string \<rightharpoonup> session_record)" where
  "after_op v (SaveOp t x, Saved None) = v(ss_ID x \<mapsto> Record x)"
| "after_op v _ = v"

fun transcripts_grow :: "(msg \<Rightarrow> bool) \<Rightarrow> (string \<rightharpoonup> session_record) \<Rightarrow> ('b store_op \<times> 'b outcome) list \<Rightarrow> bool" where
  "transcripts_grow storable v [] = True"
| "transcripts_grow storable v (c # cs) =
    ((case fst c of
        SaveOp t x \<Rightarrow> list_all storable (ss_Messages x) \<and>
          (case v (ss_ID x) of None \<Rightarrow> True | Some r \<Rightarrow> prefix (sr_Messages r) (ss_Messages x))
      | LoadOp i \<Rightarrow> True) \<and> transcripts_grow storable (after_op v c) cs)"

fun outcome_right :: "bool \<Rightarrow> (string \<rightharpoonup> session_record) \<Rightarrow> 'b store_op \<times> 'b outcome \<Rightarrow> bool" where
  "outcome_right healthy v (SaveOp t x, Saved r) = (healthy \<longrightarrow> r = None)"
| "outcome_right healthy v (LoadOp i, Loaded r) =
    (case r of
       Inr x \<Rightarrow> v i = Some (Record x) \<and> ss_ID x = i \<and> ss_box x = None
     | Inl e \<Rightarrow> healthy \<longrightarrow> e = ErrNotFound \<and> v i = None)"
| "outcome_right healthy v _ = False"

fun outcomes_right :: "bool \<Rightarrow> (string \<rightharpoonup> session_record) \<Rightarrow> ('b store_op \<times> 'b outcome) list \<Rightarrow> bool" where
  "outcomes_right healthy v [] = True"
| "outcomes_right healthy v (c # cs) = (outcome_right healthy v c \<and> outcomes_right healthy (after_op v c) cs)"

locale session_store =
  fixes save :: "gotime \<Rightarrow> 'b session \<Rightarrow> 's \<Rightarrow> 's \<times> goerr option"
    and load :: "string \<Rightarrow> 's \<Rightarrow> 's \<times> 'b session res"
    and view :: "'s \<Rightarrow> string \<rightharpoonup> session_record"
    and fine :: "'s \<Rightarrow> bool"
    and healthy :: "'s \<Rightarrow> bool"
    and storable :: "msg \<Rightarrow> bool"
  assumes save_ok: "fine s \<Longrightarrow> list_all storable (ss_Messages x) \<Longrightarrow>
      (\<And>r. view s (ss_ID x) = Some r \<Longrightarrow> prefix (sr_Messages r) (ss_Messages x)) \<Longrightarrow>
      save t x s = (s', None) \<Longrightarrow> fine s' \<and> view s' = (view s)(ss_ID x \<mapsto> Record x)"
    and save_fails: "fine s \<Longrightarrow> save t x s = (s', Some e) \<Longrightarrow> fine s' \<and> view s' = view s"
    and save_healthy: "fine s \<Longrightarrow> healthy s \<Longrightarrow> list_all storable (ss_Messages x) \<Longrightarrow>
      save t x s = (s', r) \<Longrightarrow> healthy s' \<and> r = None"
    and load_keeps: "fine s \<Longrightarrow> load i s = (s', q) \<Longrightarrow>
      fine s' \<and> view s' = view s \<and> (healthy s \<longrightarrow> healthy s')"
    and load_ok: "fine s \<Longrightarrow> load i s = (s', Inr x) \<Longrightarrow>
      view s i = Some (Record x) \<and> ss_ID x = i \<and> ss_box x = None"
    and load_healthy: "fine s \<Longrightarrow> healthy s \<Longrightarrow> load i s = (s', Inl e) \<Longrightarrow> e = ErrNotFound \<and> view s i = None"
begin

lemma outcomes:
  "fine s \<Longrightarrow> (h \<Longrightarrow> healthy s) \<Longrightarrow> transcripts_grow storable (view s) (run_ops save load ops s) \<Longrightarrow>
   outcomes_right h (view s) (run_ops save load ops s)"
proof (induction ops arbitrary: s)
  case (Cons c ops)
  show ?case
  proof (cases c)
    case (SaveOp t x)
    obtain s' r where sv: "save t x s = (s', r)" by (cases "save t x s")
    have run: "run_ops save load (c # ops) s = (SaveOp t x, Saved r) # run_ops save load ops s'"
      by (simp add: SaveOp sv)
    have g: "list_all storable (ss_Messages x)"
      "\<And>rec. view s (ss_ID x) = Some rec \<Longrightarrow> prefix (sr_Messages rec) (ss_Messages x)"
      using Cons.prems(3) unfolding run by (auto split: option.splits)
    have s': "fine s' \<and> view s' = after_op (view s) (SaveOp t x, Saved r)"
      using save_ok[OF Cons.prems(1) g] save_fails[OF Cons.prems(1)] sv by (cases r) auto
    have h: "h \<Longrightarrow> healthy s' \<and> r = None"
      using save_healthy[OF Cons.prems(1) _ g(1) sv] Cons.prems(2) by blast
    have "outcomes_right h (view s') (run_ops save load ops s')"
      using Cons.IH[of s'] s' h Cons.prems(3) unfolding run by simp
    then show ?thesis unfolding run using s' h by simp
  next
    case (LoadOp i)
    obtain s' r where ld: "load i s = (s', r)" by (cases "load i s")
    have run: "run_ops save load (c # ops) s = (LoadOp i, Loaded r) # run_ops save load ops s'"
      by (simp add: LoadOp ld)
    note keep = load_keeps[OF Cons.prems(1) ld]
    have "outcomes_right h (view s) (run_ops save load ops s')"
      using Cons.IH[of s'] keep Cons.prems(2,3) unfolding run by simp
    moreover have "outcome_right h (view s) (LoadOp i, Loaded r)"
      using load_ok[OF Cons.prems(1)] load_healthy[OF Cons.prems(1)] Cons.prems(2) ld by (auto split: sum.split)
    ultimately show ?thesis unfolding run by simp
  qed
qed simp

end

subsection \<open>The in-memory store keeps the contract\<close>

definition mem_record :: "memstore \<Rightarrow> string \<rightharpoonup> session_record" where
  "mem_record s i = map_option fst (map_of s i)"

definition mem_ids :: "memstore \<Rightarrow> bool" where
  "mem_ids s = (\<forall>i r t. map_of s i = Some (r, t) \<longrightarrow> sr_ID r = i)"

lemma sr_ID_Record [simp]: "sr_ID (Record x) = ss_ID x"
  "sr_Messages (Record x) = ss_Messages x"
  by (simp_all add: Record_def)

interpretation mem_sessions: session_store "mem_Save None" "mem_Load None" mem_record mem_ids "\<lambda>s. True" "\<lambda>m. True"
proof
  fix s s' :: memstore and x :: "'b session" and t i e
  show "mem_ids s \<Longrightarrow> mem_Save None t x s = (s', None) \<Longrightarrow>
      mem_ids s' \<and> mem_record s' = (mem_record s)(ss_ID x \<mapsto> Record x)"
    by (auto simp: mem_Save_def mem_ids_def mem_record_def fun_eq_iff split: if_splits)
  show "mem_ids s \<Longrightarrow> mem_Save None t x s = (s', Some e) \<Longrightarrow> mem_ids s' \<and> mem_record s' = mem_record s"
    by (simp add: mem_Save_def)
  show "mem_Save None t x s = (s', r) \<Longrightarrow> True \<and> r = None" for r
    by (simp add: mem_Save_def)
  show "mem_ids s \<Longrightarrow> mem_Load None i s = (s', r) \<Longrightarrow> mem_ids s' \<and> mem_record s' = mem_record s \<and> (True \<longrightarrow> True)"
    for r :: "'b session res"
    by (auto simp: mem_Load_def split: option.splits)
  show "mem_ids s \<Longrightarrow> mem_Load None i s = (s', Inr x) \<Longrightarrow>
      mem_record s i = Some (Record x) \<and> ss_ID x = i \<and> ss_box x = None"
    by (auto simp: mem_Load_def mem_record_def mem_ids_def Session_def Record_def split: option.splits)
  show "mem_Load None i s = (s', Inl e :: 'b session res) \<Longrightarrow> e = ErrNotFound \<and> mem_record s i = None"
    by (auto simp: mem_Load_def mem_record_def split: option.splits)
qed

subsection \<open>The turso store keeps the contract\<close>

definition decoded :: "(string \<Rightarrow> msg res) \<Rightarrow> message_row list \<Rightarrow> msg list" where
  "decoded dec rows = map (\<lambda>r. projr (dec (mw_content r))) rows"

definition turso_record :: "(string \<Rightarrow> msg res) \<Rightarrow> db \<Rightarrow> string \<rightharpoonup> session_record" where
  "turso_record dec d i = map_option (\<lambda>r. \<lparr>sr_ID = i, sr_Model = rw_model r, sr_Status = rw_status r,
     sr_Usage = rw_usage r, sr_Sandbox = rw_sandbox r, sr_Messages = decoded dec (rows_of i d)\<rparr>) (session_row_of i d)"

text \<open>A session's rows are numbered from zero, they decode, and there are none without a session.\<close>

definition rows_ok :: "(string \<Rightarrow> msg res) \<Rightarrow> db \<Rightarrow> bool" where
  "rows_ok dec d = (\<forall>i. map mw_seq (rows_of i d) = map int [0..<length (rows_of i d)] \<and>
     (rows_of i d \<noteq> [] \<longrightarrow> session_row_of i d \<noteq> None) \<and>
     (\<forall>r \<in> set (rows_of i d). \<exists>m. dec (mw_content r) = Inr m))"

definition turso_storable :: "(msg \<Rightarrow> string res) \<Rightarrow> (string \<Rightarrow> msg res) \<Rightarrow> msg \<Rightarrow> bool" where
  "turso_storable enc dec m = (case enc m of Inl e \<Rightarrow> False | Inr t \<Rightarrow> dec t = Inr m)"

lemma turso_storable_iff: "turso_storable enc dec m \<longleftrightarrow> (\<exists>t. enc m = Inr t \<and> dec t = Inr m)"
  by (auto simp: turso_storable_def split: sum.split)

definition answering :: "db \<Rightarrow> bool" where "answering d = (db_faults d = [])"

definition same_sessions :: "db \<Rightarrow> db \<Rightarrow> bool" where
  "same_sessions d d' = (db_sessions d' = db_sessions d \<and> db_messages d' = db_messages d \<and>
     (answering d \<longrightarrow> answering d'))"

lemma same_sessions_refl [simp]: "same_sessions d d"
  by (simp add: same_sessions_def)

lemma same_sessions_trans: "same_sessions a b \<Longrightarrow> same_sessions b c \<Longrightarrow> same_sessions a c"
  by (simp add: same_sessions_def)

lemma same_sessions_rows:
  assumes "same_sessions d d'"
  shows "rows_of i d' = rows_of i d" "session_row_of i d' = session_row_of i d"
    "rows_ok dec d' = rows_ok dec d" "turso_record dec d' = turso_record dec d"
  using assms by (auto simp: same_sessions_def rows_of_def session_row_of_def rows_ok_def turso_record_def fun_eq_iff)

lemma db_call_sessions: "db_call d = (d', r) \<Longrightarrow> same_sessions d d' \<and> (answering d \<longrightarrow> r = None)"
  by (auto simp: db_call_def same_sessions_def answering_def split: list.splits)

lemma storedCount_cases:
  assumes "storedCount quote i d = (d', r)"
  shows "same_sessions d d' \<and> (case r of Inl e \<Rightarrow> \<not> answering d | Inr n \<Rightarrow> n = length (rows_of i d))"
proof -
  obtain d1 r1 where 1: "db_call d = (d1, r1)" by (cases "db_call d")
  show ?thesis using assms db_call_sessions[OF 1] 1 same_sessions_rows(1)[of d d1 i]
    by (cases r1) (auto simp: storedCount_def)
qed

lemma scan_messages_cases:
  "scan_messages quote dec i ms rows d = (d', r) \<Longrightarrow> \<forall>r \<in> set rows. \<exists>m. dec (mw_content r) = Inr m \<Longrightarrow>
   same_sessions d d' \<and> (case r of Inl e \<Rightarrow> \<not> answering d | Inr l \<Rightarrow> l = ms @ decoded dec rows)"
proof (induction rows arbitrary: ms d)
  case Nil
  obtain d1 r1 where 1: "db_call d = (d1, r1)" by (cases "db_call d")
  show ?case using Nil db_call_sessions[OF 1] 1 by (cases r1) (auto simp: decoded_def)
next
  case (Cons a rows)
  obtain d1 r1 where 1: "db_call d = (d1, r1)" by (cases "db_call d")
  obtain m where m: "dec (mw_content a) = Inr m" using Cons.prems(2) by auto
  note call = db_call_sessions[OF 1]
  show ?case
  proof (cases r1)
    case (Some e)
    then show ?thesis using Cons.prems(1) call 1 by auto
  next
    case None
    then have run: "scan_messages quote dec i (ms @ [m]) rows d1 = (d', r)" using Cons.prems(1) 1 m by simp
    have later: "same_sessions d1 d' \<and> (case r of Inl e \<Rightarrow> \<not> answering d1 | Inr l \<Rightarrow> l = (ms @ [m]) @ decoded dec rows)"
      by (rule Cons.IH[OF run]) (use Cons.prems(2) in simp)
    have "same_sessions d d'" using call later same_sessions_trans by blast
    moreover have "\<not> answering d1 \<Longrightarrow> \<not> answering d" using call by (auto simp: same_sessions_def)
    ultimately show ?thesis using later m by (auto simp: decoded_def split: sum.splits)
  qed
qed

lemma sorted_seq: "map mw_seq rows = map int [0..<n] \<Longrightarrow> sort_key mw_seq rows = rows"
  by (rule sort_key_id_if_sorted) (simp add: sorted_iff_nth_mono)

lemma turso_Load_cases:
  fixes x :: "'b session"
  assumes "turso_Load quote dec None i d = (d', r :: 'b session res)" "rows_ok dec d"
  shows "same_sessions d d' \<and>
    (case r of
       Inl e \<Rightarrow> answering d \<longrightarrow> e = ErrNotFound \<and> turso_record dec d i = None
     | Inr x \<Rightarrow> turso_record dec d i = Some (Record x) \<and> ss_ID x = i \<and> ss_box x = None)"
proof -
  obtain d1 r1 where 1: "db_call d = (d1, r1)" by (cases "db_call d")
  note call = db_call_sessions[OF 1]
  show ?thesis
  proof (cases r1)
    case (Some e)
    then show ?thesis using assms(1) 1 call by (auto simp: turso_Load_def)
  next
    case r1: None
    note rows = same_sessions_rows[of d d1]
    show ?thesis
    proof (cases "session_row_of i d1")
      case None
      then show ?thesis using assms(1) 1 r1 call rows(2)[of i] by (auto simp: turso_Load_def turso_record_def)
    next
      case (Some row)
      obtain d2 r2 where 2: "db_call d1 = (d2, r2)" by (cases "db_call d1")
      note call2 = db_call_sessions[OF 2]
      show ?thesis
      proof (cases r2)
        case (Some e)
        then have "d' = d2 \<and> (\<exists>e. r = Inl e)"
          using assms(1) 1 2 r1 \<open>session_row_of i d1 = Some row\<close> by (auto simp: turso_Load_def loadMessages_def)
        then show ?thesis using call call2 same_sessions_trans Some by (auto simp: same_sessions_def)
      next
        case r2: None
        have same: "same_sessions d d2" using call call2 same_sessions_trans by blast
        then have i: "rows_of i d2 = rows_of i d" "session_row_of i d = Some row"
          using Some call rows(2)[of i] same_sessions_rows by auto
        have ok: "map mw_seq (rows_of i d) = map int [0..<length (rows_of i d)]"
          "\<forall>r \<in> set (rows_of i d). \<exists>m. dec (mw_content r) = Inr m"
          using assms(2) unfolding rows_ok_def by blast+
        obtain d3 r3 where 3: "scan_messages quote dec i [] (rows_of i d) d2 = (d3, r3)"
          by (cases "scan_messages quote dec i [] (rows_of i d) d2")
        note scan = scan_messages_cases[OF 3 ok(2)]
        have s3: "same_sessions d d3" using same scan same_sessions_trans by blast
        have res: "(d', r) = (case r3 of Inl e \<Rightarrow> (d3, Inl e) | Inr ms \<Rightarrow>
            (d3, Inr (Session \<lparr>sr_ID = i, sr_Model = rw_model row, sr_Status = rw_status row,
                       sr_Usage = rw_usage row, sr_Sandbox = rw_sandbox row, sr_Messages = ms\<rparr>)))"
          using assms(1) 1 2 3 r1 r2 Some i(1) sorted_seq[OF ok(1)]
          by (simp add: turso_Load_def loadMessages_def split: sum.splits)
        show ?thesis
        proof (cases r3)
          case (Inl e)
          then have "\<not> answering d2" using scan by simp
          then have "\<not> answering d" using same by (auto simp: same_sessions_def)
          then show ?thesis using res Inl s3 by simp
        next
          case (Inr ms)
          then have "ms = decoded dec (rows_of i d)" using scan by simp
          then show ?thesis using res Inr s3 i(2)
            by (simp add: turso_record_def) (simp add: Session_def)
        qed
      qed
    qed
  qed
qed

lemma rollback_sessions:
  "rows_of i (rollback d x) = rows_of i d" "session_row_of i (rollback d x) = session_row_of i d"
  "rows_ok dec (rollback d x) = rows_ok dec d" "turso_record dec (rollback d x) = turso_record dec d"
  by (auto simp: rollback_def rows_of_def session_row_of_def rows_ok_def turso_record_def fun_eq_iff)

lemma upsertSession_ok:
  assumes "upsertSession quote rec now d = (d', r)"
  shows "(answering d \<longrightarrow> answering d' \<and> r = None) \<and> (\<forall>i. rows_of i d' = rows_of i d) \<and>
    (r = None \<longrightarrow> (\<forall>i. i \<noteq> sr_ID rec \<longrightarrow> session_row_of i d' = session_row_of i d) \<and>
       (\<exists>t. session_row_of (sr_ID rec) d' = Some (row_of_record t now rec)))"
proof -
  obtain d1 r1 where 1: "db_call d = (d1, r1)" by (cases "db_call d")
  note call = db_call_sessions[OF 1]
  have found: "find (\<lambda>r. rw_id r = i) (map (\<lambda>r. if rw_id r = j then row_of_record (rw_created r) now rec else r) rows) =
      map_option (\<lambda>r. if rw_id r = j then row_of_record (rw_created r) now rec else r) (find (\<lambda>r. rw_id r = i) rows)"
    if "j = sr_ID rec" for i j rows
    using that by (induction rows) (auto simp: row_of_record_def)
  have key: "find (\<lambda>r. rw_id r = i) rows = Some r \<Longrightarrow> rw_id r = i" for i r rows
    by (auto simp: find_Some_iff)
  show ?thesis
  proof (cases r1)
    case (Some e)
    then show ?thesis using assms 1 call by (auto simp: upsertSession_def same_sessions_rows)
  next
    case None
    show ?thesis
    proof (cases "session_row_of (sr_ID rec) d1")
      case None
      let ?row = "row_of_record now now rec"
      have d': "d' = d1\<lparr>db_sessions := db_sessions d1 @ [?row]\<rparr>" "r = None"
        using assms 1 \<open>r1 = None\<close> None by (auto simp: upsertSession_def)
      have snoc: "find P (rows @ [y]) = (case find P rows of None \<Rightarrow> if P y then Some y else None | Some z \<Rightarrow> Some z)"
        for P and rows :: "session_row list" and y by (induction rows) auto
      have rows: "rows_of i d' = rows_of i d" for i
        using same_sessions_rows(1)[of d d1 i] call by (simp add: d'(1) rows_of_def)
      have s: "session_row_of i d' = (case session_row_of i d of None \<Rightarrow>
          if i = sr_ID rec then Some ?row else None | Some z \<Rightarrow> Some z)" for i
        using same_sessions_rows(2)[of d d1 i] call
        by (simp add: d'(1) session_row_of_def snoc row_of_record_def split: option.split)
      have "session_row_of (sr_ID rec) d = None" using None same_sessions_rows(2) call by metis
      then have "session_row_of (sr_ID rec) d' = Some ?row" by (simp add: s)
      moreover have "session_row_of i d' = session_row_of i d" if "i \<noteq> sr_ID rec" for i
        using that by (simp add: s split: option.split)
      moreover have "answering d \<longrightarrow> answering d'" using call by (simp add: d'(1) answering_def same_sessions_def)
      ultimately show ?thesis using rows d'(2) by blast
    next
      case (Some row)
      let ?up = "\<lambda>r. if rw_id r = sr_ID rec then row_of_record (rw_created r) now rec else r"
      have d': "d' = d1\<lparr>db_sessions := map ?up (db_sessions d1)\<rparr>" "r = None"
        using assms 1 \<open>r1 = None\<close> Some by (auto simp: upsertSession_def)
      have rows: "rows_of i d' = rows_of i d" for i
        using same_sessions_rows(1)[of d d1 i] call by (simp add: d'(1) rows_of_def)
      have s: "session_row_of i d' = map_option ?up (session_row_of i d)" for i
        using same_sessions_rows(2)[of d d1 i] call found[OF refl, of i "db_sessions d1"]
        by (simp add: d'(1) session_row_of_def)
      have "session_row_of (sr_ID rec) d = Some row" using Some same_sessions_rows(2) call by metis
      moreover from this have "rw_id row = sr_ID rec" using key unfolding session_row_of_def by blast
      ultimately have "session_row_of (sr_ID rec) d' = Some (row_of_record (rw_created row) now rec)"
        by (simp add: s)
      moreover have "session_row_of i d' = session_row_of i d" if "i \<noteq> sr_ID rec" for i
      proof (cases "session_row_of i d")
        case (Some r)
        then have "rw_id r = i" using key unfolding session_row_of_def by blast
        then show ?thesis using Some that by (simp add: s)
      qed (simp add: s)
      moreover have "answering d \<longrightarrow> answering d'" using call by (simp add: d'(1) answering_def same_sessions_def)
      ultimately show ?thesis using rows d'(2) by blast
    qed
  qed
qed

lemma insert_messages_ok:
  "insert_messages quote enc i seq ms now d = (d', None) \<Longrightarrow>
   db_sessions d' = db_sessions d \<and> (\<forall>j. j \<noteq> i \<longrightarrow> rows_of j d' = rows_of j d) \<and>
   (\<exists>new. rows_of i d' = rows_of i d @ new \<and> map mw_seq new = map int [seq..<seq + length ms] \<and>
      map (\<lambda>r. Inr (mw_content r)) new = map enc ms)"
proof (induction ms arbitrary: seq d)
  case (Cons m ms)
  obtain d1 r1 where 1: "insertMessage quote enc i seq m now d = (d1, r1)"
    by (cases "insertMessage quote enc i seq m now d")
  then have r1: "r1 = None" and run: "insert_messages quote enc i (Suc seq) ms now d1 = (d', None)"
    using Cons.prems by (auto split: option.splits)
  obtain d2 r2 where 2: "db_call d = (d2, r2)" by (cases "db_call d")
  obtain content where c: "enc m = Inr content" using 1 r1 by (auto simp: insertMessage_def split: sum.splits)
  let ?row = "\<lparr>mw_session = i, mw_seq = int seq, mw_role = ms_Role m, mw_content = content, mw_created = now\<rparr>"
  have "d1 = d2\<lparr>db_messages := db_messages d2 @ [?row]\<rparr>"
    using 1 r1 2 c by (auto simp: insertMessage_def Let_def split: option.splits if_splits)
  then have d1: "db_sessions d1 = db_sessions d" "rows_of i d1 = rows_of i d @ [?row]"
    "\<forall>j. j \<noteq> i \<longrightarrow> rows_of j d1 = rows_of j d"
    using db_call_sessions[OF 2] by (auto simp: same_sessions_def rows_of_def)
  obtain new where new: "rows_of i d' = rows_of i d1 @ new"
      "map mw_seq new = map int [Suc seq..<Suc seq + length ms]"
      "map (\<lambda>r. Inr (mw_content r)) new = map enc ms"
    and frame: "db_sessions d' = db_sessions d1" "\<forall>j. j \<noteq> i \<longrightarrow> rows_of j d' = rows_of j d1"
    using Cons.IH[OF run] by blast
  have "rows_of i d' = rows_of i d @ (?row # new)" using new(1) d1(2) by simp
  moreover have "map mw_seq (?row # new) = map int [seq..<seq + length (m # ms)]"
    using new(2) by (simp add: upt_conv_Cons del: upt_Suc)
  moreover have "map (\<lambda>r. Inr (mw_content r)) (?row # new) = map enc (m # ms)" using new(3) c by simp
  ultimately show ?case using frame d1 by metis
qed simp

lemma insert_messages_answering:
  "answering d \<Longrightarrow> list_all (\<lambda>m. \<exists>t. enc m = Inr t) ms \<Longrightarrow> \<forall>r \<in> set (rows_of i d). mw_seq r < int seq \<Longrightarrow>
   \<exists>d'. insert_messages quote enc i seq ms now d = (d', None) \<and> answering d'"
proof (induction ms arbitrary: seq d)
  case (Cons m ms)
  obtain content where c: "enc m = Inr content" using Cons.prems(2) by auto
  let ?row = "\<lparr>mw_session = i, mw_seq = int seq, mw_role = ms_Role m, mw_content = content, mw_created = now\<rparr>"
  let ?d = "d\<lparr>db_messages := db_messages d @ [?row]\<rparr>"
  have "\<not> (\<exists>r \<in> set (db_messages d). mw_session r = i \<and> mw_seq r = int seq)"
    using Cons.prems(3) by (auto simp: rows_of_def)
  then have "insertMessage quote enc i seq m now d = (?d, None)"
    using Cons.prems(1) c by (simp add: insertMessage_def answering_def)
  moreover have "answering ?d" using Cons.prems(1) by (simp add: answering_def)
  moreover have "\<forall>r \<in> set (rows_of i ?d). mw_seq r < int (Suc seq)"
    using Cons.prems(3) by (auto simp: rows_of_def)
  ultimately show ?case using Cons.IH[of ?d "Suc seq"] Cons.prems(2) by simp
qed simp

text \<open>The steps of a save that goes through.\<close>

lemma turso_Save_done:
  assumes "turso_Save quote enc None now (Some x) d = (d', None)"
  obtains d2 d3 d4 where "same_sessions d d2" "upsertSession quote (Record x) now d2 = (d3, None)"
    "insert_messages quote enc (ss_ID x) (length (rows_of (ss_ID x) d))
       (drop (length (rows_of (ss_ID x) d)) (ss_Messages x)) now d3 = (d4, None)"
    "same_sessions d4 d'"
proof -
  obtain d1 r1 where 1: "storedCount quote (ss_ID x) d = (d1, r1)" by (cases "storedCount quote (ss_ID x) d")
  then obtain n where n: "r1 = Inr n"
    using assms by (cases r1) (auto simp: turso_Save_def Let_def)
  have c: "same_sessions d d1" "n = length (rows_of (ss_ID x) d)" using storedCount_cases[OF 1] n by auto
  obtain d2 r2 where 2: "db_call d1 = (d2, r2)" by (cases "db_call d1")
  obtain d3 r3 where 3: "upsertSession quote (Record x) now d2 = (d3, r3)"
    by (cases "upsertSession quote (Record x) now d2")
  obtain d4 r4 where 4: "insert_messages quote enc (ss_ID x) n (drop n (ss_Messages x)) now d3 = (d4, r4)"
    by (cases "insert_messages quote enc (ss_ID x) n (drop n (ss_Messages x)) now d3")
  obtain d5 r5 where 5: "db_call d4 = (d5, r5)" by (cases "db_call d4")
  have "r2 = None" "r3 = None" "r4 = None" "r5 = None" "d' = d5"
    using assms 1 2 3 4 5 n by (auto simp: turso_Save_def Let_def split: option.splits)
  then show ?thesis
    using that[of d2 d3 d4] c 3 4 same_sessions_trans[OF c(1)] db_call_sessions[OF 2] db_call_sessions[OF 5] by blast
qed

lemma decoded_append [simp]: "decoded dec (a @ b) = decoded dec a @ decoded dec b"
  by (simp add: decoded_def)

lemma decoded_new:
  "map (\<lambda>r. Inr (mw_content r)) new = map enc ms \<Longrightarrow> list_all (turso_storable enc dec) ms \<Longrightarrow>
   decoded dec new = ms \<and> (\<forall>r \<in> set new. \<exists>m. dec (mw_content r) = Inr m)"
proof (induction new arbitrary: ms)
  case (Cons r new)
  then obtain m ms' where ms: "ms = m # ms'" "enc m = Inr (mw_content r)" by (cases ms) auto
  then have "dec (mw_content r) = Inr m" using Cons.prems(2) by (auto simp: turso_storable_iff)
  then show ?case using Cons.IH[of ms'] Cons.prems ms by (auto simp: decoded_def)
qed (auto simp: decoded_def)

lemma turso_Save_ok:
  assumes ok: "rows_ok dec d" and storable: "list_all (turso_storable enc dec) (ss_Messages x)"
    and grows: "\<And>r. turso_record dec d (ss_ID x) = Some r \<Longrightarrow> prefix (sr_Messages r) (ss_Messages x)"
    and saved: "turso_Save quote enc None now (Some x) d = (d', None)"
  shows "rows_ok dec d' \<and> turso_record dec d' = (turso_record dec d)(ss_ID x \<mapsto> Record x)"
proof -
  let ?i = "ss_ID x"
  let ?n = "length (rows_of ?i d)"
  obtain d2 d3 d4 where d2: "same_sessions d d2" and d3: "upsertSession quote (Record x) now d2 = (d3, None)"
    and d4: "insert_messages quote enc ?i ?n (drop ?n (ss_Messages x)) now d3 = (d4, None)"
    and d': "same_sessions d4 d'"
    by (rule turso_Save_done[OF saved])
  have up: "rows_of j d3 = rows_of j d" "j \<noteq> ?i \<Longrightarrow> session_row_of j d3 = session_row_of j d"
    "\<exists>t. session_row_of ?i d3 = Some (row_of_record t now (Record x))" for j
    using upsertSession_ok[OF d3] same_sessions_rows(1,2)[OF d2] by auto
  obtain new where new: "rows_of ?i d4 = rows_of ?i d @ new"
      "map mw_seq new = map int [?n..<?n + length (drop ?n (ss_Messages x))]"
      "map (\<lambda>r. Inr (mw_content r)) new = map enc (drop ?n (ss_Messages x))"
    and frame: "db_sessions d4 = db_sessions d3" "\<And>j. j \<noteq> ?i \<Longrightarrow> rows_of j d4 = rows_of j d"
    using insert_messages_ok[OF d4] up(1) by auto
  have len: "length new = length (drop ?n (ss_Messages x))" using new(3) by (metis length_map)
  have sto: "list_all (turso_storable enc dec) (drop ?n (ss_Messages x))"
    using storable by (meson list_all_iff in_set_dropD)
  note dec_new = decoded_new[OF new(3) sto]
  have rows: "rows_of ?i d' = rows_of ?i d @ new" "\<And>j. j \<noteq> ?i \<Longrightarrow> rows_of j d' = rows_of j d"
    using new(1) frame(2) same_sessions_rows(1)[OF d'] by auto
  have srow: "session_row_of j d' = session_row_of j d3" for j
    using same_sessions_rows(2)[OF d'] frame(1) by (simp add: session_row_of_def)
  have pre: "ss_Messages x = decoded dec (rows_of ?i d) @ drop ?n (ss_Messages x)"
  proof (cases "session_row_of ?i d")
    case None
    then have "rows_of ?i d = []" using ok unfolding rows_ok_def by blast
    then show ?thesis by (simp add: decoded_def)
  next
    case (Some r)
    then have "prefix (decoded dec (rows_of ?i d)) (ss_Messages x)"
      using grows by (simp add: turso_record_def)
    then obtain u where u: "ss_Messages x = decoded dec (rows_of ?i d) @ u" by (auto simp: prefix_def)
    have "length (decoded dec (rows_of ?i d)) = ?n" by (simp add: decoded_def)
    then have "drop ?n (ss_Messages x) = u" unfolding u by simp
    then show ?thesis using u by simp
  qed
  have ok': "rows_ok dec d'"
    unfolding rows_ok_def
  proof (rule allI)
    fix j
    have okj: "map mw_seq (rows_of j d) = map int [0..<length (rows_of j d)]"
      "rows_of j d \<noteq> [] \<longrightarrow> session_row_of j d \<noteq> None" "\<forall>r \<in> set (rows_of j d). \<exists>m. dec (mw_content r) = Inr m"
      using ok unfolding rows_ok_def by blast+
    show "map mw_seq (rows_of j d') = map int [0..<length (rows_of j d')] \<and>
      (rows_of j d' \<noteq> [] \<longrightarrow> session_row_of j d' \<noteq> None) \<and>
      (\<forall>r \<in> set (rows_of j d'). \<exists>m. dec (mw_content r) = Inr m)"
    proof (cases "j = ?i")
      case True
      have "map mw_seq (rows_of ?i d') = map int ([0..<?n] @ [?n..<?n + length new])"
        using okj(1) new(2) rows(1) len True by simp
      also have "[0..<?n] @ [?n..<?n + length new] = [0..<?n + length new]"
        by (simp add: upt_add_eq_append[symmetric])
      finally show ?thesis using True rows(1) okj(3) dec_new up(3) srow by auto
    next
      case False
      then show ?thesis using okj rows(2) srow up(2) by simp
    qed
  qed
  moreover have "turso_record dec d' = (turso_record dec d)(?i \<mapsto> Record x)"
  proof
    fix j
    show "turso_record dec d' j = ((turso_record dec d)(?i \<mapsto> Record x)) j"
    proof (cases "j = ?i")
      case True
      obtain t where "session_row_of ?i d' = Some (row_of_record t now (Record x))" using up(3) srow by auto
      moreover have "decoded dec (rows_of ?i d') = ss_Messages x" using rows(1) dec_new pre by simp
      ultimately show ?thesis
        using True by (simp add: turso_record_def row_of_record_def Record_def)
    next
      case False
      then show ?thesis using rows(2) srow up(2) by (simp add: turso_record_def)
    qed
  qed
  ultimately show ?thesis ..
qed

lemma turso_Save_fails:
  assumes "turso_Save quote enc None now (Some x) d = (d', Some e)"
  shows "rows_ok dec d' = rows_ok dec d \<and> turso_record dec d' = turso_record dec d"
proof -
  obtain d1 r1 where 1: "storedCount quote (ss_ID x) d = (d1, r1)" by (cases "storedCount quote (ss_ID x) d")
  have c: "same_sessions d d1" using storedCount_cases[OF 1] by auto
  show ?thesis
  proof (cases r1)
    case (Inl e')
    then have "d' = d1" using assms 1 by (simp add: turso_Save_def Let_def)
    then show ?thesis using same_sessions_rows(3,4)[OF c] by simp
  next
    case (Inr n)
    obtain d2 r2 where 2: "db_call d1 = (d2, r2)" by (cases "db_call d1")
    have same: "same_sessions d d2" using same_sessions_trans[OF c] db_call_sessions[OF 2] by blast
    have "d' = d2 \<or> (\<exists>y. d' = rollback d2 y)"
      using assms 1 2 Inr by (auto simp: turso_Save_def Let_def split: option.splits prod.splits)
    then show ?thesis using same_sessions_rows(3,4)[OF same] rollback_sessions(3,4) by metis
  qed
qed

lemma turso_Save_answering:
  assumes "rows_ok dec d" "answering d" "list_all (turso_storable enc dec) (ss_Messages x)"
  shows "\<exists>d'. turso_Save quote enc None now (Some x) d = (d', None) \<and> answering d'"
proof -
  let ?i = "ss_ID x"
  let ?n = "length (rows_of ?i d)"
  have call: "db_call c = (c, None)" if "answering c" for c using that by (simp add: answering_def)
  have count: "storedCount quote ?i d = (d, Inr ?n)" using assms(2) call by (simp add: storedCount_def)
  obtain d3 r3 where 3: "upsertSession quote (Record x) now d = (d3, r3)"
    by (cases "upsertSession quote (Record x) now d")
  have up: "answering d3" "r3 = None" "rows_of ?i d3 = rows_of ?i d"
    using upsertSession_ok[OF 3] assms(2) by auto
  have "map mw_seq (rows_of ?i d) = map int [0..<?n]" using assms(1) unfolding rows_ok_def by blast
  then have "set (map mw_seq (rows_of ?i d)) = set (map int [0..<?n])" by (rule arg_cong)
  then have lt: "\<forall>r \<in> set (rows_of ?i d3). mw_seq r < int ?n" using up(3) by force
  have enc: "list_all (\<lambda>m. \<exists>t. enc m = Inr t) (drop ?n (ss_Messages x))"
    using assms(3) by (auto simp: list_all_iff turso_storable_iff dest!: in_set_dropD)
  obtain d4 where 4: "insert_messages quote enc ?i ?n (drop ?n (ss_Messages x)) now d3 = (d4, None)" "answering d4"
    using insert_messages_answering[OF up(1) enc lt] by blast
  have "turso_Save quote enc None now (Some x) d = (d4, None)"
    using count call[OF assms(2)] 3 up(2) 4 call[OF 4(2)] by (simp add: turso_Save_def Let_def)
  then show ?thesis using 4(2) by blast
qed

lemma turso_session_store:
  "session_store (\<lambda>t x. turso_Save quote enc None t (Some x)) (turso_Load quote dec None)
     (turso_record dec) (rows_ok dec) answering (turso_storable enc dec)"
proof
  fix s s' :: db and x :: "'b session" and t :: gotime and i e
  show "rows_ok dec s \<Longrightarrow> list_all (turso_storable enc dec) (ss_Messages x) \<Longrightarrow>
      (\<And>r. turso_record dec s (ss_ID x) = Some r \<Longrightarrow> prefix (sr_Messages r) (ss_Messages x)) \<Longrightarrow>
      turso_Save quote enc None t (Some x) s = (s', None) \<Longrightarrow>
      rows_ok dec s' \<and> turso_record dec s' = (turso_record dec s)(ss_ID x \<mapsto> Record x)"
    by (rule turso_Save_ok)
  show "rows_ok dec s \<Longrightarrow> turso_Save quote enc None t (Some x) s = (s', Some e) \<Longrightarrow>
      rows_ok dec s' \<and> turso_record dec s' = turso_record dec s"
    using turso_Save_fails by metis
  show "rows_ok dec s \<Longrightarrow> answering s \<Longrightarrow> list_all (turso_storable enc dec) (ss_Messages x) \<Longrightarrow>
      turso_Save quote enc None t (Some x) s = (s', r) \<Longrightarrow> answering s' \<and> r = None" for r
    using turso_Save_answering[of dec s enc x quote t] by force
  show "rows_ok dec s \<Longrightarrow> turso_Load quote dec None i s = (s', q) \<Longrightarrow>
      rows_ok dec s' \<and> turso_record dec s' = turso_record dec s \<and> (answering s \<longrightarrow> answering s')"
    for q :: "'b session res"
    using turso_Load_cases[of quote dec i s s' q] same_sessions_rows(3,4)[of s s' dec]
    unfolding same_sessions_def by blast
  show "rows_ok dec s \<Longrightarrow> turso_Load quote dec None i s = (s', Inr x) \<Longrightarrow>
      turso_record dec s i = Some (Record x) \<and> ss_ID x = i \<and> ss_box x = None"
    using turso_Load_cases[of quote dec i s s' "Inr x"] by simp
  show "rows_ok dec s \<Longrightarrow> answering s \<Longrightarrow> turso_Load quote dec None i s = (s', Inl e :: 'b session res) \<Longrightarrow>
      e = ErrNotFound \<and> turso_record dec s i = None"
    using turso_Load_cases[of quote dec i s s' "Inl e :: 'b session res"] by simp
qed

interpretation turso_sessions: session_store "\<lambda>t x. turso_Save quote enc None t (Some x)" "turso_Load quote dec None"
    "turso_record dec" "rows_ok dec" answering "turso_storable enc dec" for quote enc dec
  by (rule turso_session_store)

end
