(* ===== verification/NoteStore.thy ===== *)
theory NoteStore
  imports TursoBase
begin

section \<open>An agent's memory: memory.go, turso/notes.go and testutils/notes.go\<close>

text \<open>
  Notes outlive sessions: one per topic. \<open>SystemPrompt\<close> renders every note into the prompt and
  gives the model one tool to write them. What its store promises is the locale \<open>note_store\<close>,
  interpreted on both stores, so the prompt depends on the notes alone and not on the store.
\<close>

record mem_note =
  nt_Topic :: string
  nt_Content :: string
  nt_Updated :: gotime

record 's note_ops =
  n_Notes :: "'s \<Rightarrow> 's \<times> mem_note list res"
  n_Append :: "string \<Rightarrow> string \<Rightarrow> 's \<Rightarrow> 's \<times> goerr option"
  n_Replace :: "string \<Rightarrow> string \<Rightarrow> 's \<Rightarrow> 's \<times> goerr option"

abbreviation (input) newline :: string where "newline \<equiv> [CHR 0x0A]"

subsection \<open>memory.go\<close>

definition preamble :: string where
  "preamble = ''What you remember about the person you work for. These notes came from things'' @ newline @
     ''they told you in earlier conversations; treat them as current unless they say'' @ newline @ ''otherwise.''"

definition render_note :: "string \<times> string \<Rightarrow> string" where
  "render_note = (\<lambda>(topic, content). newline @ newline @ ''## '' @ topic @ newline @ content)"

definition Recall :: "'s note_ops \<Rightarrow> 's \<Rightarrow> 's \<times> string res" where
  "Recall ops s =
    (case n_Notes ops s of
       (s', Inl e) \<Rightarrow> (s', Inl e)
     | (s', Inr notes) \<Rightarrow>
         if notes = [] then (s', Inr '''')
         else (s', Inr (preamble @
           concat (map (\<lambda>n. render_note (nt_Topic n, nt_Content n)) (sort_key nt_Topic notes)))))"

record remember_args =
  ra_Topic :: string
  ra_Content :: string
  ra_Replace :: bool

definition remember :: "'s note_ops \<Rightarrow> remember_args \<Rightarrow> 's \<Rightarrow> 's \<times> tool_result res" where
  "remember ops args s =
    (let topic = trim_space (ra_Topic args); content = trim_space (ra_Content args) in
     if topic = '''' \<or> content = ''''
     then (s, Inr \<lparr>tr_Content = ''topic and content must not be empty'', tr_IsError = True\<rparr>)
     else case (if ra_Replace args then n_Replace ops else n_Append ops) topic content s of
       (s', Some e) \<Rightarrow> (s', Inl e)
     | (s', None) \<Rightarrow> (s', Inr \<lparr>tr_Content = ''Remembered under '' @ topic @ ''.'', tr_IsError = False\<rparr>))"

text \<open>\<open>parse\<close>, \<open>validate\<close> and \<open>decode\<close> read the tool's arguments; see \<open>Adapt\<close>.\<close>

definition memory_Tools ::
  "(string \<Rightarrow> 'j res) \<Rightarrow> ('j \<Rightarrow> goerr option) \<Rightarrow> (string \<Rightarrow> remember_args res) \<Rightarrow> metadata \<Rightarrow>
   's note_ops \<Rightarrow> ('b, 's) tool list" where
  "memory_Tools parse validate decode schema ops =
    [Adapt \<lparr>ty_Def = \<lparr>td_Name = ''remember'', td_Description =
        ''Write down something about the person you work for '' @ encode_rune 0x2014 @ '' their taste, a rule '' @
        ''they gave you, how they want your work to read '' @ encode_rune 0x2014 @ '' so you still know it in a '' @
        ''later conversation. Write it down the moment they say it. Do not record an '' @
        ''instruction that only applies to the task in hand, anything they asked you to '' @
        ''forget, or a guess of your own.'', td_Schema = schema\<rparr>,
       ty_parse = parse, ty_validate = validate, ty_decode = decode,
       ty_Execute = (\<lambda>sess box args s. remember ops args s)\<rparr>]"

definition SystemPrompt ::
  "(string \<Rightarrow> 'j res) \<Rightarrow> ('j \<Rightarrow> goerr option) \<Rightarrow> (string \<Rightarrow> remember_args res) \<Rightarrow> metadata \<Rightarrow>
   's note_ops \<Rightarrow> ('b, 's) memory" where
  "SystemPrompt parse validate decode schema ops =
    \<lparr>me_Recall = Recall ops, me_Tools = memory_Tools parse validate decode schema ops\<rparr>"

subsection \<open>turso/notes.go\<close>

fun scan_notes :: "mem_note list \<Rightarrow> note_row list \<Rightarrow> db \<Rightarrow> db \<times> mem_note list res" where
  "scan_notes notes [] d =
    (case db_call d of
       (d1, Some e) \<Rightarrow> (d1, Inl (failing ''turso: load notes: '' e))
     | (d1, None) \<Rightarrow> (d1, Inr notes))"
| "scan_notes notes (r # rows) d =
    (case db_call d of
       (d1, Some e) \<Rightarrow> (d1, Inl (failing ''turso: scan note: '' e))
     | (d1, None) \<Rightarrow> scan_notes
         (notes @ [\<lparr>nt_Topic = nr_topic r, nt_Content = nr_content r, nt_Updated = nr_updated r\<rparr>]) rows d1)"

definition turso_Notes :: "goerr option \<Rightarrow> db \<Rightarrow> db \<times> mem_note list res" where
  "turso_Notes ctx d =
    (case ctx of
       Some e \<Rightarrow> (d, Inl e)
     | None \<Rightarrow>
        (case db_call d of
           (d1, Some e) \<Rightarrow> (d1, Inl (failing ''turso: load notes: '' e))
         | (d1, None) \<Rightarrow> scan_notes [] (sort_key nr_topic (db_notes d1)) d1))"

text \<open>\<open>expr\<close> is the content expression, of the old content and the new.\<close>

definition upsert_note :: "gotime \<Rightarrow> (string \<Rightarrow> string \<Rightarrow> string) \<Rightarrow> string \<Rightarrow> string \<Rightarrow> note_row list \<Rightarrow> note_row list" where
  "upsert_note now expr topic content rows =
    (if topic \<notin> nr_topic ` set rows
     then rows @ [\<lparr>nr_topic = topic, nr_content = content, nr_created = now, nr_updated = now\<rparr>]
     else map (\<lambda>r. if nr_topic r = topic
            then r\<lparr>nr_content := expr (nr_content r) content, nr_updated := now\<rparr> else r) rows)"

definition writeNote ::
  "(string \<Rightarrow> string) \<Rightarrow> goerr option \<Rightarrow> gotime \<Rightarrow> string \<Rightarrow> string \<Rightarrow> (string \<Rightarrow> string \<Rightarrow> string) \<Rightarrow> db \<Rightarrow> db \<times> goerr option" where
  "writeNote quote ctx now topic content expr d =
    (case ctx of
       Some e \<Rightarrow> (d, Some e)
     | None \<Rightarrow>
        (case db_call d of
           (d1, Some e) \<Rightarrow> (d1, Some (failing (''turso: write note '' @ quote topic @ '': '') e))
         | (d1, None) \<Rightarrow> (d1\<lparr>db_notes := upsert_note now expr topic content (db_notes d1)\<rparr>, None)))"

definition turso_Append :: "(string \<Rightarrow> string) \<Rightarrow> goerr option \<Rightarrow> gotime \<Rightarrow> string \<Rightarrow> string \<Rightarrow> db \<Rightarrow> db \<times> goerr option" where
  "turso_Append quote ctx now topic line = writeNote quote ctx now topic line (\<lambda>old new. old @ newline @ new)"

definition turso_Replace :: "(string \<Rightarrow> string) \<Rightarrow> goerr option \<Rightarrow> gotime \<Rightarrow> string \<Rightarrow> string \<Rightarrow> db \<Rightarrow> db \<times> goerr option" where
  "turso_Replace quote ctx now topic content = writeNote quote ctx now topic content (\<lambda>old new. new)"

subsection \<open>testutils/notes.go\<close>

record memnotes =
  mn_notes :: "mem_note list"
  mn_clock :: int

definition mem_Notes :: "goerr option \<Rightarrow> memnotes \<Rightarrow> memnotes \<times> mem_note list res" where
  "mem_Notes ctx s =
    (case ctx of
       Some e \<Rightarrow> (s, Inl e)
     | None \<Rightarrow> (s, Inr (sort_key (\<lambda>n. - nt_Updated n) (mn_notes s))))"

definition mem_write :: "goerr option \<Rightarrow> string \<Rightarrow> string \<Rightarrow> bool \<Rightarrow> memnotes \<Rightarrow> memnotes \<times> goerr option" where
  "mem_write ctx topic content replace s =
    (case ctx of
       Some e \<Rightarrow> (s, Some e)
     | None \<Rightarrow>
        (let now = mn_clock s + 1; s1 = s\<lparr>mn_clock := now\<rparr> in
         case find (\<lambda>i. nt_Topic (mn_notes s ! i) = topic) [0..<length (mn_notes s)] of
           Some i \<Rightarrow>
            (let n = mn_notes s ! i; c = (if \<not> replace then nt_Content n @ newline @ content else content) in
             (s1\<lparr>mn_notes := (mn_notes s)[i := n\<lparr>nt_Content := c, nt_Updated := now\<rparr>]\<rparr>, None))
         | None \<Rightarrow> (s1\<lparr>mn_notes := mn_notes s @
               [\<lparr>nt_Topic = topic, nt_Content = content, nt_Updated = now\<rparr>]\<rparr>, None)))"

definition mem_Append :: "goerr option \<Rightarrow> string \<Rightarrow> string \<Rightarrow> memnotes \<Rightarrow> memnotes \<times> goerr option" where
  "mem_Append ctx topic line = mem_write ctx topic line False"

definition mem_Replace :: "goerr option \<Rightarrow> string \<Rightarrow> string \<Rightarrow> memnotes \<Rightarrow> memnotes \<times> goerr option" where
  "mem_Replace ctx topic content = mem_write ctx topic content True"

subsection \<open>The contract\<close>

definition topics :: "mem_note list \<Rightarrow> string \<rightharpoonup> string" where
  "topics notes = map_of (map (\<lambda>n. (nt_Topic n, nt_Content n)) notes)"

definition added :: "string option \<Rightarrow> string \<Rightarrow> string" where
  "added old line = (case old of None \<Rightarrow> line | Some c \<Rightarrow> c @ newline @ line)"

text \<open>The prompt of a set of notes, in the order of their topics.\<close>

definition prompt_text :: "(string \<times> string) list \<Rightarrow> string" where
  "prompt_text l = (if l = [] then '''' else preamble @ concat (map render_note l))"

definition prompt_of :: "(string \<rightharpoonup> string) \<Rightarrow> string \<Rightarrow> bool" where
  "prompt_of v text = (\<exists>l. sorted_wrt (<) (map fst l) \<and> set l = {(t, c). v t = Some c} \<and> text = prompt_text l)"

text \<open>The notes after the model remembered something.\<close>

definition remembered :: "remember_args \<Rightarrow> (string \<rightharpoonup> string) \<Rightarrow> string \<rightharpoonup> string" where
  "remembered args v =
    (let topic = trim_space (ra_Topic args); content = trim_space (ra_Content args) in
     if topic = '''' \<or> content = '''' then v
     else v(topic \<mapsto> if ra_Replace args then content else added (v topic) content))"

fun remember_all :: "'s note_ops \<Rightarrow> remember_args list \<Rightarrow> 's \<Rightarrow> 's" where
  "remember_all ops [] s = s"
| "remember_all ops (a # as) s = remember_all ops as (fst (remember ops a s))"

locale note_store =
  fixes ops :: "'s note_ops" and view :: "'s \<Rightarrow> string \<rightharpoonup> string" and fine :: "'s \<Rightarrow> bool"
  assumes listed: "fine s \<Longrightarrow> \<exists>s' l. n_Notes ops s = (s', Inr l) \<and> fine s' \<and> view s' = view s \<and>
      distinct (map nt_Topic l) \<and> topics l = view s"
    and append: "fine s \<Longrightarrow> \<exists>s'. n_Append ops t c s = (s', None) \<and> fine s' \<and> view s' = (view s)(t \<mapsto> added (view s t) c)"
    and replaced: "fine s \<Longrightarrow> \<exists>s'. n_Replace ops t c s = (s', None) \<and> fine s' \<and> view s' = (view s)(t \<mapsto> c)"
begin

lemma recall:
  assumes "fine s"
  shows "\<exists>s' text. Recall ops s = (s', Inr text) \<and> prompt_of (view s) text"
proof -
  obtain s' l where l: "n_Notes ops s = (s', Inr l)" "distinct (map nt_Topic l)" "topics l = view s"
    using listed[OF assms] by blast
  let ?l = "map (\<lambda>n. (nt_Topic n, nt_Content n)) (sort_key nt_Topic l)"
  have fst: "map fst ?l = map nt_Topic (sort_key nt_Topic l)" by simp
  have "sorted_wrt (<) (map fst ?l)"
    unfolding fst using l(2) by (simp add: strict_sorted_iff distinct_map)
  moreover have "set ?l = {(t, c). view s t = Some c}"
    using l(2) unfolding l(3)[symmetric] topics_def
    by (subst map_of_eq_Some_iff) (auto simp: comp_def)
  moreover have "snd (Recall ops s) = Inr (prompt_text ?l)"
    using l(1) by (cases "l = []") (auto simp: Recall_def prompt_text_def comp_def
        dest: arg_cong[of _ "[]" length])
  ultimately show ?thesis unfolding prompt_of_def by (metis prod.collapse)
qed

lemma remember_keeps: "fine s \<Longrightarrow> fine (fst (remember ops a s)) \<and> view (fst (remember ops a s)) = remembered a (view s)"
  using append[of s "trim_space (ra_Topic a)" "trim_space (ra_Content a)"]
    replaced[of s "trim_space (ra_Topic a)" "trim_space (ra_Content a)"]
  by (auto simp: remember_def remembered_def Let_def)

lemma recall_all:
  "fine s \<Longrightarrow> \<exists>s' text. Recall ops (remember_all ops as s) = (s', Inr text) \<and>
     prompt_of (fold remembered as (view s)) text"
proof (induction as arbitrary: s)
  case (Cons a as)
  then show ?case using remember_keeps[OF Cons.prems, of a] Cons.IH[of "fst (remember ops a s)"] by auto
qed (simp add: recall)

end

subsection \<open>Both stores keep it\<close>

text \<open>The state of the turso store: how often its clock was read, and the database.\<close>

definition turso_notes :: "(string \<Rightarrow> string) \<Rightarrow> (nat \<Rightarrow> gotime) \<Rightarrow> (nat \<times> db) note_ops" where
  "turso_notes quote now =
    \<lparr>n_Notes = (\<lambda>(i, d). let (d', r) = turso_Notes None d in ((i, d'), r)),
     n_Append = (\<lambda>t c (i, d). let (d', r) = turso_Append quote None (now i) t c d in ((Suc i, d'), r)),
     n_Replace = (\<lambda>t c (i, d). let (d', r) = turso_Replace quote None (now i) t c d in ((Suc i, d'), r))\<rparr>"

definition note_of_row :: "note_row \<Rightarrow> mem_note" where
  "note_of_row r = \<lparr>nt_Topic = nr_topic r, nt_Content = nr_content r, nt_Updated = nr_updated r\<rparr>"

definition turso_topics :: "nat \<times> db \<Rightarrow> string \<rightharpoonup> string" where
  "turso_topics s = topics (map note_of_row (db_notes (snd s)))"

definition notes_fine :: "nat \<times> db \<Rightarrow> bool" where
  "notes_fine s = (db_faults (snd s) = [] \<and> distinct (map nr_topic (db_notes (snd s))))"

lemma topics_iff:
  "distinct (map nt_Topic l) \<Longrightarrow> topics l t = Some c \<longleftrightarrow> (\<exists>n \<in> set l. nt_Topic n = t \<and> nt_Content n = c)"
  unfolding topics_def by (subst map_of_eq_Some_iff) (auto simp: comp_def)

lemma topics_cong:
  assumes "distinct (map nt_Topic l)" "\<And>t c. v t = Some c \<longleftrightarrow> (\<exists>n \<in> set l. nt_Topic n = t \<and> nt_Content n = c)"
  shows "topics l = v"
proof
  fix t show "topics l t = v t"
    using topics_iff[OF assms(1), of t] assms(2)[of t] by (metis option.exhaust)
qed

text \<open>Writing a topic's note, whatever the list holds.\<close>

lemma topics_None: "topics l t = None \<longleftrightarrow> t \<notin> nt_Topic ` set l"
  by (simp add: topics_def map_of_eq_None_iff image_image)

lemma topics_write:
  assumes "distinct (map nt_Topic l)" "i < length l" "n = (l ! i)\<lparr>nt_Content := c, nt_Updated := t\<rparr>"
  shows "distinct (map nt_Topic (l[i := n])) \<and> topics (l[i := n]) = (topics l)(nt_Topic (l ! i) \<mapsto> c)"
proof -
  note up = set_update_distinct[OF assms(1,2), of n]
  have d: "distinct (map nt_Topic (l[i := n]))" by (rule up(1)) (simp add: assms(3))
  moreover have "topics (l[i := n]) = (topics l)(nt_Topic (l ! i) \<mapsto> c)"
    using topics_iff[OF assms(1)] up(2) assms(3) by (intro topics_cong[OF d]) auto
  ultimately show ?thesis ..
qed

lemma topics_new:
  assumes "distinct (map nt_Topic l)" "nt_Topic n \<notin> nt_Topic ` set l"
  shows "distinct (map nt_Topic (l @ [n])) \<and> topics (l @ [n]) = (topics l)(nt_Topic n \<mapsto> nt_Content n)"
proof -
  have d: "distinct (map nt_Topic (l @ [n]))" using assms by simp
  moreover have "nt_Topic n' \<noteq> nt_Topic n" if "n' \<in> set l" for n' using assms(2) imageI[OF that, of nt_Topic] by auto
  then have "topics (l @ [n]) = (topics l)(nt_Topic n \<mapsto> nt_Content n)"
    using topics_iff[OF assms(1)] by (intro topics_cong[OF d]) auto
  ultimately show ?thesis ..
qed

lemma upsert_note_topics:
  assumes "distinct (map nr_topic rows)"
  defines "l \<equiv> map note_of_row rows"
  shows "distinct (map nr_topic (upsert_note now expr t c rows)) \<and>
    topics (map note_of_row (upsert_note now expr t c rows)) =
      (topics l)(t \<mapsto> case topics l t of None \<Rightarrow> c | Some old \<Rightarrow> expr old c)"
proof -
  have keys: "map nt_Topic (map note_of_row rows) = map nr_topic rows" for rows
    by (simp add: note_of_row_def)
  have d: "distinct (map nt_Topic l)" unfolding l_def keys by (rule assms(1))
  show ?thesis
  proof (cases "t \<in> nr_topic ` set rows")
    case False
    let ?r = "\<lparr>nr_topic = t, nr_content = c, nr_created = now, nr_updated = now\<rparr>"
    have n: "nt_Topic (note_of_row ?r) \<notin> nt_Topic ` set l"
      using False by (auto simp: l_def note_of_row_def)
    then have "topics l t = None" by (simp add: topics_None note_of_row_def)
    then show ?thesis
      using topics_new[OF d n] False assms(1)
      by (simp add: upsert_note_def l_def[symmetric]) (simp add: note_of_row_def)
  next
    case True
    then obtain i where i: "i < length rows" "nr_topic (rows ! i) = t" by (auto simp: in_set_conv_nth)
    let ?r = "(rows ! i)\<lparr>nr_content := expr (nr_content (rows ! i)) c, nr_updated := now\<rparr>"
    have up: "upsert_note now expr t c rows = rows[i := ?r]"
    proof (rule nth_equalityI)
      fix j assume "j < length (upsert_note now expr t c rows)"
      then have j: "j < length rows" using True by (simp add: upsert_note_def)
      have "nr_topic (rows ! j) = t \<longleftrightarrow> j = i"
        using nth_eq_iff_index_eq[OF assms(1), of j i] i j by auto
      then show "upsert_note now expr t c rows ! j = rows[i := ?r] ! j"
        using True j by (simp add: upsert_note_def nth_list_update)
    qed (use True in \<open>simp add: upsert_note_def\<close>)
    have old: "topics l t = Some (nr_content (rows ! i))"
      using topics_iff[OF d, of t "nr_content (rows ! i)"] i nth_mem[OF i(1)]
      by (auto simp: l_def note_of_row_def)
    have "map note_of_row (rows[i := ?r]) = l[i := note_of_row ?r]" by (simp add: l_def map_update)
    moreover have "note_of_row ?r = (l ! i)\<lparr>nt_Content := expr (nr_content (rows ! i)) c, nt_Updated := now\<rparr>"
      using i(1) by (simp add: l_def note_of_row_def)
    moreover have "nt_Topic (l ! i) = t" "i < length l" using i by (simp_all add: l_def note_of_row_def)
    moreover have "map nr_topic (rows[i := ?r]) = map nr_topic rows"
      using i(1) by (simp add: map_update list_update_same_conv)
    ultimately show ?thesis
      using topics_write[OF d] old up assms(1) by (metis option.simps(5))
  qed
qed

lemma scan_notes_healthy:
  "db_faults d = [] \<Longrightarrow> scan_notes l rows d = (d, Inr (l @ map note_of_row rows))"
  by (induction rows arbitrary: l) (auto simp: note_of_row_def)

lemma turso_note_store: "note_store (turso_notes quote now) turso_topics notes_fine"
proof
  fix s :: "nat \<times> db" and t c :: string
  assume "notes_fine s"
  then obtain i d where s: "s = (i, d)" and f: "db_faults d = []" "distinct (map nr_topic (db_notes d))"
    by (cases s) (auto simp: notes_fine_def)
  let ?rows = "sort_key nr_topic (db_notes d)"
  have keys: "map nt_Topic (map note_of_row rows) = map nr_topic rows" for rows
    by (simp add: note_of_row_def)
  have "n_Notes (turso_notes quote now) s = (s, Inr (map note_of_row ?rows))"
    using f(1) by (simp add: turso_notes_def turso_Notes_def s scan_notes_healthy)
  moreover have d: "distinct (map nt_Topic (map note_of_row ?rows))" "distinct (map nt_Topic (map note_of_row (db_notes d)))"
    unfolding keys using f(2) by (simp_all add: distinct_map)
  moreover have "topics (map note_of_row ?rows) = turso_topics s"
    using topics_iff[OF d(2)] by (intro topics_cong[OF d(1)]) (auto simp: turso_topics_def s)
  ultimately show "\<exists>s' l. n_Notes (turso_notes quote now) s = (s', Inr l) \<and> notes_fine s' \<and>
      turso_topics s' = turso_topics s \<and> distinct (map nt_Topic l) \<and> topics l = turso_topics s"
    using \<open>notes_fine s\<close> by blast
  note up = upsert_note_topics[OF f(2)]
  show "\<exists>s'. n_Append (turso_notes quote now) t c s = (s', None) \<and> notes_fine s' \<and>
      turso_topics s' = (turso_topics s)(t \<mapsto> added (turso_topics s t) c)"
    using f up[of "now i" "\<lambda>old new. old @ newline @ new" t c]
    by (simp add: turso_notes_def turso_Append_def writeNote_def s notes_fine_def turso_topics_def added_def)
  show "\<exists>s'. n_Replace (turso_notes quote now) t c s = (s', None) \<and> notes_fine s' \<and>
      turso_topics s' = (turso_topics s)(t \<mapsto> c)"
    using f up[of "now i" "\<lambda>old new. new" t c]
    by (simp add: turso_notes_def turso_Replace_def writeNote_def s notes_fine_def turso_topics_def
        split: option.splits)
qed

interpretation turso_notes: note_store "turso_notes quote now" turso_topics notes_fine for quote now
  by (rule turso_note_store)

definition mem_notes :: "memnotes note_ops" where
  "mem_notes = \<lparr>n_Notes = mem_Notes None, n_Append = mem_Append None, n_Replace = mem_Replace None\<rparr>"

definition mem_notes_fine :: "memnotes \<Rightarrow> bool" where
  "mem_notes_fine s = distinct (map nt_Topic (mn_notes s))"

lemma mem_write_topics:
  assumes "mem_notes_fine s"
  shows "\<exists>s'. mem_write None t c replace s = (s', None) \<and> mem_notes_fine s' \<and>
    topics (mn_notes s') = (topics (mn_notes s))(t \<mapsto> if replace then c else added (topics (mn_notes s) t) c)"
proof -
  let ?l = "mn_notes s"
  have d: "distinct (map nt_Topic ?l)" using assms by (simp add: mem_notes_fine_def)
  show ?thesis
  proof (cases "find (\<lambda>i. nt_Topic (?l ! i) = t) [0..<length ?l]")
    case None
    then have n: "t \<notin> nt_Topic ` set ?l" by (auto simp: find_None_iff in_set_conv_nth)
    then have "topics ?l t = None" by (simp add: topics_None)
    then show ?thesis
      using None n topics_new[OF d, of "\<lparr>nt_Topic = t, nt_Content = c, nt_Updated = mn_clock s + 1\<rparr>"]
      by (simp add: mem_write_def Let_def mem_notes_fine_def added_def)
  next
    case (Some i)
    then have i: "i < length ?l" "nt_Topic (?l ! i) = t" by (auto simp: find_Some_iff)
    have old: "topics ?l t = Some (nt_Content (?l ! i))"
      using topics_iff[OF d, of t "nt_Content (?l ! i)"] i nth_mem[OF i(1)] by blast
    let ?c = "if \<not> replace then nt_Content (?l ! i) @ newline @ c else c"
    show ?thesis
      using Some topics_write[OF d i(1) refl, of "mn_clock s + 1" ?c] old i(2)
      by (auto simp: mem_write_def Let_def mem_notes_fine_def added_def)
  qed
qed

lemma mem_note_store: "note_store mem_notes (\<lambda>s. topics (mn_notes s)) mem_notes_fine"
proof
  fix s :: memnotes and t c :: string
  assume f: "mem_notes_fine s"
  then have d: "distinct (map nt_Topic (mn_notes s))" by (simp add: mem_notes_fine_def)
  let ?l = "sort_key (\<lambda>n. - nt_Updated n) (mn_notes s)"
  have dl: "distinct (map nt_Topic ?l)" using d by (simp add: distinct_map)
  moreover have "topics ?l = topics (mn_notes s)"
    using topics_iff[OF d] by (intro topics_cong[OF dl]) auto
  ultimately show "\<exists>s' l. n_Notes mem_notes s = (s', Inr l) \<and> mem_notes_fine s' \<and>
      topics (mn_notes s') = topics (mn_notes s) \<and> distinct (map nt_Topic l) \<and> topics l = topics (mn_notes s)"
    using f by (simp add: mem_notes_def mem_Notes_def)
  show "\<exists>s'. n_Append mem_notes t c s = (s', None) \<and> mem_notes_fine s' \<and>
      topics (mn_notes s') = (topics (mn_notes s))(t \<mapsto> added (topics (mn_notes s) t) c)"
    using mem_write_topics[OF f, of t c False] by (simp add: mem_notes_def mem_Append_def)
  show "\<exists>s'. n_Replace mem_notes t c s = (s', None) \<and> mem_notes_fine s' \<and>
      topics (mn_notes s') = (topics (mn_notes s))(t \<mapsto> c)"
    using mem_write_topics[OF f, of t c True] by (simp add: mem_notes_def mem_Replace_def)
qed

interpretation mem_notes: note_store mem_notes "\<lambda>s. topics (mn_notes s)" mem_notes_fine
  by (rule mem_note_store)

lemma prompt_of_unique:
  assumes "prompt_of v a" "prompt_of v b"
  shows "a = b"
proof -
  obtain l m where l: "sorted_wrt (<) (map fst l)" "set l = {(t, c). v t = Some c}" "a = prompt_text l"
    and m: "sorted_wrt (<) (map fst m)" "set m = {(t, c). v t = Some c}" "b = prompt_text m"
    using assms unfolding prompt_of_def by blast
  have "l = m" by (rule strictly_sorted_unique) (use l m in simp_all)
  then show ?thesis using l m by simp
qed

end
