(* ===== verification/AgentDb.thy ===== *)
theory AgentDb
  imports KvStore SessionStore NoteStore
begin

section \<open>Properties of the agent database\<close>

text \<open>
  What the stores over one database file promise: migrations that are atomic, sessions that come
  back as they were saved whatever fails, application state a client cannot tell from a map, and a
  prompt that depends on the notes alone.
\<close>

subsection \<open>Migrating\<close>

text \<open>A database at a version: the first \<open>n\<close> are applied, or it is new and has not even their table.\<close>

definition at_version :: "nat \<Rightarrow> db \<Rightarrow> bool" where
  "at_version n d = (migrated n d \<or> n = 0 \<and> db_schema d = [] \<and> db_versions d = [])"

lemma at_version_call: "db_call d = (d', r) \<Longrightarrow> at_version n d \<Longrightarrow> at_version n d'"
  using db_call_same[of d d' r] by (simp add: at_version_def migrated_def)

text \<open>\<open>CREATE TABLE IF NOT EXISTS\<close> makes a new database one with no version applied.\<close>

lemma migrations_table_made:
  assumes "at_version n d"
  shows "migrated n (if migrations_table \<in> set (db_schema d) then d else d\<lparr>db_schema := db_schema d @ [migrations_table]\<rparr>)"
  using assms by (auto simp: at_version_def migrated_def tables_of_def)

text \<open>C17. Migrating never leaves a half-applied version. Whatever calls fail, \<open>Migrate\<close> takes a
  database with the first \<open>n\<close> versions applied, or a new one without a table, to one with the first \<open>m\<close>
  applied, \<open>m\<close> at least \<open>n\<close>, keeps every row, and reports success only when all versions are applied
  and recorded in their table; so running it again finishes the job, and on a complete database it
  changes nothing.\<close>

theorem migrating_is_atomic:
  assumes "Migrate ctx (Some d) = (d', r)" "n \<le> length migrations" "at_version n d"
  shows "\<exists>m d1. d' = Some d1 \<and> n \<le> m \<and> m \<le> length migrations \<and> at_version m d1 \<and> same_rows d d1 \<and>
    (r = None \<longrightarrow> m = length migrations \<and> migrated m d1)"
proof (cases ctx)
  case (Some e)
  then show ?thesis using assms by (auto simp: Migrate_def)
next
  case None
  obtain d0 r0 where 0: "db_call d = (d0, r0)" by (cases "db_call d")
  have same: "same_rows d d0" and at0: "at_version n d0" using db_call_same[OF 0] at_version_call[OF 0 assms(3)] by auto
  show ?thesis
  proof (cases r0)
    case (Some e)
    then show ?thesis using assms(1,2) None 0 same at0 by (auto simp: Migrate_def)
  next
    case r0: None
    let ?d = "if migrations_table \<in> set (db_schema d0) then d0 else d0\<lparr>db_schema := db_schema d0 @ [migrations_table]\<rparr>"
    obtain d1 where d1: "d' = Some d1" "migrate_from (drop 0 migrations) ?d = (d1, r)"
      using assms(1) None 0 r0 by (auto simp: Migrate_def Let_def split: prod.splits)
    obtain m where "n \<le> m" "m \<le> length migrations" "migrated m d1" "same_rows ?d d1"
        "r = None \<longrightarrow> m = length migrations"
      using migrate_from_atomic[OF migrations_table_made[OF at0] _ assms(2) d1(2)] by auto
    moreover have "same_rows d0 ?d" by (simp add: same_rows_def)
    ultimately show ?thesis using d1(1) same_rows_trans[OF same] same_rows_trans unfolding at_version_def by blast
  qed
qed

theorem migrating_is_atomic_witness:
  "let d = new_db\<lparr>db_faults := replicate 9 None @ [Some (Opaque ''disk full'')]\<rparr>;
       d1 = the (fst (Migrate None (Some d)))
   in snd (Migrate None (Some d)) \<noteq> None \<and> at_version 1 d1 \<and>
      snd (Migrate None (Some d1)) = None \<and> migrated (length migrations) (the (fst (Migrate None (Some d1))))"
proof -
  let ?d = "new_db\<lparr>db_faults := replicate 9 None @ [Some (Opaque ''disk full'')]\<rparr>"
  let ?d1 = "the (fst (Migrate None (Some ?d)))"
  let ?d2 = "the (fst (Migrate None (Some ?d1)))"
  have new: "at_version 0 ?d" by (simp add: at_version_def new_db_def)
  obtain m d1 where m: "fst (Migrate None (Some ?d)) = Some d1" "at_version m d1" "m \<le> length migrations"
    using migrating_is_atomic[OF _ _ new, of None "fst (Migrate None (Some ?d))" "snd (Migrate None (Some ?d))"] by auto
  have fails: "snd (Migrate None (Some ?d)) \<noteq> None" and versions: "db_versions ?d1 = [1]" by code_simp+
  then have "length (db_versions d1) = 1" using m(1) by simp
  then have at1: "m = 1" "at_version 1 ?d1" using m by (auto simp: at_version_def migrated_def migrations_def)
  have ok: "snd (Migrate None (Some ?d1)) = None" by code_simp
  have "1 \<le> length migrations" by (simp add: migrations_def)
  from migrating_is_atomic[OF prod.collapse[symmetric] this at1(2), of None]
  have "migrated (length migrations) ?d2" using ok by auto
  then show ?thesis using fails at1(2) ok by (simp add: Let_def)
qed

subsection \<open>Sessions\<close>

text \<open>C16. A session comes back as it was last saved. On a migrated database whose calls may fail in
  any way, for any sequence of saves and loads in which transcripts grow and their messages survive
  the codec: every load that succeeds returns exactly the record of the last save that succeeded,
  with no sandbox bound, and a failed save leaves no trace. If no call fails, every save succeeds
  and a load fails only with \<open>ErrNotFound\<close>, for an id never saved.\<close>

theorem sessions_survive:
  assumes "db_sessions d = []" "db_messages d = []" "h \<Longrightarrow> db_faults d = []"
    and "calls = run_ops (\<lambda>t x. turso_Save quote enc None t (Some x)) (turso_Load quote dec None) ops d"
    and "transcripts_grow (turso_storable enc dec) Map.empty calls"
  shows "outcomes_right h Map.empty calls"
proof -
  have empty: "rows_ok dec d" "turso_record dec d = Map.empty"
    using assms(1,2) by (auto simp: rows_ok_def rows_of_def turso_record_def session_row_of_def fun_eq_iff)
  have "h \<Longrightarrow> answering d" using assms(3) by (simp add: answering_def)
  then show ?thesis
    using turso_sessions.outcomes[of dec d h enc quote ops] empty assms(4,5) by simp
qed

definition demo_enc :: "msg \<Rightarrow> string res" where
  "demo_enc m = (case text_parts (ms_Content m) of
     [t] \<Rightarrow> if m = NewUserMessage t then Inr t else Inl (Opaque ''json'') | _ \<Rightarrow> Inl (Opaque ''json''))"

definition demo_dec :: "string \<Rightarrow> msg res" where "demo_dec t = Inr (NewUserMessage t)"

definition demo_saved :: "msg list \<Rightarrow> unit session" where
  "demo_saved ms = \<lparr>ss_ID = ''s'', ss_Model = ''m'', ss_Messages = ms, ss_Usage = no_usage,
     ss_Status = StatusActive, ss_name = ''box'', ss_box = Some ()\<rparr>"

theorem sessions_survive_witness:
  "let calls = run_ops (\<lambda>t x. turso_Save id demo_enc None t (Some x)) (turso_Load id demo_dec None)
      [SaveOp 1 (demo_saved [NewUserMessage ''a'']),
       SaveOp 2 (demo_saved [NewUserMessage ''a'', NewUserMessage ''b'']), LoadOp ''s'', LoadOp ''t'']
      (new_db\<lparr>db_faults := replicate 9 None @ [Some (Opaque ''locked'')]\<rparr>)
   in outcomes_right False Map.empty calls \<and> length calls = 4"
proof -
  let ?d = "new_db\<lparr>db_faults := replicate 9 None @ [Some (Opaque ''locked'')]\<rparr>"
  let ?ops = "[SaveOp 1 (demo_saved [NewUserMessage ''a'']),
       SaveOp 2 (demo_saved [NewUserMessage ''a'', NewUserMessage ''b'']), LoadOp ''s'', LoadOp ''t'']"
  let ?calls = "run_ops (\<lambda>t x. turso_Save id demo_enc None t (Some x)) (turso_Load id demo_dec None) ?ops ?d"
  have grow: "transcripts_grow (turso_storable demo_enc demo_dec) Map.empty ?calls" by code_simp
  show ?thesis
    using sessions_survive[OF _ _ _ refl grow, of False] by (simp add: new_db_def split: prod.split)
qed

subsection \<open>Application state\<close>

text \<open>C18. The turso store is a map from keys to bytes, and a test on the in-memory store tests it:
  from empty stores, for any sequence of requests with valid UTF-8 keys and prefixes and any clock,
  both give the same answers, request by request, and they are those of the map. A listing is
  exactly the entries whose key starts with the prefix, in byte order, although the turso store
  scans the range from the prefix to its successor.\<close>

theorem kv_stores_agree:
  assumes "db_kv d = []" "db_faults d = []" "list_all (\<lambda>r. valid_utf8 (request_key r)) rs"
  shows "snd (ask_all (turso_kv quote now) rs (i, d)) = snd (ask_all mem_kv rs \<lparr>mk_entries = [], mk_clock = c\<rparr>) \<and>
    answers_ok Map.empty rs (snd (ask_all (turso_kv quote now) rs (i, d)))"
proof -
  have t: "turso_fine (i, d)" "turso_view (i, d) = Map.empty"
    using assms(1,2) by (auto simp: turso_fine_def turso_view_def kv_row_of_def fun_eq_iff)
  have m: "mem_fine \<lparr>mk_entries = [], mk_clock = c\<rparr>" "mem_view \<lparr>mk_entries = [], mk_clock = c\<rparr> = Map.empty"
    by (auto simp: mem_fine_def mem_view_def pairs_def)
  have a: "answers_ok Map.empty rs (snd (ask_all (turso_kv quote now) rs (i, d)))"
    using turso_kv.all_asked[OF t(1) assms(3)] t(2) by simp
  moreover have "answers_ok Map.empty rs (snd (ask_all mem_kv rs \<lparr>mk_entries = [], mk_clock = c\<rparr>))"
    using mem_kv.all_asked[OF m(1) assms(3)] m(2) by simp
  ultimately show ?thesis using answers_ok_unique by blast
qed

theorem kv_stores_agree_witness:
  "snd (ask_all (turso_kv id int) [PutOf ''show_b'' ''2'', PutOf ''show_a'' ''1'', PutOf ''showa'' ''3'', ListOf ''show_''] (0, new_db)) =
   snd (ask_all mem_kv [PutOf ''show_b'' ''2'', PutOf ''show_a'' ''1'', PutOf ''showa'' ''3'', ListOf ''show_'']
     \<lparr>mk_entries = [], mk_clock = 0\<rparr>) \<and>
   last (snd (ask_all mem_kv [PutOf ''show_b'' ''2'', PutOf ''show_a'' ''1'', PutOf ''showa'' ''3'', ListOf ''show_'']
     \<lparr>mk_entries = [], mk_clock = 0\<rparr>)) = Entries [(''show_a'', ''1''), (''show_b'', ''2'')]"
proof -
  have 1: "list_all (\<lambda>r. valid_utf8 (request_key r))
      [PutOf ''show_b'' ''2'', PutOf ''show_a'' ''1'', PutOf ''showa'' ''3'', ListOf ''show_'']"
    by (simp add: runes_ascii ascii_def)
  have 2: "last (snd (ask_all mem_kv [PutOf ''show_b'' ''2'', PutOf ''show_a'' ''1'', PutOf ''showa'' ''3'', ListOf ''show_'']
     \<lparr>mk_entries = [], mk_clock = 0\<rparr>)) = Entries [(''show_a'', ''1''), (''show_b'', ''2'')]" by code_simp
  show ?thesis
    using kv_stores_agree[OF _ _ 1, of new_db id int 0 0] 2 by (simp add: new_db_def)
qed

subsection \<open>Memory\<close>

text \<open>What the model is told it remembers depends on the notes alone. From empty stores, after any
  sequence of \<open>remember\<close> calls, recalling succeeds over the turso store and over the in-memory one
  with the same text: nothing when there is no note, and else the preamble and each topic's note
  once, in topic order, where a call that names a topic and has content appended to that topic's
  note or replaced it, and any other call changed nothing.\<close>

theorem memory_prompt_is_the_notes:
  assumes "db_notes d = []" "db_faults d = []"
  shows "\<exists>text. snd (Recall (turso_notes quote now) (remember_all (turso_notes quote now) calls (i, d))) = Inr text \<and>
    snd (Recall mem_notes (remember_all mem_notes calls \<lparr>mn_notes = [], mn_clock = c\<rparr>)) = Inr text \<and>
    prompt_of (fold remembered calls Map.empty) text"
proof -
  have t: "notes_fine (i, d)" "turso_topics (i, d) = Map.empty"
    using assms by (auto simp: notes_fine_def turso_topics_def topics_def)
  have m: "mem_notes_fine \<lparr>mn_notes = [], mn_clock = c\<rparr>" "topics (mn_notes \<lparr>mn_notes = [], mn_clock = c\<rparr>) = Map.empty"
    by (auto simp: mem_notes_fine_def topics_def)
  obtain s1 a where a: "Recall (turso_notes quote now) (remember_all (turso_notes quote now) calls (i, d)) = (s1, Inr a)"
      "prompt_of (fold remembered calls Map.empty) a"
    using turso_notes.recall_all[OF t(1), of quote now calls] t(2) by auto
  obtain s2 b where b: "Recall mem_notes (remember_all mem_notes calls \<lparr>mn_notes = [], mn_clock = c\<rparr>) = (s2, Inr b)"
      "prompt_of (fold remembered calls Map.empty) b"
    using mem_notes.recall_all[OF m(1), of calls] m(2) by auto
  show ?thesis using a b prompt_of_unique[OF a(2) b(2)] by auto
qed

theorem memory_prompt_is_the_notes_witness:
  "snd (Recall mem_notes (remember_all mem_notes
     [\<lparr>ra_Topic = ''taste'', ra_Content = ''short'', ra_Replace = False\<rparr>,
      \<lparr>ra_Topic = ''rules'', ra_Content = ''no tabs'', ra_Replace = False\<rparr>] \<lparr>mn_notes = [], mn_clock = 0\<rparr>)) =
   Inr (preamble @ render_note (''rules'', ''no tabs'') @ render_note (''taste'', ''short'')) \<and>
   snd (Recall (turso_notes id int) (remember_all (turso_notes id int)
     [\<lparr>ra_Topic = ''taste'', ra_Content = ''short'', ra_Replace = False\<rparr>,
      \<lparr>ra_Topic = ''rules'', ra_Content = ''no tabs'', ra_Replace = False\<rparr>] (0, new_db))) =
   Inr (preamble @ render_note (''rules'', ''no tabs'') @ render_note (''taste'', ''short''))"
proof -
  let ?calls = "[\<lparr>ra_Topic = ''taste'', ra_Content = ''short'', ra_Replace = False\<rparr>,
      \<lparr>ra_Topic = ''rules'', ra_Content = ''no tabs'', ra_Replace = False\<rparr>]"
  have "snd (Recall mem_notes (remember_all mem_notes ?calls \<lparr>mn_notes = [], mn_clock = 0\<rparr>)) =
     Inr (preamble @ render_note (''rules'', ''no tabs'') @ render_note (''taste'', ''short''))" by code_simp
  moreover have "db_notes new_db = []" "db_faults new_db = []" by (simp_all add: new_db_def)
  ultimately show ?thesis
    using memory_prompt_is_the_notes[of new_db id int ?calls 0 0] by auto
qed

end
