(* ===== verification/BridgeText.thy ===== *)
theory BridgeText
  imports Utf8 AgentBase
begin

section \<open>What a chat sees of a turn: metaharness/bridge/telegram/text.go\<close>

text \<open>
  The text both bridges send: the answer, the progress lines, and the splitting of long answers.
  \<open>bridge/xmpp/text.go\<close> has the same functions, word for word, without the splitting. Strings are
  bytes and \<open>[]rune\<close> is \<open>runes\<close>. \<open>parse\<close> stands for \<open>json.Unmarshal\<close> of an
  object, of which the code reads the members that are strings.
\<close>

definition oneLine :: "string \<Rightarrow> string" where
  "oneLine s = trim_space (replace_all tab '' '' (replace_all nl '' '' (replace_all crlf '' '' s)))"

definition ellipsis :: string where "ellipsis = encode_rune 0x2026"

text \<open>None is the panic of slicing with a negative bound; no caller asks for that.\<close>

definition clip :: "string \<Rightarrow> int \<Rightarrow> string option" where
  "clip s n =
    (let rs = runes s in
     if int (length rs) \<le> n then Some s
     else if n < 0 then None
     else if n \<le> 1 then Some (of_runes (take (nat n) rs))
     else Some (of_runes (take (nat (n - 1)) rs) @ ellipsis))"

definition clipped :: "string \<Rightarrow> nat \<Rightarrow> string" where
  "clipped s n = (case clip s (int n) of Some t \<Rightarrow> t | None \<Rightarrow> s)"

definition finalText :: "msg option \<Rightarrow> string" where
  "finalText m = trim_space (foldl
     (\<lambda>b t. if t = '''' then b else if b \<noteq> '''' then b @ nl @ t else b @ t) '''' (TextParts m))"

definition summary_keys :: "string list" where
  "summary_keys = [''cmd'', ''command'', ''path'', ''file_path'', ''file'', ''skill'', ''query'']"

type_synonym json_object = "(string \<times> string option) list"

definition summarizeToolInput :: "(string \<Rightarrow> json_object option) \<Rightarrow> string \<Rightarrow> string" where
  "summarizeToolInput parse input0 =
    (let input = trim_space input0 in
     if input = '''' then ''''
     else
       (let chosen = (case parse input of
              None \<Rightarrow> None
            | Some obj \<Rightarrow> find (\<lambda>s. s \<noteq> '''')
                (List.map_filter (\<lambda>key. case map_of obj key of Some (Some s) \<Rightarrow> Some s | _ \<Rightarrow> None) summary_keys)) in
        case chosen of Some s \<Rightarrow> clipped (oneLine s) 60 | None \<Rightarrow> clipped (oneLine input) 60))"

definition wrench :: string where "wrench = encode_rune 0x1F527 @ '' ''"
definition thought :: string where "thought = encode_rune 0x1F4AD @ '' ''"
definition warning :: string where "warning = encode_rune 0x26A0 @ encode_rune 0xFE0F @ '' ''"
definition arrow :: string where "arrow = encode_rune 0x21B3 @ '' ''"
definition check_mark :: string where "check_mark = encode_rune 0x2705 @ '' ''"
definition cross_mark :: string where "cross_mark = encode_rune 0x274C @ '' ''"

definition thinking_line :: string where "thinking_line = thought @ ''thinking'' @ ellipsis"

definition assistantLine :: "(string \<Rightarrow> json_object option) \<Rightarrow> msg option \<Rightarrow> bool \<Rightarrow> string option" where
  "assistantLine parse m showThinking =
    (let calls = ToolCalls m; reasoning = ReasoningParts m in
     if calls \<noteq> [] then
       Some (join nl (map (\<lambda>c. let arg = summarizeToolInput parse (tc_Input c) in
         if arg \<noteq> '''' then wrench @ tc_Name c @ '': '' @ arg else wrench @ tc_Name c) calls))
     else if reasoning \<noteq> [] then
       (if \<not> showThinking then Some thinking_line
        else
          (let b = foldl (\<lambda>b t. if t = '''' then b else (if b \<noteq> '''' then b @ '' '' else b) @ oneLine t) '''' reasoning in
           if b = '''' then Some thinking_line else Some (thought @ clipped b 240)))
     else None)"

definition toolResultLine :: "msg option \<Rightarrow> string option" where
  "toolResultLine m =
    (let results = ToolResults m in
     if results = [] then None
     else case find (\<lambda>r. cr_Error r \<noteq> None) results of
       Some r \<Rightarrow> Some (warning @ clipped (oneLine (err_text (the (cr_Error r)))) 120)
     | None \<Rightarrow>
        (let summary = clipped (oneLine (cr_Text (last results))) 80 in
         if summary \<noteq> '''' then Some (arrow @ summary) else Some (arrow @ ''ok'')))"

fun stepLine :: "(string \<Rightarrow> json_object option) \<Rightarrow> event \<Rightarrow> bool \<Rightarrow> string option" where
  "stepLine parse (EventAssistant m) showThinking = assistantLine parse (Some m) showThinking"
| "stepLine parse (EventToolResult m) showThinking = toolResultLine (Some m)"
| "stepLine parse (EventDone m) showThinking = Some (check_mark @ ''done'')"
| "stepLine parse (EventError e) showThinking = Some (cross_mark @ clipped (oneLine (err_text e)) 120)"

subsection \<open>Splitting\<close>

definition telegramMaxMessage :: int where "telegramMaxMessage = 4096"

text \<open>The index of the last one, or -1.\<close>

definition lastIndexRune :: "nat list \<Rightarrow> nat \<Rightarrow> int" where
  "lastIndexRune rs target =
    (case find (\<lambda>i. rs ! i = target) (rev [0..<length rs]) of Some i \<Rightarrow> int i | None \<Rightarrow> - 1)"

definition breakPoint :: "nat list \<Rightarrow> int \<times> bool" where
  "breakPoint window =
    (let limit = int (length window); i = lastIndexRune window 0x0A; j = lastIndexRune window 0x20 in
     if i \<ge> limit div 2 then (i, True) else if j \<ge> limit div 2 then (j, True) else (limit, False))"

definition split_round :: "nat \<Rightarrow> nat list \<times> string list \<Rightarrow> nat list \<times> string list + string list" where
  "split_round limit = (\<lambda>(rs, chunks).
    if length rs > limit
    then (let (stop, drp) = breakPoint (take limit rs); next = nat stop + (if drp then 1 else 0) in
          Inl (drop next rs, chunks @ [of_runes (take (nat stop) rs)]))
    else Inr (if rs \<noteq> [] then chunks @ [of_runes rs] else chunks))"

definition splitMessage :: "string \<Rightarrow> int \<Rightarrow> string list option" where
  "splitMessage s limit0 =
    (let limit = nat (if limit0 \<le> 0 then telegramMaxMessage else limit0); rs = runes s in
     if rs = [] then Some []
     else if length rs \<le> limit then Some [s]
     else loop (split_round limit) (rs, []))"

subsection \<open>Breaking a window\<close>

lemma lastIndexRune_cases:
  "lastIndexRune rs t = - 1 \<or> (\<exists>i. lastIndexRune rs t = int i \<and> i < length rs \<and> rs ! i = t)"
proof (cases "find (\<lambda>i. rs ! i = t) (rev [0..<length rs])")
  case (Some i)
  then show ?thesis using find_SomeD[OF Some] by (simp add: lastIndexRune_def)
qed (simp add: lastIndexRune_def)

lemma breakPoint_cases:
  assumes "breakPoint w = (stop, drp)" "w \<noteq> []"
  shows "\<exists>k. stop = int k \<and> length w div 2 \<le> k \<and> (drp \<longrightarrow> k < length w \<and> w ! k \<in> {0x0A, 0x20}) \<and>
    (\<not> drp \<longrightarrow> k = length w)"
  using assms lastIndexRune_cases[of w "0x0A"] lastIndexRune_cases[of w "0x20"]
  by (auto simp: breakPoint_def Let_def split: if_splits)

text \<open>
  One round takes a chunk off the front, and at most one separator with it. \<open>split_inv\<close> relates
  what is left to the whole: the chunks so far, with what was dropped after each.
\<close>

definition split_inv :: "nat list \<Rightarrow> nat \<Rightarrow> nat list \<times> string list \<Rightarrow> bool" where
  "split_inv whole limit = (\<lambda>(rs, chunks). list_all scalar rs \<and>
     (\<exists>pieces seps. chunks = map of_runes pieces \<and> length seps = length pieces \<and>
        whole = concat (map2 (@) pieces seps) @ rs \<and>
        list_all (\<lambda>sep. sep \<in> {[], [0x0A], [0x20]}) seps \<and>
        list_all (\<lambda>p. length p \<le> limit \<and> limit div 2 \<le> length p \<and> list_all scalar p) pieces))"

lemma split_round_next:
  assumes "split_round limit (rs, chunks) = Inl (rs', chunks')" "split_inv whole limit (rs, chunks)" "0 < limit"
  shows "split_inv whole limit (rs', chunks') \<and> length rs' < length rs"
proof -
  have long: "length rs > limit" using assms(1) by (auto simp: split_round_def split: if_splits)
  let ?w = "take limit rs"
  have w: "?w \<noteq> []" "length ?w = limit" using long assms(3) by auto
  obtain stop drp where b: "breakPoint ?w = (stop, drp)" by (cases "breakPoint ?w")
  obtain k where k: "stop = int k" "limit div 2 \<le> k" "drp \<longrightarrow> k < limit \<and> ?w ! k \<in> {0x0A, 0x20}" "\<not> drp \<longrightarrow> k = limit"
    using breakPoint_cases[OF b w(1)] w(2) by auto
  have kl: "k \<le> limit" "k < length rs" using k(3,4) long by (cases drp; simp)+
  let ?sep = "if drp then [rs ! k] else []"
  let ?next = "k + (if drp then 1 else 0)"
  have rs': "rs' = drop ?next rs" "chunks' = chunks @ [of_runes (take k rs)]"
    using assms(1) long b k(1) by (auto simp: split_round_def Let_def)
  have cut: "rs = take k rs @ ?sep @ rs'"
    using kl(2) by (auto simp: rs'(1) id_take_nth_drop[symmetric] Cons_nth_drop_Suc)
  have sep: "?sep \<in> {[], [0x0A], [0x20]}" using k(3) by auto
  obtain pieces seps where inv: "list_all scalar rs" "chunks = map of_runes pieces" "length seps = length pieces"
      "whole = concat (map2 (@) pieces seps) @ rs" "list_all (\<lambda>sep. sep \<in> {[], [0x0A], [0x20]}) seps"
      "list_all (\<lambda>p. length p \<le> limit \<and> limit div 2 \<le> length p \<and> list_all scalar p) pieces"
    using assms(2) unfolding split_inv_def prod.case by blast
  have sc: "list_all scalar (take k rs)" "list_all scalar rs'"
    using inv(1) unfolding rs'(1) by (auto simp: list_all_iff dest: in_set_takeD in_set_dropD)
  have "chunks' = map of_runes (pieces @ [take k rs])" using rs'(2) inv(2) by simp
  moreover have "length (seps @ [?sep]) = length (pieces @ [take k rs])" using inv(3) by simp
  moreover have "whole = concat (map2 (@) (pieces @ [take k rs]) (seps @ [?sep])) @ rs'"
    using inv(3,4) cut by simp
  moreover have "list_all (\<lambda>sep. sep \<in> {[], [0x0A], [0x20]}) (seps @ [?sep])" using inv(5) sep by simp
  moreover have "list_all (\<lambda>p. length p \<le> limit \<and> limit div 2 \<le> length p \<and> list_all scalar p) (pieces @ [take k rs])"
    using inv(6) kl k(2) sc(1) by simp
  ultimately have "split_inv whole limit (rs', chunks')"
    using sc(2) unfolding split_inv_def prod.case by blast
  moreover have "0 < ?next" using k(2,4) assms(3) by (cases drp) auto
  ultimately show ?thesis using rs'(1) kl(2) by auto
qed

lemma split_stops:
  assumes "split_round limit (rs, chunks) = Inr res"
  shows "length rs \<le> limit \<and> res = (if rs \<noteq> [] then chunks @ [of_runes rs] else chunks)"
  using assms by (auto simp: split_round_def Let_def split: if_splits prod.splits)

text \<open>The chunks of a split: what they are made of, and how long they are.\<close>

definition split_ok :: "string \<Rightarrow> nat \<Rightarrow> string list \<Rightarrow> bool" where
  "split_ok s limit chunks = (\<exists>pieces seps. map runes chunks = pieces \<and> length seps = length pieces \<and>
     runes s = concat (map2 (@) pieces seps) \<and>
     list_all (\<lambda>sep. sep \<in> {[], [0x0A], [0x20]}) seps \<and>
     list_all (\<lambda>p. length p \<le> limit) pieces \<and>
     list_all (\<lambda>p. limit div 2 \<le> length p) (butlast pieces) \<and>
     (valid_utf8 s \<longrightarrow> list_all valid_utf8 chunks))"

lemma split_loop:
  assumes "0 < limit" "length (runes s) > limit"
  shows "\<exists>chunks. loop (split_round limit) (runes s, []) = Some chunks \<and> split_ok s limit chunks"
proof -
  have inv0: "split_inv (runes s) limit (runes s, [])"
    unfolding split_inv_def prod.case by (intro conjI exI[of _ "[]"]) auto
  have "\<exists>chunks. loop (split_round limit) (runes s, []) = Some chunks"
  proof (rule loop_returns[where I = "split_inv (runes s) limit" and m = "\<lambda>(rs, chunks). length rs"])
    fix a a' assume "split_inv (runes s) limit a" "split_round limit a = Inl a'"
    then show "split_inv (runes s) limit a' \<and> (case a' of (rs, chunks) \<Rightarrow> length rs) < (case a of (rs, chunks) \<Rightarrow> length rs)"
      using split_round_next[of limit "fst a" "snd a" "fst a'" "snd a'" "runes s"] assms(1) by (cases a; cases a') auto
  qed (rule inv0)
  then obtain chunks where c: "loop (split_round limit) (runes s, []) = Some chunks" by blast
  obtain st where st: "split_inv (runes s) limit st" "split_round limit st = Inr chunks"
  proof -
    have "split_inv (runes s) limit a \<Longrightarrow> split_round limit a = Inl a' \<Longrightarrow> split_inv (runes s) limit a'" for a a'
      using split_round_next[of limit "fst a" "snd a" "fst a'" "snd a'" "runes s"] assms(1) by (cases a; cases a') auto
    then show thesis using loop_result[OF c, of "split_inv (runes s) limit"] inv0 that by blast
  qed
  obtain rs cs where rs: "st = (rs, cs)" by (cases st)
  obtain pieces seps where inv: "list_all scalar rs" "cs = map of_runes pieces" "length seps = length pieces"
      "runes s = concat (map2 (@) pieces seps) @ rs" "list_all (\<lambda>sep. sep \<in> {[], [0x0A], [0x20]}) seps"
      "list_all (\<lambda>p. length p \<le> limit \<and> limit div 2 \<le> length p \<and> list_all scalar p) pieces"
    using st(1) unfolding rs split_inv_def prod.case by blast
  have fin: "length rs \<le> limit" "chunks = (if rs \<noteq> [] then cs @ [of_runes rs] else cs)"
    using split_stops[OF st(2)[unfolded rs]] by auto
  let ?pieces = "if rs = [] then pieces else pieces @ [rs]" and ?seps = "if rs = [] then seps else seps @ [[]]"
  have p: "list_all (list_all scalar) ?pieces" using inv(1,6) by (auto simp: list_all_iff)
  have chunks: "chunks = map of_runes ?pieces" using fin(2) inv(2) by auto
  then have "map runes chunks = ?pieces" using p by (auto simp: list_all_iff intro!: map_idI)
  moreover have "length ?seps = length ?pieces" "runes s = concat (map2 (@) ?pieces ?seps)"
    "list_all (\<lambda>sep. sep \<in> {[], [0x0A], [0x20]}) ?seps" using inv(3,4,5) by auto
  moreover have "list_all (\<lambda>p. length p \<le> limit) ?pieces" using inv(6) fin(1) by (auto simp: list_all_iff)
  moreover have "list_all (\<lambda>p. limit div 2 \<le> length p) (butlast ?pieces)"
    using inv(6) by (auto simp: list_all_iff dest: in_set_butlastD)
  moreover have "list_all valid_utf8 chunks" using chunks by (auto simp: list_all_iff of_runes_always_valid)
  ultimately have "split_ok s limit chunks" unfolding split_ok_def by blast
  then show ?thesis using c by blast
qed

end
