(* ===== verification/XmppSchedule.thy ===== *)
theory XmppSchedule
  imports BridgeText
begin

section \<open>Scheduled prompts: metaharness/bridge/xmpp/schedule.go\<close>

text \<open>
  When the bridge starts a turn on its own. A \<open>time.Location\<close> is the function \<open>zone\<close> that
  gives the offset from UTC in force at an instant; the time zone database behind it is data. The
  civil time of an instant is the instant plus the offset, and \<open>go_date\<close> is \<open>time.Date\<close>, which
  looks the offset up twice. Instants count from the zero \<open>time.Time\<close>, a midnight.
\<close>

abbreviation minute_ns :: int where "minute_ns \<equiv> 60000000000"
abbreviation hour_ns :: int where "hour_ns \<equiv> 3600000000000"
abbreviation day_ns :: int where "day_ns \<equiv> 86400000000000"

type_synonym zone = "gotime \<Rightarrow> int"

definition civil :: "zone \<Rightarrow> gotime \<Rightarrow> int" where "civil zone t = t + zone t"

definition go_date :: "zone \<Rightarrow> int \<Rightarrow> gotime" where
  "go_date zone c = (let off = zone c in if off = 0 then c else c - zone (c - off))"

text \<open>\<open>t.AddDate(0, 0, 1)\<close>: the same wall clock on the next day.\<close>

definition add_day :: "zone \<Rightarrow> gotime \<Rightarrow> gotime" where
  "add_day zone t = go_date zone (civil zone t + day_ns)"

text \<open>\<open>time.Parse("15:04", s)\<close>: an hour of one or two digits, a minute of two, and nothing else.\<close>

definition getnum :: "string \<Rightarrow> bool \<Rightarrow> (nat \<times> string) option" where
  "getnum s fixed =
    (case s of
       [] \<Rightarrow> None
     | a # t \<Rightarrow>
        if \<not> is_digit a then None
        else case t of
          [] \<Rightarrow> if fixed then None else Some (digit_val a, t)
        | b # u \<Rightarrow>
           if \<not> is_digit b then (if fixed then None else Some (digit_val a, t))
           else Some (digit_val a * 10 + digit_val b, u))"

definition parse_time_of_day :: "string \<Rightarrow> (nat \<times> nat) option" where
  "parse_time_of_day s =
    (case getnum s False of
       None \<Rightarrow> None
     | Some (h, s1) \<Rightarrow>
        if h \<ge> 24 then None
        else case cut_prefix s1 '':'' of
          None \<Rightarrow> None
        | Some s2 \<Rightarrow>
           (case getnum s2 True of
              None \<Rightarrow> None
            | Some (m, s3) \<Rightarrow> if m \<ge> 60 \<or> s3 \<noteq> '''' then None else Some (h, m)))"

record schedule =
  sc_prompt :: string
  sc_at :: "string list"
  sc_continuing :: bool

definition Daily :: "string \<Rightarrow> string list \<Rightarrow> schedule" where
  "Daily prompt at = \<lparr>sc_prompt = prompt, sc_at = at, sc_continuing = False\<rparr>"

definition Continuing :: "schedule \<Rightarrow> schedule" where
  "Continuing s = s\<lparr>sc_continuing := True\<rparr>"

definition Times :: "schedule \<Rightarrow> string list" where "Times s = sc_at s"

definition schedule_zero :: "schedule \<Rightarrow> bool" where
  "schedule_zero s = (sc_prompt s = '''' \<and> sc_at s = [])"

definition validate :: "(string \<Rightarrow> string) \<Rightarrow> schedule \<Rightarrow> goerr option" where
  "validate quote s =
    (if schedule_zero s then None
     else if trim_space (sc_prompt s) = '''' then Some (Opaque ''xmpp: Schedule with no prompt'')
     else if sc_at s = [] then Some (Opaque ''xmpp: Schedule with no time to run at'')
     else map_option (\<lambda>at. Opaque (''xmpp: invalid Schedule time '' @ quote at @ '': want HH:MM''))
       (find (\<lambda>at. parse_time_of_day (trim_space at) = None) (sc_at s)))"

text \<open>Midnight of the civil day an instant falls on.\<close>

definition midnight :: "zone \<Rightarrow> gotime \<Rightarrow> int" where
  "midnight zone t = civil zone t div day_ns * day_ns"

definition next_slot :: "zone \<Rightarrow> gotime \<Rightarrow> gotime \<Rightarrow> string \<Rightarrow> gotime" where
  "next_slot zone now next raw =
    (case parse_time_of_day (trim_space raw) of
       None \<Rightarrow> next
     | Some (h, m) \<Rightarrow>
        (let due0 = go_date zone (midnight zone now + int h * hour_ns + int m * minute_ns);
             due = (if \<not> (due0 > now) then add_day zone due0 else due0) in
         if next = zero_time \<or> due < next then due else next))"

definition nextDue :: "zone \<Rightarrow> gotime \<Rightarrow> string list \<Rightarrow> gotime" where
  "nextDue zone now at = foldl (next_slot zone now) zero_time at"

subsection \<open>Where the offset is constant\<close>

text \<open>The times of day of a schedule, in nanoseconds after midnight.\<close>

definition slots :: "string list \<Rightarrow> int set" where
  "slots at = {int h * hour_ns + int m * minute_ns | h m raw. raw \<in> set at \<and>
     parse_time_of_day (trim_space raw) = Some (h, m)}"

lemma getnum_two: "getnum s True = Some (n, t) \<Longrightarrow> n < 100"
  by (auto simp: getnum_def is_digit_def digit_val_def split: list.splits if_splits)

lemma parsed_range: "parse_time_of_day s = Some (h, m) \<Longrightarrow> h < 24 \<and> m < 60"
  by (auto simp: parse_time_of_day_def split: option.splits if_splits)

lemma slot_range:
  assumes "parse_time_of_day s = Some (h, m)"
  shows "0 \<le> int h * hour_ns + int m * minute_ns \<and> int h * hour_ns + int m * minute_ns < day_ns"
  using parsed_range[OF assms] by linarith

lemma go_date_fixed [simp]: "go_date (\<lambda>t. z) c = c - z"
  by (simp add: go_date_def)

text \<open>What one time of day contributes: the first instant after now that shows it.\<close>

definition due_at :: "int \<Rightarrow> gotime \<Rightarrow> int \<Rightarrow> gotime" where
  "due_at z now slot = (let d = midnight (\<lambda>t. z) now + slot - z in if d > now then d else d + day_ns)"

lemma due_at_props:
  assumes "0 \<le> slot" "slot < day_ns"
  shows "now < due_at z now slot" "due_at z now slot \<le> now + day_ns"
    "(due_at z now slot + z) mod day_ns = slot"
    "now < t \<Longrightarrow> t < due_at z now slot \<Longrightarrow> (t + z) mod day_ns \<noteq> slot"
proof -
  define q where "q = (now + z) div day_ns"
  have now: "q * day_ns \<le> now + z" "now + z < q * day_ns + day_ns"
    using div_mult_mod_eq[of "now + z" day_ns] pos_mod_bound[of day_ns "now + z"] pos_mod_sign[of day_ns "now + z"]
    unfolding q_def by linarith+
  have d: "due_at z now slot = (if q * day_ns + slot - z > now then q * day_ns + slot - z else q * day_ns + slot - z + day_ns)"
    by (simp add: due_at_def midnight_def civil_def q_def Let_def)
  show "now < due_at z now slot" "due_at z now slot \<le> now + day_ns"
    using d now assms by (auto split: if_splits)
  have "(k * day_ns + slot) mod day_ns = slot" for k using assms by simp
  from this[of q] this[of "q + 1"] show "(due_at z now slot + z) mod day_ns = slot"
    unfolding d by (auto simp: algebra_simps)
  show "(t + z) mod day_ns \<noteq> slot" if "now < t" "t < due_at z now slot"
  proof
    assume e: "(t + z) mod day_ns = slot"
    define k where "k = (t + z) div day_ns"
    have t: "t = k * day_ns + slot - z" using div_mult_mod_eq[of "t + z" day_ns] e unfolding k_def by linarith
    have "q \<le> k" "k < q + 1 \<or> (k < q + 2 \<and> \<not> q * day_ns + slot - z > now)"
      using that now assms unfolding d t by (auto split: if_splits)
    then show False using that unfolding d t by (cases "k = q") (auto split: if_splits)
  qed
qed

lemma next_slot_fixed:
  "next_slot (\<lambda>t. z) now next raw =
    (case parse_time_of_day (trim_space raw) of
       None \<Rightarrow> next
     | Some (h, m) \<Rightarrow>
        (let due = due_at z now (int h * hour_ns + int m * minute_ns) in
         if next = 0 \<or> due < next then due else next))"
  by (auto simp: next_slot_def due_at_def add_day_def civil_def Let_def algebra_simps split: option.split)

lemma nextDue_fixed:
  assumes "now > 0"
  shows "(slots at = {} \<longrightarrow> nextDue (\<lambda>t. z) now at = 0) \<and>
    (slots at \<noteq> {} \<longrightarrow> nextDue (\<lambda>t. z) now at \<in> due_at z now ` slots at \<and>
       (\<forall>s \<in> slots at. nextDue (\<lambda>t. z) now at \<le> due_at z now s))"
proof (induction at rule: rev_induct)
  case Nil
  then show ?case by (simp add: slots_def nextDue_def)
next
  case (snoc raw at)
  have n: "nextDue (\<lambda>t. z) now (at @ [raw]) = next_slot (\<lambda>t. z) now (nextDue (\<lambda>t. z) now at) raw"
    by (simp add: nextDue_def)
  show ?case
  proof (cases "parse_time_of_day (trim_space raw)")
    case None
    then have "slots (at @ [raw]) = slots at" by (auto simp: slots_def)
    then show ?thesis using snoc n None by (simp add: next_slot_fixed)
  next
    case (Some hm)
    obtain h m where hm: "hm = (h, m)" by (cases hm)
    let ?s = "int h * hour_ns + int m * minute_ns"
    have s: "slots (at @ [raw]) = insert ?s (slots at)"
      using Some hm by (auto simp: slots_def)
    have pos: "s \<in> slots at \<Longrightarrow> 0 < due_at z now s" for s
    proof -
      assume "s \<in> slots at"
      then have "0 \<le> s \<and> s < day_ns" using slot_range by (auto simp: slots_def)
      then show "0 < due_at z now s" using due_at_props(1)[of s now z] assms by linarith
    qed
    have r: "nextDue (\<lambda>t. z) now (at @ [raw]) =
        (let d = due_at z now ?s; n = nextDue (\<lambda>t. z) now at in if n = 0 \<or> d < n then d else n)"
      using n Some hm by (simp add: next_slot_fixed Let_def)
    show ?thesis
    proof (cases "slots at = {}")
      case True
      then show ?thesis using snoc r s by (simp add: Let_def)
    next
      case False
      then have "nextDue (\<lambda>t. z) now at \<noteq> 0" using snoc pos by force
      then show ?thesis using False snoc r s by (auto simp: Let_def)
    qed
  qed
qed

end
