(* ===== verification/XmppBridge.thy ===== *)
theory XmppBridge
  imports XmppSchedule
begin

section \<open>The XMPP bridge: metaharness/bridge/xmpp/bridge.go\<close>

text \<open>
  One agent, one current session, one turn at a time. What the agent is wired to acts on a world
  \<open>'w\<close>; the chat (sending a stanza, the clock, fresh ids) acts on a world \<open>'x\<close> of its own, since
  neither looks at the other. A \<open>jid.JID\<close> is a \<open>'j\<close> read through the functions of \<open>jids\<close>, those of
  the XMPP library. A turn's result is None when the agent's loop never ends. Logging is left out.
\<close>

subsection \<open>Configuration\<close>

record 'j jids =
  j_Parse :: "string \<Rightarrow> 'j res"
  j_Bare :: "'j \<Rightarrow> 'j"
  j_Local :: "'j \<Rightarrow> string"
  j_Domain :: "'j \<Rightarrow> string"
  j_String :: "'j \<Rightarrow> string"

record ('b, 'w) config =
  cf_Username :: string
  cf_Password :: string
  cf_Agent :: "('b, 'w) agent option"
  cf_Sandboxes :: "(string \<Rightarrow> 'w \<Rightarrow> 'w \<times> 'b res) option"
  cf_SandboxName :: string
  cf_Model :: string
  cf_AllowedJIDs :: "string list"
  cf_ShowThinking :: bool
  cf_Schedule :: schedule

definition maxOfflineAge :: int where "maxOfflineAge = 12 * hour_ns"
definition defaultCorrectionGap :: int where "defaultCorrectionGap = 700000000"

definition needs_user :: goerr where "needs_user = Opaque ''a user and domain are required''"

text \<open>A full address with a user and a domain.\<close>

definition user_jid :: "'j jids \<Rightarrow> string \<Rightarrow> 'j res" where
  "user_jid J s =
    (case j_Parse J s of
       Inl e \<Rightarrow> Inl e
     | Inr j \<Rightarrow> if j_Local J j = '''' \<or> j_Domain J j = '''' then Inl needs_user else Inr j)"

fun allow_each ::
  "'j jids \<Rightarrow> (string \<Rightarrow> string) \<Rightarrow> string list \<Rightarrow> string list \<Rightarrow> 'j list \<Rightarrow> 'j list res" where
  "allow_each J quote [] seen allowed = Inr allowed"
| "allow_each J quote (raw0 # rest) seen allowed =
    (let raw = trim_space raw0 in
     case user_jid J raw of
       Inl e \<Rightarrow> Inl (Wrap (''xmpp: invalid allowed JID '' @ quote raw @ '': '') e '''')
     | Inr j \<Rightarrow>
        (let bare = j_Bare J j in
         if j_String J bare \<in> set seen then allow_each J quote rest seen allowed
         else allow_each J quote rest (j_String J bare # seen) (allowed @ [bare])))"

definition config_validate ::
  "'j jids \<Rightarrow> (string \<Rightarrow> string) \<Rightarrow> ('b, 'w) config \<Rightarrow> ('j \<times> 'j list) res" where
  "config_validate J quote c =
    (let username = trim_space (cf_Username c) in
     if username = '''' then Inl (Opaque ''xmpp: empty Username'')
     else case user_jid J username of
       Inl e \<Rightarrow> Inl (Wrap (''xmpp: invalid Username '' @ quote username @ '': '') e '''')
     | Inr account \<Rightarrow>
        if cf_Password c = '''' then Inl (Opaque ''xmpp: empty Password'')
        else case (cf_Agent c, cf_Sandboxes c) of
          (None, _) \<Rightarrow> Inl (Opaque ''xmpp: nil Agent'')
        | (_, None) \<Rightarrow> Inl (Opaque ''xmpp: nil Sandboxes: nowhere to open the sandbox to work in'')
        | _ \<Rightarrow>
          if trim_space (cf_SandboxName c) = '''' then Inl (Opaque ''xmpp: empty SandboxName'')
          else if trim_space (cf_Model c) = '''' then Inl (Opaque ''xmpp: empty Model'')
          else if cf_AllowedJIDs c = [] then Inl (Opaque ''xmpp: at least one allowed JID required'')
          else case validate quote (cf_Schedule c) of
            Some e \<Rightarrow> Inl e
          | None \<Rightarrow>
             (case allow_each J quote (cf_AllowedJIDs c) [] [] of
                Inl e \<Rightarrow> Inl e
              | Inr allowed \<Rightarrow> Inr (account, allowed)))"

subsection \<open>Presence and messages\<close>

datatype presence_type = Available | Subscribe | Subscribed | Unsubscribed | OtherPresence string

record 'j presence =
  pr_ID :: string
  pr_From :: "'j option"
  pr_To :: "'j option"
  pr_Type :: presence_type
  pr_Status :: string

definition availablePresence :: "string \<Rightarrow> 'j presence" where
  "availablePresence i = \<lparr>pr_ID = i, pr_From = None, pr_To = None, pr_Type = Available,
     pr_Status = ''on duty '' @ encode_rune 0x2014 @ '' send me a message''\<rparr>"

text \<open>\<open>from\<close> is the sender of the presence and \<open>i\<close> the answer's fresh id.\<close>

definition presenceReply :: "'j jids \<Rightarrow> string list \<Rightarrow> string \<Rightarrow> 'j \<Rightarrow> presence_type \<Rightarrow> 'j presence option" where
  "presenceReply J allowed i from_jid typ =
    (if typ \<noteq> Subscribe then None
     else
       (let bare = j_Bare J from_jid in
        Some \<lparr>pr_ID = i, pr_From = None, pr_To = Some bare,
          pr_Type = (if j_String J bare \<in> set allowed then Subscribed else Unsubscribed), pr_Status = ''''\<rparr>))"

datatype message_type = ChatMessage | OtherMessage string

record 'j body =
  mb_From :: 'j
  mb_Type :: message_type
  mb_Body :: string
  mb_Replace :: "string option"
  mb_Delay :: "gotime option"

definition NSClient :: string where "NSClient = ''jabber:client''"

text \<open>
  \<open>decoded\<close> is what the decoder makes of the stanza; the end of input is no error of it.
  \<open>Inr None\<close>: not a message to act on.
\<close>

definition decodeMessage :: "string \<Rightarrow> string \<Rightarrow> 'j body res \<Rightarrow> gotime \<Rightarrow> 'j body option res" where
  "decodeMessage local space decoded now =
    (if local \<noteq> ''message'' \<or> (space \<noteq> '''' \<and> space \<noteq> NSClient) then Inr None
     else case decoded of
       Inl e \<Rightarrow> Inl e
     | Inr msg \<Rightarrow>
        if mb_Type msg \<noteq> ChatMessage \<or> mb_Body msg = '''' \<or> mb_Replace msg \<noteq> None then Inr None
        else case mb_Delay msg of
          Some stamp \<Rightarrow> if now - stamp > maxOfflineAge then Inr None else Inr (Some msg)
        | None \<Rightarrow> Inr (Some msg))"

definition decodePresence :: "string \<Rightarrow> string \<Rightarrow> ('j \<times> presence_type) res \<Rightarrow> ('j \<times> presence_type) option" where
  "decodePresence local space parsed =
    (if local \<noteq> ''presence'' \<or> (space \<noteq> '''' \<and> space \<noteq> NSClient) then None
     else case parsed of Inl e \<Rightarrow> None | Inr p \<Rightarrow> Some p)"

subsection \<open>The message queue\<close>

record 'm queue =
  qu_items :: "'m list"
  qu_ready :: bool

definition newMessageQueue :: "'m queue" where "newMessageQueue = \<lparr>qu_items = [], qu_ready = False\<rparr>"

text \<open>The non-blocking send on a channel of one.\<close>

definition signal :: "'m queue \<Rightarrow> 'm queue" where "signal q = q\<lparr>qu_ready := True\<rparr>"

text \<open>Under the lock; the signal comes after it.\<close>

definition push_item :: "'m \<Rightarrow> 'm queue \<Rightarrow> 'm queue" where
  "push_item m q = q\<lparr>qu_items := qu_items q @ [m]\<rparr>"

definition push :: "'m \<Rightarrow> 'm queue \<Rightarrow> 'm queue" where "push m q = signal (push_item m q)"

definition pop :: "'m queue \<Rightarrow> 'm queue \<times> 'm option" where
  "pop q =
    (case qu_items q of
       [] \<Rightarrow> (q, None)
     | m # rest \<Rightarrow>
        (let q1 = q\<lparr>qu_items := rest\<rparr> in (if rest \<noteq> [] then signal q1 else q1, Some m)))"

text \<open>What the handler of incoming stanzas does: answer a presence, queue a message, or nothing.\<close>

datatype ('j, 'm) handled = Reply "'j presence" | Queued "'m queue" | Ignored

definition incomingHandler ::
  "'j jids \<Rightarrow> string list \<Rightarrow> bool \<Rightarrow> gotime \<Rightarrow> string \<Rightarrow> string \<Rightarrow> string \<Rightarrow> ('j \<times> presence_type) res \<Rightarrow>
   'j body res \<Rightarrow> 'j body queue \<Rightarrow> ('j, 'j body) handled" where
  "incomingHandler J allowed cancelled now i local space parsed decoded q =
    (case decodePresence local space parsed of
       Some (from_jid, typ) \<Rightarrow>
         (case presenceReply J allowed i from_jid typ of None \<Rightarrow> Ignored | Some p \<Rightarrow> Reply p)
     | None \<Rightarrow>
        (case decodeMessage local space decoded now of
           Inl e \<Rightarrow> Ignored
         | Inr None \<Rightarrow> Ignored
         | Inr (Some msg) \<Rightarrow> if cancelled then Ignored else Queued (push msg q)))"

subsection \<open>The bridge\<close>

text \<open>What a bridge is wired to, and what changes.\<close>

record ('b, 'w, 'j, 'x) bridge =
  br_agent :: "('b, 'w) agent"
  br_boxes :: "string \<Rightarrow> 'w \<Rightarrow> 'w \<times> 'b res"
  br_ops :: "('b, 'w) sandbox_ops"
  br_sandboxName :: string
  br_modelID :: string
  br_sessions :: "(('b, 'w) store \<times> (string \<Rightarrow> 'w \<Rightarrow> 'w \<times> 'b res)) option"
  br_allowed :: "string list"
  br_allowedJIDs :: "'j list"
  br_showThinking :: bool
  br_schedule :: schedule
  br_correctionGap :: int
  br_jids :: "'j jids"
  br_quote :: "string \<Rightarrow> string"
  br_parse :: "string \<Rightarrow> json_object option"
  br_ctx :: "'w \<Rightarrow> goerr option"
  br_SendText :: "'j \<Rightarrow> string \<Rightarrow> string \<Rightarrow> 'x \<Rightarrow> 'x \<times> string res"
  br_now :: "'x \<Rightarrow> gotime"
  br_newSessionID :: "'x \<Rightarrow> 'x \<times> string"

record ('b, 'w, 'x) state =
  st_current :: "'b session"
  st_w :: 'w
  st_x :: 'x

definition startSession ::
  "('b, 'w, 'j, 'x) bridge \<Rightarrow> 'w \<Rightarrow> 'x \<Rightarrow> 'w \<times> 'x \<times> 'b session res" where
  "startSession b w x =
    (case br_boxes b (br_sandboxName b) w of
       (w1, Inl e) \<Rightarrow> (w1, x, Inl e)
     | (w1, Inr box) \<Rightarrow>
        (let (x1, i) = br_newSessionID b x in
         (w1, x1, Inr (NewSession (br_ops b) i (br_modelID b) (Some box) w1))))"

text \<open>\<open>env\<close> holds what the bridge gets from outside its configuration.\<close>

definition newBridge ::
  "('b, 'w, 'j, 'x) bridge \<Rightarrow> ('b, 'w) config \<Rightarrow> 'w \<Rightarrow> 'x \<Rightarrow> (('b, 'w, 'j, 'x) bridge \<times> ('b, 'w, 'x) state) res" where
  "newBridge env c w x =
    (case config_validate (br_jids env) (br_quote env) c of
       Inl e \<Rightarrow> Inl e
     | Inr (account, allowed) \<Rightarrow>
        (case (cf_Agent c, cf_Sandboxes c) of
           (Some a, Some boxes) \<Rightarrow>
            (let b = env\<lparr>br_agent := a, br_boxes := boxes, br_sandboxName := cf_SandboxName c,
                   br_modelID := cf_Model c, br_sessions := Sessions a (Some boxes),
                   br_allowed := map (j_String (br_jids env)) allowed, br_allowedJIDs := allowed,
                   br_showThinking := cf_ShowThinking c, br_schedule := cf_Schedule c,
                   br_correctionGap := defaultCorrectionGap\<rparr> in
             case startSession b w x of
               (w1, x1, Inl e) \<Rightarrow> Inl (Wrap ''xmpp: starting the first session: '' e '''')
             | (w1, x1, Inr s) \<Rightarrow> Inr (b, \<lparr>st_current = s, st_w = w1, st_x = x1\<rparr>))
         | _ \<Rightarrow> Inl (Opaque ''unreachable'')))"

definition bridge_send :: "('b, 'w, 'j, 'x) bridge \<Rightarrow> 'j \<Rightarrow> string \<Rightarrow> 'x \<Rightarrow> 'x" where
  "bridge_send b to text x = fst (br_SendText b to text '''' x)"

fun sendAll :: "('b, 'w, 'j, 'x) bridge \<Rightarrow> 'j list \<Rightarrow> string \<Rightarrow> 'x \<Rightarrow> 'x" where
  "sendAll b [] text x = x"
| "sendAll b (j # js) text x = sendAll b js text (bridge_send b j text x)"

definition say :: "('b, 'w, 'j, 'x) bridge \<Rightarrow> 'j \<Rightarrow> string \<Rightarrow> ('b, 'w, 'x) state \<Rightarrow> ('b, 'w, 'x) state" where
  "say b to text st = st\<lparr>st_x := bridge_send b to text (st_x st)\<rparr>"

definition closeCurrent :: "('b, 'w, 'j, 'x) bridge \<Rightarrow> ('b, 'w, 'x) state \<Rightarrow> ('b, 'w, 'x) state" where
  "closeCurrent b st =
    (let (s, w, r) = session_Close (br_ops b) (st_current st) (st_w st) in st\<lparr>st_current := s, st_w := w\<rparr>)"

text \<open>Closing the current session and putting another in its place.\<close>

definition replace_current :: "('b, 'w, 'j, 'x) bridge \<Rightarrow> 'b session \<Rightarrow> ('b, 'w, 'x) state \<Rightarrow> ('b, 'w, 'x) state" where
  "replace_current b next st = (closeCurrent b st)\<lparr>st_current := next\<rparr>"

subsection \<open>The progress message\<close>

record 'j status_message =
  sm_to :: 'j
  sm_minGap :: int
  sm_id :: string
  sm_lines :: "string list"
  sm_shown :: string
  sm_lastAt :: gotime

definition newStatus :: "('b, 'w, 'j, 'x) bridge \<Rightarrow> 'j \<Rightarrow> 'j status_message" where
  "newStatus b to = \<lparr>sm_to = to, sm_minGap = br_correctionGap b, sm_id = '''', sm_lines = [], sm_shown = '''',
     sm_lastAt = zero_time\<rparr>"

text \<open>None is the nil status of a turn nobody is watching.\<close>

type_synonym ('j, 'x) watched = "'j status_message option \<times> 'x"

definition status_start :: "('b, 'w, 'j, 'x) bridge \<Rightarrow> ('j, 'x) watched \<Rightarrow> ('j, 'x) watched" where
  "status_start b = (\<lambda>(s, x).
    (case s of
       None \<Rightarrow> (None, x)
     | Some s \<Rightarrow>
        (let (x1, r) = br_SendText b (sm_to s) ellipsis '''' x;
             s1 = (case r of Inl e \<Rightarrow> s | Inr i \<Rightarrow> s\<lparr>sm_id := i\<rparr>) in
         (Some (s1\<lparr>sm_lastAt := br_now b x1\<rparr>), x1))))"

definition status_flush :: "('b, 'w, 'j, 'x) bridge \<Rightarrow> bool \<Rightarrow> ('j, 'x) watched \<Rightarrow> ('j, 'x) watched" where
  "status_flush b force = (\<lambda>(s, x).
    (case s of
       None \<Rightarrow> (None, x)
     | Some s \<Rightarrow>
        if sm_lines s = [] then (Some s, x)
        else if \<not> force \<and> br_now b x - sm_lastAt s < sm_minGap s then (Some s, x)
        else
          (let text = join nl (sm_lines s) in
           if text = sm_shown s then (Some s, x)
           else
             (let (x1, r) = br_SendText b (sm_to s) text (sm_id s) x;
                  s1 = (case r of Inl e \<Rightarrow> s | Inr i \<Rightarrow> if sm_id s = '''' then s\<lparr>sm_id := i\<rparr> else s) in
              (Some (s1\<lparr>sm_shown := text, sm_lastAt := br_now b x1\<rparr>), x1)))))"

definition status_append :: "('b, 'w, 'j, 'x) bridge \<Rightarrow> string \<Rightarrow> ('j, 'x) watched \<Rightarrow> ('j, 'x) watched" where
  "status_append b line = (\<lambda>(s, x).
    (case s of
       None \<Rightarrow> (None, x)
     | Some s \<Rightarrow> status_flush b False (Some (s\<lparr>sm_lines := sm_lines s @ [line]\<rparr>), x)))"

subsection \<open>A turn\<close>

text \<open>Reading the events: the progress, the answer of the last Done, the error of the last Error.\<close>

fun watch :: "('b, 'w, 'j, 'x) bridge \<Rightarrow> event list \<Rightarrow> string \<times> goerr option \<Rightarrow> ('j, 'x) watched \<Rightarrow>
    (string \<times> goerr option) \<times> ('j, 'x) watched" where
  "watch b [] outcome s = (outcome, s)"
| "watch b (ev # evs) outcome s =
    (let s1 = (case stepLine (br_parse b) ev (br_showThinking b) of None \<Rightarrow> s | Some line \<Rightarrow> status_append b line s);
         outcome1 = (case ev of
             EventDone m \<Rightarrow> (finalText (Some m), snd outcome)
           | EventError e \<Rightarrow> (fst outcome, Some e)
           | _ \<Rightarrow> outcome) in
     watch b evs outcome1 s1)"

definition turn_answer :: "string \<times> goerr option \<Rightarrow> bool \<Rightarrow> string option" where
  "turn_answer outcome watched =
    (case snd outcome of
       Some e \<Rightarrow> Some (''Sorry, that turn failed: '' @ err_text e)
     | None \<Rightarrow>
        if fst outcome = ''''
        then (if watched then Some ''(the agent finished without any text to show)'' else None)
        else Some (fst outcome))"

definition runTurn ::
  "('b, 'w, 'j, 'x) bridge \<Rightarrow> string \<Rightarrow> 'j list \<Rightarrow> 'j status_message option \<Rightarrow>
   ('b, 'w, 'x) state \<Rightarrow> ('b, 'w, 'x) state option" where
  "runTurn b text to status st =
    (let sess = (append_msg (NewUserMessage text) (st_current st))\<lparr>ss_Status := StatusActive\<rparr>;
         w0 = status_start b (status, st_x st) in
     case Run (br_ctx b) (br_agent b) (Some sess) (st_w st) of
       Inl e \<Rightarrow>
        (let (s, x) = status_flush b True (status_append b (cross_mark @ clipped (oneLine (err_text e)) 120) w0) in
         Some (st\<lparr>st_current := sess,
           st_x := sendAll b to (''Sorry, I couldn'' @ [CHR 0x27] @ ''t start that turn: '' @ err_text e) x\<rparr>))
     | Inr None \<Rightarrow> None
     | Inr (Some (sess', evs, w')) \<Rightarrow>
        (let (outcome, s1) = watch b evs ('''', None) w0; (s2, x2) = status_flush b True s1 in
         Some (st\<lparr>st_current := sess', st_w := w',
           st_x := (case turn_answer outcome (status \<noteq> None) of None \<Rightarrow> x2 | Some t \<Rightarrow> sendAll b to t x2)\<rparr>)))"

definition handlePrompt :: "('b, 'w, 'j, 'x) bridge \<Rightarrow> 'j \<Rightarrow> string \<Rightarrow> ('b, 'w, 'x) state \<Rightarrow> ('b, 'w, 'x) state option" where
  "handlePrompt b to text st = runTurn b text [to] (Some (newStatus b to)) st"

definition runScheduled :: "('b, 'w, 'j, 'x) bridge \<Rightarrow> ('b, 'w, 'x) state \<Rightarrow> ('b, 'w, 'x) state option" where
  "runScheduled b st =
    (if \<not> sc_continuing (br_schedule b)
     then (case startSession b (st_w st) (st_x st) of
         (w1, x1, Inl e) \<Rightarrow> Some (st\<lparr>st_w := w1, st_x := x1\<rparr>)
       | (w1, x1, Inr next) \<Rightarrow>
           runTurn b (sc_prompt (br_schedule b)) (br_allowedJIDs b) None
             (replace_current b next (st\<lparr>st_w := w1, st_x := x1\<rparr>)))
     else runTurn b (sc_prompt (br_schedule b)) (br_allowedJIDs b) None st)"

subsection \<open>Commands\<close>

definition splitCommand :: "string \<Rightarrow> string \<times> string" where
  "splitCommand text =
    (case cut (trim_space text) '' '' of
       Some (cmd, arg) \<Rightarrow> (cmd, trim_space arg)
     | None \<Rightarrow> (trim_space text, ''''))"

definition sessionListLimit :: int where "sessionListLimit = 10"

abbreviation (input) dash :: string where "dash \<equiv> encode_rune 0x2014"

definition apostrophe :: string where "apostrophe = [CHR 0x27]"

definition helpText :: "('b, 'w, 'j, 'x) bridge \<Rightarrow> string" where
  "helpText b =
     ''I run a Meta Harness agent. Just send a message to give it a task.'' @ nl @ nl @ ''Commands:'' @ nl @
     ''/new, /clear '' @ dash @ '' discard the current context and start a fresh task'' @ nl @
     ''/status '' @ dash @ '' show the current session id, model, message count, and token usage'' @ nl @
     (if br_sessions b \<noteq> None then
        ''/sessions '' @ dash @ '' list the sessions that can be resumed'' @ nl @
        ''/resume <id> '' @ dash @ '' continue a stored session where it left off'' @ nl
      else '''') @
     ''/help, /start '' @ dash @ '' show this help'' @
     (if \<not> schedule_zero (br_schedule b) then
        nl @ nl @ ''I also start a turn on my own at '' @ join '' and '' (sc_at (br_schedule b)) @
        '', and send what comes of it here.''
      else '''')"

definition status_text :: "'b session \<Rightarrow> string" where
  "status_text s =
     ''session '' @ ss_ID s @ nl @ ''sandbox '' @ SandboxName s @ nl @ ''model '' @ ss_Model s @ nl @
     ''messages '' @ itoa (int (length (ss_Messages s))) @ nl @
     ''tokens: '' @ itoa (InputTokens (ss_Usage s)) @ '' in / '' @ itoa (OutputTokens (ss_Usage s)) @ '' out''"

definition session_line :: "string \<Rightarrow> session_info \<Rightarrow> string" where
  "session_line current info =
     nl @ si_ID info @ '' '' @ dash @ '' '' @ itoa (si_Messages info) @ '' messages, '' @
     itoa (InputTokens (si_Usage info)) @ '' tokens in / '' @ itoa (OutputTokens (si_Usage info)) @ '' out'' @
     (if si_ID info = current then '' (current)'' else '''')"

definition sessions_text :: "string \<Rightarrow> session_info list \<Rightarrow> string" where
  "sessions_text current infos =
     ''Sessions, most recent first:'' @ nl @ concat (map (session_line current) infos) @ nl @ nl @
     ''Send /resume <id> to continue one.''"

definition listSessions :: "('b, 'w, 'j, 'x) bridge \<Rightarrow> 'j \<Rightarrow> ('b, 'w, 'x) state \<Rightarrow> ('b, 'w, 'x) state" where
  "listSessions b to st =
    (case br_sessions b of
       None \<Rightarrow> say b to ''This bridge keeps no session history.'' st
     | Some (store, boxes) \<Rightarrow>
        (case Sessions_List store sessionListLimit (st_w st) of
           None \<Rightarrow> st
         | Some (w1, Inl e) \<Rightarrow>
             say b to (''Sorry, I couldn'' @ apostrophe @ ''t list the sessions: '' @ err_text e) (st\<lparr>st_w := w1\<rparr>)
         | Some (w1, Inr infos) \<Rightarrow>
             if infos = [] then say b to ''No stored sessions yet.'' (st\<lparr>st_w := w1\<rparr>)
             else say b to (sessions_text (ss_ID (st_current st)) infos) (st\<lparr>st_w := w1\<rparr>)))"

definition resumeSession :: "('b, 'w, 'j, 'x) bridge \<Rightarrow> 'j \<Rightarrow> string \<Rightarrow> ('b, 'w, 'x) state \<Rightarrow> ('b, 'w, 'x) state" where
  "resumeSession b to i st =
    (case br_sessions b of
       None \<Rightarrow> say b to ''This bridge cannot resume sessions.'' st
     | Some (store, boxes) \<Rightarrow>
        if i = '''' then say b to ''Usage: /resume <session id>'' st
        else if i = ss_ID (st_current st) then say b to ''That session is already the current one.'' st
        else case Resume (br_quote b) store (br_ops b) boxes i (st_w st) of
          (w1, Inl e) \<Rightarrow>
            (let st1 = st\<lparr>st_w := w1\<rparr> in
             if err_is e ErrNotFound then say b to (''I have no session called '' @ br_quote b i @ ''.'') st1
             else say b to (''Sorry, I couldn'' @ apostrophe @ ''t resume '' @ br_quote b i @ '': '' @ err_text e) st1)
        | (w1, Inr next) \<Rightarrow>
            say b to (''Resumed '' @ ss_ID next @ '': '' @ itoa (int (length (ss_Messages next))) @
                '' messages, working in '' @ SandboxName next @ ''.'')
              (replace_current b next (st\<lparr>st_w := w1\<rparr>)))"

definition handleCommand ::
  "('b, 'w, 'j, 'x) bridge \<Rightarrow> 'j \<Rightarrow> string \<Rightarrow> string \<Rightarrow> ('b, 'w, 'x) state \<Rightarrow> ('b, 'w, 'x) state" where
  "handleCommand b to cmd arg st =
    (if cmd = ''/new'' \<or> cmd = ''/clear'' then
       (case startSession b (st_w st) (st_x st) of
          (w1, x1, Inl e) \<Rightarrow>
            say b to (''Sorry, I couldn'' @ apostrophe @ ''t start a fresh session: '' @ err_text e) (st\<lparr>st_w := w1, st_x := x1\<rparr>)
        | (w1, x1, Inr next) \<Rightarrow>
            say b to (''Started a fresh session: '' @ ss_ID next) (replace_current b next (st\<lparr>st_w := w1, st_x := x1\<rparr>)))
     else if cmd = ''/status'' then say b to (status_text (st_current st)) st
     else if cmd = ''/sessions'' then listSessions b to st
     else if cmd = ''/resume'' then resumeSession b to arg st
     else if cmd = ''/help'' \<or> cmd = ''/start'' then say b to (helpText b) st
     else say b to (''Unknown command.'' @ nl @ nl @ helpText b) st)"

definition handleMessage :: "('b, 'w, 'j, 'x) bridge \<Rightarrow> 'j body \<Rightarrow> ('b, 'w, 'x) state \<Rightarrow> ('b, 'w, 'x) state option" where
  "handleMessage b msg st =
    (let from_jid = j_Bare (br_jids b) (mb_From msg) in
     if j_Local (br_jids b) from_jid = '''' \<or> j_String (br_jids b) from_jid \<notin> set (br_allowed b) then Some st
     else if has_prefix (mb_Body msg) ''/''
     then (let (cmd, arg) = splitCommand (mb_Body msg) in Some (handleCommand b from_jid cmd arg st))
     else handlePrompt b from_jid (mb_Body msg) st)"

subsection \<open>The loop\<close>

text \<open>
  One round arms a timer for the next slot and waits for whichever of four things comes first; what
  can come is in the state when it does, so \<open>serve_round\<close> is given the choice and answers None when
  that case cannot be taken. The clock is the chat's: \<open>fired\<close> is the instant the timer's case is
  taken at, and the timer cannot fire before it is due.
\<close>

datatype select = Cancelled goerr | StreamEnded "goerr option" | Incoming | Due gotime

datatype ('s, 'r) round = Next 's | Return 'r | Hangs

definition armed :: "zone \<Rightarrow> ('b, 'w, 'j, 'x) bridge \<Rightarrow> 'x \<Rightarrow> gotime option" where
  "armed zone b x =
    (if schedule_zero (br_schedule b) then None
     else (let next = nextDue zone (br_now b x) (sc_at (br_schedule b)) in
           if next = zero_time then None else Some next))"

type_synonym ('b, 'w, 'j, 'x) serving = "('b, 'w, 'x) state \<times> 'j body queue"

definition serve_round ::
  "zone \<Rightarrow> ('b, 'w, 'j, 'x) bridge \<Rightarrow> select \<Rightarrow> ('b, 'w, 'j, 'x) serving \<Rightarrow>
   (('b, 'w, 'j, 'x) serving, goerr) round option" where
  "serve_round zone b choice = (\<lambda>(st, q).
    (case choice of
       Cancelled e \<Rightarrow> Some (Return e)
     | StreamEnded r \<Rightarrow>
        Some (Return (case br_ctx b (st_w st) of
            Some e \<Rightarrow> e
          | None \<Rightarrow> (case r of None \<Rightarrow> Opaque ''xmpp: stream closed'' | Some e \<Rightarrow> Wrap ''xmpp: serving stream: '' e '''')))
     | Incoming \<Rightarrow>
        if \<not> qu_ready q then None
        else (let (q1, m) = pop (q\<lparr>qu_ready := False\<rparr>) in
          (case m of
             None \<Rightarrow> Some (Next (st, q1))
           | Some msg \<Rightarrow> (case handleMessage b msg st of None \<Rightarrow> Some Hangs | Some st1 \<Rightarrow> Some (Next (st1, q1)))))
     | Due fired \<Rightarrow>
        (case armed zone b (st_x st) of
           None \<Rightarrow> None
         | Some t \<Rightarrow> if fired < t then None
             else (case runScheduled b st of None \<Rightarrow> Some Hangs | Some st1 \<Rightarrow> Some (Next (st1, q))))))"

end
