(* ===== verification/TelegramBot.thy ===== *)
theory TelegramBot
  imports XmppBridge
begin

section \<open>The Telegram bridge: metaharness/bridge/telegram/bot.go\<close>

text \<open>
  The same conversation over Telegram: numeric users, private chats, one edited progress message
  and answers split to Telegram's limit. The client library is the two calls \<open>SendMessage\<close> and
  \<open>EditMessageText\<close> on the chat's world \<open>'x\<close>; the typing indicator and logging change nothing
  the bridge reads and are left out. The replies to commands that read the same on both bridges
  (\<open>status_text\<close>, \<open>sessions_text\<close>) are the definitions of the XMPP bridge.
\<close>

record ('b, 'w) tg_config =
  tc_Token :: string
  tc_Agent :: "('b, 'w) agent option"
  tc_Sandboxes :: "(string \<Rightarrow> 'w \<Rightarrow> 'w \<times> 'b res) option"
  tc_SandboxName :: string
  tc_Model :: string
  tc_AllowedUsers :: "int list"
  tc_ShowThinking :: bool

definition tg_validate :: "('b, 'w) tg_config \<Rightarrow> goerr option" where
  "tg_validate c =
    (if trim_space (tc_Token c) = '''' then Some (Opaque ''telegram: empty token'')
     else if tc_Agent c = None then Some (Opaque ''telegram: nil Agent'')
     else if tc_Sandboxes c = None then Some (Opaque ''telegram: nil Sandboxes: nowhere to open the sandbox to work in'')
     else if trim_space (tc_SandboxName c) = '''' then Some (Opaque ''telegram: empty SandboxName'')
     else if trim_space (tc_Model c) = '''' then Some (Opaque ''telegram: empty Model'')
     else if tc_AllowedUsers c = [] then Some (Opaque ''telegram: at least one allowed user required'')
     else None)"

definition defaultEditGap :: int where "defaultEditGap = 700000000"

text \<open>A sent message comes back with its id, or as nil.\<close>

record ('b, 'w, 'x) bot =
  pb_agent :: "('b, 'w) agent"
  pb_boxes :: "string \<Rightarrow> 'w \<Rightarrow> 'w \<times> 'b res"
  pb_ops :: "('b, 'w) sandbox_ops"
  pb_sandboxName :: string
  pb_modelID :: string
  pb_sessions :: "(('b, 'w) store \<times> (string \<Rightarrow> 'w \<Rightarrow> 'w \<times> 'b res)) option"
  pb_allowed :: "int list"
  pb_showThinking :: bool
  pb_editGap :: int
  pb_quote :: "string \<Rightarrow> string"
  pb_parse :: "string \<Rightarrow> json_object option"
  pb_ctx :: "'w \<Rightarrow> goerr option"
  pb_SendMessage :: "int \<Rightarrow> string \<Rightarrow> 'x \<Rightarrow> 'x \<times> int option res"
  pb_EditMessageText :: "int \<Rightarrow> int \<Rightarrow> string \<Rightarrow> 'x \<Rightarrow> 'x \<times> goerr option"
  pb_now :: "'x \<Rightarrow> gotime"
  pb_newSessionID :: "'x \<Rightarrow> 'x \<times> string"

definition tg_startSession ::
  "('b, 'w, 'x) bot \<Rightarrow> 'w \<Rightarrow> 'x \<Rightarrow> 'w \<times> 'x \<times> 'b session res" where
  "tg_startSession b w x =
    (case pb_boxes b (pb_sandboxName b) w of
       (w1, Inl e) \<Rightarrow> (w1, x, Inl e)
     | (w1, Inr box) \<Rightarrow>
        (let (x1, i) = pb_newSessionID b x in
         (w1, x1, Inr (NewSession (pb_ops b) i (pb_modelID b) (Some box) w1))))"

definition tg_newBridge ::
  "('b, 'w, 'x) bot \<Rightarrow> ('b, 'w) tg_config \<Rightarrow> 'w \<Rightarrow> 'x \<Rightarrow> (('b, 'w, 'x) bot \<times> ('b, 'w, 'x) state) res" where
  "tg_newBridge env c w x =
    (case tg_validate c of
       Some e \<Rightarrow> Inl e
     | None \<Rightarrow>
        (let a = the (tc_Agent c); boxes = the (tc_Sandboxes c);
             b = env\<lparr>pb_agent := a, pb_boxes := boxes, pb_sandboxName := tc_SandboxName c,
               pb_modelID := tc_Model c, pb_sessions := Sessions a (Some boxes),
               pb_allowed := tc_AllowedUsers c, pb_showThinking := tc_ShowThinking c,
               pb_editGap := defaultEditGap\<rparr> in
         case tg_startSession b w x of
           (w1, x1, Inl e) \<Rightarrow> Inl (Wrap ''telegram: starting the first session: '' e '''')
         | (w1, x1, Inr s) \<Rightarrow> Inr (b, \<lparr>st_current = s, st_w = w1, st_x = x1\<rparr>)))"

definition tg_send :: "('b, 'w, 'x) bot \<Rightarrow> int \<Rightarrow> string \<Rightarrow> ('b, 'w, 'x) state \<Rightarrow> ('b, 'w, 'x) state" where
  "tg_send b chat text st = st\<lparr>st_x := fst (pb_SendMessage b chat text (st_x st))\<rparr>"

definition tg_closeCurrent :: "('b, 'w, 'x) bot \<Rightarrow> ('b, 'w, 'x) state \<Rightarrow> ('b, 'w, 'x) state" where
  "tg_closeCurrent b st =
    (let (s, w, r) = session_Close (pb_ops b) (st_current st) (st_w st) in st\<lparr>st_current := s, st_w := w\<rparr>)"

definition tg_replace_current :: "('b, 'w, 'x) bot \<Rightarrow> 'b session \<Rightarrow> ('b, 'w, 'x) state \<Rightarrow> ('b, 'w, 'x) state" where
  "tg_replace_current b next st = (tg_closeCurrent b st)\<lparr>st_current := next\<rparr>"

subsection \<open>The progress message\<close>

text \<open>The id is 0 until the message exists.\<close>

record tg_status =
  tm_chat :: int
  tm_minGap :: int
  tm_id :: int
  tm_lines :: "string list"
  tm_shown :: string
  tm_lastAt :: gotime

definition tg_newStatus :: "('b, 'w, 'x) bot \<Rightarrow> int \<Rightarrow> tg_status" where
  "tg_newStatus b chat = \<lparr>tm_chat = chat, tm_minGap = pb_editGap b, tm_id = 0, tm_lines = [], tm_shown = '''',
     tm_lastAt = zero_time\<rparr>"

definition tg_posted :: "int option res \<Rightarrow> tg_status \<Rightarrow> tg_status" where
  "tg_posted r s = (case r of Inr (Some i) \<Rightarrow> s\<lparr>tm_id := i\<rparr> | _ \<Rightarrow> s)"

definition tg_start :: "('b, 'w, 'x) bot \<Rightarrow> tg_status \<times> 'x \<Rightarrow> tg_status \<times> 'x" where
  "tg_start b = (\<lambda>(s, x).
    let (x1, r) = pb_SendMessage b (tm_chat s) ellipsis x in
    ((tg_posted r s)\<lparr>tm_lastAt := pb_now b x1\<rparr>, x1))"

definition tg_flush :: "('b, 'w, 'x) bot \<Rightarrow> bool \<Rightarrow> tg_status \<times> 'x \<Rightarrow> tg_status \<times> 'x" where
  "tg_flush b force = (\<lambda>(s, x).
    (if tm_lines s = [] then (s, x)
     else if \<not> force \<and> pb_now b x - tm_lastAt s < tm_minGap s then (s, x)
     else
       (let text = join nl (tm_lines s) in
        if text = tm_shown s then (s, x)
        else
          (let (s1, x1) = (if tm_id s = 0
                 then (let (x1, r) = pb_SendMessage b (tm_chat s) text x in (tg_posted r s, x1))
                 else (s, fst (pb_EditMessageText b (tm_chat s) (tm_id s) text x))) in
           (s1\<lparr>tm_shown := text, tm_lastAt := pb_now b x1\<rparr>, x1)))))"

definition tg_append :: "('b, 'w, 'x) bot \<Rightarrow> string \<Rightarrow> tg_status \<times> 'x \<Rightarrow> tg_status \<times> 'x" where
  "tg_append b line = (\<lambda>(s, x). tg_flush b False (s\<lparr>tm_lines := tm_lines s @ [line]\<rparr>, x))"

subsection \<open>A turn\<close>

fun tg_watch :: "('b, 'w, 'x) bot \<Rightarrow> event list \<Rightarrow> string \<times> goerr option \<Rightarrow> tg_status \<times> 'x \<Rightarrow>
    (string \<times> goerr option) \<times> tg_status \<times> 'x" where
  "tg_watch b [] outcome s = (outcome, s)"
| "tg_watch b (ev # evs) outcome s =
    (let s1 = (case stepLine (pb_parse b) ev (pb_showThinking b) of None \<Rightarrow> s | Some line \<Rightarrow> tg_append b line s);
         outcome1 = (case ev of
             EventDone m \<Rightarrow> (finalText (Some m), snd outcome)
           | EventError e \<Rightarrow> (fst outcome, Some e)
           | _ \<Rightarrow> outcome) in
     tg_watch b evs outcome1 s1)"

text \<open>The messages that deliver an outcome; None when the splitting does not end.\<close>

definition tg_answers :: "string \<times> goerr option \<Rightarrow> string list option" where
  "tg_answers outcome =
    (case snd outcome of
       Some e \<Rightarrow> Some [''Sorry, that turn failed: '' @ err_text e]
     | None \<Rightarrow>
        if fst outcome = '''' then Some [''(the agent finished without any text to show)'']
        else splitMessage (fst outcome) telegramMaxMessage)"

definition tg_handlePrompt ::
  "('b, 'w, 'x) bot \<Rightarrow> int \<Rightarrow> string \<Rightarrow> ('b, 'w, 'x) state \<Rightarrow> ('b, 'w, 'x) state option" where
  "tg_handlePrompt b chat text st =
    (let sess = (append_msg (NewUserMessage text) (st_current st))\<lparr>ss_Status := StatusActive\<rparr>;
         w0 = tg_start b (tg_newStatus b chat, st_x st) in
     case Run (pb_ctx b) (pb_agent b) (Some sess) (st_w st) of
       Inl e \<Rightarrow>
        (let (s, x) = tg_flush b True (tg_append b (cross_mark @ clipped (oneLine (err_text e)) 120) w0) in
         Some (tg_send b chat (''Sorry, I couldn'' @ apostrophe @ ''t start that turn: '' @ err_text e)
           (st\<lparr>st_current := sess, st_x := x\<rparr>)))
     | Inr None \<Rightarrow> None
     | Inr (Some (sess', evs, w')) \<Rightarrow>
        (let (outcome, s1) = tg_watch b evs ('''', None) w0; (s2, x2) = tg_flush b True s1 in
         map_option (\<lambda>texts. foldl (\<lambda>st t. tg_send b chat t st) (st\<lparr>st_current := sess', st_w := w', st_x := x2\<rparr>) texts)
           (tg_answers outcome)))"

subsection \<open>Commands and updates\<close>

definition tg_splitCommand :: "string \<Rightarrow> string \<times> string" where
  "tg_splitCommand text =
    (let (cmd, arg) = (case cut (trim_space text) '' '' of Some r \<Rightarrow> r | None \<Rightarrow> (trim_space text, '''')) in
     (takeWhile (\<lambda>c. c \<noteq> CHR ''@'') cmd, trim_space arg))"

definition tg_helpText :: "('b, 'w, 'x) bot \<Rightarrow> string" where
  "tg_helpText b =
     ''I run a Meta Harness agent. Just send a message to give it a task.'' @ nl @ nl @ ''Commands:'' @ nl @
     ''/new, /clear '' @ dash @ '' discard the current context and start a fresh task'' @ nl @
     ''/status '' @ dash @ '' show the current session id, model, message count, and token usage'' @ nl @
     (if pb_sessions b \<noteq> None then
        ''/sessions '' @ dash @ '' list the sessions that can be resumed'' @ nl @
        ''/resume <id> '' @ dash @ '' continue a stored session where it left off'' @ nl
      else '''') @
     ''/help, /start '' @ dash @ '' show this help''"

definition tg_listSessions :: "('b, 'w, 'x) bot \<Rightarrow> int \<Rightarrow> ('b, 'w, 'x) state \<Rightarrow> ('b, 'w, 'x) state" where
  "tg_listSessions b chat st =
    (case pb_sessions b of
       None \<Rightarrow> tg_send b chat ''This bridge keeps no session history.'' st
     | Some (store, boxes) \<Rightarrow>
        (case Sessions_List store sessionListLimit (st_w st) of
           None \<Rightarrow> st
         | Some (w1, Inl e) \<Rightarrow>
             tg_send b chat (''Sorry, I couldn'' @ apostrophe @ ''t list the sessions: '' @ err_text e) (st\<lparr>st_w := w1\<rparr>)
         | Some (w1, Inr infos) \<Rightarrow>
             if infos = [] then tg_send b chat ''No stored sessions yet.'' (st\<lparr>st_w := w1\<rparr>)
             else tg_send b chat (sessions_text (ss_ID (st_current st)) infos) (st\<lparr>st_w := w1\<rparr>)))"

definition tg_resumeSession :: "('b, 'w, 'x) bot \<Rightarrow> int \<Rightarrow> string \<Rightarrow> ('b, 'w, 'x) state \<Rightarrow> ('b, 'w, 'x) state" where
  "tg_resumeSession b chat i st =
    (case pb_sessions b of
       None \<Rightarrow> tg_send b chat ''This bridge cannot resume sessions.'' st
     | Some (store, boxes) \<Rightarrow>
        if i = '''' then tg_send b chat ''Usage: /resume <session id>'' st
        else if i = ss_ID (st_current st) then tg_send b chat ''That session is already the current one.'' st
        else case Resume (pb_quote b) store (pb_ops b) boxes i (st_w st) of
          (w1, Inl e) \<Rightarrow>
            (let st1 = st\<lparr>st_w := w1\<rparr> in
             if err_is e ErrNotFound then tg_send b chat (''I have no session called '' @ pb_quote b i @ ''.'') st1
             else tg_send b chat (''Sorry, I couldn'' @ apostrophe @ ''t resume '' @ pb_quote b i @ '': '' @ err_text e) st1)
        | (w1, Inr next) \<Rightarrow>
            tg_send b chat (''Resumed '' @ ss_ID next @ '': '' @ itoa (int (length (ss_Messages next))) @
                '' messages, working in '' @ SandboxName next @ ''.'')
              (tg_replace_current b next (st\<lparr>st_w := w1\<rparr>)))"

definition tg_handleCommand ::
  "('b, 'w, 'x) bot \<Rightarrow> int \<Rightarrow> string \<Rightarrow> string \<Rightarrow> ('b, 'w, 'x) state \<Rightarrow> ('b, 'w, 'x) state" where
  "tg_handleCommand b chat cmd arg st =
    (if cmd = ''/new'' \<or> cmd = ''/clear'' then
       (case tg_startSession b (st_w st) (st_x st) of
          (w1, x1, Inl e) \<Rightarrow>
            tg_send b chat (''Sorry, I couldn'' @ apostrophe @ ''t start a fresh session: '' @ err_text e)
              (st\<lparr>st_w := w1, st_x := x1\<rparr>)
        | (w1, x1, Inr next) \<Rightarrow>
            tg_send b chat (''Started a fresh session: '' @ ss_ID next)
              (tg_replace_current b next (st\<lparr>st_w := w1, st_x := x1\<rparr>)))
     else if cmd = ''/status'' then tg_send b chat (status_text (st_current st)) st
     else if cmd = ''/sessions'' then tg_listSessions b chat st
     else if cmd = ''/resume'' then tg_resumeSession b chat arg st
     else if cmd = ''/help'' \<or> cmd = ''/start'' then tg_send b chat (tg_helpText b) st
     else tg_send b chat (''Unknown command.'' @ nl @ nl @ tg_helpText b) st)"

text \<open>An update's message, if it has one; its sender may be missing.\<close>

record tg_message =
  tgm_Chat :: int
  tgm_Private :: bool
  tgm_Text :: string
  tgm_From :: "int option"

definition handleUpdate ::
  "('b, 'w, 'x) bot \<Rightarrow> tg_message option \<Rightarrow> ('b, 'w, 'x) state \<Rightarrow> ('b, 'w, 'x) state option" where
  "handleUpdate b update st =
    (case update of
       None \<Rightarrow> Some st
     | Some msg \<Rightarrow>
        if \<not> tgm_Private msg then Some st
        else if tgm_Text msg = '''' then Some st
        else if (case tgm_From msg of None \<Rightarrow> True | Some u \<Rightarrow> u \<notin> set (pb_allowed b)) then Some st
        else if has_prefix (tgm_Text msg) ''/''
        then (let (cmd, arg) = tg_splitCommand (tgm_Text msg) in Some (tg_handleCommand b (tgm_Chat msg) cmd arg st))
        else tg_handlePrompt b (tgm_Chat msg) (tgm_Text msg) st)"

end
