(* ===== verification/Bridge.thy ===== *)
theory Bridge
  imports TelegramBot Agent
begin

section \<open>Properties of the chat bridges\<close>

text \<open>
  Splitting of long answers, the slots of a schedule, the message queue between the stream's
  handler and the loop, and what a prompt, a command and the loop as a whole do.
\<close>

subsection \<open>Texts\<close>

text \<open>C19. Splitting loses nothing but single separators. For any limit (4096 when it is not positive) the
  splitting ends; no chunk is longer than the limit in runes; every chunk but the last has at least
  half of it; between two chunks at most one newline or one space is dropped and all other runes
  are kept in order; chunks of valid UTF-8 are valid UTF-8; an empty string has no chunks.\<close>

theorem split_message_keeps_the_text:
  assumes "lim = nat (if limit \<le> 0 then telegramMaxMessage else limit)"
  shows "\<exists>chunks. splitMessage s limit = Some chunks \<and> split_ok s lim chunks \<and> (s = '''' \<longrightarrow> chunks = [])"
proof -
  have pos: "0 < lim" using assms by (auto simp: telegramMaxMessage_def)
  consider "runes s = []" | "runes s \<noteq> []" "length (runes s) \<le> lim" | "length (runes s) > lim" by linarith
  then show ?thesis
  proof cases
    case 1
    then have "splitMessage s limit = Some []" using assms by (simp add: splitMessage_def Let_def)
    moreover have "split_ok s lim []" using 1 by (auto simp: split_ok_def)
    ultimately show ?thesis by blast
  next
    case 2
    then have "splitMessage s limit = Some [s]" using assms by (simp add: splitMessage_def Let_def)
    moreover have "split_ok s lim [s]"
      unfolding split_ok_def by (rule exI[of _ "[runes s]"], rule exI[of _ "[[]]"]) (use 2 in simp)
    moreover have "s \<noteq> ''''" using 2(1) by auto
    ultimately show ?thesis by blast
  next
    case 3
    then have "splitMessage s limit = loop (split_round lim) (runes s, [])"
      using assms pos by (auto simp: splitMessage_def Let_def)
    moreover have "s \<noteq> ''''" using 3 by auto
    ultimately show ?thesis using split_loop[OF pos 3] by auto
  qed
qed

theorem split_message_keeps_the_text_witness:
  "splitMessage ''one two three'' 8 = Some [''one two'', ''three''] \<and>
   split_ok ''one two three'' 8 [''one two'', ''three'']"
proof -
  have 1: "splitMessage ''one two three'' 8 = Some [''one two'', ''three'']"
    by (simp add: splitMessage_def Let_def runes_ascii ascii_def loop.simps split_round_def breakPoint_def
        lastIndexRune_def upt_rec of_runes_def encode_rune_def rune_bytes_def scalar_def) code_simp
  then show ?thesis using split_message_keeps_the_text[of 8 8 "''one two three''"] by simp
qed

subsection \<open>Schedules\<close>

text \<open>A schedule's next slot is the first one after now. Where the offset from UTC is constant,
  a schedule that validates and is not empty always has a next slot; it is strictly after now and
  at most a day away, its wall clock is one of the schedule's times, and no instant in between
  shows one. Unreadable times are skipped, and a schedule without times is never due.\<close>

theorem next_due_is_the_first_slot:
  assumes "now > 0" "next = nextDue (\<lambda>t. z) now at"
  shows "(slots at = {} \<longrightarrow> next = zero_time) \<and>
    (slots at \<noteq> {} \<longrightarrow> now < next \<and> next \<le> now + day_ns \<and> (next + z) mod day_ns \<in> slots at \<and>
       (\<forall>t. now < t \<and> t < next \<longrightarrow> (t + z) mod day_ns \<notin> slots at)) \<and>
    (validate quote \<lparr>sc_prompt = p, sc_at = at, sc_continuing = c\<rparr> = None \<and> (p \<noteq> '''' \<or> at \<noteq> []) \<longrightarrow> slots at \<noteq> {})"
proof (intro conjI impI)
  note n = nextDue_fixed[OF assms(1), where z = z and at = at, folded assms(2)]
  show "next = zero_time" if "slots at = {}" using n that by simp
  have r: "0 \<le> s \<and> s < day_ns" if "s \<in> slots at" for s
    using that slot_range by (auto simp: slots_def)
  {
    assume ne: "slots at \<noteq> {}"
    obtain s where s: "s \<in> slots at" "next = due_at z now s" using n ne by auto
    note p = due_at_props[where slot = s and now = now and z = z] r[OF s(1)]
    show "now < next" "next \<le> now + day_ns" "(next + z) mod day_ns \<in> slots at" using p s by auto
    show "\<forall>t. now < t \<and> t < next \<longrightarrow> (t + z) mod day_ns \<notin> slots at"
    proof (intro allI impI notI)
      fix t assume t: "now < t \<and> t < next" and m: "(t + z) mod day_ns \<in> slots at"
      have "next \<le> due_at z now ((t + z) mod day_ns)" using n ne m by blast
      then show False using due_at_props(4)[where slot = "(t + z) mod day_ns" and now = now and t = t and z = z] r[OF m] t by auto
    qed
  }
  assume v: "validate quote \<lparr>sc_prompt = p, sc_at = at, sc_continuing = c\<rparr> = None \<and> (p \<noteq> '''' \<or> at \<noteq> [])"
  then have at: "at \<noteq> []" "find (\<lambda>a. parse_time_of_day (trim_space a) = None) at = None"
    by (auto simp: validate_def schedule_zero_def split: if_splits)
  then have "hd at \<in> set at" "parse_time_of_day (trim_space (hd at)) \<noteq> None"
    unfolding find_None_iff by auto
  then obtain h m where "parse_time_of_day (trim_space (hd at)) = Some (h, m)" by auto
  then have "int h * hour_ns + int m * minute_ns \<in> slots at"
    unfolding slots_def using \<open>hd at \<in> set at\<close> by blast
  then show "slots at \<noteq> {}" by blast
qed

theorem next_due_is_the_first_slot_witness:
  "nextDue (\<lambda>t. 2 * hour_ns) (day_ns + 12 * hour_ns) [''07:30'', ''18:30''] = day_ns + 16 * hour_ns + 30 * minute_ns \<and>
   day_ns + 12 * hour_ns < nextDue (\<lambda>t. 2 * hour_ns) (day_ns + 12 * hour_ns) [''07:30'', ''18:30'']"
proof -
  have 1: "nextDue (\<lambda>t. 2 * hour_ns) (day_ns + 12 * hour_ns) [''07:30'', ''18:30''] = day_ns + 16 * hour_ns + 30 * minute_ns"
    by code_simp
  then have "slots [''07:30'', ''18:30''] \<noteq> {}"
    using nextDue_fixed[of "day_ns + 12 * hour_ns" "[''07:30'', ''18:30'']" "2 * hour_ns"] by auto
  then show ?thesis
    using next_due_is_the_first_slot[OF _ refl, of "day_ns + 12 * hour_ns" "[''07:30'', ''18:30'']" "2 * hour_ns" id "''p''" False] 1
    by simp
qed

subsection \<open>A bridge to try things on\<close>

text \<open>Every call of the chat takes an hour; what was sent is kept.\<close>

definition demo_jids :: "string jids" where
  "demo_jids = \<lparr>j_Parse = Inr, j_Bare = id, j_Local = id, j_Domain = id, j_String = id\<rparr>"

definition demo_bridge :: "('b, 'w) agent \<Rightarrow> ('b, 'w, string, gotime \<times> string list) bridge" where
  "demo_bridge a = \<lparr>br_agent = a, br_boxes = (\<lambda>n w. (w, Inl (Opaque ''no box''))),
     br_ops = \<lparr>box_Name = (\<lambda>b w. ''box''), box_Close = (\<lambda>b w. (w, None))\<rparr>, br_sandboxName = ''box'',
     br_modelID = ''m'', br_sessions = None, br_allowed = [''owner''], br_allowedJIDs = [''owner''],
     br_showThinking = False, br_schedule = Continuing (Daily ''what is new?'' [''07:30'']), br_correctionGap = 0,
     br_jids = demo_jids, br_quote = id, br_parse = (\<lambda>s. None), br_ctx = (\<lambda>w. None),
     br_SendText = (\<lambda>to text rep (t, sent). ((t + hour_ns, sent @ [text]), Inr ''id'')),
     br_now = fst, br_newSessionID = (\<lambda>x. (x, ''s''))\<rparr>"

definition demo_state :: "'b session \<Rightarrow> 'w \<Rightarrow> gotime \<Rightarrow> ('b, 'w, gotime \<times> string list) state" where
  "demo_state s w t = \<lparr>st_current = s, st_w = w, st_x = (t, [])\<rparr>"

definition demo_message :: "string \<Rightarrow> string body" where
  "demo_message text = \<lparr>mb_From = ''owner'', mb_Type = ChatMessage, mb_Body = text, mb_Replace = None, mb_Delay = None\<rparr>"

subsection \<open>A slot that comes due during a turn\<close>

text \<open>A slot that comes due during a turn is lost. Suppose the loop has armed its timer for a
  slot, takes a message instead, and its turn ends at or after the slot. Then in every later state
  the timer is armed for a later slot, and the case of the timer cannot be taken for this one: the
  scheduled prompt is skipped until the next day's slot. (The comment on \<open>serve\<close> says such a slot
  is served when the turn ends; but each round computes the next slot anew, strictly after now.)\<close>

theorem slot_during_a_turn_is_lost:
  assumes "armed (\<lambda>t. z) b (st_x st) = Some slot"
    and "serve_round (\<lambda>t. z) b Incoming (st, q) = Some (Next (st1, q1))"
    and "0 < br_now b (st_x st1)" "slot \<le> br_now b (st_x st1)"
    and "br_now b (st_x st1) \<le> br_now b (st_x st2)"
  shows "(\<forall>t. armed (\<lambda>t. z) b (st_x st2) = Some t \<longrightarrow> slot < t) \<and>
    serve_round (\<lambda>t. z) b (Due slot) (st2, q2) = None"
proof -
  have later: "slot < t" if "armed (\<lambda>t. z) b (st_x st2) = Some t" for t
  proof -
    have t: "t = nextDue (\<lambda>t. z) (br_now b (st_x st2)) (sc_at (br_schedule b))" "t \<noteq> 0"
      using that by (auto simp: armed_def Let_def split: if_splits)
    have now: "0 < br_now b (st_x st2)" using assms(3,5) by linarith
    note n = nextDue_fixed[OF now, where z = z and at = "sc_at (br_schedule b)"]
    then obtain s where s: "s \<in> slots (sc_at (br_schedule b))" "t = due_at z (br_now b (st_x st2)) s"
      using t by auto
    have "0 \<le> s \<and> s < day_ns" using s(1) slot_range by (auto simp: slots_def)
    then have "br_now b (st_x st2) < t"
      using due_at_props(1)[where slot = s and now = "br_now b (st_x st2)" and z = z] s(2) by simp
    then show ?thesis using assms(4,5) by linarith
  qed
  then show ?thesis by (auto simp: serve_round_def split: option.split dest: later)
qed

definition late_start :: "(unit, nat, gotime \<times> string list) state" where
  "late_start = demo_state demo_session 0 (day_ns + 7 * hour_ns)"

definition late_queue :: "string body queue" where "late_queue = push (demo_message ''/x'') newMessageQueue"

theorem slot_during_a_turn_is_lost_witness:
  "armed (\<lambda>t. 0) (demo_bridge demo_agent) (st_x late_start) = Some (day_ns + 7 * hour_ns + 30 * minute_ns) \<and>
   (\<exists>st1 q1. serve_round (\<lambda>t. 0) (demo_bridge demo_agent) Incoming (late_start, late_queue) = Some (Next (st1, q1)) \<and>
      serve_round (\<lambda>t. 0) (demo_bridge demo_agent) (Due (day_ns + 7 * hour_ns + 30 * minute_ns)) (st1, q1) = None)"
proof -
  have 1: "armed (\<lambda>t. 0) (demo_bridge demo_agent) (st_x late_start) = Some (day_ns + 7 * hour_ns + 30 * minute_ns)"
    by code_simp
  obtain st1 q1 where r: "serve_round (\<lambda>t. 0) (demo_bridge demo_agent) Incoming (late_start, late_queue) = Some (Next (st1, q1))"
      "br_now (demo_bridge demo_agent) (st_x st1) = day_ns + 8 * hour_ns"
  proof -
    have "(case serve_round (\<lambda>t. 0) (demo_bridge demo_agent) Incoming (late_start, late_queue) of
        Some (Next (st1, q1)) \<Rightarrow> br_now (demo_bridge demo_agent) (st_x st1) = day_ns + 8 * hour_ns | _ \<Rightarrow> False)"
      by (simp add: serve_round_def late_queue_def late_start_def push_def push_item_def signal_def pop_def
          newMessageQueue_def handleMessage_def demo_bridge_def demo_message_def demo_jids_def demo_state_def
          splitCommand_def trim_space_printable printable_def handleCommand_def say_def bridge_send_def Let_def)
    then show ?thesis using that by (auto split: option.splits round.splits prod.splits)
  qed
  have "serve_round (\<lambda>t. 0) (demo_bridge demo_agent) (Due (day_ns + 7 * hour_ns + 30 * minute_ns)) (st1, q1) = None"
    using slot_during_a_turn_is_lost[OF 1 r(1), of st1 q1] r(2) by simp
  then show ?thesis using 1 r(1) by blast
qed

subsection \<open>The message queue\<close>

text \<open>
  Handlers append under the lock and signal after it; the loop takes the signal and then pops. Any
  interleaving: \<open>iq_owed\<close> counts the handlers between the two, \<open>iq_holding\<close> says that the loop has
  taken a signal, and the histories are kept.
\<close>

record 'm interleaved =
  iq_queue :: "'m queue"
  iq_owed :: nat
  iq_holding :: bool
  iq_pushed :: "'m list"
  iq_popped :: "'m list"

inductive queue_step :: "'m interleaved \<Rightarrow> 'm interleaved \<Rightarrow> bool" where
  append: "queue_step s (s\<lparr>iq_queue := push_item m (iq_queue s), iq_owed := iq_owed s + 1, iq_pushed := iq_pushed s @ [m]\<rparr>)"
| signals: "iq_owed s = Suc n \<Longrightarrow> queue_step s (s\<lparr>iq_queue := signal (iq_queue s), iq_owed := n\<rparr>)"
| takes: "qu_ready (iq_queue s) \<Longrightarrow> \<not> iq_holding s \<Longrightarrow>
    queue_step s (s\<lparr>iq_queue := (iq_queue s)\<lparr>qu_ready := False\<rparr>, iq_holding := True\<rparr>)"
| pops: "iq_holding s \<Longrightarrow> pop (iq_queue s) = (q, r) \<Longrightarrow>
    queue_step s (s\<lparr>iq_queue := q, iq_holding := False,
      iq_popped := iq_popped s @ (case r of None \<Rightarrow> [] | Some m \<Rightarrow> [m])\<rparr>)"

definition fresh_queue :: "'m interleaved" where
  "fresh_queue = \<lparr>iq_queue = newMessageQueue, iq_owed = 0, iq_holding = False, iq_pushed = [], iq_popped = []\<rparr>"

text \<open>C20. No message is lost, reordered or stuck. Under any interleaving of handlers and the loop, the
  messages popped are the messages pushed, in order, up to the ones still queued; and while any
  message is queued the loop can go on: a signal waits in the channel, or the loop has taken one
  and will pop, or a handler is about to signal.\<close>

theorem queue_loses_nothing:
  assumes "queue_step\<^sup>*\<^sup>* fresh_queue s"
  shows "iq_pushed s = iq_popped s @ qu_items (iq_queue s) \<and>
    (qu_items (iq_queue s) \<noteq> [] \<longrightarrow> qu_ready (iq_queue s) \<or> iq_holding s \<or> iq_owed s > 0)"
  using assms
proof (induction rule: rtranclp_induct)
  case base
  then show ?case by (simp add: fresh_queue_def newMessageQueue_def)
next
  case (step s t)
  from step(2,3) show ?case
  proof (cases rule: queue_step.cases)
    case (pops q r)
    then show ?thesis using step(3) by (auto simp: pop_def signal_def Let_def split: list.splits if_splits)
  qed (auto simp: push_item_def signal_def)
qed

theorem queue_loses_nothing_witness:
  "\<exists>s :: nat interleaved. queue_step\<^sup>*\<^sup>* fresh_queue s \<and> iq_pushed s = [7, 8] \<and> iq_popped s = [7] \<and>
     iq_pushed s = iq_popped s @ qu_items (iq_queue s) \<and> qu_ready (iq_queue s)"
proof -
  define s1 where "s1 = (fresh_queue :: nat interleaved)\<lparr>iq_queue := \<lparr>qu_items = [7], qu_ready = False\<rparr>, iq_owed := 1, iq_pushed := [7]\<rparr>"
  define s2 where "s2 = s1\<lparr>iq_queue := \<lparr>qu_items = [7], qu_ready = True\<rparr>, iq_owed := 0\<rparr>"
  define s3 where "s3 = s2\<lparr>iq_queue := \<lparr>qu_items = [7], qu_ready = False\<rparr>, iq_holding := True\<rparr>"
  define s4 where "s4 = s3\<lparr>iq_queue := \<lparr>qu_items = [7, 8], qu_ready = False\<rparr>, iq_owed := 1, iq_pushed := [7, 8]\<rparr>"
  define s5 where "s5 = s4\<lparr>iq_queue := \<lparr>qu_items = [8], qu_ready = True\<rparr>, iq_holding := False, iq_popped := [7]\<rparr>"
  have "queue_step fresh_queue s1"
    using queue_step.append[of fresh_queue "7::nat"] by (simp add: s1_def fresh_queue_def newMessageQueue_def push_item_def)
  moreover have "queue_step s1 s2"
    using queue_step.signals[of s1 0] by (simp add: s2_def s1_def fresh_queue_def signal_def)
  moreover have "queue_step s2 s3"
    using queue_step.takes[of s2] by (simp add: s3_def s2_def s1_def fresh_queue_def)
  moreover have "queue_step s3 s4"
    using queue_step.append[of s3 8] by (simp add: s4_def s3_def s2_def s1_def fresh_queue_def push_item_def)
  moreover have "queue_step s4 s5"
    using queue_step.pops[of s4 "\<lparr>qu_items = [8], qu_ready = True\<rparr>" "Some 7"]
    by (simp add: s5_def s4_def s3_def s2_def s1_def fresh_queue_def pop_def signal_def)
  ultimately have "queue_step\<^sup>*\<^sup>* fresh_queue s5" by (meson converse_rtranclp_into_rtranclp rtranclp.rtrancl_refl)
  then show ?thesis
    using queue_loses_nothing[of s5]
    by (intro exI[of _ s5]) (simp add: s5_def s4_def s3_def s2_def s1_def fresh_queue_def)
qed

subsection \<open>What every turn does\<close>

text \<open>Without asking anything of the transcript it starts from.\<close>

definition turn_went :: "('b, 'w) turn \<Rightarrow> ('b, 'w) turn \<Rightarrow> bool" where
  "turn_went t t' = (case t of (s, evs, w) \<Rightarrow> case t' of (s', evs', w') \<Rightarrow>
     \<exists>new. evs' = evs @ new \<and> list_all progress new \<and> ss_Messages s' = ss_Messages s @ reported new \<and> same_task s s')"

definition turn_ended :: "('b, 'w) turn \<Rightarrow> ('b, 'w) turn \<Rightarrow> bool" where
  "turn_ended t t' = (case t of (s, evs, w) \<Rightarrow> case t' of (s', evs', w') \<Rightarrow>
     \<exists>new fin. evs' = evs @ new @ [fin] \<and> list_all progress new \<and> ss_Messages s' = ss_Messages s @ reported new \<and>
       same_task s s' \<and> (case fin of
          EventDone m \<Rightarrow> ss_Status s' = StatusCompleted \<and> lastMessage s' = Some m
        | EventError e \<Rightarrow> ss_Status s' = StatusFailed
        | _ \<Rightarrow> False))"

lemma turn_went_refl [simp]: "turn_went t t"
  by (cases t) (auto simp: turn_went_def reported_def intro: exI[of _ "[]"])

lemma turn_went_trans: "turn_went a b \<Longrightarrow> turn_went b c \<Longrightarrow> turn_went a c"
  by (cases a; cases b; cases c) (fastforce simp: turn_went_def intro: same_task_trans)

lemma turn_went_ended: "turn_went a b \<Longrightarrow> turn_ended b c \<Longrightarrow> turn_ended a c"
proof -
  assume g: "turn_went a b" and e: "turn_ended b c"
  obtain s evs w s' evs' w' s'' evs'' w'' where t: "a = (s, evs, w)" "b = (s', evs', w')" "c = (s'', evs'', w'')"
    by (metis prod.exhaust)
  obtain new where 1: "evs' = evs @ new" "list_all progress new" "ss_Messages s' = ss_Messages s @ reported new"
    "same_task s s'" using g t by (auto simp: turn_went_def)
  obtain new' fin where 2: "evs'' = evs' @ new' @ [fin]" "list_all progress new'"
    "ss_Messages s'' = ss_Messages s' @ reported new'" "same_task s' s''"
    "case fin of
          EventDone m \<Rightarrow> ss_Status s'' = StatusCompleted \<and> lastMessage s'' = Some m
        | EventError e \<Rightarrow> ss_Status s'' = StatusFailed
        | _ \<Rightarrow> False" using e t by (auto simp: turn_ended_def)
  have "evs'' = evs @ (new @ new') @ [fin]" "list_all progress (new @ new')"
    "ss_Messages s'' = ss_Messages s @ reported (new @ new')" using 1 2 by simp_all
  then show ?thesis using 2(5) same_task_trans[OF 1(4) 2(4)] unfolding t turn_ended_def prod.case by blast
qed

lemma fail_ended: "turn_went t t' \<Longrightarrow> fst t'' = fst t' \<Longrightarrow> fst (snd t'') = fst (snd t') \<Longrightarrow> turn_ended t (fail st e t'')"
  by (cases t; cases t'; cases t'') (auto simp: turn_went_def turn_ended_def fail_def Let_def same_task_def)

lemma model_round_went:
  "case model_round model st a system t of Inl t' \<Rightarrow> turn_went t t' | Inr t' \<Rightarrow> turn_ended t t'"
proof -
  obtain s evs w where t: "t = (s, evs, w)" by (metis prod.exhaust)
  let ?req = "\<lparr>rq_Model = ss_Model s, rq_System = system, rq_Messages = ss_Messages s,
      rq_Tools = toolDefs a, rq_MaxOutputTokens = 0\<rparr>"
  obtain w1 used r where 1: "agent_call model ?req w = (w1, used, r)" by (metis prod.exhaust)
  let ?s1 = "s\<lparr>ss_Usage := addUsage (ss_Usage s) used\<rparr>"
  show ?thesis
  proof (cases r)
    case (Inl e)
    have "turn_went (s, evs, w) (?s1, evs, w)"
      by (auto simp: turn_went_def reported_def same_task_def intro: exI[of _ "[]"])
    then show ?thesis unfolding t using 1 Inl fail_ended[of "(s, evs, w)" "(?s1, evs, w)" "(?s1, evs, w1)"]
      by (simp add: model_round_def Let_def)
  next
    case (Inr m)
    let ?s2 = "append_msg m ?s1"
    obtain w2 r2 where 2: "so_Save st ?s2 w1 = (w2, r2)" by (metis prod.exhaust)
    have g: "turn_went (s, evs, w) (?s2, evs @ [EventAssistant m], w2)"
      by (auto simp: turn_went_def append_msg_def progress_def reported_def same_task_def)
    show ?thesis unfolding t using 1 2 Inr g fail_ended[OF g, of "(?s2, evs @ [EventAssistant m], w2)"]
      by (cases r2) (simp_all add: model_round_def Let_def)
  qed
qed

lemma run_step_went:
  "case run_step ctx model st a system box t of Inl t' \<Rightarrow> turn_went t t' | Inr t' \<Rightarrow> turn_ended t t'"
proof -
  obtain s evs w where t: "t = (s, evs, w)" by (metis prod.exhaust)
  note model = model_round_went[where model = model and st = st and a = a and system = system and t = "(s, evs, w)"]
  show ?thesis
  proof (cases "ctx w")
    case (Some e)
    then show ?thesis unfolding t using fail_ended[of "(s, evs, w)" "(s, evs, w)" "(s, evs, w)"]
      by (simp add: run_step_def)
  next
    case None
    show ?thesis
    proof (cases "toolCalls (lastMessage s) = []")
      case True
      have finish: "turn_ended (s, evs, w) (s\<lparr>ss_Status := StatusCompleted\<rparr>, evs @ [EventDone m],
          fst (so_Save st (s\<lparr>ss_Status := StatusCompleted\<rparr>) w))" if "lastMessage s = Some m" for m
        using that by (auto simp: turn_ended_def reported_def same_task_def lastMessage_def split: if_splits
            intro!: exI[of _ "[]"])
      show ?thesis unfolding t using None True finish model
        by (auto simp: run_step_def Let_def split: option.splits)
    next
      case False
      obtain rs w1 where d: "dispatch_all a box (toolCalls (lastMessage s)) (s, evs, w) =
          (s\<lparr>ss_Messages := ss_Messages s @ rs\<rparr>, evs @ map EventToolResult rs, w1)"
        using dispatch_all_result[of a box "toolCalls (lastMessage s)" s evs w] by blast
      let ?s1 = "s\<lparr>ss_Messages := ss_Messages s @ rs\<rparr>"
      obtain w2 r where sv: "so_Save st ?s1 w1 = (w2, r)" by (metis prod.exhaust)
      have g: "turn_went (s, evs, w) (?s1, evs @ map EventToolResult rs, w2)"
        by (auto simp: turn_went_def progress_def reported_def list_all_iff same_task_def comp_def
            intro!: exI[of _ "map EventToolResult rs"])
      show ?thesis unfolding t using None False d sv g fail_ended[OF g, of "(?s1, evs @ map EventToolResult rs, w2)"]
        by (cases r) (simp_all add: run_step_def Let_def)
    qed
  qed
qed

lemma run_ended:
  assumes "loop (run_step ctx model st a system box) t = Some t'"
  shows "turn_ended t t'"
proof -
  have "\<exists>t1. turn_went t t1 \<and> run_step ctx model st a system box t1 = Inr t'"
  proof (rule loop_result[OF assms])
    fix t1 t2 assume "turn_went t t1" "run_step ctx model st a system box t1 = Inl t2"
    then show "turn_went t t2"
      using run_step_went[where ctx = ctx and model = model and st = st and a = a and system = system and box = box and t = t1] turn_went_trans by simp
  qed simp
  then obtain t1 where "turn_went t t1" "run_step ctx model st a system box t1 = Inr t'" by blast
  then show ?thesis using run_step_went[where ctx = ctx and model = model and st = st and a = a and system = system and box = box and t = t1] turn_went_ended by simp
qed

lemma Run_ended:
  assumes "Run ctx a (Some s) w = Inr (Some (s', evs, w'))"
  shows "\<exists>new fin. evs = new @ [fin] \<and> list_all progress new \<and> ss_Messages s' = ss_Messages s @ reported new \<and>
       same_task s s' \<and> (case fin of
          EventDone m \<Rightarrow> ss_Status s' = StatusCompleted \<and> lastMessage s' = Some m
        | EventError e \<Rightarrow> ss_Status s' = StatusFailed
        | _ \<Rightarrow> False)"
proof -
  obtain ctx' model st a' system box w1 where
    "loop (run_step ctx' model st a' system box) (s, [], w1) = Some (s', evs, w')"
    using assms by (auto simp: Run_def split: option.splits prod.splits sum.splits)
  then have "turn_ended (s, [], w1) (s', evs, w')" by (rule run_ended)
  then show ?thesis unfolding turn_ended_def prod.case append_Nil .
qed

subsection \<open>A prompt\<close>

text \<open>
  What a chat sees of the progress: messages to one person, the first that got an id being corrected
  by all later ones. The last component but one is the text sent last.
\<close>

definition corrected :: "string \<Rightarrow> string res \<Rightarrow> string" where
  "corrected i r = (if i = '''' then (case r of Inl e \<Rightarrow> '''' | Inr j \<Rightarrow> j) else i)"

inductive trail :: "('b, 'w, 'j, 'x) bridge \<Rightarrow> 'j \<Rightarrow> string \<times> string \<times> 'x \<Rightarrow> string \<times> string \<times> 'x \<Rightarrow> bool" for b to where
  trail_stays: "trail b to s s"
| trail_sends: "trail b to s (i, shown, x) \<Longrightarrow> br_SendText b to text i x = (x1, r) \<Longrightarrow>
    trail b to s (corrected i r, text, x1)"

definition status_ok :: "('b, 'w, 'j, 'x) bridge \<Rightarrow> 'j \<Rightarrow> 'x \<Rightarrow> string list \<Rightarrow> ('j, 'x) watched \<Rightarrow> bool" where
  "status_ok b to x0 ls w = (\<exists>s x shown. w = (Some s, x) \<and> sm_to s = to \<and> sm_lines s = ls \<and>
     trail b to ('''', '''', x0) (sm_id s, shown, x) \<and> (sm_shown s = '''' \<or> sm_shown s = shown))"

lemma status_start_ok: "status_ok b to x [] (status_start b (Some (newStatus b to), x))"
proof -
  obtain x1 r where 1: "br_SendText b to ellipsis '''' x = (x1, r)" by (metis prod.exhaust)
  have "trail b to ('''', '''', x) (corrected '''' r, ellipsis, x1)"
    by (rule trail_sends[OF trail_stays 1])
  then show ?thesis
    by (auto simp: status_ok_def status_start_def newStatus_def 1 Let_def corrected_def split: sum.splits)
qed

lemma status_flush_sends:
  assumes "status_ok b to x0 ls w"
  shows "status_ok b to x0 ls (status_flush b force w) \<and>
    (force \<and> join nl ls \<noteq> '''' \<longrightarrow> (\<exists>s i x. status_flush b force w = (s, x) \<and> trail b to ('''', '''', x0) (i, join nl ls, x)))"
proof -
  obtain s x shown where w: "w = (Some s, x)" "sm_to s = to" "sm_lines s = ls"
    "trail b to ('''', '''', x0) (sm_id s, shown, x)" "sm_shown s = '''' \<or> sm_shown s = shown"
    using assms by (auto simp: status_ok_def)
  obtain x1 r where 1: "br_SendText b to (join nl ls) (sm_id s) x = (x1, r)" by (metis prod.exhaust)
  note t = trail_sends[OF w(4) 1]
  consider "ls = []" | "ls \<noteq> []" "\<not> force \<and> br_now b x - sm_lastAt s < sm_minGap s"
    | "ls \<noteq> []" "\<not> (\<not> force \<and> br_now b x - sm_lastAt s < sm_minGap s)" "join nl ls = sm_shown s"
    | "ls \<noteq> []" "\<not> (\<not> force \<and> br_now b x - sm_lastAt s < sm_minGap s)" "join nl ls \<noteq> sm_shown s"
    by blast
  then show ?thesis
  proof cases
    case 4
    then show ?thesis unfolding w(1) using w(2,3) 1 t
      by (auto simp: status_flush_def status_ok_def Let_def corrected_def split: sum.splits if_splits)
  qed (use w assms in \<open>auto simp: status_flush_def\<close>)
qed

lemma status_append_ok: "status_ok b to x0 ls w \<Longrightarrow> status_ok b to x0 (ls @ [l]) (status_append b l w)"
proof -
  assume "status_ok b to x0 ls w"
  then obtain s x where w: "w = (Some s, x)" "status_ok b to x0 (ls @ [l]) (Some (s\<lparr>sm_lines := sm_lines s @ [l]\<rparr>), x)"
    by (auto simp: status_ok_def)
  then show ?thesis using status_flush_sends[OF w(2), of False] by (simp add: status_append_def)
qed

definition steps :: "('b, 'w, 'j, 'x) bridge \<Rightarrow> event list \<Rightarrow> string list" where
  "steps b evs = List.map_filter (\<lambda>ev. stepLine (br_parse b) ev (br_showThinking b)) evs"

lemma watch_ok:
  "status_ok b to x0 ls w \<Longrightarrow> watch b evs out w = (out', w') \<Longrightarrow> status_ok b to x0 (ls @ steps b evs) w'"
proof (induction evs arbitrary: ls out w)
  case (Cons ev evs)
  show ?case
  proof (cases "stepLine (br_parse b) ev (br_showThinking b)")
    case None
    then show ?thesis using Cons by (auto simp: steps_def List.map_filter_simps Let_def)
  next
    case (Some l)
    then show ?thesis using Cons.IH[OF status_append_ok[OF Cons.prems(1), of l]] Cons.prems(2)
      by (auto simp: steps_def List.map_filter_simps Let_def)
  qed
qed (simp add: steps_def List.map_filter_simps)

lemma watch_outcome:
  assumes "list_all progress new"
  shows "fst (watch b (new @ [fin]) out w) = (case fin of
      EventDone m \<Rightarrow> (finalText (Some m), snd out) | EventError e \<Rightarrow> (fst out, Some e) | _ \<Rightarrow> out)"
  using assms
proof (induction new arbitrary: w)
  case (Cons ev new)
  then show ?case by (cases ev) (simp_all add: Let_def progress_def)
qed (simp add: Let_def split: event.split)

lemma join_nonempty: "l \<noteq> '''' \<Longrightarrow> join nl (ls @ [l]) \<noteq> ''''"
  by (cases ls) (auto simp: join_Cons nl_def)

lemma last_step:
  assumes "event_msg fin = None"
  shows "\<exists>ls l. steps b (new @ [fin]) = ls @ [l] \<and> l \<noteq> ''''"
  using assms by (cases fin)
    (auto simp: steps_def List.map_filter_def check_mark_def cross_mark_def encode_rune_nonempty)

definition prompted :: "string \<Rightarrow> 'b session \<Rightarrow> 'b session" where
  "prompted text s = (append_msg (NewUserMessage text) s)\<lparr>ss_Status := StatusActive\<rparr>"

definition not_started :: "goerr \<Rightarrow> string" where
  "not_started e = ''Sorry, I couldn'' @ apostrophe @ ''t start that turn: '' @ err_text e"

text \<open>What answers a turn that ended with \<open>fin\<close>.\<close>

definition delivers :: "event \<Rightarrow> string" where
  "delivers fin = (case fin of
      EventDone m \<Rightarrow> (if finalText (Some m) = '''' then ''(the agent finished without any text to show)'' else finalText (Some m))
    | EventError e \<Rightarrow> ''Sorry, that turn failed: '' @ err_text e
    | _ \<Rightarrow> '''')"

text \<open>C21. A prompt gets one answer. While the agent's loop ends, a prompt appends one user message to the
  current session and then only what the turn reported; the person who asked sees one progress
  message, corrected in place, that ends up showing every step, and then exactly one answer: the
  final text, a word that there was none, or what went wrong. The session stays the same task and is
  left completed or failed accordingly. Only an agent whose loop never ends keeps the prompt.\<close>

theorem prompt_gets_one_answer:
  "case handlePrompt b to text st of
     None \<Rightarrow> Run (br_ctx b) (br_agent b) (Some (prompted text (st_current st))) (st_w st) = Inr None
   | Some st' \<Rightarrow> (\<exists>i ls x answer.
       trail b to ('''', '''', st_x st) (i, join nl ls, x) \<and> st_x st' = bridge_send b to answer x \<and>
       same_task (st_current st) (st_current st') \<and>
       ((\<exists>e. Run (br_ctx b) (br_agent b) (Some (prompted text (st_current st))) (st_w st) = Inl e \<and>
           answer = not_started e \<and> ls = [cross_mark @ clipped (oneLine (err_text e)) 120] \<and>
           st_current st' = prompted text (st_current st)) \<or>
        (\<exists>new fin. Run (br_ctx b) (br_agent b) (Some (prompted text (st_current st))) (st_w st) =
             Inr (Some (st_current st', new @ [fin], st_w st')) \<and>
           answer = delivers fin \<and> ls = steps b (new @ [fin]) \<and>
           ss_Messages (st_current st') = ss_Messages (st_current st) @ NewUserMessage text # reported new \<and>
           (case fin of
              EventDone m \<Rightarrow> ss_Status (st_current st') = StatusCompleted \<and> lastMessage (st_current st') = Some m
            | EventError e \<Rightarrow> ss_Status (st_current st') = StatusFailed
            | _ \<Rightarrow> False))))"
proof -
  let ?s = "prompted text (st_current st)" and ?w0 = "status_start b (Some (newStatus b to), st_x st)"
  have same: "same_task (st_current st) ?s" by (simp add: prompted_def append_msg_def same_task_def)
  note start = status_start_ok[of b to "st_x st"]
  show ?thesis
  proof (cases "Run (br_ctx b) (br_agent b) (Some ?s) (st_w st)")
    case (Inl e)
    let ?l = "cross_mark @ clipped (oneLine (err_text e)) 120"
    have ok: "status_ok b to (st_x st) [?l] (status_append b ?l ?w0)" using status_append_ok[OF start, of ?l] by simp
    have "join nl [?l] \<noteq> ''''" by (simp add: cross_mark_def)
    then obtain s i x where 1: "status_flush b True (status_append b ?l ?w0) = (s, x)"
      "trail b to ('''', '''', st_x st) (i, join nl [?l], x)" using status_flush_sends[OF ok, of True] by blast
    have "handlePrompt b to text st = Some (st\<lparr>st_current := ?s, st_x := bridge_send b to (not_started e) x\<rparr>)"
      using Inl 1(1) by (simp add: handlePrompt_def runTurn_def prompted_def not_started_def apostrophe_def Let_def)
    then show ?thesis using same Inl 1(2) by (auto intro!: exI)
  next
    case (Inr t)
    show ?thesis
    proof (cases t)
      case None
      then show ?thesis using Inr by (simp add: handlePrompt_def runTurn_def prompted_def Let_def)
    next
      case (Some t')
      obtain s' evs w' where t': "t' = (s', evs, w')" by (metis prod.exhaust)
      note run = Inr[unfolded Some t']
      obtain new fin where e: "evs = new @ [fin]" "list_all progress new" "ss_Messages s' = ss_Messages ?s @ reported new"
        "same_task ?s s'" "case fin of
          EventDone m \<Rightarrow> ss_Status s' = StatusCompleted \<and> lastMessage s' = Some m
        | EventError e \<Rightarrow> ss_Status s' = StatusFailed
        | _ \<Rightarrow> False" using Run_ended[OF run] by blast
      obtain out w1 where w: "watch b evs ('''', None) ?w0 = (out, w1)" by (metis prod.exhaust)
      have out: "out = (case fin of EventDone m \<Rightarrow> (finalText (Some m), None) | EventError e \<Rightarrow> ('''', Some e) | _ \<Rightarrow> ('''', None))"
        using watch_outcome[OF e(2), of b fin "('''', None)" ?w0] w e(1) by (simp split: event.split)
      have answer: "turn_answer out True = Some (delivers fin)"
        using e(5) by (auto simp: out turn_answer_def delivers_def split: event.splits)
      have fin: "event_msg fin = None" using e(5) by (cases fin) auto
      have ok: "status_ok b to (st_x st) (steps b evs) w1" using watch_ok[OF start w] by simp
      have "join nl (steps b evs) \<noteq> ''''" using last_step[OF fin, of b new] join_nonempty unfolding e(1) by metis
      then obtain s i x where 1: "status_flush b True w1 = (s, x)"
        "trail b to ('''', '''', st_x st) (i, join nl (steps b evs), x)" using status_flush_sends[OF ok, of True] by blast
      have "handlePrompt b to text st =
          Some (st\<lparr>st_current := s', st_w := w', st_x := bridge_send b to (delivers fin) x\<rparr>)"
        using run w 1(1) answer by (simp add: handlePrompt_def runTurn_def prompted_def Let_def)
      moreover have "ss_Messages s' = ss_Messages (st_current st) @ NewUserMessage text # reported new"
        using e(3) by (simp add: prompted_def append_msg_def)
      ultimately show ?thesis using run 1(2) e(1,5) same_task_trans[OF same e(4)] by (cases fin) auto
    qed
  qed
qed

subsection \<open>Calls that were never answered\<close>

lemma handlePrompt_session:
  "case Run (br_ctx b) (br_agent b) (Some (prompted text (st_current st))) (st_w st) of
     Inl e \<Rightarrow> \<exists>x. handlePrompt b to text st = Some (st\<lparr>st_current := prompted text (st_current st), st_x := x\<rparr>)
   | Inr None \<Rightarrow> handlePrompt b to text st = None
   | Inr (Some (s', evs, w')) \<Rightarrow> \<exists>x. handlePrompt b to text st = Some (st\<lparr>st_current := s', st_w := w', st_x := x\<rparr>)"
  by (auto simp: handlePrompt_def runTurn_def prompted_def Let_def split: sum.split option.split prod.split)

lemma settled_next:
  "settled ms \<Longrightarrow> ms = a @ m # u # c \<Longrightarrow> toolCalls (Some m) \<noteq> [] \<Longrightarrow> ms_Role u = RoleTool"
proof (induction arbitrary: a c rule: settled.induct)
  case (settled_plain ms m')
  show ?case
  proof (cases c rule: rev_cases)
    case Nil
    then have "ms = a @ [m]" using settled_plain.prems(1) by simp
    then show ?thesis using settled_last_calls[OF settled_plain.hyps(1)] settled_plain.prems(2) by simp
  next
    case (snoc c' x)
    then show ?thesis using settled_plain by auto
  qed
next
  case (settled_turn ms m' rs)
  have rs: "\<forall>r \<in> set rs. ms_Role r = RoleTool \<and> toolCalls (Some r) = []"
    using settled_turn.hyps(3) by (auto simp: list_all2_conv_all_nth in_set_conv_nth answers_def toolCalls_def)
  from settled_turn.prems(1) have "ms @ m' # rs = a @ m # u # c" .
  then obtain z where "(ms = a @ z \<and> z @ m' # rs = m # u # c) \<or> (a = ms @ z \<and> m' # rs = z @ m # u # c)"
    by (auto simp: append_eq_append_conv2)
  then show ?case
  proof
    assume z: "ms = a @ z \<and> z @ m' # rs = m # u # c"
    show ?thesis
    proof (cases z)
      case Nil
      then show ?thesis using z rs by auto
    next
      case (Cons y z')
      show ?thesis
      proof (cases z')
        case Nil
        then have "ms = a @ [m]" using z Cons by simp
        then show ?thesis using settled_last_calls[OF settled_turn.hyps(1)] settled_turn.prems(2) by simp
      next
        case (Cons y' z'')
        then show ?thesis using z \<open>z = y # z'\<close> settled_turn.IH settled_turn.prems(2) by auto
      qed
    qed
  next
    assume z: "a = ms @ z \<and> m' # rs = z @ m # u # c"
    then show ?thesis using rs settled_turn.prems(2) by (cases z) auto
  qed
qed simp

lemma unanswered_for_good:
  assumes "toolCalls (Some m) \<noteq> []"
  shows "\<not> transcript_ok (ms @ m # NewUserMessage text # rest)"
proof
  have u: "ms_Role (NewUserMessage text) \<noteq> RoleTool" by (simp add: NewUserMessage_def)
  assume "transcript_ok (ms @ m # NewUserMessage text # rest)"
  then consider "settled (ms @ m # NewUserMessage text # rest)"
    | ms' m' where "ms @ m # NewUserMessage text # rest = ms' @ [m']" "settled ms'" "toolCalls (Some m') \<noteq> []"
    by (auto simp: transcript_ok_def)
  then show False
  proof cases
    case 1
    then show False using settled_next[OF 1 refl assms] u by simp
  next
    case 2
    show False
    proof (cases rest rule: rev_cases)
      case Nil
      then have "m' = NewUserMessage text" using 2(1) by (simp add: append_eq_append_conv2 Cons_eq_append_conv)
      then show False using 2(3) by (simp add: toolCalls_def NewUserMessage_def)
    next
      case (snoc rest' x)
      then have "ms' = ms @ m # NewUserMessage text # rest'" using 2(1) by auto
      then show False using settled_next[OF 2(2) _ assms] u by blast
    qed
  qed
qed

text \<open>Calls left open stay open. A turn that failed between a model's answer and its tools leaves
  an assistant message whose calls have no results. The next prompt is appended after it, the loop
  looks at the last message only, and so these calls are neither run nor answered: no continuation
  of the transcript answers every call again, and each later request carries the open calls.\<close>

theorem open_calls_stay_open:
  assumes "toolCalls (lastMessage (st_current st)) \<noteq> []" "handlePrompt b to text st = Some st'"
  shows "\<not> (\<exists>rest. transcript_ok (ss_Messages (st_current st') @ rest))"
proof -
  let ?s = "prompted text (st_current st)"
  have "ss_Messages (st_current st) \<noteq> []" using assms(1) by (auto simp: lastMessage_def toolCalls_def)
  then obtain ms m where m: "ss_Messages (st_current st) = ms @ [m]" "toolCalls (Some m) \<noteq> []"
    using assms(1) by (cases "ss_Messages (st_current st)" rule: rev_cases) (auto simp: lastMessage_def)
  have "\<exists>new. ss_Messages (st_current st') = ss_Messages ?s @ new"
  proof (cases "Run (br_ctx b) (br_agent b) (Some ?s) (st_w st)")
    case (Inl e)
    then show ?thesis using handlePrompt_session[of b to "text" st] assms(2) by (auto intro: exI[of _ "[]"])
  next
    case (Inr t)
    then obtain s' evs w' where t: "t = Some (s', evs, w')"
      using handlePrompt_session[of b to "text" st] assms(2) by (cases t) auto
    then have "st_current st' = s'" using handlePrompt_session[of b to "text" st] assms(2) Inr by auto
    then show ?thesis using Run_ended[OF Inr[unfolded t]] by auto
  qed
  then show ?thesis using m unanswered_for_good[OF m(2)] by (auto simp: prompted_def append_msg_def)
qed

text \<open>An agent whose transcripts cannot be saved.\<close>

definition unsaved_agent :: "(unit, nat) agent" where
  "unsaved_agent = demo_agent\<lparr>ag_Store := Some \<lparr>so_Save = (\<lambda>s w. (w, Some (Opaque ''disk full''))),
     so_Load = (\<lambda>i w. (w, Inl ErrNotFound)), so_List = None\<rparr>\<rparr>"

definition asks :: msg where
  "asks = \<lparr>ms_Role = RoleAssistant, ms_Content = [ToolCallPart ''c1'' ''echo'' ''{}'']\<rparr>"

lemma unsaved_run:
  assumes "lastMessage s = Some (NewUserMessage text)" "ss_box s = Some ()"
  shows "\<exists>s' evs w'. Run (\<lambda>w. None) unsaved_agent (Some s) w = Inr (Some (s', evs, w')) \<and>
    ss_box s' = Some () \<and> (if 0 < w then lastMessage s' = Some asks else True)"
  using assms
  by (cases "w = 0") (simp_all add: Run_def unsaved_agent_def demo_agent_def session_Sandbox_def systemPrompt_def run_step_def
      toolCalls_def NewUserMessage_def model_round_def agent_call_def demo_model_def Collect_def gathered0_def
      finished_def Let_def fail_def lastMessage_def append_msg_def asks_def)

lemma unsaved_prompt:
  assumes "ss_box (st_current st) = Some ()"
  shows "\<exists>st'. handlePrompt (demo_bridge unsaved_agent) to text st = Some st' \<and>
    ss_box (st_current st') = Some () \<and> (if 0 < st_w st then lastMessage (st_current st') = Some asks else True)"
proof -
  have "lastMessage (prompted text (st_current st)) = Some (NewUserMessage text)"
    "ss_box (prompted text (st_current st)) = Some ()"
    using assms by (simp_all add: lastMessage_def prompted_def append_msg_def)
  then obtain s' evs w' where "Run (\<lambda>w. None) unsaved_agent (Some (prompted text (st_current st))) (st_w st) =
      Inr (Some (s', evs, w'))" "ss_box s' = Some ()" "if 0 < st_w st then lastMessage s' = Some asks else True"
    using unsaved_run by blast
  then show ?thesis
    using handlePrompt_session[of "demo_bridge unsaved_agent" to "text" st] by (auto simp: demo_bridge_def)
qed

theorem open_calls_stay_open_witness:
  "\<exists>st1 st2. handlePrompt (demo_bridge unsaved_agent) ''owner'' ''run it'' (demo_state demo_session 1 0) = Some st1 \<and>
     toolCalls (lastMessage (st_current st1)) \<noteq> [] \<and>
     handlePrompt (demo_bridge unsaved_agent) ''owner'' ''and now?'' st1 = Some st2 \<and>
     \<not> (\<exists>rest. transcript_ok (ss_Messages (st_current st2) @ rest))"
proof -
  obtain st1 where 1: "handlePrompt (demo_bridge unsaved_agent) ''owner'' ''run it'' (demo_state demo_session 1 0) = Some st1"
    "ss_box (st_current st1) = Some ()" "lastMessage (st_current st1) = Some asks"
    using unsaved_prompt[of "demo_state demo_session 1 0" "''owner''" "''run it''"]
    by (auto simp: demo_state_def demo_session_def)
  have calls: "toolCalls (lastMessage (st_current st1)) \<noteq> []" by (simp add: 1(3) asks_def toolCalls_def)
  obtain st2 where 2: "handlePrompt (demo_bridge unsaved_agent) ''owner'' ''and now?'' st1 = Some st2"
    using unsaved_prompt[OF 1(2)] by blast
  show ?thesis using 1(1) calls 2 open_calls_stay_open[OF calls 2] by blast
qed

end
