(* ===== verification/FileTools.thy ===== *)
theory FileTools
  imports SandboxBase Base64 Utf8 AgentBase
begin

section \<open>The built-in tools: metaharness/tools\<close>

text \<open>
  Each tool's \<open>Execute\<close> over \<open>exec\<close>, the sandbox's \<open>Exec\<close> on a world \<open>'w\<close>. An error of the
  sandbox is \<open>Inl\<close>; a command that ran and failed is a result with \<open>tr_IsError\<close>. Integers of the
  arguments are 64 bits wide, and \<open>quote\<close> is \<open>%q\<close>.
\<close>

type_synonym 'w executor = "command \<Rightarrow> 'w \<Rightarrow> 'w \<times> exec_result res"

definition said :: "string \<Rightarrow> tool_result res" where
  "said text = Inr \<lparr>tr_Content = text, tr_IsError = False\<rparr>"

definition refused :: "string \<Rightarrow> tool_result res" where
  "refused text = Inr \<lparr>tr_Content = text, tr_IsError = True\<rparr>"

subsection \<open>files.go\<close>

abbreviation (input) quote_mark :: string where "quote_mark \<equiv> [CHR 0x27]"
abbreviation (input) double_quote :: string where "double_quote \<equiv> [CHR 0x22]"

definition shellQuote :: "string \<Rightarrow> string" where
  "shellQuote s = quote_mark @ replace_all quote_mark [CHR 0x27, CHR 0x5C, CHR 0x27, CHR 0x27] s @ quote_mark"

definition runBash :: "'w executor \<Rightarrow> string \<Rightarrow> 'w \<Rightarrow> 'w \<times> exec_result res" where
  "runBash exec script = exec \<lparr>cmd_Cmd = ''bash'', cmd_Args = [''-c'', script]\<rparr>"

definition catFile :: "'w executor \<Rightarrow> string \<Rightarrow> 'w \<Rightarrow> 'w \<times> exec_result res" where
  "catFile exec path = runBash exec (''cat -- '' @ shellQuote path)"

definition put_script :: "string \<Rightarrow> string \<Rightarrow> string" where
  "put_script path content =
    (let q = shellQuote path; b64 = shellQuote (b64_encode content) in
     ''mkdir -p -- '' @ double_quote @ ''$(dirname -- '' @ q @ '')'' @ double_quote @ '' && printf %s '' @ b64 @
     '' | base64 -d > '' @ q)"

definition putFile :: "'w executor \<Rightarrow> string \<Rightarrow> string \<Rightarrow> 'w \<Rightarrow> 'w \<times> exec_result res" where
  "putFile exec path content = runBash exec (put_script path content)"

definition execErr :: "exec_result \<Rightarrow> string \<Rightarrow> string" where
  "execErr r fallback =
    (if trim_space (Stderr r) \<noteq> '''' then trim_space (Stderr r)
     else if trim_space (Stdout r) \<noteq> '''' then trim_space (Stdout r)
     else fallback)"

subsection \<open>bash.go\<close>

definition bash_meta :: tool_def where
  "bash_meta = \<lparr>td_Name = ''bash'', td_Description = ''Run a shell command in the sandbox.'', td_Schema = []\<rparr>"

definition bash_Execute :: "'w executor \<Rightarrow> string \<Rightarrow> 'w \<Rightarrow> 'w \<times> tool_result res" where
  "bash_Execute exec cmd w =
    (case exec \<lparr>cmd_Cmd = ''bash'', cmd_Args = [''-c'', cmd]\<rparr> w of
       (w1, Inl e) \<Rightarrow> (w1, Inl e)
     | (w1, Inr r) \<Rightarrow>
        (let out = (if Stderr r \<noteq> '''' then Stdout r @ nl @ Stderr r else Stdout r) in
         (w1, Inr \<lparr>tr_Content = out, tr_IsError = (ExitCode r \<noteq> 0)\<rparr>)))"

subsection \<open>write_file.go\<close>

record write_args =
  wa_Path :: string
  wa_Content :: string

definition write_meta :: tool_def where
  "write_meta = \<lparr>td_Name = ''write_file'',
     td_Description = ''Create a file in the sandbox, or overwrite it if it already exists.'', td_Schema = []\<rparr>"

definition write_Execute :: "'w executor \<Rightarrow> write_args \<Rightarrow> 'w \<Rightarrow> 'w \<times> tool_result res" where
  "write_Execute exec a w =
    (case putFile exec (wa_Path a) (wa_Content a) w of
       (w1, Inl e) \<Rightarrow> (w1, Inl e)
     | (w1, Inr r) \<Rightarrow>
        if ExitCode r \<noteq> 0 then (w1, refused (execErr r (''could not write '' @ wa_Path a)))
        else (w1, said (''wrote '' @ itoa (int (length (wa_Content a))) @ '' bytes to '' @ wa_Path a)))"

subsection \<open>edit_file.go\<close>

record edit_args =
  ea_Path :: string
  ea_OldString :: string
  ea_NewString :: string
  ea_ReplaceAll :: bool

definition edit_meta :: tool_def where
  "edit_meta = \<lparr>td_Name = ''edit_file'',
     td_Description = ''Replace an exact string in an existing file. By default old_string must be unique; set replace_all to change every occurrence.'',
     td_Schema = []\<rparr>"

text \<open>\<open>strings.Replace(s, old, new, 1)\<close>.\<close>

definition replace_first :: "string \<Rightarrow> string \<Rightarrow> string \<Rightarrow> string" where
  "replace_first old new s = (case cut s old of None \<Rightarrow> s | Some (a, b) \<Rightarrow> a @ new @ b)"

definition edit_Execute :: "'w executor \<Rightarrow> edit_args \<Rightarrow> 'w \<Rightarrow> 'w \<times> tool_result res" where
  "edit_Execute exec a w =
    (if ea_OldString a = '''' then (w, refused ''old_string must not be empty'')
     else if ea_OldString a = ea_NewString a
     then (w, refused ''old_string and new_string are identical; nothing to change'')
     else case catFile exec (ea_Path a) w of
       (w1, Inl e) \<Rightarrow> (w1, Inl e)
     | (w1, Inr r) \<Rightarrow>
        if ExitCode r \<noteq> 0 then (w1, refused (execErr r (''could not read '' @ ea_Path a)))
        else
          (let content = Stdout r; n = go_count content (ea_OldString a) in
           if n = 0 then (w1, refused (''old_string not found in '' @ ea_Path a))
           else if n > 1 \<and> \<not> ea_ReplaceAll a
           then (w1, refused (''old_string is not unique in '' @ ea_Path a @ '' (found '' @ itoa (int n) @
                  '' matches); add surrounding context or set replace_all''))
           else
             (let (updated, count) =
                    (if ea_ReplaceAll a then (replace_all (ea_OldString a) (ea_NewString a) content, n)
                     else (replace_first (ea_OldString a) (ea_NewString a) content, 1)) in
              case putFile exec (ea_Path a) updated w1 of
                (w2, Inl e) \<Rightarrow> (w2, Inl e)
              | (w2, Inr r2) \<Rightarrow>
                 if ExitCode r2 \<noteq> 0 then (w2, refused (execErr r2 (''could not write '' @ ea_Path a)))
                 else (w2, said (''made '' @ itoa (int count) @ '' replacement(s) in '' @ ea_Path a)))))"

subsection \<open>read_file.go\<close>

record read_args =
  ra_Path :: string
  ra_Offset :: int
  ra_Limit :: int

definition defaultReadLimit :: int where "defaultReadLimit = 2000"
definition maxLineLen :: nat where "maxLineLen = 2000"

text \<open>Two's complement arithmetic on 64 bits.\<close>

definition wrap64 :: "int \<Rightarrow> int" where "wrap64 n = (n + 2 ^ 63) mod 2 ^ 64 - 2 ^ 63"

definition clipLine :: "string \<Rightarrow> string \<times> bool" where
  "clipLine s =
    (if length s \<le> maxLineLen then (s, False)
     else
       (let r = runes s in
        if length r \<le> maxLineLen then (s, False)
        else (of_runes (take maxLineLen r) @ encode_rune 0x2026 @ '' [line clipped: '' @ itoa (int (length r)) @
              '' characters total]'', True)))"

text \<open>\<open>%6d\<close>.\<close>

definition pad6 :: "string \<Rightarrow> string" where "pad6 s = replicate (6 - length s) CHR '' '' @ s"

definition numbered :: "int \<Rightarrow> string \<Rightarrow> string" where
  "numbered i line = pad6 (itoa i) @ tab @ line @ nl"

record read_window =
  rw_text :: string
  rw_from :: int
  rw_to :: int
  rw_total :: int
  rw_clipped :: int

definition no_window :: read_window where
  "no_window = \<lparr>rw_text = '''', rw_from = 0, rw_to = 0, rw_total = 0, rw_clipped = 0\<rparr>"

definition file_lines :: "string \<Rightarrow> string list" where
  "file_lines content =
    split_on CHR 0x0A (if has_suffix content nl then take (length content - 1) content else content)"

definition numberLines :: "string \<Rightarrow> int \<Rightarrow> int \<Rightarrow> read_window" where
  "numberLines content offset limit =
    (if content = '''' then no_window
     else
       (let lines = file_lines content; total = int (length lines); first = max offset 1 in
        if first > total then no_window\<lparr>rw_total := total\<rparr>
        else
          (let end_line = wrap64 (wrap64 (first + limit) - 1);
               to = (if limit > 0 \<and> end_line < total then end_line else total);
               shown = map (\<lambda>i. (i, clipLine (lines ! nat (i - 1)))) [first..to] in
           \<lparr>rw_text = concat (map (\<lambda>(i, line, was_cut). numbered i line) shown), rw_from = first, rw_to = to,
            rw_total = total, rw_clipped = int (length (filter (\<lambda>(i, line, was_cut). was_cut) shown))\<rparr>)))"

definition more_hint :: "read_window \<Rightarrow> string" where
  "more_hint w =
    (if rw_to w < rw_total w
     then nl @ ''[showing lines '' @ itoa (rw_from w) @ ''-'' @ itoa (rw_to w) @ '' of '' @ itoa (rw_total w) @
       ''; use offset/limit to read more]'' @ nl
     else '''')"

definition clip_hint :: "read_window \<Rightarrow> string" where
  "clip_hint w =
    (if rw_clipped w > 0
     then nl @ ''['' @ itoa (rw_clipped w) @ '' line(s) exceeded '' @ itoa (int maxLineLen) @
       '' characters and were clipped; their full contents are not shown]'' @ nl
     else '''')"

definition read_meta :: tool_def where
  "read_meta = \<lparr>td_Name = ''read_file'', td_Description =
     ''Read a file in the sandbox. Output is line-numbered in `cat -n` style: a right-aligned line number, a tab, then '' @
     ''the line'' @ quote_mark @ ''s contents. The line-number prefix is metadata to help you reference lines '' @
     encode_rune 0x2014 @ '' it is not part of the file. Long files are truncated to '' @ itoa defaultReadLimit @
     '' lines (use offset and limit to read a specific range), and any single line longer than '' @
     itoa (int maxLineLen) @ '' characters is clipped.'', td_Schema = []\<rparr>"

definition read_Execute :: "'w executor \<Rightarrow> read_args \<Rightarrow> 'w \<Rightarrow> 'w \<times> tool_result res" where
  "read_Execute exec a w =
    (case catFile exec (ra_Path a) w of
       (w1, Inl e) \<Rightarrow> (w1, Inl e)
     | (w1, Inr r) \<Rightarrow>
        if ExitCode r \<noteq> 0 then (w1, refused (execErr r (''could not read '' @ ra_Path a)))
        else
          (let limit = (if ra_Limit a \<le> 0 then defaultReadLimit else ra_Limit a);
               win = numberLines (Stdout r) (ra_Offset a) limit in
           (w1, said
             (if rw_total win = 0 then ra_Path a @ '' is empty''
              else if rw_from win = 0
              then ''offset '' @ itoa (ra_Offset a) @ '' is past the end of '' @ ra_Path a @ '' ('' @
                itoa (rw_total win) @ '' lines)''
              else rw_text win @ more_hint win @ clip_hint win))))"

subsection \<open>skill.go\<close>

record skill =
  sk_Name :: string
  sk_Description :: string
  sk_Instructions :: string

record skill_args =
  ska_Name :: string
  ska_Args :: string

definition trim_newlines :: "string \<Rightarrow> string" where
  "trim_newlines s = rev (dropWhile (\<lambda>c. c = CHR 0x0A) (rev s))"

definition skill_Execute :: "(string \<Rightarrow> string) \<Rightarrow> skill list \<Rightarrow> skill_args \<Rightarrow> 'w \<Rightarrow> 'w \<times> tool_result res" where
  "skill_Execute quote available a w =
    (w, case map_of (rev (map (\<lambda>s. (sk_Name s, s)) available)) (ska_Name a) of
          None \<Rightarrow> refused (''unknown skill '' @ quote (ska_Name a) @ ''; available skills: '' @
            join '', '' (map sk_Name available))
        | Some s \<Rightarrow> said
            (''<skill_content name='' @ quote (sk_Name s) @ ''>'' @ nl @ trim_newlines (sk_Instructions s) @ nl @
             (if ska_Args a \<noteq> '''' then nl @ ''Arguments passed to the skill: '' @ ska_Args a @ nl else '''') @
             ''</skill_content>''))"

definition renderCatalog :: "skill list \<Rightarrow> string" where
  "renderCatalog available =
     ''<available_skills>'' @
     concat (map (\<lambda>s. nl @ ''  <skill>'' @ nl @ ''    <name>'' @ sk_Name s @ ''</name>'' @ nl @
       ''    <description>'' @ sk_Description s @ ''</description>'' @ nl @ ''  </skill>'') available) @
     nl @ ''</available_skills>''"

definition skillDescription :: string where
  "skillDescription =
     ''Execute a skill within the conversation. Skills provide specialized capabilities and domain knowledge; the result of this call is the skill'' @
     quote_mark @ ''s full instructions '' @ encode_rune 0x2014 @ '' follow them for the task at hand.'' @ nl @ nl @
     ''When the user asks you to perform a task, check if one of the available skills matches. If one does, this is a BLOCKING REQUIREMENT: '' @
     ''invoke this tool BEFORE generating any other response about the task, and never mention a skill without actually calling this tool. '' @
     ''Set `args` to pass optional arguments to the skill.'' @ nl @ nl @
     ''Only invoke a skill listed below, or one the user explicitly names in their message. '' @
     ''Never guess or invent a skill name; if nothing matches, do not call this tool.'' @ nl @ nl @
     ''A loaded skill appears in the conversation as an XML block:'' @ nl @ nl @
     ''<skill_content name='' @ double_quote @ ''skill-name'' @ double_quote @ ''>'' @ nl @
     ''[the skill'' @ quote_mark @ ''s instructions]'' @ nl @ ''</skill_content>'' @ nl @ nl @
     ''If a <skill_content> block for a skill is already present in the current conversation, that skill is ALREADY loaded '' @
     encode_rune 0x2014 @ '' follow its instructions directly instead of calling this tool again.''"

definition skill_meta :: "skill list \<Rightarrow> tool_def" where
  "skill_meta available = \<lparr>td_Name = ''skill'', td_Description = skillDescription @ nl @ nl @ renderCatalog available,
     td_Schema = []\<rparr>"

subsection \<open>What bash makes of the scripts\<close>

text \<open>
  A word written with single quotes and backslashes only: its value and what follows it. Between
  single quotes every character stands for itself; a backslash outside them quotes the next
  character (a newline so quoted would vanish, so it is not read as one).
\<close>

fun quoted_word :: "bool \<Rightarrow> string \<Rightarrow> (string \<times> string) option" where
  "quoted_word q [] = (if q then None else Some ([], []))"
| "quoted_word q (c # s) =
    (if c = CHR 0x27 then quoted_word (\<not> q) s
     else if q then map_option (apfst ((#) c)) (quoted_word True s)
     else if c = CHR 0x5C then
       (case s of [] \<Rightarrow> None | d # t \<Rightarrow>
          if d = CHR 0x0A then None else map_option (apfst ((#) d)) (quoted_word False t))
     else Some ([], c # s))"

definition plain_next :: "string \<Rightarrow> bool" where
  "plain_next rest = (case rest of [] \<Rightarrow> True | c # t \<Rightarrow> c \<noteq> CHR 0x27 \<and> c \<noteq> CHR 0x5C)"

lemma quoted_inside:
  "plain_next rest \<Longrightarrow>
   quoted_word True (concat (map (\<lambda>c. if c = CHR 0x27 then [CHR 0x27, CHR 0x5C, CHR 0x27, CHR 0x27] else [c]) s) @
     CHR 0x27 # rest) = Some (s, rest)"
proof (induction s)
  case Nil
  then show ?case by (cases rest) (auto simp: plain_next_def)
qed simp

text \<open>A quoted string is one word, whatever is in it.\<close>

lemma shellQuote_word [simp]: "plain_next rest \<Longrightarrow> quoted_word False (shellQuote s @ rest) = Some (s, rest)"
  using quoted_inside[of rest s] by (simp add: shellQuote_def replace_all_char)

lemma shellQuote_alone [simp]: "quoted_word False (shellQuote s) = Some (s, [])"
  using shellQuote_word[of "[]" s] by (simp add: plain_next_def)

text \<open>\<open>cat -- WORD\<close>, and the script that decodes a word into a file.\<close>

definition cat_path :: "string \<Rightarrow> string option" where
  "cat_path script =
    (case cut_prefix script ''cat -- '' of
       None \<Rightarrow> None
     | Some t \<Rightarrow> (case quoted_word False t of Some (p, []) \<Rightarrow> Some p | _ \<Rightarrow> None))"

definition put_parts :: "string \<Rightarrow> (string \<times> string \<times> string) option" where
  "put_parts script =
    (case cut_prefix script (''mkdir -p -- '' @ double_quote @ ''$(dirname -- '') of
       None \<Rightarrow> None
     | Some t \<Rightarrow> (case quoted_word False t of
         None \<Rightarrow> None
       | Some (dir_of, t) \<Rightarrow> (case cut_prefix t ('')'' @ double_quote @ '' && printf %s '') of
           None \<Rightarrow> None
         | Some t \<Rightarrow> (case quoted_word False t of
             None \<Rightarrow> None
           | Some (encoded, t) \<Rightarrow> (case cut_prefix t '' | base64 -d > '' of
               None \<Rightarrow> None
             | Some t \<Rightarrow> (case quoted_word False t of Some (p, []) \<Rightarrow> Some (dir_of, encoded, p) | _ \<Rightarrow> None))))))"

lemma cat_path_catFile: "cat_path (''cat -- '' @ shellQuote p) = Some p"
  by (simp add: cat_path_def del: append.simps append_Cons)

lemma put_parts_put_script: "put_parts (put_script p content) = Some (p, b64_encode content, p)"
proof -
  have next1: "plain_next ('')'' @ rest)" "plain_next ('' | base64 -d > '' @ rest)" for rest
    by (simp_all add: plain_next_def)
  let ?t3 = "'' | base64 -d > '' @ shellQuote p"
  let ?t2 = "('')'' @ double_quote @ '' && printf %s '') @ shellQuote (b64_encode content) @ ?t3"
  have s: "put_script p content = (''mkdir -p -- '' @ double_quote @ ''$(dirname -- '') @ shellQuote p @ ?t2"
    by (simp add: put_script_def Let_def)
  have 1: "quoted_word False (shellQuote p @ ?t2) = Some (p, ?t2)"
    by (rule shellQuote_word) (simp add: plain_next_def)
  have 2: "quoted_word False (shellQuote (b64_encode content) @ ?t3) = Some (b64_encode content, ?t3)"
    by (rule shellQuote_word) (simp add: plain_next_def)
  show ?thesis unfolding put_parts_def s cut_prefix_append option.case 1 prod.case 2 by simp
qed

text \<open>
  What the tools rely on: \<open>cat\<close> changes nothing and, when it succeeds, prints the file; the other
  script, when it succeeds, leaves the decoded bytes in the file. (\<open>cat -- -\<close> would read standard
  input.)
\<close>

definition shell_documented :: "'w executor \<Rightarrow> ('w \<Rightarrow> string \<Rightarrow> string option) \<Rightarrow> bool" where
  "shell_documented exec file = (\<forall>script w w' r. runBash exec script w = (w', r) \<longrightarrow>
     (\<forall>p. cat_path script = Some p \<and> p \<noteq> ''-'' \<longrightarrow> file w' = file w \<and>
        (\<forall>res. r = Inr res \<and> ExitCode res = 0 \<longrightarrow> file w p = Some (Stdout res))) \<and>
     (\<forall>p encoded content. put_parts script = Some (p, encoded, p) \<and> b64_decode encoded = Some content \<longrightarrow>
        (\<forall>res. r = Inr res \<and> ExitCode res = 0 \<longrightarrow> file w' p = Some content)))"

lemma documented_cat:
  assumes "shell_documented exec file" "runBash exec script w = (w', r)" "cat_path script = Some p" "p \<noteq> ''-''"
  shows "file w' = file w \<and> (\<forall>res. r = Inr res \<and> ExitCode res = 0 \<longrightarrow> file w p = Some (Stdout res))"
  using assms(1)[unfolded shell_documented_def, rule_format, OF assms(2), THEN conjunct1, rule_format, of p] assms(3,4)
  by simp

lemma documented_put:
  assumes "shell_documented exec file" "runBash exec script w = (w', Inr res)" "put_parts script = Some (p, encoded, p)"
    "b64_decode encoded = Some content" "ExitCode res = 0"
  shows "file w' p = Some content"
  using assms(1)[unfolded shell_documented_def, rule_format, OF assms(2), THEN conjunct2, rule_format, of p encoded content res]
    assms(3-5) by simp

lemma catFile_reads:
  assumes "shell_documented exec file" "path \<noteq> ''-''" "catFile exec path w = (w', r)"
  shows "file w' = file w \<and> (\<forall>res. r = Inr res \<and> ExitCode res = 0 \<longrightarrow> file w path = Some (Stdout res))"
  by (rule documented_cat[OF assms(1) assms(3)[unfolded catFile_def] cat_path_catFile assms(2)])

lemma putFile_writes:
  assumes "shell_documented exec file" "putFile exec path content w = (w', Inr res)" "ExitCode res = 0"
  shows "file w' path = Some content"
  by (rule documented_put[OF assms(1) assms(2)[unfolded putFile_def] put_parts_put_script b64_decode_encode assms(3)])

end
