(* ===== verification/Tools.thy ===== *)
theory Tools
  imports FileTools
begin

section \<open>What the file tools promise\<close>

text \<open>
  Editing replaces exactly what was matched; reading a file window by window gives back all of it.
  Both hold whatever is in the path and the contents, since quoting and encoding carry them through
  the shell.
\<close>

subsection \<open>A shell to try things on\<close>

text \<open>Files by name; anything but the two scripts fails.\<close>

definition ran :: "string \<Rightarrow> exec_result res" where
  "ran out = Inr \<lparr>Stdout = out, Stderr = '''', ExitCode = 0\<rparr>"

definition failed :: "exec_result res" where
  "failed = Inr \<lparr>Stdout = '''', Stderr = ''no'', ExitCode = 1\<rparr>"

definition demo_exec :: "(string \<times> string) list executor" where
  "demo_exec c w =
    (let script = last (cmd_Args c) in
     case cat_path script of
       Some p \<Rightarrow> (w, case map_of w p of Some content \<Rightarrow> ran content | None \<Rightarrow> failed)
     | None \<Rightarrow> (case put_parts script of
         Some (d, encoded, p) \<Rightarrow>
           (case b64_decode encoded of Some content \<Rightarrow> (AList.update p content w, ran '''') | None \<Rightarrow> (w, failed))
       | None \<Rightarrow> (w, failed)))"

lemma cat_is_not_put: "cat_path script = Some p \<Longrightarrow> put_parts script = None"
  by (auto simp: cat_path_def put_parts_def cut_prefix_def has_prefix_iff split: if_splits)

lemma demo_exec_documented: "shell_documented demo_exec map_of"
  unfolding shell_documented_def
proof (intro allI impI conjI)
  fix script w w' r p assume "runBash demo_exec script w = (w', r)" "cat_path script = Some p \<and> p \<noteq> ''-''"
  then show "map_of w' = map_of w" by (auto simp: runBash_def demo_exec_def)
next
  fix script w w' r p res assume "runBash demo_exec script w = (w', r)" "cat_path script = Some p \<and> p \<noteq> ''-''"
    "r = Inr res \<and> ExitCode res = 0"
  then show "map_of w p = Some (Stdout res)"
    by (auto simp: runBash_def demo_exec_def ran_def failed_def split: option.splits)
next
  fix script w w' r p encoded content res
  assume a: "runBash demo_exec script w = (w', r)"
    "put_parts script = Some (p, encoded, p) \<and> b64_decode encoded = Some content" "r = Inr res \<and> ExitCode res = 0"
  then have "cat_path script = None" using cat_is_not_put by fastforce
  then show "map_of w' p = Some content" using a by (auto simp: runBash_def demo_exec_def update_conv')
qed

lemma demo_cat: "catFile demo_exec p w = (w, case map_of w p of Some content \<Rightarrow> ran content | None \<Rightarrow> failed)"
  unfolding catFile_def runBash_def demo_exec_def by (simp add: cat_path_catFile del: append.simps append_Cons)

lemma demo_put: "putFile demo_exec p content w = (AList.update p content w, ran '''')"
proof -
  have "cat_path (put_script p content) = None"
    using cat_is_not_put[of "put_script p content"] put_parts_put_script[of p content] by (cases "cat_path (put_script p content)") auto
  then show ?thesis by (simp add: putFile_def runBash_def demo_exec_def put_parts_put_script)
qed

subsection \<open>Editing\<close>

text \<open>C22. An edit replaces exactly what it matched. On a shell that does what bash documents, for any
  path but a lone dash and any contents: when \<open>edit_file\<close> succeeds, the file's contents were some pieces
  joined by the old string, one match unless all were asked for, and are now the same pieces joined
  by the new one; the number reported is the number of matches. When it refuses, no file was
  touched, unless the write itself failed.\<close>

theorem edits_are_exact:
  assumes "shell_documented exec file" "ea_Path a \<noteq> ''-''" "edit_Execute exec a w = (w', Inr r)"
  shows "if tr_IsError r
    then file w' = file w \<or> (\<exists>c w1 res. putFile exec (ea_Path a) c w1 = (w', Inr res) \<and> ExitCode res \<noteq> 0)
    else \<exists>content ps n. file w (ea_Path a) = Some content \<and> ps = pieces content (ea_OldString a) \<and>
      content = join (ea_OldString a) ps \<and> length ps = n + 1 \<and> 0 < n \<and> (n = 1 \<or> ea_ReplaceAll a) \<and>
      file w' (ea_Path a) = Some (join (ea_NewString a) ps) \<and>
      tr_Content r = ''made '' @ itoa (int n) @ '' replacement(s) in '' @ ea_Path a"
proof (cases "ea_OldString a = '''' \<or> ea_OldString a = ea_NewString a")
  case True
  then show ?thesis using assms(3) by (auto simp: edit_Execute_def refused_def split: if_splits)
next
  case False
  let ?old = "ea_OldString a" and ?new = "ea_NewString a"
  obtain w1 r1 where cat: "catFile exec (ea_Path a) w = (w1, r1)" by (metis prod.exhaust)
  note reads = catFile_reads[OF assms(1,2) cat]
  obtain res where r1: "r1 = Inr res" using assms(3) False cat by (cases r1) (auto simp: edit_Execute_def)
  let ?ps = "pieces (Stdout res) ?old" and ?n = "go_count (Stdout res) ?old"
  have n: "length ?ps = ?n + 1" using count_pieces[of ?old "Stdout res"] False by (cases ?ps) auto
  show ?thesis
  proof (cases "ExitCode res \<noteq> 0 \<or> ?n = 0 \<or> (?n > 1 \<and> \<not> ea_ReplaceAll a)")
    case True
    then show ?thesis using assms(3) False cat r1 reads by (auto simp: edit_Execute_def refused_def Let_def split: if_splits)
  next
    case go: False
    have ok: "file w (ea_Path a) = Some (Stdout res)" using reads r1 go by simp
    let ?updated = "if ea_ReplaceAll a then replace_all ?old ?new (Stdout res) else replace_first ?old ?new (Stdout res)"
    have updated: "?updated = join ?new ?ps"
    proof (cases "ea_ReplaceAll a")
      case True
      then show ?thesis using replace_all_pieces[of ?old ?new "Stdout res"] False by simp
    next
      case one: False
      then have "length ?ps = 2" using go n by simp
      then obtain x y where ps: "?ps = [x, y]" by (auto simp: length_Suc_conv numeral_2_eq_2)
      then obtain p q where cut: "cut (Stdout res) ?old = Some (p, q)"
        using pieces_None[of "Stdout res" ?old] by (cases "cut (Stdout res) ?old") auto
      have "p = x" "pieces q ?old = [y]" using pieces_Some[OF _ cut] False ps by auto
      moreover then have "q = y" using join_pieces[of ?old q] False by simp
      ultimately show ?thesis using one cut ps by (simp add: replace_first_def)
    qed
    obtain w2 r2 where put: "putFile exec (ea_Path a) (join ?new ?ps) w1 = (w2, r2)" by (metis prod.exhaust)
    obtain res2 where r2: "r2 = Inr res2" using assms(3) False cat r1 go put updated
      by (cases r2) (auto simp: edit_Execute_def Let_def split: if_splits)
    have run: "(w', Inr r) = (w2, if ExitCode res2 \<noteq> 0
        then refused (execErr res2 (''could not write '' @ ea_Path a))
        else said (''made '' @ itoa (int (if ea_ReplaceAll a then ?n else 1)) @ '' replacement(s) in '' @ ea_Path a))"
      using assms(3) False cat r1 go put r2 updated by (auto simp: edit_Execute_def Let_def split: if_splits)
    show ?thesis
    proof (cases "ExitCode res2 = 0")
      case True
      have "file w2 (ea_Path a) = Some (join ?new ?ps)"
        using putFile_writes[OF assms(1) put[unfolded r2] True] .
      moreover have "(if ea_ReplaceAll a then ?n else 1) = ?n" using go by auto
      ultimately show ?thesis using run True ok n go join_pieces[of ?old "Stdout res"] False
        by (auto simp: said_def)
    next
      case bad: False
      then show ?thesis using run put r2 by (auto simp: refused_def)
    qed
  qed
qed

definition demo_files :: "(string \<times> string) list" where
  "demo_files = [(''a.txt'', ''one two two'')]"

theorem edits_are_exact_witness:
  "\<exists>w' r. edit_Execute demo_exec \<lparr>ea_Path = ''a.txt'', ea_OldString = ''two'', ea_NewString = ''2'', ea_ReplaceAll = True\<rparr>
      demo_files = (w', Inr r) \<and> \<not> tr_IsError r \<and> map_of w' ''a.txt'' = Some ''one 2 2''"
proof -
  let ?a = "\<lparr>ea_Path = ''a.txt'', ea_OldString = ''two'', ea_NewString = ''2'', ea_ReplaceAll = True\<rparr>"
  have n: "go_count ''one two two'' ''two'' = 2" and u: "replace_all ''two'' ''2'' ''one two two'' = ''one 2 2''"
    and ps: "pieces ''one two two'' ''two'' = [''one '', '' '', '''']"
    by (simp_all add: go_count.simps replace_all.simps pieces.simps)
  have "\<exists>r. edit_Execute demo_exec ?a demo_files = (AList.update ''a.txt'' ''one 2 2'' demo_files, Inr r) \<and> \<not> tr_IsError r"
    by (simp add: edit_Execute_def demo_cat demo_put demo_files_def ran_def n u said_def Let_def)
  then obtain r where r: "edit_Execute demo_exec ?a demo_files = (AList.update ''a.txt'' ''one 2 2'' demo_files, Inr r)"
    "\<not> tr_IsError r" by blast
  have "map_of (AList.update ''a.txt'' ''one 2 2'' demo_files) ''a.txt'' = Some ''one 2 2''"
    using edits_are_exact[OF demo_exec_documented _ r(1)] r(2) ps by (simp add: demo_files_def)
  then show ?thesis using r by blast
qed

subsection \<open>Reading\<close>

text \<open>Reading on from where the last window ended, as \<open>read_file\<close> tells its caller to.\<close>

definition read_on :: "string \<Rightarrow> int \<Rightarrow> int \<times> string \<Rightarrow> int \<times> string + string" where
  "read_on content limit = (\<lambda>(offset, out).
     let w = numberLines content offset limit in
     if rw_to w < rw_total w then Inl (rw_to w + 1, out @ rw_text w) else Inr (out @ rw_text w))"

text \<open>A text's lines without their numbers.\<close>

definition unnumbered :: "string \<Rightarrow> string list" where
  "unnumbered out = map (\<lambda>l. tl (dropWhile (\<lambda>c. c \<noteq> CHR 0x09) l)) (file_lines out)"

definition numbered_lines :: "string list \<Rightarrow> int \<Rightarrow> int \<Rightarrow> string" where
  "numbered_lines ls first to = concat (map (\<lambda>i. numbered i (ls ! nat (i - 1))) [first..to])"

lemma file_lines_nonempty [simp]: "file_lines content \<noteq> []"
  by (simp add: file_lines_def)

lemma file_lines_clean: "l \<in> set (file_lines content) \<Longrightarrow> CHR 0x0A \<notin> set l"
  using split_on_clean by (auto simp: file_lines_def)

lemma file_lines_content:
  "content = join nl (file_lines content) \<or> content = join nl (file_lines content) @ nl"
proof (cases "has_suffix content nl")
  case True
  then obtain t where "content = t @ nl" unfolding has_suffix_iff by blast
  then show ?thesis using True by (simp add: file_lines_def nl_def)
next
  case False
  then show ?thesis by (simp add: file_lines_def nl_def)
qed

lemma concat_terminated: "xs \<noteq> [] \<Longrightarrow> concat (map (\<lambda>x. x @ nl) xs) = join nl xs @ nl"
proof (induction xs)
  case (Cons x xs)
  then show ?case by (cases xs) (simp_all add: join_Cons)
qed simp

lemma file_lines_terminated:
  assumes "xs \<noteq> []" "\<forall>x \<in> set xs. CHR 0x0A \<notin> set x"
  shows "file_lines (concat (map (\<lambda>x. x @ nl) xs)) = xs"
proof -
  have c: "concat (map (\<lambda>x. x @ nl) xs) = join nl xs @ nl" by (rule concat_terminated[OF assms(1)])
  have "has_suffix (join nl xs @ nl) nl" unfolding has_suffix_iff by blast
  then show ?thesis unfolding c file_lines_def using split_on_join[OF assms] by (simp add: nl_def)
qed

lemma itoa_set: "c \<in> set (itoa i) \<Longrightarrow> is_digit c \<or> c = CHR ''-''"
  using nat_digits_digits by (auto simp: itoa_def list_all_iff split: if_splits)

lemma pad6_set: "c \<in> set (pad6 (itoa i)) \<Longrightarrow> c \<noteq> CHR 0x09 \<and> c \<noteq> CHR 0x0A"
  using itoa_set[of c i] by (auto simp: pad6_def is_digit_def)

lemma clipLine_short: "length (runes s) \<le> maxLineLen \<Longrightarrow> clipLine s = (s, False)"
  by (simp add: clipLine_def Let_def)

lemma numberLines_window:
  assumes "content \<noteq> ''''" "1 \<le> offset" "offset \<le> int (length (file_lines content))" "0 < limit"
    and "int (length (file_lines content)) + limit < 2 ^ 63"
    and "\<forall>l \<in> set (file_lines content). length (runes l) \<le> maxLineLen"
  shows "numberLines content offset limit =
    (let total = int (length (file_lines content)); to = min (offset + limit - 1) total in
     \<lparr>rw_text = numbered_lines (file_lines content) offset to, rw_from = offset, rw_to = to, rw_total = total, rw_clipped = 0\<rparr>)"
proof -
  let ?ls = "file_lines content"
  have wrap: "wrap64 (wrap64 (offset + limit) - 1) = offset + limit - 1"
    using assms by (simp add: wrap64_def)
  let ?to = "min (offset + limit - 1) (int (length ?ls))"
  have pt: "clipLine (?ls ! nat (i - 1)) = (?ls ! nat (i - 1), False)" if "i \<in> set [offset..?to]" for i
    using that assms(2,6) by (auto intro!: clipLine_short)
  have out: "map (\<lambda>x. case clipLine (?ls ! nat (x - 1)) of (line, was_cut) \<Rightarrow> numbered x line) [offset..?to] =
      map (\<lambda>i. numbered i (?ls ! nat (i - 1))) [offset..?to]"
    by (rule map_cong[OF refl]) (simp add: pt del: set_upto)
  have none: "filter (\<lambda>x. case clipLine (?ls ! nat (x - 1)) of (line, was_cut) \<Rightarrow> was_cut) [offset..?to] = []"
    unfolding filter_empty_conv by (simp add: pt del: set_upto)
  have to: "(if limit > 0 \<and> offset + limit - 1 < int (length ?ls) then offset + limit - 1 else int (length ?ls)) = ?to"
    using assms(4) by auto
  have mx: "max offset 1 = offset" using assms(2) by simp
  have "\<not> offset > int (length ?ls)" using assms(3) by simp
  then show ?thesis using assms(1)
    by (simp add: numberLines_def Let_def wrap mx to out none numbered_lines_def comp_def filter_map del: upto.simps)
qed

lemma numbered_lines_append:
  "1 \<le> j \<Longrightarrow> j \<le> k + 1 \<Longrightarrow> numbered_lines ls 1 (j - 1) @ numbered_lines ls j k = numbered_lines ls 1 k"
proof -
  assume a: "1 \<le> j" "j \<le> k + 1"
  have "[1..k] = [1..j - 1] @ [j..k]"
  proof (cases "j = k + 1")
    case False
    then show ?thesis using a upto_split1[of 1 j k] by simp
  qed simp
  then show ?thesis by (simp add: numbered_lines_def)
qed

lemma unnumbered_lines:
  assumes "ls \<noteq> []" "\<forall>l \<in> set ls. CHR 0x0A \<notin> set l"
  shows "unnumbered (numbered_lines ls 1 (int (length ls))) = ls"
proof -
  let ?xs = "map (\<lambda>i. pad6 (itoa i) @ tab @ (ls ! nat (i - 1))) [1..int (length ls)]"
  have out: "numbered_lines ls 1 (int (length ls)) = concat (map (\<lambda>x. x @ nl) ?xs)"
    by (simp add: numbered_lines_def numbered_def comp_def)
  have "?xs \<noteq> []" using assms(1) by (cases ls) auto
  moreover have "\<forall>x \<in> set ?xs. CHR 0x0A \<notin> set x"
  proof
    fix x assume "x \<in> set ?xs"
    then obtain i where i: "1 \<le> i" "i \<le> int (length ls)" "x = pad6 (itoa i) @ tab @ (ls ! nat (i - 1))" by auto
    then have "ls ! nat (i - 1) \<in> set ls" by (intro nth_mem) linarith
    then show "CHR 0x0A \<notin> set x" using assms(2) pad6_set[of "CHR 0x0A" i] by (auto simp: i(3) tab_def)
  qed
  ultimately have "file_lines (concat (map (\<lambda>x. x @ nl) ?xs)) = ?xs" by (rule file_lines_terminated)
  moreover have "tl (dropWhile (\<lambda>c. c \<noteq> CHR 0x09) (pad6 (itoa i) @ tab @ l)) = l" for i l
    using pad6_set[of _ i] by (auto simp: dropWhile_append tab_def)
  ultimately have "unnumbered (numbered_lines ls 1 (int (length ls))) = map (\<lambda>i. ls ! nat (i - 1)) [1..int (length ls)]"
    unfolding unnumbered_def out by (simp add: comp_def)
  also have "\<dots> = ls"
    by (rule nth_equalityI) (simp_all add: nth_upto)
  finally show ?thesis .
qed

text \<open>C23. Reading on gives back the whole file. For a file that is not empty and has no line of more
  than 2000 runes (longer ones are clipped), and a positive limit that with the number of lines stays
  below 2 ^ 63 (else the end of the window wraps around): reading from the first line and then each time
  from the line after the last one shown ends, and what was shown, without its line numbers, is exactly
  the file's lines; the file is these lines joined by newlines, with or without one at the end.\<close>

theorem reading_on_reads_everything:
  assumes "content \<noteq> ''''" "0 < limit" "int (length (file_lines content)) + limit < 2 ^ 63"
    and "\<forall>l \<in> set (file_lines content). length (runes l) \<le> maxLineLen"
  shows "\<exists>out. loop (read_on content limit) (1, '''') = Some out \<and> unnumbered out = file_lines content \<and>
    (content = join nl (unnumbered out) \<or> content = join nl (unnumbered out) @ nl)"
proof -
  let ?ls = "file_lines content" and ?I = "\<lambda>(offset, out). 1 \<le> offset \<and> offset \<le> int (length (file_lines content)) \<and>
    out = numbered_lines (file_lines content) 1 (offset - 1)"
  have "length ?ls > 0" by simp
  then have start: "?I (1, '''')" by (simp add: numbered_lines_def Suc_leI del: length_greater_0_conv)
  have round: "read_on content limit (offset, out) =
      (let to = min (offset + limit - 1) (int (length ?ls)) in
       if to < int (length ?ls) then Inl (to + 1, numbered_lines ?ls 1 to) else Inr (numbered_lines ?ls 1 to))"
    if I: "?I (offset, out)" for offset out
  proof -
    have o: "1 \<le> offset" "offset \<le> int (length ?ls)" "out = numbered_lines ?ls 1 (offset - 1)" using I by auto
    show ?thesis
      using numberLines_window[OF assms(1) o(1,2) assms(2-4)] o
        numbered_lines_append[of offset "offset + limit - 1" ?ls] numbered_lines_append[of offset "int (length ?ls)" ?ls] assms(2)
      by (auto simp: read_on_def Let_def min_def)
  qed
  have step: "?I a' \<and> nat (int (length ?ls) - fst a') < nat (int (length ?ls) - fst a)"
    if "?I a" "read_on content limit a = Inl a'" for a a'
  proof (cases a)
    case (Pair offset out)
    then show ?thesis using that round[of offset out] assms(2) by (auto simp: Let_def split: if_splits)
  qed
  obtain out where out: "loop (read_on content limit) (1, '''') = Some out"
    using loop_returns[where I = ?I and m = "\<lambda>a. nat (int (length ?ls) - fst a)" and step = "read_on content limit", OF step start]
    by auto
  have "\<exists>a. ?I a \<and> read_on content limit a = Inr out"
    by (rule loop_result[where I = ?I, OF out start]) (use step in blast)
  then obtain offset t where "?I (offset, t)" "read_on content limit (offset, t) = Inr out" by auto
  then have "out = numbered_lines ?ls 1 (int (length ?ls))"
    using round[of offset t] by (auto simp: Let_def split: if_splits)
  then have "unnumbered out = ?ls" using unnumbered_lines[of ?ls] file_lines_clean by simp
  then show ?thesis using out file_lines_content[of content] by auto
qed

theorem reading_on_reads_everything_witness:
  "\<exists>out. loop (read_on (''one'' @ nl @ ''two'' @ nl @ ''three'') 2) (1, '''') = Some out \<and>
    unnumbered out = [''one'', ''two'', ''three'']"
proof -
  have ls: "file_lines (''one'' @ nl @ ''two'' @ nl @ ''three'') = [''one'', ''two'', ''three'']"
    by (simp add: file_lines_def nl_def has_suffix_def)
  have "\<exists>out. loop (read_on (''one'' @ nl @ ''two'' @ nl @ ''three'') 2) (1, '''') = Some out \<and>
    unnumbered out = file_lines (''one'' @ nl @ ''two'' @ nl @ ''three'') \<and>
    (''one'' @ nl @ ''two'' @ nl @ ''three'' = join nl (unnumbered out) \<or>
     ''one'' @ nl @ ''two'' @ nl @ ''three'' = join nl (unnumbered out) @ nl)"
    by (rule reading_on_reads_everything) (simp_all only: ls, simp_all add: nl_def runes_ascii ascii_def maxLineLen_def)
  then show ?thesis unfolding ls by blast
qed

text \<open>With a huge limit the last line's number wraps around, and nothing is shown.\<close>

lemma a_huge_limit_shows_nothing:
  "numberLines (''one'' @ nl @ ''two'') 2 (2 ^ 63 - 1) =
     \<lparr>rw_text = '''', rw_from = 2, rw_to = - (2 ^ 63), rw_total = 2, rw_clipped = 0\<rparr>"
proof -
  have ls: "file_lines (''one'' @ nl @ ''two'') = [''one'', ''two'']" by (simp add: file_lines_def nl_def has_suffix_def)
  show ?thesis unfolding numberLines_def ls by (simp add: nl_def wrap64_def)
qed

end
