(* ===== verification/Paths.thy ===== *)
theory Paths
  imports GoText
begin

section \<open>path/filepath\<close>

text \<open>
  \<open>Clean\<close>, \<open>Join\<close>, \<open>Base\<close> and \<open>Dir\<close> on Unix. A path is read as its elements between slashes; a
  cleaned path has none that is empty, a dot, or a double dot that could be resolved.
\<close>

text \<open>The elements so far, the last one first.\<close>

definition clean_step :: "bool \<Rightarrow> string list \<Rightarrow> string \<Rightarrow> string list" where
  "clean_step rooted st c =
    (if c = '''' \<or> c = ''.'' then st
     else if c = ''..'' then
       (case st of [] \<Rightarrow> if rooted then [] else [''..''] | t # r \<Rightarrow> if t = ''..'' then ''..'' # st else r)
     else c # st)"

definition rooted :: "string \<Rightarrow> bool" where "rooted p = has_prefix p ''/''"

definition elements :: "string \<Rightarrow> string list" where
  "elements p = rev (foldl (clean_step (rooted p)) [] (split_on CHR ''/'' p))"

definition render :: "bool \<Rightarrow> string list \<Rightarrow> string" where
  "render is_rooted es =
    (let s = (if is_rooted then ''/'' else '''') @ join ''/'' es in if s = '''' then ''.'' else s)"

definition clean :: "string \<Rightarrow> string" where "clean p = render (rooted p) (elements p)"

definition join_path :: "string list \<Rightarrow> string" where
  "join_path parts = (case dropWhile (\<lambda>p. p = '''') parts of [] \<Rightarrow> '''' | ps \<Rightarrow> clean (join ''/'' ps))"

definition base :: "string \<Rightarrow> string" where
  "base p =
    (if p = '''' then ''.''
     else (let q = rev (dropWhile (\<lambda>c. c = CHR ''/'') (rev p)) in
           if q = '''' then ''/'' else last (split_on CHR ''/'' q)))"

definition dir :: "string \<Rightarrow> string" where
  "dir p =
    (let es = split_on CHR ''/'' p in
     clean (if tl es = [] then '''' else join ''/'' (butlast es) @ ''/''))"

subsection \<open>Going one level down\<close>

text \<open>A name: one element that \<open>Clean\<close> keeps.\<close>

definition plain_element :: "string \<Rightarrow> bool" where
  "plain_element n = (n \<noteq> '''' \<and> n \<noteq> ''.'' \<and> n \<noteq> ''..'' \<and> CHR ''/'' \<notin> set n)"

lemma split_on_sep: "split_on sep (p @ sep # n) = split_on sep p @ split_on sep n"
  by (induction p) (auto split: list.splits)

lemma elements_snoc:
  assumes "plain_element n" "p \<noteq> ''''"
  shows "rooted (p @ ''/'' @ n) = rooted p \<and> elements (p @ ''/'' @ n) = elements p @ [n]"
proof -
  have "rooted (p @ ''/'' @ n) = rooted p"
    using assms(2) by (cases p) (auto simp: rooted_def)
  then show ?thesis using assms(1) by (simp add: elements_def clean_step_def plain_element_def split_on_sep)
qed

lemma join_path_child:
  assumes "plain_element n" "p \<noteq> ''''"
  shows "join_path [p, n] = render (rooted p) (elements p @ [n])"
  using elements_snoc[OF assms] assms by (simp add: join_path_def clean_def)

lemma clean_steps_plain:
  "\<forall>c \<in> set cs. CHR ''/'' \<notin> set c \<Longrightarrow> \<forall>e \<in> set st. e = ''..'' \<or> plain_element e \<Longrightarrow>
   \<forall>e \<in> set (foldl (clean_step r) st cs). e = ''..'' \<or> plain_element e"
proof (induction cs arbitrary: st)
  case (Cons c cs)
  have "\<forall>e \<in> set (clean_step r st c). e = ''..'' \<or> plain_element e"
    using Cons.prems by (cases st) (auto simp: clean_step_def plain_element_def)
  moreover have "\<forall>d \<in> set cs. CHR ''/'' \<notin> set d" using Cons.prems(1) by simp
  ultimately show ?case using Cons.IH by simp
qed simp

lemma elements_plain: "e \<in> set (elements p) \<Longrightarrow> e = ''..'' \<or> plain_element e"
  using clean_steps_plain[of "split_on CHR ''/'' p" "[]" "rooted p"] split_on_clean by (fastforce simp: elements_def)

lemma element_clean: "e = ''..'' \<or> plain_element e \<Longrightarrow> CHR ''/'' \<notin> set e \<and> e \<noteq> ''''"
  by (auto simp: plain_element_def)

lemma join_nonempty_elements: "es \<noteq> [] \<Longrightarrow> \<forall>e \<in> set es. e \<noteq> '''' \<Longrightarrow> join sep es \<noteq> ''''"
  by (cases es) (simp_all add: join_Cons)

lemma render_inj:
  assumes "render r es = render r fs" "es \<noteq> []" "fs \<noteq> []"
    and "\<forall>e \<in> set es. e = ''..'' \<or> plain_element e" "\<forall>e \<in> set fs. e = ''..'' \<or> plain_element e"
  shows "es = fs"
proof -
  have es: "\<forall>e \<in> set es. CHR ''/'' \<notin> set e \<and> e \<noteq> ''''" by (intro ballI element_clean) (rule bspec[OF assms(4)])
  have fs: "\<forall>e \<in> set fs. CHR ''/'' \<notin> set e \<and> e \<noteq> ''''" by (intro ballI element_clean) (rule bspec[OF assms(5)])
  have "join ''/'' es \<noteq> ''''" "join ''/'' fs \<noteq> ''''"
    using join_nonempty_elements[OF assms(2)] join_nonempty_elements[OF assms(3)] es fs by simp_all
  moreover have "render r gs = (if r then ''/'' else '''') @ join ''/'' gs" if "join ''/'' gs \<noteq> ''''" for gs
    using that by (simp add: render_def Let_def)
  ultimately have j: "join ''/'' es = join ''/'' fs" using assms(1) by simp
  have "split_on CHR ''/'' (join ''/'' es) = es"
    by (rule split_on_join[OF assms(2)]) (use es in blast)
  moreover have "split_on CHR ''/'' (join ''/'' fs) = fs"
    by (rule split_on_join[OF assms(3)]) (use fs in blast)
  ultimately show ?thesis unfolding j by (rule trans[OF sym])
qed

text \<open>A name that is its own last element is one element, or a lone slash.\<close>

lemma base_itself:
  assumes "base n = n" "n \<noteq> ''.''" "n \<noteq> ''..''"
  shows "n = ''/'' \<or> plain_element n"
proof (cases "n = ''''")
  case False
  define q where "q = rev (dropWhile (\<lambda>c. c = CHR ''/'') (rev n))"
  show ?thesis
  proof (cases "q = ''''")
    case True
    then show ?thesis using assms(1) False by (simp add: base_def q_def[symmetric])
  next
    case ne: False
    then have "n = last (split_on CHR ''/'' q)" using assms(1) False by (simp add: base_def q_def[symmetric])
    then have "CHR ''/'' \<notin> set n" using split_on_clean[of n "CHR ''/''" q] by simp
    then show ?thesis using assms(2,3) False by (simp add: plain_element_def)
  qed
qed (use assms in \<open>simp add: base_def\<close>)

lemma base_plain: "plain_element n \<Longrightarrow> base n = n"
proof -
  assume n: "plain_element n"
  then have "rev n \<noteq> []" "CHR ''/'' \<notin> set (rev n)" by (auto simp: plain_element_def)
  then have "dropWhile (\<lambda>c. c = CHR ''/'') (rev n) = rev n" by (cases "rev n") auto
  then show "base n = n" using n by (simp add: base_def plain_element_def)
qed

end
