(* ===== verification/Host.thy ===== *)
theory Host
  imports Paths SandboxBase
begin

section \<open>The machine underneath, and metaharness/sandbox/local.go\<close>

text \<open>
  \<open>os\<close> and \<open>os/exec\<close> are the record \<open>host\<close> of the calls the program makes, on a world \<open>'w\<close> that holds
  files, processes and the clock. A process that ran and exited with a status is told apart from
  one that never ran, as \<open>*exec.ExitError\<close> is.
\<close>

datatype run_error = Exited goerr | NotRun goerr

fun run_err :: "run_error \<Rightarrow> goerr" where
  "run_err (Exited e) = e"
| "run_err (NotRun e) = e"

record process =
  ps_Stdout :: string
  ps_Stderr :: string
  ps_Err :: "run_error option"
  ps_ExitCode :: int

record 'w host =
  os_MkdirAll :: "string \<Rightarrow> 'w \<Rightarrow> 'w \<times> goerr option"
  os_RemoveAll :: "string \<Rightarrow> 'w \<Rightarrow> 'w \<times> goerr option"
  os_ReadDir :: "string \<Rightarrow> 'w \<Rightarrow> 'w \<times> (string \<times> bool) list res"
  os_Stat :: "string \<Rightarrow> 'w \<Rightarrow> goerr option"
  os_LookupEnv :: "string \<Rightarrow> string option"
  os_Run :: "string \<Rightarrow> string list option \<Rightarrow> string \<Rightarrow> string list \<Rightarrow> 'w \<Rightarrow> 'w \<times> process"

text \<open>\<open>os_Run dir env name args\<close>; without an environment the process inherits this one's.\<close>

definition ErrNotExist :: goerr where "ErrNotExist = Sentinel ''file does not exist''"

subsection \<open>One directory\<close>

text \<open>A \<open>local\<close> sandbox is its directory.\<close>

definition Dir :: "'w host \<Rightarrow> string \<Rightarrow> 'w \<Rightarrow> 'w \<times> string res" where
  "Dir h path w =
    (if path = '''' then (w, Inl (Opaque ''sandbox: Dir needs a directory to work in''))
     else case os_MkdirAll h (clean path) w of
       (w1, Some e) \<Rightarrow> (w1, Inl (Wrap ''sandbox: '' e ''''))
     | (w1, None) \<Rightarrow> (w1, Inr (clean path)))"

definition local_Name :: "string \<Rightarrow> string" where
  "local_Name d = (if d = '''' then ''local'' else base d)"

definition local_Exec :: "'w host \<Rightarrow> string \<Rightarrow> command \<Rightarrow> 'w \<Rightarrow> 'w \<times> exec_result res" where
  "local_Exec h d c w =
    (let (w1, p) = os_Run h d None (cmd_Cmd c) (cmd_Args c) w in
     case ps_Err p of
       Some (NotRun e) \<Rightarrow> (w1, Inl e)
     | _ \<Rightarrow> (w1, Inr \<lparr>Stdout = ps_Stdout p, Stderr = ps_Stderr p, ExitCode = ps_ExitCode p\<rparr>))"

definition local_Close :: "goerr option" where "local_Close = None"

subsection \<open>The local backend\<close>

definition LocalKind :: string where "LocalKind = ''local''"

definition backend_dir :: "(string \<Rightarrow> string) \<Rightarrow> string \<Rightarrow> string \<Rightarrow> string res" where
  "backend_dir quote root name =
    (if name = '''' \<or> name = ''.'' \<or> name = ''..'' \<or> name \<noteq> base name
     then Inl (Opaque (''sandbox: '' @ quote name @ '' is not a usable local sandbox name''))
     else Inr (join_path [root, name]))"

definition local_EnsureReady :: "(string \<Rightarrow> string) \<Rightarrow> 'w host \<Rightarrow> string \<Rightarrow> spec \<Rightarrow> 'w \<Rightarrow> goerr option \<times> 'w" where
  "local_EnsureReady quote h root sp w =
    (case backend_dir quote root (sp_Name sp) of
       Inl e \<Rightarrow> (Some e, w)
     | Inr d \<Rightarrow> (let (w1, e) = os_MkdirAll h d w in (e, w1)))"

definition local_backend_Exec ::
  "(string \<Rightarrow> string) \<Rightarrow> 'w host \<Rightarrow> string \<Rightarrow> string \<Rightarrow> command \<Rightarrow> 'w \<Rightarrow> (exec_result \<times> goerr option) \<times> 'w" where
  "local_backend_Exec quote h root name c w =
    (case backend_dir quote root name of
       Inl e \<Rightarrow> ((empty_result, Some e), w)
     | Inr d \<Rightarrow>
        (case local_Exec h d c w of
           (w1, Inl e) \<Rightarrow> ((empty_result, Some e), w1)
         | (w1, Inr r) \<Rightarrow> ((r, None), w1)))"

definition local_Destroy :: "(string \<Rightarrow> string) \<Rightarrow> 'w host \<Rightarrow> string \<Rightarrow> string \<Rightarrow> 'w \<Rightarrow> goerr option \<times> 'w" where
  "local_Destroy quote h root name w =
    (case backend_dir quote root name of
       Inl e \<Rightarrow> (Some e, w)
     | Inr d \<Rightarrow> (let (w1, e) = os_RemoveAll h d w in (e, w1)))"

definition local_List :: "'w host \<Rightarrow> string \<Rightarrow> 'w \<Rightarrow> backend_sandbox list res \<times> 'w" where
  "local_List h root w =
    (case os_ReadDir h root w of
       (w1, Inl e) \<Rightarrow> (if err_is e ErrNotExist then Inr [] else Inl e, w1)
     | (w1, Inr entries) \<Rightarrow>
        (Inr (map (\<lambda>(n, is_dir). \<lparr>bs_Name = n, bs_Image = '''', bs_State = BackendStopped\<rparr>) (filter snd entries)), w1))"

definition LocalBackend :: "(string \<Rightarrow> string) \<Rightarrow> 'w host \<Rightarrow> string \<Rightarrow> 'w backend" where
  "LocalBackend quote h root =
    \<lparr>be_EnsureReady = local_EnsureReady quote h root, be_Exec = local_backend_Exec quote h root,
     be_Stop = (\<lambda>name w. (None, w)), be_Destroy = local_Destroy quote h root, be_List = local_List h root,
     be_Close = (\<lambda>w. (None, w))\<rparr>"

text \<open>What the package registers under \<open>LocalKind\<close>.\<close>

definition local_constructor :: "(string \<Rightarrow> string) \<Rightarrow> 'w host \<Rightarrow> string \<Rightarrow> 'w backend res" where
  "local_constructor quote h root =
    (if root = '''' then Inl (Opaque ''sandbox: the local backend needs a Root to create sandboxes under'')
     else Inr (LocalBackend quote h root))"

lemma backend_dir_cases:
  assumes "root \<noteq> ''''" "backend_dir quote root n = Inr d"
  shows "if n = ''/'' then d = clean root else plain_element n \<and> d = render (rooted root) (elements root @ [n])"
proof -
  have n: "n \<noteq> ''''" "n \<noteq> ''.''" "n \<noteq> ''..''" "base n = n" "d = join_path [root, n]"
    using assms(2) by (auto simp: backend_dir_def split: if_splits)
  show ?thesis
  proof (cases "n = ''/''")
    case True
    have "split_on CHR ''/'' (root @ ''/'' @ ''/'') = split_on CHR ''/'' root @ ['''', '''']"
      by (simp add: split_on_sep)
    moreover have "rooted (root @ ''/'' @ ''/'') = rooted root"
      using assms(1) by (cases root) (auto simp: rooted_def)
    ultimately show ?thesis using True n(5) assms(1)
      by (simp add: join_path_def clean_def elements_def clean_step_def)
  next
    case False
    then have "plain_element n" using base_itself n by blast
    then show ?thesis using False n(5) join_path_child assms(1) by simp
  qed
qed

text \<open>A local sandbox is a directory of its own under the root, but for one name. Every name the
  backend accepts, other than a lone slash, stands for the child of the root by that name, so that
  different names have different directories and none is the root or above it. The lone slash is
  accepted too and stands for the root itself: destroying that sandbox removes every other one.\<close>

theorem local_sandboxes_are_siblings:
  assumes "root \<noteq> ''''" "backend_dir quote root n = Inr d" "backend_dir quote root m = Inr c"
  shows "(if n = ''/'' then d = clean root \<and> local_Destroy quote h root n w = (let (w1, e) = os_RemoveAll h (clean root) w in (e, w1))
     else d = render (rooted root) (elements root @ [n]) \<and> CHR ''/'' \<notin> set n) \<and>
    (n \<noteq> ''/'' \<and> m \<noteq> ''/'' \<and> c = d \<longrightarrow> m = n)"
proof (intro conjI impI)
  note d = backend_dir_cases[OF assms(1,2)] and c = backend_dir_cases[OF assms(1,3)]
  show "if n = ''/'' then d = clean root \<and> local_Destroy quote h root n w = (let (w1, e) = os_RemoveAll h (clean root) w in (e, w1))
     else d = render (rooted root) (elements root @ [n]) \<and> CHR ''/'' \<notin> set n"
    using d assms(2) by (auto simp: local_Destroy_def plain_element_def split: if_splits)
  assume ne: "n \<noteq> ''/'' \<and> m \<noteq> ''/'' \<and> c = d"
  then have "render (rooted root) (elements root @ [m]) = render (rooted root) (elements root @ [n])"
    "plain_element n" "plain_element m" using d c by auto
  moreover have "\<forall>e \<in> set (elements root @ [k]). e = ''..'' \<or> plain_element e" if "plain_element k" for k
    using elements_plain that by auto
  ultimately have "elements root @ [m] = elements root @ [n]" by (intro render_inj) auto
  then show "m = n" by simp
qed

text \<open>A host whose world is the list of directories removed.\<close>

definition demo_host :: "string list host" where
  "demo_host = \<lparr>os_MkdirAll = (\<lambda>p w. (w, None)), os_RemoveAll = (\<lambda>p w. (w @ [p], None)), os_ReadDir = (\<lambda>p w. (w, Inr [])),
     os_Stat = (\<lambda>p w. None), os_LookupEnv = (\<lambda>k. None),
     os_Run = (\<lambda>d env name args w. (w, \<lparr>ps_Stdout = '''', ps_Stderr = '''', ps_Err = None, ps_ExitCode = 0\<rparr>))\<rparr>"

theorem local_sandboxes_are_siblings_witness:
  "backend_dir id ''/srv/boxes'' ''work'' = Inr ''/srv/boxes/work'' \<and>
   ''/srv/boxes/work'' = render True [''srv'', ''boxes'', ''work''] \<and>
   local_Destroy id demo_host ''/srv/boxes'' ''/'' [] = (None, [''/srv/boxes''])"
proof -
  have 1: "backend_dir id ''/srv/boxes'' ''work'' = Inr ''/srv/boxes/work''"
    "backend_dir id ''/srv/boxes'' ''/'' = Inr ''/srv/boxes''" "elements ''/srv/boxes'' = [''srv'', ''boxes'']"
    "rooted ''/srv/boxes''" "clean ''/srv/boxes'' = ''/srv/boxes''" by code_simp+
  show ?thesis
    using local_sandboxes_are_siblings[OF _ 1(1) 1(1), of demo_host "[]"] local_sandboxes_are_siblings[OF _ 1(2) 1(1), of demo_host "[]"] 1
    by (simp add: demo_host_def)
qed

end
