(* ===== verification/Workspace.thy ===== *)
theory Workspace
  imports Host
begin

section \<open>Workspaces: workspace/workspace.go\<close>

text \<open>
  A clone per workspace and a worktree per task. \<open>git\<close>, \<open>gh\<close> and \<open>mise\<close> are whatever the host's
  processes do; \<open>parse\<close> is \<open>json.Unmarshal\<close> into a pull request and \<open>quote\<close> is \<open>%q\<close>. A map of
  credentials is the list of its entries in the order they are iterated in; everything proved holds
  for every order. The lock makes the garage's own commands run one after the other.
\<close>

subsection \<open>Names\<close>

definition is_alnum :: "char \<Rightarrow> bool" where
  "is_alnum c = (is_digit c \<or> (CHR ''A'' \<le> c \<and> c \<le> CHR ''Z'') \<or> (CHR ''a'' \<le> c \<and> c \<le> CHR ''z''))"

definition plainName :: "string \<Rightarrow> bool" where
  "plainName s = (case s of [] \<Rightarrow> False
     | c # t \<Rightarrow> is_alnum c \<and> list_all (\<lambda>d. is_alnum d \<or> d = CHR ''_'' \<or> d = CHR ''.'' \<or> d = CHR ''-'') t)"

definition commitSHA :: "string \<Rightarrow> bool" where
  "commitSHA s = (7 \<le> length s \<and> length s \<le> 40 \<and>
     list_all (\<lambda>c. is_digit c \<or> (CHR ''a'' \<le> c \<and> c \<le> CHR ''f'')) s)"

subsection \<open>Configuration\<close>

record identity =
  id_Name :: string
  id_Email :: string

record ws_config =
  wc_Name :: string
  wc_Remote :: string
  wc_Root :: string
  wc_Identity :: identity
  wc_Env :: "(string \<times> string) list"
  wc_GH :: string
  wc_Mise :: string

record workspace =
  wk_cfg :: ws_config
  wk_repo :: string
  wk_base :: string
  wk_env :: "string list"

text \<open>A credential's value is hidden when it has at least four bytes.\<close>

definition redact :: "(string \<times> string) list \<Rightarrow> string \<Rightarrow> string" where
  "redact env s =
    foldl (\<lambda>s (name, value). if length value \<ge> 4 then replace_all value (''['' @ (''redacted '' @ name) @ '']'') s else s) s env"

definition host_env :: "'w host \<Rightarrow> string list" where
  "host_env h = List.map_filter (\<lambda>k. map_option (\<lambda>v. k @ ''='' @ v) (os_LookupEnv h k))
     [''PATH'', ''HOME'', ''USER'', ''TMPDIR'', ''LANG'']"

definition token_helper :: string where
  "token_helper = ''GIT_CONFIG_VALUE_0=!f() { echo username=x-access-token; echo '' @ [CHR 0x22] @
     ''password=$GH_TOKEN'' @ [CHR 0x22] @ ''; }; f''"

definition environ :: "'w host \<Rightarrow> ws_config \<Rightarrow> string list" where
  "environ h cfg =
    (let root = join_path [wc_Root cfg, wc_Name cfg]; cache = join_path [root, ''cache''] in
     host_env h @
     [''MISE_DATA_DIR='' @ join_path [root, ''tools''],
      ''MISE_CACHE_DIR='' @ join_path [cache, ''mise''],
      ''MISE_TRUSTED_CONFIG_PATHS='' @ root,
      ''MISE_CONFIG_DIR='' @ join_path [root, ''mise-config''],
      ''MISE_GLOBAL_CONFIG_FILE='' @ join_path [root, ''mise-config'', ''config.toml''],
      ''MISE_CEILING_PATHS='' @ join_path [root, ''tasks''],
      ''GOMODCACHE='' @ join_path [cache, ''gomod''],
      ''GOCACHE='' @ join_path [cache, ''gobuild''],
      ''npm_config_cache='' @ join_path [cache, ''npm''],
      ''GIT_TERMINAL_PROMPT=0'',
      ''GIT_AUTHOR_NAME='' @ id_Name (wc_Identity cfg), ''GIT_AUTHOR_EMAIL='' @ id_Email (wc_Identity cfg),
      ''GIT_COMMITTER_NAME='' @ id_Name (wc_Identity cfg), ''GIT_COMMITTER_EMAIL='' @ id_Email (wc_Identity cfg)] @
     (if map_of (wc_Env cfg) ''GH_TOKEN'' \<noteq> None
      then [''GIT_CONFIG_COUNT=1'', ''GIT_CONFIG_KEY_0=credential.helper'', token_helper] else []) @
     map (\<lambda>(k, v). k @ ''='' @ v) (wc_Env cfg))"

subsection \<open>Running the garage's own commands\<close>

definition ws_run :: "'w host \<Rightarrow> workspace \<Rightarrow> string \<Rightarrow> string \<Rightarrow> string list \<Rightarrow> 'w \<Rightarrow> 'w \<times> string res" where
  "ws_run h ws d name args w =
    (let (w1, p) = os_Run h d (Some (wk_env ws)) name args w; env = wc_Env (wk_cfg ws) in
     case ps_Err p of
       Some e \<Rightarrow> (w1, Inl (Wrap (name @ '' '' @ hd args @ '': '') (run_err e) (nl @ redact env (ps_Stderr p))))
     | None \<Rightarrow> (w1, Inr (trim_space (redact env (ps_Stdout p)))))"

text \<open>One command after another, until one fails.\<close>

fun ws_runs :: "'w host \<Rightarrow> workspace \<Rightarrow> (string \<times> string \<times> string list) list \<Rightarrow> 'w \<Rightarrow> 'w \<times> goerr option" where
  "ws_runs h ws [] w = (w, None)"
| "ws_runs h ws ((d, name, args) # cs) w =
    (case ws_run h ws d name args w of (w1, Inl e) \<Rightarrow> (w1, Some e) | (w1, Inr out) \<Rightarrow> ws_runs h ws cs w1)"

definition fetch :: "workspace \<Rightarrow> string \<times> string \<times> string list" where
  "fetch ws = (wk_repo ws, ''git'', [''fetch'', ''-q'', ''origin''])"

definition ws_Open :: "(string \<Rightarrow> string) \<Rightarrow> 'w host \<Rightarrow> ws_config \<Rightarrow> 'w \<Rightarrow> 'w \<times> workspace res" where
  "ws_Open quote h cfg0 w =
    (if \<not> plainName (wc_Name cfg0) then (w, Inl (Opaque (''workspace: '' @ quote (wc_Name cfg0) @ '' is not a plain name'')))
     else
       (let cfg1 = (if wc_GH cfg0 = '''' then cfg0\<lparr>wc_GH := ''gh''\<rparr> else cfg0);
            cfg = (if wc_Mise cfg1 = '''' then cfg1\<lparr>wc_Mise := ''mise''\<rparr> else cfg1);
            ws = \<lparr>wk_cfg = cfg, wk_repo = join_path [wc_Root cfg, wc_Name cfg, ''repo''], wk_base = '''', wk_env = environ h cfg\<rparr>;
            (w1, got) =
              (if (case os_Stat h (wk_repo ws) w of Some e \<Rightarrow> err_is e ErrNotExist | None \<Rightarrow> False)
               then (case os_MkdirAll h (dir (wk_repo ws)) w of
                  (w1, Some e) \<Rightarrow> (w1, Some e)
                | (w1, None) \<Rightarrow> ws_runs h ws [('''', ''git'', [''clone'', ''-q'', wc_Remote cfg, wk_repo ws])] w1)
               else ws_runs h ws [fetch ws] w) in
        case got of
          Some e \<Rightarrow> (w1, Inl e)
        | None \<Rightarrow>
           (case ws_run h ws (wk_repo ws) ''git'' [''rev-parse'', ''--abbrev-ref'', ''origin/HEAD''] w1 of
              (w2, Inl e) \<Rightarrow> (w2, Inl e)
            | (w2, Inr head) \<Rightarrow> (w2, Inr (ws\<lparr>wk_base := trim_prefix head ''origin/''\<rparr>)))))"

definition ws_Name :: "workspace \<Rightarrow> string" where "ws_Name ws = wc_Name (wk_cfg ws)"

subsection \<open>Tasks\<close>

record task =
  tk_ws :: workspace
  tk_id :: string
  tk_branch :: string
  tk_dir :: string
  tk_env :: "string list"

definition not_task_id :: "(string \<Rightarrow> string) \<Rightarrow> string \<Rightarrow> goerr" where
  "not_task_id quote i = Opaque (''workspace: '' @ quote i @ '' is not a plain task id'')"

definition task_on :: "workspace \<Rightarrow> string \<Rightarrow> string \<Rightarrow> task" where
  "task_on ws i branch = \<lparr>tk_ws = ws, tk_id = i, tk_branch = branch,
     tk_dir = join_path [wc_Root (wk_cfg ws), wc_Name (wk_cfg ws), ''tasks'', i], tk_env = wk_env ws\<rparr>"

definition after_runs :: "'w \<times> goerr option \<Rightarrow> 'a \<Rightarrow> 'w \<times> 'a res" where
  "after_runs r x = (fst r, case snd r of None \<Rightarrow> Inr x | Some e \<Rightarrow> Inl e)"

definition ws_Start :: "(string \<Rightarrow> string) \<Rightarrow> 'w host \<Rightarrow> workspace \<Rightarrow> string \<Rightarrow> 'w \<Rightarrow> 'w \<times> task res" where
  "ws_Start quote h ws i w =
    (if \<not> plainName i then (w, Inl (not_task_id quote i))
     else (let t = task_on ws i (''garage/'' @ i) in
       after_runs (ws_runs h ws
         [fetch ws,
          (wk_repo ws, ''git'', [''worktree'', ''add'', ''-q'', ''-b'', tk_branch t, tk_dir t, ''origin/'' @ wk_base ws]),
          (tk_dir t, wc_Mise (wk_cfg ws), [''install''])] w) t))"

definition ws_Resume :: "(string \<Rightarrow> string) \<Rightarrow> 'w host \<Rightarrow> workspace \<Rightarrow> string \<Rightarrow> 'w \<Rightarrow> task res" where
  "ws_Resume quote h ws i w =
    (if \<not> plainName i then Inl (not_task_id quote i)
     else (let t = task_on ws i (''garage/'' @ i) in
       case os_Stat h (tk_dir t) w of
         Some e \<Rightarrow> Inl (Wrap (''workspace: no worktree for task '' @ i @ '': '') e '''')
       | None \<Rightarrow> Inr t))"

definition ws_Merged :: "(string \<Rightarrow> string) \<Rightarrow> 'w host \<Rightarrow> workspace \<Rightarrow> string \<Rightarrow> 'w \<Rightarrow> 'w \<times> string res" where
  "ws_Merged quote h ws ref w =
    (if \<not> commitSHA ref then (w, Inl (Opaque (''workspace: '' @ quote ref @ '' is not a commit'')))
     else case ws_runs h ws [fetch ws] w of
       (w1, Some e) \<Rightarrow> (w1, Inl e)
     | (w1, None) \<Rightarrow>
        (case ws_run h ws (wk_repo ws) ''git'' [''rev-parse'', ''--verify'', ''--end-of-options'', ref @ ''^{commit}''] w1 of
           (w2, Inl e) \<Rightarrow> (w2, Inl (Opaque (''workspace: '' @ ref @ '' is not a commit here'')))
         | (w2, Inr sha) \<Rightarrow>
            (case ws_run h ws (wk_repo ws) ''git'' [''merge-base'', ''--is-ancestor'', sha, ''origin/'' @ wk_base ws] w2 of
               (w3, Inl e) \<Rightarrow> (w3, Inl (Opaque (''workspace: '' @ ref @ '' is not on '' @ wk_base ws)))
             | (w3, Inr out) \<Rightarrow> (w3, Inr sha))))"

subsection \<open>Pull requests\<close>

record pull_request =
  pl_URL :: string
  pl_State :: string
  pl_Head :: string
  pl_HeadSHA :: string
  pl_Base :: string

type_synonym pr_parser = "string \<Rightarrow> pull_request res"

definition pullRequest :: "pr_parser \<Rightarrow> 'w host \<Rightarrow> workspace \<Rightarrow> string \<Rightarrow> string \<Rightarrow> 'w \<Rightarrow> 'w \<times> pull_request res" where
  "pullRequest parse h ws d ref w =
    (case ws_run h ws d (wc_GH (wk_cfg ws))
        [''pr'', ''view'', ref, ''--json'', ''url,state,headRefName,headRefOid,baseRefName''] w of
       (w1, Inl e) \<Rightarrow> (w1, Inl e)
     | (w1, Inr out) \<Rightarrow> (w1, case parse out of
          Inl e \<Rightarrow> Inl (Wrap (''gh pr view '' @ ref @ '': '') e '''')
        | Inr pr \<Rightarrow> Inr pr))"

definition ws_PullRequest :: "pr_parser \<Rightarrow> 'w host \<Rightarrow> workspace \<Rightarrow> string \<Rightarrow> 'w \<Rightarrow> 'w \<times> pull_request res" where
  "ws_PullRequest parse h ws url = pullRequest parse h ws (wk_repo ws) url"

definition ws_Checkout ::
  "(string \<Rightarrow> string) \<Rightarrow> 'w host \<Rightarrow> workspace \<Rightarrow> string \<Rightarrow> pull_request \<Rightarrow> 'w \<Rightarrow> 'w \<times> task res" where
  "ws_Checkout quote h ws i pr w =
    (if \<not> plainName i then (w, Inl (not_task_id quote i))
     else (let t = task_on ws i (pl_Head pr) in
       after_runs (ws_runs h ws
         [fetch ws,
          (wk_repo ws, ''git'', [''worktree'', ''add'', ''-q'', ''--detach'', tk_dir t, pl_HeadSHA pr]),
          (wk_repo ws, ''git'', [''config'', ''extensions.worktreeConfig'', ''true'']),
          (tk_dir t, ''git'', [''config'', ''--worktree'', ''remote.origin.pushurl'', ''read-only://checkouts-do-not-push'']),
          (tk_dir t, wc_Mise (wk_cfg ws), [''install''])] w) t))"

definition ws_Comment :: "'w host \<Rightarrow> workspace \<Rightarrow> string \<Rightarrow> string \<Rightarrow> 'w \<Rightarrow> 'w \<times> goerr option" where
  "ws_Comment h ws url text =
    ws_runs h ws [(wk_repo ws, wc_GH (wk_cfg ws), [''pr'', ''comment'', url, ''--body'', text])]"

definition OpenPR :: "pr_parser \<Rightarrow> 'w host \<Rightarrow> task \<Rightarrow> string \<Rightarrow> string \<Rightarrow> 'w \<Rightarrow> 'w \<times> string res" where
  "OpenPR parse h t title text w =
    (let ws = tk_ws t in
     case ws_run h ws (tk_dir t) ''git'' [''status'', ''--porcelain''] w of
       (w1, Inl e) \<Rightarrow> (w1, Inl e)
     | (w1, Inr status) \<Rightarrow>
        if status \<noteq> '''' then (w1, Inl (Opaque (''uncommitted changes, commit them first:'' @ nl @ status)))
        else case ws_run h ws (tk_dir t) ''git'' [''rev-list'', ''--count'', ''origin/'' @ wk_base ws @ ''..HEAD''] w1 of
          (w2, Inl e) \<Rightarrow> (w2, Inl e)
        | (w2, Inr ahead) \<Rightarrow>
           if ahead = ''0'' then (w2, Inl (Opaque (''nothing committed on '' @ tk_branch t @ '' yet'')))
           else case ws_run h ws (tk_dir t) ''git'' [''push'', ''-q'', ''origin'', ''HEAD:refs/heads/'' @ tk_branch t] w2 of
             (w3, Inl e) \<Rightarrow> (w3, Inl e)
           | (w3, Inr out) \<Rightarrow>
              (let (w4, found) = pullRequest parse h ws (tk_dir t) (tk_branch t) w3 in
               case (case found of Inr pr \<Rightarrow> if pl_State pr = ''OPEN'' then Some (pl_URL pr) else None | Inl e \<Rightarrow> None) of
                 Some url \<Rightarrow> (w4, Inr url)
               | None \<Rightarrow>
                  (case ws_run h ws (tk_dir t) (wc_GH (wk_cfg ws))
                      [''pr'', ''create'', ''--head'', tk_branch t, ''--base'', wk_base ws, ''--title'', title, ''--body'', text] w4 of
                     (w5, Inl e) \<Rightarrow> (w5, Inl e)
                   | (w5, Inr out2) \<Rightarrow> (w5, Inr (last (split_on CHR 0x0A out2))))))"

definition task_Close :: "'w host \<Rightarrow> task \<Rightarrow> 'w \<Rightarrow> 'w \<times> goerr option" where
  "task_Close h t = ws_runs h (tk_ws t) [(wk_repo (tk_ws t), ''git'', [''worktree'', ''remove'', ''--force'', tk_dir t])]"

subsection \<open>A task's sandbox\<close>

definition task_Exec :: "'w host \<Rightarrow> task \<Rightarrow> command \<Rightarrow> 'w \<Rightarrow> 'w \<times> exec_result res" where
  "task_Exec h t c w =
    (let (w1, p) = os_Run h (tk_dir t) (Some (tk_env t)) (wc_Mise (wk_cfg (tk_ws t)))
           ([''exec'', ''--'', cmd_Cmd c] @ cmd_Args c) w;
         env = wc_Env (wk_cfg (tk_ws t)) in
     case ps_Err p of
       Some (NotRun e) \<Rightarrow> (w1, Inl e)
     | _ \<Rightarrow> (w1, Inr \<lparr>Stdout = redact env (ps_Stdout p), Stderr = redact env (ps_Stderr p), ExitCode = ps_ExitCode p\<rparr>))"

subsection \<open>Credentials stay out of the output\<close>

text \<open>
  What makes a credential safe to redact: no bracket in it, and not part of a marker that stands
  for one. Tokens and keys are like that.
\<close>

definition redactable :: "(string \<times> string) list \<Rightarrow> string \<Rightarrow> bool" where
  "redactable env v = (length v \<ge> 4 \<and> CHR ''['' \<notin> set v \<and> CHR '']'' \<notin> set v \<and> CHR 0x0A \<notin> set v \<and>
     (\<forall>(m, u) \<in> set env. \<not> occurs v (''redacted '' @ m)))"

lemma redact_keeps_clean:
  assumes "\<forall>(m, u) \<in> set env. \<not> occurs v (''redacted '' @ m)" "CHR ''['' \<notin> set v" "CHR '']'' \<notin> set v" "\<not> occurs v s"
  shows "\<not> occurs v (redact env s)"
  using assms(1,4)
proof (induction env arbitrary: s)
  case (Cons e env)
  obtain m u where e: "e = (m, u)" by (cases e)
  let ?s = "if length u \<ge> 4 then replace_all u (''['' @ (''redacted '' @ m) @ '']'') s else s"
  have "\<not> occurs v ?s"
  proof (cases "length u \<ge> 4")
    case True
    then have "u \<noteq> ''''" by auto
    moreover have "\<not> occurs v (''redacted '' @ m)" using Cons.prems(1) e by simp
    ultimately show ?thesis using replace_marker_clean[OF _ assms(2,3), of u "''redacted '' @ m" s] Cons.prems(2) True by presburger
  qed (use Cons.prems in simp)
  then have "\<not> occurs v (redact env ?s)" using Cons.IH Cons.prems(1) by simp
  then show ?case by (simp add: redact_def e)
qed (simp add: redact_def)

lemma redact_hides:
  assumes "redactable env v" "(n, v) \<in> set env"
  shows "\<not> occurs v (redact env s)"
proof -
  have v: "CHR ''['' \<notin> set v" "CHR '']'' \<notin> set v" and m: "\<forall>(m, u) \<in> set env. \<not> occurs v (''redacted '' @ m)"
    and len: "length v \<ge> 4"
    using assms(1) unfolding redactable_def by auto
  obtain before after where env: "env = before @ (n, v) # after" using assms(2) by (meson split_list)
  let ?s = "redact before s" and ?marker = "''['' @ (''redacted '' @ n) @ '']''"
  have "v \<noteq> ''''" using len by auto
  then have "\<not> occurs v (replace_all v ?marker ?s)"
    using m env by (intro replace_marker_clean) (use v in auto)
  then have "\<not> occurs v (redact after (replace_all v ?marker ?s))"
    using m env v by (intro redact_keeps_clean) auto
  then show ?thesis using len by (simp add: redact_def env)
qed

text \<open>C26. No credential is printed. Whatever a command does, in whatever order the credentials are
  iterated over, for every credential of at least four bytes without bracket or newline that is not part
  of a marker: neither the output nor the error output that an agent's command gives back contains its
  value, nor does what one of the garage's own commands returns, nor what the error of one that failed
  adds of its output, nor that error's whole text unless the command line or the exit status had it. An
  agent's command that gives an error was not run at all.\<close>

theorem credentials_are_not_printed:
  assumes "(n, v) \<in> set (wc_Env (wk_cfg ws))" "redactable (wc_Env (wk_cfg ws)) v"
  shows "(case task_Exec h (task_on ws i branch) c w of
      (w1, Inl e) \<Rightarrow> \<exists>p. os_Run h (tk_dir (task_on ws i branch)) (Some (tk_env (task_on ws i branch)))
          (wc_Mise (wk_cfg ws)) ([''exec'', ''--'', cmd_Cmd c] @ cmd_Args c) w = (w1, p) \<and> ps_Err p = Some (NotRun e)
    | (w1, Inr r) \<Rightarrow> \<not> occurs v (Stdout r) \<and> \<not> occurs v (Stderr r)) \<and>
    (case ws_run h ws d name args w of
      (w1, Inl e) \<Rightarrow> \<exists>x p. e = Wrap (name @ '' '' @ hd args @ '': '') x (nl @ p) \<and> \<not> occurs v p \<and>
        (occurs v (err_text e) \<longrightarrow> occurs v (name @ '' '' @ hd args @ '': '' @ err_text x))
    | (w1, Inr out) \<Rightarrow> \<not> occurs v out)"
proof (rule conjI)
  note hides = redact_hides[OF assms(2,1)]
  show "case task_Exec h (task_on ws i branch) c w of
      (w1, Inl e) \<Rightarrow> \<exists>p. os_Run h (tk_dir (task_on ws i branch)) (Some (tk_env (task_on ws i branch)))
          (wc_Mise (wk_cfg ws)) ([''exec'', ''--'', cmd_Cmd c] @ cmd_Args c) w = (w1, p) \<and> ps_Err p = Some (NotRun e)
    | (w1, Inr r) \<Rightarrow> \<not> occurs v (Stdout r) \<and> \<not> occurs v (Stderr r)"
    using hides by (auto simp: task_Exec_def task_on_def Let_def split: prod.splits option.splits run_error.splits)
  have trimmed: "\<not> occurs v (trim_space (redact (wc_Env (wk_cfg ws)) s))" for s
  proof -
    obtain a b where ab: "redact (wc_Env (wk_cfg ws)) s = a @ trim_space (redact (wc_Env (wk_cfg ws)) s) @ b"
      using trim_space_parts by blast
    show ?thesis using hides[of s] occurs_inside[of v a "trim_space (redact (wc_Env (wk_cfg ws)) s)" b] ab by metis
  qed
  obtain w1 p where run: "os_Run h d (Some (wk_env ws)) name args w = (w1, p)" by (metis prod.exhaust)
  show "case ws_run h ws d name args w of
      (w1, Inl e) \<Rightarrow> \<exists>x p. e = Wrap (name @ '' '' @ hd args @ '': '') x (nl @ p) \<and> \<not> occurs v p \<and>
        (occurs v (err_text e) \<longrightarrow> occurs v (name @ '' '' @ hd args @ '': '' @ err_text x))
    | (w1, Inr out) \<Rightarrow> \<not> occurs v out"
  proof (cases "ps_Err p")
    case None
    then show ?thesis using run trimmed by (simp add: ws_run_def Let_def)
  next
    case (Some e)
    let ?said = "name @ '' '' @ hd args @ '': '' @ err_text (run_err e)" and ?p = "redact (wc_Env (wk_cfg ws)) (ps_Stderr p)"
    have "CHR 0x0A \<notin> set v" using assms(2) by (simp add: redactable_def)
    then have "occurs v (?said @ nl @ ?p) \<Longrightarrow> occurs v ?said"
      using occurs_split[of "CHR 0x0A" v ?said ?p] hides by (auto simp: nl_def)
    then show ?thesis using run Some hides by (simp add: ws_run_def Let_def)
  qed
qed

definition demo_ws :: workspace where
  "demo_ws = \<lparr>wk_cfg = \<lparr>wc_Name = ''garage'', wc_Remote = ''https://example.org/garage'', wc_Root = ''/srv'',
     wc_Identity = \<lparr>id_Name = ''dev'', id_Email = ''dev@example.org''\<rparr>, wc_Env = [(''GH_TOKEN'', ''s3cret'')],
     wc_GH = ''gh'', wc_Mise = ''mise''\<rparr>, wk_repo = ''/srv/garage/repo'', wk_base = ''main'', wk_env = []\<rparr>"

definition leaky_host :: "string host" where
  "leaky_host = \<lparr>os_MkdirAll = (\<lambda>p w. (w, None)), os_RemoveAll = (\<lambda>p w. (w, None)), os_ReadDir = (\<lambda>p w. (w, Inr [])),
     os_Stat = (\<lambda>p w. None), os_LookupEnv = (\<lambda>k. None),
     os_Run = (\<lambda>d env name args w. (w, \<lparr>ps_Stdout = ''token s3cret!'', ps_Stderr = '''', ps_Err = None, ps_ExitCode = 0\<rparr>))\<rparr>"

theorem credentials_are_not_printed_witness:
  "ws_run leaky_host demo_ws '''' ''env'' [''-0''] '''' = ('''', Inr ''token [redacted GH_TOKEN]!'') \<and>
   \<not> occurs ''s3cret'' ''token [redacted GH_TOKEN]!''"
proof -
  have 1: "ws_run leaky_host demo_ws '''' ''env'' [''-0''] '''' = ('''', Inr ''token [redacted GH_TOKEN]!'')"
    by (simp add: ws_run_def leaky_host_def demo_ws_def redact_def replace_all.simps trim_space_printable printable_def)
  have "redactable (wc_Env (wk_cfg demo_ws)) ''s3cret''"
    by (simp add: redactable_def demo_ws_def cut_None_iff[symmetric])
  then show ?thesis
    using credentials_are_not_printed[where n = "''GH_TOKEN''" and v = "''s3cret''" and ws = demo_ws and h = leaky_host
        and d = "''''" and name = "''env''" and args = "[''-0'']" and w = "''''"] 1
    by (simp add: demo_ws_def)
qed

end
