(* ===== verification/AgentKit.thy ===== *)
theory AgentKit
  imports Workspace FileTools ChatBase KvStore
begin

section \<open>What the garage's agents share: agents\<close>

text \<open>
  An agent lives in a world of three parts that no operation mixes: the chatroom, its own database
  \<open>'d\<close>, and the host \<open>'x\<close> with its processes, the model it calls and the clock. What it is
  configured with is the record \<open>kit\<close>: the agent's \<open>Store\<close> is a session store and a key-value store on \<open>'d\<close>,
  the codec decodes tool arguments, and \<open>kt_ctx\<close> is the context's error.
\<close>

record ('d, 'x) garage =
  gw_chat :: service
  gw_db :: 'd
  gw_x :: 'x

definition on_chat :: "(service \<Rightarrow> service \<times> 'r) \<Rightarrow> ('d, 'x, 'm) garage_scheme \<Rightarrow> ('d, 'x, 'm) garage_scheme \<times> 'r" where
  "on_chat f w = (let (s, r) = f (gw_chat w) in (w\<lparr>gw_chat := s\<rparr>, r))"

definition on_db :: "('d \<Rightarrow> 'd \<times> 'r) \<Rightarrow> ('d, 'x, 'm) garage_scheme \<Rightarrow> ('d, 'x, 'm) garage_scheme \<times> 'r" where
  "on_db f w = (let (d, r) = f (gw_db w) in (w\<lparr>gw_db := d\<rparr>, r))"

definition on_x :: "('x \<Rightarrow> 'x \<times> 'r) \<Rightarrow> ('d, 'x, 'm) garage_scheme \<Rightarrow> ('d, 'x, 'm) garage_scheme \<times> 'r" where
  "on_x f w = (let (x, r) = f (gw_x w) in (w\<lparr>gw_x := x\<rparr>, r))"

record 'j arg_codec =
  ac_parse :: "string \<Rightarrow> 'j res"
  ac_validate :: "string \<Rightarrow> 'j \<Rightarrow> goerr option"
  ac_bash :: "string \<Rightarrow> string res"
  ac_read :: "string \<Rightarrow> read_args res"
  ac_edit :: "string \<Rightarrow> edit_args res"
  ac_write :: "string \<Rightarrow> write_args res"
  ac_skill :: "string \<Rightarrow> skill_args res"
  ac_pr :: "string \<Rightarrow> (string \<times> string) res"
  ac_deploy :: "string \<Rightarrow> string res"

record ('j, 'd, 'x) kit =
  kt_prompt :: string
  kt_host :: "'x host"
  kt_quote :: "string \<Rightarrow> string"
  kt_parse_pr :: pr_parser
  kt_model :: "request \<Rightarrow> 'x \<Rightarrow> 'x \<times> stream_part list res"
  kt_modelID :: string
  kt_sessions :: "(task, 'd) store"
  kt_kv :: "'d kv_ops"
  kt_workspaces :: "workspace list"
  kt_codec :: "'j arg_codec"
  kt_now :: "'x \<Rightarrow> gotime"
  kt_stamp :: "'x \<Rightarrow> string"
  kt_ctx :: "'x \<Rightarrow> goerr option"

definition task_ops :: "(task, 'w) sandbox_ops" where
  "task_ops = \<lparr>box_Name = (\<lambda>t w. tk_id t), box_Close = (\<lambda>t w. (w, None))\<rparr>"

definition kit_store :: "('j, 'd, 'x, 'n) kit_scheme \<Rightarrow> (task, ('d, 'x, 'm) garage_scheme) store" where
  "kit_store k = \<lparr>so_Save = (\<lambda>s. on_db (so_Save (kt_sessions k) s)), so_Load = (\<lambda>i. on_db (so_Load (kt_sessions k) i)),
     so_List = map_option (\<lambda>f n. on_db (f n)) (so_List (kt_sessions k))\<rparr>"

definition kit_model :: "('j, 'd, 'x, 'n) kit_scheme \<Rightarrow> request \<Rightarrow> ('d, 'x, 'm) garage_scheme \<Rightarrow>
    ('d, 'x, 'm) garage_scheme \<times> stream_part list res" where
  "kit_model k req = on_x (kt_model k req)"

definition kit_ctx :: "('j, 'd, 'x, 'n) kit_scheme \<Rightarrow> ('d, 'x, 'm) garage_scheme \<Rightarrow> goerr option" where
  "kit_ctx k w = kt_ctx k (gw_x w)"

text \<open>A typed tool, adapted.\<close>

definition kit_tool ::
  "('j, 'd, 'x, 'n) kit_scheme \<Rightarrow> tool_def \<Rightarrow> (string \<Rightarrow> 'a res) \<Rightarrow>
   (task session \<Rightarrow> task \<Rightarrow> 'a \<Rightarrow> ('d, 'x, 'm) garage_scheme \<Rightarrow> ('d, 'x, 'm) garage_scheme \<times> tool_result res) \<Rightarrow>
   (task, ('d, 'x, 'm) garage_scheme) tool" where
  "kit_tool k meta decode execute = Adapt \<lparr>ty_Def = meta, ty_parse = ac_parse (kt_codec k),
     ty_validate = ac_validate (kt_codec k) (td_Name meta), ty_decode = decode, ty_Execute = execute\<rparr>"

text \<open>A tool that only reaches its task's sandbox.\<close>

definition box_tool ::
  "('j, 'd, 'x, 'n) kit_scheme \<Rightarrow> tool_def \<Rightarrow> (string \<Rightarrow> 'a res) \<Rightarrow>
   ('x executor \<Rightarrow> 'a \<Rightarrow> 'x \<Rightarrow> 'x \<times> tool_result res) \<Rightarrow> (task, ('d, 'x, 'm) garage_scheme) tool" where
  "box_tool k meta decode execute =
     kit_tool k meta decode (\<lambda>sess box a. on_x (execute (task_Exec (kt_host k) box) a))"

definition bash_tool where "bash_tool k = box_tool k bash_meta (ac_bash (kt_codec k)) bash_Execute"
definition read_tool where "read_tool k = box_tool k read_meta (ac_read (kt_codec k)) read_Execute"
definition edit_tool where "edit_tool k = box_tool k edit_meta (ac_edit (kt_codec k)) edit_Execute"
definition write_tool where "write_tool k = box_tool k write_meta (ac_write (kt_codec k)) write_Execute"

definition skill_tool where
  "skill_tool k available = box_tool k (skill_meta available) (ac_skill (kt_codec k))
     (\<lambda>exec. skill_Execute (kt_quote k) available)"

text \<open>Posting in the room; a failure is only logged.\<close>

definition agent_say :: "('j, 'd, 'x, 'n) kit_scheme \<Rightarrow> string \<Rightarrow> string \<Rightarrow> string \<Rightarrow>
    ('d, 'x, 'm) garage_scheme \<Rightarrow> ('d, 'x, 'm) garage_scheme" where
  "agent_say k name room text w = fst (on_chat (Post (kt_now k (gw_x w)) room name text) w)"

definition reply_text :: "msg \<Rightarrow> string" where
  "reply_text m = trim_space (join nl (TextParts (Some m)))"

subsection \<open>Regular expressions\<close>

text \<open>\<open>\b\<close> between two bytes.\<close>

definition word_char :: "char \<Rightarrow> bool" where "word_char c = (is_alnum c \<or> c = CHR ''_'')"

definition boundary :: "string \<Rightarrow> nat \<Rightarrow> bool" where
  "boundary s i = ((0 < i \<and> word_char (s ! (i - 1))) \<noteq> (i < length s \<and> word_char (s ! i)))"

definition names_word :: "string \<Rightarrow> string \<Rightarrow> bool" where
  "names_word s n = list_ex (\<lambda>i. has_prefix (drop i s) n \<and> boundary s i \<and> boundary s (i + length n)) [0..<length s + 1]"

text \<open>The workspace a text names, or the question to ask.\<close>

definition pick :: "workspace list \<Rightarrow> string \<Rightarrow> string + workspace" where
  "pick wss text =
    (let named = filter (\<lambda>ws. names_word text (ws_Name ws)) wss in
     if length named = 1 then Inr (last named)
     else if named = [] \<and> length wss = 1 then Inr (hd wss)
     else if wss = [] then Inl ''I have no workspaces to work in.''
     else Inl (''Which workspace should I work in? I know: '' @ join '', '' (map ws_Name wss)))"

text \<open>Runs of other characters become one dash.\<close>

fun dashed :: "bool \<Rightarrow> string \<Rightarrow> string" where
  "dashed in_run [] = []"
| "dashed in_run (c # s) =
    (if is_alnum c then c # dashed False s else if in_run then dashed True s else CHR ''-'' # dashed True s)"

definition lower :: "char \<Rightarrow> char" where
  "lower c = (if CHR ''A'' \<le> c \<and> c \<le> CHR ''Z'' then char_of ((of_char c :: nat) + 32) else c)"

definition trim_dashes :: "string \<Rightarrow> string" where
  "trim_dashes s = rev (dropWhile (\<lambda>c. c = CHR ''-'') (rev (dropWhile (\<lambda>c. c = CHR ''-'') s)))"

definition slug :: "string \<Rightarrow> string" where
  "slug s = (let t = trim_dashes (dashed False s) in if t = '''' then ''task'' else map lower t)"

text \<open>The leftmost match of \<open>https?://\S+/pull/\d+\<close>, as long as it goes.\<close>

definition non_space :: "char \<Rightarrow> bool" where
  "non_space c = (c \<notin> {CHR 0x09, CHR 0x0A, CHR 0x0C, CHR 0x0D, CHR '' ''})"

definition pull_link :: "string \<Rightarrow> string \<Rightarrow> string option" where
  "pull_link scheme s =
    (case cut_prefix s scheme of
       None \<Rightarrow> None
     | Some t \<Rightarrow>
        (let run = takeWhile non_space t in
         map_option (\<lambda>i. scheme @ take i run @ ''/pull/'' @ takeWhile is_digit (drop (i + 6) run))
           (find (\<lambda>i. has_prefix (drop i run) ''/pull/'' \<and> (case drop (i + 6) run of [] \<Rightarrow> False | d # r \<Rightarrow> is_digit d))
              (rev [1..<length run]))))"

fun find_link :: "string \<Rightarrow> string" where
  "find_link [] = []"
| "find_link (c # s) =
    (case pull_link ''https://'' (c # s) of Some l \<Rightarrow> l | None \<Rightarrow>
     (case pull_link ''http://'' (c # s) of Some l \<Rightarrow> l | None \<Rightarrow> find_link s))"

text \<open>\<open>sha[:min(len(sha), 7)]\<close>.\<close>

definition short_sha :: "string \<Rightarrow> string" where "short_sha sha = take 7 sha"

end
