(* ===== verification/DevAgent.thy ===== *)
theory DevAgent
  imports AgentKit
begin

section \<open>The dev agent: agents/dev.go\<close>

text \<open>
  A task is reached through two maps and changed in place, so tasks are in a list, the maps hold
  positions in it, and \<open>dt_sess\<close> is the session they share. What is kept in the database is a
  \<open>task_record\<close> in JSON, whose coding is a pair of parameters. A turn's result is None when the
  agent's loop never ends.
\<close>

definition DevName :: string where "DevName = ''dev''"
definition GrugName :: string where "GrugName = ''grug''"
definition GarageName :: string where "GarageName = ''garage''"

record dev_task =
  dt_room :: string
  dt_ws :: workspace
  dt_wt :: task
  dt_sess :: "task session"
  dt_seen :: int
  dt_by :: string

record task_record =
  tr_Workspace :: string
  tr_Task :: string
  tr_Seen :: int

record ('d, 'x) dev_world = "('d, 'x) garage" +
  dv_tasks :: "dev_task list"
  dv_rooms :: "(string \<times> nat) list"
  dv_bySession :: "(string \<times> nat) list"

record ('j, 'd, 'x) dev_config = "('j, 'd, 'x) kit" +
  dc_encode :: "task_record \<Rightarrow> string"
  dc_decode :: "string \<Rightarrow> task_record res"
  dc_Deploy :: "(string \<Rightarrow> string \<Rightarrow> 'x \<Rightarrow> 'x \<times> string res) option"

definition roomKey :: "string \<Rightarrow> string" where "roomKey room = ''dev/rooms/'' @ room"

definition dev_say :: "('j, 'd, 'x) dev_config \<Rightarrow> string \<Rightarrow> string \<Rightarrow> ('d, 'x) dev_world \<Rightarrow> ('d, 'x) dev_world" where
  "dev_say c = agent_say c DevName"

definition set_task :: "nat \<Rightarrow> (dev_task \<Rightarrow> dev_task) \<Rightarrow> ('d, 'x) dev_world \<Rightarrow> ('d, 'x) dev_world" where
  "set_task i f w = w\<lparr>dv_tasks := (dv_tasks w)[i := f (dv_tasks w ! i)]\<rparr>"

definition add_task :: "dev_task \<Rightarrow> ('d, 'x) dev_world \<Rightarrow> ('d, 'x) dev_world \<times> nat" where
  "add_task t w =
    (let i = length (dv_tasks w) in
     (w\<lparr>dv_tasks := dv_tasks w @ [t], dv_rooms := AList.update (dt_room t) i (dv_rooms w),
        dv_bySession := AList.update (ss_ID (dt_sess t)) i (dv_bySession w)\<rparr>, i))"

subsection \<open>Tools of its own\<close>

text \<open>Only a human's ask may deploy.\<close>

definition human :: "string \<Rightarrow> bool" where
  "human author = (author \<noteq> DevName \<and> author \<noteq> GrugName \<and> author \<noteq> GarageName)"

definition open_pr_meta :: tool_def where
  "open_pr_meta = \<lparr>td_Name = ''open_pull_request'', td_Description =
     ''Push this task'' @ [CHR 0x27] @ ''s branch and open a pull request for review, or update the one already open. '' @
     ''Either way grug is asked to review it. Commit everything first.'', td_Schema = []\<rparr>"

text \<open>A session the map does not have would be a nil task; a turn only runs once it is in there.\<close>

definition nil_task :: goerr where "nil_task = Opaque ''invalid memory address or nil pointer dereference''"

definition open_pr_Execute ::
  "('j, 'd, 'x) dev_config \<Rightarrow> task session \<Rightarrow> task \<Rightarrow> string \<times> string \<Rightarrow> ('d, 'x) dev_world \<Rightarrow>
   ('d, 'x) dev_world \<times> tool_result res" where
  "open_pr_Execute c sess box args w =
    (case map_of (dv_bySession w) (ss_ID sess) of
       None \<Rightarrow> (w, Inl nil_task)
     | Some i \<Rightarrow>
        (let t = dv_tasks w ! i in
         case on_x (OpenPR (kt_parse_pr c) (kt_host c) (dt_wt t) (fst args) (snd args)) w of
           (w1, Inl e) \<Rightarrow> (w1, refused (err_text e))
         | (w1, Inr url) \<Rightarrow>
             (dev_say c (dt_room t) (''PR for review: '' @ url @ nl @ nl @ ''@'' @ GrugName @ '', please review it.'') w1, said url)))"

definition deploy_meta :: tool_def where
  "deploy_meta = \<lparr>td_Name = ''deploy'', td_Description =
     ''Deploy the garage you run in at a commit on main, when a human asks you to. The garage tests and builds that commit itself, '' @
     ''releases it and restarts into it, which ends this turn; when it is back it posts '' @ [CHR 0x22] @ ''running <sha>'' @ [CHR 0x22] @
     '' in this room.'', td_Schema = []\<rparr>"

definition deploy_Execute ::
  "('j, 'd, 'x) dev_config \<Rightarrow> (string \<Rightarrow> string \<Rightarrow> 'x \<Rightarrow> 'x \<times> string res) \<Rightarrow> task session \<Rightarrow> task \<Rightarrow> string \<Rightarrow>
   ('d, 'x) dev_world \<Rightarrow> ('d, 'x) dev_world \<times> tool_result res" where
  "deploy_Execute c deploy sess box sha w =
    (case map_of (dv_bySession w) (ss_ID sess) of
       None \<Rightarrow> (w, Inl nil_task)
     | Some i \<Rightarrow>
        (let t = dv_tasks w ! i in
         if \<not> human (dt_by t)
         then (w, refused (''Only a human can ask for a deploy, and '' @ dt_by t @ '' woke you. Ask in the room and wait for one.''))
         else case on_x (deploy (dt_room t) sha) w of
           (w1, Inl e) \<Rightarrow> (w1, refused (err_text e))
         | (w1, Inr out) \<Rightarrow> (w1, said out)))"

definition dev_tools :: "('j, 'd, 'x) dev_config \<Rightarrow> (task, ('d, 'x) dev_world) tool list" where
  "dev_tools c =
     [bash_tool c, read_tool c, edit_tool c, write_tool c, kit_tool c open_pr_meta (ac_pr (kt_codec c)) (open_pr_Execute c)] @
     (case dc_Deploy c of None \<Rightarrow> []
      | Some deploy \<Rightarrow> [kit_tool c deploy_meta (ac_deploy (kt_codec c)) (deploy_Execute c deploy)])"

definition dev_agent :: "('j, 'd, 'x) dev_config \<Rightarrow> (task, ('d, 'x) dev_world) agent option" where
  "dev_agent c = AgentBase.New (kt_prompt c) [WithModel (Some (kit_model c)), WithStore (Some (kit_store c)), WithTools (dev_tools c)]"

subsection \<open>Finding the room's task\<close>

definition dev_resume ::
  "('j, 'd, 'x) dev_config \<Rightarrow> string \<Rightarrow> ('d, 'x) dev_world \<Rightarrow> ('d, 'x) dev_world \<times> dev_task option res" where
  "dev_resume c room w =
    (case on_db (k_Get (kt_kv c) (roomKey room)) w of
       (w1, Inl e) \<Rightarrow> (w1, Inl e)
     | (w1, Inr None) \<Rightarrow> (w1, Inr None)
     | (w1, Inr (Some raw)) \<Rightarrow>
        (case dc_decode c raw of
           Inl e \<Rightarrow> (w1, Inl e)
         | Inr rec \<Rightarrow>
            (case filter (\<lambda>ws. ws_Name ws = tr_Workspace rec) (kt_workspaces c) of
               [] \<Rightarrow> (w1, Inl (Opaque (''no workspace '' @ tr_Workspace rec)))
             | found \<Rightarrow>
                (let ws = last found in
                 case ws_Resume (kt_quote c) (kt_host c) ws (tr_Task rec) (gw_x w1) of
                   Inl e \<Rightarrow> (w1, Inl e)
                 | Inr wt \<Rightarrow>
                    (case on_db (so_Load (kt_sessions c) (tr_Task rec)) w1 of
                       (w2, Inl e) \<Rightarrow> (w2, Inl e)
                     | (w2, Inr sess) \<Rightarrow>
                        (case Bind task_ops (Some wt) w2 sess of
                           (s, Some e) \<Rightarrow> (w2, Inl e)
                         | (s, None) \<Rightarrow> (w2, Inr (Some
                             \<lparr>dt_room = room, dt_ws = ws, dt_wt = wt, dt_sess = s\<lparr>ss_Model := kt_modelID c\<rparr>,
                              dt_seen = tr_Seen rec, dt_by = ''''\<rparr>))))))))"

definition remember_task :: "('j, 'd, 'x) dev_config \<Rightarrow> dev_task \<Rightarrow> ('d, 'x) dev_world \<Rightarrow> ('d, 'x) dev_world" where
  "remember_task c t w = fst (on_db (k_Put (kt_kv c) (roomKey (dt_room t))
     (dc_encode c \<lparr>tr_Workspace = ws_Name (dt_ws t), tr_Task = ss_ID (dt_sess t), tr_Seen = dt_seen t\<rparr>)) w)"

definition new_task ::
  "('j, 'd, 'x) dev_config \<Rightarrow> post \<Rightarrow> ('d, 'x) dev_world \<Rightarrow> ('d, 'x) dev_world \<times> (nat \<times> string) option" where
  "new_task c m w =
    (case pick (kt_workspaces c) (p_Text m) of
       Inl question \<Rightarrow> (dev_say c (p_Room m) question w, None)
     | Inr ws \<Rightarrow>
        (let i = slug (p_Room m) @ ''-'' @ kt_stamp c (gw_x w) in
         case on_x (ws_Start (kt_quote c) (kt_host c) ws i) w of
           (w1, Inl e) \<Rightarrow> (dev_say c (p_Room m) (''I couldn'' @ [CHR 0x27] @ ''t start a worktree: '' @ err_text e) w1, None)
         | (w1, Inr wt) \<Rightarrow>
            (let (w2, n) = add_task \<lparr>dt_room = p_Room m, dt_ws = ws, dt_wt = wt,
                   dt_sess = NewSession task_ops i (kt_modelID c) (Some wt) w1, dt_seen = 0, dt_by = ''''\<rparr> w1 in
             (w2, Some (n, ''You are working in workspace '' @ ws_Name ws @ '', in a git worktree on branch '' @
                tk_branch wt @ ''.'' @ nl @ nl)))))"

definition dev_task_for ::
  "('j, 'd, 'x) dev_config \<Rightarrow> post \<Rightarrow> ('d, 'x) dev_world \<Rightarrow> ('d, 'x) dev_world \<times> (nat \<times> string) option" where
  "dev_task_for c m w =
    (case map_of (dv_rooms w) (p_Room m) of
       Some i \<Rightarrow> (w, Some (i, ''''))
     | None \<Rightarrow>
        (case dev_resume c (p_Room m) w of
           (w1, Inl e) \<Rightarrow> new_task c m (dev_say c (p_Room m)
              (''I lost this room'' @ [CHR 0x27] @ ''s task ('' @ err_text e @ ''), so I'' @ [CHR 0x27] @ ''m starting a new one.'') w1)
         | (w1, Inr (Some t)) \<Rightarrow> (let (w2, i) = add_task t w1 in (w2, Some (i, '''')))
         | (w1, Inr None) \<Rightarrow> new_task c m w1))"

subsection \<open>Waking\<close>

definition no_answer :: string where
  "no_answer = ''I stopped without an answer: my last turn had no text. Ask me where I got to.''"

fun dev_reports :: "('j, 'd, 'x) dev_config \<Rightarrow> string \<Rightarrow> event list \<Rightarrow> ('d, 'x) dev_world \<Rightarrow> ('d, 'x) dev_world" where
  "dev_reports c room [] w = w"
| "dev_reports c room (EventDone m # evs) w =
     dev_reports c room evs (dev_say c room (if reply_text m = '''' then no_answer else reply_text m) w)"
| "dev_reports c room (EventError e # evs) w =
     dev_reports c room evs (dev_say c room (''I stopped on an error: '' @ err_text e) w)"
| "dev_reports c room (_ # evs) w = dev_reports c room evs w"

text \<open>A turn of task \<open>i\<close>: its session is the one the maps share.\<close>

definition dev_turn ::
  "('j, 'd, 'x) dev_config \<Rightarrow> (task, ('d, 'x) dev_world) agent \<Rightarrow> nat \<Rightarrow> string \<Rightarrow> string \<Rightarrow>
   ('d, 'x) dev_world \<Rightarrow> ('d, 'x) dev_world option" where
  "dev_turn c a i room prompt w =
    (let sess = append_msg (NewUserMessage prompt) (dt_sess (dv_tasks w ! i)) in
     case Run (kit_ctx c) a (Some sess) w of
       Inl e \<Rightarrow> Some (dev_say c room (''I couldn'' @ [CHR 0x27] @ ''t start: '' @ err_text e) (set_task i (\<lambda>t. t\<lparr>dt_sess := sess\<rparr>) w))
     | Inr None \<Rightarrow> None
     | Inr (Some (sess', evs, w')) \<Rightarrow> Some (dev_reports c room evs (set_task i (\<lambda>t. t\<lparr>dt_sess := sess'\<rparr>) w')))"

definition dev_wake ::
  "('j, 'd, 'x) dev_config \<Rightarrow> (task, ('d, 'x) dev_world) agent \<Rightarrow> post \<Rightarrow> ('d, 'x) dev_world \<Rightarrow> ('d, 'x) dev_world option" where
  "dev_wake c a m w =
    (case dev_task_for c m w of
       (w1, None) \<Rightarrow> Some w1
     | (w1, Some (i, intro)) \<Rightarrow>
        (let w2 = set_task i (\<lambda>t. t\<lparr>dt_by := p_Author m\<rparr>) w1 in
         case on_chat (Read (p_Room m) (dt_seen (dv_tasks w2 ! i))) w2 of
           (w3, Inl e) \<Rightarrow> Some w3
         | (w3, Inr news) \<Rightarrow>
            (let w4 = (if news = [] then w3 else set_task i (\<lambda>t. t\<lparr>dt_seen := p_ID (last news)\<rparr>) w3);
                 others = filter (\<lambda>n. p_Author n \<noteq> DevName) news;
                 w5 = remember_task c (dv_tasks w4 ! i) w4 in
             if others = [] then Some w5
             else dev_turn c a i (p_Room m)
               (intro @ ''New messages in room '' @ p_Room m @ '':'' @ nl @ nl @ Transcript others) w5)))"

end
