(* ===== verification/GrugAgent.thy ===== *)
theory GrugAgent
  imports DevAgent
begin

section \<open>The reviewer: agents/grug.go\<close>

text \<open>
  Grug keeps nothing in memory: the heads it reviewed are in its database, in JSON whose coding is a
  pair of parameters (what cannot be read decodes to whatever \<open>json.Unmarshal\<close> left, as its error is
  dropped).
\<close>

definition maxReviews :: nat where "maxReviews = 3"

record ('j, 'd, 'x) grug_config = "('j, 'd, 'x) kit" +
  gc_heads :: "string \<Rightarrow> string list"
  gc_encode :: "string list \<Rightarrow> string"
  gc_skill :: skill

definition reviewedKey :: "string \<Rightarrow> string" where "reviewedKey url = ''grug/reviewed/'' @ url"

definition grug_agent :: "('j, 'd, 'x) grug_config \<Rightarrow> (task, ('d, 'x) garage) agent option" where
  "grug_agent c = AgentBase.New (kt_prompt c) [WithModel (Some (kit_model c)), WithStore (Some (kit_store c)),
     WithTools [bash_tool c, read_tool c, skill_tool c [gc_skill c]]]"

definition grug_say :: "('j, 'd, 'x) grug_config \<Rightarrow> string \<Rightarrow> string \<Rightarrow> ('d, 'x) garage \<Rightarrow> ('d, 'x) garage" where
  "grug_say c = agent_say c GrugName"

text \<open>What a mention comes to: a plain answer, or a review to do.\<close>

definition grug_gate ::
  "('j, 'd, 'x) grug_config \<Rightarrow> post \<Rightarrow> ('d, 'x) garage \<Rightarrow>
   ('d, 'x) garage \<times> (string + workspace \<times> pull_request \<times> string list)" where
  "grug_gate c m w =
    (let url = find_link (p_Text m) in
     if url = '''' then (w, Inl ''grug review pull requests. give grug a PR link.'')
     else case pick (kt_workspaces c) (p_Text m) of
       Inl question \<Rightarrow> (w, Inl question)
     | Inr ws \<Rightarrow>
        (case on_x (ws_PullRequest (kt_parse_pr c) (kt_host c) ws url) w of
           (w1, Inl e) \<Rightarrow> (w1, Inl (''grug can'' @ [CHR 0x27] @ ''t see '' @ url @ '': '' @ err_text e))
         | (w1, Inr pr) \<Rightarrow>
            (case on_db (k_Get (kt_kv c) (reviewedKey (pl_URL pr))) w1 of
               (w2, Inl e) \<Rightarrow> (w2, Inl (''grug can'' @ [CHR 0x27] @ ''t remember '' @ pl_URL pr @ '': '' @ err_text e))
             | (w2, Inr raw) \<Rightarrow>
                (let heads = (case raw of None \<Rightarrow> [] | Some r \<Rightarrow> gc_heads c r) in
                 if heads \<noteq> [] \<and> last heads = pl_HeadSHA pr
                 then (w2, Inl (''grug already reviewed '' @ pl_URL pr @ '' at '' @ short_sha (pl_HeadSHA pr) @
                    ''. push new commits, then ask again.''))
                 else if length heads \<ge> maxReviews
                 then (w2, Inl (''grug reviewed '' @ pl_URL pr @ '' '' @ itoa (int (length heads)) @ '' times. a human takes it from here.''))
                 else (w2, Inr (ws, pr, heads))))))"

definition review_prompt :: "pull_request \<Rightarrow> post \<Rightarrow> string" where
  "review_prompt pr m =
     ''Review pull request '' @ pl_URL pr @ '': branch '' @ pl_Head pr @ '' at '' @ pl_HeadSHA pr @ '', into '' @ pl_Base pr @
     ''. Your worktree is at its head; the change is `git diff origin/'' @ pl_Base pr @ ''...HEAD`.'' @ nl @ nl @
     ''Asked in room '' @ p_Room m @ '':'' @ nl @ nl @ Transcript [m]"

text \<open>The last Done's text and the last Error.\<close>

fun review_outcome :: "event list \<Rightarrow> string \<times> goerr option \<Rightarrow> string \<times> goerr option" where
  "review_outcome [] r = r"
| "review_outcome (EventDone m # evs) r = review_outcome evs (reply_text m, snd r)"
| "review_outcome (EventError e # evs) r = review_outcome evs (fst r, Some e)"
| "review_outcome (_ # evs) r = review_outcome evs r"

text \<open>A review in a checkout of its own, which is removed afterwards. None: it never ends.\<close>

definition grug_review ::
  "('j, 'd, 'x) grug_config \<Rightarrow> (task, ('d, 'x) garage) agent \<Rightarrow> workspace \<Rightarrow> pull_request \<Rightarrow> post \<Rightarrow>
   ('d, 'x) garage \<Rightarrow> (('d, 'x) garage \<times> string res) option" where
  "grug_review c a ws pr m w =
    (let i = ''review-'' @ short_sha (pl_HeadSHA pr) @ ''-'' @ kt_stamp c (gw_x w) in
     case on_x (ws_Checkout (kt_quote c) (kt_host c) ws i pr) w of
       (w1, Inl e) \<Rightarrow> Some (w1, Inl e)
     | (w1, Inr wt) \<Rightarrow>
        (let sess = append_msg (NewUserMessage (review_prompt pr m)) (NewSession task_ops i (kt_modelID c) (Some wt) w1);
             close = (\<lambda>w. fst (on_x (task_Close (kt_host c) wt) w)) in
         case Run (kit_ctx c) a (Some sess) w1 of
           Inl e \<Rightarrow> Some (close w1, Inl e)
         | Inr None \<Rightarrow> None
         | Inr (Some (sess', evs, w2)) \<Rightarrow>
            Some (close w2, case review_outcome evs ('''', None) of
                (text, Some e) \<Rightarrow> Inl e
              | (text, None) \<Rightarrow> if text = '''' then Inl (Opaque ''the review came back empty'') else Inr text)))"

definition grug_publish ::
  "('j, 'd, 'x) grug_config \<Rightarrow> workspace \<Rightarrow> pull_request \<Rightarrow> string list \<Rightarrow> post \<Rightarrow> string \<Rightarrow> ('d, 'x) garage \<Rightarrow> ('d, 'x) garage" where
  "grug_publish c ws pr heads m review w =
    (let (w1, put) = on_db (k_Put (kt_kv c) (reviewedKey (pl_URL pr)) (gc_encode c (heads @ [pl_HeadSHA pr]))) w;
         (w2, r) = on_x (ws_Comment (kt_host c) ws (pl_URL pr)
            (''grug review of '' @ short_sha (pl_HeadSHA pr) @ '':'' @ nl @ nl @ review)) w1;
         w3 = (case r of None \<Rightarrow> w2
           | Some e \<Rightarrow> grug_say c (p_Room m) (''grug couldn'' @ [CHR 0x27] @ ''t post on '' @ pl_URL pr @ '': '' @ err_text e) w2) in
     grug_say c (p_Room m) (''@'' @ p_Author m @ '' grug reviewed '' @ pl_URL pr @ '' at '' @ short_sha (pl_HeadSHA pr) @
       '' (also on the PR):'' @ nl @ nl @ review) w3)"

definition grug_wake ::
  "('j, 'd, 'x) grug_config \<Rightarrow> (task, ('d, 'x) garage) agent \<Rightarrow> post \<Rightarrow> ('d, 'x) garage \<Rightarrow> ('d, 'x) garage option" where
  "grug_wake c a m w =
    (case grug_gate c m w of
       (w1, Inl answer) \<Rightarrow> Some (grug_say c (p_Room m) answer w1)
     | (w1, Inr (ws, pr, heads)) \<Rightarrow>
        (case grug_review c a ws pr m w1 of
           None \<Rightarrow> None
         | Some (w2, Inl e) \<Rightarrow> Some (grug_say c (p_Room m) (''grug stopped reviewing '' @ pl_URL pr @ '': '' @ err_text e) w2)
         | Some (w2, Inr review) \<Rightarrow> Some (grug_publish c ws pr heads m review w2)))"

end
