(* ===== verification/Agents.thy ===== *)
theory Agents
  imports GrugAgent
begin

section \<open>What the garage's agents promise\<close>

text \<open>
  Two lemmas about any turn, then what rests on them: an ask that no human made cannot reach the
  deploy, and the reviewer stops after three rounds. The first turn lemma carries a fact about the
  world through a turn whose model, store and tools keep it; the second exchanges the tools of an
  agent for others that do the same in every world the turn can be in.
\<close>

subsection \<open>A turn inside a part of the world\<close>

definition turn_inside :: "string \<Rightarrow> ('w \<Rightarrow> bool) \<Rightarrow> ('b, 'w) agent \<Rightarrow> bool" where
  "turn_inside i P a =
    ((\<forall>model req w. ag_Model a = Some model \<longrightarrow> P w \<longrightarrow> P (fst (model req w))) \<and>
     (\<forall>st s w. ag_Store a = Some st \<longrightarrow> P w \<longrightarrow> P (fst (so_Save st s w))) \<and>
     ag_Memory a = None \<and>
     (\<forall>t \<in> snd ` set (ag_Tools a). \<forall>s box inp w. ss_ID s = i \<longrightarrow> P w \<longrightarrow> P (fst (tl_Execute t s box inp w))))"

definition at_session :: "string \<Rightarrow> ('w \<Rightarrow> bool) \<Rightarrow> ('b, 'w) turn \<Rightarrow> bool" where
  "at_session i P t = (ss_ID (fst t) = i \<and> P (snd (snd t)))"

lemma dispatch_inside:
  assumes "turn_inside i P a" "ss_ID s = i" "P w"
  shows "P (fst (dispatch a s box c w))"
proof (cases "map_of (ag_Tools a) (tc_Name c)")
  case None then show ?thesis using assms(3) by (simp add: dispatch_def)
next
  case (Some t)
  then have "t \<in> snd ` set (ag_Tools a)" by (metis imageI map_of_SomeD snd_conv)
  then have "P (fst (tl_Execute t s box (tc_Input c) w))" using assms by (auto simp: turn_inside_def)
  then show ?thesis using Some by (auto simp: dispatch_def split: prod.splits sum.splits)
qed

lemma dispatch_all_inside:
  "turn_inside i P a \<Longrightarrow> at_session i P t \<Longrightarrow> at_session i P (dispatch_all a box cs t)"
proof (induction a box cs t rule: dispatch_all.induct)
  case (2 a box c cs sess evs w)
  obtain w' res where d: "dispatch a sess box c w = (w', res)" by fastforce
  then have "at_session i P (append_msg res sess, evs @ [EventToolResult res], w')"
    using dispatch_inside[OF 2(2), of sess w box c] 2(3) by (simp add: at_session_def append_msg_def)
  then show ?case using 2(1)[OF d[symmetric] refl 2(2)] d by simp
qed simp

lemma fail_inside:
  "\<forall>s w. P w \<longrightarrow> P (fst (so_Save st s w)) \<Longrightarrow> at_session i P t \<Longrightarrow> at_session i P (fail st e t)"
  by (cases t) (auto simp: fail_def at_session_def Let_def)

lemma model_round_inside:
  assumes "turn_inside i P a" "ag_Model a = Some model" "ag_Store a = Some st" "at_session i P t"
  shows "case_sum (at_session i P) (at_session i P) (model_round model st a system t)"
proof -
  obtain sess evs w where t: "t = (sess, evs, w)" by (cases t)
  have sv: "\<forall>s w. P w \<longrightarrow> P (fst (so_Save st s w))" and md: "\<forall>req w. P w \<longrightarrow> P (fst (model req w))"
    using assms(1-3) by (auto simp: turn_inside_def)
  let ?req = "\<lparr>rq_Model = ss_Model sess, rq_System = system, rq_Messages = ss_Messages sess,
            rq_Tools = toolDefs a, rq_MaxOutputTokens = 0\<rparr>"
  obtain w1 used r where c: "agent_call model ?req w = (w1, used, r)" by (metis prod_cases3)
  have p: "P w1" and s: "ss_ID sess = i"
    using md[rule_format, of w ?req] c assms(4) t
    by (auto simp: agent_call_def at_session_def split: prod.splits sum.splits)
  show ?thesis
  proof (cases r)
    case (Inl e)
    then have "model_round model st a system t = Inr (fail st e (sess\<lparr>ss_Usage := addUsage (ss_Usage sess) used\<rparr>, evs, w1))"
      using c by (simp add: model_round_def t)
    moreover have "at_session i P (sess\<lparr>ss_Usage := addUsage (ss_Usage sess) used\<rparr>, evs, w1)" using p s by (simp add: at_session_def)
    ultimately show ?thesis using fail_inside[OF sv] by simp
  next
    case (Inr m)
    let ?s2 = "append_msg m (sess\<lparr>ss_Usage := addUsage (ss_Usage sess) used\<rparr>)"
    obtain w2 r2 where s2: "so_Save st ?s2 w1 = (w2, r2)" by fastforce
    have "P w2" using sv p s2 by (metis fst_conv)
    then have s3: "at_session i P (?s2, evs @ [EventAssistant m], w2)" using s by (simp add: at_session_def append_msg_def)
    show ?thesis
    proof (cases r2)
      case None then show ?thesis using c s2 Inr s3 by (simp add: model_round_def t)
    next
      case (Some e)
      then have "model_round model st a system t = Inr (fail st e (?s2, evs @ [EventAssistant m], w2))"
        using c s2 Inr by (simp add: model_round_def t)
      then show ?thesis using fail_inside[OF sv s3] by simp
    qed
  qed
qed

lemma run_step_inside:
  assumes "turn_inside i P a" "ag_Model a = Some model" "ag_Store a = Some st" "at_session i P t"
  shows "case_sum (at_session i P) (at_session i P) (run_step ctx model st a system box t)"
proof -
  obtain sess evs w where t: "t = (sess, evs, w)" by (cases t)
  have sv: "\<forall>s w. P w \<longrightarrow> P (fst (so_Save st s w))" using assms(1,3) by (auto simp: turn_inside_def)
  show ?thesis
  proof (cases "ctx w = None \<and> toolCalls (lastMessage sess) \<noteq> []")
    case True
    obtain s1 e1 w1 where d: "dispatch_all a box (toolCalls (lastMessage sess)) (sess, evs, w) = (s1, e1, w1)" by (metis prod_cases3)
    have s1: "ss_ID s1 = i" "P w1" using dispatch_all_inside[OF assms(1), of "(sess, evs, w)"] d assms(4) t
      by (metis at_session_def fst_conv snd_conv)+
    obtain w2 r where s2: "so_Save st s1 w1 = (w2, r)" by fastforce
    have "P w2" using sv s1 s2 by (metis fst_conv)
    then have "at_session i P (s1, e1, w2)" using s1 by (simp add: at_session_def)
    then show ?thesis using True d s2 t fail_inside[OF sv] by (auto simp: run_step_def split: option.splits)
  next
    case False
    then show ?thesis
      using t assms(4) fail_inside[OF sv, of i t] model_round_inside[OF assms, of system] sv
      by (auto simp: run_step_def at_session_def Let_def split: option.splits)
  qed
qed

lemma Run_inside:
  assumes "Run ctx a (Some s) w = Inr (Some (s', evs, w'))" "turn_inside (ss_ID s) P a" "P w"
  shows "P w'"
proof -
  obtain model st box where m: "ag_Model a = Some model" "ag_Store a = Some st"
    and l: "loop (run_step ctx model st a (ag_SystemPrompt a) box) (s, [], w) = Some (s', evs, w')"
    using assms(1,2) by (auto simp: Run_def systemPrompt_def turn_inside_def split: option.splits)
  have "at_session (ss_ID s) P (s, [], w)" using assms(3) by (simp add: at_session_def)
  moreover have "at_session (ss_ID s) P t'"
    if "at_session (ss_ID s) P t" "run_step ctx model st a (ag_SystemPrompt a) box t = Inl t'" for t t'
    using run_step_inside[OF assms(2) m that(1), of ctx "ag_SystemPrompt a" box] that(2) by simp
  ultimately obtain t where "at_session (ss_ID s) P t" "run_step ctx model st a (ag_SystemPrompt a) box t = Inr (s', evs, w')"
    using loop_result[OF l, of "at_session (ss_ID s) P"] by blast
  then show ?thesis using run_step_inside[OF assms(2) m, of t ctx "ag_SystemPrompt a" box] by (simp add: at_session_def)
qed

subsection \<open>Tools that cannot be told apart\<close>

definition same_turns :: "string \<Rightarrow> ('w \<Rightarrow> bool) \<Rightarrow> ('b, 'w) agent \<Rightarrow> ('b, 'w) agent \<Rightarrow> bool" where
  "same_turns i P a b =
    (ag_SystemPrompt a = ag_SystemPrompt b \<and> ag_Model a = ag_Model b \<and> ag_Store a = ag_Store b \<and>
     ag_Memory b = None \<and> toolDefs a = toolDefs b \<and>
     (\<forall>n. rel_option (\<lambda>t u. \<forall>s box inp w. ss_ID s = i \<longrightarrow> P w \<longrightarrow> tl_Execute t s box inp w = tl_Execute u s box inp w)
        (map_of (ag_Tools a) n) (map_of (ag_Tools b) n)))"

lemma dispatch_same:
  assumes "same_turns i P a b" "ss_ID s = i" "P w"
  shows "dispatch a s box c w = dispatch b s box c w"
proof -
  have "rel_option (\<lambda>t u. \<forall>s box inp w. ss_ID s = i \<longrightarrow> P w \<longrightarrow> tl_Execute t s box inp w = tl_Execute u s box inp w)
        (map_of (ag_Tools a) (tc_Name c)) (map_of (ag_Tools b) (tc_Name c))"
    using assms(1) unfolding same_turns_def by blast
  then show ?thesis using assms(2,3)
    by (cases rule: option.rel_cases) (simp_all add: dispatch_def)
qed

lemma dispatch_all_same:
  "same_turns i P a b \<Longrightarrow> turn_inside i P a \<Longrightarrow> at_session i P t \<Longrightarrow> dispatch_all a box cs t = dispatch_all b box cs t"
proof (induction a box cs t rule: dispatch_all.induct)
  case (2 a box c cs sess evs w)
  obtain w' res where d: "dispatch a sess box c w = (w', res)" by fastforce
  have at: "at_session i P (append_msg res sess, evs @ [EventToolResult res], w')"
    using dispatch_inside[OF 2(3), of sess w box c] 2(4) d by (simp add: at_session_def append_msg_def)
  moreover have "dispatch b sess box c w = (w', res)"
    using dispatch_same[OF 2(2), of sess w box c] 2(4) d by (simp add: at_session_def)
  ultimately show ?case using 2(1)[OF d[symmetric] refl 2(2,3) at] d by simp
qed simp

lemma run_step_same:
  assumes "same_turns i P a b" "turn_inside i P a" "at_session i P t"
  shows "run_step ctx model st a system box t = run_step ctx model st b system box t"
proof -
  obtain sess evs w where t: "t = (sess, evs, w)" by (cases t)
  have "model_round model st a system = model_round model st b system"
    using assms(1) by (simp add: model_round_def same_turns_def)
  moreover have "dispatch_all a box cs (sess, evs, w) = dispatch_all b box cs (sess, evs, w)" for cs
    using dispatch_all_same[OF assms(1,2), of "(sess, evs, w)"] assms(3) t by simp
  ultimately show ?thesis unfolding run_step_def t Let_def by (simp only: prod.case)
qed

lemma Run_same:
  fixes a b :: "('b, 'w) agent"
  assumes "same_turns (ss_ID s) P a b" "turn_inside (ss_ID s) P a" "P w"
  shows "Run ctx a (Some s) w = Run ctx b (Some s) w"
proof -
  have eq: "ag_Model b = ag_Model a" "ag_Store b = ag_Store a" "ag_SystemPrompt b = ag_SystemPrompt a"
    "ag_Memory a = None" "ag_Memory b = None"
    using assms(1,2) by (auto simp: same_turns_def turn_inside_def)
  have "loop (run_step ctx model st a (ag_SystemPrompt a) box) (s, [], w) =
        loop (run_step ctx model st b (ag_SystemPrompt a) box) (s, [], w)"
    if m: "ag_Model a = Some model" "ag_Store a = Some st" for model st box
  proof (rule loop_cong[where I = "at_session (ss_ID s) P"])
    show "at_session (ss_ID s) P (s, [], w)" using assms(3) by (simp add: at_session_def)
  next
    fix t :: "('b, 'w) turn" assume "at_session (ss_ID s) P t"
    then show "run_step ctx model st a (ag_SystemPrompt a) box t = run_step ctx model st b (ag_SystemPrompt a) box t"
      by (rule run_step_same[OF assms(1,2)])
  next
    fix t t' :: "('b, 'w) turn" assume "at_session (ss_ID s) P t" "run_step ctx model st a (ag_SystemPrompt a) box t = Inl t'"
    then show "at_session (ss_ID s) P t'"
      using run_step_inside[OF assms(2) m, of t ctx "ag_SystemPrompt a" box] by simp
  qed
  then show ?thesis by (auto simp: Run_def systemPrompt_def eq split: option.splits)
qed

subsection \<open>Who may deploy\<close>

text \<open>The tasks' list and its index: nothing in a turn changes them.\<close>

definition tasks_are :: "dev_task list \<Rightarrow> (string \<times> nat) list \<Rightarrow> ('d, 'x) dev_world \<Rightarrow> bool" where
  "tasks_are T S w = (dv_tasks w = T \<and> dv_bySession w = S)"

lemma tasks_are_elsewhere [simp]:
  "tasks_are T S (fst (on_x f w)) = tasks_are T S w"
  "tasks_are T S (fst (on_db g w)) = tasks_are T S w"
  "tasks_are T S (fst (on_chat h w)) = tasks_are T S w"
  by (simp_all add: tasks_are_def on_x_def on_db_def on_chat_def split: prod.splits)

lemma tasks_are_say [simp]: "tasks_are T S (dev_say c room t w) = tasks_are T S w"
  by (simp add: dev_say_def agent_say_def)

lemma kit_tool_inside:
  assumes "\<And>s box a w. ss_ID s = i \<Longrightarrow> P w \<Longrightarrow> P (fst (ex s box a w))" "ss_ID s = i" "P w"
  shows "P (fst (tl_Execute (kit_tool k meta dec ex) s box inp w))"
  using assms by (auto simp: kit_tool_def Adapt_def adapter_Execute_def Let_def split: sum.splits option.splits)

lemma kit_tool_cong:
  assumes "\<And>s box a w. ss_ID s = i \<Longrightarrow> P w \<Longrightarrow> ex s box a w = ex' s box a w" "ss_ID s = i" "P w"
  shows "tl_Execute (kit_tool k meta dec ex) s box inp w = tl_Execute (kit_tool k meta dec ex') s box inp w"
  using assms by (auto simp: kit_tool_def Adapt_def adapter_Execute_def Let_def split: sum.splits option.splits)

lemma update_at_end: "k \<notin> fst ` set m \<Longrightarrow> AList.update k v m = m @ [(k, v)]"
  by (induction m) auto

lemma WithTools_adds:
  "WithTools ts a = Some a' \<Longrightarrow> a' = a\<lparr>ag_Tools := ag_Tools a @ map (\<lambda>t. (td_Name (tl_Def t), t)) ts\<rparr>"
proof (induction ts arbitrary: a)
  case (Cons t ts)
  let ?n = "td_Name (tl_Def t)"
  have "?n \<notin> fst ` set (ag_Tools a)" and w: "WithTools ts (a\<lparr>ag_Tools := AList.update ?n t (ag_Tools a)\<rparr>) = Some a'"
    using Cons.prems by (auto simp: Let_def map_of_eq_None_iff split: if_splits)
  then have "AList.update ?n t (ag_Tools a) = ag_Tools a @ [(?n, t)]" using update_at_end by metis
  then show ?case using Cons.IH[OF w] by simp
qed simp

lemma dev_agent_wiring:
  assumes "dev_agent c = Some a"
  shows "ag_Model a = Some (kit_model c)" "ag_Store a = Some (kit_store c)" "ag_Memory a = None"
    "ag_SystemPrompt a = kt_prompt c" "ag_Tools a = map (\<lambda>t. (td_Name (tl_Def t), t)) (dev_tools c)"
proof -
  have "WithTools (dev_tools c) \<lparr>ag_SystemPrompt = kt_prompt c, ag_Tools = [], ag_Model = Some (kit_model c),
      ag_Store = Some (kit_store c), ag_Memory = None\<rparr> = Some a"
    using assms by (auto simp: dev_agent_def AgentBase.New_def WithModel_def WithStore_def split: option.splits)
  from WithTools_adds[OF this]
  show "ag_Model a = Some (kit_model c)" "ag_Store a = Some (kit_store c)" "ag_Memory a = None"
    "ag_SystemPrompt a = kt_prompt c" "ag_Tools a = map (\<lambda>t. (td_Name (tl_Def t), t)) (dev_tools c)"
    by simp_all
qed

lemma tasks_are_open_pr: "tasks_are T S (fst (open_pr_Execute c s box args w)) = tasks_are T S w"
proof (cases "map_of (dv_bySession w) (ss_ID s)")
  case (Some i)
  let ?f = "OpenPR (kt_parse_pr c) (kt_host c) (dt_wt (dv_tasks w ! i)) (fst args) (snd args)"
  obtain w1 r where x: "on_x ?f w = (w1, r)" by fastforce
  then have "tasks_are T S w1 = tasks_are T S w" by (metis fst_conv tasks_are_elsewhere(1))
  then show ?thesis using Some x by (cases r) (simp_all add: open_pr_Execute_def)
qed (simp add: open_pr_Execute_def)

lemma tasks_are_deploy: "tasks_are T S (fst (deploy_Execute c deploy s box sha w)) = tasks_are T S w"
proof (cases "map_of (dv_bySession w) (ss_ID s)")
  case (Some i)
  obtain w1 r where x: "on_x (deploy (dt_room (dv_tasks w ! i)) sha) w = (w1, r)" by fastforce
  then have "tasks_are T S w1 = tasks_are T S w" by (metis fst_conv tasks_are_elsewhere(1))
  then show ?thesis using Some x by (cases r) (simp_all add: deploy_Execute_def Let_def)
qed (simp add: deploy_Execute_def)

lemma tasks_are_tools:
  "t \<in> set (dev_tools c) \<Longrightarrow> tasks_are T S w \<Longrightarrow> tasks_are T S (fst (tl_Execute t s box inp w))"
  unfolding dev_tools_def bash_tool_def read_tool_def edit_tool_def write_tool_def box_tool_def
  by (auto split: option.splits simp: tasks_are_open_pr tasks_are_deploy
      intro!: kit_tool_inside[where i = "ss_ID s" and P = "tasks_are T S"])

lemma dev_turn_inside:
  assumes "dev_agent c = Some a"
  shows "turn_inside i (tasks_are T S) a"
  using tasks_are_tools[of _ c T S]
  by (auto simp: turn_inside_def dev_agent_wiring[OF assms] kit_model_def kit_store_def)

text \<open>A map whose values have another function's worth of the same keys.\<close>

lemma rel_map_of_same:
  "list_all2 (\<lambda>t u. f t = f u \<and> R t u) ts us \<Longrightarrow>
   rel_option R (map_of (map (\<lambda>t. (f t, t)) ts) n) (map_of (map (\<lambda>t. (f t, t)) us) n)"
  by (induction rule: list_all2_induct) auto

lemma deploy_refused:
  assumes "tasks_are T S w" "map_of S (ss_ID s) = Some i" "\<not> human (dt_by (T ! i))"
  shows "deploy_Execute c deploy s box sha w =
    (w, refused (''Only a human can ask for a deploy, and '' @ dt_by (T ! i) @ '' woke you. Ask in the room and wait for one.''))"
  using assms by (simp add: deploy_Execute_def tasks_are_def)

lemma dev_same_turns:
  fixes c :: "('j, 'd, 'x) dev_config" and a b :: "(task, ('d, 'x) dev_world) agent"
  assumes a: "dev_agent (c\<lparr>dc_Deploy := Some d\<rparr>) = Some a" and b: "dev_agent (c\<lparr>dc_Deploy := Some e\<rparr>) = Some b"
    and S: "map_of S i = Some n" "\<not> human (dt_by (T ! n))"
  shows "same_turns i (tasks_are T S) a b"
proof -
  let ?R = "\<lambda>t u :: (task, ('d, 'x) dev_world) tool. \<forall>s box inp w. ss_ID s = i \<longrightarrow> tasks_are T S w \<longrightarrow> tl_Execute t s box inp w = tl_Execute u s box inp w"
  let ?c = "c\<lparr>dc_Deploy := Some d\<rparr>" and ?e = "c\<lparr>dc_Deploy := Some e\<rparr>"
  define pr where "pr d = kit_tool (c\<lparr>dc_Deploy := Some d\<rparr>) open_pr_meta (ac_pr (kt_codec c)) (open_pr_Execute (c\<lparr>dc_Deploy := Some d\<rparr>))" for d
  define dp where "dp d = kit_tool (c\<lparr>dc_Deploy := Some d\<rparr>) deploy_meta (ac_deploy (kt_codec c)) (deploy_Execute (c\<lparr>dc_Deploy := Some d\<rparr>) d)" for d
  have tools: "dev_tools (c\<lparr>dc_Deploy := Some d\<rparr>) = [bash_tool c, read_tool c, edit_tool c, write_tool c, pr d, dp d]" for d
    by (simp add: dev_tools_def bash_tool_def read_tool_def edit_tool_def write_tool_def box_tool_def pr_def dp_def kit_tool_def)
  have "pr d = pr e" by (simp add: pr_def kit_tool_def open_pr_Execute_def[abs_def] dev_say_def agent_say_def cong: option.case_cong)
  moreover have "?R (dp d) (dp e)" unfolding dp_def
  proof (intro allI impI)
    fix s :: "task session" and box inp and w :: "('d, 'x) dev_world" assume "ss_ID s = i" "tasks_are T S w"
    moreover have "deploy_Execute ?c d s box x w = deploy_Execute ?e e s box x w"
      if "ss_ID s = i" "tasks_are T S w" for s :: "task session" and box x and w :: "('d, 'x) dev_world"
      using that S(1) by (simp only: deploy_refused[OF _ _ S(2)])
    ultimately have "tl_Execute (kit_tool ?c deploy_meta (ac_deploy (kt_codec c)) (deploy_Execute ?c d)) s box inp w =
      tl_Execute (kit_tool ?c deploy_meta (ac_deploy (kt_codec c)) (deploy_Execute ?e e)) s box inp w"
      by (intro kit_tool_cong[where P = "tasks_are T S" and i = i]) auto
    moreover have "kit_tool ?c deploy_meta (ac_deploy (kt_codec c)) (deploy_Execute ?e e) =
      kit_tool ?e deploy_meta (ac_deploy (kt_codec c)) (deploy_Execute ?e e)" by (simp add: kit_tool_def)
    ultimately show "tl_Execute (kit_tool ?c deploy_meta (ac_deploy (kt_codec c)) (deploy_Execute ?c d)) s box inp w =
      tl_Execute (kit_tool ?e deploy_meta (ac_deploy (kt_codec c)) (deploy_Execute ?e e)) s box inp w" by (rule trans[OF _ arg_cong])
  qed
  moreover have "tl_Def (dp d) = tl_Def (dp e)" by (simp add: dp_def kit_tool_def Adapt_def)
  ultimately have "list_all2 (\<lambda>t u. td_Name (tl_Def t) = td_Name (tl_Def u) \<and> ?R t u) (dev_tools ?c) (dev_tools ?e)"
    by (simp add: tools)
  then have r: "rel_option ?R (map_of (ag_Tools a) m) (map_of (ag_Tools b) m)" for m
    unfolding dev_agent_wiring(5)[OF a] dev_agent_wiring(5)[OF b] by (rule rel_map_of_same)
  have "toolDefs a = toolDefs b"
    using \<open>pr d = pr e\<close> \<open>tl_Def (dp d) = tl_Def (dp e)\<close>
    by (simp add: toolDefs_def dev_agent_wiring(5)[OF a] dev_agent_wiring(5)[OF b] tools)
  then show ?thesis
    using r by (simp add: same_turns_def dev_agent_wiring[OF a] dev_agent_wiring[OF b] kit_model_def[abs_def] kit_store_def)
qed

text \<open>Every room's task is found again under its session's ID.\<close>

definition rooms_indexed :: "('d, 'x) dev_world \<Rightarrow> bool" where
  "rooms_indexed w = (\<forall>room i. map_of (dv_rooms w) room = Some i \<longrightarrow>
     i < length (dv_tasks w) \<and> map_of (dv_bySession w) (ss_ID (dt_sess (dv_tasks w ! i))) = Some i)"

definition same_index :: "('d, 'x) dev_world \<Rightarrow> ('d, 'x) dev_world \<Rightarrow> bool" where
  "same_index w w' = (dv_rooms w' = dv_rooms w \<and> dv_tasks w' = dv_tasks w \<and> dv_bySession w' = dv_bySession w)"

lemma same_index_elsewhere [simp]:
  "on_x f w = (w', r) \<Longrightarrow> same_index w0 w' = same_index w0 w"
  "on_db g w = (w', r') \<Longrightarrow> same_index w0 w' = same_index w0 w"
  "on_chat h w = (w', r'') \<Longrightarrow> same_index w0 w' = same_index w0 w"
  by (auto simp: same_index_def on_x_def on_db_def on_chat_def split: prod.splits)

lemma same_index_steps [simp]:
  "same_index w w" "same_index w0 (dev_say c room t w) = same_index w0 w"
  "same_index w0 (remember_task c tk w) = same_index w0 w"
  by (auto simp: same_index_def dev_say_def agent_say_def remember_task_def on_x_def on_db_def on_chat_def split: prod.splits)

text \<open>The task a post belongs to: the room's own, or one just added.\<close>

definition task_found :: "('d, 'x) dev_world \<Rightarrow> post \<Rightarrow> ('d, 'x) dev_world \<Rightarrow> nat \<Rightarrow> bool" where
  "task_found w m w' i =
    (same_index w w' \<and> map_of (dv_rooms w) (p_Room m) = Some i \<or>
     (\<exists>t w1. same_index w w1 \<and> map_of (dv_rooms w) (p_Room m) = None \<and> dt_room t = p_Room m \<and> add_task t w1 = (w', i)))"

lemma resume_index:
  assumes "dev_resume c room w = (w', r)"
  shows "same_index w w' \<and> (\<forall>t. r = Inr (Some t) \<longrightarrow> dt_room t = room)"
  using assms by (auto simp: dev_resume_def Let_def
    split: prod.splits sum.splits option.splits list.splits if_splits)

lemma new_task_index:
  assumes "new_task c m w = (w', Some (i, intro))"
  shows "\<exists>t w1. same_index w w1 \<and> dt_room t = p_Room m \<and> add_task t w1 = (w', i)"
proof -
  obtain ws where ws: "pick (kt_workspaces c) (p_Text m) = Inr ws"
    using assms by (cases "pick (kt_workspaces c) (p_Text m)") (auto simp: new_task_def)
  let ?i = "slug (p_Room m) @ ''-'' @ kt_stamp c (gw_x w)"
  obtain w1 r where x: "on_x (ws_Start (kt_quote c) (kt_host c) ws ?i) w = (w1, r)" by fastforce
  obtain wt where r: "r = Inr wt" using assms ws x by (cases r) (auto simp: new_task_def)
  let ?t = "\<lparr>dt_room = p_Room m, dt_ws = ws, dt_wt = wt,
    dt_sess = NewSession task_ops ?i (kt_modelID c) (Some wt) w1, dt_seen = 0, dt_by = ''''\<rparr>"
  have "add_task ?t w1 = (w', i)" using assms ws x r by (auto simp: new_task_def split: prod.splits)
  moreover have "same_index w w1" using x by simp
  ultimately show ?thesis by (intro exI[of _ ?t] exI[of _ w1]) simp
qed

lemma new_task_none: "new_task c m w = (w', None) \<Longrightarrow> same_index w w'"
  by (auto simp: new_task_def Let_def split: prod.splits sum.splits)

lemma same_index_trans: "same_index a b \<Longrightarrow> same_index b c \<Longrightarrow> same_index a c"
  by (simp add: same_index_def)

lemma dev_task_for_found:
  assumes "dev_task_for c m w = (w', Some (i, intro))"
  shows "task_found w m w' i"
proof (cases "map_of (dv_rooms w) (p_Room m)")
  case (Some j) then show ?thesis using assms by (simp add: dev_task_for_def task_found_def)
next
  case None
  obtain w1 r where d: "dev_resume c (p_Room m) w = (w1, r)" by fastforce
  note s1 = resume_index[OF d]
  consider (err) e where "r = Inl e" | (fresh) "r = Inr None" | (resumed) t where "r = Inr (Some t)" by (cases r) fastforce+
  then show ?thesis
  proof cases
    case err
    let ?w = "dev_say c (p_Room m) (''I lost this room'' @ [CHR 0x27] @ ''s task ('' @ err_text e @ ''), so I'' @ [CHR 0x27] @ ''m starting a new one.'') w1"
    have "new_task c m ?w = (w', Some (i, intro))" using assms None d err by (simp add: dev_task_for_def)
    from new_task_index[OF this] obtain t w2 where t: "same_index ?w w2" "dt_room t = p_Room m" "add_task t w2 = (w', i)" by blast
    moreover have "same_index w ?w" using s1 by simp
    ultimately have "same_index w w2" using same_index_trans by blast
    then show ?thesis using t None unfolding task_found_def by blast
  next
    case fresh
    then have "new_task c m w1 = (w', Some (i, intro))" using assms None d by (simp add: dev_task_for_def)
    then show ?thesis using new_task_index[of c m w1] s1 None same_index_trans unfolding task_found_def by blast
  next
    case resumed
    then show ?thesis using assms None d s1 unfolding task_found_def by (auto simp: dev_task_for_def split: prod.splits)
  qed
qed

lemma task_found_indexed:
  assumes "task_found w m w' i" "rooms_indexed w"
  shows "i < length (dv_tasks w') \<and> map_of (dv_bySession w') (ss_ID (dt_sess (dv_tasks w' ! i))) = Some i"
  using assms by (auto simp: task_found_def rooms_indexed_def same_index_def add_task_def Let_def)

lemma dev_reports_say: "dev_say c = dev_say c' \<Longrightarrow> dev_reports c room evs w = dev_reports c' room evs w"
  by (induction c room evs w rule: dev_reports.induct) simp_all

lemma deploy_fields:
  "kt_kv (c\<lparr>dc_Deploy := d\<rparr>) = kt_kv c" "kt_workspaces (c\<lparr>dc_Deploy := d\<rparr>) = kt_workspaces c"
  "kt_quote (c\<lparr>dc_Deploy := d\<rparr>) = kt_quote c" "kt_host (c\<lparr>dc_Deploy := d\<rparr>) = kt_host c"
  "kt_sessions (c\<lparr>dc_Deploy := d\<rparr>) = kt_sessions c" "kt_modelID (c\<lparr>dc_Deploy := d\<rparr>) = kt_modelID c"
  "dc_decode (c\<lparr>dc_Deploy := d\<rparr>) = dc_decode c" "dc_encode (c\<lparr>dc_Deploy := d\<rparr>) = dc_encode c"
  "kt_now (c\<lparr>dc_Deploy := d\<rparr>) = kt_now c" "kt_stamp (c\<lparr>dc_Deploy := d\<rparr>) = kt_stamp c"
  "kt_ctx (c\<lparr>dc_Deploy := d\<rparr>) = kt_ctx c"
  by simp_all

lemma deploy_elsewhere [simp]:
  "dev_say (c\<lparr>dc_Deploy := d\<rparr>) = dev_say c" "dev_resume (c\<lparr>dc_Deploy := d\<rparr>) = dev_resume c"
  "remember_task (c\<lparr>dc_Deploy := d\<rparr>) = remember_task c" "kit_ctx (c\<lparr>dc_Deploy := d\<rparr>) = kit_ctx c"
  unfolding dev_say_def agent_say_def[abs_def] dev_resume_def[abs_def] remember_task_def[abs_def] kit_ctx_def[abs_def] deploy_fields
  by (rule refl)+

lemma deploy_elsewhere' [simp]:
  "new_task (c\<lparr>dc_Deploy := d\<rparr>) = new_task c" "dev_task_for (c\<lparr>dc_Deploy := d\<rparr>) = dev_task_for c"
  "dev_reports (c\<lparr>dc_Deploy := d\<rparr>) = dev_reports c"
proof -
  show n: "new_task (c\<lparr>dc_Deploy := d\<rparr>) = new_task c" unfolding new_task_def[abs_def] deploy_fields deploy_elsewhere ..
  show "dev_task_for (c\<lparr>dc_Deploy := d\<rparr>) = dev_task_for c" unfolding dev_task_for_def[abs_def] deploy_elsewhere n ..
  show "dev_reports (c\<lparr>dc_Deploy := d\<rparr>) = dev_reports c" by (intro ext) (rule dev_reports_say, simp)
qed

lemma dev_turn_same:
  assumes "dev_agent (c\<lparr>dc_Deploy := Some d\<rparr>) = Some a" "dev_agent (c\<lparr>dc_Deploy := Some e\<rparr>) = Some b"
    "map_of (dv_bySession w) (ss_ID (dt_sess (dv_tasks w ! i))) = Some i" "\<not> human (dt_by (dv_tasks w ! i))"
  shows "dev_turn (c\<lparr>dc_Deploy := Some d\<rparr>) a i room prompt w = dev_turn (c\<lparr>dc_Deploy := Some e\<rparr>) b i room prompt w"
proof -
  let ?s = "append_msg (NewUserMessage prompt) (dt_sess (dv_tasks w ! i))"
  have s: "ss_ID ?s = ss_ID (dt_sess (dv_tasks w ! i))" by (simp add: append_msg_def)
  have "Run (kit_ctx c) a (Some ?s) w = Run (kit_ctx c) b (Some ?s) w"
  proof (rule Run_same[where P = "tasks_are (dv_tasks w) (dv_bySession w)"])
    show "same_turns (ss_ID ?s) (tasks_are (dv_tasks w) (dv_bySession w)) a b"
      unfolding s by (rule dev_same_turns[OF assms])
    show "turn_inside (ss_ID ?s) (tasks_are (dv_tasks w) (dv_bySession w)) a"
      by (rule dev_turn_inside[OF assms(1)])
  qed (simp add: tasks_are_def)
  then show ?thesis unfolding dev_turn_def Let_def deploy_elsewhere deploy_elsewhere' by simp
qed

text \<open>What the turn starts from.\<close>

definition turn_starts :: "post \<Rightarrow> nat \<Rightarrow> ('d, 'x) dev_world \<Rightarrow> bool" where
  "turn_starts m i w = (i < length (dv_tasks w) \<and> dt_by (dv_tasks w ! i) = p_Author m \<and>
     map_of (dv_bySession w) (ss_ID (dt_sess (dv_tasks w ! i))) = Some i)"

lemma turn_starts_by: "i < length (dv_tasks w) \<and> map_of (dv_bySession w) (ss_ID (dt_sess (dv_tasks w ! i))) = Some i \<Longrightarrow>
    turn_starts m i (set_task i (\<lambda>t. t\<lparr>dt_by := p_Author m\<rparr>) w)"
  by (simp add: turn_starts_def set_task_def)

lemma turn_starts_later [simp]:
  "turn_starts m i w \<Longrightarrow> turn_starts m i (set_task i (\<lambda>t. t\<lparr>dt_seen := n\<rparr>) w)"
  "on_chat h w = (w', r) \<Longrightarrow> turn_starts m i w' = turn_starts m i w"
  "turn_starts m i (remember_task c tk w) = turn_starts m i w"
  by (auto simp: turn_starts_def set_task_def remember_task_def on_db_def on_chat_def split: prod.splits)

text \<open>C24. Agents cannot deploy. Where the index of tasks is sound, a post by dev, grug or the garage
  makes the dev agent do exactly the same whatever the deploy is: not its effects, its errors nor
  its answers reach the world, the database, the room, or what the model is asked.\<close>

theorem agents_cannot_deploy:
  assumes "dev_agent (c\<lparr>dc_Deploy := Some d\<rparr>) = Some a" "dev_agent (c\<lparr>dc_Deploy := Some e\<rparr>) = Some b"
    "rooms_indexed w" "\<not> human (p_Author m)"
  shows "dev_wake (c\<lparr>dc_Deploy := Some d\<rparr>) a m w = dev_wake (c\<lparr>dc_Deploy := Some e\<rparr>) b m w"
proof -
  obtain w1 r where f: "dev_task_for c m w = (w1, r)" by fastforce
  show ?thesis
  proof (cases r)
    case (Some p)
    then obtain i intro where r: "r = Some (i, intro)" by (cases p) simp
    let ?w2 = "set_task i (\<lambda>t. t\<lparr>dt_by := p_Author m\<rparr>) w1"
    have 2: "turn_starts m i ?w2"
      using task_found_indexed[OF dev_task_for_found assms(3)] f r turn_starts_by by blast
    obtain w3 news where 3: "on_chat (Read (p_Room m) (dt_seen (dv_tasks ?w2 ! i))) ?w2 = (w3, news)" by fastforce
    then have s3: "turn_starts m i w3" using 2 by simp
    have "dev_turn (c\<lparr>dc_Deploy := Some d\<rparr>) a i room prompt w' = dev_turn (c\<lparr>dc_Deploy := Some e\<rparr>) b i room prompt w'"
      if "turn_starts m i w'" for room prompt w'
      using dev_turn_same[OF assms(1,2)] that assms(4) by (simp add: turn_starts_def)
    then show ?thesis using f r 3 s3 by (simp add: dev_wake_def Let_def split: sum.splits)
  qed (simp add: dev_wake_def f)
qed

subsection \<open>An agent that tries\<close>

definition plain_kv :: "unit kv_ops" where
  "plain_kv = \<lparr>k_Get = (\<lambda>k d. (d, Inr None)), k_Put = (\<lambda>k x d. (d, None)), k_Delete = (\<lambda>k d. (d, None)), k_List = (\<lambda>k d. (d, Inr []))\<rparr>"

definition quiet_host :: "nat host" where
  "quiet_host = \<lparr>os_MkdirAll = (\<lambda>p w. (w, None)), os_RemoveAll = (\<lambda>p w. (w, None)), os_ReadDir = (\<lambda>p w. (w, Inr [])),
     os_Stat = (\<lambda>p w. None), os_LookupEnv = (\<lambda>k. None),
     os_Run = (\<lambda>d env name args w. (Suc w, \<lparr>ps_Stdout = '''', ps_Stderr = '''', ps_Err = None, ps_ExitCode = 0\<rparr>))\<rparr>"

definition undecodable :: "string \<Rightarrow> 'a res" where "undecodable s = Inl (Opaque ''no'')"

definition demo_codec :: "unit arg_codec" where
  "demo_codec =
     \<lparr>ac_parse = \<lambda>s. Inr (), ac_validate = \<lambda>n j. None, ac_bash = undecodable, ac_read = undecodable, ac_edit = undecodable,
      ac_write = undecodable, ac_skill = undecodable, ac_pr = undecodable, ac_deploy = Inr\<rparr>"

text \<open>Its model asks for a deploy first.\<close>

definition deploying_model :: "request \<Rightarrow> nat \<Rightarrow> nat \<times> stream_part list res" where
  "deploying_model req x = (Suc x, Inr
     (if ms_Role (last (rq_Messages req)) = RoleUser
      then [ToolCallStream ''1'' ''deploy'' ''c0ffee1'' False, Finish no_usage FinishToolCalls]
      else [TextDelta ''done'', Finish no_usage FinishStop]))"

definition demo_dev :: "(unit, unit, nat) dev_config" where
  "demo_dev = \<lparr>kt_prompt = ''dev'', kt_host = quiet_host, kt_quote = id, kt_parse_pr = undecodable,
     kt_model = deploying_model, kt_modelID = ''m'', kt_sessions = DiscardStore, kt_kv = plain_kv, kt_workspaces = [demo_ws],
     kt_codec = demo_codec, kt_now = (\<lambda>x. 0), kt_stamp = (\<lambda>x. ''0''), kt_ctx = (\<lambda>x. None),
     dc_encode = (\<lambda>r. ''''), dc_decode = undecodable, dc_Deploy = None\<rparr>"

definition demo_world :: "(unit, nat) dev_world" where
  "demo_world = \<lparr>gw_chat = \<lparr>ch_messages = [\<lparr>p_ID = 1, p_Room = ''r'', p_Author = ''grug'', p_Text = ''@dev deploy it'', p_Time = 0\<rparr>],
     ch_cursors = [], ch_mail_rooms = [], ch_members = [], ch_inboxes = [], ch_changed = 0, ch_canceled = False, ch_faults = []\<rparr>,
     gw_db = (), gw_x = 0, dv_tasks = [], dv_rooms = [], dv_bySession = []\<rparr>"

lemma dev_agent_wired: "\<exists>a. dev_agent c = Some a"
  by (cases "dc_Deploy c") (simp_all add: dev_agent_def AgentBase.New_def WithModel_def WithStore_def dev_tools_def bash_tool_def
    read_tool_def edit_tool_def write_tool_def box_tool_def kit_tool_def Adapt_def bash_meta_def read_meta_def edit_meta_def
    write_meta_def open_pr_meta_def deploy_meta_def Let_def)

theorem agents_cannot_deploy_witness:
  "\<exists>a b. dev_agent (demo_dev\<lparr>dc_Deploy := Some (\<lambda>room sha x. (x + 100, Inr ''running''))\<rparr>) = Some a \<and>
     dev_agent (demo_dev\<lparr>dc_Deploy := Some (\<lambda>room sha x. (x, Inl (Opaque ''no'')))\<rparr>) = Some b \<and>
     dev_wake (demo_dev\<lparr>dc_Deploy := Some (\<lambda>room sha x. (x + 100, Inr ''running''))\<rparr>) a (hd (ch_messages (gw_chat demo_world))) demo_world =
     dev_wake (demo_dev\<lparr>dc_Deploy := Some (\<lambda>room sha x. (x, Inl (Opaque ''no'')))\<rparr>) b (hd (ch_messages (gw_chat demo_world))) demo_world"
proof -
  obtain a b where ab: "dev_agent (demo_dev\<lparr>dc_Deploy := Some (\<lambda>room sha x. (x + 100, Inr ''running''))\<rparr>) = Some a"
    "dev_agent (demo_dev\<lparr>dc_Deploy := Some (\<lambda>room sha x. (x, Inl (Opaque ''no'')))\<rparr>) = Some b"
    using dev_agent_wired by metis
  have "rooms_indexed demo_world" by (simp add: rooms_indexed_def demo_world_def)
  moreover have "\<not> human (p_Author (hd (ch_messages (gw_chat demo_world))))"
    by (simp add: human_def demo_world_def DevName_def GrugName_def)
  ultimately show ?thesis using agents_cannot_deploy[OF ab] ab by blast
qed

end
