(* ===== verification/Reviews.thy ===== *)
theory Reviews
  imports Agents SessionStore
begin

section \<open>Reviews come to an end\<close>

text \<open>
  Grug and dev wake each other: a review mentions dev, which pushes and asks again. What stops them
  is a count in grug's database. The contract of that database is \<open>kv_store\<close> with sessions beside
  it that leave it alone; the turso database, which is what grug is given, provides it.
\<close>

locale review_store = kv_store ops view fine
  for ops :: "'s kv_ops" and view fine +
  fixes save :: "task session \<Rightarrow> 's \<Rightarrow> 's \<times> goerr option"
  assumes saves: "fine s \<Longrightarrow> fine (fst (save x s)) \<and> view (fst (save x s)) = view s"

subsection \<open>The database of an agent\<close>

text \<open>One connection and one clock behind both stores.\<close>

definition turso_sessions_on ::
  "(string \<Rightarrow> string) \<Rightarrow> (msg \<Rightarrow> string res) \<Rightarrow> (string \<Rightarrow> msg res) \<Rightarrow> (nat \<Rightarrow> gotime) \<Rightarrow> (task, nat \<times> db) store" where
  "turso_sessions_on quote enc dec now =
    \<lparr>so_Save = (\<lambda>s (i, d). let (d', r) = turso_Save quote enc None (now i) (Some s) d in ((Suc i, d'), r)),
     so_Load = (\<lambda>k (i, d). let (d', r) = turso_Load quote dec None k d in ((i, d'), r)),
     so_List = None\<rparr>"

lemma insertMessage_frame:
  "insertMessage quote enc i seq m now d = (d', r) \<Longrightarrow> db_faults d = [] \<Longrightarrow> db_kv d' = db_kv d \<and> db_faults d' = []"
  by (auto simp: insertMessage_def Let_def split: sum.splits if_splits)

lemma insert_messages_frame:
  "insert_messages quote enc i seq ms now d = (d', r) \<Longrightarrow> db_faults d = [] \<Longrightarrow> db_kv d' = db_kv d \<and> db_faults d' = []"
proof (induction ms arbitrary: seq d)
  case (Cons m ms)
  obtain d1 r1 where 1: "insertMessage quote enc i seq m now d = (d1, r1)" by fastforce
  from insertMessage_frame[OF this] Cons show ?case using 1 by (cases r1) auto
qed simp

lemma upsertSession_frame:
  "upsertSession quote rec now d = (d', r) \<Longrightarrow> db_faults d = [] \<Longrightarrow> db_kv d' = db_kv d \<and> db_faults d' = [] \<and> r = None"
  by (auto simp: upsertSession_def)

lemma turso_Save_frame:
  assumes "turso_Save quote enc None now (Some x) d = (d', r)" "db_faults d = []"
  shows "db_kv d' = db_kv d \<and> db_faults d' = []"
proof -
  obtain d3 r3 where 3: "upsertSession quote (Record x) now d = (d3, r3)" by fastforce
  note u = upsertSession_frame[OF 3 assms(2)]
  obtain d4 r4 where 4: "insert_messages quote enc (sr_ID (Record x)) (length (rows_of (sr_ID (Record x)) d))
      (drop (length (rows_of (sr_ID (Record x)) d)) (sr_Messages (Record x))) now d3 = (d4, r4)" by fastforce
  have i: "db_kv d4 = db_kv d3 \<and> db_faults d4 = []" using insert_messages_frame[OF 4] u by blast
  show ?thesis using assms 3 4 u i
    by (cases r4) (auto simp: turso_Save_def storedCount_def Let_def rollback_def)
qed

interpretation garage_db: review_store "turso_kv quote now" turso_view turso_fine
    "so_Save (turso_sessions_on quote enc dec now)" for quote enc dec now
proof (intro review_store.intro turso_kv_store review_store_axioms.intro)
  fix s :: "nat \<times> db" and x :: "task session" assume f: "turso_fine s"
  obtain i d where s: "s = (i, d)" by (cases s)
  obtain d' r where d: "turso_Save quote enc None (now i) (Some x) d = (d', r)" by fastforce
  then have "fst (so_Save (turso_sessions_on quote enc dec now) x s) = (Suc i, d')"
    by (simp add: turso_sessions_on_def s)
  moreover have "db_kv d' = db_kv d \<and> db_faults d' = []"
    using turso_Save_frame[OF d] f by (simp add: turso_fine_def s)
  ultimately show "turso_fine (fst (so_Save (turso_sessions_on quote enc dec now) x s)) \<and>
      turso_view (fst (so_Save (turso_sessions_on quote enc dec now) x s)) = turso_view s"
    using f by (simp add: turso_fine_def s turso_view_def fun_eq_iff)
qed

subsection \<open>Wakes, one after another\<close>

text \<open>The head that a wake publishes a review of, if it publishes one on \<open>url\<close>.\<close>

definition published ::
  "('j, 'd, 'x) grug_config \<Rightarrow> (task, ('d, 'x) garage) agent \<Rightarrow> string \<Rightarrow> post \<Rightarrow> ('d, 'x) garage \<Rightarrow> string list" where
  "published c a url m w =
    (case grug_gate c m w of
       (w1, Inl answer) \<Rightarrow> []
     | (w1, Inr (ws, pr, heads)) \<Rightarrow>
        (case grug_review c a ws pr m w1 of
           Some (w2, Inr review) \<Rightarrow> if pl_URL pr = url then [pl_HeadSHA pr] else []
         | _ \<Rightarrow> []))"

text \<open>
  What may happen to a PR nobody has reviewed yet: anything outside grug's database, and wakes of
  grug, by any message. The list is the heads it published a review of, in order.
\<close>

inductive reviewed ::
  "('j, 'd, 'x) grug_config \<Rightarrow> (task, ('d, 'x) garage) agent \<Rightarrow> ('d \<Rightarrow> bool) \<Rightarrow> ('d \<Rightarrow> string \<rightharpoonup> string) \<Rightarrow> string \<Rightarrow>
   string list \<Rightarrow> ('d, 'x) garage \<Rightarrow> bool"
  for c a fine view url where
  begins: "fine (gw_db w) \<Longrightarrow> view (gw_db w) (reviewedKey url) = None \<Longrightarrow> reviewed c a fine view url [] w"
| meanwhile: "reviewed c a fine view url hs w \<Longrightarrow> gw_db w' = gw_db w \<Longrightarrow> reviewed c a fine view url hs w'"
| woken: "reviewed c a fine view url hs w \<Longrightarrow> grug_wake c a m w = Some w' \<Longrightarrow>
    reviewed c a fine view url (hs @ published c a url m w) w'"

text \<open>
  What is relied on: \<open>encoding/json\<close> reads only valid UTF-8 and reads back a list it wrote.
\<close>

definition json_documented :: "('j, 'd, 'x) grug_config \<Rightarrow> bool" where
  "json_documented c =
    ((\<forall>out pr. kt_parse_pr c out = Inr pr \<longrightarrow> valid_utf8 (pl_URL pr) \<and> valid_utf8 (pl_HeadSHA pr)) \<and>
     (\<forall>raw. list_all valid_utf8 (gc_heads c raw)) \<and>
     (\<forall>hs. list_all valid_utf8 hs \<longrightarrow> gc_heads c (gc_encode c hs) = hs))"

definition heads_in :: "('j, 'd, 'x) grug_config \<Rightarrow> string option \<Rightarrow> string list" where
  "heads_in c raw = (case raw of None \<Rightarrow> [] | Some r \<Rightarrow> gc_heads c r)"

lemma valid_key: "valid_utf8 url \<Longrightarrow> valid_utf8 (reviewedKey url)"
proof -
  have "valid_utf8 ''grug/reviewed/''" using runes_ascii[of "''grug/reviewed/''"] by (simp add: ascii_def)
  then show "valid_utf8 url \<Longrightarrow> valid_utf8 (reviewedKey url)" unfolding reviewedKey_def using valid_append by blast
qed

lemma pullRequest_parsed: "pullRequest parse h ws d ref w = (w', Inr pr) \<Longrightarrow> \<exists>out. parse out = Inr pr"
  by (auto simp: pullRequest_def split: prod.splits sum.splits)

lemma grug_agent_wiring:
  assumes "grug_agent c = Some a"
  shows "ag_Model a = Some (kit_model c)" "ag_Store a = Some (kit_store c)" "ag_Memory a = None"
    "ag_Tools a = map (\<lambda>t. (td_Name (tl_Def t), t)) [bash_tool c, read_tool c, skill_tool c [gc_skill c]]"
proof -
  have "WithTools [bash_tool c, read_tool c, skill_tool c [gc_skill c]]
      \<lparr>ag_SystemPrompt = kt_prompt c, ag_Tools = [], ag_Model = Some (kit_model c),
       ag_Store = Some (kit_store c), ag_Memory = None\<rparr> = Some a"
    using assms by (auto simp: grug_agent_def AgentBase.New_def WithModel_def WithStore_def split: option.splits)
  from WithTools_adds[OF this]
  show "ag_Model a = Some (kit_model c)" "ag_Store a = Some (kit_store c)" "ag_Memory a = None"
    "ag_Tools a = map (\<lambda>t. (td_Name (tl_Def t), t)) [bash_tool c, read_tool c, skill_tool c [gc_skill c]]"
    by simp_all
qed

lemma gw_db_elsewhere [simp]:
  "gw_db (fst (on_x f w)) = gw_db w" "gw_db (fst (on_chat h w)) = gw_db w"
  "gw_db (fst (on_db g w)) = fst (g (gw_db w))" "snd (on_db g w) = snd (g (gw_db w))"
  by (simp_all add: on_x_def on_chat_def on_db_def split: prod.splits)

lemma gw_db_say [simp]: "gw_db (grug_say c room t w) = gw_db w"
  by (simp add: grug_say_def agent_say_def)

context review_store
begin

definition holds where "holds v w = (fine (gw_db w) \<and> view (gw_db w) = v)"

lemma box_tool_holds: "holds v w \<Longrightarrow> holds v (fst (tl_Execute (box_tool k meta dec ex) s box inp w))"
  unfolding box_tool_def by (rule kit_tool_inside[where i = "ss_ID s"]) (simp_all add: holds_def)

lemma grug_turn_holds:
  fixes c :: "('j, 's, 'a) grug_config"
  assumes "grug_agent c = Some a" "so_Save (kt_sessions c) = save"
  shows "turn_inside i (holds v) a"
proof -
  have "holds v (fst (tl_Execute t s box inp w))"
    if "t \<in> set [bash_tool c, read_tool c, skill_tool c [gc_skill c]]" "holds v w"
    for t :: "(task, ('s, 'a) garage) tool" and s box inp w
    using that unfolding bash_tool_def read_tool_def skill_tool_def by (auto intro: box_tool_holds)
  moreover have "holds v (fst (on_db (so_Save (kt_sessions c) s) w))" if "holds v w" for s and w :: "('s, 'a) garage"
    using that saves[of "gw_db w" s] assms(2) by (simp add: holds_def)
  moreover have "holds v (fst (on_x (kt_model c req) w))" if "holds v w" for req and w :: "('s, 'a) garage"
    using that by (simp add: holds_def)
  ultimately show ?thesis
    by (simp add: turn_inside_def grug_agent_wiring[OF assms(1)] kit_model_def kit_store_def)
qed

lemma review_holds:
  assumes "grug_agent c = Some a" "so_Save (kt_sessions c) = save" "holds v w"
    "grug_review c a ws pr m w = Some (w', r)"
  shows "holds v w'"
proof -
  let ?i = "''review-'' @ short_sha (pl_HeadSHA pr) @ ''-'' @ kt_stamp c (gw_x w)"
  obtain w1 q where 1: "on_x (ws_Checkout (kt_quote c) (kt_host c) ws ?i pr) w = (w1, q)" by fastforce
  then have h1: "holds v w1" using assms(3) gw_db_elsewhere(1) by (metis fst_conv holds_def)
  show ?thesis
  proof (cases q)
    case (Inl e) then show ?thesis using 1 h1 assms(4) by (simp add: grug_review_def)
  next
    case (Inr wt)
    let ?s = "append_msg (NewUserMessage (review_prompt pr m)) (NewSession task_ops ?i (kt_modelID c) (Some wt) w1)"
    have closed: "holds v (fst (on_x (task_Close (kt_host c) wt) w2)) = holds v w2" for w2 by (simp add: holds_def)
    consider e where "Run (kit_ctx c) a (Some ?s) w1 = Inl e" | "Run (kit_ctx c) a (Some ?s) w1 = Inr None"
      | s' evs w2 where "Run (kit_ctx c) a (Some ?s) w1 = Inr (Some (s', evs, w2))"
      by (cases "Run (kit_ctx c) a (Some ?s) w1") fastforce+
    then show ?thesis
    proof cases
      case 1 then show ?thesis using \<open>on_x _ w = (w1, q)\<close> Inr assms(4) h1 closed
        by (auto simp: grug_review_def Let_def)
    next
      case 2 then show ?thesis using \<open>on_x _ w = (w1, q)\<close> Inr assms(4) by (simp add: grug_review_def Let_def)
    next
      case 3
      then have "holds v w2" by (rule Run_inside[OF _ grug_turn_holds[OF assms(1,2)] h1])
      moreover have "\<exists>x. grug_review c a ws pr m w = Some (fst (on_x (task_Close (kt_host c) wt) w2), x)"
        unfolding grug_review_def Let_def \<open>on_x _ w = (w1, q)\<close> Inr prod.case sum.case 3 option.case by blast
      ultimately show ?thesis using assms(4) closed by (metis option.inject prod.inject)
    qed
  qed
qed

text \<open>What the gate lets through.\<close>

lemma gate_passes:
  assumes "kt_kv c = ops" "json_documented c" "holds v w" "grug_gate c m w = (w', r)"
  shows "holds v w' \<and> (\<forall>ws pr heads. r = Inr (ws, pr, heads) \<longrightarrow> valid_utf8 (pl_URL pr) \<and> valid_utf8 (pl_HeadSHA pr) \<and>
     heads = heads_in c (v (reviewedKey (pl_URL pr))) \<and> (heads = [] \<or> last heads \<noteq> pl_HeadSHA pr) \<and> length heads < maxReviews)"
proof (cases "\<exists>ws. find_link (p_Text m) \<noteq> '''' \<and> pick (kt_workspaces c) (p_Text m) = Inr ws")
  case False
  then show ?thesis using assms(3,4) by (auto simp: grug_gate_def Let_def split: sum.splits if_splits)
next
  case True
  then obtain ws where url: "find_link (p_Text m) \<noteq> ''''" and ws: "pick (kt_workspaces c) (p_Text m) = Inr ws" by blast
  let ?pr = "ws_PullRequest (kt_parse_pr c) (kt_host c) ws (find_link (p_Text m))"
  obtain w1 q where 1: "on_x ?pr w = (w1, q)" by fastforce
  then have h1: "holds v w1" using assms(3) gw_db_elsewhere(1) by (metis fst_conv holds_def)
  show ?thesis
  proof (cases q)
    case (Inl e) then show ?thesis using url ws 1 h1 assms(4) by (auto simp: grug_gate_def Let_def)
  next
    case (Inr pr)
    obtain x' where "?pr (gw_x w) = (x', Inr pr)" using 1 Inr by (auto simp: on_x_def split: prod.splits)
    then have "\<exists>out. kt_parse_pr c out = Inr pr" unfolding ws_PullRequest_def by (rule pullRequest_parsed)
    then obtain out where "kt_parse_pr c out = Inr pr" ..
    then have valid: "valid_utf8 (pl_URL pr)" "valid_utf8 (pl_HeadSHA pr)" using assms(2) by (auto simp: json_documented_def)
    let ?key = "reviewedKey (pl_URL pr)"
    have f: "fine (gw_db w1)" and v: "view (gw_db w1) = v" using h1 by (simp_all add: holds_def)
    obtain s' where g: "k_Get ops ?key (gw_db w1) = (s', Inr (v ?key))" "fine s'" "view s' = v"
      using get[OF f valid_key[OF valid(1)]] v by auto
    let ?w2 = "w1\<lparr>gw_db := s'\<rparr>"
    have 2: "on_db (k_Get (kt_kv c) ?key) w1 = (?w2, Inr (v ?key))" using g(1) assms(1) by (simp add: on_db_def)
    have h2: "holds v ?w2" using g(2,3) by (simp add: holds_def)
    let ?heads = "heads_in c (v ?key)"
    have "(w', r) = (if ?heads \<noteq> [] \<and> last ?heads = pl_HeadSHA pr
       then (?w2, Inl (''grug already reviewed '' @ pl_URL pr @ '' at '' @ short_sha (pl_HeadSHA pr) @
                    ''. push new commits, then ask again.''))
       else if length ?heads \<ge> maxReviews
       then (?w2, Inl (''grug reviewed '' @ pl_URL pr @ '' '' @ itoa (int (length ?heads)) @ '' times. a human takes it from here.''))
       else (?w2, Inr (ws, pr, ?heads)))"
      unfolding assms(4)[symmetric] using url ws 1 Inr 2 by (simp add: grug_gate_def Let_def heads_in_def)
    then show ?thesis using h2 valid by (auto split: if_splits)
  qed
qed

lemma publish_remembers:
  assumes "kt_kv c = ops" "json_documented c" "holds v w" "valid_utf8 (pl_URL pr)"
    "list_all valid_utf8 (heads @ [pl_HeadSHA pr])"
  shows "\<exists>raw. gc_heads c raw = heads @ [pl_HeadSHA pr] \<and>
    holds (v(reviewedKey (pl_URL pr) \<mapsto> raw)) (grug_publish c ws pr heads m review w)"
proof (intro exI conjI)
  let ?raw = "gc_encode c (heads @ [pl_HeadSHA pr])" and ?key = "reviewedKey (pl_URL pr)"
  show "gc_heads c ?raw = heads @ [pl_HeadSHA pr]" using assms(2,5) by (simp add: json_documented_def)
  obtain s' where p: "k_Put ops ?key ?raw (gw_db w) = (s', None)" "fine s'" "view s' = v(?key \<mapsto> ?raw)"
    using put[of "gw_db w" ?key ?raw] valid_key[OF assms(4)] assms(3) by (auto simp: holds_def)
  have 1: "on_db (k_Put (kt_kv c) ?key ?raw) w = (w\<lparr>gw_db := s'\<rparr>, None)" using p(1) assms(1) by (simp add: on_db_def)
  obtain w2 r where 2: "on_x (ws_Comment (kt_host c) ws (pl_URL pr)
            (''grug review of '' @ short_sha (pl_HeadSHA pr) @ '':'' @ nl @ nl @ review)) (w\<lparr>gw_db := s'\<rparr>) = (w2, r)" by fastforce
  then have "gw_db w2 = gw_db (w\<lparr>gw_db := s'\<rparr>)" by (metis fst_conv gw_db_elsewhere(1))
  then have "gw_db w2 = s'" by simp
  then show "holds (v(?key \<mapsto> ?raw)) (grug_publish c ws pr heads m review w)"
    using 1 2 p(2,3) unfolding grug_publish_def Let_def by (cases r) (simp_all add: holds_def)
qed

lemma published_cases:
  assumes "kt_kv c = ops" "so_Save (kt_sessions c) = save" "json_documented c" "grug_agent c = Some a" "holds v w"
    "grug_wake c a m w = Some w'"
  shows "published c a url m w = [] \<and> (\<exists>v'. holds v' w' \<and> v' (reviewedKey url) = v (reviewedKey url)) \<or>
    (\<exists>sha raw v'. published c a url m w = [sha] \<and> holds v' w' \<and> v' (reviewedKey url) = Some raw \<and>
       gc_heads c raw = heads_in c (v (reviewedKey url)) @ [sha] \<and> length (heads_in c (v (reviewedKey url))) < maxReviews \<and>
       (heads_in c (v (reviewedKey url)) = [] \<or> last (heads_in c (v (reviewedKey url))) \<noteq> sha))"
proof -
  obtain w1 r where g: "grug_gate c m w = (w1, r)" by fastforce
  note gate = gate_passes[OF assms(1,3,5) g]
  show ?thesis
  proof (cases r)
    case (Inl answer)
    then have "holds v w'" using gate g assms(6) by (auto simp: grug_wake_def holds_def)
    then show ?thesis using Inl g by (auto simp: published_def)
  next
    case (Inr p)
    obtain ws pr heads where p: "p = (ws, pr, heads)" by (cases p)
    obtain w2 q where 2: "grug_review c a ws pr m w1 = Some (w2, q)"
      using assms(6) g Inr p by (cases "grug_review c a ws pr m w1") (auto simp: grug_wake_def)
    have h2: "holds v w2" using review_holds[OF assms(4,2) _ 2] gate by blast
    show ?thesis
    proof (cases q)
      case q: (Inl e)
      then have "holds v w'" using h2 g Inr p 2 assms(6) by (auto simp: grug_wake_def holds_def)
      then show ?thesis using q g Inr p 2 by (auto simp: published_def)
    next
      case q: (Inr review)
      have w': "w' = grug_publish c ws pr heads m review w2" using g Inr p 2 q assms(6) by (simp add: grug_wake_def)
      have pr: "valid_utf8 (pl_URL pr)" "valid_utf8 (pl_HeadSHA pr)" "heads = heads_in c (v (reviewedKey (pl_URL pr)))"
        "heads = [] \<or> last heads \<noteq> pl_HeadSHA pr" "length heads < maxReviews" using gate Inr p by auto
      have "list_all valid_utf8 heads"
        using pr(3) assms(3) by (auto simp: heads_in_def json_documented_def split: option.splits)
      then obtain raw where raw: "gc_heads c raw = heads @ [pl_HeadSHA pr]" "holds (v(reviewedKey (pl_URL pr) \<mapsto> raw)) w'"
        using publish_remembers[OF assms(1,3) h2 pr(1), of heads ws m review] pr(2) w' by auto
      show ?thesis
      proof (cases "pl_URL pr = url")
        case True
        then have "published c a url m w = [pl_HeadSHA pr]" using q g Inr p 2 by (simp add: published_def)
        moreover have "gc_heads c raw = heads_in c (v (reviewedKey url)) @ [pl_HeadSHA pr]" "length (heads_in c (v (reviewedKey url))) < maxReviews"
          "heads_in c (v (reviewedKey url)) = [] \<or> last (heads_in c (v (reviewedKey url))) \<noteq> pl_HeadSHA pr"
          using raw(1) pr(3-5) True by simp_all
        moreover have "(v(reviewedKey (pl_URL pr) \<mapsto> raw)) (reviewedKey url) = Some raw" using True by simp
        ultimately show ?thesis using raw(2)
          by - (rule disjI2, rule exI[of _ "pl_HeadSHA pr"], rule exI[of _ raw], rule exI, intro conjI)
      next
        case False
        then have "published c a url m w = []" using q g Inr p 2 by (simp add: published_def)
        moreover have "(v(reviewedKey (pl_URL pr) \<mapsto> raw)) (reviewedKey url) = v (reviewedKey url)"
          using False by (simp add: reviewedKey_def)
        ultimately show ?thesis using raw(2) by blast
      qed
    qed
  qed
qed

lemma reviews_bounded:
  assumes "kt_kv c = ops" "so_Save (kt_sessions c) = save" "json_documented c" "grug_agent c = Some a"
    "reviewed c a fine view url hs w"
  shows "\<exists>v. holds v w \<and> heads_in c (v (reviewedKey url)) = hs \<and> length hs \<le> maxReviews \<and> distinct_adj hs"
  using assms(5)
proof induction
  case (begins w)
  then show ?case by (intro exI[of _ "view (gw_db w)"]) (simp add: holds_def heads_in_def)
next
  case (meanwhile hs w w')
  then show ?case by (auto simp: holds_def)
next
  case (woken hs w m w')
  then obtain v where v: "holds v w" "heads_in c (v (reviewedKey url)) = hs" "length hs \<le> maxReviews" "distinct_adj hs" by blast
  from published_cases[OF assms(1-4) v(1) woken.hyps(2), of url] v show ?case
    by (auto simp: heads_in_def distinct_adj_def successively_append_iff)
qed

end

text \<open>C25. Reviewing comes to an end. As long as no call of its database fails: however often, by
  whatever message and in whatever worlds grug is woken, restarts included, on a PR nobody had reviewed
  it publishes at most three reviews, never two in a row of the same head, and its turso database holds
  exactly the heads they were of. (A write that fails is only logged: \<open>a_failed_put_is_only_logged\<close>.)\<close>

theorem reviews_come_to_an_end:
  assumes "reviewed c a turso_fine turso_view url hs w" "grug_agent c = Some a" "json_documented c"
    "kt_kv c = turso_kv quote now" "kt_sessions c = turso_sessions_on quote enc dec now"
  shows "length hs \<le> maxReviews \<and> distinct_adj hs \<and> heads_in c (turso_view (gw_db w) (reviewedKey url)) = hs"
  using garage_db.reviews_bounded[of c quote now, OF assms(4) _ assms(3,2,1)] assms(5)
  by (auto simp: garage_db.holds_def)

subsection \<open>A reviewer to try things on\<close>

text \<open>A list of strings, each after its length in unary.\<close>

fun unary_list :: "string list \<Rightarrow> string" where
  "unary_list [] = []"
| "unary_list (s # ss) = replicate (length s) CHR ''a'' @ CHR ''b'' # s @ unary_list ss"

fun from_unary :: "nat \<Rightarrow> string \<Rightarrow> string list" where
  "from_unary 0 s = []"
| "from_unary (Suc n) s =
    (let k = length (takeWhile (\<lambda>c. c = CHR ''a'') s); t = drop (k + 1) s in
     if k = length s then [] else take k t # from_unary n (drop k t))"

lemma from_unary_list: "length ss \<le> n \<Longrightarrow> from_unary n (unary_list ss) = ss"
proof (induction ss arbitrary: n)
  case Nil then show ?case by (cases n) simp_all
next
  case (Cons s ss)
  then obtain k where n: "n = Suc k" by (cases n) simp_all
  have t: "takeWhile (\<lambda>c. c = CHR ''a'') (replicate (length s) CHR ''a'' @ CHR ''b'' # s @ unary_list ss) = replicate (length s) CHR ''a''"
    by (subst takeWhile_append2) simp_all
  show ?case using Cons unfolding n by (simp add: t Let_def)
qed

lemma unary_list_length: "length ss \<le> length (unary_list ss)"
  by (induction ss) auto

definition demo_pr :: pull_request where
  "demo_pr = \<lparr>pl_URL = ''http://x/pull/1'', pl_State = ''OPEN'', pl_Head = ''garage/t'', pl_HeadSHA = ''c0ffee1'', pl_Base = ''main''\<rparr>"

definition demo_grug :: "(unit, nat \<times> db, nat) grug_config" where
  "demo_grug = \<lparr>kt_prompt = ''grug'', kt_host = quiet_host, kt_quote = id, kt_parse_pr = (\<lambda>s. Inr demo_pr),
     kt_model = (\<lambda>req x. (Suc x, Inr [TextDelta ''grug like'', Finish no_usage FinishStop])), kt_modelID = ''m'',
     kt_sessions = turso_sessions_on id (\<lambda>m. Inr '''') (\<lambda>s. Inl (Opaque ''no'')) int,
     kt_kv = turso_kv id int, kt_workspaces = [demo_ws], kt_codec = demo_codec,
     kt_now = (\<lambda>x. 0), kt_stamp = (\<lambda>x. ''0''), kt_ctx = (\<lambda>x. None),
     gc_heads = (\<lambda>raw. filter valid_utf8 (from_unary (length raw) raw)), gc_encode = unary_list,
     gc_skill = \<lparr>sk_Name = ''review'', sk_Description = ''d'', sk_Instructions = ''i''\<rparr>\<rparr>"

lemma demo_grug_json: "json_documented demo_grug"
proof -
  have "ascii ''http://x/pull/1''" "ascii ''c0ffee1''" by (simp_all add: ascii_def)
  then show ?thesis
    using from_unary_list[OF unary_list_length] runes_ascii
    by (auto simp: json_documented_def demo_grug_def demo_pr_def list_all_iff filter_id_conv)
qed

definition demo_start :: "(nat \<times> db, nat) garage" where
  "demo_start = \<lparr>gw_chat = \<lparr>ch_messages = [], ch_cursors = [], ch_mail_rooms = [], ch_members = [], ch_inboxes = [],
     ch_changed = 0, ch_canceled = False, ch_faults = []\<rparr>, gw_db = (0, new_db), gw_x = 0\<rparr>"

definition demo_ask :: post where
  "demo_ask = \<lparr>p_ID = 1, p_Room = ''r'', p_Author = ''dev'', p_Text = ''review http://x/pull/1'', p_Time = 0\<rparr>"

definition demo_task :: task where "demo_task = task_on demo_ws ''review-c0ffee1-0'' ''garage/t''"

definition review_session :: "string \<Rightarrow> task session" where
  "review_session p = \<lparr>ss_ID = ''review-c0ffee1-0'', ss_Model = ''m'', ss_Messages = [NewUserMessage p], ss_Usage = no_usage,
     ss_Status = StatusActive, ss_name = ''review-c0ffee1-0'', ss_box = Some demo_task\<rparr>"

definition demo_answer :: msg where "demo_answer = \<lparr>ms_Role = RoleAssistant, ms_Content = [TextPart ''grug like'']\<rparr>"

lemma demo_gate: "grug_gate demo_grug demo_ask demo_start = (demo_start\<lparr>gw_x := 1\<rparr>, Inr (demo_ws, demo_pr, []))"
proof -
  have 1: "find_link (p_Text demo_ask) = ''http://x/pull/1''" by code_simp
  have 2: "pick (kt_workspaces demo_grug) (p_Text demo_ask) = Inr demo_ws" by (simp add: demo_grug_def) code_simp
  show ?thesis unfolding grug_gate_def 1 2 Let_def
    by (simp add: demo_grug_def demo_start_def on_x_def on_db_def ws_PullRequest_def pullRequest_def ws_run_def
      quiet_host_def turso_kv_def kv_Get_def kv_row_of_def new_db_def maxReviews_def demo_ws_def)
qed

lemma demo_call:
  "agent_call (kit_model demo_grug) req w = (w\<lparr>gw_x := Suc (gw_x w)\<rparr>, no_usage, Inr demo_answer)"
proof -
  have "Collect [TextDelta ''grug like'', Finish no_usage FinishStop] = (no_usage, Inr demo_answer)"
    by (simp add: Collect_def gathered0_def finished_def demo_answer_def)
  then show ?thesis by (simp add: agent_call_def kit_model_def on_x_def demo_grug_def)
qed

lemma demo_save:
  "\<exists>d. so_Save (kit_store demo_grug) (append_msg demo_answer (review_session p)) (demo_start\<lparr>gw_x := n\<rparr>) =
     (demo_start\<lparr>gw_x := n, gw_db := d\<rparr>, None)"
  by (simp add: append_msg_def demo_start_def on_db_def kit_store_def demo_grug_def turso_sessions_on_def turso_Save_def
      storedCount_def review_session_def new_db_def Record_def upsertSession_def session_row_of_def rows_of_def
      insertMessage_def insort_key_def)

lemma demo_run:
  assumes "grug_agent demo_grug = Some a"
  shows "\<exists>s' w'. Run (kit_ctx demo_grug) a (Some (review_session p)) (demo_start\<lparr>gw_x := n\<rparr>) =
    Inr (Some (s', [EventAssistant demo_answer, EventDone demo_answer], w'))"
proof -
  let ?s0 = "review_session p" and ?s1 = "append_msg demo_answer (review_session p)"
  obtain d where d: "so_Save (kit_store demo_grug) ?s1 (demo_start\<lparr>gw_x := Suc n\<rparr>) = (demo_start\<lparr>gw_x := Suc n, gw_db := d\<rparr>, None)"
    using demo_save by blast
  have ctx: "kit_ctx demo_grug w = None" for w by (simp add: kit_ctx_def demo_grug_def)
  have usage: "addUsage no_usage no_usage = no_usage" by code_simp
  let ?step = "run_step (kit_ctx demo_grug) (kit_model demo_grug) (kit_store demo_grug) a (ag_SystemPrompt a) demo_task"
  let ?w1 = "demo_start\<lparr>gw_x := Suc n, gw_db := d\<rparr>"
  have "?step (?s0, [], demo_start\<lparr>gw_x := n\<rparr>) = Inl (?s1, [EventAssistant demo_answer], ?w1)"
    using d by (simp add: run_step_def ctx review_session_def lastMessage_def toolCalls_def NewUserMessage_def
      model_round_def demo_call usage)
  moreover have "\<exists>s' w'. ?step (?s1, [EventAssistant demo_answer], ?w1) = Inr (s', [EventAssistant demo_answer, EventDone demo_answer], w')"
    by (simp add: run_step_def ctx append_msg_def lastMessage_def toolCalls_def demo_answer_def Let_def)
  ultimately have "\<exists>s' w'. loop ?step (?s0, [], demo_start\<lparr>gw_x := n\<rparr>) = Some (s', [EventAssistant demo_answer, EventDone demo_answer], w')"
    by (auto simp: loop_next)
  then show ?thesis by (simp add: Run_def grug_agent_wiring[OF assms] session_Sandbox_def review_session_def systemPrompt_def)
qed

lemma demo_review:
  assumes "grug_agent demo_grug = Some a"
  shows "\<exists>w. grug_review demo_grug a demo_ws demo_pr demo_ask (demo_start\<lparr>gw_x := 1\<rparr>) = Some (w, Inr ''grug like'')"
proof -
  have 1: "''review-'' @ short_sha (pl_HeadSHA demo_pr) @ ''-'' @ kt_stamp demo_grug (gw_x (demo_start\<lparr>gw_x := 1\<rparr>)) = ''review-c0ffee1-0''"
    by (simp add: short_sha_def demo_pr_def demo_grug_def)
  have "plainName ''review-c0ffee1-0''" by code_simp
  then have 2: "on_x (ws_Checkout (kt_quote demo_grug) (kt_host demo_grug) demo_ws ''review-c0ffee1-0'' demo_pr) (demo_start\<lparr>gw_x := 1\<rparr>) =
      (demo_start\<lparr>gw_x := 6\<rparr>, Inr demo_task)"
    by (simp add: on_x_def ws_Checkout_def demo_grug_def after_runs_def ws_run_def quiet_host_def fetch_def demo_task_def
      demo_pr_def demo_start_def Let_def)
  have 3: "append_msg (NewUserMessage p) (NewSession task_ops ''review-c0ffee1-0'' (kt_modelID demo_grug) (Some demo_task) w) = review_session p"
    for p and w :: "(nat \<times> db, nat) garage"
    by (simp add: append_msg_def NewSession_def review_session_def task_ops_def demo_grug_def demo_task_def task_on_def)
  have 4: "reply_text demo_answer = ''grug like''"
    by (simp add: reply_text_def demo_answer_def TextParts_def trim_space_printable printable_def)
  show ?thesis using demo_run[OF assms, of "review_prompt demo_pr demo_ask" 6]
    unfolding grug_review_def Let_def 1 2 prod.case sum.case 3 by (auto simp: 4)
qed

lemma grug_agent_wired: "\<exists>a. grug_agent c = Some a"
  by (simp add: grug_agent_def AgentBase.New_def WithModel_def WithStore_def bash_tool_def read_tool_def skill_tool_def
    box_tool_def kit_tool_def Adapt_def bash_meta_def read_meta_def skill_meta_def Let_def)

theorem reviews_come_to_an_end_witness:
  "\<exists>a w. grug_agent demo_grug = Some a \<and> reviewed demo_grug a turso_fine turso_view ''http://x/pull/1'' [''c0ffee1''] w \<and>
     heads_in demo_grug (turso_view (gw_db w) (reviewedKey ''http://x/pull/1'')) = [''c0ffee1'']"
proof -
  obtain a where a: "grug_agent demo_grug = Some a" using grug_agent_wired by blast
  obtain w2 where 2: "grug_review demo_grug a demo_ws demo_pr demo_ask (demo_start\<lparr>gw_x := 1\<rparr>) = Some (w2, Inr ''grug like'')"
    using demo_review[OF a] by blast
  have "reviewed demo_grug a turso_fine turso_view ''http://x/pull/1'' [] demo_start"
    by (rule reviewed.begins) (simp_all add: demo_start_def turso_fine_def new_db_def turso_view_def kv_row_of_def)
  moreover have "\<exists>w'. grug_wake demo_grug a demo_ask demo_start = Some w'"
    unfolding grug_wake_def demo_gate prod.case sum.case 2 option.case by blast
  moreover have "published demo_grug a ''http://x/pull/1'' demo_ask demo_start = [''c0ffee1'']"
    unfolding published_def demo_gate prod.case sum.case 2 option.case by (simp add: demo_pr_def)
  ultimately obtain w where w: "reviewed demo_grug a turso_fine turso_view ''http://x/pull/1'' [''c0ffee1''] w"
    using reviewed.woken by (metis append_Nil)
  have "kt_kv demo_grug = turso_kv id int" "kt_sessions demo_grug = turso_sessions_on id (\<lambda>m. Inr '''') (\<lambda>s. Inl (Opaque ''no'')) int"
    by (simp_all add: demo_grug_def)
  from reviews_come_to_an_end[OF w a demo_grug_json this] show ?thesis using a w by blast
qed

text \<open>Only the latest head counts: one that was reviewed before it is reviewed again.\<close>

lemma an_old_head_is_reviewed_again:
  assumes "gw_db w = (0, new_db\<lparr>db_kv := [\<lparr>kr_key = reviewedKey ''http://x/pull/1'',
      kr_value = unary_list [pl_HeadSHA demo_pr, ''decade2''], kr_created = 0, kr_updated = 0\<rparr>]\<rparr>)"
  shows "\<exists>w'. grug_gate demo_grug demo_ask w = (w', Inr (demo_ws, demo_pr, [pl_HeadSHA demo_pr, ''decade2'']))"
proof -
  have 1: "find_link (p_Text demo_ask) = ''http://x/pull/1''" by code_simp
  have 2: "pick (kt_workspaces demo_grug) (p_Text demo_ask) = Inr demo_ws" by (simp add: demo_grug_def) code_simp
  have "list_all valid_utf8 [''c0ffee1'', ''decade2'']" using runes_ascii by (simp add: ascii_def)
  moreover have "gc_encode demo_grug = unary_list" by (simp add: demo_grug_def)
  ultimately have "gc_heads demo_grug (unary_list [''c0ffee1'', ''decade2'']) = [''c0ffee1'', ''decade2'']"
    using demo_grug_json unfolding json_documented_def by metis
  moreover have "kt_kv demo_grug = turso_kv id int" "kt_parse_pr demo_grug = (\<lambda>s. Inr demo_pr)" "kt_host demo_grug = quiet_host"
    by (simp_all add: demo_grug_def)
  ultimately show ?thesis unfolding grug_gate_def 1 2 Let_def using assms
    by (simp add: on_x_def on_db_def ws_PullRequest_def pullRequest_def ws_run_def demo_ws_def quiet_host_def turso_kv_def
      kv_Get_def kv_row_of_def new_db_def maxReviews_def demo_pr_def del: unary_list.simps)
qed

text \<open>An answer that is no review repeats the link it was asked about, and a link can hold a mention.\<close>

lemma a_plain_answer_can_mention:
  assumes "p_Text m = ''http://x/@dev/pull/1''"
  shows "\<exists>w' answer. grug_gate (demo_grug\<lparr>kt_parse_pr := undecodable\<rparr>) m w = (w', Inl answer) \<and> ''dev'' \<in> set (mentions answer)"
proof -
  have 1: "find_link ''http://x/@dev/pull/1'' = ''http://x/@dev/pull/1''"
    "pick (kt_workspaces (demo_grug\<lparr>kt_parse_pr := undecodable\<rparr>)) ''http://x/@dev/pull/1'' = Inr demo_ws"
    by (code_simp, simp add: demo_grug_def, code_simp)
  have 2: "mentions (''grug can'' @ [CHR 0x27] @ ''t see http://x/@dev/pull/1: gh pr view http://x/@dev/pull/1: no'') = [''dev'', ''dev'']" by code_simp
  show ?thesis unfolding grug_gate_def assms 1 Let_def using 2
    by (simp add: demo_grug_def on_x_def ws_PullRequest_def pullRequest_def ws_run_def demo_ws_def quiet_host_def undecodable_def)
qed

text \<open>
  Whether the \<open>Put\<close> that remembers a review failed is not looked at: the review is posted on the PR all
  the same, and when the database is as it was, the head counts as not reviewed.
\<close>

lemma a_failed_put_is_only_logged:
  assumes "k_Put (kt_kv c) (reviewedKey (pl_URL pr)) (gc_encode c (heads @ [pl_HeadSHA pr])) (gw_db w) = (gw_db w, Some e)"
  shows "gw_db (grug_publish c ws pr heads m review w) = gw_db w"
    and "gw_x (grug_publish c ws pr heads m review w) = fst (ws_Comment (kt_host c) ws (pl_URL pr)
      (''grug review of '' @ short_sha (pl_HeadSHA pr) @ '':'' @ nl @ nl @ review) (gw_x w))"
  using assms by (auto simp: grug_publish_def on_db_def on_x_def on_chat_def grug_say_def agent_say_def Let_def split: prod.splits option.splits)

end
