(* ===== verification/McpBase.thy ===== *)
theory McpBase
  imports AgentBase Utf8
begin

section \<open>Calling MCP servers: metaharness/mcp\<close>

text \<open>
  The MCP SDK, with the transport it dials, is the record \<open>sdk\<close> on a world \<open>'w\<close>; a client session is
  the number the SDK gave it. An error of a tool call is told apart as \<open>errors.As\<close> does: a JSON-RPC
  error is an answer. Timeouts are the context's, which \<open>sdk_Err\<close> answers. The observer is given every
  event, and what it was given is \<open>mc_events\<close>. The three blocks under the server's lock are
  \<open>establish\<close>, \<open>forget\<close> and \<open>Close_take\<close>.
\<close>

subsection \<open>observer.go\<close>

datatype mcp_event_type = EventDialed | EventDiscovered | EventSkipped | EventCalled | EventRedialed

fun mcp_event_String :: "mcp_event_type \<Rightarrow> string" where
  "mcp_event_String EventDialed = ''dialed''"
| "mcp_event_String EventDiscovered = ''discovered''"
| "mcp_event_String EventSkipped = ''skipped''"
| "mcp_event_String EventCalled = ''called''"
| "mcp_event_String EventRedialed = ''redialed''"

record mcp_event =
  mv_Type :: mcp_event_type
  mv_Server :: string
  mv_Tool :: string
  mv_Protocol :: string
  mv_Count :: nat
  mv_Duration :: int
  mv_Err :: "goerr option"

definition mcp_event0 :: "mcp_event_type \<Rightarrow> string \<Rightarrow> mcp_event" where
  "mcp_event0 t server = \<lparr>mv_Type = t, mv_Server = server, mv_Tool = '''', mv_Protocol = '''', mv_Count = 0,
     mv_Duration = 0, mv_Err = None\<rparr>"

subsection \<open>server.go\<close>

datatype mcp_error = RpcError goerr | NoTransport goerr

fun mcp_err :: "mcp_error \<Rightarrow> goerr" where
  "mcp_err (RpcError e) = e"
| "mcp_err (NoTransport e) = e"

datatype content =
    TextContent string
  | ImageContent
  | AudioContent
  | ResourceLink
  | EmbeddedResource
  | OtherContent string

record 'j mcp_result =
  cr_Content :: "content list"
  cr_Structured :: "'j option"
  cr_IsError :: bool

text \<open>An input schema as it comes off the wire: none, a map, or anything else.\<close>

datatype 'j wire_schema = NoSchema | MapSchema metadata | OtherSchema 'j

record 'j wire_tool =
  wt_Name :: string
  wt_Description :: string
  wt_Schema :: "'j wire_schema"

record ('a, 'j, 'w) sdk =
  sdk_Connect :: "'w \<Rightarrow> 'w \<times> (nat \<times> (string \<times> string option) option) res"
  sdk_CallTool :: "nat \<Rightarrow> string \<Rightarrow> 'a \<Rightarrow> 'w \<Rightarrow> 'w \<times> (mcp_error + 'j mcp_result)"
  sdk_Tools :: "nat \<Rightarrow> 'w \<Rightarrow> 'w \<times> 'j wire_tool res list"
  sdk_Close :: "nat \<Rightarrow> 'w \<Rightarrow> 'w \<times> goerr option"
  sdk_Err :: "'w \<Rightarrow> goerr option"
  sdk_Now :: "'w \<Rightarrow> int"
  sdk_Marshal :: "'j \<Rightarrow> string res"
  sdk_Remarshal :: "'j \<Rightarrow> metadata option"

text \<open>A server with the world it is called in. \<open>mc_observed\<close> is whether it has an observer.\<close>

record 'w mcp =
  mc_label :: string
  mc_timeout :: int
  mc_bearer :: string
  mc_observed :: bool
  mc_session :: "nat option"
  mc_name :: string
  mc_events :: "mcp_event list"
  mc_world :: 'w

definition DefaultTimeout :: int where "DefaultTimeout = 60 * 10 ^ 9"

definition WithBearer :: "string \<Rightarrow> 'w mcp \<Rightarrow> 'w mcp" where "WithBearer token s = s\<lparr>mc_bearer := token\<rparr>"
definition WithTimeout :: "int \<Rightarrow> 'w mcp \<Rightarrow> 'w mcp" where "WithTimeout d s = s\<lparr>mc_timeout := d\<rparr>"
definition WithObserver :: "'w mcp \<Rightarrow> 'w mcp" where "WithObserver s = s\<lparr>mc_observed := True\<rparr>"

definition newServer :: "string \<Rightarrow> ('w mcp \<Rightarrow> 'w mcp) list \<Rightarrow> 'w \<Rightarrow> 'w mcp" where
  "newServer label opts w = fold (\<lambda>f s. f s) opts
     \<lparr>mc_label = label, mc_timeout = DefaultTimeout, mc_bearer = '''', mc_observed = False, mc_session = None,
      mc_name = '''', mc_events = [], mc_world = w\<rparr>"

definition report_event :: "mcp_event \<Rightarrow> 'w mcp \<Rightarrow> 'w mcp" where
  "report_event ev s = (if mc_observed s then s\<lparr>mc_events := mc_events s @ [ev]\<rparr> else s)"

definition serverName :: "'w mcp \<Rightarrow> string" where
  "serverName s = (if mc_name s \<noteq> '''' then mc_name s else mc_label s)"

text \<open>
  The client an HTTP server is reached with. A round tripper answers a request's headers; None is a
  nil client or transport, and \<open>hc_rest\<close> is what a client has beside its transport.
\<close>

record ('r, 'o) http_client =
  hc_Transport :: "((string \<times> string) list \<Rightarrow> 'r) option"
  hc_rest :: 'o

definition RoundTrip ::
  "((string \<times> string) list \<Rightarrow> 'r) \<Rightarrow> string \<Rightarrow> ((string \<times> string) list \<Rightarrow> 'r) option \<Rightarrow> (string \<times> string) list \<Rightarrow> 'r" where
  "RoundTrip DefaultTransport token transport req =
    (let through = (case transport of None \<Rightarrow> DefaultTransport | Some t \<Rightarrow> t) in
     through (AList.update ''Authorization'' (''Bearer '' @ token) req))"

definition mcp_client ::
  "((string \<times> string) list \<Rightarrow> 'r) \<Rightarrow> ('r, 'o) http_client \<Rightarrow> ('r, 'o) http_client option \<Rightarrow> 'w mcp \<Rightarrow> ('r, 'o) http_client option" where
  "mcp_client DefaultTransport DefaultClient httpClient s =
    (if mc_bearer s = '''' then httpClient
     else (let basis = (case httpClient of None \<Rightarrow> DefaultClient | Some c \<Rightarrow> c) in
       Some (basis\<lparr>hc_Transport := Some (RoundTrip DefaultTransport (mc_bearer s) (hc_Transport basis))\<rparr>)))"

text \<open>\<open>connect\<close>'s critical section.\<close>

definition establish :: "('a, 'j, 'w) sdk \<Rightarrow> 'w mcp \<Rightarrow> 'w mcp \<times> (nat \<times> bool \<times> string) res" where
  "establish k s =
    (case mc_session s of
       Some x \<Rightarrow> (s, Inr (x, False, ''''))
     | None \<Rightarrow>
        (case sdk_Connect k (mc_world s) of
           (w, Inl e) \<Rightarrow> (s\<lparr>mc_world := w\<rparr>, Inl e)
         | (w, Inr (x, init)) \<Rightarrow>
            (let s1 = s\<lparr>mc_world := w, mc_session := Some x\<rparr> in
             case init of
               None \<Rightarrow> (s1, Inr (x, True, ''''))
             | Some (protocol, name) \<Rightarrow>
                 ((case name of Some n \<Rightarrow> if n \<noteq> '''' then s1\<lparr>mc_name := n\<rparr> else s1 | None \<Rightarrow> s1),
                  Inr (x, True, protocol)))))"

definition connect :: "('a, 'j, 'w) sdk \<Rightarrow> 'w mcp \<Rightarrow> 'w mcp \<times> nat res" where
  "connect k s =
    (case establish k s of
       (s1, Inl e) \<Rightarrow> (report_event ((mcp_event0 EventDialed (serverName s1))\<lparr>mv_Err := Some e\<rparr>) s1, Inl e)
     | (s1, Inr (x, dialed, protocol)) \<Rightarrow>
        (if dialed then report_event ((mcp_event0 EventDialed (serverName s1))\<lparr>mv_Protocol := protocol\<rparr>) s1 else s1, Inr x))"

definition forget :: "nat \<Rightarrow> 'w mcp \<Rightarrow> 'w mcp" where
  "forget x s = (if mc_session s = Some x then s\<lparr>mc_session := None\<rparr> else s)"

definition close_session :: "('a, 'j, 'w) sdk \<Rightarrow> nat \<Rightarrow> 'w mcp \<Rightarrow> 'w mcp \<times> goerr option" where
  "close_session k x s = (let (w, e) = sdk_Close k x (mc_world s) in (s\<lparr>mc_world := w\<rparr>, e))"

definition drop_session :: "('a, 'j, 'w) sdk \<Rightarrow> nat \<Rightarrow> 'w mcp \<Rightarrow> 'w mcp" where
  "drop_session k x s = fst (close_session k x (forget x s))"

definition Close_take :: "'w mcp \<Rightarrow> 'w mcp \<times> nat option" where
  "Close_take s = (s\<lparr>mc_session := None\<rparr>, mc_session s)"

definition mcp_Close :: "('a, 'j, 'w) sdk \<Rightarrow> 'w mcp \<Rightarrow> 'w mcp \<times> goerr option" where
  "mcp_Close k s =
    (case Close_take s of
       (s1, None) \<Rightarrow> (s1, None)
     | (s1, Some x) \<Rightarrow> close_session k x s1)"

definition transportFailed :: "goerr option \<Rightarrow> mcp_error option \<Rightarrow> bool" where
  "transportFailed ctx err =
    (case err of
       None \<Rightarrow> False
     | Some e \<Rightarrow> if ctx \<noteq> None then False else (case e of RpcError r \<Rightarrow> False | NoTransport r \<Rightarrow> True))"

subsection \<open>call.go\<close>

definition redialNote :: string where
  "redialNote = ''[the connection to this server was reopened; anything it held from earlier calls is gone]''"

definition call_tool :: "('a, 'j, 'w) sdk \<Rightarrow> nat \<Rightarrow> string \<Rightarrow> 'a \<Rightarrow> 'w mcp \<Rightarrow> 'w mcp \<times> (mcp_error + 'j mcp_result)" where
  "call_tool k x tool args s = (let (w, r) = sdk_CallTool k x tool args (mc_world s) in (s\<lparr>mc_world := w\<rparr>, r))"

definition error_of :: "'e + 'r \<Rightarrow> 'e option" where
  "error_of r = (case r of Inl e \<Rightarrow> Some e | Inr x \<Rightarrow> None)"

definition as_res :: "mcp_error + 'r \<Rightarrow> 'r res" where
  "as_res r = (case r of Inl e \<Rightarrow> Inl (mcp_err e) | Inr x \<Rightarrow> Inr x)"

definition callOnce ::
  "('a, 'j, 'w) sdk \<Rightarrow> string \<Rightarrow> 'a \<Rightarrow> 'w mcp \<Rightarrow> 'w mcp \<times> bool \<times> 'j mcp_result res" where
  "callOnce k tool args s =
    (case connect k s of
       (s1, Inl e) \<Rightarrow> (s1, False, Inl e)
     | (s1, Inr x) \<Rightarrow>
        (let (s2, r) = call_tool k x tool args s1 in
         if \<not> transportFailed (sdk_Err k (mc_world s2)) (error_of r) then (s2, False, as_res r)
         else
           (let s3 = drop_session k x s2;
                s4 = report_event ((mcp_event0 EventRedialed (serverName s3))
                       \<lparr>mv_Tool := tool, mv_Err := map_option mcp_err (error_of r)\<rparr>) s3 in
            case connect k s4 of
              (s5, Inl e) \<Rightarrow> (s5, True, Inl e)
            | (s5, Inr y) \<Rightarrow> (let (s6, r2) = call_tool k y tool args s5 in (s6, True, as_res r2)))))"

fun contentKind :: "content \<Rightarrow> string" where
  "contentKind ImageContent = ''image''"
| "contentKind AudioContent = ''audio''"
| "contentKind ResourceLink = ''resource link''"
| "contentKind EmbeddedResource = ''embedded resource''"
| "contentKind (OtherContent t) = t"
| "contentKind (TextContent s) = ''*mcp.TextContent''"

definition content_line :: "content \<Rightarrow> string" where
  "content_line c = (case c of TextContent t \<Rightarrow> t | _ \<Rightarrow> ''[dropped '' @ contentKind c @ '' content]'')"

definition is_text :: "content \<Rightarrow> bool" where
  "is_text c = (case c of TextContent t \<Rightarrow> True | _ \<Rightarrow> False)"

definition collapse :: "('a, 'j, 'w) sdk \<Rightarrow> 'j mcp_result \<Rightarrow> tool_result" where
  "collapse k r =
    \<lparr>tr_Content = join nl (map content_line (cr_Content r) @
       (case cr_Structured r of
          None \<Rightarrow> []
        | Some v \<Rightarrow> if list_ex is_text (cr_Content r) then []
            else [case sdk_Marshal k v of
                    Inl e \<Rightarrow> ''[structured result could not be encoded: '' @ err_text e @ '']''
                  | Inr enc \<Rightarrow> enc])),
     tr_IsError = cr_IsError r\<rparr>"

definition mcp_Call :: "('a, 'j, 'w) sdk \<Rightarrow> string \<Rightarrow> 'a \<Rightarrow> 'w mcp \<Rightarrow> 'w mcp \<times> tool_result res" where
  "mcp_Call k tool args s =
    (let start = sdk_Now k (mc_world s);
         (s1, redialed, r) = callOnce k tool args s;
         s2 = report_event ((mcp_event0 EventCalled (serverName s1))\<lparr>mv_Tool := tool,
                mv_Duration := sdk_Now k (mc_world s1) - start, mv_Err := error_of r\<rparr>) s1 in
     case r of
       Inl e \<Rightarrow> (s2, Inl (if redialed then Wrap (redialNote @ '': '') e '''' else e))
     | Inr res \<Rightarrow>
        (let out = collapse k res in
         (s2, Inr (if redialed then out\<lparr>tr_Content := redialNote @ nl @ tr_Content out\<rparr> else out))))"

subsection \<open>tools.go\<close>

definition maxNameLen :: nat where "maxNameLen = 128"

definition tool_name_rune :: "nat \<Rightarrow> bool" where
  "tool_name_rune r = (97 \<le> r \<and> r \<le> 122 \<or> 65 \<le> r \<and> r \<le> 90 \<or> 48 \<le> r \<and> r \<le> 57 \<or> r = 95 \<or> r = 45)"

definition sanitize :: "string \<Rightarrow> string" where
  "sanitize s = map (\<lambda>r. if tool_name_rune r then char_of r else CHR ''_'') (runes s)"

definition exposedName :: "(string \<Rightarrow> string) \<Rightarrow> string \<Rightarrow> string \<Rightarrow> string res" where
  "exposedName quote prefix wire =
    (if trim_space wire = '''' then Inl (Opaque ''tool has no name'')
     else (let name = prefix @ ''_'' @ sanitize wire in
       if length name > maxNameLen
       then Inl (Opaque (''name '' @ quote name @ '' is '' @ itoa (int (length name)) @ '' characters, over the '' @
              itoa (int maxNameLen) @ '' a tool name may have''))
       else Inr name))"

definition object_schema :: metadata where "object_schema = [(''type'', ''object'')]"

definition schemaMap :: "('a, 'j, 'w) sdk \<Rightarrow> 'j wire_schema \<Rightarrow> metadata" where
  "schemaMap k raw =
    (case raw of
       NoSchema \<Rightarrow> object_schema
     | MapSchema m \<Rightarrow> m
     | OtherSchema v \<Rightarrow> (case sdk_Remarshal k v of None \<Rightarrow> object_schema | Some m \<Rightarrow> m))"

text \<open>An advertised tool, wrapped: the model's input goes to the server as it is.\<close>

definition reflected_Execute ::
  "(string, 'j, 'w) sdk \<Rightarrow> string \<Rightarrow> string \<Rightarrow> 'w mcp \<Rightarrow> 'w mcp \<times> tool_result res" where
  "reflected_Execute k wire input0 =
    (let trimmed = trim_space input0;
         input = (if trimmed = '''' \<or> trimmed = ''null'' then ''{}'' else input0) in
     mcp_Call k wire input)"

definition reflected :: "(string, 'j, 'w) sdk \<Rightarrow> string \<Rightarrow> 'j wire_tool \<Rightarrow> ('b, 'w mcp) tool" where
  "reflected k exposed wire =
    \<lparr>tl_Def = \<lparr>td_Name = exposed, td_Description = wt_Description wire, td_Schema = schemaMap k (wt_Schema wire)\<rparr>,
     tl_Execute = (\<lambda>sess box input. reflected_Execute k (wt_Name wire) input)\<rparr>"

fun expose_all ::
  "(string \<Rightarrow> string) \<Rightarrow> (string, 'j, 'w) sdk \<Rightarrow> string \<Rightarrow> ('b, 'w mcp) tool list \<Rightarrow> 'j wire_tool res list \<Rightarrow> 'w mcp \<Rightarrow>
   'w mcp \<times> ('b, 'w mcp) tool list res" where
  "expose_all quote k prefix tools [] s = (s, Inr tools)"
| "expose_all quote k prefix tools (Inl e # wires) s = (s, Inl e)"
| "expose_all quote k prefix tools (Inr wire # wires) s =
    (case exposedName quote prefix (wt_Name wire) of
       Inl e \<Rightarrow> expose_all quote k prefix tools wires
         (report_event ((mcp_event0 EventSkipped (serverName s))\<lparr>mv_Tool := wt_Name wire, mv_Err := Some e\<rparr>) s)
     | Inr exposed \<Rightarrow> expose_all quote k prefix (tools @ [reflected k exposed wire]) wires s)"

definition mcp_Tools ::
  "(string \<Rightarrow> string) \<Rightarrow> (string, 'j, 'w) sdk \<Rightarrow> 'w mcp \<Rightarrow> 'w mcp \<times> ('b, 'w mcp) tool list res" where
  "mcp_Tools quote k s =
    (case connect k s of
       (s1, Inl e) \<Rightarrow> (s1, Inl e)
     | (s1, Inr x) \<Rightarrow>
        (let (w, wires) = sdk_Tools k x (mc_world s1) in
         case expose_all quote k (sanitize (serverName s1)) [] wires (s1\<lparr>mc_world := w\<rparr>) of
           (s2, Inl e) \<Rightarrow> (s2, Inl e)
         | (s2, Inr tools) \<Rightarrow>
             (report_event ((mcp_event0 EventDiscovered (serverName s2))\<lparr>mv_Count := length tools\<rparr>) s2, Inr tools)))"

end
