(* ===== verification/Mcp.thy ===== *)
theory Mcp
  imports McpBase
begin

section \<open>What the MCP client promises\<close>

text \<open>
  The names tools are exposed under, how often a call reaches the server, and that no connection is
  left open however callers interleave.
\<close>

subsection \<open>Exposed names\<close>

text \<open>What providers accept in a tool's name.\<close>

definition name_ok :: "string \<Rightarrow> bool" where
  "name_ok n = (n \<noteq> [] \<and> length n \<le> maxNameLen \<and> list_all (\<lambda>c. tool_name_rune (of_char c)) n)"

lemma sanitize_ok: "list_all (\<lambda>c. tool_name_rune (of_char c)) (sanitize s)"
proof -
  have "tool_name_rune (of_char (if tool_name_rune r then char_of r else CHR ''_''))" for r
  proof (cases "tool_name_rune r")
    case True
    then have "r < 256" by (auto simp: tool_name_rune_def)
    then show ?thesis using True by simp
  qed (simp add: tool_name_rune_def)
  then show ?thesis unfolding sanitize_def list_all_iff set_map by blast
qed

definition exposed_as :: "(string \<Rightarrow> string) \<Rightarrow> string \<Rightarrow> 'j wire_tool \<Rightarrow> string option" where
  "exposed_as quote prefix w = (case exposedName quote prefix (wt_Name w) of Inl e \<Rightarrow> None | Inr n \<Rightarrow> Some n)"

lemma exposed_as_ok:
  assumes "exposed_as quote (sanitize server) w = Some n"
  shows "name_ok n \<and> n = sanitize server @ ''_'' @ sanitize (wt_Name w)"
proof -
  have n: "n = sanitize server @ ''_'' @ sanitize (wt_Name w)" "length n \<le> maxNameLen"
    using assms by (auto simp: exposed_as_def exposedName_def Let_def split: if_splits)
  moreover have "tool_name_rune (of_char CHR ''_'')" by (simp add: tool_name_rune_def)
  ultimately show ?thesis using sanitize_ok[of server] sanitize_ok[of "wt_Name w"] by (simp add: name_ok_def)
qed

lemma expose_all_result:
  assumes "expose_all quote k prefix tools wires s = (s', Inr ts)"
  shows "\<exists>ws. wires = map Inr ws \<and>
    ts = tools @ List.map_filter (\<lambda>w. map_option (\<lambda>n. reflected k n w) (exposed_as quote prefix w)) ws \<and>
    mc_world s' = mc_world s \<and> serverName s' = serverName s"
  using assms
proof (induction quote k prefix tools wires s rule: expose_all.induct)
  case (1 quote k prefix tools s)
  then show ?case by (auto simp: List.map_filter_def)
next
  case (3 quote k prefix tools wire wires s)
  show ?case
  proof (cases "exposedName quote prefix (wt_Name wire)")
    case (Inl e)
    then show ?thesis using 3(1)[OF Inl] 3(3)
      by (auto simp: exposed_as_def report_event_def serverName_def intro!: exI[of _ "wire # _"])
  next
    case (Inr n)
    then obtain ws where ws: "wires = map Inr ws" "mc_world s' = mc_world s \<and> serverName s' = serverName s"
      "ts = (tools @ [reflected k n wire]) @ List.map_filter (\<lambda>w. map_option (\<lambda>n. reflected k n w) (exposed_as quote prefix w)) ws"
      using 3(2)[OF Inr] 3(3) by auto
    then show ?thesis by (intro exI[of _ "wire # ws"]) (simp add: exposed_as_def Inr)
  qed
qed simp

lemma WithTools_panics:
  "WithTools ts a = None \<longleftrightarrow>
    \<not> (distinct (map (td_Name \<circ> tl_Def) ts) \<and> (td_Name \<circ> tl_Def) ` set ts \<inter> fst ` set (ag_Tools a) = {})"
proof (induction ts arbitrary: a)
  case (Cons t ts)
  let ?n = "td_Name (tl_Def t)"
  have "fst ` set (AList.update ?n t (ag_Tools a)) = insert ?n (fst ` set (ag_Tools a))"
    by (simp add: dom_update[symmetric] dom_map_of_conv_image_fst[symmetric] update_conv')
  then show ?case using Cons[of "a\<lparr>ag_Tools := AList.update ?n t (ag_Tools a)\<rparr>"]
    by (auto simp: Let_def map_of_eq_None_iff)
qed simp

lemma connect_world:
  "connect k s = (s', r) \<Longrightarrow> mc_observed s' = mc_observed s \<and> mc_label s' = mc_label s"
  by (auto simp: connect_def establish_def report_event_def Let_def split: option.splits prod.splits sum.splits if_splits)

lemma serverName_frame [simp]:
  "serverName (report_event ev s) = serverName s" "serverName (s\<lparr>mc_world := w\<rparr>) = serverName s"
  by (simp_all add: serverName_def report_event_def)

lemma map_filter_eq:
  "List.map_filter (\<lambda>w. map_option (f w) (g w)) ws = map (\<lambda>w. f w (the (g w))) (filter (\<lambda>w. g w \<noteq> None) ws)"
  by (induction ws) (auto simp: List.map_filter_simps)

lemma mcp_Tools_result:
  fixes ts :: "('b, 'w mcp) tool list"
  assumes "mcp_Tools quote k s = (s', Inr ts)"
  obtains x w adv where "snd (sdk_Tools k x w) = map Inr adv"
    "ts = map (\<lambda>w. reflected k (the (exposed_as quote (sanitize (serverName s')) w)) w)
       (filter (\<lambda>w. exposed_as quote (sanitize (serverName s')) w \<noteq> None) adv)"
proof -
  obtain s1 r where c: "connect k s = (s1, r)" by fastforce
  then obtain x where r: "r = Inr x" using assms by (cases r) (auto simp: mcp_Tools_def)
  obtain w wires where l: "sdk_Tools k x (mc_world s1) = (w, wires)" by fastforce
  obtain s2 and q :: "('b, 'w mcp) tool list res" where e: "expose_all quote k (sanitize (serverName s1)) [] wires (s1\<lparr>mc_world := w\<rparr>) = (s2, q)" by fastforce
  have q: "q = Inr ts" and s': "s' = report_event ((mcp_event0 EventDiscovered (serverName s2))\<lparr>mv_Count := length ts\<rparr>) s2"
    using assms c r l e by (auto simp: mcp_Tools_def split: sum.splits)
  obtain ws where ws: "wires = map Inr ws" "serverName s2 = serverName (s1\<lparr>mc_world := w\<rparr>)"
    "ts = List.map_filter (\<lambda>w. map_option (\<lambda>n. reflected k n w) (exposed_as quote (sanitize (serverName s1)) w)) ws"
    using expose_all_result[OF e[unfolded q]] by auto
  have "serverName s' = serverName s1" using ws(2) s' by simp
  then show thesis using that[of x "mc_world s1" ws] l ws(1,3) map_filter_eq[of "\<lambda>w n. reflected k n w"] by auto
qed

text \<open>C27. Tools are exposed under names a provider takes, but two of them may share one. Every name that
  \<open>Tools\<close> exposes has between 1 and 128 characters, all letters, digits, \<open>_\<close> or \<open>-\<close>, and is made from
  the server's name and the tool's; exactly the advertised tools whose name is blank or whose exposed
  name would be longer than 128 characters are skipped. An agent panics when it is wired to the tools
  exactly if, once the characters that a name may not have are replaced, two of the names that were not
  skipped are the same (as two that were the same before), or one of them gives the name of a tool that
  the agent already has.\<close>

theorem exposed_names:
  assumes "mcp_Tools quote k s = (s', Inr ts)"
  shows "list_all (\<lambda>t. name_ok (td_Name (tl_Def t))) ts \<and>
    (\<exists>x w adv shown. snd (sdk_Tools k x w) = map Inr adv \<and>
       shown = filter (\<lambda>n. trim_space n \<noteq> '''' \<and> length (sanitize (serverName s') @ ''_'' @ sanitize n) \<le> 128) (map wt_Name adv) \<and>
       map (td_Name \<circ> tl_Def) ts = map (\<lambda>n. sanitize (serverName s') @ ''_'' @ sanitize n) shown \<and>
       (WithTools ts a = None) = (\<not> distinct (map sanitize shown) \<or>
         list_ex (\<lambda>n. map_of (ag_Tools a) (sanitize (serverName s') @ ''_'' @ sanitize n) \<noteq> None) shown))"
proof -
  let ?server = "serverName s'"
  let ?exposed = "exposed_as quote (sanitize ?server)"
  obtain x w adv where adv: "snd (sdk_Tools k x w) = map Inr adv"
    and ts: "ts = map (\<lambda>w. reflected k (the (?exposed w)) w) (filter (\<lambda>w. ?exposed w \<noteq> None) adv)"
    by (rule mcp_Tools_result[OF assms(1)])
  let ?shown = "filter (\<lambda>n. trim_space n \<noteq> '''' \<and> length (sanitize ?server @ ''_'' @ sanitize n) \<le> 128) (map wt_Name adv)"
  have "?exposed w \<noteq> None \<longleftrightarrow> trim_space (wt_Name w) \<noteq> '''' \<and> length (sanitize ?server @ ''_'' @ sanitize (wt_Name w)) \<le> 128" for w
    by (auto simp: exposed_as_def exposedName_def maxNameLen_def Let_def)
  then have shown: "?shown = map wt_Name (filter (\<lambda>w. ?exposed w \<noteq> None) adv)"
    unfolding filter_map comp_def by (rule arg_cong[OF filter_cong[OF refl], symmetric])
  have ok: "the (?exposed w) = sanitize ?server @ ''_'' @ sanitize (wt_Name w) \<and> name_ok (the (?exposed w))"
    if "?exposed w \<noteq> None" for w using exposed_as_ok[of quote ?server w] that by (cases "?exposed w") auto
  have named: "td_Name (tl_Def (reflected k n w)) = n" for n w by (simp add: reflected_def)
  have names: "map (td_Name \<circ> tl_Def) ts = map (\<lambda>n. sanitize ?server @ ''_'' @ sanitize n) ?shown"
    unfolding shown ts by (simp add: named ok del: append.simps)
  have "name_ok (td_Name (tl_Def t))" if "t \<in> set ts" for t
  proof -
    obtain w where "t = reflected k (the (?exposed w)) w" "?exposed w \<noteq> None" using \<open>t \<in> set ts\<close> ts by auto
    then show ?thesis using conjunct2[OF ok[OF \<open>?exposed w \<noteq> None\<close>]] by (simp only: named)
  qed
  then have valid: "list_all (\<lambda>t. name_ok (td_Name (tl_Def t))) ts" by (simp add: list_all_iff)
  have panics: "(WithTools ts a = None) = (\<not> distinct (map sanitize ?shown) \<or>
      list_ex (\<lambda>n. map_of (ag_Tools a) (sanitize ?server @ ''_'' @ sanitize n) \<noteq> None) ?shown)"
  proof -
    have 1: "distinct (map (\<lambda>n. sanitize ?server @ ''_'' @ sanitize n) ns) = distinct (map sanitize ns)" for ns
      by (induction ns) auto
    have "(td_Name \<circ> tl_Def) ` set ts = (\<lambda>n. sanitize ?server @ ''_'' @ sanitize n) ` set ?shown"
      using arg_cong[OF names, of set] by (simp only: set_map)
    moreover have "(f ` set ns \<inter> fst ` set m = {}) = (\<not> list_ex (\<lambda>n. map_of m (f n) \<noteq> None) ns)"
      for f :: "string \<Rightarrow> string" and ns and m :: "(string \<times> ('b, 'a mcp) tool) list"
      unfolding list_ex_iff map_of_eq_None_iff by blast
    ultimately have "((td_Name \<circ> tl_Def) ` set ts \<inter> fst ` set (ag_Tools a) = {}) =
        (\<not> list_ex (\<lambda>n. map_of (ag_Tools a) (sanitize ?server @ ''_'' @ sanitize n) \<noteq> None) ?shown)"
      by (simp only:)
    then show ?thesis unfolding WithTools_panics names 1 by argo
  qed
  show ?thesis
    by (rule conjI[OF valid]) (rule exI[of _ x], rule exI[of _ w], rule exI[of _ adv], rule exI[of _ ?shown], intro conjI adv refl names panics)
qed

text \<open>A server with two tools, one of whose names has a dot.\<close>

definition demo_sdk :: "(string, unit, nat) sdk" where
  "demo_sdk = \<lparr>sdk_Connect = (\<lambda>w. (Suc w, Inr (w, Some (''2025'', Some ''web'')))),
     sdk_CallTool = (\<lambda>x t a w. (w, if w < 2 then Inl (NoTransport (Opaque ''closed''))
       else Inr \<lparr>cr_Content = [TextContent ''ok''], cr_Structured = None, cr_IsError = False\<rparr>)),
     sdk_Tools = (\<lambda>x w. (w, [Inr \<lparr>wt_Name = ''page.open'', wt_Description = '''', wt_Schema = NoSchema\<rparr>,
       Inr \<lparr>wt_Name = ''page_open'', wt_Description = '''', wt_Schema = NoSchema\<rparr>])),
     sdk_Close = (\<lambda>x w. (w, None)), sdk_Err = (\<lambda>w. None), sdk_Now = int,
     sdk_Marshal = (\<lambda>j. Inr ''null''), sdk_Remarshal = (\<lambda>j. None)\<rparr>"

definition demo_server :: "nat mcp" where "demo_server = newServer ''http://web'' [WithObserver] 0"

definition bare_agent :: "(unit, nat mcp) agent" where
  "bare_agent = \<lparr>ag_SystemPrompt = '''', ag_Tools = [], ag_Model = None, ag_Store = None, ag_Memory = None\<rparr>"

theorem exposed_names_witness:
  "\<exists>s' ts. mcp_Tools id demo_sdk demo_server = (s', Inr ts) \<and>
     map (td_Name \<circ> tl_Def) ts = [''web_page_open'', ''web_page_open''] \<and> WithTools ts bare_agent = None"
proof -
  have san: "sanitize ''page.open'' = ''page_open''" "sanitize ''page_open'' = ''page_open''" "sanitize ''web'' = ''web''"
    by (simp_all add: sanitize_def runes_ascii ascii_def tool_name_rune_def) (code_simp+)
  have trim: "trim_space ''page.open'' = ''page.open''" "trim_space ''page_open'' = ''page_open''"
    by (simp_all add: trim_space_printable printable_def)
  define ts :: "(unit, nat mcp) tool list" where "ts = [reflected demo_sdk ''web_page_open'' \<lparr>wt_Name = ''page.open'', wt_Description = '''', wt_Schema = NoSchema\<rparr>,
      reflected demo_sdk ''web_page_open'' \<lparr>wt_Name = ''page_open'', wt_Description = '''', wt_Schema = NoSchema\<rparr>]"
  have k: "sdk_Connect demo_sdk w = (Suc w, Inr (w, Some (''2025'', Some ''web'')))"
    "sdk_Tools demo_sdk x w = (w, [Inr \<lparr>wt_Name = ''page.open'', wt_Description = '''', wt_Schema = NoSchema\<rparr>,
       Inr \<lparr>wt_Name = ''page_open'', wt_Description = '''', wt_Schema = NoSchema\<rparr>])" for x w
    by (simp_all add: demo_sdk_def)
  have "snd (connect demo_sdk demo_server) = Inr 0" "serverName (fst (connect demo_sdk demo_server)) = ''web''" by code_simp+
  then obtain s1 where 1: "connect demo_sdk demo_server = (s1, Inr 0)" "serverName s1 = ''web''"
    by (cases "connect demo_sdk demo_server") auto
  have e: "exposedName id ''web'' ''page.open'' = Inr ''web_page_open''" "exposedName id ''web'' ''page_open'' = Inr ''web_page_open''"
    by (simp_all add: exposedName_def trim san maxNameLen_def)
  have "\<exists>s'. mcp_Tools id demo_sdk demo_server = (s', Inr ts)"
    by (simp add: mcp_Tools_def 1 k san e ts_def)
  then obtain s' where t: "mcp_Tools id demo_sdk demo_server = (s', Inr ts)" by blast
  have names: "map (td_Name \<circ> tl_Def) ts = [''web_page_open'', ''web_page_open'']" by (simp add: ts_def reflected_def)
  obtain x w adv shown where "map (td_Name \<circ> tl_Def) ts = map (\<lambda>n. sanitize (serverName s') @ ''_'' @ sanitize n) shown"
    "(WithTools ts bare_agent = None) = (\<not> distinct (map sanitize shown) \<or>
      list_ex (\<lambda>n. map_of (ag_Tools bare_agent) (sanitize (serverName s') @ ''_'' @ sanitize n) \<noteq> None) shown)"
    using exposed_names[OF t, of bare_agent] by (elim conjE exE) (rule that)
  moreover from this(1) have "\<not> distinct (map sanitize shown)"
    unfolding names by (cases shown; cases "tl shown") auto
  ultimately have "WithTools ts bare_agent = None" by simp
  then show ?thesis using t names by (intro exI conjI)
qed

subsection \<open>How often a call reaches the server\<close>

text \<open>The SDK with a log of the tool calls made: the session, the tool, its arguments and the error.\<close>

definition logged :: "('a, 'j, 'w) sdk \<Rightarrow> ('a, 'j, 'w \<times> (nat \<times> string \<times> 'a \<times> mcp_error option) list) sdk" where
  "logged k =
    \<lparr>sdk_Connect = (\<lambda>(w, l). let (w', r) = sdk_Connect k w in ((w', l), r)),
     sdk_CallTool = (\<lambda>x t a (w, l). let (w', r) = sdk_CallTool k x t a w in ((w', l @ [(x, t, a, error_of r)]), r)),
     sdk_Tools = (\<lambda>x (w, l). let (w', r) = sdk_Tools k x w in ((w', l), r)),
     sdk_Close = (\<lambda>x (w, l). let (w', r) = sdk_Close k x w in ((w', l), r)),
     sdk_Err = (\<lambda>(w, l). sdk_Err k w), sdk_Now = (\<lambda>(w, l). sdk_Now k w),
     sdk_Marshal = sdk_Marshal k, sdk_Remarshal = sdk_Remarshal k\<rparr>"

definition calls_made :: "('w \<times> (nat \<times> string \<times> 'a \<times> mcp_error option) list) mcp \<Rightarrow> (nat \<times> string \<times> 'a \<times> mcp_error option) list" where
  "calls_made s = snd (mc_world s)"

lemma calls_made_frame [simp]:
  "calls_made (report_event ev s) = calls_made s" "calls_made (forget x s) = calls_made s"
  "calls_made (s\<lparr>mc_session := y\<rparr>) = calls_made s" "calls_made (s\<lparr>mc_name := n\<rparr>) = calls_made s"
  by (simp_all add: calls_made_def report_event_def forget_def)

lemma calls_made_connect:
  assumes "connect (logged k) s = (s', r)"
  shows "calls_made s' = calls_made s"
proof -
  obtain s1 q where e: "establish (logged k) s = (s1, q)" by fastforce
  have "calls_made s1 = calls_made s"
  proof (cases "mc_session s")
    case None
    obtain w l where w: "mc_world s = (w, l)" by fastforce
    obtain w' c where c: "sdk_Connect k w = (w', c)" by fastforce
    show ?thesis using e None w c
      by (auto simp: establish_def logged_def calls_made_def Let_def split: sum.splits option.splits if_splits)
  qed (use e in \<open>simp add: establish_def\<close>)
  then show ?thesis using assms e by (cases q) (auto simp: connect_def split: if_splits)
qed

lemma calls_made_call:
  assumes "call_tool (logged k) x t a s = (s', r)"
  shows "calls_made s' = calls_made s @ [(x, t, a, error_of r)]"
  using assms by (cases "mc_world s") (auto simp: call_tool_def logged_def calls_made_def split: prod.splits)

lemma calls_made_drop: "calls_made (drop_session (logged k) x s) = calls_made s"
proof -
  obtain w l where w: "mc_world (forget x s) = (w, l)" by fastforce
  then have "calls_made s = l" using calls_made_frame(2)[of x s] by (simp add: calls_made_def)
  then show ?thesis using w
    by (auto simp: drop_session_def close_session_def logged_def calls_made_def split: prod.splits)
qed

lemma callOnce_calls:
  assumes "callOnce (logged k) tool args s = (s', redialed, r)"
  shows "calls_made s' = calls_made s \<and> (\<exists>e. r = Inl e) \<and> \<not> redialed \<or>
    (\<exists>x err. calls_made s' = calls_made s @ [(x, tool, args, err)] \<and> \<not> redialed) \<or>
    (\<exists>x e. calls_made s' = calls_made s @ [(x, tool, args, Some (NoTransport e))] \<and> redialed \<and> (\<exists>e. r = Inl e)) \<or>
    (\<exists>x y e err. calls_made s' = calls_made s @ [(x, tool, args, Some (NoTransport e)), (y, tool, args, err)] \<and> redialed)"
proof -
  obtain s1 c1 where 1: "connect (logged k) s = (s1, c1)" by fastforce
  note n1 = calls_made_connect[OF 1]
  show ?thesis
  proof (cases c1)
    case (Inl e) then show ?thesis using 1 n1 assms by (auto simp: callOnce_def)
  next
    case (Inr x)
    obtain s2 q where 2: "call_tool (logged k) x tool args s1 = (s2, q)" by fastforce
    note n2 = calls_made_call[OF 2]
    show ?thesis
    proof (cases "transportFailed (sdk_Err (logged k) (mc_world s2)) (error_of q)")
      case False then show ?thesis using 1 2 Inr n1 n2 assms by (auto simp: callOnce_def)
    next
      case True
      obtain e where e: "error_of q = Some (NoTransport e)"
        using True by (auto simp: transportFailed_def split: option.splits if_splits mcp_error.splits)
      define s4 where "s4 = report_event ((mcp_event0 EventRedialed (serverName (drop_session (logged k) x s2)))
                       \<lparr>mv_Tool := tool, mv_Err := map_option mcp_err (error_of q)\<rparr>) (drop_session (logged k) x s2)"
      have n4: "calls_made s4 = calls_made s @ [(x, tool, args, Some (NoTransport e))]"
        using n1 n2 e by (simp add: s4_def calls_made_drop)
      have rest: "callOnce (logged k) tool args s = (case connect (logged k) s4 of
              (s5, Inl e) \<Rightarrow> (s5, True, Inl e)
            | (s5, Inr y) \<Rightarrow> (let (s6, r2) = call_tool (logged k) y tool args s5 in (s6, True, as_res r2)))"
        unfolding callOnce_def 1 prod.case Inr sum.case Let_def 2 s4_def using True by simp
      obtain s5 c5 where 5: "connect (logged k) s4 = (s5, c5)" by fastforce
      note n5 = calls_made_connect[OF 5]
      show ?thesis
      proof (cases c5)
        case (Inl e') then show ?thesis using rest 5 n5 n4 assms by auto
      next
        case (Inr y)
        obtain s6 q6 where 6: "call_tool (logged k) y tool args s5 = (s6, q6)" by fastforce
        then show ?thesis using rest 5 Inr n5 n4 calls_made_call[OF 6] assms by auto
      qed
    qed
  qed
qed

text \<open>What the model reads of an answer, or of an error.\<close>

definition answer_text :: "tool_result res \<Rightarrow> string" where
  "answer_text r = (case r of Inl e \<Rightarrow> err_text e | Inr t \<Rightarrow> tr_Content t)"

text \<open>A call reaches the server at most twice, and a second time only when the connection was gone.
  Of the calls the SDK makes for one \<open>Call\<close>, every one is of that tool with those arguments; without
  any, there is an error; a second follows only on an error that was no answer of the server, and
  then what the model reads begins with the note that the connection was reopened. The first of two
  may well have run: a tool is not protected from running twice.\<close>

theorem calls_reach_the_server_at_most_twice:
  assumes "mcp_Call (logged k) tool args s = (s', r)"
  shows "\<exists>made. calls_made s' = calls_made s @ made \<and> length made \<le> 2 \<and>
    list_all (\<lambda>(x, t, a, e). t = tool \<and> a = args) made \<and>
    (made = [] \<longrightarrow> (\<exists>e. r = Inl e)) \<and>
    (length made = 2 \<longrightarrow> (\<exists>x e. hd made = (x, tool, args, Some (NoTransport e))) \<and> has_prefix (answer_text r) redialNote)"
proof -
  obtain s1 redialed q where c: "callOnce (logged k) tool args s = (s1, redialed, q)" by (metis prod_cases3)
  have s': "calls_made s' = calls_made s1" using assms c
    by (auto simp: mcp_Call_def Let_def split: sum.splits)
  have r: "(\<exists>e. q = Inl e) = (\<exists>e. r = Inl e)" "redialed \<Longrightarrow> has_prefix (answer_text r) redialNote"
    using assms c by (auto simp: mcp_Call_def Let_def answer_text_def has_prefix_append split: sum.splits if_splits)
  obtain made where made: "calls_made s1 = calls_made s @ made"
    "made = [] \<and> (\<exists>e. q = Inl e) \<and> \<not> redialed \<or> (\<exists>x err. made = [(x, tool, args, err)]) \<or>
     (\<exists>x y e err. made = [(x, tool, args, Some (NoTransport e)), (y, tool, args, err)]) \<and> redialed"
    using callOnce_calls[OF c] by (elim disjE exE conjE) simp_all
  show ?thesis
  proof (rule exI[of _ made], intro conjI)
    show "calls_made s' = calls_made s @ made" using s' made(1) by simp
    show "length made \<le> 2" "list_all (\<lambda>(x, t, a, e). t = tool \<and> a = args) made" using made(2) by auto
    show "made = [] \<longrightarrow> (\<exists>e. r = Inl e)" using made(2) r(1) by auto
    show "length made = 2 \<longrightarrow> (\<exists>x e. hd made = (x, tool, args, Some (NoTransport e))) \<and> has_prefix (answer_text r) redialNote"
      using made(2) r(2) by auto
  qed
qed

theorem calls_reach_the_server_at_most_twice_witness:
  "\<exists>s' r made. mcp_Call (logged demo_sdk) ''page_open'' ''{}'' (newServer ''http://web'' [] (0, [])) = (s', r) \<and>
     calls_made s' = made \<and> length made = 2 \<and> has_prefix (answer_text r) redialNote"
proof -
  obtain s' r where c: "mcp_Call (logged demo_sdk) ''page_open'' ''{}'' (newServer ''http://web'' [] (0, [])) = (s', r)" by fastforce
  have "snd (mc_world (fst (mcp_Call (logged demo_sdk) ''page_open'' ''{}'' (newServer ''http://web'' [] (0, []))))) =
      [(0, ''page_open'', ''{}'', Some (NoTransport (Opaque ''closed''))), (1, ''page_open'', ''{}'', None)]" by code_simp
  then have two: "length (calls_made s') = 2" using c by (simp add: calls_made_def)
  moreover have "calls_made (newServer ''http://web'' [] (0 :: nat, [] :: (nat \<times> string \<times> string \<times> mcp_error option) list)) = []"
    by (simp add: calls_made_def newServer_def)
  ultimately show ?thesis using calls_reach_the_server_at_most_twice[OF c] c by auto
qed

subsection \<open>Connections are not left open\<close>

text \<open>
  Callers interleave at the server's lock. \<open>cn_dialed\<close> are the sessions the SDK has given out,
  \<open>cn_open\<close> those nobody has closed, and \<open>cn_closing\<close> those that a caller has taken and is about to
  close. A caller may forget any session it was ever given, and talking changes the world alone.
\<close>

record 'w conns =
  cn_server :: "'w mcp"
  cn_dialed :: "nat set"
  cn_open :: "nat set"
  cn_closing :: "nat list"

inductive conn_step :: "('a, 'j, 'w) sdk \<Rightarrow> 'w conns \<Rightarrow> 'w conns \<Rightarrow> bool" for k where
  reuses: "mc_session (cn_server c) = Some x \<Longrightarrow> establish k (cn_server c) = (s, r) \<Longrightarrow>
    conn_step k c (c\<lparr>cn_server := s\<rparr>)"
| dials: "mc_session (cn_server c) = None \<Longrightarrow> establish k (cn_server c) = (s, Inr (x, dialed, protocol)) \<Longrightarrow> x \<notin> cn_dialed c \<Longrightarrow>
    conn_step k c (c\<lparr>cn_server := s, cn_dialed := insert x (cn_dialed c), cn_open := insert x (cn_open c)\<rparr>)"
| fails: "mc_session (cn_server c) = None \<Longrightarrow> establish k (cn_server c) = (s, Inl e) \<Longrightarrow>
    conn_step k c (c\<lparr>cn_server := s\<rparr>)"
| drops: "x \<in> cn_dialed c \<Longrightarrow>
    conn_step k c (c\<lparr>cn_server := forget x (cn_server c), cn_closing := x # cn_closing c\<rparr>)"
| takes: "Close_take (cn_server c) = (s, x) \<Longrightarrow>
    conn_step k c (c\<lparr>cn_server := s, cn_closing := (case x of None \<Rightarrow> [] | Some x \<Rightarrow> [x]) @ cn_closing c\<rparr>)"
| closes: "x \<in> set (cn_closing c) \<Longrightarrow> close_session k x (cn_server c) = (s, e) \<Longrightarrow>
    conn_step k c (c\<lparr>cn_server := s, cn_open := cn_open c - {x}, cn_closing := remove1 x (cn_closing c)\<rparr>)"
| talks: "conn_step k c (c\<lparr>cn_server := (cn_server c)\<lparr>mc_world := w, mc_events := evs\<rparr>\<rparr>)"

inductive_cases conn_stepE: "conn_step k c c'"

definition conns_start :: "'w mcp \<Rightarrow> 'w conns" where
  "conns_start s = \<lparr>cn_server = s, cn_dialed = {}, cn_open = {}, cn_closing = []\<rparr>"

definition conns_ok :: "'w conns \<Rightarrow> bool" where
  "conns_ok c =
    (cn_open c \<subseteq> set_option (mc_session (cn_server c)) \<union> set (cn_closing c) \<and> cn_open c \<subseteq> cn_dialed c \<and>
     set (cn_closing c) \<subseteq> cn_dialed c \<and>
     (\<forall>x. mc_session (cn_server c) = Some x \<longrightarrow> x \<in> cn_open c \<and> x \<notin> set (cn_closing c)))"

lemma establish_session:
  "mc_session s = Some x \<Longrightarrow> establish k s = (s', r) \<Longrightarrow> s' = s"
  "mc_session s = None \<Longrightarrow> establish k s = (s', Inr (x, d, p)) \<Longrightarrow> mc_session s' = Some x \<and> d"
  "mc_session s = None \<Longrightarrow> establish k s = (s', Inl e) \<Longrightarrow> mc_session s' = None"
  by (auto simp: establish_def Let_def split: prod.splits sum.splits option.splits if_splits)

lemma conn_step_ok:
  assumes "conn_step k c c'" "conns_ok c"
  shows "conns_ok c'"
  using assms(1)
proof cases
  case (reuses x s r)
  then show ?thesis using assms(2) establish_session(1) by (metis conns.surjective conns.update_convs(1))
next
  case (dials s x dialed protocol)
  then show ?thesis using assms(2) establish_session(2)[OF dials(2,3)] by (auto simp: conns_ok_def)
next
  case (fails s e)
  then show ?thesis using assms(2) establish_session(3)[OF fails(2,3)] by (auto simp: conns_ok_def)
next
  case (drops x)
  then show ?thesis using assms(2) by (auto simp: conns_ok_def forget_def)
next
  case (takes s x)
  then show ?thesis using assms(2) by (auto simp: conns_ok_def Close_take_def split: option.splits)
next
  case (closes x s e)
  have "mc_session s = mc_session (cn_server c)" using closes(3) by (auto simp: close_session_def split: prod.splits)
  moreover have "set (cn_closing c) - {x} \<subseteq> set (remove1 x (cn_closing c))" using in_set_remove1 by fastforce
  moreover have "set (remove1 x (cn_closing c)) \<subseteq> set (cn_closing c)" by (rule set_remove1_subset)
  moreover have "mc_session (cn_server c) \<noteq> Some x" using assms(2) closes(2) by (auto simp: conns_ok_def)
  ultimately show ?thesis using assms(2) unfolding conns_ok_def closes(1) by simp blast
next
  case (talks w evs)
  then show ?thesis using assms(2) by (simp add: conns_ok_def)
qed

text \<open>The code's operations are such steps.\<close>

lemma drop_steps:
  assumes "x \<in> cn_dialed c"
  shows "\<exists>c'. (conn_step k)\<^sup>*\<^sup>* c c' \<and> cn_server c' = drop_session k x (cn_server c)"
proof -
  let ?c1 = "c\<lparr>cn_server := forget x (cn_server c), cn_closing := x # cn_closing c\<rparr>"
  obtain s e where e: "close_session k x (cn_server ?c1) = (s, e)" by fastforce
  let ?c2 = "?c1\<lparr>cn_server := s, cn_open := cn_open ?c1 - {x}, cn_closing := remove1 x (cn_closing ?c1)\<rparr>"
  have 1: "conn_step k c ?c1" by (rule conn_step.drops[OF assms])
  have 2: "conn_step k ?c1 ?c2" by (rule conn_step.closes[OF _ e]) simp
  have "cn_server ?c2 = drop_session k x (cn_server c)" using e by (simp add: drop_session_def)
  then show ?thesis using rtranclp.rtrancl_into_rtrancl[OF r_into_rtranclp[of "conn_step k", OF 1] 2] by blast
qed

lemma Close_steps: "\<exists>c'. (conn_step k)\<^sup>*\<^sup>* c c' \<and> cn_server c' = fst (mcp_Close k (cn_server c))"
proof -
  obtain s x where t: "Close_take (cn_server c) = (s, x)" by fastforce
  note 1 = conn_step.takes[OF t, of k]
  show ?thesis
  proof (cases x)
    case None then show ?thesis using 1 t by (intro exI conjI r_into_rtranclp) (auto simp: mcp_Close_def)
  next
    case (Some y)
    let ?c1 = "c\<lparr>cn_server := s, cn_closing := y # cn_closing c\<rparr>"
    obtain s2 e where e: "close_session k y (cn_server ?c1) = (s2, e)" by fastforce
    let ?c2 = "?c1\<lparr>cn_server := s2, cn_open := cn_open ?c1 - {y}, cn_closing := remove1 y (cn_closing ?c1)\<rparr>"
    have 2: "conn_step k ?c1 ?c2" by (rule conn_step.closes[OF _ e]) simp
    have "conn_step k c ?c1" using 1 Some by simp
    note run = rtranclp.rtrancl_into_rtrancl[OF r_into_rtranclp[of "conn_step k", OF this] 2]
    have "cn_server ?c2 = fst (mcp_Close k (cn_server c))" using e t Some by (simp add: mcp_Close_def)
    then show ?thesis using run by blast
  qed
qed

text \<open>C28. No connection is left open. However callers, redials and \<open>Close\<close> interleave at the server's
  lock, as long as the SDK never gives the same session twice: the cached session is open and nobody
  is closing it, and every other open session is one that a caller is about to close. So once those
  are done at most one connection is open, and none after \<open>Close\<close>.\<close>

theorem no_connection_is_left_open:
  assumes "(conn_step k)\<^sup>*\<^sup>* (conns_start (newServer label opts w)) c" "mc_session (newServer label opts w) = None"
  shows "cn_open c \<subseteq> set_option (mc_session (cn_server c)) \<union> set (cn_closing c) \<and>
    set_option (mc_session (cn_server c)) \<subseteq> cn_open c - set (cn_closing c)"
proof -
  have "conns_ok c"
    using assms(1)
  proof induction
    case base
    show ?case using assms(2) by (simp add: conns_ok_def conns_start_def)
  next
    case (step c c')
    then show ?case using conn_step_ok by blast
  qed
  then show ?thesis by (auto simp: conns_ok_def)
qed

theorem no_connection_is_left_open_witness:
  "\<exists>c. (conn_step demo_sdk)\<^sup>*\<^sup>* (conns_start demo_server) c \<and> mc_session (cn_server c) = Some 0 \<and> cn_open c = {0} \<and>
     cn_open c \<subseteq> set_option (mc_session (cn_server c)) \<union> set (cn_closing c)"
proof -
  obtain s r where e: "establish demo_sdk demo_server = (s, r)" by fastforce
  have none: "mc_session demo_server = None" by (simp add: demo_server_def newServer_def WithObserver_def)
  have "r = Inr (0, True, ''2025'')"
    using e by (simp add: establish_def none) (simp add: demo_sdk_def demo_server_def newServer_def WithObserver_def Let_def)
  then have e: "establish demo_sdk (cn_server (conns_start demo_server)) = (s, Inr (0, True, ''2025''))"
    using e by (simp add: conns_start_def)
  let ?c = "(conns_start demo_server)\<lparr>cn_server := s, cn_dialed := insert 0 {}, cn_open := insert 0 {}\<rparr>"
  have "conn_step demo_sdk (conns_start demo_server) ?c"
    using conn_step.dials[OF _ e] none by (simp add: conns_start_def)
  then have c: "(conn_step demo_sdk)\<^sup>*\<^sup>* (conns_start demo_server) ?c" by (rule r_into_rtranclp)
  moreover have "mc_session s = Some 0" using establish_session(2)[OF _ e] none by (simp add: conns_start_def)
  moreover have "cn_open ?c \<subseteq> set_option (mc_session (cn_server ?c)) \<union> set (cn_closing ?c)"
    using no_connection_is_left_open[OF c[unfolded demo_server_def]] none by (simp add: demo_server_def)
  ultimately show ?thesis by (intro exI[of _ ?c]) simp
qed

end
