(* ===== verification/Machine.thy ===== *)
theory Machine
  imports Workspace BucketClient
begin

section \<open>A host's files and its side of the bucket\<close>

text \<open>
  What \<open>hosting\<close> does to a machine: the record \<open>machine\<close> adds the calls of \<open>os\<close> and \<open>os/exec\<close> that
  only it makes to those of \<open>host\<close>. \<open>site\<close> is the state of an operation that uses both a machine and
  the bucket: the client, the outcomes of the waits for its limiter still to come (none left: no
  failure), and the world. A function of \<open>hosting\<close> that returns only an error returns a \<open>unit res\<close>, so
  that \<open>try_then\<close> is the return on error after every call.
\<close>

record 'w machine =
  mx_host :: "'w host"
  os_ReadFile :: "string \<Rightarrow> 'w \<Rightarrow> string res"
  os_WriteFile :: "string \<Rightarrow> string \<Rightarrow> 'w \<Rightarrow> 'w \<times> unit res"
  os_Readlink :: "string \<Rightarrow> 'w \<Rightarrow> string res"
  os_Symlink :: "string \<Rightarrow> string \<Rightarrow> 'w \<Rightarrow> 'w \<times> unit res"
  os_Remove :: "string \<Rightarrow> 'w \<Rightarrow> 'w"
  os_Rename :: "string \<Rightarrow> string \<Rightarrow> 'w \<Rightarrow> 'w \<times> unit res"
  os_Chmod :: "string \<Rightarrow> 'w \<Rightarrow> 'w \<times> unit res"
  os_MkdirTemp :: "string \<Rightarrow> 'w \<Rightarrow> 'w \<times> string res"
  os_CombinedOutput :: "string \<Rightarrow> string list \<Rightarrow> 'w \<Rightarrow> 'w \<times> string \<times> goerr option"

text \<open>The modes files are made with are left out: nothing here reads one back.\<close>

definition try_then :: "'x \<times> 'a res \<Rightarrow> ('a \<Rightarrow> 'x \<Rightarrow> 'x \<times> 'b res) \<Rightarrow> 'x \<times> 'b res" where
  "try_then r f = (case r of (x, Inl e) \<Rightarrow> (x, Inl e) | (x, Inr a) \<Rightarrow> f a x)"

definition from_err :: "'x \<times> goerr option \<Rightarrow> 'x \<times> unit res" where
  "from_err r = (fst r, case snd r of None \<Rightarrow> Inr () | Some e \<Rightarrow> Inl e)"

definition mkdir_all :: "'w machine \<Rightarrow> string \<Rightarrow> 'w \<Rightarrow> 'w \<times> unit res" where
  "mkdir_all m p w = from_err (os_MkdirAll (mx_host m) p w)"

definition not_there :: "'w machine \<Rightarrow> string \<Rightarrow> 'w \<Rightarrow> bool" where
  "not_there m p w = (case os_Stat (mx_host m) p w of None \<Rightarrow> False | Some e \<Rightarrow> err_is e Host.ErrNotExist)"

record 's caller =
  ca_store :: "'s store_ops"
  ca_crypto :: crypto
  ca_name :: string

record ('s, 'w) site =
  st_client :: "'s client"
  st_waits :: "goerr option list"
  st_world :: 'w

definition next_wait :: "goerr option list \<Rightarrow> goerr option" where
  "next_wait ws = (case ws of [] \<Rightarrow> None | w # rest \<Rightarrow> w)"

definition in_bucket ::
  "('s caller \<Rightarrow> goerr option \<Rightarrow> 's client \<Rightarrow> 's client \<times> 'a res) \<Rightarrow> 's caller \<Rightarrow> ('s, 'w) site \<Rightarrow> ('s, 'w) site \<times> 'a res" where
  "in_bucket f c s = (let (cl, r) = f c (next_wait (st_waits s)) (st_client s) in
     (s\<lparr>st_client := cl, st_waits := tl (st_waits s)\<rparr>, r))"

definition c_Get :: "'s caller \<Rightarrow> string \<Rightarrow> ('s, 'w) site \<Rightarrow> ('s, 'w) site \<times> object res" where
  "c_Get c key = in_bucket (\<lambda>c w. Caller_Get (ca_store c) (ca_crypto c) (ca_name c) w key) c"

definition c_Put :: "'s caller \<Rightarrow> string \<Rightarrow> string \<Rightarrow> ('s, 'w) site \<Rightarrow> ('s, 'w) site \<times> string res" where
  "c_Put c key body = in_bucket (\<lambda>c w. Caller_Put (ca_store c) (ca_crypto c) (ca_name c) w key body) c"

definition c_Create :: "'s caller \<Rightarrow> string \<Rightarrow> string \<Rightarrow> ('s, 'w) site \<Rightarrow> ('s, 'w) site \<times> string res" where
  "c_Create c key body = in_bucket (\<lambda>c w. Caller_Create (ca_store c) (ca_crypto c) (ca_name c) w key body) c"

definition c_Swap :: "'s caller \<Rightarrow> string \<Rightarrow> string \<Rightarrow> string \<Rightarrow> ('s, 'w) site \<Rightarrow> ('s, 'w) site \<times> string res" where
  "c_Swap c key body etag = in_bucket (\<lambda>c w cl. Caller_Swap (ca_store c) (ca_crypto c) (ca_name c) w key body etag cl) c"

text \<open>A call of the machine, within an operation that also uses the bucket.\<close>

definition on_disk :: "('w \<Rightarrow> 'w \<times> 'a) \<Rightarrow> ('s, 'w) site \<Rightarrow> ('s, 'w) site \<times> 'a" where
  "on_disk f s = (let (w, r) = f (st_world s) in (s\<lparr>st_world := w\<rparr>, r))"

subsection \<open>What is relied on of the files\<close>

text \<open>
  What the documentation of \<open>os\<close> says of the paths in \<open>P\<close>, different names for different places where
  there are files or links and no directories: \<open>file\<close> is what a regular file holds, \<open>linked\<close> what a
  symbolic link points at. A failed write may leave anything in the one file it writes; every other
  failure leaves things as they were. A call may fail at any time, so what holds after every failure
  also holds after a crash between any two calls.
\<close>

definition same_files ::
  "string set \<Rightarrow> ('w \<Rightarrow> string \<Rightarrow> string option) \<Rightarrow> ('w \<Rightarrow> string \<Rightarrow> string option) \<Rightarrow> 'w \<Rightarrow> 'w \<Rightarrow> bool" where
  "same_files P file linked w w' = (\<forall>p \<in> P. file w' p = file w p \<and> linked w' p = linked w p)"

definition files_documented ::
  "'w machine \<Rightarrow> string set \<Rightarrow> ('w \<Rightarrow> string \<Rightarrow> string option) \<Rightarrow> ('w \<Rightarrow> string \<Rightarrow> string option) \<Rightarrow> bool" where
  "files_documented m P file linked =
    ((\<forall>p w. same_files P file linked w (fst (mkdir_all m p w))) \<and>
     (\<forall>p \<in> P. \<forall>w. linked w p = None \<longrightarrow>
        (\<forall>s. os_ReadFile m p w = Inr s \<longrightarrow> file w p = Some s) \<and> (not_there m p w \<longrightarrow> file w p = None) \<and>
        (os_Stat (mx_host m) p w = None \<longrightarrow> file w p \<noteq> None)) \<and>
     (\<forall>p \<in> P. \<forall>w t. os_Readlink m p w = Inr t \<longrightarrow> linked w p = Some t) \<and>
     (\<forall>p \<in> P. \<forall>s w. linked w p = None \<longrightarrow>
        same_files (P - {p}) file linked w (fst (os_WriteFile m p s w)) \<and> linked (fst (os_WriteFile m p s w)) p = None \<and>
        (snd (os_WriteFile m p s w) = Inr () \<longrightarrow> file (fst (os_WriteFile m p s w)) p = Some s)) \<and>
     (\<forall>p \<in> P. \<forall>w. same_files (P - {p}) file linked w (os_Remove m p w) \<and>
        linked (os_Remove m p w) p \<in> {None, linked w p}) \<and>
     (\<forall>p \<in> P. \<forall>t w. same_files (P - {p}) file linked w (fst (os_Symlink m t p w)) \<and>
        linked (fst (os_Symlink m t p w)) p = (if snd (os_Symlink m t p w) = Inr () then Some t else linked w p)) \<and>
     (\<forall>p \<in> P. \<forall>q \<in> P. \<forall>w. p \<noteq> q \<longrightarrow>
        (if snd (os_Rename m p q w) = Inr ()
         then same_files (P - {p, q}) file linked w (fst (os_Rename m p q w)) \<and>
           file (fst (os_Rename m p q w)) q = file w p \<and> linked (fst (os_Rename m p q w)) q = linked w p \<and>
           file (fst (os_Rename m p q w)) p = None \<and> linked (fst (os_Rename m p q w)) p = None
         else same_files P file linked w (fst (os_Rename m p q w)))))"

lemma files_documentedD:
  assumes "files_documented m P file linked"
  shows doc_MkdirAll: "mkdir_all m p w = (w1, r) \<Longrightarrow> same_files P file linked w w1"
    and doc_ReadFile: "p \<in> P \<Longrightarrow> linked w p = None \<Longrightarrow> os_ReadFile m p w = Inr s \<Longrightarrow> file w p = Some s"
    and doc_not_there: "p \<in> P \<Longrightarrow> linked w p = None \<Longrightarrow> not_there m p w \<Longrightarrow> file w p = None"
    and doc_Stat: "p \<in> P \<Longrightarrow> linked w p = None \<Longrightarrow> os_Stat (mx_host m) p w = None \<Longrightarrow> file w p \<noteq> None"
    and doc_Readlink: "p \<in> P \<Longrightarrow> os_Readlink m p w = Inr t \<Longrightarrow> linked w p = Some t"
    and doc_WriteFile: "p \<in> P \<Longrightarrow> linked w p = None \<Longrightarrow> os_WriteFile m p s w = (w1, r) \<Longrightarrow>
      same_files (P - {p}) file linked w w1 \<and> linked w1 p = None \<and> (r = Inr () \<longrightarrow> file w1 p = Some s)"
    and doc_Remove: "p \<in> P \<Longrightarrow> same_files (P - {p}) file linked w (os_Remove m p w) \<and>
      (linked (os_Remove m p w) p = None \<or> linked (os_Remove m p w) p = linked w p)"
    and doc_Symlink: "p \<in> P \<Longrightarrow> os_Symlink m t p w = (w1, r) \<Longrightarrow>
      same_files (P - {p}) file linked w w1 \<and> linked w1 p = (if r = Inr () then Some t else linked w p)"
    and doc_Rename: "p \<in> P \<Longrightarrow> q \<in> P \<Longrightarrow> p \<noteq> q \<Longrightarrow> os_Rename m p q w = (w1, Inr ()) \<Longrightarrow>
      same_files (P - {p, q}) file linked w w1 \<and> file w1 q = file w p \<and> linked w1 q = linked w p \<and>
      file w1 p = None \<and> linked w1 p = None"
    and doc_Rename_fails: "p \<in> P \<Longrightarrow> q \<in> P \<Longrightarrow> p \<noteq> q \<Longrightarrow> os_Rename m p q w = (w1, Inl e) \<Longrightarrow>
      same_files P file linked w w1"
proof -
  note d = assms[unfolded files_documented_def]
  show "mkdir_all m p w = (w1, r) \<Longrightarrow> same_files P file linked w w1" using d by (metis fst_conv)
  show "p \<in> P \<Longrightarrow> linked w p = None \<Longrightarrow> os_ReadFile m p w = Inr s \<Longrightarrow> file w p = Some s" using d by blast
  show "p \<in> P \<Longrightarrow> linked w p = None \<Longrightarrow> not_there m p w \<Longrightarrow> file w p = None" using d by blast
  show "p \<in> P \<Longrightarrow> linked w p = None \<Longrightarrow> os_Stat (mx_host m) p w = None \<Longrightarrow> file w p \<noteq> None" using d by blast
  show "p \<in> P \<Longrightarrow> os_Readlink m p w = Inr t \<Longrightarrow> linked w p = Some t" using d by blast
  show "p \<in> P \<Longrightarrow> linked w p = None \<Longrightarrow> os_WriteFile m p s w = (w1, r) \<Longrightarrow>
      same_files (P - {p}) file linked w w1 \<and> linked w1 p = None \<and> (r = Inr () \<longrightarrow> file w1 p = Some s)"
    using d by (metis fst_conv snd_conv)
  show "p \<in> P \<Longrightarrow> same_files (P - {p}) file linked w (os_Remove m p w) \<and>
      (linked (os_Remove m p w) p = None \<or> linked (os_Remove m p w) p = linked w p)" using d by blast
  show "p \<in> P \<Longrightarrow> os_Symlink m t p w = (w1, r) \<Longrightarrow>
      same_files (P - {p}) file linked w w1 \<and> linked w1 p = (if r = Inr () then Some t else linked w p)"
    using d by (metis fst_conv snd_conv)
  have rename: "p \<in> P \<Longrightarrow> q \<in> P \<Longrightarrow> p \<noteq> q \<Longrightarrow>
      (if snd (os_Rename m p q w) = Inr ()
         then same_files (P - {p, q}) file linked w (fst (os_Rename m p q w)) \<and>
           file (fst (os_Rename m p q w)) q = file w p \<and> linked (fst (os_Rename m p q w)) q = linked w p \<and>
           file (fst (os_Rename m p q w)) p = None \<and> linked (fst (os_Rename m p q w)) p = None
         else same_files P file linked w (fst (os_Rename m p q w)))" using d by blast
  show "p \<in> P \<Longrightarrow> q \<in> P \<Longrightarrow> p \<noteq> q \<Longrightarrow> os_Rename m p q w = (w1, Inr ()) \<Longrightarrow>
      same_files (P - {p, q}) file linked w w1 \<and> file w1 q = file w p \<and> linked w1 q = linked w p \<and>
      file w1 p = None \<and> linked w1 p = None" using rename by simp
  show "p \<in> P \<Longrightarrow> q \<in> P \<Longrightarrow> p \<noteq> q \<Longrightarrow> os_Rename m p q w = (w1, Inl e) \<Longrightarrow> same_files P file linked w w1"
    using rename by simp
qed

subsection \<open>Places in a directory\<close>

definition under :: "string \<Rightarrow> string list \<Rightarrow> string" where
  "under d es = render (rooted d) (elements d @ es)"

lemma join_under:
  assumes "d \<noteq> ''''" "plain_element a"
  shows "join_path [d, a] = under d [a]"
    and "plain_element b \<Longrightarrow> join_path [d, a, b] = under d [a, b]"
proof -
  show "join_path [d, a] = under d [a]" using join_path_child[OF assms(2,1)] by (simp add: under_def)
  assume b: "plain_element b"
  have a: "a \<noteq> ''''" "b \<noteq> ''''" using assms(2) b by (auto simp: plain_element_def)
  have "rooted (d @ ''/'' @ a) = rooted d" "elements (d @ ''/'' @ a) = elements d @ [a]"
    using elements_snoc[OF assms(2,1)] by simp_all
  moreover have "rooted ((d @ ''/'' @ a) @ ''/'' @ b) = rooted (d @ ''/'' @ a)"
    "elements ((d @ ''/'' @ a) @ ''/'' @ b) = elements (d @ ''/'' @ a) @ [b]"
    using elements_snoc[OF b, of "d @ ''/'' @ a"] by simp_all
  ultimately show "join_path [d, a, b] = under d [a, b]"
    using assms(1) a by (simp add: join_path_def under_def clean_def)
qed

lemma under_inj:
  assumes "es \<noteq> []" "fs \<noteq> []" "\<forall>e \<in> set es. plain_element e" "\<forall>e \<in> set fs. plain_element e"
  shows "under d es = under d fs \<longleftrightarrow> es = fs"
proof
  assume "under d es = under d fs"
  then have "elements d @ es = elements d @ fs"
    unfolding under_def using assms elements_plain
    by (intro render_inj) auto
  then show "es = fs" by simp
qed simp

lemma join_snoc_append: "join sep (xs @ [x @ t]) = join sep (xs @ [x]) @ t"
  by (induction xs) (simp_all add: join_Cons)

lemma under_append:
  assumes "e \<noteq> ''''"
  shows "under d (es @ [e]) @ t = under d (es @ [e @ t])"
proof -
  have "join ''/'' ((elements d @ es) @ [e]) \<noteq> ''''"
  proof (cases "elements d @ es")
    case Nil
    then show ?thesis using assms by simp
  next
    case (Cons x xs)
    then show ?thesis by (simp add: join_Cons)
  qed
  then show ?thesis using join_snoc_append[of "''/''" "elements d @ es" e t]
    by (simp add: under_def render_def Let_def)
qed

text \<open>The first element of a relative path of two.\<close>

lemma dir_pair:
  assumes "plain_element a" "CHR ''/'' \<notin> set b"
  shows "dir (a @ ''/'' @ b) = a"
proof -
  have "split_on CHR ''/'' (a @ ''/'' @ b) = [a, b]"
    using assms split_on_join[of "[a, b]" "CHR ''/''"] by (simp add: plain_element_def)
  then have "dir (a @ ''/'' @ b) = clean (a @ ''/'')" by (simp add: dir_def)
  moreover have "clean (a @ ''/'') = a"
  proof -
    have "split_on CHR ''/'' (a @ ''/'') = [a, '''']"
      using split_on_sep[of "CHR ''/''" a "''''"] assms split_on_join[of "[a]" "CHR ''/''"] by (simp add: plain_element_def)
    moreover have "\<not> rooted (a @ ''/'')" using assms(1) by (cases a) (auto simp: rooted_def plain_element_def)
    ultimately show ?thesis using assms(1)
      by (simp add: clean_def elements_def clean_step_def render_def plain_element_def)
  qed
  ultimately show ?thesis by simp
qed

end
