(* ===== verification/Release.thy ===== *)
theory Release
  imports Machine
begin

section \<open>Releases: hosting/release.go\<close>

text \<open>
  Publishing, installing and announcing releases. \<open>quote\<close> is \<open>%q\<close>, \<open>marshal\<close> and \<open>unmarshal\<close> are JSON
  for the notice, \<open>stamp\<close> is the formatted time of the world.
\<close>

definition Releases :: string where "Releases = ''/opt/garage/releases''"

definition currentKey :: string where "currentKey = ''releases/current''"

definition binaryKey :: "string \<Rightarrow> string" where "binaryKey sha = ''releases/'' @ sha @ ''/garage''"

definition releaseName :: "string \<Rightarrow> bool" where
  "releaseName s = (7 \<le> length s \<and> length s \<le> 40 \<and>
     list_all (\<lambda>c. is_digit c \<or> (CHR ''a'' \<le> c \<and> c \<le> CHR ''f'')) s)"

subsection \<open>The pointer\<close>

definition point :: "'s caller \<Rightarrow> string \<Rightarrow> ('s, 'w) site \<Rightarrow> ('s, 'w) site \<times> unit res" where
  "point c sha s =
    (let (s1, cur) = c_Get c currentKey s;
         (s2, err) =
           (case cur of
              Inl e \<Rightarrow> if err_is e ErrNotFound
                       then (let (s2, r) = c_Create c currentKey sha s1 in (s2, case r of Inl e \<Rightarrow> Some e | Inr t \<Rightarrow> None))
                       else (s1, Some e)
            | Inr ob \<Rightarrow> (let (s2, r) = c_Swap c currentKey sha (o_ETag ob) s1 in (s2, case r of Inl e \<Rightarrow> Some e | Inr t \<Rightarrow> None))) in
     (s2, case err of
            None \<Rightarrow> Inr ()
          | Some e \<Rightarrow>
              if err_is e ErrExists \<or> err_is e ErrConflict
              then Inl (Wrap (''release: '' @ currentKey @ '' moved while releasing '' @ sha @ '', try again: '') e '''')
              else Inl e))"

definition not_a_sha :: "(string \<Rightarrow> string) \<Rightarrow> string \<Rightarrow> goerr" where
  "not_a_sha quote sha = Opaque (''release: '' @ quote sha @ '' is not a sha'')"

definition Publish ::
  "(string \<Rightarrow> string) \<Rightarrow> 's caller \<Rightarrow> string \<Rightarrow> string \<Rightarrow> ('s, 'w) site \<Rightarrow> ('s, 'w) site \<times> unit res" where
  "Publish quote c sha binary s =
    (if \<not> releaseName sha then (s, Inl (not_a_sha quote sha))
     else try_then (c_Put c (binaryKey sha) binary s) (\<lambda>t. point c sha))"

definition Point :: "(string \<Rightarrow> string) \<Rightarrow> 's caller \<Rightarrow> string \<Rightarrow> ('s, 'w) site \<Rightarrow> ('s, 'w) site \<times> unit res" where
  "Point quote c sha s =
    (if \<not> releaseName sha then (s, Inl (not_a_sha quote sha))
     else case c_Get c (binaryKey sha) s of
       (s1, Inl e) \<Rightarrow> (s1, Inl (Wrap (''release '' @ sha @ '': '') e ''''))
     | (s1, Inr ob) \<Rightarrow> point c sha s1)"

subsection \<open>Installing\<close>

definition Running :: "'w machine \<Rightarrow> string \<Rightarrow> 'w \<Rightarrow> string" where
  "Running m d w = (case os_Readlink m (join_path [d, ''current'']) w of Inl e \<Rightarrow> '''' | Inr target \<Rightarrow> dir target)"

text \<open>Whether the link had to be changed comes with the error, if any.\<close>

definition link :: "'w machine \<Rightarrow> string \<Rightarrow> string \<Rightarrow> 'w \<Rightarrow> 'w \<times> bool \<times> unit res" where
  "link m target path w =
    (if os_Readlink m path w = Inr target then (w, False, Inr ())
     else case mkdir_all m (dir path) w of
       (w1, Inl e) \<Rightarrow> (w1, False, Inl e)
     | (w1, Inr u) \<Rightarrow>
        (case os_Symlink m target (path @ ''.new'') (os_Remove m (path @ ''.new'') w1) of
           (w2, Inl e) \<Rightarrow> (w2, False, Inl e)
         | (w2, Inr u) \<Rightarrow> (let (w3, r) = os_Rename m (path @ ''.new'') path w2 in (w3, True, r))))"

definition release_path :: "string \<Rightarrow> string \<Rightarrow> string" where
  "release_path d sha = join_path [d, sha, ''garage'']"

text \<open>The part of \<open>install\<close> that fetches a release that is not there.\<close>

definition fetch_release :: "'s caller \<Rightarrow> 'w machine \<Rightarrow> string \<Rightarrow> string \<Rightarrow> ('s, 'w) site \<Rightarrow> ('s, 'w) site \<times> unit res" where
  "fetch_release c m d sha s =
    (let path = release_path d sha; new = path @ ''.new'' in
     try_then (c_Get c (binaryKey sha) s) (\<lambda>ob s1.
     try_then (on_disk (mkdir_all m (dir path)) s1) (\<lambda>_ s2.
     try_then (on_disk (os_WriteFile m new (o_Body ob)) s2) (\<lambda>_ s3.
       case os_CombinedOutput m new [''help''] (st_world s3) of
         (w, out, Some e) \<Rightarrow>
           (s3\<lparr>st_world := os_Remove m new w\<rparr>,
            Inl (Wrap (''release '' @ sha @ '' does not run here: '') e (nl @ out)))
       | (w, out, None) \<Rightarrow> on_disk (os_Rename m new path) (s3\<lparr>st_world := w\<rparr>)))))"

definition install ::
  "(string \<Rightarrow> string) \<Rightarrow> 's caller \<Rightarrow> 'w machine \<Rightarrow> string \<Rightarrow> string \<Rightarrow> ('s, 'w) site \<Rightarrow> ('s, 'w) site \<times> unit res" where
  "install quote c m d sha s =
    (if \<not> releaseName sha
     then (s, Inl (Opaque (''release: '' @ currentKey @ '' names '' @ quote sha @ '', not a sha'')))
     else
       let path = release_path d sha in
       try_then
         (case os_Stat (mx_host m) path (st_world s) of
            None \<Rightarrow> (s, Inr ())
          | Some e \<Rightarrow> if err_is e Host.ErrNotExist then fetch_release c m d sha s else (s, Inl e))
         (\<lambda>_. on_disk (\<lambda>w. case link m (sha @ ''/garage'') (join_path [d, ''current'']) w of (w1, had, r) \<Rightarrow> (w1, r))))"

definition Update ::
  "(string \<Rightarrow> string) \<Rightarrow> 's caller \<Rightarrow> 'w machine \<Rightarrow> string \<Rightarrow> ('s, 'w) site \<Rightarrow> ('s, 'w) site \<times> string res" where
  "Update quote c m d s =
    (let seenPath = join_path [d, ''seen''];
         seen = os_ReadFile m seenPath (st_world s);
         is_first = (case seen of Inl e \<Rightarrow> err_is e Host.ErrNotExist | Inr b \<Rightarrow> False) in
     case (case seen of Inl e \<Rightarrow> if is_first then Inr '''' else Inl e | Inr b \<Rightarrow> Inr b) of
       Inl e \<Rightarrow> (s, Inl e)
     | Inr before \<Rightarrow>
        try_then
          (case c_Get c currentKey s of
             (s1, Inr cur) \<Rightarrow> (s1, Inr (trim_space (o_Body cur)))
           | (s1, Inl e) \<Rightarrow> if err_is e ErrNotFound then (s1, Inr '''') else (s1, Inl e))
          (\<lambda>want s1.
             if \<not> is_first \<and> want = before then (s1, Inr '''')
             else
               try_then (on_disk (mkdir_all m d) s1) (\<lambda>_ s2.
               try_then (on_disk (os_WriteFile m seenPath want) s2) (\<lambda>_ s3.
                 if is_first \<or> want = '''' \<or> want = Running m d (st_world s3) then (s3, Inr '''')
                 else try_then (install quote c m d want s3) (\<lambda>_ s4. (s4, Inr want))))))"

subsection \<open>Deploying\<close>

record deployed =
  dp_SHA :: string
  dp_Room :: string

text \<open>None is the panic of slicing a hash of fewer than 12 characters.\<close>

definition build_commands :: "command list" where
  "build_commands =
    [\<lparr>cmd_Cmd = ''go'', cmd_Args = [''test'', ''./...'']\<rparr>,
     \<lparr>cmd_Cmd = ''env'', cmd_Args = [''GOOS=linux'', ''GOARCH=amd64'', ''CGO_ENABLED=0'', ''go'', ''build'', ''-o'',
        ''garage-release'', ''./cmd/garage'']\<rparr>]"

fun run_build :: "'w host \<Rightarrow> task \<Rightarrow> string \<Rightarrow> command list \<Rightarrow> 'w \<Rightarrow> 'w \<times> unit res" where
  "run_build h wt sha [] w = (w, Inr ())"
| "run_build h wt sha (cmd # cmds) w =
    try_then (task_Exec h wt cmd w) (\<lambda>r w1.
      if ExitCode r \<noteq> 0
      then (let out = Stdout r @ Stderr r in
        (w1, Inl (Opaque (join '' '' (cmd_Cmd cmd # cmd_Args cmd) @ '' failed at '' @ take 12 sha @ '':'' @ nl @
           drop (length out - 3000) out))))
      else run_build h wt sha cmds w1)"

definition build ::
  "(string \<Rightarrow> string) \<Rightarrow> ('w \<Rightarrow> string) \<Rightarrow> 'w machine \<Rightarrow> workspace \<Rightarrow> string \<Rightarrow> 'w \<Rightarrow> ('w \<times> string res) option" where
  "build quote stamp m ws sha w =
    (if length sha < 12 then None
     else let i = ''release-'' @ take 12 sha @ ''-'' @ stamp w;
              pr = \<lparr>pl_URL = '''', pl_State = '''', pl_Head = sha, pl_HeadSHA = sha, pl_Base = ''''\<rparr> in
       Some (try_then (ws_Checkout quote (mx_host m) ws i pr w) (\<lambda>wt w1.
         (let (w2, r) = try_then (run_build (mx_host m) wt sha build_commands w1)
                (\<lambda>_ w2. (w2, os_ReadFile m (join_path [tk_dir wt, ''garage-release'']) w2)) in
          (fst (task_Close (mx_host m) wt w2), r)))))"

definition Deploy ::
  "(string \<Rightarrow> string) \<Rightarrow> ('w \<Rightarrow> string) \<Rightarrow> (deployed \<Rightarrow> string) \<Rightarrow> 's caller \<Rightarrow> 'w machine \<Rightarrow> string \<Rightarrow> workspace \<Rightarrow>
   string \<Rightarrow> string \<Rightarrow> ('s, 'w) site \<Rightarrow> (('s, 'w) site \<times> string res) option" where
  "Deploy quote stamp marshal c m d ws ref room s =
    (case on_disk (ws_Merged quote (mx_host m) ws ref) s of
       (s1, Inl e) \<Rightarrow> Some (s1, Inl e)
     | (s1, Inr sha) \<Rightarrow>
        if Running m d (st_world s1) = sha then Some (s1, Inl (Opaque (''the garage is running '' @ sha @ '' already'')))
        else case build quote stamp m ws sha (st_world s1) of
          None \<Rightarrow> None
        | Some (w, bin) \<Rightarrow>
            (let s2 = s1\<lparr>st_world := w\<rparr>; notice = join_path [d, ''deployed''] in
             Some (try_then (s2, bin) (\<lambda>bin s2.
               try_then (on_disk (os_WriteFile m notice (marshal \<lparr>dp_SHA = sha, dp_Room = room\<rparr>)) s2) (\<lambda>_ s3.
                 case Publish quote c sha bin s3 of
                   (s4, Inl e) \<Rightarrow> (s4\<lparr>st_world := os_Remove m notice (st_world s4)\<rparr>, Inl e)
                 | (s4, Inr u) \<Rightarrow> (s4, Inr sha))))))"

definition Booted :: "(string \<Rightarrow> deployed option) \<Rightarrow> 'w machine \<Rightarrow> string \<Rightarrow> 'w \<Rightarrow> 'w \<times> string \<times> string" where
  "Booted unmarshal m d w =
    (let notice = join_path [d, ''deployed''] in
     case os_ReadFile m notice w of
       Inl e \<Rightarrow> (w, '''', '''')
     | Inr raw \<Rightarrow>
        (let w1 = os_Remove m notice w in
         case unmarshal raw of
           None \<Rightarrow> (w1, '''', '''')
         | Some dp \<Rightarrow> if dp_Room dp = '''' then (w1, '''', '''')
             else (w1, dp_Room dp, ''running '' @ take 12 (Running m d w1))))"

end
