(* ===== verification/Hosting.thy ===== *)
theory Hosting
  imports Release Bucket
begin

section \<open>Releases: what a host runs\<close>

text \<open>
  Over any store that keeps its contract and files that behave as documented: only signed releases
  are ever installed and \<open>current\<close> never dangles; a release that is pointed at is installed once; the
  pointer never names a release the bucket does not have.
\<close>

subsection \<open>Reading the code's control flow\<close>

lemma try_thenE:
  assumes "try_then r f = (x', q)"
  obtains (fails) x e where "r = (x, Inl e)" "x' = x" "q = Inl e"
  | (goes_on) x a where "r = (x, Inr a)" "f a x = (x', q)"
  using assms by (cases r; cases "snd r") (auto simp: try_then_def)

lemma on_diskE:
  assumes "on_disk f s = (s', r)"
  obtains w where "f (st_world s) = (w, r)" "s' = s\<lparr>st_world := w\<rparr>"
  using assms by (auto simp: on_disk_def split: prod.splits)

lemma same_files_refl [simp]: "same_files P file linked w w"
  by (simp add: same_files_def)

lemma same_files_trans: "same_files P file linked w1 w2 \<Longrightarrow> same_files Q file linked w2 w3 \<Longrightarrow> R \<subseteq> P \<inter> Q \<Longrightarrow> same_files R file linked w1 w3"
  unfolding same_files_def by (metis IntD1 IntD2 subsetD)

lemma same_files_mono: "same_files P file linked w w' \<Longrightarrow> Q \<subseteq> P \<Longrightarrow> same_files Q file linked w w'"
  unfolding same_files_def by blast

lemma same_filesD: "same_files P file linked w w' \<Longrightarrow> p \<in> P \<Longrightarrow> file w' p = file w p \<and> linked w' p = linked w p"
  unfolding same_files_def by blast

text \<open>A read of the bucket leaves the disk and the client's identity alone and verifies what it returns.\<close>

lemma c_Get_cases:
  assumes "object_store (ca_store c) view" "c_Get c key s = (s', r)"
  shows "st_world s' = st_world s" "same_identity (st_client s) (st_client s')"
    "view (cl_store (st_client s')) = view (cl_store (st_client s))"
    and "r = Inr ob \<Longrightarrow> view (cl_store (st_client s)) key = Some ob \<and>
      verify (ca_crypto c) (cl_trusted (st_client s)) key ob"
proof -
  obtain cl r1 where g: "Caller_Get (ca_store c) (ca_crypto c) (ca_name c) (next_wait (st_waits s)) key (st_client s) = (cl, r1)"
    by (metis prod.exhaust)
  then have s': "s' = s\<lparr>st_client := cl, st_waits := tl (st_waits s)\<rparr>" "r1 = r"
    using assms(2) by (simp_all add: c_Get_def in_bucket_def)
  note facts = object_store.get_cases[OF assms(1) g]
  show "st_world s' = st_world s" "same_identity (st_client s) (st_client s')"
    "view (cl_store (st_client s')) = view (cl_store (st_client s))"
    using facts(1,2) s' by simp_all
  show "r = Inr ob \<Longrightarrow> view (cl_store (st_client s)) key = Some ob \<and>
      verify (ca_crypto c) (cl_trusted (st_client s)) key ob"
    using facts(3) s'(2) by blast
qed

lemma same_identity_trans [trans]: "same_identity a b \<Longrightarrow> same_identity b c \<Longrightarrow> same_identity a c"
  by (simp add: same_identity_def)

lemma same_identity_refl [simp]: "same_identity a a"
  by (simp add: same_identity_def)

subsection \<open>The places releases are kept\<close>

lemma releaseName_plain: "releaseName sha \<Longrightarrow> plain_element sha"
proof -
  assume r: "releaseName sha"
  then have "7 \<le> length sha" "\<forall>c \<in> set sha. is_digit c \<or> (CHR ''a'' \<le> c \<and> c \<le> CHR ''f'')"
    by (auto simp: releaseName_def list_all_iff)
  moreover have "\<not> (is_digit CHR ''/'' \<or> (CHR ''a'' \<le> CHR ''/'' \<and> CHR ''/'' \<le> CHR ''f''))" by code_simp
  ultimately show ?thesis by (auto simp: plain_element_def)
qed

definition release_files :: "string \<Rightarrow> string set" where
  "release_files d = {under d [''seen''], under d [''current''], under d [''current.new''], under d [''deployed'']} \<union>
     {under d [sha, n] |sha n. releaseName sha \<and> (n = ''garage'' \<or> n = ''garage.new'')}"

lemma plain_literals [simp]:
  "plain_element ''seen''" "plain_element ''current''" "plain_element ''current.new''" "plain_element ''deployed''"
  "plain_element ''garage''" "plain_element ''garage.new''"
  by (simp_all add: plain_element_def)

lemma release_places:
  assumes "d \<noteq> ''''"
  shows "join_path [d, ''seen''] = under d [''seen'']" "join_path [d, ''current''] = under d [''current'']"
    "join_path [d, ''deployed''] = under d [''deployed'']"
    "under d [''current''] @ ''.new'' = under d [''current.new'']"
    and "releaseName sha \<Longrightarrow> release_path d sha = under d [sha, ''garage'']"
    and "under d [sha, ''garage''] @ ''.new'' = under d [sha, ''garage.new'']"
  using join_under[OF assms] releaseName_plain under_append[of "''current''" d "[]" "''.new''"]
    under_append[of "''garage''" d "[sha]" "''.new''"]
  by (simp_all add: release_path_def)

lemma under_distinct [simp]:
  assumes "plain_element a" "plain_element b"
  shows "under d [a] = under d [b] \<longleftrightarrow> a = b"
    "plain_element c \<Longrightarrow> under d [a, b] \<noteq> under d [c]" "plain_element c \<Longrightarrow> under d [c] \<noteq> under d [a, b]"
    "plain_element c \<Longrightarrow> plain_element e \<Longrightarrow> under d [a, b] = under d [c, e] \<longleftrightarrow> a = c \<and> b = e"
  using assms under_inj[of "[a]" "[b]" d] under_inj[of "[a, b]" "[c]" d] under_inj[of "[c]" "[a, b]" d]
    under_inj[of "[a, b]" "[c, e]" d] by auto

lemma release_files_simps [simp]:
  "under d [''seen''] \<in> release_files d" "under d [''current''] \<in> release_files d"
  "under d [''current.new''] \<in> release_files d" "under d [''deployed''] \<in> release_files d"
  "releaseName sha \<Longrightarrow> under d [sha, ''garage''] \<in> release_files d"
  "releaseName sha \<Longrightarrow> under d [sha, ''garage.new''] \<in> release_files d"
  by (auto simp: release_files_def)

text \<open>The only links are \<open>current\<close> and what is about to become it.\<close>

definition only_current_linked :: "string \<Rightarrow> ('w \<Rightarrow> string \<Rightarrow> string option) \<Rightarrow> 'w \<Rightarrow> bool" where
  "only_current_linked d linked w =
    (\<forall>p \<in> release_files d. p \<noteq> under d [''current''] \<longrightarrow> p \<noteq> under d [''current.new''] \<longrightarrow> linked w p = None)"

lemma link_effect:
  assumes "files_documented m P file linked" "p \<in> P" "p @ ''.new'' \<in> P" "link m t p w = (w', had, r)"
  shows "same_files (P - {p, p @ ''.new''}) file linked w w'" "linked w' p = linked w p \<or> linked w' p = Some t"
    "r = Inr () \<Longrightarrow> linked w' p = Some t"
proof -
  let ?n = "p @ ''.new''"
  have "same_files (P - {p, ?n}) file linked w w' \<and> (linked w' p = linked w p \<or> linked w' p = Some t) \<and>
    (r = Inr () \<longrightarrow> linked w' p = Some t)"
  proof (cases "os_Readlink m p w = Inr t")
    case True
    then show ?thesis using assms(2,4) doc_Readlink[OF assms(1,2)] by (auto simp: link_def)
  next
    case False
    obtain w1 r1 where mk: "mkdir_all m (dir p) w = (w1, r1)" by (metis prod.exhaust)
    have s1: "same_files P file linked w w1" by (rule doc_MkdirAll[OF assms(1) mk])
    let ?w1 = "os_Remove m ?n w1"
    have s2: "same_files (P - {?n}) file linked w ?w1"
      by (rule same_files_trans[OF s1 doc_Remove[OF assms(1,3), THEN conjunct1]]) simp
    obtain w2 r2 where sy: "os_Symlink m t ?n ?w1 = (w2, r2)" by (metis prod.exhaust)
    note link = doc_Symlink[OF assms(1,3) sy]
    have s3: "same_files (P - {?n}) file linked w w2"
      by (rule same_files_trans[OF s2 link[THEN conjunct1]]) simp
    obtain w3 r3 where re: "os_Rename m ?n p w2 = (w3, r3)" by (metis prod.exhaust)
    have p: "p \<in> P - {?n}" using assms(2) by simp
    show ?thesis
    proof (cases r1)
      case (Inl e)
      then have "w' = w1" "r = Inl e" using assms(4) False mk by (simp_all add: link_def)
      then show ?thesis using same_files_mono[OF s1, of "P - {p, ?n}"] same_filesD[OF s1 assms(2)] by auto
    next
      case r1: (Inr u)
      show ?thesis
      proof (cases r2)
        case (Inl e)
        then have "w' = w2" "r = Inl e" using assms(4) False mk r1 sy by (simp_all add: link_def)
        then show ?thesis using same_files_mono[OF s3, of "P - {p, ?n}"] same_filesD[OF s3 p] by auto
      next
        case (Inr v)
        then have w': "w' = w3" "r = r3" using assms(4) False mk r1 sy re by (simp_all add: link_def)
        show ?thesis
        proof (cases r3)
          case (Inl e)
          have "same_files P file linked w2 w3"
            by (rule doc_Rename_fails[OF assms(1,3,2)]) (use re Inl in auto)
          then have s4: "same_files (P - {?n}) file linked w w3" by (rule same_files_trans[OF s3]) simp
          then show ?thesis using same_files_mono[OF s4, of "P - {p, ?n}"] same_filesD[OF s4 p] w' Inl by auto
        next
          case r3: (Inr x)
          have d: "same_files (P - {?n, p}) file linked w2 w3" "linked w3 p = linked w2 ?n"
            using doc_Rename[OF assms(1,3,2), of w2 w3] re r3 by auto
          have "same_files (P - {p, ?n}) file linked w w3" by (rule same_files_trans[OF s3 d(1)]) auto
          moreover have "linked w3 p = Some t" using d(2) link Inr by simp
          ultimately show ?thesis using w' by simp
        qed
      qed
    qed
  qed
  then show "same_files (P - {p, p @ ''.new''}) file linked w w'" "linked w' p = linked w p \<or> linked w' p = Some t"
    "r = Inr () \<Longrightarrow> linked w' p = Some t" by simp_all
qed

subsection \<open>Installing\<close>

text \<open>What is relied on of a release: asked for help, it leaves the releases alone.\<close>

definition help_only_prints ::
  "'w machine \<Rightarrow> string set \<Rightarrow> ('w \<Rightarrow> string \<Rightarrow> string option) \<Rightarrow> ('w \<Rightarrow> string \<Rightarrow> string option) \<Rightarrow> bool" where
  "help_only_prints m P file linked =
    (\<forall>p w. same_files P file linked w (fst (os_CombinedOutput m p [''help''] w)))"

definition signed_for :: "'s caller \<Rightarrow> string list \<Rightarrow> string \<Rightarrow> string \<Rightarrow> bool" where
  "signed_for c trusted key body = (\<exists>ob. verify (ca_crypto c) trusted key ob \<and> o_Body ob = body)"

text \<open>What stays as it was while a release is fetched: everything but the new file.\<close>

definition fetching ::
  "string set \<Rightarrow> ('w \<Rightarrow> string \<Rightarrow> string option) \<Rightarrow> ('w \<Rightarrow> string \<Rightarrow> string option) \<Rightarrow> string \<Rightarrow> string \<Rightarrow> 'w \<Rightarrow> 'w \<Rightarrow> bool" where
  "fetching P file linked R N w0 w =
    (same_files (P - {R, N}) file linked w0 w \<and> linked w R = None \<and> linked w N = None \<and> file w R = file w0 R)"

lemma fetching_step:
  assumes "fetching P file linked R N w0 w" "R \<in> P" "N \<in> P" "R \<noteq> N" "same_files (P - {N}) file linked w w1" "linked w1 N = None"
  shows "fetching P file linked R N w0 w1"
proof -
  have "same_files (P - {R, N}) file linked w0 w" using assms(1) by (simp add: fetching_def)
  then have "same_files (P - {R, N}) file linked w0 w1" by (rule same_files_trans[OF _ assms(5)]) auto
  then show ?thesis using assms(1,2,4,6) same_filesD[OF assms(5), of R] by (simp add: fetching_def)
qed

lemma fetching_same:
  assumes "fetching P file linked R N w0 w" "R \<in> P" "N \<in> P" "R \<noteq> N" "same_files P file linked w w1"
  shows "fetching P file linked R N w0 w1 \<and> file w1 N = file w N"
  using fetching_step[OF assms(1-4) same_files_mono[OF assms(5)]] same_filesD[OF assms(5,3)] assms(1)
  by (simp add: fetching_def Diff_subset)

lemma fetching_steps:
  assumes "files_documented m P file linked" "help_only_prints m P file linked" "R \<in> P" "N \<in> P" "R \<noteq> N"
    and "fetching P file linked R N w0 w"
  shows "mkdir_all m p w = (w1, r) \<Longrightarrow> fetching P file linked R N w0 w1"
    and "os_WriteFile m N b w = (w1, r) \<Longrightarrow> fetching P file linked R N w0 w1 \<and> (r = Inr () \<longrightarrow> file w1 N = Some b)"
    and "os_CombinedOutput m p [''help''] w = (w1, out, err) \<Longrightarrow> fetching P file linked R N w0 w1 \<and> file w1 N = file w N"
    and "fetching P file linked R N w0 (os_Remove m N w)"
    and "os_Rename m N R w = (w1, Inl e) \<Longrightarrow> fetching P file linked R N w0 w1"
    and "os_Rename m N R w = (w1, Inr ()) \<Longrightarrow> same_files (P - {R, N}) file linked w0 w1 \<and> linked w1 R = None \<and>
      linked w1 N = None \<and> file w1 R = file w N"
proof -
  note step = fetching_step[OF assms(6,3-5)] and same = fetching_same[OF assms(6,3-5)]
  have N: "linked w N = None" using assms(6) by (simp add: fetching_def)
  show "mkdir_all m p w = (w1, r) \<Longrightarrow> fetching P file linked R N w0 w1"
    using same doc_MkdirAll[OF assms(1)] by blast
  show "os_WriteFile m N b w = (w1, r) \<Longrightarrow> fetching P file linked R N w0 w1 \<and> (r = Inr () \<longrightarrow> file w1 N = Some b)"
    using step doc_WriteFile[OF assms(1,4) N] by blast
  show "os_CombinedOutput m p [''help''] w = (w1, out, err) \<Longrightarrow> fetching P file linked R N w0 w1 \<and> file w1 N = file w N"
    using same assms(2) unfolding help_only_prints_def by (metis fst_conv)
  show "fetching P file linked R N w0 (os_Remove m N w)"
    using step doc_Remove[OF assms(1,4), of w] N by auto
  show "os_Rename m N R w = (w1, Inl e) \<Longrightarrow> fetching P file linked R N w0 w1"
    using same doc_Rename_fails[OF assms(1,4,3) assms(5)[symmetric]] by blast
  assume "os_Rename m N R w = (w1, Inr ())"
  note ren = doc_Rename[OF assms(1,4,3) assms(5)[symmetric] this]
  have "same_files (P - {R, N}) file linked w0 w" using assms(6) by (simp add: fetching_def)
  then have "same_files (P - {R, N}) file linked w0 w1" by (rule same_files_trans[OF _ ren[THEN conjunct1]]) auto
  then show "same_files (P - {R, N}) file linked w0 w1 \<and> linked w1 R = None \<and> linked w1 N = None \<and> file w1 R = file w N"
    using ren N by simp
qed

text \<open>The ways fetching can go: it fails at some point, or it renames a file that was verified.\<close>

lemma fetch_release_effect:
  fixes s s' :: "('s, 'w) site"
  assumes "files_documented m P file linked" "help_only_prints m P file linked" "R \<in> P" "N \<in> P" "R \<noteq> N"
    and "object_store (ca_store c) view" "release_path d sha = R" "R @ ''.new'' = N"
    and "linked (st_world s) R = None" "linked (st_world s) N = None"
    and "fetch_release c m d sha s = (s', r)"
  shows "same_identity (st_client s) (st_client s')"
    and "fetching P file linked R N (st_world s) (st_world s') \<and> r \<noteq> Inr () \<or>
      r = Inr () \<and> same_files (P - {R, N}) file linked (st_world s) (st_world s') \<and> linked (st_world s') R = None \<and>
      linked (st_world s') N = None \<and>
      (\<exists>b. signed_for c (cl_trusted (st_client s)) (binaryKey sha) b \<and> file (st_world s') R = Some b)"
proof -
  note steps = fetching_steps[OF assms(1-5)] and fetch = assms(11)[unfolded fetch_release_def Let_def assms(7,8)]
  let ?id = "same_identity (st_client s)" and ?f = "fetching P file linked R N (st_world s)"
  have start: "?f (st_world s)" using assms(9,10) by (simp add: fetching_def)
  have "?id (st_client s') \<and> (?f (st_world s') \<and> r \<noteq> Inr () \<or>
      r = Inr () \<and> same_files (P - {R, N}) file linked (st_world s) (st_world s') \<and> linked (st_world s') R = None \<and>
      linked (st_world s') N = None \<and>
      (\<exists>b. signed_for c (cl_trusted (st_client s)) (binaryKey sha) b \<and> file (st_world s') R = Some b))"
    using fetch
  proof (cases rule: try_thenE)
    case (fails x e)
    then show ?thesis using c_Get_cases(1,2)[OF assms(6) fails(1)] start by simp
  next
    case (goes_on s1 ob)
    have s1: "?f (st_world s1)" "?id (st_client s1)" and ob: "signed_for c (cl_trusted (st_client s)) (binaryKey sha) (o_Body ob)"
      using c_Get_cases[OF assms(6) goes_on(1)] start by (auto simp: signed_for_def)
    show ?thesis using goes_on(2)
    proof (cases rule: try_thenE)
      case (fails x e)
      then show ?thesis using s1 steps(1)[OF s1(1)] by (auto elim!: on_diskE)
    next
      case (goes_on s2 u)
      then have s2: "?f (st_world s2)" "?id (st_client s2)" using s1 steps(1)[OF s1(1)] by (auto elim!: on_diskE)
      show ?thesis using goes_on(2)
      proof (cases rule: try_thenE)
        case (fails x e)
        then show ?thesis using s2 steps(2)[OF s2(1)] by (auto elim!: on_diskE)
      next
        case (goes_on s3 u3)
        then have s3: "?f (st_world s3)" "?id (st_client s3)" "file (st_world s3) N = Some (o_Body ob)"
          using s2 steps(2)[OF s2(1)] by (auto elim!: on_diskE)
        obtain w4 out e where w4: "os_CombinedOutput m N [''help''] (st_world s3) = (w4, out, e)" by (metis prod_cases3)
        note printed = steps(3)[OF s3(1) w4]
        show ?thesis
        proof (cases e)
          case (Some x)
          then show ?thesis using goes_on(2) w4 steps(4)[of "st_world s" w4] printed s3(2) by auto
        next
          case None
          then have "on_disk (os_Rename m N R) (s3\<lparr>st_world := w4\<rparr>) = (s', r)" using goes_on(2) w4 by simp
          then show ?thesis using steps(5,6)[of "st_world s" w4] printed s3(2,3) ob
            by (cases r) (auto elim!: on_diskE)
        qed
      qed
    qed
  qed
  then show "same_identity (st_client s) (st_client s')"
    "?f (st_world s') \<and> r \<noteq> Inr () \<or>
      r = Inr () \<and> same_files (P - {R, N}) file linked (st_world s) (st_world s') \<and> linked (st_world s') R = None \<and>
      linked (st_world s') N = None \<and>
      (\<exists>b. signed_for c (cl_trusted (st_client s)) (binaryKey sha) b \<and> file (st_world s') R = Some b)" by simp_all
qed

subsection \<open>What a look at the bucket can change\<close>

text \<open>
  What may happen to the releases of a host: a file becomes one that was signed as that release, and
  \<open>current\<close> moves to a release whose file is there.
\<close>

definition updated ::
  "'s caller \<Rightarrow> string list \<Rightarrow> string \<Rightarrow> ('w \<Rightarrow> string \<Rightarrow> string option) \<Rightarrow> ('w \<Rightarrow> string \<Rightarrow> string option) \<Rightarrow> 'w \<Rightarrow> 'w \<Rightarrow> bool" where
  "updated c trusted d file linked w w' =
    (only_current_linked d linked w' \<and>
     (\<forall>sha. releaseName sha \<longrightarrow> file w' (release_path d sha) = file w (release_path d sha) \<or>
        (\<exists>b. signed_for c trusted (binaryKey sha) b \<and> file w' (release_path d sha) = Some b)) \<and>
     (linked w' (join_path [d, ''current'']) = linked w (join_path [d, ''current'']) \<or>
      (\<exists>sha. releaseName sha \<and> linked w' (join_path [d, ''current'']) = Some (sha @ ''/garage'') \<and>
         file w' (release_path d sha) \<noteq> None)))"

lemma updatedI:
  assumes "only_current_linked d linked w'"
    and "\<And>sha. releaseName sha \<Longrightarrow> file w' (release_path d sha) = file w (release_path d sha) \<or>
        (\<exists>b. signed_for c trusted (binaryKey sha) b \<and> file w' (release_path d sha) = Some b)"
    and "linked w' (join_path [d, ''current'']) = linked w (join_path [d, ''current'']) \<or>
      (\<exists>sha. releaseName sha \<and> linked w' (join_path [d, ''current'']) = Some (sha @ ''/garage'') \<and>
         file w' (release_path d sha) \<noteq> None)"
  shows "updated c trusted d file linked w w'"
  using assms by (simp add: updated_def)

lemma updatedD:
  assumes "updated c trusted d file linked w w'"
  shows "only_current_linked d linked w'"
    and "releaseName sha \<Longrightarrow> file w' (release_path d sha) = file w (release_path d sha) \<or>
        (\<exists>b. signed_for c trusted (binaryKey sha) b \<and> file w' (release_path d sha) = Some b)"
    and "linked w' (join_path [d, ''current'']) = linked w (join_path [d, ''current'']) \<or>
      (\<exists>sha. releaseName sha \<and> linked w' (join_path [d, ''current'']) = Some (sha @ ''/garage'') \<and>
         file w' (release_path d sha) \<noteq> None)"
  using assms by (simp_all add: updated_def)

lemma updated_trans:
  assumes "updated c trusted d file linked w1 w2" "updated c trusted d file linked w2 w3"
  shows "updated c trusted d file linked w1 w3"
proof (rule updatedI)
  show "only_current_linked d linked w3" by (rule updatedD(1)[OF assms(2)])
  fix sha assume "releaseName sha"
  then show "file w3 (release_path d sha) = file w1 (release_path d sha) \<or>
      (\<exists>b. signed_for c trusted (binaryKey sha) b \<and> file w3 (release_path d sha) = Some b)"
    using updatedD(2)[OF assms(1), of sha] updatedD(2)[OF assms(2), of sha] by auto
next
  have "file w3 (release_path d sha) \<noteq> None" if "releaseName sha" "file w2 (release_path d sha) \<noteq> None" for sha
    using updatedD(2)[OF assms(2), of sha] that by auto
  then show "linked w3 (join_path [d, ''current'']) = linked w1 (join_path [d, ''current'']) \<or>
      (\<exists>sha. releaseName sha \<and> linked w3 (join_path [d, ''current'']) = Some (sha @ ''/garage'') \<and>
         file w3 (release_path d sha) \<noteq> None)"
    using updatedD(3)[OF assms(1)] updatedD(3)[OF assms(2)] by auto
qed

lemma updated_elsewhere:
  assumes "d \<noteq> ''''" "only_current_linked d linked w"
    and "same_files (release_files d - {under d [''seen''], under d [''deployed'']}) file linked w w'"
    and "linked w' (under d [''seen'']) = None" "linked w' (under d [''deployed'']) = None"
  shows "updated c trusted d file linked w w'"
proof -
  note same = same_filesD[OF assms(3)]
  have "linked w' p = None" if "p \<in> release_files d" "p \<noteq> under d [''current'']" "p \<noteq> under d [''current.new'']" for p
    using same[of p] that assms(2,4,5) unfolding only_current_linked_def by (metis Diff_iff insert_iff singletonD)
  moreover have "file w' (under d [sha, ''garage'']) = file w (under d [sha, ''garage''])" if "releaseName sha" for sha
    using same[of "under d [sha, ''garage'']"] that releaseName_plain[OF that] by simp
  moreover have "linked w' (under d [''current'']) = linked w (under d [''current''])"
    using same[of "under d [''current'']"] by simp
  ultimately show ?thesis using release_places[OF assms(1)] by (simp add: updated_def only_current_linked_def)
qed

lemma only_current_linkedD:
  assumes "only_current_linked d linked w"
  shows "linked w (under d [''seen'']) = None" "linked w (under d [''deployed'']) = None"
    "releaseName sha \<Longrightarrow> linked w (under d [sha, ''garage'']) = None"
    "releaseName sha \<Longrightarrow> linked w (under d [sha, ''garage.new'']) = None"
  using assms releaseName_plain[of sha] unfolding only_current_linked_def by simp_all

lemma updated_same:
  assumes "d \<noteq> ''''" "only_current_linked d linked w" "same_files (release_files d) file linked w w'"
  shows "updated c trusted d file linked w w'"
proof (rule updated_elsewhere[OF assms(1,2)])
  show "same_files (release_files d - {under d [''seen''], under d [''deployed'']}) file linked w w'"
    by (rule same_files_mono[OF assms(3)]) blast
  show "linked w' (under d [''seen'']) = None" "linked w' (under d [''deployed'']) = None"
    using same_filesD[OF assms(3)] only_current_linkedD[OF assms(2)] by simp_all
qed

text \<open>One release: what fetching leaves, whether it succeeds or not.\<close>

lemma updated_release:
  assumes "d \<noteq> ''''" "releaseName sha" "only_current_linked d linked w"
    and "same_files (release_files d - {under d [sha, ''garage''], under d [sha, ''garage.new'']}) file linked w w'"
    and "linked w' (under d [sha, ''garage'']) = None" "linked w' (under d [sha, ''garage.new'']) = None"
    and "file w' (under d [sha, ''garage'']) = file w (under d [sha, ''garage'']) \<or>
      (\<exists>b. signed_for c trusted (binaryKey sha) b \<and> file w' (under d [sha, ''garage'']) = Some b)"
  shows "updated c trusted d file linked w w'"
proof -
  note same = same_filesD[OF assms(4)] and plain = releaseName_plain[OF assms(2)]
  have "linked w' p = None" if "p \<in> release_files d" "p \<noteq> under d [''current'']" "p \<noteq> under d [''current.new'']" for p
    using same[of p] that assms(3,5,6) unfolding only_current_linked_def by (metis Diff_iff insert_iff singletonD)
  moreover have "file w' (under d [s, ''garage'']) = file w (under d [s, ''garage'']) \<or>
      (\<exists>b. signed_for c trusted (binaryKey s) b \<and> file w' (under d [s, ''garage'']) = Some b)" if "releaseName s" for s
    using same[of "under d [s, ''garage'']"] that releaseName_plain[OF that] plain assms(7) by (cases "s = sha") auto
  moreover have "linked w' (under d [''current'']) = linked w (under d [''current''])"
    using same[of "under d [''current'']"] plain by simp
  ultimately show ?thesis using release_places[OF assms(1)] by (simp add: updated_def only_current_linked_def)
qed

lemma updated_link:
  assumes "files_documented m (release_files d) file linked" "d \<noteq> ''''" "releaseName sha" "only_current_linked d linked w"
    and "file w (under d [sha, ''garage'']) \<noteq> None"
    and "link m (sha @ ''/garage'') (under d [''current'']) w = (w', had, r)"
  shows "updated c trusted d file linked w w'"
    and "r = Inr () \<Longrightarrow> linked w' (under d [''current'']) = Some (sha @ ''/garage'')"
proof -
  let ?C = "under d [''current'']" and ?N = "under d [''current.new'']"
  have N: "?C @ ''.new'' = ?N" by (rule release_places[OF assms(2)])
  note lk = link_effect[OF assms(1) _ _ assms(6), unfolded N, simplified]
  note same = same_filesD[OF lk(1)]
  have "linked w' p = None" if "p \<in> release_files d" "p \<noteq> ?C" "p \<noteq> ?N" for p
    using same[of p] that assms(4) unfolding only_current_linked_def by simp
  moreover have f: "file w' (under d [s, ''garage'']) = file w (under d [s, ''garage''])" if "releaseName s" for s
    using same[of "under d [s, ''garage'']"] that releaseName_plain[OF that] by simp
  moreover have "linked w' ?C = linked w ?C \<or> releaseName sha \<and> linked w' ?C = Some (sha @ ''/garage'') \<and>
      file w' (under d [sha, ''garage'']) \<noteq> None"
    using lk(2) f[OF assms(3)] assms(3,5) by auto
  ultimately show "updated c trusted d file linked w w'"
    using release_places[OF assms(2)] unfolding updated_def only_current_linked_def by auto
  show "r = Inr () \<Longrightarrow> linked w' ?C = Some (sha @ ''/garage'')" using lk(3) .
qed

lemma install_effect:
  fixes s s' :: "('s, 'w) site"
  assumes "files_documented m (release_files d) file linked" "help_only_prints m (release_files d) file linked"
    and "object_store (ca_store c) view" "d \<noteq> ''''" "only_current_linked d linked (st_world s)"
    and "install quote c m d sha s = (s', r)"
  shows "same_identity (st_client s) (st_client s')"
    and "updated c (cl_trusted (st_client s)) d file linked (st_world s) (st_world s')"
    and "file (st_world s') (under d [''seen'']) = file (st_world s) (under d [''seen''])"
    and "r = Inr () \<Longrightarrow> releaseName sha \<and> linked (st_world s') (under d [''current'']) = Some (sha @ ''/garage'')"
proof -
  let ?P = "release_files d" and ?R = "under d [sha, ''garage'']" and ?N = "under d [sha, ''garage.new'']"
  let ?upd = "updated c (cl_trusted (st_client s)) d file linked" and ?S = "under d [''seen'']"
  have stays: "?upd (st_world s) (st_world s)" by (rule updated_same[OF assms(4,5)]) simp
  have "same_identity (st_client s) (st_client s') \<and> ?upd (st_world s) (st_world s') \<and>
    file (st_world s') ?S = file (st_world s) ?S \<and>
    (r = Inr () \<longrightarrow> releaseName sha \<and> linked (st_world s') (under d [''current'']) = Some (sha @ ''/garage''))"
  proof (cases "releaseName sha")
    case False
    then show ?thesis using assms(6) stays by (auto simp: install_def)
  next
    case sha: True
    have plain: "plain_element sha" by (rule releaseName_plain[OF sha])
    have places: "release_path d sha = ?R" "?R @ ''.new'' = ?N" "?R \<in> ?P" "?N \<in> ?P" "?R \<noteq> ?N"
      using release_places[OF assms(4)] sha plain by simp_all
    note lR = only_current_linkedD(3,4)[OF assms(5) sha]
    let ?got = "case os_Stat (mx_host m) ?R (st_world s) of None \<Rightarrow> (s, Inr ())
      | Some e \<Rightarrow> if err_is e Host.ErrNotExist then fetch_release c m d sha s else (s, Inl e)"
    have got: "same_identity (st_client s) (st_client s1) \<and> ?upd (st_world s) (st_world s1) \<and>
        file (st_world s1) ?S = file (st_world s) ?S \<and> (q = Inr () \<longrightarrow> file (st_world s1) ?R \<noteq> None)"
      if "?got = (s1, q)" for s1 q
    proof (cases "not_there m ?R (st_world s)")
      case True
      then have "fetch_release c m d sha s = (s1, q)"
        using that by (cases "os_Stat (mx_host m) ?R (st_world s)") (simp_all add: not_there_def)
      note eff = fetch_release_effect[OF assms(1,2) places(3-5) assms(3) places(1,2) lR this]
      have "same_files (?P - {?R, ?N}) file linked (st_world s) (st_world s1)"
        "linked (st_world s1) ?R = None" "linked (st_world s1) ?N = None"
        "file (st_world s1) ?R = file (st_world s) ?R \<or>
          (\<exists>b. signed_for c (cl_trusted (st_client s)) (binaryKey sha) b \<and> file (st_world s1) ?R = Some b)"
        "q = Inr () \<longrightarrow> file (st_world s1) ?R \<noteq> None" using eff(2) by (auto simp: fetching_def)
      then show ?thesis
        using updated_release[OF assms(4) sha assms(5)] eff(1) same_filesD[of "?P - {?R, ?N}" "file" linked _ _ ?S] plain by simp
    next
      case False
      show ?thesis
      proof (cases "os_Stat (mx_host m) ?R (st_world s)")
        case None
        then have "s1 = s" using that by simp
        then show ?thesis using stays doc_Stat[OF assms(1) places(3) lR(1) None] by simp
      next
        case (Some e)
        then have "s1 = s" "q = Inl e" using that False by (simp_all add: not_there_def)
        then show ?thesis using stays by simp
      qed
    qed
    have "try_then ?got (\<lambda>_. on_disk (\<lambda>w. case link m (sha @ ''/garage'') (join_path [d, ''current'']) w of (w1, had, r) \<Rightarrow> (w1, r)))
        = (s', r)"
      using assms(6) sha by (simp add: install_def places(1))
    then show ?thesis
    proof (cases rule: try_thenE)
      case (fails x e)
      then show ?thesis using got[OF fails(1)] by simp
    next
      case (goes_on s1 u)
      note s1 = got[OF goes_on(1)]
      obtain w had where w: "link m (sha @ ''/garage'') (under d [''current'']) (st_world s1) = (w, had, r)" "s' = s1\<lparr>st_world := w\<rparr>"
        using goes_on(2) release_places(2)[OF assms(4)] by (auto elim!: on_diskE split: prod.splits)
      have o: "only_current_linked d linked (st_world s1)" "file (st_world s1) ?R \<noteq> None"
        using s1 updatedD(1) by auto
      note lk = updated_link[OF assms(1,4) sha o w(1)]
      have "file w ?S = file (st_world s1) ?S"
        using same_filesD[OF link_effect(1)[OF assms(1) _ _ w(1)], of ?S] release_places(4)[OF assms(4)] by simp
      then show ?thesis using s1 lk updated_trans[OF _ lk(1)] w(2) sha by auto
    qed
  qed
  then show "same_identity (st_client s) (st_client s')" "?upd (st_world s) (st_world s')"
    "file (st_world s') ?S = file (st_world s) ?S"
    "r = Inr () \<Longrightarrow> releaseName sha \<and> linked (st_world s') (under d [''current'']) = Some (sha @ ''/garage'')" by blast+
qed

lemma Update_effect:
  fixes s s' :: "('s, 'w) site"
  assumes "files_documented m (release_files d) file linked" "help_only_prints m (release_files d) file linked"
    and "object_store (ca_store c) view" "d \<noteq> ''''" "only_current_linked d linked (st_world s)"
    and "Update quote c m d s = (s', r)"
  shows "same_identity (st_client s) (st_client s')"
    and "updated c (cl_trusted (st_client s)) d file linked (st_world s) (st_world s')"
    and "r = Inr sha \<Longrightarrow> sha \<noteq> '''' \<Longrightarrow> releaseName sha \<and> file (st_world s') (under d [''seen'']) = Some sha \<and>
      linked (st_world s') (under d [''current'']) = Some (sha @ ''/garage'')"
proof -
  let ?P = "release_files d" and ?S = "under d [''seen'']" and ?w = "st_world s"
  let ?upd = "updated c (cl_trusted (st_client s)) d file linked" and ?id = "same_identity (st_client s)"
  let ?goal = "?id (st_client s') \<and> ?upd ?w (st_world s') \<and>
    (r = Inr sha \<longrightarrow> sha \<noteq> '''' \<longrightarrow> releaseName sha \<and> file (st_world s') ?S = Some sha \<and>
      linked (st_world s') (under d [''current'']) = Some (sha @ ''/garage''))"
  have stays: "?upd ?w ?w" by (rule updated_same[OF assms(4,5)]) simp
  define is_first where "is_first = (case os_ReadFile m ?S ?w of Inl e \<Rightarrow> err_is e Host.ErrNotExist | Inr b \<Rightarrow> False)"
  note upd = assms(6)[unfolded Update_def Let_def release_places(1)[OF assms(4)], folded is_first_def]
  have ?goal
  proof (cases "case os_ReadFile m ?S ?w of Inl e \<Rightarrow> if is_first then Inr '''' else Inl e | Inr b \<Rightarrow> Inr b")
    case (Inl e)
    then have "s' = s" "r = Inl e" using upd by simp_all
    then show ?thesis using stays by simp
  next
    case (Inr before)
    show ?thesis using upd[unfolded Inr sum.case]
    proof (cases rule: try_thenE)
      case (fails x e)
      then have "st_world x = ?w \<and> ?id (st_client x)"
        by (cases "c_Get c currentKey s") (use c_Get_cases(1,2)[OF assms(3)] in \<open>fastforce split: sum.splits if_splits\<close>)
      then show ?thesis using stays fails by simp
    next
      case (goes_on s1 want)
      then have s1: "st_world s1 = ?w" "?id (st_client s1)"
        by (cases "c_Get c currentKey s", use c_Get_cases(1,2)[OF assms(3)] in \<open>fastforce split: sum.splits if_splits\<close>)+
      show ?thesis
      proof (cases "\<not> is_first \<and> want = before")
        case True
        then show ?thesis using goes_on(2) stays s1 by auto
      next
        case False
        have cont: "try_then (on_disk (mkdir_all m d) s1) (\<lambda>_ s2.
            try_then (on_disk (os_WriteFile m ?S want) s2) (\<lambda>_ s3.
              if is_first \<or> want = '''' \<or> want = Running m d (st_world s3) then (s3, Inr '''')
              else try_then (install quote c m d want s3) (\<lambda>_ s4. (s4, Inr want)))) = (s', r)"
          using goes_on(2) False by (simp only: if_False)
        show ?thesis using cont
        proof (cases rule: try_thenE)
          case (fails x e)
          then show ?thesis using s1 updated_same[OF assms(4,5) doc_MkdirAll[OF assms(1)]]
            by (auto elim!: on_diskE)
        next
          case (goes_on s2 u)
          then obtain w2 where w2: "mkdir_all m d ?w = (w2, Inr u)" "s2 = s1\<lparr>st_world := w2\<rparr>"
            using s1(1) by (auto elim!: on_diskE)
          note u2 = updated_same[OF assms(4,5) doc_MkdirAll[OF assms(1) w2(1)], of c "cl_trusted (st_client s)"]
          have wrote: "?upd ?w w3 \<and> (q = Inr () \<longrightarrow> file w3 ?S = Some want)" if "os_WriteFile m ?S want w2 = (w3, q)" for w3 q
          proof -
            note only2 = updatedD(1)[OF u2]
            note d3 = doc_WriteFile[OF assms(1) _ only_current_linkedD(1)[OF only2] that, simplified]
            have "?upd w2 w3"
            proof (rule updated_elsewhere[OF assms(4) only2])
              show "same_files (?P - {?S, under d [''deployed'']}) file linked w2 w3"
                by (rule same_files_mono[OF d3[THEN conjunct1]]) blast
              show "linked w3 ?S = None" using d3 by simp
              show "linked w3 (under d [''deployed'']) = None"
                using same_filesD[OF d3[THEN conjunct1], of "under d [''deployed'']"] only_current_linkedD(2)[OF only2] by simp
            qed
            then show ?thesis using updated_trans[OF u2] d3 by simp
          qed
          show ?thesis using goes_on(2)
          proof (cases rule: try_thenE)
            case (fails x e)
            then show ?thesis using wrote w2(2) s1(2) by (auto elim!: on_diskE)
          next
            case (goes_on s3 u3)
            then have s3: "?upd ?w (st_world s3)" "file (st_world s3) ?S = Some want" "?id (st_client s3)"
              using wrote w2(2) s1(2) by (auto elim!: on_diskE)
            show ?thesis
            proof (cases "is_first \<or> want = '''' \<or> want = Running m d (st_world s3)")
              case True
              then show ?thesis using goes_on(2) s3 by auto
            next
              case False
              have "try_then (install quote c m d want s3) (\<lambda>_ s4. (s4, Inr want)) = (s', r)"
                using goes_on(2) False by (simp only: if_False)
              then obtain q where q: "install quote c m d want s3 = (s', q)" "r = (case q of Inl e \<Rightarrow> Inl e | Inr u \<Rightarrow> Inr want)"
                by (cases "install quote c m d want s3") (auto simp: try_then_def split: sum.splits)
              have same: "cl_trusted (st_client s3) = cl_trusted (st_client s)" using s3(3) by (simp add: same_identity_def)
              note eff = install_effect[OF assms(1-4) updatedD(1)[OF s3(1)] q(1), unfolded same]
              show ?thesis using eff s3 q(2) same_identity_trans[OF s3(3) eff(1)] updated_trans[OF s3(1) eff(2)]
                by (auto split: sum.splits)
            qed
          qed
        qed
      qed
    qed
  qed
  then show "same_identity (st_client s) (st_client s')" "?upd ?w (st_world s')"
    "r = Inr sha \<Longrightarrow> sha \<noteq> '''' \<Longrightarrow> releaseName sha \<and> file (st_world s') ?S = Some sha \<and>
      linked (st_world s') (under d [''current'']) = Some (sha @ ''/garage'')" by blast+
qed

subsection \<open>Everything a host ever runs\<close>

text \<open>
  A host that looks for releases, over and over, in a bucket that anyone may change in any way
  between two looks. A look may end with any error, at any call.
\<close>

inductive host_step ::
  "(string \<Rightarrow> string) \<Rightarrow> 's caller \<Rightarrow> 'w machine \<Rightarrow> string \<Rightarrow> ('s, 'w) site \<Rightarrow> ('s, 'w) site \<Rightarrow> bool"
  for quote c m d where
  looks: "Update quote c m d s = (s', r) \<Longrightarrow> host_step quote c m d s s'"
| others: "host_step quote c m d s (s\<lparr>st_client := (st_client s)\<lparr>cl_store := x\<rparr>, st_waits := ws\<rparr>)"

lemma host_steps_update:
  assumes "files_documented m (release_files d) file linked" "help_only_prints m (release_files d) file linked"
    and "object_store (ca_store c) view" "d \<noteq> ''''" "only_current_linked d linked (st_world s)"
    and "(host_step quote c m d)\<^sup>*\<^sup>* s s'"
  shows "same_identity (st_client s) (st_client s') \<and>
    updated c (cl_trusted (st_client s)) d file linked (st_world s) (st_world s')"
  using assms(6)
proof induction
  case base
  show ?case by (intro conjI same_identity_refl updated_same[OF assms(4,5)] same_files_refl)
next
  case (step s1 s2)
  note id = step.IH[THEN conjunct1] and upd = step.IH[THEN conjunct2]
  have trusted: "cl_trusted (st_client s1) = cl_trusted (st_client s)" using id by (simp add: same_identity_def)
  show ?case using step.hyps(2)
  proof cases
    case (looks r)
    note eff = Update_effect[OF assms(1-4) updatedD(1)[OF upd] looks, unfolded trusted]
    show ?thesis using same_identity_trans[OF id eff(1)] updated_trans[OF upd eff(2)] by simp
  next
    case (others x ws)
    then show ?thesis using id upd by (simp add: same_identity_def)
  qed
qed

lemma binaryKey_nul_free: "releaseName sha \<Longrightarrow> nul_free (binaryKey sha)"
proof -
  assume "releaseName sha"
  then have "\<forall>c \<in> set sha. is_digit c \<or> (CHR ''a'' \<le> c \<and> c \<le> CHR ''f'')"
    by (auto simp: releaseName_def list_all_iff)
  moreover have "\<not> (is_digit CHR 0x00 \<or> (CHR ''a'' \<le> CHR 0x00 \<and> CHR 0x00 \<le> CHR ''f''))" by code_simp
  ultimately show ?thesis by (auto simp: binaryKey_def)
qed

text \<open>C29. A host runs only releases that were signed for it. However often it looks and whatever
  others put into the bucket meanwhile, with any call of any look failing: the file of a release is
  the one that was there at the start, or holds what a holder of a trusted key signed as that very
  release; and \<open>current\<close> points where it did, or at a release whose file is there.\<close>

theorem only_signed_releases_run:
  assumes "files_documented m (release_files d) file linked" "help_only_prints m (release_files d) file linked"
    and "object_store (ca_store c) view" "unforgeable (ca_crypto c) (cl_trusted (st_client s)) log" "\<forall>(k, b) \<in> log. nul_free k"
    and "d \<noteq> ''''" "only_current_linked d linked (st_world s)" "(host_step quote c m d)\<^sup>*\<^sup>* s s'" "releaseName sha"
  shows "file (st_world s') (release_path d sha) \<in>
      {file (st_world s) (release_path d sha)} \<union> {Some b |b. (binaryKey sha, b) \<in> log} \<and>
    linked (st_world s') (join_path [d, ''current'']) \<in> {linked (st_world s) (join_path [d, ''current''])} \<union>
      {Some (sha @ ''/garage'') |sha. releaseName sha \<and> file (st_world s') (release_path d sha) \<noteq> None}"
proof (intro conjI)
  note upd = host_steps_update[OF assms(1-3,6-8), THEN conjunct2]
  have signed: "(binaryKey sha, b) \<in> log" if s: "signed_for c (cl_trusted (st_client s)) (binaryKey sha) b" for b
  proof -
    obtain p sg where "p \<in> set (cl_trusted (st_client s))" "cr_verify (ca_crypto c) p (signed (binaryKey sha) b) sg"
      using s verify_signed_by unfolding signed_for_def by blast
    then obtain k b' where kb: "(k, b') \<in> log" "signed (binaryKey sha) b = signed k b'"
      using assms(4) unfolding unforgeable_def by blast
    have "nul_free k" using assms(5) kb(1) by auto
    then show ?thesis using signed_inj[OF binaryKey_nul_free[OF assms(9)]] kb by simp
  qed
  show "file (st_world s') (release_path d sha) \<in>
      {file (st_world s) (release_path d sha)} \<union> {Some b |b. (binaryKey sha, b) \<in> log}"
    using updatedD(2)[OF upd assms(9)] signed by auto
  show "linked (st_world s') (join_path [d, ''current'']) \<in> {linked (st_world s) (join_path [d, ''current''])} \<union>
      {Some (sha @ ''/garage'') |sha. releaseName sha \<and> file (st_world s') (release_path d sha) \<noteq> None}"
    using updatedD(3)[OF upd] by auto
qed

subsection \<open>A small disk\<close>

record disk =
  dk_files :: "(string \<times> string) list"
  dk_links :: "(string \<times> string) list"

definition demo_move :: "string \<Rightarrow> string \<Rightarrow> (string \<times> string) list \<Rightarrow> (string \<times> string) list" where
  "demo_move p q fs = (case map_of fs p of None \<Rightarrow> AList.delete q fs | Some x \<Rightarrow> AList.update q x (AList.delete p fs))"

definition demo_machine :: "disk machine" where
  "demo_machine = \<lparr>
     mx_host = \<lparr>os_MkdirAll = (\<lambda>p w. (w, None)), os_RemoveAll = (\<lambda>p w. (w, None)), os_ReadDir = (\<lambda>p w. (w, Inr [])),
       os_Stat = (\<lambda>p w. if map_of (dk_files w) p = None then Some Host.ErrNotExist else None),
       os_LookupEnv = (\<lambda>k. None),
       os_Run = (\<lambda>d env name args w. (w, \<lparr>ps_Stdout = '''', ps_Stderr = '''', ps_Err = None, ps_ExitCode = 0\<rparr>))\<rparr>,
     os_ReadFile = (\<lambda>p w. case map_of (dk_files w) p of None \<Rightarrow> Inl Host.ErrNotExist | Some s \<Rightarrow> Inr s),
     os_WriteFile = (\<lambda>p s w. (w\<lparr>dk_files := AList.update p s (dk_files w)\<rparr>, Inr ())),
     os_Readlink = (\<lambda>p w. case map_of (dk_links w) p of None \<Rightarrow> Inl (Opaque ''not a link'') | Some t \<Rightarrow> Inr t),
     os_Symlink = (\<lambda>t p w. (w\<lparr>dk_links := AList.update p t (dk_links w)\<rparr>, Inr ())),
     os_Remove = (\<lambda>p w. w\<lparr>dk_files := AList.delete p (dk_files w), dk_links := AList.delete p (dk_links w)\<rparr>),
     os_Rename = (\<lambda>p q w. (w\<lparr>dk_files := demo_move p q (dk_files w), dk_links := demo_move p q (dk_links w)\<rparr>, Inr ())),
     os_Chmod = (\<lambda>p w. (w, Inr ())), os_MkdirTemp = (\<lambda>p w. (w, Inr ''/tmp/backup'')),
     os_CombinedOutput = (\<lambda>p args w. (w, '''', None))\<rparr>"

abbreviation demo_file :: "disk \<Rightarrow> string \<Rightarrow> string option" where "demo_file w \<equiv> map_of (dk_files w)"
abbreviation demo_link :: "disk \<Rightarrow> string \<Rightarrow> string option" where "demo_link w \<equiv> map_of (dk_links w)"

lemma demo_move_simp: "p \<noteq> q \<Longrightarrow> map_of (demo_move p q fs) = (map_of fs)(p := None, q := map_of fs p)"
  by (auto simp: demo_move_def fun_eq_iff split: option.splits)

lemma demo_machine_documented:
  "files_documented demo_machine P demo_file demo_link" "help_only_prints demo_machine P demo_file demo_link"
proof -
  show "files_documented demo_machine P demo_file demo_link"
    unfolding files_documented_def
    by (intro conjI ballI allI impI) (auto simp: demo_machine_def mkdir_all_def from_err_def not_there_def same_files_def
      demo_move_simp split: option.splits if_splits)
  show "help_only_prints demo_machine P demo_file demo_link"
    by (simp add: help_only_prints_def demo_machine_def)
qed

definition demo_release_crypto :: crypto where
  "demo_release_crypto = demo_crypto\<lparr>cr_verify :=
     (\<lambda>p m sg. m = signed (binaryKey ''abcdef1'') ''bin'' \<or> m = signed currentKey ''abcdef1'')\<rparr>"

definition demo_caller :: "fake caller" where
  "demo_caller = \<lparr>ca_store = fake_store, ca_crypto = demo_release_crypto, ca_name = ''mail''\<rparr>"

definition demo_published :: "(fake, disk) site" where
  "demo_published = fst (Publish id demo_caller ''abcdef1'' ''bin''
     \<lparr>st_client = demo_client ''k'' [], st_waits = [], st_world = \<lparr>dk_files = [(''/r/seen'', '''')], dk_links = []\<rparr>\<rparr>)"

definition demo_looked :: "(fake, disk) site" where
  "demo_looked = fst (Update id demo_caller demo_machine ''/r'' demo_published)"

lemma demo_world: "st_world demo_published = \<lparr>dk_files = [(''/r/seen'', '''')], dk_links = []\<rparr>"
  by code_simp

lemma demo_looked_release: "demo_file (st_world demo_looked) (release_path ''/r'' ''abcdef1'') = Some ''bin''"
  "demo_link (st_world demo_looked) ''/r/current'' = Some ''abcdef1/garage''"
  by code_simp+

lemma demo_only_current: "only_current_linked d demo_link \<lparr>dk_files = fs, dk_links = []\<rparr>"
  by (simp add: only_current_linked_def)

theorem only_signed_releases_run_witness:
  "demo_file (st_world demo_looked) (release_path ''/r'' ''abcdef1'') = Some ''bin'' \<and>
   demo_file (st_world demo_looked) (release_path ''/r'' ''abcdef1'') \<in>
     {demo_file (st_world demo_published) (release_path ''/r'' ''abcdef1'')} \<union>
     {Some b |b. (binaryKey ''abcdef1'', b) \<in> {(binaryKey ''abcdef1'', ''bin''), (currentKey, ''abcdef1'')}}"
proof (rule conjI[OF demo_looked_release(1)], rule only_signed_releases_run[THEN conjunct1])
  show "files_documented demo_machine (release_files ''/r'') demo_file demo_link"
    "help_only_prints demo_machine (release_files ''/r'') demo_file demo_link" by (rule demo_machine_documented)+
  show "object_store (ca_store demo_caller) fake_view" by (simp add: demo_caller_def fake.object_store_axioms)
  show "unforgeable (ca_crypto demo_caller) (cl_trusted (st_client demo_published))
      {(binaryKey ''abcdef1'', ''bin''), (currentKey, ''abcdef1'')}"
    by (auto simp: unforgeable_def demo_caller_def demo_release_crypto_def)
  show "\<forall>(k, b) \<in> {(binaryKey ''abcdef1'', ''bin''), (currentKey, ''abcdef1'')}. nul_free k"
    by (simp add: binaryKey_def currentKey_def)
  show "only_current_linked ''/r'' demo_link (st_world demo_published)"
    unfolding demo_world by (rule demo_only_current)
  show "(host_step id demo_caller demo_machine ''/r'')\<^sup>*\<^sup>* demo_published demo_looked"
    by (rule r_into_rtranclp, rule host_step.looks[where r = "snd (Update id demo_caller demo_machine ''/r'' demo_published)"])
       (simp add: demo_looked_def)
  show "releaseName ''abcdef1''" by code_simp
qed simp

end
