(* ===== verification/Rollout.thy ===== *)
theory Rollout
  imports Hosting
begin

section \<open>Releases: from the laptop to the host\<close>

text \<open>
  When nothing fails: a release that was published is installed by the next look, once. And of what
  \<open>Deploy\<close> puts into the bucket, that it was tested at a merged commit.
\<close>

subsection \<open>Disks and buckets that work\<close>

definition disk_works ::
  "'w machine \<Rightarrow> string set \<Rightarrow> ('w \<Rightarrow> string \<Rightarrow> string option) \<Rightarrow> ('w \<Rightarrow> string \<Rightarrow> string option) \<Rightarrow> bool" where
  "disk_works m P file linked =
    ((\<forall>p w. snd (mkdir_all m p w) = Inr ()) \<and>
     (\<forall>p \<in> P. \<forall>w. linked w p = None \<longrightarrow> (case file w p of
        None \<Rightarrow> not_there m p w
      | Some s \<Rightarrow> os_ReadFile m p w = Inr s \<and> os_Stat (mx_host m) p w = None)) \<and>
     (\<forall>p \<in> P. \<forall>w t. linked w p = Some t \<longrightarrow> os_Readlink m p w = Inr t) \<and>
     (\<forall>p \<in> P. \<forall>s w. linked w p = None \<longrightarrow> snd (os_WriteFile m p s w) = Inr ()) \<and>
     (\<forall>p \<in> P. \<forall>t w. snd (os_Symlink m t p (os_Remove m p w)) = Inr ()) \<and>
     (\<forall>p \<in> P. \<forall>q \<in> P. \<forall>w. p \<noteq> q \<longrightarrow> file w p \<noteq> None \<or> linked w p \<noteq> None \<longrightarrow> snd (os_Rename m p q w) = Inr ()))"

lemma disk_worksD:
  assumes "disk_works m P file linked"
  shows works_MkdirAll: "\<exists>w1. mkdir_all m p w = (w1, Inr ())"
    and works_ReadFile: "p \<in> P \<Longrightarrow> linked w p = None \<Longrightarrow> file w p = Some s \<Longrightarrow> os_ReadFile m p w = Inr s"
    and works_Stat: "p \<in> P \<Longrightarrow> linked w p = None \<Longrightarrow> file w p = Some s \<Longrightarrow> os_Stat (mx_host m) p w = None"
    and works_not_there: "p \<in> P \<Longrightarrow> linked w p = None \<Longrightarrow> file w p = None \<Longrightarrow> not_there m p w"
    and works_Readlink: "p \<in> P \<Longrightarrow> linked w p = Some t \<Longrightarrow> os_Readlink m p w = Inr t"
    and works_WriteFile: "p \<in> P \<Longrightarrow> linked w p = None \<Longrightarrow> \<exists>w1. os_WriteFile m p b w = (w1, Inr ())"
    and works_Symlink: "p \<in> P \<Longrightarrow> \<exists>w1. os_Symlink m t p (os_Remove m p w) = (w1, Inr ())"
    and works_Rename: "p \<in> P \<Longrightarrow> q \<in> P \<Longrightarrow> p \<noteq> q \<Longrightarrow> file w p \<noteq> None \<or> linked w p \<noteq> None \<Longrightarrow>
      \<exists>w1. os_Rename m p q w = (w1, Inr ())"
proof -
  note d = assms[unfolded disk_works_def]
  show "\<exists>w1. mkdir_all m p w = (w1, Inr ())" using d by (metis prod.exhaust_sel)
  have read: "case file w p of None \<Rightarrow> not_there m p w
      | Some s \<Rightarrow> os_ReadFile m p w = Inr s \<and> os_Stat (mx_host m) p w = None" if "p \<in> P" "linked w p = None"
    using d that by blast
  show "p \<in> P \<Longrightarrow> linked w p = None \<Longrightarrow> file w p = Some s \<Longrightarrow> os_ReadFile m p w = Inr s"
    "p \<in> P \<Longrightarrow> linked w p = None \<Longrightarrow> file w p = Some s \<Longrightarrow> os_Stat (mx_host m) p w = None"
    "p \<in> P \<Longrightarrow> linked w p = None \<Longrightarrow> file w p = None \<Longrightarrow> not_there m p w" using read by simp_all
  show "p \<in> P \<Longrightarrow> linked w p = Some t \<Longrightarrow> os_Readlink m p w = Inr t" using d by blast
  show "p \<in> P \<Longrightarrow> linked w p = None \<Longrightarrow> \<exists>w1. os_WriteFile m p b w = (w1, Inr ())" using d by (metis prod.exhaust_sel)
  show "p \<in> P \<Longrightarrow> \<exists>w1. os_Symlink m t p (os_Remove m p w) = (w1, Inr ())" using d by (metis prod.exhaust_sel)
  show "p \<in> P \<Longrightarrow> q \<in> P \<Longrightarrow> p \<noteq> q \<Longrightarrow> file w p \<noteq> None \<or> linked w p \<noteq> None \<Longrightarrow>
      \<exists>w1. os_Rename m p q w = (w1, Inr ())" using d by (metis prod.exhaust_sel)
qed

lemma try_then_Inr [simp]: "try_then (x, Inr a) f = f a x"
  by (simp add: try_then_def)

lemma on_disk_eq: "f (st_world s) = (w, r) \<Longrightarrow> on_disk f s = (s\<lparr>st_world := w\<rparr>, r)"
  by (simp add: on_disk_def)

text \<open>A link is made, whatever was there.\<close>

lemma link_works:
  assumes "disk_works m P file linked" "files_documented m P file linked" "p \<in> P" "p @ ''.new'' \<in> P"
  obtains w' had where "link m t p w = (w', had, Inr ())"
proof (cases "os_Readlink m p w = Inr t")
  case True
  then show thesis using that[of w False] by (simp add: link_def)
next
  case False
  obtain w1 where w1: "mkdir_all m (dir p) w = (w1, Inr ())" using works_MkdirAll[OF assms(1)] by blast
  obtain w2 where w2: "os_Symlink m t (p @ ''.new'') (os_Remove m (p @ ''.new'') w1) = (w2, Inr ())"
    using works_Symlink[OF assms(1,4)] by blast
  then have "linked w2 (p @ ''.new'') \<noteq> None" using doc_Symlink[OF assms(2,4) w2] by simp
  then obtain w3 where "os_Rename m (p @ ''.new'') p w2 = (w3, Inr ())"
    using works_Rename[OF assms(1,4,3)] by fastforce
  then show thesis using that False w1 w2 by (simp add: link_def)
qed

text \<open>A release is fetched, if it runs here.\<close>

lemma fetch_release_works:
  fixes s :: "('s, 'w) site"
  assumes "disk_works m P file linked" "files_documented m P file linked" "help_only_prints m P file linked"
    and "R \<in> P" "N \<in> P" "R \<noteq> N" "release_path d sha = R" "R @ ''.new'' = N"
    and "linked (st_world s) R = None" "linked (st_world s) N = None"
    and "c_Get c (binaryKey sha) s = (s1, Inr ob)" "st_world s1 = st_world s"
    and "\<And>w. file w N = Some (o_Body ob) \<Longrightarrow> snd (snd (os_CombinedOutput m N [''help''] w)) = None"
  obtains w where "fetch_release c m d sha s = (s1\<lparr>st_world := w\<rparr>, Inr ())" "file w R = Some (o_Body ob)"
    "same_files (P - {R, N}) file linked (st_world s) w" "linked w R = None" "linked w N = None"
proof -
  note steps = fetching_steps[OF assms(2-6)]
  have w0: "fetching P file linked R N (st_world s) (st_world s)" using assms(9,10) by (simp add: fetching_def)
  obtain w1 where w1: "mkdir_all m (dir R) (st_world s) = (w1, Inr ())" using works_MkdirAll[OF assms(1)] by blast
  note f1 = steps(1)[OF w0 w1]
  have "linked w1 N = None" using f1 by (simp add: fetching_def)
  then obtain w2 where w2: "os_WriteFile m N (o_Body ob) w1 = (w2, Inr ())" using works_WriteFile[OF assms(1,5)] by blast
  have f2: "fetching P file linked R N (st_world s) w2" "file w2 N = Some (o_Body ob)" using steps(2)[OF f1 w2] by simp_all
  obtain w3 out where w3: "os_CombinedOutput m N [''help''] w2 = (w3, out, None)"
    using assms(13)[OF f2(2)] by (metis prod.exhaust_sel)
  have f3: "fetching P file linked R N (st_world s) w3" "file w3 N = Some (o_Body ob)" using steps(3)[OF f2(1) w3] f2(2) by simp_all
  obtain w4 where w4: "os_Rename m N R w3 = (w4, Inr ())" using works_Rename[OF assms(1,5,4)] assms(6) f3(2) by blast
  note f4 = steps(6)[OF f3(1) w4]
  have "fetch_release c m d sha s = (s1\<lparr>st_world := w4\<rparr>, Inr ())"
    unfolding fetch_release_def Let_def assms(7,8,11) try_then_Inr
    using w1 w2 w3 w4 assms(12) by (simp add: on_disk_def)
  then show thesis using that[of w4] f4 f3(2) by simp
qed

subsection \<open>Publishing\<close>

abbreviation objects :: "('s \<Rightarrow> string \<Rightarrow> object option) \<Rightarrow> ('s, 'w) site \<Rightarrow> string \<Rightarrow> object option" where
  "objects view s \<equiv> view (cl_store (st_client s))"

text \<open>What every operation in the bucket keeps when no wait fails.\<close>

definition same_side :: "('s, 'w) site \<Rightarrow> ('s, 'w) site \<Rightarrow> bool" where
  "same_side s s' = (st_waits s' = [] \<and> st_world s' = st_world s \<and> same_identity (st_client s) (st_client s'))"

lemma same_side_trans: "same_side a b \<Longrightarrow> same_side b c \<Longrightarrow> same_side a c"
  by (auto simp: same_side_def same_identity_def)

lemma in_bucket_None:
  assumes "st_waits s = []" "f c None (st_client s) = (cl, r)" "same_identity (st_client s) cl"
  obtains s' where "in_bucket f c s = (s', r)" "same_side s s'" "st_client s' = cl"
  using assms that[of "s\<lparr>st_client := cl, st_waits := []\<rparr>"] by (simp add: in_bucket_def next_wait_def same_side_def)

lemma c_Get_there:
  assumes "exact_store (ca_store c) view" "st_waits s = []" "objects view s key = Some ob"
    and "verify (ca_crypto c) (cl_trusted (st_client s)) key ob"
  obtains s' where "c_Get c key s = (s', Inr ob)" "same_side s s'" "objects view s' = objects view s"
proof -
  obtain cl where cl: "view (cl_store cl) = objects view s" "same_identity (st_client s) cl"
    "Caller_Get (ca_store c) (ca_crypto c) (ca_name c) None key (st_client s) =
      (cl, if verify (ca_crypto c) (cl_trusted (st_client s)) key ob then Inr ob else Inl (Wrap (key @ '': '') ErrBadSignature ''''))"
    by (rule exact_store.Get_there[OF assms(1,3)])
  obtain s' where "c_Get c key s = (s', Inr ob)" "same_side s s'" "st_client s' = cl"
    unfolding c_Get_def
    by (rule in_bucket_None[where f = "\<lambda>c w. Caller_Get (ca_store c) (ca_crypto c) (ca_name c) w key",
      OF assms(2) cl(3)[unfolded if_P[OF assms(4)]] cl(2)])
  then show thesis using that cl(1) by simp
qed

lemma c_Get_gone:
  assumes "exact_store (ca_store c) view" "st_waits s = []" "objects view s key = None"
  obtains s' e where "c_Get c key s = (s', Inl e)" "err_is e ErrNotFound" "same_side s s'" "objects view s' = objects view s"
proof -
  obtain cl e where cl: "view (cl_store cl) = objects view s" "same_identity (st_client s) cl" "err_is e ErrNotFound"
    "Caller_Get (ca_store c) (ca_crypto c) (ca_name c) None key (st_client s) = (cl, Inl e)"
    by (rule exact_store.Get_gone[OF assms(1,3)])
  obtain s' where "c_Get c key s = (s', Inl e)" "same_side s s'" "st_client s' = cl"
    unfolding c_Get_def by (rule in_bucket_None[where f = "\<lambda>c w. Caller_Get (ca_store c) (ca_crypto c) (ca_name c) w key",
      OF assms(2) cl(4,2)])
  then show thesis using that cl(1,3) by simp
qed

lemma put_works:
  assumes "exact_store st view" "cond_holds cd (view (cl_store c) key)"
  obtains c' t where "Caller_put st cr name None key body cd c = (c', Inr t)" "same_identity c c'"
    "view (cl_store c') = (view (cl_store c))(key \<mapsto> sealed cr (cl_key c) key body t)"
proof -
  note exact = exact_store.Put_exact[OF assms(1)] and store = exact_store.axioms(1)[OF assms(1)]
  obtain s' t where p: "s_Put st (cl_store c) key (sealed cr (cl_key c) key body '''') cd = (s', Inr t)"
    using exact[OF assms(2)] by blast
  have put: "Caller_put st cr name None key body cd c = ((count True c)\<lparr>cl_store := s'\<rparr>, Inr t)"
    using p by (simp add: Caller_put_eq)
  show thesis using that[OF put] object_store.put_cases(1,2)[OF store put] by simp
qed

lemma point_works:
  assumes "exact_store (ca_store c) view" "st_waits s = []"
    and "\<And>ob. objects view s currentKey = Some ob \<Longrightarrow> verify (ca_crypto c) (cl_trusted (st_client s)) currentKey ob"
  obtains s' t where "point c sha s = (s', Inr ())" "same_side s s'"
    "objects view s' = (objects view s)(currentKey \<mapsto> sealed (ca_crypto c) (cl_key (st_client s)) currentKey sha t)"
proof (cases "objects view s currentKey")
  case None
  obtain s1 e where s1: "c_Get c currentKey s = (s1, Inl e)" "err_is e ErrNotFound" "same_side s s1" "objects view s1 = objects view s"
    by (rule c_Get_gone[OF assms(1,2) None])
  have free: "cond_holds \<lparr>IfNoneMatch = True, IfMatch = ''''\<rparr> (objects view s1 currentKey)" using s1(4) None by simp
  obtain cl t where cl: "Caller_put (ca_store c) (ca_crypto c) (ca_name c) None currentKey sha \<lparr>IfNoneMatch = True, IfMatch = ''''\<rparr>
      (st_client s1) = (cl, Inr t)" "same_identity (st_client s1) cl"
    "view (cl_store cl) = (objects view s1)(currentKey \<mapsto> sealed (ca_crypto c) (cl_key (st_client s1)) currentKey sha t)"
    by (rule put_works[OF assms(1) free])
  have w1: "st_waits s1 = []" using s1(3) by (simp add: same_side_def)
  have create: "Caller_Create (ca_store c) (ca_crypto c) (ca_name c) None currentKey sha (st_client s1) = (cl, Inr t)"
    using cl(1) by (simp add: Caller_Create_def)
  obtain s2 where s2: "c_Create c currentKey sha s1 = (s2, Inr t)" "same_side s1 s2" "st_client s2 = cl"
    unfolding c_Create_def
    by (rule in_bucket_None[where f = "\<lambda>c w. Caller_Create (ca_store c) (ca_crypto c) (ca_name c) w currentKey sha",
      OF w1 create cl(2)])
  have "cl_key (st_client s1) = cl_key (st_client s)" using s1(3) by (simp add: same_side_def same_identity_def)
  then show thesis using that[of s2 t] same_side_trans[OF s1(3) s2(2)] s1 s2 cl(3) by (simp add: point_def)
next
  case (Some ob)
  obtain s1 where s1: "c_Get c currentKey s = (s1, Inr ob)" "same_side s s1" "objects view s1 = objects view s"
    by (rule c_Get_there[OF assms(1,2) Some assms(3)[OF Some]])
  have there: "cond_holds \<lparr>IfNoneMatch = False, IfMatch = o_ETag ob\<rparr> (objects view s1 currentKey)"
    using s1(3) Some by (simp add: cond_holds_def)
  obtain cl t where cl: "Caller_put (ca_store c) (ca_crypto c) (ca_name c) None currentKey sha
      \<lparr>IfNoneMatch = False, IfMatch = o_ETag ob\<rparr> (st_client s1) = (cl, Inr t)" "same_identity (st_client s1) cl"
    "view (cl_store cl) = (objects view s1)(currentKey \<mapsto> sealed (ca_crypto c) (cl_key (st_client s1)) currentKey sha t)"
    by (rule put_works[OF assms(1) there])
  have w1: "st_waits s1 = []" using s1(2) by (simp add: same_side_def)
  have swap: "Caller_Swap (ca_store c) (ca_crypto c) (ca_name c) None currentKey sha (o_ETag ob) (st_client s1) = (cl, Inr t)"
    using cl(1) by (simp add: Caller_Swap_def)
  obtain s2 where s2: "c_Swap c currentKey sha (o_ETag ob) s1 = (s2, Inr t)" "same_side s1 s2" "st_client s2 = cl"
    unfolding c_Swap_def
    by (rule in_bucket_None[where f = "\<lambda>c w. Caller_Swap (ca_store c) (ca_crypto c) (ca_name c) w currentKey sha (o_ETag ob)",
      OF w1 swap cl(2)])
  have "cl_key (st_client s1) = cl_key (st_client s)" using s1(2) by (simp add: same_side_def same_identity_def)
  then show thesis using that[of s2 t] same_side_trans[OF s1(2) s2(2)] s1 s2 cl(3) by (simp add: point_def)
qed

lemma keys_differ [simp]: "currentKey \<noteq> binaryKey sha" "binaryKey sha \<noteq> currentKey"
proof -
  have "last (binaryKey sha) = CHR ''e''" "last currentKey = CHR ''t''" by (simp_all add: binaryKey_def currentKey_def)
  then show "currentKey \<noteq> binaryKey sha" by auto
  then show "binaryKey sha \<noteq> currentKey" by simp
qed

lemma c_Put_works:
  assumes "exact_store (ca_store c) view" "st_waits s = []"
  obtains s' t where "c_Put c key body s = (s', Inr t)" "same_side s s'"
    "objects view s' = (objects view s)(key \<mapsto> sealed (ca_crypto c) (cl_key (st_client s)) key body t)"
proof -
  have free: "cond_holds no_cond (objects view s key)" by simp
  obtain cl t where cl: "Caller_put (ca_store c) (ca_crypto c) (ca_name c) None key body no_cond (st_client s) = (cl, Inr t)"
    "same_identity (st_client s) cl"
    "view (cl_store cl) = (objects view s)(key \<mapsto> sealed (ca_crypto c) (cl_key (st_client s)) key body t)"
    by (rule put_works[OF assms(1) free])
  have put: "Caller_Put (ca_store c) (ca_crypto c) (ca_name c) None key body (st_client s) = (cl, Inr t)"
    using cl(1) by (simp add: Caller_Put_def)
  obtain s1 where s1: "c_Put c key body s = (s1, Inr t)" "same_side s s1" "st_client s1 = cl"
    unfolding c_Put_def
    by (rule in_bucket_None[where f = "\<lambda>c w. Caller_Put (ca_store c) (ca_crypto c) (ca_name c) w key body",
      OF assms(2) put cl(2)])
  then show thesis using that[of s1 t] cl(3) by simp
qed

lemma Publish_works:
  assumes "exact_store (ca_store c) view" "st_waits s = []" "releaseName sha"
    and "\<And>ob. objects view s currentKey = Some ob \<Longrightarrow> verify (ca_crypto c) (cl_trusted (st_client s)) currentKey ob"
  obtains s' t u where "Publish quote c sha bin s = (s', Inr ())" "same_side s s'"
    "objects view s' = (objects view s)(binaryKey sha \<mapsto> sealed (ca_crypto c) (cl_key (st_client s)) (binaryKey sha) bin t,
       currentKey \<mapsto> sealed (ca_crypto c) (cl_key (st_client s)) currentKey sha u)"
proof -
  obtain s1 t where s1: "c_Put c (binaryKey sha) bin s = (s1, Inr t)" "same_side s s1"
    "objects view s1 = (objects view s)(binaryKey sha \<mapsto> sealed (ca_crypto c) (cl_key (st_client s)) (binaryKey sha) bin t)"
    by (rule c_Put_works[OF assms(1,2)])
  have key: "cl_key (st_client s1) = cl_key (st_client s)" "cl_trusted (st_client s1) = cl_trusted (st_client s)" "st_waits s1 = []"
    using s1(2) by (simp_all add: same_side_def same_identity_def)
  obtain s2 u where s2: "point c sha s1 = (s2, Inr ())" "same_side s1 s2"
    "objects view s2 = (objects view s1)(currentKey \<mapsto> sealed (ca_crypto c) (cl_key (st_client s1)) currentKey sha u)"
    by (rule point_works[OF assms(1) key(3)]) (use assms(4) s1(3) key in auto)
  have "Publish quote c sha bin s = (s2, Inr ())" using assms(3) s1(1) s2(1) by (simp add: Publish_def)
  then show thesis using that[of s2 t u] same_side_trans[OF s1(2) s2(2)] s2(3) s1(3) key(1) by simp
qed

subsection \<open>A look that installs\<close>

lemma Running_eq:
  assumes "disk_works m (release_files d) file linked" "files_documented m (release_files d) file linked" "d \<noteq> ''''"
  shows "Running m d w = (case linked w (under d [''current'']) of None \<Rightarrow> '''' | Some t \<Rightarrow> dir t)"
proof (cases "linked w (under d [''current''])")
  case None
  then have "\<forall>t. os_Readlink m (under d [''current'']) w \<noteq> Inr t"
    using doc_Readlink[OF assms(2), of "under d [''current'']" w] by auto
  then show ?thesis using None release_places(2)[OF assms(3)]
    by (cases "os_Readlink m (under d [''current'']) w") (simp_all add: Running_def)
next
  case (Some t)
  then have "os_Readlink m (under d [''current'']) w = Inr t" using works_Readlink[OF assms(1)] by simp
  then show ?thesis using Some release_places(2)[OF assms(3)] by (simp add: Running_def)
qed

lemma releaseName_trim: "releaseName sha \<Longrightarrow> trim_space sha = sha"
proof (rule trim_space_printable)
  assume sha: "releaseName sha"
  then show ne: "sha \<noteq> []" by (auto simp: releaseName_def)
  have "printable c" if "is_digit c \<or> (CHR ''a'' \<le> c \<and> c \<le> CHR ''f'')" for c
    using that by (auto simp: printable_def is_digit_def less_eq_char_def)
  then have "\<forall>c \<in> set sha. printable c" using sha by (auto simp: releaseName_def list_all_iff)
  then show "printable (hd sha)" "printable (last sha)" using ne by auto
qed

lemma dir_release: "releaseName sha \<Longrightarrow> dir (sha @ ''/garage'') = sha"
  using dir_pair[of sha "''garage''"] releaseName_plain by simp

text \<open>One look at a pointer that moved, from the pointer on.\<close>

lemma install_works:
  fixes s :: "('s, 'w) site"
  assumes "disk_works m (release_files d) file linked" "files_documented m (release_files d) file linked"
    and "help_only_prints m (release_files d) file linked" "exact_store (ca_store c) view" "d \<noteq> ''''" "releaseName sha"
    and "only_current_linked d linked (st_world s)" "st_waits s = []"
    and "objects view s (binaryKey sha) = Some ob" "verify (ca_crypto c) (cl_trusted (st_client s)) (binaryKey sha) ob"
    and "file (st_world s) (under d [sha, ''garage'']) = None"
    and "\<And>w. file w (under d [sha, ''garage.new'']) = Some (o_Body ob) \<Longrightarrow>
      snd (snd (os_CombinedOutput m (under d [sha, ''garage.new'']) [''help''] w)) = None"
  obtains s' where "install quote c m d sha s = (s', Inr ())" "objects view s' = objects view s" "st_waits s' = []"
    "file (st_world s') (under d [sha, ''garage'']) = Some (o_Body ob)"
proof -
  let ?P = "release_files d" and ?R = "under d [sha, ''garage'']" and ?N = "under d [sha, ''garage.new'']" and ?C = "under d [''current'']"
  note plain = releaseName_plain[OF assms(6)]
  have places: "?R \<in> ?P" "?N \<in> ?P" "?R \<noteq> ?N" "release_path d sha = ?R" "?R @ ''.new'' = ?N" "?C @ ''.new'' = under d [''current.new'']"
    using release_places[OF assms(5)] assms(6) plain by simp_all
  note lR = only_current_linkedD(3,4)[OF assms(7,6)]
  obtain s1 where s1: "c_Get c (binaryKey sha) s = (s1, Inr ob)" "same_side s s1" "objects view s1 = objects view s"
    by (rule c_Get_there[OF assms(4,8,9,10)])
  have w1: "st_world s1 = st_world s" using s1(2) by (simp add: same_side_def)
  obtain w where w: "fetch_release c m d sha s = (s1\<lparr>st_world := w\<rparr>, Inr ())" "file w ?R = Some (o_Body ob)"
    "same_files (?P - {?R, ?N}) file linked (st_world s) w" "linked w ?R = None" "linked w ?N = None"
    by (rule fetch_release_works[OF assms(1-3) places(1-5) lR s1(1) w1 assms(12)])
  obtain w2 had where w2: "link m (sha @ ''/garage'') ?C w = (w2, had, Inr ())"
    by (rule link_works[OF assms(1,2), of ?C]) (simp_all add: places(6))
  have missing: "\<exists>e. os_Stat (mx_host m) ?R (st_world s) = Some e \<and> err_is e Host.ErrNotExist"
    using works_not_there[OF assms(1), OF places(1) lR(1) assms(11)]
    by (cases "os_Stat (mx_host m) ?R (st_world s)") (simp_all add: not_there_def)
  have "install quote c m d sha s = (s1\<lparr>st_world := w2\<rparr>, Inr ())"
    using missing assms(6) w(1) w2 release_places(2)[OF assms(5)] by (auto simp: install_def places(4) on_disk_def)
  moreover have "file w2 ?R = file w ?R"
    using same_filesD[OF link_effect(1)[OF assms(2) _ _ w2, unfolded places(6)], of ?R] plain assms(6) by simp
  ultimately show thesis using that[of "s1\<lparr>st_world := w2\<rparr>"] s1(2,3) w(2) by (simp add: same_side_def)
qed

text \<open>One whole look: a pointer that moved to a release that is not here, is signed and runs.\<close>

lemma Update_works:
  fixes s :: "('s, 'w) site"
  assumes "disk_works m (release_files d) file linked" "files_documented m (release_files d) file linked"
    and "help_only_prints m (release_files d) file linked" "exact_store (ca_store c) view" "d \<noteq> ''''" "releaseName sha"
    and "only_current_linked d linked (st_world s)" "st_waits s = []"
    and "objects view s currentKey = Some ptr" "o_Body ptr = sha" "verify (ca_crypto c) (cl_trusted (st_client s)) currentKey ptr"
    and "objects view s (binaryKey sha) = Some ob" "verify (ca_crypto c) (cl_trusted (st_client s)) (binaryKey sha) ob"
    and "file (st_world s) (under d [''seen'']) = Some before" "before \<noteq> sha" "Running m d (st_world s) \<noteq> sha"
    and "file (st_world s) (under d [sha, ''garage'']) = None"
    and "\<And>w. file w (under d [sha, ''garage.new'']) = Some (o_Body ob) \<Longrightarrow>
      snd (snd (os_CombinedOutput m (under d [sha, ''garage.new'']) [''help''] w)) = None"
  obtains s' where "Update quote c m d s = (s', Inr sha)" "objects view s' = objects view s" "st_waits s' = []"
    "file (st_world s') (under d [sha, ''garage'']) = Some (o_Body ob)"
proof -
  let ?P = "release_files d" and ?S = "under d [''seen'']" and ?C = "under d [''current'']" and ?w = "st_world s"
  let ?R = "under d [sha, ''garage'']"
  note works = disk_worksD[OF assms(1)] and plain = releaseName_plain[OF assms(6)]
  note store = exact_store.axioms(1)[OF assms(4)] and lS = only_current_linkedD(1)[OF assms(7)]
  have seen: "os_ReadFile m ?S ?w = Inr before" by (rule works(2)[OF _ lS assms(14)]) simp
  obtain s1 where s1: "c_Get c currentKey s = (s1, Inr ptr)" "same_side s s1" "objects view s1 = objects view s"
    by (rule c_Get_there[OF assms(4,8,9,11)])
  have w1: "st_world s1 = ?w" using s1(2) by (simp add: same_side_def)
  obtain w2 where w2: "mkdir_all m d ?w = (w2, Inr ())" using works(1) by blast
  note same2 = doc_MkdirAll[OF assms(2) w2]
  have lS2: "linked w2 ?S = None" using same_filesD[OF same2, of ?S] lS by simp
  obtain w3 where w3: "os_WriteFile m ?S sha w2 = (w3, Inr ())" using works(6)[OF _ lS2] by fastforce
  note doc3 = doc_WriteFile[OF assms(2) _ lS2 w3, simplified]
  have same3: "same_files (?P - {?S}) file linked ?w w3"
    by (rule same_files_trans[OF same2 doc3[THEN conjunct1]]) blast
  note at3 = same_filesD[OF same3]
  have running: "Running m d w3 \<noteq> sha"
    using assms(16) at3[of ?C] by (simp add: Running_eq[OF assms(1,2,5)])
  have only3: "only_current_linked d linked w3"
    unfolding only_current_linked_def
  proof (intro ballI impI)
    fix p assume p: "p \<in> ?P" "p \<noteq> ?C" "p \<noteq> under d [''current.new'']"
    show "linked w3 p = None"
    proof (cases "p = ?S")
      case True
      then show ?thesis using doc3 by simp
    next
      case False
      then show ?thesis using at3[of p] p assms(7) by (simp add: only_current_linked_def)
    qed
  qed
  let ?s3 = "s1\<lparr>st_world := w3\<rparr>"
  have s3: "st_waits ?s3 = []" "objects view ?s3 = objects view s" "cl_trusted (st_client ?s3) = cl_trusted (st_client s)"
    using s1(2,3) by (simp_all add: same_side_def same_identity_def)
  have free3: "file (st_world ?s3) ?R = None" using at3[of ?R] assms(6,17) plain by simp
  obtain s4 where s4: "install quote c m d sha ?s3 = (s4, Inr ())" "objects view s4 = objects view ?s3" "st_waits s4 = []"
    "file (st_world s4) ?R = Some (o_Body ob)"
    by (rule install_works[OF assms(1-6), of ?s3 ob]) (use only3 s3 assms(12,13,18) free3 in auto)
  have ne: "sha \<noteq> ''''" using assms(6) by (auto simp: releaseName_def)
  have "Update quote c m d s = (s4, Inr sha)"
    using seen s1(1) w1 w2 w3 running s4(1) assms(10,15) ne
    by (simp add: Update_def release_places(1)[OF assms(5)] releaseName_trim[OF assms(6)] on_disk_def)
  then show thesis using that s4(2-4) s3(2) by simp
qed

text \<open>C30. What a laptop publishes, a host installs, once. Over a store that answers exactly and a disk
  that works: take a host that trusts the laptop's key, that has looked at the bucket before (what it saw
  is in its file; a first look only remembers the pointer), was pointed at another release then, runs
  another one, and does not have this one's file; and let the laptop trust the signature of the pointer
  that is in the bucket, if there is one, and the new binary run on the host, so that its \<open>help\<close> prints.
  Then \<open>Publish\<close> succeeds, the next look installs that binary and makes it the current release, and the
  look after that finds nothing to do and leaves the disk alone.\<close>

theorem a_published_release_is_installed:
  fixes laptop host :: "('s, 'w) site"
  assumes "disk_works m (release_files d) file linked" "files_documented m (release_files d) file linked"
    and "help_only_prints m (release_files d) file linked" "exact_store (ca_store c) view" "crypto_signs (ca_crypto c)"
    and "cr_public (ca_crypto c) (cl_key (st_client laptop)) \<in> set (cl_trusted (st_client host))"
    and "st_waits laptop = []" "st_waits host = []"
    and "\<And>ob. view (cl_store (st_client laptop)) currentKey = Some ob \<Longrightarrow> verify (ca_crypto c) (cl_trusted (st_client laptop)) currentKey ob"
    and "d \<noteq> ''''" "releaseName sha" "only_current_linked d linked (st_world host)"
    and "file (st_world host) (under d [''seen'']) = Some before" "before \<noteq> sha" "Running m d (st_world host) \<noteq> sha"
    and "file (st_world host) (release_path d sha) = None"
    and "\<And>w. file w (release_path d sha @ ''.new'') = Some bin \<Longrightarrow>
      snd (snd (os_CombinedOutput m (release_path d sha @ ''.new'') [''help''] w)) = None"
  shows "\<exists>laptop' host' host''.
    Publish quote c sha bin laptop = (laptop', Inr ()) \<and>
    Update quote c m d (host\<lparr>st_client := (st_client host)\<lparr>cl_store := cl_store (st_client laptop')\<rparr>\<rparr>) = (host', Inr sha) \<and>
    Running m d (st_world host') = sha \<and> file (st_world host') (release_path d sha) = Some bin \<and>
    Update quote c m d host' = (host'', Inr '''') \<and> st_world host'' = st_world host'"
proof -
  let ?R = "under d [sha, ''garage'']" and ?S = "under d [''seen'']"
  note places = release_places(5)[OF assms(10,11)] release_places(6)[OF assms(10), of sha]
  note works = disk_worksD[OF assms(1)] and store = exact_store.axioms(1)[OF assms(4)]
  obtain laptop' t u where pub: "Publish quote c sha bin laptop = (laptop', Inr ())"
    "objects view laptop' = (objects view laptop)
      (binaryKey sha \<mapsto> sealed (ca_crypto c) (cl_key (st_client laptop)) (binaryKey sha) bin t,
       currentKey \<mapsto> sealed (ca_crypto c) (cl_key (st_client laptop)) currentKey sha u)"
    by (rule Publish_works[OF assms(4,7,11) assms(9)])
  let ?h = "host\<lparr>st_client := (st_client host)\<lparr>cl_store := cl_store (st_client laptop')\<rparr>\<rparr>"
  let ?ob = "sealed (ca_crypto c) (cl_key (st_client laptop)) (binaryKey sha) bin t"
  let ?ptr = "sealed (ca_crypto c) (cl_key (st_client laptop)) currentKey sha u"
  have there: "objects view ?h currentKey = Some ?ptr" "objects view ?h (binaryKey sha) = Some ?ob" using pub(2) by simp_all
  have ok: "verify (ca_crypto c) (cl_trusted (st_client ?h)) k
      (sealed (ca_crypto c) (cl_key (st_client laptop)) k b v)" for k b v
    using verify_own[OF assms(5,6)] by (simp add: sealed_def)
  obtain h1 where h1: "Update quote c m d ?h = (h1, Inr sha)" "objects view h1 = objects view ?h" "st_waits h1 = []"
    "file (st_world h1) ?R = Some bin"
    by (rule Update_works[OF assms(1-4,10,11) _ _ there(1) _ ok there(2) ok, where before = before and quote = quote])
       (use assms(8,12-17) places in auto)
  have eff: "same_identity (st_client ?h) (st_client h1)" "only_current_linked d linked (st_world h1)"
    "file (st_world h1) ?S = Some sha" "linked (st_world h1) (under d [''current'']) = Some (sha @ ''/garage'')"
  proof -
    have w: "only_current_linked d linked (st_world ?h)" "sha \<noteq> ''''" using assms(11,12) by (auto simp: releaseName_def)
    note e = Update_effect[OF assms(2,3) store assms(10) w(1) h1(1)]
    show "same_identity (st_client ?h) (st_client h1)" "only_current_linked d linked (st_world h1)"
      "file (st_world h1) ?S = Some sha" "linked (st_world h1) (under d [''current'']) = Some (sha @ ''/garage'')"
      using e(1) updatedD(1)[OF e(2)] e(3)[OF refl w(2)] by simp_all
  qed
  have runs: "Running m d (st_world h1) = sha"
    using eff(4) dir_release[OF assms(11)] by (simp add: Running_eq[OF assms(1,2,10)])
  have seen: "os_ReadFile m ?S (st_world h1) = Inr sha"
    by (rule works(2)[OF _ only_current_linkedD(1)[OF eff(2)] eff(3)]) simp
  have trusted: "cl_trusted (st_client h1) = cl_trusted (st_client ?h)" using eff(1) by (simp add: same_identity_def)
  obtain h2 where h2: "c_Get c currentKey h1 = (h2, Inr ?ptr)" "same_side h1 h2"
    by (rule c_Get_there[OF assms(4) h1(3), of currentKey ?ptr]) (use h1(2) there(1) ok trusted in auto)
  have "Update quote c m d h1 = (h2, Inr '''')"
    using seen h2(1) by (simp add: Update_def release_places(1)[OF assms(10)] releaseName_trim[OF assms(11)])
  then show ?thesis using pub(1) h1(1,4) runs h2(2) places(1) by (auto simp: same_side_def)
qed

lemma demo_machine_works: "disk_works demo_machine P demo_file demo_link"
  unfolding disk_works_def
  by (intro conjI ballI allI impI)
     (auto simp: demo_machine_def mkdir_all_def from_err_def not_there_def split: option.splits)

definition demo_laptop :: "(fake, disk) site" where
  "demo_laptop = \<lparr>st_client = demo_client ''k'' [], st_waits = [], st_world = \<lparr>dk_files = [], dk_links = []\<rparr>\<rparr>"

definition demo_host :: "(fake, disk) site" where
  "demo_host = \<lparr>st_client = demo_client ''h'' [cr_public demo_crypto ''k''], st_waits = [],
     st_world = \<lparr>dk_files = [(''/r/seen'', '''')], dk_links = []\<rparr>\<rparr>"

definition demo_sender :: "fake caller" where
  "demo_sender = \<lparr>ca_store = fake_store, ca_crypto = demo_crypto, ca_name = ''mail''\<rparr>"

theorem a_published_release_is_installed_witness:
  "\<exists>laptop' host' host''.
    Publish id demo_sender ''abcdef1'' ''bin'' demo_laptop = (laptop', Inr ()) \<and>
    Update id demo_sender demo_machine ''/r''
      (demo_host\<lparr>st_client := (st_client demo_host)\<lparr>cl_store := cl_store (st_client laptop')\<rparr>\<rparr>) = (host', Inr ''abcdef1'') \<and>
    Running demo_machine ''/r'' (st_world host') = ''abcdef1'' \<and>
    demo_file (st_world host') (release_path ''/r'' ''abcdef1'') = Some ''bin'' \<and>
    Update id demo_sender demo_machine ''/r'' host' = (host'', Inr '''') \<and> st_world host'' = st_world host'"
proof (rule a_published_release_is_installed)
  show "disk_works demo_machine (release_files ''/r'') demo_file demo_link" by (rule demo_machine_works)
  show "files_documented demo_machine (release_files ''/r'') demo_file demo_link"
    "help_only_prints demo_machine (release_files ''/r'') demo_file demo_link" by (rule demo_machine_documented)+
  show "exact_store (ca_store demo_sender) fake_view" by (simp add: demo_sender_def fake.exact_store_axioms)
  show "crypto_signs (ca_crypto demo_sender)" by (simp add: demo_sender_def crypto_signs_def demo_crypto_def)
  show "cr_public (ca_crypto demo_sender) (cl_key (st_client demo_laptop)) \<in> set (cl_trusted (st_client demo_host))"
    by (simp add: demo_sender_def demo_laptop_def demo_host_def demo_client_def New_def)
  show "releaseName ''abcdef1''" by code_simp
  show "demo_file (st_world demo_host) (under ''/r'' [''seen'']) = Some ''''" by code_simp
  show "Running demo_machine ''/r'' (st_world demo_host) \<noteq> ''abcdef1''"
    by (simp add: Running_def demo_host_def demo_machine_def)
  show "demo_file (st_world demo_host) (release_path ''/r'' ''abcdef1'') = None" by code_simp
qed (simp_all add: demo_laptop_def demo_host_def demo_client_def New_def NewFake_def only_current_linked_def demo_machine_def)

subsection \<open>What a deploy puts into the bucket\<close>

definition writes :: "('s \<Rightarrow> string \<Rightarrow> object option) \<Rightarrow> 's caller \<Rightarrow> string \<Rightarrow> string \<Rightarrow> ('s, 'w) site \<Rightarrow> ('s, 'w) site \<Rightarrow> bool" where
  "writes view c key body s s' =
    (\<exists>t. objects view s' = (objects view s)(key \<mapsto> sealed (ca_crypto c) (cl_key (st_client s)) key body t))"

text \<open>All three writes either change nothing or store the sealed body.\<close>

lemma writes_cases:
  assumes "object_store (ca_store c) view"
    and "c_Put c key body s = (s', r) \<or> c_Create c key body s = (s', r) \<or> c_Swap c key body etag s = (s', r)"
  shows "same_identity (st_client s) (st_client s')" "st_world s' = st_world s"
    and "objects view s' = objects view s \<or> writes view c key body s s'"
    and "r = Inr t \<Longrightarrow> writes view c key body s s'"
proof -
  obtain cd r0 where p: "Caller_put (ca_store c) (ca_crypto c) (ca_name c) (next_wait (st_waits s)) key body cd (st_client s) =
      (st_client s', r0)" "\<forall>t. r = Inr t \<longrightarrow> r0 = Inr t" "st_world s' = st_world s"
    using assms(2) unfolding c_Put_def c_Create_def c_Swap_def in_bucket_def Caller_Put_def Caller_Create_def Caller_Swap_def
    by (elim disjE) (auto simp: Let_def split: prod.splits sum.splits if_splits)
  note put = object_store.put_cases[OF assms(1) p(1)]
  show "same_identity (st_client s) (st_client s')" "st_world s' = st_world s" using put(1) p(3) by simp_all
  show "objects view s' = objects view s \<or> writes view c key body s s'" using put(4) by (auto simp: writes_def)
  show "r = Inr t \<Longrightarrow> writes view c key body s s'" using put(2)[of t] p(2) by (auto simp: writes_def)
qed

lemma point_cases:
  assumes "object_store (ca_store c) view" "point c sha s = (s', r)"
  shows "same_identity (st_client s) (st_client s')" "st_world s' = st_world s"
    and "objects view s' = objects view s \<or> writes view c currentKey sha s s'"
    and "r = Inr () \<Longrightarrow> writes view c currentKey sha s s'"
proof -
  obtain s1 cur where g: "c_Get c currentKey s = (s1, cur)" by (metis prod.exhaust)
  note get = c_Get_cases(1-3)[OF assms(1) g]
  have moved: "writes view c currentKey sha s1 s2 \<Longrightarrow> writes view c currentKey sha s s2" for s2
    using get by (simp add: writes_def same_identity_def)
  have "same_identity (st_client s) (st_client s') \<and> st_world s' = st_world s \<and>
    (objects view s' = objects view s \<or> writes view c currentKey sha s s') \<and> (r = Inr () \<longrightarrow> writes view c currentKey sha s s')"
  proof (cases cur)
    case (Inl e)
    show ?thesis
    proof (cases "err_is e ErrNotFound")
      case True
      obtain s2 q where q: "c_Create c currentKey sha s1 = (s2, q)" by (metis prod.exhaust)
      then have "s' = s2" "r = Inr () \<longrightarrow> (\<exists>t. q = Inr t)" using assms(2) g Inl True
        by (auto simp: point_def Let_def split: sum.splits if_splits)
      then show ?thesis using writes_cases[OF assms(1), of currentKey sha s1 s2 q "''''"] q get moved same_identity_trans by auto
    next
      case False
      then have "s' = s1" "r \<noteq> Inr ()" using assms(2) g Inl by (auto simp: point_def split: if_splits)
      then show ?thesis using get by simp
    qed
  next
    case (Inr ob)
    obtain s2 q where q: "c_Swap c currentKey sha (o_ETag ob) s1 = (s2, q)" by (metis prod.exhaust)
    then have "s' = s2" "r = Inr () \<longrightarrow> (\<exists>t. q = Inr t)" using assms(2) g Inr
      by (auto simp: point_def Let_def split: sum.splits if_splits)
    then show ?thesis using writes_cases[OF assms(1), of currentKey sha s1 s2 q "o_ETag ob"] q get moved same_identity_trans by auto
  qed
  then show "same_identity (st_client s) (st_client s')" "st_world s' = st_world s"
    "objects view s' = objects view s \<or> writes view c currentKey sha s s'"
    "r = Inr () \<Longrightarrow> writes view c currentKey sha s s'" by blast+
qed

text \<open>The commands of a build, each of which ran and exited with zero.\<close>

fun passed :: "'w host \<Rightarrow> task \<Rightarrow> command list \<Rightarrow> 'w \<Rightarrow> 'w \<Rightarrow> bool" where
  "passed h wt [] w w' = (w = w')"
| "passed h wt (cmd # cmds) w w' =
    (\<exists>w1 r. task_Exec h wt cmd w = (w1, Inr r) \<and> ExitCode r = 0 \<and> passed h wt cmds w1 w')"

lemma run_build_passed: "run_build h wt sha cmds w = (w', Inr ()) \<Longrightarrow> passed h wt cmds w w'"
proof (induction cmds arbitrary: w)
  case (Cons cmd cmds)
  obtain w1 r where r: "task_Exec h wt cmd w = (w1, r)" by (metis prod.exhaust)
  then show ?case using Cons by (cases r) (auto simp: try_then_def Let_def split: if_splits)
qed simp

text \<open>How a binary came about: checked out at a merged commit, tested and built there.\<close>

definition built_from ::
  "(string \<Rightarrow> string) \<Rightarrow> ('w \<Rightarrow> string) \<Rightarrow> 'w machine \<Rightarrow> workspace \<Rightarrow> string \<Rightarrow> 'w \<Rightarrow> string \<Rightarrow> string \<Rightarrow> bool" where
  "built_from quote stamp m ws ref w sha bin =
    (\<exists>w1 w2 w3 wt. ws_Merged quote (mx_host m) ws ref w = (w1, Inr sha) \<and>
       ws_Checkout quote (mx_host m) ws (''release-'' @ take 12 sha @ ''-'' @ stamp w1)
         \<lparr>pl_URL = '''', pl_State = '''', pl_Head = sha, pl_HeadSHA = sha, pl_Base = ''''\<rparr> w1 = (w2, Inr wt) \<and>
       passed (mx_host m) wt build_commands w2 w3 \<and>
       os_ReadFile m (join_path [tk_dir wt, ''garage-release'']) w3 = Inr bin)"

lemma build_built:
  assumes "build quote stamp m ws sha w1 = Some (w', Inr bin)" "ws_Merged quote (mx_host m) ws ref w = (w1, Inr sha)"
  shows "built_from quote stamp m ws ref w sha bin"
proof -
  let ?co = "ws_Checkout quote (mx_host m) ws (''release-'' @ take 12 sha @ ''-'' @ stamp w1)
    \<lparr>pl_URL = '''', pl_State = '''', pl_Head = sha, pl_HeadSHA = sha, pl_Base = ''''\<rparr> w1"
  obtain w2 wt where wt: "?co = (w2, Inr wt)"
    "(case try_then (run_build (mx_host m) wt sha build_commands w2)
        (\<lambda>_ w2. (w2, os_ReadFile m (join_path [tk_dir wt, ''garage-release'']) w2)) of
      (w3, r) \<Rightarrow> (fst (task_Close (mx_host m) wt w3), r)) = (w', Inr bin)"
    using assms(1) by (auto simp: build_def Let_def split: if_splits elim: try_thenE)
  obtain w3 q where q: "run_build (mx_host m) wt sha build_commands w2 = (w3, q)" by (metis prod.exhaust)
  then have "q = Inr ()" "os_ReadFile m (join_path [tk_dir wt, ''garage-release'']) w3 = Inr bin"
    using wt(2) by (cases q; auto simp: try_then_def)+
  moreover have "passed (mx_host m) wt build_commands w2 w3"
    using run_build_passed[of "mx_host m" wt sha build_commands w2 w3] q calculation(1) by simp
  ultimately show ?thesis using assms(2) wt(1) unfolding built_from_def by blast
qed

text \<open>What is stored under a key, when it is what this side signed for it.\<close>

definition stored :: "('s \<Rightarrow> string \<Rightarrow> object option) \<Rightarrow> 's caller \<Rightarrow> string \<Rightarrow> string \<Rightarrow> string \<Rightarrow> ('s, 'w) site \<Rightarrow> bool" where
  "stored view c k key body s = (\<exists>t. objects view s key = Some (sealed (ca_crypto c) k key body t))"

lemma Publish_cases:
  fixes s s' :: "('s, 'w) site"
  assumes "object_store (ca_store c) view" "Publish quote c sha bin s = (s', r)"
  defines "k \<equiv> cl_key (st_client s)"
  shows "st_world s' = st_world s \<and> same_identity (st_client s) (st_client s') \<and>
    (\<forall>key. objects view s' key = objects view s key \<or> releaseName sha \<and>
       (key = binaryKey sha \<and> stored view c k key bin s' \<or>
        key = currentKey \<and> stored view c k (binaryKey sha) bin s' \<and> stored view c k key sha s')) \<and>
    (r = Inr () \<longrightarrow> releaseName sha \<and> stored view c k (binaryKey sha) bin s' \<and> stored view c k currentKey sha s')"
proof (cases "releaseName sha")
  case False
  then show ?thesis using assms(2) by (auto simp: Publish_def)
next
  case True
  then have "try_then (c_Put c (binaryKey sha) bin s) (\<lambda>t. point c sha) = (s', r)" using assms(2) by (simp add: Publish_def)
  then show ?thesis
  proof (cases rule: try_thenE)
    case (fails x e)
    note put = writes_cases[OF assms(1) disjI1[OF fails(1)]]
    have "objects view s' key = objects view s key \<or> key = binaryKey sha \<and> stored view c k key bin s'" for key
      using put(3) fails(2) by (cases "key = binaryKey sha") (auto simp: writes_def stored_def k_def)
    then show ?thesis using put(1,2) fails(2,3) True by auto
  next
    case (goes_on s1 t)
    note put = writes_cases[OF assms(1) disjI1[OF goes_on(1)]] and pt = point_cases[OF assms(1) goes_on(2)]
    have key: "cl_key (st_client s1) = k" using put(1) by (simp add: same_identity_def k_def)
    obtain a where a: "objects view s1 = (objects view s)(binaryKey sha \<mapsto> sealed (ca_crypto c) k (binaryKey sha) bin a)"
      using put(4)[OF refl] by (auto simp: writes_def k_def)
    have "objects view s' = objects view s1 \<or>
        (\<exists>b. objects view s' = (objects view s1)(currentKey \<mapsto> sealed (ca_crypto c) k currentKey sha b))"
      using pt(3) by (simp add: writes_def key)
    moreover have "r = Inr () \<longrightarrow>
        (\<exists>b. objects view s' = (objects view s1)(currentKey \<mapsto> sealed (ca_crypto c) k currentKey sha b))"
      using pt(4) by (simp add: writes_def key)
    ultimately have moved: "objects view s' = objects view s1 \<and> r \<noteq> Inr () \<or>
        (\<exists>b. objects view s' = (objects view s1)(currentKey \<mapsto> sealed (ca_crypto c) k currentKey sha b))" by blast
    have bin: "stored view c k (binaryKey sha) bin s'" using moved a by (auto simp: stored_def)
    have "objects view s' key = objects view s key \<or> key = binaryKey sha \<or> key = currentKey \<and> stored view c k key sha s'" for key
      using moved a by (cases "key = binaryKey sha"; cases "key = currentKey") (auto simp: stored_def)
    moreover have "r = Inr () \<longrightarrow> stored view c k currentKey sha s'" using moved by (auto simp: stored_def)
    ultimately show ?thesis using put(1,2) pt(1,2) True bin same_identity_trans[OF put(1) pt(1)] by auto
  qed
qed

text \<open>C31. What a deploy releases was tested. Whatever git, the shell and the store do: \<open>Deploy\<close> leaves
  the bucket as it was, or it stored under the release's own key a binary that was read from a
  worktree of a commit found merged, after the tests and the build had exited with zero there, and
  moved the pointer to that very release once the binary was stored, and changed nothing else. When
  it returns a hash, it is that release's and both are stored.\<close>

theorem deploy_releases_what_was_tested:
  fixes s s' :: "('s, 'w) site"
  assumes "object_store (ca_store c) view" "Deploy quote stamp marshal c m d ws ref room s = Some (s', r)"
  defines "k \<equiv> cl_key (st_client s)"
  shows "objects view s' = objects view s \<and> (\<exists>e. r = Inl e) \<or>
    (\<exists>sha bin. built_from quote stamp m ws ref (st_world s) sha bin \<and> releaseName sha \<and>
       (\<forall>key. objects view s' key = objects view s key \<or>
          key = binaryKey sha \<and> stored view c k key bin s' \<or>
          key = currentKey \<and> stored view c k (binaryKey sha) bin s' \<and> stored view c k key sha s') \<and>
       (\<forall>x. r = Inr x \<longrightarrow> x = sha \<and> stored view c k (binaryKey sha) bin s' \<and> stored view c k currentKey sha s'))"
proof -
  obtain w1 q where q: "ws_Merged quote (mx_host m) ws ref (st_world s) = (w1, q)" by (metis prod.exhaust)
  let ?s1 = "s\<lparr>st_world := w1\<rparr>"
  have s1: "on_disk (ws_Merged quote (mx_host m) ws ref) s = (?s1, q)" using q by (simp add: on_disk_def)
  note dep = assms(2)[unfolded Deploy_def s1 prod.case]
  show ?thesis
  proof (cases q)
    case (Inl e)
    then show ?thesis using dep by auto
  next
    case sha: (Inr sha)
    show ?thesis
    proof (cases "Running m d w1 = sha")
      case True
      then show ?thesis using dep sha by auto
    next
      case False
      then obtain w2 bin where b: "build quote stamp m ws sha w1 = Some (w2, bin)"
        "try_then (?s1\<lparr>st_world := w2\<rparr>, bin) (\<lambda>bin s2.
           try_then (on_disk (os_WriteFile m (join_path [d, ''deployed'']) (marshal \<lparr>dp_SHA = sha, dp_Room = room\<rparr>)) s2) (\<lambda>_ s3.
             case Publish quote c sha bin s3 of
               (s4, Inl e) \<Rightarrow> (s4\<lparr>st_world := os_Remove m (join_path [d, ''deployed'']) (st_world s4)\<rparr>, Inl e)
             | (s4, Inr u) \<Rightarrow> (s4, Inr sha))) = (s', r)"
        using dep sha by (auto simp: Let_def split: option.splits)
      show ?thesis using b(2)
      proof (cases rule: try_thenE)
        case (fails x e)
        then show ?thesis by auto
      next
        case (goes_on s2 bn)
        have s2: "st_client s2 = st_client s" "bin = Inr bn" using goes_on(1) by auto
        have built: "built_from quote stamp m ws ref (st_world s) sha bn"
          using build_built[of quote stamp m ws sha w1 w2 bn ref "st_world s"] b(1) q sha s2(2) by simp
        show ?thesis using goes_on(2)
        proof (cases rule: try_thenE)
          case (fails x e)
          then show ?thesis using s2 by (auto elim!: on_diskE)
        next
          case (goes_on s3 u)
          have s3: "st_client s3 = st_client s" using goes_on(1) s2 by (auto elim!: on_diskE)
          obtain s4 v where v: "Publish quote c sha bn s3 = (s4, v)" by (metis prod.exhaust)
          note pub = Publish_cases[OF assms(1) v, unfolded s3, folded k_def]
          have s': "st_client s' = st_client s4" "r = (case v of Inl e \<Rightarrow> Inl e | Inr u \<Rightarrow> Inr sha)"
            using goes_on(2) v by (auto split: sum.splits)
          show ?thesis
          proof (cases "releaseName sha")
            case True
            then show ?thesis using pub built s' by (auto simp: stored_def split: sum.splits)
          next
            case False
            then have "objects view s' = objects view s" "v \<noteq> Inr ()" using pub s' by auto
            then show ?thesis using s'(2) by (auto split: sum.splits)
          qed
        qed
      qed
    qed
  qed
qed

definition demo_builder :: "disk machine" where
  "demo_builder = demo_machine\<lparr>mx_host := (mx_host demo_machine)\<lparr>os_Run := (\<lambda>d env name args w.
     (w, \<lparr>ps_Stdout = (if hd args = ''rev-parse'' then ''abcdef123456'' else ''''), ps_Stderr = '''', ps_Err = None, ps_ExitCode = 0\<rparr>))\<rparr>\<rparr>"

definition demo_worktree :: "(fake, disk) site" where
  "demo_worktree = demo_laptop\<lparr>st_world :=
     \<lparr>dk_files = [(''/srv/garage/tasks/release-abcdef123456-now/garage-release'', ''bin'')], dk_links = []\<rparr>\<rparr>"

definition demo_deploy :: "((fake, disk) site \<times> string res) option" where
  "demo_deploy = Deploy id (\<lambda>w. ''now'') dp_Room demo_sender demo_builder ''/r'' demo_ws ''abcdef1'' ''room'' demo_worktree"

lemma demo_deploy_result: "map_option snd demo_deploy = Some (Inr ''abcdef123456'')"
  by code_simp

theorem deploy_releases_what_was_tested_witness:
  "\<exists>s' bin. demo_deploy = Some (s', Inr ''abcdef123456'') \<and>
    built_from id (\<lambda>w. ''now'') demo_builder demo_ws ''abcdef1'' (st_world demo_worktree) ''abcdef123456'' bin \<and>
    stored fake_view demo_sender (cl_key (st_client demo_worktree)) (binaryKey ''abcdef123456'') bin s'"
proof -
  obtain s' where s': "demo_deploy = Some (s', Inr ''abcdef123456'')"
    using demo_deploy_result by (cases demo_deploy) auto
  have store: "object_store (ca_store demo_sender) fake_view" by (simp add: demo_sender_def fake.object_store_axioms)
  obtain sha bin where "built_from id (\<lambda>w. ''now'') demo_builder demo_ws ''abcdef1'' (st_world demo_worktree) sha bin"
    "\<forall>x. Inr ''abcdef123456'' = (Inr x :: string res) \<longrightarrow> x = sha \<and>
       stored fake_view demo_sender (cl_key (st_client demo_worktree)) (binaryKey sha) bin s'"
    using deploy_releases_what_was_tested[OF store s'[unfolded demo_deploy_def]] by auto
  then show ?thesis using s' by auto
qed

end
