(* ===== verification/Backup.thy ===== *)
theory Backup
  imports Rollout "HOL-Library.Multiset"
begin

section \<open>Backups: hosting/backup.go\<close>

text \<open>
  Snapshots of the databases through the bucket. A snapshot is what the owner of a database does to
  write a copy of it to a path; a map of databases is the list of its entries, visited in the order
  of their keys. \<open>quote\<close> is \<open>%q\<close>. At the end: what was backed up is what a rebuilt host restores.
\<close>

type_synonym 'w snapshot = "string \<Rightarrow> 'w \<Rightarrow> 'w \<times> unit res"

definition by_key :: "(string \<times> 'a) list \<Rightarrow> (string \<times> 'a) list" where
  "by_key m = map (\<lambda>k. (k, the (map_of m k))) (sort (map fst m))"

definition latest_key :: "string \<Rightarrow> string" where "latest_key owner = owner @ ''/db/latest''"
definition day_key :: "string \<Rightarrow> string \<Rightarrow> string" where "day_key owner day = owner @ ''/db/'' @ day @ ''.db''"

text \<open>One database after another; what was written so far is returned with the error.\<close>

fun backup_all ::
  "'s caller \<Rightarrow> 'w machine \<Rightarrow> string \<Rightarrow> string \<Rightarrow> string list \<Rightarrow> (string \<times> 'w snapshot) list \<Rightarrow> ('s, 'w) site \<Rightarrow>
   ('s, 'w) site \<times> string list \<times> goerr option" where
  "backup_all c m tmp day written [] s = (s, written, None)"
| "backup_all c m tmp day written ((owner, snap) # dbs) s =
    (let path = join_path [tmp, base owner @ ''.db''] in
     case on_disk (snap path) s of
       (s1, Inl e) \<Rightarrow> (s1, written, Some (Wrap (''backup '' @ owner @ '': '') e ''''))
     | (s1, Inr u) \<Rightarrow>
        (case os_ReadFile m path (st_world s1) of
           Inl e \<Rightarrow> (s1, written, Some e)
         | Inr body \<Rightarrow>
            (case c_Put c (day_key owner day) body s1 of
               (s2, Inl e) \<Rightarrow> (s2, written, Some e)
             | (s2, Inr t) \<Rightarrow>
                (case c_Put c (latest_key owner) day s2 of
                   (s3, Inl e) \<Rightarrow> (s3, written, Some e)
                 | (s3, Inr t) \<Rightarrow> backup_all c m tmp day (written @ [day_key owner day]) dbs s3))))"

definition Backup ::
  "'s caller \<Rightarrow> 'w machine \<Rightarrow> string \<Rightarrow> (string \<times> 'w snapshot) list \<Rightarrow> ('s, 'w) site \<Rightarrow>
   ('s, 'w) site \<times> string list \<times> goerr option" where
  "Backup c m day dbs s =
    (case on_disk (os_MkdirTemp m ''garage-backup'') s of
       (s1, Inl e) \<Rightarrow> (s1, [], Some e)
     | (s1, Inr tmp) \<Rightarrow>
        (let (s2, written, err) = backup_all c m tmp day [] (by_key dbs) s1 in
         (s2\<lparr>st_world := fst (os_RemoveAll (mx_host m) tmp (st_world s2))\<rparr>, written, err)))"

text \<open>\<open>time.Parse(time.DateOnly, _)\<close> succeeds: a year of four digits and a day of it.\<close>

definition num :: "string \<Rightarrow> nat" where
  "num s = foldl (\<lambda>n c. 10 * n + (of_char c - 48)) 0 s"

definition days_in :: "nat \<Rightarrow> nat \<Rightarrow> nat" where
  "days_in month year =
    (if month = 2 then (if year mod 4 = 0 \<and> (year mod 100 \<noteq> 0 \<or> year mod 400 = 0) then 29 else 28)
     else if month \<in> {4, 6, 9, 11} then 30 else 31)"

definition date_only :: "string \<Rightarrow> bool" where
  "date_only s =
    (length s = 10 \<and> s ! 4 = CHR ''-'' \<and> s ! 7 = CHR ''-'' \<and>
     list_all is_digit (take 4 s @ take 2 (drop 5 s) @ drop 8 s) \<and>
     (let year = num (take 4 s); month = num (take 2 (drop 5 s)); day = num (drop 8 s) in
      1 \<le> month \<and> month \<le> 12 \<and> 1 \<le> day \<and> day \<le> days_in month year))"

fun restore_all ::
  "(string \<Rightarrow> string) \<Rightarrow> 's caller \<Rightarrow> 'w machine \<Rightarrow> string list \<Rightarrow> (string \<times> string) list \<Rightarrow> ('s, 'w) site \<Rightarrow>
   ('s, 'w) site \<times> string list \<times> goerr option" where
  "restore_all quote c m restored [] s = (s, restored, None)"
| "restore_all quote c m restored ((owner, path) # dbs) s =
    (if \<not> not_there m path (st_world s) then restore_all quote c m restored dbs s
     else case c_Get c (latest_key owner) s of
       (s1, Inl e) \<Rightarrow> if err_is e ErrNotFound then restore_all quote c m restored dbs s1 else (s1, restored, Some e)
     | (s1, Inr latest) \<Rightarrow>
        (let day = o_Body latest in
         if \<not> date_only day
         then (s1, restored, Some (Opaque (''restore '' @ owner @ '': latest is '' @ quote day @ '', not a day'')))
         else case try_then (c_Get c (day_key owner day) s1) (\<lambda>ob s2.
              try_then (on_disk (mkdir_all m (dir path)) s2) (\<lambda>_ s3.
              try_then (on_disk (os_WriteFile m (path @ ''.restoring'') (o_Body ob)) s3) (\<lambda>_.
                on_disk (os_Rename m (path @ ''.restoring'') path)))) of
            (s4, Inl e) \<Rightarrow> (s4, restored, Some e)
          | (s4, Inr u) \<Rightarrow> restore_all quote c m (restored @ [path]) dbs s4))"

definition Restore ::
  "(string \<Rightarrow> string) \<Rightarrow> 's caller \<Rightarrow> 'w machine \<Rightarrow> (string \<times> string) list \<Rightarrow> ('s, 'w) site \<Rightarrow>
   ('s, 'w) site \<times> string list \<times> goerr option" where
  "Restore quote c m dbs s = restore_all quote c m [] (by_key dbs) s"

subsection \<open>What is written\<close>

lemma backup_keys [simp]:
  "day_key owner day = day_key owner' day \<longleftrightarrow> owner = owner'" "latest_key owner = latest_key owner' \<longleftrightarrow> owner = owner'"
  "day_key owner day \<noteq> latest_key owner'" "latest_key owner' \<noteq> day_key owner day"
proof -
  show "day_key owner day = day_key owner' day \<longleftrightarrow> owner = owner'" "latest_key owner = latest_key owner' \<longleftrightarrow> owner = owner'"
    by (simp_all add: day_key_def latest_key_def)
  have "last (day_key owner day) = CHR ''b''" "last (latest_key owner') = CHR ''t''"
    by (simp_all add: day_key_def latest_key_def)
  then show "day_key owner day \<noteq> latest_key owner'" by auto
  then show "latest_key owner' \<noteq> day_key owner day" by simp
qed

text \<open>
  Snapshots into the directory \<open>tmp\<close>: \<open>fresh w name\<close> says that a file of that name can be made there,
  and \<open>rows owner w\<close> are the bytes of an owner's database. \<open>VACUUM INTO\<close> needs a target that is not
  there yet, and the programs around it refuse a path with a quote; on any other path it works, and
  changes nothing but that file.
\<close>

definition snapshot_path :: "string \<Rightarrow> string \<Rightarrow> string" where
  "snapshot_path tmp owner = join_path [tmp, base owner @ ''.db'']"

definition snapshots_work ::
  "'w machine \<Rightarrow> string \<Rightarrow> ('w \<Rightarrow> string \<Rightarrow> bool) \<Rightarrow> (string \<Rightarrow> 'w \<Rightarrow> string) \<Rightarrow> (string \<times> 'w snapshot) list \<Rightarrow> bool" where
  "snapshots_work m tmp fresh rows snaps =
    (\<forall>(owner, snap) \<in> set snaps. \<forall>name w. plain_element name \<longrightarrow>
      (if CHR 0x27 \<in> set (join_path [tmp, name]) \<or> \<not> fresh w name
       then \<exists>w' e. snap (join_path [tmp, name]) w = (w', Inl e)
       else \<exists>w'. snap (join_path [tmp, name]) w = (w', Inr ()) \<and>
         os_ReadFile m (join_path [tmp, name]) w' = Inr (rows owner w) \<and>
         (\<forall>other. plain_element other \<and> other \<noteq> name \<longrightarrow> fresh w' other = fresh w other) \<and>
         (\<forall>o' \<in> fst ` set snaps. rows o' w' = rows o' w)))"

lemma snapshot_works:
  assumes "snapshots_work m tmp fresh rows snaps" "(owner, snap) \<in> set snaps" "plain_element name"
    and "CHR 0x27 \<notin> set (join_path [tmp, name])" "fresh w name"
  obtains w' where "snap (join_path [tmp, name]) w = (w', Inr ())" "os_ReadFile m (join_path [tmp, name]) w' = Inr (rows owner w)"
    "\<And>other. plain_element other \<Longrightarrow> other \<noteq> name \<Longrightarrow> fresh w' other = fresh w other"
    "\<And>o'. o' \<in> fst ` set snaps \<Longrightarrow> rows o' w' = rows o' w"
proof -
  note one = bspec[OF assms(1)[unfolded snapshots_work_def] assms(2), unfolded prod.case, rule_format, OF assms(3), of w]
  have "(CHR 0x27 \<in> set (join_path [tmp, name]) \<or> \<not> fresh w name) = False" using assms(4,5) by blast
  then have "\<exists>w'. snap (join_path [tmp, name]) w = (w', Inr ()) \<and>
      os_ReadFile m (join_path [tmp, name]) w' = Inr (rows owner w) \<and>
      (\<forall>other. plain_element other \<and> other \<noteq> name \<longrightarrow> fresh w' other = fresh w other) \<and>
      (\<forall>o' \<in> fst ` set snaps. rows o' w' = rows o' w)"
    using one by (simp only: if_False)
  then show thesis using that by blast
qed

text \<open>\<open>MkdirTemp\<close> makes a directory of which nothing is there yet.\<close>

definition temp_dir_works ::
  "'w machine \<Rightarrow> string \<Rightarrow> ('w \<Rightarrow> string \<Rightarrow> bool) \<Rightarrow> (string \<Rightarrow> 'w \<Rightarrow> string) \<Rightarrow> (string \<times> 'w snapshot) list \<Rightarrow> 'w \<Rightarrow> bool" where
  "temp_dir_works m tmp fresh rows snaps w =
    (\<exists>w'. os_MkdirTemp m ''garage-backup'' w = (w', Inr tmp) \<and> (\<forall>name. plain_element name \<longrightarrow> fresh w' name) \<and>
      (\<forall>owner \<in> fst ` set snaps. rows owner w' = rows owner w))"

text \<open>
  The owners that can be backed up together: the last elements of their names differ, since these name
  the files of the directory.
\<close>

definition owners_ok :: "string \<Rightarrow> string list \<Rightarrow> bool" where
  "owners_ok tmp owners = (distinct (map base owners) \<and>
     list_all (\<lambda>owner. plain_element (base owner) \<and> CHR 0x27 \<notin> set (snapshot_path tmp owner)) owners)"

lemma plain_db: "plain_element n \<Longrightarrow> plain_element (n @ ''.db'')"
  by (auto simp: plain_element_def append_eq_Cons_conv)

text \<open>The snapshot of an owner is in the bucket, signed with the key \<open>k\<close>.\<close>

definition backed_up :: "('s \<Rightarrow> string \<Rightarrow> object option) \<Rightarrow> 's caller \<Rightarrow> string \<Rightarrow> string \<Rightarrow> string \<Rightarrow> string \<Rightarrow> ('s, 'w) site \<Rightarrow> bool" where
  "backed_up view c k day owner body s =
    (stored view c k (day_key owner day) body s \<and> stored view c k (latest_key owner) day s)"

lemma backed_up_keeps:
  assumes "backed_up view c k day owner body s"
    and "\<And>key. key = day_key owner day \<or> key = latest_key owner \<Longrightarrow> objects view s' key = objects view s key"
  shows "backed_up view c k day owner body s'"
  using assms by (simp add: backed_up_def stored_def)

lemma backup_all_works:
  fixes s :: "('s, 'w) site"
  assumes "exact_store (ca_store c) view" "st_waits s = []" "distinct (map fst dbs)"
    and "snapshots_work m tmp fresh rows snaps" "set dbs \<subseteq> set snaps" "owners_ok tmp (map fst dbs)"
    and "\<And>owner. owner \<in> fst ` set dbs \<Longrightarrow> fresh (st_world s) (base owner @ ''.db'')"
    and "\<And>owner. owner \<in> fst ` set snaps \<Longrightarrow> rows owner (st_world s) = body owner"
  defines "k \<equiv> cl_key (st_client s)"
  obtains s' where "backup_all c m tmp day written dbs s = (s', written @ map (\<lambda>(owner, snap). day_key owner day) dbs, None)"
    "st_waits s' = []" "same_identity (st_client s) (st_client s')"
    "\<And>owner. owner \<in> fst ` set dbs \<Longrightarrow> backed_up view c k day owner (body owner) s'"
    "\<And>key. (\<And>owner. owner \<in> fst ` set dbs \<Longrightarrow> key \<noteq> day_key owner day \<and> key \<noteq> latest_key owner) \<Longrightarrow>
      objects view s' key = objects view s key"
  using assms(2,3,5-8) unfolding k_def
proof (induction dbs arbitrary: s written thesis)
  case Nil
  show ?case by (rule Nil.prems(1)[of s]) (use Nil.prems in auto)
next
  case (Cons e dbs)
  obtain owner snap where e: "e = (owner, snap)" by (cases e)
  let ?path = "join_path [tmp, base owner @ ''.db'']" and ?k = "cl_key (st_client s)"
  have ok: "plain_element (base owner @ ''.db'')" "CHR 0x27 \<notin> set ?path" "owners_ok tmp (map fst dbs)"
    "\<And>o'. o' \<in> fst ` set dbs \<Longrightarrow> plain_element (base o' @ ''.db'') \<and> base o' \<noteq> base owner"
    using Cons.prems(5) e plain_db by (force simp: owners_ok_def snapshot_path_def list_all_iff)+
  have mine: "(owner, snap) \<in> set snaps" "fresh (st_world s) (base owner @ ''.db'')" "rows owner (st_world s) = body owner"
    using Cons.prems(4) Cons.prems(6)[of owner] Cons.prems(7)[of owner] e by force+
  obtain w1 where w1: "snap ?path (st_world s) = (w1, Inr ())" "os_ReadFile m ?path w1 = Inr (body owner)"
    "\<And>other. plain_element other \<Longrightarrow> other \<noteq> base owner @ ''.db'' \<Longrightarrow> fresh w1 other = fresh (st_world s) other"
    "\<And>o'. o' \<in> fst ` set snaps \<Longrightarrow> rows o' w1 = rows o' (st_world s)"
    using snapshot_works[OF assms(4) mine(1) ok(1,2) mine(2)] unfolding mine(3) by blast
  let ?s1 = "s\<lparr>st_world := w1\<rparr>"
  have waits: "st_waits ?s1 = []" using Cons.prems(2) by simp
  obtain s2 t where s2: "c_Put c (day_key owner day) (body owner) ?s1 = (s2, Inr t)" "same_side ?s1 s2"
    "objects view s2 = (objects view ?s1)(day_key owner day \<mapsto> sealed (ca_crypto c) (cl_key (st_client ?s1)) (day_key owner day) (body owner) t)"
    by (rule c_Put_works[OF assms(1) waits])
  have waits2: "st_waits s2 = []" using s2(2) by (simp add: same_side_def)
  obtain s3 u where s3: "c_Put c (latest_key owner) day s2 = (s3, Inr u)" "same_side s2 s3"
    "objects view s3 = (objects view s2)(latest_key owner \<mapsto> sealed (ca_crypto c) (cl_key (st_client s2)) (latest_key owner) day u)"
    by (rule c_Put_works[OF assms(1) waits2])
  have id: "same_identity (st_client s) (st_client s3)" "cl_key (st_client s2) = ?k" "cl_key (st_client s3) = ?k" "st_waits s3 = []"
    using s2(2) s3(2) by (simp_all add: same_side_def same_identity_def)
  have world: "st_world s3 = w1" using s2(2) s3(2) by (simp add: same_side_def)
  have here: "backed_up view c ?k day owner (body owner) s3"
    using s2(3) s3(3) id(2) by (auto simp: backed_up_def stored_def)
  show ?case
  proof (rule Cons.IH[where s = s3 and written = "written @ [day_key owner day]"])
    show "st_waits s3 = []" "distinct (map fst dbs)" using id(4) Cons.prems(3) by simp_all
    show "set dbs \<subseteq> set snaps" "owners_ok tmp (map fst dbs)" using Cons.prems(4) ok(3) by simp_all
    show "fresh (st_world s3) (base o' @ ''.db'')" if "o' \<in> fst ` set dbs" for o'
      using Cons.prems(6)[of o'] ok(4)[OF that] that w1(3) world by simp
    show "rows o' (st_world s3) = body o'" if "o' \<in> fst ` set snaps" for o'
      using Cons.prems(7)[OF that] w1(4)[OF that] world by simp
  next
    fix s' :: "('s, 'w) site"
    assume s': "backup_all c m tmp day (written @ [day_key owner day]) dbs s3 =
        (s', (written @ [day_key owner day]) @ map (\<lambda>(owner, snap). day_key owner day) dbs, None)"
      "st_waits s' = []" "same_identity (st_client s3) (st_client s')"
      "\<And>owner. owner \<in> fst ` set dbs \<Longrightarrow> backed_up view c (cl_key (st_client s3)) day owner (body owner) s'"
      "\<And>key. (\<And>owner. owner \<in> fst ` set dbs \<Longrightarrow> key \<noteq> day_key owner day \<and> key \<noteq> latest_key owner) \<Longrightarrow>
        objects view s' key = objects view s3 key"
    have new: "owner \<notin> fst ` set dbs" using Cons.prems(3) e by simp
    have keep: "objects view s' key = objects view s3 key" if "key = day_key owner day \<or> key = latest_key owner" for key
      by (rule s'(5)) (use that new in \<open>auto simp: image_iff\<close>)
    show thesis
    proof (rule Cons.prems(1)[of s'])
      show "backup_all c m tmp day written (e # dbs) s =
          (s', written @ map (\<lambda>(owner, snap). day_key owner day) (e # dbs), None)"
        using s'(1) s2(1) s3(1) w1 e by (simp add: Let_def on_disk_def)
      show "st_waits s' = []" "same_identity (st_client s) (st_client s')"
        using s'(2) same_identity_trans[OF id(1) s'(3)] by simp_all
      show "backed_up view c ?k day o' (body o') s'" if "o' \<in> fst ` set (e # dbs)" for o'
        using s'(4)[of o'] that e backed_up_keeps[OF here keep] id(3) by auto
      show "objects view s' key = objects view s key"
        if "\<And>o'. o' \<in> fst ` set (e # dbs) \<Longrightarrow> key \<noteq> day_key o' day \<and> key \<noteq> latest_key o'" for key
        using s'(5)[of key] that e s2(3) s3(3) by auto
    qed
  qed
qed

subsection \<open>What is restored\<close>

definition restoring_paths :: "(string \<times> string) list \<Rightarrow> string list" where
  "restoring_paths dbs = concat (map (\<lambda>(owner, path). [path, path @ ''.restoring'']) dbs)"

lemma restoring_paths_simps [simp]:
  "restoring_paths [] = []" "restoring_paths ((owner, path) # dbs) = path # (path @ ''.restoring'') # restoring_paths dbs"
  by (simp_all add: restoring_paths_def)

lemma in_restoring_paths: "(owner, path) \<in> set dbs \<Longrightarrow> path \<in> set (restoring_paths dbs)"
  by (force simp: restoring_paths_def)

text \<open>One database that is missing, from its snapshot's bytes to its file.\<close>

lemma restore_file_works:
  assumes "disk_works m P file linked" "files_documented m P file linked" "path \<in> P" "path @ ''.restoring'' \<in> P"
    and "linked w path = None" "linked w (path @ ''.restoring'') = None"
  obtains w1 w2 w3 where "mkdir_all m (dir path) w = (w1, Inr ())" "os_WriteFile m (path @ ''.restoring'') body w1 = (w2, Inr ())"
    "os_Rename m (path @ ''.restoring'') path w2 = (w3, Inr ())" "file w3 path = Some body"
    "same_files (P - {path, path @ ''.restoring''}) file linked w w3"
proof -
  let ?t = "path @ ''.restoring''"
  note works = disk_worksD[OF assms(1)]
  obtain w1 where w1: "mkdir_all m (dir path) w = (w1, Inr ())" using works(1) by blast
  note same1 = doc_MkdirAll[OF assms(2) w1]
  have l1: "linked w1 ?t = None" using same_filesD[OF same1 assms(4)] assms(6) by simp
  obtain w2 where w2: "os_WriteFile m ?t body w1 = (w2, Inr ())" using works(6)[OF assms(4) l1] by blast
  note doc2 = doc_WriteFile[OF assms(2,4) l1 w2]
  obtain w3 where w3: "os_Rename m ?t path w2 = (w3, Inr ())" using works(8)[OF assms(4,3), of w2] doc2 by auto
  have ne: "?t \<noteq> path" by simp
  note doc3 = doc_Rename[OF assms(2) assms(4,3) ne w3]
  have "same_files (P - {?t}) file linked w w2" by (rule same_files_trans[OF same1 doc2[THEN conjunct1]]) blast
  then have "same_files (P - {path, ?t}) file linked w w3" by (rule same_files_trans[OF _ doc3[THEN conjunct1]]) blast
  then show thesis using that[OF w1 w2 w3] doc3 doc2 by simp
qed

lemma restore_all_works:
  fixes s :: "('s, 'w) site"
  assumes "disk_works m P file linked" "files_documented m P file linked" "exact_store (ca_store c) view"
    and "crypto_signs (ca_crypto c)" "cr_public (ca_crypto c) k \<in> set (cl_trusted (st_client s))" "date_only day"
    and "st_waits s = []" "distinct (restoring_paths dbs)" "set (restoring_paths dbs) \<subseteq> P"
    and "\<And>p. p \<in> set (restoring_paths dbs) \<Longrightarrow> linked (st_world s) p = None"
    and "\<And>owner path. (owner, path) \<in> set dbs \<Longrightarrow> backed_up view c k day owner (body owner) s"
  obtains s' where "restore_all quote c m restored dbs s =
      (s', restored @ map snd (filter (\<lambda>(owner, path). file (st_world s) path = None) dbs), None)"
    "\<And>owner path. (owner, path) \<in> set dbs \<Longrightarrow> file (st_world s') path =
      (case file (st_world s) path of None \<Rightarrow> Some (body owner) | Some b \<Rightarrow> Some b)"
    "same_files (P - set (restoring_paths dbs)) file linked (st_world s) (st_world s')"
  using assms(5,7-11)
proof (induction dbs arbitrary: s restored thesis)
  case Nil
  show ?case by (rule Nil.prems(1)[of s]) (use Nil.prems in auto)
next
  case (Cons e dbs)
  obtain owner path where e: "e = (owner, path)" by (cases e)
  let ?t = "path @ ''.restoring''" and ?w = "st_world s"
  note works = disk_worksD[OF assms(1)]
  have P: "path \<in> P" "?t \<in> P" "set (restoring_paths dbs) \<subseteq> P" using Cons.prems(5) e by auto
  have l: "linked ?w path = None" "linked ?w ?t = None" using Cons.prems(6)[of path] Cons.prems(6)[of ?t] e by simp_all
  have fresh: "path \<notin> set (restoring_paths dbs)" "?t \<notin> set (restoring_paths dbs)" "distinct (restoring_paths dbs)"
    using Cons.prems(4) e by auto
  have later: "p \<in> set (restoring_paths dbs) \<Longrightarrow> p \<noteq> path \<and> p \<noteq> ?t" for p using fresh by auto
  have rest: "linked (st_world s) p = None" if "p \<in> set (restoring_paths dbs)" for p
    using Cons.prems(6)[of p] that e by simp
  show ?case
  proof (cases "file ?w path")
    case (Some b)
    then have there: "\<not> not_there m path ?w" using works(3)[OF P(1) l(1) Some] by (simp add: not_there_def)
    show ?thesis
    proof (rule Cons.IH[where s = s and restored = restored])
      show "distinct (restoring_paths dbs)" "set (restoring_paths dbs) \<subseteq> P" by (rule fresh(3), rule P(3))
      show "backed_up view c k day o' (body o') s" if "(o', p) \<in> set dbs" for o' p using Cons.prems(7)[of o' p] that by simp
      fix s' :: "('s, 'w) site"
      assume s': "restore_all quote c m restored dbs s =
          (s', restored @ map snd (filter (\<lambda>(owner, path). file (st_world s) path = None) dbs), None)"
        "\<And>owner path. (owner, path) \<in> set dbs \<Longrightarrow> file (st_world s') path =
          (case file (st_world s) path of None \<Rightarrow> Some (body owner) | Some b \<Rightarrow> Some b)"
        "same_files (P - set (restoring_paths dbs)) file linked (st_world s) (st_world s')"
      have "file (st_world s') path = Some b" using same_filesD[OF s'(3), of path] fresh P(1) Some by simp
      then show thesis
        using s' e there Some same_files_mono[OF s'(3), of "P - set (restoring_paths (e # dbs))"]
        by (intro Cons.prems(1)[of s']) auto
    qed (use Cons.prems(2,3) rest in auto)
  next
    case None
    have gone: "not_there m path ?w" by (rule works(4)[OF P(1) l(1) None])
    have up: "backed_up view c k day owner (body owner) s" using Cons.prems(7)[of owner path] e by simp
    then obtain t u where obs: "objects view s (day_key owner day) = Some (sealed (ca_crypto c) k (day_key owner day) (body owner) t)"
      "objects view s (latest_key owner) = Some (sealed (ca_crypto c) k (latest_key owner) day u)"
      by (auto simp: backed_up_def stored_def)
    have ok: "verify (ca_crypto c) (cl_trusted (st_client r)) key (sealed (ca_crypto c) k key b v)"
      if "cl_trusted (st_client r) = cl_trusted (st_client s)" for r :: "('s, 'w) site" and key b v
      using verify_own[OF assms(4), of k "cl_trusted (st_client s)"] Cons.prems(2) that by (simp add: sealed_def)
    obtain s1 where s1: "c_Get c (latest_key owner) s = (s1, Inr (sealed (ca_crypto c) k (latest_key owner) day u))"
      "same_side s s1" "objects view s1 = objects view s"
      by (rule c_Get_there[OF assms(3) Cons.prems(3) obs(2) ok[OF refl]])
    have id1: "st_waits s1 = []" "cl_trusted (st_client s1) = cl_trusted (st_client s)" "st_world s1 = ?w"
      using s1(2) by (simp_all add: same_side_def same_identity_def)
    obtain s2 where s2: "c_Get c (day_key owner day) s1 = (s2, Inr (sealed (ca_crypto c) k (day_key owner day) (body owner) t))"
      "same_side s1 s2" "objects view s2 = objects view s1"
      by (rule c_Get_there[OF assms(3) id1(1) _ ok[OF id1(2)]]) (use obs(1) s1(3) in auto)
    have id2: "st_waits s2 = []" "cl_trusted (st_client s2) = cl_trusted (st_client s)" "st_world s2 = ?w"
      using s2(2) id1 by (simp_all add: same_side_def same_identity_def)
    note made = restore_file_works[OF assms(1,2), OF P(1,2) l, where body = "body owner"]
    obtain w1 w2 w3 where w: "mkdir_all m (dir path) ?w = (w1, Inr ())" "os_WriteFile m ?t (body owner) w1 = (w2, Inr ())"
      "os_Rename m ?t path w2 = (w3, Inr ())" "file w3 path = Some (body owner)"
      "same_files (P - {path, ?t}) file linked ?w w3"
      by (rule made)
    let ?s4 = "s2\<lparr>st_world := w3\<rparr>"
    have step: "restore_all quote c m restored (e # dbs) s = restore_all quote c m (restored @ [path]) dbs ?s4"
      using gone s1(1) s2(1) w id2(3) assms(6) e by (simp add: on_disk_def)
    have same: "file w3 p = file ?w p \<and> linked w3 p = linked ?w p" if "p \<in> set (restoring_paths dbs)" for p
      using same_filesD[OF w(5), of p] later[OF that] that P(3) by auto
    show ?thesis
    proof (rule Cons.IH[where s = ?s4 and restored = "restored @ [path]"])
      show "cr_public (ca_crypto c) k \<in> set (cl_trusted (st_client ?s4))" "st_waits ?s4 = []"
        using Cons.prems(2) id2 by simp_all
      show "distinct (restoring_paths dbs)" "set (restoring_paths dbs) \<subseteq> P" by (rule fresh(3), rule P(3))
      show "linked (st_world ?s4) p = None" if "p \<in> set (restoring_paths dbs)" for p using same[OF that] rest[OF that] by simp
      show "backed_up view c k day o' (body o') ?s4" if "(o', p) \<in> set dbs" for o' p
        by (rule backed_up_keeps[OF Cons.prems(7)[of o' p]]) (use that s1(3) s2(3) in auto)
    next
      fix s' :: "('s, 'w) site"
      assume s': "restore_all quote c m (restored @ [path]) dbs ?s4 =
          (s', (restored @ [path]) @ map snd (filter (\<lambda>(owner, path). file (st_world ?s4) path = None) dbs), None)"
        "\<And>owner path. (owner, path) \<in> set dbs \<Longrightarrow> file (st_world s') path =
          (case file (st_world ?s4) path of None \<Rightarrow> Some (body owner) | Some b \<Rightarrow> Some b)"
        "same_files (P - set (restoring_paths dbs)) file linked (st_world ?s4) (st_world s')"
      have paths: "filter (\<lambda>(owner, path). file (st_world ?s4) path = None) dbs = filter (\<lambda>(owner, path). file ?w path = None) dbs"
        using same in_restoring_paths by (intro filter_cong) fastforce+
      have "file (st_world s') path = Some (body owner)"
        using same_filesD[OF s'(3), of path] fresh P(1) w(4) by simp
      moreover have "file (st_world s') p = (case file ?w p of None \<Rightarrow> Some (body o') | Some b \<Rightarrow> Some b)"
        if "(o', p) \<in> set dbs" for o' p using s'(2)[OF that] same[OF in_restoring_paths[OF that]] by simp
      moreover have "same_files (P - set (restoring_paths (e # dbs))) file linked ?w (st_world s')"
        using same_files_trans[OF w(5), of "P - set (restoring_paths dbs)" "st_world s'" "P - set (restoring_paths (e # dbs))"] s'(3) e
        by auto
      ultimately show thesis using step s'(1) paths e None by (intro Cons.prems(1)[of s']) auto
    qed
  qed
qed

subsection \<open>From the garage to a rebuilt host\<close>

lemma by_key_same:
  assumes "distinct (map fst m)"
  shows "set (by_key m) = set m" "map fst (by_key m) = sort (map fst m)" "mset (by_key m) = mset m"
proof -
  show keys: "map fst (by_key m) = sort (map fst m)" by (simp add: by_key_def comp_def)
  show set: "set (by_key m) = set m"
  proof (intro set_eqI iffI)
    fix e assume "e \<in> set (by_key m)"
    then obtain k where k: "k \<in> fst ` set m" "e = (k, the (map_of m k))" by (auto simp: by_key_def)
    then obtain v where "(k, v) \<in> set m" by auto
    then show "e \<in> set m" using k map_of_is_SomeI[OF assms] by auto
  next
    fix e assume "e \<in> set m"
    then show "e \<in> set (by_key m)" using map_of_is_SomeI[OF assms, of "fst e" "snd e"]
      by (force simp: by_key_def)
  qed
  have "distinct (map fst (by_key m))" using assms unfolding keys by simp
  then have "distinct (by_key m)" "distinct m" using assms by (simp_all add: distinct_map)
  then show "mset (by_key m) = mset m" using set by (simp add: set_eq_iff_mset_eq_distinct)
qed

lemma restoring_paths_by_key:
  assumes "distinct (map fst m)"
  shows "distinct (restoring_paths (by_key m)) = distinct (restoring_paths m)"
    "set (restoring_paths (by_key m)) = set (restoring_paths m)"
proof -
  have "mset (restoring_paths dbs) = (\<Sum>e \<in># mset dbs. mset [snd e, snd e @ ''.restoring''])" for dbs
    by (induction dbs) (auto simp: restoring_paths_def)
  then have "mset (restoring_paths (by_key m)) = mset (restoring_paths m)"
    using by_key_same(3)[OF assms] by simp
  then show "distinct (restoring_paths (by_key m)) = distinct (restoring_paths m)"
    "set (restoring_paths (by_key m)) = set (restoring_paths m)"
    by (metis mset_eq_imp_distinct_iff, metis mset_eq_setD)
qed

lemma owners_ok_by_key:
  assumes "distinct (map fst m)" "owners_ok tmp (map fst m)"
  shows "owners_ok tmp (map fst (by_key m))"
proof -
  have "mset (map fst (by_key m)) = mset (map fst m)" using by_key_same(2)[OF assms(1)] by simp
  moreover from this have "mset (map base (map fst (by_key m))) = mset (map base (map fst m))" by (simp only: mset_map)
  ultimately show ?thesis
    using assms(2) mset_eq_setD mset_eq_imp_distinct_iff[of "map base (map fst (by_key m))" "map base (map fst m)"]
    unfolding owners_ok_def list_all_iff by metis
qed


text \<open>A snapshot on the small disk: it copies \<open>rows\<close> to its target, unless there is a file or a quote.\<close>

definition demo_snapshot :: "string \<Rightarrow> disk snapshot" where
  "demo_snapshot rows path w =
    (if CHR 0x27 \<in> set path then (w, Inl (Opaque ''quote''))
     else if demo_file w path \<noteq> None then (w, Inl (Opaque ''output file already exists''))
     else (w\<lparr>dk_files := AList.update path rows (dk_files w)\<rparr>, Inr ()))"

abbreviation demo_snaps :: "(string \<times> disk snapshot) list" where
  "demo_snaps \<equiv> [(''garage/chatroom'', demo_snapshot ''posts''), (''agents/dev'', demo_snapshot ''threads'')]"

abbreviation demo_rows :: "string \<Rightarrow> disk \<Rightarrow> string" where
  "demo_rows owner w \<equiv> if owner = ''agents/dev'' then ''threads'' else ''posts''"

abbreviation demo_fresh :: "disk \<Rightarrow> string \<Rightarrow> bool" where
  "demo_fresh w name \<equiv> demo_file w (join_path [''/tmp/backup'', name]) = None"

lemma demo_snapshots_work:
  "snapshots_work demo_machine ''/tmp/backup'' demo_fresh demo_rows demo_snaps"
  "temp_dir_works demo_machine ''/tmp/backup'' demo_fresh demo_rows demo_snaps (st_world demo_laptop)"
proof -
  have one: "if CHR 0x27 \<in> set (join_path [''/tmp/backup'', name]) \<or> \<not> demo_fresh w name
    then \<exists>w' e. demo_snapshot rows (join_path [''/tmp/backup'', name]) w = (w', Inl e)
    else \<exists>w'. demo_snapshot rows (join_path [''/tmp/backup'', name]) w = (w', Inr ()) \<and>
      os_ReadFile demo_machine (join_path [''/tmp/backup'', name]) w' = Inr rows \<and>
      (\<forall>other. plain_element other \<and> other \<noteq> name \<longrightarrow> demo_fresh w' other = demo_fresh w other)"
    if "plain_element name" for name w rows
  proof -
    have "join_path [''/tmp/backup'', other] = join_path [''/tmp/backup'', name] \<longleftrightarrow> other = name"
      if "plain_element other" for other
      using join_under(1)[of "''/tmp/backup''"] under_inj[of "[other]" "[name]"] \<open>plain_element name\<close> that by simp
    then show ?thesis by (auto simp: demo_snapshot_def demo_machine_def)
  qed
  show "snapshots_work demo_machine ''/tmp/backup'' demo_fresh demo_rows demo_snaps"
    using one[of _ _ "''posts''"] one[of _ _ "''threads''"] by (simp add: snapshots_work_def)
  show "temp_dir_works demo_machine ''/tmp/backup'' demo_fresh demo_rows demo_snaps (st_world demo_laptop)"
    by (simp add: temp_dir_works_def demo_machine_def demo_laptop_def)
qed


end
