(* ===== verification/Setup.thy ===== *)
theory Setup
  imports Backup
begin

section \<open>Making a host: hosting/setup.go\<close>

text \<open>
  \<open>setup_host\<close> is the machine \<open>Setup\<close> configures: its files, how it runs commands, and what the code
  uses of \<open>net/http\<close>, \<open>filepath.Glob\<close>, SHA-256 (in hex), the key generators and the three texts that are
  embedded from files next to the code. A file made with \<open>O_EXCL\<close>, written and closed is \<open>sh_WriteNew\<close>.
  What \<open>net/netip\<close> says of the range SSH is open to is the record \<open>ssh_range\<close>. A step's result is a
  \<open>unit res\<close>; \<open>se_out\<close> is what was said, a line each.
\<close>

definition Home :: string where "Home = ''/var/lib/garage''"
definition Keys :: string where "Keys = ''/etc/garage''"

definition packages :: "string list" where "packages = [''ca-certificates'', ''git'', ''gh'']"

record download =
  dl_URL :: string
  dl_SHA256 :: string

definition Mise :: download where
  "Mise = \<lparr>dl_URL = ''https://github.com/jdx/mise/releases/download/v2026.9.12/mise-v2026.9.12-linux-x64'',
     dl_SHA256 = ''e79ae57945034903aee8aa2ea66b4c7ca9cd4f4edd5a8a78a589cbae6d0f428a''\<rparr>"

record ssh_range =
  sr_IsValid :: bool
  sr_String :: string
  sr_Masked :: string
  sr_Addr :: string
  sr_Is6 :: bool
  sr_IsSingleIP :: bool

record setup_config =
  cf_SSHFrom :: ssh_range
  cf_Trust :: "string list"
  cf_Binary :: string
  cf_Mise :: download

record ('w, 'r, 'i) setup_host =
  sh_machine :: "'w machine"
  sh_Root :: string
  sh_Run :: "string \<Rightarrow> string list \<Rightarrow> 'w \<Rightarrow> 'w \<times> string res"
  sh_Fetch :: "string \<Rightarrow> 'w \<Rightarrow> 'w \<times> (nat \<times> string \<times> string) res"
  sh_Glob :: "string \<Rightarrow> 'w \<Rightarrow> string list"
  sh_Size :: "string \<Rightarrow> 'w \<Rightarrow> int option"
  sh_WriteNew :: "string \<Rightarrow> string \<Rightarrow> 'w \<Rightarrow> 'w \<times> unit res"
  sh_sha :: "string \<Rightarrow> string"
  sh_crypto :: crypto
  sh_age :: "('r, 'i) age"
  sh_seed :: "'w \<Rightarrow> string res"
  sh_identity :: "'w \<Rightarrow> (string \<times> string) res"
  sh_units :: "string \<Rightarrow> string"
  sh_nftablesConf :: string
  sh_sshdConf :: string

text \<open>\<open>Exec\<close>, which runs the commands of a real host, over the calls of a machine.\<close>

definition Exec :: "'w machine \<Rightarrow> string \<Rightarrow> string list \<Rightarrow> 'w \<Rightarrow> 'w \<times> string res" where
  "Exec m name args w =
    (case os_CombinedOutput m name args w of
       (w1, out, Some e) \<Rightarrow> (w1, Inl (Wrap (name @ '' '' @ join '' '' args @ '': '') e (nl @ out)))
     | (w1, out, None) \<Rightarrow> (w1, Inr (trim_space out)))"

record 'w host_setup =
  se_world :: 'w
  se_out :: "string list"
  se_binaryChanged :: bool

definition host_path :: "('w, 'r, 'i) setup_host \<Rightarrow> string \<Rightarrow> string" where
  "host_path h p = join_path [sh_Root h, p]"

definition say :: "string \<Rightarrow> 'w host_setup \<Rightarrow> 'w host_setup" where "say line s = s\<lparr>se_out := se_out s @ [line]\<rparr>"

definition on_host :: "('w \<Rightarrow> 'w \<times> 'a) \<Rightarrow> 'w host_setup \<Rightarrow> 'w host_setup \<times> 'a" where
  "on_host f s = (let (w, r) = f (se_world s) in (s\<lparr>se_world := w\<rparr>, r))"

definition run_command :: "('w, 'r, 'i) setup_host \<Rightarrow> string \<Rightarrow> string list \<Rightarrow> 'w host_setup \<Rightarrow> 'w host_setup \<times> string res" where
  "run_command h name args = on_host (sh_Run h name args)"

abbreviation done_ok :: "'w host_setup \<Rightarrow> 'w host_setup \<times> unit res" where "done_ok s \<equiv> (s, Inr ())"

subsection \<open>Before anything is touched\<close>

definition setup_check :: "(string \<Rightarrow> string) \<Rightarrow> ('w, 'r, 'i) setup_host \<Rightarrow> setup_config \<Rightarrow> 'w host_setup \<Rightarrow> goerr option" where
  "setup_check quote h cfg s =
    (if \<not> sr_IsValid (cf_SSHFrom cfg) then Some (Opaque ''setup: give the IP or range that may SSH in'')
     else case find (\<lambda>k. case b64_decode k of None \<Rightarrow> True | Some pub \<Rightarrow> length pub \<noteq> PublicKeySize) (cf_Trust cfg) of
       Some k \<Rightarrow> Some (Opaque (''setup: '' @ quote k @ '' is not a public key (garage init prints the laptop's)''))
     | None \<Rightarrow>
        (case os_Stat (mx_host (sh_machine h)) (host_path h (Keys @ ''/r2.env'')) (se_world s) of
           Some e \<Rightarrow> Some (Wrap (''setup: copy the bucket credentials to '' @ Keys @ ''/r2.env first: '') e '''')
         | None \<Rightarrow>
            if list_ex (\<lambda>p. case sh_Size h p (se_world s) of None \<Rightarrow> False | Some n \<Rightarrow> n > 0)
                 (sh_Glob h (host_path h ''/home/*/.ssh/authorized_keys'') (se_world s) @ [host_path h ''/root/.ssh/authorized_keys''])
            then None
            else Some (Opaque ''setup: no authorized_keys for root or any user; key-only SSH would lock everyone out'')))"

subsection \<open>Users, packages, mise\<close>

fun make_dirs :: "('w, 'r, 'i) setup_host \<Rightarrow> string list \<Rightarrow> 'w host_setup \<Rightarrow> 'w host_setup \<times> unit res" where
  "make_dirs h [] s = done_ok s"
| "make_dirs h (d # ds) s =
    try_then (on_host (mkdir_all (sh_machine h) (host_path h d)) s) (\<lambda>_ s1.
    try_then (on_host (os_Chmod (sh_machine h) (host_path h d)) s1) (\<lambda>_. make_dirs h ds))"

definition garage_owns :: "('w, 'r, 'i) setup_host \<Rightarrow> string list \<Rightarrow> 'w host_setup \<Rightarrow> 'w host_setup \<times> unit res" where
  "garage_owns h args s = try_then (run_command h ''chown'' args s) (\<lambda>_. done_ok)"

definition setup_user :: "('w, 'r, 'i) setup_host \<Rightarrow> 'w host_setup \<Rightarrow> 'w host_setup \<times> unit res" where
  "setup_user h s =
    try_then
      (case run_command h ''id'' [''-u'', ''garage''] s of
         (s1, Inr out) \<Rightarrow> done_ok s1
       | (s1, Inl e) \<Rightarrow>
           try_then (run_command h ''useradd'' [''--system'', ''--user-group'', ''--home-dir'', Home, ''--shell'',
               ''/usr/sbin/nologin'', ''garage''] s1) (\<lambda>_ s2. done_ok (say ''made the garage user'' s2)))
      (\<lambda>_ s2. try_then (make_dirs h [Home, Keys] s2) (\<lambda>_. garage_owns h [''garage:garage'', host_path h Home]))"

fun missing_packages :: "('w, 'r, 'i) setup_host \<Rightarrow> string list \<Rightarrow> 'w host_setup \<Rightarrow> 'w host_setup \<times> string list" where
  "missing_packages h [] s = (s, [])"
| "missing_packages h (p # ps) s =
    (let (s1, r) = run_command h ''dpkg-query'' [''-W'', ''-f=${Status}'', p] s; (s2, rest) = missing_packages h ps s1 in
     (s2, if r = Inr ''install ok installed'' then rest else p # rest))"

definition setup_packages :: "('w, 'r, 'i) setup_host \<Rightarrow> 'w host_setup \<Rightarrow> 'w host_setup \<times> unit res" where
  "setup_packages h s =
    (let (s1, missing) = missing_packages h packages s in
     if missing = [] then done_ok s1
     else try_then (run_command h ''apt-get'' [''update'', ''-q''] s1) (\<lambda>_ s2.
       try_then (run_command h ''env'' ([''DEBIAN_FRONTEND=noninteractive'', ''apt-get'', ''install'', ''-qy''] @ missing) s2) (\<lambda>_ s3.
         done_ok (say (''installed '' @ join '' '' missing) s3))))"

definition install_file :: "('w, 'r, 'i) setup_host \<Rightarrow> string \<Rightarrow> string \<Rightarrow> 'w host_setup \<Rightarrow> 'w host_setup \<times> unit res" where
  "install_file h path raw s =
    try_then (on_host (mkdir_all (sh_machine h) (dir path)) s) (\<lambda>_ s1.
    try_then (on_host (os_WriteFile (sh_machine h) (path @ ''.new'') raw) s1) (\<lambda>_.
      on_host (os_Rename (sh_machine h) (path @ ''.new'') path)))"

definition setup_mise :: "('w, 'r, 'i) setup_host \<Rightarrow> download \<Rightarrow> 'w host_setup \<Rightarrow> 'w host_setup \<times> unit res" where
  "setup_mise h mise s =
    (let path = host_path h ''/usr/local/bin/mise'' in
     if (case os_ReadFile (sh_machine h) path (se_world s) of Inl e \<Rightarrow> False | Inr have_it \<Rightarrow> sh_sha h have_it = dl_SHA256 mise)
     then done_ok s
     else try_then (on_host (sh_Fetch h (dl_URL mise)) s) (\<lambda>(code, status, raw) s1.
       if code \<noteq> 200 then (s1, Inl (Opaque (''setup: GET '' @ dl_URL mise @ '': '' @ status)))
       else if sh_sha h raw \<noteq> dl_SHA256 mise
         then (s1, Inl (Opaque (''setup: '' @ dl_URL mise @ '' has sha256 '' @ sh_sha h raw @ '', want '' @ dl_SHA256 mise)))
       else try_then (install_file h path raw s1) (\<lambda>_ s2. done_ok (say (''installed '' @ dl_URL mise) s2))))"

subsection \<open>Keys\<close>

text \<open>\<open>bucket.GenerateKey\<close> and \<open>secrets.GenerateMaster\<close>, on this machine's files.\<close>

definition new_signing_key :: "('w, 'r, 'i) setup_host \<Rightarrow> string \<Rightarrow> 'w \<Rightarrow> 'w \<times> unit res" where
  "new_signing_key h path w =
    (case sh_seed h w of Inl e \<Rightarrow> (w, Inl e) | Inr seed \<Rightarrow> sh_WriteNew h path (b64_encode seed @ [CHR 0x0A]) w)"

definition new_master_key :: "('w, 'r, 'i) setup_host \<Rightarrow> string \<Rightarrow> 'w \<Rightarrow> 'w \<times> unit res" where
  "new_master_key h path w =
    (case sh_identity h w of Inl e \<Rightarrow> (w, Inl e) | Inr (i, recipient) \<Rightarrow> sh_WriteNew h path (i @ [CHR 0x0A]) w)"

text \<open>A key that is missing is made; the result is what was made.\<close>

definition make_key ::
  "('w, 'r, 'i) setup_host \<Rightarrow> (string \<Rightarrow> 'w \<Rightarrow> 'w \<times> unit res) \<Rightarrow> string \<Rightarrow> 'w host_setup \<Rightarrow> 'w host_setup \<times> string list res" where
  "make_key h generate path s =
    (if not_there (sh_machine h) path (se_world s)
     then try_then (on_host (generate path) s) (\<lambda>_ s1. (s1, Inr [path]))
     else (s, Inr []))"

text \<open>What reading a file of this machine is to the loaders of \<open>bucket\<close> and \<open>secrets\<close>.\<close>

definition as_files :: "('w, 'r, 'i) setup_host \<Rightarrow> string \<Rightarrow> 'w \<Rightarrow> goerr option \<times> files" where
  "as_files h path w = (case os_ReadFile (sh_machine h) path w of Inl e \<Rightarrow> (Some e, []) | Inr b \<Rightarrow> (None, [(path, b)]))"

definition load_signing :: "('w, 'r, 'i) setup_host \<Rightarrow> string \<Rightarrow> 'w \<Rightarrow> string res" where
  "load_signing h path w = (let (fault, fs) = as_files h path w in LoadKey fault path fs)"

text \<open>The panic on a master key file with no identity ends setup where an error would.\<close>

definition load_master :: "('w, 'r, 'i) setup_host \<Rightarrow> string \<Rightarrow> 'w \<Rightarrow> 'i master res" where
  "load_master h path w =
    (let (fault, fs) = as_files h path w in
     case LoadMaster (sh_age h) fault path fs of None \<Rightarrow> Inl (Opaque ''panic: index out of range'') | Some r \<Rightarrow> r)"

definition new_trust :: "string \<Rightarrow> string list \<Rightarrow> string" where
  "new_trust have_now trust = concat (map (\<lambda>k. k @ [CHR 0x0A]) (filter (\<lambda>k. cut have_now k = None) trust))"

definition trust_laptops :: "('w, 'r, 'i) setup_host \<Rightarrow> string list \<Rightarrow> 'w host_setup \<Rightarrow> 'w host_setup \<times> unit res" where
  "trust_laptops h trust s =
    (let trusted = host_path h (Keys @ ''/trusted.keys'') in
     case (case os_ReadFile (sh_machine h) trusted (se_world s) of
             Inl e \<Rightarrow> if err_is e Host.ErrNotExist then Inr '''' else Inl e
           | Inr b \<Rightarrow> Inr b) of
       Inl e \<Rightarrow> (s, Inl e)
     | Inr now \<Rightarrow>
        (let add = new_trust now trust in
         if add = '''' then done_ok s
         else try_then (on_host (os_WriteFile (sh_machine h) trusted (now @ add)) s) (\<lambda>_ s1.
           done_ok (say (''trusted '' @ itoa (int (length (filter (\<lambda>c. c = CHR 0x0A) add))) @ '' new laptop key(s)'') s1))))"

fun chmod_all :: "('w, 'r, 'i) setup_host \<Rightarrow> string list \<Rightarrow> 'w host_setup \<Rightarrow> 'w host_setup \<times> unit res" where
  "chmod_all h [] s = done_ok s"
| "chmod_all h (n # ns) s =
    try_then (on_host (os_Chmod (sh_machine h) (join_path [host_path h Keys, n])) s) (\<lambda>_. chmod_all h ns)"

text \<open>What the laptop must pin is said when both keys load.\<close>

definition tell_keys :: "('w, 'r, 'i) setup_host \<Rightarrow> string list \<Rightarrow> 'w host_setup \<Rightarrow> 'w host_setup \<times> unit res" where
  "tell_keys h made s =
    (case load_signing h (host_path h (Keys @ ''/signing.key'')) (se_world s) of
       Inl e \<Rightarrow> (s, Inl e)
     | Inr key \<Rightarrow>
        (case load_master h (host_path h (Keys @ ''/master.key'')) (se_world s) of
           Inl e \<Rightarrow> (s, Inl e)
         | Inr m \<Rightarrow>
            (let s1 = (if made = [] then s
                 else say (''made '' @ join '' and '' made @ '': keep an offline copy of each, a rebuilt host needs them'') s) in
             done_ok (say (''host public key (add it to the laptop'' @ [CHR 0x27] @ ''s trusted.keys):'' @ nl @ ''  '' @
               b64_encode (cr_public (sh_crypto h) key) @ nl @ ''master recipient (put it in the laptop'' @ [CHR 0x27] @
               ''s recipient):'' @ nl @ ''  '' @ ma_recipient m) s1))))"

definition own_keys :: "('w, 'r, 'i) setup_host \<Rightarrow> string list \<Rightarrow> 'w host_setup \<Rightarrow> 'w host_setup \<times> unit res" where
  "own_keys h made s =
    try_then (on_host (os_ReadDir (mx_host (sh_machine h)) (host_path h Keys)) s) (\<lambda>entries s1.
    try_then (chmod_all h (map fst entries) s1) (\<lambda>_ s2.
    try_then (garage_owns h [''-R'', ''garage:garage'', host_path h Keys] s2) (\<lambda>_. tell_keys h made)))"

definition setup_keys :: "('w, 'r, 'i) setup_host \<Rightarrow> setup_config \<Rightarrow> 'w host_setup \<Rightarrow> 'w host_setup \<times> unit res" where
  "setup_keys h cfg s =
    try_then (make_key h (new_signing_key h) (host_path h (Keys @ ''/signing.key'')) s) (\<lambda>made s1.
    try_then (make_key h (new_master_key h) (host_path h (Keys @ ''/master.key'')) s1) (\<lambda>made2 s2.
    try_then (trust_laptops h (cf_Trust cfg) s2) (\<lambda>_. own_keys h (made @ made2))))"

subsection \<open>The binary\<close>

definition setup_link :: "('w, 'r, 'i) setup_host \<Rightarrow> string \<Rightarrow> string \<Rightarrow> 'w host_setup \<Rightarrow> 'w host_setup \<times> bool \<times> unit res" where
  "setup_link h target path s = (case link (sh_machine h) target path (se_world s) of (w, had, r) \<Rightarrow> (s\<lparr>se_world := w\<rparr>, had, r))"

definition setup_binary :: "('w, 'r, 'i) setup_host \<Rightarrow> setup_config \<Rightarrow> 'w host_setup \<Rightarrow> 'w host_setup \<times> unit res" where
  "setup_binary h cfg s =
    (case os_ReadFile (sh_machine h) (cf_Binary cfg) (se_world s) of
       Inl e \<Rightarrow> (s, Inl e)
     | Inr raw \<Rightarrow>
        (let name = take 12 (sh_sha h raw); dest = host_path h (join_path [Releases, name, ''garage'']) in
         try_then (if not_there (sh_machine h) dest (se_world s) then install_file h dest raw s else done_ok s) (\<lambda>_ s1.
           case setup_link h (name @ ''/garage'') (host_path h (Releases @ ''/current'')) s1 of
             (s2, changed, Inl e) \<Rightarrow> (s2\<lparr>se_binaryChanged := changed\<rparr>, Inl e)
           | (s2, changed, Inr u) \<Rightarrow>
              (let s3 = s2\<lparr>se_binaryChanged := changed\<rparr>;
                   s4 = (if changed then say (''releases/current is now '' @ name) s3 else s3) in
               try_then (garage_owns h [''-R'', ''garage:garage'', host_path h Releases] s4) (\<lambda>_ s5.
                 case setup_link h ''releases/current'' (host_path h ''/opt/garage/serve-current'') s5 of
                   (s6, moved, Inl e) \<Rightarrow> (s6, Inl e)
                 | (s6, moved, Inr u) \<Rightarrow>
                    (case setup_link h ''/opt/garage/serve-current'' (host_path h ''/usr/local/bin/garage'')
                         (s6\<lparr>se_binaryChanged := se_binaryChanged s6 \<or> moved\<rparr>) of
                       (s7, had, r) \<Rightarrow> (s7, r)))))))"

subsection \<open>Units, sshd, the firewall\<close>

text \<open>Whether the file was changed comes with the error, if any.\<close>

definition writeIfChanged :: "('w, 'r, 'i) setup_host \<Rightarrow> string \<Rightarrow> string \<Rightarrow> 'w host_setup \<Rightarrow> 'w host_setup \<times> bool res" where
  "writeIfChanged h path want s =
    (let p = host_path h path in
     if os_ReadFile (sh_machine h) p (se_world s) = Inr want then (s, Inr False)
     else try_then (on_host (mkdir_all (sh_machine h) (dir p)) s) (\<lambda>_ s1.
       try_then (on_host (os_WriteFile (sh_machine h) p want) s1) (\<lambda>_ s2. (s2, Inr True))))"

definition unit_names :: "string list" where
  "unit_names = [''garage-backup.service'', ''garage-backup.timer'', ''garage-serve.service'']"

fun write_units :: "('w, 'r, 'i) setup_host \<Rightarrow> string list \<Rightarrow> 'w host_setup \<Rightarrow> 'w host_setup \<times> string list res" where
  "write_units h [] s = (s, Inr [])"
| "write_units h (n # ns) s =
    try_then (writeIfChanged h (''/etc/systemd/system/'' @ n) (sh_units h n) s) (\<lambda>c s1.
    try_then (write_units h ns s1) (\<lambda>changed s2. (s2, Inr (if c then n # changed else changed))))"

definition systemctl :: "('w, 'r, 'i) setup_host \<Rightarrow> string list \<Rightarrow> 'w host_setup \<Rightarrow> 'w host_setup \<times> unit res" where
  "systemctl h args s = try_then (run_command h ''systemctl'' args s) (\<lambda>_. done_ok)"

definition setup_units :: "('w, 'r, 'i) setup_host \<Rightarrow> 'w host_setup \<Rightarrow> 'w host_setup \<times> unit res" where
  "setup_units h s =
    try_then (write_units h unit_names s) (\<lambda>changed s1.
    try_then (if changed = [] then done_ok s1 else systemctl h [''daemon-reload''] s1) (\<lambda>_ s2.
    try_then (systemctl h [''enable'', ''--now'', ''garage-serve.service'', ''garage-backup.timer''] s2) (\<lambda>_ s3.
    try_then (if ''garage-serve.service'' \<in> set changed \<or> se_binaryChanged s3
        then try_then (systemctl h [''restart'', ''garage-serve.service''] s3) (\<lambda>_ s4. done_ok (say ''restarted garage serve'' s4))
        else done_ok s3) (\<lambda>_ s4.
      if ''garage-backup.timer'' \<in> set changed then systemctl h [''restart'', ''garage-backup.timer''] s4 else done_ok s4))))"

definition sshd_path :: string where "sshd_path = ''/etc/ssh/sshd_config.d/00-garage.conf''"

definition setup_sshd :: "('w, 'r, 'i) setup_host \<Rightarrow> 'w host_setup \<Rightarrow> 'w host_setup \<times> unit res" where
  "setup_sshd h s =
    (let p = host_path h sshd_path; old = os_ReadFile (sh_machine h) p (se_world s) in
     try_then (writeIfChanged h sshd_path (sh_sshdConf h) s) (\<lambda>changed s1.
       if \<not> changed then done_ok s1
       else case run_command h ''sshd'' [''-t''] s1 of
         (s2, Inl e) \<Rightarrow>
           (s2\<lparr>se_world := (case old of Inr b \<Rightarrow> fst (os_WriteFile (sh_machine h) p b (se_world s2))
                                     | Inl x \<Rightarrow> os_Remove (sh_machine h) p (se_world s2))\<rparr>,
            Inl (Wrap ''setup: sshd rejects the key-only config, left it as it was: '' e ''''))
       | (s2, Inr out) \<Rightarrow>
           try_then (systemctl h [''reload'', ''ssh''] s2) (\<lambda>_ s3. done_ok (say ''sshd is key-only'' s3))))"

definition nft_rules :: "('w, 'r, 'i) setup_host \<Rightarrow> ssh_range \<Rightarrow> string" where
  "nft_rules h r = replace_all ''{{.SSHFrom}}'' (if sr_IsSingleIP r then sr_Addr r else sr_Masked r)
     (replace_all ''{{.Family}}'' (if sr_Is6 r then ''ip6'' else ''ip'') (sh_nftablesConf h))"

definition setup_firewall :: "('w, 'r, 'i) setup_host \<Rightarrow> setup_config \<Rightarrow> 'w host_setup \<Rightarrow> 'w host_setup \<times> unit res" where
  "setup_firewall h cfg s =
    (let want = nft_rules h (cf_SSHFrom cfg); path = host_path h ''/etc/nftables.conf''; m = sh_machine h in
     if os_ReadFile m path (se_world s) = Inr want then done_ok s
     else try_then (on_host (os_WriteFile m (path @ ''.new'') want) s) (\<lambda>_ s1.
       case run_command h ''nft'' [''-c'', ''-f'', path @ ''.new''] s1 of
         (s2, Inl e) \<Rightarrow>
           (s2\<lparr>se_world := os_Remove m (path @ ''.new'') (se_world s2)\<rparr>,
            Inl (Wrap ''setup: nft rejects the ruleset, left the firewall as it was: '' e ''''))
       | (s2, Inr out) \<Rightarrow>
           try_then (on_host (os_Rename m (path @ ''.new'') path) s2) (\<lambda>_ s3.
           try_then (run_command h ''nft'' [''-f'', path] s3) (\<lambda>_ s4.
           try_then (systemctl h [''enable'', ''nftables.service''] s4) (\<lambda>_ s5.
             done_ok (say (''firewall drops everything inbound but SSH and the UI from '' @ sr_String (cf_SSHFrom cfg)) s5))))))"

subsection \<open>All of it\<close>

definition setup_steps :: "('w, 'r, 'i) setup_host \<Rightarrow> setup_config \<Rightarrow> ('w host_setup \<Rightarrow> 'w host_setup \<times> unit res) list" where
  "setup_steps h cfg = [setup_user h, setup_packages h, setup_mise h (cf_Mise cfg), setup_keys h cfg, setup_binary h cfg,
     setup_units h, setup_sshd h, setup_firewall h cfg]"

fun run_steps :: "('s \<Rightarrow> 's \<times> unit res) list \<Rightarrow> 's \<Rightarrow> 's \<times> unit res" where
  "run_steps [] s = (s, Inr ())"
| "run_steps (f # fs) s = try_then (f s) (\<lambda>_. run_steps fs)"

definition pinned :: "setup_config \<Rightarrow> setup_config" where
  "pinned cfg = (if cf_Mise cfg = \<lparr>dl_URL = '''', dl_SHA256 = ''''\<rparr> then cfg\<lparr>cf_Mise := Mise\<rparr> else cfg)"

definition Setup :: "(string \<Rightarrow> string) \<Rightarrow> ('w, 'r, 'i) setup_host \<Rightarrow> setup_config \<Rightarrow> 'w \<Rightarrow> 'w host_setup \<times> unit res" where
  "Setup quote h cfg w =
    (let s = \<lparr>se_world = w, se_out = [], se_binaryChanged = False\<rparr> in
     case setup_check quote h (pinned cfg) s of Some e \<Rightarrow> (s, Inl e) | None \<Rightarrow> run_steps (setup_steps h (pinned cfg)) s)"

end
