(* ===== verification/HostSetup.thy ===== *)
theory HostSetup
  imports Setup Rollout
begin

section \<open>The steps of a setup\<close>

text \<open>
  What each step of \<open>Setup\<close> leaves behind when it succeeds. \<open>views\<close> is what one can see of a machine:
  its files and links, its users, its packages and every command run on it, in order.
\<close>

subsection \<open>What is relied on of the host\<close>

record 'w views =
  vw_file :: "'w \<Rightarrow> string \<Rightarrow> string option"
  vw_linked :: "'w \<Rightarrow> string \<Rightarrow> string option"
  vw_users :: "'w \<Rightarrow> string set"
  vw_installed :: "'w \<Rightarrow> string set"
  vw_ran :: "'w \<Rightarrow> (string \<times> string list) list"

definition rest_kept :: "'w views \<Rightarrow> 'w \<Rightarrow> 'w \<Rightarrow> bool" where
  "rest_kept v w w' = (vw_users v w' = vw_users v w \<and> vw_installed v w' = vw_installed v w \<and> vw_ran v w' = vw_ran v w)"

text \<open>Reading tells what is there.\<close>

definition reads_work :: "'w machine \<Rightarrow> string set \<Rightarrow> 'w views \<Rightarrow> bool" where
  "reads_work m P v =
    ((\<forall>p \<in> P. \<forall>w. vw_linked v w p = None \<longrightarrow> (case vw_file v w p of
        None \<Rightarrow> not_there m p w
      | Some s \<Rightarrow> os_ReadFile m p w = Inr s \<and> os_Stat (mx_host m) p w = None)) \<and>
     (\<forall>p \<in> P. \<forall>w t. vw_linked v w p = Some t \<longrightarrow> os_Readlink m p w = Inr t))"

text \<open>The calls on files and the download see to nothing else; a new file is written like any other.\<close>

definition calls_documented :: "('w, 'r, 'i) setup_host \<Rightarrow> string set \<Rightarrow> 'w views \<Rightarrow> bool" where
  "calls_documented h P v = (let m = sh_machine h; same = same_files P (vw_file v) (vw_linked v) in
    (\<forall>p w. rest_kept v w (fst (mkdir_all m p w))) \<and>
    (\<forall>p w. rest_kept v w (fst (os_Chmod m p w)) \<and> same w (fst (os_Chmod m p w))) \<and>
    (\<forall>p w. rest_kept v w (fst (os_ReadDir (mx_host m) p w)) \<and> same w (fst (os_ReadDir (mx_host m) p w))) \<and>
    (\<forall>u w. rest_kept v w (fst (sh_Fetch h u w)) \<and> same w (fst (sh_Fetch h u w))) \<and>
    (\<forall>p b w. rest_kept v w (fst (os_WriteFile m p b w))) \<and>
    (\<forall>p t w. rest_kept v w (fst (os_Symlink m t p w))) \<and>
    (\<forall>p w. rest_kept v w (os_Remove m p w)) \<and>
    (\<forall>p q w. rest_kept v w (fst (os_Rename m p q w))) \<and>
    (\<forall>p b w. rest_kept v w (fst (sh_WriteNew h p b w))) \<and>
    (\<forall>p \<in> P. \<forall>b w. vw_linked v w p = None \<longrightarrow>
       same_files (P - {p}) (vw_file v) (vw_linked v) w (fst (sh_WriteNew h p b w)) \<and>
       vw_linked v (fst (sh_WriteNew h p b w)) p = None \<and>
       (snd (sh_WriteNew h p b w) = Inr () \<longrightarrow> vw_file v (fst (sh_WriteNew h p b w)) p = Some b)))"

text \<open>
  The commands leave the files alone that \<open>Setup\<close> itself writes; they add users and packages and
  remove none; and \<open>id\<close>, \<open>useradd\<close>, \<open>dpkg-query\<close> and \<open>apt-get\<close> do what their manuals say.
\<close>

definition user_query :: "string list" where "user_query = [''-u'', ''garage'']"
definition package_query :: "string \<Rightarrow> string list" where "package_query p = [''-W'', ''-f=${Status}'', p]"
definition apt_install :: "string list \<Rightarrow> string list" where
  "apt_install ps = [''DEBIAN_FRONTEND=noninteractive'', ''apt-get'', ''install'', ''-qy''] @ ps"

definition commands_documented :: "('w, 'r, 'i) setup_host \<Rightarrow> string set \<Rightarrow> 'w views \<Rightarrow> bool" where
  "commands_documented h P v =
    ((\<forall>name args w. let w' = fst (sh_Run h name args w) in
        same_files P (vw_file v) (vw_linked v) w w' \<and> vw_ran v w' = vw_ran v w @ [(name, args)] \<and>
        vw_users v w \<subseteq> vw_users v w' \<and> vw_installed v w \<subseteq> vw_installed v w') \<and>
     (\<forall>w. (\<exists>out. snd (sh_Run h ''id'' user_query w) = Inr out) = (''garage'' \<in> vw_users v w)) \<and>
     (\<forall>args w out. snd (sh_Run h ''useradd'' args w) = Inr out \<longrightarrow> last args \<in> vw_users v (fst (sh_Run h ''useradd'' args w))) \<and>
     (\<forall>p w. (snd (sh_Run h ''dpkg-query'' (package_query p) w) = Inr ''install ok installed'') = (p \<in> vw_installed v w)) \<and>
     (\<forall>ps w out. snd (sh_Run h ''env'' (apt_install ps) w) = Inr out \<longrightarrow>
        set ps \<subseteq> vw_installed v (fst (sh_Run h ''env'' (apt_install ps) w))))"

definition host_documented :: "('w, 'r, 'i) setup_host \<Rightarrow> string set \<Rightarrow> 'w views \<Rightarrow> bool" where
  "host_documented h P v = (files_documented (sh_machine h) P (vw_file v) (vw_linked v) \<and> reads_work (sh_machine h) P v \<and>
     calls_documented h P v \<and> commands_documented h P v)"

lemma host_documentedD:
  assumes "host_documented h P v"
  shows host_files: "files_documented (sh_machine h) P (vw_file v) (vw_linked v)"
    and host_read: "p \<in> P \<Longrightarrow> vw_linked v w p = None \<Longrightarrow> vw_file v w p = Some s \<Longrightarrow>
      os_ReadFile (sh_machine h) p w = Inr s \<and> os_Stat (mx_host (sh_machine h)) p w = None"
    and host_missing: "p \<in> P \<Longrightarrow> vw_linked v w p = None \<Longrightarrow> vw_file v w p = None \<Longrightarrow> not_there (sh_machine h) p w"
    and host_link: "p \<in> P \<Longrightarrow> vw_linked v w p = Some t \<Longrightarrow> os_Readlink (sh_machine h) p w = Inr t"
proof -
  note d = assms[unfolded host_documented_def reads_work_def]
  show "files_documented (sh_machine h) P (vw_file v) (vw_linked v)" using d by blast
  have r: "case vw_file v w p of None \<Rightarrow> not_there (sh_machine h) p w
      | Some s \<Rightarrow> os_ReadFile (sh_machine h) p w = Inr s \<and> os_Stat (mx_host (sh_machine h)) p w = None"
    if "p \<in> P" "vw_linked v w p = None" using d that by blast
  show "p \<in> P \<Longrightarrow> vw_linked v w p = None \<Longrightarrow> vw_file v w p = Some s \<Longrightarrow>
      os_ReadFile (sh_machine h) p w = Inr s \<and> os_Stat (mx_host (sh_machine h)) p w = None" using r by simp
  show "p \<in> P \<Longrightarrow> vw_linked v w p = None \<Longrightarrow> vw_file v w p = None \<Longrightarrow> not_there (sh_machine h) p w" using r by simp
  show "p \<in> P \<Longrightarrow> vw_linked v w p = Some t \<Longrightarrow> os_Readlink (sh_machine h) p w = Inr t" using d by blast
qed

subsection \<open>What a call does to the host\<close>

text \<open>
  \<open>moved P X C v w w'\<close>: of the places in \<open>P\<close> only those in \<open>X\<close> may have changed, no user or package has
  gone, and the commands run in between are in \<open>C\<close>. \<open>plain F v w\<close>: the places in \<open>F\<close> are not links.
\<close>

definition moved ::
  "string set \<Rightarrow> string set \<Rightarrow> (string \<times> string list) set \<Rightarrow> 'w views \<Rightarrow> 'w \<Rightarrow> 'w \<Rightarrow> bool" where
  "moved P X C v w w' = (same_files (P - X) (vw_file v) (vw_linked v) w w' \<and> vw_users v w \<subseteq> vw_users v w' \<and>
     vw_installed v w \<subseteq> vw_installed v w' \<and> (\<exists>cs. vw_ran v w' = vw_ran v w @ cs \<and> set cs \<subseteq> C))"

definition plain :: "string set \<Rightarrow> 'w views \<Rightarrow> 'w \<Rightarrow> bool" where
  "plain F v w = (\<forall>p \<in> F. vw_linked v w p = None)"

lemma moved_refl [simp]: "moved P X C v w w"
  by (simp add: moved_def same_files_def)

lemma moved_then:
  assumes "moved P X C v w w'" "moved P Y D v w' w''" "X \<union> Y \<subseteq> Z" "C \<union> D \<subseteq> E"
  shows "moved P Z E v w w''"
proof -
  obtain cs ds where "vw_ran v w' = vw_ran v w @ cs" "set cs \<subseteq> C" "vw_ran v w'' = vw_ran v w' @ ds" "set ds \<subseteq> D"
    using assms(1,2) unfolding moved_def by blast
  then have "vw_ran v w'' = vw_ran v w @ (cs @ ds)" "set (cs @ ds) \<subseteq> E" using assms(4) by auto
  moreover have "same_files (P - Z) (vw_file v) (vw_linked v) w w''"
    by (rule same_files_trans[of "P - X" "vw_file v" "vw_linked v" w w' "P - Y"]) (use assms in \<open>auto simp: moved_def\<close>)
  ultimately show ?thesis using assms(1,2) unfolding moved_def by blast
qed

lemma moved_trans: "moved P X C v w w' \<Longrightarrow> moved P X C v w' w'' \<Longrightarrow> moved P X C v w w''"
  by (rule moved_then) auto

lemma moved_mono: "moved P X C v w w' \<Longrightarrow> X \<subseteq> Y \<Longrightarrow> C \<subseteq> D \<Longrightarrow> moved P Y D v w w'"
  by (rule moved_then[OF _ moved_refl[of P "{}" "{}"]]) auto

lemma movedD: "moved P X C v w w' \<Longrightarrow> p \<in> P - X \<Longrightarrow> vw_file v w' p = vw_file v w p \<and> vw_linked v w' p = vw_linked v w p"
  unfolding moved_def by (blast dest: same_filesD)

lemma plain_moved: "plain F v w \<Longrightarrow> moved P X C v w w' \<Longrightarrow> F \<subseteq> P \<Longrightarrow> plain (F \<inter> X) v w' \<Longrightarrow> plain F v w'"
  unfolding plain_def using movedD[of P X C v w w'] by (metis DiffI IntI subsetD)

lemma plain_still: "plain F v w \<Longrightarrow> moved P {} C v w w' \<Longrightarrow> F \<subseteq> P \<Longrightarrow> plain F v w'"
  by (erule (2) plain_moved) (simp add: plain_def)

lemma plainD: "plain F v w \<Longrightarrow> p \<in> F \<Longrightarrow> vw_linked v w p = None"
  by (simp add: plain_def)

lemma host_calls:
  assumes "host_documented h P v"
  shows moved_mkdir: "mkdir_all (sh_machine h) p w = (w', r1) \<Longrightarrow> moved P {} {} v w w'"
    and moved_chmod: "os_Chmod (sh_machine h) p w = (w', r1) \<Longrightarrow> moved P {} {} v w w'"
    and moved_readdir: "os_ReadDir (mx_host (sh_machine h)) p w = (w', r2) \<Longrightarrow> moved P {} {} v w w'"
    and moved_fetch: "sh_Fetch h u w = (w', r3) \<Longrightarrow> moved P {} {} v w w'"
    and moved_run: "sh_Run h name args w = (w', r4) \<Longrightarrow> moved P {} {(name, args)} v w w'"
    and moved_write: "p \<in> P \<Longrightarrow> vw_linked v w p = None \<Longrightarrow> os_WriteFile (sh_machine h) p b w = (w', r1) \<Longrightarrow>
      moved P {p} {} v w w' \<and> vw_linked v w' p = None \<and> (r1 = Inr () \<longrightarrow> vw_file v w' p = Some b)"
    and moved_new: "p \<in> P \<Longrightarrow> vw_linked v w p = None \<Longrightarrow> sh_WriteNew h p b w = (w', r1) \<Longrightarrow>
      moved P {p} {} v w w' \<and> vw_linked v w' p = None \<and> (r1 = Inr () \<longrightarrow> vw_file v w' p = Some b)"
    and moved_rename: "p \<in> P \<Longrightarrow> q \<in> P \<Longrightarrow> p \<noteq> q \<Longrightarrow> os_Rename (sh_machine h) p q w = (w', Inr ()) \<Longrightarrow>
      moved P {p, q} {} v w w' \<and> vw_file v w' q = vw_file v w p \<and> vw_linked v w' q = vw_linked v w p \<and>
      vw_linked v w' p = None"
    and moved_link: "p \<in> P \<Longrightarrow> p @ ''.new'' \<in> P \<Longrightarrow> link (sh_machine h) t p w = (w', had, r1) \<Longrightarrow>
      moved P {p, p @ ''.new''} {} v w w' \<and> (r1 = Inr () \<longrightarrow> vw_linked v w' p = Some t)"
proof -
  note d = assms[unfolded host_documented_def calls_documented_def commands_documented_def Let_def]
  note files = host_files[OF assms]
  have kept: "moved P X {} v w w'" if "rest_kept v w w'" "same_files (P - X) (vw_file v) (vw_linked v) w w'" for X w w'
    using that by (simp add: moved_def rest_kept_def)
  show "mkdir_all (sh_machine h) p w = (w', r1) \<Longrightarrow> moved P {} {} v w w'"
    using kept[of w w' "{}"] d doc_MkdirAll[OF files] by (metis Diff_empty fst_conv)
  show "os_Chmod (sh_machine h) p w = (w', r1) \<Longrightarrow> moved P {} {} v w w'"
    using kept[of w w' "{}"] d by (metis Diff_empty fst_conv)
  show "os_ReadDir (mx_host (sh_machine h)) p w = (w', r2) \<Longrightarrow> moved P {} {} v w w'"
    using kept[of w w' "{}"] d by (metis Diff_empty fst_conv)
  show "sh_Fetch h u w = (w', r3) \<Longrightarrow> moved P {} {} v w w'"
    using kept[of w w' "{}"] d by (metis Diff_empty fst_conv)
  show "sh_Run h name args w = (w', r4) \<Longrightarrow> moved P {} {(name, args)} v w w'"
    using d unfolding moved_def by (metis Diff_empty fst_conv insert_subset empty_subsetI insertI1 list.set(1) list.simps(15))
  show "p \<in> P \<Longrightarrow> vw_linked v w p = None \<Longrightarrow> os_WriteFile (sh_machine h) p b w = (w', r1) \<Longrightarrow>
      moved P {p} {} v w w' \<and> vw_linked v w' p = None \<and> (r1 = Inr () \<longrightarrow> vw_file v w' p = Some b)"
    using kept[of w w' "{p}"] d doc_WriteFile[OF files] by (metis fst_conv)
  show "p \<in> P \<Longrightarrow> vw_linked v w p = None \<Longrightarrow> sh_WriteNew h p b w = (w', r1) \<Longrightarrow>
      moved P {p} {} v w w' \<and> vw_linked v w' p = None \<and> (r1 = Inr () \<longrightarrow> vw_file v w' p = Some b)"
    using kept[of w w' "{p}"] d by (metis fst_conv snd_conv)
  show "p \<in> P \<Longrightarrow> q \<in> P \<Longrightarrow> p \<noteq> q \<Longrightarrow> os_Rename (sh_machine h) p q w = (w', Inr ()) \<Longrightarrow>
      moved P {p, q} {} v w w' \<and> vw_file v w' q = vw_file v w p \<and> vw_linked v w' q = vw_linked v w p \<and>
      vw_linked v w' p = None"
    using kept[of w w' "{p, q}"] d doc_Rename[OF files, of p q w w'] by (metis fst_conv)
  have rest: "rest_kept v w (os_Remove (sh_machine h) x w)" "rest_kept v w (fst (os_Symlink (sh_machine h) t x w))"
    "rest_kept v w (fst (os_Rename (sh_machine h) x y w))" "rest_kept v w (fst (mkdir_all (sh_machine h) x w))" for w t x y
    by (simp_all add: d)
  show "p \<in> P \<Longrightarrow> p @ ''.new'' \<in> P \<Longrightarrow> link (sh_machine h) t p w = (w', had, r1) \<Longrightarrow>
      moved P {p, p @ ''.new''} {} v w w' \<and> (r1 = Inr () \<longrightarrow> vw_linked v w' p = Some t)"
  proof -
    assume p: "p \<in> P" "p @ ''.new'' \<in> P" and l: "link (sh_machine h) t p w = (w', had, r1)"
    let ?m = "sh_machine h" and ?n = "p @ ''.new''"
    define w1 where "w1 = fst (mkdir_all ?m (dir p) w)"
    define w2 where "w2 = os_Remove ?m ?n w1"
    define w3 where "w3 = fst (os_Symlink ?m t ?n w2)"
    define w4 where "w4 = fst (os_Rename ?m ?n p w3)"
    have "w' = w \<or> w' = w1 \<or> w' = w3 \<or> w' = w4" using l
      by (auto simp: link_def w1_def w2_def w3_def w4_def split: if_splits prod.splits sum.splits)
    moreover have "rest_kept v w w1" "rest_kept v w1 w2" "rest_kept v w2 w3" "rest_kept v w3 w4"
      unfolding w1_def w2_def w3_def w4_def by (rule rest)+
    ultimately have "rest_kept v w w'" by (auto simp: rest_kept_def)
    then show ?thesis using kept link_effect(1,3)[OF files p l] by blast
  qed
qed


lemma moved_remove:
  assumes "host_documented h P v" "p \<in> P" "vw_linked v w p = None"
  shows "moved P {p} {} v w (os_Remove (sh_machine h) p w) \<and> vw_linked v (os_Remove (sh_machine h) p w) p = None"
proof -
  have "rest_kept v w (os_Remove (sh_machine h) p w)"
    using assms(1) unfolding host_documented_def calls_documented_def Let_def by blast
  then show ?thesis using doc_Remove[OF host_files[OF assms(1)] assms(2), of w] assms(3) by (auto simp: moved_def rest_kept_def)
qed

lemma moved_rename_fails:
  assumes "host_documented h P v" "os_Rename (sh_machine h) p q w = (w', r)" "same_files P (vw_file v) (vw_linked v) w w'"
  shows "moved P X C v w w'"
proof -
  have "rest_kept v w (fst (os_Rename (sh_machine h) p q w))"
    using assms(1) unfolding host_documented_def calls_documented_def Let_def by blast
  then show ?thesis using assms(2,3) same_files_mono[of P _ _ w w' "P - X"] by (simp add: moved_def rest_kept_def)
qed

subsection \<open>The steps, one by one\<close>

lemma try_then_InrE:
  assumes "try_then r f = (s', Inr b)"
  obtains s1 a where "r = (s1, Inr a)" "f a s1 = (s', Inr b)"
proof (cases r)
  case (Pair s1 q)
  then show thesis using assms that by (cases q) (simp_all add: try_then_def)
qed

lemma try_then_okE:
  assumes "try_then r (\<lambda>_ s. (g s, Inr c)) = (s', Inr b)"
  obtains s1 a where "r = (s1, Inr a)" "s' = g s1"
  by (rule try_then_InrE[OF assms]) (use that in simp)

lemma on_host_world: "on_host f s = (s1, r) \<Longrightarrow> f (se_world s) = (se_world s1, r)"
  by (auto simp: on_host_def split: prod.splits)

lemma say_world [simp]: "se_world (say line s) = se_world s"
  by (simp add: say_def)

text \<open>Where \<open>try_then\<close> ends, whatever happened: a rule for what every part keeps.\<close>

lemma moved_try_then:
  assumes "try_then r f = (s', q)" "\<And>s1 x. r = (s1, x) \<Longrightarrow> moved P X C v w (se_world s1)"
    and "\<And>s1 a s2 x. r = (s1, Inr a) \<Longrightarrow> f a s1 = (s2, x) \<Longrightarrow> moved P X C v (se_world s1) (se_world s2)"
  shows "moved P X C v w (se_world s')"
proof -
  obtain s1 x where r: "r = (s1, x)" by (metis prod.exhaust)
  show ?thesis
  proof (cases x)
    case (Inl e)
    then show ?thesis using assms(1,2) r by (simp add: try_then_def)
  next
    case (Inr a)
    then show ?thesis using assms(1) assms(2)[OF r] assms(3)[of s1 a s' q] r by (auto simp: try_then_def intro: moved_trans)
  qed
qed

lemma moved_command:
  assumes "host_documented h P v" "run_command h name args s = (s', r)" "(name, args) \<in> C"
  shows "moved P X C v (se_world s) (se_world s')"
  using moved_mono[OF moved_run[OF assms(1) on_host_world[OF assms(2)[unfolded run_command_def]]]] assms(3) by blast

lemma moved_make_dirs:
  assumes "host_documented h P v"
  shows "make_dirs h ds s = (s', r) \<Longrightarrow> moved P X C v (se_world s) (se_world s')"
proof (induction ds arbitrary: s s' r)
  case (Cons d ds)
  show ?case using Cons.prems unfolding make_dirs.simps
  proof (rule moved_try_then)
    show "moved P X C v (se_world s) (se_world s1)" if "on_host (mkdir_all (sh_machine h) (host_path h d)) s = (s1, x)" for s1 x
      using moved_mono[OF moved_mkdir[OF assms on_host_world[OF that]]] by blast
    fix s1 a s2 x assume "try_then (on_host (os_Chmod (sh_machine h) (host_path h d)) s1) (\<lambda>_. make_dirs h ds) = (s2, x)"
    then show "moved P X C v (se_world s1) (se_world s2)"
    proof (rule moved_try_then)
      show "moved P X C v (se_world s1) (se_world s3)" if "on_host (os_Chmod (sh_machine h) (host_path h d)) s1 = (s3, y)" for s3 y
        using moved_mono[OF moved_chmod[OF assms on_host_world[OF that]]] by blast
      show "moved P X C v (se_world s3) (se_world s4)" if "make_dirs h ds s3 = (s4, y)" for s3 s4 y
        by (rule Cons.IH[OF that])
    qed
  qed
qed simp


lemma moved_chmod_all:
  assumes "host_documented h P v"
  shows "chmod_all h ns s = (s', r) \<Longrightarrow> moved P X C v (se_world s) (se_world s')"
proof (induction ns arbitrary: s s' r)
  case (Cons n ns)
  show ?case using Cons.prems unfolding chmod_all.simps
  proof (rule moved_try_then)
    show "moved P X C v (se_world s) (se_world s1)"
      if "on_host (os_Chmod (sh_machine h) (join_path [host_path h Keys, n])) s = (s1, x)" for s1 x
      using moved_mono[OF moved_chmod[OF assms on_host_world[OF that]]] by blast
  qed (rule Cons.IH)
qed simp

lemma moved_owns:
  assumes "host_documented h P v" "garage_owns h args s = (s', r)" "(''chown'', args) \<in> C"
  shows "moved P X C v (se_world s) (se_world s')"
  using assms(2) unfolding garage_owns_def
  by (rule moved_try_then) (use moved_command[OF assms(1)] assms(3) in auto)

lemma moved_systemctl:
  assumes "host_documented h P v" "systemctl h args s = (s', r)" "(''systemctl'', args) \<in> C"
  shows "moved P X C v (se_world s) (se_world s')"
  using assms(2) unfolding systemctl_def
  by (rule moved_try_then) (use moved_command[OF assms(1)] assms(3) in auto)

text \<open>Writing a file that is to have certain contents, and putting one in place by a rename.\<close>

lemma writeIfChanged_effect:
  assumes "host_documented h P v" "host_path h path \<in> P" "plain F v (se_world s)" "F \<subseteq> P" "host_path h path \<in> F"
    and "writeIfChanged h path want s = (s', Inr c)"
  shows "moved P {host_path h path} C v (se_world s) (se_world s')" "plain F v (se_world s')"
    and "vw_file v (se_world s') (host_path h path) = Some want"
proof -
  let ?p = "host_path h path"
  have "moved P {?p} C v (se_world s) (se_world s') \<and> vw_linked v (se_world s') ?p = None \<and> vw_file v (se_world s') ?p = Some want"
  proof (cases "os_ReadFile (sh_machine h) ?p (se_world s) = Inr want")
    case True
    then show ?thesis using assms(6) doc_ReadFile[OF host_files[OF assms(1)] assms(2) plainD[OF assms(3,5)] True] plainD[OF assms(3,5)]
      by (simp add: writeIfChanged_def)
  next
    case False
    then obtain s1 u where a: "on_host (mkdir_all (sh_machine h) (dir ?p)) s = (s1, Inr u)"
      "try_then (on_host (os_WriteFile (sh_machine h) ?p want) s1) (\<lambda>_ s2. (s2, Inr True)) = (s', Inr c)"
      using assms(6) by (auto simp: writeIfChanged_def Let_def elim: try_then_InrE)
    then obtain s2 u2 where b: "on_host (os_WriteFile (sh_machine h) ?p want) s1 = (s2, Inr u2)" "s' = s2"
      by (auto elim: try_then_InrE)
    have m1: "moved P {} {} v (se_world s) (se_world s1)" by (rule moved_mkdir[OF assms(1) on_host_world[OF a(1)]])
    have l1: "vw_linked v (se_world s1) ?p = None" using movedD[OF m1, of ?p] assms(2) plainD[OF assms(3,5)] by simp
    note m2 = moved_write[OF assms(1,2) l1 on_host_world[OF b(1)]]
    then show ?thesis using moved_then[OF m1, of "{?p}" "{}" "se_world s'" "{?p}" C] b(2) by simp
  qed
  then show "moved P {?p} C v (se_world s) (se_world s')" "vw_file v (se_world s') ?p = Some want" "plain F v (se_world s')"
    using plain_moved[OF assms(3) _ assms(4)] by (auto simp: plain_def)
qed

lemma install_file_effect:
  assumes "host_documented h P v" "plain F v (se_world s)" "F \<subseteq> P" "path \<in> F" "path @ ''.new'' \<in> F"
    and "install_file h path raw s = (s', Inr u)"
  shows "moved P {path, path @ ''.new''} C v (se_world s) (se_world s')" "plain F v (se_world s')"
    and "vw_file v (se_world s') path = Some raw"
proof -
  let ?n = "path @ ''.new''"
  have places: "path \<in> P" "?n \<in> P" "?n \<noteq> path" using assms(3-5) by auto
  obtain s1 a where a: "on_host (mkdir_all (sh_machine h) (dir path)) s = (s1, Inr a)"
    "try_then (on_host (os_WriteFile (sh_machine h) ?n raw) s1) (\<lambda>_. on_host (os_Rename (sh_machine h) ?n path)) = (s', Inr u)"
    using assms(6) by (auto simp: install_file_def elim: try_then_InrE)
  then obtain s2 b where b: "on_host (os_WriteFile (sh_machine h) ?n raw) s1 = (s2, Inr b)"
    "on_host (os_Rename (sh_machine h) ?n path) s2 = (s', Inr u)" by (auto elim: try_then_InrE)
  have m1: "moved P {} {} v (se_world s) (se_world s1)" by (rule moved_mkdir[OF assms(1) on_host_world[OF a(1)]])
  have l1: "vw_linked v (se_world s1) ?n = None" using movedD[OF m1, of ?n] places plainD[OF assms(2,5)] by simp
  note m2 = moved_write[OF assms(1) places(2) l1 on_host_world[OF b(1)]]
  have u: "u = ()" by simp
  note m3 = moved_rename[OF assms(1) places(2,1,3) on_host_world[OF b(2)[unfolded u]]]
  have "moved P {?n} {} v (se_world s) (se_world s2)" by (rule moved_then[OF m1 m2[THEN conjunct1]]) auto
  then show m: "moved P {path, ?n} C v (se_world s) (se_world s')" by (rule moved_then[OF _ m3[THEN conjunct1]]) auto
  show "vw_file v (se_world s') path = Some raw" using m2 m3 by simp
  show "plain F v (se_world s')" using plain_moved[OF assms(2) m assms(3)] m2 m3 by (auto simp: plain_def)
qed


subsection \<open>What \<open>Setup\<close> writes\<close>

definition mise_path :: "('w, 'r, 'i) setup_host \<Rightarrow> string" where "mise_path h = host_path h ''/usr/local/bin/mise''"
definition signing_path :: "('w, 'r, 'i) setup_host \<Rightarrow> string" where "signing_path h = host_path h (Keys @ ''/signing.key'')"
definition master_path :: "('w, 'r, 'i) setup_host \<Rightarrow> string" where "master_path h = host_path h (Keys @ ''/master.key'')"
definition trusted_path :: "('w, 'r, 'i) setup_host \<Rightarrow> string" where "trusted_path h = host_path h (Keys @ ''/trusted.keys'')"
definition release_name :: "('w, 'r, 'i) setup_host \<Rightarrow> string \<Rightarrow> string" where "release_name h raw = take 12 (sh_sha h raw)"
definition dest_path :: "('w, 'r, 'i) setup_host \<Rightarrow> string \<Rightarrow> string" where
  "dest_path h raw = host_path h (join_path [Releases, release_name h raw, ''garage''])"
definition current_path :: "('w, 'r, 'i) setup_host \<Rightarrow> string" where "current_path h = host_path h (Releases @ ''/current'')"
definition serve_path :: "('w, 'r, 'i) setup_host \<Rightarrow> string" where "serve_path h = host_path h ''/opt/garage/serve-current''"
definition garage_path :: "('w, 'r, 'i) setup_host \<Rightarrow> string" where "garage_path h = host_path h ''/usr/local/bin/garage''"
definition unit_path :: "('w, 'r, 'i) setup_host \<Rightarrow> string \<Rightarrow> string" where "unit_path h n = host_path h (''/etc/systemd/system/'' @ n)"
definition nft_path :: "('w, 'r, 'i) setup_host \<Rightarrow> string" where "nft_path h = host_path h ''/etc/nftables.conf''"

text \<open>The files, a group per step, with the binary that is installed; and the links.\<close>

definition mise_files :: "('w, 'r, 'i) setup_host \<Rightarrow> string list" where "mise_files h = [mise_path h, mise_path h @ ''.new'']"
definition key_files :: "('w, 'r, 'i) setup_host \<Rightarrow> string list" where "key_files h = [signing_path h, master_path h, trusted_path h]"
definition release_file :: "('w, 'r, 'i) setup_host \<Rightarrow> string \<Rightarrow> string list" where
  "release_file h raw = [dest_path h raw, dest_path h raw @ ''.new'']"
definition unit_files :: "('w, 'r, 'i) setup_host \<Rightarrow> string list" where "unit_files h = map (unit_path h) unit_names"
definition sshd_files :: "('w, 'r, 'i) setup_host \<Rightarrow> string list" where "sshd_files h = [host_path h sshd_path]"
definition nft_files :: "('w, 'r, 'i) setup_host \<Rightarrow> string list" where "nft_files h = [nft_path h, nft_path h @ ''.new'']"

definition setup_files :: "('w, 'r, 'i) setup_host \<Rightarrow> setup_config \<Rightarrow> string \<Rightarrow> string list" where
  "setup_files h cfg raw = mise_files h @ key_files h @ release_file h raw @ unit_files h @ sshd_files h @ nft_files h @ [cf_Binary cfg]"

definition setup_links :: "('w, 'r, 'i) setup_host \<Rightarrow> string list" where
  "setup_links h = [current_path h, current_path h @ ''.new'', serve_path h, serve_path h @ ''.new'', garage_path h, garage_path h @ ''.new'']"

definition setup_places :: "('w, 'r, 'i) setup_host \<Rightarrow> setup_config \<Rightarrow> string \<Rightarrow> string list" where
  "setup_places h cfg raw = setup_files h cfg raw @ setup_links h"

subsection \<open>What a successful step leaves\<close>

lemma step_user:
  assumes "host_documented h P v" "plain F v (se_world s)" "F \<subseteq> P" "setup_user h s = (s', Inr u)"
  shows "moved P {} UNIV v (se_world s) (se_world s')" "plain F v (se_world s')" "''garage'' \<in> vw_users v (se_world s')"
proof -
  note cmd = assms(1)[unfolded host_documented_def commands_documented_def]
  obtain s1 a where a: "(case run_command h ''id'' [''-u'', ''garage''] s of
         (s1, Inr out) \<Rightarrow> done_ok s1
       | (s1, Inl e) \<Rightarrow>
           try_then (run_command h ''useradd'' [''--system'', ''--user-group'', ''--home-dir'', Home, ''--shell'',
               ''/usr/sbin/nologin'', ''garage''] s1) (\<lambda>_ s2. done_ok (say ''made the garage user'' s2))) = (s1, Inr a)"
    "try_then (make_dirs h [Home, Keys] s1) (\<lambda>_. garage_owns h [''garage:garage'', host_path h Home]) = (s', Inr u)"
    by (rule try_then_InrE[OF assms(4)[unfolded setup_user_def]])
  obtain s2 r where id: "run_command h ''id'' [''-u'', ''garage''] s = (s2, r)" by (metis prod.exhaust)
  have m2: "moved P {} UNIV v (se_world s) (se_world s2)" by (rule moved_command[OF assms(1) id]) simp
  have "moved P {} UNIV v (se_world s) (se_world s1) \<and> ''garage'' \<in> vw_users v (se_world s1)"
  proof (cases r)
    case (Inr out)
    have "''garage'' \<in> vw_users v (se_world s)" using cmd on_host_world[OF id[unfolded run_command_def]] Inr
      unfolding user_query_def by (metis snd_conv)
    then show ?thesis using a(1) id Inr m2 by (auto simp: moved_def)
  next
    case (Inl e)
    let ?args = "[''--system'', ''--user-group'', ''--home-dir'', Home, ''--shell'', ''/usr/sbin/nologin'', ''garage'']"
    obtain s3 b where b: "run_command h ''useradd'' ?args s2 = (s3, Inr b)" "s1 = say ''made the garage user'' s3"
      using a(1) id Inl by (auto elim: try_then_InrE)
    have m3: "moved P {} UNIV v (se_world s2) (se_world s3)" by (rule moved_command[OF assms(1) b(1)]) simp
    have "last ?args \<in> vw_users v (se_world s3)"
      using cmd on_host_world[OF b(1)[unfolded run_command_def]] by (metis fst_conv snd_conv)
    then show ?thesis using b(2) moved_trans[OF m2 m3] by simp
  qed
  moreover have m4: "moved P {} UNIV v (se_world s1) (se_world s')"
    using a(2) by (rule moved_try_then) (erule moved_make_dirs[OF assms(1)], erule moved_owns[OF assms(1)], simp)
  ultimately show m: "moved P {} UNIV v (se_world s) (se_world s')" "''garage'' \<in> vw_users v (se_world s')"
    using moved_trans[OF _ m4] unfolding moved_def[of _ _ _ _ "se_world s1"] by blast+
  show "plain F v (se_world s')" by (rule plain_still[OF assms(2) m(1) assms(3)])
qed

lemma missing_effect:
  assumes "host_documented h P v"
  shows "missing_packages h ps s = (s', missing) \<Longrightarrow> (\<lambda>p. (''dpkg-query'', package_query p)) ` set ps \<subseteq> C \<Longrightarrow>
    moved P X C v (se_world s) (se_world s') \<and> set ps \<subseteq> vw_installed v (se_world s') \<union> set missing \<and>
    (set ps \<subseteq> vw_installed v (se_world s) \<longrightarrow> missing = [])"
proof (induction ps arbitrary: s missing)
  case (Cons p ps)
  note cmd = assms[unfolded host_documented_def commands_documented_def]
  obtain s1 r where r: "run_command h ''dpkg-query'' [''-W'', ''-f=${Status}'', p] s = (s1, r)" by (metis prod.exhaust)
  obtain s2 rest where rest: "missing_packages h ps s1 = (s2, rest)" by (metis prod.exhaust)
  have e: "s' = s2" "missing = (if r = Inr ''install ok installed'' then rest else p # rest)"
    using Cons.prems(1) r rest by simp_all
  have m1: "moved P X C v (se_world s) (se_world s1)"
    by (rule moved_command[OF assms r]) (use Cons.prems(2) in \<open>simp add: package_query_def\<close>)
  note IH = Cons.IH[OF rest[folded e(1)]]
  have "(r = Inr ''install ok installed'') = (p \<in> vw_installed v (se_world s))"
    using cmd on_host_world[OF r[unfolded run_command_def]] unfolding package_query_def by (metis snd_conv)
  moreover have "moved P X C v (se_world s1) (se_world s')" "set ps \<subseteq> vw_installed v (se_world s') \<union> set rest"
    "set ps \<subseteq> vw_installed v (se_world s1) \<longrightarrow> rest = []" using IH Cons.prems(2) by auto
  moreover have "vw_installed v (se_world s) \<subseteq> vw_installed v (se_world s1)" using m1 by (simp add: moved_def)
  moreover have "vw_installed v (se_world s1) \<subseteq> vw_installed v (se_world s')" using calculation(2) by (simp add: moved_def)
  ultimately show ?case using moved_trans[OF m1] e(2) by auto
qed simp

lemma step_packages:
  assumes "host_documented h P v" "plain F v (se_world s)" "F \<subseteq> P" "setup_packages h s = (s', Inr u)"
  shows "moved P {} UNIV v (se_world s) (se_world s')" "plain F v (se_world s')" "set packages \<subseteq> vw_installed v (se_world s')"
proof -
  note cmd = assms(1)[unfolded host_documented_def commands_documented_def]
  obtain s1 missing where miss: "missing_packages h packages s = (s1, missing)" by (metis prod.exhaust)
  have m1: "moved P {} UNIV v (se_world s) (se_world s1)" "set packages \<subseteq> vw_installed v (se_world s1) \<union> set missing"
    using missing_effect[OF assms(1) miss, where C = UNIV and X = "{}"] by simp_all
  have "moved P {} UNIV v (se_world s) (se_world s') \<and> set packages \<subseteq> vw_installed v (se_world s')"
  proof (cases "missing = []")
    case True
    then show ?thesis using m1 assms(4) miss by (simp add: setup_packages_def)
  next
    case False
    then have r: "try_then (run_command h ''apt-get'' [''update'', ''-q''] s1) (\<lambda>_ s2.
       try_then (run_command h ''env'' (apt_install missing) s2) (\<lambda>_ s3.
         done_ok (say (''installed '' @ join '' '' missing) s3))) = (s', Inr u)"
      using assms(4) miss by (simp add: setup_packages_def apt_install_def)
    obtain s2 a where a: "run_command h ''apt-get'' [''update'', ''-q''] s1 = (s2, Inr a)"
      "try_then (run_command h ''env'' (apt_install missing) s2) (\<lambda>_ s3.
         done_ok (say (''installed '' @ join '' '' missing) s3)) = (s', Inr u)" by (rule try_then_InrE[OF r])
    obtain s3 b where b: "run_command h ''env'' (apt_install missing) s2 = (s3, Inr b)" "s' = say (''installed '' @ join '' '' missing) s3"
      by (rule try_then_okE[OF a(2)])
    have m2: "moved P {} UNIV v (se_world s1) (se_world s2)" by (rule moved_command[OF assms(1) a(1)]) simp
    have m3: "moved P {} UNIV v (se_world s2) (se_world s3)" by (rule moved_command[OF assms(1) b(1)]) simp
    have "set missing \<subseteq> vw_installed v (se_world s3)"
      using cmd on_host_world[OF b(1)[unfolded run_command_def]] by (metis fst_conv snd_conv)
    moreover have "vw_installed v (se_world s1) \<subseteq> vw_installed v (se_world s3)"
      using moved_trans[OF m2 m3] by (simp add: moved_def)
    ultimately show ?thesis using m1(2) b(2) moved_trans[OF m1(1) moved_trans[OF m2 m3]] by auto
  qed
  then show m: "moved P {} UNIV v (se_world s) (se_world s')" "set packages \<subseteq> vw_installed v (se_world s')" by blast+
  show "plain F v (se_world s')" by (rule plain_still[OF assms(2) m(1) assms(3)])
qed

lemma step_mise:
  assumes "host_documented h P v" "plain F v (se_world s)" "F \<subseteq> P" "set (mise_files h) \<subseteq> F" "setup_mise h mise s = (s', Inr u)"
  shows "moved P (set (mise_files h)) UNIV v (se_world s) (se_world s')" "plain F v (se_world s')"
    and "\<exists>b. vw_file v (se_world s') (mise_path h) = Some b \<and> sh_sha h b = dl_SHA256 mise"
proof -
  let ?p = "mise_path h"
  have places: "?p \<in> F" "?p @ ''.new'' \<in> F" "?p \<in> P" using assms(3,4) by (auto simp: mise_files_def)
  have l: "vw_linked v (se_world s) ?p = None" by (rule plainD[OF assms(2) places(1)])
  have "moved P (set (mise_files h)) UNIV v (se_world s) (se_world s') \<and> plain F v (se_world s') \<and>
    (\<exists>b. vw_file v (se_world s') ?p = Some b \<and> sh_sha h b = dl_SHA256 mise)"
  proof (cases "\<exists>b. os_ReadFile (sh_machine h) ?p (se_world s) = Inr b \<and> sh_sha h b = dl_SHA256 mise")
    case True
    then obtain b where b: "os_ReadFile (sh_machine h) ?p (se_world s) = Inr b" "sh_sha h b = dl_SHA256 mise" by blast
    have "s' = s" using assms(5) b by (simp add: setup_mise_def mise_path_def)
    then show ?thesis using b doc_ReadFile[OF host_files[OF assms(1)] places(3) l b(1)] assms(2) by simp
  next
    case False
    then have r: "try_then (on_host (sh_Fetch h (dl_URL mise)) s) (\<lambda>(code, status, raw) s1.
       if code \<noteq> 200 then (s1, Inl (Opaque (''setup: GET '' @ dl_URL mise @ '': '' @ status)))
       else if sh_sha h raw \<noteq> dl_SHA256 mise
         then (s1, Inl (Opaque (''setup: '' @ dl_URL mise @ '' has sha256 '' @ sh_sha h raw @ '', want '' @ dl_SHA256 mise)))
       else try_then (install_file h ?p raw s1) (\<lambda>_ s2. done_ok (say (''installed '' @ dl_URL mise) s2))) = (s', Inr u)"
      using assms(5)[unfolded setup_mise_def Let_def, folded mise_path_def]
      by (cases "os_ReadFile (sh_machine h) ?p (se_world s)") simp_all
    obtain s1 x where x: "on_host (sh_Fetch h (dl_URL mise)) s = (s1, Inr x)"
      "(case x of (code, status, raw) \<Rightarrow> \<lambda>s1. if code \<noteq> 200 then (s1, Inl (Opaque (''setup: GET '' @ dl_URL mise @ '': '' @ status)))
       else if sh_sha h raw \<noteq> dl_SHA256 mise
         then (s1, Inl (Opaque (''setup: '' @ dl_URL mise @ '' has sha256 '' @ sh_sha h raw @ '', want '' @ dl_SHA256 mise)))
       else try_then (install_file h ?p raw s1) (\<lambda>_ s2. done_ok (say (''installed '' @ dl_URL mise) s2))) s1 = (s', Inr u)"
      by (rule try_then_InrE[OF r])
    obtain code status raw where raw: "x = (code, status, raw)" by (cases x)
    have f: "on_host (sh_Fetch h (dl_URL mise)) s = (s1, Inr (code, status, raw))" "sh_sha h raw = dl_SHA256 mise"
      "try_then (install_file h ?p raw s1) (\<lambda>_ s2. done_ok (say (''installed '' @ dl_URL mise) s2)) = (s', Inr u)"
      using x unfolding raw by (auto split: if_splits)
    obtain s2 b where i: "install_file h ?p raw s1 = (s2, Inr b)" "s' = say (''installed '' @ dl_URL mise) s2"
      by (rule try_then_okE[OF f(3)])
    have m1: "moved P {} {} v (se_world s) (se_world s1)" by (rule moved_fetch[OF assms(1) on_host_world[OF f(1)]])
    have p1: "plain F v (se_world s1)" by (rule plain_still[OF assms(2) m1 assms(3)])
    note inst = install_file_effect[OF assms(1) p1 assms(3) places(1,2) i(1)]
    show ?thesis using moved_then[OF m1 inst(1)[where C = UNIV]] inst(2,3) i(2) f(2) by (simp add: mise_files_def)
  qed
  then show "moved P (set (mise_files h)) UNIV v (se_world s) (se_world s')" "plain F v (se_world s')"
    "\<exists>b. vw_file v (se_world s') ?p = Some b \<and> sh_sha h b = dl_SHA256 mise" by blast+
qed


text \<open>Keys: each is made if it is missing; then what is trusted has every key that is to be trusted.\<close>

lemma make_key_effect:
  assumes "host_documented h P v" "plain F v (se_world s)" "F \<subseteq> P" "path \<in> F"
    and "\<And>w. (\<exists>e. generate path w = (w, Inl e)) \<or> (\<exists>b. generate path w = sh_WriteNew h path b w)"
    and "make_key h generate path s = (s', Inr made)"
  shows "moved P {path} C v (se_world s) (se_world s')" "plain F v (se_world s')"
proof -
  have l: "path \<in> P" "vw_linked v (se_world s) path = None" using assms(3,4) plainD[OF assms(2,4)] by auto
  have "moved P {path} C v (se_world s) (se_world s') \<and> vw_linked v (se_world s') path = None"
  proof (cases "not_there (sh_machine h) path (se_world s)")
    case False
    then show ?thesis using assms(6) l by (simp add: make_key_def)
  next
    case True
    then have r: "try_then (on_host (generate path) s) (\<lambda>_ s1. (s1, Inr [path])) = (s', Inr made)"
      using assms(6) by (simp add: make_key_def)
    obtain a where g: "on_host (generate path) s = (s', Inr a)" by (rule try_then_InrE[OF r]) simp
    then obtain b where "sh_WriteNew h path b (se_world s) = (se_world s', Inr a)"
      using on_host_world[OF g] assms(5)[of "se_world s"] by auto
    then have "moved P {path} {} v (se_world s) (se_world s') \<and> vw_linked v (se_world s') path = None"
      using moved_new[OF assms(1) l, of b "se_world s'"] by simp
    then show ?thesis using moved_mono[of P "{path}" "{}" v "se_world s" "se_world s'" "{path}" C] by simp
  qed
  then show "moved P {path} C v (se_world s) (se_world s')" "plain F v (se_world s')"
    using plain_moved[OF assms(2) _ assms(3), of "{path}" C "se_world s'"] by (auto simp: plain_def)
qed

lemma generators:
  "(\<exists>e. new_signing_key h path w = (w, Inl e)) \<or> (\<exists>b. new_signing_key h path w = sh_WriteNew h path b w)"
  "(\<exists>e. new_master_key h path w = (w, Inl e)) \<or> (\<exists>b. new_master_key h path w = sh_WriteNew h path b w)"
  by (auto simp: new_signing_key_def new_master_key_def split: sum.split)

lemma cut_grows: "cut s k \<noteq> None \<Longrightarrow> cut (a @ s @ b) k \<noteq> None"
  unfolding cut_None_iff using occurs_inside[of k a s b] by simp

lemma new_trust_twice: "new_trust (have_now @ new_trust have_now trust) trust = ''''"
proof -
  have "cut (have_now @ new_trust have_now trust) k \<noteq> None" if k: "k \<in> set trust" for k
  proof (cases "cut have_now k = None")
    case True
    then have "k \<in> set (filter (\<lambda>k. cut have_now k = None) trust)" using k by simp
    then obtain xs ys where "filter (\<lambda>k. cut have_now k = None) trust = xs @ k # ys" by (metis in_set_conv_decomp)
    then have "new_trust have_now trust = concat (map (\<lambda>k. k @ [CHR 0x0A]) xs) @ k @ ([CHR 0x0A] @ concat (map (\<lambda>k. k @ [CHR 0x0A]) ys))"
      by (simp add: new_trust_def)
    moreover have "cut k k \<noteq> None" using cut_None_iff[of k k] by (auto simp: occurs_def intro: exI[of _ "[]"])
    ultimately show ?thesis using cut_grows[of k k "have_now @ concat (map (\<lambda>k. k @ [CHR 0x0A]) xs)"] by simp
  next
    case False
    then show ?thesis using cut_grows[of have_now k "[]"] by simp
  qed
  then show ?thesis unfolding new_trust_def[of "have_now @ _"] by (simp add: filter_empty_conv)
qed

definition trusted_now :: "('w, 'r, 'i) setup_host \<Rightarrow> 'w views \<Rightarrow> 'w \<Rightarrow> string" where
  "trusted_now h v w = (case vw_file v w (trusted_path h) of None \<Rightarrow> '''' | Some b \<Rightarrow> b)"

lemma trust_effect:
  assumes "host_documented h P v" "plain F v (se_world s)" "F \<subseteq> P" "trusted_path h \<in> F" "trust_laptops h trust s = (s', Inr u)"
  shows "moved P {trusted_path h} C v (se_world s) (se_world s')" "plain F v (se_world s')"
    and "new_trust (trusted_now h v (se_world s')) trust = ''''"
    and "trusted_now h v (se_world s') = trusted_now h v (se_world s) @ new_trust (trusted_now h v (se_world s)) trust"
proof -
  let ?p = "trusted_path h" and ?m = "sh_machine h"
  have l: "?p \<in> P" "vw_linked v (se_world s) ?p = None" using assms(3,4) plainD[OF assms(2,4)] by auto
  have read: "os_ReadFile ?m ?p (se_world s) = Inr b" if "vw_file v (se_world s) ?p = Some b" for b
    using host_read[OF assms(1) l that] by simp
  obtain now where now: "now = trusted_now h v (se_world s)"
    "(if new_trust now trust = '''' then done_ok s
      else try_then (on_host (os_WriteFile ?m ?p (now @ new_trust now trust)) s) (\<lambda>_ s1.
       done_ok (say (''trusted '' @ itoa (int (length (filter (\<lambda>c. c = CHR 0x0A) (new_trust now trust)))) @ '' new laptop key(s)'') s1)))
      = (s', Inr u)"
  proof (cases "os_ReadFile ?m ?p (se_world s)")
    case (Inr b)
    then have "trusted_now h v (se_world s) = b"
      using doc_ReadFile[OF host_files[OF assms(1)] l Inr] by (simp add: trusted_now_def)
    then show thesis using that[of b] assms(5)[unfolded trust_laptops_def, folded trusted_path_def] Inr by (simp add: Let_def)
  next
    case (Inl e)
    then have "vw_file v (se_world s) ?p = None" using read by (cases "vw_file v (se_world s) ?p") auto
    then show thesis using that[of "''''"] assms(5)[unfolded trust_laptops_def, folded trusted_path_def] Inl
      by (auto simp: Let_def trusted_now_def split: if_splits)
  qed
  have "moved P {?p} C v (se_world s) (se_world s') \<and> vw_linked v (se_world s') ?p = None \<and>
    new_trust (trusted_now h v (se_world s')) trust = '''' \<and> trusted_now h v (se_world s') = now @ new_trust now trust"
  proof (cases "new_trust now trust = ''''")
    case True
    then have "s' = s" using now(2) by simp
    then show ?thesis using True now(1) l by simp
  next
    case False
    then obtain s1 a where a: "on_host (os_WriteFile ?m ?p (now @ new_trust now trust)) s = (s1, Inr a)" "se_world s' = se_world s1"
      using now(2) by (auto elim!: try_then_okE)
    have w: "moved P {?p} {} v (se_world s) (se_world s1) \<and> vw_linked v (se_world s1) ?p = None \<and>
      vw_file v (se_world s1) ?p = Some (now @ new_trust now trust)"
      using moved_write[OF assms(1) l on_host_world[OF a(1)]] by simp
    then have "moved P {?p} C v (se_world s) (se_world s1)" by (blast intro: moved_mono)
    then show ?thesis using w a(2) new_trust_twice[of now trust] by (simp add: trusted_now_def)
  qed
  then show "moved P {?p} C v (se_world s) (se_world s')" "new_trust (trusted_now h v (se_world s')) trust = ''''"
    "plain F v (se_world s')" "trusted_now h v (se_world s') = trusted_now h v (se_world s) @ new_trust (trusted_now h v (se_world s)) trust"
    using plain_moved[OF assms(2) _ assms(3), of "{?p}" C "se_world s'"] now(1) by (auto simp: plain_def)
qed

definition key_loads :: "('w, 'r, 'i) setup_host \<Rightarrow> 'w views \<Rightarrow> 'w \<Rightarrow> bool" where
  "key_loads h v w = ((\<exists>b key. vw_file v w (signing_path h) = Some b \<and>
       LoadKey None (signing_path h) [(signing_path h, b)] = Inr key) \<and>
     (\<exists>b m. vw_file v w (master_path h) = Some b \<and>
       LoadMaster (sh_age h) None (master_path h) [(master_path h, b)] = Some (Inr m)))"

lemma loaded_file:
  assumes "host_documented h P v" "p \<in> P" "vw_linked v w p = None"
  shows "load_signing h p w = Inr key \<Longrightarrow> \<exists>b. vw_file v w p = Some b \<and> LoadKey None p [(p, b)] = Inr key"
    and "load_master h p w = Inr m \<Longrightarrow> \<exists>b. vw_file v w p = Some b \<and> LoadMaster (sh_age h) None p [(p, b)] = Some (Inr m)"
proof -
  have read: "vw_file v w p = Some b" if "os_ReadFile (sh_machine h) p w = Inr b" for b
    by (rule doc_ReadFile[OF host_files[OF assms(1)] assms(2,3) that])
  show "load_signing h p w = Inr key \<Longrightarrow> \<exists>b. vw_file v w p = Some b \<and> LoadKey None p [(p, b)] = Inr key"
    using read by (cases "os_ReadFile (sh_machine h) p w")
      (auto simp: load_signing_def as_files_def LoadKey_def read_file_def)
  show "load_master h p w = Inr m \<Longrightarrow> \<exists>b. vw_file v w p = Some b \<and> LoadMaster (sh_age h) None p [(p, b)] = Some (Inr m)"
    using read by (cases "os_ReadFile (sh_machine h) p w")
      (auto simp: load_master_def as_files_def LoadMaster_def read_file_def split: option.splits)
qed

lemma moved_tell_keys: "tell_keys h made s = (s', r) \<Longrightarrow> se_world s' = se_world s"
  by (auto simp: tell_keys_def Let_def split: sum.splits if_splits)

lemma moved_own_keys:
  assumes "host_documented h P v" "own_keys h made s = (s', r)" "(''chown'', [''-R'', ''garage:garage'', host_path h Keys]) \<in> C"
  shows "moved P {} C v (se_world s) (se_world s')"
  using assms(2) unfolding own_keys_def
proof (rule moved_try_then)
  show "moved P {} C v (se_world s) (se_world s1)"
    if "on_host (os_ReadDir (mx_host (sh_machine h)) (host_path h Keys)) s = (s1, x)" for s1 x
    using moved_mono[OF moved_readdir[OF assms(1) on_host_world[OF that]]] by blast
  fix s1 entries s2 x
  assume "try_then (chmod_all h (map fst entries) s1) (\<lambda>_ s2.
    try_then (garage_owns h [''-R'', ''garage:garage'', host_path h Keys] s2) (\<lambda>_. tell_keys h made)) = (s2, x)"
  then show "moved P {} C v (se_world s1) (se_world s2)"
  proof (rule moved_try_then[OF _ moved_chmod_all[OF assms(1)]])
    fix s3 s4 y assume "try_then (garage_owns h [''-R'', ''garage:garage'', host_path h Keys] s3) (\<lambda>_. tell_keys h made) = (s4, y)"
    then show "moved P {} C v (se_world s3) (se_world s4)"
      by (rule moved_try_then[OF _ moved_owns[OF assms(1) _ assms(3)]]) (auto dest: moved_tell_keys)
  qed
qed

lemma own_keys_effect:
  assumes "host_documented h P v" "plain F v (se_world s)" "F \<subseteq> P" "signing_path h \<in> F" "master_path h \<in> F"
    and "own_keys h made s = (s', Inr u)"
  shows "moved P {} UNIV v (se_world s) (se_world s')" "plain F v (se_world s')" "key_loads h v (se_world s')"
proof -
  show m: "moved P {} UNIV v (se_world s) (se_world s')" by (rule moved_own_keys[OF assms(1,6)]) simp
  show p: "plain F v (se_world s')" by (rule plain_still[OF assms(2) m assms(3)])
  obtain s1 and entries :: "(string \<times> bool) list" where a: "try_then (chmod_all h (map fst entries) s1) (\<lambda>_ s2.
    try_then (garage_owns h [''-R'', ''garage:garage'', host_path h Keys] s2) (\<lambda>_. tell_keys h made)) = (s', Inr u)"
    by (rule try_then_InrE[OF assms(6)[unfolded own_keys_def]]) (rule that)
  obtain s2 where b: "try_then (garage_owns h [''-R'', ''garage:garage'', host_path h Keys] s2) (\<lambda>_. tell_keys h made) = (s', Inr u)"
    by (rule try_then_InrE[OF a]) (rule that)
  obtain s3 where t: "tell_keys h made s3 = (s', Inr u)" by (rule try_then_InrE[OF b]) (rule that)
  have w: "se_world s3 = se_world s'" using moved_tell_keys[OF t] by simp
  obtain key m where "load_signing h (signing_path h) (se_world s') = Inr key" "load_master h (master_path h) (se_world s') = Inr m"
    using t[unfolded tell_keys_def, folded signing_path_def master_path_def] w by (auto split: sum.splits)
  then show "key_loads h v (se_world s')"
    using loaded_file[OF assms(1) _ plainD[OF p assms(4)]] loaded_file[OF assms(1) _ plainD[OF p assms(5)]] assms(3-5)
    unfolding key_loads_def by blast
qed

lemma step_keys:
  assumes "host_documented h P v" "plain F v (se_world s)" "F \<subseteq> P" "set (key_files h) \<subseteq> F" "setup_keys h cfg s = (s', Inr u)"
  shows "moved P (set (key_files h)) UNIV v (se_world s) (se_world s')" "plain F v (se_world s')"
    and "new_trust (trusted_now h v (se_world s')) (cf_Trust cfg) = ''''" "key_loads h v (se_world s')"
    and "distinct (key_files h) \<Longrightarrow>
      trusted_now h v (se_world s') = trusted_now h v (se_world s) @ new_trust (trusted_now h v (se_world s)) (cf_Trust cfg)"
proof -
  let ?s = "signing_path h" and ?m = "master_path h" and ?K = "set (key_files h)"
  have F: "?s \<in> F" "?m \<in> F" "trusted_path h \<in> F" using assms(4) by (simp_all add: key_files_def)
  obtain s1 made where s1: "make_key h (new_signing_key h) ?s s = (s1, Inr made)"
    and rest1: "try_then (make_key h (new_master_key h) ?m s1) (\<lambda>made2 s2.
      try_then (trust_laptops h (cf_Trust cfg) s2) (\<lambda>_. own_keys h (made @ made2))) = (s', Inr u)"
    by (rule try_then_InrE[OF assms(5)[unfolded setup_keys_def, folded signing_path_def master_path_def]])
  obtain s2 made2 where s2: "make_key h (new_master_key h) ?m s1 = (s2, Inr made2)"
    and rest2: "try_then (trust_laptops h (cf_Trust cfg) s2) (\<lambda>_. own_keys h (made @ made2)) = (s', Inr u)"
    by (rule try_then_InrE[OF rest1])
  obtain s3 a3 where s3: "trust_laptops h (cf_Trust cfg) s2 = (s3, Inr a3)" and rest3: "own_keys h (made @ made2) s3 = (s', Inr u)"
    by (rule try_then_InrE[OF rest2])
  note e1 = make_key_effect[OF assms(1,2,3) F(1) generators(1) s1]
  note e2 = make_key_effect[OF assms(1) e1(2) assms(3) F(2) generators(2) s2]
  note e3 = trust_effect[OF assms(1) e2(2) assms(3) F(3) s3]
  note e4 = own_keys_effect[OF assms(1) e3(2) assms(3) F(1,2) rest3]
  have "moved P ?K UNIV v (se_world s) (se_world s2)"
    by (rule moved_then[OF e1(1)[where C = UNIV] e2(1)[where C = UNIV]]) (simp_all add: key_files_def)
  then have "moved P ?K UNIV v (se_world s) (se_world s3)"
    by (rule moved_then[OF _ e3(1)[where C = UNIV]]) (simp_all add: key_files_def)
  then show "moved P ?K UNIV v (se_world s) (se_world s')" by (rule moved_then[OF _ e4(1)]) simp_all
  show "plain F v (se_world s')" "key_loads h v (se_world s')" by (rule e4)+
  have "vw_file v (se_world s') (trusted_path h) = vw_file v (se_world s3) (trusted_path h)"
    using movedD[OF e4(1), of "trusted_path h"] F(3) assms(3) by auto
  then have same: "trusted_now h v (se_world s') = trusted_now h v (se_world s3)" by (simp add: trusted_now_def)
  then show "new_trust (trusted_now h v (se_world s')) (cf_Trust cfg) = ''''" using e3(3) by simp
  assume "distinct (key_files h)"
  then have "vw_file v (se_world s2) (trusted_path h) = vw_file v (se_world s) (trusted_path h)"
    using movedD[OF e1(1)[where C = UNIV], of "trusted_path h"] movedD[OF e2(1)[where C = UNIV], of "trusted_path h"] F(3) assms(3)
    by (auto simp: key_files_def)
  then have "trusted_now h v (se_world s2) = trusted_now h v (se_world s)" by (simp add: trusted_now_def)
  then show "trusted_now h v (se_world s') = trusted_now h v (se_world s) @ new_trust (trusted_now h v (se_world s)) (cf_Trust cfg)"
    using same e3(4) by simp
qed

text \<open>The binary and the links to it.\<close>

definition links_made :: "('w, 'r, 'i) setup_host \<Rightarrow> string \<Rightarrow> 'w views \<Rightarrow> 'w \<Rightarrow> bool" where
  "links_made h raw v w = (vw_linked v w (current_path h) = Some (release_name h raw @ ''/garage'') \<and>
     vw_linked v w (serve_path h) = Some ''releases/current'' \<and>
     vw_linked v w (garage_path h) = Some ''/opt/garage/serve-current'')"

lemma setup_link_effect:
  assumes "host_documented h P v" "plain F v (se_world s)" "F \<subseteq> P" "p \<in> P - F" "p @ ''.new'' \<in> P - F"
    and "setup_link h t p s = (s', had, r)"
  shows "moved P {p, p @ ''.new''} C v (se_world s) (se_world s')" "plain F v (se_world s')"
    and "r = Inr () \<Longrightarrow> vw_linked v (se_world s') p = Some t"
proof -
  have l: "link (sh_machine h) t p (se_world s) = (se_world s', had, r)"
    using assms(6) by (auto simp: setup_link_def split: prod.splits)
  have m: "moved P {p, p @ ''.new''} {} v (se_world s) (se_world s') \<and> (r = Inr () \<longrightarrow> vw_linked v (se_world s') p = Some t)"
    by (rule moved_link[OF assms(1) _ _ l]) (use assms(4,5) in auto)
  then show "moved P {p, p @ ''.new''} C v (se_world s) (se_world s')" by (blast intro: moved_mono)
  show "r = Inr () \<Longrightarrow> vw_linked v (se_world s') p = Some t" using m by blast
  have "F \<inter> {p, p @ ''.new''} = {}" using assms(4,5) by auto
  then have "plain (F \<inter> {p, p @ ''.new''}) v (se_world s')" by (simp add: plain_def)
  then show "plain F v (se_world s')" using plain_moved[OF assms(2) m[THEN conjunct1] assms(3)] by blast
qed

lemma step_binary:
  assumes "host_documented h P v" "plain F v (se_world s)" "F \<subseteq> P" "set (release_file h raw) \<subseteq> F" "cf_Binary cfg \<in> F"
    and "set (setup_links h) \<subseteq> P - F" "distinct (setup_links h)"
    and "vw_file v (se_world s) (cf_Binary cfg) = Some raw"
    and "vw_file v (se_world s) (dest_path h raw) \<in> {None, Some raw}" "cf_Binary cfg \<notin> set (release_file h raw)"
    and "setup_binary h cfg s = (s', Inr u)"
  shows "moved P (set (release_file h raw) \<union> set (setup_links h)) UNIV v (se_world s) (se_world s')" "plain F v (se_world s')"
    and "vw_file v (se_world s') (dest_path h raw) = Some raw" "links_made h raw v (se_world s')"
proof -
  let ?d = "dest_path h raw" and ?c = "current_path h" and ?v = "serve_path h" and ?g = "garage_path h"
  let ?D = "set (release_file h raw)" and ?L = "set (setup_links h)"
  have dF: "?d \<in> F" "?d @ ''.new'' \<in> F" "?d \<in> P" using assms(3,4) by (auto simp: release_file_def)
  have places: "?c \<in> P - F" "?c @ ''.new'' \<in> P - F" "?v \<in> P - F" "?v @ ''.new'' \<in> P - F" "?g \<in> P - F" "?g @ ''.new'' \<in> P - F"
    using assms(6) by (simp_all add: setup_links_def)
  have raw: "os_ReadFile (sh_machine h) (cf_Binary cfg) (se_world s) = Inr raw"
    using host_read[OF assms(1) _ plainD[OF assms(2,5)] assms(8)] assms(3,5) by blast
  note installs = assms(11)[unfolded setup_binary_def raw sum.case Let_def, folded release_name_def, folded dest_path_def current_path_def serve_path_def garage_path_def]
  obtain s1 a where i: "(if not_there (sh_machine h) ?d (se_world s) then install_file h ?d raw s else done_ok s) = (s1, Inr a)"
    and rest: "(case setup_link h (release_name h raw @ ''/garage'') ?c s1 of
        (s2, changed, Inl e) \<Rightarrow> (s2\<lparr>se_binaryChanged := changed\<rparr>, Inl e)
      | (s2, changed, Inr u) \<Rightarrow>
          try_then (garage_owns h [''-R'', ''garage:garage'', host_path h Releases]
              (if changed then say (''releases/current is now '' @ release_name h raw) (s2\<lparr>se_binaryChanged := changed\<rparr>)
               else s2\<lparr>se_binaryChanged := changed\<rparr>)) (\<lambda>_ s5.
            case setup_link h ''releases/current'' ?v s5 of
              (s6, mv, Inl e) \<Rightarrow> (s6, Inl e)
            | (s6, mv, Inr u) \<Rightarrow>
               (case setup_link h ''/opt/garage/serve-current'' ?g (s6\<lparr>se_binaryChanged := se_binaryChanged s6 \<or> mv\<rparr>) of
                  (s7, had, r) \<Rightarrow> (s7, r)))) = (s', Inr u)"
    by (rule try_then_InrE[OF installs]) (rule that)
  have e1: "moved P ?D UNIV v (se_world s) (se_world s1) \<and> plain F v (se_world s1) \<and> vw_file v (se_world s1) ?d = Some raw"
  proof (cases "not_there (sh_machine h) ?d (se_world s)")
    case True
    then have "install_file h ?d raw s = (s1, Inr a)" using i by simp
    from install_file_effect[OF assms(1-3) dF(1,2) this] show ?thesis by (simp add: release_file_def)
  next
    case False
    have "vw_file v (se_world s) ?d \<noteq> None" using host_missing[OF assms(1) dF(3) plainD[OF assms(2) dF(1)]] False by blast
    then have "vw_file v (se_world s) ?d = Some raw" using assms(9) by auto
    then show ?thesis using i False assms(2) by simp
  qed
  obtain s2 changed r2 where l2: "setup_link h (release_name h raw @ ''/garage'') ?c s1 = (s2, changed, r2)" by (metis prod.exhaust)
  have r2: "r2 = Inr ()" using rest l2 by (cases r2) auto
  let ?s3 = "if changed then say (''releases/current is now '' @ release_name h raw) (s2\<lparr>se_binaryChanged := changed\<rparr>)
    else s2\<lparr>se_binaryChanged := changed\<rparr>"
  have w3: "se_world ?s3 = se_world s2" by simp
  obtain s5 b where o5: "garage_owns h [''-R'', ''garage:garage'', host_path h Releases] ?s3 = (s5, Inr b)"
    and rest5: "(case setup_link h ''releases/current'' ?v s5 of
        (s6, mv, Inl e) \<Rightarrow> (s6, Inl e)
      | (s6, mv, Inr u) \<Rightarrow>
         (case setup_link h ''/opt/garage/serve-current'' ?g (s6\<lparr>se_binaryChanged := se_binaryChanged s6 \<or> mv\<rparr>) of
            (s7, had, r) \<Rightarrow> (s7, r))) = (s', Inr u)"
    by (rule try_then_InrE[OF rest[unfolded l2 r2 prod.case sum.case]]) (rule that)
  obtain s6 had6 r6 where l6: "setup_link h ''releases/current'' ?v s5 = (s6, had6, r6)" by (metis prod.exhaust)
  have r6: "r6 = Inr ()" using rest5 l6 by (cases r6) auto
  obtain s7 had7 r7 where l7: "setup_link h ''/opt/garage/serve-current'' ?g
      (s6\<lparr>se_binaryChanged := se_binaryChanged s6 \<or> had6\<rparr>) = (s7, had7, r7)" by (metis prod.exhaust)
  have r7: "s7 = s'" "r7 = Inr ()" using rest5 l6 r6 l7 by auto
  note e2 = setup_link_effect[OF assms(1) e1[THEN conjunct2, THEN conjunct1] assms(3) places(1,2) l2]
  have m5: "moved P {} UNIV v (se_world s2) (se_world s5)" using moved_owns[OF assms(1) o5] w3 by simp
  have p5: "plain F v (se_world s5)" by (rule plain_still[OF e2(2) m5 assms(3)])
  note e6 = setup_link_effect[OF assms(1) p5 assms(3) places(3,4) l6]
  have p6: "plain F v (se_world (s6\<lparr>se_binaryChanged := se_binaryChanged s6 \<or> had6\<rparr>))" using e6(2) by simp
  note e7 = setup_link_effect[OF assms(1) p6 assms(3) places(5,6) l7, unfolded r7(1), simplified]
  have m52: "moved P {?c, ?c @ ''.new''} UNIV v (se_world s1) (se_world s5)" by (rule moved_then[OF e2(1)[where C = UNIV] m5]) simp_all
  have m67: "moved P {?v, ?v @ ''.new'', ?g, ?g @ ''.new''} UNIV v (se_world s5) (se_world s')"
    by (rule moved_then[OF e6(1)[where C = UNIV] e7(1)[where C = UNIV]]) auto
  have m7: "moved P ?L UNIV v (se_world s1) (se_world s')" by (rule moved_then[OF m52 m67]) (auto simp: setup_links_def)
  show "moved P (?D \<union> ?L) UNIV v (se_world s) (se_world s')" by (rule moved_then[OF e1[THEN conjunct1] m7]) auto
  show "plain F v (se_world s')" by (rule e7)
  have "?d \<in> P - ?L" using dF(1,3) assms(6) by auto
  then show "vw_file v (se_world s') ?d = Some raw" using movedD[OF m7] e1 by simp
  have dist: "?c \<in> P - {?v, ?v @ ''.new'', ?g, ?g @ ''.new''}" "?v \<in> P - {?g, ?g @ ''.new''}"
    using places assms(7) by (auto simp: setup_links_def)
  have "vw_linked v (se_world s5) ?c = Some (release_name h raw @ ''/garage'')"
    using movedD[OF m5, of ?c] places(1) e2(3) r2 by simp
  then show "links_made h raw v (se_world s')" using movedD[OF m67 dist(1)] movedD[OF e7(1) dist(2)] e6(3) e7(3) r6 r7
    by (simp add: links_made_def)
qed

text \<open>Units, sshd and the firewall.\<close>

lemma write_units_effect:
  assumes "host_documented h P v" "F \<subseteq> P"
  shows "write_units h ns s = (s', Inr changed) \<Longrightarrow> plain F v (se_world s) \<Longrightarrow> unit_path h ` set ns \<subseteq> F \<Longrightarrow>
    distinct (map (unit_path h) ns) \<Longrightarrow>
    moved P (unit_path h ` set ns) UNIV v (se_world s) (se_world s') \<and> plain F v (se_world s') \<and>
    (\<forall>n \<in> set ns. vw_file v (se_world s') (unit_path h n) = Some (sh_units h n))"
proof (induction ns arbitrary: s changed)
  case (Cons n ns)
  obtain s1 c where c: "writeIfChanged h (''/etc/systemd/system/'' @ n) (sh_units h n) s = (s1, Inr c)"
    and rest: "try_then (write_units h ns s1) (\<lambda>changed s2. (s2, Inr (if c then n # changed else changed))) = (s', Inr changed)"
    by (rule try_then_InrE[OF Cons.prems(1)[unfolded write_units.simps]]) (rule that)
  obtain s2 ch where ch: "write_units h ns s1 = (s2, Inr ch)" "(s2, Inr (if c then n # ch else ch)) = (s', (Inr changed :: string list res))"
    by (rule try_then_InrE[OF rest]) (rule that)
  have n: "unit_path h n \<in> F" "unit_path h n \<in> P" using Cons.prems(3) assms(2) by auto
  note e1 = writeIfChanged_effect[OF assms(1) n(2)[unfolded unit_path_def] Cons.prems(2) assms(2) n(1)[unfolded unit_path_def] c,
    folded unit_path_def]
  have w: "write_units h ns s1 = (s', Inr ch)" using ch by simp
  have e2: "moved P (unit_path h ` set ns) UNIV v (se_world s1) (se_world s')" "plain F v (se_world s')"
    "\<forall>n \<in> set ns. vw_file v (se_world s') (unit_path h n) = Some (sh_units h n)"
    using Cons.IH[OF w e1(2)] Cons.prems(3,4) by simp_all
  have "vw_file v (se_world s') (unit_path h n) = Some (sh_units h n)"
    using movedD[OF e2(1), of "unit_path h n"] e1(3) n(2) Cons.prems(4) by simp
  then show ?case using moved_then[OF e1(1)[where C = UNIV] e2(1), of "unit_path h ` set (n # ns)" UNIV] e2(2,3) by auto
qed simp

definition units_written :: "('w, 'r, 'i) setup_host \<Rightarrow> 'w views \<Rightarrow> 'w \<Rightarrow> bool" where
  "units_written h v w = (\<forall>n \<in> set unit_names. vw_file v w (unit_path h n) = Some (sh_units h n))"

lemma moved_unit_commands:
  assumes "host_documented h P v"
    and "try_then (if changed = [] then done_ok s else systemctl h [''daemon-reload''] s) (\<lambda>_ s2.
      try_then (systemctl h [''enable'', ''--now'', ''garage-serve.service'', ''garage-backup.timer''] s2) (\<lambda>_ s3.
      try_then (if ''garage-serve.service'' \<in> set changed \<or> se_binaryChanged s3
          then try_then (systemctl h [''restart'', ''garage-serve.service''] s3) (\<lambda>_ s4. done_ok (say ''restarted garage serve'' s4))
          else done_ok s3) (\<lambda>_ s4.
        if ''garage-backup.timer'' \<in> set changed then systemctl h [''restart'', ''garage-backup.timer''] s4 else done_ok s4))) = (s', r)"
  shows "moved P {} UNIV v (se_world s) (se_world s')"
  using assms(2)
proof (rule moved_try_then)
  have sys: "moved P {} UNIV v (se_world s) (se_world s1)" if "systemctl h args s = (s1, x)" for s s1 x args
    by (rule moved_systemctl[OF assms(1) that]) simp
  show "moved P {} UNIV v (se_world s) (se_world s1)"
    if "(if changed = [] then done_ok s else systemctl h [''daemon-reload''] s) = (s1, x)" for s1 x
    using that sys by (auto split: if_splits)
  fix s1 s2 x
  assume "try_then (systemctl h [''enable'', ''--now'', ''garage-serve.service'', ''garage-backup.timer''] s1) (\<lambda>_ s3.
      try_then (if ''garage-serve.service'' \<in> set changed \<or> se_binaryChanged s3
          then try_then (systemctl h [''restart'', ''garage-serve.service''] s3) (\<lambda>_ s4. done_ok (say ''restarted garage serve'' s4))
          else done_ok s3) (\<lambda>_ s4.
        if ''garage-backup.timer'' \<in> set changed then systemctl h [''restart'', ''garage-backup.timer''] s4 else done_ok s4)) = (s2, x)"
  then show "moved P {} UNIV v (se_world s1) (se_world s2)"
  proof (rule moved_try_then[OF _ sys])
    fix s3 s4 y
    assume "try_then (if ''garage-serve.service'' \<in> set changed \<or> se_binaryChanged s3
          then try_then (systemctl h [''restart'', ''garage-serve.service''] s3) (\<lambda>_ s4. done_ok (say ''restarted garage serve'' s4))
          else done_ok s3) (\<lambda>_ s4.
        if ''garage-backup.timer'' \<in> set changed then systemctl h [''restart'', ''garage-backup.timer''] s4 else done_ok s4) = (s4, y)"
    then show "moved P {} UNIV v (se_world s3) (se_world s4)"
    proof (rule moved_try_then)
      fix s5 z
      assume "(if ''garage-serve.service'' \<in> set changed \<or> se_binaryChanged s3
          then try_then (systemctl h [''restart'', ''garage-serve.service''] s3) (\<lambda>_ s4. done_ok (say ''restarted garage serve'' s4))
          else done_ok s3) = (s5, z)"
      then show "moved P {} UNIV v (se_world s3) (se_world s5)"
        by (auto split: if_splits elim!: moved_try_then intro: sys)
    qed (auto split: if_splits intro: sys)
  qed
qed

lemma step_units:
  assumes "host_documented h P v" "plain F v (se_world s)" "F \<subseteq> P" "set (unit_files h) \<subseteq> F" "distinct (unit_files h)"
    and "setup_units h s = (s', Inr u)"
  shows "moved P (set (unit_files h)) UNIV v (se_world s) (se_world s')" "plain F v (se_world s')" "units_written h v (se_world s')"
proof -
  have U: "set (unit_files h) = unit_path h ` set unit_names" by (simp add: unit_files_def)
  obtain s1 changed where w: "write_units h unit_names s = (s1, Inr changed)"
    and rest: "try_then (if changed = [] then done_ok s1 else systemctl h [''daemon-reload''] s1) (\<lambda>_ s2.
      try_then (systemctl h [''enable'', ''--now'', ''garage-serve.service'', ''garage-backup.timer''] s2) (\<lambda>_ s3.
      try_then (if ''garage-serve.service'' \<in> set changed \<or> se_binaryChanged s3
          then try_then (systemctl h [''restart'', ''garage-serve.service''] s3) (\<lambda>_ s4. done_ok (say ''restarted garage serve'' s4))
          else done_ok s3) (\<lambda>_ s4.
        if ''garage-backup.timer'' \<in> set changed then systemctl h [''restart'', ''garage-backup.timer''] s4 else done_ok s4)))
      = (s', Inr u)"
    by (rule try_then_InrE[OF assms(6)[unfolded setup_units_def]]) (rule that)
  have e1: "moved P (set (unit_files h)) UNIV v (se_world s) (se_world s1)" "plain F v (se_world s1)" "units_written h v (se_world s1)"
    using write_units_effect[OF assms(1,3) w assms(2)] assms(4,5) unfolding U units_written_def unit_files_def by simp_all
  have e2: "moved P {} UNIV v (se_world s1) (se_world s')" by (rule moved_unit_commands[OF assms(1) rest])
  show "moved P (set (unit_files h)) UNIV v (se_world s) (se_world s')" by (rule moved_then[OF e1(1) e2]) simp_all
  show "plain F v (se_world s')" by (rule plain_still[OF e1(2) e2 assms(3)])
  have "vw_file v (se_world s') (unit_path h n) = vw_file v (se_world s1) (unit_path h n)" if "n \<in> set unit_names" for n
    using movedD[OF e2, of "unit_path h n"] that assms(3,4) unfolding U by blast
  then show "units_written h v (se_world s')" using e1(3) by (simp add: units_written_def)
qed

lemma step_sshd:
  assumes "host_documented h P v" "plain F v (se_world s)" "F \<subseteq> P" "set (sshd_files h) \<subseteq> F" "setup_sshd h s = (s', Inr u)"
  shows "moved P (set (sshd_files h)) UNIV v (se_world s) (se_world s')" "plain F v (se_world s')"
    and "vw_file v (se_world s') (host_path h sshd_path) = Some (sh_sshdConf h)"
proof -
  let ?p = "host_path h sshd_path"
  have p: "?p \<in> F" "?p \<in> P" using assms(3,4) by (auto simp: sshd_files_def)
  obtain s1 changed where w: "writeIfChanged h sshd_path (sh_sshdConf h) s = (s1, Inr changed)"
    and rest: "(if \<not> changed then done_ok s1
       else case run_command h ''sshd'' [''-t''] s1 of
         (s2, Inl e) \<Rightarrow>
           (s2\<lparr>se_world := (case os_ReadFile (sh_machine h) ?p (se_world s) of Inr b \<Rightarrow> fst (os_WriteFile (sh_machine h) ?p b (se_world s2))
                                     | Inl x \<Rightarrow> os_Remove (sh_machine h) ?p (se_world s2))\<rparr>,
            Inl (Wrap ''setup: sshd rejects the key-only config, left it as it was: '' e ''''))
       | (s2, Inr out) \<Rightarrow>
           try_then (systemctl h [''reload'', ''ssh''] s2) (\<lambda>_ s3. done_ok (say ''sshd is key-only'' s3))) = (s', Inr u)"
    by (rule try_then_InrE[OF assms(5)[unfolded setup_sshd_def Let_def]]) (rule that)
  note e1 = writeIfChanged_effect[OF assms(1) p(2) assms(2,3) p(1) w]
  have e2: "moved P {} UNIV v (se_world s1) (se_world s')"
  proof (cases changed)
    case True
    obtain s2 r where t: "run_command h ''sshd'' [''-t''] s1 = (s2, r)" by (metis prod.exhaust)
    obtain out where r: "r = Inr out" using rest True t by (cases r) auto
    have m: "moved P {} UNIV v (se_world s1) (se_world s2)" by (rule moved_command[OF assms(1) t]) simp
    have "try_then (systemctl h [''reload'', ''ssh''] s2) (\<lambda>_ s3. done_ok (say ''sshd is key-only'' s3)) = (s', Inr u)"
      using rest True t r by simp
    then obtain s3 a where "systemctl h [''reload'', ''ssh''] s2 = (s3, Inr a)" "s' = say ''sshd is key-only'' s3"
      by (rule try_then_okE)
    then show ?thesis using moved_trans[OF m moved_systemctl[OF assms(1)]] by simp
  qed (use rest in simp)
  show "moved P (set (sshd_files h)) UNIV v (se_world s) (se_world s')"
    by (rule moved_then[OF e1(1)[where C = UNIV] e2]) (simp_all add: sshd_files_def)
  show "plain F v (se_world s')" by (rule plain_still[OF e1(2) e2 assms(3)])
  show "vw_file v (se_world s') ?p = Some (sh_sshdConf h)" using movedD[OF e2, of ?p] p(2) e1(3) by simp
qed

lemma step_firewall:
  assumes "host_documented h P v" "plain F v (se_world s)" "F \<subseteq> P" "set (nft_files h) \<subseteq> F" "setup_firewall h cfg s = (s', Inr u)"
  shows "moved P (set (nft_files h)) UNIV v (se_world s) (se_world s')" "plain F v (se_world s')"
    and "vw_file v (se_world s') (nft_path h) = Some (nft_rules h (cf_SSHFrom cfg))"
proof -
  let ?p = "nft_path h" and ?n = "nft_path h @ ''.new''" and ?want = "nft_rules h (cf_SSHFrom cfg)" and ?m = "sh_machine h"
  have p: "?p \<in> F" "?n \<in> F" "?p \<in> P" "?n \<in> P" "?n \<noteq> ?p" using assms(3,4) by (auto simp: nft_files_def)
  have "moved P {?p, ?n} UNIV v (se_world s) (se_world s') \<and> vw_linked v (se_world s') ?p = None \<and>
    vw_linked v (se_world s') ?n = None \<and> vw_file v (se_world s') ?p = Some ?want"
  proof (cases "os_ReadFile ?m ?p (se_world s) = Inr ?want")
    case True
    then show ?thesis using assms(5)[unfolded setup_firewall_def Let_def, folded nft_path_def] plainD[OF assms(2)] p
      doc_ReadFile[OF host_files[OF assms(1)] p(3) plainD[OF assms(2) p(1)] True] by simp
  next
    case False
    obtain s1 a where w: "on_host (os_WriteFile ?m ?n ?want) s = (s1, Inr a)"
      and rest: "(case run_command h ''nft'' [''-c'', ''-f'', ?n] s1 of
         (s2, Inl e) \<Rightarrow>
           (s2\<lparr>se_world := os_Remove ?m ?n (se_world s2)\<rparr>,
            Inl (Wrap ''setup: nft rejects the ruleset, left the firewall as it was: '' e ''''))
       | (s2, Inr out) \<Rightarrow>
           try_then (on_host (os_Rename ?m ?n ?p) s2) (\<lambda>_ s3.
           try_then (run_command h ''nft'' [''-f'', ?p] s3) (\<lambda>_ s4.
           try_then (systemctl h [''enable'', ''nftables.service''] s4) (\<lambda>_ s5.
             done_ok (say (''firewall drops everything inbound but SSH and the UI from '' @ sr_String (cf_SSHFrom cfg)) s5)))))
        = (s', Inr u)"
      by (rule try_then_InrE[OF assms(5)[unfolded setup_firewall_def Let_def, folded nft_path_def, unfolded if_not_P[OF False]]]) (rule that)
    have m1: "moved P {?n} {} v (se_world s) (se_world s1) \<and> vw_linked v (se_world s1) ?n = None \<and> vw_file v (se_world s1) ?n = Some ?want"
      using moved_write[OF assms(1) p(4) plainD[OF assms(2) p(2)] on_host_world[OF w]] by simp
    obtain s2 r where t: "run_command h ''nft'' [''-c'', ''-f'', ?n] s1 = (s2, r)" by (metis prod.exhaust)
    obtain out where r: "r = Inr out" using rest t by (cases r) auto
    have m2: "moved P {} UNIV v (se_world s1) (se_world s2)" by (rule moved_command[OF assms(1) t]) simp
    obtain s3 b where ren: "on_host (os_Rename ?m ?n ?p) s2 = (s3, Inr b)"
      and rest3: "try_then (run_command h ''nft'' [''-f'', ?p] s3) (\<lambda>_ s4.
           try_then (systemctl h [''enable'', ''nftables.service''] s4) (\<lambda>_ s5.
             done_ok (say (''firewall drops everything inbound but SSH and the UI from '' @ sr_String (cf_SSHFrom cfg)) s5)))
        = (s', Inr u)"
      by (rule try_then_InrE[OF rest[unfolded t r prod.case sum.case]]) (rule that)
    have "b = ()" by simp
    note m3 = moved_rename[OF assms(1) p(4,3,5) on_host_world[OF ren[unfolded this]]]
    have m4: "moved P {} UNIV v (se_world s3) (se_world s')"
      using rest3
    proof (rule moved_try_then)
      fix s4 s5 x assume "try_then (systemctl h [''enable'', ''nftables.service''] s4) (\<lambda>_ s5.
             done_ok (say (''firewall drops everything inbound but SSH and the UI from '' @ sr_String (cf_SSHFrom cfg)) s5)) = (s5, x)"
      then show "moved P {} UNIV v (se_world s4) (se_world s5)"
        by (rule moved_try_then) (auto intro: moved_systemctl[OF assms(1)])
    qed (rule moved_command[OF assms(1)], auto)
    have "moved P {?n} UNIV v (se_world s) (se_world s2)" by (rule moved_then[OF m1[THEN conjunct1] m2]) simp_all
    then have "moved P {?p, ?n} UNIV v (se_world s) (se_world s3)" by (rule moved_then[OF _ m3[THEN conjunct1]]) simp_all
    then have "moved P {?p, ?n} UNIV v (se_world s) (se_world s')" by (rule moved_then[OF _ m4]) simp_all
    then show ?thesis using movedD[OF m4, of ?p] movedD[OF m4, of ?n] m3 m1 movedD[OF m2, of ?n] p(3,4) by simp
  qed
  then show "moved P (set (nft_files h)) UNIV v (se_world s) (se_world s')" "plain F v (se_world s')"
    "vw_file v (se_world s') ?p = Some ?want"
    using plain_moved[OF assms(2) _ assms(3), of "{?p, ?n}" UNIV "se_world s'"] by (auto simp: plain_def nft_files_def)
qed

end
