(* ===== verification/Settled.thy ===== *)
theory Settled
  imports HostSetup
begin

section \<open>A host that was set up\<close>

text \<open>
  What a successful \<open>Setup\<close> leaves behind, what a second one does to it, and what one whose firewall
  failed to load leaves for the next.
\<close>

subsection \<open>A settled host\<close>

definition settled :: "('w, 'r, 'i) setup_host \<Rightarrow> setup_config \<Rightarrow> string \<Rightarrow> 'w views \<Rightarrow> 'w \<Rightarrow> bool" where
  "settled h cfg raw v w =
    (''garage'' \<in> vw_users v w \<and> set packages \<subseteq> vw_installed v w \<and>
     (\<exists>b. vw_file v w (mise_path h) = Some b \<and> sh_sha h b = dl_SHA256 (cf_Mise cfg)) \<and>
     new_trust (trusted_now h v w) (cf_Trust cfg) = '''' \<and> key_loads h v w \<and>
     vw_file v w (dest_path h raw) = Some raw \<and> links_made h raw v w \<and> units_written h v w \<and>
     vw_file v w (host_path h sshd_path) = Some (sh_sshdConf h) \<and>
     vw_file v w (nft_path h) = Some (nft_rules h (cf_SSHFrom cfg)))"

lemma settled_stays:
  assumes "settled h cfg raw v w" "moved (set (setup_places h cfg raw)) {} C v w w'"
  shows "settled h cfg raw v w'"
proof -
  have same: "vw_file v w' p = vw_file v w p \<and> vw_linked v w' p = vw_linked v w p" if "p \<in> set (setup_places h cfg raw)" for p
    using movedD[OF assms(2), of p] that by simp
  have "vw_file v w' p = vw_file v w p" if "p \<in> set (mise_files h) \<union> set (key_files h) \<union> set (release_file h raw) \<union>
      set (unit_files h) \<union> set (sshd_files h) \<union> set (nft_files h)" for p
    using same[of p] that by (auto simp: setup_places_def setup_files_def)
  then have f: "vw_file v w' (mise_path h) = vw_file v w (mise_path h)" "vw_file v w' (signing_path h) = vw_file v w (signing_path h)"
    "vw_file v w' (master_path h) = vw_file v w (master_path h)" "vw_file v w' (trusted_path h) = vw_file v w (trusted_path h)"
    "vw_file v w' (dest_path h raw) = vw_file v w (dest_path h raw)"
    "\<forall>n \<in> set unit_names. vw_file v w' (unit_path h n) = vw_file v w (unit_path h n)"
    "vw_file v w' (host_path h sshd_path) = vw_file v w (host_path h sshd_path)" "vw_file v w' (nft_path h) = vw_file v w (nft_path h)"
    by (simp_all add: mise_files_def key_files_def release_file_def unit_files_def sshd_files_def nft_files_def)
  have "vw_linked v w' p = vw_linked v w p" if "p \<in> set (setup_links h)" for p
    using same[of p] that by (simp add: setup_places_def)
  then have l: "vw_linked v w' (current_path h) = vw_linked v w (current_path h)" "vw_linked v w' (serve_path h) = vw_linked v w (serve_path h)"
    "vw_linked v w' (garage_path h) = vw_linked v w (garage_path h)" by (simp_all add: setup_links_def)
  have "vw_users v w \<subseteq> vw_users v w'" "vw_installed v w \<subseteq> vw_installed v w'" using assms(2) by (simp_all add: moved_def)
  then show ?thesis using assms(1) f l
    by (auto simp: settled_def trusted_now_def key_loads_def links_made_def units_written_def)
qed

lemma pinned_simps [simp]:
  "cf_Binary (pinned cfg) = cf_Binary cfg" "cf_Trust (pinned cfg) = cf_Trust cfg" "cf_SSHFrom (pinned cfg) = cf_SSHFrom cfg"
  by (simp_all add: pinned_def)

lemma run_steps_InrE:
  assumes "run_steps (f # fs) s = (s', Inr u)"
  obtains s1 a where "f s = (s1, Inr a)" "run_steps fs s1 = (s', Inr u)"
  using assms by (auto elim: try_then_InrE)

text \<open>Groups of places that have nothing in common.\<close>

lemma setup_places_apart:
  assumes "distinct (setup_places h cfg raw)"
  shows "set (mise_files h) \<inter> (set (key_files h) \<union> set (release_file h raw) \<union> set (setup_links h) \<union> set (unit_files h) \<union>
      set (sshd_files h) \<union> set (nft_files h)) = {}"
    and "set (key_files h) \<inter> (set (release_file h raw) \<union> set (setup_links h) \<union> set (unit_files h) \<union> set (sshd_files h) \<union>
      set (nft_files h)) = {}"
    and "(set (release_file h raw) \<union> set (setup_links h)) \<inter> (set (unit_files h) \<union> set (sshd_files h) \<union> set (nft_files h)) = {}"
    and "set (unit_files h) \<inter> (set (sshd_files h) \<union> set (nft_files h)) = {}" "set (sshd_files h) \<inter> set (nft_files h) = {}"
    and "cf_Binary cfg \<notin> set (mise_files h) \<union> set (key_files h) \<union> set (release_file h raw) \<union> set (setup_links h) \<union>
      set (unit_files h) \<union> set (sshd_files h) \<union> set (nft_files h)"
    and "set (release_file h raw) \<inter> (set (mise_files h) \<union> set (key_files h)) = {}"
    and "set (setup_links h) \<subseteq> set (setup_places h cfg raw) - set (setup_files h cfg raw)"
    and "distinct (setup_links h)" "distinct (unit_files h)"
  using assms by (auto simp: setup_places_def setup_files_def)

text \<open>The states between the steps of a setup that succeeded.\<close>

abbreviation fresh :: "'w \<Rightarrow> 'w host_setup" where "fresh w \<equiv> \<lparr>se_world = w, se_out = [], se_binaryChanged = False\<rparr>"

lemma run_steps_append: "run_steps (fs @ gs) s = try_then (run_steps fs s) (\<lambda>_. run_steps gs)"
proof (induction fs arbitrary: s)
  case (Cons f fs)
  show ?case using Cons.IH by (cases "f s") (auto simp: try_then_def split: sum.splits)
qed simp

lemma first_seven:
  assumes "run_steps (butlast (setup_steps h (pinned cfg))) (fresh w) = (s7, Inr u)"
  obtains s1 s2 s3 s4 s5 s6 where "setup_user h (fresh w) = (s1, Inr ())" "setup_packages h s1 = (s2, Inr ())"
    "setup_mise h (cf_Mise (pinned cfg)) s2 = (s3, Inr ())" "setup_keys h (pinned cfg) s3 = (s4, Inr ())"
    "setup_binary h (pinned cfg) s4 = (s5, Inr ())" "setup_units h s5 = (s6, Inr ())" "setup_sshd h s6 = (s7, Inr ())"
proof -
  have r0: "run_steps [setup_user h, setup_packages h, setup_mise h (cf_Mise (pinned cfg)), setup_keys h (pinned cfg),
      setup_binary h (pinned cfg), setup_units h, setup_sshd h] (fresh w) = (s7, Inr u)"
    using assms by (simp add: setup_steps_def)
  obtain s1 a1 where s1: "setup_user h (fresh w) = (s1, Inr a1)"
    and r1: "run_steps [setup_packages h, setup_mise h (cf_Mise (pinned cfg)), setup_keys h (pinned cfg), setup_binary h (pinned cfg), setup_units h, setup_sshd h] s1 = (s7, Inr u)"
    by (rule run_steps_InrE[OF r0]) (rule that)
  obtain s2 a2 where s2: "setup_packages h s1 = (s2, Inr a2)"
    and r2: "run_steps [setup_mise h (cf_Mise (pinned cfg)), setup_keys h (pinned cfg), setup_binary h (pinned cfg), setup_units h, setup_sshd h] s2 = (s7, Inr u)"
    by (rule run_steps_InrE[OF r1]) (rule that)
  obtain s3 a3 where s3: "setup_mise h (cf_Mise (pinned cfg)) s2 = (s3, Inr a3)"
    and r3: "run_steps [setup_keys h (pinned cfg), setup_binary h (pinned cfg), setup_units h, setup_sshd h] s3 = (s7, Inr u)"
    by (rule run_steps_InrE[OF r2]) (rule that)
  obtain s4 a4 where s4: "setup_keys h (pinned cfg) s3 = (s4, Inr a4)"
    and r4: "run_steps [setup_binary h (pinned cfg), setup_units h, setup_sshd h] s4 = (s7, Inr u)"
    by (rule run_steps_InrE[OF r3]) (rule that)
  obtain s5 a5 where s5: "setup_binary h (pinned cfg) s4 = (s5, Inr a5)"
    and r5: "run_steps [setup_units h, setup_sshd h] s5 = (s7, Inr u)"
    by (rule run_steps_InrE[OF r4]) (rule that)
  obtain s6 a6 where s6: "setup_units h s5 = (s6, Inr a6)"
    and r6: "run_steps [setup_sshd h] s6 = (s7, Inr u)"
    by (rule run_steps_InrE[OF r5]) (rule that)
  obtain t7 a7 where s7: "setup_sshd h s6 = (t7, Inr a7)"
    and r7: "run_steps [] t7 = (s7, Inr u)"
    by (rule run_steps_InrE[OF r6]) (rule that)
  show thesis using that s1 s2 s3 s4 s5 s6 s7 r7 by simp
qed

lemma Setup_states:
  assumes "Setup quote h cfg w = (s', Inr u)"
  obtains s7 where "run_steps (butlast (setup_steps h (pinned cfg))) (fresh w) = (s7, Inr ())"
    "setup_firewall h (pinned cfg) s7 = (s', Inr ())"
proof -
  have "setup_steps h (pinned cfg) = butlast (setup_steps h (pinned cfg)) @ [setup_firewall h (pinned cfg)]" by (simp add: setup_steps_def)
  moreover have "run_steps (setup_steps h (pinned cfg)) (fresh w) = (s', Inr u)"
    using assms by (simp add: Setup_def Let_def split: option.splits)
  ultimately have r: "try_then (run_steps (butlast (setup_steps h (pinned cfg))) (fresh w))
      (\<lambda>_. run_steps [setup_firewall h (pinned cfg)]) = (s', Inr u)"
    by (metis run_steps_append)
  obtain s7 a where s7: "run_steps (butlast (setup_steps h (pinned cfg))) (fresh w) = (s7, Inr a)"
    and rest: "run_steps [setup_firewall h (pinned cfg)] s7 = (s', Inr u)" by (rule try_then_InrE[OF r]) (rule that)
  obtain s8 b where "setup_firewall h (pinned cfg) s7 = (s8, Inr b)" "run_steps [] s8 = (s', Inr u)"
    by (rule run_steps_InrE[OF rest]) (rule that)
  then show thesis using that s7 by simp
qed

text \<open>
  What \<open>LoadTrusted\<close> makes of \<open>trusted.keys\<close> with the laptops' keys added, when it was a file of
  comments and keys, each on a line that ends: the keys that were there, and each laptop's, unless its
  text is in a comment, where the step takes it for a key that is there.
\<close>

definition keys_of :: "(string + string) list \<Rightarrow> string list" where
  "keys_of ls = concat (map (\<lambda>l. case l of Inl t \<Rightarrow> [] | Inr p \<Rightarrow> [p]) ls)"

lemma keys_of_simps [simp]:
  "keys_of [] = []" "keys_of (Inl t # ls) = keys_of ls" "keys_of (Inr p # ls) = p # keys_of ls"
  "keys_of (ls @ ms) = keys_of ls @ keys_of ms" "keys_of (map Inr ps) = ps"
  by (simp_all add: keys_of_def) (induction ps, simp_all)

lemma trusted_file_simps:
  "trusted_file [] = ''''" "trusted_file (Inl t # ls) = (''#'' @ t) @ CHR 0x0A # trusted_file ls"
  "trusted_file (Inr p # ls) = b64_encode p @ CHR 0x0A # trusted_file ls" "trusted_file (ls @ ms) = trusted_file ls @ trusted_file ms"
  by (simp_all add: trusted_file_def)

lemma key_in_file:
  assumes "length p = PublicKeySize"
  shows "list_all trusted_line_ok ls \<Longrightarrow> occurs (b64_encode p) (trusted_file ls) \<Longrightarrow>
    p \<in> set (keys_of ls) \<or> (\<exists>t. Inl t \<in> set ls \<and> occurs (b64_encode p) (''#'' @ t))"
proof (induction ls)
  case Nil
  then have "b64_encode p = ''''" by (simp add: occurs_def trusted_file_simps)
  then have "length (b64_encode p) = 0" by simp
  then show ?case using assms by (simp add: length_b64_encode)
next
  case (Cons l ls)
  have line: "occurs (b64_encode p) a \<or> occurs (b64_encode p) (trusted_file ls)"
    if "trusted_file (l # ls) = a @ CHR 0x0A # trusted_file ls" for a
    using occurs_split[of "CHR 0x0A" "b64_encode p" a "trusted_file ls"] b64_encode_plain[of _ p] Cons.prems(2) that by auto
  show ?case
  proof (cases l)
    case (Inl t)
    then show ?thesis using line[of "''#'' @ t"] Cons by (auto simp: trusted_file_simps)
  next
    case (Inr q)
    have "q = p" if inside: "occurs (b64_encode p) (b64_encode q)"
    proof -
      obtain a b where "b64_encode q = a @ b64_encode p @ b" using inside by (auto simp: occurs_def)
      moreover have "length (b64_encode q) = length (b64_encode p)"
        using assms Cons.prems(1) Inr by (simp add: length_b64_encode)
      ultimately have "b64_encode q = b64_encode p" by simp
      then show "q = p" by (metis b64_decode_encode option.inject)
    qed
    then show ?thesis using line[of "b64_encode q"] Cons Inr by (auto simp: trusted_file_simps)
  qed
qed

definition trusts :: "string \<Rightarrow> string \<Rightarrow> (string + string) list \<Rightarrow> string list \<Rightarrow> bool" where
  "trusts path file ls pubs = (\<exists>keys. LoadTrusted None path [(path, file)] = Inr keys \<and> set (keys_of ls) \<subseteq> set keys \<and>
     list_all (\<lambda>p. p \<in> set keys \<or> (\<exists>t. Inl t \<in> set ls \<and> occurs (b64_encode p) (''#'' @ t))) pubs)"

lemma new_laptops_trusted:
  assumes "list_all trusted_line_ok ls" "list_all (\<lambda>p. length p = PublicKeySize) pubs"
  shows "trusts path (trusted_file ls @ new_trust (trusted_file ls) (map b64_encode pubs)) ls pubs"
proof -
  let ?new = "filter (\<lambda>p. cut (trusted_file ls) (b64_encode p) = None) pubs"
  have "new_trust (trusted_file ls) (map b64_encode pubs) = trusted_file (map Inr ?new)"
    by (simp add: new_trust_def trusted_file_def filter_map comp_def)
  then have "trusted_file ls @ new_trust (trusted_file ls) (map b64_encode pubs) = trusted_file (ls @ map Inr ?new)"
    by (simp add: trusted_file_simps)
  moreover have "list_all trusted_line_ok (ls @ map Inr ?new)" using assms by (auto simp: list_all_iff)
  ultimately have "LoadTrusted None path [(path, trusted_file ls @ new_trust (trusted_file ls) (map b64_encode pubs))] =
      Inr (keys_of (ls @ map Inr ?new))"
    using load_trusted_file[of "ls @ map Inr ?new" path 1 "[]"] by (simp add: LoadTrusted_def read_file_def keys_of_def)
  moreover have "list_all (\<lambda>p. p \<in> set (keys_of ls @ ?new) \<or> (\<exists>t. Inl t \<in> set ls \<and> occurs (b64_encode p) (''#'' @ t))) pubs"
    using key_in_file[OF _ assms(1)] assms(2) by (auto simp: list_all_iff cut_None_iff)
  ultimately show ?thesis by (simp add: trusts_def)
qed

lemma states_settle:
  assumes "host_documented h (set (setup_places h cfg raw)) v" "distinct (setup_places h cfg raw)"
    and "plain (set (setup_files h cfg raw)) v w" "vw_file v w (cf_Binary cfg) = Some raw"
    and "vw_file v w (dest_path h raw) \<in> {None, Some raw}"
    and first: "run_steps (butlast (setup_steps h (pinned cfg))) (fresh w) = (s7, Inr ())"
    and e8: "plain (set (setup_files h cfg raw)) v (se_world s7) \<Longrightarrow>
        moved (set (setup_places h cfg raw)) (set (nft_files h)) UNIV v (se_world s7) (se_world s') \<and>
        plain (set (setup_files h cfg raw)) v (se_world s') \<and>
        vw_file v (se_world s') (nft_path h) = Some (nft_rules h (cf_SSHFrom (pinned cfg)))"
  shows "settled h (pinned cfg) raw v (se_world s')" "plain (set (setup_files h cfg raw)) v (se_world s')"
    and "vw_file v (se_world s') (cf_Binary cfg) = Some raw"
    and "trusted_now h v (se_world s') = trusted_now h v w @ new_trust (trusted_now h v w) (cf_Trust cfg)"
proof -
  let ?P = "set (setup_places h cfg raw)" and ?F = "set (setup_files h cfg raw)"
  let ?M = "set (mise_files h)" and ?K = "set (key_files h)" and ?R = "set (release_file h raw)" and ?L = "set (setup_links h)"
    and ?U = "set (unit_files h)" and ?S = "set (sshd_files h)" and ?N = "set (nft_files h)"
  note apart = setup_places_apart[OF assms(2)]
  have FP: "?F \<subseteq> ?P" by (simp add: setup_places_def)
  have F: "?M \<subseteq> ?F" "?K \<subseteq> ?F" "?R \<subseteq> ?F" "?U \<subseteq> ?F" "?S \<subseteq> ?F" "?N \<subseteq> ?F" "cf_Binary cfg \<in> ?F" by (auto simp: setup_files_def)
  let ?s0 = "fresh w"
  obtain s1 s2 s3 s4 s5 s6 where s1: "setup_user h ?s0 = (s1, Inr ())" and s2: "setup_packages h s1 = (s2, Inr ())"
    and s3: "setup_mise h (cf_Mise (pinned cfg)) s2 = (s3, Inr ())" and s4: "setup_keys h (pinned cfg) s3 = (s4, Inr ())"
    and s5: "setup_binary h (pinned cfg) s4 = (s5, Inr ())" and s6: "setup_units h s5 = (s6, Inr ())"
    and s7: "setup_sshd h s6 = (s7, Inr ())" by (rule first_seven[OF first])
  have p0: "plain ?F v (se_world ?s0)" using assms(3) by simp
  note e1 = step_user[OF assms(1) p0 FP s1]
  note e2 = step_packages[OF assms(1) e1(2) FP s2]
  note e3 = step_mise[OF assms(1) e2(2) FP F(1) s3]
  note e4 = step_keys[OF assms(1) e3(2) FP F(2) s4]
  have m14: "moved ?P (?M \<union> ?K) UNIV v (se_world ?s0) (se_world s4)"
    by (rule moved_then[OF moved_trans[OF e1(1) e2(1)] moved_then[OF e3(1) e4(1) order_refl order_refl]]) simp_all
  have raw4: "vw_file v (se_world s4) (cf_Binary (pinned cfg)) = Some raw"
    "vw_file v (se_world s4) (dest_path h raw) \<in> {None, Some raw}"
  proof -
    have "cf_Binary cfg \<in> ?P - (?M \<union> ?K)" "dest_path h raw \<in> ?P - (?M \<union> ?K)" using apart(6,7) F(3,7) FP
      by (auto simp: release_file_def)
    then show "vw_file v (se_world s4) (cf_Binary (pinned cfg)) = Some raw"
      "vw_file v (se_world s4) (dest_path h raw) \<in> {None, Some raw}"
      using movedD[OF m14] assms(4,5) by simp_all
  qed
  have bin: "cf_Binary (pinned cfg) \<in> ?F" "cf_Binary (pinned cfg) \<notin> ?R" using F(7) apart(6) by simp_all
  note e5 = step_binary[OF assms(1) e4(2) FP F(3) bin(1) apart(8,9) raw4 bin(2) s5]
  note e6 = step_units[OF assms(1) e5(2) FP F(4) apart(10) s6]
  note e7 = step_sshd[OF assms(1) e6(2) FP F(5) s7]
  have e8: "moved ?P ?N UNIV v (se_world s7) (se_world s')" "plain ?F v (se_world s')"
    "vw_file v (se_world s') (nft_path h) = Some (nft_rules h (cf_SSHFrom (pinned cfg)))" using e8[OF e7(2)] by blast+
  have m78: "moved ?P (?S \<union> ?N) UNIV v (se_world s6) (se_world s')" by (rule moved_then[OF e7(1) e8(1)]) simp_all
  have m68: "moved ?P (?U \<union> ?S \<union> ?N) UNIV v (se_world s5) (se_world s')" by (rule moved_then[OF e6(1) m78]) auto
  have m58: "moved ?P (?R \<union> ?L \<union> ?U \<union> ?S \<union> ?N) UNIV v (se_world s4) (se_world s')" by (rule moved_then[OF e5(1) m68]) auto
  have m48: "moved ?P (?K \<union> ?R \<union> ?L \<union> ?U \<union> ?S \<union> ?N) UNIV v (se_world s3) (se_world s')" by (rule moved_then[OF e4(1) m58]) auto
  have m38: "moved ?P UNIV UNIV v (se_world s2) (se_world s')" by (rule moved_then[OF e3(1) m48]) auto
  have m28: "moved ?P UNIV UNIV v (se_world s1) (se_world s')" by (rule moved_then[OF e2(1) m38]) auto
  have places: "?M \<subseteq> ?P" "?K \<subseteq> ?P" "?R \<subseteq> ?P" "?L \<subseteq> ?P" "?U \<subseteq> ?P" "?S \<subseteq> ?P" using F FP by (auto simp: setup_places_def)
  have M: "vw_file v (se_world s') p = vw_file v (se_world s3) p" if "p \<in> ?M" for p
    using movedD[OF m48, of p] that apart(1) places(1) by blast
  have K: "vw_file v (se_world s') p = vw_file v (se_world s4) p" if "p \<in> ?K" for p
    using movedD[OF m58, of p] that apart(2) places(2) by blast
  have R: "vw_file v (se_world s') p = vw_file v (se_world s5) p \<and> vw_linked v (se_world s') p = vw_linked v (se_world s5) p"
    if "p \<in> ?R \<union> ?L" for p
    using movedD[OF m68, of p] that apart(3) places(3,4) by blast
  have U: "vw_file v (se_world s') p = vw_file v (se_world s6) p" if "p \<in> ?U" for p
    using movedD[OF m78, of p] that apart(4) places(5) by blast
  have S: "vw_file v (se_world s') p = vw_file v (se_world s7) p" if "p \<in> ?S" for p
    using movedD[OF e8(1), of p] that apart(5) places(6) by blast
  have "''garage'' \<in> vw_users v (se_world s')" "set packages \<subseteq> vw_installed v (se_world s')"
    using e1(3) m28 e2(3) m38 by (auto simp: moved_def)
  moreover have "\<exists>b. vw_file v (se_world s') (mise_path h) = Some b \<and> sh_sha h b = dl_SHA256 (cf_Mise (pinned cfg))"
    using e3(3) M[of "mise_path h"] by (simp add: mise_files_def)
  moreover have "new_trust (trusted_now h v (se_world s')) (cf_Trust (pinned cfg)) = ''''" "key_loads h v (se_world s')"
    using e4(3,4) K by (simp_all add: trusted_now_def key_loads_def key_files_def)
  moreover have "vw_file v (se_world s') (dest_path h raw) = Some raw" "links_made h raw v (se_world s')"
    using e5(3,4) R by (simp_all add: links_made_def setup_links_def release_file_def)
  moreover have "units_written h v (se_world s')" using e6(3) U by (simp add: units_written_def unit_files_def)
  moreover have "vw_file v (se_world s') (host_path h sshd_path) = Some (sh_sshdConf h)" using e7(3) S by (simp add: sshd_files_def)
  ultimately show "settled h (pinned cfg) raw v (se_world s')" using e8(3) unfolding settled_def by simp
  show "plain ?F v (se_world s')" by (rule e8(2))
  show "vw_file v (se_world s') (cf_Binary cfg) = Some raw"
    using movedD[OF m58, of "cf_Binary cfg"] raw4(1) apart(6) F(7) FP by auto
  have m03: "moved ?P ?M UNIV v w (se_world s3)"
    using moved_then[OF moved_trans[OF e1(1) e2(1)] e3(1), of ?M UNIV] by simp
  have "trusted_now h v (se_world s3) = trusted_now h v w" "trusted_now h v (se_world s') = trusted_now h v (se_world s4)"
    using movedD[OF m03, of "trusted_path h"] K[of "trusted_path h"] apart(1) places(2) by (auto simp: trusted_now_def key_files_def)
  moreover have "distinct (key_files h)" using assms(2) by (simp add: setup_places_def setup_files_def)
  ultimately show "trusted_now h v (se_world s') = trusted_now h v w @ new_trust (trusted_now h v w) (cf_Trust cfg)"
    using e4(5) by simp
qed

lemma Setup_settles:
  assumes "host_documented h (set (setup_places h cfg raw)) v" "distinct (setup_places h cfg raw)"
    and "plain (set (setup_files h cfg raw)) v w" "vw_file v w (cf_Binary cfg) = Some raw"
    and "vw_file v w (dest_path h raw) \<in> {None, Some raw}" "Setup quote h cfg w = (s', Inr u)"
  shows "settled h (pinned cfg) raw v (se_world s')" "plain (set (setup_files h cfg raw)) v (se_world s')"
    and "vw_file v (se_world s') (cf_Binary cfg) = Some raw"
    and "trusted_now h v (se_world s') = trusted_now h v w @ new_trust (trusted_now h v w) (cf_Trust cfg)"
proof -
  have FP: "set (setup_files h cfg raw) \<subseteq> set (setup_places h cfg raw)" "set (nft_files h) \<subseteq> set (setup_files h cfg raw)"
    by (auto simp: setup_places_def setup_files_def)
  obtain s7 where s: "run_steps (butlast (setup_steps h (pinned cfg))) (fresh w) = (s7, Inr ())"
    "setup_firewall h (pinned cfg) s7 = (s', Inr ())" by (rule Setup_states[OF assms(6)])
  note all_states = states_settle[OF assms(1-5) s(1)]
  note fw = step_firewall[OF assms(1) _ FP s(2)]
  show "settled h (pinned cfg) raw v (se_world s')" "plain (set (setup_files h cfg raw)) v (se_world s')"
    "vw_file v (se_world s') (cf_Binary cfg) = Some raw"
    "trusted_now h v (se_world s') = trusted_now h v w @ new_trust (trusted_now h v w) (cf_Trust cfg)"
    by (rule all_states, simp add: fw)+
qed

text \<open>C34. A setup that succeeds has made a host. After a \<open>Setup\<close> that returned no error the user and
  the packages are there, mise is the pinned one, the signing and the master key load, the binary is in
  its release and the three links lead to it, and the units, sshd's configuration and the firewall's
  ruleset file are the ones that belong there. When \<open>trusted.keys\<close> was missing or a file of comments
  and keys on lines that end, \<open>LoadTrusted\<close> still reads the keys that were in it, and those of every
  laptop to be trusted, except one whose key's text is in a comment. For a machine on which the files
  to write are not symbolic links and a file already in the binary's release, named by its hash, is that
  binary.\<close>

theorem setup_makes_a_host:
  assumes "host_documented h (set (setup_places h cfg raw)) v" "distinct (setup_places h cfg raw)"
    and "plain (set (setup_files h cfg raw)) v w" "vw_file v w (cf_Binary cfg) = Some raw"
    and "vw_file v w (dest_path h raw) \<in> {None, Some raw}" "Setup quote h cfg w = (s', Inr u)"
  shows "settled h (pinned cfg) raw v (se_world s') \<and>
    (\<forall>ls pubs. trusted_now h v w = trusted_file ls \<and> list_all trusted_line_ok ls \<and>
       cf_Trust cfg = map b64_encode pubs \<and> list_all (\<lambda>p. length p = PublicKeySize) pubs \<longrightarrow>
       trusts (trusted_path h) (trusted_now h v (se_world s')) ls pubs)"
  using Setup_settles(1,4)[OF assms] new_laptops_trusted by auto

subsection \<open>Setting up a settled host\<close>

text \<open>The commands that only look, hand over files to the user or keep the units enabled.\<close>

definition checking_commands :: "('w, 'r, 'i) setup_host \<Rightarrow> (string \<times> string list) list" where
  "checking_commands h = [(''id'', user_query), (''chown'', [''garage:garage'', host_path h Home])] @
     map (\<lambda>p. (''dpkg-query'', package_query p)) packages @
     [(''chown'', [''-R'', ''garage:garage'', host_path h Keys]), (''chown'', [''-R'', ''garage:garage'', host_path h Releases]),
      (''systemctl'', [''enable'', ''--now'', ''garage-serve.service'', ''garage-backup.timer''])]"

lemma quiet_user:
  assumes "host_documented h P v" "''garage'' \<in> vw_users v (se_world s)" "setup_user h s = (s', r)"
  shows "moved P {} (set (checking_commands h)) v (se_world s) (se_world s')"
proof -
  let ?C = "set (checking_commands h)"
  obtain s1 x where id: "run_command h ''id'' user_query s = (s1, x)" by (metis prod.exhaust)
  have "\<forall>w. (\<exists>out. snd (sh_Run h ''id'' user_query w) = Inr out) = (''garage'' \<in> vw_users v w)"
    by (rule assms(1)[unfolded host_documented_def, THEN conjunct2, THEN conjunct2, THEN conjunct2,
      unfolded commands_documented_def, THEN conjunct2, THEN conjunct1])
  then have "\<exists>out. snd (sh_Run h ''id'' user_query (se_world s)) = Inr out" using assms(2) by blast
  then have "\<exists>out. x = Inr out" using on_host_world[OF id[unfolded run_command_def]] by simp
  then have rest: "try_then (make_dirs h [Home, Keys] s1) (\<lambda>_. garage_owns h [''garage:garage'', host_path h Home]) = (s', r)"
    using assms(3) id by (auto simp: setup_user_def user_query_def)
  have m1: "moved P {} ?C v (se_world s) (se_world s1)" by (rule moved_command[OF assms(1) id]) (simp add: checking_commands_def)
  have "moved P {} ?C v (se_world s1) (se_world s')" using rest
    by (rule moved_try_then) (erule moved_make_dirs[OF assms(1)], erule moved_owns[OF assms(1)], simp add: checking_commands_def)
  then show ?thesis by (rule moved_trans[OF m1])
qed

lemma quiet_packages:
  assumes "host_documented h P v" "set packages \<subseteq> vw_installed v (se_world s)" "setup_packages h s = (s', r)"
  shows "moved P {} (set (checking_commands h)) v (se_world s) (se_world s')"
proof -
  obtain s1 missing where m: "missing_packages h packages s = (s1, missing)" by (metis prod.exhaust)
  have "(\<lambda>p. (''dpkg-query'', package_query p)) ` set packages \<subseteq> set (checking_commands h)"
    by (simp only: checking_commands_def set_append set_map) blast
  from missing_effect[OF assms(1) m this] show ?thesis using assms(2,3) m by (simp add: setup_packages_def)
qed

lemma quiet_mise:
  assumes "host_documented h P v" "mise_path h \<in> P" "vw_linked v (se_world s) (mise_path h) = None"
    and "vw_file v (se_world s) (mise_path h) = Some b" "sh_sha h b = dl_SHA256 mise" "setup_mise h mise s = (s', r)"
  shows "s' = s"
  using assms(6)[unfolded setup_mise_def Let_def, folded mise_path_def] host_read[OF assms(1-4)] assms(5) by simp

lemma quiet_make_key:
  assumes "host_documented h P v" "p \<in> P" "vw_linked v (se_world s) p = None" "vw_file v (se_world s) p = Some b"
  shows "make_key h generate p s = (s, Inr [])"
  using host_read[OF assms] by (simp add: make_key_def not_there_def)

lemma quiet_trust:
  assumes "host_documented h P v" "trusted_path h \<in> P" "vw_linked v (se_world s) (trusted_path h) = None"
    and "new_trust (trusted_now h v (se_world s)) trust = ''''" "trust_laptops h trust s = (s', r)"
  shows "s' = s"
proof -
  let ?p = "trusted_path h"
  show ?thesis
  proof (cases "os_ReadFile (sh_machine h) ?p (se_world s)")
    case (Inr b)
    have "vw_file v (se_world s) ?p = Some b" by (rule doc_ReadFile[OF host_files[OF assms(1)] assms(2,3) Inr])
    then show ?thesis using assms(4,5)[unfolded trust_laptops_def, folded trusted_path_def] Inr by (simp add: trusted_now_def Let_def)
  next
    case (Inl e)
    have "vw_file v (se_world s) ?p = None"
      using host_read[OF assms(1-3)] Inl by (cases "vw_file v (se_world s) ?p") auto
    then show ?thesis using assms(4,5)[unfolded trust_laptops_def, folded trusted_path_def] Inl
      by (auto simp: trusted_now_def Let_def split: if_splits)
  qed
qed

lemma quiet_keys:
  assumes "host_documented h P v" "set (key_files h) \<subseteq> P" "\<forall>p \<in> set (key_files h). vw_linked v (se_world s) p = None"
    and "key_loads h v (se_world s)" "new_trust (trusted_now h v (se_world s)) (cf_Trust cfg) = ''''" "setup_keys h cfg s = (s', r)"
  shows "moved P {} (set (checking_commands h)) v (se_world s) (se_world s')"
proof -
  let ?C = "set (checking_commands h)"
  have p: "signing_path h \<in> P" "master_path h \<in> P" "trusted_path h \<in> P"
    "vw_linked v (se_world s) (signing_path h) = None" "vw_linked v (se_world s) (master_path h) = None"
    "vw_linked v (se_world s) (trusted_path h) = None" using assms(2,3) by (simp_all add: key_files_def)
  obtain b b2 where b: "vw_file v (se_world s) (signing_path h) = Some b" "vw_file v (se_world s) (master_path h) = Some b2"
    using assms(4) by (auto simp: key_loads_def)
  have run: "try_then (trust_laptops h (cf_Trust cfg) s) (\<lambda>_. own_keys h []) = (s', r)"
    using assms(6)[unfolded setup_keys_def, folded signing_path_def master_path_def]
      quiet_make_key[OF assms(1) p(1,4) b(1)] quiet_make_key[OF assms(1) p(2,5) b(2)] by simp
  show ?thesis using run
  proof (rule moved_try_then)
    show "moved P {} ?C v (se_world s) (se_world s1)" if "trust_laptops h (cf_Trust cfg) s = (s1, x)" for s1 x
      using quiet_trust[OF assms(1) p(3,6) assms(5) that] by simp
    show "moved P {} ?C v (se_world s1) (se_world s2)" if "own_keys h [] s1 = (s2, x)" for s1 s2 x
      by (rule moved_own_keys[OF assms(1) that]) (simp add: checking_commands_def)
  qed
qed

lemma quiet_link:
  assumes "host_documented h P v" "p \<in> P" "vw_linked v (se_world s) p = Some t"
  shows "setup_link h t p s = (s, False, Inr ())"
  using host_link[OF assms] by (simp add: setup_link_def link_def)

lemma quiet_binary:
  assumes "host_documented h P v" "cf_Binary cfg \<in> P" "vw_linked v (se_world s) (cf_Binary cfg) = None"
    and "vw_file v (se_world s) (cf_Binary cfg) = Some raw" "dest_path h raw \<in> P" "vw_linked v (se_world s) (dest_path h raw) = None"
    and "vw_file v (se_world s) (dest_path h raw) = Some raw" "set (setup_links h) \<subseteq> P" "links_made h raw v (se_world s)"
    and "setup_binary h cfg s = (s', r)"
  shows "moved P {} (set (checking_commands h)) v (se_world s) (se_world s')" "r = Inr u \<Longrightarrow> \<not> se_binaryChanged s'"
proof -
  let ?C = "set (checking_commands h)" and ?s = "s\<lparr>se_binaryChanged := False\<rparr>"
  have P: "current_path h \<in> P" "serve_path h \<in> P" "garage_path h \<in> P" using assms(8) by (simp_all add: setup_links_def)
  have l: "vw_linked v (se_world s) (current_path h) = Some (release_name h raw @ ''/garage'')"
    "vw_linked v (se_world s) (serve_path h) = Some ''releases/current''"
    "vw_linked v (se_world s) (garage_path h) = Some ''/opt/garage/serve-current''" using assms(9) by (simp_all add: links_made_def)
  have raw: "os_ReadFile (sh_machine h) (cf_Binary cfg) (se_world s) = Inr raw" using host_read[OF assms(1-4)] by simp
  have dest: "\<not> not_there (sh_machine h) (dest_path h raw) (se_world s)" using host_read[OF assms(1,5-7)] by (simp add: not_there_def)
  obtain s5 x where o5: "garage_owns h [''-R'', ''garage:garage'', host_path h Releases] ?s = (s5, x)" by (metis prod.exhaust)
  have m5: "moved P {} ?C v (se_world s) (se_world s5)"
    using moved_owns[OF assms(1) o5, where C = ?C and X = "{}"] by (simp add: checking_commands_def)
  have l5: "vw_linked v (se_world s5) p = vw_linked v (se_world s) p" if "p \<in> P" for p using movedD[OF m5, of p] that by simp
  have b5: "\<not> se_binaryChanged s5" using o5
    by (auto simp: garage_owns_def try_then_def run_command_def on_host_def split: prod.splits sum.splits)
  have l6: "setup_link h ''releases/current'' (serve_path h) s5 = (s5, False, Inr ())"
    by (rule quiet_link[OF assms(1) P(2)]) (use l5[OF P(2)] l in simp)
  have l7: "setup_link h ''/opt/garage/serve-current'' (garage_path h) s5 = (s5, False, Inr ())"
    by (rule quiet_link[OF assms(1) P(3)]) (use l5[OF P(3)] l in simp)
  have s5: "s5\<lparr>se_binaryChanged := False\<rparr> = s5" using b5 by simp
  have "(s', r) = (case x of Inl e \<Rightarrow> (s5, Inl e) | Inr a \<Rightarrow> (s5, Inr ()))"
    using assms(10)[unfolded setup_binary_def raw sum.case Let_def, folded release_name_def,
        folded dest_path_def current_path_def serve_path_def garage_path_def] dest quiet_link[OF assms(1) P(1) l(1)] o5 l6 l7 b5 s5
    by (simp add: try_then_def split: sum.splits)
  then have "s' = s5" by (simp split: sum.splits)
  then show "moved P {} ?C v (se_world s) (se_world s')" "r = Inr u \<Longrightarrow> \<not> se_binaryChanged s'" using m5 b5 by simp_all
qed

lemma quiet_write:
  assumes "host_documented h P v" "host_path h path \<in> P" "vw_linked v (se_world s) (host_path h path) = None"
    and "vw_file v (se_world s) (host_path h path) = Some want"
  shows "writeIfChanged h path want s = (s, Inr False)"
  using host_read[OF assms] by (simp add: writeIfChanged_def)

lemma quiet_write_units:
  assumes "host_documented h P v"
  shows "\<forall>n \<in> set ns. unit_path h n \<in> P \<and> vw_linked v (se_world s) (unit_path h n) = None \<and>
      vw_file v (se_world s) (unit_path h n) = Some (sh_units h n) \<Longrightarrow> write_units h ns s = (s, Inr [])"
proof (induction ns)
  case (Cons n ns)
  have "writeIfChanged h (''/etc/systemd/system/'' @ n) (sh_units h n) s = (s, Inr False)"
    by (rule quiet_write[OF assms]) (use Cons.prems in \<open>simp_all add: unit_path_def\<close>)
  then show ?case using Cons by simp
qed simp

lemma quiet_units:
  assumes "host_documented h P v" "set (unit_files h) \<subseteq> P" "\<forall>p \<in> set (unit_files h). vw_linked v (se_world s) p = None"
    and "units_written h v (se_world s)" "\<not> se_binaryChanged s" "setup_units h s = (s', r)"
  shows "moved P {} (set (checking_commands h)) v (se_world s) (se_world s')"
proof -
  let ?args = "[''enable'', ''--now'', ''garage-serve.service'', ''garage-backup.timer'']"
  have w: "write_units h unit_names s = (s, Inr [])"
    by (rule quiet_write_units[OF assms(1)]) (use assms(2-4) in \<open>auto simp: units_written_def unit_files_def\<close>)
  obtain s1 x where e: "systemctl h ?args s = (s1, x)" by (metis prod.exhaust)
  have "\<not> se_binaryChanged s1" using e assms(5)
    by (auto simp: systemctl_def try_then_def run_command_def on_host_def split: prod.splits sum.splits)
  then have "s' = s1" using assms(6) w e by (cases x) (simp_all add: setup_units_def try_then_def)
  then show ?thesis using moved_systemctl[OF assms(1) e, where C = "set (checking_commands h)" and X = "{}"]
    by (simp add: checking_commands_def)
qed

lemma quiet_sshd:
  assumes "host_documented h P v" "host_path h sshd_path \<in> P" "vw_linked v (se_world s) (host_path h sshd_path) = None"
    and "vw_file v (se_world s) (host_path h sshd_path) = Some (sh_sshdConf h)" "setup_sshd h s = (s', r)"
  shows "s' = s"
  using assms(5) quiet_write[OF assms(1-4)] by (simp add: setup_sshd_def Let_def)

lemma quiet_firewall:
  assumes "host_documented h P v" "nft_path h \<in> P" "vw_linked v (se_world s) (nft_path h) = None"
    and "vw_file v (se_world s) (nft_path h) = Some (nft_rules h (cf_SSHFrom cfg))" "setup_firewall h cfg s = (s', r)"
  shows "s' = s"
  using assms(5)[unfolded setup_firewall_def Let_def, folded nft_path_def] host_read[OF assms(1-4)] by simp

text \<open>What a step may rely on, and keeps: the host is settled, and its places are what they were.\<close>

definition at_rest :: "('w, 'r, 'i) setup_host \<Rightarrow> setup_config \<Rightarrow> string \<Rightarrow> 'w views \<Rightarrow> 'w \<Rightarrow> bool" where
  "at_rest h cfg raw v w = (settled h cfg raw v w \<and> plain (set (setup_files h cfg raw)) v w \<and>
     vw_file v w (cf_Binary cfg) = Some raw)"

lemma at_rest_stays:
  assumes "at_rest h cfg raw v w" "moved (set (setup_places h cfg raw)) {} C v w w'"
  shows "at_rest h cfg raw v w'"
proof -
  have "cf_Binary cfg \<in> set (setup_places h cfg raw) - {}" by (simp add: setup_places_def setup_files_def)
  from movedD[OF assms(2) this] show ?thesis
    using assms settled_stays[OF _ assms(2)] plain_still[OF _ assms(2), of "set (setup_files h cfg raw)"]
    by (simp add: at_rest_def setup_places_def)
qed

lemma quiet_steps:
  assumes "host_documented h (set (setup_places h cfg raw)) v" "at_rest h cfg raw v (se_world s)"
  defines "P \<equiv> set (setup_places h cfg raw)" and "C \<equiv> set (checking_commands h)"
  shows "setup_user h s = (s', r) \<Longrightarrow> moved P {} C v (se_world s) (se_world s')"
    and "setup_packages h s = (s', r) \<Longrightarrow> moved P {} C v (se_world s) (se_world s')"
    and "setup_mise h (cf_Mise cfg) s = (s', r) \<Longrightarrow> moved P {} C v (se_world s) (se_world s')"
    and "setup_keys h cfg s = (s', r) \<Longrightarrow> moved P {} C v (se_world s) (se_world s')"
    and "setup_binary h cfg s = (s', r) \<Longrightarrow> moved P {} C v (se_world s) (se_world s') \<and> (r = Inr u \<longrightarrow> \<not> se_binaryChanged s')"
    and "\<not> se_binaryChanged s \<Longrightarrow> setup_units h s = (s', r) \<Longrightarrow> moved P {} C v (se_world s) (se_world s')"
    and "setup_sshd h s = (s', r) \<Longrightarrow> moved P {} C v (se_world s) (se_world s')"
    and "setup_firewall h cfg s = (s', r) \<Longrightarrow> moved P {} C v (se_world s) (se_world s')"
proof -
  note doc = assms(1)[folded P_def]
  have st: "settled h cfg raw v (se_world s)" "vw_file v (se_world s) (cf_Binary cfg) = Some raw"
    using assms(2) by (simp_all add: at_rest_def)
  note st1 = st(1)[unfolded settled_def]
  have F: "p \<in> P \<and> vw_linked v (se_world s) p = None" if "p \<in> set (setup_files h cfg raw)" for p
    using assms(2) plainD that by (fastforce simp: at_rest_def P_def setup_places_def)
  have in_files: "mise_path h \<in> set (setup_files h cfg raw)" "dest_path h raw \<in> set (setup_files h cfg raw)"
    "host_path h sshd_path \<in> set (setup_files h cfg raw)" "nft_path h \<in> set (setup_files h cfg raw)"
    "cf_Binary cfg \<in> set (setup_files h cfg raw)" "set (key_files h) \<subseteq> set (setup_files h cfg raw)"
    "set (unit_files h) \<subseteq> set (setup_files h cfg raw)"
    by (auto simp: setup_files_def mise_files_def release_file_def sshd_files_def nft_files_def)
  note FF = F[OF in_files(1)] F[OF in_files(2)] F[OF in_files(3)] F[OF in_files(4)] F[OF in_files(5)]
  have groups: "set (key_files h) \<subseteq> P" "\<forall>p \<in> set (key_files h). vw_linked v (se_world s) p = None"
    "set (unit_files h) \<subseteq> P" "\<forall>p \<in> set (unit_files h). vw_linked v (se_world s) p = None" "set (setup_links h) \<subseteq> P"
    using F in_files(6,7) by (blast, blast, blast, blast, simp add: P_def setup_places_def)
  show "setup_user h s = (s', r) \<Longrightarrow> moved P {} C v (se_world s) (se_world s')"
    unfolding C_def by (rule quiet_user[OF doc]) (use st1 in blast)
  show "setup_packages h s = (s', r) \<Longrightarrow> moved P {} C v (se_world s) (se_world s')"
    unfolding C_def by (rule quiet_packages[OF doc]) (use st1 in blast)
  show "setup_mise h (cf_Mise cfg) s = (s', r) \<Longrightarrow> moved P {} C v (se_world s) (se_world s')"
    using quiet_mise[OF doc] FF(1) st1 by (metis moved_refl)
  show "setup_keys h cfg s = (s', r) \<Longrightarrow> moved P {} C v (se_world s) (se_world s')"
    unfolding C_def by (rule quiet_keys[OF doc groups(1,2)]) (use st1 in blast)+
  show "setup_binary h cfg s = (s', r) \<Longrightarrow> moved P {} C v (se_world s) (se_world s') \<and> (r = Inr u \<longrightarrow> \<not> se_binaryChanged s')"
    unfolding C_def using quiet_binary[OF doc FF(5)[THEN conjunct1] FF(5)[THEN conjunct2] st(2) FF(2)[THEN conjunct1]
      FF(2)[THEN conjunct2] _ groups(5)] st1 by blast
  show "\<not> se_binaryChanged s \<Longrightarrow> setup_units h s = (s', r) \<Longrightarrow> moved P {} C v (se_world s) (se_world s')"
    unfolding C_def by (rule quiet_units[OF doc groups(3,4)]) (use st1 in blast)+
  show "setup_sshd h s = (s', r) \<Longrightarrow> moved P {} C v (se_world s) (se_world s')"
    using quiet_sshd[OF doc FF(3)[THEN conjunct1] FF(3)[THEN conjunct2]] st1 by (metis moved_refl)
  show "setup_firewall h cfg s = (s', r) \<Longrightarrow> moved P {} C v (se_world s) (se_world s')"
    using quiet_firewall[OF doc FF(4)[THEN conjunct1] FF(4)[THEN conjunct2]] st1 by (metis moved_refl)
qed

lemma pinned_places [simp]:
  "setup_places h (pinned cfg) raw = setup_places h cfg raw" "setup_files h (pinned cfg) raw = setup_files h cfg raw"
  by (simp_all add: setup_places_def setup_files_def)

lemma run_steps_Cons: "run_steps (f # fs) = (\<lambda>s. try_then (f s) (\<lambda>_. run_steps fs))"
  by (rule ext) simp

lemma moved_run_steps:
  assumes "\<forall>f \<in> set fs. \<forall>s s' r. Q (se_world s) \<longrightarrow> f s = (s', r) \<longrightarrow> moved P X C v (se_world s) (se_world s')"
    and "\<And>w w'. Q w \<Longrightarrow> moved P X C v w w' \<Longrightarrow> Q w'"
  shows "Q (se_world s) \<Longrightarrow> run_steps fs s = (s', r) \<Longrightarrow> moved P X C v (se_world s) (se_world s')"
  using assms(1)
proof (induction fs arbitrary: s)
  case (Cons f fs)
  have f: "moved P X C v (se_world s) (se_world s1)" if "f s = (s1, x)" for s1 x
    using Cons.prems(1,3) that by simp
  obtain s1 x where fs: "f s = (s1, x)" by (metis prod.exhaust)
  show ?case
  proof (cases x)
    case (Inl e)
    then show ?thesis using Cons.prems(2) fs f by (simp add: try_then_def)
  next
    case (Inr a)
    then have "run_steps fs s1 = (s', r)" using Cons.prems(2) fs by simp
    then have "moved P X C v (se_world s1) (se_world s')"
      using Cons.IH[OF assms(2)[OF Cons.prems(1) f[OF fs]]] Cons.prems(3) by simp
    then show ?thesis by (rule moved_trans[OF f[OF fs]])
  qed
qed simp

lemma rested_setup:
  assumes "host_documented h (set (setup_places h cfg raw)) v" "at_rest h (pinned cfg) raw v w" "Setup quote h cfg w = (s', r)"
  shows "moved (set (setup_places h cfg raw)) {} (set (checking_commands h)) v w (se_world s')"
proof -
  let ?P = "set (setup_places h cfg raw)" and ?C = "set (checking_commands h)" and ?c = "pinned cfg"
  let ?rest = "at_rest h ?c raw v"
  let ?front = "[setup_user h, setup_packages h, setup_mise h (cf_Mise ?c), setup_keys h ?c]"
    and ?fin = "[setup_sshd h, setup_firewall h ?c]"
  have doc: "host_documented h (set (setup_places h ?c raw)) v" using assms(1) by simp
  note q = quiet_steps[OF doc, unfolded pinned_places]
  have stays: "?rest w2" if "?rest w1" "moved ?P {} ?C v w1 w2" for w1 w2
    by (rule at_rest_stays[OF that(1)]) (use that(2) in simp)
  have front: "moved ?P {} ?C v (se_world s) (se_world s1)" if "?rest (se_world s)" "run_steps ?front s = (s1, x)" for s s1 x
    by (rule moved_run_steps[of ?front ?rest, OF _ stays that]) (auto intro: q(1,2,3,4))
  have end_steps: "moved ?P {} ?C v (se_world s) (se_world s1)" if "?rest (se_world s)" "run_steps ?fin s = (s1, x)" for s s1 x
    by (rule moved_run_steps[of ?fin ?rest, OF _ stays that]) (auto intro: q(7,8))
  have later: "moved ?P {} ?C v (se_world s) (se_world s1)"
    if s: "?rest (se_world s)" "try_then (setup_binary h ?c s) (\<lambda>_ s2. try_then (setup_units h s2) (\<lambda>_. run_steps ?fin)) = (s1, x)" for s s1 x
    using s(2)
  proof (rule moved_try_then)
    show b: "moved ?P {} ?C v (se_world s) (se_world s2)" if "setup_binary h ?c s = (s2, y)" for s2 y using q(5)[OF s(1) that] by blast
    fix s2 a s3 y assume s2: "setup_binary h ?c s = (s2, Inr a)" and t: "try_then (setup_units h s2) (\<lambda>_. run_steps ?fin) = (s3, y)"
    have unchanged: "\<not> se_binaryChanged s2" using q(5)[OF s(1) s2] by simp
    note r2 = stays[OF s(1) b[OF s2]]
    show "moved ?P {} ?C v (se_world s2) (se_world s3)" using t
    proof (rule moved_try_then)
      show u: "moved ?P {} ?C v (se_world s2) (se_world s4)" if "setup_units h s2 = (s4, z)" for s4 z by (rule q(6)[OF r2 unchanged that])
      show "moved ?P {} ?C v (se_world s4) (se_world s5)" if "setup_units h s2 = (s4, Inr b)" "run_steps ?fin s4 = (s5, z)" for s4 b s5 z
        by (rule end_steps[OF stays[OF r2 u[OF that(1)]] that(2)])
    qed
  qed
  show ?thesis
  proof (cases "setup_check quote h ?c (fresh w)")
    case None
    have "setup_steps h ?c = ?front @ setup_binary h ?c # setup_units h # ?fin" by (simp add: setup_steps_def)
    moreover have "run_steps (setup_steps h ?c) (fresh w) = (s', r)" using assms(3) None by (simp add: Setup_def Let_def)
    ultimately have run: "try_then (run_steps ?front (fresh w)) (\<lambda>_ s. try_then (setup_binary h ?c s)
        (\<lambda>_ s2. try_then (setup_units h s2) (\<lambda>_. run_steps ?fin))) = (s', r)"
      using run_steps_append[of ?front "setup_binary h ?c # setup_units h # ?fin" "fresh w"]
      unfolding run_steps_Cons[of "setup_binary h ?c"] run_steps_Cons[of "setup_units h"] by simp
    have "moved ?P {} ?C v (se_world (fresh w)) (se_world s')" using run
    proof (rule moved_try_then)
      have w: "?rest (se_world (fresh w))" using assms(2) by simp
      show f: "moved ?P {} ?C v (se_world (fresh w)) (se_world s1)" if "run_steps ?front (fresh w) = (s1, x)" for s1 x
        by (rule front[OF w that])
      show "moved ?P {} ?C v (se_world s1) (se_world s2)" if "run_steps ?front (fresh w) = (s1, Inr a)"
        "try_then (setup_binary h ?c s1) (\<lambda>_ s2. try_then (setup_units h s2) (\<lambda>_. run_steps ?fin)) = (s2, x)" for s1 a s2 x
        by (rule later[OF stays[OF w f[OF that(1)]] that(2)])
    qed
    then show ?thesis by simp
  qed (use assms(3) in \<open>auto simp: Setup_def Let_def\<close>)
qed

text \<open>C35. Running it again is safe. Once a \<open>Setup\<close> has succeeded, and nothing has since touched what it
  wrote, a second one of the same configuration, whether it succeeds or not, leaves every one of those
  files and links as it is and runs only the commands that look, hand the files to the garage user and
  keep the units enabled: nothing is restarted, reloaded, installed or generated.\<close>

theorem setting_up_again_changes_nothing:
  assumes "host_documented h (set (setup_places h cfg raw)) v" "distinct (setup_places h cfg raw)"
    and "plain (set (setup_files h cfg raw)) v w" "vw_file v w (cf_Binary cfg) = Some raw"
    and "vw_file v w (dest_path h raw) \<in> {None, Some raw}" "Setup quote h cfg w = (s1, Inr u)"
    and "moved (set (setup_places h cfg raw)) {} UNIV v (se_world s1) w2" "Setup quote h cfg w2 = (s2, r)"
  shows "same_files (set (setup_places h cfg raw)) (vw_file v) (vw_linked v) w2 (se_world s2) \<and>
    (\<exists>cs. vw_ran v (se_world s2) = vw_ran v w2 @ cs \<and> set cs \<subseteq> set (checking_commands h))"
proof -
  have "at_rest h (pinned cfg) raw v (se_world s1)" using Setup_settles[OF assms(1-6)] by (simp add: at_rest_def)
  then have "at_rest h (pinned cfg) raw v w2" by (rule at_rest_stays) (use assms(7) in simp)
  from rested_setup[OF assms(1) this assms(8)] show ?thesis by (simp add: moved_def)
qed

subsection \<open>A setup that failed\<close>

text \<open>However the firewall's step ends, it touches the ruleset and its new version only.\<close>

lemma firewall_moves:
  assumes "host_documented h P v" "plain F v (se_world s)" "F \<subseteq> P" "set (nft_files h) \<subseteq> F" "setup_firewall h cfg s = (s', r)"
  shows "moved P (set (nft_files h)) UNIV v (se_world s) (se_world s')" "plain F v (se_world s')"
proof -
  let ?p = "nft_path h" and ?n = "nft_path h @ ''.new''" and ?want = "nft_rules h (cf_SSHFrom cfg)" and ?m = "sh_machine h"
  have p: "?p \<in> F" "?n \<in> F" "?p \<in> P" "?n \<in> P" "?n \<noteq> ?p" using assms(3,4) by (auto simp: nft_files_def)
  note l = plainD[OF assms(2) p(1)] plainD[OF assms(2) p(2)]
  have "moved P {?p, ?n} UNIV v (se_world s) (se_world s') \<and> vw_linked v (se_world s') ?p = None \<and> vw_linked v (se_world s') ?n = None"
  proof (cases "os_ReadFile ?m ?p (se_world s) = Inr ?want")
    case True
    then show ?thesis using assms(5)[unfolded setup_firewall_def Let_def, folded nft_path_def] l by simp
  next
    case False
    obtain s1 a where w: "on_host (os_WriteFile ?m ?n ?want) s = (s1, a)" by (metis prod.exhaust)
    have m1: "moved P {?p, ?n} UNIV v (se_world s) (se_world s1)" "vw_linked v (se_world s1) ?n = None"
      using moved_write[OF assms(1) p(4) l(2) on_host_world[OF w]] moved_mono[of P "{?n}" "{}" v _ _ "{?p, ?n}" UNIV] by auto
    have l1: "vw_linked v (se_world s1) ?p = None"
      using movedD[OF moved_write[OF assms(1) p(4) l(2) on_host_world[OF w], THEN conjunct1], of ?p] p(3,5) l(1) by simp
    obtain s2 t where t: "run_command h ''nft'' [''-c'', ''-f'', ?n] s1 = (s2, t)" by (metis prod.exhaust)
    have m2: "moved P {} UNIV v (se_world s1) (se_world s2)" by (rule moved_command[OF assms(1) t]) simp
    have l2: "vw_linked v (se_world s2) ?p = None" "vw_linked v (se_world s2) ?n = None"
      using movedD[OF m2] p(3,4) l1 m1(2) by simp_all
    have m12: "moved P {?p, ?n} UNIV v (se_world s) (se_world s2)" by (rule moved_then[OF m1(1) m2]) simp_all
    have step: "(case a of Inl e \<Rightarrow> (s1, Inl e) | Inr a' \<Rightarrow> (case t of
         Inl e \<Rightarrow> (s2\<lparr>se_world := os_Remove ?m ?n (se_world s2)\<rparr>,
            Inl (Wrap ''setup: nft rejects the ruleset, left the firewall as it was: '' e ''''))
       | Inr out \<Rightarrow>
           try_then (on_host (os_Rename ?m ?n ?p) s2) (\<lambda>_ s3.
           try_then (run_command h ''nft'' [''-f'', ?p] s3) (\<lambda>_ s4.
           try_then (systemctl h [''enable'', ''nftables.service''] s4) (\<lambda>_ s5.
             done_ok (say (''firewall drops everything inbound but SSH and the UI from '' @ sr_String (cf_SSHFrom cfg)) s5)))))) = (s', r)"
      using assms(5)[unfolded setup_firewall_def Let_def, folded nft_path_def, unfolded if_not_P[OF False] w] t
      by (cases a; cases t) (auto simp: try_then_def)
    obtain s3 b where ren: "on_host (os_Rename ?m ?n ?p) s2 = (s3, b)" by (metis prod.exhaust)
    have after: "moved P {} UNIV v (se_world s3) (se_world s')"
      if "try_then (run_command h ''nft'' [''-f'', ?p] s3) (\<lambda>_ s4.
           try_then (systemctl h [''enable'', ''nftables.service''] s4) (\<lambda>_ s5.
             done_ok (say (''firewall drops everything inbound but SSH and the UI from '' @ sr_String (cf_SSHFrom cfg)) s5))) = (s', r)"
      using that
    proof (rule moved_try_then)
      fix s4 s5 x assume "try_then (systemctl h [''enable'', ''nftables.service''] s4) (\<lambda>_ s5.
             done_ok (say (''firewall drops everything inbound but SSH and the UI from '' @ sr_String (cf_SSHFrom cfg)) s5)) = (s5, x)"
      then show "moved P {} UNIV v (se_world s4) (se_world s5)"
        by (rule moved_try_then) (auto intro: moved_systemctl[OF assms(1)])
    qed (rule moved_command[OF assms(1)], auto)
    consider (unwritten) "s' = s1" | (check) "s' = s2\<lparr>se_world := os_Remove ?m ?n (se_world s2)\<rparr>" | (rename) e where "s' = s3" "b = Inl e"
      | (load) "b = Inr ()" "moved P {} UNIV v (se_world s3) (se_world s')"
    proof (cases a)
      case (Inl e)
      then show thesis using that(1) step by simp
    next
      case (Inr a')
      show thesis
      proof (cases t)
        case (Inl e)
        then show thesis using that(2) step Inr by simp
      next
        case t: (Inr out)
        show thesis using that(3,4) step Inr t ren after by (cases b) (auto simp: try_then_def)
      qed
    qed
    then show ?thesis
    proof cases
      case unwritten
      then show ?thesis using m1 l1 by simp
    next
      case check
      note rm = moved_remove[OF assms(1) p(4) l2(2)]
      have "moved P {?p, ?n} UNIV v (se_world s) (os_Remove ?m ?n (se_world s2))"
        by (rule moved_then[OF m12 rm[THEN conjunct1]]) auto
      then show ?thesis using movedD[OF rm[THEN conjunct1], of ?p] rm p(3,5) l2 check by simp
    next
      case rename
      have "same_files P (vw_file v) (vw_linked v) (se_world s2) (se_world s3)"
        by (rule doc_Rename_fails[OF host_files[OF assms(1)] p(4,3,5) on_host_world[OF ren[unfolded rename(2)]]])
      then have r: "moved P {} UNIV v (se_world s2) (se_world s3)" by (rule moved_rename_fails[OF assms(1) on_host_world[OF ren]])
      show ?thesis using moved_then[OF m12 r, of "{?p, ?n}" UNIV] movedD[OF r] l2 p(3,4) rename(1) by simp
    next
      case load
      note m3 = moved_rename[OF assms(1) p(4,3,5) on_host_world[OF ren[unfolded load(1)]]]
      have "moved P {?p, ?n} UNIV v (se_world s) (se_world s3)" by (rule moved_then[OF m12 m3[THEN conjunct1]]) auto
      then have "moved P {?p, ?n} UNIV v (se_world s) (se_world s')" by (rule moved_then[OF _ load(2)]) simp_all
      then show ?thesis using movedD[OF load(2)] m3 l2 p(3,4) by simp
    qed
  qed
  then show "moved P (set (nft_files h)) UNIV v (se_world s) (se_world s')" "plain F v (se_world s')"
    using plain_moved[OF assms(2) _ assms(3), of "{?p, ?n}" UNIV "se_world s'"] by (auto simp: plain_def nft_files_def)
qed

text \<open>C36. A ruleset that failed to load is never loaded. Suppose every step of \<open>Setup\<close> but the last
  succeeded, and the firewall's step failed with the ruleset already renamed into place, as it does
  when \<open>nft -f\<close> fails. Then \<open>Setup\<close> reports that error; but the next one of the same configuration takes
  the file for the firewall: it runs no \<open>nft\<close>, nor enables nftables.service, whatever it returns.\<close>

theorem a_ruleset_that_failed_stays_unloaded:
  assumes "host_documented h (set (setup_places h cfg raw)) v" "distinct (setup_places h cfg raw)"
    and "plain (set (setup_files h cfg raw)) v w" "vw_file v w (cf_Binary cfg) = Some raw"
    and "vw_file v w (dest_path h raw) \<in> {None, Some raw}"
    and "setup_check quote h (pinned cfg) (fresh w) = None"
    and "run_steps (butlast (setup_steps h (pinned cfg))) (fresh w) = (s7, Inr ())"
    and "setup_firewall h (pinned cfg) s7 = (s1, Inl e)"
    and "vw_file v (se_world s1) (nft_path h) = Some (nft_rules h (cf_SSHFrom cfg))"
    and "Setup quote h cfg (se_world s1) = (s2, r)"
  shows "Setup quote h cfg w = (s1, Inl e) \<and>
    (\<exists>cs. vw_ran v (se_world s2) = vw_ran v (se_world s1) @ cs \<and>
      ''nft'' \<notin> fst ` set cs \<and> (''systemctl'', [''enable'', ''nftables.service'']) \<notin> set cs)"
proof
  have "setup_steps h (pinned cfg) = butlast (setup_steps h (pinned cfg)) @ [setup_firewall h (pinned cfg)]" by (simp add: setup_steps_def)
  then have "run_steps (setup_steps h (pinned cfg)) (fresh w) =
      try_then (run_steps (butlast (setup_steps h (pinned cfg))) (fresh w)) (\<lambda>_. run_steps [setup_firewall h (pinned cfg)])"
    by (metis run_steps_append)
  then show "Setup quote h cfg w = (s1, Inl e)" using assms(6-8) by (simp add: Setup_def Let_def try_then_def)
  have FP: "set (setup_files h cfg raw) \<subseteq> set (setup_places h cfg raw)" "set (nft_files h) \<subseteq> set (setup_files h cfg raw)"
    by (auto simp: setup_places_def setup_files_def)
  note fw = firewall_moves[OF assms(1) _ FP assms(8)]
  note all_states = states_settle[OF assms(1-5,7)]
  have "settled h (pinned cfg) raw v (se_world s1)" "plain (set (setup_files h cfg raw)) v (se_world s1)"
    "vw_file v (se_world s1) (cf_Binary cfg) = Some raw"
    by (rule all_states, simp add: fw assms(9))+
  then have "at_rest h (pinned cfg) raw v (se_world s1)" by (simp add: at_rest_def)
  from rested_setup[OF assms(1) this assms(10)] obtain cs where cs: "vw_ran v (se_world s2) = vw_ran v (se_world s1) @ cs"
    "set cs \<subseteq> set (checking_commands h)" by (auto simp: moved_def)
  have "''nft'' \<notin> fst ` set (checking_commands h)" "(''systemctl'', [''enable'', ''nftables.service'']) \<notin> set (checking_commands h)"
    by (auto simp: checking_commands_def)
  then show "\<exists>cs. vw_ran v (se_world s2) = vw_ran v (se_world s1) @ cs \<and>
      ''nft'' \<notin> fst ` set cs \<and> (''systemctl'', [''enable'', ''nftables.service'']) \<notin> set cs" using cs by blast
qed

subsection \<open>A small host\<close>

text \<open>A disk with the log of the commands run on it, from which its users and packages are read.\<close>

type_synonym demo_world = "disk \<times> (string \<times> string list) list"

definition on_first :: "('w \<Rightarrow> 'w \<times> 'a) \<Rightarrow> 'w \<times> 'x \<Rightarrow> ('w \<times> 'x) \<times> 'a" where
  "on_first f w = (case f (fst w) of (w1, a) \<Rightarrow> ((w1, snd w), a))"

definition logged_machine :: "demo_world machine" where
  "logged_machine = (let m = demo_machine; hm = mx_host m in \<lparr>
     mx_host = \<lparr>os_MkdirAll = (\<lambda>p. on_first (os_MkdirAll hm p)), os_RemoveAll = (\<lambda>p. on_first (os_RemoveAll hm p)),
       os_ReadDir = (\<lambda>p. on_first (os_ReadDir hm p)), os_Stat = (\<lambda>p w. os_Stat hm p (fst w)), os_LookupEnv = os_LookupEnv hm,
       os_Run = (\<lambda>d env name args. on_first (os_Run hm d env name args))\<rparr>,
     os_ReadFile = (\<lambda>p w. os_ReadFile m p (fst w)), os_WriteFile = (\<lambda>p s. on_first (os_WriteFile m p s)),
     os_Readlink = (\<lambda>p w. os_Readlink m p (fst w)), os_Symlink = (\<lambda>t p. on_first (os_Symlink m t p)),
     os_Remove = (\<lambda>p w. (os_Remove m p (fst w), snd w)), os_Rename = (\<lambda>p q. on_first (os_Rename m p q)),
     os_Chmod = (\<lambda>p. on_first (os_Chmod m p)), os_MkdirTemp = (\<lambda>p. on_first (os_MkdirTemp m p)),
     os_CombinedOutput = (\<lambda>p args. on_first (os_CombinedOutput m p args))\<rparr>)"

definition log_users :: "(string \<times> string list) list \<Rightarrow> string list" where
  "log_users log = map (\<lambda>c. last (snd c)) (filter (\<lambda>c. fst c = ''useradd'') log)"

definition log_packages :: "(string \<times> string list) list \<Rightarrow> string list" where
  "log_packages log = concat (map (\<lambda>c. drop 4 (snd c)) (filter (\<lambda>c. fst c = ''env'') log))"

text \<open>Whether the ruleset loads is a parameter; everything else that runs succeeds.\<close>

definition demo_run :: "bool \<Rightarrow> string \<Rightarrow> string list \<Rightarrow> demo_world \<Rightarrow> demo_world \<times> string res" where
  "demo_run loads name args w = ((fst w, snd w @ [(name, args)]),
     if name = ''id'' then (if List.member (log_users (snd w)) (last args) then Inr ''999'' else Inl (Opaque ''no such user''))
     else if name = ''dpkg-query'' then
       (if List.member (log_packages (snd w)) (last args) then Inr ''install ok installed'' else Inl (Opaque ''no packages found''))
     else if name = ''nft'' \<and> hd args = ''-f'' \<and> \<not> loads then Inl (Opaque ''nft: No such process'')
     else Inr '''')"

definition demo_views :: "demo_world views" where
  "demo_views = \<lparr>vw_file = (\<lambda>w. demo_file (fst w)), vw_linked = (\<lambda>w. demo_link (fst w)),
     vw_users = (\<lambda>w. set (log_users (snd w))), vw_installed = (\<lambda>w. set (log_packages (snd w))), vw_ran = snd\<rparr>"

definition demo_setup :: "bool \<Rightarrow> (demo_world, string, string) setup_host" where
  "demo_setup loads = \<lparr>sh_machine = logged_machine, sh_Root = '''', sh_Run = demo_run loads,
     sh_Fetch = (\<lambda>u w. (w, Inr (200, ''200 OK'', ''mise''))), sh_Glob = (\<lambda>p w. []),
     sh_Size = (\<lambda>p w. if p = ''/root/.ssh/authorized_keys'' then Some 1 else None),
     sh_WriteNew = os_WriteFile logged_machine, sh_sha = (\<lambda>b. b), sh_crypto = demo_crypto,
     sh_age = \<lparr>ParseRecipient = Inr, Encrypt = (\<lambda>r s. Inr s), ParseIdentities = (\<lambda>s. Inr [s]), RecipientOf = Some,
       Decrypt = (\<lambda>ids s. Inr (Inr s))\<rparr>,
     sh_seed = (\<lambda>w. Inr (replicate 32 CHR ''s'')), sh_identity = (\<lambda>w. Inr (''AGE'', ''age'')),
     sh_units = (\<lambda>n. n), sh_nftablesConf = ''{{.Family}} saddr {{.SSHFrom}}'', sh_sshdConf = ''PasswordAuthentication no''\<rparr>"

definition demo_config :: setup_config where
  "demo_config = \<lparr>cf_SSHFrom = \<lparr>sr_IsValid = True, sr_String = ''10.0.0.1/32'', sr_Masked = ''10.0.0.1/32'', sr_Addr = ''10.0.0.1'',
       sr_Is6 = False, sr_IsSingleIP = True\<rparr>,
     cf_Trust = [b64_encode (replicate 32 CHR ''p'')], cf_Binary = ''/tmp/garage'', cf_Mise = \<lparr>dl_URL = ''mise.example'', dl_SHA256 = ''mise''\<rparr>\<rparr>"

definition demo_start :: demo_world where
  "demo_start = (\<lparr>dk_files = [(''/etc/garage/r2.env'', ''r2''), (''/tmp/garage'', ''garage1'')], dk_links = []\<rparr>, [])"

lemma demo_views_simps [simp]:
  "vw_file demo_views w = demo_file (fst w)" "vw_linked demo_views w = demo_link (fst w)"
  "vw_users demo_views w = set (log_users (snd w))" "vw_installed demo_views w = set (log_packages (snd w))"
  "vw_ran demo_views = snd"
  by (simp_all add: demo_views_def)

lemma logged_machine_documented: "files_documented logged_machine P (vw_file demo_views) (vw_linked demo_views)"
  unfolding files_documented_def
  by (intro conjI ballI allI impI) (auto simp: logged_machine_def on_first_def Let_def demo_machine_def mkdir_all_def from_err_def
    not_there_def same_files_def demo_move_simp split: option.splits if_splits)

lemma demo_reads_work: "reads_work logged_machine P demo_views"
  unfolding reads_work_def
  by (intro conjI ballI allI impI) (auto simp: logged_machine_def Let_def demo_machine_def not_there_def split: option.splits)

lemma demo_calls_documented: "calls_documented (demo_setup loads) P demo_views"
  unfolding calls_documented_def Let_def
  by (intro conjI ballI allI impI) (auto simp: demo_setup_def logged_machine_def on_first_def Let_def demo_machine_def
    mkdir_all_def from_err_def rest_kept_def same_files_def)

lemma demo_run_effect: "fst (demo_run loads name args w) = (fst w, snd w @ [(name, args)])"
  by (simp add: demo_run_def)

lemma demo_logs:
  "set (log_users (log @ [c])) = set (log_users log) \<union> (if fst c = ''useradd'' then {last (snd c)} else {})"
  "set (log_packages (log @ [c])) = set (log_packages log) \<union> (if fst c = ''env'' then set (drop 4 (snd c)) else {})"
  by (auto simp: log_users_def log_packages_def)

lemma demo_commands_documented: "commands_documented (demo_setup loads) P demo_views"
proof -
  have run: "sh_Run (demo_setup loads) = demo_run loads" by (simp add: demo_setup_def)
  show ?thesis
    unfolding commands_documented_def Let_def run demo_run_effect
    by (intro conjI allI impI)
      (simp_all add: same_files_def demo_logs, simp_all add: demo_run_def user_query_def package_query_def apt_install_def)
qed

lemma demo_setup_documented: "host_documented (demo_setup loads) P demo_views"
  using logged_machine_documented demo_reads_work demo_calls_documented demo_commands_documented
  by (simp add: host_documented_def demo_setup_def)

lemma demo_places: "distinct (setup_places (demo_setup loads) demo_config ''garage1'')"
  by code_simp

lemma demo_succeeds: "snd (Setup id (demo_setup True) demo_config demo_start) = Inr ()"
  by code_simp

abbreviation demo_done :: "bool \<Rightarrow> demo_world host_setup" where
  "demo_done loads \<equiv> fst (Setup id (demo_setup loads) demo_config demo_start)"

lemma demo_start_facts:
  "plain P demo_views demo_start" "vw_file demo_views demo_start (cf_Binary demo_config) = Some ''garage1''"
  "vw_file demo_views demo_start (dest_path (demo_setup loads) ''garage1'') = None" "pinned demo_config = demo_config"
proof -
  show "plain P demo_views demo_start" by (simp add: plain_def demo_start_def)
  show "vw_file demo_views demo_start (cf_Binary demo_config) = Some ''garage1''" by (simp add: demo_start_def demo_config_def)
  have "demo_file (fst demo_start) (dest_path (demo_setup True) ''garage1'') = None" by code_simp
  moreover have "dest_path (demo_setup loads) = dest_path (demo_setup True)"
    by (simp add: fun_eq_iff dest_path_def host_path_def release_name_def demo_setup_def)
  ultimately show "vw_file demo_views demo_start (dest_path (demo_setup loads) ''garage1'') = None" by simp
  show "pinned demo_config = demo_config" by (simp add: pinned_def demo_config_def)
qed

lemma demo_start_dest: "vw_file demo_views demo_start (dest_path (demo_setup loads) ''garage1'') \<in> {None, Some ''garage1''}"
  unfolding demo_start_facts(3) by simp

theorem setup_makes_a_host_witness:
  "settled (demo_setup True) demo_config ''garage1'' demo_views (se_world (demo_done True)) \<and>
   trusts (trusted_path (demo_setup True)) (trusted_now (demo_setup True) demo_views (se_world (demo_done True))) []
     [replicate 32 CHR ''p'']"
proof -
  have "Setup id (demo_setup True) demo_config demo_start = (demo_done True, Inr ())" using demo_succeeds by (metis prod.collapse)
  note host = setup_makes_a_host[OF demo_setup_documented demo_places demo_start_facts(1,2) demo_start_dest this]
  have "trusted_now (demo_setup True) demo_views demo_start = trusted_file []" by code_simp
  moreover have "cf_Trust demo_config = map b64_encode [replicate 32 CHR ''p'']" by (simp add: demo_config_def)
  ultimately show ?thesis
    using host[THEN conjunct1] host[THEN conjunct2, rule_format, of "[]" "[replicate 32 CHR ''p'']"]
    by (simp add: demo_start_facts(4))
qed

theorem setting_up_again_changes_nothing_witness:
  "\<exists>cs. vw_ran demo_views (se_world (fst (Setup id (demo_setup True) demo_config (se_world (demo_done True))))) =
     vw_ran demo_views (se_world (demo_done True)) @ cs \<and> set cs \<subseteq> set (checking_commands (demo_setup True))"
proof -
  have a: "Setup id (demo_setup True) demo_config demo_start = (demo_done True, Inr ())" using demo_succeeds by (metis prod.collapse)
  obtain s2 r where b: "Setup id (demo_setup True) demo_config (se_world (demo_done True)) = (s2, r)" by (metis prod.exhaust)
  show ?thesis
    using setting_up_again_changes_nothing[OF demo_setup_documented demo_places demo_start_facts(1,2) demo_start_dest a moved_refl b] b
    by simp
qed

text \<open>The steps before the firewall, the firewall, and a second setup of that host, which returns no error.\<close>

definition demo_first :: "demo_world host_setup \<times> unit res" where
  "demo_first = run_steps (butlast (setup_steps (demo_setup False) demo_config)) (fresh demo_start)"

definition demo_firewall :: "demo_world host_setup \<times> unit res" where
  "demo_firewall = setup_firewall (demo_setup False) demo_config (fst demo_first)"

lemma demo_check: "setup_check id (demo_setup False) demo_config (fresh demo_start) = None"
  by code_simp

lemma demo_fails: "let f = demo_first in snd f = Inr () \<and> (let r = setup_firewall (demo_setup False) demo_config (fst f) in
    isl (snd r) \<and> demo_file (fst (se_world (fst r))) (nft_path (demo_setup False)) =
      Some (nft_rules (demo_setup False) (cf_SSHFrom demo_config)) \<and>
    snd (Setup id (demo_setup False) demo_config (se_world (fst r))) = Inr ())"
  by code_simp

lemmas demo_failed = demo_fails[unfolded Let_def, folded demo_firewall_def]

theorem a_ruleset_that_failed_stays_unloaded_witness:
  "isl (snd (Setup id (demo_setup False) demo_config demo_start)) \<and>
   (\<exists>cs. snd (se_world (fst (Setup id (demo_setup False) demo_config (se_world (demo_done False))))) =
      snd (se_world (demo_done False)) @ cs \<and> ''nft'' \<notin> fst ` set cs) \<and>
   snd (Setup id (demo_setup False) demo_config (se_world (demo_done False))) = Inr ()"
proof -
  let ?h = "demo_setup False" and ?c = demo_config and ?s1 = "fst demo_firewall"
  have rules: "vw_file demo_views (se_world ?s1) (nft_path ?h) = Some (nft_rules ?h (cf_SSHFrom ?c))" using demo_failed by simp
  obtain e where e: "setup_firewall ?h ?c (fst demo_first) = (?s1, Inl e)"
    using demo_failed unfolding demo_firewall_def[symmetric] by (metis isl_def prod.collapse)
  have s7: "run_steps (butlast (setup_steps ?h ?c)) (fresh demo_start) = (fst demo_first, Inr ())"
    unfolding demo_first_def[symmetric] using demo_failed by (metis prod.collapse)
  obtain s2 r where again: "Setup id ?h ?c (se_world ?s1) = (s2, r)" by (metis prod.exhaust)
  note result = a_ruleset_that_failed_stays_unloaded[where cfg = ?c and h = ?h, unfolded demo_start_facts(4), OF demo_setup_documented
    demo_places demo_start_facts(1,2) demo_start_dest demo_check s7 e rules again]
  then have first: "Setup id ?h ?c demo_start = (?s1, Inl e)" by blast
  obtain cs where "vw_ran demo_views (se_world s2) = vw_ran demo_views (se_world ?s1) @ cs" "''nft'' \<notin> fst ` set cs"
    using result by blast
  then show ?thesis using first again demo_failed by auto
qed

end
