(* ===== verification/Garage.thy ===== *)
theory Garage
  imports BucketMail Rollout Setup
begin

section \<open>The two ends of the bucket: cmd/garage/config.go and remote.go\<close>

text \<open>
  What \<open>garage\<close> reads of a machine before it does anything, and what the laptop does through the
  bucket. Files are those of the record \<open>machine\<close>; \<open>surroundings\<close> is what is asked of the environment.
  JSON is a parameter per type, \<open>now\<close> is the clock. Flags, usage and exit codes are left out.
\<close>

subsection \<open>config.go\<close>

definition signingKeyFile :: string where "signingKeyFile = ''signing.key''"
definition trustedFile :: string where "trustedFile = ''trusted.keys''"
definition masterKeyFile :: string where "masterKeyFile = ''master.key''"
definition recipientFile :: string where "recipientFile = ''recipient''"
definition r2EnvFile :: string where "r2EnvFile = ''r2.env''"

text \<open>\<open>su_onHost\<close> is \<open>onHost\<close>: whether hosting's \<open>Home\<close> is a directory here.\<close>

record surroundings =
  su_Getenv :: "string \<Rightarrow> string"
  su_onHost :: bool
  su_UserHomeDir :: "string res"

definition garageHome :: "surroundings \<Rightarrow> string" where
  "garageHome e =
    (if su_Getenv e ''GARAGE_HOME'' \<noteq> '''' then su_Getenv e ''GARAGE_HOME''
     else if su_onHost e then Setup.Home
     else case su_UserHomeDir e of Inl x \<Rightarrow> ''.garage'' | Inr h \<Rightarrow> join_path [h, ''.garage''])"

definition keysDir :: "surroundings \<Rightarrow> string" where
  "keysDir e = (if su_Getenv e ''GARAGE_HOME'' = '''' \<and> su_onHost e then Setup.Keys else garageHome e)"

definition r2Vars :: "string list" where
  "r2Vars = [''GARAGE_R2_ENDPOINT'', ''GARAGE_R2_BUCKET'', ''GARAGE_R2_ACCESS_KEY_ID'', ''GARAGE_R2_SECRET_ACCESS_KEY'']"

record r2_config =
  rc_Endpoint :: string
  rc_Bucket :: string
  rc_AccessKeyID :: string
  rc_SecretAccessKey :: string

text \<open>Scanning the lines of r2.env ends at one that is too long; its error is not looked at.\<close>

fun r2_lines :: "string list \<Rightarrow> (string \<rightharpoonup> string) \<Rightarrow> string \<rightharpoonup> string" where
  "r2_lines [] vals = vals"
| "r2_lines (raw # rest) vals =
    (if length raw \<ge> MaxScanTokenSize then vals
     else r2_lines rest
       (case cut (trim_space (drop_cr raw)) ''='' of
          None \<Rightarrow> vals
        | Some (k, v) \<Rightarrow> if has_prefix k ''#'' then vals else vals(trim_space k \<mapsto> trim_space v)))"

text \<open>A name that is not in a Go map reads as the empty string; the environment comes first.\<close>

definition r2_value :: "(string \<Rightarrow> string) \<Rightarrow> (string \<rightharpoonup> string) \<Rightarrow> string \<Rightarrow> string" where
  "r2_value getenv vals name =
    (if getenv name \<noteq> '''' then getenv name else case vals name of None \<Rightarrow> '''' | Some v \<Rightarrow> v)"

definition r2Store :: "'w machine \<Rightarrow> (string \<Rightarrow> string) \<Rightarrow> string \<Rightarrow> 'w \<Rightarrow> r2_config res" where
  "r2Store m getenv keys w =
    (let path = join_path [keys, r2EnvFile] in
     case (case os_ReadFile m path w of Inl e \<Rightarrow> if err_is e Host.ErrNotExist then Inr '''' else Inl e | Inr raw \<Rightarrow> Inr raw) of
       Inl e \<Rightarrow> Inl e
     | Inr raw \<Rightarrow>
        (let value = r2_value getenv (r2_lines (raw_lines raw) Map.empty); missing = filter (\<lambda>n. value n = '''') r2Vars in
         if missing \<noteq> []
         then Inl (Opaque (''no bucket: set '' @ join '', '' (sort missing) @ '', or put them in '' @ path))
         else Inr \<lparr>rc_Endpoint = value ''GARAGE_R2_ENDPOINT'', rc_Bucket = value ''GARAGE_R2_BUCKET'',
           rc_AccessKeyID = value ''GARAGE_R2_ACCESS_KEY_ID'', rc_SecretAccessKey = value ''GARAGE_R2_SECRET_ACCESS_KEY''\<rparr>))"

text \<open>What reading a file of this machine is to the loaders of \<open>bucket\<close> and \<open>secrets\<close>.\<close>

definition file_of :: "'w machine \<Rightarrow> string \<Rightarrow> 'w \<Rightarrow> goerr option \<times> files" where
  "file_of m path w = (case os_ReadFile m path w of Inl e \<Rightarrow> (Some e, []) | Inr b \<Rightarrow> (None, [(path, b)]))"

text \<open>\<open>r2\<close> makes a store of its configuration; a given store is used as it is.\<close>

definition openBucket ::
  "'w machine \<Rightarrow> (string \<Rightarrow> string) \<Rightarrow> crypto \<Rightarrow> (r2_config \<Rightarrow> 's) \<Rightarrow> string \<Rightarrow> 's option \<Rightarrow> (string \<times> limit) list \<Rightarrow> 'w \<Rightarrow>
   's client res" where
  "openBucket m getenv cr r2 keys store limits w =
    (case (case store of Some st \<Rightarrow> Inr st | None \<Rightarrow> (case r2Store m getenv keys w of Inl e \<Rightarrow> Inl e | Inr cfg \<Rightarrow> Inr (r2 cfg))) of
       Inl e \<Rightarrow> Inl e
     | Inr st \<Rightarrow>
        (let signing = join_path [keys, signingKeyFile]; trusted = join_path [keys, trustedFile] in
         case LoadKey (fst (file_of m signing w)) signing (snd (file_of m signing w)) of
           Inl e \<Rightarrow> Inl (Wrap '''' e '' (run garage init)'')
         | Inr key \<Rightarrow>
            (case LoadTrusted (fst (file_of m trusted w)) trusted (snd (file_of m trusted w)) of
               Inr ks \<Rightarrow> Inr (New cr st key ks limits)
             | Inl e \<Rightarrow> if err_is e Host.ErrNotExist then Inr (New cr st key [] limits) else Inl e)))"

definition configKey :: string where "configKey = ''config/garage.json''"

record garage_config =
  gc_Model :: string
  gc_ModelURL :: string
  gc_GitName :: string
  gc_GitEmail :: string
  gc_Workspaces :: "(string \<times> string) list"

text \<open>\<open>decode\<close> is the JSON decoder that refuses unknown fields.\<close>

definition or_else :: "string \<Rightarrow> string \<Rightarrow> string" where "or_else v d = (if v = '''' then d else v)"

definition parseConfig :: "(string \<Rightarrow> garage_config res) \<Rightarrow> string \<Rightarrow> garage_config res" where
  "parseConfig decode raw =
    (case decode raw of
       Inl e \<Rightarrow> Inl (Wrap (configKey @ '': '') e '''')
     | Inr cfg \<Rightarrow>
        if gc_Workspaces cfg = [] then Inl (Opaque (configKey @ '': no workspaces''))
        else Inr (cfg\<lparr>gc_Model := or_else (gc_Model cfg) ''claude-sonnet-5'', gc_GitName := or_else (gc_GitName cfg) ''garage-dev'',
          gc_GitEmail := or_else (gc_GitEmail cfg) ''dev@agentgarage.invalid''\<rparr>))"

definition loadConfig ::
  "(string \<Rightarrow> garage_config res) \<Rightarrow> 's caller \<Rightarrow> ('s, 'w) site \<Rightarrow> ('s, 'w) site \<times> garage_config res" where
  "loadConfig decode c s =
    (case c_Get c configKey s of
       (s1, Inl e) \<Rightarrow> (s1, Inl (if err_is e ErrNotFound
         then Opaque (''no '' @ configKey @ '' in the bucket (write one with garage remote config)'') else e))
     | (s1, Inr ob) \<Rightarrow> (s1, parseConfig decode (o_Body ob)))"

record modelChoice =
  mc_ID :: string
  mc_URL :: string
  mc_Key :: string

fun first_set :: "(string \<Rightarrow> string) \<Rightarrow> string list \<Rightarrow> string \<Rightarrow> string" where
  "first_set getenv [] fallback = fallback"
| "first_set getenv (k # ks) fallback = (if getenv k \<noteq> '''' then getenv k else first_set getenv ks fallback)"

text \<open>\<open>strings.ToUpper\<close> on ASCII, which the agents' names are.\<close>

definition to_upper :: "string \<Rightarrow> string" where
  "to_upper = map (\<lambda>c. let n = of_char c :: nat in if 97 \<le> n \<and> n \<le> 122 then char_of (n - 32) else c)"

definition agentModel :: "garage_config \<Rightarrow> string \<Rightarrow> (string \<Rightarrow> string) \<Rightarrow> modelChoice" where
  "agentModel cfg name getenv =
    (let pick = (\<lambda>suffix. first_set getenv [''GARAGE_'' @ to_upper name @ ''_'' @ suffix, ''GARAGE_'' @ suffix]) in
     \<lparr>mc_ID = pick ''MODEL'' (gc_Model cfg), mc_URL = pick ''MODEL_URL'' (gc_ModelURL cfg),
       mc_Key = pick ''MODEL_KEY'' ''ANTHROPIC_API_KEY''\<rparr>)"

subsection \<open>remote.go\<close>

definition remoteConfig ::
  "(string \<Rightarrow> garage_config res) \<Rightarrow> 's caller \<Rightarrow> string res \<Rightarrow> ('s, 'w) site \<Rightarrow> ('s, 'w) site \<times> unit res" where
  "remoteConfig decode c stdin s =
    (case stdin of
       Inl e \<Rightarrow> (s, Inl e)
     | Inr raw \<Rightarrow>
        (case parseConfig decode raw of
           Inl e \<Rightarrow> (s, Inl e)
         | Inr cfg \<Rightarrow> try_then (c_Put c configKey raw s) (\<lambda>_ s1. (s1, Inr ()))))"

definition trim_newlines :: "string \<Rightarrow> string" where
  "trim_newlines s = rev (dropWhile (\<lambda>c. c = CHR 0x0D \<or> c = CHR 0x0A) (rev s))"

text \<open>The value is read before the bucket is opened; \<open>open_bucket\<close> is \<open>openBucket\<close> with R2.\<close>

definition remoteSecret ::
  "'w machine \<Rightarrow> 's store_ops \<Rightarrow> crypto \<Rightarrow> ('r, 'i) age \<Rightarrow> (string \<Rightarrow> string) \<Rightarrow> goerr option \<Rightarrow> ('w \<Rightarrow> 's client res) \<Rightarrow> string \<Rightarrow>
   string \<Rightarrow> string res \<Rightarrow> 'w \<Rightarrow> ('s client) option \<times> goerr option" where
  "remoteSecret m st cr ag quote wait open_bucket keys name stdin w =
    (case os_ReadFile m (join_path [keys, recipientFile]) w of
       Inl e \<Rightarrow> (None, Some (Wrap '''' e '' (copy the host's recipient there)''))
     | Inr recipient \<Rightarrow>
        (case stdin of
           Inl e \<Rightarrow> (None, Some e)
         | Inr value \<Rightarrow>
            (case open_bucket w of
               Inl e \<Rightarrow> (None, Some e)
             | Inr c \<Rightarrow>
                (case secrets_Put st cr ag quote ''secrets'' wait (trim_space recipient) name (trim_newlines value) c of
                   (c1, e) \<Rightarrow> (Some c1, e)))))"

text \<open>
  \<open>git\<close> answers its standard output, trimmed, and its error; \<open>inherited\<close> is the environment the build
  adds to; what the build printed is its standard output and then its standard error.
\<close>

definition git_in :: "'w machine \<Rightarrow> string \<Rightarrow> string list \<Rightarrow> 'w \<Rightarrow> 'w \<times> string \<times> goerr option" where
  "git_in m repo args w =
    (case os_Run (mx_host m) '''' None ''git'' ([''-C'', repo] @ args) w of
       (w1, p) \<Rightarrow> (w1, trim_space (ps_Stdout p), map_option run_err (ps_Err p)))"

definition build_in :: "'w machine \<Rightarrow> string list \<Rightarrow> string \<Rightarrow> string \<Rightarrow> 'w \<Rightarrow> 'w \<times> string res" where
  "build_in m inherited repo d w =
    (let out = join_path [d, ''garage''] in
     case os_Run (mx_host m) repo (Some (inherited @ [''GOOS=linux'', ''GOARCH=amd64'', ''CGO_ENABLED=0''])) ''go''
         [''build'', ''-o'', out, ''./cmd/garage''] w of
       (w1, p) \<Rightarrow>
        (case ps_Err p of
           Some e \<Rightarrow> (w1, Inl (Wrap ''go build: '' (run_err e) (nl @ ps_Stdout p @ ps_Stderr p)))
         | None \<Rightarrow> (w1, os_ReadFile m out w1)))"

definition remoteRelease ::
  "(string \<Rightarrow> string) \<Rightarrow> 's caller \<Rightarrow> 'w machine \<Rightarrow> string list \<Rightarrow> string \<Rightarrow> ('s, 'w) site \<Rightarrow> ('s, 'w) site \<times> string res" where
  "remoteRelease quote c m inherited repo s =
    (case git_in m repo [''status'', ''--porcelain''] (st_world s) of
       (w1, out, Some e) \<Rightarrow> (s\<lparr>st_world := w1\<rparr>, Inl (Wrap (repo @ '' is not a git checkout: '') e ''''))
     | (w1, status, None) \<Rightarrow>
        if status \<noteq> ''''
        then (s\<lparr>st_world := w1\<rparr>, Inl (Opaque (''commit your work first, a release is named by its commit:'' @ nl @ status)))
        else case git_in m repo [''rev-parse'', ''HEAD''] w1 of
          (w2, out, Some e) \<Rightarrow> (s\<lparr>st_world := w2\<rparr>, Inl e)
        | (w2, sha, None) \<Rightarrow>
           (case os_MkdirTemp m ''garage-release'' w2 of
              (w3, Inl e) \<Rightarrow> (s\<lparr>st_world := w3\<rparr>, Inl e)
            | (w3, Inr d) \<Rightarrow>
               (case build_in m inherited repo d w3 of (w4, bin) \<Rightarrow>
                 (case try_then (s\<lparr>st_world := w4\<rparr>, bin) (Publish quote c sha) of (s5, r) \<Rightarrow>
                   (s5\<lparr>st_world := fst (os_RemoveAll (mx_host m) d (st_world s5))\<rparr>,
                    case r of Inl e \<Rightarrow> Inl e | Inr u \<Rightarrow> Inr sha)))))"

text \<open>
  The laptop's end of a chat. \<open>ch_shown\<close> is the mail printed, with its numbers: a line each, made by
  \<open>mail_line\<close>. A session is a sequence of ticks and of lines read; the mutex makes each one step.
\<close>

record cursors =
  cu_ToHost :: int
  cu_ToLaptop :: int

record ('s, 'w) laptop_chat =
  ch_client :: "'s client"
  ch_world :: 'w
  ch_cur :: cursors
  ch_shown :: "(int \<times> message) list"

definition mail_line :: "(gotime \<Rightarrow> string) \<Rightarrow> message \<Rightarrow> string" where
  "mail_line hhmm m = ''['' @ hhmm (m_Time m) @ ''] #'' @ m_Room m @ '' '' @ m_Author m @ '': '' @ m_Text m @ nl"

definition load_cursors :: "(string \<Rightarrow> cursors option) \<Rightarrow> 'w machine \<Rightarrow> string \<Rightarrow> 'w \<Rightarrow> cursors res" where
  "load_cursors unmarshal m path w =
    (case os_ReadFile m path w of
       Inr raw \<Rightarrow> (case unmarshal raw of None \<Rightarrow> Inl (Opaque (path @ '': not cursors'')) | Some cur \<Rightarrow> Inr cur)
     | Inl e \<Rightarrow> if err_is e Host.ErrNotExist then Inr \<lparr>cu_ToHost = 0, cu_ToLaptop = 0\<rparr> else Inl e)"

definition save_cursors ::
  "(cursors \<Rightarrow> string) \<Rightarrow> 'w machine \<Rightarrow> string \<Rightarrow> ('s, 'w) laptop_chat \<Rightarrow> ('s, 'w) laptop_chat \<times> goerr option" where
  "save_cursors marshal m path s =
    (case os_WriteFile m path (marshal (ch_cur s)) (ch_world s) of
       (w, r) \<Rightarrow> (s\<lparr>ch_world := w\<rparr>, case r of Inl e \<Rightarrow> Some e | Inr u \<Rightarrow> None))"

text \<open>None: the bucket never stopped answering with more mail.\<close>

definition check_mail ::
  "(cursors \<Rightarrow> string) \<Rightarrow> (string \<Rightarrow> message option) \<Rightarrow> 's caller \<Rightarrow> 'w machine \<Rightarrow> string \<Rightarrow> (int \<Rightarrow> goerr option) \<Rightarrow>
   ('s, 'w) laptop_chat \<Rightarrow> (('s, 'w) laptop_chat \<times> goerr option) option" where
  "check_mail marshal unmarshal c m path wait s =
    (case Receive (ca_store c) (ca_crypto c) unmarshal (ca_name c) wait ToLaptop (cu_ToLaptop (ch_cur s))
        (\<lambda>seq x shown. (shown @ [(seq, x)], None)) (ch_client s) (ch_shown s) of
       None \<Rightarrow> None
     | Some (cl, shown, seq, e) \<Rightarrow>
        (case save_cursors marshal m path (s\<lparr>ch_client := cl, ch_shown := shown, ch_cur := (ch_cur s)\<lparr>cu_ToLaptop := seq\<rparr>\<rparr>) of
           (s1, se) \<Rightarrow> Some (s1, if e = None then se else e)))"

definition send_line ::
  "(cursors \<Rightarrow> string) \<Rightarrow> (message \<Rightarrow> string res) \<Rightarrow> gotime \<Rightarrow> 's caller \<Rightarrow> 'w machine \<Rightarrow> string \<Rightarrow> (int \<Rightarrow> goerr option) \<Rightarrow>
   string \<Rightarrow> string \<Rightarrow> string \<Rightarrow> ('s, 'w) laptop_chat \<Rightarrow> (('s, 'w) laptop_chat \<times> goerr option) option" where
  "send_line marshal marshal_mail now c m path wait room author line s =
    (if line = '''' then Some (s, None)
     else case Send (ca_store c) (ca_crypto c) marshal_mail now (ca_name c) wait ToHost (cu_ToHost (ch_cur s))
         \<lparr>m_Room = room, m_Author = author, m_Text = line, m_Time = zero_time\<rparr> (ch_client s) of
       None \<Rightarrow> None
     | Some (cl, seq, Some e) \<Rightarrow> Some (s\<lparr>ch_client := cl\<rparr>, Some e)
     | Some (cl, seq, None) \<Rightarrow>
         Some (save_cursors marshal m path (s\<lparr>ch_client := cl, ch_cur := (ch_cur s)\<lparr>cu_ToHost := seq + 1\<rparr>\<rparr>)))"

datatype chat_event = Tick "int \<Rightarrow> goerr option" | Line "int \<Rightarrow> goerr option" gotime string | Unread goerr

text \<open>
  A failed check waits for the next tick; a line that cannot be sent, or not be read (\<open>sc.Err\<close>), ends
  the session.
\<close>

fun chat_session ::
  "(cursors \<Rightarrow> string) \<Rightarrow> (message \<Rightarrow> string res) \<Rightarrow> (string \<Rightarrow> message option) \<Rightarrow> 's caller \<Rightarrow> 'w machine \<Rightarrow> string \<Rightarrow> string \<Rightarrow> string \<Rightarrow>
   chat_event list \<Rightarrow> ('s, 'w) laptop_chat \<Rightarrow> (('s, 'w) laptop_chat \<times> goerr option) option" where
  "chat_session marshal mm um c m path room author [] s = Some (s, None)"
| "chat_session marshal mm um c m path room author (Tick wait # es) s =
    (case check_mail marshal um c m path wait s of
       None \<Rightarrow> None
     | Some (s1, e) \<Rightarrow> chat_session marshal mm um c m path room author es s1)"
| "chat_session marshal mm um c m path room author (Line wait now line # es) s =
    (case send_line marshal mm now c m path wait room author line s of
       None \<Rightarrow> None
     | Some (s1, Some e) \<Rightarrow> Some (s1, Some e)
     | Some (s1, None) \<Rightarrow> chat_session marshal mm um c m path room author es s1)"
| "chat_session marshal mm um c m path room author (Unread e # es) s = Some (s, Some e)"

definition remoteChat ::
  "(cursors \<Rightarrow> string) \<Rightarrow> (string \<Rightarrow> cursors option) \<Rightarrow> (message \<Rightarrow> string res) \<Rightarrow> (string \<Rightarrow> message option) \<Rightarrow> 's caller \<Rightarrow>
   'w machine \<Rightarrow> string \<Rightarrow> string \<Rightarrow> string \<Rightarrow> (int \<Rightarrow> goerr option) \<Rightarrow> chat_event list \<Rightarrow> 's client \<Rightarrow> 'w \<Rightarrow>
   (('s, 'w) laptop_chat \<times> goerr option) option" where
  "remoteChat marshal unmarshal mm um c m path room author wait es cl w =
    (case load_cursors unmarshal m path w of
       Inl e \<Rightarrow> Some (\<lparr>ch_client = cl, ch_world = w, ch_cur = \<lparr>cu_ToHost = 0, cu_ToLaptop = 0\<rparr>, ch_shown = []\<rparr>, Some e)
     | Inr cur \<Rightarrow>
        (case check_mail marshal um c m path wait \<lparr>ch_client = cl, ch_world = w, ch_cur = cur, ch_shown = []\<rparr> of
           None \<Rightarrow> None
         | Some (s, Some e) \<Rightarrow> Some (s, Some e)
         | Some (s, None) \<Rightarrow> chat_session marshal mm um c m path room author es s))"

subsection \<open>A configuration on its way\<close>

lemma parseConfig_filled:
  assumes "parseConfig decode raw = Inr cfg"
  shows "gc_Workspaces cfg \<noteq> []" "gc_Model cfg \<noteq> ''''" "gc_GitName cfg \<noteq> ''''" "gc_GitEmail cfg \<noteq> ''''"
  using assms by (auto simp: parseConfig_def or_else_def split: sum.splits if_splits)

text \<open>C37. The laptop checks what the host will read. A configuration that does not parse is refused
  before anything is sent. One that parses is written, over a store that answers exactly, and a host
  that trusts the laptop then loads exactly the configuration the laptop saw, with at least one
  workspace and no model, name or address left empty.\<close>

theorem a_config_reaches_the_host:
  fixes laptop host :: "('s, 'w) site"
  assumes "exact_store (ca_store c) view" "crypto_signs (ca_crypto c)"
    and "cr_public (ca_crypto c) (cl_key (st_client laptop)) \<in> set (cl_trusted (st_client host))"
    and "st_waits laptop = []" "st_waits host = []"
  shows "case parseConfig decode raw of
      Inl e \<Rightarrow> remoteConfig decode c (Inr raw) laptop = (laptop, Inl e)
    | Inr cfg \<Rightarrow> gc_Workspaces cfg \<noteq> [] \<and> gc_Model cfg \<noteq> '''' \<and> gc_GitName cfg \<noteq> '''' \<and> gc_GitEmail cfg \<noteq> '''' \<and>
        (\<exists>laptop' host'. remoteConfig decode c (Inr raw) laptop = (laptop', Inr ()) \<and>
          loadConfig decode c (host\<lparr>st_client := (st_client host)\<lparr>cl_store := cl_store (st_client laptop')\<rparr>\<rparr>) = (host', Inr cfg))"
proof (cases "parseConfig decode raw")
  case (Inl e)
  then show ?thesis by (simp add: remoteConfig_def)
next
  case (Inr cfg)
  obtain laptop' t where put: "c_Put c configKey raw laptop = (laptop', Inr t)"
    "objects view laptop' = (objects view laptop)(configKey \<mapsto> sealed (ca_crypto c) (cl_key (st_client laptop)) configKey raw t)"
    by (rule c_Put_works[OF assms(1,4)])
  let ?h = "host\<lparr>st_client := (st_client host)\<lparr>cl_store := cl_store (st_client laptop')\<rparr>\<rparr>"
  let ?ob = "sealed (ca_crypto c) (cl_key (st_client laptop)) configKey raw t"
  have ok: "verify (ca_crypto c) (cl_trusted (st_client ?h)) configKey ?ob" using verify_own[OF assms(2,3)] by (simp add: sealed_def)
  have there: "st_waits ?h = []" "objects view ?h configKey = Some ?ob" using put(2) assms(5) by simp_all
  obtain h1 where "c_Get c configKey ?h = (h1, Inr ?ob)" by (rule c_Get_there[OF assms(1) there ok])
  then have "loadConfig decode c ?h = (h1, Inr cfg)" using Inr by (simp add: loadConfig_def sealed_def)
  moreover have "remoteConfig decode c (Inr raw) laptop = (laptop', Inr ())" using Inr put(1) by (simp add: remoteConfig_def)
  ultimately show ?thesis using Inr parseConfig_filled[OF Inr] by auto
qed

subsection \<open>Mail on the laptop\<close>

lemma receive_numbers:
  assumes "Receive st cr um name wait box n0 (\<lambda>seq x shown. (shown @ [(seq, x)], None)) cl old = Some (cl', shown, n', e)"
  obtains ms where "shown = old @ ms" "sorted_wrt (<) (map fst ms)" "\<forall>n \<in> fst ` set ms. n0 \<le> n \<and> n < n'" "n0 \<le> n'"
proof -
  let ?f = "\<lambda>seq x shown. (shown @ [(seq, x)], None)"
  let ?I = "\<lambda>(n, c, shown). n0 \<le> n \<and> (\<exists>ms. shown = old @ ms \<and> sorted_wrt (<) (map fst ms) \<and> (\<forall>k \<in> fst ` set ms. n0 \<le> k \<and> k < n))"
  have "\<exists>a'. ?I a' \<and> receive_step st cr um name wait box ?f a' = Inr (cl', shown, n', e)"
  proof (rule loop_result[OF assms[unfolded Receive_def]])
    show "?I (n0, cl, old)" by auto
    fix a a' assume I: "?I a" and step: "receive_step st cr um name wait box ?f a = Inl a'"
    obtain n c sh where a: "a = (n, c, sh)" by (cases a)
    obtain ms where ms: "n0 \<le> n" "sh = old @ ms" "sorted_wrt (<) (map fst ms)" "\<forall>k \<in> fst ` set ms. n0 \<le> k \<and> k < n" using I a by auto
    obtain c' where c': "a' = (n + 1, c', sh) \<or> (\<exists>m. a' = (n + 1, c', sh @ [(n, m)]))"
      using step unfolding a receive_step_def by (auto split: prod.splits sum.splits option.splits if_splits)
    then show "?I a'"
    proof
      assume "a' = (n + 1, c', sh)"
      then show ?thesis using ms by force
    next
      assume "\<exists>m. a' = (n + 1, c', sh @ [(n, m)])"
      then obtain m where m: "a' = (n + 1, c', sh @ [(n, m)])" by blast
      have "sorted_wrt (<) (map fst (ms @ [(n, m)]))" using ms(3,4) by (auto simp: sorted_wrt_append)
      moreover have "\<forall>k \<in> fst ` set (ms @ [(n, m)]). n0 \<le> k \<and> k < n + 1" using ms(1,4) by force
      ultimately show ?thesis using m ms(1,2) by (auto intro!: exI[of _ "ms @ [(n, m)]"])
    qed
  qed
  then obtain a where a: "?I a" "receive_step st cr um name wait box ?f a = Inr (cl', shown, n', e)" by blast
  obtain n c sh where n: "a = (n, c, sh)" by (cases a)
  have "shown = sh \<and> n' = n"
    using a(2) unfolding n receive_step_def by (auto split: prod.splits sum.splits option.splits if_splits)
  then show thesis using a(1) that unfolding n by auto
qed

text \<open>What a step of a session keeps: what is shown grows at the end, from the cursor on, and the file has the cursor.\<close>

definition chat_moved ::
  "(cursors \<Rightarrow> string) \<Rightarrow> ('w \<Rightarrow> string \<Rightarrow> string option) \<Rightarrow> ('w \<Rightarrow> string \<Rightarrow> string option) \<Rightarrow> string \<Rightarrow>
   ('s, 'w) laptop_chat \<Rightarrow> ('s, 'w) laptop_chat \<Rightarrow> bool" where
  "chat_moved marshal file linked path s s' =
    (cu_ToLaptop (ch_cur s) \<le> cu_ToLaptop (ch_cur s') \<and> linked (ch_world s') path = None \<and>
     (\<exists>ms. ch_shown s' = ch_shown s @ ms \<and> sorted_wrt (<) (map fst ms) \<and>
       (\<forall>n \<in> fst ` set ms. cu_ToLaptop (ch_cur s) \<le> n \<and> n < cu_ToLaptop (ch_cur s'))) \<and>
     (ch_world s' = ch_world s \<and> ch_cur s' = ch_cur s \<or> file (ch_world s') path = Some (marshal (ch_cur s'))))"

lemma chat_moved_refl: "linked (ch_world s) path = None \<Longrightarrow> chat_moved marshal file linked path s s"
  by (simp add: chat_moved_def)

lemma chat_moved_trans:
  assumes "chat_moved marshal file linked path s s'" "chat_moved marshal file linked path s' s''"
  shows "chat_moved marshal file linked path s s''"
proof -
  obtain ms where ms: "ch_shown s' = ch_shown s @ ms" "sorted_wrt (<) (map fst ms)"
    "\<forall>n \<in> fst ` set ms. cu_ToLaptop (ch_cur s) \<le> n \<and> n < cu_ToLaptop (ch_cur s')"
    using assms(1) by (auto simp: chat_moved_def)
  obtain ns where ns: "ch_shown s'' = ch_shown s' @ ns" "sorted_wrt (<) (map fst ns)"
    "\<forall>n \<in> fst ` set ns. cu_ToLaptop (ch_cur s') \<le> n \<and> n < cu_ToLaptop (ch_cur s'')"
    using assms(2) by (auto simp: chat_moved_def)
  have le: "cu_ToLaptop (ch_cur s) \<le> cu_ToLaptop (ch_cur s')" "cu_ToLaptop (ch_cur s') \<le> cu_ToLaptop (ch_cur s'')"
    using assms by (simp_all add: chat_moved_def)
  have "sorted_wrt (<) (map fst (ms @ ns))" using ms(2,3) ns(2,3) by (force simp: sorted_wrt_append)
  moreover have "\<forall>n \<in> fst ` set (ms @ ns). cu_ToLaptop (ch_cur s) \<le> n \<and> n < cu_ToLaptop (ch_cur s'')" using ms(3) ns(3) le by force
  ultimately have "\<exists>ms. ch_shown s'' = ch_shown s @ ms \<and> sorted_wrt (<) (map fst ms) \<and>
      (\<forall>n \<in> fst ` set ms. cu_ToLaptop (ch_cur s) \<le> n \<and> n < cu_ToLaptop (ch_cur s''))"
    using ms(1) ns(1) by (intro exI[of _ "ms @ ns"]) simp
  then show ?thesis using assms le unfolding chat_moved_def by auto
qed

lemma save_moved:
  assumes "files_documented m {path} file linked" "disk_works m {path} file linked" "linked (ch_world s) path = None"
    and "save_cursors marshal m path s = (s', e)"
  shows "e = None" "linked (ch_world s') path = None" "file (ch_world s') path = Some (marshal (ch_cur s'))"
    and "ch_cur s' = ch_cur s" "ch_shown s' = ch_shown s"
proof -
  obtain w where w: "os_WriteFile m path (marshal (ch_cur s)) (ch_world s) = (w, Inr ())"
    using works_WriteFile[OF assms(2) _ assms(3)] by blast
  then have s': "s' = s\<lparr>ch_world := w\<rparr>" "e = None" using assms(4) by (simp_all add: save_cursors_def)
  have "linked w path = None \<and> file w path = Some (marshal (ch_cur s))"
    using doc_WriteFile[OF assms(1) _ assms(3) w] by simp
  then show "e = None" "linked (ch_world s') path = None" "file (ch_world s') path = Some (marshal (ch_cur s'))"
    "ch_cur s' = ch_cur s" "ch_shown s' = ch_shown s" using s' by simp_all
qed

lemma check_moved:
  assumes "files_documented m {path} file linked" "disk_works m {path} file linked" "linked (ch_world s) path = None"
    and "check_mail marshal um c m path wait s = Some (s', e)"
  shows "chat_moved marshal file linked path s s'"
proof -
  obtain cl shown n e1 where r: "Receive (ca_store c) (ca_crypto c) um (ca_name c) wait ToLaptop (cu_ToLaptop (ch_cur s))
      (\<lambda>seq x shown. (shown @ [(seq, x)], None)) (ch_client s) (ch_shown s) = Some (cl, shown, n, e1)"
    and sv: "fst (save_cursors marshal m path (s\<lparr>ch_client := cl, ch_shown := shown, ch_cur := (ch_cur s)\<lparr>cu_ToLaptop := n\<rparr>\<rparr>)) = s'"
    using assms(4) by (auto simp: check_mail_def split: option.splits prod.splits)
  obtain ms where ms: "shown = ch_shown s @ ms" "sorted_wrt (<) (map fst ms)"
    "\<forall>k \<in> fst ` set ms. cu_ToLaptop (ch_cur s) \<le> k \<and> k < n" "cu_ToLaptop (ch_cur s) \<le> n" by (rule receive_numbers[OF r])
  let ?s = "s\<lparr>ch_client := cl, ch_shown := shown, ch_cur := (ch_cur s)\<lparr>cu_ToLaptop := n\<rparr>\<rparr>"
  obtain e2 where sv2: "save_cursors marshal m path ?s = (s', e2)" using sv by (metis prod.collapse)
  have l: "linked (ch_world ?s) path = None" using assms(3) by simp
  note saved = save_moved[OF assms(1,2) l sv2]
  show ?thesis unfolding chat_moved_def using saved(2-5) ms by auto
qed

lemma send_moved:
  assumes "files_documented m {path} file linked" "disk_works m {path} file linked" "linked (ch_world s) path = None"
    and "send_line marshal mm now c m path wait room author line s = Some (s', e)"
  shows "chat_moved marshal file linked path s s'"
proof (cases "line = ''''")
  case True
  then show ?thesis using assms(3,4) chat_moved_refl by (auto simp: send_line_def)
next
  case False
  then obtain cl seq e1 where r: "(case e1 of Some x \<Rightarrow> Some (s\<lparr>ch_client := cl\<rparr>, Some x)
      | None \<Rightarrow> Some (save_cursors marshal m path (s\<lparr>ch_client := cl, ch_cur := (ch_cur s)\<lparr>cu_ToHost := seq + 1\<rparr>\<rparr>))) = Some (s', e)"
    using assms(4) by (auto simp: send_line_def split: option.splits prod.splits)
  show ?thesis
  proof (cases e1)
    case (Some x)
    then show ?thesis using r assms(3) by (auto simp: chat_moved_def)
  next
    case None
    let ?s = "s\<lparr>ch_client := cl, ch_cur := (ch_cur s)\<lparr>cu_ToHost := seq + 1\<rparr>\<rparr>"
    have l: "linked (ch_world ?s) path = None" using assms(3) by simp
    have sv: "save_cursors marshal m path ?s = (s', e)" using r None by simp
    show ?thesis unfolding chat_moved_def using save_moved(2-5)[OF assms(1,2) l sv] by auto
  qed
qed

lemma session_moved:
  assumes "files_documented m {path} file linked" "disk_works m {path} file linked"
  shows "chat_session marshal mm um c m path room author es s = Some (s', e) \<Longrightarrow> linked (ch_world s) path = None \<Longrightarrow>
    chat_moved marshal file linked path s s'"
proof (induction es arbitrary: s)
  case Nil
  then show ?case by (simp add: chat_moved_refl)
next
  case (Cons ev es)
  have next_step: "chat_moved marshal file linked path s s'"
    if "chat_moved marshal file linked path s s1" "chat_session marshal mm um c m path room author es s1 = Some (s', e)" for s1
    using chat_moved_trans[OF that(1) Cons.IH[OF that(2)]] that(1) by (simp add: chat_moved_def)
  show ?case
  proof (cases ev)
    case (Tick wait)
    then obtain s1 e1 where "check_mail marshal um c m path wait s = Some (s1, e1)"
      "chat_session marshal mm um c m path room author es s1 = Some (s', e)"
      using Cons.prems(1) by (auto split: option.splits prod.splits)
    then show ?thesis using next_step check_moved[OF assms Cons.prems(2)] by blast
  next
    case (Line wait now line)
    then obtain s1 e1 where s1: "send_line marshal mm now c m path wait room author line s = Some (s1, e1)"
      "(case e1 of Some x \<Rightarrow> Some (s1, Some x) | None \<Rightarrow> chat_session marshal mm um c m path room author es s1) = Some (s', e)"
      using Cons.prems(1) by (auto split: option.splits prod.splits)
    note sent = send_moved[OF assms Cons.prems(2) s1(1)]
    show ?thesis using s1(2) sent next_step by (cases e1) auto
  next
    case (Unread x)
    then show ?thesis using Cons.prems chat_moved_refl by auto
  qed
qed

text \<open>The number a session that starts in this world reads first.\<close>

definition first_unread :: "(string \<Rightarrow> cursors option) \<Rightarrow> 'w machine \<Rightarrow> string \<Rightarrow> 'w \<Rightarrow> int" where
  "first_unread unmarshal m path w = (case load_cursors unmarshal m path w of Inl e \<Rightarrow> 0 | Inr cur \<Rightarrow> cu_ToLaptop cur)"

lemma remoteChat_shows:
  assumes "files_documented m {path} file linked" "disk_works m {path} file linked" "linked w path = None"
    and "\<And>cur. unmarshal (marshal cur) = Some cur"
    and "remoteChat marshal unmarshal mm um c m path room author wait es cl w = Some (s, e)"
  shows "linked (ch_world s) path = None" "first_unread unmarshal m path w \<le> first_unread unmarshal m path (ch_world s)"
    and "sorted_wrt (<) (map fst (ch_shown s))"
    and "\<forall>n \<in> fst ` set (ch_shown s). first_unread unmarshal m path w \<le> n \<and> n < first_unread unmarshal m path (ch_world s)"
proof -
  let ?L = "first_unread unmarshal m path"
  have "linked (ch_world s) path = None \<and> ?L w \<le> ?L (ch_world s) \<and> sorted_wrt (<) (map fst (ch_shown s)) \<and>
    (\<forall>n \<in> fst ` set (ch_shown s). ?L w \<le> n \<and> n < ?L (ch_world s))"
  proof (cases "load_cursors unmarshal m path w")
    case (Inl x)
    then show ?thesis using assms(3,5) by (auto simp: remoteChat_def)
  next
    case (Inr cur)
    let ?s = "\<lparr>ch_client = cl, ch_world = w, ch_cur = cur, ch_shown = []\<rparr>"
    obtain s1 e1 where s1: "check_mail marshal um c m path wait ?s = Some (s1, e1)"
      "(case e1 of Some x \<Rightarrow> Some (s1, Some x) | None \<Rightarrow> chat_session marshal mm um c m path room author es s1) = Some (s, e)"
      using assms(5) Inr by (auto simp: remoteChat_def split: option.splits prod.splits)
    have m1: "chat_moved marshal file linked path ?s s1" by (rule check_moved[OF assms(1,2) _ s1(1)]) (use assms(3) in simp)
    have "chat_moved marshal file linked path s1 s"
    proof (cases e1)
      case (Some x)
      then show ?thesis using s1(2) m1 chat_moved_refl by (auto simp: chat_moved_def)
    next
      case None
      then have rest: "chat_session marshal mm um c m path room author es s1 = Some (s, e)" using s1(2) by simp
      have "linked (ch_world s1) path = None" using m1 by (simp add: chat_moved_def)
      then show ?thesis by (rule session_moved[OF assms(1,2) rest])
    qed
    then have m: "chat_moved marshal file linked path ?s s" by (rule chat_moved_trans[OF m1])
    have l: "linked (ch_world s) path = None" using m by (simp add: chat_moved_def)
    have "load_cursors unmarshal m path (ch_world s) = Inr (ch_cur s)"
    proof (cases "ch_world s = w \<and> ch_cur s = cur")
      case True
      then show ?thesis using Inr by simp
    next
      case False
      then have "file (ch_world s) path = Some (marshal (ch_cur s))" using m by (auto simp: chat_moved_def)
      then have "os_ReadFile m path (ch_world s) = Inr (marshal (ch_cur s))" using works_ReadFile[OF assms(2) _ l] by simp
      then show ?thesis using assms(4) by (simp add: load_cursors_def)
    qed
    then have "?L (ch_world s) = cu_ToLaptop (ch_cur s)" "?L w = cu_ToLaptop cur" using Inr by (simp_all add: first_unread_def)
    then show ?thesis using m l by (auto simp: chat_moved_def)
  qed
  then show "linked (ch_world s) path = None" "?L w \<le> ?L (ch_world s)" "sorted_wrt (<) (map fst (ch_shown s))"
    "\<forall>n \<in> fst ` set (ch_shown s). ?L w \<le> n \<and> n < ?L (ch_world s)" by blast+
qed

text \<open>One session after the other, each on what the last one left; the result is all that was shown.\<close>

fun sessions :: "('a \<Rightarrow> 'w \<Rightarrow> (('s, 'w) laptop_chat \<times> goerr option) option) \<Rightarrow> 'a list \<Rightarrow> 'w \<Rightarrow> (int \<times> message) list option" where
  "sessions chat [] w = Some []"
| "sessions chat (x # xs) w =
    (case chat x w of
       None \<Rightarrow> None
     | Some (s, e) \<Rightarrow> (case sessions chat xs (ch_world s) of None \<Rightarrow> None | Some shown \<Rightarrow> Some (ch_shown s @ shown)))"

text \<open>C38. Mail is shown once, in order. Over a disk that works, whatever the bucket does, however often
  its calls fail and whatever is typed: over any number of sessions of \<open>garage remote chat\<close>, each
  taking up the cursors the last one saved, the numbers of the mail shown only ever grow.\<close>

theorem mail_is_shown_once:
  assumes "files_documented m {path} file linked" "disk_works m {path} file linked" "linked w path = None"
    and "\<And>cur. unmarshal (marshal cur) = Some cur"
    and "sessions (\<lambda>(wait, es, cl). remoteChat marshal unmarshal mm um c m path room author wait es cl) runs w = Some shown"
  shows "sorted_wrt (<) (map fst shown)"
proof -
  let ?chat = "\<lambda>(wait, es, cl). remoteChat marshal unmarshal mm um c m path room author wait es cl"
  have "sorted_wrt (<) (map fst shown) \<and> (\<forall>n \<in> fst ` set shown. first_unread unmarshal m path w \<le> n)"
    using assms(3,5)
  proof (induction runs arbitrary: w shown)
    case (Cons x runs)
    obtain wait es cl where x: "x = (wait, es, cl)" by (cases x)
    obtain s e rest where s: "remoteChat marshal unmarshal mm um c m path room author wait es cl w = Some (s, e)"
      "sessions ?chat runs (ch_world s) = Some rest" "shown = ch_shown s @ rest"
      using Cons.prems(2) x by (auto split: option.splits prod.splits)
    note one = remoteChat_shows[OF assms(1,2) Cons.prems(1) assms(4) s(1)]
    have rest: "sorted_wrt (<) (map fst rest)" "\<forall>n \<in> fst ` set rest. first_unread unmarshal m path (ch_world s) \<le> n"
      using Cons.IH[OF one(1) s(2)] by simp_all
    have "\<forall>a \<in> fst ` set (ch_shown s). \<forall>b \<in> fst ` set rest. a < b" using one(4) rest(2) by (meson less_le_trans)
    then have "sorted_wrt (<) (map fst shown)" using one(3) rest(1) s(3) by (auto simp: sorted_wrt_append)
    moreover have "\<forall>n \<in> fst ` set shown. first_unread unmarshal m path w \<le> n" using one(2,4) rest(2) s(3) by force
    ultimately show ?case by blast
  qed simp
  then show ?thesis by blast
qed

text \<open>Two sessions, the mail of one host and cursors in unary.\<close>

definition unary :: "int \<Rightarrow> string" where "unary n = (if n < 0 then ''-'' else '''') @ replicate (nat \<bar>n\<bar>) CHR ''I''"

definition of_unary :: "string \<Rightarrow> int" where
  "of_unary s = (if has_prefix s ''-'' then - int (length s - 1) else int (length s))"

definition demo_marshal :: "cursors \<Rightarrow> string" where "demo_marshal cur = unary (cu_ToHost cur) @ '','' @ unary (cu_ToLaptop cur)"

definition demo_unmarshal :: "string \<Rightarrow> cursors option" where
  "demo_unmarshal s = Some \<lparr>cu_ToHost = of_unary (takeWhile (\<lambda>c. c \<noteq> CHR '','') s),
     cu_ToLaptop = of_unary (tl (dropWhile (\<lambda>c. c \<noteq> CHR '','') s))\<rparr>"

lemma of_unary [simp]: "of_unary (unary n) = n"
  by (cases "n < 0"; cases "nat \<bar>n\<bar>") (auto simp: of_unary_def unary_def has_prefix_iff)

lemma demo_cursors: "demo_unmarshal (demo_marshal cur) = Some cur"
proof -
  have u: "\<forall>c \<in> set (unary n). c \<noteq> CHR '',''" for n by (auto simp: unary_def)
  have "takeWhile (\<lambda>c. c \<noteq> CHR '','') (demo_marshal cur) = unary (cu_ToHost cur)"
    "dropWhile (\<lambda>c. c \<noteq> CHR '','') (demo_marshal cur) = '','' @ unary (cu_ToLaptop cur)"
    unfolding demo_marshal_def using u by (simp_all add: takeWhile_append2 dropWhile_append2)
  then show ?thesis by (simp add: demo_unmarshal_def)
qed

definition demo_mail :: "string \<Rightarrow> message" where
  "demo_mail b = \<lparr>m_Room = ''garage'', m_Author = ''dev'', m_Text = b, m_Time = 1\<rparr>"

definition demo_reader :: "fake client" where
  "demo_reader = (demo_client ''k'' [cr_public demo_crypto ''h''])\<lparr>cl_store :=
     cl_store (fst (the (Send fake_store demo_crypto (\<lambda>m. Inr (m_Text m)) 1 ''mail'' (\<lambda>_. None) ToLaptop 0 (demo_mail ''done'')
       (demo_client ''h'' []))))\<rparr>"

abbreviation demo_chat :: "(int \<Rightarrow> goerr option) \<Rightarrow> chat_event list \<Rightarrow> fake client \<Rightarrow> disk \<Rightarrow> ((fake, disk) laptop_chat \<times> goerr option) option" where
  "demo_chat \<equiv> remoteChat demo_marshal demo_unmarshal (\<lambda>m. Inr (m_Text m)) (\<lambda>b. Some (demo_mail b)) demo_sender demo_machine ''/m''
     ''garage'' ''me''"

lemma demo_sessions:
  "sessions (\<lambda>(wait, es, cl). demo_chat wait es cl) [((\<lambda>_. None), [Tick (\<lambda>_. None)], demo_reader), ((\<lambda>_. None), [], demo_reader)]
     \<lparr>dk_files = [], dk_links = []\<rparr> = Some [(0, demo_mail ''done'')]"
  by code_simp

theorem mail_is_shown_once_witness:
  "\<exists>shown. sessions (\<lambda>(wait, es, cl). demo_chat wait es cl)
      [((\<lambda>_. None), [Tick (\<lambda>_. None)], demo_reader), ((\<lambda>_. None), [], demo_reader)] \<lparr>dk_files = [], dk_links = []\<rparr> = Some shown \<and>
    shown \<noteq> [] \<and> sorted_wrt (<) (map fst shown)"
proof (intro exI conjI)
  show "sorted_wrt (<) (map fst [(0 :: int, demo_mail ''done'')])"
    by (rule mail_is_shown_once[OF demo_machine_documented(1) demo_machine_works _ demo_cursors demo_sessions]) simp
qed (rule demo_sessions, simp)

theorem a_config_reaches_the_host_witness:
  "\<exists>laptop' host'. remoteConfig (\<lambda>raw. Inr \<lparr>gc_Model = '''', gc_ModelURL = '''', gc_GitName = '''', gc_GitEmail = '''',
       gc_Workspaces = [(''agentgarage'', raw)]\<rparr>) demo_sender (Inr ''url'') demo_laptop = (laptop', Inr ()) \<and>
     loadConfig (\<lambda>raw. Inr \<lparr>gc_Model = '''', gc_ModelURL = '''', gc_GitName = '''', gc_GitEmail = '''',
       gc_Workspaces = [(''agentgarage'', raw)]\<rparr>) demo_sender
       (demo_host\<lparr>st_client := (st_client demo_host)\<lparr>cl_store := cl_store (st_client laptop')\<rparr>\<rparr>) =
       (host', Inr \<lparr>gc_Model = ''claude-sonnet-5'', gc_ModelURL = '''', gc_GitName = ''garage-dev'',
         gc_GitEmail = ''dev@agentgarage.invalid'', gc_Workspaces = [(''agentgarage'', ''url'')]\<rparr>)"
proof -
  let ?decode = "\<lambda>raw. Inr \<lparr>gc_Model = '''', gc_ModelURL = '''', gc_GitName = '''', gc_GitEmail = '''',
     gc_Workspaces = [(''agentgarage'', raw)]\<rparr>"
  have "exact_store (ca_store demo_sender) fake_view" by (simp add: demo_sender_def fake.exact_store_axioms)
  moreover have "crypto_signs (ca_crypto demo_sender)" by (simp add: demo_sender_def crypto_signs_def demo_crypto_def)
  moreover have "cr_public (ca_crypto demo_sender) (cl_key (st_client demo_laptop)) \<in> set (cl_trusted (st_client demo_host))"
    by (simp add: demo_sender_def demo_laptop_def demo_host_def demo_client_def New_def)
  moreover have "st_waits demo_laptop = []" "st_waits demo_host = []" by (simp_all add: demo_laptop_def demo_host_def)
  ultimately show ?thesis using a_config_reaches_the_host[of demo_sender fake_view demo_laptop demo_host ?decode "''url''"]
    by (simp add: parseConfig_def or_else_def)
qed

end
