(* ===== verification/Serve.thy ===== *)
theory Serve
  imports Garage Backup DevAgent ChatSystem
begin

section \<open>The host's process: cmd/garage/serve.go\<close>

text \<open>
  What \<open>runServe\<close> does before it listens, over a site; and its polling goroutine together with the
  chatroom and the agents it counts, as a step relation. Listening, HTTP and signals are left out; a
  signal is the polling goroutine's leaving.
\<close>

subsection \<open>Before serving\<close>

definition databases :: "(string \<times> string) list" where
  "databases = [(''garage/chatroom'', ''chatroom.db''), (''agents/dev'', join_path [''agents'', ''dev.db'']),
     (''agents/grug'', join_path [''agents'', ''grug.db''])]"

definition garageWorkspace :: string where "garageWorkspace = ''agentgarage''"

definition serveLimits :: "(string \<times> limit) list" where
  "serveLimits = map (\<lambda>(n, b). (n, \<lparr>Every = 1000000000, Burst = b\<rparr>))
     [(''secrets'', 5), (''config'', 5), (''backup'', 10), (''chat-poll'', 20), (''release'', 5)]"

definition database_paths :: "string \<Rightarrow> (string \<times> string) list" where
  "database_paths home = map (\<lambda>(owner, rel). (owner, join_path [home, rel])) databases"

definition as_caller :: "string \<Rightarrow> 's caller \<Rightarrow> 's caller" where "as_caller name c = c\<lparr>ca_name := name\<rparr>"

definition secret ::
  "('r, 'i) age \<Rightarrow> (string \<Rightarrow> string) \<Rightarrow> 'i master \<Rightarrow> string \<Rightarrow> 's caller \<Rightarrow> ('s, 'w) site \<Rightarrow> ('s, 'w) site \<times> string res" where
  "secret ag quote master name c =
    in_bucket (\<lambda>c w. master_Get (ca_store c) (ca_crypto c) ag quote (ca_name c) w master name) (as_caller ''secrets'' c)"

text \<open>\<open>new_model\<close> is \<open>model.New\<close>; a model that is given needs no key.\<close>

definition clientFor ::
  "('r, 'i) age \<Rightarrow> (string \<Rightarrow> string) \<Rightarrow> 'i master \<Rightarrow> (modelChoice \<Rightarrow> string \<Rightarrow> 'm res) \<Rightarrow> 'm option \<Rightarrow> (string \<Rightarrow> string) \<Rightarrow> garage_config \<Rightarrow>
   string \<Rightarrow> 's caller \<Rightarrow> ('s, 'w) site \<Rightarrow> ('s, 'w) site \<times> ('m \<times> string) res" where
  "clientFor ag quote master new_model given getenv cfg name c s =
    (let choice = agentModel cfg name getenv in
     case given of
       Some m \<Rightarrow> (s, Inr (m, mc_ID choice))
     | None \<Rightarrow>
        (case secret ag quote master (mc_Key choice) c s of
           (s1, Inl e) \<Rightarrow> (s1, Inl (if mc_Key choice \<noteq> ''ANTHROPIC_API_KEY''
             then Opaque (name @ '': no secret by the name GARAGE_'' @ to_upper name @
               ''_MODEL_KEY or GARAGE_MODEL_KEY gives; it names a secret, it doesn'' @ [CHR 0x27] @ ''t hold the key'')
             else e))
         | (s1, Inr key) \<Rightarrow> (s1, case new_model choice key of Inl e \<Rightarrow> Inl e | Inr m \<Rightarrow> Inr (m, mc_ID choice))))"

record 'm prepared =
  pr_Config :: garage_config
  pr_Token :: string
  pr_Dev :: "'m \<times> string"
  pr_Grug :: "'m \<times> string"

text \<open>Everything read before a workspace or a database is opened, in the code's order.\<close>

definition prepare ::
  "(string \<Rightarrow> string) \<Rightarrow> (string \<Rightarrow> garage_config res) \<Rightarrow> ('r, 'i) age \<Rightarrow> (modelChoice \<Rightarrow> string \<Rightarrow> 'm res) \<Rightarrow> 'm option \<Rightarrow>
   (string \<Rightarrow> string) \<Rightarrow> 'w machine \<Rightarrow> string \<Rightarrow> string \<Rightarrow> 's caller \<Rightarrow> ('s, 'w) site \<Rightarrow> ('s, 'w) site \<times> 'm prepared res" where
  "prepare quote decode ag new_model given getenv m home keys c s =
    (case Restore quote (as_caller ''backup'' c) m (database_paths home) s of
       (s1, restored, Some e) \<Rightarrow> (s1, Inl e)
     | (s1, restored, None) \<Rightarrow>
        try_then (loadConfig decode (as_caller ''config'' c) s1) (\<lambda>cfg s2.
          let path = join_path [keys, masterKeyFile] in
          case LoadMaster ag (fst (file_of m path (st_world s2))) path (snd (file_of m path (st_world s2))) of
            None \<Rightarrow> (s2, Inl (Opaque ''panic: index out of range''))
          | Some (Inl e) \<Rightarrow> (s2, Inl (Wrap '''' e '' (run garage init -master)''))
          | Some (Inr master) \<Rightarrow>
              try_then (secret ag quote master ''GH_TOKEN'' c s2) (\<lambda>token s3.
              try_then (clientFor ag quote master new_model given getenv cfg DevName c s3) (\<lambda>dev s4.
              try_then (clientFor ag quote master new_model given getenv cfg GrugName c s4) (\<lambda>grug s5.
                (s5, Inr \<lparr>pr_Config = cfg, pr_Token = token, pr_Dev = dev, pr_Grug = grug\<rparr>))))))"

text \<open>The workspaces, in the order the map is ranged over; dev may deploy from the garage's own.\<close>

definition workspace_config :: "string \<Rightarrow> garage_config \<Rightarrow> string \<Rightarrow> string \<times> string \<Rightarrow> ws_config" where
  "workspace_config home cfg token nr = \<lparr>wc_Name = fst nr, wc_Remote = snd nr, wc_Root = join_path [home, ''workspaces''],
     wc_Identity = \<lparr>id_Name = gc_GitName cfg, id_Email = gc_GitEmail cfg\<rparr>, wc_Env = [(''GH_TOKEN'', token)], wc_GH = '''', wc_Mise = ''''\<rparr>"

fun open_workspaces ::
  "(string \<Rightarrow> string) \<Rightarrow> 'w machine \<Rightarrow> ws_config list \<Rightarrow> 'w \<Rightarrow> 'w \<times> workspace list res" where
  "open_workspaces quote m [] w = (w, Inr [])"
| "open_workspaces quote m (cfg # cfgs) w =
    try_then (ws_Open quote (mx_host m) cfg w) (\<lambda>ws w1.
    try_then (open_workspaces quote m cfgs w1) (\<lambda>rest w2. (w2, Inr (ws # rest))))"

definition may_deploy :: "string \<Rightarrow> garage_config \<Rightarrow> bool" where
  "may_deploy releases cfg = (releases \<noteq> '''' \<and> map_of (gc_Workspaces cfg) garageWorkspace \<noteq> None)"

definition vacuum :: "(string \<Rightarrow> string) \<Rightarrow> (string \<Rightarrow> 'w \<Rightarrow> 'w \<times> goerr option) \<Rightarrow> string \<Rightarrow> 'w \<Rightarrow> 'w \<times> goerr option" where
  "vacuum quote execute path w =
    (if CHR 0x27 \<in> set path then (w, Some (Opaque (''snapshot path '' @ quote path @ '' has a quote'')))
     else execute (''VACUUM INTO '' @ [CHR 0x27] @ path @ [CHR 0x27]) w)"

subsection \<open>Polling for releases while agents run\<close>

text \<open>
  The polling goroutine: where it is in its loop, what it installed, and what it has sent on the
  channel. \<open>sv_turn\<close> is where the goroutine of each inbox is in \<open>counted\<close>'s handler, and \<open>sv_busy\<close>
  the counter. The calls of the relay, of \<open>Update\<close> and of \<open>Post\<close> are one step each here; how posts
  interleave is in the chatroom's own system.
\<close>

datatype poll_pc = Relaying | Looking | Checking | Stopping | Waiting | Left

datatype turn_pc = Idle | Taken | Counted | Uncounted

record ('s, 'w) serve_sys =
  sv_site :: "('s, 'w) site"
  sv_room :: service
  sv_turn :: "nat \<Rightarrow> turn_pc"
  sv_busy :: int
  sv_pc :: poll_pc
  sv_looked :: bool
  sv_installed :: string
  sv_announced :: nat
  sv_restarting :: "string option"
  sv_done :: bool

text \<open>What the loop is given: the machine, its callers of the bucket and the formats.\<close>

record ('s, 'w) serve_env =
  se_releases :: string
  se_machine :: "'w machine"
  se_mail :: "'s caller"
  se_release :: "'s caller"
  se_quote :: "string \<Rightarrow> string"
  se_marshal :: "message \<Rightarrow> string res"
  se_unmarshal :: "string \<Rightarrow> message option"
  se_deployed :: "string \<Rightarrow> deployed option"

text \<open>The body of the branch that looks for a release.\<close>

definition look :: "('s, 'w) serve_env \<Rightarrow> gotime \<Rightarrow> ('s, 'w) serve_sys \<Rightarrow> ('s, 'w) serve_sys" where
  "look e now v =
    (let (s, r) = Update (se_quote e) (se_release e) (se_machine e) (se_releases e) (sv_site v);
         sha = (case r of Inl err \<Rightarrow> '''' | Inr sha \<Rightarrow> sha);
         v1 = v\<lparr>sv_site := s, sv_installed := sha, sv_looked := True, sv_pc := Checking\<rparr> in
     if sha \<noteq> '''' \<or> sv_looked v then v1
     else
       (let (w, room, t) = Booted (se_deployed e) (se_machine e) (se_releases e) (st_world s);
            v2 = v1\<lparr>sv_site := s\<lparr>st_world := w\<rparr>\<rparr> in
        if room = '''' then v2
        else v2\<lparr>sv_room := fst (Post now room GarageName (''@'' @ DevName @ '' '' @ t) (sv_room v)),
                sv_announced := sv_announced v + 1\<rparr>))"

inductive sstep :: "('s, 'w) serve_env \<Rightarrow> ('s, 'w) serve_sys \<Rightarrow> ('s, 'w) serve_sys \<Rightarrow> bool"
  for e :: "('s, 'w) serve_env" where
  relays: "sv_pc v = Relaying \<Longrightarrow>
    RelayMail (ca_store (se_mail e)) (ca_crypto (se_mail e)) (se_marshal e) (se_unmarshal e) now (ca_name (se_mail e))
      gwait pwait (st_client (sv_site v)) (sv_room v) = Some (c, s, r) \<Longrightarrow>
    sstep e v (v\<lparr>sv_site := (sv_site v)\<lparr>st_client := c\<rparr>, sv_room := s, sv_pc := Looking\<rparr>)"
| looks: "sv_pc v = Looking \<Longrightarrow> se_releases e \<noteq> '''' \<Longrightarrow> sv_installed v = '''' \<Longrightarrow> sstep e v (look e now v)"
| passes: "sv_pc v = Looking \<Longrightarrow> se_releases e = '''' \<or> sv_installed v \<noteq> '''' \<Longrightarrow> sstep e v (v\<lparr>sv_pc := Checking\<rparr>)"
| checks: "sv_pc v = Checking \<Longrightarrow>
    sstep e v (v\<lparr>sv_pc := (if sv_installed v \<noteq> '''' \<and> sv_busy v = 0 then Stopping else Waiting)\<rparr>)"
| stops: "sv_pc v = Stopping \<Longrightarrow>
    sstep e v (v\<lparr>sv_restarting := Some (sv_installed v), sv_done := True, sv_pc := Left\<rparr>)"
| ticks: "sv_pc v = Waiting \<Longrightarrow> sstep e v (v\<lparr>sv_pc := Relaying\<rparr>)"
| ends: "sv_pc v = Waiting \<Longrightarrow> sv_done v \<Longrightarrow> sstep e v (v\<lparr>sv_pc := Left\<rparr>)"
| signalled: "sstep e v (v\<lparr>sv_done := True\<rparr>)"
| posts: "Post now room author t (sv_room v) = (s, x) \<Longrightarrow> sstep e v (v\<lparr>sv_room := s\<rparr>)"
| takes: "sv_turn v i = Idle \<Longrightarrow> take_next i (sv_room v) = Some s \<Longrightarrow>
    sstep e v (v\<lparr>sv_room := s, sv_turn := (sv_turn v)(i := Taken)\<rparr>)"
| counts: "sv_turn v i = Taken \<Longrightarrow>
    sstep e v (v\<lparr>sv_busy := sv_busy v + 1, sv_turn := (sv_turn v)(i := Counted)\<rparr>)"
| acts: "sv_turn v i = Counted \<Longrightarrow> sstep e v (v\<lparr>sv_site := s'\<rparr>)"
| uncounts: "sv_turn v i = Counted \<Longrightarrow>
    sstep e v (v\<lparr>sv_busy := sv_busy v - 1, sv_turn := (sv_turn v)(i := Uncounted)\<rparr>)"
| returns: "sv_turn v i = Uncounted \<Longrightarrow> handled i (sv_room v) = Some s \<Longrightarrow>
    sstep e v (v\<lparr>sv_room := s, sv_turn := (sv_turn v)(i := Idle)\<rparr>)"
| closes: "sv_done v \<Longrightarrow> sv_pc v = Left \<Longrightarrow> sstep e v (v\<lparr>sv_room := cancel (sv_room v)\<rparr>)"
| leaves: "sv_turn v i = Idle \<Longrightarrow> leave i (sv_room v) = Some s \<Longrightarrow> sstep e v (v\<lparr>sv_room := s\<rparr>)"

inductive_cases sstepE: "sstep e v v'"

text \<open>The agents join; then everything runs.\<close>

definition serve_starts :: "('s, 'w) site \<Rightarrow> service \<Rightarrow> ('s, 'w) serve_sys" where
  "serve_starts site s = \<lparr>sv_site = site, sv_room = Join GrugName (Join DevName s), sv_turn = (\<lambda>_. Idle), sv_busy = 0,
     sv_pc = Relaying, sv_looked = False, sv_installed = '''', sv_announced = 0, sv_restarting = None, sv_done = False\<rparr>"

inductive serving :: "('s, 'w) serve_env \<Rightarrow> ('s, 'w) serve_sys \<Rightarrow> bool" for e :: "('s, 'w) serve_env" where
  start: "serving e (serve_starts site s)"
| next_step: "serving e v \<Longrightarrow> sstep e v v' \<Longrightarrow> serving e v'"

subsection \<open>The counter counts, and a restart waits for it\<close>

definition in_turn :: "('s, 'w) serve_sys \<Rightarrow> nat set" where "in_turn v = {i. sv_turn v i = Counted}"

definition serve_inv :: "('s, 'w) serve_sys \<Rightarrow> bool" where
  "serve_inv v = (finite (in_turn v) \<and> sv_busy v = int (card (in_turn v)) \<and>
     sv_announced v \<le> (if sv_looked v then 1 else 0) \<and>
     (sv_pc v = Stopping \<longrightarrow> sv_installed v \<noteq> '''' \<and> sv_restarting v = None) \<and>
     (sv_restarting v \<noteq> None \<longrightarrow> sv_restarting v = Some (sv_installed v) \<and> sv_installed v \<noteq> '''' \<and> sv_pc v = Left))"

lemma look_frame:
  "sv_turn (look e now v) = sv_turn v" "sv_busy (look e now v) = sv_busy v"
  "sv_restarting (look e now v) = sv_restarting v" "sv_pc (look e now v) = Checking"
  "sv_looked (look e now v)" "sv_announced (look e now v) \<le> (if sv_looked v then sv_announced v else sv_announced v + 1)"
  by (simp_all add: look_def Let_def split: prod.splits)

lemma serve_inv_step: "sstep e v v' \<Longrightarrow> serve_inv v \<Longrightarrow> serve_inv v'"
proof (induction rule: sstep.induct)
  case (looks v now)
  then have "sv_restarting v = None" by (auto simp: serve_inv_def)
  moreover have "in_turn (look e now v) = in_turn v" by (simp add: in_turn_def look_frame)
  ultimately show ?case using looks look_frame[of e now v]
    by (auto simp: serve_inv_def split: if_splits)
next
  case (counts v i)
  then have "i \<notin> in_turn v" by (simp add: in_turn_def)
  moreover have "in_turn (v\<lparr>sv_busy := sv_busy v + 1, sv_turn := (sv_turn v)(i := Counted)\<rparr>) = insert i (in_turn v)"
    by (auto simp: in_turn_def)
  ultimately show ?case using counts by (simp add: serve_inv_def)
next
  case (uncounts v i)
  then have "i \<in> in_turn v" by (simp add: in_turn_def)
  then have "int (card (in_turn v - {i})) = int (card (in_turn v)) - 1" if "finite (in_turn v)"
    using that by (metis card_Suc_Diff1 add_diff_cancel_left' of_nat_Suc)
  moreover have "in_turn (v\<lparr>sv_busy := sv_busy v - 1, sv_turn := (sv_turn v)(i := Uncounted)\<rparr>) = in_turn v - {i}"
    by (auto simp: in_turn_def)
  ultimately show ?case using uncounts by (simp add: serve_inv_def)
next
  case (takes v i s)
  moreover have "in_turn (v\<lparr>sv_room := s, sv_turn := (sv_turn v)(i := Taken)\<rparr>) = in_turn v"
    using takes by (auto simp: in_turn_def)
  ultimately show ?case by (simp add: serve_inv_def)
next
  case (returns v i s)
  moreover have "in_turn (v\<lparr>sv_room := s, sv_turn := (sv_turn v)(i := Idle)\<rparr>) = in_turn v"
    using returns by (auto simp: in_turn_def)
  ultimately show ?case by (simp add: serve_inv_def)
qed (auto simp: serve_inv_def in_turn_def)

lemma serving_inv: "serving e v \<Longrightarrow> serve_inv v"
proof (induction rule: serving.induct)
  case (start site s)
  then show ?case by (simp add: serve_inv_def serve_starts_def in_turn_def)
qed (rule serve_inv_step)

lemma announced_once: "serving e v \<Longrightarrow> sv_announced v \<le> 1"
  using serving_inv[of e v] by (auto simp: serve_inv_def split: if_splits)

text \<open>The moment the loop decides to stop; nothing the agents do later takes it back.\<close>

definition decided :: "('s, 'w) serve_env \<Rightarrow> ('s, 'w) serve_sys \<Rightarrow> ('s, 'w) serve_sys \<Rightarrow> bool" where
  "decided e u v = (serving e u \<and> (sstep e)\<^sup>*\<^sup>* u v \<and> sv_pc u = Checking \<and> sv_installed u = sv_installed v \<and>
     sv_busy u = 0)"

lemma decided_step: "decided e u v \<Longrightarrow> sstep e v v' \<Longrightarrow> sv_installed v' = sv_installed v \<Longrightarrow> decided e u v'"
  by (auto simp: decided_def intro: rtranclp.rtrancl_into_rtrancl)

lemma installed_kept:
  assumes "sstep e v v'" "sv_pc v \<noteq> Looking"
  shows "sv_installed v' = sv_installed v"
  using assms by (induction rule: sstep.induct) auto

lemma was_decided:
  assumes "serving e v" "sv_pc v = Stopping \<or> sv_restarting v \<noteq> None"
  shows "\<exists>u. decided e u v"
  using assms
proof (induction rule: serving.induct)
  case (start site s)
  then show ?case by (simp add: serve_starts_def)
next
  case (next_step v v')
  note inv = serving_inv[OF next_step(1)]
  show ?case
  proof (cases "sv_pc v = Stopping \<or> sv_restarting v \<noteq> None")
    case True
    then obtain u where "decided e u v" using next_step(3) by blast
    moreover have "sv_pc v \<noteq> Looking" using True inv by (auto simp: serve_inv_def)
    ultimately show ?thesis using decided_step installed_kept next_step(2) by blast
  next
    case False
    have "sv_pc v = Checking \<and> sv_busy v = 0 \<and> sv_installed v' = sv_installed v"
      using next_step(2) False next_step(4) by (cases rule: sstep.cases) (auto simp: look_frame split: if_splits)
    then have "decided e v v'" using next_step(1,2) by (auto simp: decided_def)
    then show ?thesis by blast
  qed
qed

text \<open>C39. A restart waits for the agents that are mid-turn. In every reachable state the counter is exactly the
  number of agents inside a counted turn, and the room was told of a boot at most once; and where the
  process is restarting into a release, that release had been installed and the loop was about to check
  at some earlier moment of the run, when no agent was inside a counted turn.\<close>

theorem restart_waits_for_agents:
  assumes "serving e v"
  shows "finite {i. sv_turn v i = Counted} \<and> sv_busy v = int (card {i. sv_turn v i = Counted}) \<and> sv_announced v \<le> 1 \<and>
    (\<forall>sha. sv_restarting v = Some sha \<longrightarrow> sha \<noteq> '''' \<and>
      (\<exists>u. serving e u \<and> (sstep e)\<^sup>*\<^sup>* u v \<and> sv_pc u = Checking \<and> sv_installed u = sha \<and> (\<forall>i. sv_turn u i \<noteq> Counted)))"
proof (intro conjI allI impI)
  note inv = serving_inv[OF assms]
  show "finite {i. sv_turn v i = Counted}" "sv_busy v = int (card {i. sv_turn v i = Counted})"
    using inv by (simp_all add: serve_inv_def in_turn_def)
  show "sv_announced v \<le> 1" by (rule announced_once[OF assms])
  fix sha assume r: "sv_restarting v = Some sha"
  then have v: "sv_installed v = sha" "sha \<noteq> ''''" using inv by (auto simp: serve_inv_def)
  then show "sha \<noteq> ''''" by simp
  obtain u where u: "decided e u v" using was_decided[OF assms] r by auto
  then have "serve_inv u" using serving_inv by (auto simp: decided_def)
  then have "in_turn u = {}" using u by (auto simp: decided_def serve_inv_def)
  then show "\<exists>u. serving e u \<and> (sstep e)\<^sup>*\<^sup>* u v \<and> sv_pc u = Checking \<and> sv_installed u = sha \<and> (\<forall>i. sv_turn u i \<noteq> Counted)"
    using u v by (auto simp: decided_def in_turn_def)
qed

subsection \<open>What a restart loses\<close>

definition demo_serve :: "(fake, disk) serve_env" where
  "demo_serve = \<lparr>se_releases = ''/r'', se_machine = demo_machine, se_mail = demo_caller, se_release = demo_caller,
     se_quote = id, se_marshal = (\<lambda>m. Inr (m_Text m)), se_unmarshal = (\<lambda>b. None), se_deployed = (\<lambda>b. None)\<rparr>"

definition demo_mention :: post where
  "demo_mention = \<lparr>p_ID = 1, p_Room = ''ops'', p_Author = ''alice'', p_Text = ''@dev look'', p_Time = 7\<rparr>"

abbreviation demo_relay :: "(fake client \<times> service \<times> goerr option) option" where
  "demo_relay \<equiv> RelayMail fake_store demo_release_crypto (\<lambda>m. Inr (m_Text m)) (\<lambda>b. None) 5 ''mail''
     (\<lambda>_. None) (\<lambda>_. None) (st_client demo_published) (Join GrugName (Join DevName (Open [])))"

definition demo_start :: "(fake, disk) serve_sys" where "demo_start = serve_starts demo_published (Open [])"

definition demo_after_mail :: "(fake, disk) serve_sys" where
  "demo_after_mail = (case demo_relay of
     None \<Rightarrow> demo_start
   | Some (c, s, r) \<Rightarrow> demo_start\<lparr>sv_site := demo_published\<lparr>st_client := c\<rparr>, sv_room := s, sv_pc := Looking\<rparr>)"

definition demo_looked_at :: "(fake, disk) serve_sys" where "demo_looked_at = look demo_serve 6 demo_after_mail"

definition demo_decided :: "(fake, disk) serve_sys" where "demo_decided = demo_looked_at\<lparr>sv_pc := Stopping\<rparr>"

definition demo_asked :: "(fake, disk) serve_sys" where
  "demo_asked = demo_decided\<lparr>sv_room := fst (Post 7 ''ops'' ''alice'' ''@dev look'' (sv_room demo_decided))\<rparr>"

definition demo_stopped :: "(fake, disk) serve_sys" where
  "demo_stopped = demo_asked\<lparr>sv_restarting := Some (sv_installed demo_asked), sv_done := True, sv_pc := Left\<rparr>"

definition demo_closed :: "(fake, disk) serve_sys" where
  "demo_closed = demo_stopped\<lparr>sv_room := cancel (sv_room demo_stopped)\<rparr>"

definition demo_lost :: "(fake, disk) serve_sys" where
  "demo_lost = demo_closed\<lparr>sv_room := the (leave 0 (sv_room demo_closed))\<rparr>"

lemma demo_relay_quiet: "map_option (snd \<circ> snd) demo_relay = Some None"
  by code_simp

lemma demo_release_found: "sv_installed demo_looked_at = ''abcdef1''"
  by code_simp

definition demo_room :: service where
  "demo_room = (Join GrugName (Join DevName (Open [])))\<lparr>ch_cursors := [(''to-host'', 0), (''seen'', 0)]\<rparr>"

lemma demo_relay_room: "map_option (fst \<circ> snd) demo_relay = Some demo_room"
  by code_simp

lemma demo_relayed: obtains c where "demo_relay = Some (c, demo_room, None)"
proof -
  obtain y where "demo_relay = Some y" "(fst \<circ> snd) y = demo_room" "(snd \<circ> snd) y = None"
    using demo_relay_room demo_relay_quiet by (auto simp only: map_option_eq_Some option.inject)
  then show thesis using that[of "fst y"] by (cases y) auto
qed

text \<open>The states of the run, but for the site.\<close>

lemma demo_after_mail_state: "sv_room demo_after_mail = demo_room" "sv_pc demo_after_mail = Looking"
  "sv_installed demo_after_mail = ''''" "sv_busy demo_after_mail = 0" "sv_turn demo_after_mail = (\<lambda>_. Idle)"
  by (rule demo_relayed, simp add: demo_after_mail_def demo_start_def serve_starts_def)+

lemma demo_looked_at_state: "sv_room demo_looked_at = demo_room" "sv_pc demo_looked_at = Checking"
  "sv_busy demo_looked_at = 0" "sv_turn demo_looked_at = (\<lambda>_. Idle)"
proof -
  show "sv_room demo_looked_at = demo_room"
    using demo_release_found demo_after_mail_state
    by (auto simp: demo_looked_at_def look_def Let_def split: prod.splits if_splits)
qed (simp_all add: demo_looked_at_def look_frame demo_after_mail_state)

lemma demo_serving: "serving demo_serve demo_looked_at" "sstep demo_serve demo_looked_at demo_decided"
proof -
  obtain c where c: "demo_relay = Some (c, demo_room, None)" by (rule demo_relayed)
  have "sstep demo_serve demo_start (demo_start\<lparr>sv_site := (sv_site demo_start)\<lparr>st_client := c\<rparr>, sv_room := demo_room,
      sv_pc := Looking\<rparr>)"
  proof (rule sstep.relays)
    show "sv_pc demo_start = Relaying" by (simp add: demo_start_def serve_starts_def)
    show "RelayMail (ca_store (se_mail demo_serve)) (ca_crypto (se_mail demo_serve)) (se_marshal demo_serve)
        (se_unmarshal demo_serve) 5 (ca_name (se_mail demo_serve)) (\<lambda>_. None) (\<lambda>_. None) (st_client (sv_site demo_start))
        (sv_room demo_start) = Some (c, demo_room, None)"
      using c by (simp add: demo_serve_def demo_caller_def demo_start_def serve_starts_def)
  qed
  then have "sstep demo_serve demo_start demo_after_mail"
    using c by (simp add: demo_after_mail_def demo_start_def serve_starts_def)
  moreover have "serving demo_serve demo_start" unfolding demo_start_def by (rule serving.start)
  ultimately have "serving demo_serve demo_after_mail" by (metis serving.next_step)
  moreover have "sstep demo_serve demo_after_mail demo_looked_at"
    unfolding demo_looked_at_def using demo_after_mail_state by (intro sstep.looks) (simp_all add: demo_serve_def)
  ultimately show "serving demo_serve demo_looked_at" by (metis serving.next_step)
  show "sstep demo_serve demo_looked_at demo_decided"
    using sstep.checks[OF demo_looked_at_state(2), of demo_serve] demo_release_found demo_looked_at_state(3)
    by (simp add: demo_decided_def)
qed

abbreviation demo_post :: service where "demo_post \<equiv> fst (Post 7 ''ops'' ''alice'' ''@dev look'' demo_room)"

lemma demo_lost_room: "sv_room demo_asked = demo_post" "sv_room demo_closed = cancel demo_post"
  "sv_room demo_lost = the (leave 0 (cancel demo_post))"
  by (simp_all add: demo_lost_def demo_closed_def demo_stopped_def demo_asked_def demo_decided_def demo_looked_at_state)

lemma demo_room_lost:
  "\<not> Option.is_none (leave 0 (cancel demo_post))"
  "map p_Text (ch_messages (the (leave 0 (cancel demo_post)))) = [''@dev look'']"
  "map ib_gone (ch_inboxes (the (leave 0 (cancel demo_post)))) = [True, False]"
  "map ib_served (ch_inboxes (the (leave 0 (cancel demo_post)))) = [[], []]"
  "map ib_waiting (ch_inboxes (the (leave 0 (cancel demo_post)))) = [ch_messages (the (leave 0 (cancel demo_post))), []]"
  by code_simp+

lemma demo_stopping: "serving demo_serve demo_asked" "serving demo_serve demo_stopped"
proof -
  have "serving demo_serve demo_decided" using demo_serving by (rule serving.next_step)
  moreover have "sstep demo_serve demo_decided demo_asked"
    unfolding demo_asked_def by (rule sstep.posts) (rule prod.collapse[symmetric])
  ultimately show a: "serving demo_serve demo_asked" by (rule serving.next_step)
  have "sv_pc demo_asked = Stopping" by (simp add: demo_asked_def demo_decided_def)
  then show "serving demo_serve demo_stopped"
    unfolding demo_stopped_def by (rule serving.next_step[OF a sstep.stops])
qed

lemma demo_stopped_for: "sv_restarting demo_stopped = Some ''abcdef1''" "sv_pc demo_stopped = Left" "sv_done demo_stopped"
  "sv_turn demo_stopped = (\<lambda>_. Idle)"
  using demo_release_found demo_looked_at_state by (simp_all add: demo_stopped_def demo_asked_def demo_decided_def)

lemma demo_lost_after: "serving demo_serve demo_decided" "(sstep demo_serve)\<^sup>*\<^sup>* demo_decided demo_lost"
proof -
  show "serving demo_serve demo_decided" using demo_serving by (rule serving.next_step)
  have 1: "sstep demo_serve demo_decided demo_asked"
    unfolding demo_asked_def by (rule sstep.posts) (rule prod.collapse[symmetric])
  have 2: "sstep demo_serve demo_asked demo_stopped"
    unfolding demo_stopped_def by (rule sstep.stops) (simp add: demo_asked_def demo_decided_def)
  have 3: "sstep demo_serve demo_stopped demo_closed"
    unfolding demo_closed_def by (rule sstep.closes) (simp_all add: demo_stopped_for)
  obtain s where s: "leave 0 (cancel demo_post) = Some s" using demo_room_lost(1) by (auto simp: Option.is_none_def)
  then have "sstep demo_serve demo_closed (demo_closed\<lparr>sv_room := s\<rparr>)"
    by (intro sstep.leaves[where i = 0])
       (simp_all add: demo_lost_room(2), simp add: demo_closed_def demo_stopped_for)
  moreover have "demo_lost = demo_closed\<lparr>sv_room := s\<rparr>" using s by (simp add: demo_lost_def demo_lost_room)
  ultimately have 4: "sstep demo_serve demo_closed demo_lost" by simp
  show "(sstep demo_serve)\<^sup>*\<^sup>* demo_decided demo_lost"
    by (rule converse_rtranclp_into_rtranclp, rule 1, rule converse_rtranclp_into_rtranclp, rule 2,
        rule converse_rtranclp_into_rtranclp, rule 3, rule r_into_rtranclp, rule 4)
qed

theorem restart_waits_for_agents_witness:
  "sv_restarting demo_stopped = Some ''abcdef1'' \<and> sv_busy demo_stopped = int (card {i. sv_turn demo_stopped i = Counted}) \<and>
   (\<exists>u. serving demo_serve u \<and> (sstep demo_serve)\<^sup>*\<^sup>* u demo_stopped \<and> sv_pc u = Checking \<and> sv_installed u = ''abcdef1'' \<and>
        (\<forall>i. sv_turn u i \<noteq> Counted))"
  using restart_waits_for_agents[OF demo_stopping(2)] demo_stopped_for(1) by blast

text \<open>C40. A restart loses a mention: there is a run in which the loop has found no agent busy and is about to stop
  (\<open>u\<close>), a post that was not there then mentions dev, it is put into dev's inbox, the process stops for the
  release, and the goroutine of that inbox leaves (\<open>v\<close>) with the mention still waiting and nothing
  handled. Inboxes live in memory, and only a post wakes, so nothing hands the mention to dev
  after the restart.\<close>

theorem restart_loses_a_mention:
  "\<exists>u v m. serving demo_serve u \<and> sv_pc u = Stopping \<and> sv_busy u = 0 \<and> ch_messages (sv_room u) = [] \<and>
     (sstep demo_serve)\<^sup>*\<^sup>* u v \<and> sv_restarting v = Some ''abcdef1'' \<and>
     ch_messages (sv_room v) = [m] \<and> DevName \<in> set (mentions (p_Text m)) \<and>
     ch_members (sv_room v) = [(DevName, 0), (GrugName, 1)] \<and>
     ib_gone (ch_inboxes (sv_room v) ! 0) \<and> ib_running (ch_inboxes (sv_room v) ! 0) = None \<and>
     ib_waiting (ch_inboxes (sv_room v) ! 0) = [m] \<and> ib_served (ch_inboxes (sv_room v) ! 0) = []"
proof -
  let ?s = "the (leave 0 (cancel demo_post))"
  obtain m where m: "ch_messages ?s = [m]" "p_Text m = ''@dev look''" using demo_room_lost(2) by auto
  obtain a b where ibs: "ch_inboxes ?s = [a, b]" "ib_gone a" "ib_served a = []" "ib_waiting a = [m]"
    using demo_room_lost(3,4,5) m(1) by auto
  have "DevName \<in> set (mentions ''@dev look'')" "ib_running (ch_inboxes ?s ! 0) = None"
    "ch_members ?s = [(DevName, 0), (GrugName, 1)]" by code_simp+
  moreover have "sv_restarting demo_lost = Some ''abcdef1''"
    using demo_stopped_for(1) by (simp add: demo_lost_def demo_closed_def)
  moreover have "sv_pc demo_decided = Stopping" "sv_busy demo_decided = 0" "ch_messages (sv_room demo_decided) = []"
    using demo_looked_at_state by (simp_all add: demo_decided_def demo_room_def Join_def Open_def)
  ultimately show ?thesis using m ibs demo_lost_after demo_lost_room(3)
    by (intro exI[of _ demo_decided] exI[of _ demo_lost] exI[of _ m]) simp
qed

end
