(* ===== verification/Ui.thy ===== *)
theory Ui
  imports ChatSystem "HOL-Library.Sublist"
begin

section \<open>The chat UI: ui/ui.go\<close>

text \<open>
  The handlers over the chatroom's service. A page is what executing its template gave; executing is
  a parameter, and so is how an error reads. Serving static files and parsing the templates are left
  out. At the end, the event stream is read the way a browser's EventSource does, across reconnects.
\<close>

subsection \<open>Escaping\<close>

text \<open>\<open>url.QueryEscape\<close> and \<open>url.PathEscape\<close> on a byte string, and \<open>url.QueryUnescape\<close>.\<close>

definition hex_digit :: "nat \<Rightarrow> char" where
  "hex_digit n = char_of (if n < 10 then 48 + n else 55 + n)"

definition hex_value :: "char \<Rightarrow> nat option" where
  "hex_value c = (let n = of_char c :: nat in
     if 48 \<le> n \<and> n \<le> 57 then Some (n - 48)
     else if 97 \<le> n \<and> n \<le> 102 then Some (n - 87)
     else if 65 \<le> n \<and> n \<le> 70 then Some (n - 55)
     else None)"

definition percent :: "char \<Rightarrow> string" where
  "percent c = (let n = of_char c :: nat in [CHR ''%'', hex_digit (n div 16), hex_digit (n mod 16)])"

definition unreserved :: "char \<Rightarrow> bool" where
  "unreserved c = (letter c \<or> is_digit c \<or> c \<in> set ''-_.~'')"

definition query_escape :: "string \<Rightarrow> string" where
  "query_escape s = concat (map (\<lambda>c. if unreserved c then [c] else if c = CHR '' '' then ''+'' else percent c) s)"

definition path_escape :: "string \<Rightarrow> string" where
  "path_escape s = concat (map (\<lambda>c. if unreserved c \<or> c \<in> set ''$&+=:@'' then [c] else percent c) s)"

fun query_unescape :: "string \<Rightarrow> string option" where
  "query_unescape [] = Some []"
| "query_unescape (c # s) =
    (if c = CHR ''%'' then
       (case s of
          a # b # r \<Rightarrow>
            (case (hex_value a, hex_value b, query_unescape r) of
               (Some x, Some y, Some t) \<Rightarrow> Some (char_of (16 * x + y) # t)
             | _ \<Rightarrow> None)
        | _ \<Rightarrow> None)
     else map_option ((#) (if c = CHR ''+'' then CHR '' '' else c)) (query_unescape s))"

lemma hex_value_digit: "n < 16 \<Longrightarrow> hex_value (hex_digit n) = Some n"
  by (auto simp: hex_value_def hex_digit_def Let_def)

lemma unescape_percent: "query_unescape (percent c @ s) = map_option ((#) c) (query_unescape s)"
proof -
  have n: "(of_char c :: nat) < 256" by (rule nat_of_char_less_256)
  then have "(of_char c :: nat) div 16 < 16" by (simp add: less_mult_imp_div_less)
  then show ?thesis
    by (auto simp: percent_def Let_def hex_value_digit mult.commute[of 16] split: option.splits)
qed

lemma query_unescape_escape: "query_unescape (query_escape s) = Some s"
proof (induction s)
  case Nil
  then show ?case by (simp add: query_escape_def)
next
  case (Cons c s)
  have step: "query_escape (c # s) = (if unreserved c then [c] else if c = CHR '' '' then ''+'' else percent c) @ query_escape s"
    by (simp add: query_escape_def)
  have "c \<noteq> CHR ''%'' \<and> c \<noteq> CHR ''+''" if "unreserved c"
    using that by (auto simp: unreserved_def letter_def is_digit_def Let_def)
  then show ?case using Cons by (auto simp: step unescape_percent)
qed

subsection \<open>The handlers\<close>

definition asCookie :: string where "asCookie = ''garage-as''"

definition roomURL :: "string \<Rightarrow> string" where "roomURL room = ''/rooms/'' @ path_escape room"

record room_data =
  rd_Room :: string
  rd_As :: string
  rd_Messages :: "post list"
  rd_After :: int

text \<open>The templates: the room list, the room, and the partial for one message.\<close>

record ui_pages =
  up_rooms :: "post list \<Rightarrow> string res"
  up_room :: "room_data \<Rightarrow> string res"
  up_message :: "post \<Rightarrow> string res"

text \<open>A redirect may set a cookie, its name and value.\<close>

datatype ui_resp = Html int string | Failed int string | SeeOther string "(string \<times> string) option"

definition ui_render :: "int \<Rightarrow> string res \<Rightarrow> ui_resp" where
  "ui_render code page = (case page of Inl e \<Rightarrow> Failed 500 ''the page failed to render'' | Inr b \<Rightarrow> Html code b)"

definition ui_rooms :: "ui_pages \<Rightarrow> service \<Rightarrow> service \<times> ui_resp" where
  "ui_rooms pages s =
    (case Rooms s of
       (s', Inl e) \<Rightarrow> (s', Failed 500 (err_text e))
     | (s', Inr rooms) \<Rightarrow> (s', ui_render 200 (up_rooms pages rooms)))"

definition ui_open :: "string \<Rightarrow> ui_resp" where
  "ui_open name = (let name = trim_space name in SeeOther (if name = '''' then ''/'' else roomURL name) None)"

definition ui_read :: "string \<Rightarrow> int \<Rightarrow> service \<Rightarrow> service \<times> room_data res" where
  "ui_read room after s =
    (case Read room after s of
       (s', Inl e) \<Rightarrow> (s', Inl e)
     | (s', Inr msgs) \<Rightarrow> (s', Inr \<lparr>rd_Room = room, rd_As = '''', rd_Messages = msgs,
         rd_After = (if msgs = [] then after else p_ID (last msgs))\<rparr>))"

text \<open>\<open>cookie\<close> is the value of the browser's cookie, if it sent one.\<close>

definition ui_room :: "ui_pages \<Rightarrow> string \<Rightarrow> string option \<Rightarrow> service \<Rightarrow> service \<times> ui_resp" where
  "ui_room pages room cookie s =
    (case ui_read room 0 s of
       (s', Inl e) \<Rightarrow> (s', Failed 500 (err_text e))
     | (s', Inr d) \<Rightarrow>
         let as = (case cookie of None \<Rightarrow> '''' | Some v \<Rightarrow> (case query_unescape v of None \<Rightarrow> '''' | Some a \<Rightarrow> a)) in
         (s', ui_render 200 (up_room pages (d\<lparr>rd_As := as\<rparr>))))"

definition ui_post :: "gotime \<Rightarrow> string \<Rightarrow> string \<Rightarrow> string \<Rightarrow> service \<Rightarrow> service \<times> ui_resp" where
  "ui_post now room as t s =
    (let as = trim_space as; t = trim_space t in
     if as = '''' \<or> t = '''' then (s, Failed 400 ''a name and a message are required'')
     else case Post now room as t s of
       (s', Inl e) \<Rightarrow> (s', Failed 500 (err_text e))
     | (s', Inr m) \<Rightarrow> (s', SeeOther (roomURL room) (Some (asCookie, query_escape as))))"

text \<open>Who posted is who the room's form is filled in for the next time.\<close>

lemma ui_room_remembers:
  assumes "ui_post now room as t s = (s1, SeeOther url (Some (k, v)))" "ui_read room' 0 s2 = (s3, Inr d)"
  shows "ui_room pages room' (Some v) s2 = (s3, ui_render 200 (up_room pages (d\<lparr>rd_As := trim_space as\<rparr>)))"
proof -
  have "v = query_escape (trim_space as)"
    using assms(1) by (auto simp: ui_post_def Let_def split: if_splits prod.splits sum.splits)
  then show ?thesis using assms(2) by (simp add: ui_room_def query_unescape_escape)
qed

subsection \<open>The event stream\<close>

text \<open>The replacer that leaves only newlines, and one message on the stream.\<close>

fun unix_from :: "bool \<Rightarrow> string \<Rightarrow> string" where
  "unix_from cr [] = []"
| "unix_from cr (c # s) =
    (if c = CHR 0x0D then CHR 0x0A # unix_from True s
     else if c = CHR 0x0A \<and> cr then unix_from False s
     else c # unix_from False s)"

definition unix_lines :: "string \<Rightarrow> string" where "unix_lines = unix_from False"

definition event_lines :: "post \<Rightarrow> string \<Rightarrow> string list" where
  "event_lines m html =
    (''id: '' @ itoa (p_ID m)) # map ((@) ''data: '') (split_on (CHR 0x0A) (trim_space (unix_lines html))) @ ['''']"

definition write_lines :: "string list \<Rightarrow> string" where "write_lines ls = concat (map (\<lambda>l. l @ nl) ls)"

text \<open>The loop over what \<open>Wait\<close> returned; False when a message failed to render.\<close>

fun write_events :: "(post \<Rightarrow> string res) \<Rightarrow> post list \<Rightarrow> string \<times> bool" where
  "write_events execute [] = ([], True)"
| "write_events execute (m # msgs) =
    (case execute m of
       Inl e \<Rightarrow> ([], False)
     | Inr html \<Rightarrow> (case write_events execute msgs of (out, ok) \<Rightarrow> (write_lines (event_lines m html) @ out, ok)))"

text \<open>
  A turn of the handler's loop is whether the flush worked, and the rounds of its \<open>Wait\<close>. The stream
  is what was written when it ended, or so far when the turns, or the rounds of one, run out.
\<close>

fun stream ::
  "(post \<Rightarrow> string res) \<Rightarrow> string \<Rightarrow> goerr \<Rightarrow> (bool \<times> (service \<times> bool) list) list \<Rightarrow> int \<Rightarrow> string" where
  "stream execute room ctx_err [] after = []"
| "stream execute room ctx_err ((flushed, rounds) # turns) after =
    (if \<not> flushed then []
     else case Wait room after ctx_err rounds of
       None \<Rightarrow> []
     | Some (msgs, Some e) \<Rightarrow> []
     | Some (msgs, None) \<Rightarrow>
        (case write_events execute msgs of (out, ok) \<Rightarrow>
           if ok then out @ stream execute room ctx_err turns (if msgs = [] then after else p_ID (last msgs)) else out))"

text \<open>\<open>strconv.ParseInt(_, 10, 64)\<close> with its error, and where a stream starts.\<close>

definition parse_id :: "string \<Rightarrow> int option" where
  "parse_id s =
    (let (neg, digits) = (case s of
           [] \<Rightarrow> (False, s)
         | c # r \<Rightarrow> if c = CHR ''-'' then (True, r) else if c = CHR ''+'' then (False, r) else (False, s));
         n = (if neg then - int (digits_val digits) else int (digits_val digits)) in
     if digits = '''' \<or> \<not> list_all is_digit digits \<or> n < - max_int64 - 1 \<or> max_int64 < n then None else Some n)"

definition events_after :: "string \<Rightarrow> string \<Rightarrow> int" where
  "events_after after last_id = (case parse_id last_id of Some n \<Rightarrow> n | None \<Rightarrow> parse_after after)"

definition ui_events ::
  "ui_pages \<Rightarrow> string \<Rightarrow> string \<Rightarrow> string \<Rightarrow> goerr \<Rightarrow> (bool \<times> (service \<times> bool) list) list \<Rightarrow> string" where
  "ui_events pages room after last_id ctx_err turns = stream (up_message pages) room ctx_err turns (events_after after last_id)"

subsection \<open>What a browser reads\<close>

text \<open>
  An EventSource: lines end at a newline, a carriage return or both; a field of a line is up to its
  first colon, and a space after it is dropped; an empty line hands over the data collected, less its
  last newline, with the id. What is not ended by an empty line is not handed over.
\<close>

fun sse_lines :: "bool \<Rightarrow> string \<Rightarrow> string \<Rightarrow> string list" where
  "sse_lines cr acc [] = []"
| "sse_lines cr acc (c # s) =
    (if c = CHR 0x0D then rev acc # sse_lines True [] s
     else if c = CHR 0x0A then (if cr then sse_lines False acc s else rev acc # sse_lines False [] s)
     else sse_lines False (c # acc) s)"

definition sse_field :: "string \<Rightarrow> string \<times> string" where
  "sse_field l = (case cut l '':'' of None \<Rightarrow> (l, '''') | Some (f, v) \<Rightarrow> (f, trim_prefix v '' ''))"

definition sse_step ::
  "string \<times> string \<times> (string \<times> string) list \<Rightarrow> string \<Rightarrow> string \<times> string \<times> (string \<times> string) list" where
  "sse_step = (\<lambda>(i, data, seen) l.
    if l = '''' then (i, '''', if data = '''' then seen else seen @ [(i, butlast data)])
    else case sse_field l of (f, v) \<Rightarrow>
      if f = ''data'' then (i, data @ v @ nl, seen)
      else if f = ''id'' \<and> CHR 0x00 \<notin> set v then (v, data, seen)
      else (i, data, seen))"

definition sse_events :: "string \<Rightarrow> (string \<times> string) list" where
  "sse_events s = snd (snd (foldl sse_step ('''', '''', []) (sse_lines False [] s)))"

text \<open>
  Connections one after the other: each is the turns of its handler and how many bytes arrived. The
  browser asks again with the id of the last event it was handed.
\<close>

fun browse ::
  "ui_pages \<Rightarrow> string \<Rightarrow> string \<Rightarrow> goerr \<Rightarrow> ((bool \<times> (service \<times> bool) list) list \<times> nat) list \<Rightarrow> string \<Rightarrow>
   (string \<times> string) list" where
  "browse pages room after ctx_err [] last_id = []"
| "browse pages room after ctx_err ((turns, n) # conns) last_id =
    (let seen = sse_events (take n (ui_events pages room after last_id ctx_err turns)) in
     seen @ browse pages room after ctx_err conns (if seen = [] then last_id else fst (last seen)))"

subsection \<open>Frames hold\<close>

lemma unix_lines_clean: "CHR 0x0D \<notin> set (unix_lines s)"
proof -
  have "CHR 0x0D \<notin> set (unix_from cr s)" for cr by (induction cr s rule: unix_from.induct) auto
  then show ?thesis by (simp add: unix_lines_def)
qed

lemma event_lines_clean: "l \<in> set (event_lines m html) \<Longrightarrow> CHR 0x0A \<notin> set l \<and> CHR 0x0D \<notin> set l"
proof -
  obtain a b where "unix_lines html = a @ trim_space (unix_lines html) @ b" using trim_space_parts by blast
  then have cr: "CHR 0x0D \<notin> set (trim_space (unix_lines html))" using unix_lines_clean[of html] by (metis Un_iff set_append)
  have "CHR 0x0D \<notin> set x" if "x \<in> set (split_on (CHR 0x0A) s)" "CHR 0x0D \<notin> set s" for x s
    using that by (induction s arbitrary: x) (auto split: list.splits if_splits)
  then have "CHR 0x0A \<notin> set x \<and> CHR 0x0D \<notin> set x" if "x \<in> set (split_on (CHR 0x0A) (trim_space (unix_lines html)))" for x
    using that cr split_on_clean by blast
  moreover have "CHR 0x0A \<notin> set (itoa n) \<and> CHR 0x0D \<notin> set (itoa n)" for n
    using itoa_chars[of "CHR 0x0A" n] itoa_chars[of "CHR 0x0D" n] by (auto simp: is_digit_def)
  moreover assume "l \<in> set (event_lines m html)"
  ultimately show ?thesis by (auto simp: event_lines_def)
qed

lemma sse_lines_text:
  "CHR 0x0A \<notin> set l \<Longrightarrow> CHR 0x0D \<notin> set l \<Longrightarrow> sse_lines False acc (l @ s) = sse_lines False (rev l @ acc) s"
  by (induction l arbitrary: acc) auto

lemma sse_lines_take:
  "\<forall>l \<in> set ls. CHR 0x0A \<notin> set l \<and> CHR 0x0D \<notin> set l \<Longrightarrow> \<exists>j. sse_lines False [] (take n (write_lines ls)) = take j ls"
proof (induction ls arbitrary: n)
  case Nil
  then show ?case by (simp add: write_lines_def)
next
  case (Cons l ls)
  have w: "write_lines (l # ls) = l @ nl @ write_lines ls" by (simp add: write_lines_def)
  show ?case
  proof (cases "n \<le> length l")
    case True
    then have "take n (write_lines (l # ls)) = take n l" by (simp add: w)
    moreover have "CHR 0x0A \<notin> set (take n l) \<and> CHR 0x0D \<notin> set (take n l)" using Cons.prems by (auto dest: in_set_takeD)
    ultimately have "sse_lines False [] (take n (write_lines (l # ls))) = take 0 (l # ls)"
      using sse_lines_text[of "take n l" "[]" "[]"] by simp
    then show ?thesis by blast
  next
    case False
    then have "take n (write_lines (l # ls)) = l @ nl @ take (n - Suc (length l)) (write_lines ls)"
      by (auto simp: w nl_def take_Cons' Suc_diff_le not_le)
    moreover obtain j where "sse_lines False [] (take (n - Suc (length l)) (write_lines ls)) = take j ls"
      using Cons by auto
    ultimately have "sse_lines False [] (take n (write_lines (l # ls))) = take (Suc j) (l # ls)"
      using Cons.prems by (simp add: sse_lines_text nl_def)
    then show ?thesis by blast
  qed
qed

lemma sse_field_id: "sse_field (''id: '' @ v) = (''id'', v)"
  by (simp add: sse_field_def trim_prefix_def)

lemma sse_field_data: "sse_field (''data: '' @ v) = (''data'', v)"
  by (simp add: sse_field_def trim_prefix_def)

lemma sse_data: "foldl sse_step (i, d, seen) (map ((@) ''data: '') ls) = (i, d @ write_lines ls, seen)"
proof (induction ls arbitrary: d)
  case (Cons l ls)
  have "sse_step (i, d, seen) (''data: '' @ l) = (i, d @ l @ nl, seen)"
    using sse_field_data[of l] by (simp add: sse_step_def)
  then show ?case using Cons by (simp add: write_lines_def)
qed (simp add: write_lines_def)

lemma written_join: "ls \<noteq> [] \<Longrightarrow> write_lines ls = join nl ls @ nl"
  by (induction ls) (auto simp: write_lines_def join_Cons)

lemma sse_event:
  "foldl sse_step (i, '''', seen) (event_lines m html) =
    (itoa (p_ID m), '''', seen @ [(itoa (p_ID m), trim_space (unix_lines html))])"
proof -
  let ?t = "trim_space (unix_lines html)"
  have "CHR 0x00 \<notin> set (itoa (p_ID m))" using itoa_chars[of "CHR 0x00" "p_ID m"] by (auto simp: is_digit_def)
  then have "sse_step (i, '''', seen) (''id: '' @ itoa (p_ID m)) = (itoa (p_ID m), '''', seen)"
    using sse_field_id[of "itoa (p_ID m)"] by (simp add: sse_step_def)
  moreover have "write_lines (split_on (CHR 0x0A) ?t) = ?t @ nl"
    by (simp add: written_join) (simp add: nl_def)
  ultimately show ?thesis by (simp add: event_lines_def sse_data) (simp add: sse_step_def nl_def)
qed

lemma sse_no_event: "\<forall>l \<in> set ls. l \<noteq> '''' \<Longrightarrow> snd (snd (foldl sse_step st ls)) = snd (snd st)"
proof (induction ls arbitrary: st)
  case (Cons l ls)
  then have "snd (snd (sse_step st l)) = snd (snd st)" by (auto simp: sse_step_def split: prod.splits)
  then show ?case using Cons by simp
qed simp

lemma sse_event_part:
  assumes "j < length (event_lines m html)"
  shows "snd (snd (foldl sse_step st (take j (event_lines m html)))) = snd (snd st)"
proof (rule sse_no_event, rule ballI)
  fix l assume "l \<in> set (take j (event_lines m html))"
  moreover have "take j (event_lines m html) = take j (butlast (event_lines m html))"
    using assms by (simp add: take_butlast)
  ultimately have "l \<in> set (butlast (event_lines m html))" by (metis in_set_takeD)
  then show "l \<noteq> ''''" by (auto simp: event_lines_def butlast_append)
qed

text \<open>What the page shows of a message: its id and its rendering.\<close>

definition rendered :: "(post \<Rightarrow> string res) \<Rightarrow> post \<Rightarrow> string" where
  "rendered execute m = (case execute m of Inl e \<Rightarrow> '''' | Inr html \<Rightarrow> html)"

definition shown :: "(post \<Rightarrow> string res) \<Rightarrow> post \<Rightarrow> string \<times> string" where
  "shown execute m = (itoa (p_ID m), trim_space (unix_lines (rendered execute m)))"

definition framed :: "(post \<Rightarrow> string res) \<Rightarrow> post list \<Rightarrow> string list" where
  "framed execute ms = concat (map (\<lambda>m. event_lines m (rendered execute m)) ms)"

lemma sse_framed:
  "\<exists>k. snd (snd (foldl sse_step (i, '''', seen) (take j (framed execute ms)))) = seen @ map (shown execute) (take k ms)"
proof (induction ms arbitrary: i seen j)
  case Nil
  then show ?case by (simp add: framed_def)
next
  case (Cons m ms)
  let ?e = "event_lines m (rendered execute m)"
  have f: "framed execute (m # ms) = ?e @ framed execute ms" by (simp add: framed_def)
  show ?case
  proof (cases "j < length ?e")
    case True
    then have "snd (snd (foldl sse_step (i, '''', seen) (take j (framed execute (m # ms))))) = seen"
      using sse_event_part[OF True] by (simp add: f)
    then show ?thesis by (intro exI[of _ 0]) simp
  next
    case False
    obtain k where "snd (snd (foldl sse_step (itoa (p_ID m), '''', seen @ [shown execute m])
        (take (j - length ?e) (framed execute ms)))) = (seen @ [shown execute m]) @ map (shown execute) (take k ms)"
      using Cons.IH by blast
    then show ?thesis using False
      by (intro exI[of _ "Suc k"]) (simp add: f sse_event shown_def)
  qed
qed

text \<open>However much of it arrives, the browser is handed the first messages, whole.\<close>

lemma sse_cut: "\<exists>k. sse_events (take n (write_lines (framed execute ms))) = map (shown execute) (take k ms)"
proof -
  have "\<forall>l \<in> set (framed execute ms). CHR 0x0A \<notin> set l \<and> CHR 0x0D \<notin> set l"
    using event_lines_clean by (fastforce simp: framed_def)
  then obtain j where "sse_lines False [] (take n (write_lines (framed execute ms))) = take j (framed execute ms)"
    using sse_lines_take by blast
  then show ?thesis using sse_framed[of "''''" "[]" j execute ms] by (simp add: sse_events_def)
qed

subsection \<open>What is streamed\<close>

definition newer :: "string \<Rightarrow> int \<Rightarrow> service \<Rightarrow> post list" where
  "newer room after s = filter (\<lambda>m. p_Room m = room \<and> p_ID m > after) (ch_messages s)"

lemma write_events_framed:
  "write_events execute msgs = (out, ok) \<Longrightarrow>
   \<exists>ms. prefix ms msgs \<and> (ok \<longrightarrow> ms = msgs) \<and> out = write_lines (framed execute ms)"
proof (induction msgs arbitrary: out)
  case Nil
  then show ?case by (auto simp: write_lines_def framed_def)
next
  case (Cons m msgs)
  show ?case
  proof (cases "execute m")
    case (Inl e)
    then show ?thesis using Cons.prems by (auto simp: write_lines_def framed_def intro!: exI[of _ "[]"])
  next
    case (Inr html)
    obtain out' where out': "write_events execute msgs = (out', ok)" "out = write_lines (event_lines m html) @ out'"
      using Cons.prems Inr by (auto split: prod.splits)
    obtain ms where "prefix ms msgs" "ok \<longrightarrow> ms = msgs" "out' = write_lines (framed execute ms)" using Cons.IH[OF out'(1)] by blast
    then show ?thesis using out'(2) Inr
      by (intro exI[of _ "m # ms"]) (simp add: framed_def write_lines_def rendered_def)
  qed
qed

lemma Wait_read:
  "Wait room after e rounds = Some (ms, None) \<Longrightarrow>
   ms \<noteq> [] \<and> (\<exists>s b s'. (s, b) \<in> set rounds \<and> Read room after s = (s', Inr ms))"
proof (induction rounds)
  case (Cons r rounds)
  obtain s b where r: "r = (s, b)" by (cases r)
  obtain s' x where x: "Read room after s = (s', x)" by (cases "Read room after s")
  show ?case
  proof (cases x)
    case (Inl err)
    then show ?thesis using Cons.prems r x by simp
  next
    case (Inr msgs)
    show ?thesis
    proof (cases "msgs = []")
      case True
      then have "Wait room after e rounds = Some (ms, None)" using Cons.prems r x Inr by (auto split: if_splits)
      then show ?thesis using Cons.IH by auto
    next
      case False
      then show ?thesis using Cons.prems r x Inr by auto
    qed
  qed
qed simp

lemma ids_ok_prefix: "ids_ok f \<Longrightarrow> prefix (ch_messages s) (ch_messages f) \<Longrightarrow> ids_ok s"
  by (auto simp: ids_ok_def prefix_def sorted_wrt_append)

lemma newer_prefix: "prefix (ch_messages s) (ch_messages f) \<Longrightarrow> prefix (newer room after s) (newer room after f)"
  by (auto simp: newer_def prefix_def)

lemma newer_split:
  assumes "ids_ok f" "prefix ms (newer room after f)" "ms \<noteq> []"
  shows "newer room after f = ms @ newer room (p_ID (last ms)) f"
proof -
  obtain zs where zs: "newer room after f = ms @ zs" using assms(2) by (auto simp: prefix_def)
  let ?L = "p_ID (last ms)"
  have srt: "sorted_wrt (\<lambda>a b. p_ID a < p_ID b) (ms @ zs)"
    unfolding zs[symmetric] newer_def using assms(1) by (auto simp: ids_ok_def sorted_wrt_map intro: sorted_wrt_filter)
  have "last ms \<in> set (newer room after f)" using zs assms(3) by simp
  then have "after < ?L" by (simp add: newer_def)
  then have "newer room ?L f = filter (\<lambda>m. p_ID m > ?L) (newer room after f)"
    by (auto simp: newer_def intro!: filter_cong)
  moreover have "\<forall>m \<in> set ms. \<not> p_ID m > ?L"
  proof
    fix m assume "m \<in> set ms"
    moreover have "ms = butlast ms @ [last ms]" using assms(3) by simp
    ultimately show "\<not> p_ID m > ?L" using srt
      by (metis (no_types, lifting) in_set_conv_decomp less_asym' sorted_wrt_append append_butlast_last_id rotate1.simps(2)
          set_rotate1 set_ConsD list.set_intros(1))
  qed
  moreover have "\<forall>m \<in> set zs. p_ID m > ?L" using srt assms(3) by (auto simp: sorted_wrt_append)
  ultimately have "newer room ?L f = zs" using zs by (simp add: filter_id_conv filter_empty_conv)
  then show ?thesis using zs by simp
qed

text \<open>Every service the rounds of a handler read is the room at some time up to \<open>f\<close>.\<close>

definition reads_of :: "service \<Rightarrow> (bool \<times> (service \<times> bool) list) list \<Rightarrow> bool" where
  "reads_of f turns = (\<forall>(flushed, rounds) \<in> set turns. \<forall>(s, woken) \<in> set rounds. prefix (ch_messages s) (ch_messages f))"

lemma newer_joins:
  assumes "ids_ok f" "prefix ms (newer room after f)"
    and "prefix ms' (newer room (if ms = [] then after else p_ID (last ms)) f)"
  shows "prefix (ms @ ms') (newer room after f)"
  using assms newer_split[OF assms(1,2)] by (cases "ms = []") auto

lemma Wait_newer:
  assumes "ids_ok f" "\<forall>(s, woken) \<in> set rounds. prefix (ch_messages s) (ch_messages f)"
    and "Wait room after e rounds = Some (ms, None)"
  shows "prefix ms (newer room after f)"
proof -
  obtain s b s' where s: "(s, b) \<in> set rounds" "Read room after s = (s', Inr ms)" using Wait_read[OF assms(3)] by blast
  then have p: "prefix (ch_messages s) (ch_messages f)" using assms(2) by auto
  have "ms = newer room after s" unfolding newer_def by (rule Read_result[OF s(2) ids_ok_prefix[OF assms(1) p]])
  then show ?thesis using newer_prefix[OF p] by simp
qed

lemma framed_append: "write_lines (framed execute (ms @ ms')) = write_lines (framed execute ms) @ write_lines (framed execute ms')"
  by (simp add: framed_def write_lines_def)

lemma stream_framed:
  assumes "ids_ok f"
  shows "reads_of f turns \<Longrightarrow>
    \<exists>ms. prefix ms (newer room after f) \<and> stream execute room e turns after = write_lines (framed execute ms)"
proof (induction turns arbitrary: after)
  case Nil
  then show ?case by (intro exI[of _ "[]"]) (simp add: framed_def write_lines_def)
next
  case (Cons turn turns)
  obtain flushed rounds where t: "turn = (flushed, rounds)" by (cases turn)
  have none: ?case if "stream execute room e (turn # turns) after = []"
    using that by (intro exI[of _ "[]"]) (simp add: framed_def write_lines_def)
  show ?case
  proof (cases "\<exists>msgs. flushed \<and> Wait room after e rounds = Some (msgs, None)")
    case False
    then have "stream execute room e (turn # turns) after = []" using t by (auto split: option.splits)
    then show ?thesis by (rule none)
  next
    case True
    then obtain msgs where w: "flushed" "Wait room after e rounds = Some (msgs, None)" by blast
    have p: "prefix msgs (newer room after f)"
      by (rule Wait_newer[OF assms _ w(2)]) (use Cons.prems t in \<open>simp add: reads_of_def\<close>)
    obtain out ok where o: "write_events execute msgs = (out, ok)" by (cases "write_events execute msgs")
    obtain ms where ms: "prefix ms msgs" "ok \<longrightarrow> ms = msgs" "out = write_lines (framed execute ms)"
      using write_events_framed[OF o] by blast
    let ?a = "if msgs = [] then after else p_ID (last msgs)"
    show ?thesis
    proof (cases ok)
      case False
      then have "stream execute room e (turn # turns) after = out" using t w o by simp
      then show ?thesis using ms p by (blast intro: prefix_order.trans)
    next
      case True
      obtain ms' where ms': "prefix ms' (newer room ?a f)" "stream execute room e turns ?a = write_lines (framed execute ms')"
        using Cons.IH[of ?a] Cons.prems by (auto simp: reads_of_def)
      have "prefix (msgs @ ms') (newer room after f)" by (rule newer_joins[OF assms p ms'(1)])
      moreover have "stream execute room e (turn # turns) after = write_lines (framed execute (msgs @ ms'))"
        using t w o True ms ms'(2) by (simp add: framed_append)
      ultimately show ?thesis by blast
    qed
  qed
qed

lemma parse_id_itoa: "\<bar>n\<bar> \<le> max_int64 \<Longrightarrow> parse_id (itoa n) = Some n"
proof -
  assume n: "\<bar>n\<bar> \<le> max_int64"
  have d: "list_all is_digit (nat_digits k)" for k by (rule nat_digits_digits)
  have h: "\<not> is_digit CHR ''-''" "\<not> is_digit CHR ''+''" by (simp_all add: is_digit_def)
  show ?thesis
  proof (cases "n < 0")
    case True
    then show ?thesis using n d by (simp add: parse_id_def itoa_def)
  next
    case False
    obtain c cs where c: "nat_digits (nat n) = c # cs" by (cases "nat_digits (nat n)") auto
    have "c \<noteq> CHR ''-''" "c \<noteq> CHR ''+''" using d[of "nat n"] c h by auto
    moreover have "digits_val (c # cs) = nat n" using c by (metis digits_val_nat_digits)
    ultimately show ?thesis using n False d[of "nat n"]
      unfolding parse_id_def itoa_def by (simp add: c Let_def)
  qed
qed

lemma browse_shows:
  assumes "ids_ok f" "\<forall>m \<in> set (ch_messages f). p_ID m \<le> max_int64"
  shows "\<forall>(turns, n) \<in> set conns. reads_of f turns \<Longrightarrow>
    \<exists>ms. browse pages room after e conns last_id = map (shown (up_message pages)) ms \<and>
      prefix ms (newer room (events_after after last_id) f)"
proof (induction conns arbitrary: last_id)
  case Nil
  then show ?case by simp
next
  case (Cons conn conns)
  obtain turns n where c: "conn = (turns, n)" by (cases conn)
  let ?show = "map (shown (up_message pages))" and ?a = "events_after after last_id"
  obtain ms0 where ms0: "prefix ms0 (newer room ?a f)"
    "ui_events pages room after last_id e turns = write_lines (framed (up_message pages) ms0)"
    using stream_framed[OF assms(1), of turns room ?a "up_message pages" e] Cons.prems c by (auto simp: ui_events_def)
  obtain k where k: "sse_events (take n (ui_events pages room after last_id e turns)) = ?show (take k ms0)"
    unfolding ms0(2) using sse_cut by blast
  define ms where "ms = take k ms0"
  have p: "prefix ms (newer room ?a f)" using ms0(1) by (auto simp: ms_def intro: prefix_order.trans take_is_prefix)
  let ?id = "if ms = [] then last_id else fst (last (?show ms))"
  obtain ms' where ms': "browse pages room after e conns ?id = ?show ms'" "prefix ms' (newer room (events_after after ?id) f)"
    using Cons.IH[of ?id] Cons.prems by auto
  have "events_after after ?id = p_ID (last ms)" if "ms \<noteq> []"
  proof -
    have "last ms \<in> set (newer room ?a f)" using p that by (meson last_in_set set_mono_prefix subsetD)
    then have "last ms \<in> set (ch_messages f)" by (simp add: newer_def)
    then have "\<bar>p_ID (last ms)\<bar> \<le> max_int64" using assms by (auto simp: ids_ok_def)
    then show ?thesis using that by (simp add: last_map shown_def events_after_def parse_id_itoa)
  qed
  then have "prefix ms' (newer room (if ms = [] then ?a else p_ID (last ms)) f)" using ms'(2) by (auto split: if_splits)
  then have "prefix (ms @ ms') (newer room ?a f)" by (rule newer_joins[OF assms(1) p])
  moreover have "browse pages room after e (conn # conns) last_id = ?show (ms @ ms')"
    using c k ms'(1) by (simp add: ms_def[symmetric] Let_def)
  ultimately show ?case by blast
qed

text \<open>A room page and its event stream show the room: each message once, whole, in order. Whatever the
  messages hold, wherever connections break (in the middle of an event, too) and however often the
  browser reconnects: the messages on the page followed by those of the events it was handed are a
  first part of the room's messages, none left out, none twice and none made up.\<close>

theorem a_browser_sees_the_room:
  assumes "ids_ok f" "\<forall>m \<in> set (ch_messages f). p_ID m \<le> max_int64"
    and "ui_read room 0 s = (s', Inr d)" "prefix (ch_messages s) (ch_messages f)"
    and "\<forall>(turns, n) \<in> set conns. reads_of f turns"
  shows "\<exists>ms. browse pages room (itoa (rd_After d)) e conns '''' = map (shown (up_message pages)) ms \<and>
      prefix (rd_Messages d @ ms) (filter (\<lambda>m. p_Room m = room) (ch_messages f))"
proof -
  obtain msgs where r: "Read room 0 s = (s', Inr msgs)" "rd_Messages d = msgs"
    "rd_After d = (if msgs = [] then 0 else p_ID (last msgs))"
    using assms(3) by (auto simp: ui_read_def split: prod.splits sum.splits)
  have "msgs = newer room 0 s" unfolding newer_def by (rule Read_result[OF r(1) ids_ok_prefix[OF assms(1,4)]])
  then have p: "prefix msgs (newer room 0 f)" using newer_prefix[OF assms(4)] by simp
  have all: "newer room 0 f = filter (\<lambda>m. p_Room m = room) (ch_messages f)"
    using assms(1) by (auto simp: newer_def ids_ok_def intro!: filter_cong)
  have "\<bar>rd_After d\<bar> \<le> max_int64"
  proof (cases "msgs = []")
    case True
    then show ?thesis using r(3) by (simp add: max_int64_def)
  next
    case False
    then have "last msgs \<in> set (newer room 0 f)" using p by (meson last_in_set set_mono_prefix subsetD)
    then show ?thesis using False r(3) assms(1,2) by (auto simp: newer_def ids_ok_def)
  qed
  then have a: "events_after (itoa (rd_After d)) '''' = rd_After d"
    by (simp add: events_after_def parse_id_def Let_def parse_after_itoa)
  obtain ms where ms: "browse pages room (itoa (rd_After d)) e conns '''' = map (shown (up_message pages)) ms"
    "prefix ms (newer room (rd_After d) f)"
    using browse_shows[OF assms(1,2,5), of pages room "itoa (rd_After d)" e "''''"] a by auto
  then have "prefix (msgs @ ms) (newer room 0 f)" using newer_joins[OF assms(1) p] r(3) by simp
  then show ?thesis using ms(1) r(2) all by auto
qed

text \<open>A message that tries to look like another event, cut off once in the middle.\<close>

definition demo_said :: "int \<Rightarrow> string \<Rightarrow> post" where
  "demo_said i t = \<lparr>p_ID = i, p_Room = ''ops'', p_Author = ''alice'', p_Text = t, p_Time = 0\<rparr>"

definition demo_forged :: string where "demo_forged = ''a'' @ crlf @ nl @ ''id: 9'' @ nl @ ''data: b''"

definition demo_posts :: "post list" where
  "demo_posts = [demo_said 1 ''hi'', demo_said 2 demo_forged, demo_said 3 ''bye'']"

definition demo_at :: "nat \<Rightarrow> service" where "demo_at n = (Open [])\<lparr>ch_messages := take n demo_posts\<rparr>"

definition demo_pages :: ui_pages where
  "demo_pages = \<lparr>up_rooms = (\<lambda>_. Inr ''''), up_room = (\<lambda>_. Inr ''''), up_message = (\<lambda>m. Inr (nl @ p_Text m))\<rparr>"

definition demo_conns :: "((bool \<times> (service \<times> bool) list) list \<times> nat) list" where
  "demo_conns = [([(True, [(demo_at 1, True), (demo_at 2, True)])], 20), ([(True, [(demo_at 3, True)])], 1000)]"

lemma demo_browse:
  "browse demo_pages ''ops'' ''1'' (Opaque ''gone'') demo_conns '''' =
     [(''2'', ''a'' @ nl @ nl @ ''id: 9'' @ nl @ ''data: b''), (''3'', ''bye'')]"
  by code_simp

lemma demo_page: "ui_read ''ops'' 0 (demo_at 1) = (demo_at 1, Inr \<lparr>rd_Room = ''ops'', rd_As = '''', rd_Messages = [demo_said 1 ''hi''], rd_After = 1\<rparr>)"
  by code_simp

theorem a_browser_sees_the_room_witness:
  "browse demo_pages ''ops'' ''1'' (Opaque ''gone'') demo_conns '''' =
     [(''2'', ''a'' @ nl @ nl @ ''id: 9'' @ nl @ ''data: b''), (''3'', ''bye'')] \<and>
   (\<exists>ms. browse demo_pages ''ops'' ''1'' (Opaque ''gone'') demo_conns '''' = map (shown (up_message demo_pages)) ms \<and>
      prefix (demo_said 1 ''hi'' # ms) (filter (\<lambda>m. p_Room m = ''ops'') (ch_messages (demo_at 3))))"
proof (rule conjI[OF demo_browse])
  have f: "ids_ok (demo_at 3)" "\<forall>m \<in> set (ch_messages (demo_at 3)). p_ID m \<le> max_int64"
    by (simp_all add: demo_at_def demo_posts_def demo_said_def ids_ok_def max_int64_def)
  have p: "prefix (ch_messages (demo_at n)) (ch_messages (demo_at 3))" for n
    by (simp add: demo_at_def demo_posts_def take_Cons' prefix_def split: nat.splits)
  have r: "\<forall>(turns, n) \<in> set demo_conns. reads_of (demo_at 3) turns"
    using p by (simp add: demo_conns_def reads_of_def)
  have "itoa 1 = ''1''" by code_simp
  then show "\<exists>ms. browse demo_pages ''ops'' ''1'' (Opaque ''gone'') demo_conns '''' = map (shown (up_message demo_pages)) ms \<and>
      prefix (demo_said 1 ''hi'' # ms) (filter (\<lambda>m. p_Room m = ''ops'') (ch_messages (demo_at 3)))"
    using a_browser_sees_the_room[OF f demo_page p r, of demo_pages "Opaque ''gone''"] by simp
qed

end
