(* ===== verification/Commands.thy ===== *)
theory Commands
  imports Serve Ui
begin

section \<open>Commands of a host: cmd/garage/init.go, chat.go and backup.go\<close>

text \<open>
  \<open>garage init\<close> over the files of a machine, \<open>garage restore\<close> over a site, and \<open>garage chat\<close> over the
  handlers of the chatroom's HTTP API. A command's result is its exit code and what it printed on the
  two streams. Parsing flags is left out.
\<close>

record outcome =
  oc_code :: int
  oc_stdout :: string
  oc_stderr :: string

definition failed_with :: "string \<Rightarrow> goerr \<Rightarrow> string \<Rightarrow> outcome" where
  "failed_with command e out =
    \<lparr>oc_code = 1, oc_stdout = out, oc_stderr = ''garage '' @ command @ '': '' @ err_text e @ nl\<rparr>"

subsection \<open>init\<close>

text \<open>
  \<open>seed\<close> and \<open>ids\<close> are what the two generators read; \<open>mkdir\<close> and \<open>wrote\<close> are the faults of making the
  directory and of writing the recipient, which replaces a file that is there.
\<close>

definition initKeys ::
  "crypto \<Rightarrow> string res \<Rightarrow> (string \<times> string) res \<Rightarrow> goerr option \<Rightarrow> faults \<Rightarrow> faults \<Rightarrow> goerr option \<Rightarrow> string \<Rightarrow> bool \<Rightarrow>
   files \<Rightarrow> files \<times> outcome" where
  "initKeys cr seed ids mkdir fl fl2 wrote home master fs =
    (let signing = join_path [home, signingKeyFile]; mpath = join_path [home, masterKeyFile] in
     case mkdir of
       Some e \<Rightarrow> (fs, failed_with ''init'' e '''')
     | None \<Rightarrow>
        (case GenerateKey cr seed fl signing fs of
           (fs1, Inl e) \<Rightarrow> (fs1, failed_with ''init'' e '''')
         | (fs1, Inr pub) \<Rightarrow>
            (let out = ''signing key: '' @ signing @ nl @ ''public key (add it to the other side'' @ [CHR 0x27] @ ''s '' @
               trustedFile @ ''):'' @ nl @ ''  '' @ pub @ nl in
             if \<not> master then (fs1, \<lparr>oc_code = 0, oc_stdout = out, oc_stderr = ''''\<rparr>)
             else
               (case GenerateMaster ids fl2 mpath fs1 of
                  (fs2, Inl e) \<Rightarrow> (fs2, failed_with ''init'' e out)
                | (fs2, Inr recipient) \<Rightarrow>
                   (case wrote of
                      Some e \<Rightarrow> (fs2, failed_with ''init'' e out)
                    | None \<Rightarrow>
                       (AList.update (join_path [home, recipientFile]) (recipient @ nl) fs2,
                        \<lparr>oc_code = 0, oc_stdout = out @ ''master key: '' @ mpath @
                           '' (keep one offline copy in a password manager)'' @ nl @ ''recipient (put it in the laptop'' @
                           [CHR 0x27] @ ''s '' @ recipientFile @ ''):'' @ nl @ ''  '' @ recipient @ nl,
                         oc_stderr = ''''\<rparr>))))))"


text \<open>Where the signing key can be loaded, \<open>garage init -master\<close> fails and writes nothing.\<close>

lemma init_after_init:
  assumes "LoadKey fault (join_path [home, signingKeyFile]) fs = Inr key"
  shows "fst (initKeys cr seed ids mkdir fl fl2 wrote home master fs) = fs"
    "oc_code (snd (initKeys cr seed ids mkdir fl fl2 wrote home master fs)) = 1"
proof -
  have "map_of fs (join_path [home, signingKeyFile]) \<noteq> None"
    using assms by (auto simp: LoadKey_def read_file_def split: option.splits)
  then have g: "\<exists>e. GenerateKey cr seed fl (join_path [home, signingKeyFile]) fs = (fs, Inl e)"
    by (auto simp: GenerateKey_def write_new_def split: option.splits sum.splits)
  then obtain e where "GenerateKey cr seed fl (join_path [home, signingKeyFile]) fs = (fs, Inl e)" by blast
  then show "fst (initKeys cr seed ids mkdir fl fl2 wrote home master fs) = fs"
    "oc_code (snd (initKeys cr seed ids mkdir fl fl2 wrote home master fs)) = 1"
    by (simp_all add: initKeys_def Let_def failed_with_def split: option.splits)
qed

text \<open>
  \<open>garage serve\<close> on a machine that lacks the master key says to run \<open>garage init -master\<close>; its
  signing key was loaded just before, so that command fails and leaves the files as they are.
\<close>

lemma init_master_hint_fails:
  assumes "openBucket m getenv cr r2 home store limits w = Inr client"
    and "file_of m (join_path [home, signingKeyFile]) w = (fault, fs)"
  shows "fst (initKeys cr' seed ids mkdir fl fl2 wrote home True fs) = fs"
    "oc_code (snd (initKeys cr' seed ids mkdir fl fl2 wrote home True fs)) = 1"
proof -
  obtain key where "LoadKey fault (join_path [home, signingKeyFile]) fs = Inr key"
    using assms by (auto simp: openBucket_def Let_def split: sum.splits)
  then show "fst (initKeys cr' seed ids mkdir fl fl2 wrote home True fs) = fs"
    "oc_code (snd (initKeys cr' seed ids mkdir fl fl2 wrote home True fs)) = 1"
    by (rule init_after_init)+
qed

subsection \<open>restore\<close>

definition restore_prints :: "string list \<times> goerr option \<Rightarrow> outcome" where
  "restore_prints = (\<lambda>(restored, err).
    let out = concat (map (\<lambda>p. ''restored '' @ p @ nl) restored) in
    case err of
      Some e \<Rightarrow> failed_with ''restore'' e out
    | None \<Rightarrow> \<lparr>oc_code = 0,
        oc_stdout = (if restored = [] then ''nothing to restore: every database is there, or has no snapshot'' @ nl else out),
        oc_stderr = ''''\<rparr>)"

text \<open>\<open>client\<close> is what \<open>openBucket\<close> gives for R2 and \<open>serveLimits\<close>; \<open>waits\<close> are the limiter's outcomes.\<close>

definition restore_command ::
  "(string \<Rightarrow> string) \<Rightarrow> 'w machine \<Rightarrow> string \<Rightarrow> 's caller \<Rightarrow> ('w \<Rightarrow> 's client res) \<Rightarrow> goerr option list \<Rightarrow> 'w \<Rightarrow> 'w \<times> outcome" where
  "restore_command quote m home c client waits w =
    (case client w of
       Inl e \<Rightarrow> (w, failed_with ''restore'' e '''')
     | Inr cl \<Rightarrow>
        (case Restore quote (as_caller ''backup'' c) m (database_paths home) \<lparr>st_client = cl, st_waits = waits, st_world = w\<rparr> of
           (s, r) \<Rightarrow> (st_world s, restore_prints r)))"

subsection \<open>chat\<close>

definition print_post :: "(gotime \<Rightarrow> string) \<Rightarrow> post \<Rightarrow> string" where
  "print_post hhmm m = ''['' @ hhmm (p_Time m) @ ''] '' @ p_Author m @ '': '' @ p_Text m @ nl"

text \<open>
  The client's two calls: an exchange either fails on the way or gives the API's answer, whose status
  line is \<open>status\<close>. A body of another shape does not decode.
\<close>

definition chat_read :: "(int \<Rightarrow> string) \<Rightarrow> string \<Rightarrow> http_resp res \<Rightarrow> post list res" where
  "chat_read status room r =
    (case r of
       Inl e \<Rightarrow> Inl e
     | Inr (code, body) \<Rightarrow>
        if code \<noteq> 200 then Inl (Opaque (''read '' @ room @ '': '' @ status code))
        else (case body of HttpPosts msgs \<Rightarrow> Inr msgs | _ \<Rightarrow> Inl (Opaque ''json: cannot unmarshal'')))"

definition chat_post :: "(int \<Rightarrow> string) \<Rightarrow> string \<Rightarrow> http_resp res \<Rightarrow> goerr option" where
  "chat_post status room r =
    (case r of
       Inl e \<Rightarrow> Some e
     | Inr (code, body) \<Rightarrow> if code \<noteq> 201 then Some (Opaque (''post to '' @ room @ '': '' @ status code)) else None)"

text \<open>
  The goroutine that follows the room: what it prints, given for each of its requests whether it got
  through and the rounds of the \<open>Wait\<close> behind it. It ends at the first request that fails.
\<close>

fun chat_follow :: "(int \<Rightarrow> string) \<Rightarrow> string \<Rightarrow> (goerr option \<times> (service \<times> bool) list) list \<Rightarrow> int \<Rightarrow> post list" where
  "chat_follow status room [] after = []"
| "chat_follow status room ((lost, rounds) # reqs) after =
    (case Wait room after DeadlineExceeded rounds of
       None \<Rightarrow> []
     | Some waited \<Rightarrow>
        (case chat_read status room (case lost of Some e \<Rightarrow> Inl e
            | None \<Rightarrow> Inr (snd (http_get room (itoa after) (Some waited) (fst (last rounds))))) of
           Inl e \<Rightarrow> []
         | Inr msgs \<Rightarrow> msgs @ chat_follow status room reqs (if msgs = [] then after else p_ID (last msgs))))"

text \<open>The first read, without waiting, and then following it.\<close>

definition chat_shows ::
  "(int \<Rightarrow> string) \<Rightarrow> string \<Rightarrow> service \<Rightarrow> (goerr option \<times> (service \<times> bool) list) list \<Rightarrow> post list res" where
  "chat_shows status room s reqs =
    (case chat_read status room (Inr (snd (http_get room (itoa 0) None s))) of
       Inl e \<Rightarrow> Inl e
     | Inr msgs \<Rightarrow> Inr (msgs @ chat_follow status room reqs (if msgs = [] then 0 else p_ID (last msgs))))"

text \<open>A line typed is posted unless it is empty; an error is printed and the next line read.\<close>

fun chat_lines ::
  "(int \<Rightarrow> string) \<Rightarrow> string \<Rightarrow> string \<Rightarrow> (gotime \<times> goerr option \<times> string) list \<Rightarrow> service \<Rightarrow> service \<times> string" where
  "chat_lines status room author [] s = (s, '''')"
| "chat_lines status room author ((now, lost, line) # ls) s =
    (if line = '''' then chat_lines status room author ls s
     else case (case lost of Some e \<Rightarrow> (s, Inl e) | None \<Rightarrow> map_prod id Inr (http_post now room author line s)) of
       (s1, r) \<Rightarrow>
        (case chat_lines status room author ls s1 of
           (s2, err) \<Rightarrow> (s2, (case chat_post status room r of None \<Rightarrow> '''' | Some e \<Rightarrow> ''garage chat: '' @ err_text e @ nl) @ err)))"

lemma Wait_error: "Wait room after e rounds = Some (msgs, Some err) \<Longrightarrow> msgs = []"
  by (induction rounds) (auto split: sum.splits if_splits)

text \<open>
  What a chat prints is a first part of the room's messages after the last it showed, in their order:
  it skips none and repeats none, whatever requests time out or fail.
\<close>

lemma follow_newer:
  assumes "ids_ok f"
  shows "\<forall>(lost, rounds) \<in> set reqs. \<forall>(s, woken) \<in> set rounds. prefix (ch_messages s) (ch_messages f) \<Longrightarrow>
    prefix (chat_follow status room reqs after) (newer room after f)"
proof (induction reqs arbitrary: after)
  case (Cons req reqs)
  obtain lost rounds where q: "req = (lost, rounds)" by (cases req)
  show ?case
  proof (cases "Wait room after DeadlineExceeded rounds")
    case None
    then show ?thesis using q by simp
  next
    case (Some waited)
    obtain msgs err where w: "waited = (msgs, err)" by (cases waited)
    show ?thesis
    proof (cases "lost = None \<and> err = None")
      case True
      have p: "prefix msgs (newer room after f)"
        by (rule Wait_newer[OF assms _ Some[unfolded w, simplified True[THEN conjunct2]]]) (use Cons.prems q in auto)
      let ?a = "if msgs = [] then after else p_ID (last msgs)"
      have "prefix (chat_follow status room reqs ?a) (newer room ?a f)" using Cons.IH Cons.prems by simp
      then have "prefix (msgs @ chat_follow status room reqs ?a) (newer room after f)" by (rule newer_joins[OF assms p])
      then show ?thesis using q Some w True by (simp add: http_get_def chat_read_def)
    next
      case False
      have "msgs = []" if "err = Some e" for e using Wait_error Some w that by simp
      moreover have "prefix (chat_follow status room reqs after) (newer room after f)" using Cons.IH Cons.prems by simp
      ultimately show ?thesis using q Some w False by (cases lost; cases err) (simp_all add: http_get_def chat_read_def)
    qed
  qed
qed simp

lemma a_chat_shows_the_room:
  assumes "ids_ok f" "prefix (ch_messages s) (ch_messages f)" "chat_shows status room s reqs = Inr seen"
    and "\<forall>(lost, rounds) \<in> set reqs. \<forall>(s, woken) \<in> set rounds. prefix (ch_messages s) (ch_messages f)"
  shows "prefix seen (newer room 0 f)"
proof -
  have z: "parse_after (itoa 0) = 0" by (rule parse_after_itoa) (simp add: max_int64_def)
  then obtain s' msgs where r: "Read room 0 s = (s', Inr msgs)"
    and seen: "seen = msgs @ chat_follow status room reqs (if msgs = [] then 0 else p_ID (last msgs))"
    using assms(3) by (auto simp: chat_shows_def chat_read_def http_get_def Let_def split: prod.splits sum.splits)
  have "msgs = newer room 0 s" unfolding newer_def by (rule Read_result[OF r ids_ok_prefix[OF assms(1,2)]])
  then have p: "prefix msgs (newer room 0 f)" using newer_prefix[OF assms(2)] by simp
  show ?thesis unfolding seen by (rule newer_joins[OF assms(1) p follow_newer[OF assms(1,4)]])
qed

end
