(* ===== verification/Spec2Isabelle.thy ===== *)
theory Spec2Isabelle
  imports Sandbox Docker Bucket Chatroom Agent AgentDb Bridge Tools Host Workspace Reviews Mcp Settled Garage Serve Ui Commands
begin

text \<open>
  A verification development of the Agent Garage: the host that runs coding agents in sandboxes, the
  bucket through which a laptop talks to it, the chatroom the agents meet in, the agents themselves,
  and the harness (\<open>metaharness\<close>) they are built from. Names of definitions are the code's,
  with a prefix where two packages use the same one.

  Conventions. A Go function that can fail returns \<open>'a res\<close>, an error or a value, or an error option
  where there is no value; what it changes is passed through explicitly. A call into code that is not
  in the repository (the turso and SQLite drivers, S3, XMPP and Telegram servers, \<open>git\<close>, \<open>gh\<close>, a
  shell, JSON, schemas, \<open>%q\<close>) is a parameter, or a list of faults that says which of its calls fail.
  A loop that nothing in the code bounds is the prelude's \<open>loop\<close>, whose value is None when it never
  ends; a claim that it returns is proved by a measure. There is no other fuel.

  Shared theories. \<open>Prelude\<close> has Go's error values (\<open>errors.Is\<close> and wrapping), association-list
  lemmas and \<open>loop\<close>; \<open>GoText\<close> has the parts of \<open>strings\<close> and \<open>strconv\<close> the program uses, with
  counting, splitting and replacing related by joins; \<open>Utf8\<close> has decoding and encoding of runes and
  that both orders of strings agree; \<open>Base64\<close> has \<open>encoding/base64\<close>; \<open>Paths\<close> has
  \<open>path/filepath\<close> on Unix: a path is a list of elements and \<open>clean\<close> is a function of it.

  Sandbox manager (\<open>metaharness/sandbox\<close>). \<open>SandboxBase\<close> has the states, events, registry
  and the backend interface; \<open>SandboxEntry\<close> has the per-sandbox goroutine (\<open>entry\<close> in
  manager.go), one definition per request; \<open>SandboxManager\<close> has Open, Destroy, Close and
  Reconcile; \<open>SandboxSystem\<close> has the interleavings as an inductive step relation; and
  \<open>Sandbox\<close> has the properties: one goroutine per name, commands only to running sandboxes as long as no
  observation is overtaken, idle clocks, events that follow the transition table, and a race that leaves
  a backend running or sends a command to a stopped one.
  \<open>Host\<close> has the machine underneath as a record of the \<open>os\<close> calls made, and local.go on it.
  \<open>Docker\<close> has the backend that keeps a container per sandbox, over a record of the Docker client's
  calls, and shows that a sandbox outlives everything but its destruction.

  Object store and its clients (\<open>bucket\<close>). \<open>BucketStore\<close> states the store contract as the
  locale \<open>object_store\<close> (\<open>exact_store\<close> where nothing fails) and models the fake, its interpretation, and
  the R2 adapter, which keeps both over an S3 service as documented;
  \<open>BucketClient\<close> has the signing client and its keys; \<open>BucketMail\<close> has mail and secrets;
  \<open>Bucket\<close> has the properties: nothing unsigned is returned, one winner of a create, no update lost
  by a swap (\<open>tagged_store\<close>: tags tell bodies apart), and what is sealed or mailed comes out again.

  Chatroom (\<open>chatroom\<close>). \<open>ChatBase\<close> has the service, its tables and its operations;
  \<open>ChatMail\<close> has the mail bridge and the HTTP routes; \<open>ChatSystem\<close> has the interleavings;
  \<open>ChatRelay\<close> has the relay pass; \<open>Chatroom\<close> has the properties: who is woken, how often, and that
  reading, waiting and relaying miss nothing (or do, when a first pass fails).

  Model seam and agent (\<open>metaharness/model\<close>, \<open>metaharness/agent\<close>). \<open>ModelBase\<close> has
  messages, the collecting of streams and the provider adapter; \<open>AgentBase\<close> has sessions, the turn
  loop, typed tools and resuming; \<open>Agent\<close> has the properties of a turn: what it reports is what it
  appends, every call made in it is answered, and it ends when the model stops asking.

  Agent database (\<open>metaharness/agentdb\<close>, \<open>metaharness/memory\<close> and the stores of
  \<open>metaharness/testutils\<close>). \<open>TursoBase\<close> has the tables, the driver's faults and the migrations;
  \<open>KvStore\<close>, \<open>SessionStore\<close> and \<open>NoteStore\<close> each state a contract as a locale and interpret it on
  the turso store and on the in-memory one; \<open>AgentDb\<close> has the properties.

  Bridges (\<open>metaharness/bridge\<close>). \<open>BridgeText\<close> has the texts both bridges send, \<open>XmppSchedule\<close>
  the times of day, \<open>XmppBridge\<close> and \<open>TelegramBot\<close> the two bridges, \<open>Bridge\<close> the properties.

  Tools (\<open>metaharness/tools\<close>). \<open>FileTools\<close> has every tool with the scripts it sends to a shell, and
  \<open>shell_documented\<close>, what is relied on of that shell; \<open>Tools\<close> proves edits exact and reading on
  complete.

  MCP client (\<open>metaharness/mcp\<close>). \<open>McpBase\<close> has the server handle, dialled once and redialled, its
  calls and the tools wrapped for an agent, over a record of the SDK's calls; \<open>Mcp\<close> proves what names
  are exposed, how often a call is made, and with the interleavings of its callers that no
  connection is left open.

  Agents (\<open>workspace\<close>, \<open>agents\<close>). \<open>Workspace\<close> has clones, worktrees and pull requests over the
  host, and that credentials stay out of what is printed; \<open>AgentKit\<close> has what the agents share;
  \<open>DevAgent\<close> and \<open>GrugAgent\<close> have the two agents; \<open>Agents\<close> carries a fact about the world through
  a turn and exchanges tools that cannot be told apart, and with that shows that agents cannot
  deploy; \<open>Reviews\<close> puts grug on its turso database, through the locale \<open>review_store\<close>, and shows that
  reviewing comes to an end.

  Hosting (\<open>hosting\<close>). \<open>Machine\<close> has what an operation sees of a host's files and of the bucket, and
  \<open>files_documented\<close>, what is relied on of those files when any call may fail; \<open>Release\<close> has release.go
  and \<open>Hosting\<close> shows that only signed releases run; \<open>Rollout\<close> shows, with \<open>disk_works\<close>, that a
  published release is installed, and that what is deployed was tested; \<open>Backup\<close> has backup.go and that
  a restore brings back a backup. \<open>Setup\<close> has setup.go, a definition per step; \<open>HostSetup\<close> says what is
  relied on of the host (\<open>host_documented\<close>) and what each step leaves when it succeeds; \<open>Settled\<close> shows
  what all of it leaves, that a second setup changes nothing, and that a ruleset whose loading failed is
  never loaded.

  The command (\<open>cmd/garage\<close>). \<open>Garage\<close> has config.go and remote.go: where a machine keeps its keys,
  opening the bucket, and what the laptop does through it; it shows that a configuration the laptop
  accepts is the one the host loads, and that mail is shown once over all sessions. \<open>Serve\<close> has serve.go:
  what is read before the host listens, over the operations above, and its polling goroutine
  together with the chatroom and the agents it counts, as a step relation; it shows that a restart
  waits for the agents that are mid-turn, and that it can lose a mention that no agent has taken up.
  \<open>Commands\<close> has \<open>garage init\<close>, \<open>garage restore\<close> and \<open>garage chat\<close>, and shows that a chat prints the room's
  messages in order, none twice.

  Chat UI (\<open>ui\<close>). \<open>Ui\<close> has the handlers over the chatroom's service and the event stream; it shows that
  a browser that reads the page and then the stream, across reconnects, sees the room's messages once
  each and in order, whatever they contain.

  Not modelled. The rest of \<open>cmd/garage\<close> (flags, usage, reading standard input, listening on sockets,
  systemd and signals) and of \<open>ui\<close> (templates, static files) is glue over the parts above.
  \<open>metaharness/mcp/lightpanda\<close> starts a browser process; \<open>metaharness/examples\<close> and the programs under \<open>cmd\<close> wire the library for a demo; the
  contract suites of \<open>metaharness/testutils\<close> are tests, whose contracts are the locales above. The
  drivers, servers, cryptography, JSON and templates are not in the repository. Scheduling of
  goroutines is modelled where a component's state is shared (the sandbox manager, the chatroom, the
  MCP client, the host process) and not elsewhere; deadlines are outcomes of the calls they end.
\<close>

end
